(* ===== verification/Go_Prelude.thy ===== *)
theory Go_Prelude
  imports Main "HOL-Library.Word"
begin

text \<open>
  What every component of the model shares: Go's 64-bit integers, instants and durations, the
  sources of entropy and time an operation reads, slicing with bounds checks, the iteration order
  of a map, and the contract of an operation-driven state machine whose invariant is lifted from
  one operation to whole runs.
\<close>

named_theorems go_defs \<open>definitions of operations, unfolded by the component proofs\<close>
named_theorems inv_intros \<open>preservation of the invariants by the operations\<close>

section \<open>Integers, instants, durations\<close>

text \<open>
  \<open>int64\<close> (and Go's \<open>int\<close> on a 64-bit target) is a 64-bit word: \<open>+\<close> and \<open>-\<close> wrap around as Go's do,
  comparisons are signed and are written on \<open>sint\<close>.  An instant is the number of nanoseconds since
  1970 (unbounded: the range of Go's \<open>time.Time\<close> is far larger than any reading of the clock); a
  duration is a number of nanoseconds in the range of \<open>int64\<close>, and the difference of two instants
  saturates at the ends of that range, as \<open>Time.Sub\<close> documents.
\<close>

type_synonym int64 = "64 word"
type_synonym byte = "8 word"
type_synonym time = int
type_synonym duration = int

definition max_duration :: duration where
  "max_duration = 2 ^ 63 - 1"

definition min_duration :: duration where
  "min_duration = - (2 ^ 63)"

definition time_sub :: "time \<Rightarrow> time \<Rightarrow> duration" where
  "time_sub t u = max min_duration (min max_duration (t - u))"

text \<open>The zero value of \<open>time.Time\<close>: 1 January of year 1, in nanoseconds relative to 1970.\<close>

definition zero_time :: time where
  "zero_time = - 62135596800 * 10 ^ 9"

lemma time_sub_le_iff: "time_sub t u \<le> d \<longleftrightarrow> t - u \<le> d" if "0 \<le> d" "d < max_duration"
  using that by (auto simp: time_sub_def min_duration_def max_duration_def min_def max_def)

lemma sint64_bounds: "- (2 ^ 63) \<le> sint (x :: int64)" "sint (x :: int64) < 2 ^ 63"
  using sint_greater_eq [of x] sint_lt [of x] by simp_all

lemma sint64_wrap: "sint (word_of_int k :: int64) = (k + 2 ^ 63) mod 2 ^ 64 - 2 ^ 63"
  by (simp add: int_word_sint)

lemma sint64_of_int: "- (2 ^ 63) \<le> k \<Longrightarrow> k < 2 ^ 63 \<Longrightarrow> sint (word_of_int k :: int64) = k"
  by (simp add: sint64_wrap)

lemma sint64_add_wrap: "sint (a + b :: int64) = (sint a + sint b + 2 ^ 63) mod 2 ^ 64 - 2 ^ 63"
  by (simp add: sint_word_ariths signed_take_bit_eq_take_bit_shift take_bit_eq_mod)

lemma sint64_add:
  "- (2 ^ 63) \<le> sint a + sint b \<Longrightarrow> sint a + sint b < 2 ^ 63 \<Longrightarrow>
    sint (a + b) = sint a + sint (b :: int64)"
  by (simp add: sint64_add_wrap)

lemma sint64_add_overflow:
  assumes "2 ^ 63 \<le> sint a + sint (b :: int64)"
  shows "sint (a + b) = sint a + sint b - 2 ^ 64"
proof -
  have "(sint a + sint b + 2 ^ 63) mod 2 ^ 64 = (sint a + sint b - 2 ^ 63) mod 2 ^ 64"
    by (simp add: mod_eq_dvd_iff)
  also have "\<dots> = sint a + sint b - 2 ^ 63"
    using assms sint64_bounds [of a] sint64_bounds [of b] by simp
  finally show ?thesis by (simp add: sint64_add_wrap)
qed

lemma sint64_minus: "- (2 ^ 63) < sint a \<Longrightarrow> sint (- a :: int64) = - sint a"
  using sint64_bounds [of a]
  by (simp add: sint_word_ariths signed_take_bit_eq_take_bit_shift take_bit_eq_mod)

lemma sint64_inject: "sint a = sint b \<longleftrightarrow> a = (b :: int64)"
  by (auto intro: signed_word_eqI)

lemma sint64_sum_list:
  assumes "\<forall>x \<in> set xs. 0 \<le> sint (x :: int64)" "sum_list (map sint xs) < 2 ^ 63"
  shows "sint (sum_list xs) = sum_list (map sint xs)"
  using assms
proof (induction xs)
  case Nil
  then show ?case by simp
next
  case (Cons x xs)
  have nonneg: "0 \<le> sum_list (map sint xs)" "0 \<le> sint x"
    using Cons.prems(1) by (auto intro!: sum_list_nonneg)
  with Cons have IH: "sint (sum_list xs) = sum_list (map sint xs)" by simp
  have "sint (x + sum_list xs) = sint x + sint (sum_list xs)"
    using Cons.prems(2) nonneg IH by (intro sint64_add) simp_all
  then show ?case by (simp add: IH)
qed

section \<open>What an operation reads from outside\<close>

text \<open>
  An operation of a service reads the entropy source and the clock, possibly several times.  They
  are given to it as an environment: \<open>entropy e i\<close> is the outcome of the \<open>i\<close>-th call of
  \<open>rand.Read\<close> in the operation (the bytes drawn, or \<open>None\<close> when the source fails) and
  \<open>clock e i\<close> is the \<open>i\<close>-th reading of \<open>time.Now\<close>.
\<close>

record env =
  entropy :: "nat \<Rightarrow> byte list option"
  clock :: "nat \<Rightarrow> time"

text \<open>A deterministic environment for the concrete instances of the theorems.\<close>

definition example_env :: "byte \<Rightarrow> env" where
  "example_env b = \<lparr>entropy = (\<lambda>i. Some [b, of_nat i]), clock = (\<lambda>i. int i)\<rparr>"

text \<open>Maps of the requests: \<open>None\<close> is the nil map of Go.\<close>

type_synonym metadata = "(string \<rightharpoonup> string) option"

text \<open>
  The order in which \<open>range\<close> visits the keys of a map is not specified by Go.  A loop over a map
  is given the order \<open>ks\<close>, any enumeration of the keys without repetition.
\<close>

definition iteration_of :: "'k list \<Rightarrow> ('k \<rightharpoonup> 'v) \<Rightarrow> bool" where
  "iteration_of ks m \<longleftrightarrow> distinct ks \<and> set ks = dom m"

lemma iteration_of_find:
  assumes "iteration_of ks m"
  shows "find P ks = None \<longleftrightarrow> (\<forall>k \<in> dom m. \<not> P k)"
  using assms by (auto simp: iteration_of_def find_None_iff)

lemma find_SomeD: "find P ks = Some k \<Longrightarrow> P k \<and> k \<in> set ks"
  by (induction ks) (auto split: if_splits)

text \<open>Summing the parts of a list that a finite set of keys splits it into sums the list.\<close>

lemma sum_list_by_key:
  fixes f :: "'a \<Rightarrow> 'b :: comm_monoid_add"
  assumes "finite D" "\<forall>x \<in> set xs. key x \<in> D"
  shows "(\<Sum>k \<in> D. sum_list (map f (filter (\<lambda>x. key x = k) xs))) = sum_list (map f xs)"
  using assms(2)
proof (induction xs)
  case Nil
  then show ?case by simp
next
  case (Cons x xs)
  have "(\<Sum>k \<in> D. sum_list (map f (filter (\<lambda>x. key x = k) (x # xs)))) =
    (\<Sum>k \<in> D. (if key x = k then f x else 0) + sum_list (map f (filter (\<lambda>x. key x = k) xs)))"
    by (rule sum.cong) simp_all
  also have "\<dots> = f x + sum_list (map f xs)"
    using Cons assms(1) by (simp add: sum.distrib)
  finally show ?case by simp
qed

section \<open>Slices and pagination\<close>

text \<open>
  The list operations of the services end with the same statements: an offset at or beyond the
  end gives the empty page, the end of the page is \<open>offset + limit\<close> (which may wrap) cut at the
  length, and the slice expression \<open>filtered[offset:end]\<close> panics (\<open>None\<close>) unless
  \<open>0 \<le> offset \<le> end\<close>.
\<close>

definition go_slice :: "'a list \<Rightarrow> int \<Rightarrow> int \<Rightarrow> 'a list option" where
  "go_slice xs i j =
     (if 0 \<le> i \<and> i \<le> j \<and> j \<le> int (length xs)
      then Some (take (nat (j - i)) (drop (nat i) xs)) else None)"

definition paginate :: "'a list \<Rightarrow> int64 \<Rightarrow> int64 \<Rightarrow> ('a list \<times> nat) option" where
  "paginate xs limit offset =
     (let total = length xs in
      if int total \<le> sint offset then Some ([], total)
      else
        let j = sint (offset + limit);
            j = (if int total < j then int total else j)
        in map_option (\<lambda>page. (page, total)) (go_slice xs (sint offset) j))"

lemma paginate_page:
  assumes "0 \<le> sint offset" "0 \<le> sint limit" "sint offset + sint limit < 2 ^ 63"
  shows "paginate xs limit offset =
    Some (take (nat (sint limit)) (drop (nat (sint offset)) xs), length xs)"
proof -
  have "sint (offset + limit) = sint offset + sint limit"
    using assms by (intro sint64_add) auto
  then show ?thesis
    using assms by (auto simp: paginate_def go_slice_def Let_def min_def nat_le_iff nat_less_iff)
qed

lemma paginate_total: "paginate xs limit offset = Some (page, n) \<Longrightarrow> n = length xs"
  by (auto simp: paginate_def Let_def split: if_splits)

lemma paginate_subset: "paginate xs limit offset = Some (page, n) \<Longrightarrow> set page \<subseteq> set xs"
  by (auto simp: paginate_def go_slice_def Let_def split: if_splits
           dest!: in_set_takeD in_set_dropD)

lemma paginate_negative_offset: "sint offset < 0 \<Longrightarrow> paginate xs limit offset = None"
  by (auto simp: paginate_def go_slice_def Let_def)

section \<open>Strings\<close>

text \<open>
  Strings are lists of bytes.  \<open>split_char\<close> is \<open>strings.Split\<close> with a separator of one character,
  \<open>split_first\<close> is \<open>strings.SplitN(s, sep, 2)\<close> (one part or two).  \<open>lower_byte\<close> and \<open>trim_space\<close> are
  \<open>strings.ToLower\<close> and \<open>strings.TrimSpace\<close> on ASCII text, which is what the sources compare.
\<close>

fun split_char :: "char \<Rightarrow> string \<Rightarrow> string list" where
  "split_char c [] = [[]]"
| "split_char c (x # xs) =
     (if x = c then [] # split_char c xs
      else case split_char c xs of [] \<Rightarrow> [[x]] | p # ps \<Rightarrow> (x # p) # ps)"

fun split_first :: "char \<Rightarrow> string \<Rightarrow> string \<times> string option" where
  "split_first c [] = ([], None)"
| "split_first c (x # xs) =
     (if x = c then ([], Some xs) else case split_first c xs of (p, rest) \<Rightarrow> (x # p, rest))"

definition lower_byte :: "char \<Rightarrow> char" where
  "lower_byte c = (if 65 \<le> (of_char c :: nat) \<and> (of_char c :: nat) \<le> 90 then char_of (of_char c + 32 :: nat) else c)"

text \<open>
  \<open>strings.EqualFold\<close> with an ASCII text: besides the two cases of a letter only the long s (bytes
  C5 BF) and the Kelvin sign (bytes E2 84 AA) fold to ASCII.
\<close>

fun fold_case :: "string \<Rightarrow> string" where
  "fold_case (c # d # e # s) =
     (if c = CHR 0xC5 \<and> d = CHR 0xBF then CHR ''s'' # fold_case (e # s)
      else if c = CHR 0xE2 \<and> d = CHR 0x84 \<and> e = CHR 0xAA then CHR ''k'' # fold_case s
      else lower_byte c # fold_case (d # e # s))"
| "fold_case [c, d] = (if c = CHR 0xC5 \<and> d = CHR 0xBF then ''s'' else [lower_byte c, lower_byte d])"
| "fold_case [c] = [lower_byte c]"
| "fold_case [] = []"

definition is_space :: "char \<Rightarrow> bool" where
  "is_space c \<longleftrightarrow> c = CHR '' '' \<or> 9 \<le> (of_char c :: nat) \<and> (of_char c :: nat) \<le> 13"

definition trim_space :: "string \<Rightarrow> string" where
  "trim_space s = rev (dropWhile is_space (rev (dropWhile is_space s)))"

text \<open>Decimal numerals, as \<open>fmt\<close> prints them, and the number they denote.\<close>

fun decimal :: "nat \<Rightarrow> string" where
  "decimal n = (if n < 10 then [char_of (48 + n)] else decimal (n div 10) @ [char_of (48 + n mod 10)])"

declare decimal.simps [simp del]

text \<open>\<open>%d\<close> of an integer.\<close>

definition signed_decimal :: "int64 \<Rightarrow> string" where
  "signed_decimal n = (if sint n < 0 then CHR ''-'' # decimal (nat (- sint n)) else decimal (nat (sint n)))"

definition numeral_value :: "string \<Rightarrow> nat" where
  "numeral_value s = foldl (\<lambda>n c. 10 * n + (of_char c - 48)) 0 s"

lemma digit_value: "d < 10 \<Longrightarrow> (of_char (char_of (48 + d)) :: nat) = 48 + d"
  by (simp add: of_char_of)

lemma numeral_value_decimal: "numeral_value (decimal n) = n"
proof (induction n rule: decimal.induct)
  case (1 n)
  show ?case
  proof (cases "n < 10")
    case True
    then show ?thesis by (subst decimal.simps) (simp add: numeral_value_def digit_value)
  next
    case False
    with 1 have "numeral_value (decimal (n div 10)) = n div 10" by simp
    with False show ?thesis by (subst decimal.simps) (simp add: numeral_value_def digit_value)
  qed
qed

text \<open>\<open>strings.HasPrefix\<close>, \<open>HasSuffix\<close>, \<open>TrimPrefix\<close> and \<open>TrimSuffix\<close>.\<close>

definition has_prefix :: "string \<Rightarrow> string \<Rightarrow> bool" where
  "has_prefix s p \<longleftrightarrow> take (length p) s = p"

definition has_suffix :: "string \<Rightarrow> string \<Rightarrow> bool" where
  "has_suffix s t \<longleftrightarrow> length t \<le> length s \<and> drop (length s - length t) s = t"

definition trim_prefix :: "string \<Rightarrow> string \<Rightarrow> string" where
  "trim_prefix p s = (if has_prefix s p then drop (length p) s else s)"

definition trim_suffix :: "string \<Rightarrow> string \<Rightarrow> string" where
  "trim_suffix p s = rev (trim_prefix (rev p) (rev s))"

lemma has_prefix_iff: "has_prefix s p \<longleftrightarrow> (\<exists>u. s = p @ u)"
  unfolding has_prefix_def by (metis append_eq_conv_conj append_take_drop_id)

lemma has_suffix_iff: "has_suffix s t \<longleftrightarrow> (\<exists>u. s = u @ t)"
proof
  assume "has_suffix s t"
  then have "s = take (length s - length t) s @ t"
    unfolding has_suffix_def by (metis append_take_drop_id)
  then show "\<exists>u. s = u @ t" ..
qed (auto simp: has_suffix_def)

text \<open>\<open>strings.Join\<close>.\<close>

definition join :: "string \<Rightarrow> string list \<Rightarrow> string" where
  "join sep parts = (case parts of [] \<Rightarrow> [] | p # ps \<Rightarrow> p @ concat (map (\<lambda>q. sep @ q) ps))"

lemma split_char_nonempty [simp]: "split_char c s \<noteq> []"
  by (induction s) (auto split: list.splits)

lemma split_char_append:
  "c \<notin> set p \<Longrightarrow> split_char c (p @ c # s) = p # split_char c s"
  by (induction p) auto

lemma split_char_none: "c \<notin> set p \<Longrightarrow> split_char c p = [p]"
  by (induction p) auto

lemma split_char_parts:
  "split_char c s = p # ps \<Longrightarrow> c \<notin> set p \<and> s = p @ concat (map (\<lambda>q. c # q) ps)"
proof (induction s arbitrary: p ps)
  case (Cons x xs)
  show ?case
  proof (cases "x = c")
    case True
    then obtain q qs where "split_char c xs = q # qs" by (metis split_char_nonempty neq_Nil_conv)
    with Cons True show ?thesis by auto
  next
    case False
    then obtain q qs where "split_char c xs = q # qs" by (metis split_char_nonempty neq_Nil_conv)
    with Cons.IH [OF this] Cons.prems False show ?thesis by auto
  qed
qed simp

lemma split_first_some: "c \<notin> set p \<Longrightarrow> split_first c (p @ c # s) = (p, Some s)"
  by (induction p) auto

section \<open>Machines driven by operations\<close>

text \<open>
  Several components are states that only their operations change.  \<open>run step ops s\<close> applies a
  list of operations in order; \<open>run_ok\<close> says that each is within its side condition in the state
  it meets.  The locale is the contract under which an invariant, and a relation between the
  first and the last state, hold along every run.
\<close>

primrec run :: "('o \<Rightarrow> 's \<Rightarrow> 's) \<Rightarrow> 'o list \<Rightarrow> 's \<Rightarrow> 's" where
  "run step [] s = s"
| "run step (a # ops) s = run step ops (step a s)"

primrec run_ok :: "('o \<Rightarrow> 's \<Rightarrow> 's) \<Rightarrow> ('s \<Rightarrow> 'o \<Rightarrow> bool) \<Rightarrow> 'o list \<Rightarrow> 's \<Rightarrow> bool" where
  "run_ok step ok [] s \<longleftrightarrow> True"
| "run_ok step ok (a # ops) s \<longleftrightarrow> ok s a \<and> run_ok step ok ops (step a s)"

lemma run_append: "run step (xs @ ys) s = run step ys (run step xs s)"
  by (induction xs arbitrary: s) simp_all

lemma run_ok_append:
  "run_ok step ok (xs @ ys) s \<longleftrightarrow> run_ok step ok xs s \<and> run_ok step ok ys (run step xs s)"
  by (induction xs arbitrary: s) simp_all

locale invariant_machine =
  fixes step :: "'o \<Rightarrow> 's \<Rightarrow> 's"
    and ok :: "'s \<Rightarrow> 'o \<Rightarrow> bool"
    and inv :: "'s \<Rightarrow> bool"
  assumes step_inv: "inv s \<Longrightarrow> ok s a \<Longrightarrow> inv (step a s)"
begin

lemma run_inv: "inv s \<Longrightarrow> run_ok step ok ops s \<Longrightarrow> inv (run step ops s)"
  by (induction ops arbitrary: s) (auto intro: step_inv)

end

text \<open>A machine with, in addition, a preorder its steps follow (what is never undone).\<close>

locale monotone_machine = invariant_machine +
  fixes le :: "'s \<Rightarrow> 's \<Rightarrow> bool"
  assumes le_refl: "le s s"
    and le_trans: "le s t \<Longrightarrow> le t u \<Longrightarrow> le s u"
    and step_le: "inv s \<Longrightarrow> ok s a \<Longrightarrow> le s (step a s)"
begin

lemma run_le: "inv s \<Longrightarrow> run_ok step ok ops s \<Longrightarrow> le s (run step ops s)"
  by (induction ops arbitrary: s) (auto intro: le_refl le_trans step_inv step_le)

end

end
