(* ===== verification/Identifiers.thy ===== *)
theory Identifiers
  imports Go_Prelude
begin

text \<open>
  The identifiers the services give to their records: \<open>generateID\<close>, of which the ledger, account,
  transaction and notification services hold identical copies, with the hexadecimal encoder it uses.  Two draws that differ give
  different identifiers, and the prefix keeps the kinds of records apart.
\<close>

text \<open>\<open>hex.EncodeToString\<close>: two lower-case digits for each byte.\<close>

definition hex_digit :: "nat \<Rightarrow> char" where
  "hex_digit n = ''0123456789abcdef'' ! n"

definition hex_byte :: "byte \<Rightarrow> string" where
  "hex_byte b = [hex_digit (unat b div 16), hex_digit (unat b mod 16)]"

primrec hex_encode :: "byte list \<Rightarrow> string" where
  "hex_encode [] = []"
| "hex_encode (b # bs) = hex_byte b @ hex_encode bs"

text \<open>
  \<open>generateID\<close>: \<open>None\<close> when \<open>rand.Read\<close> fails.  Most callers ignore the error
  (\<open>id, _ := generateID(...)\<close>) and go on with the empty string.
\<close>

definition generateID :: "string \<Rightarrow> byte list option \<Rightarrow> string option" where
  "generateID prefix draw = map_option (\<lambda>bs. prefix @ ''_'' @ hex_encode bs) draw"

definition id_or_empty :: "string option \<Rightarrow> string" where
  "id_or_empty r = (case r of None \<Rightarrow> [] | Some i \<Rightarrow> i)"

lemma hex_digit_inj: "m < 16 \<Longrightarrow> n < 16 \<Longrightarrow> hex_digit m = hex_digit n \<longleftrightarrow> m = n"
proof -
  assume "m < 16" "n < 16"
  moreover have "distinct ''0123456789abcdef''" "length ''0123456789abcdef'' = 16" by simp_all
  ultimately show ?thesis
    unfolding hex_digit_def by (metis nth_eq_iff_index_eq)
qed

lemma length_hex_encode [simp]: "length (hex_encode bs) = 2 * length bs"
  by (induction bs) (simp_all add: hex_byte_def)

lemma hex_byte_inj: "hex_byte a = hex_byte b \<longleftrightarrow> a = b"
proof
  assume eq: "hex_byte a = hex_byte b"
  have lt: "unat a < 256" "unat b < 256"
    using unsigned_less [of a] unsigned_less [of b] by simp_all
  have "unat a div 16 = unat b div 16" "unat a mod 16 = unat b mod 16"
    using eq lt by (auto simp: hex_byte_def hex_digit_inj)
  then have "unat a = unat b" by (metis div_mult_mod_eq)
  then show "a = b" by (simp add: word_unat_eq_iff)
qed simp

lemma length_hex_byte [simp]: "length (hex_byte b) = 2"
  by (simp add: hex_byte_def)

lemma hex_byte_nonempty [simp]: "hex_byte b \<noteq> []"
  by (simp add: hex_byte_def)

lemma hex_encode_inj: "hex_encode as = hex_encode bs \<longleftrightarrow> as = bs"
proof (induction as arbitrary: bs)
  case Nil
  then show ?case by (cases bs) (auto simp: hex_byte_def)
next
  case (Cons a as)
  then show ?case
    by (cases bs) (simp_all add: append_eq_append_conv hex_byte_inj hex_byte_nonempty)
qed

text \<open>
  \<open>generateID\<close> never gives the same identifier for two draws of bytes that differ (whatever
  their lengths), and never gives one identifier under two prefixes of the same length.
\<close>

theorem generateID_injective:
  assumes "length p = length q" "generateID p (Some as) = generateID q (Some bs)"
  shows "p = q \<and> as = bs"
  using assms by (simp add: generateID_def hex_encode_inj)

theorem generateID_injective_witness:
  "generateID ''acc'' (Some [10, 255]) = Some ''acc_0aff'' \<and>
   ([10, 255] :: byte list) = [10, 255]"
  using generateID_injective [of "''acc''" "''acc''" "[10, 255]" "[10, 255]"]
  by (simp add: generateID_def hex_byte_def hex_digit_def)

end
