(* ===== verification/Base64.thy ===== *)
theory Base64
  imports Go_Prelude
begin

text \<open>
  What the sources use of \<open>encoding/base64\<close>: \<open>RawURLEncoding\<close>, the URL alphabet without padding.  The
  decoder is the one of the library in its default mode: it skips line breaks and ignores the
  unused low bits of a last, shorter group.  Decoding is the inverse of encoding; the random keys
  and tokens, which are encodings, differ when the bytes drawn differ.
\<close>

definition b64_alphabet :: string where
  "b64_alphabet = ''ABCDEFGHIJKLMNOPQRSTUVWXYZabcdefghijklmnopqrstuvwxyz0123456789-_''"

definition b64_char :: "nat \<Rightarrow> char" where
  "b64_char n = b64_alphabet ! n"

fun b64_encode :: "byte list \<Rightarrow> string" where
  "b64_encode [] = []"
| "b64_encode [a] = [b64_char (unat a div 4), b64_char (unat a mod 4 * 16)]"
| "b64_encode [a, b] =
     [b64_char (unat a div 4), b64_char (unat a mod 4 * 16 + unat b div 16), b64_char (unat b mod 16 * 4)]"
| "b64_encode (a # b # c # rest) =
     [b64_char (unat a div 4), b64_char (unat a mod 4 * 16 + unat b div 16),
      b64_char (unat b mod 16 * 4 + unat c div 64), b64_char (unat c mod 64)] @ b64_encode rest"

definition b64_value :: "char \<Rightarrow> nat option" where
  "b64_value c = find (\<lambda>n. b64_char n = c) [0..<64]"

fun b64_groups :: "nat list \<Rightarrow> byte list option" where
  "b64_groups [] = Some []"
| "b64_groups [w] = None"
| "b64_groups [w, x] = Some [of_nat (w * 4 + x div 16)]"
| "b64_groups [w, x, y] = Some [of_nat (w * 4 + x div 16), of_nat (x mod 16 * 16 + y div 4)]"
| "b64_groups (w # x # y # z # rest) =
     map_option (\<lambda>bs. of_nat (w * 4 + x div 16) # of_nat (x mod 16 * 16 + y div 4) #
       of_nat (y mod 4 * 64 + z) # bs) (b64_groups rest)"

definition b64_decode :: "string \<Rightarrow> byte list option" where
  "b64_decode s =
     (case those (map b64_value (filter (\<lambda>c. c \<noteq> CHR 0x0A \<and> c \<noteq> CHR 0x0D) s)) of
        None \<Rightarrow> None | Some vs \<Rightarrow> b64_groups vs)"

lemma length_b64_alphabet [simp]: "length b64_alphabet = 64"
  by (simp add: b64_alphabet_def)

lemma distinct_b64_alphabet: "distinct b64_alphabet"
  by (simp add: b64_alphabet_def)

lemma b64_char_inj: "m < 64 \<Longrightarrow> n < 64 \<Longrightarrow> b64_char m = b64_char n \<longleftrightarrow> m = n"
  unfolding b64_char_def using distinct_b64_alphabet by (simp add: nth_eq_iff_index_eq)

lemma b64_char_no_break: "n < 64 \<Longrightarrow> b64_char n \<noteq> CHR 0x0A \<and> b64_char n \<noteq> CHR 0x0D"
proof -
  assume "n < 64"
  then have "b64_char n \<in> set b64_alphabet" by (simp add: b64_char_def)
  moreover have "CHR 0x0A \<notin> set b64_alphabet" "CHR 0x0D \<notin> set b64_alphabet"
    by (simp_all add: b64_alphabet_def)
  ultimately show ?thesis by metis
qed

lemma b64_value_char [simp]: "n < 64 \<Longrightarrow> b64_value (b64_char n) = Some n"
proof -
  assume n: "n < 64"
  then have "find (\<lambda>m. b64_char m = b64_char n) [0..<64] \<noteq> None"
    by (auto simp: find_None_iff)
  then obtain m where "find (\<lambda>m. b64_char m = b64_char n) [0..<64] = Some m" by blast
  with n show ?thesis
    using find_SomeD [of "\<lambda>m. b64_char m = b64_char n" "[0..<64]" m] b64_char_inj [of m n]
    by (simp add: b64_value_def)
qed

text \<open>The values of the characters of an encoding.\<close>

fun b64_values :: "byte list \<Rightarrow> nat list" where
  "b64_values [] = []"
| "b64_values [a] = [unat a div 4, unat a mod 4 * 16]"
| "b64_values [a, b] = [unat a div 4, unat a mod 4 * 16 + unat b div 16, unat b mod 16 * 4]"
| "b64_values (a # b # c # rest) =
     [unat a div 4, unat a mod 4 * 16 + unat b div 16, unat b mod 16 * 4 + unat c div 64, unat c mod 64] @
     b64_values rest"

lemma byte_less: "unat (a :: byte) < 256"
  using unsigned_less [of a] by simp

lemma b64_values_less: "v \<in> set (b64_values bs) \<Longrightarrow> v < 64"
proof (induction bs rule: b64_values.induct)
  case (2 a)
  then show ?case using byte_less [of a] by auto
next
  case (3 a b)
  then show ?case using byte_less [of a] byte_less [of b] by auto
next
  case (4 a b c rest)
  then show ?case using byte_less [of a] byte_less [of b] byte_less [of c] by auto
qed simp

lemma b64_encode_values: "b64_encode bs = map b64_char (b64_values bs)"
  by (induction bs rule: b64_values.induct) simp_all

lemma b64_join:
  "unat (a :: byte) div 4 * 4 + (unat a mod 4 * 16 + n) div 16 = unat a" if "n < 16" for n
  using that by (metis add.commute add_0 div_less div_mult_mod_eq div_mult_self1 zero_neq_numeral)

lemma b64_groups_values: "b64_groups (b64_values bs) = Some bs"
proof (induction bs rule: b64_values.induct)
  case (2 a)
  then show ?case using b64_join [of 0 a] by simp
next
  case (3 a b)
  then show ?case using b64_join [of "unat b div 16" a] byte_less [of b] by (simp add: mod_mult_self2)
next
  case (4 a b c rest)
  then show ?case using b64_join [of "unat b div 16" a] byte_less [of b] byte_less [of c] by simp
qed simp

lemma b64_decode_encode: "b64_decode (b64_encode bs) = Some bs"
proof -
  have "filter (\<lambda>c. c \<noteq> CHR 0x0A \<and> c \<noteq> CHR 0x0D) (b64_encode bs) = b64_encode bs"
    unfolding b64_encode_values
    by (rule filter_True) (auto dest: b64_values_less b64_char_no_break)
  moreover have "those (map b64_value (map b64_char vs)) = Some vs" if "\<forall>v \<in> set vs. v < 64" for vs
    using that by (induction vs) simp_all
  ultimately show ?thesis
    using b64_values_less by (simp add: b64_decode_def b64_encode_values b64_groups_values)
qed

lemma b64_encode_inj: "b64_encode as = b64_encode bs \<longleftrightarrow> as = bs"
  by (metis b64_decode_encode option.inject)

end
