(* ===== verification/ApiKeys.thy ===== *)
theory ApiKeys
  imports Identifiers Base64
begin

text \<open>
  API keys, \<open>libs/auth/apikey.go\<close>, and the in-memory token manager of \<open>libs/auth/auth.go\<close>: keys stored
  under the hash of the raw key, their validation with a fixed-window rate limit, revocation,
  deletion and rotation.

  SHA-256 is the parameter \<open>sha256\<close> of the operations that hash.  An operation that looks for an
  identifier ranges over the map of keys, in the order \<open>ks\<close>.  The instants an operation reads are
  numbered by their place in the code.  Keys are pointers in the code: a write to a key is a write
  to the stored key, and for operations that run one after the other nothing comes between.
\<close>

section \<open>Keys\<close>

text \<open>\<open>randomString(n)\<close>: the encoding of the \<open>n\<close> bytes drawn.\<close>

definition randomString :: "byte list option \<Rightarrow> string option" where
  "randomString draw = map_option b64_encode draw"

record APIKey =
  ak_ID :: string
  ak_KeyHash :: string
  ak_Prefix :: string
  ak_Name :: string
  ak_Description :: string
  ak_ServiceID :: string
  ak_TenantID :: string
  ak_Roles :: "string list"
  ak_Scopes :: "string list"
  ak_RateLimit :: int64
  ak_Metadata :: metadata
  ak_IsActive :: bool
  ak_ExpiresAt :: "time option"
  ak_LastUsedAt :: "time option"
  ak_CreatedAt :: time
  ak_UpdatedAt :: time

datatype apikey_error =
  ErrAPIKeyNotFound | ErrAPIKeyExpired | ErrAPIKeyDisabled | ErrAPIKeyRateLimit | AkErrEntropy

definition IsExpired :: "time \<Rightarrow> APIKey \<Rightarrow> bool" where
  "IsExpired now k = (case ak_ExpiresAt k of None \<Rightarrow> False | Some exp \<Rightarrow> exp < now)"

record rateLimitBucket =
  rb_count :: int64
  rb_resetTime :: time

record APIKeyManager =
  km_keys :: "string \<rightharpoonup> APIKey"
  km_prefixMap :: "string \<rightharpoonup> string"
  km_rateLimits :: "string \<rightharpoonup> rateLimitBucket"

definition NewAPIKeyManager :: APIKeyManager where
  "NewAPIKeyManager = \<lparr>km_keys = Map.empty, km_prefixMap = Map.empty, km_rateLimits = Map.empty\<rparr>"

definition hashAPIKey :: "(string \<Rightarrow> byte list) \<Rightarrow> string \<Rightarrow> string" where
  "hashAPIKey sha256 rawKey = hex_encode (sha256 rawKey)"

definition GenerateAPIKey ::
  "(string \<Rightarrow> byte list) \<Rightarrow> env \<Rightarrow> string \<Rightarrow> string \<Rightarrow> string \<Rightarrow> string list \<Rightarrow> int64 \<Rightarrow> duration option \<Rightarrow>
    APIKeyManager \<Rightarrow> (apikey_error + string \<times> APIKey) \<times> APIKeyManager" where
  "GenerateAPIKey sha256 e name serviceID tenantID roles rateLimit expiresIn m =
     (case randomString (entropy e 0) of
        None \<Rightarrow> (Inl AkErrEntropy, m)
      | Some rawKey \<Rightarrow>
        let keyHash = hashAPIKey sha256 rawKey;
            prefix = take 8 rawKey
        in case randomString (entropy e 1) of
             None \<Rightarrow> (Inl AkErrEntropy, m)
           | Some i \<Rightarrow>
             let now = clock e 0;
                 apiKey = \<lparr>ak_ID = i, ak_KeyHash = keyHash, ak_Prefix = prefix, ak_Name = name,
                   ak_Description = [], ak_ServiceID = serviceID, ak_TenantID = tenantID,
                   ak_Roles = roles, ak_Scopes = [], ak_RateLimit = rateLimit, ak_Metadata = None,
                   ak_IsActive = True, ak_ExpiresAt = map_option (\<lambda>d. now + d) expiresIn,
                   ak_LastUsedAt = None, ak_CreatedAt = now, ak_UpdatedAt = now\<rparr>
             in (Inr (rawKey, apiKey),
                 m\<lparr>km_keys := (km_keys m)(keyHash \<mapsto> apiKey),
                   km_prefixMap := (km_prefixMap m)(prefix \<mapsto> keyHash)\<rparr>))"

definition minute :: duration where
  "minute = 60 * 10 ^ 9"

definition checkRateLimit ::
  "time \<Rightarrow> string \<Rightarrow> int64 \<Rightarrow> APIKeyManager \<Rightarrow> apikey_error option \<times> APIKeyManager" where
  "checkRateLimit now keyHash limit m =
     (case km_rateLimits m keyHash of
        Some bucket \<Rightarrow>
          if rb_resetTime bucket < now
          then (None, m\<lparr>km_rateLimits := (km_rateLimits m)(keyHash \<mapsto> \<lparr>rb_count = 1, rb_resetTime = now + minute\<rparr>)\<rparr>)
          else if sint limit \<le> sint (rb_count bucket) then (Some ErrAPIKeyRateLimit, m)
          else (None, m\<lparr>km_rateLimits := (km_rateLimits m)
                 (keyHash \<mapsto> bucket\<lparr>rb_count := rb_count bucket + 1\<rparr>)\<rparr>)
      | None \<Rightarrow>
          (None, m\<lparr>km_rateLimits := (km_rateLimits m)(keyHash \<mapsto> \<lparr>rb_count = 1, rb_resetTime = now + minute\<rparr>)\<rparr>))"

text \<open>The instants of \<open>ValidateAPIKey\<close>: 0 of the expiry check, 1 of the rate limit, 2 of the use.\<close>

definition ValidateAPIKey ::
  "(string \<Rightarrow> byte list) \<Rightarrow> env \<Rightarrow> string \<Rightarrow> APIKeyManager \<Rightarrow> (apikey_error + APIKey) \<times> APIKeyManager" where
  "ValidateAPIKey sha256 e rawKey m =
     (let keyHash = hashAPIKey sha256 rawKey
      in case km_keys m keyHash of
           None \<Rightarrow> (Inl ErrAPIKeyNotFound, m)
         | Some apiKey \<Rightarrow>
           if \<not> ak_IsActive apiKey then (Inl ErrAPIKeyDisabled, m)
           else if IsExpired (clock e 0) apiKey then (Inl ErrAPIKeyExpired, m)
           else
             case (if 0 < sint (ak_RateLimit apiKey)
                   then checkRateLimit (clock e 1) keyHash (ak_RateLimit apiKey) m else (None, m)) of
               (Some err, m') \<Rightarrow> (Inl err, m')
             | (None, m') \<Rightarrow>
                 let apiKey' = apiKey\<lparr>ak_LastUsedAt := Some (clock e 2)\<rparr>
                 in (Inr apiKey', m'\<lparr>km_keys := (km_keys m')(keyHash \<mapsto> apiKey')\<rparr>))"

definition GetAPIKeyByPrefix :: "string \<Rightarrow> APIKeyManager \<Rightarrow> apikey_error + APIKey" where
  "GetAPIKeyByPrefix prefix m =
     (case km_prefixMap m prefix of
        None \<Rightarrow> Inl ErrAPIKeyNotFound
      | Some keyHash \<Rightarrow>
        (case km_keys m keyHash of None \<Rightarrow> Inl ErrAPIKeyNotFound | Some apiKey \<Rightarrow> Inr apiKey))"

text \<open>The first key, in the order of the loop, with an identifier: its hash.\<close>

definition find_key :: "string list \<Rightarrow> string \<Rightarrow> APIKeyManager \<Rightarrow> string option" where
  "find_key ks i m = find (\<lambda>h. case km_keys m h of None \<Rightarrow> False | Some k \<Rightarrow> ak_ID k = i) ks"

definition GetAPIKeyByID :: "string list \<Rightarrow> string \<Rightarrow> APIKeyManager \<Rightarrow> apikey_error + APIKey" where
  "GetAPIKeyByID ks i m =
     (case find_key ks i m of None \<Rightarrow> Inl ErrAPIKeyNotFound | Some h \<Rightarrow> Inr (the (km_keys m h)))"

definition ListAPIKeys :: "string list \<Rightarrow> APIKeyManager \<Rightarrow> APIKey list" where
  "ListAPIKeys ks m = map (\<lambda>h. the (km_keys m h)) ks"

definition ListAPIKeysByService :: "string list \<Rightarrow> string \<Rightarrow> APIKeyManager \<Rightarrow> APIKey list" where
  "ListAPIKeysByService ks serviceID m =
     filter (\<lambda>k. ak_ServiceID k = serviceID) (map (\<lambda>h. the (km_keys m h)) ks)"

definition ListAPIKeysByTenant :: "string list \<Rightarrow> string \<Rightarrow> APIKeyManager \<Rightarrow> APIKey list" where
  "ListAPIKeysByTenant ks tenantID m =
     filter (\<lambda>k. ak_TenantID k = tenantID) (map (\<lambda>h. the (km_keys m h)) ks)"

text \<open>The loops that find a key by its identifier and change it.\<close>

definition change_key ::
  "string list \<Rightarrow> string \<Rightarrow> (APIKey \<Rightarrow> APIKey) \<Rightarrow> APIKeyManager \<Rightarrow> apikey_error option \<times> APIKeyManager" where
  "change_key ks i f m =
     (case find_key ks i m of
        None \<Rightarrow> (Some ErrAPIKeyNotFound, m)
      | Some h \<Rightarrow> (None, m\<lparr>km_keys := (km_keys m)(h := map_option f (km_keys m h))\<rparr>))"

definition RevokeAPIKey ::
  "string list \<Rightarrow> env \<Rightarrow> string \<Rightarrow> APIKeyManager \<Rightarrow> apikey_error option \<times> APIKeyManager" where
  "RevokeAPIKey ks e i = change_key ks i (\<lambda>k. k\<lparr>ak_IsActive := False, ak_UpdatedAt := clock e 0\<rparr>)"

definition UpdateAPIKeyRoles ::
  "string list \<Rightarrow> env \<Rightarrow> string \<Rightarrow> string list \<Rightarrow> APIKeyManager \<Rightarrow> apikey_error option \<times> APIKeyManager" where
  "UpdateAPIKeyRoles ks e i roles = change_key ks i (\<lambda>k. k\<lparr>ak_Roles := roles, ak_UpdatedAt := clock e 0\<rparr>)"

definition UpdateAPIKeyRateLimit ::
  "string list \<Rightarrow> env \<Rightarrow> string \<Rightarrow> int64 \<Rightarrow> APIKeyManager \<Rightarrow> apikey_error option \<times> APIKeyManager" where
  "UpdateAPIKeyRateLimit ks e i rateLimit =
     change_key ks i (\<lambda>k. k\<lparr>ak_RateLimit := rateLimit, ak_UpdatedAt := clock e 0\<rparr>)"

definition DeleteAPIKey :: "string list \<Rightarrow> string \<Rightarrow> APIKeyManager \<Rightarrow> apikey_error option \<times> APIKeyManager" where
  "DeleteAPIKey ks i m =
     (case find_key ks i m of
        None \<Rightarrow> (Some ErrAPIKeyNotFound, m)
      | Some h \<Rightarrow>
          (None, m\<lparr>km_prefixMap := (km_prefixMap m)(ak_Prefix (the (km_keys m h)) := None),
                   km_keys := (km_keys m)(h := None),
                   km_rateLimits := (km_rateLimits m)(h := None)\<rparr>))"

text \<open>
  \<open>RotateAPIKey\<close> looks the old key up (in the order \<open>ks\<close>), generates a key with its configuration, and
  then either gives the old key a new expiry or revokes it (looking it up again, in the order
  \<open>ks'\<close>).  Instant 0 is the one of \<open>time.Until\<close>, 1 of the generation, 2 and 3 of the last step.
\<close>

definition RotateAPIKey ::
  "(string \<Rightarrow> byte list) \<Rightarrow> string list \<Rightarrow> string list \<Rightarrow> env \<Rightarrow> string \<Rightarrow> duration option \<Rightarrow>
    APIKeyManager \<Rightarrow> (apikey_error + string \<times> APIKey) \<times> APIKeyManager" where
  "RotateAPIKey sha256 ks ks' e i gracePeriod m =
     (case find_key ks i m of
        None \<Rightarrow> (Inl ErrAPIKeyNotFound, m)
      | Some oldHash \<Rightarrow>
        let oldKey = the (km_keys m oldHash);
            expiresIn = map_option (\<lambda>exp. time_sub exp (clock e 0)) (ak_ExpiresAt oldKey)
        in case GenerateAPIKey sha256 \<lparr>entropy = entropy e, clock = (\<lambda>n. clock e (n + 1))\<rparr>
                  (ak_Name oldKey @ '' (rotated)'') (ak_ServiceID oldKey) (ak_TenantID oldKey)
                  (ak_Roles oldKey) (ak_RateLimit oldKey) expiresIn m of
             (Inl err, m1) \<Rightarrow> (Inl err, m1)
           | (Inr (newRawKey, newKey), m1) \<Rightarrow>
             let newKey' = newKey\<lparr>ak_Scopes := ak_Scopes oldKey, ak_Metadata := ak_Metadata oldKey\<rparr>;
                 m2 = m1\<lparr>km_keys := (km_keys m1)(ak_KeyHash newKey \<mapsto> newKey')\<rparr>
             in (Inr (newRawKey, newKey'),
                 case gracePeriod of
                   Some grace \<Rightarrow>
                     if 0 < grace
                     then m2\<lparr>km_keys := (km_keys m2)(oldHash := map_option (\<lambda>k. k\<lparr>ak_ExpiresAt :=
                            Some (clock e 2 + grace), ak_UpdatedAt := clock e 3\<rparr>) (km_keys m2 oldHash))\<rparr>
                     else snd (RevokeAPIKey ks' \<lparr>entropy = entropy e, clock = (\<lambda>n. clock e (n + 2))\<rparr> i m2)
                 | None \<Rightarrow> snd (RevokeAPIKey ks' \<lparr>entropy = entropy e, clock = (\<lambda>n. clock e (n + 2))\<rparr> i m2)))"

definition ExtractAPIKeyFromHeader :: "string \<Rightarrow> string" where
  "ExtractAPIKeyFromHeader header = header"

definition ConstantTimeCompare :: "string \<Rightarrow> string \<Rightarrow> bool" where
  "ConstantTimeCompare a b \<longleftrightarrow> a = b"

section \<open>Simple tokens\<close>

type_synonym TokenManager = "string \<rightharpoonup> string"

definition NewTokenManager :: TokenManager where
  "NewTokenManager = Map.empty"

definition auth_GenerateToken :: "env \<Rightarrow> string \<Rightarrow> TokenManager \<Rightarrow> string option \<times> TokenManager" where
  "auth_GenerateToken e userID m =
     (case randomString (entropy e 0) of
        None \<Rightarrow> (None, m) | Some token \<Rightarrow> (Some token, m(token \<mapsto> userID)))"

definition auth_ValidateToken :: "string \<Rightarrow> TokenManager \<Rightarrow> string option" where
  "auth_ValidateToken token m = m token"

definition RevokeToken :: "string \<Rightarrow> TokenManager \<Rightarrow> TokenManager" where
  "RevokeToken token m = m(token := None)"

section \<open>The rate limit of a key\<close>

text \<open>How many validations of a raw key succeed, one after the other.\<close>

primrec accepted :: "(string \<Rightarrow> byte list) \<Rightarrow> string \<Rightarrow> env list \<Rightarrow> APIKeyManager \<Rightarrow> nat" where
  "accepted sha256 rawKey [] m = 0"
| "accepted sha256 rawKey (e # es) m =
     (case ValidateAPIKey sha256 e rawKey m of
        (res, m') \<Rightarrow> (case res of Inr _ \<Rightarrow> 1 | Inl _ \<Rightarrow> 0) + accepted sha256 rawKey es m')"

text \<open>The key of a hash has the limit \<open>L\<close>.\<close>

definition limited_to :: "int \<Rightarrow> string \<Rightarrow> APIKeyManager \<Rightarrow> bool" where
  "limited_to L h m \<longleftrightarrow> 0 < L \<and> (\<exists>k. km_keys m h = Some k \<and> sint (ak_RateLimit k) = L)"

text \<open>
  What a validation does to the bucket of the key: nothing when it is refused; otherwise it opens a
  new window when there is none or it is over, and counts in the window when there is room.
\<close>

lemma validate_cases:
  assumes "limited_to L (hashAPIKey sha256 rawKey) m"
  obtains (refused) err m' where "ValidateAPIKey sha256 e rawKey m = (Inl err, m')"
      "limited_to L (hashAPIKey sha256 rawKey) m'"
      "km_rateLimits m' (hashAPIKey sha256 rawKey) = km_rateLimits m (hashAPIKey sha256 rawKey)"
  | (opened) k m' where "ValidateAPIKey sha256 e rawKey m = (Inr k, m')"
      "limited_to L (hashAPIKey sha256 rawKey) m'"
      "km_rateLimits m' (hashAPIKey sha256 rawKey) = Some \<lparr>rb_count = 1, rb_resetTime = clock e 1 + minute\<rparr>"
      "\<forall>b. km_rateLimits m (hashAPIKey sha256 rawKey) = Some b \<longrightarrow> rb_resetTime b < clock e 1"
  | (counted) k m' b where "ValidateAPIKey sha256 e rawKey m = (Inr k, m')"
      "limited_to L (hashAPIKey sha256 rawKey) m'"
      "km_rateLimits m (hashAPIKey sha256 rawKey) = Some b" "sint (rb_count b) < L"
      "km_rateLimits m' (hashAPIKey sha256 rawKey) = Some (b\<lparr>rb_count := rb_count b + 1\<rparr>)"
proof -
  let ?h = "hashAPIKey sha256 rawKey"
  from assms obtain k where k: "km_keys m ?h = Some k" "sint (ak_RateLimit k) = L" and L: "0 < L"
    by (auto simp: limited_to_def)
  show ?thesis
  proof (cases "ak_IsActive k \<and> \<not> IsExpired (clock e 0) k")
    case False
    then show ?thesis
      using k(1) assms refused [of ErrAPIKeyDisabled m] refused [of ErrAPIKeyExpired m]
      by (cases "ak_IsActive k") (simp_all add: ValidateAPIKey_def Let_def)
  next
    case True
    show ?thesis
    proof (cases "km_rateLimits m ?h")
      case None
      with True k L show ?thesis
        by (intro opened [of "k\<lparr>ak_LastUsedAt := Some (clock e 2)\<rparr>"])
          (auto simp: ValidateAPIKey_def checkRateLimit_def Let_def limited_to_def)
    next
      case (Some b)
      consider "rb_resetTime b < clock e 1" | "\<not> rb_resetTime b < clock e 1" "L \<le> sint (rb_count b)"
        | "\<not> rb_resetTime b < clock e 1" "sint (rb_count b) < L" by linarith
      then show ?thesis
      proof cases
        case 1
        with True k L Some show ?thesis
          by (intro opened [of "k\<lparr>ak_LastUsedAt := Some (clock e 2)\<rparr>"])
            (auto simp: ValidateAPIKey_def checkRateLimit_def Let_def limited_to_def)
      next
        case 2
        with True k L Some assms show ?thesis
          by (intro refused) (auto simp: ValidateAPIKey_def checkRateLimit_def Let_def)
      next
        case 3
        with True k L Some show ?thesis
          by (intro counted [of "k\<lparr>ak_LastUsedAt := Some (clock e 2)\<rparr>"])
            (auto simp: ValidateAPIKey_def checkRateLimit_def Let_def limited_to_def)
      qed
    qed
  qed
qed

lemma limited_to_less: "limited_to L h m \<Longrightarrow> L < 2 ^ 63"
  using sint64_bounds(2) by (auto simp: limited_to_def)

text \<open>Within one window, no more than the room that is left.\<close>

lemma accepted_same_window:
  assumes "limited_to L (hashAPIKey sha256 rawKey) m"
    and "km_rateLimits m (hashAPIKey sha256 rawKey) = Some b"
    and "\<forall>e \<in> set es. clock e 1 \<le> rb_resetTime b"
  shows "int (accepted sha256 rawKey es m) \<le> max 0 (L - sint (rb_count b))"
  using assms
proof (induction es arbitrary: m b)
  case Nil
  then show ?case by simp
next
  case (Cons e es)
  from Cons.prems(1) show ?case
  proof (cases rule: validate_cases [where e = e])
    case (refused err m')
    with Cons.IH [of m' b] Cons.prems show ?thesis by simp
  next
    case (opened k m')
    then have False using Cons.prems by auto
    then show ?thesis ..
  next
    case (counted k m' b')
    let ?b = "b\<lparr>rb_count := rb_count b + 1\<rparr>"
    have b': "b' = b" using counted(3) Cons.prems(2) by simp
    have "L < 2 ^ 63" using limited_to_less [OF Cons.prems(1)] .
    then have "sint (rb_count b + 1) = sint (rb_count b) + 1"
      using counted(4) sint64_bounds [of "rb_count b"] unfolding b' by (subst sint64_add) auto
    with Cons.IH [of m' ?b] counted Cons.prems(3) show ?thesis unfolding b' by simp
  qed
qed

text \<open>In any minute at most one window opens.\<close>

lemma accepted_minute:
  assumes "limited_to L (hashAPIKey sha256 rawKey) m"
    and "\<forall>e \<in> set es. a \<le> clock e 1 \<and> clock e 1 \<le> a + minute"
  shows "int (accepted sha256 rawKey es m) \<le>
    (case km_rateLimits m (hashAPIKey sha256 rawKey) of
       None \<Rightarrow> L | Some b \<Rightarrow> max 0 (L - sint (rb_count b)) + L)"
  using assms
proof (induction es arbitrary: m)
  case Nil
  then show ?case by (auto simp: limited_to_def split: option.split)
next
  case (Cons e es)
  have times: "\<forall>e \<in> set es. a \<le> clock e 1 \<and> clock e 1 \<le> a + minute" using Cons.prems(2) by simp
  from Cons.prems(1) show ?case
  proof (cases rule: validate_cases [where e = e])
    case (refused err m')
    with Cons.IH [OF refused(2) times] show ?thesis by simp
  next
    case (opened k m')
    have "\<forall>f \<in> set es. clock f 1 \<le> rb_resetTime \<lparr>rb_count = 1, rb_resetTime = clock e 1 + minute\<rparr>"
      using Cons.prems(2) by fastforce
    from accepted_same_window [OF opened(2,3) this] opened(1) Cons.prems(1) show ?thesis
      by (auto simp: limited_to_def split: option.split)
  next
    case (counted k m' b)
    have "L < 2 ^ 63" using limited_to_less [OF Cons.prems(1)] .
    then have "sint (rb_count b + 1) = sint (rb_count b) + 1"
      using counted(4) sint64_bounds [of "rb_count b"] by (subst sint64_add) auto
    with Cons.IH [OF counted(2) times] counted show ?thesis by simp
  qed
qed

section \<open>Revocation\<close>

datatype key_op =
  KGenerate env string string string "string list" int64 "duration option"
| KValidate env string
| KRevoke "string list" env string
| KDelete "string list" string
| KRotate "string list" "string list" env string "duration option"
| KSetRoles "string list" env string "string list"
| KSetRateLimit "string list" env string int64

primrec key_step :: "(string \<Rightarrow> byte list) \<Rightarrow> key_op \<Rightarrow> APIKeyManager \<Rightarrow> APIKeyManager" where
  "key_step H (KGenerate e name serviceID tenantID roles rateLimit expiresIn) m =
     snd (GenerateAPIKey H e name serviceID tenantID roles rateLimit expiresIn m)"
| "key_step H (KValidate e rawKey) m = snd (ValidateAPIKey H e rawKey m)"
| "key_step H (KRevoke ks e i) m = snd (RevokeAPIKey ks e i m)"
| "key_step H (KDelete ks i) m = snd (DeleteAPIKey ks i m)"
| "key_step H (KRotate ks ks' e i gracePeriod) m = snd (RotateAPIKey H ks ks' e i gracePeriod m)"
| "key_step H (KSetRoles ks e i roles) m = snd (UpdateAPIKeyRoles ks e i roles m)"
| "key_step H (KSetRateLimit ks e i rateLimit) m = snd (UpdateAPIKeyRateLimit ks e i rateLimit m)"

text \<open>A new key whose hash is the hash in question would be a collision (or the same draw again).\<close>

definition draws_other :: "(string \<Rightarrow> byte list) \<Rightarrow> string \<Rightarrow> env \<Rightarrow> bool" where
  "draws_other H h e \<longleftrightarrow> (\<forall>rawKey. randomString (entropy e 0) = Some rawKey \<longrightarrow> hashAPIKey H rawKey \<noteq> h)"

fun key_op_avoids :: "(string \<Rightarrow> byte list) \<Rightarrow> string \<Rightarrow> key_op \<Rightarrow> bool" where
  "key_op_avoids H h (KGenerate e name serviceID tenantID roles rateLimit expiresIn) \<longleftrightarrow> draws_other H h e"
| "key_op_avoids H h (KRotate ks ks' e i gracePeriod) \<longleftrightarrow> draws_other H h e"
| "key_op_avoids H h _ \<longleftrightarrow> True"

definition unusable :: "string \<Rightarrow> APIKeyManager \<Rightarrow> bool" where
  "unusable h m \<longleftrightarrow> (\<forall>k. km_keys m h = Some k \<longrightarrow> \<not> ak_IsActive k)"

lemma unusable_change_key:
  "unusable h m \<Longrightarrow> (\<And>k. ak_IsActive (f k) \<Longrightarrow> ak_IsActive k) \<Longrightarrow> unusable h (snd (change_key ks i f m))"
  by (auto simp: unusable_def change_key_def split: option.split if_splits)

lemma GenerateAPIKey_keys:
  "snd (GenerateAPIKey H e name serviceID tenantID roles rateLimit expiresIn m) = m \<or>
   (\<exists>rawKey k p. randomString (entropy e 0) = Some rawKey \<and> ak_KeyHash k = hashAPIKey H rawKey \<and>
     GenerateAPIKey H e name serviceID tenantID roles rateLimit expiresIn m =
       (Inr (rawKey, k), m\<lparr>km_keys := (km_keys m)(hashAPIKey H rawKey \<mapsto> k), km_prefixMap := p\<rparr>))"
  by (auto simp: GenerateAPIKey_def Let_def split: option.split)

lemma unusable_generate:
  assumes "unusable h m" "draws_other H h e"
  shows "unusable h (snd (GenerateAPIKey H e name serviceID tenantID roles rateLimit expiresIn m))"
  using GenerateAPIKey_keys [of H e name serviceID tenantID roles rateLimit expiresIn m] assms
  by (auto simp: unusable_def draws_other_def)

lemma ValidateAPIKey_unusable:
  assumes "unusable h m"
  shows "unusable h (snd (ValidateAPIKey H e rawKey m))"
    and "h = hashAPIKey H rawKey \<Longrightarrow> \<exists>err \<in> {ErrAPIKeyNotFound, ErrAPIKeyDisabled}.
      ValidateAPIKey H e rawKey m = (Inl err, m)"
proof -
  have limit: "km_keys (snd (checkRateLimit now g l m)) = km_keys m" for now g l
    by (auto simp: checkRateLimit_def split: option.split)
  show "unusable h (snd (ValidateAPIKey H e rawKey m))"
    using assms limit
    by (auto simp: unusable_def ValidateAPIKey_def Let_def split: option.split prod.split if_splits)
      (metis snd_conv)+
  show "h = hashAPIKey H rawKey \<Longrightarrow> \<exists>err \<in> {ErrAPIKeyNotFound, ErrAPIKeyDisabled}.
      ValidateAPIKey H e rawKey m = (Inl err, m)"
    using assms by (auto simp: unusable_def ValidateAPIKey_def Let_def split: option.split)
qed

lemma unusable_rotate:
  assumes "unusable h m" "draws_other H h e"
  shows "unusable h (snd (RotateAPIKey H ks ks' e i gracePeriod m))"
proof (cases "find_key ks i m")
  case None
  then show ?thesis using assms(1) by (simp add: RotateAPIKey_def)
next
  case (Some g)
  let ?old = "the (km_keys m g)"
  let ?gen = "GenerateAPIKey H \<lparr>entropy = entropy e, clock = (\<lambda>n. clock e (n + 1))\<rparr>
    (ak_Name ?old @ '' (rotated)'') (ak_ServiceID ?old) (ak_TenantID ?old) (ak_Roles ?old)
    (ak_RateLimit ?old) (map_option (\<lambda>exp. time_sub exp (clock e 0)) (ak_ExpiresAt ?old)) m"
  show ?thesis
  proof (cases "fst ?gen")
    case (Inl err)
    then have "snd ?gen = m"
      by (auto simp: GenerateAPIKey_def Let_def split: option.splits)
    with Inl have "?gen = (Inl err, m)" by (simp add: prod_eq_iff)
    with Some assms(1) show ?thesis by (simp add: RotateAPIKey_def Let_def)
  next
    case (Inr r)
    have "?gen \<noteq> (Inl AkErrEntropy, m)" using Inr by (metis fst_conv sum.distinct(1))
    then obtain rawKey k p where draw: "randomString (entropy e 0) = Some rawKey"
      and gen: "?gen = (Inr (rawKey, k), m\<lparr>km_keys := (km_keys m)(hashAPIKey H rawKey \<mapsto> k), km_prefixMap := p\<rparr>)"
      and hash: "ak_KeyHash k = hashAPIKey H rawKey"
      by (auto simp: GenerateAPIKey_def Let_def split: option.splits)
    let ?h = "hashAPIKey H rawKey"
    have other: "?h \<noteq> h" using assms(2) draw by (simp add: draws_other_def)
    define m1 where "m1 = m\<lparr>km_keys := (km_keys m)(?h \<mapsto> k), km_prefixMap := p\<rparr>"
    define m2 where "m2 = m1\<lparr>km_keys := (km_keys m1)
      (ak_KeyHash k \<mapsto> k\<lparr>ak_Scopes := ak_Scopes ?old, ak_Metadata := ak_Metadata ?old\<rparr>)\<rparr>"
    have m2: "unusable h m2" using assms(1) other by (simp add: m2_def m1_def hash unusable_def)
    have revoke: "unusable h (snd (RevokeAPIKey ks' e' i m2))" for e'
      unfolding RevokeAPIKey_def by (rule unusable_change_key [OF m2]) simp
    have expire: "unusable h (m2\<lparr>km_keys := (km_keys m2)(g := map_option (\<lambda>k. k\<lparr>ak_ExpiresAt := t,
        ak_UpdatedAt := u\<rparr>) (km_keys m2 g))\<rparr>)" for t u
      using m2 by (auto simp: unusable_def)
    have "snd (RotateAPIKey H ks ks' e i gracePeriod m) =
      (case gracePeriod of
         Some grace \<Rightarrow>
           if 0 < grace then m2\<lparr>km_keys := (km_keys m2)(g := map_option (\<lambda>k. k\<lparr>ak_ExpiresAt :=
             Some (clock e 2 + grace), ak_UpdatedAt := clock e 3\<rparr>) (km_keys m2 g))\<rparr>
           else snd (RevokeAPIKey ks' \<lparr>entropy = entropy e, clock = (\<lambda>n. clock e (n + 2))\<rparr> i m2)
       | None \<Rightarrow> snd (RevokeAPIKey ks' \<lparr>entropy = entropy e, clock = (\<lambda>n. clock e (n + 2))\<rparr> i m2))"
      unfolding RotateAPIKey_def Some option.case Let_def gen [folded m1_def] prod.case sum.case m2_def
      by (rule snd_conv)
    then show ?thesis using revoke expire by (simp split: option.split)
  qed
qed

lemma unusable_step:
  assumes "unusable h m" "key_op_avoids H h op"
  shows "unusable h (key_step H op m)"
proof (cases op)
  case (KDelete ks i)
  then show ?thesis
    using assms(1) by (auto simp: unusable_def DeleteAPIKey_def split: option.split)
qed (use assms in \<open>auto simp: RevokeAPIKey_def UpdateAPIKeyRoles_def UpdateAPIKeyRateLimit_def
      unusable_generate ValidateAPIKey_unusable(1) unusable_rotate intro!: unusable_change_key\<close>)

interpretation revoked: invariant_machine "key_step H" "\<lambda>m. key_op_avoids H h" "unusable h"
  for H :: "string \<Rightarrow> byte list" and h :: string
  by unfold_locales (rule unusable_step)

section \<open>Properties\<close>

text \<open>A hash for the instances: the codes of the characters.\<close>

definition example_hash :: "string \<Rightarrow> byte list" where
  "example_hash s = map of_char s"

definition example_key :: "int64 \<Rightarrow> time option \<Rightarrow> APIKey" where
  "example_key limit exp =
     \<lparr>ak_ID = ''id'', ak_KeyHash = hashAPIKey example_hash ''raw'', ak_Prefix = ''raw'', ak_Name = ''n'',
      ak_Description = [], ak_ServiceID = [], ak_TenantID = [], ak_Roles = [], ak_Scopes = [],
      ak_RateLimit = limit, ak_Metadata = None, ak_IsActive = True, ak_ExpiresAt = exp,
      ak_LastUsedAt = None, ak_CreatedAt = 0, ak_UpdatedAt = 0\<rparr>"

definition example_keys :: "APIKey \<Rightarrow> APIKeyManager" where
  "example_keys k = NewAPIKeyManager\<lparr>km_keys := [hashAPIKey example_hash ''raw'' \<mapsto> k]\<rparr>"

definition reading :: "time \<Rightarrow> env" where
  "reading t = \<lparr>entropy = (\<lambda>i. Some [of_nat i]), clock = (\<lambda>i. t)\<rparr>"

lemmas ak_eval = example_keys_def example_key_def reading_def NewAPIKeyManager_def ValidateAPIKey_def
  checkRateLimit_def IsExpired_def minute_def Let_def

text \<open>
  The bound of the fixed-window rate limit.  For a key with a positive limit \<open>L\<close>, out of any
  validations made within one minute (in any order, with whatever else refused) at most \<open>2 L - 1\<close>
  succeed: the limit holds per window, and one minute can meet two windows.
\<close>

theorem fixed_window_bound:
  assumes "km_keys m (hashAPIKey H rawKey) = Some k" "0 < sint (ak_RateLimit k)"
    and "\<forall>b. km_rateLimits m (hashAPIKey H rawKey) = Some b \<longrightarrow> 1 \<le> sint (rb_count b)"
    and "\<forall>e \<in> set es. start \<le> clock e 1 \<and> clock e 1 \<le> start + minute"
  shows "int (accepted H rawKey es m) \<le> 2 * sint (ak_RateLimit k) - 1"
proof -
  have "limited_to (sint (ak_RateLimit k)) (hashAPIKey H rawKey) m"
    using assms(1,2) by (simp add: limited_to_def)
  from accepted_minute [OF this assms(4)] assms(2,3) show ?thesis
    by (cases "km_rateLimits m (hashAPIKey H rawKey)") (force simp: max_def split: if_splits)+
qed

text \<open>The bound is reached: with a limit of 2 a minute, three requests pass within 12 seconds.\<close>

theorem fixed_window_bound_witness:
  "accepted example_hash ''raw'' (map (\<lambda>t. reading (t * 10 ^ 9)) [50, 51, 61, 62, 62])
      (snd (ValidateAPIKey example_hash (reading 0) ''raw'' (example_keys (example_key 2 None)))) = 3 \<and>
   int (accepted example_hash ''raw'' (map (\<lambda>t. reading (t * 10 ^ 9)) [50, 51, 61, 62, 62])
      (snd (ValidateAPIKey example_hash (reading 0) ''raw'' (example_keys (example_key 2 None))))) \<le> 2 * 2 - 1"
proof -
  let ?m = "snd (ValidateAPIKey example_hash (reading 0) ''raw'' (example_keys (example_key 2 None)))"
  let ?es = "map (\<lambda>t. reading (t * 10 ^ 9)) [50, 51, 61, 62, 62]"
  obtain k where k: "km_keys ?m (hashAPIKey example_hash ''raw'') = Some k" "sint (ak_RateLimit k) = 2"
    by (simp add: ak_eval)
  have counts: "\<forall>b. km_rateLimits ?m (hashAPIKey example_hash ''raw'') = Some b \<longrightarrow> 1 \<le> sint (rb_count b)"
    by (simp add: ak_eval)
  have times: "\<forall>e \<in> set ?es. 50 * 10 ^ 9 \<le> clock e 1 \<and> clock e 1 \<le> 50 * 10 ^ 9 + minute"
    by (simp add: reading_def minute_def)
  have "accepted example_hash ''raw'' ?es ?m = 3" by (simp add: ak_eval)
  then show ?thesis using fixed_window_bound [OF k(1) _ counts times] k(2) by simp
qed

text \<open>
  C31: Revocation is final.  Once a key has been revoked, then whatever operations follow (validations,
  new keys, deletions, rotations, changes of roles and limits), as long as no new key has the same
  hash, validating the raw key fails with not found or disabled and changes nothing.
\<close>

theorem revoked_key_unusable:
  assumes "find_key ks i m = Some (hashAPIKey H rawKey)"
    and "run_ok (key_step H) (\<lambda>m. key_op_avoids H (hashAPIKey H rawKey)) ops (snd (RevokeAPIKey ks e i m))"
  shows "\<exists>err \<in> {ErrAPIKeyNotFound, ErrAPIKeyDisabled}.
    ValidateAPIKey H e' rawKey (run (key_step H) ops (snd (RevokeAPIKey ks e i m))) =
      (Inl err, run (key_step H) ops (snd (RevokeAPIKey ks e i m)))"
proof -
  have "unusable (hashAPIKey H rawKey) (snd (RevokeAPIKey ks e i m))"
    using assms(1) by (auto simp: unusable_def RevokeAPIKey_def change_key_def)
  from ValidateAPIKey_unusable(2) [OF revoked.run_inv [OF this assms(2)] refl] show ?thesis .
qed

theorem revoked_key_unusable_witness:
  "\<exists>err. fst (ValidateAPIKey example_hash (reading 9) ''raw'' (run (key_step example_hash)
     [KSetRateLimit [hashAPIKey example_hash ''raw''] (reading 5) ''id'' 7, KValidate (reading 6) ''raw'']
     (snd (RevokeAPIKey [hashAPIKey example_hash ''raw''] (reading 1) ''id''
       (example_keys (example_key 0 None)))))) = Inl err"
proof -
  let ?h = "hashAPIKey example_hash ''raw''"
  have found: "find_key [?h] ''id'' (example_keys (example_key 0 None)) = Some ?h"
    by (simp add: find_key_def ak_eval)
  have ok: "run_ok (key_step example_hash) (\<lambda>m. key_op_avoids example_hash ?h)
     [KSetRateLimit [?h] (reading 5) ''id'' 7, KValidate (reading 6) ''raw'']
     (snd (RevokeAPIKey [?h] (reading 1) ''id'' (example_keys (example_key 0 None))))"
    by simp
  from revoked_key_unusable [OF found ok, of "reading 9"] show ?thesis by force
qed

text \<open>
  Rotating an expired key with a grace period revives it.  The old key of a rotation gets the end of
  the grace period as its expiry even when it has expired already: validation refuses it before
  the rotation and accepts it afterwards.
\<close>

theorem rotation_revives_expired_key:
  assumes "find_key ks i m = Some (hashAPIKey H rawKey)"
    and "km_keys m (hashAPIKey H rawKey) = Some k" "ak_IsActive k" "sint (ak_RateLimit k) \<le> 0"
    and "ak_ExpiresAt k = Some exp" "exp < clock e1 0"
    and "entropy e 0 = Some bs" "entropy e 1 = Some cs" "draws_other H (hashAPIKey H rawKey) e"
    and "0 < grace" "clock e2 0 \<le> clock e 2 + grace"
  shows "ValidateAPIKey H e1 rawKey m = (Inl ErrAPIKeyExpired, m) \<and>
    (\<exists>k'. fst (ValidateAPIKey H e2 rawKey (snd (RotateAPIKey H ks ks' e i (Some grace) m))) = Inr k')"
proof -
  have other: "hashAPIKey H (b64_encode bs) \<noteq> hashAPIKey H rawKey"
    using assms(7,9) by (simp add: draws_other_def randomString_def)
  show ?thesis
    using assms other by (simp add: ValidateAPIKey_def IsExpired_def RotateAPIKey_def GenerateAPIKey_def
        randomString_def Let_def)
qed

theorem rotation_revives_expired_key_witness:
  "fst (ValidateAPIKey example_hash (reading 100) ''raw'' (example_keys (example_key 0 (Some 50)))) =
     Inl ErrAPIKeyExpired \<and>
   (\<exists>k. fst (ValidateAPIKey example_hash (reading 120) ''raw''
     (snd (RotateAPIKey example_hash [hashAPIKey example_hash ''raw''] [] (reading 110) ''id'' (Some 1000)
       (example_keys (example_key 0 (Some 50)))))) = Inr k)"
proof -
  let ?h = "hashAPIKey example_hash ''raw''" and ?m = "example_keys (example_key 0 (Some 50))"
  have found: "find_key [?h] ''id'' ?m = Some ?h" by (simp add: find_key_def ak_eval)
  have key: "km_keys ?m ?h = Some (example_key 0 (Some 50))" by (simp add: example_keys_def NewAPIKeyManager_def)
  have fields: "ak_IsActive (example_key 0 (Some 50))" "sint (ak_RateLimit (example_key 0 (Some 50))) \<le> 0"
    "ak_ExpiresAt (example_key 0 (Some 50)) = Some 50" by (simp_all add: example_key_def)
  have draws: "entropy (reading 110) 0 = Some [0]" "entropy (reading 110) 1 = Some [1]"
    by (simp_all add: reading_def)
  have "length (b64_encode [0]) = 2" by simp
  then have other: "draws_other example_hash ?h (reading 110)"
    by (auto simp: draws_other_def randomString_def reading_def hashAPIKey_def hex_encode_inj example_hash_def
        dest: arg_cong [where f = length])
  show ?thesis
    using rotation_revives_expired_key [OF found key fields _ draws other, of "reading 100" 1000 "reading 120" "[]"]
    by (simp add: reading_def)
qed

end
