(* ===== verification/PaymentRouter.thy ===== *)
theory PaymentRouter
  imports Go_Prelude "HOL-Library.Multiset" "HOL-Library.Sublist"
begin

text \<open>
  The payment router, \<open>integrations/router/router.go\<close>: the registered providers and their order of
  priority, the choice of providers for a request, retries, the classification of errors, and the
  failover from one provider to the next; payments, refunds, and the switches.

  The clients of Stripe and PayPal talk to remote services.  They are records of functions over a
  state \<open>'w\<close> of the outside world, the arguments of the router; an error of theirs is its text.
  Delays between attempts are not modelled.
\<close>

section \<open>Requests and results\<close>

type_synonym Provider = string

abbreviation ProviderStripe :: Provider where "ProviderStripe \<equiv> ''stripe''"
abbreviation ProviderPayPal :: Provider where "ProviderPayPal \<equiv> ''paypal''"

record PaymentRequest =
  pq_Amount :: int64
  pq_Currency :: string
  pq_Source :: string
  pq_Description :: string
  pq_IdempotencyKey :: string
  pq_Metadata :: metadata
  pq_PreferredProvider :: Provider

record PaymentResult =
  ps_Provider :: Provider
  ps_ProviderRef :: string
  ps_Status :: string
  ps_Amount :: int64
  ps_Currency :: string
  ps_FailureReason :: string

record RefundRequest =
  rr_Provider :: Provider
  rr_ProviderRef :: string
  rr_Amount :: int64
  rr_Currency :: string
  rr_Reason :: string

record RefundResult =
  rs_Provider :: Provider
  rs_RefundRef :: string
  rs_Amount :: int64
  rs_Status :: string

record ProviderConfig =
  pc_Provider :: Provider
  pc_Priority :: int64
  pc_Enabled :: bool
  pc_Currencies :: "string list"
  pc_MaxRetries :: int64
  pc_RetryDelayMs :: int64

text \<open>The errors: the router's own, those of the clients, and the wrapper of the last error.\<close>

datatype router_error =
  ErrNoProvidersAvailable | ErrPaymentFailed router_error | ErrProviderNotFound | ErrUnsupportedCurrency
| ErrCurrencyRequired | ErrClient string

fun error_text :: "router_error \<Rightarrow> string" where
  "error_text ErrNoProvidersAvailable = ''no payment providers available''"
| "error_text (ErrPaymentFailed err) = ''payment failed on all providers: '' @ error_text err"
| "error_text ErrProviderNotFound = ''provider not found''"
| "error_text ErrUnsupportedCurrency = ''unsupported currency for provider''"
| "error_text ErrCurrencyRequired = ''currency is required for partial refunds''"
| "error_text (ErrClient msg) = msg"

section \<open>The clients\<close>

record ChargeRequest =
  ch_Amount :: int64
  ch_Currency :: string
  ch_Source :: string
  ch_Description :: string
  ch_Metadata :: metadata
  ch_IdempotencyKey :: string

record ChargeResponse =
  ce_ID :: string
  ce_Amount :: int64
  ce_Currency :: string
  ce_Status :: string
  ce_Paid :: bool
  ce_RefundedAmount :: int64
  ce_FailureCode :: string
  ce_FailureMessage :: string
  ce_Created :: int64

record StripeRefundRequest =
  sf_ChargeID :: string
  sf_Amount :: int64
  sf_Reason :: string

record StripeRefundResponse =
  se_ID :: string
  se_Amount :: int64
  se_ChargeID :: string
  se_Status :: string
  se_Created :: int64

record 'w StripeClient =
  st_Charge :: "ChargeRequest \<Rightarrow> 'w \<Rightarrow> (string + ChargeResponse) \<times> 'w"
  st_Refund :: "StripeRefundRequest \<Rightarrow> 'w \<Rightarrow> (string + StripeRefundResponse) \<times> 'w"
  st_Healthcheck :: "'w \<Rightarrow> string option \<times> 'w"

record Amount =
  am_CurrencyCode :: string
  am_Value :: string

record PurchaseUnit =
  pu_ReferenceID :: string
  pu_Amount :: Amount
  pu_Description :: string

record Payer =
  py_EmailAddress :: string

record OrderRequest =
  or_Intent :: string
  or_PurchaseUnits :: "PurchaseUnit list"
  or_Payer :: "Payer option"

record Link =
  lk_Href :: string
  lk_Rel :: string
  lk_Method :: string

record OrderResponse =
  oe_ID :: string
  oe_Status :: string
  oe_Intent :: string
  oe_PurchaseUnits :: "PurchaseUnit list"
  oe_CreateTime :: string
  oe_UpdateTime :: string
  oe_Links :: "Link list"

record PayPalRefundRequest =
  pf_Amount :: "Amount option"
  pf_InvoiceID :: string
  pf_NoteToPayer :: string

record PayPalRefundResponse =
  pe_ID :: string
  pe_Status :: string
  pe_Amount :: Amount

record 'w PayPalClient =
  pp_CreateOrder :: "OrderRequest \<Rightarrow> 'w \<Rightarrow> (string + OrderResponse) \<times> 'w"
  pp_RefundCapture :: "string \<Rightarrow> PayPalRefundRequest option \<Rightarrow> 'w \<Rightarrow> (string + PayPalRefundResponse) \<times> 'w"
  pp_Healthcheck :: "'w \<Rightarrow> string option \<times> 'w"

section \<open>The router\<close>

record 'w Router =
  rt_stripeClient :: "'w StripeClient option"
  rt_paypalClient :: "'w PayPalClient option"
  rt_providers :: "Provider \<rightharpoonup> ProviderConfig"
  rt_order :: "Provider list"

definition NewRouter :: "'w Router" where
  "NewRouter = \<lparr>rt_stripeClient = None, rt_paypalClient = None, rt_providers = Map.empty, rt_order = []\<rparr>"

text \<open>
  The two nested loops that sort the order by priority, exchanging elements in place.
\<close>

definition exchange_step :: "('a \<Rightarrow> int) \<Rightarrow> nat \<Rightarrow> nat \<Rightarrow> 'a list \<Rightarrow> 'a list" where
  "exchange_step priority i j xs =
     (if priority (xs ! j) < priority (xs ! i) then xs[i := xs ! j, j := xs ! i] else xs)"

definition exchange_sort :: "('a \<Rightarrow> int) \<Rightarrow> 'a list \<Rightarrow> 'a list" where
  "exchange_sort priority xs =
     fold (\<lambda>i xs. fold (exchange_step priority i) [i + 1..<length xs] xs) [0..<length xs - 1] xs"

definition priority_of :: "(Provider \<rightharpoonup> ProviderConfig) \<Rightarrow> Provider \<Rightarrow> int" where
  "priority_of ps p = (case ps p of None \<Rightarrow> 0 | Some config \<Rightarrow> sint (pc_Priority config))"

text \<open>\<open>rebuildOrder\<close>; \<open>ks\<close> is the order in which \<open>range\<close> visits the providers.\<close>

definition rebuildOrder :: "Provider list \<Rightarrow> 'w Router \<Rightarrow> 'w Router" where
  "rebuildOrder ks r =
     r\<lparr>rt_order := exchange_sort (priority_of (rt_providers r))
         (filter (\<lambda>p. case rt_providers r p of None \<Rightarrow> False | Some config \<Rightarrow> pc_Enabled config) ks)\<rparr>"

definition RegisterStripe :: "Provider list \<Rightarrow> 'w StripeClient \<Rightarrow> ProviderConfig \<Rightarrow> 'w Router \<Rightarrow> 'w Router" where
  "RegisterStripe ks client config r =
     rebuildOrder ks (r\<lparr>rt_stripeClient := Some client,
       rt_providers := (rt_providers r)(ProviderStripe \<mapsto> config\<lparr>pc_Provider := ProviderStripe\<rparr>)\<rparr>)"

definition RegisterPayPal :: "Provider list \<Rightarrow> 'w PayPalClient \<Rightarrow> ProviderConfig \<Rightarrow> 'w Router \<Rightarrow> 'w Router" where
  "RegisterPayPal ks client config r =
     rebuildOrder ks (r\<lparr>rt_paypalClient := Some client,
       rt_providers := (rt_providers r)(ProviderPayPal \<mapsto> config\<lparr>pc_Provider := ProviderPayPal\<rparr>)\<rparr>)"

definition EnableProvider :: "Provider list \<Rightarrow> Provider \<Rightarrow> 'w Router \<Rightarrow> router_error option \<times> 'w Router" where
  "EnableProvider ks provider r =
     (case rt_providers r provider of
        None \<Rightarrow> (Some ErrProviderNotFound, r)
      | Some config \<Rightarrow> (None, rebuildOrder ks
          (r\<lparr>rt_providers := (rt_providers r)(provider \<mapsto> config\<lparr>pc_Enabled := True\<rparr>)\<rparr>)))"

definition DisableProvider :: "Provider list \<Rightarrow> Provider \<Rightarrow> 'w Router \<Rightarrow> router_error option \<times> 'w Router" where
  "DisableProvider ks provider r =
     (case rt_providers r provider of
        None \<Rightarrow> (Some ErrProviderNotFound, r)
      | Some config \<Rightarrow> (None, rebuildOrder ks
          (r\<lparr>rt_providers := (rt_providers r)(provider \<mapsto> config\<lparr>pc_Enabled := False\<rparr>)\<rparr>)))"

definition GetProviderStatus :: "'w Router \<Rightarrow> (Provider \<rightharpoonup> bool)" where
  "GetProviderStatus r = map_option pc_Enabled \<circ> rt_providers r"

definition supportsCurrency :: "ProviderConfig \<Rightarrow> string \<Rightarrow> bool" where
  "supportsCurrency config currency =
     (if pc_Currencies config = [] then True else currency \<in> set (pc_Currencies config))"

definition getProvidersForRequest :: "PaymentRequest \<Rightarrow> 'w Router \<Rightarrow> Provider list" where
  "getProvidersForRequest req r =
     (if pq_PreferredProvider req \<noteq> [] then
        (case rt_providers r (pq_PreferredProvider req) of
           None \<Rightarrow> []
         | Some config \<Rightarrow>
             if pc_Enabled config \<and> supportsCurrency config (pq_Currency req)
             then [pq_PreferredProvider req] else [])
      else []) @
     filter (\<lambda>p. p \<noteq> pq_PreferredProvider req \<and> supportsCurrency (the (rt_providers r p)) (pq_Currency req))
       (rt_order r)"

section \<open>Errors that are not retried\<close>

fun matchLower :: "string \<Rightarrow> string \<Rightarrow> bool" where
  "matchLower [] [] = True"
| "matchLower (a # as) (b # bs) = (if lower_byte a \<noteq> lower_byte b then False else matchLower as bs)"
| "matchLower _ _ = False"

definition containsLower :: "string \<Rightarrow> string \<Rightarrow> bool" where
  "containsLower s substr =
     list_ex (\<lambda>i. matchLower (take (length substr) (drop i s)) substr) [0..<length s + 1 - length substr]"

definition contains :: "string \<Rightarrow> string \<Rightarrow> bool" where
  "contains s substr \<longleftrightarrow> length substr \<le> length s \<and> (s = substr \<or> s \<noteq> [] \<and> containsLower s substr)"

definition client_error_patterns :: "string list" where
  "client_error_patterns =
     [''invalid'', ''unauthorized'', ''forbidden'', ''not found'', ''bad request'', ''validation'',
      ''insufficient funds'']"

definition isClientError :: "router_error \<Rightarrow> bool" where
  "isClientError err = list_ex (\<lambda>ce. contains (error_text err) ce) client_error_patterns"

section \<open>Payments\<close>

definition executeStripePayment ::
  "'w Router \<Rightarrow> PaymentRequest \<Rightarrow> 'w \<Rightarrow> (router_error + PaymentResult) \<times> 'w" where
  "executeStripePayment r req w =
     (case rt_stripeClient r of
        None \<Rightarrow> (Inl ErrProviderNotFound, w)
      | Some client \<Rightarrow>
        (case st_Charge client \<lparr>ch_Amount = pq_Amount req, ch_Currency = pq_Currency req,
                ch_Source = pq_Source req, ch_Description = pq_Description req,
                ch_Metadata = pq_Metadata req, ch_IdempotencyKey = pq_IdempotencyKey req\<rparr> w of
           (Inl msg, w') \<Rightarrow> (Inl (ErrClient msg), w')
         | (Inr resp, w') \<Rightarrow>
             (Inr \<lparr>ps_Provider = ProviderStripe, ps_ProviderRef = ce_ID resp, ps_Status = ce_Status resp,
                   ps_Amount = ce_Amount resp, ps_Currency = ce_Currency resp, ps_FailureReason = []\<rparr>, w')))"

text \<open>
  \<open>fmt.Sprintf("%.2f", float64(amount)/100)\<close>: the amount in units with two decimals.  The model is
  exact; the code goes through float64, which prints the same for amounts below 2^45 units.
\<close>

definition amount_string :: "int64 \<Rightarrow> string" where
  "amount_string amount =
     (let cents = nat \<bar>sint amount\<bar>
      in (if sint amount < 0 then ''-'' else []) @ decimal (cents div 100) @ ''.'' @
         [char_of (48 + cents mod 100 div 10), char_of (48 + cents mod 10)])"

definition executePayPalPayment ::
  "'w Router \<Rightarrow> PaymentRequest \<Rightarrow> 'w \<Rightarrow> (router_error + PaymentResult) \<times> 'w" where
  "executePayPalPayment r req w =
     (case rt_paypalClient r of
        None \<Rightarrow> (Inl ErrProviderNotFound, w)
      | Some client \<Rightarrow>
        (case pp_CreateOrder client \<lparr>or_Intent = ''CAPTURE'',
                or_PurchaseUnits =
                  [\<lparr>pu_ReferenceID = [],
                    pu_Amount = \<lparr>am_CurrencyCode = pq_Currency req, am_Value = amount_string (pq_Amount req)\<rparr>,
                    pu_Description = pq_Description req\<rparr>],
                or_Payer = None\<rparr> w of
           (Inl msg, w') \<Rightarrow> (Inl (ErrClient msg), w')
         | (Inr resp, w') \<Rightarrow>
             (Inr \<lparr>ps_Provider = ProviderPayPal, ps_ProviderRef = oe_ID resp, ps_Status = oe_Status resp,
                   ps_Amount = pq_Amount req, ps_Currency = pq_Currency req, ps_FailureReason = []\<rparr>, w')))"

definition executePayment ::
  "'w Router \<Rightarrow> Provider \<Rightarrow> PaymentRequest \<Rightarrow> 'w \<Rightarrow> (router_error + PaymentResult) \<times> 'w" where
  "executePayment r provider req w =
     (if provider = ProviderStripe then executeStripePayment r req w
      else if provider = ProviderPayPal then executePayPalPayment r req w
      else (Inl ErrProviderNotFound, w))"

text \<open>The attempts that are left after the first.\<close>

fun attempt_payment ::
  "'w Router \<Rightarrow> nat \<Rightarrow> Provider \<Rightarrow> PaymentRequest \<Rightarrow> 'w \<Rightarrow> (router_error + PaymentResult) \<times> 'w" where
  "attempt_payment r n provider req w =
     (case executePayment r provider req w of
        (Inr result, w') \<Rightarrow> (Inr result, w')
      | (Inl err, w') \<Rightarrow>
          if isClientError err then (Inl err, w')
          else (case n of 0 \<Rightarrow> (Inl err, w') | Suc m \<Rightarrow> attempt_payment r m provider req w'))"

declare attempt_payment.simps [simp del]

definition processWithProvider ::
  "'w Router \<Rightarrow> Provider \<Rightarrow> ProviderConfig \<Rightarrow> PaymentRequest \<Rightarrow> 'w \<Rightarrow> (router_error + PaymentResult) \<times> 'w" where
  "processWithProvider r provider config req w =
     (let maxRetries = (if sint (pc_MaxRetries config) \<le> 0 then 1 else sint (pc_MaxRetries config))
      in attempt_payment r (nat maxRetries - 1) provider req w)"

fun process_providers ::
  "'w Router \<Rightarrow> Provider list \<Rightarrow> PaymentRequest \<Rightarrow> router_error option \<Rightarrow> 'w \<Rightarrow>
    (router_error + PaymentResult) \<times> 'w" where
  "process_providers r [] req lastErr w = (Inl (ErrPaymentFailed (the lastErr)), w)"
| "process_providers r (provider # rest) req lastErr w =
     (case processWithProvider r provider (the (rt_providers r provider)) req w of
        (Inr result, w') \<Rightarrow> (Inr result, w')
      | (Inl err, w') \<Rightarrow> process_providers r rest req (Some err) w')"

definition ProcessPayment ::
  "'w Router \<Rightarrow> PaymentRequest \<Rightarrow> 'w \<Rightarrow> (router_error + PaymentResult) \<times> 'w" where
  "ProcessPayment r req w =
     (let providers = getProvidersForRequest req r
      in if providers = [] then (Inl ErrNoProvidersAvailable, w)
         else process_providers r providers req None w)"

section \<open>Refunds and health\<close>

definition executeStripeRefund ::
  "'w Router \<Rightarrow> RefundRequest \<Rightarrow> 'w \<Rightarrow> (router_error + RefundResult) \<times> 'w" where
  "executeStripeRefund r req w =
     (case rt_stripeClient r of
        None \<Rightarrow> (Inl ErrProviderNotFound, w)
      | Some client \<Rightarrow>
        (case st_Refund client \<lparr>sf_ChargeID = rr_ProviderRef req, sf_Amount = rr_Amount req,
                sf_Reason = rr_Reason req\<rparr> w of
           (Inl msg, w') \<Rightarrow> (Inl (ErrClient msg), w')
         | (Inr resp, w') \<Rightarrow>
             (Inr \<lparr>rs_Provider = ProviderStripe, rs_RefundRef = se_ID resp, rs_Amount = se_Amount resp,
                   rs_Status = se_Status resp\<rparr>, w')))"

definition executePayPalRefund ::
  "'w Router \<Rightarrow> RefundRequest \<Rightarrow> 'w \<Rightarrow> (router_error + RefundResult) \<times> 'w" where
  "executePayPalRefund r req w =
     (case rt_paypalClient r of
        None \<Rightarrow> (Inl ErrProviderNotFound, w)
      | Some client \<Rightarrow>
        if 0 < sint (rr_Amount req) \<and> rr_Currency req = [] then (Inl ErrCurrencyRequired, w)
        else
          (case pp_RefundCapture client (rr_ProviderRef req)
                  (if 0 < sint (rr_Amount req)
                   then Some \<lparr>pf_Amount = Some \<lparr>am_CurrencyCode = rr_Currency req,
                          am_Value = amount_string (rr_Amount req)\<rparr>,
                          pf_InvoiceID = [], pf_NoteToPayer = rr_Reason req\<rparr>
                   else None) w of
             (Inl msg, w') \<Rightarrow> (Inl (ErrClient msg), w')
           | (Inr resp, w') \<Rightarrow>
               (Inr \<lparr>rs_Provider = ProviderPayPal, rs_RefundRef = pe_ID resp, rs_Amount = 0,
                     rs_Status = pe_Status resp\<rparr>, w')))"

definition ProcessRefund ::
  "'w Router \<Rightarrow> RefundRequest \<Rightarrow> 'w \<Rightarrow> (router_error + RefundResult) \<times> 'w" where
  "ProcessRefund r req w =
     (if rr_Provider req = ProviderStripe then executeStripeRefund r req w
      else if rr_Provider req = ProviderPayPal then executePayPalRefund r req w
      else (Inl ErrProviderNotFound, w))"

text \<open>\<open>Healthcheck\<close>: for each registered client, its error (\<open>Some None\<close> is healthy).\<close>

definition Healthcheck :: "'w Router \<Rightarrow> 'w \<Rightarrow> (Provider \<rightharpoonup> string option) \<times> 'w" where
  "Healthcheck r w =
     (let (m1, w1) = (case rt_stripeClient r of
            None \<Rightarrow> (Map.empty, w)
          | Some client \<Rightarrow> (case st_Healthcheck client w of (err, w') \<Rightarrow> ([ProviderStripe \<mapsto> err], w')))
      in case rt_paypalClient r of
           None \<Rightarrow> (m1, w1)
         | Some client \<Rightarrow> (case pp_Healthcheck client w1 of (err, w') \<Rightarrow> (m1(ProviderPayPal \<mapsto> err), w')))"

section \<open>The order of the providers\<close>

text \<open>
  What one round of the outer loop does to the element at its position and the rest: the minimum
  comes first.  \<open>selection_sort\<close> is the sort on lists that the loops in place amount to.
\<close>

fun select_min :: "('a \<Rightarrow> int) \<Rightarrow> 'a \<Rightarrow> 'a list \<Rightarrow> 'a \<times> 'a list" where
  "select_min f x [] = (x, [])"
| "select_min f x (y # ys) =
     (if f y < f x then (case select_min f y ys of (m, zs) \<Rightarrow> (m, x # zs))
      else (case select_min f x ys of (m, zs) \<Rightarrow> (m, y # zs)))"

lemma select_min_length [simp]: "length (snd (select_min f x ys)) = length ys"
  by (induction f x ys rule: select_min.induct) (auto split: prod.splits)

function selection_sort :: "('a \<Rightarrow> int) \<Rightarrow> 'a list \<Rightarrow> 'a list" where
  "selection_sort f [] = []"
| "selection_sort f (x # xs) = fst (select_min f x xs) # selection_sort f (snd (select_min f x xs))"
  by pat_completeness auto
termination by (relation "measure (\<lambda>(f, xs). length xs)") auto

lemma select_min_mset: "add_mset (fst (select_min f x ys)) (mset (snd (select_min f x ys))) = add_mset x (mset ys)"
  by (induction f x ys rule: select_min.induct) (auto split: prod.splits simp: add_mset_commute)

lemma select_min_least:
  "f (fst (select_min f x ys)) \<le> f x \<and> (\<forall>z \<in> set (snd (select_min f x ys)). f (fst (select_min f x ys)) \<le> f z)"
  by (induction f x ys rule: select_min.induct) (fastforce split: prod.splits)+

lemma selection_sort_mset: "mset (selection_sort f xs) = mset xs"
  by (induction f xs rule: selection_sort.induct) (simp_all add: select_min_mset)

lemma selection_sort_sorted: "sorted_wrt (\<lambda>a b. f a \<le> f b) (selection_sort f xs)"
proof (induction f xs rule: selection_sort.induct)
  case (2 f x xs)
  have "set (selection_sort f (snd (select_min f x xs))) = set (snd (select_min f x xs))"
    by (rule mset_eq_setD) (rule selection_sort_mset)
  with 2 select_min_least [of f x xs] show ?case by simp
qed simp

lemma exchange_round:
  "fold (exchange_step f (length pre)) [length pre + 1 + length mid..<length pre + 1 + length mid + length rest]
     (pre @ x # mid @ rest) =
   pre @ fst (select_min f x rest) # mid @ snd (select_min f x rest)"
proof (induction rest arbitrary: x mid)
  case Nil
  then show ?case by simp
next
  case (Cons y ys)
  let ?i = "length pre" and ?j = "length pre + 1 + length mid"
  have range: "[?j..<?j + length (y # ys)] = ?j # [Suc ?j..<Suc ?j + length ys]"
    by (subst upt_conv_Cons) simp_all
  have read: "(pre @ x # mid @ y # ys) ! ?j = y" "(pre @ x # mid @ y # ys) ! ?i = x"
    by (simp_all add: nth_append)
  have swapped: "(pre @ x # mid @ y # ys)[?i := y, ?j := x] = pre @ y # mid @ x # ys"
    by (simp add: list_update_append)
  show ?case
  proof (cases "f y < f x")
    case True
    then have "exchange_step f ?i ?j (pre @ x # mid @ y # ys) = pre @ y # (mid @ [x]) @ ys"
      unfolding exchange_step_def read using swapped by simp
    with Cons.IH [where x = y and mid = "mid @ [x]"] True show ?thesis
      unfolding range by (simp split: prod.split)
  next
    case False
    then have "exchange_step f ?i ?j (pre @ x # mid @ y # ys) = pre @ x # (mid @ [y]) @ ys"
      unfolding exchange_step_def read by simp
    with Cons.IH [where x = x and mid = "mid @ [y]"] False show ?thesis
      unfolding range by (simp split: prod.split)
  qed
qed

lemma exchange_rounds:
  "fold (\<lambda>i xs. fold (exchange_step f i) [i + 1..<length xs] xs)
     [length pre..<length pre + length xs - 1] (pre @ xs) = pre @ selection_sort f xs"
proof (induction f xs arbitrary: pre rule: selection_sort.induct)
  case (1 f)
  then show ?case by simp
next
  case (2 f x xs)
  let ?m = "fst (select_min f x xs)" and ?rest = "snd (select_min f x xs)"
  define round where "round = (\<lambda>i xs. fold (exchange_step f i) [i + 1..<length xs] xs)"
  have first: "round (length pre) (pre @ x # xs) = (pre @ [?m]) @ ?rest"
    using exchange_round [of f pre "[]" xs x] by (simp add: round_def)
  have IH: "fold round [length (pre @ [?m])..<length (pre @ [?m]) + length ?rest - 1] ((pre @ [?m]) @ ?rest) =
      (pre @ [?m]) @ selection_sort f ?rest"
    unfolding round_def by (rule 2)
  have "fold round [length pre..<length pre + length (x # xs) - 1] (pre @ x # xs) =
      pre @ selection_sort f (x # xs)"
  proof (cases xs)
    case Nil
    then show ?thesis by simp
  next
    case (Cons y ys)
    then have "0 < length xs" by simp
    then have range: "[length pre..<length pre + length (x # xs) - 1] =
        length pre # [length (pre @ [?m])..<length (pre @ [?m]) + length ?rest - 1]"
      unfolding select_min_length by (subst upt_conv_Cons) simp_all
    have "fold round [length pre..<length pre + length (x # xs) - 1] (pre @ x # xs) =
        (pre @ [?m]) @ selection_sort f ?rest"
      unfolding range fold_simps first by (rule IH)
    then show ?thesis by simp
  qed
  then show ?case unfolding round_def .
qed

lemma exchange_sort_eq: "exchange_sort f xs = selection_sort f xs"
  using exchange_rounds [of f "[]" xs] by (simp add: exchange_sort_def)


section \<open>Reachable routers\<close>

text \<open>
  A router is built by \<open>NewRouter\<close> and changed by the registrations and the switches only, in any
  order; each rebuilds the order from some enumeration of the providers.
\<close>

inductive router_reachable :: "'w Router \<Rightarrow> bool" where
  new: "router_reachable NewRouter"
| stripe: "router_reachable r \<Longrightarrow> iteration_of ks (rt_providers (RegisterStripe ks client config r)) \<Longrightarrow>
    router_reachable (RegisterStripe ks client config r)"
| paypal: "router_reachable r \<Longrightarrow> iteration_of ks (rt_providers (RegisterPayPal ks client config r)) \<Longrightarrow>
    router_reachable (RegisterPayPal ks client config r)"
| enable: "router_reachable r \<Longrightarrow> iteration_of ks (rt_providers r) \<Longrightarrow>
    router_reachable (snd (EnableProvider ks p r))"
| disable: "router_reachable r \<Longrightarrow> iteration_of ks (rt_providers r) \<Longrightarrow>
    router_reachable (snd (DisableProvider ks p r))"

text \<open>
  The invariant: the order holds the enabled providers, each once, by priority; only Stripe and
  PayPal are ever registered, each with its client.
\<close>

definition registered_ok :: "'w Router \<Rightarrow> bool" where
  "registered_ok r \<longleftrightarrow>
     dom (rt_providers r) \<subseteq> {ProviderStripe, ProviderPayPal} \<and>
     (rt_stripeClient r = None \<longrightarrow> rt_providers r ProviderStripe = None) \<and>
     (rt_paypalClient r = None \<longrightarrow> rt_providers r ProviderPayPal = None)"

definition router_wf :: "'w Router \<Rightarrow> bool" where
  "router_wf r \<longleftrightarrow>
     distinct (rt_order r) \<and>
     set (rt_order r) = {p. GetProviderStatus r p = Some True} \<and>
     sorted_wrt (\<lambda>p q. priority_of (rt_providers r) p \<le> priority_of (rt_providers r) q) (rt_order r) \<and>
     registered_ok r"

lemma rebuildOrder_fields [simp]:
  "rt_providers (rebuildOrder ks r) = rt_providers r"
  "rt_stripeClient (rebuildOrder ks r) = rt_stripeClient r"
  "rt_paypalClient (rebuildOrder ks r) = rt_paypalClient r"
  by (simp_all add: rebuildOrder_def)

lemma rebuildOrder_mset:
  "mset (rt_order (rebuildOrder ks r)) =
   mset (filter (\<lambda>p. GetProviderStatus r p = Some True) ks)"
proof -
  have "(\<lambda>p. case rt_providers r p of None \<Rightarrow> False | Some config \<Rightarrow> pc_Enabled config) =
      (\<lambda>p. GetProviderStatus r p = Some True)"
    by (auto simp: GetProviderStatus_def split: option.split)
  then show ?thesis by (simp add: rebuildOrder_def exchange_sort_eq selection_sort_mset)
qed

lemma registered_ok_rebuild [simp]: "registered_ok (rebuildOrder ks r) = registered_ok r"
  by (simp add: registered_ok_def)

lemma registered_ok_switch:
  "registered_ok r \<Longrightarrow> rt_providers r p = Some config \<Longrightarrow>
    registered_ok (r\<lparr>rt_providers := (rt_providers r)(p \<mapsto> config')\<rparr>)"
  by (auto simp: registered_ok_def)

lemma rebuildOrder_wf:
  assumes "iteration_of ks (rt_providers r)" "registered_ok r"
  shows "router_wf (rebuildOrder ks r)"
proof -
  let ?o = "rt_order (rebuildOrder ks r)" and ?enabled = "filter (\<lambda>p. GetProviderStatus r p = Some True) ks"
  have perm: "mset ?o = mset ?enabled" by (rule rebuildOrder_mset)
  have "distinct ?o"
    using mset_eq_imp_distinct_iff [OF perm] assms(1) by (simp add: iteration_of_def)
  moreover have "set ?o = {p. GetProviderStatus (rebuildOrder ks r) p = Some True}"
    using mset_eq_setD [OF perm] assms(1) by (auto simp: iteration_of_def GetProviderStatus_def)
  moreover have "sorted_wrt (\<lambda>p q. priority_of (rt_providers r) p \<le> priority_of (rt_providers r) q) ?o"
    by (simp add: rebuildOrder_def exchange_sort_eq selection_sort_sorted)
  ultimately show ?thesis using assms(2) by (simp add: router_wf_def)
qed

lemma reachable_router_wf: "router_reachable r \<Longrightarrow> router_wf r"
proof (induction rule: router_reachable.induct)
  case new
  then show ?case by (simp add: router_wf_def registered_ok_def NewRouter_def GetProviderStatus_def)
next
  case (stripe r ks client config)
  have "registered_ok r" using stripe.IH by (simp add: router_wf_def)
  then show ?case
    using stripe.hyps(2) unfolding RegisterStripe_def
    by (intro rebuildOrder_wf) (simp_all add: registered_ok_def subset_insertI2)
next
  case (paypal r ks client config)
  have "registered_ok r" using paypal.IH by (simp add: router_wf_def)
  then show ?case
    using paypal.hyps(2) unfolding RegisterPayPal_def
    by (intro rebuildOrder_wf) (simp_all add: registered_ok_def subset_insertI2)
next
  case (enable r ks p)
  show ?case
  proof (cases "rt_providers r p")
    case (Some config)
    have "registered_ok r" using enable.IH by (simp add: router_wf_def)
    with Some enable.hyps(2) show ?thesis unfolding EnableProvider_def
      by (simp add: rebuildOrder_wf registered_ok_switch iteration_of_def insert_absorb domI)
  qed (use enable.IH in \<open>simp add: EnableProvider_def\<close>)
next
  case (disable r ks p)
  show ?case
  proof (cases "rt_providers r p")
    case (Some config)
    have "registered_ok r" using disable.IH by (simp add: router_wf_def)
    with Some disable.hyps(2) show ?thesis unfolding DisableProvider_def
      by (simp add: rebuildOrder_wf registered_ok_switch iteration_of_def insert_absorb domI)
  qed (use disable.IH in \<open>simp add: DisableProvider_def\<close>)
qed

text \<open>
  A provider is usable for a currency when it is registered and enabled, and its currencies, if it has any,
  include it.
\<close>

definition usable :: "'w Router \<Rightarrow> string \<Rightarrow> Provider \<Rightarrow> bool" where
  "usable r currency p \<longleftrightarrow>
     (case rt_providers r p of None \<Rightarrow> False
      | Some config \<Rightarrow> pc_Enabled config \<and> (pc_Currencies config = [] \<or> currency \<in> set (pc_Currencies config)))"

lemma usable_alt:
  "usable r c p \<longleftrightarrow> GetProviderStatus r p = Some True \<and> supportsCurrency (the (rt_providers r p)) c"
  by (auto simp: usable_def GetProviderStatus_def supportsCurrency_def split: option.splits)

lemma usable_nonempty: "router_wf r \<Longrightarrow> usable r c p \<Longrightarrow> p \<noteq> []"
  by (auto simp: router_wf_def registered_ok_def usable_def split: option.splits)

lemma preferred_first:
  assumes "set xs = {p. E p}" "distinct xs" "sorted_wrt R xs" "\<And>p. P p \<Longrightarrow> E p"
    and "ys = (if P q then [q] else []) @ filter (\<lambda>p. p \<noteq> q \<and> P p) xs"
  shows "set ys = {p. P p} \<and> distinct ys \<and>
    (if P q then hd ys = q \<and> sorted_wrt R (tl ys) else sorted_wrt R ys)"
  using assms by (auto intro: sorted_wrt_filter)

text \<open>The list as one expression: the preferred provider, then the usable rest of the order.\<close>

lemma getProvidersForRequest_alt:
  assumes "router_wf r"
  shows "getProvidersForRequest req r =
    (if usable r (pq_Currency req) (pq_PreferredProvider req) then [pq_PreferredProvider req] else []) @
    filter (\<lambda>p. p \<noteq> pq_PreferredProvider req \<and> usable r (pq_Currency req) p) (rt_order r)"
proof -
  have order: "set (rt_order r) = {p. GetProviderStatus r p = Some True}"
    using assms by (simp add: router_wf_def)
  have rest: "filter (\<lambda>p. p \<noteq> pq_PreferredProvider req \<and>
          supportsCurrency (the (rt_providers r p)) (pq_Currency req)) (rt_order r) =
      filter (\<lambda>p. p \<noteq> pq_PreferredProvider req \<and> usable r (pq_Currency req) p) (rt_order r)"
    by (rule filter_cong [OF refl]) (simp add: order usable_alt)
  have first: "(if pq_PreferredProvider req \<noteq> [] then
        (case rt_providers r (pq_PreferredProvider req) of
           None \<Rightarrow> []
         | Some config \<Rightarrow>
             if pc_Enabled config \<and> supportsCurrency config (pq_Currency req)
             then [pq_PreferredProvider req] else [])
      else []) =
    (if usable r (pq_Currency req) (pq_PreferredProvider req) then [pq_PreferredProvider req] else [])"
    using usable_nonempty [OF assms, of "pq_Currency req" "pq_PreferredProvider req"]
    by (cases "rt_providers r (pq_PreferredProvider req)") (simp_all add: usable_def supportsCurrency_def)
  show ?thesis unfolding getProvidersForRequest_def rest first ..
qed

text \<open>
  C40: On every router that registrations and switches can build, the providers tried for a payment
  are exactly the usable ones, each once; a usable preferred provider comes first and the others
  follow by priority (lower numbers first), as they do when no usable provider is preferred.
\<close>

theorem providers_for_request:
  assumes "router_reachable r"
  shows "let chosen = getProvidersForRequest req r;
             by_priority = sorted_wrt (\<lambda>p q. priority_of (rt_providers r) p \<le> priority_of (rt_providers r) q)
    in set chosen = {p. usable r (pq_Currency req) p} \<and> distinct chosen \<and>
       (if usable r (pq_Currency req) (pq_PreferredProvider req)
        then hd chosen = pq_PreferredProvider req \<and> by_priority (tl chosen)
        else by_priority chosen)"
proof -
  have wf: "router_wf r" by (rule reachable_router_wf) (rule assms)
  then show ?thesis
    unfolding Let_def
    by (intro preferred_first [where E = "\<lambda>p. GetProviderStatus r p = Some True", OF _ _ _ _ getProvidersForRequest_alt])
       (simp_all add: router_wf_def usable_alt)
qed

text \<open>
  A router with both providers for the instances below.  The outside world is the list of the
  providers that charged the customer for the request.  Stripe charges once (a repeated
  idempotency key makes no second charge) but its answers are lost; PayPal accepts every order.
\<close>

definition example_router :: "Provider list Router" where
  "example_router =
     RegisterPayPal [ProviderPayPal, ProviderStripe]
       \<lparr>pp_CreateOrder = (\<lambda>_ w. (Inr \<lparr>oe_ID = ''O1'', oe_Status = ''CREATED'', oe_Intent = ''CAPTURE'',
          oe_PurchaseUnits = [], oe_CreateTime = [], oe_UpdateTime = [], oe_Links = []\<rparr>, ProviderPayPal # w)),
        pp_RefundCapture = (\<lambda>_ _ w. (Inl ''not found'', w)), pp_Healthcheck = (\<lambda>w. (None, w))\<rparr>
       \<lparr>pc_Provider = [], pc_Priority = 2, pc_Enabled = True, pc_Currencies = [], pc_MaxRetries = 1,
        pc_RetryDelayMs = 0\<rparr>
       (RegisterStripe [ProviderStripe]
         \<lparr>st_Charge = (\<lambda>_ w. (Inl ''timeout'', if ProviderStripe \<in> set w then w else ProviderStripe # w)),
          st_Refund = (\<lambda>_ w. (Inl ''not found'', w)), st_Healthcheck = (\<lambda>w. (None, w))\<rparr>
         \<lparr>pc_Provider = [], pc_Priority = 1, pc_Enabled = True, pc_Currencies = [''USD''], pc_MaxRetries = 3,
          pc_RetryDelayMs = 0\<rparr>
         NewRouter)"

definition example_request :: "Provider \<Rightarrow> PaymentRequest" where
  "example_request preferred =
     \<lparr>pq_Amount = 1000, pq_Currency = ''USD'', pq_Source = ''tok'', pq_Description = [],
      pq_IdempotencyKey = ''key'', pq_Metadata = None, pq_PreferredProvider = preferred\<rparr>"

lemma example_router_reachable: "router_reachable example_router"
  unfolding example_router_def
  by (intro router_reachable.intros)
     (auto simp: iteration_of_def RegisterStripe_def RegisterPayPal_def NewRouter_def)

theorem providers_for_request_witness:
  "hd (getProvidersForRequest (example_request ProviderPayPal) example_router) = ProviderPayPal"
proof -
  have "usable example_router (pq_Currency (example_request ProviderPayPal))
      (pq_PreferredProvider (example_request ProviderPayPal))"
    by code_simp
  with providers_for_request [OF example_router_reachable, of "example_request ProviderPayPal"]
  show ?thesis by (simp add: Let_def example_request_def)
qed

section \<open>The outcome of a payment\<close>

lemma executePayment_provider: "executePayment r p req w = (Inr result, w') \<Longrightarrow> ps_Provider result = p"
  by (auto simp: executePayment_def executeStripePayment_def executePayPalPayment_def
           split: if_splits option.splits prod.splits sum.splits)

lemma attempt_payment_provider:
  "attempt_payment r n p req w = (Inr result, w') \<Longrightarrow> ps_Provider result = p"
proof (induction n arbitrary: w)
  case 0
  then show ?case
    by (subst (asm) attempt_payment.simps)
       (auto dest: executePayment_provider split: prod.splits sum.splits if_splits)
next
  case (Suc n)
  from Suc.prems show ?case
    by (subst (asm) attempt_payment.simps)
       (auto dest: executePayment_provider Suc.IH split: prod.splits sum.splits if_splits)
qed

lemma process_providers_outcome:
  "case process_providers r ps req lastErr w of
     (Inr result, _) \<Rightarrow> ps_Provider result \<in> set ps
   | (Inl err, _) \<Rightarrow> \<exists>e. err = ErrPaymentFailed e"
proof (induction ps arbitrary: lastErr w)
  case Nil
  then show ?case by simp
next
  case (Cons p ps)
  obtain res w' where step: "processWithProvider r p (the (rt_providers r p)) req w = (res, w')"
    by fastforce
  show ?case
  proof (cases res)
    case (Inl err)
    with step Cons.IH [of "Some err" w'] show ?thesis by (auto split: prod.splits sum.splits)
  next
    case (Inr result)
    with step have "ps_Provider result = p"
      by (auto simp: processWithProvider_def Let_def dest: attempt_payment_provider)
    with step Inr show ?thesis by simp
  qed
qed

lemma chosen_set: "router_wf r \<Longrightarrow> set (getProvidersForRequest req r) = {p. usable r (pq_Currency req) p}"
  by (auto simp: getProvidersForRequest_alt router_wf_def usable_alt)

text \<open>
  A payment that succeeds was taken by a provider that is registered, enabled and supports the
  currency; without such a provider the request is refused and no provider is called; otherwise
  the only failure is that of all the providers.
\<close>

theorem payment_outcome:
  assumes "router_reachable r"
  shows "case ProcessPayment r req w of
      (Inr result, _) \<Rightarrow> usable r (pq_Currency req) (ps_Provider result)
    | (Inl ErrNoProvidersAvailable, w') \<Rightarrow> w' = w \<and> (\<forall>p. \<not> usable r (pq_Currency req) p)
    | (Inl (ErrPaymentFailed _), _) \<Rightarrow> (\<exists>p. usable r (pq_Currency req) p)
    | (Inl _, _) \<Rightarrow> False"
proof (cases "getProvidersForRequest req r = []")
  case True
  with chosen_set [OF reachable_router_wf [OF assms], of req] show ?thesis
    by (auto simp: ProcessPayment_def)
next
  case False
  then have "\<exists>p. usable r (pq_Currency req) p"
    using chosen_set [OF reachable_router_wf [OF assms], of req] by (auto simp: neq_Nil_conv)
  with False process_providers_outcome [where r = r and ps = "getProvidersForRequest req r" and req = req and lastErr = None and w = w]
    chosen_set [OF reachable_router_wf [OF assms], of req]
  show ?thesis by (auto simp: ProcessPayment_def Let_def split: prod.splits sum.splits)
qed

lemma payment_outcome_witness:
  "case ProcessPayment example_router (example_request []) [] of
     (Inr result, _) \<Rightarrow> usable example_router ''USD'' (ps_Provider result) | (Inl _, _) \<Rightarrow> False"
proof -
  have "isl (fst (ProcessPayment example_router (example_request []) [])) = False" by code_simp
  with payment_outcome [OF example_router_reachable, where req = "example_request []" and w = "[]"]
  show ?thesis by (auto simp: example_request_def split: prod.splits sum.splits)
qed

text \<open>
  What happens when Stripe charges the customer and its answer is lost: the router retries with
  the same idempotency key, which Stripe ignores, and then charges the customer with PayPal too.
\<close>

lemma lost_answer_charged_twice:
  "snd (ProcessPayment example_router (example_request []) []) = [ProviderPayPal, ProviderStripe]"
  by code_simp

text \<open>The attempts that the configuration of a provider allows.\<close>

definition attempts_allowed :: "ProviderConfig \<Rightarrow> nat" where
  "attempts_allowed config = (if sint (pc_MaxRetries config) \<le> 0 then 1 else nat (sint (pc_MaxRetries config)))"

lemma processWithProvider_attempts:
  "processWithProvider r p config req w = attempt_payment r (attempts_allowed config - 1) p req w \<and>
   0 < attempts_allowed config"
  by (auto simp: processWithProvider_def attempts_allowed_def)

text \<open>
  A measure \<open>calls\<close> of the outside world counts at most the calls of a payment when each call of a
  client raises it by at most one.
\<close>

definition counts_calls :: "('w \<Rightarrow> nat) \<Rightarrow> 'w Router \<Rightarrow> bool" where
  "counts_calls calls r \<longleftrightarrow>
     (\<forall>client charge w. rt_stripeClient r = Some client \<longrightarrow> calls (snd (st_Charge client charge w)) \<le> calls w + 1) \<and>
     (\<forall>client order w. rt_paypalClient r = Some client \<longrightarrow> calls (snd (pp_CreateOrder client order w)) \<le> calls w + 1)"

lemma one_call:
  assumes "counts_calls calls r"
  shows "calls (snd (executePayment r p req w)) \<le> calls w + 1"
  using assms unfolding counts_calls_def executePayment_def executeStripePayment_def executePayPalPayment_def
  by (auto split: option.splits prod.splits sum.splits) (metis snd_conv)+

lemma attempt_payment_calls:
  assumes "counts_calls calls r"
  shows "calls (snd (attempt_payment r n p req w)) \<le> calls w + n + 1"
proof (induction n arbitrary: w)
  case 0
  then show ?case
    using one_call [OF assms, of p req w]
    by (subst attempt_payment.simps) (auto split: prod.splits sum.splits)
next
  case (Suc n)
  obtain res w' where step: "executePayment r p req w = (res, w')" by fastforce
  with one_call [OF assms, of p req w] Suc.IH [of w'] show ?case
    by (subst attempt_payment.simps) (auto split: prod.splits sum.splits)
qed

lemma process_providers_calls:
  assumes "counts_calls calls r"
  shows "calls (snd (process_providers r ps req lastErr w)) \<le>
    calls w + (\<Sum>p \<leftarrow> ps. attempts_allowed (the (rt_providers r p)))"
proof (induction ps arbitrary: lastErr w)
  case Nil
  then show ?case by simp
next
  case (Cons p ps)
  let ?n = "attempts_allowed (the (rt_providers r p))"
  obtain res w' where step: "processWithProvider r p (the (rt_providers r p)) req w = (res, w')"
    by fastforce
  then have "attempt_payment r (?n - 1) p req w = (res, w')" and "0 < ?n"
    using processWithProvider_attempts [of r p "the (rt_providers r p)" req w] by simp_all
  with attempt_payment_calls [OF assms, of "?n - 1" p req w] have "calls w' \<le> calls w + ?n"
    by simp
  with step Cons.IH [of "Some (projl res)" w'] show ?case
    by (cases res) (simp_all add: add.assoc)
qed

text \<open>
  One payment calls the providers at most as often as the configured retries of the usable
  providers allow together, one attempt each where none is configured.
\<close>

theorem payment_calls_bounded:
  assumes "router_reachable r" "counts_calls calls r"
  shows "calls (snd (ProcessPayment r req w)) \<le>
    calls w + (\<Sum>p | usable r (pq_Currency req) p. attempts_allowed (the (rt_providers r p)))"
proof -
  have wf: "router_wf r" using assms(1) by (rule reachable_router_wf)
  let ?ps = "getProvidersForRequest req r" and ?n = "\<lambda>p. attempts_allowed (the (rt_providers r p))"
  have "distinct ?ps"
    using wf by (auto simp: getProvidersForRequest_alt router_wf_def)
  then have "(\<Sum>p \<leftarrow> ?ps. ?n p) = (\<Sum>p | usable r (pq_Currency req) p. ?n p)"
    by (simp add: sum_list_distinct_conv_sum_set chosen_set [OF wf])
  moreover have "calls (snd (ProcessPayment r req w)) \<le> calls w + (\<Sum>p \<leftarrow> ?ps. ?n p)"
    using process_providers_calls [OF assms(2)] by (simp add: ProcessPayment_def Let_def)
  ultimately show ?thesis by simp
qed

lemma payment_calls_bounded_witness:
  "length (snd (ProcessPayment example_router (example_request []) [])) \<le>
    (\<Sum>p | usable example_router ''USD'' p. attempts_allowed (the (rt_providers example_router p)))"
proof -
  have "counts_calls length example_router"
    by (auto simp: counts_calls_def example_router_def RegisterStripe_def RegisterPayPal_def rebuildOrder_def
        NewRouter_def)
  from payment_calls_bounded [OF example_router_reachable this, where req = "example_request []" and w = "[]"]
  show ?thesis by (simp add: example_request_def)
qed

section \<open>Which errors are retried, and which providers are tried\<close>

lemma matchLower_iff: "matchLower as bs \<longleftrightarrow> map lower_byte as = map lower_byte bs"
  by (induction as bs rule: matchLower.induct) auto

lemma containsLower_iff:
  assumes "length t \<le> length s"
  shows "containsLower s t \<longleftrightarrow> sublist (map lower_byte t) (map lower_byte s)"
proof
  assume "containsLower s t"
  then obtain i where "map lower_byte (take (length t) (drop i s)) = map lower_byte t"
    by (auto simp: containsLower_def list_ex_iff matchLower_iff)
  then have "map lower_byte s =
      map lower_byte (take i s) @ map lower_byte t @ map lower_byte (drop (length t) (drop i s))"
    by (metis append_take_drop_id map_append)
  then show "sublist (map lower_byte t) (map lower_byte s)" by (auto simp: sublist_def)
next
  assume "sublist (map lower_byte t) (map lower_byte s)"
  then obtain pre post where split: "map lower_byte s = pre @ map lower_byte t @ post"
    by (auto simp: sublist_def)
  then have "length pre + length t \<le> length s" by (metis add_le_cancel_left le_add1 length_append length_map)
  moreover have "map lower_byte (take (length t) (drop (length pre) s)) = map lower_byte t"
    using split by (simp add: take_map drop_map flip: take_map drop_map)
  ultimately show "containsLower s t"
    by (auto simp: containsLower_def list_ex_iff matchLower_iff intro!: bexI [where x = "length pre"])
qed

lemma contains_iff: "contains s t \<longleftrightarrow> sublist (map lower_byte t) (map lower_byte s)"
proof (cases "length t \<le> length s")
  case True
  then show ?thesis by (auto simp: contains_def containsLower_iff)
next
  case False
  then show ?thesis by (auto simp: contains_def dest: sublist_length_le)
qed

text \<open>
  An attempt whose error mentions one of the client-error patterns, in whatever case, is the only
  attempt made with that provider, and its error is the provider's; every other error is retried
  while attempts are left.
\<close>

theorem client_error_not_retried:
  assumes "executePayment r p req w = (Inl err, w')"
  shows "processWithProvider r p config req w =
    (if (\<exists>pattern \<in> set client_error_patterns.
            sublist (map lower_byte pattern) (map lower_byte (error_text err))) \<or> attempts_allowed config = 1
     then (Inl err, w')
     else processWithProvider r p (config\<lparr>pc_MaxRetries := pc_MaxRetries config - 1\<rparr>) req w')"
proof -
  have client: "isClientError err \<longleftrightarrow>
      (\<exists>pattern \<in> set client_error_patterns. sublist (map lower_byte pattern) (map lower_byte (error_text err)))"
    by (simp add: isClientError_def list_ex_iff contains_iff)
  let ?less = "config\<lparr>pc_MaxRetries := pc_MaxRetries config - 1\<rparr>"
  show ?thesis
  proof (cases "attempts_allowed config = 1")
    case True
    then have "processWithProvider r p config req w = (Inl err, w')"
      using assms processWithProvider_attempts [of r p config req w]
      by (subst (asm) attempt_payment.simps) simp
    with True show ?thesis by simp
  next
    case False
    then have many: "1 < sint (pc_MaxRetries config)"
      by (auto simp: attempts_allowed_def split: if_splits)
    then have less: "sint (pc_MaxRetries config - 1) = sint (pc_MaxRetries config) - 1"
      using sint64_add [of "pc_MaxRetries config" "-1"] sint64_bounds [of "pc_MaxRetries config"] by simp
    obtain m where m: "attempts_allowed ?less = Suc m"
      using processWithProvider_attempts [of r p ?less req w'] gr0_implies_Suc by blast
    then have "attempts_allowed config = Suc (Suc m)"
      using many less by (auto simp: attempts_allowed_def split: if_splits)
    then have "processWithProvider r p config req w = attempt_payment r (Suc m) p req w"
      using processWithProvider_attempts [of r p config req w] by simp
    also have "\<dots> = (if isClientError err then (Inl err, w') else processWithProvider r p ?less req w')"
      using assms processWithProvider_attempts [of r p ?less req w'] m
      by (subst attempt_payment.simps) simp
    finally show ?thesis using False by (simp add: client)
  qed
qed

lemma client_error_not_retried_witness:
  "\<exists>w'. processWithProvider example_router ProviderStripe
      (the (rt_providers example_router ProviderStripe)) (example_request []) [] =
     processWithProvider example_router ProviderStripe
      ((the (rt_providers example_router ProviderStripe))\<lparr>pc_MaxRetries := 2\<rparr>) (example_request []) w'"
proof -
  let ?config = "the (rt_providers example_router ProviderStripe)"
  have step: "executePayment example_router ProviderStripe (example_request []) [] =
      (Inl (ErrClient ''timeout''), [ProviderStripe])"
    by code_simp
  have "\<not> isClientError (ErrClient ''timeout'')" "attempts_allowed ?config \<noteq> 1"
      "pc_MaxRetries ?config - 1 = 2"
    by code_simp+
  moreover have "\<not> (\<exists>pattern \<in> set client_error_patterns.
      sublist (map lower_byte pattern) (map lower_byte (error_text (ErrClient ''timeout''))))"
    using calculation(1) unfolding isClientError_def list_ex_iff contains_iff .
  ultimately show ?thesis
    using client_error_not_retried [OF step, of ?config] by (metis (no_types))
qed

text \<open>
  Failover reaches every usable provider: as long as one of them accepts the payment whenever it
  is asked, the payment succeeds, whatever errors the others answer with.
\<close>

theorem payment_fails_over:
  assumes "router_reachable r" "usable r (pq_Currency req) p"
    and accepts: "\<And>w. \<not> isl (fst (executePayment r p req w))"
  shows "\<not> isl (fst (ProcessPayment r req w))"
proof -
  have "p \<in> set (getProvidersForRequest req r)"
    using assms(1,2) by (simp add: chosen_set reachable_router_wf)
  moreover have "\<not> isl (fst (process_providers r ps req lastErr w))" if "p \<in> set ps" for ps lastErr w
    using that
  proof (induction ps arbitrary: lastErr w)
    case Nil
    then show ?case by simp
  next
    case (Cons q ps)
    have "\<not> isl (fst (processWithProvider r p config req w))" for config
      using accepts [of w] processWithProvider_attempts [of r p config req w]
      by (simp add: attempt_payment.simps split: prod.splits sum.splits)
    with Cons show ?case by (auto split: prod.split sum.split) (metis fst_conv sum.disc(1))+
  qed
  ultimately show ?thesis by (auto simp: ProcessPayment_def Let_def)
qed

lemma payment_fails_over_witness:
  "\<not> isl (fst (ProcessPayment example_router (example_request []) []))"
proof (rule payment_fails_over [OF example_router_reachable, where p = ProviderPayPal])
  show "usable example_router (pq_Currency (example_request [])) ProviderPayPal" by code_simp
  show "\<not> isl (fst (executePayment example_router ProviderPayPal (example_request []) w))" for w
    by (simp add: executePayment_def executePayPalPayment_def example_router_def RegisterPayPal_def
        rebuildOrder_def)
qed

end
