(* ===== verification/Http.thy ===== *)
theory Http
  imports Go_Prelude
begin

text \<open>
  What the middleware and the gateway share of \<open>net/http\<close>: requests, responses, handlers, and
  \<open>ChainMiddleware\<close> of \<open>libs/middleware/security.go\<close>.

  A handler gets an exchange, that is the request, the values of its context, the response
  headers set so far and the limit of the body if there is one, and a state \<open>'s\<close> of its own, and answers with a response.  A middleware maps
  handlers to handlers.  Those of the program decide whether to answer themselves or to go on
  with a changed exchange: \<open>gate\<close> makes a middleware of such a decision.
\<close>

record Request =
  rq_Method :: string
  rq_Host :: string
  rq_Path :: string
  rq_RawQuery :: string
  rq_Query :: "(string \<times> string list) list"
  rq_Header :: "string \<Rightarrow> string"
  rq_RemoteAddr :: string

datatype body = NoBody | JsonError string string | PlainText string | BackendBody string

record Response =
  rp_Status :: nat
  rp_Headers :: "string \<rightharpoonup> string"
  rp_Body :: body

record 'c Exchange =
  ex_Request :: Request
  ex_Context :: 'c
  ex_Headers :: "string \<rightharpoonup> string"
  ex_BodyLimit :: "int64 option"

type_synonym ('c, 's) handler = "'c Exchange \<Rightarrow> 's \<Rightarrow> Response \<times> 's"
type_synonym ('c, 's) check = "'c Exchange \<Rightarrow> 's \<Rightarrow> (Response + 'c Exchange) \<times> 's"

text \<open>The helper \<open>writeJSONError\<close>, of which the packages have several copies, and \<open>http.Error\<close>.\<close>

definition writeJSONError :: "(string \<rightharpoonup> string) \<Rightarrow> nat \<Rightarrow> string \<Rightarrow> string \<Rightarrow> Response" where
  "writeJSONError headers status code message =
     \<lparr>rp_Status = status, rp_Headers = headers(''Content-Type'' \<mapsto> ''application/json''),
      rp_Body = JsonError code message\<rparr>"

definition http_Error :: "(string \<rightharpoonup> string) \<Rightarrow> nat \<Rightarrow> string \<Rightarrow> Response" where
  "http_Error headers status message =
     \<lparr>rp_Status = status,
      rp_Headers = (headers(''Content-Length'' := None))
        (''Content-Type'' \<mapsto> ''text/plain; charset=utf-8'', ''X-Content-Type-Options'' \<mapsto> ''nosniff''),
      rp_Body = PlainText message\<rparr>"

definition gate :: "('c, 's) check \<Rightarrow> ('c, 's) handler \<Rightarrow> ('c, 's) handler" where
  "gate check next_handler x s =
     (case check x s of (Inl response, s') \<Rightarrow> (response, s') | (Inr x', s') \<Rightarrow> next_handler x' s')"

text \<open>The loop of \<open>ChainMiddleware\<close> wraps the handler from the last middleware to the first.\<close>

definition ChainMiddleware :: "(('c, 's) handler \<Rightarrow> ('c, 's) handler) list \<Rightarrow> ('c, 's) handler \<Rightarrow> ('c, 's) handler" where
  "ChainMiddleware middlewares final = fold (\<lambda>m h. m h) (rev middlewares) final"

text \<open>The checks of a list one after the other, up to the first that answers.\<close>

primrec pass_all :: "('c, 's) check list \<Rightarrow> ('c, 's) check" where
  "pass_all [] x s = (Inr x, s)"
| "pass_all (check # checks) x s =
     (case check x s of (Inl response, s') \<Rightarrow> (Inl response, s') | (Inr x', s') \<Rightarrow> pass_all checks x' s')"

lemma ChainMiddleware_Cons: "ChainMiddleware (m # ms) h = m (ChainMiddleware ms h)"
  by (simp add: ChainMiddleware_def)

lemma ChainMiddleware_Nil: "ChainMiddleware [] h = h"
  by (simp add: ChainMiddleware_def)

text \<open>A chain of gates runs its checks from the first to the last, and then the handler.\<close>

lemma chain_of_gates: "ChainMiddleware (map gate checks) h = gate (pass_all checks) h"
proof (induction checks)
  case Nil
  then show ?case by (simp add: ChainMiddleware_Nil gate_def fun_eq_iff)
next
  case (Cons check checks)
  then show ?case
    by (simp add: ChainMiddleware_Cons gate_def fun_eq_iff split: prod.split sum.split)
qed

end
