(* ===== verification/Jwt.thy ===== *)
theory Jwt
  imports ApiKeys "HOL-Library.Signed_Division"
begin

text \<open>
  The tokens of the API, \<open>libs/auth/jwt.go\<close>: claims and their validity, signing, validation, refresh,
  and the Authorization header.

  HMAC-SHA256 and the JSON encoding of the claims are arguments: \<open>hmac\<close> of a key and a text, and
  \<open>encode\<close> and \<open>decode\<close> of \<open>encoding/json\<close> on the type \<open>Claims\<close>.  The instants and draws of an
  operation are numbered by their place in the code.
\<close>

section \<open>Claims\<close>

datatype jwt_error =
  ErrInvalidToken | ErrTokenExpired | ErrInvalidSignature | ErrMissingClaims
| JwtErrEntropy | JwtErrEmptyHeader | JwtErrHeaderFormat

type_synonym TokenType = string

abbreviation AccessToken :: TokenType where "AccessToken \<equiv> ''access''"
abbreviation RefreshToken :: TokenType where "RefreshToken \<equiv> ''refresh''"

record Claims =
  cl_Subject :: string
  cl_Issuer :: string
  cl_Audience :: string
  cl_ExpiresAt :: int64
  cl_IssuedAt :: int64
  cl_NotBefore :: int64
  cl_TokenID :: string
  cl_TokenType :: TokenType
  cl_Email :: string
  cl_Name :: string
  cl_Roles :: "string list"
  cl_TenantID :: string
  cl_Scope :: "string list"

text \<open>\<open>Time.Unix\<close>: whole seconds since 1970, rounded down.\<close>

definition unix_seconds :: "time \<Rightarrow> int64" where
  "unix_seconds t = word_of_int (t div 10 ^ 9)"

definition claims_Valid :: "time \<Rightarrow> Claims \<Rightarrow> jwt_error option" where
  "claims_Valid t c =
     (if cl_Subject c = [] then Some ErrMissingClaims
      else
        let now = sint (unix_seconds t)
        in if 0 < sint (cl_ExpiresAt c) \<and> sint (cl_ExpiresAt c) < now then Some ErrTokenExpired
           else if 0 < sint (cl_NotBefore c) \<and> now < sint (cl_NotBefore c) then Some ErrInvalidToken
           else None)"

definition HasRole :: "string \<Rightarrow> Claims \<Rightarrow> bool" where
  "HasRole role c = list_ex (\<lambda>r. r = role) (cl_Roles c)"

definition HasAnyRole :: "string list \<Rightarrow> Claims \<Rightarrow> bool" where
  "HasAnyRole roles c = list_ex (\<lambda>role. HasRole role c) roles"

definition HasScope :: "string \<Rightarrow> Claims \<Rightarrow> bool" where
  "HasScope scope c = list_ex (\<lambda>s. s = scope) (cl_Scope c)"

section \<open>The manager\<close>

record JWTConfig =
  jc_Secret :: string
  jc_Issuer :: string
  jc_Audience :: string
  jc_AccessExpiration :: duration
  jc_RefreshExpiration :: duration

definition DefaultJWTConfig :: JWTConfig where
  "DefaultJWTConfig =
     \<lparr>jc_Secret = ''change-me-in-production'', jc_Issuer = ''amanah'', jc_Audience = ''amanah-api'',
      jc_AccessExpiration = 15 * 60 * 10 ^ 9, jc_RefreshExpiration = 7 * 24 * 3600 * 10 ^ 9\<rparr>"

text \<open>A manager is its configuration; the library functions it uses are a record of arguments.\<close>

type_synonym JWTManager = JWTConfig

definition NewJWTManager :: "JWTConfig option \<Rightarrow> JWTManager" where
  "NewJWTManager config = (case config of None \<Rightarrow> DefaultJWTConfig | Some c \<Rightarrow> c)"

record JwtLibrary =
  lib_hmac :: "string \<Rightarrow> string \<Rightarrow> byte list"
  lib_encode :: "Claims \<Rightarrow> byte list"
  lib_decode :: "byte list \<Rightarrow> Claims option"

text \<open>\<open>json.Marshal\<close> of the header: its two fields in the order of their declaration.\<close>

definition string_bytes :: "string \<Rightarrow> byte list" where
  "string_bytes s = map of_char s"

definition header_json :: string where
  "header_json =
     [CHR 0x7B, CHR 0x22] @ ''alg'' @ [CHR 0x22, CHR 0x3A, CHR 0x22] @ ''HS256'' @ [CHR 0x22, CHR 0x2C, CHR 0x22] @
     ''typ'' @ [CHR 0x22, CHR 0x3A, CHR 0x22] @ ''JWT'' @ [CHR 0x22, CHR 0x7D]"

definition sign :: "JwtLibrary \<Rightarrow> JWTManager \<Rightarrow> string \<Rightarrow> byte list" where
  "sign lib m input = lib_hmac lib (jc_Secret m) input"

definition generateToken :: "JwtLibrary \<Rightarrow> JWTManager \<Rightarrow> Claims \<Rightarrow> string" where
  "generateToken lib m claims =
     (let headerB64 = b64_encode (string_bytes header_json);
          claimsB64 = b64_encode (lib_encode lib claims);
          signingInput = headerB64 @ ''.'' @ claimsB64
      in signingInput @ ''.'' @ b64_encode (sign lib m signingInput))"

definition access_claims :: "JWTManager \<Rightarrow> time \<Rightarrow> time \<Rightarrow> string \<Rightarrow> string \<Rightarrow> string \<Rightarrow> string list \<Rightarrow> Claims" where
  "access_claims m issued now userID email name roles =
     \<lparr>cl_Subject = userID, cl_Issuer = jc_Issuer m, cl_Audience = jc_Audience m,
      cl_ExpiresAt = unix_seconds (now + jc_AccessExpiration m), cl_IssuedAt = unix_seconds issued,
      cl_NotBefore = 0, cl_TokenID = [], cl_TokenType = AccessToken, cl_Email = email, cl_Name = name,
      cl_Roles = roles, cl_TenantID = [], cl_Scope = []\<rparr>"

definition GenerateAccessToken ::
  "JwtLibrary \<Rightarrow> time \<Rightarrow> time \<Rightarrow> JWTManager \<Rightarrow> string \<Rightarrow> string \<Rightarrow> string \<Rightarrow> string list \<Rightarrow> string" where
  "GenerateAccessToken lib issued now m userID email name roles =
     generateToken lib m (access_claims m issued now userID email name roles)"

definition refresh_claims :: "JWTManager \<Rightarrow> time \<Rightarrow> time \<Rightarrow> string \<Rightarrow> string \<Rightarrow> Claims" where
  "refresh_claims m issued now tokenID userID =
     \<lparr>cl_Subject = userID, cl_Issuer = jc_Issuer m, cl_Audience = jc_Audience m,
      cl_ExpiresAt = unix_seconds (now + jc_RefreshExpiration m), cl_IssuedAt = unix_seconds issued,
      cl_NotBefore = 0, cl_TokenID = tokenID, cl_TokenType = RefreshToken, cl_Email = [], cl_Name = [],
      cl_Roles = [], cl_TenantID = [], cl_Scope = []\<rparr>"

definition GenerateRefreshToken ::
  "JwtLibrary \<Rightarrow> byte list option \<Rightarrow> time \<Rightarrow> time \<Rightarrow> JWTManager \<Rightarrow> string \<Rightarrow> jwt_error + string" where
  "GenerateRefreshToken lib draw issued now m userID =
     (case randomString draw of
        None \<Rightarrow> Inl JwtErrEntropy
      | Some tokenID \<Rightarrow> Inr (generateToken lib m (refresh_claims m issued now tokenID userID)))"

definition GenerateTokenPair ::
  "JwtLibrary \<Rightarrow> env \<Rightarrow> JWTManager \<Rightarrow> string \<Rightarrow> string \<Rightarrow> string \<Rightarrow> string list \<Rightarrow> jwt_error + string \<times> string" where
  "GenerateTokenPair lib e m userID email name roles =
     (let accessToken = GenerateAccessToken lib (clock e 0) (clock e 1) m userID email name roles
      in case GenerateRefreshToken lib (entropy e 0) (clock e 2) (clock e 3) m userID of
           Inl err \<Rightarrow> Inl err
         | Inr refreshToken \<Rightarrow> Inr (accessToken, refreshToken))"

definition jwt_ValidateToken :: "JwtLibrary \<Rightarrow> time \<Rightarrow> JWTManager \<Rightarrow> string \<Rightarrow> jwt_error + Claims" where
  "jwt_ValidateToken lib now m tokenString =
     (case split_char CHR ''.'' tokenString of
        [header, payload, provided] \<Rightarrow>
          let signingInput = header @ ''.'' @ payload; signature = sign lib m signingInput
          in (case b64_decode provided of
                None \<Rightarrow> Inl ErrInvalidToken
              | Some providedSig \<Rightarrow>
                if signature \<noteq> providedSig then Inl ErrInvalidSignature
                else
                  case b64_decode payload of
                    None \<Rightarrow> Inl ErrInvalidToken
                  | Some claimsJSON \<Rightarrow>
                    case lib_decode lib claimsJSON of
                      None \<Rightarrow> Inl ErrInvalidToken
                    | Some claims \<Rightarrow>
                      case claims_Valid now claims of Some err \<Rightarrow> Inl err | None \<Rightarrow> Inr claims)
      | _ \<Rightarrow> Inl ErrInvalidToken)"

definition RefreshAccessToken ::
  "JwtLibrary \<Rightarrow> env \<Rightarrow> JWTManager \<Rightarrow> string \<Rightarrow> string \<Rightarrow> string \<Rightarrow> string list \<Rightarrow> jwt_error + string" where
  "RefreshAccessToken lib e m refreshTokenString email name roles =
     (case jwt_ValidateToken lib (clock e 0) m refreshTokenString of
        Inl err \<Rightarrow> Inl err
      | Inr claims \<Rightarrow>
          if cl_TokenType claims \<noteq> RefreshToken then Inl ErrInvalidToken
          else Inr (GenerateAccessToken lib (clock e 1) (clock e 2) m (cl_Subject claims) email name roles))"

record TokenPair =
  tp_AccessToken :: string
  tp_RefreshToken :: string
  tp_TokenType :: string
  tp_ExpiresIn :: int64
  tp_ExpiresAt :: time

text \<open>\<open>int64(d.Seconds())\<close> truncates to whole seconds, towards zero.\<close>

definition GenerateTokenPairWithMetadata ::
  "JwtLibrary \<Rightarrow> env \<Rightarrow> JWTManager \<Rightarrow> string \<Rightarrow> string \<Rightarrow> string \<Rightarrow> string list \<Rightarrow> jwt_error + TokenPair" where
  "GenerateTokenPairWithMetadata lib e m userID email name roles =
     (case GenerateTokenPair lib e m userID email name roles of
        Inl err \<Rightarrow> Inl err
      | Inr (accessToken, refreshToken) \<Rightarrow>
          Inr \<lparr>tp_AccessToken = accessToken, tp_RefreshToken = refreshToken, tp_TokenType = ''Bearer'',
               tp_ExpiresIn = word_of_int (jc_AccessExpiration m sdiv 10 ^ 9),
               tp_ExpiresAt = clock e 4 + jc_AccessExpiration m\<rparr>)"

definition ExtractTokenFromHeader :: "string \<Rightarrow> jwt_error + string" where
  "ExtractTokenFromHeader authHeader =
     (if authHeader = [] then Inl JwtErrEmptyHeader
      else
        case split_first CHR '' '' authHeader of
          (scheme, Some token) \<Rightarrow>
            if map lower_byte scheme \<noteq> map lower_byte ''Bearer'' then Inl JwtErrHeaderFormat
            else Inr (trim_space token)
        | (_, None) \<Rightarrow> Inl JwtErrHeaderFormat)"

section \<open>Tokens and their parts\<close>

lemma b64_encode_no_dot: "CHR ''.'' \<notin> set (b64_encode bs)"
proof
  assume "CHR ''.'' \<in> set (b64_encode bs)"
  then obtain v where "v < 64" "b64_char v = CHR ''.''"
    unfolding b64_encode_values using b64_values_less by force
  then have "CHR ''.'' \<in> set b64_alphabet" by (metis b64_char_def length_b64_alphabet nth_mem)
  then show False by (simp add: b64_alphabet_def)
qed

lemma split_token:
  assumes "CHR ''.'' \<notin> set h" "CHR ''.'' \<notin> set p" "CHR ''.'' \<notin> set s"
  shows "split_char CHR ''.'' ((h @ ''.'' @ p) @ ''.'' @ s) = [h, p, s]"
  using assms by (simp add: split_char_append split_char_none)

text \<open>What a validated token is: three parts, the last of which is the signature of the others.\<close>

lemma jwt_ValidateToken_iff:
  "jwt_ValidateToken lib now m token = Inr claims \<longleftrightarrow>
   (\<exists>header payload provided claimsJSON.
      split_char CHR ''.'' token = [header, payload, provided] \<and>
      b64_decode provided = Some (sign lib m (header @ ''.'' @ payload)) \<and>
      b64_decode payload = Some claimsJSON \<and> lib_decode lib claimsJSON = Some claims \<and>
      claims_Valid now claims = None)"
  by (auto simp: jwt_ValidateToken_def Let_def split: list.splits option.splits if_splits)

lemma split_token_join:
  "split_char c token = [h, p, s] \<Longrightarrow> token = (h @ [c] @ p) @ [c] @ s"
  by (drule split_char_parts) simp

lemma jwt_Validate_generated:
  assumes "lib_decode lib (lib_encode lib claims) = Some claims"
  shows "jwt_ValidateToken lib now m (generateToken lib m claims) =
    (case claims_Valid now claims of Some err \<Rightarrow> Inl err | None \<Rightarrow> Inr claims)"
  unfolding jwt_ValidateToken_def generateToken_def Let_def
  by (subst split_token [OF b64_encode_no_dot b64_encode_no_dot b64_encode_no_dot])
     (simp add: b64_decode_encode assms split: option.split)

lemma sint_unix_seconds:
  "0 \<le> t \<Longrightarrow> t div 10 ^ 9 < 2 ^ 63 \<Longrightarrow> sint (unix_seconds t) = t div 10 ^ 9"
  unfolding unix_seconds_def by (rule sint64_of_int) (simp_all add: pos_imp_zdiv_nonneg_iff)

text \<open>Claims without a lower bound are valid up to the second in which they expire.\<close>

lemma claims_Valid_until:
  assumes "cl_Subject c \<noteq> []" "cl_NotBefore c = 0" "cl_ExpiresAt c = unix_seconds expires"
    and "10 ^ 9 \<le> expires" "expires div 10 ^ 9 < 2 ^ 63" "0 \<le> t" "t div 10 ^ 9 < 2 ^ 63"
  shows "claims_Valid t c = (if t div 10 ^ 9 \<le> expires div 10 ^ 9 then None else Some ErrTokenExpired)"
proof -
  have "0 < expires div 10 ^ 9" using assms(4) by (simp add: pos_imp_zdiv_pos_iff)
  with assms show ?thesis by (auto simp: claims_Valid_def Let_def sint_unix_seconds)
qed

section \<open>Properties\<close>

text \<open>
  The documented behaviour of \<open>encoding/json\<close> that the round trips rely on: the claims of the token
  decode to themselves.  It holds for claims whose strings are valid UTF-8.
\<close>

definition json_round_trip :: "JwtLibrary \<Rightarrow> Claims \<Rightarrow> bool" where
  "json_round_trip lib c \<longleftrightarrow> lib_decode lib (lib_encode lib c) = Some c"

text \<open>
  C24: Issuing and validating an access token, for a user whose identifier is not empty, is a round trip for as
  long as it lasts: the claims that
  were signed are returned up to and including the second of expiry, and from the next second
  on the token is refused as expired.
\<close>

theorem access_token_round_trip:
  assumes "json_round_trip lib (access_claims m issued now userID email name roles)" "userID \<noteq> []"
    and "10 ^ 9 \<le> now + jc_AccessExpiration m" "(now + jc_AccessExpiration m) div 10 ^ 9 < 2 ^ 63"
    and "0 \<le> t" "t div 10 ^ 9 < 2 ^ 63"
  shows "jwt_ValidateToken lib t m (GenerateAccessToken lib issued now m userID email name roles) =
    (if t div 10 ^ 9 \<le> (now + jc_AccessExpiration m) div 10 ^ 9 then Inr (access_claims m issued now userID email name roles)
     else Inl ErrTokenExpired)"
proof -
  let ?c = "access_claims m issued now userID email name roles"
  have "claims_Valid t ?c = (if t div 10 ^ 9 \<le> (now + jc_AccessExpiration m) div 10 ^ 9 then None else Some ErrTokenExpired)"
    using assms(2-) by (intro claims_Valid_until) (simp_all add: access_claims_def)
  then show ?thesis
    using assms(1) by (simp add: GenerateAccessToken_def jwt_Validate_generated json_round_trip_def)
qed

text \<open>
  A library for the instances: the signature is the key and the text, and the claims of a list are
  encoded as their position in it.
\<close>

definition example_library :: "Claims list \<Rightarrow> JwtLibrary" where
  "example_library cs =
     \<lparr>lib_hmac = (\<lambda>key text. string_bytes (key @ text)),
      lib_encode = (\<lambda>c. if cs \<noteq> [] \<and> c = hd cs then [0] else [1]),
      lib_decode = (\<lambda>bs. if bs = [0] then Some (hd cs) else if bs = [1] then Some (last cs) else None)\<rparr>"

lemma example_library_round_trip: "json_round_trip (example_library [c, d]) c" "json_round_trip (example_library [c, d]) d"
  by (simp_all add: json_round_trip_def example_library_def)

lemma access_token_round_trip_witness:
  "let c = access_claims DefaultJWTConfig 0 (10 ^ 9) ''u1'' ''u@x'' ''U'' [''user'']; lib = example_library [c, c];
       token = GenerateAccessToken lib 0 (10 ^ 9) DefaultJWTConfig ''u1'' ''u@x'' ''U'' [''user'']
   in jwt_ValidateToken lib (901 * 10 ^ 9) DefaultJWTConfig token = Inr c \<and>
      jwt_ValidateToken lib (902 * 10 ^ 9) DefaultJWTConfig token = Inl ErrTokenExpired"
proof -
  let ?c = "access_claims DefaultJWTConfig 0 (10 ^ 9) ''u1'' ''u@x'' ''U'' [''user'']"
  have json: "json_round_trip (example_library [?c, ?c]) ?c" by (rule example_library_round_trip)
  from access_token_round_trip [OF json, of "901 * 10 ^ 9"] access_token_round_trip [OF json, of "902 * 10 ^ 9"]
  show ?thesis by (simp add: Let_def DefaultJWTConfig_def)
qed

text \<open>
  C35: A token is accepted only if its last part is the signature, under the secret of the manager,
  of the text before it, and its payload holds the returned claims, which name a subject, have not
  expired and are already in force.
\<close>

theorem accepted_token_authentic:
  assumes "jwt_ValidateToken lib now m token = Inr claims"
  shows "\<exists>header payload provided.
      token = header @ ''.'' @ payload @ ''.'' @ provided \<and>
      b64_decode provided = Some (lib_hmac lib (jc_Secret m) (header @ ''.'' @ payload)) \<and>
      (\<exists>json. b64_decode payload = Some json \<and> lib_decode lib json = Some claims) \<and>
      cl_Subject claims \<noteq> [] \<and>
      (0 < sint (cl_ExpiresAt claims) \<longrightarrow> sint (unix_seconds now) \<le> sint (cl_ExpiresAt claims)) \<and>
      (0 < sint (cl_NotBefore claims) \<longrightarrow> sint (cl_NotBefore claims) \<le> sint (unix_seconds now))"
proof -
  obtain header payload provided json where parts: "split_char CHR ''.'' token = [header, payload, provided]"
      "b64_decode provided = Some (sign lib m (header @ ''.'' @ payload))"
      "b64_decode payload = Some json" "lib_decode lib json = Some claims" "claims_Valid now claims = None"
    using assms unfolding jwt_ValidateToken_iff by blast
  have "token = header @ ''.'' @ payload @ ''.'' @ provided"
    using split_token_join [OF parts(1)] by simp
  with parts show ?thesis
    by (intro exI [of _ header] exI [of _ payload] exI [of _ provided])
       (auto simp: sign_def claims_Valid_def Let_def split: if_splits)
qed

lemma accepted_token_authentic_witness:
  "let c = access_claims DefaultJWTConfig 0 (10 ^ 9) ''u1'' ''u@x'' ''U'' [''user'']; lib = example_library [c, c];
       token = GenerateAccessToken lib 0 (10 ^ 9) DefaultJWTConfig ''u1'' ''u@x'' ''U'' [''user'']
   in \<exists>header payload provided. token = header @ ''.'' @ payload @ ''.'' @ provided \<and>
      b64_decode provided = Some (lib_hmac lib (jc_Secret DefaultJWTConfig) (header @ ''.'' @ payload))"
proof -
  let ?c = "access_claims DefaultJWTConfig 0 (10 ^ 9) ''u1'' ''u@x'' ''U'' [''user'']"
  let ?lib = "example_library [?c, ?c]"
  have "lib_decode ?lib (lib_encode ?lib ?c) = Some ?c"
    using example_library_round_trip by (simp add: json_round_trip_def)
  moreover have "claims_Valid 0 ?c = None" by code_simp
  ultimately have "jwt_ValidateToken ?lib 0 DefaultJWTConfig
      (GenerateAccessToken ?lib 0 (10 ^ 9) DefaultJWTConfig ''u1'' ''u@x'' ''U'' [''user'']) = Inr ?c"
    by (simp add: GenerateAccessToken_def jwt_Validate_generated)
  from accepted_token_authentic [OF this] show ?thesis unfolding Let_def by blast
qed

text \<open>
  C36: The refresh flow: of the pair issued to a user whose identifier is not empty, the refresh token is exchanged, as long as it
  has not expired, for an access token that names the same user; the access token of the pair is
  never exchanged.
\<close>

theorem refresh_flow:
  assumes pair: "GenerateTokenPair lib e m userID email name roles = Inr (accessToken, refreshToken)"
    and json: "json_round_trip lib (access_claims m (clock e 0) (clock e 1) userID email name roles)"
      "\<And>tokenID. randomString (entropy e 0) = Some tokenID \<Longrightarrow>
         json_round_trip lib (refresh_claims m (clock e 2) (clock e 3) tokenID userID)"
    and "userID \<noteq> []" "10 ^ 9 \<le> clock e 3 + jc_RefreshExpiration m"
      "(clock e 3 + jc_RefreshExpiration m) div 10 ^ 9 < 2 ^ 63"
      "0 \<le> clock e' 0" "clock e' 0 \<le> clock e 3 + jc_RefreshExpiration m"
  shows "RefreshAccessToken lib e' m refreshToken email' name' roles' =
      Inr (GenerateAccessToken lib (clock e' 1) (clock e' 2) m userID email' name' roles') \<and>
    (\<exists>err. RefreshAccessToken lib e' m accessToken email' name' roles' = Inl err)"
proof -
  obtain draw where drawn: "randomString (entropy e 0) = Some draw"
    and refresh: "refreshToken = generateToken lib m (refresh_claims m (clock e 2) (clock e 3) draw userID)"
    and access: "accessToken = generateToken lib m (access_claims m (clock e 0) (clock e 1) userID email name roles)"
    using pair by (auto simp: GenerateTokenPair_def GenerateRefreshToken_def GenerateAccessToken_def Let_def
        split: option.splits)
  let ?r = "refresh_claims m (clock e 2) (clock e 3) draw userID"
  have within: "clock e' 0 div 10 ^ 9 \<le> (clock e 3 + jc_RefreshExpiration m) div 10 ^ 9"
    using assms(8) by (rule zdiv_mono1) simp
  have "claims_Valid (clock e' 0) ?r =
      (if clock e' 0 div 10 ^ 9 \<le> (clock e 3 + jc_RefreshExpiration m) div 10 ^ 9 then None
       else Some ErrTokenExpired)"
    using assms(4-7) within by (intro claims_Valid_until) (simp_all add: refresh_claims_def)
  then have "claims_Valid (clock e' 0) ?r = None" using within by simp
  then have "jwt_ValidateToken lib (clock e' 0) m refreshToken = Inr ?r"
    using json(2) [OF drawn] by (simp add: refresh jwt_Validate_generated json_round_trip_def)
  then have "RefreshAccessToken lib e' m refreshToken email' name' roles' =
      Inr (GenerateAccessToken lib (clock e' 1) (clock e' 2) m userID email' name' roles')"
    by (simp add: RefreshAccessToken_def refresh_claims_def)
  moreover have "\<exists>err. RefreshAccessToken lib e' m accessToken email' name' roles' = Inl err"
    using json(1)
    by (simp add: RefreshAccessToken_def access jwt_Validate_generated json_round_trip_def access_claims_def
        split: option.split)
  ultimately show ?thesis ..
qed

lemma refresh_flow_witness:
  "let a = access_claims DefaultJWTConfig 0 (10 ^ 9) ''u1'' ''u@x'' ''U'' [''user''];
       r = refresh_claims DefaultJWTConfig (2 * 10 ^ 9) (3 * 10 ^ 9) (b64_encode [7]) ''u1'';
       lib = example_library [a, r]; e = \<lparr>entropy = (\<lambda>_. Some [7]), clock = (\<lambda>i. int i * 10 ^ 9)\<rparr>
   in RefreshAccessToken lib e DefaultJWTConfig (generateToken lib DefaultJWTConfig r) ''u@x'' ''U'' [''user''] =
      Inr (GenerateAccessToken lib (10 ^ 9) (2 * 10 ^ 9) DefaultJWTConfig ''u1'' ''u@x'' ''U'' [''user''])"
proof -
  let ?a = "access_claims DefaultJWTConfig 0 (10 ^ 9) ''u1'' ''u@x'' ''U'' [''user'']"
  let ?r = "refresh_claims DefaultJWTConfig (2 * 10 ^ 9) (3 * 10 ^ 9) (b64_encode [7]) ''u1''"
  let ?lib = "example_library [?a, ?r]"
  define e :: env where "e = \<lparr>entropy = (\<lambda>_. Some [7]), clock = (\<lambda>i. int i * 10 ^ 9)\<rparr>"
  have "GenerateTokenPair ?lib e DefaultJWTConfig ''u1'' ''u@x'' ''U'' [''user''] =
      Inr (generateToken ?lib DefaultJWTConfig ?a, generateToken ?lib DefaultJWTConfig ?r)"
    by (simp add: GenerateTokenPair_def GenerateRefreshToken_def GenerateAccessToken_def randomString_def e_def Let_def)
  from refresh_flow [OF this, of e "''u@x''" "''U''" "[''user'']"]
    example_library_round_trip [of ?a ?r]
  show ?thesis
    by (simp add: Let_def randomString_def DefaultJWTConfig_def flip: e_def) (simp add: e_def)
qed

end
