(* ===== verification/RBAC.thy ===== *)
theory RBAC
  imports Go_Prelude "HOL-Library.Finite_Map"
begin

text \<open>
  Role-based access control, \<open>libs/auth/rbac.go\<close>: the roles with their permissions and the roles they
  inherit from, the recursive collection of permissions with its map of visited roles, the access
  checks, and the operations that change roles.

  The recursion over the hierarchy, which may have cycles and missing roles, is a total function:
  each call marks one more existing role.  Its result is characterised by reachability: a role has
  the permissions of exactly the roles it reaches.
\<close>

section \<open>Roles\<close>

type_synonym Permission = string

record Role =
  role_Name :: string
  role_Description :: string
  role_Permissions :: "Permission list"
  role_Inherits :: "string list"

datatype rbac_error = ErrAccessDenied | ErrRoleNotFound | ErrPermissionNotFound

text \<open>The manager is its map of roles, which is finite.\<close>

type_synonym RBACManager = "(string, Role) fmap"

definition default_roles :: "Role list" where
  "default_roles =
    [\<lparr>role_Name = ''user'', role_Description = ''Basic user with limited access'',
      role_Permissions = [''transaction:read'', ''transaction:create'', ''account:read'', ''user:read''],
      role_Inherits = []\<rparr>,
     \<lparr>role_Name = ''merchant'', role_Description = ''Merchant with transaction management'',
      role_Permissions = [''transaction:create'', ''transaction:read'', ''transaction:update'',
        ''transaction:refund'', ''account:read'', ''account:update'', ''report:view'', ''report:export''],
      role_Inherits = [''user'']\<rparr>,
     \<lparr>role_Name = ''operator'', role_Description = ''Operator with account management'',
      role_Permissions = [''account:create'', ''account:read'', ''account:update'', ''account:freeze'',
        ''user:read'', ''user:update'', ''transaction:read'', ''report:view''],
      role_Inherits = [''user'']\<rparr>,
     \<lparr>role_Name = ''admin'', role_Description = ''Administrator with full access'',
      role_Permissions = [''admin:access'', ''admin:user_manage'', ''admin:config'', ''admin:audit'',
        ''account:delete'', ''user:create'', ''user:delete'', ''transaction:delete'', ''report:generate''],
      role_Inherits = [''operator'', ''merchant'']\<rparr>,
     \<lparr>role_Name = ''service'', role_Description = ''Internal service account'',
      role_Permissions = [''api:read'', ''api:write'', ''transaction:create'', ''transaction:read'',
        ''transaction:update'', ''account:read'', ''account:update''],
      role_Inherits = []\<rparr>,
     \<lparr>role_Name = ''superadmin'', role_Description = ''Super administrator with unrestricted access'',
      role_Permissions = [], role_Inherits = [''admin'']\<rparr>]"

definition common_permissions :: "Permission list" where
  "common_permissions =
    [''transaction:create'', ''transaction:read'', ''transaction:update'', ''transaction:delete'',
     ''transaction:refund'', ''account:create'', ''account:read'', ''account:update'', ''account:delete'',
     ''account:freeze'', ''user:create'', ''user:read'', ''user:update'', ''user:delete'',
     ''admin:access'', ''admin:user_manage'', ''admin:config'', ''admin:audit'', ''api:read'', ''api:write'',
     ''report:view'', ''report:export'', ''report:generate'']"

text \<open>The default roles have no others.\<close>

lemma default_permissions_common:
  "list_all (\<lambda>r. list_all (\<lambda>p. p \<in> set common_permissions) (role_Permissions r)) default_roles"
  by (simp add: default_roles_def common_permissions_def)

definition AddRole :: "Role \<Rightarrow> RBACManager \<Rightarrow> RBACManager" where
  "AddRole role r = fmupd (role_Name role) role r"

definition NewRBACManager :: RBACManager where
  "NewRBACManager = fold AddRole default_roles fmempty"

definition GetRole :: "string \<Rightarrow> RBACManager \<Rightarrow> rbac_error + Role" where
  "GetRole name r = (case fmlookup r name of None \<Rightarrow> Inl ErrRoleNotFound | Some role \<Rightarrow> Inr role)"

section \<open>The permissions of a role\<close>

text \<open>
  \<open>getAllPermissionsRecursive\<close> and its loop over the inherited roles.  \<open>visited\<close> is the set of the
  names marked in the map that all the calls share; it is returned with the permissions.  The slice
  built from the map \<open>permSet\<close> has its elements in an order that Go does not specify: the result is
  their set.
\<close>

function (sequential, domintros)
  getAllPermissionsRecursive :: "RBACManager \<Rightarrow> string \<Rightarrow> string set \<Rightarrow>
    (rbac_error + Permission set) \<times> string set"
  and inherited_permissions :: "RBACManager \<Rightarrow> string list \<Rightarrow> string set \<Rightarrow> Permission set \<Rightarrow>
    Permission set \<times> string set"
where
  "getAllPermissionsRecursive r roleName visited =
     (if roleName \<in> visited then (Inr {}, visited)
      else
        case fmlookup r roleName of
          None \<Rightarrow> (Inl ErrRoleNotFound, insert roleName visited)
        | Some role \<Rightarrow>
            (case inherited_permissions r (role_Inherits role) (insert roleName visited)
                    (set (role_Permissions role)) of
               (permSet, visited') \<Rightarrow> (Inr permSet, visited')))"
| "inherited_permissions r [] visited permSet = (permSet, visited)"
| "inherited_permissions r (inheritedRole # rest) visited permSet =
     (case getAllPermissionsRecursive r inheritedRole visited of
        (Inl err, visited') \<Rightarrow> inherited_permissions r rest visited' permSet
      | (Inr inheritedPerms, visited') \<Rightarrow>
          inherited_permissions r rest visited' (permSet \<union> inheritedPerms))"
  by pat_completeness auto

text \<open>The calls only ever mark more roles; so every call on a new role has one fewer to mark.\<close>

lemma visited_mono_partial:
  "getAllPermissionsRecursive_inherited_permissions_dom (Inl (r, roleName, visited)) \<Longrightarrow>
    visited \<subseteq> snd (getAllPermissionsRecursive r roleName visited)"
  "getAllPermissionsRecursive_inherited_permissions_dom (Inr (r, names, visited, permSet)) \<Longrightarrow>
    visited \<subseteq> snd (inherited_permissions r names visited permSet)"
proof (induct r roleName visited and r names visited permSet
    rule: getAllPermissionsRecursive_inherited_permissions.pinduct)
  case (1 r roleName visited)
  then show ?case
    by (auto simp: getAllPermissionsRecursive.psimps split: option.splits prod.splits)
next
  case (2 r visited permSet)
  then show ?case by (simp add: inherited_permissions.psimps)
next
  case (3 r inheritedRole rest visited permSet)
  show ?case
    using 3(1) 3(2) 3(3) 3(4)
    by (fastforce simp: inherited_permissions.psimps split: prod.splits sum.splits)
qed

lemma visited_card:
  assumes "getAllPermissionsRecursive_inherited_permissions_dom (Inl (r, roleName, visited))"
    and "(res, visited') = getAllPermissionsRecursive r roleName visited"
  shows "card (fset A - visited') \<le> card (fset A - visited)"
  using visited_mono_partial(1) [OF assms(1)] assms(2) [symmetric] by (auto intro: card_mono)

termination getAllPermissionsRecursive
proof (relation "measures [\<lambda>x. case x of Inl (r, name, v) \<Rightarrow> card (fset (fmdom r) - v)
      | Inr (r, names, v, ps) \<Rightarrow> card (fset (fmdom r) - v),
    \<lambda>x. case x of Inl _ \<Rightarrow> 0 | Inr (r, names, v, ps) \<Rightarrow> Suc (length names)]")
  fix r :: RBACManager and roleName :: string and visited role
  assume "roleName \<notin> visited" "fmlookup r roleName = Some role"
  then have "fset (fmdom r) - insert roleName visited \<subset> fset (fmdom r) - visited"
    by (auto dest: fmdomI)
  then have "card (fset (fmdom r) - insert roleName visited) < card (fset (fmdom r) - visited)"
    by (intro psubset_card_mono) auto
  then show "(Inr (r, role_Inherits role, insert roleName visited, set (role_Permissions role)),
      Inl (r, roleName, visited)) \<in> measures [\<lambda>x. case x of Inl (r, name, v) \<Rightarrow> card (fset (fmdom r) - v)
      | Inr (r, names, v, ps) \<Rightarrow> card (fset (fmdom r) - v),
    \<lambda>x. case x of Inl _ \<Rightarrow> 0 | Inr (r, names, v, ps) \<Rightarrow> Suc (length names)]"
    by simp
qed (auto dest: visited_card intro: le_neq_implies_less)

definition GetAllPermissions :: "string \<Rightarrow> RBACManager \<Rightarrow> rbac_error + Permission set" where
  "GetAllPermissions roleName r = fst (getAllPermissionsRecursive r roleName {})"

section \<open>Access checks\<close>

definition HasPermission :: "string \<Rightarrow> Permission \<Rightarrow> RBACManager \<Rightarrow> bool" where
  "HasPermission roleName permission r =
     (if roleName = ''superadmin'' then True
      else case GetAllPermissions roleName r of
             Inl err \<Rightarrow> False
           | Inr permissions \<Rightarrow> permission \<in> permissions)"

fun HasAnyPermission :: "string \<Rightarrow> Permission list \<Rightarrow> RBACManager \<Rightarrow> bool" where
  "HasAnyPermission roleName [] r = False"
| "HasAnyPermission roleName (perm # perms) r =
     (if HasPermission roleName perm r then True else HasAnyPermission roleName perms r)"

fun HasAllPermissions :: "string \<Rightarrow> Permission list \<Rightarrow> RBACManager \<Rightarrow> bool" where
  "HasAllPermissions roleName [] r = True"
| "HasAllPermissions roleName (perm # perms) r =
     (if \<not> HasPermission roleName perm r then False else HasAllPermissions roleName perms r)"

fun CheckAccess :: "string list \<Rightarrow> Permission \<Rightarrow> RBACManager \<Rightarrow> rbac_error option" where
  "CheckAccess [] permission r = Some ErrAccessDenied"
| "CheckAccess (role # roles) permission r =
     (if HasPermission role permission r then None else CheckAccess roles permission r)"

fun CheckAnyAccess :: "string list \<Rightarrow> Permission list \<Rightarrow> RBACManager \<Rightarrow> rbac_error option" where
  "CheckAnyAccess [] permissions r = Some ErrAccessDenied"
| "CheckAnyAccess (role # roles) permissions r =
     (if HasAnyPermission role permissions r then None else CheckAnyAccess roles permissions r)"

text \<open>\<open>ListRoles\<close> visits the map in the order \<open>ks\<close>.\<close>

definition ListRoles :: "string list \<Rightarrow> RBACManager \<Rightarrow> Role list" where
  "ListRoles ks r = map (\<lambda>k. the (fmlookup r k)) ks"

section \<open>Changing roles\<close>

definition RemoveRole :: "string \<Rightarrow> RBACManager \<Rightarrow> rbac_error option \<times> RBACManager" where
  "RemoveRole name r =
     (if fmlookup r name = None then (Some ErrRoleNotFound, r) else (None, fmdrop name r))"

definition AddPermissionToRole :: "string \<Rightarrow> Permission \<Rightarrow> RBACManager \<Rightarrow> rbac_error option \<times> RBACManager" where
  "AddPermissionToRole roleName permission r =
     (case fmlookup r roleName of
        None \<Rightarrow> (Some ErrRoleNotFound, r)
      | Some role \<Rightarrow>
          if permission \<in> set (role_Permissions role) then (None, r)
          else (None, fmupd roleName (role\<lparr>role_Permissions := role_Permissions role @ [permission]\<rparr>) r))"

text \<open>\<open>remove1\<close> removes the first occurrence, as the loop with its early return does.\<close>

definition RemovePermissionFromRole ::
  "string \<Rightarrow> Permission \<Rightarrow> RBACManager \<Rightarrow> rbac_error option \<times> RBACManager" where
  "RemovePermissionFromRole roleName permission r =
     (case fmlookup r roleName of
        None \<Rightarrow> (Some ErrRoleNotFound, r)
      | Some role \<Rightarrow>
          if permission \<in> set (role_Permissions role)
          then (None, fmupd roleName (role\<lparr>role_Permissions := remove1 permission (role_Permissions role)\<rparr>) r)
          else (Some ErrPermissionNotFound, r))"

section \<open>Permissions and reachability\<close>

text \<open>
  \<open>inherits r a b\<close>: the role \<open>a\<close> exists and names \<open>b\<close> among the roles it inherits from.  A role has
  the direct permissions of every existing role it reaches.
\<close>

definition inherits :: "RBACManager \<Rightarrow> string \<Rightarrow> string \<Rightarrow> bool" where
  "inherits r a b \<longleftrightarrow> (\<exists>role. fmlookup r a = Some role \<and> b \<in> set (role_Inherits role))"

definition direct :: "RBACManager \<Rightarrow> string \<Rightarrow> Permission set" where
  "direct r a = (case fmlookup r a of None \<Rightarrow> {} | Some role \<Rightarrow> set (role_Permissions role))"

definition effective :: "RBACManager \<Rightarrow> string \<Rightarrow> Permission set" where
  "effective r a = (\<Union>b \<in> {b. (inherits r)\<^sup>*\<^sup>* a b}. direct r b)"

text \<open>
  What a call has done when it returns: it marked, besides what was marked, roles it can reach,
  with all the roles they inherit from, and collected the permissions of exactly those.
\<close>

definition explored :: "RBACManager \<Rightarrow> string set \<Rightarrow> string set \<Rightarrow> string set \<Rightarrow> Permission set \<Rightarrow> bool" where
  "explored r starts v v' ps \<longleftrightarrow>
     v \<subseteq> v' \<and> starts \<subseteq> v' \<and> ps = (\<Union>x \<in> v' - v. direct r x) \<and>
     (\<forall>x \<in> v' - v. \<exists>s \<in> starts. (inherits r)\<^sup>*\<^sup>* s x) \<and>
     (\<forall>x \<in> v' - v. \<forall>y. inherits r x y \<longrightarrow> y \<in> v')"

lemma exploredD:
  assumes "explored r S v v' ps"
  shows "v \<subseteq> v'" "S \<subseteq> v'" "ps = (\<Union>x \<in> v' - v. direct r x)"
    and "x \<in> v' - v \<Longrightarrow> \<exists>s \<in> S. (inherits r)\<^sup>*\<^sup>* s x"
    and "x \<in> v' - v \<Longrightarrow> inherits r x y \<Longrightarrow> y \<in> v'"
  using assms unfolding explored_def by blast+

lemma exploredI:
  assumes "v \<subseteq> v'" "S \<subseteq> v'" "ps = (\<Union>x \<in> v' - v. direct r x)"
    and "\<And>x. x \<in> v' - v \<Longrightarrow> \<exists>s \<in> S. (inherits r)\<^sup>*\<^sup>* s x"
    and "\<And>x y. x \<in> v' - v \<Longrightarrow> inherits r x y \<Longrightarrow> y \<in> v'"
  shows "explored r S v v' ps"
  unfolding explored_def using assms by blast

lemma explored_sequence:
  assumes "explored r S v v1 ps" "explored r T v1 v2 qs"
  shows "explored r (S \<union> T) v v2 (ps \<union> qs)"
proof (rule exploredI)
  note 1 = exploredD [OF assms(1)] and 2 = exploredD [OF assms(2)]
  show "v \<subseteq> v2" "S \<union> T \<subseteq> v2" using 1(1,2) 2(1,2) by blast+
  have parts: "v2 - v = (v1 - v) \<union> (v2 - v1)" using 1(1) 2(1) by blast
  show "ps \<union> qs = (\<Union>x \<in> v2 - v. direct r x)" unfolding 1(3) 2(3) parts by blast
  fix x assume "x \<in> v2 - v"
  then have x: "x \<in> v1 - v \<or> x \<in> v2 - v1" by blast
  then show "\<exists>s \<in> S \<union> T. (inherits r)\<^sup>*\<^sup>* s x" using 1(4) 2(4) by blast
  fix y assume "inherits r x y"
  with x show "y \<in> v2" using 1(5) 2(1,5) by blast
qed

lemma explored_node:
  assumes "explored r (set (role_Inherits role)) (insert a v) v' ps"
    and role: "fmlookup r a = Some role" and "a \<notin> v"
  shows "explored r {a} v v' (set (role_Permissions role) \<union> ps)"
proof (rule exploredI)
  note 1 = exploredD [OF assms(1)]
  show "v \<subseteq> v'" "{a} \<subseteq> v'" using 1(1) by blast+
  have new: "v' - v = insert a (v' - insert a v)" using 1(1) assms(3) by blast
  show "set (role_Permissions role) \<union> ps = (\<Union>x \<in> v' - v. direct r x)"
    unfolding new 1(3) by (simp add: direct_def role)
  have edge: "inherits r a b \<longleftrightarrow> b \<in> set (role_Inherits role)" for b
    using role by (simp add: inherits_def)
  fix x assume "x \<in> v' - v"
  then have x: "x = a \<or> x \<in> v' - insert a v" by blast
  then show "\<exists>s \<in> {a}. (inherits r)\<^sup>*\<^sup>* s x"
    using 1(4) edge by (auto intro: converse_rtranclp_into_rtranclp)
  fix y assume "inherits r x y"
  with x show "y \<in> v'" using 1(2,5) edge by blast
qed

text \<open>A role that is not there is marked and gives nothing.\<close>

lemma explored_missing: "fmlookup r a = None \<Longrightarrow> a \<notin> v \<Longrightarrow> explored r {a} v (insert a v) {}"
  by (rule exploredI) (auto simp: direct_def inherits_def)

lemma explored_none: "S \<subseteq> v \<Longrightarrow> explored r S v v {}"
  by (rule exploredI) auto

text \<open>The recursion explores.\<close>

lemma getAllPermissions_explored:
  "case getAllPermissionsRecursive r roleName visited of
     (Inl err, v') \<Rightarrow> explored r {roleName} visited v' {} \<and>
       roleName \<notin> visited \<and> fmlookup r roleName = None \<and> err = ErrRoleNotFound
   | (Inr ps, v') \<Rightarrow> explored r {roleName} visited v' ps \<and>
       (roleName \<in> visited \<or> fmlookup r roleName \<noteq> None)"
  "case inherited_permissions r names visited permSet of
     (qs, v') \<Rightarrow> \<exists>ps. qs = permSet \<union> ps \<and> explored r (set names) visited v' ps"
proof (induct r roleName visited and r names visited permSet
    rule: getAllPermissionsRecursive_inherited_permissions.induct)
  case (1 r roleName visited)
  show ?case
  proof (cases "roleName \<in> visited")
    case True
    then show ?thesis by (simp add: explored_none)
  next
    case new: False
    show ?thesis
    proof (cases "fmlookup r roleName")
      case None
      with new show ?thesis by (simp add: explored_missing)
    next
      case (Some role)
      obtain qs v' where call: "inherited_permissions r (role_Inherits role) (insert roleName visited)
          (set (role_Permissions role)) = (qs, v')" by fastforce
      with 1 [OF new Some] obtain ps where "qs = set (role_Permissions role) \<union> ps"
        "explored r (set (role_Inherits role)) (insert roleName visited) v' ps" by auto
      with explored_node [OF this(2) Some new] new Some call show ?thesis by simp
    qed
  qed
next
  case (2 r visited permSet)
  then show ?case by (auto intro: explored_none)
next
  case (3 r name rest visited permSet)
  obtain res v1 where call: "getAllPermissionsRecursive r name visited = (res, v1)" by fastforce
  define ps1 where "ps1 = (case res of Inl err \<Rightarrow> {} | Inr ps \<Rightarrow> ps)"
  have first: "explored r {name} visited v1 ps1"
    using 3(1) call by (auto simp: ps1_def split: sum.splits)
  obtain qs v2 where loop: "inherited_permissions r rest v1 (permSet \<union> ps1) = (qs, v2)" by fastforce
  have "\<exists>ps. qs = permSet \<union> ps1 \<union> ps \<and> explored r (set rest) v1 v2 ps"
    using 3(2) 3(3) call loop by (cases res) (auto simp: ps1_def)
  then obtain ps where ps: "qs = permSet \<union> (ps1 \<union> ps)" "explored r (set rest) v1 v2 ps"
    by (auto simp: Un_assoc)
  have "explored r (set (name # rest)) visited v2 (ps1 \<union> ps)"
    using explored_sequence [OF first ps(2)] by simp
  moreover have "inherited_permissions r (name # rest) visited permSet = (qs, v2)"
    using call loop by (cases res) (simp_all add: ps1_def)
  ultimately show ?case using ps(1) by auto
qed

text \<open>From the empty map of visited roles, exactly the roles reached are marked.\<close>

lemma explored_all:
  assumes "explored r {a} {} v' ps"
  shows "v' = {b. (inherits r)\<^sup>*\<^sup>* a b}" "ps = effective r a"
proof -
  note 1 = exploredD [OF assms]
  have "b \<in> v'" if "(inherits r)\<^sup>*\<^sup>* a b" for b
    using that by (induction rule: rtranclp_induct) (use 1(2,5) in auto)
  moreover have "(inherits r)\<^sup>*\<^sup>* a b" if "b \<in> v'" for b
    using that 1(4) by auto
  ultimately show "v' = {b. (inherits r)\<^sup>*\<^sup>* a b}" by blast
  then show "ps = effective r a" using 1(3) by (simp add: effective_def)
qed

lemma GetAllPermissions_effective:
  "GetAllPermissions a r =
    (if fmlookup r a = None then Inl ErrRoleNotFound else Inr (effective r a))"
proof -
  obtain res v' where call: "getAllPermissionsRecursive r a {} = (res, v')" by fastforce
  then show ?thesis
    using getAllPermissions_explored(1) [of r a "{}"]
    by (cases res) (auto simp: GetAllPermissions_def dest: explored_all)
qed

lemma effective_missing: "fmlookup r a = None \<Longrightarrow> effective r a = {}"
  by (auto simp: effective_def direct_def inherits_def elim: converse_rtranclpE)

lemma HasPermission_iff: "HasPermission a p r \<longleftrightarrow> a = ''superadmin'' \<or> p \<in> effective r a"
  by (simp add: HasPermission_def GetAllPermissions_effective effective_missing)

lemma HasAnyPermission_iff: "HasAnyPermission a ps r \<longleftrightarrow> (\<exists>p \<in> set ps. HasPermission a p r)"
  by (induction ps) auto

lemma HasAllPermissions_iff: "HasAllPermissions a ps r \<longleftrightarrow> (\<forall>p \<in> set ps. HasPermission a p r)"
  by (induction ps) auto

lemma CheckAccess_iff: "CheckAccess roles p r = None \<longleftrightarrow> (\<exists>a \<in> set roles. HasPermission a p r)"
  by (induction roles) auto

lemma CheckAnyAccess_iff:
  "CheckAnyAccess roles ps r = None \<longleftrightarrow> (\<exists>a \<in> set roles. \<exists>p \<in> set ps. HasPermission a p r)"
  by (induction roles) (auto simp: HasAnyPermission_iff)

text \<open>Changing the permissions of one role changes no edge of the hierarchy.\<close>

lemma inherits_upd:
  assumes "fmlookup r a = Some role"
  shows "inherits (fmupd a (role\<lparr>role_Permissions := ps\<rparr>) r) = inherits r"
  by (rule ext)+ (use assms in \<open>auto simp: inherits_def\<close>)

lemma effective_upd:
  assumes "fmlookup r a = Some role"
  shows "effective (fmupd a (role\<lparr>role_Permissions := ps\<rparr>) r) c =
    (\<Union>b \<in> {b. (inherits r)\<^sup>*\<^sup>* c b}. if b = a then set ps else direct r b)"
proof -
  have "direct (fmupd a (role\<lparr>role_Permissions := ps\<rparr>) r) = (\<lambda>b. if b = a then set ps else direct r b)"
    by (rule ext) (simp add: direct_def)
  then show ?thesis by (simp add: effective_def inherits_upd [OF assms])
qed

section \<open>Properties\<close>

text \<open>
  C20: The permissions of a role are those of the roles it reaches.  For every set of roles, with cycles
  and missing roles in the hierarchy or not, \<open>GetAllPermissions\<close> fails exactly for a role that does
  not exist, and otherwise gives the direct permissions of every existing role that the role
  reaches by inheritance, and no others.
\<close>

theorem GetAllPermissions_reachable:
  "GetAllPermissions a r =
    (case fmlookup r a of
       None \<Rightarrow> Inl ErrRoleNotFound
     | Some _ \<Rightarrow> Inr {p. \<exists>b role. (inherits r)\<^sup>*\<^sup>* a b \<and> fmlookup r b = Some role \<and> p \<in> set (role_Permissions role)})"
proof -
  have "effective r a = {p. \<exists>b role. (inherits r)\<^sup>*\<^sup>* a b \<and> fmlookup r b = Some role \<and> p \<in> set (role_Permissions role)}"
    by (auto simp: effective_def direct_def split: option.splits)
  then show ?thesis by (simp add: GetAllPermissions_effective split: option.split)
qed

text \<open>
  Who passes the access check.  \<open>CheckAccess\<close> grants a permission exactly when one of the user's
  roles is superadmin or reaches a role that has the permission; \<open>CheckAnyAccess\<close> grants when that
  is so for one of the permissions.
\<close>

theorem access_granted_iff:
  "(CheckAccess roles p r = None \<longleftrightarrow>
      (\<exists>a \<in> set roles. a = ''superadmin'' \<or> (\<exists>b. (inherits r)\<^sup>*\<^sup>* a b \<and> p \<in> direct r b))) \<and>
   (CheckAnyAccess roles ps r = None \<longleftrightarrow> (\<exists>p \<in> set ps. CheckAccess roles p r = None))"
  unfolding CheckAnyAccess_iff CheckAccess_iff HasPermission_iff by (auto simp: effective_def)

text \<open>
  What granting and revoking do.  After \<open>AddPermissionToRole\<close> every role that reaches the role has
  the permission.  After \<open>RemovePermissionFromRole\<close> from a role whose list has no duplicates, a role
  (other than superadmin) has the permission exactly when it reaches some other role that has it:
  what a role inherits cannot be taken from it.
\<close>

theorem grant_and_revoke:
  assumes "fmlookup r a = Some role" "(inherits r)\<^sup>*\<^sup>* c a" "c \<noteq> ''superadmin''"
  shows "HasPermission c p (snd (AddPermissionToRole a p r)) \<and>
    (p \<in> set (role_Permissions role) \<and> distinct (role_Permissions role) \<longrightarrow>
      fst (RemovePermissionFromRole a p r) = None \<and>
      (HasPermission c p (snd (RemovePermissionFromRole a p r)) \<longleftrightarrow>
        (\<exists>b. b \<noteq> a \<and> (inherits r)\<^sup>*\<^sup>* c b \<and> p \<in> direct r b)))"
proof -
  have "p \<in> effective (snd (AddPermissionToRole a p r)) c"
  proof (cases "p \<in> set (role_Permissions role)")
    case True
    then show ?thesis
      using assms(1,2) by (auto simp: AddPermissionToRole_def effective_def direct_def)
  next
    case False
    then show ?thesis
      using assms(1,2) by (auto simp: AddPermissionToRole_def effective_upd)
  qed
  then show ?thesis
    using assms by (auto simp: HasPermission_iff RemovePermissionFromRole_def effective_upd)
qed

definition example_roles :: RBACManager where
  "example_roles = fold AddRole
     [\<lparr>role_Name = ''a'', role_Description = [], role_Permissions = [''p''], role_Inherits = [''b'', ''gone'']\<rparr>,
      \<lparr>role_Name = ''b'', role_Description = [], role_Permissions = [''q''], role_Inherits = [''a'']\<rparr>] fmempty"

theorem grant_and_revoke_witness:
  "HasPermission ''b'' ''new'' (snd (AddPermissionToRole ''a'' ''new'' example_roles)) \<and>
   \<not> HasPermission ''b'' ''p'' (snd (RemovePermissionFromRole ''a'' ''p'' example_roles))"
proof -
  let ?a = "\<lparr>role_Name = ''a'', role_Description = [], role_Permissions = [''p''], role_Inherits = [''b'', ''gone'']\<rparr>"
  have a: "fmlookup example_roles ''a'' = Some ?a" by (simp add: example_roles_def AddRole_def)
  have "inherits example_roles ''b'' ''a''" by (simp add: inherits_def example_roles_def AddRole_def)
  then have reach: "(inherits example_roles)\<^sup>*\<^sup>* ''b'' ''a''" by blast
  have only: "\<not> (\<exists>b. b \<noteq> ''a'' \<and> (inherits example_roles)\<^sup>*\<^sup>* ''b'' b \<and> ''p'' \<in> direct example_roles b)"
    by (auto simp: direct_def example_roles_def AddRole_def split: if_splits)
  show ?thesis
    using grant_and_revoke [OF a reach, of "''new''"] grant_and_revoke [OF a reach, of "''p''"] only
    by simp
qed

text \<open>
  The default hierarchy.  In a new manager, users have four permissions, merchants cannot freeze
  accounts or reach the administration, operators cannot refund, and administrators have every
  permission but the two of the API, which only the service role has.
\<close>

theorem default_hierarchy:
  "GetAllPermissions ''user'' NewRBACManager =
     Inr {''transaction:read'', ''transaction:create'', ''account:read'', ''user:read''} \<and>
   GetAllPermissions ''merchant'' NewRBACManager =
     Inr {''transaction:create'', ''transaction:read'', ''transaction:update'', ''transaction:refund'',
       ''account:read'', ''account:update'', ''report:view'', ''report:export'', ''user:read''} \<and>
   GetAllPermissions ''operator'' NewRBACManager =
     Inr {''account:create'', ''account:read'', ''account:update'', ''account:freeze'', ''user:read'',
       ''user:update'', ''transaction:read'', ''transaction:create'', ''report:view''} \<and>
   GetAllPermissions ''superadmin'' NewRBACManager = GetAllPermissions ''admin'' NewRBACManager \<and>
   GetAllPermissions ''admin'' NewRBACManager =
     Inr {''transaction:create'', ''transaction:read'', ''transaction:update'', ''transaction:delete'',
       ''transaction:refund'', ''account:create'', ''account:read'', ''account:update'', ''account:delete'',
       ''account:freeze'', ''user:create'', ''user:read'', ''user:update'', ''user:delete'',
       ''admin:access'', ''admin:user_manage'', ''admin:config'', ''admin:audit'', ''report:view'',
       ''report:export'', ''report:generate''}"
proof -
  note eval = GetAllPermissions_def HasPermission_def NewRBACManager_def default_roles_def AddRole_def
  show ?thesis
    apply (intro conjI)
    subgoal by (simp add: eval)
    subgoal by (simp add: eval) (rule equalityI; simp)
    subgoal by (simp add: eval) (rule equalityI; simp)
    subgoal by (simp add: eval)
    subgoal by (simp add: eval) (rule equalityI; simp)
    done
qed

end
