(* ===== verification/AuthMiddleware.thy ===== *)
theory AuthMiddleware
  imports Http Jwt RBAC
begin

text \<open>
  The authentication middleware, \<open>libs/middleware/auth.go\<close>: the check of a request's credentials, the
  checks of roles, permissions and tenants behind it, optional authentication, and request ids.

  The context of a request is a record of the values that the middleware stores in it, \<open>None\<close>
  where nothing is stored.  The state of the checks is the manager of the API keys.
\<close>

section \<open>Context and configuration\<close>

record Context =
  cx_UserID :: "string option"
  cx_UserEmail :: "string option"
  cx_UserName :: "string option"
  cx_UserRoles :: "string list option"
  cx_Claims :: "Claims option"
  cx_APIKey :: "APIKey option"
  cx_TenantID :: "string option"
  cx_RequestID :: "string option"

definition empty_context :: Context where
  "empty_context =
     \<lparr>cx_UserID = None, cx_UserEmail = None, cx_UserName = None, cx_UserRoles = None, cx_Claims = None,
      cx_APIKey = None, cx_TenantID = None, cx_RequestID = None\<rparr>"

text \<open>
  The managers are pointers: of the API keys only whether there is one is part of the
  configuration, its contents are the state.
\<close>

record AuthConfig =
  au_JWTManager :: "JWTManager option"
  au_HasAPIKeyManager :: bool
  au_SkipPaths :: "string list"
  au_AllowAPIKey :: bool
  au_AllowJWT :: bool

definition DefaultAuthConfig :: "JWTManager option \<Rightarrow> AuthConfig" where
  "DefaultAuthConfig jwtManager =
     \<lparr>au_JWTManager = jwtManager, au_HasAPIKeyManager = False,
      au_SkipPaths = [''/health'', ''/ready'', ''/metrics''], au_AllowAPIKey = True, au_AllowJWT = True\<rparr>"

text \<open>The texts of the errors.\<close>

fun apikey_error_text :: "apikey_error \<Rightarrow> string" where
  "apikey_error_text ErrAPIKeyNotFound = ''api key not found''"
| "apikey_error_text ErrAPIKeyExpired = ''api key expired''"
| "apikey_error_text ErrAPIKeyDisabled = ''api key disabled''"
| "apikey_error_text ErrAPIKeyRateLimit = ''api key rate limit exceeded''"
| "apikey_error_text AkErrEntropy = ''entropy''"

fun jwt_error_text :: "jwt_error \<Rightarrow> string" where
  "jwt_error_text ErrInvalidToken = ''invalid token''"
| "jwt_error_text ErrTokenExpired = ''token expired''"
| "jwt_error_text ErrInvalidSignature = ''invalid signature''"
| "jwt_error_text ErrMissingClaims = ''missing required claims''"
| "jwt_error_text JwtErrEntropy = ''entropy''"
| "jwt_error_text JwtErrEmptyHeader = ''authorization header is empty''"
| "jwt_error_text JwtErrHeaderFormat = ''invalid authorization header format''"

section \<open>Authentication\<close>

definition shouldSkip :: "AuthConfig \<Rightarrow> string \<Rightarrow> bool" where
  "shouldSkip config path =
     list_ex (\<lambda>skipPath. path = skipPath \<or> has_prefix path (skipPath @ ''/'')) (au_SkipPaths config)"

definition with_api_key :: "APIKey \<Rightarrow> Context \<Rightarrow> Context" where
  "with_api_key key ctx =
     (let ctx = ctx\<lparr>cx_APIKey := Some key, cx_UserRoles := Some (ak_Roles key)\<rparr>
      in if ak_TenantID key \<noteq> [] then ctx\<lparr>cx_TenantID := Some (ak_TenantID key)\<rparr> else ctx)"

definition with_claims :: "Claims \<Rightarrow> Context \<Rightarrow> Context" where
  "with_claims claims ctx =
     ctx\<lparr>cx_Claims := Some claims, cx_UserID := Some (cl_Subject claims), cx_UserEmail := Some (cl_Email claims),
         cx_UserName := Some (cl_Name claims), cx_UserRoles := Some (cl_Roles claims)\<rparr>"

definition with_tenant :: "Claims \<Rightarrow> Context \<Rightarrow> Context" where
  "with_tenant claims ctx =
     (if cl_TenantID claims \<noteq> [] then ctx\<lparr>cx_TenantID := Some (cl_TenantID claims)\<rparr> else ctx)"

text \<open>\<open>sha256\<close> and \<open>lib\<close> are the library functions, \<open>e\<close> the instants of the operation.\<close>

definition auth_Handler ::
  "(string \<Rightarrow> byte list) \<Rightarrow> JwtLibrary \<Rightarrow> env \<Rightarrow> AuthConfig \<Rightarrow> (Context, APIKeyManager) check" where
  "auth_Handler sha256 lib e config x keys =
     (let r = ex_Request x; reject = writeJSONError (ex_Headers x) 401 in
      if shouldSkip config (rq_Path r) then (Inr x, keys)
      else if au_AllowAPIKey config \<and> au_HasAPIKeyManager config \<and> rq_Header r ''X-API-Key'' \<noteq> [] then
        (case ValidateAPIKey sha256 e (rq_Header r ''X-API-Key'') keys of
           (Inl err, keys') \<Rightarrow> (Inl (reject ''invalid_api_key'' (apikey_error_text err)), keys')
         | (Inr key, keys') \<Rightarrow> (Inr (x\<lparr>ex_Context := with_api_key key (ex_Context x)\<rparr>), keys'))
      else
        case (if au_AllowJWT config then au_JWTManager config else None) of
          None \<Rightarrow> (Inl (reject ''unauthorized'' ''Authentication required''), keys)
        | Some jwtManager \<Rightarrow>
            if rq_Header r ''Authorization'' = []
            then (Inl (reject ''missing_authorization'' ''Authorization header is required''), keys)
            else
              case ExtractTokenFromHeader (rq_Header r ''Authorization'') of
                Inl err \<Rightarrow> (Inl (reject ''invalid_authorization'' (jwt_error_text err)), keys)
              | Inr token \<Rightarrow>
                (case jwt_ValidateToken lib (clock e 0) jwtManager token of
                   Inl err \<Rightarrow>
                     (Inl (reject (if err = ErrTokenExpired then ''token_expired'' else ''invalid_token'')
                        (jwt_error_text err)), keys)
                 | Inr claims \<Rightarrow>
                     (Inr (x\<lparr>ex_Context := with_tenant claims (with_claims claims (ex_Context x))\<rparr>), keys)))"

section \<open>Roles, permissions, tenants\<close>

text \<open>The two nested loops of \<open>RequireRoles\<close>, which stop at the first match.\<close>

definition shares_role :: "string list \<Rightarrow> string list \<Rightarrow> bool" where
  "shares_role userRoles requiredRoles =
     list_ex (\<lambda>userRole. list_ex (\<lambda>requiredRole. userRole = requiredRole) requiredRoles) userRoles"

text \<open>What the three checks share: the roles of the context must be there and not be empty.\<close>

definition with_roles :: "(string list \<Rightarrow> bool) \<Rightarrow> string \<Rightarrow> (Context, 's) check" where
  "with_roles grants message x s =
     (case cx_UserRoles (ex_Context x) of
        Some (role # roles) \<Rightarrow>
          if grants (role # roles) then (Inr x, s)
          else (Inl (writeJSONError (ex_Headers x) 403 ''forbidden'' message), s)
      | _ \<Rightarrow> (Inl (writeJSONError (ex_Headers x) 403 ''forbidden'' ''No roles found''), s))"

definition RequireRoles :: "string list \<Rightarrow> (Context, 's) check" where
  "RequireRoles roles = with_roles (\<lambda>userRoles. shares_role userRoles roles) ''Insufficient role''"

definition RequirePermission :: "RBACManager \<Rightarrow> Permission \<Rightarrow> (Context, 's) check" where
  "RequirePermission rbac permission =
     with_roles (\<lambda>userRoles. CheckAccess userRoles permission rbac = None) ''Insufficient permissions''"

definition RequireAnyPermission :: "RBACManager \<Rightarrow> Permission list \<Rightarrow> (Context, 's) check" where
  "RequireAnyPermission rbac permissions =
     with_roles (\<lambda>userRoles. CheckAnyAccess userRoles permissions rbac = None) ''Insufficient permissions''"

definition RequireTenant :: "(Context, 's) check" where
  "RequireTenant x s =
     (case cx_TenantID (ex_Context x) of
        Some (c # tenant) \<Rightarrow> (Inr x, s)
      | _ \<Rightarrow> (Inl (writeJSONError (ex_Headers x) 403 ''forbidden'' ''Tenant context required''), s))"

definition OptionalAuth :: "JwtLibrary \<Rightarrow> env \<Rightarrow> JWTManager \<Rightarrow> (Context, 's) check" where
  "OptionalAuth lib e jwtManager x s =
     (let authHeader = rq_Header (ex_Request x) ''Authorization'' in
      if authHeader = [] then (Inr x, s)
      else
        case ExtractTokenFromHeader authHeader of
          Inl err \<Rightarrow> (Inr x, s)
        | Inr token \<Rightarrow>
          (case jwt_ValidateToken lib (clock e 0) jwtManager token of
             Inl err \<Rightarrow> (Inr x, s)
           | Inr claims \<Rightarrow> (Inr (x\<lparr>ex_Context := with_claims claims (ex_Context x)\<rparr>), s)))"

section \<open>Values of the context\<close>

definition GetUserID :: "Context \<Rightarrow> string" where
  "GetUserID ctx = (case cx_UserID ctx of None \<Rightarrow> [] | Some v \<Rightarrow> v)"

definition GetUserEmail :: "Context \<Rightarrow> string" where
  "GetUserEmail ctx = (case cx_UserEmail ctx of None \<Rightarrow> [] | Some v \<Rightarrow> v)"

definition GetUserName :: "Context \<Rightarrow> string" where
  "GetUserName ctx = (case cx_UserName ctx of None \<Rightarrow> [] | Some v \<Rightarrow> v)"

definition GetUserRoles :: "Context \<Rightarrow> string list" where
  "GetUserRoles ctx = (case cx_UserRoles ctx of None \<Rightarrow> [] | Some v \<Rightarrow> v)"

definition GetClaims :: "Context \<Rightarrow> Claims option" where
  "GetClaims ctx = cx_Claims ctx"

definition GetAPIKey :: "Context \<Rightarrow> APIKey option" where
  "GetAPIKey ctx = cx_APIKey ctx"

definition GetTenantID :: "Context \<Rightarrow> string" where
  "GetTenantID ctx = (case cx_TenantID ctx of None \<Rightarrow> [] | Some v \<Rightarrow> v)"

definition GetRequestID :: "Context \<Rightarrow> string" where
  "GetRequestID ctx = (case cx_RequestID ctx of None \<Rightarrow> [] | Some v \<Rightarrow> v)"

section \<open>Request ids\<close>

text \<open>
  \<open>generateRequestID\<close>: the sixteen bytes of \<open>make([]byte, 16)\<close>, which nothing fills, lower-cased,
  trimmed of one NUL at either end, and rid of all NULs and blanks.
\<close>

definition generateRequestID :: string where
  "generateRequestID =
     (let b = replicate 16 (CHR 0x00);
          s = trim_suffix [CHR 0x00] (trim_prefix [CHR 0x00] (map lower_byte b))
      in filter (\<lambda>c. c \<noteq> CHR '' '') (filter (\<lambda>c. c \<noteq> CHR 0x00) s) @ ''-req'')"

definition RequestIDMiddleware :: "(Context, 's) check" where
  "RequestIDMiddleware x s =
     (let given = rq_Header (ex_Request x) ''X-Request-ID'';
          requestID = (if given = [] then generateRequestID else given)
      in (Inr (x\<lparr>ex_Headers := (ex_Headers x)(''X-Request-ID'' \<mapsto> requestID),
                 ex_Context := (ex_Context x)\<lparr>cx_RequestID := Some requestID\<rparr>\<rparr>), s))"

section \<open>Properties\<close>

text \<open>
  Credentials that carry the roles \<open>roles\<close>: a stored API key that is active, in force and has those
  roles, or claims with those roles in a token that is signed under the secret of the manager and
  has not expired.
\<close>

definition valid_api_key :: "(string \<Rightarrow> byte list) \<Rightarrow> time \<Rightarrow> APIKeyManager \<Rightarrow> string \<Rightarrow> string list \<Rightarrow> bool" where
  "valid_api_key sha256 now keys rawKey roles \<longleftrightarrow>
     (\<exists>key. km_keys keys (hashAPIKey sha256 rawKey) = Some key \<and> ak_IsActive key \<and>
        \<not> IsExpired now key \<and> ak_Roles key = roles)"

definition valid_bearer :: "JwtLibrary \<Rightarrow> time \<Rightarrow> JWTManager \<Rightarrow> string \<Rightarrow> string list \<Rightarrow> bool" where
  "valid_bearer lib now m token roles \<longleftrightarrow>
     (\<exists>header payload provided json claims.
        token = header @ ''.'' @ payload @ ''.'' @ provided \<and>
        b64_decode provided = Some (lib_hmac lib (jc_Secret m) (header @ ''.'' @ payload)) \<and>
        b64_decode payload = Some json \<and> lib_decode lib json = Some claims \<and>
        claims_Valid now claims = None \<and> cl_Roles claims = roles)"

lemma jwt_ValidateToken_bearer:
  "jwt_ValidateToken lib now m token = Inr claims \<Longrightarrow> valid_bearer lib now m token (cl_Roles claims)"
proof -
  assume "jwt_ValidateToken lib now m token = Inr claims"
  then obtain header payload provided json where parts: "split_char CHR ''.'' token = [header, payload, provided]"
      "b64_decode provided = Some (sign lib m (header @ ''.'' @ payload))"
      "b64_decode payload = Some json" "lib_decode lib json = Some claims" "claims_Valid now claims = None"
    unfolding jwt_ValidateToken_iff by blast
  have "token = header @ ''.'' @ payload @ ''.'' @ provided"
    using split_token_join [OF parts(1)] by simp
  with parts show ?thesis unfolding valid_bearer_def sign_def by blast
qed

lemma ValidateAPIKey_valid:
  "ValidateAPIKey sha256 e rawKey keys = (Inr key, keys') \<Longrightarrow>
    valid_api_key sha256 (clock e 0) keys rawKey (ak_Roles key)"
  by (auto simp: ValidateAPIKey_def valid_api_key_def Let_def split: option.splits prod.splits if_splits)

text \<open>The roles the middleware passes on come from valid credentials.\<close>

lemma auth_Handler_passes:
  assumes "auth_Handler sha256 lib e config x keys = (Inr x', keys')"
    and "\<not> shouldSkip config (rq_Path (ex_Request x))"
  shows "\<exists>roles. cx_UserRoles (ex_Context x') = Some roles \<and>
    (au_AllowAPIKey config \<and> valid_api_key sha256 (clock e 0) keys (rq_Header (ex_Request x) ''X-API-Key'') roles \<or>
     (\<exists>m token. au_AllowJWT config \<and> au_JWTManager config = Some m \<and>
        ExtractTokenFromHeader (rq_Header (ex_Request x) ''Authorization'') = Inr token \<and>
        valid_bearer lib (clock e 0) m token roles))"
proof (cases "au_AllowAPIKey config \<and> au_HasAPIKeyManager config \<and> rq_Header (ex_Request x) ''X-API-Key'' \<noteq> []")
  case True
  with assms obtain key where
      "ValidateAPIKey sha256 e (rq_Header (ex_Request x) ''X-API-Key'') keys = (Inr key, keys')"
      "x' = x\<lparr>ex_Context := with_api_key key (ex_Context x)\<rparr>"
    by (auto simp: auth_Handler_def Let_def split: prod.splits sum.splits)
  with True ValidateAPIKey_valid show ?thesis by (fastforce simp: with_api_key_def Let_def)
next
  case False
  with assms obtain m token claims where "au_AllowJWT config" "au_JWTManager config = Some m"
      "ExtractTokenFromHeader (rq_Header (ex_Request x) ''Authorization'') = Inr token"
      "jwt_ValidateToken lib (clock e 0) m token = Inr claims"
      "x' = x\<lparr>ex_Context := with_tenant claims (with_claims claims (ex_Context x))\<rparr>"
    unfolding auth_Handler_def Let_def
    by (auto split: option.splits sum.splits if_splits)
  with jwt_ValidateToken_bearer show ?thesis by (fastforce simp: with_tenant_def with_claims_def)
qed

text \<open>
  C17: What it takes to reach a handler behind authentication and a required permission: unless the
  path is exempt, the request carries a valid API key or a valid, correctly signed token, and one
  of the roles of those credentials is superadmin or reaches by inheritance a role that has the
  permission.
\<close>

theorem protected_handler_reached:
  assumes "pass_all [auth_Handler sha256 lib e config, RequirePermission rbac permission] x keys = (Inr x', keys')"
    and "\<not> shouldSkip config (rq_Path (ex_Request x))"
  shows "\<exists>roles. (valid_api_key sha256 (clock e 0) keys (rq_Header (ex_Request x) ''X-API-Key'') roles \<or>
      (\<exists>m token. au_JWTManager config = Some m \<and>
         ExtractTokenFromHeader (rq_Header (ex_Request x) ''Authorization'') = Inr token \<and>
         valid_bearer lib (clock e 0) m token roles)) \<and>
    (\<exists>a \<in> set roles. a = ''superadmin'' \<or> (\<exists>b. (inherits rbac)\<^sup>*\<^sup>* a b \<and> permission \<in> direct rbac b))"
proof -
  obtain x1 keys1 where auth: "auth_Handler sha256 lib e config x keys = (Inr x1, keys1)"
    and perm: "RequirePermission rbac permission x1 keys1 = (Inr x', keys')"
    using assms(1) by (auto split: prod.splits sum.splits)
  obtain roles where roles: "cx_UserRoles (ex_Context x1) = Some roles" "CheckAccess roles permission rbac = None"
    using perm by (auto simp: RequirePermission_def with_roles_def split: option.splits list.splits if_splits)
  have "\<exists>a \<in> set roles. a = ''superadmin'' \<or> (\<exists>b. (inherits rbac)\<^sup>*\<^sup>* a b \<and> permission \<in> direct rbac b)"
    using roles(2) by (auto simp: CheckAccess_iff HasPermission_iff effective_def)
  with auth_Handler_passes [OF auth assms(2)] roles(1) show ?thesis by auto
qed

text \<open>A key with the role \<open>b\<close>, and a request that presents it.\<close>

definition example_exchange :: "Context Exchange" where
  "example_exchange =
     \<lparr>ex_Request = \<lparr>rq_Method = ''GET'', rq_Host = [], rq_Path = ''/accounts'', rq_RawQuery = [], rq_Query = [],
        rq_Header = (\<lambda>h. if h = ''X-API-Key'' then ''raw'' else []), rq_RemoteAddr = []\<rparr>,
      ex_Context = empty_context, ex_Headers = Map.empty, ex_BodyLimit = None\<rparr>"

lemma protected_handler_reached_witness:
  "valid_api_key example_hash 1 (example_keys ((example_key 0 None)\<lparr>ak_Roles := [''b'']\<rparr>)) ''raw'' [''b''] \<and>
   (inherits example_roles)\<^sup>*\<^sup>* ''b'' ''a'' \<and>
   (\<exists>roles. (valid_api_key example_hash 1 (example_keys ((example_key 0 None)\<lparr>ak_Roles := [''b'']\<rparr>)) ''raw'' roles \<or>
        (\<exists>m token. None = Some m \<and> valid_bearer (example_library []) 1 m token roles)) \<and>
      (\<exists>a \<in> set roles. a = ''superadmin'' \<or>
        (\<exists>b. (inherits example_roles)\<^sup>*\<^sup>* a b \<and> ''p'' \<in> direct example_roles b)))"
proof -
  let ?key = "(example_key 0 None)\<lparr>ak_Roles := [''b'']\<rparr>" and ?keys = "example_keys ((example_key 0 None)\<lparr>ak_Roles := [''b'']\<rparr>)"
  let ?config = "(DefaultAuthConfig None)\<lparr>au_HasAPIKeyManager := True\<rparr>"
  have reach: "(inherits example_roles)\<^sup>*\<^sup>* ''b'' ''a''"
    by (rule r_into_rtranclp) (simp add: inherits_def example_roles_def AddRole_def)
  have "CheckAccess [''b''] ''p'' example_roles = None"
    using reach by (auto simp: CheckAccess_iff HasPermission_iff effective_def direct_def example_roles_def AddRole_def
        intro!: exI [of _ "''a''"])
  moreover have path: "rq_Path (ex_Request example_exchange) = ''/accounts''"
      "rq_Header (ex_Request example_exchange) ''X-API-Key'' = ''raw''"
      "ex_Headers example_exchange = Map.empty"
    by (simp_all add: example_exchange_def)
  moreover have skip: "\<not> shouldSkip ?config (rq_Path (ex_Request example_exchange))"
    by (simp add: path shouldSkip_def DefaultAuthConfig_def has_prefix_def)
  moreover have "ValidateAPIKey example_hash (reading 1) ''raw'' ?keys =
      (Inr (?key\<lparr>ak_LastUsedAt := Some 1\<rparr>), ?keys\<lparr>km_keys := (km_keys ?keys)(hashAPIKey example_hash ''raw'' \<mapsto>
        ?key\<lparr>ak_LastUsedAt := Some 1\<rparr>)\<rparr>)"
    by (simp add: ak_eval)
  ultimately obtain x' keys' where
    "pass_all [auth_Handler example_hash (example_library []) (reading 1) ?config,
       RequirePermission example_roles ''p''] example_exchange ?keys = (Inr x', keys')"
    by (simp add: auth_Handler_def RequirePermission_def with_roles_def with_api_key_def Let_def
        DefaultAuthConfig_def example_key_def)
  from protected_handler_reached [OF this skip] reach show ?thesis
    by (simp add: path reading_def DefaultAuthConfig_def) (simp add: valid_api_key_def ak_eval)
qed

text \<open>
  The identifiers that \<open>RequestIDMiddleware\<close> makes are all the same: nothing fills the bytes.
\<close>

lemma request_ids_equal: "generateRequestID = ''-req''"
  by code_simp

text \<open>
  A refresh token passes the authentication middleware as a bearer token: the type of the token is
  not checked there.
\<close>

lemma refresh_token_authenticates:
  assumes "jwt_ValidateToken lib (clock e 0) m token = Inr claims" "cl_TokenType claims = RefreshToken"
    and "rq_Header r ''Authorization'' = ''Bearer '' @ token" "trim_space token = token"
    and "rq_Header r ''X-API-Key'' = []" "\<not> shouldSkip config (rq_Path r)"
    and "au_AllowJWT config" "au_JWTManager config = Some m" "ex_Request x = r"
  shows "\<exists>x'. auth_Handler sha256 lib e config x keys = (Inr x', keys) \<and>
    cx_UserID (ex_Context x') = Some (cl_Subject claims)"
proof -
  have "split_first CHR '' '' (''Bearer'' @ CHR '' '' # token) = (''Bearer'', Some token)"
    by (rule split_first_some) simp
  then have "ExtractTokenFromHeader (''Bearer '' @ token) = Inr token"
    using assms(4) by (simp add: ExtractTokenFromHeader_def)
  with assms show ?thesis
    by (simp add: auth_Handler_def Let_def with_tenant_def with_claims_def)
qed

end
