(* ===== verification/Regex.thy ===== *)
theory Regex
  imports Go_Prelude
begin

text \<open>
  What the sources use of \<open>regexp\<close>: whether a pattern matches somewhere in a text.  Patterns are regular
  expressions over bytes; the matcher takes derivatives, and finds a match exactly when some part
  of the text is in the language of the pattern.
\<close>

datatype regex = Zero | One | Cls "char \<Rightarrow> bool" | Alt regex regex | Seq regex regex | Star regex

primrec lang :: "regex \<Rightarrow> string set" where
  "lang Zero = {}"
| "lang One = {[]}"
| "lang (Cls P) = {[c] | c. P c}"
| "lang (Alt r s) = lang r \<union> lang s"
| "lang (Seq r s) = {u @ v | u v. u \<in> lang r \<and> v \<in> lang s}"
| "lang (Star r) = {concat ws | ws. set ws \<subseteq> lang r}"

primrec nullable :: "regex \<Rightarrow> bool" where
  "nullable Zero = False"
| "nullable One = True"
| "nullable (Cls P) = False"
| "nullable (Alt r s) = (nullable r \<or> nullable s)"
| "nullable (Seq r s) = (nullable r \<and> nullable s)"
| "nullable (Star r) = True"

primrec deriv :: "char \<Rightarrow> regex \<Rightarrow> regex" where
  "deriv c Zero = Zero"
| "deriv c One = Zero"
| "deriv c (Cls P) = (if P c then One else Zero)"
| "deriv c (Alt r s) = Alt (deriv c r) (deriv c s)"
| "deriv c (Seq r s) =
     (if nullable r then Alt (Seq (deriv c r) s) (deriv c s) else Seq (deriv c r) s)"
| "deriv c (Star r) = Seq (deriv c r) (Star r)"

text \<open>A match that starts at the front of the text, and one that starts anywhere.\<close>

fun match_front :: "regex \<Rightarrow> string \<Rightarrow> bool" where
  "match_front r [] = nullable r"
| "match_front r (c # s) = (nullable r \<or> match_front (deriv c r) s)"

fun MatchString :: "regex \<Rightarrow> string \<Rightarrow> bool" where
  "MatchString r [] = match_front r []"
| "MatchString r (c # s) = (match_front r (c # s) \<or> MatchString r s)"

lemma nullable_iff: "nullable r \<longleftrightarrow> [] \<in> lang r"
  by (induction r) (auto intro: exI [of _ "[]"])

lemma concat_Cons_split:
  "concat ws = c # s \<Longrightarrow> \<exists>u ws'. (c # u) \<in> set ws \<and> set ws' \<subseteq> set ws \<and> s = u @ concat ws'"
proof (induction ws)
  case (Cons w ws)
  show ?case
  proof (cases w)
    case Nil
    with Cons obtain u ws' where "(c # u) \<in> set ws" "set ws' \<subseteq> set ws" "s = u @ concat ws'" by auto
    then show ?thesis by (intro exI [of _ u] exI [of _ ws']) auto
  next
    case (Cons d u)
    with Cons.prems have "d = c" "s = u @ concat ws" by simp_all
    with Cons show ?thesis by (intro exI [of _ u] exI [of _ ws]) auto
  qed
qed simp

lemma star_Cons_iff:
  "c # s \<in> lang (Star r) \<longleftrightarrow> (\<exists>u v. s = u @ v \<and> c # u \<in> lang r \<and> v \<in> lang (Star r))"
proof
  assume "c # s \<in> lang (Star r)"
  then obtain ws where "concat ws = c # s" "set ws \<subseteq> lang r" by auto
  with concat_Cons_split [OF this(1)] show "\<exists>u v. s = u @ v \<and> c # u \<in> lang r \<and> v \<in> lang (Star r)"
    by auto blast
next
  assume "\<exists>u v. s = u @ v \<and> c # u \<in> lang r \<and> v \<in> lang (Star r)"
  then obtain u ws where "s = u @ concat ws" "c # u \<in> lang r" "set ws \<subseteq> lang r" by auto
  then show "c # s \<in> lang (Star r)"
    by (auto intro!: exI [of _ "(c # u) # ws"])
qed

lemma deriv_iff: "s \<in> lang (deriv c r) \<longleftrightarrow> c # s \<in> lang r"
proof (induction r arbitrary: s)
  case (Seq r1 r2)
  have "c # s \<in> lang (Seq r1 r2) \<longleftrightarrow>
      (\<exists>u v. s = u @ v \<and> c # u \<in> lang r1 \<and> v \<in> lang r2) \<or> [] \<in> lang r1 \<and> c # s \<in> lang r2"
    by (auto simp: Cons_eq_append_conv)
  with Seq show ?case by (auto simp: nullable_iff)
next
  case (Star r)
  then show ?case by (simp only: star_Cons_iff) auto
qed auto

lemma match_front_iff: "match_front r s \<longleftrightarrow> (\<exists>u v. s = u @ v \<and> u \<in> lang r)"
proof (induction s arbitrary: r)
  case Nil
  then show ?case by (simp add: nullable_iff)
next
  case (Cons c s)
  show ?case
    by (auto simp: Cons.IH deriv_iff nullable_iff Cons_eq_append_conv)
qed

lemma MatchString_iff: "MatchString r s \<longleftrightarrow> (\<exists>t u v. s = t @ u @ v \<and> u \<in> lang r)"
proof (induction s)
  case Nil
  then show ?case by (simp add: nullable_iff)
next
  case (Cons c s)
  have "(\<exists>t u v. c # s = t @ u @ v \<and> u \<in> lang r) \<longleftrightarrow>
      (\<exists>u v. c # s = u @ v \<and> u \<in> lang r) \<or> (\<exists>t u v. s = t @ u @ v \<and> u \<in> lang r)"
    (is "?L \<longleftrightarrow> ?F \<or> ?R")
  proof
    assume ?L
    then obtain t u v where split: "c # s = t @ u @ v" "u \<in> lang r" by blast
    then show "?F \<or> ?R" by (cases t) auto
  next
    assume "?F \<or> ?R"
    then show ?L
    proof
      assume ?F
      then show ?L by (metis append_Nil)
    next
      assume ?R
      then show ?L by (metis append_Cons)
    qed
  qed
  with Cons show ?case by (simp only: MatchString.simps match_front_iff)
qed

text \<open>Patterns from texts: one after the other, and letters in either case as under \<open>(?i)\<close>.\<close>

definition chr :: "char \<Rightarrow> regex" where
  "chr c = Cls (\<lambda>d. d = c)"

definition seq_all :: "regex list \<Rightarrow> regex" where
  "seq_all rs = foldr Seq rs One"

definition alt_all :: "regex list \<Rightarrow> regex" where
  "alt_all rs = foldr Alt rs Zero"

text \<open>
  Under \<open>(?i)\<close> a letter matches both cases; the letter s also matches the long s (U+017F), the bytes
  C5 BF.  (The other such letter, k, is in none of the patterns.)
\<close>

definition ci :: "char \<Rightarrow> regex" where
  "ci c = (let either = Cls (\<lambda>d. lower_byte d = lower_byte c)
           in if lower_byte c = CHR ''s'' then Alt either (Seq (chr (CHR 0xC5)) (chr (CHR 0xBF))) else either)"

definition ci_word :: "string \<Rightarrow> regex" where
  "ci_word s = seq_all (map ci s)"

definition plus :: "regex \<Rightarrow> regex" where
  "plus r = Seq r (Star r)"

definition word_char :: regex where
  "word_char = Cls (\<lambda>c. let n = (of_char c :: nat) in
     48 \<le> n \<and> n \<le> 57 \<or> 65 \<le> n \<and> n \<le> 90 \<or> n = 95 \<or> 97 \<le> n \<and> n \<le> 122)"

text \<open>\<open>\s\<close> of the syntax: tab, line feed, form feed, carriage return and blank.\<close>

definition space_char :: regex where
  "space_char = Cls (\<lambda>c. c \<in> {CHR 0x09, CHR 0x0A, CHR 0x0C, CHR 0x0D, CHR 0x20})"

lemma lang_chr: "lang (chr c) = {[c]}"
  by (auto simp: chr_def)

lemma lang_alt_all: "lang (alt_all rs) = (\<Union>r \<in> set rs. lang r)"
  by (induction rs) (auto simp: alt_all_def)

lemma lang_seq_all_Cons: "lang (seq_all (r # rs)) = {u @ v | u v. u \<in> lang r \<and> v \<in> lang (seq_all rs)}"
  by (simp add: seq_all_def)

lemma lang_seq_all_Nil: "lang (seq_all []) = {[]}"
  by (simp add: seq_all_def)

end
