(* ===== verification/Security.thy ===== *)
theory Security
  imports Http Regex
begin

text \<open>
  The security middleware, \<open>libs/middleware/security.go\<close>: security headers, CORS, the check of the Host
  header, content types and body limits, and the filters of suspicious query parameters.
\<close>

section \<open>Configuration\<close>

record SecurityConfig =
  se_AllowedOrigins :: "string list"
  se_AllowedMethods :: "string list"
  se_AllowedHeaders :: "string list"
  se_ExposedHeaders :: "string list"
  se_AllowCredentials :: bool
  se_MaxAge :: int64
  se_HSTSMaxAge :: int64
  se_HSTSIncludeSubdomains :: bool
  se_HSTSPreload :: bool
  se_FrameOptions :: string
  se_ContentTypeNosniff :: bool
  se_XSSProtection :: string
  se_ContentSecurityPolicy :: string
  se_ReferrerPolicy :: string
  se_PermissionsPolicy :: string
  se_MaxBodySize :: int64
  se_AllowedHosts :: "string list"
  se_TrustedProxies :: "string list"

definition apostrophe :: string where
  "apostrophe = [CHR 0x27]"

definition DefaultSecurityConfig :: SecurityConfig where
  "DefaultSecurityConfig =
     \<lparr>se_AllowedOrigins = [],
      se_AllowedMethods = [''GET'', ''POST'', ''PUT'', ''DELETE'', ''OPTIONS'', ''PATCH''],
      se_AllowedHeaders = [''Accept'', ''Authorization'', ''Content-Type'', ''X-Requested-With'', ''X-API-Key''],
      se_ExposedHeaders = [''X-Request-ID'', ''X-RateLimit-Limit'', ''X-RateLimit-Remaining''],
      se_AllowCredentials = True, se_MaxAge = 86400, se_HSTSMaxAge = 31536000,
      se_HSTSIncludeSubdomains = True, se_HSTSPreload = False, se_FrameOptions = ''DENY'',
      se_ContentTypeNosniff = True, se_XSSProtection = ''1; mode=block'',
      se_ContentSecurityPolicy = ''default-src '' @ apostrophe @ ''self'' @ apostrophe,
      se_ReferrerPolicy = ''strict-origin-when-cross-origin'',
      se_PermissionsPolicy = ''geolocation=(), microphone=(), camera=()'',
      se_MaxBodySize = 10 * 1024 * 1024, se_AllowedHosts = [],
      se_TrustedProxies = [''127.0.0.1'', ''::1'']\<rparr>"

definition ProductionSecurityConfig :: SecurityConfig where
  "ProductionSecurityConfig =
     DefaultSecurityConfig\<lparr>se_HSTSPreload := True, se_ContentSecurityPolicy :=
       (let self = apostrophe @ ''self'' @ apostrophe in
        ''default-src '' @ self @ ''; script-src '' @ self @ ''; style-src '' @ self @ '' '' @ apostrophe @
        ''unsafe-inline'' @ apostrophe @ ''; img-src '' @ self @ '' data:; font-src '' @ self @
        ''; connect-src '' @ self @ ''; frame-ancestors '' @ apostrophe @ ''none'' @ apostrophe)\<rparr>"

definition NewSecurityMiddleware :: "SecurityConfig option \<Rightarrow> SecurityConfig" where
  "NewSecurityMiddleware config = (case config of None \<Rightarrow> DefaultSecurityConfig | Some c \<Rightarrow> c)"

section \<open>Numerals\<close>

text \<open>The loop of \<open>itoa\<close> puts the last digit of what is left in front of the digits.\<close>

function itoa_loop :: "int \<Rightarrow> string \<Rightarrow> string" where
  "itoa_loop n digits =
     (if n \<le> 0 then digits else itoa_loop (n div 10) (char_of (48 + nat (n mod 10)) # digits))"
  by auto
termination by (relation "measure (\<lambda>(n, digits). nat n)") auto

declare itoa_loop.simps [simp del]

definition itoa :: "int64 \<Rightarrow> string" where
  "itoa n =
     (if n = 0 then ''0''
      else
        let neg = sint n < 0; n = (if neg then - n else n); digits = itoa_loop (sint n) []
        in if neg then ''-'' @ digits else digits)"

section \<open>Headers, origins, hosts\<close>

text \<open>Setting a header unless its configured value is empty.\<close>

definition set_unless_empty :: "string \<Rightarrow> string \<Rightarrow> (string \<rightharpoonup> string) \<Rightarrow> (string \<rightharpoonup> string)" where
  "set_unless_empty name value h = (if value = [] then h else h(name \<mapsto> value))"

definition setSecurityHeaders :: "SecurityConfig \<Rightarrow> (string \<rightharpoonup> string) \<Rightarrow> (string \<rightharpoonup> string)" where
  "setSecurityHeaders config h =
     (let hsts = ''max-age='' @ itoa (se_HSTSMaxAge config) @
            (if se_HSTSIncludeSubdomains config then ''; includeSubDomains'' else []) @
            (if se_HSTSPreload config then ''; preload'' else []);
          h = (if 0 < sint (se_HSTSMaxAge config) then h(''Strict-Transport-Security'' \<mapsto> hsts) else h);
          h = set_unless_empty ''X-Frame-Options'' (se_FrameOptions config) h;
          h = (if se_ContentTypeNosniff config then h(''X-Content-Type-Options'' \<mapsto> ''nosniff'') else h);
          h = set_unless_empty ''X-XSS-Protection'' (se_XSSProtection config) h;
          h = set_unless_empty ''Content-Security-Policy'' (se_ContentSecurityPolicy config) h;
          h = set_unless_empty ''Referrer-Policy'' (se_ReferrerPolicy config) h;
          h = set_unless_empty ''Permissions-Policy'' (se_PermissionsPolicy config) h
      in h(''Cache-Control'' \<mapsto> ''no-store, no-cache, must-revalidate, proxy-revalidate'',
           ''Pragma'' \<mapsto> ''no-cache'', ''Expires'' \<mapsto> ''0''))"

definition origin_matches :: "string \<Rightarrow> string \<Rightarrow> bool" where
  "origin_matches origin allowed \<longleftrightarrow>
     allowed = ''*'' \<or> allowed = origin \<or> take 2 allowed = ''*.'' \<and> has_suffix origin (drop 1 allowed)"

definition isOriginAllowed :: "SecurityConfig \<Rightarrow> string \<Rightarrow> bool" where
  "isOriginAllowed config origin =
     (if se_AllowedOrigins config = [] then False else list_ex (origin_matches origin) (se_AllowedOrigins config))"

text \<open>\<open>handleCORS\<close>: whether the request is handled, and the headers.\<close>

definition handleCORS :: "SecurityConfig \<Rightarrow> Request \<Rightarrow> (string \<rightharpoonup> string) \<Rightarrow> bool \<times> (string \<rightharpoonup> string)" where
  "handleCORS config r h =
     (let origin = rq_Header r ''Origin'' in
      if origin = [] then (False, h)
      else if \<not> isOriginAllowed config origin then (False, h)
      else
        let h = h(''Access-Control-Allow-Origin'' \<mapsto> origin);
            h = (if se_AllowCredentials config then h(''Access-Control-Allow-Credentials'' \<mapsto> ''true'') else h);
            h = h(''Access-Control-Expose-Headers'' \<mapsto> join '', '' (se_ExposedHeaders config))
        in if rq_Method r = ''OPTIONS''
           then (True, h(''Access-Control-Allow-Methods'' \<mapsto> join '', '' (se_AllowedMethods config),
                  ''Access-Control-Allow-Headers'' \<mapsto> join '', '' (se_AllowedHeaders config),
                  ''Access-Control-Max-Age'' \<mapsto> itoa (se_MaxAge config)))
           else (False, h))"

text \<open>\<open>host[:strings.LastIndex(host, ":")]\<close>, or the host if there is no colon.\<close>

definition before_last_colon :: "string \<Rightarrow> string" where
  "before_last_colon host =
     (if CHR '':'' \<in> set host then rev (tl (dropWhile (\<lambda>c. c \<noteq> CHR '':'') (rev host))) else host)"

definition validateHost :: "SecurityConfig \<Rightarrow> Request \<Rightarrow> bool" where
  "validateHost config r =
     (if se_AllowedHosts config = [] then True
      else list_ex (\<lambda>allowed. allowed = before_last_colon (rq_Host r) \<or> allowed = ''*'') (se_AllowedHosts config))"

definition security_Handler :: "SecurityConfig \<Rightarrow> ('c, 's) check" where
  "security_Handler config x s =
     (let h = setSecurityHeaders config (ex_Headers x)
      in case handleCORS config (ex_Request x) h of
           (True, h) \<Rightarrow> (Inl \<lparr>rp_Status = 204, rp_Headers = h, rp_Body = NoBody\<rparr>, s)
         | (False, h) \<Rightarrow>
             if \<not> validateHost config (ex_Request x) then (Inl (http_Error h 400 ''Invalid host''), s)
             else (Inr (x\<lparr>ex_Headers := h\<rparr>), s))"

section \<open>Input\<close>

definition NewInputValidationMiddleware :: "int64 \<Rightarrow> int64" where
  "NewInputValidationMiddleware maxBodySize = (if sint maxBodySize \<le> 0 then 10 * 1024 * 1024 else maxBodySize)"

definition isValidContentType :: "string \<Rightarrow> bool" where
  "isValidContentType contentType =
     (let mime = (case split_first CHR '';'' contentType of
                    (front, Some _) \<Rightarrow> trim_space front | (_, None) \<Rightarrow> contentType)
      in list_ex (\<lambda>allowed. fold_case mime = fold_case allowed)
           [''application/json'', ''application/x-www-form-urlencoded'', ''multipart/form-data'', ''text/plain''])"

definition input_Handler :: "int64 \<Rightarrow> ('c, 's) check" where
  "input_Handler maxBodySize x s =
     (let r = ex_Request x; contentType = rq_Header r ''Content-Type'' in
      if rq_Method r \<in> {''POST'', ''PUT'', ''PATCH''} \<and> contentType \<noteq> [] \<and> \<not> isValidContentType contentType
      then (Inl (http_Error (ex_Headers x) 415 ''Unsupported Media Type''), s)
      else (Inr (x\<lparr>ex_BodyLimit := Some maxBodySize\<rparr>), s))"

section \<open>Suspicious parameters\<close>

text \<open>
  The patterns, in the syntax of \<open>Regex\<close>.  Under \<open>(?i)\<close> the class \<open>\w\<close> also has the long s and the
  Kelvin sign.
\<close>

definition any_but :: "char \<Rightarrow> regex" where
  "any_but c = Cls (\<lambda>d. d \<noteq> c)"

definition ci_word_char :: regex where
  "ci_word_char = alt_all [word_char, seq_all [chr (CHR 0xC5), chr (CHR 0xBF)],
     seq_all [chr (CHR 0xE2), chr (CHR 0x84), chr (CHR 0xAA)]]"

definition quote :: regex where
  "quote = alt_all [ci_word ''%27'', chr (CHR 0x27)]"

definition sql_patterns :: "regex list" where
  "sql_patterns =
     [alt_all [ci_word ''%27'', chr (CHR 0x27), ci_word ''--'', ci_word ''%23'', chr (CHR ''#'')],
      seq_all [alt_all [ci_word ''%3D'', chr (CHR ''='')], Star (any_but (CHR 0x0A)),
        alt_all [ci_word ''%27'', chr (CHR 0x27), ci_word ''--'', ci_word ''%3B'', chr (CHR '';'')]],
      seq_all [Star ci_word_char, quote, alt_all [ci_word ''%6F'', ci_word ''o'', ci_word ''%4F''],
        alt_all [ci_word ''%72'', ci_word ''r'', ci_word ''%52'']],
      seq_all [quote, ci_word ''union''],
      seq_all [ci_word ''exec'', plus (alt_all [space_char, chr (CHR ''+'')]),
        alt_all [ci_word ''s'', ci_word ''x''], ci_word ''p'', plus ci_word_char]]"

definition xss_patterns :: "regex list" where
  "xss_patterns =
     [seq_all [ci_word ''<script'', Star (any_but (CHR ''>'')), chr (CHR ''>''), Star (any_but (CHR 0x0A)),
        ci_word ''</script>''],
      seq_all [ci_word ''<script'', Star (any_but (CHR ''>'')), chr (CHR ''>'')],
      ci_word ''javascript:'',
      seq_all [ci_word ''on'', plus ci_word_char, Star space_char, chr (CHR ''='')],
      ci_word ''<iframe'', ci_word ''<object'', ci_word ''<embed'',
      seq_all [ci_word ''<svg'', Star (any_but (CHR ''>'')), ci_word ''onload'']]"

definition isSuspicious :: "regex list \<Rightarrow> string \<Rightarrow> bool" where
  "isSuspicious patterns input = list_ex (\<lambda>pattern. MatchString pattern input) patterns"

text \<open>The handler of the two filters, which differ in their patterns.\<close>

definition filter_Handler :: "regex list \<Rightarrow> ('c, 's) check" where
  "filter_Handler patterns x s =
     (if list_ex (\<lambda>(name, values). list_ex (isSuspicious patterns) values) (rq_Query (ex_Request x))
      then (Inl (writeJSONError (ex_Headers x) 400 ''invalid_request''
              ''Request contains potentially malicious content''), s)
      else (Inr x, s))"

definition SQLInjection_Handler :: "('c, 's) check" where
  "SQLInjection_Handler = filter_Handler sql_patterns"

definition XSS_Handler :: "('c, 's) check" where
  "XSS_Handler = filter_Handler xss_patterns"

section \<open>Numerals are right but for one\<close>

lemma itoa_loop_decimal: "0 < n \<Longrightarrow> itoa_loop n digits = decimal (nat n) @ digits"
proof (induction n digits rule: itoa_loop.induct)
  case (1 n digits)
  have digit: "nat (n mod 10) = nat n mod 10" "nat (n div 10) = nat n div 10"
    using 1(2) by (simp_all add: nat_mod_distrib nat_div_distrib)
  show ?case
  proof (cases "n < 10")
    case True
    then have "itoa_loop (n div 10) (char_of (48 + nat (n mod 10)) # digits) = char_of (48 + nat n) # digits"
      using 1(2) by (subst itoa_loop.simps) simp
    moreover have "nat n < 10" using True by simp
    ultimately show ?thesis
      using True 1(2) by (subst itoa_loop.simps, subst decimal.simps) simp
  next
    case False
    then have "itoa_loop (n div 10) (char_of (48 + nat (n mod 10)) # digits) =
        decimal (nat n div 10) @ char_of (48 + nat n mod 10) # digits"
      using 1 digit by simp
    moreover have "\<not> nat n < 10" using False by simp
    ultimately show ?thesis
      using 1(2) by (subst itoa_loop.simps, subst decimal.simps) simp
  qed
qed

lemma decimal_0: "decimal 0 = ''0''"
  by code_simp

section \<open>Which headers are set\<close>

lemma setSecurityHeaders_other:
  "n \<notin> {''Strict-Transport-Security'', ''X-Frame-Options'', ''X-Content-Type-Options'', ''X-XSS-Protection'',
    ''Content-Security-Policy'', ''Referrer-Policy'', ''Permissions-Policy'', ''Cache-Control'', ''Pragma'', ''Expires''}
   \<Longrightarrow> setSecurityHeaders config h n = h n"
  by (simp add: setSecurityHeaders_def set_unless_empty_def Let_def)

lemma origin_matches_iff:
  "origin_matches origin allowed \<longleftrightarrow>
    allowed = ''*'' \<or> allowed = origin \<or> (\<exists>domain sub. allowed = ''*.'' @ domain \<and> origin = sub @ ''.'' @ domain)"
proof -
  have "take 2 allowed = ''*.'' \<longleftrightarrow> (\<exists>domain. allowed = ''*.'' @ domain)"
    by (metis append_eq_conv_conj append_take_drop_id length_Cons list.size(3) numeral_2_eq_2)
  then show ?thesis by (auto simp: origin_matches_def has_suffix_iff)
qed

section \<open>Properties\<close>

text \<open>
  Who is given access across origins: the response names an origin exactly when the request has one
  that an entry allows, by being the wildcard, the origin itself, or \<open>*.\<close> and a parent domain; then
  a preflight request is answered with 204 and goes no further.
\<close>

theorem cors_allows_only:
  assumes "ex_Headers x ''Access-Control-Allow-Origin'' = None"
  shows "let origin = rq_Header (ex_Request x) ''Origin'';
      headers = (case fst (security_Handler config x s) of Inl response \<Rightarrow> rp_Headers response | Inr x' \<Rightarrow> ex_Headers x');
      allowed = origin \<noteq> [] \<and> (\<exists>entry \<in> set (se_AllowedOrigins config). entry = ''*'' \<or> entry = origin \<or>
        (\<exists>domain sub. entry = ''*.'' @ domain \<and> origin = sub @ ''.'' @ domain))
    in headers ''Access-Control-Allow-Origin'' = (if allowed then Some origin else None) \<and>
       (allowed \<and> rq_Method (ex_Request x) = ''OPTIONS'' \<longrightarrow>
         (\<exists>response. fst (security_Handler config x s) = Inl response \<and> rp_Status response = 204))"
proof -
  let ?origin = "rq_Header (ex_Request x) ''Origin''"
  have untouched: "setSecurityHeaders config (ex_Headers x) ''Access-Control-Allow-Origin'' = None"
    using assms by (subst setSecurityHeaders_other) simp_all
  have allowed: "isOriginAllowed config ?origin \<longleftrightarrow> (\<exists>entry \<in> set (se_AllowedOrigins config). entry = ''*'' \<or>
      entry = ?origin \<or> (\<exists>domain sub. entry = ''*.'' @ domain \<and> ?origin = sub @ ''.'' @ domain))"
    by (auto simp: isOriginAllowed_def list_ex_iff origin_matches_iff)
  show ?thesis
    unfolding Let_def allowed [symmetric]
    by (simp add: security_Handler_def handleCORS_def http_Error_def untouched Let_def)
qed

lemma cors_allows_only_witness:
  "(case fst (security_Handler (DefaultSecurityConfig\<lparr>se_AllowedOrigins := [''*.shop.example'']\<rparr>)
       \<lparr>ex_Request = \<lparr>rq_Method = ''GET'', rq_Host = [], rq_Path = [], rq_RawQuery = [], rq_Query = [],
          rq_Header = (\<lambda>h. if h = ''Origin'' then ''https://a.shop.example'' else []), rq_RemoteAddr = []\<rparr>,
        ex_Context = (), ex_Headers = Map.empty, ex_BodyLimit = None\<rparr> ()) of
     Inl response \<Rightarrow> rp_Headers response | Inr x' \<Rightarrow> ex_Headers x') ''Access-Control-Allow-Origin'' =
   Some ''https://a.shop.example''"
proof -
  define x :: "unit Exchange" where "x =
    \<lparr>ex_Request = \<lparr>rq_Method = ''GET'', rq_Host = [], rq_Path = [], rq_RawQuery = [], rq_Query = [],
       rq_Header = (\<lambda>h. if h = ''Origin'' then ''https://a.shop.example'' else []), rq_RemoteAddr = []\<rparr>,
     ex_Context = (), ex_Headers = Map.empty, ex_BodyLimit = None\<rparr>"
  have none: "ex_Headers x ''Access-Control-Allow-Origin'' = None" by (simp add: x_def)
  have origin: "rq_Header (ex_Request x) ''Origin'' = ''https://a.shop.example''" by (simp add: x_def)
  have "''*.shop.example'' = ''*.'' @ ''shop.example'' \<and> ''https://a.shop.example'' = ''https://a'' @ ''.'' @ ''shop.example''"
    by simp
  then have entry: "\<exists>entry \<in> set [''*.shop.example'']. entry = ''*'' \<or> entry = ''https://a.shop.example'' \<or>
      (\<exists>domain sub. entry = ''*.'' @ domain \<and> ''https://a.shop.example'' = sub @ ''.'' @ domain)"
    by (metis list.set_intros(1))
  have origins: "se_AllowedOrigins (DefaultSecurityConfig\<lparr>se_AllowedOrigins := [''*.shop.example'']\<rparr>) = [''*.shop.example'']"
    by simp
  have "''https://a.shop.example'' \<noteq> []" by simp
  with cors_allows_only [OF none, where config = "DefaultSecurityConfig\<lparr>se_AllowedOrigins := [''*.shop.example'']\<rparr>" and s = "()",
      unfolded Let_def origin origins] entry
  show ?thesis unfolding x_def [symmetric] by metis
qed

text \<open>
  With the wildcard among the origins and the default of credentials, every origin is allowed to
  read answers to requests with the credentials of the user.
\<close>

lemma wildcard_reflects_every_origin:
  assumes "''*'' \<in> set (se_AllowedOrigins config)" "se_AllowCredentials config" "rq_Header r ''Origin'' \<noteq> []"
  shows "snd (handleCORS config r h) ''Access-Control-Allow-Origin'' = Some (rq_Header r ''Origin'') \<and>
    snd (handleCORS config r h) ''Access-Control-Allow-Credentials'' = Some ''true''"
proof -
  have "isOriginAllowed config (rq_Header r ''Origin'')"
    using assms(1) by (auto simp: isOriginAllowed_def list_ex_iff origin_matches_iff)
  with assms show ?thesis by (simp add: handleCORS_def Let_def)
qed

text \<open>An IPv6 literal without a port loses its last group: the loopback address is never allowed.\<close>

lemma ipv6_host_cut: "before_last_colon ''[::1]'' = ''[:''"
  by code_simp

text \<open>
  \<open>itoa\<close> prints every 64-bit integer in decimal but the least one, whose negation wraps: it is
  printed as a minus sign alone.
\<close>

theorem itoa_decimal:
  "itoa n =
    (if sint n = - (2 ^ 63) then ''-''
     else if sint n < 0 then ''-'' @ decimal (nat (- sint n)) else decimal (nat (sint n)))"
proof (cases "sint n = - (2 ^ 63)")
  case True
  then have "sint n = sint (word_of_int (- (2 ^ 63)) :: int64)" by (subst sint64_of_int) simp_all
  then have n: "n = word_of_int (- (2 ^ 63))" by (simp only: sint64_inject)
  show ?thesis unfolding n
    by (simp add: itoa_def itoa_loop.simps)
next
  case False
  then have "sint (- n) = - sint n" using sint64_bounds(1) [of n] by (intro sint64_minus) linarith
  with False show ?thesis
    by (cases "n = 0") (auto simp: itoa_def Let_def itoa_loop_decimal decimal_0 linorder_neq_iff simp flip: sint64_inject)
qed

text \<open>
  What the filters refuse: a request passes a filter exactly when no part of any value of its query
  is in the language of a pattern.
\<close>

theorem filter_refuses_iff:
  "isl (fst (filter_Handler patterns x s)) \<longleftrightarrow>
    (\<exists>(name, values) \<in> set (rq_Query (ex_Request x)). \<exists>value \<in> set values. \<exists>pattern \<in> set patterns.
       \<exists>before part after. value = before @ part @ after \<and> part \<in> lang pattern)"
  by (auto simp: filter_Handler_def isSuspicious_def list_ex_iff MatchString_iff split_def; blast)

text \<open>Every query value with an apostrophe, such as a name, is refused by the first filter.\<close>

lemma apostrophe_refused:
  assumes "(name, values) \<in> set (rq_Query (ex_Request x))" "value \<in> set values" "CHR 0x27 \<in> set value"
  shows "isl (fst (SQLInjection_Handler x s))"
proof -
  obtain before after where "value = before @ [CHR 0x27] @ after"
    using assms(3) by (auto simp: in_set_conv_decomp)
  moreover have "[CHR 0x27] \<in> lang (alt_all [ci_word ''%27'', chr (CHR 0x27), ci_word ''--'', ci_word ''%23'', chr (CHR ''#'')])"
    unfolding lang_alt_all by (simp add: lang_chr)
  then have "[CHR 0x27] \<in> lang (hd sql_patterns)" by (simp only: sql_patterns_def list.sel)
  moreover have "hd sql_patterns \<in> set sql_patterns" by (simp add: sql_patterns_def)
  ultimately have "isSuspicious sql_patterns value"
    unfolding isSuspicious_def list_ex_iff MatchString_iff by blast
  with assms show ?thesis
    by (auto simp: SQLInjection_Handler_def filter_Handler_def list_ex_iff)
qed

end
