(* ===== verification/Go_Floats.thy ===== *)
theory Go_Floats
  imports Go_Prelude Complex_Main
begin

text \<open>
  Numbers of type float64, as rationals: what the sources do with them, without rounding.  Conversions to
  an integer drop the fraction; those of numbers outside the range of the integer type, for which Go
  promises nothing, are not modelled.
\<close>

definition trunc :: "rat \<Rightarrow> int" where
  "trunc x = (if x < 0 then \<lceil>x\<rceil> else \<lfloor>x\<rfloor>)"

text \<open>\<open>Duration.Seconds\<close>.\<close>

definition seconds :: "duration \<Rightarrow> rat" where
  "seconds d = of_int d / 10 ^ 9"

lemma trunc_mono:
  assumes "x \<le> y"
  shows "trunc x \<le> trunc y"
  using assms
proof (cases "x < 0 \<and> \<not> y < 0")
  case True
  then have "\<lceil>x\<rceil> \<le> 0" "0 \<le> \<lfloor>y\<rfloor>" by simp_all
  then have "\<lceil>x\<rceil> \<le> \<lfloor>y\<rfloor>" by (rule order_trans)
  with True show ?thesis by (simp add: trunc_def)
qed (auto simp: trunc_def intro: ceiling_mono floor_mono)

lemma trunc_of_int [simp]: "trunc (of_int k) = k"
  by (simp add: trunc_def)

lemma trunc_nonneg: "0 \<le> x \<Longrightarrow> 0 \<le> trunc x \<and> of_int (trunc x) \<le> x"
  by (simp add: trunc_def)

end
