(* ===== verification/RateLimit.thy ===== *)
theory RateLimit
  imports Http Go_Floats
begin

text \<open>
  The rate limiters of \<open>libs/middleware/ratelimit.go\<close>: token buckets per client, sliding windows per
  client, limits per endpoint, their clean-up and the decision of their HTTP middleware.

  The tokens of a bucket are float64 in the code and rationals here: the rounding of floating
  point is not modelled.  A map of pointers to buckets is a map of buckets, and a call of \<open>Allow\<close> is
  one step, as are the clean-ups: this is the code for calls that run one after the other with no
  clean-up in between their two locked sections.  The sections themselves, interleaved with those
  of other requests and with the clean-ups, are the steps of \<open>WindowRace\<close> and \<open>BucketRace\<close>, where a
  clean-up between them does break the bounds.
\<close>

section \<open>Requests\<close>

definition DefaultKeyFunc :: "Request \<Rightarrow> string" where
  "DefaultKeyFunc r =
     (if rq_Header r ''X-Forwarded-For'' \<noteq> [] then rq_Header r ''X-Forwarded-For''
      else if rq_Header r ''X-Real-IP'' \<noteq> [] then rq_Header r ''X-Real-IP''
      else rq_RemoteAddr r)"

section \<open>Token buckets\<close>

record RateLimitConfig =
  rc_RequestsPerSecond :: rat
  rc_BurstSize :: int64
  rc_CleanupInterval :: duration
  rc_KeyFunc :: "Request \<Rightarrow> string"

definition DefaultRateLimitConfig :: RateLimitConfig where
  "DefaultRateLimitConfig =
     \<lparr>rc_RequestsPerSecond = 10, rc_BurstSize = 20, rc_CleanupInterval = 60 * 10 ^ 9,
      rc_KeyFunc = DefaultKeyFunc\<rparr>"

record TokenBucket =
  tb_tokens :: rat
  tb_maxTokens :: rat
  tb_refillRate :: rat
  tb_lastRefill :: time

definition NewTokenBucket :: "time \<Rightarrow> rat \<Rightarrow> rat \<Rightarrow> TokenBucket" where
  "NewTokenBucket now maxTokens refillRate =
     \<lparr>tb_tokens = maxTokens, tb_maxTokens = maxTokens, tb_refillRate = refillRate, tb_lastRefill = now\<rparr>"

definition refill :: "time \<Rightarrow> TokenBucket \<Rightarrow> TokenBucket" where
  "refill now tb =
     (let elapsed = seconds (time_sub now (tb_lastRefill tb));
          tokens = tb_tokens tb + elapsed * tb_refillRate tb
      in tb\<lparr>tb_tokens := (if tb_maxTokens tb < tokens then tb_maxTokens tb else tokens), tb_lastRefill := now\<rparr>)"

definition tb_Allow :: "time \<Rightarrow> TokenBucket \<Rightarrow> bool \<times> TokenBucket" where
  "tb_Allow now tb =
     (let tb1 = refill now tb
      in if 1 \<le> tb_tokens tb1 then (True, tb1\<lparr>tb_tokens := tb_tokens tb1 - 1\<rparr>) else (False, tb1))"

definition Tokens :: "time \<Rightarrow> TokenBucket \<Rightarrow> rat \<times> TokenBucket" where
  "Tokens now tb = (let tb1 = refill now tb in (tb_tokens tb1, tb1))"

record RateLimiter =
  rl_config :: RateLimitConfig
  rl_buckets :: "string \<rightharpoonup> TokenBucket"

definition NewRateLimiter :: "RateLimitConfig option \<Rightarrow> RateLimiter" where
  "NewRateLimiter config =
     \<lparr>rl_config = (case config of None \<Rightarrow> DefaultRateLimitConfig | Some c \<Rightarrow> c), rl_buckets = Map.empty\<rparr>"

text \<open>
  \<open>Allow\<close>: the section under \<open>rl.mu\<close>, which finds or makes the bucket, and then \<open>bucket.Allow\<close> under
  \<open>bucket.mu\<close>, with nothing in between.  A new bucket reads the clock (\<open>now\<close>) before \<open>bucket.Allow\<close>
  does (\<open>now'\<close>).
\<close>

definition rl_Allow :: "time \<Rightarrow> time \<Rightarrow> string \<Rightarrow> RateLimiter \<Rightarrow> bool \<times> RateLimiter" where
  "rl_Allow now now' key rl =
     (let bucket = (case rl_buckets rl key of
            Some b \<Rightarrow> b
          | None \<Rightarrow> NewTokenBucket now (of_int (sint (rc_BurstSize (rl_config rl))))
                     (rc_RequestsPerSecond (rl_config rl)))
      in case tb_Allow now' bucket of
           (ok, bucket') \<Rightarrow> (ok, rl\<lparr>rl_buckets := (rl_buckets rl)(key \<mapsto> bucket')\<rparr>))"

text \<open>
  One tick of \<open>cleanup\<close>: a bucket that is full is deleted, any other is refilled by the call of
  \<open>Tokens\<close>.  \<open>now key\<close> is the instant that call reads.
\<close>

definition rl_cleanup :: "(string \<Rightarrow> time) \<Rightarrow> RateLimiter \<Rightarrow> RateLimiter" where
  "rl_cleanup now rl =
     rl\<lparr>rl_buckets := (\<lambda>key. case rl_buckets rl key of
          None \<Rightarrow> None
        | Some bucket \<Rightarrow>
            (case Tokens (now key) bucket of
               (tokens, bucket') \<Rightarrow> if tb_maxTokens bucket' \<le> tokens then None else Some bucket'))\<rparr>"

text \<open>
  The decision of the middleware: the request goes on to the next handler, or 429 is answered; with
  the rate limit headers set (the limit, what remains, and the seconds to retry after).
\<close>

record limit_headers =
  hd_Limit :: int
  hd_Remaining :: int
  hd_RetryAfter :: "int option"

datatype decision = PassOn "limit_headers option" | TooManyRequests "limit_headers option"

definition rl_Middleware :: "env \<Rightarrow> Request \<Rightarrow> RateLimiter \<Rightarrow> decision \<times> RateLimiter" where
  "rl_Middleware e r rl =
     (let key = rc_KeyFunc (rl_config rl) r
      in case rl_Allow (clock e 0) (clock e 1) key rl of
           (ok, rl1) \<Rightarrow>
             let bucket = the (rl_buckets rl1 key);
                 tokens = fst (Tokens (clock e 2) bucket);
                 rl2 = rl1\<lparr>rl_buckets := (rl_buckets rl1)(key \<mapsto> snd (Tokens (clock e 2) bucket))\<rparr>;
                 limit = sint (rc_BurstSize (rl_config rl))
             in if \<not> ok
                then (TooManyRequests (Some \<lparr>hd_Limit = limit, hd_Remaining = 0, hd_RetryAfter =
                        Some (trunc ((1 - tokens) / rc_RequestsPerSecond (rl_config rl)) + 1)\<rparr>), rl2)
                else (PassOn (Some \<lparr>hd_Limit = limit, hd_Remaining = trunc tokens, hd_RetryAfter = None\<rparr>), rl2))"

section \<open>Sliding windows\<close>

record SlidingWindowConfig =
  sc_WindowSize :: duration
  sc_MaxRequests :: int64
  sc_CleanupInterval :: duration
  sc_KeyFunc :: "Request \<Rightarrow> string"

definition DefaultSlidingWindowConfig :: SlidingWindowConfig where
  "DefaultSlidingWindowConfig =
     \<lparr>sc_WindowSize = 60 * 10 ^ 9, sc_MaxRequests = 60, sc_CleanupInterval = 300 * 10 ^ 9,
      sc_KeyFunc = DefaultKeyFunc\<rparr>"

record SlidingWindowLimiter =
  sw_config :: SlidingWindowConfig
  sw_windows :: "string \<rightharpoonup> time list"

definition NewSlidingWindowLimiter :: "SlidingWindowConfig option \<Rightarrow> SlidingWindowLimiter" where
  "NewSlidingWindowLimiter config =
     \<lparr>sw_config = (case config of None \<Rightarrow> DefaultSlidingWindowConfig | Some c \<Rightarrow> c), sw_windows = Map.empty\<rparr>"

text \<open>
  \<open>Allow\<close>: the section under \<open>sw.mu\<close>, which finds or makes the window, and then the count under
  \<open>window.mu\<close>, with nothing in between.
\<close>

definition sw_Allow :: "time \<Rightarrow> string \<Rightarrow> SlidingWindowLimiter \<Rightarrow> bool \<times> SlidingWindowLimiter" where
  "sw_Allow now key sw =
     (let window = (case sw_windows sw key of None \<Rightarrow> [] | Some requests \<Rightarrow> requests);
          cutoff = now - sc_WindowSize (sw_config sw);
          requests = filter (\<lambda>t. cutoff < t) window
      in if sint (sc_MaxRequests (sw_config sw)) \<le> int (length requests)
         then (False, sw\<lparr>sw_windows := (sw_windows sw)(key \<mapsto> requests)\<rparr>)
         else (True, sw\<lparr>sw_windows := (sw_windows sw)(key \<mapsto> requests @ [now])\<rparr>))"

text \<open>\<open>-WindowSize * 2\<close> is computed in 64 bits: it wraps for windows of \<open>2 ^ 62\<close> nanoseconds and more.\<close>

definition two_windows_back :: "duration \<Rightarrow> duration" where
  "two_windows_back d = sint (- (word_of_int d :: int64) * 2)"

definition sw_cleanup :: "time \<Rightarrow> SlidingWindowLimiter \<Rightarrow> SlidingWindowLimiter" where
  "sw_cleanup now sw =
     (let cutoff = now + two_windows_back (sc_WindowSize (sw_config sw))
      in sw\<lparr>sw_windows := (\<lambda>key. case sw_windows sw key of
              None \<Rightarrow> None
            | Some requests \<Rightarrow>
                if requests = [] then None else if last requests < cutoff then None else Some requests)\<rparr>)"

definition sw_Middleware :: "time \<Rightarrow> Request \<Rightarrow> SlidingWindowLimiter \<Rightarrow> decision \<times> SlidingWindowLimiter" where
  "sw_Middleware now r sw =
     (let key = sc_KeyFunc (sw_config sw) r; limit = sint (sc_MaxRequests (sw_config sw))
      in case sw_Allow now key sw of
           (ok, sw1) \<Rightarrow>
             if \<not> ok
             then (TooManyRequests (Some \<lparr>hd_Limit = limit, hd_Remaining = 0, hd_RetryAfter = None\<rparr>), sw1)
             else (PassOn (map_option (\<lambda>window. \<lparr>hd_Limit = limit,
                      hd_Remaining = limit - int (length window), hd_RetryAfter = None\<rparr>)
                      (sw_windows sw1 key)), sw1))"

section \<open>Limits per endpoint\<close>

record EndpointRateLimiter =
  el_defaultLimiter :: RateLimiter
  el_endpointLimits :: "string \<rightharpoonup> RateLimiter"

definition NewEndpointRateLimiter :: "RateLimitConfig option \<Rightarrow> EndpointRateLimiter" where
  "NewEndpointRateLimiter defaultConfig =
     \<lparr>el_defaultLimiter = NewRateLimiter defaultConfig, el_endpointLimits = Map.empty\<rparr>"

definition SetEndpointLimit ::
  "string \<Rightarrow> RateLimitConfig option \<Rightarrow> EndpointRateLimiter \<Rightarrow> EndpointRateLimiter" where
  "SetEndpointLimit endpoint config el =
     el\<lparr>el_endpointLimits := (el_endpointLimits el)(endpoint \<mapsto> NewRateLimiter config)\<rparr>"

definition el_Middleware :: "env \<Rightarrow> Request \<Rightarrow> EndpointRateLimiter \<Rightarrow> decision \<times> EndpointRateLimiter" where
  "el_Middleware e r el =
     (case el_endpointLimits el (rq_Path r) of
        Some limiter \<Rightarrow>
          (case rl_Allow (clock e 0) (clock e 1) (rc_KeyFunc (rl_config limiter) r) limiter of
             (ok, limiter') \<Rightarrow>
               (if ok then PassOn None else TooManyRequests None,
                el\<lparr>el_endpointLimits := (el_endpointLimits el)(rq_Path r \<mapsto> limiter')\<rparr>))
      | None \<Rightarrow>
          (case rl_Allow (clock e 0) (clock e 1) (rc_KeyFunc (rl_config (el_defaultLimiter el)) r)
                  (el_defaultLimiter el) of
             (ok, limiter') \<Rightarrow>
               (if ok then PassOn None else TooManyRequests None, el\<lparr>el_defaultLimiter := limiter'\<rparr>)))"

section \<open>The sliding window against its log\<close>

text \<open>
  The events of a limiter, and its state with two ghosts: the instant of the last event and the
  log of the accepted requests, each with its key.
\<close>

datatype sw_event = SwAllow time string | SwCleanup time

primrec event_time :: "sw_event \<Rightarrow> time" where
  "event_time (SwAllow now key) = now"
| "event_time (SwCleanup now) = now"

record sw_run_state =
  sr_now :: time
  sr_log :: "(string \<times> time) list"
  sr_limiter :: SlidingWindowLimiter

primrec sw_step :: "sw_event \<Rightarrow> sw_run_state \<Rightarrow> sw_run_state" where
  "sw_step (SwAllow now key) s =
     (case sw_Allow now key (sr_limiter s) of
        (ok, sw) \<Rightarrow> \<lparr>sr_now = now, sr_log = (if ok then sr_log s @ [(key, now)] else sr_log s), sr_limiter = sw\<rparr>)"
| "sw_step (SwCleanup now) s = s\<lparr>sr_now := now, sr_limiter := sw_cleanup now (sr_limiter s)\<rparr>"

definition accepted_times :: "string \<Rightarrow> (string \<times> time) list \<Rightarrow> time list" where
  "accepted_times key l = map snd (filter (\<lambda>x. fst x = key) l)"

definition window_of :: "string \<Rightarrow> SlidingWindowLimiter \<Rightarrow> time list" where
  "window_of key sw = (case sw_windows sw key of None \<Rightarrow> [] | Some requests \<Rightarrow> requests)"

definition recent :: "time \<Rightarrow> duration \<Rightarrow> time list \<Rightarrow> time list" where
  "recent now W ts = filter (\<lambda>t. now - W < t) ts"

definition in_window :: "time \<Rightarrow> duration \<Rightarrow> time list \<Rightarrow> nat" where
  "in_window t W ts = length (filter (\<lambda>x. t - W < x \<and> x \<le> t) ts)"

lemma recent_append: "recent now W (xs @ ys) = recent now W xs @ recent now W ys"
  by (simp add: recent_def)

lemma recent_recent: "t \<le> now \<Longrightarrow> recent now W (recent t W xs) = recent now W xs"
  by (auto simp: recent_def intro!: filter_cong)

lemma recent_cong: "recent t W xs = recent t W ys \<Longrightarrow> t \<le> now \<Longrightarrow> recent now W xs = recent now W ys"
  by (metis recent_recent)

lemma recent_old: "\<forall>t \<in> set ts. t \<le> now - W \<Longrightarrow> recent now W ts = []"
  by (auto simp: recent_def filter_empty_conv)

lemma in_window_recent: "now \<le> t \<Longrightarrow> in_window t W ts \<le> length (recent now W ts)"
  unfolding in_window_def recent_def by (induction ts) auto

text \<open>
  The windows are the recent part of the log, in order, and no window of time has more accepted
  requests than the limit.
\<close>

definition sw_inv :: "SlidingWindowConfig \<Rightarrow> sw_run_state \<Rightarrow> bool" where
  "sw_inv c s \<longleftrightarrow>
     sw_config (sr_limiter s) = c \<and>
     (\<forall>key. recent (sr_now s) (sc_WindowSize c) (window_of key (sr_limiter s)) =
        recent (sr_now s) (sc_WindowSize c) (accepted_times key (sr_log s))) \<and>
     (\<forall>key. sorted (window_of key (sr_limiter s)) \<and>
        (\<forall>t \<in> set (window_of key (sr_limiter s)). t \<le> sr_now s)) \<and>
     (\<forall>key. \<forall>t \<in> set (accepted_times key (sr_log s)). t \<le> sr_now s) \<and>
     (\<forall>key t. int (in_window t (sc_WindowSize c) (accepted_times key (sr_log s))) \<le>
        max 0 (sint (sc_MaxRequests c)))"

text \<open>The answer of the limiter is the count of the log.\<close>

lemma sw_Allow_exact:
  assumes "sw_inv c s" "sr_now s \<le> now"
  shows "sw_Allow now key (sr_limiter s) =
    (let requests = recent now (sc_WindowSize c) (accepted_times key (sr_log s));
         ok = int (length requests) < sint (sc_MaxRequests c)
     in (ok, (sr_limiter s)\<lparr>sw_windows := (sw_windows (sr_limiter s))
           (key \<mapsto> (if ok then requests @ [now] else requests))\<rparr>))"
proof -
  have c: "sw_config (sr_limiter s) = c"
    and same: "recent (sr_now s) (sc_WindowSize c) (window_of key (sr_limiter s)) =
      recent (sr_now s) (sc_WindowSize c) (accepted_times key (sr_log s))"
    using assms(1) by (simp_all add: sw_inv_def)
  have "filter (\<lambda>t. now - sc_WindowSize c < t) (window_of key (sr_limiter s)) =
      recent now (sc_WindowSize c) (accepted_times key (sr_log s))"
    using recent_cong [OF same assms(2)] by (simp add: recent_def)
  then show ?thesis
    by (simp add: sw_Allow_def Let_def c window_of_def not_le)
qed

lemma accepted_times_append:
  "accepted_times key (l @ [(key', t)]) = accepted_times key l @ (if key' = key then [t] else [])"
  by (simp add: accepted_times_def)

lemma sw_inv_new: "sw_inv (sw_config (NewSlidingWindowLimiter config))
    \<lparr>sr_now = t, sr_log = [], sr_limiter = NewSlidingWindowLimiter config\<rparr>"
  by (simp add: sw_inv_def NewSlidingWindowLimiter_def window_of_def accepted_times_def in_window_def)

lemma window_of_upd:
  "window_of k (sw\<lparr>sw_windows := (sw_windows sw)(key \<mapsto> ts)\<rparr>) = (if k = key then ts else window_of k sw)"
  by (simp add: window_of_def)

lemma sw_inv_allow:
  assumes inv: "sw_inv c s" and time: "sr_now s \<le> now" and W: "0 < sc_WindowSize c"
  shows "sw_inv c (sw_step (SwAllow now key) s)"
proof -
  let ?W = "sc_WindowSize c" and ?M = "sint (sc_MaxRequests c)"
  define requests where "requests = recent now ?W (accepted_times key (sr_log s))"
  define ok where "ok \<longleftrightarrow> int (length requests) < ?M"
  let ?window = "if ok then requests @ [now] else requests"
  let ?sw = "(sr_limiter s)\<lparr>sw_windows := (sw_windows (sr_limiter s))(key \<mapsto> ?window)\<rparr>"
  let ?log = "if ok then sr_log s @ [(key, now)] else sr_log s"
  have step: "sw_step (SwAllow now key) s = \<lparr>sr_now = now, sr_log = ?log, sr_limiter = ?sw\<rparr>"
    using sw_Allow_exact [OF inv time, of key] by (simp add: requests_def ok_def Let_def)
  have c: "sw_config (sr_limiter s) = c"
    and same: "\<And>k. recent (sr_now s) ?W (window_of k (sr_limiter s)) = recent (sr_now s) ?W (accepted_times k (sr_log s))"
    and sorted_window: "\<And>k. sorted (window_of k (sr_limiter s))"
    and past: "\<And>k t. t \<in> set (window_of k (sr_limiter s)) \<Longrightarrow> t \<le> sr_now s"
      "\<And>k t. t \<in> set (accepted_times k (sr_log s)) \<Longrightarrow> t \<le> sr_now s"
    and bound: "\<And>k t. int (in_window t ?W (accepted_times k (sr_log s))) \<le> max 0 ?M"
    using inv by (simp_all add: sw_inv_def)
  have log: "accepted_times k ?log = accepted_times k (sr_log s) @ (if ok \<and> k = key then [now] else [])" for k
    by (auto simp: accepted_times_append)
  have requests: "requests = recent now ?W (window_of key (sr_limiter s))"
    using recent_cong [OF same time] by (simp add: requests_def)
  then have "sorted requests" using sorted_window by (simp add: recent_def sorted_filter [where f = id, simplified])
  moreover have requests_past: "t \<le> now" if "t \<in> set requests" for t
    using that past(2) time by (fastforce simp: requests_def recent_def)
  ultimately have "sorted ?window" by (auto simp: sorted_append)
  have "recent now ?W (window_of k ?sw) = recent now ?W (accepted_times k ?log)" for k
  proof (cases "k = key")
    case True
    then show ?thesis using W
      by (simp add: window_of_upd log recent_append requests_def recent_recent) (simp add: recent_def)
  next
    case False
    then show ?thesis using recent_cong [OF same time] by (simp add: window_of_upd log)
  qed
  moreover have "int (in_window t ?W (accepted_times k ?log)) \<le> max 0 ?M" for k t
  proof (cases "ok \<and> k = key \<and> now \<le> t")
    case True
    then have "in_window t ?W (accepted_times key (sr_log s)) \<le> length requests"
      using in_window_recent by (simp add: requests_def)
    with True show ?thesis by (simp add: accepted_times_append in_window_def ok_def)
  next
    case False
    then show ?thesis using bound [of t k] by (auto simp: log in_window_def)
  qed
  moreover have "t \<le> now" if "t \<in> set (window_of k ?sw)" for k t
    using that past(1) [of t k] time requests_past by (auto simp: window_of_upd split: if_splits)
  moreover have "t \<le> now" if "t \<in> set (accepted_times k ?log)" for k t
    using that past(2) [of t k] time unfolding log by (auto split: if_splits)
  moreover have "sorted (window_of k ?sw)" for k
    unfolding window_of_upd using sorted_window [of k] \<open>sorted ?window\<close>
    by (cases "k = key") (simp_all only: if_True if_False simp_thms)
  ultimately show ?thesis unfolding step sw_inv_def using c by simp
qed

lemma two_windows_back_exact:
  assumes "0 < d" "d < 2 ^ 62"
  shows "two_windows_back d = - (d * 2)"
proof -
  have "- (word_of_int d :: int64) * 2 = word_of_int (- (d * 2))" by simp
  moreover have "sint (word_of_int (- (d * 2)) :: int64) = - (d * 2)"
    using assms by (intro sint64_of_int) simp_all
  ultimately show ?thesis by (simp only: two_windows_back_def)
qed

text \<open>The windows whose clean-up does not wrap.\<close>

definition window_size_ok :: "SlidingWindowConfig \<Rightarrow> bool" where
  "window_size_ok c \<longleftrightarrow> 0 < sc_WindowSize c \<and> sc_WindowSize c < 2 ^ 62"

lemma window_size_ok_back: "window_size_ok c \<Longrightarrow> two_windows_back (sc_WindowSize c) = - (sc_WindowSize c * 2)"
  by (simp add: window_size_ok_def two_windows_back_exact)

lemma sw_inv_cleanup:
  assumes inv: "sw_inv c s" and time: "sr_now s \<le> now" and size: "window_size_ok c"
  shows "sw_inv c (sw_step (SwCleanup now) s)"
proof -
  let ?W = "sc_WindowSize c"
  have W: "0 < ?W" using size by (simp add: window_size_ok_def)
  have c: "sw_config (sr_limiter s) = c"
    and same: "\<And>k. recent (sr_now s) ?W (window_of k (sr_limiter s)) = recent (sr_now s) ?W (accepted_times k (sr_log s))"
    and sorted_window: "\<And>k. sorted (window_of k (sr_limiter s))"
    and past: "\<And>k t. t \<in> set (window_of k (sr_limiter s)) \<Longrightarrow> t \<le> sr_now s"
      "\<And>k t. t \<in> set (accepted_times k (sr_log s)) \<Longrightarrow> t \<le> sr_now s"
    using inv by (simp_all add: sw_inv_def)
  let ?old = "\<lambda>k. window_of k (sr_limiter s)" and ?new = "\<lambda>k. window_of k (sw_cleanup now (sr_limiter s))"
  have cases: "?new k = ?old k \<or> ?new k = [] \<and> (\<forall>t \<in> set (?old k). t < now - ?W * 2)" for k
  proof (cases "sw_windows (sr_limiter s) k")
    case None
    then show ?thesis by (simp add: window_of_def sw_cleanup_def)
  next
    case (Some ts)
    have "\<forall>t \<in> set ts. t \<le> last ts" if "ts \<noteq> []"
      using sorted_window [of k] that Some
      by (cases ts rule: rev_cases) (auto simp: window_of_def sorted_append)
    then show ?thesis using Some
      by (auto simp: window_of_def sw_cleanup_def Let_def c window_size_ok_back [OF size] intro: le_less_trans)
  qed
  have "recent now ?W (?new k) = recent now ?W (accepted_times k (sr_log s))" for k
  proof -
    have "recent now ?W (?old k) = recent now ?W (accepted_times k (sr_log s))"
      using recent_cong [OF same time] .
    moreover have "recent now ?W (?old k) = []" if "\<forall>t \<in> set (?old k). t < now - ?W * 2"
      using that W by (intro recent_old) auto
    ultimately show ?thesis using cases [of k] by (auto simp: recent_def)
  qed
  moreover have "sorted (?new k) \<and> (\<forall>t \<in> set (?new k). t \<le> now)" for k
    using cases [of k] sorted_window [of k] past(1) [of _ k] time by force
  moreover have "sw_config (sw_cleanup now (sr_limiter s)) = c" by (simp add: sw_cleanup_def Let_def c)
  ultimately show ?thesis
    using inv past(2) time unfolding sw_inv_def by force
qed

interpretation sliding: invariant_machine sw_step "\<lambda>s ev. sr_now s \<le> event_time ev \<and> window_size_ok c" "sw_inv c"
  for c
proof
  fix s ev assume "sw_inv c s" "sr_now s \<le> event_time ev \<and> window_size_ok c"
  then show "sw_inv c (sw_step ev s)"
    by (cases ev) (simp_all add: sw_inv_allow sw_inv_cleanup window_size_ok_def del: sw_step.simps)
qed

section \<open>The token bucket against what is available\<close>

text \<open>
  The tokens a key would find at an instant: those of its bucket after a refill, or a full bucket
  when it has none.
\<close>

definition burst :: "RateLimiter \<Rightarrow> rat" where
  "burst rl = of_int (sint (rc_BurstSize (rl_config rl)))"

lemma burst_buckets [simp]: "burst (rl\<lparr>rl_buckets := m\<rparr>) = burst rl"
  by (simp add: burst_def)

definition available :: "time \<Rightarrow> string \<Rightarrow> RateLimiter \<Rightarrow> rat" where
  "available now key rl =
     (case rl_buckets rl key of None \<Rightarrow> burst rl | Some tb \<Rightarrow> tb_tokens (refill now tb))"

text \<open>Buckets are made for the configuration and were not refilled later than \<open>t\<close>.\<close>

definition rl_inv :: "RateLimitConfig \<Rightarrow> time \<Rightarrow> RateLimiter \<Rightarrow> bool" where
  "rl_inv c t rl \<longleftrightarrow>
     rl_config rl = c \<and>
     (\<forall>key tb. rl_buckets rl key = Some tb \<longrightarrow> tb_maxTokens tb = burst rl \<and>
        tb_refillRate tb = rc_RequestsPerSecond c \<and> tb_lastRefill tb \<le> t \<and> 0 \<le> tb_tokens tb)"

lemma refill_fields [simp]:
  "tb_maxTokens (refill now tb) = tb_maxTokens tb" "tb_refillRate (refill now tb) = tb_refillRate tb"
  "tb_lastRefill (refill now tb) = now"
  by (simp_all add: refill_def Let_def)

lemma refill_tokens:
  "tb_tokens (refill now tb) =
    min (tb_maxTokens tb) (tb_tokens tb + seconds (time_sub now (tb_lastRefill tb)) * tb_refillRate tb)"
  by (simp add: refill_def Let_def min_def not_less)

lemma time_sub_le: "u \<le> t \<Longrightarrow> 0 \<le> time_sub t u \<and> time_sub t u \<le> t - u"
  by (auto simp: time_sub_def min_duration_def max_duration_def)

lemma seconds_mono: "d \<le> e \<Longrightarrow> seconds d \<le> seconds e"
  by (simp add: seconds_def divide_right_mono)

lemma refill_twice:
  assumes "tb_lastRefill tb \<le> t" "t \<le> u" "0 \<le> tb_refillRate tb"
  shows "tb_tokens (refill u tb) \<le> tb_tokens (refill t tb) + seconds (u - t) * tb_refillRate tb"
proof -
  have "time_sub u (tb_lastRefill tb) \<le> time_sub t (tb_lastRefill tb) + (u - t)"
    using assms(1,2) by (auto simp: time_sub_def min_duration_def max_duration_def)
  then have "seconds (time_sub u (tb_lastRefill tb)) \<le> seconds (time_sub t (tb_lastRefill tb)) + seconds (u - t)"
    by (simp add: seconds_def divide_right_mono flip: add_divide_distrib of_int_add)
  from mult_right_mono [OF this assms(3)]
  have "seconds (time_sub u (tb_lastRefill tb)) * tb_refillRate tb \<le>
      seconds (time_sub t (tb_lastRefill tb)) * tb_refillRate tb + seconds (u - t) * tb_refillRate tb"
    by (simp add: distrib_right)
  moreover have "0 \<le> seconds (u - t) * tb_refillRate tb"
    using assms by (simp add: seconds_def)
  ultimately show ?thesis by (auto simp: refill_tokens min_def)
qed

lemma refill_now: "tb_tokens tb \<le> tb_maxTokens tb \<Longrightarrow> tb_lastRefill tb = now \<Longrightarrow> tb_tokens (refill now tb) = tb_tokens tb"
  by (simp add: refill_tokens time_sub_def min_duration_def max_duration_def seconds_def)

text \<open>The events of a limiter, with the accepted requests of each key as a ghost.\<close>

datatype rl_event = RlAllow time time string | RlCleanup "string \<Rightarrow> time" time

record rl_run_state =
  rs_now :: time
  rs_accepted :: "string \<Rightarrow> nat"
  rs_limiter :: RateLimiter

primrec rl_step :: "rl_event \<Rightarrow> rl_run_state \<Rightarrow> rl_run_state" where
  "rl_step (RlAllow now now' key) s =
     (case rl_Allow now now' key (rs_limiter s) of
        (ok, rl) \<Rightarrow> \<lparr>rs_now = now', rs_accepted = (if ok then (rs_accepted s)(key := rs_accepted s key + 1)
                      else rs_accepted s), rs_limiter = rl\<rparr>)"
| "rl_step (RlCleanup instants fin) s = s\<lparr>rs_now := fin, rs_limiter := rl_cleanup instants (rs_limiter s)\<rparr>"

primrec rl_in_order :: "rl_run_state \<Rightarrow> rl_event \<Rightarrow> bool" where
  "rl_in_order s (RlAllow now now' key) \<longleftrightarrow> rs_now s \<le> now \<and> now \<le> now'"
| "rl_in_order s (RlCleanup instants fin) \<longleftrightarrow> (\<forall>key. rs_now s \<le> instants key \<and> instants key \<le> fin)"

definition rl_ok :: "RateLimitConfig \<Rightarrow> rl_run_state \<Rightarrow> bool" where
  "rl_ok c s \<longleftrightarrow> rl_inv c (rs_now s) (rs_limiter s) \<and> 0 \<le> rc_RequestsPerSecond c \<and> 0 \<le> sint (rc_BurstSize c)"

lemma burst_nonneg: "rl_ok c s \<Longrightarrow> 0 \<le> burst (rs_limiter s)"
  unfolding rl_ok_def rl_inv_def burst_def by (simp only: of_int_0_le_iff)

lemma available_bounds:
  assumes "rl_ok c s" "rs_now s \<le> t"
  shows "0 \<le> available t key (rs_limiter s)" "available t key (rs_limiter s) \<le> burst (rs_limiter s)"
    and available_later: "t \<le> u \<Longrightarrow> available u key (rs_limiter s) \<le>
      available t key (rs_limiter s) + seconds (u - t) * rc_RequestsPerSecond c"
proof -
  have rate: "0 \<le> rc_RequestsPerSecond c" and burst: "0 \<le> burst (rs_limiter s)"
    and tb: "\<And>tb. rl_buckets (rs_limiter s) key = Some tb \<Longrightarrow> tb_maxTokens tb = burst (rs_limiter s) \<and>
        tb_refillRate tb = rc_RequestsPerSecond c \<and> tb_lastRefill tb \<le> rs_now s \<and> 0 \<le> tb_tokens tb"
    using assms(1) burst_nonneg [OF assms(1)] by (auto simp: rl_ok_def rl_inv_def)
  show "available t key (rs_limiter s) \<le> burst (rs_limiter s)"
    using tb by (auto simp: available_def refill_tokens split: option.split)
  show "0 \<le> available t key (rs_limiter s)"
  proof (cases "rl_buckets (rs_limiter s) key")
    case (Some b)
    then have "0 \<le> seconds (time_sub t (tb_lastRefill b)) * tb_refillRate b"
      using tb assms(2) rate time_sub_le [of "tb_lastRefill b" t] by (auto simp: seconds_def)
    with Some tb burst show ?thesis by (simp add: available_def refill_tokens)
  qed (use burst in \<open>simp add: available_def\<close>)
  show "available u key (rs_limiter s) \<le>
      available t key (rs_limiter s) + seconds (u - t) * rc_RequestsPerSecond c" if "t \<le> u"
  proof (cases "rl_buckets (rs_limiter s) key")
    case None
    then show ?thesis using that rate by (simp add: available_def seconds_def)
  next
    case (Some b)
    with tb [of b] assms(2) rate that refill_twice [of b t u] show ?thesis
      by (simp add: available_def)
  qed
qed

text \<open>A request takes one token when there is one, and leaves other keys alone.\<close>

lemma rl_Allow_available:
  assumes "rl_ok c s" "rs_now s \<le> now" "now \<le> now'"
  shows "fst (rl_Allow now now' key (rs_limiter s)) \<longleftrightarrow> 1 \<le> available now' key (rs_limiter s)"
    and "available now' key (snd (rl_Allow now now' key (rs_limiter s))) =
      available now' key (rs_limiter s) - (if 1 \<le> available now' key (rs_limiter s) then 1 else 0)"
    and "k \<noteq> key \<Longrightarrow> available t k (snd (rl_Allow now now' key (rs_limiter s))) = available t k (rs_limiter s)"
    and "rl_inv c now' (snd (rl_Allow now now' key (rs_limiter s)))"
proof -
  let ?rl = "rs_limiter s"
  define b where "b = (case rl_buckets ?rl key of Some b \<Rightarrow> b | None \<Rightarrow>
    NewTokenBucket now (burst ?rl) (rc_RequestsPerSecond c))"
  have c: "rl_config ?rl = c" "0 \<le> rc_RequestsPerSecond c" "0 \<le> burst ?rl"
    using assms(1) burst_nonneg [OF assms(1)] by (simp_all add: rl_ok_def rl_inv_def)
  have b: "tb_maxTokens b = burst ?rl" "tb_refillRate b = rc_RequestsPerSecond c"
    using assms(1) by (auto simp: b_def rl_ok_def rl_inv_def NewTokenBucket_def split: option.split)
  have tokens: "tb_tokens (refill now' b) = available now' key ?rl"
  proof (cases "rl_buckets ?rl key")
    case None
    have "0 \<le> seconds (time_sub now' now) * rc_RequestsPerSecond c"
      using time_sub_le [OF assms(3)] c(2) by (simp add: seconds_def)
    with None show ?thesis by (simp add: available_def b_def NewTokenBucket_def refill_tokens)
  qed (simp add: available_def b_def)
  let ?x = "available now' key ?rl"
  let ?b = "(refill now' b)\<lparr>tb_tokens := ?x - (if 1 \<le> ?x then 1 else 0)\<rparr>"
  have allow: "rl_Allow now now' key ?rl = (1 \<le> ?x, ?rl\<lparr>rl_buckets := (rl_buckets ?rl)(key \<mapsto> ?b)\<rparr>)"
  proof -
    have "rl_Allow now now' key ?rl = (case tb_Allow now' b of
        (ok, bucket') \<Rightarrow> (ok, ?rl\<lparr>rl_buckets := (rl_buckets ?rl)(key \<mapsto> bucket')\<rparr>))"
      unfolding rl_Allow_def Let_def b_def burst_def c(1) by (rule refl)
    moreover have same: "(refill now' b)\<lparr>tb_tokens := ?x\<rparr> = refill now' b"
      using tokens by (cases "refill now' b") simp
    ultimately show ?thesis using tokens by (simp add: tb_Allow_def Let_def same)
  qed
  have x: "?x \<le> burst ?rl" "0 \<le> ?x" using available_bounds [OF assms(1)] assms(2,3) by simp_all
  show "fst (rl_Allow now now' key ?rl) \<longleftrightarrow> 1 \<le> ?x" by (simp add: allow)
  show "available now' key (snd (rl_Allow now now' key ?rl)) = ?x - (if 1 \<le> ?x then 1 else 0)"
    unfolding allow using refill_now [of ?b now'] x(1) b by (simp add: available_def)
  show "k \<noteq> key \<Longrightarrow> available t k (snd (rl_Allow now now' key ?rl)) = available t k ?rl"
    by (simp add: allow available_def cong: option.case_cong)
  show "rl_inv c now' (snd (rl_Allow now now' key ?rl))"
  proof -
    have "tb_maxTokens tb = burst ?rl \<and> tb_refillRate tb = rc_RequestsPerSecond c \<and>
        tb_lastRefill tb \<le> now' \<and> 0 \<le> tb_tokens tb" if "rl_buckets ?rl k = Some tb" for k tb
      using assms that by (force simp: rl_ok_def rl_inv_def)
    then show ?thesis using c(1) b x(2) by (auto simp: allow rl_inv_def)
  qed
qed

text \<open>A clean-up changes nothing that a key would find.\<close>

lemma rl_cleanup_available:
  assumes "rl_ok c s" "\<And>k. rs_now s \<le> instants k" "\<And>k. instants k \<le> fin"
  shows "available (instants key) key (rl_cleanup instants (rs_limiter s)) =
      available (instants key) key (rs_limiter s)"
    and "rl_inv c fin (rl_cleanup instants (rs_limiter s))"
proof -
  let ?rl = "rs_limiter s"
  have tb: "rl_buckets ?rl k = Some b \<Longrightarrow> tb_maxTokens b = burst ?rl \<and>
      tb_refillRate b = rc_RequestsPerSecond c \<and> tb_lastRefill b \<le> rs_now s \<and> 0 \<le> tb_tokens b" for k b
    using assms(1) by (auto simp: rl_ok_def rl_inv_def)
  have c: "rl_config ?rl = c" using assms(1) by (simp add: rl_ok_def rl_inv_def)
  have same_burst: "burst (rl_cleanup instants ?rl) = burst ?rl" by (simp add: burst_def rl_cleanup_def)
  have full: "tb_tokens (refill t b) \<le> tb_maxTokens b" for t b by (simp add: refill_tokens)
  show "available (instants key) key (rl_cleanup instants ?rl) = available (instants key) key ?rl"
  proof (cases "rl_buckets ?rl key")
    case None
    then have "rl_buckets (rl_cleanup instants ?rl) key = None" by (simp add: rl_cleanup_def)
    with None show ?thesis by (simp add: available_def same_burst)
  next
    case (Some b)
    let ?b = "refill (instants key) b"
    have "rl_buckets (rl_cleanup instants ?rl) key =
        (if tb_maxTokens b \<le> tb_tokens ?b then None else Some ?b)"
      using Some by (simp add: rl_cleanup_def Tokens_def Let_def)
    with Some tb [OF Some] full [of "instants key" b] refill_now [of ?b "instants key"] show ?thesis
      by (auto simp: available_def same_burst)
  qed
  show "rl_inv c fin (rl_cleanup instants ?rl)"
    unfolding rl_inv_def
  proof (intro conjI allI impI)
    show "rl_config (rl_cleanup instants ?rl) = c" by (simp add: rl_cleanup_def c)
    fix k b' assume "rl_buckets (rl_cleanup instants ?rl) k = Some b'"
    then obtain b where b: "rl_buckets ?rl k = Some b" "b' = refill (instants k) b"
      by (auto simp: rl_cleanup_def Tokens_def Let_def split: option.splits if_splits)
    have "available (instants k) k ?rl = tb_tokens b'" using b by (simp add: available_def)
    with available_bounds(1) [OF assms(1,2)] have "0 \<le> tb_tokens b'" by metis
    then show "tb_maxTokens b' = burst (rl_cleanup instants ?rl)"
      "tb_refillRate b' = rc_RequestsPerSecond c" "tb_lastRefill b' \<le> fin" "0 \<le> tb_tokens b'"
      using tb [OF b(1)] b(2) assms(3) same_burst by simp_all
  qed
qed

text \<open>
  The potential of a key: what it has been given plus what it would find grows no faster than the
  refill rate.
\<close>

lemma rl_step_potential:
  assumes "rl_ok c s" "rl_in_order s ev"
  shows "rl_ok c (rl_step ev s) \<and> rs_now s \<le> rs_now (rl_step ev s) \<and>
    of_nat (rs_accepted (rl_step ev s) key) + available (rs_now (rl_step ev s)) key (rs_limiter (rl_step ev s)) \<le>
    of_nat (rs_accepted s key) + available (rs_now s) key (rs_limiter s) +
      seconds (rs_now (rl_step ev s) - rs_now s) * rc_RequestsPerSecond c"
proof (cases ev)
  case (RlAllow now now' k)
  with assms(2) have times: "rs_now s \<le> now" "now \<le> now'" by simp_all
  note allow = rl_Allow_available [OF assms(1) times, of k]
  have later: "available now' key (rs_limiter s) \<le> available (rs_now s) key (rs_limiter s) +
      seconds (now' - rs_now s) * rc_RequestsPerSecond c"
    using times by (intro available_later [OF assms(1)]) simp_all
  obtain ok rl where call: "rl_Allow now now' k (rs_limiter s) = (ok, rl)" by fastforce
  have "of_nat (if ok \<and> k = key then 1 else 0) + available now' key rl = available now' key (rs_limiter s)"
    using allow(1,2) rl_Allow_available(3) [OF assms(1) times, of key k now'] call by (cases "k = key") auto
  then show ?thesis
    using allow(4) assms(1) times later call RlAllow by (auto simp: rl_ok_def)
next
  case (RlCleanup instants fin)
  with assms(2) have times: "\<And>k. rs_now s \<le> instants k" "\<And>k. instants k \<le> fin" by simp_all
  let ?rl = "rl_cleanup instants (rs_limiter s)"
  let ?s = "s\<lparr>rs_now := fin, rs_limiter := ?rl\<rparr>" and ?i = "instants key"
  note clean = rl_cleanup_available [OF assms(1) times]
  have rate: "0 \<le> rc_RequestsPerSecond c" using assms(1) by (simp add: rl_ok_def)
  have inv: "rl_ok c ?s" using clean(2) assms(1) by (simp add: rl_ok_def)
  have "available fin key ?rl \<le> available ?i key ?rl + seconds (fin - ?i) * rc_RequestsPerSecond c"
  proof (cases "rl_buckets ?rl key")
    case None
    then show ?thesis using times(2) [of key] rate by (simp add: available_def seconds_def)
  next
    case (Some b)
    then have "tb_lastRefill b = ?i"
      by (auto simp: rl_cleanup_def Tokens_def Let_def split: option.splits if_splits)
    moreover have "tb_refillRate b = rc_RequestsPerSecond c" using clean(2) Some by (simp add: rl_inv_def)
    ultimately show ?thesis using refill_twice [of b ?i fin] times(2) rate Some by (simp add: available_def)
  qed
  also have "available ?i key ?rl = available ?i key (rs_limiter s)" by (rule clean(1))
  also have "\<dots> \<le> available (rs_now s) key (rs_limiter s) + seconds (?i - rs_now s) * rc_RequestsPerSecond c"
    using times(1) by (intro available_later [OF assms(1)]) simp_all
  finally have "available fin key ?rl \<le> available (rs_now s) key (rs_limiter s) +
      (seconds (?i - rs_now s) + seconds (fin - ?i)) * rc_RequestsPerSecond c"
    by (simp add: distrib_right)
  moreover have "seconds (?i - rs_now s) + seconds (fin - ?i) = seconds (fin - rs_now s)"
    by (simp add: seconds_def flip: add_divide_distrib of_int_add)
  moreover have "rs_now s \<le> fin" using times order_trans by blast
  ultimately show ?thesis using inv RlCleanup by simp
qed

lemma rl_run_potential:
  assumes "rl_ok c s" "run_ok rl_step rl_in_order evs s"
  shows "rl_ok c (run rl_step evs s) \<and> rs_now s \<le> rs_now (run rl_step evs s) \<and>
    of_nat (rs_accepted (run rl_step evs s) key) +
      available (rs_now (run rl_step evs s)) key (rs_limiter (run rl_step evs s)) \<le>
    of_nat (rs_accepted s key) + available (rs_now s) key (rs_limiter s) +
      seconds (rs_now (run rl_step evs s) - rs_now s) * rc_RequestsPerSecond c"
  using assms
proof (induction evs arbitrary: s)
  case Nil
  then show ?case by (simp add: seconds_def)
next
  case (Cons ev evs)
  let ?s = "rl_step ev s" and ?t = "run rl_step evs (rl_step ev s)"
  have step: "rl_ok c ?s" "rs_now s \<le> rs_now ?s"
    "of_nat (rs_accepted ?s key) + available (rs_now ?s) key (rs_limiter ?s) \<le>
      of_nat (rs_accepted s key) + available (rs_now s) key (rs_limiter s) +
      seconds (rs_now ?s - rs_now s) * rc_RequestsPerSecond c"
    using rl_step_potential [OF Cons.prems(1), of ev key] Cons.prems(2) by simp_all
  have sum: "seconds (rs_now ?s - rs_now s) * rc_RequestsPerSecond c +
      seconds (rs_now ?t - rs_now ?s) * rc_RequestsPerSecond c =
      seconds (rs_now ?t - rs_now s) * rc_RequestsPerSecond c"
    by (simp add: seconds_def flip: add_divide_distrib of_int_add distrib_right)
  from Cons.IH [OF step(1)] Cons.prems(2) step(2,3) sum show ?case by simp
qed

section \<open>Properties\<close>

text \<open>A new limiter of each kind at the instant \<open>t\<close>.\<close>

definition sw_start :: "time \<Rightarrow> SlidingWindowConfig \<Rightarrow> sw_run_state" where
  "sw_start t c = \<lparr>sr_now = t, sr_log = [], sr_limiter = NewSlidingWindowLimiter (Some c)\<rparr>"

definition rl_start :: "time \<Rightarrow> RateLimitConfig \<Rightarrow> rl_run_state" where
  "rl_start t c = \<lparr>rs_now = t, rs_accepted = (\<lambda>key. 0), rs_limiter = NewRateLimiter (Some c)\<rparr>"

lemma sw_start_inv: "sw_inv c (sw_start t c)"
  using sw_inv_new [of "Some c" t] by (simp add: sw_start_def NewSlidingWindowLimiter_def)

lemma rl_start_ok: "0 \<le> rc_RequestsPerSecond c \<Longrightarrow> 0 \<le> sint (rc_BurstSize c) \<Longrightarrow> rl_ok c (rl_start t c)"
  by (simp add: rl_ok_def rl_inv_def rl_start_def NewRateLimiter_def)

definition example_window :: SlidingWindowConfig where
  "example_window = \<lparr>sc_WindowSize = 10, sc_MaxRequests = 2, sc_CleanupInterval = 10, sc_KeyFunc = DefaultKeyFunc\<rparr>"

definition example_bucket :: RateLimitConfig where
  "example_bucket = \<lparr>rc_RequestsPerSecond = 1, rc_BurstSize = 2, rc_CleanupInterval = 10, rc_KeyFunc = DefaultKeyFunc\<rparr>"

lemmas sw_eval = window_size_ok_def two_windows_back_def sw_start_def example_window_def NewSlidingWindowLimiter_def sw_Allow_def sw_cleanup_def Let_def

text \<open>
  Calls one after the other, with clean-ups between them but not inside them: at instants that do not
  decrease, with a window below \<open>2 ^ 62\<close> nanoseconds, the requests accepted for a key within any window
  \<open>(t - W, t]\<close>, at whatever \<open>t\<close>, are at most \<open>MaxRequests\<close>.  (A clean-up inside a call can break this:
  \<open>WindowRace\<close>.)
\<close>

theorem sliding_window_bound:
  assumes "run_ok sw_step (\<lambda>s ev. sr_now s \<le> event_time ev \<and> window_size_ok c) evs (sw_start t0 c)"
  shows "int (length (filter (\<lambda>x. t - sc_WindowSize c < x \<and> x \<le> t)
      (map snd (filter (\<lambda>x. fst x = key) (sr_log (run sw_step evs (sw_start t0 c))))))) \<le>
    max 0 (sint (sc_MaxRequests c))"
  using sliding.run_inv [OF sw_start_inv assms] by (simp add: sw_inv_def in_window_def accepted_times_def)

theorem sliding_window_bound_witness:
  "int (length (filter (\<lambda>x. 15 - 10 < x \<and> x \<le> 15) (map snd (filter (\<lambda>x. fst x = ''k'')
     (sr_log (run sw_step [SwAllow 1 ''k'', SwAllow 8 ''k'', SwAllow 9 ''k'', SwCleanup 12, SwAllow 12 ''k'']
       (sw_start 0 example_window))))))) = 2 \<and> max 0 (sint (sc_MaxRequests example_window)) = 2"
proof -
  let ?evs = "[SwAllow 1 ''k'', SwAllow 8 ''k'', SwAllow 9 ''k'', SwCleanup 12, SwAllow 12 ''k'']"
  have "run_ok sw_step (\<lambda>s ev. sr_now s \<le> event_time ev \<and> window_size_ok example_window) ?evs
      (sw_start 0 example_window)"
    by (simp add: sw_eval)
  from sliding_window_bound [OF this, of 15 "''k''"] show ?thesis
    by (simp add: sw_eval)
qed

text \<open>
  Such calls are refused only when they must.  After any such sequence, a request is accepted
  exactly when fewer than \<open>MaxRequests\<close> requests of its key were accepted in the window before it
  (the clean-ups make no difference).
\<close>

theorem sliding_window_exact:
  assumes "run_ok sw_step (\<lambda>s ev. sr_now s \<le> event_time ev \<and> window_size_ok c) evs (sw_start t0 c)"
    and "sr_now (run sw_step evs (sw_start t0 c)) \<le> now"
  shows "fst (sw_Allow now key (sr_limiter (run sw_step evs (sw_start t0 c)))) \<longleftrightarrow>
    int (length (filter (\<lambda>x. now - sc_WindowSize c < x)
      (map snd (filter (\<lambda>x. fst x = key) (sr_log (run sw_step evs (sw_start t0 c))))))) <
    sint (sc_MaxRequests c)"
  using sw_Allow_exact [OF sliding.run_inv [OF sw_start_inv assms(1)] assms(2)]
  by (simp add: Let_def recent_def accepted_times_def)

theorem sliding_window_exact_witness:
  "fst (sw_Allow 12 ''k'' (sr_limiter (run sw_step [SwAllow 1 ''k'', SwAllow 8 ''k'', SwCleanup 11]
     (sw_start 0 example_window))))"
proof -
  let ?evs = "[SwAllow 1 ''k'', SwAllow 8 ''k'', SwCleanup 11]"
  have ok: "run_ok sw_step (\<lambda>s ev. sr_now s \<le> event_time ev \<and> window_size_ok example_window) ?evs
      (sw_start 0 example_window)"
    by (simp add: sw_eval)
  have "sr_now (run sw_step ?evs (sw_start 0 example_window)) \<le> 12" by (simp add: sw_eval)
  from sliding_window_exact [OF ok this, of "''k''"] show ?thesis
    by (simp add: sw_eval)
qed

text \<open>
  Calls one after the other admit no more than the burst and the rate.  Whatever came before, out of the
  events from the instant \<open>T\<close> to the instant \<open>T'\<close> (requests of any keys, clean-ups between them but
  not inside them), at most \<open>BurstSize + RequestsPerSecond (T' - T)\<close> requests of a key are accepted.
  \<open>BucketRace\<close> has the calls in pieces.
\<close>

theorem token_bucket_bound:
  assumes "0 \<le> rc_RequestsPerSecond c" "0 \<le> sint (rc_BurstSize c)"
    and "run_ok rl_step rl_in_order before (rl_start t0 c)"
    and "s = run rl_step before (rl_start t0 c)"
    and "run_ok rl_step rl_in_order evs s"
  shows "of_nat (rs_accepted (run rl_step evs s) key) - of_nat (rs_accepted s key) \<le>
    (of_int (sint (rc_BurstSize c)) :: rat) +
    rc_RequestsPerSecond c * of_int (rs_now (run rl_step evs s) - rs_now s) / 10 ^ 9"
proof -
  have ok: "rl_ok c s"
    unfolding assms(4) by (rule conjunct1 [OF rl_run_potential [OF rl_start_ok [OF assms(1,2)] assms(3)]])
  then have "burst (rs_limiter s) = of_int (sint (rc_BurstSize c))"
    by (simp add: rl_ok_def rl_inv_def burst_def)
  moreover have "available (rs_now s) key (rs_limiter s) \<le> burst (rs_limiter s)"
    using available_bounds(2) [OF ok] by simp
  moreover have "rl_ok c (run rl_step evs s)"
    "of_nat (rs_accepted (run rl_step evs s) key) +
      available (rs_now (run rl_step evs s)) key (rs_limiter (run rl_step evs s)) \<le>
     of_nat (rs_accepted s key) + available (rs_now s) key (rs_limiter s) +
      seconds (rs_now (run rl_step evs s) - rs_now s) * rc_RequestsPerSecond c"
    using rl_run_potential [OF ok assms(5), of key] by blast+
  moreover from available_bounds(1) [OF this(1) order_refl]
  have "0 \<le> available (rs_now (run rl_step evs s)) key (rs_limiter (run rl_step evs s))" .
  ultimately show ?thesis
    by (simp add: seconds_def mult.commute)
qed

theorem token_bucket_bound_witness:
  "(of_nat (rs_accepted (run rl_step [RlAllow 0 0 ''k'', RlAllow 0 0 ''k'', RlAllow 0 0 ''k'',
      RlAllow (10 ^ 9) (10 ^ 9) ''k''] (rl_start 0 example_bucket)) ''k'') :: rat) \<le> 3"
proof -
  let ?evs = "[RlAllow 0 0 ''k'', RlAllow 0 0 ''k'', RlAllow 0 0 ''k'', RlAllow (10 ^ 9) (10 ^ 9) ''k'']"
  have pre: "0 \<le> rc_RequestsPerSecond example_bucket" "0 \<le> sint (rc_BurstSize example_bucket)"
    "run_ok rl_step rl_in_order [] (rl_start 0 example_bucket)"
    "rl_start 0 example_bucket = run rl_step [] (rl_start 0 example_bucket)"
    by (simp_all add: example_bucket_def)
  have "run_ok rl_step rl_in_order ?evs (rl_start 0 example_bucket)"
    "rs_now (run rl_step ?evs (rl_start 0 example_bucket)) = 10 ^ 9"
    "rs_now (rl_start 0 example_bucket) = 0" "rs_accepted (rl_start 0 example_bucket) ''k'' = 0"
    by (simp_all add: rl_start_def split: prod.split)
  with token_bucket_bound [OF pre this(1), of "''k''"] show ?thesis
    by (simp add: example_bucket_def)
qed

end
