(* ===== verification/CircuitBreaker.thy ===== *)
theory CircuitBreaker
  imports Go_Prelude
begin

text \<open>
  The circuit breaker of the API gateway, \<open>libs/gateway/circuit_breaker.go\<close>: the breaker with its
  three states and counters, every operation on it, and the registry of breakers.  Each operation
  runs under the breaker's mutex, so it is one step; the callback, which runs in a goroutine of its
  own, is the list of notifications that an operation starts.

  The breaker is verified against an abstract machine, an inductive step relation on
  \<open>closed with n failures\<close>, \<open>open since t\<close> and \<open>half-open with n admitted and k succeeded\<close>.
\<close>

section \<open>The breaker\<close>

datatype CircuitState = StateClosed | StateOpen | StateHalfOpen | StateOther int64

fun CircuitState_String :: "CircuitState \<Rightarrow> string" where
  "CircuitState_String StateClosed = ''closed''"
| "CircuitState_String StateOpen = ''open''"
| "CircuitState_String StateHalfOpen = ''half-open''"
| "CircuitState_String (StateOther n) = ''unknown''"

record CircuitConfig =
  cc_Name :: string
  cc_MaxFailures :: int64
  cc_Timeout :: duration
  cc_HalfOpenRequests :: int64
  cc_SuccessThreshold :: int64

definition DefaultCircuitConfig :: CircuitConfig where
  "DefaultCircuitConfig =
     \<lparr>cc_Name = [], cc_MaxFailures = 5, cc_Timeout = 30 * 10 ^ 9, cc_HalfOpenRequests = 3,
      cc_SuccessThreshold = 2\<rparr>"

text \<open>\<open>cb_onStateChange\<close> says whether a callback is set.\<close>

record CircuitBreaker =
  cb_config :: CircuitConfig
  cb_state :: CircuitState
  cb_failures :: int64
  cb_successes :: int64
  cb_lastFailure :: time
  cb_halfOpenRequests :: int64
  cb_stateChangedAt :: time
  cb_onStateChange :: bool

definition NewCircuitBreaker :: "time \<Rightarrow> CircuitConfig option \<Rightarrow> CircuitBreaker" where
  "NewCircuitBreaker now config =
     \<lparr>cb_config = (case config of None \<Rightarrow> DefaultCircuitConfig | Some c \<Rightarrow> c), cb_state = StateClosed,
      cb_failures = 0, cb_successes = 0, cb_lastFailure = zero_time, cb_halfOpenRequests = 0,
      cb_stateChangedAt = now, cb_onStateChange = False\<rparr>"

type_synonym notifications = "(CircuitState \<times> CircuitState) list"

definition transitionTo :: "time \<Rightarrow> CircuitState \<Rightarrow> CircuitBreaker \<Rightarrow> CircuitBreaker \<times> notifications" where
  "transitionTo now newState cb =
     (if cb_state cb = newState then (cb, [])
      else (cb\<lparr>cb_state := newState, cb_stateChangedAt := now, cb_failures := 0, cb_successes := 0,
               cb_halfOpenRequests := 0\<rparr>,
            if cb_onStateChange cb then [(cb_state cb, newState)] else []))"

definition Allow :: "env \<Rightarrow> CircuitBreaker \<Rightarrow> bool \<times> CircuitBreaker \<times> notifications" where
  "Allow e cb =
     (case cb_state cb of
        StateClosed \<Rightarrow> (True, cb, [])
      | StateOpen \<Rightarrow>
          if cc_Timeout (cb_config cb) < time_sub (clock e 0) (cb_lastFailure cb)
          then (case transitionTo (clock e 1) StateHalfOpen cb of
                  (cb', ns) \<Rightarrow> (True, cb'\<lparr>cb_halfOpenRequests := 1\<rparr>, ns))
          else (False, cb, [])
      | StateHalfOpen \<Rightarrow>
          if sint (cb_halfOpenRequests cb) < sint (cc_HalfOpenRequests (cb_config cb))
          then (True, cb\<lparr>cb_halfOpenRequests := cb_halfOpenRequests cb + 1\<rparr>, [])
          else (False, cb, [])
      | StateOther _ \<Rightarrow> (False, cb, []))"

definition RecordSuccess :: "env \<Rightarrow> CircuitBreaker \<Rightarrow> CircuitBreaker \<times> notifications" where
  "RecordSuccess e cb =
     (case cb_state cb of
        StateClosed \<Rightarrow> (cb\<lparr>cb_failures := 0\<rparr>, [])
      | StateHalfOpen \<Rightarrow>
          let cb1 = cb\<lparr>cb_successes := cb_successes cb + 1\<rparr>
          in if sint (cc_SuccessThreshold (cb_config cb1)) \<le> sint (cb_successes cb1)
             then transitionTo (clock e 0) StateClosed cb1 else (cb1, [])
      | _ \<Rightarrow> (cb, []))"

definition RecordFailure :: "env \<Rightarrow> CircuitBreaker \<Rightarrow> CircuitBreaker \<times> notifications" where
  "RecordFailure e cb =
     (let cb1 = cb\<lparr>cb_lastFailure := clock e 0\<rparr>
      in case cb_state cb1 of
           StateClosed \<Rightarrow>
             let cb2 = cb1\<lparr>cb_failures := cb_failures cb1 + 1\<rparr>
             in if sint (cc_MaxFailures (cb_config cb2)) \<le> sint (cb_failures cb2)
                then transitionTo (clock e 1) StateOpen cb2 else (cb2, [])
         | StateHalfOpen \<Rightarrow> transitionTo (clock e 1) StateOpen cb1
         | _ \<Rightarrow> (cb1, []))"

definition cb_State :: "CircuitBreaker \<Rightarrow> CircuitState" where
  "cb_State cb = cb_state cb"

definition cb_Failures :: "CircuitBreaker \<Rightarrow> int64" where
  "cb_Failures cb = cb_failures cb"

definition cb_LastFailure :: "CircuitBreaker \<Rightarrow> time" where
  "cb_LastFailure cb = cb_lastFailure cb"

definition cb_StateChangedAt :: "CircuitBreaker \<Rightarrow> time" where
  "cb_StateChangedAt cb = cb_stateChangedAt cb"

definition cb_OnStateChange :: "bool \<Rightarrow> CircuitBreaker \<Rightarrow> CircuitBreaker" where
  "cb_OnStateChange fn cb = cb\<lparr>cb_onStateChange := fn\<rparr>"

definition cb_Reset :: "env \<Rightarrow> CircuitBreaker \<Rightarrow> CircuitBreaker" where
  "cb_Reset e cb =
     cb\<lparr>cb_state := StateClosed, cb_failures := 0, cb_successes := 0, cb_halfOpenRequests := 0,
        cb_stateChangedAt := clock e 0\<rparr>"

record CircuitStats =
  cs_State :: string
  cs_Failures :: int64
  cs_Successes :: int64
  cs_LastFailure :: time
  cs_StateChangedAt :: time
  cs_HalfOpenRequests :: int64

definition cb_Stats :: "CircuitBreaker \<Rightarrow> CircuitStats" where
  "cb_Stats cb =
     \<lparr>cs_State = CircuitState_String (cb_state cb), cs_Failures = cb_failures cb,
      cs_Successes = cb_successes cb, cs_LastFailure = cb_lastFailure cb,
      cs_StateChangedAt = cb_stateChangedAt cb, cs_HalfOpenRequests = cb_halfOpenRequests cb\<rparr>"

section \<open>The registry\<close>

text \<open>
  The registry owns its breakers; \<open>Get\<close> hands out the breaker of a name and creates it on the first
  call only, so the configuration of a later call is not used.
\<close>

type_synonym CircuitBreakerRegistry = "string \<rightharpoonup> CircuitBreaker"

definition NewCircuitBreakerRegistry :: CircuitBreakerRegistry where
  "NewCircuitBreakerRegistry = Map.empty"

definition registry_Get ::
  "time \<Rightarrow> string \<Rightarrow> CircuitConfig option \<Rightarrow> CircuitBreakerRegistry \<Rightarrow> CircuitBreaker \<times> CircuitBreakerRegistry" where
  "registry_Get now name config r =
     (case r name of
        Some cb \<Rightarrow> (cb, r)
      | None \<Rightarrow> (let cb = NewCircuitBreaker now config in (cb, r(name \<mapsto> cb))))"

definition registry_Stats :: "CircuitBreakerRegistry \<Rightarrow> (string \<rightharpoonup> CircuitStats)" where
  "registry_Stats r = map_option cb_Stats \<circ> r"

definition ResetAll :: "(string \<Rightarrow> env) \<Rightarrow> CircuitBreakerRegistry \<Rightarrow> CircuitBreakerRegistry" where
  "ResetAll es r = (\<lambda>name. map_option (cb_Reset (es name)) (r name))"

section \<open>The abstract machine\<close>

text \<open>
  What a caller does, with what it sees: a request is admitted or not, an outcome is reported.
\<close>

datatype cb_action = CallAllow env | CallSuccess env | CallFailure env | CallReset env

datatype circuit = Closed int | Open time | HalfOpen int int

text \<open>
  \<open>circuit_step c call admitted x y\<close>: under the configuration \<open>c\<close>, the call takes \<open>x\<close> to \<open>y\<close> and, when
  it asks for admission, \<open>admitted\<close> is the answer.  The bounds are at least 1: a limit of zero or
  less acts as a limit of 1.
\<close>

inductive circuit_step :: "CircuitConfig \<Rightarrow> cb_action \<Rightarrow> bool \<Rightarrow> circuit \<Rightarrow> circuit \<Rightarrow> bool" for c where
  admit_closed: "circuit_step c (CallAllow e) True (Closed n) (Closed n)"
| reject_open: "time_sub (clock e 0) t \<le> cc_Timeout c \<Longrightarrow>
    circuit_step c (CallAllow e) False (Open t) (Open t)"
| probe: "cc_Timeout c < time_sub (clock e 0) t \<Longrightarrow>
    circuit_step c (CallAllow e) True (Open t) (HalfOpen 1 0)"
| admit_half: "n < sint (cc_HalfOpenRequests c) \<Longrightarrow>
    circuit_step c (CallAllow e) True (HalfOpen n k) (HalfOpen (n + 1) k)"
| reject_half: "sint (cc_HalfOpenRequests c) \<le> n \<Longrightarrow>
    circuit_step c (CallAllow e) False (HalfOpen n k) (HalfOpen n k)"
| success_closed: "circuit_step c (CallSuccess e) False (Closed n) (Closed 0)"
| success_open: "circuit_step c (CallSuccess e) False (Open t) (Open t)"
| success_half: "k + 1 < max 1 (sint (cc_SuccessThreshold c)) \<Longrightarrow>
    circuit_step c (CallSuccess e) False (HalfOpen n k) (HalfOpen n (k + 1))"
| recover: "k + 1 = max 1 (sint (cc_SuccessThreshold c)) \<Longrightarrow>
    circuit_step c (CallSuccess e) False (HalfOpen n k) (Closed 0)"
| failure_closed: "n + 1 < max 1 (sint (cc_MaxFailures c)) \<Longrightarrow>
    circuit_step c (CallFailure e) False (Closed n) (Closed (n + 1))"
| trip: "n + 1 = max 1 (sint (cc_MaxFailures c)) \<Longrightarrow>
    circuit_step c (CallFailure e) False (Closed n) (Open (clock e 0))"
| failure_open: "circuit_step c (CallFailure e) False (Open t) (Open (clock e 0))"
| failure_half: "circuit_step c (CallFailure e) False (HalfOpen n k) (Open (clock e 0))"
| reset: "circuit_step c (CallReset e) False x (Closed 0)"

inductive_cases circuit_step_half: "circuit_step c a b (HalfOpen n k) y"
inductive_cases circuit_step_open: "circuit_step c a b (Open t) y"
inductive_simps circuit_step_closed: "circuit_step c a b (Closed n) y"

text \<open>The states the breaker can be in, and the abstract state of each.\<close>

definition cb_inv :: "CircuitBreaker \<Rightarrow> bool" where
  "cb_inv cb \<longleftrightarrow>
     (case cb_state cb of
        StateClosed \<Rightarrow> 0 \<le> sint (cb_failures cb) \<and>
          sint (cb_failures cb) < max 1 (sint (cc_MaxFailures (cb_config cb))) \<and>
          cb_successes cb = 0 \<and> cb_halfOpenRequests cb = 0
      | StateOpen \<Rightarrow> cb_failures cb = 0 \<and> cb_successes cb = 0 \<and> cb_halfOpenRequests cb = 0
      | StateHalfOpen \<Rightarrow> cb_failures cb = 0 \<and> 0 \<le> sint (cb_successes cb) \<and>
          sint (cb_successes cb) < max 1 (sint (cc_SuccessThreshold (cb_config cb))) \<and>
          1 \<le> sint (cb_halfOpenRequests cb) \<and>
          sint (cb_halfOpenRequests cb) \<le> max 1 (sint (cc_HalfOpenRequests (cb_config cb)))
      | StateOther _ \<Rightarrow> False)"

definition cb_abs :: "CircuitBreaker \<Rightarrow> circuit" where
  "cb_abs cb =
     (case cb_state cb of
        StateClosed \<Rightarrow> Closed (sint (cb_failures cb))
      | StateOpen \<Rightarrow> Open (cb_lastFailure cb)
      | _ \<Rightarrow> HalfOpen (sint (cb_halfOpenRequests cb)) (sint (cb_successes cb)))"

text \<open>One call on the breaker: the answer (false when it asks nothing) and the breaker after it.\<close>

primrec cb_call :: "cb_action \<Rightarrow> CircuitBreaker \<Rightarrow> bool \<times> CircuitBreaker" where
  "cb_call (CallAllow e) cb = (case Allow e cb of (admitted, cb', ns) \<Rightarrow> (admitted, cb'))"
| "cb_call (CallSuccess e) cb = (False, fst (RecordSuccess e cb))"
| "cb_call (CallFailure e) cb = (False, fst (RecordFailure e cb))"
| "cb_call (CallReset e) cb = (False, cb_Reset e cb)"

definition cb_step :: "cb_action \<Rightarrow> CircuitBreaker \<Rightarrow> CircuitBreaker" where
  "cb_step a cb = snd (cb_call a cb)"

lemma sint64_succ: "sint a < sint (b :: int64) \<Longrightarrow> sint (a + 1 :: int64) = sint a + 1"
  using sint64_bounds [of a] sint64_bounds [of b] by (subst sint64_add) auto

lemma sint64_succ_max: "sint a < max 1 (sint (b :: int64)) \<Longrightarrow> sint (a + 1 :: int64) = sint a + 1"
  using sint64_bounds [of a] sint64_bounds [of b] by (subst sint64_add) auto

lemma cb_config_step [simp]: "cb_config (cb_step a cb) = cb_config cb"
  by (cases a) (auto simp: cb_step_def Allow_def RecordSuccess_def RecordFailure_def cb_Reset_def
      transitionTo_def Let_def split: CircuitState.split)

lemma cb_inv_new: "cb_inv (NewCircuitBreaker now config)"
  by (simp add: cb_inv_def NewCircuitBreaker_def)

text \<open>Every operation keeps the invariant and is a step of the abstract machine.\<close>

lemma Allow_refines:
  assumes "cb_inv cb"
  shows "cb_inv (cb_step (CallAllow e) cb) \<and>
    circuit_step (cb_config cb) (CallAllow e) (fst (cb_call (CallAllow e) cb))
      (cb_abs cb) (cb_abs (cb_step (CallAllow e) cb))"
proof (cases "cb_state cb")
  case StateClosed
  then show ?thesis
    using assms by (simp add: cb_step_def Allow_def cb_abs_def circuit_step.intros)
next
  case StateOpen
  then show ?thesis
    using assms by (simp add: cb_step_def Allow_def cb_abs_def cb_inv_def transitionTo_def
        less_max_iff_disj circuit_step.intros)
next
  case StateHalfOpen
  then show ?thesis
    using assms by (simp add: cb_step_def Allow_def cb_abs_def cb_inv_def sint64_succ circuit_step.intros)
next
  case (StateOther n)
  then show ?thesis using assms by (simp add: cb_inv_def)
qed

lemma RecordSuccess_refines:
  assumes "cb_inv cb"
  shows "cb_inv (cb_step (CallSuccess e) cb) \<and>
    circuit_step (cb_config cb) (CallSuccess e) False (cb_abs cb) (cb_abs (cb_step (CallSuccess e) cb))"
proof (cases "cb_state cb")
  case StateHalfOpen
  let ?k = "sint (cb_successes cb)" and ?T = "sint (cc_SuccessThreshold (cb_config cb))"
  have k: "0 \<le> ?k" "?k < max 1 ?T" using assms StateHalfOpen by (simp_all add: cb_inv_def)
  have succ: "sint (cb_successes cb + 1) = ?k + 1" using sint64_succ_max [OF k(2)] .
  show ?thesis
  proof (cases "?T \<le> ?k + 1")
    case True
    with k have "?k + 1 = max 1 ?T" by simp
    with True assms StateHalfOpen succ show ?thesis
      by (simp add: cb_step_def RecordSuccess_def Let_def cb_abs_def cb_inv_def transitionTo_def circuit_step.intros)
  next
    case False
    with k have "?k + 1 < max 1 ?T" by simp
    with False assms StateHalfOpen succ show ?thesis
      by (simp add: cb_step_def RecordSuccess_def Let_def cb_abs_def cb_inv_def circuit_step.intros)
  qed
qed (use assms in \<open>simp_all add: cb_step_def RecordSuccess_def Let_def cb_abs_def cb_inv_def circuit_step.intros\<close>)

lemma RecordFailure_refines:
  assumes "cb_inv cb"
  shows "cb_inv (cb_step (CallFailure e) cb) \<and>
    circuit_step (cb_config cb) (CallFailure e) False (cb_abs cb) (cb_abs (cb_step (CallFailure e) cb))"
proof (cases "cb_state cb")
  case StateClosed
  let ?n = "sint (cb_failures cb)" and ?M = "sint (cc_MaxFailures (cb_config cb))"
  have n: "0 \<le> ?n" "?n < max 1 ?M" using assms StateClosed by (simp_all add: cb_inv_def)
  have succ: "sint (cb_failures cb + 1) = ?n + 1" using sint64_succ_max [OF n(2)] .
  show ?thesis
  proof (cases "?M \<le> ?n + 1")
    case True
    with n have "?n + 1 = max 1 ?M" by simp
    with True assms StateClosed succ show ?thesis
      by (simp add: cb_step_def RecordFailure_def Let_def cb_abs_def cb_inv_def transitionTo_def circuit_step.intros)
  next
    case False
    with n have "?n + 1 < max 1 ?M" by simp
    with False assms StateClosed succ show ?thesis
      by (simp add: cb_step_def RecordFailure_def Let_def cb_abs_def cb_inv_def circuit_step.intros)
  qed
qed (use assms in \<open>simp_all add: cb_step_def RecordFailure_def Let_def cb_abs_def cb_inv_def transitionTo_def
      circuit_step.intros\<close>)

lemma cb_refines:
  assumes "cb_inv cb"
  shows "cb_inv (cb_step a cb) \<and>
    circuit_step (cb_config cb) a (fst (cb_call a cb)) (cb_abs cb) (cb_abs (cb_step a cb))"
proof (cases a)
  case (CallReset e)
  then show ?thesis by (simp add: cb_step_def cb_Reset_def cb_inv_def cb_abs_def circuit_step.intros)
qed (use Allow_refines [OF assms] RecordSuccess_refines [OF assms] RecordFailure_refines [OF assms]
    in simp_all)

interpretation breaker: invariant_machine cb_step "\<lambda>cb a. True" cb_inv
  by unfold_locales (simp add: cb_refines)

lemma run_ok_True [simp]: "run_ok step (\<lambda>s a. True) ops s"
  by (induction ops arbitrary: s) simp_all

lemma cb_config_run [simp]: "cb_config (run cb_step ops cb) = cb_config cb"
  by (induction ops arbitrary: cb) simp_all

lemma cb_inv_run: "cb_inv cb \<Longrightarrow> cb_inv (run cb_step ops cb)"
  by (rule breaker.run_inv) simp_all

text \<open>The number of requests a run admits.\<close>

primrec admitted :: "cb_action list \<Rightarrow> CircuitBreaker \<Rightarrow> nat" where
  "admitted [] cb = 0"
| "admitted (a # as) cb = (if fst (cb_call a cb) then 1 else 0) + admitted as (cb_step a cb)"

lemma admitted_append: "admitted (as @ bs) cb = admitted as cb + admitted bs (run cb_step as cb)"
  by (induction as arbitrary: cb) simp_all

lemma cb_abs_half:
  "cb_inv cb \<Longrightarrow> cb_state cb = StateHalfOpen \<longleftrightarrow>
    cb_abs cb = HalfOpen (sint (cb_halfOpenRequests cb)) (sint (cb_successes cb))"
  by (auto simp: cb_abs_def cb_inv_def split: CircuitState.splits)

text \<open>While the breaker stays half-open, its counter counts the requests it admits.\<close>

lemma half_open_step:
  assumes "cb_inv cb" "cb_state cb = StateHalfOpen" "cb_state (cb_step a cb) = StateHalfOpen"
  shows "sint (cb_halfOpenRequests (cb_step a cb)) =
    sint (cb_halfOpenRequests cb) + (if fst (cb_call a cb) then 1 else 0)"
  using cb_refines [OF assms(1), of a] assms
  by (auto simp: cb_abs_half elim: circuit_step_half)

lemma half_open_admits:
  assumes "cb_inv cb" "cb_state cb = StateHalfOpen"
    and "run_ok cb_step (\<lambda>cb a. cb_state (cb_step a cb) = StateHalfOpen) ops cb"
  shows "sint (cb_halfOpenRequests (run cb_step ops cb)) =
      sint (cb_halfOpenRequests cb) + int (admitted ops cb) \<and>
    cb_state (run cb_step ops cb) = StateHalfOpen"
  using assms
proof (induction ops arbitrary: cb)
  case Nil
  then show ?case by simp
next
  case (Cons a as)
  then have next_state: "cb_state (cb_step a cb) = StateHalfOpen"
    and as: "run_ok cb_step (\<lambda>cb a. cb_state (cb_step a cb) = StateHalfOpen) as (cb_step a cb)"
    by simp_all
  have "cb_inv (cb_step a cb)" using cb_refines [OF Cons.prems(1)] by blast
  from Cons.IH [OF this next_state as] half_open_step [OF Cons.prems(1,2) next_state]
  show ?case by simp
qed

lemma cb_abs_step:
  "cb_inv cb \<Longrightarrow> circuit_step (cb_config cb) a (fst (cb_call a cb)) (cb_abs cb) (cb_abs (cb_step a cb))"
  "cb_inv cb \<Longrightarrow> cb_inv (cb_step a cb)"
  using cb_refines by blast+

lemma cb_abs_state:
  assumes "cb_inv cb"
  shows "cb_abs cb = Closed n \<longleftrightarrow> cb_state cb = StateClosed \<and> n = sint (cb_failures cb)"
    and "cb_abs cb = Open t \<longleftrightarrow> cb_state cb = StateOpen \<and> t = cb_lastFailure cb"
    and "(\<exists>n k. cb_abs cb = HalfOpen n k) \<longleftrightarrow> cb_state cb = StateHalfOpen"
  using assms by (auto simp: cb_abs_def cb_inv_def split: CircuitState.splits)

text \<open>The steps of a half-open breaker, and of an open one.\<close>

lemma allow_half:
  assumes "cb_inv cb" "cb_abs cb = HalfOpen h k"
  shows "fst (cb_call (CallAllow e) cb) \<longleftrightarrow> h < sint (cc_HalfOpenRequests (cb_config cb))"
    and "cb_abs (cb_step (CallAllow e) cb) =
      HalfOpen (if h < sint (cc_HalfOpenRequests (cb_config cb)) then h + 1 else h) k"
  using cb_abs_step(1) [OF assms(1), of "CallAllow e"] assms(2)
  by (auto elim: circuit_step_half)

lemma success_half:
  assumes "cb_inv cb" "cb_abs cb = HalfOpen h k"
  shows "cb_abs (cb_step (CallSuccess e) cb) =
      (if k + 1 < max 1 (sint (cc_SuccessThreshold (cb_config cb))) then HalfOpen h (k + 1) else Closed 0)"
  using cb_abs_step(1) [OF assms(1), of "CallSuccess e"] assms(2)
  by (auto elim: circuit_step_half)

lemma allow_open:
  assumes "cb_inv cb" "cb_abs cb = Open t"
  shows "fst (cb_call (CallAllow e) cb) \<longleftrightarrow> cc_Timeout (cb_config cb) < time_sub (clock e 0) t"
    and "cb_abs (cb_step (CallAllow e) cb) =
      (if cc_Timeout (cb_config cb) < time_sub (clock e 0) t then HalfOpen 1 0 else Open t)"
  using cb_abs_step(1) [OF assms(1), of "CallAllow e"] assms(2)
  by (auto elim: circuit_step_open)

text \<open>Rounds of a request and its success, one after the other.\<close>

definition rounds :: "env list \<Rightarrow> cb_action list" where
  "rounds es = concat (map (\<lambda>e. [CallAllow e, CallSuccess e]) es)"

lemma rounds_Cons: "rounds (e # es) = CallAllow e # CallSuccess e # rounds es"
  by (simp add: rounds_def)

lemma rounds_half:
  assumes "cb_inv cb" "cb_abs cb = HalfOpen h k" "1 \<le> h"
    and "h + int (length es) \<le> max 1 (sint (cc_HalfOpenRequests (cb_config cb)))"
    and "k + int (length es) < max 1 (sint (cc_SuccessThreshold (cb_config cb)))"
  shows "cb_abs (run cb_step (rounds es) cb) = HalfOpen (h + int (length es)) (k + int (length es)) \<and>
    admitted (rounds es) cb = length es"
  using assms
proof (induction es arbitrary: cb h k)
  case Nil
  then show ?case by (simp add: rounds_def)
next
  case (Cons e es)
  let ?cb1 = "cb_step (CallAllow e) cb"
  let ?cb2 = "cb_step (CallSuccess e) ?cb1"
  have less: "h < sint (cc_HalfOpenRequests (cb_config cb))" using Cons.prems(3,4) by simp
  have abs1: "cb_abs ?cb1 = HalfOpen (h + 1) k" "cb_inv ?cb1"
    using allow_half(2) [OF Cons.prems(1,2)] less cb_abs_step(2) [OF Cons.prems(1)] by simp_all
  have abs2: "cb_abs ?cb2 = HalfOpen (h + 1) (k + 1)" "cb_inv ?cb2"
    using success_half [OF abs1(2,1)] Cons.prems(5) cb_abs_step(2) [OF abs1(2)] by simp_all
  have "cb_abs (run cb_step (rounds es) ?cb2) = HalfOpen (h + 1 + int (length es)) (k + 1 + int (length es)) \<and>
    admitted (rounds es) ?cb2 = length es"
    by (rule Cons.IH) (use abs2 Cons.prems(3,4,5) in simp_all)
  then show ?case
    using less allow_half(1) [OF Cons.prems(1,2), of e] by (simp add: rounds_Cons)
qed

lemma rejects_half:
  assumes "cb_inv cb" "cb_abs cb = HalfOpen h k" "sint (cc_HalfOpenRequests (cb_config cb)) \<le> h"
  shows "admitted (map CallAllow es) cb = 0 \<and> cb_abs (run cb_step (map CallAllow es) cb) = HalfOpen h k"
  using assms
proof (induction es arbitrary: cb)
  case Nil
  then show ?case by simp
next
  case (Cons e es)
  have "cb_abs (cb_step (CallAllow e) cb) = HalfOpen h k"
    using allow_half(2) [OF Cons.prems(1,2), of e] Cons.prems(3) by simp
  from Cons.IH [OF cb_abs_step(2) [OF Cons.prems(1)] this] allow_half(1) [OF Cons.prems(1,2), of e]
    Cons.prems(3)
  show ?case by simp
qed

lemma failures_closed:
  assumes "cb_inv cb" "cb_abs cb = Closed n"
  shows "cb_state (run cb_step (map CallFailure es) cb) =
    (if n + int (length es) < max 1 (sint (cc_MaxFailures (cb_config cb))) then StateClosed else StateOpen)"
  using assms
proof (induction es arbitrary: cb n)
  case Nil
  then have "cb_state cb = StateClosed \<and> n = sint (cb_failures cb)" by (simp add: cb_abs_state)
  with Nil(1) show ?case by (simp add: cb_inv_def)
next
  case (Cons e es)
  let ?cb1 = "cb_step (CallFailure e) cb" and ?M = "max 1 (sint (cc_MaxFailures (cb_config cb)))"
  have inv: "cb_inv ?cb1" using cb_abs_step(2) [OF Cons.prems(1)] .
  have stay_open: "cb_inv c \<Longrightarrow> cb_abs c = Open t \<Longrightarrow> cb_state (run cb_step (map CallFailure es) c) = StateOpen" for c t
  proof (induction es arbitrary: c t)
    case Nil
    then show ?case by (simp add: cb_abs_state)
  next
    case (Cons f fs)
    have "cb_abs (cb_step (CallFailure f) c) = Open (clock f 0)"
      using cb_abs_step(1) [OF Cons.prems(1), of "CallFailure f"] Cons.prems(2)
      by (auto elim: circuit_step_open)
    from Cons.IH [OF cb_abs_step(2) [OF Cons.prems(1)] this] show ?case by simp
  qed
  have "n + 1 < ?M \<and> cb_abs ?cb1 = Closed (n + 1) \<or> n + 1 = ?M \<and> cb_abs ?cb1 = Open (clock e 0)"
    using cb_abs_step(1) [OF Cons.prems(1), of "CallFailure e"] Cons.prems(2)
    by (auto simp: circuit_step_closed)
  then show ?case
    using Cons.IH [OF inv, of "n + 1"] stay_open [OF inv, of "clock e 0"] by auto
qed

section \<open>Properties\<close>

text \<open>A breaker that opens at the second failure, after 10 ns tries again, and its clock readings.\<close>

definition at :: "time \<Rightarrow> env" where
  "at t = \<lparr>entropy = (\<lambda>i. None), clock = (\<lambda>i. t)\<rparr>"

definition example_circuit :: "int64 \<Rightarrow> int64 \<Rightarrow> CircuitBreaker" where
  "example_circuit half threshold =
     NewCircuitBreaker 0 (Some \<lparr>cc_Name = ''svc'', cc_MaxFailures = 2, cc_Timeout = 10,
       cc_HalfOpenRequests = half, cc_SuccessThreshold = threshold\<rparr>)"

definition example_open :: "int64 \<Rightarrow> int64 \<Rightarrow> CircuitBreaker" where
  "example_open half threshold = run cb_step [CallFailure (at 1), CallFailure (at 2)] (example_circuit half threshold)"

lemmas cb_eval = example_circuit_def example_open_def at_def NewCircuitBreaker_def cb_step_def Allow_def
  RecordSuccess_def RecordFailure_def transitionTo_def Let_def time_sub_def min_duration_def
  max_duration_def

lemma example_open_inv: "cb_inv (example_open h k)"
  unfolding example_open_def example_circuit_def by (intro cb_inv_run cb_inv_new)

lemma example_open_state:
  "cb_state (example_open h k) = StateOpen" "cb_lastFailure (example_open h k) = 2"
  "cc_Timeout (cb_config (example_open h k)) = 10"
  "cc_HalfOpenRequests (cb_config (example_open h k)) = h"
  "cc_SuccessThreshold (cb_config (example_open h k)) = k"
  by (simp_all add: cb_eval)

text \<open>
  The breaker is the abstract machine.  After any sequence of calls on a new breaker, whatever its
  configuration, every further call answers and moves as \<open>circuit_step\<close> says: in particular the only
  transitions are closed to open (at the last failure allowed), open to half-open (at a request
  after the timeout), half-open to closed (at the last success needed), half-open to open (at any
  failure), and the reset.
\<close>

theorem circuit_breaker_refines:
  "circuit_step (case config of None \<Rightarrow> DefaultCircuitConfig | Some c \<Rightarrow> c) a
     (fst (cb_call a (run cb_step ops (NewCircuitBreaker now config))))
     (cb_abs (run cb_step ops (NewCircuitBreaker now config)))
     (cb_abs (run cb_step (ops @ [a]) (NewCircuitBreaker now config)))"
  using cb_abs_step(1) [OF cb_inv_run [OF cb_inv_new], of ops now config a]
  by (simp add: run_append) (simp add: NewCircuitBreaker_def)

text \<open>
  The circuit opens at exactly \<open>MaxFailures\<close> consecutive failures.  A closed breaker without
  failures (as after each success) is still closed after fewer failures in a row, and open after
  that many or more (a limit below 1 acts as 1).
\<close>

theorem opens_at_max_failures:
  assumes "cb_inv cb" "cb_state cb = StateClosed" "cb_failures cb = 0"
  shows "cb_state (run cb_step (map CallFailure es) cb) =
    (if int (length es) < max 1 (sint (cc_MaxFailures (cb_config cb))) then StateClosed else StateOpen)"
  using failures_closed [OF assms(1), of 0 es] assms by (simp add: cb_abs_def)

theorem opens_at_max_failures_witness:
  "cb_state (run cb_step (map CallFailure (map at [5])) (example_circuit 1 1)) = StateClosed \<and>
   cb_state (run cb_step (map CallFailure (map at [5, 6])) (example_circuit 1 1)) = StateOpen"
proof -
  have inv: "cb_inv (example_circuit 1 1)" "cb_state (example_circuit 1 1) = StateClosed"
    "cb_failures (example_circuit 1 1) = 0" "cc_MaxFailures (cb_config (example_circuit 1 1)) = 2"
    by (simp_all add: example_circuit_def cb_inv_new) (simp_all add: NewCircuitBreaker_def)
  show ?thesis
    unfolding opens_at_max_failures [OF inv(1-3)] by (simp add: inv(4))
qed

text \<open>
  An open circuit blocks for the timeout.  Requests no later than \<open>Timeout\<close> after the last failure
  are all refused and change nothing; the first one after it is admitted and makes the circuit
  half-open with one request.
\<close>

theorem open_blocks_until_timeout:
  assumes "cb_state cb = StateOpen" "0 \<le> cc_Timeout (cb_config cb)" "cc_Timeout (cb_config cb) < 2 ^ 63 - 1"
    and "\<forall>e \<in> set es. clock e 0 \<le> cb_lastFailure cb + cc_Timeout (cb_config cb)"
    and "cb_lastFailure cb + cc_Timeout (cb_config cb) < clock e' 0"
  shows "admitted (map CallAllow es) cb = 0 \<and> run cb_step (map CallAllow es) cb = cb \<and>
    fst (Allow e' cb) \<and> cb_state (cb_step (CallAllow e') cb) = StateHalfOpen \<and>
    cb_halfOpenRequests (cb_step (CallAllow e') cb) = 1"
proof -
  have sub: "time_sub t (cb_lastFailure cb) \<le> cc_Timeout (cb_config cb) \<longleftrightarrow>
      t \<le> cb_lastFailure cb + cc_Timeout (cb_config cb)" for t
    using assms(2,3) by (subst time_sub_le_iff) (auto simp: max_duration_def)
  have late: "cc_Timeout (cb_config cb) < time_sub (clock e' 0) (cb_lastFailure cb)"
    using assms(5) by (simp add: sub flip: not_le)
  have "admitted (map CallAllow es) cb = 0 \<and> run cb_step (map CallAllow es) cb = cb"
    using assms(4)
  proof (induction es)
    case (Cons e es)
    then have "Allow e cb = (False, cb, [])"
      using assms(1) by (simp add: Allow_def sub flip: not_le)
    with Cons show ?case by (simp add: cb_step_def)
  qed simp
  with late assms(1) show ?thesis
    by (simp add: cb_step_def Allow_def transitionTo_def)
qed

theorem open_blocks_until_timeout_witness:
  "admitted (map CallAllow (map at [3, 12])) (example_open 1 1) = 0 \<and> fst (Allow (at 13) (example_open 1 1))"
proof -
  have early: "\<forall>e \<in> set (map at [3, 12]). clock e 0 \<le>
      cb_lastFailure (example_open 1 1) + cc_Timeout (cb_config (example_open 1 1))"
    and late: "cb_lastFailure (example_open 1 1) + cc_Timeout (cb_config (example_open 1 1)) < clock (at 13) 0"
    unfolding example_open_state by (simp_all add: at_def)
  show ?thesis
    using open_blocks_until_timeout [OF example_open_state(1) _ _ early late] unfolding example_open_state
    by simp
qed

text \<open>
  A half-open circuit probes with at most \<open>HalfOpenRequests\<close> requests.  Whatever calls are made
  from the moment an open breaker admits its probe, for as long as it stays half-open the number of
  admitted requests, the probe included, is at most \<open>HalfOpenRequests\<close> (at least 1).
\<close>

theorem half_open_admission_bound:
  assumes "cb_inv cb" "cb_state cb = StateOpen" "fst (Allow e cb)"
    and "run_ok cb_step (\<lambda>cb a. cb_state (cb_step a cb) = StateHalfOpen) ops (cb_step (CallAllow e) cb)"
  shows "int (admitted (CallAllow e # ops) cb) \<le> max 1 (sint (cc_HalfOpenRequests (cb_config cb)))"
proof -
  let ?cb1 = "cb_step (CallAllow e) cb"
  have call: "fst (cb_call (CallAllow e) cb)" using assms(3) by (cases "Allow e cb") simp
  have open_abs: "cb_abs cb = Open (cb_lastFailure cb)" using assms(2) by (simp add: cb_abs_def)
  have abs: "cb_abs ?cb1 = HalfOpen 1 0"
    using call allow_open [OF assms(1) open_abs, of e] by simp
  have inv: "cb_inv ?cb1" "cb_inv (run cb_step ops ?cb1)"
    using cb_abs_step(2) [OF assms(1)] cb_inv_run by blast+
  have half: "cb_state ?cb1 = StateHalfOpen" using abs cb_abs_state(3) [OF inv(1)] by blast
  then have "sint (cb_halfOpenRequests ?cb1) = 1" using abs by (simp add: cb_abs_def)
  with half_open_admits [OF inv(1) half assms(4)]
  have "sint (cb_halfOpenRequests (run cb_step ops ?cb1)) = 1 + int (admitted ops ?cb1)"
    "cb_state (run cb_step ops ?cb1) = StateHalfOpen" by auto
  then show ?thesis using inv(2) call by (simp add: cb_inv_def)
qed

theorem half_open_admission_bound_witness:
  "int (admitted (map CallAllow (map at [20, 21, 22, 23])) (example_open 2 2)) \<le> 2"
proof -
  have "fst (Allow (at 20) (example_open 2 2))"
    by (simp add: Allow_def example_open_state) (simp add: at_def time_sub_def min_duration_def
        max_duration_def transitionTo_def example_open_state split: prod.split)
  moreover have "run_ok cb_step (\<lambda>cb a. cb_state (cb_step a cb) = StateHalfOpen)
      (map CallAllow (map at [21, 22, 23])) (cb_step (CallAllow (at 20)) (example_open 2 2))"
    by (simp add: cb_eval)
  ultimately show ?thesis
    using half_open_admission_bound [OF example_open_inv example_open_state(1), of "at 20" 2 2
        "map CallAllow (map at [21, 22, 23])"]
    by (simp add: example_open_state)
qed

text \<open>
  The circuit recovers.  When \<open>SuccessThreshold\<close> is at most \<open>HalfOpenRequests\<close> (both at least 1),
  an open circuit whose timeout has passed admits as many requests as the threshold says, and when
  each of them succeeds before the next one it is closed after the last.
\<close>

theorem circuit_recovers:
  assumes "cb_inv cb" "cb_state cb = StateOpen"
    and "cc_Timeout (cb_config cb) < time_sub (clock e 0) (cb_lastFailure cb)"
    and "max 1 (sint (cc_SuccessThreshold (cb_config cb))) \<le> max 1 (sint (cc_HalfOpenRequests (cb_config cb)))"
    and "1 + int (length es) = max 1 (sint (cc_SuccessThreshold (cb_config cb)))"
  shows "admitted (rounds (e # es)) cb = 1 + length es \<and>
    cb_state (run cb_step (rounds (e # es)) cb) = StateClosed"
proof -
  let ?T = "max 1 (sint (cc_SuccessThreshold (cb_config cb)))"
  let ?cb1 = "cb_step (CallAllow e) cb"
  let ?cb2 = "cb_step (CallSuccess e) ?cb1"
  have abs: "cb_abs cb = Open (cb_lastFailure cb)" using assms(2) by (simp add: cb_abs_def)
  have first: "fst (cb_call (CallAllow e) cb)" "cb_abs ?cb1 = HalfOpen 1 0"
    using allow_open [OF assms(1) abs, of e] assms(3) by simp_all
  have inv: "cb_inv ?cb1" "cb_inv ?cb2" "cb_inv (run cb_step ops cb)" for ops
    using cb_abs_step(2) cb_inv_run assms(1) by blast+
  show ?thesis
  proof (cases es rule: rev_cases)
    case Nil
    then have "cb_abs ?cb2 = Closed 0"
      using success_half [OF inv(1) first(2), of e] assms(5) by simp
    then show ?thesis using Nil first(1) inv(2) by (simp add: rounds_def cb_abs_state(1))
  next
    case (snoc fs f)
    let ?H = "sint (cc_HalfOpenRequests (cb_config cb))"
    have two: "2 + int (length fs) = ?T" using assms(5) snoc by simp
    then have abs2: "cb_abs ?cb2 = HalfOpen 1 1"
      using success_half [OF inv(1) first(2), of e] by simp
    let ?cb3 = "run cb_step (rounds fs) ?cb2"
    have "cb_abs ?cb3 = HalfOpen (1 + int (length fs)) (1 + int (length fs)) \<and>
        admitted (rounds fs) ?cb2 = length fs"
      by (rule rounds_half [OF inv(2) abs2]) (use two assms(4) in simp_all)
    then have abs3: "cb_abs ?cb3 = HalfOpen (1 + int (length fs)) (1 + int (length fs))"
      and adm: "admitted (rounds fs) ?cb2 = length fs" by blast+
    have inv3: "cb_inv ?cb3" "cb_inv (cb_step (CallAllow f) ?cb3)"
      using inv(2) cb_inv_run cb_abs_step(2) by blast+
    have less: "1 + int (length fs) < ?H" using two assms(4) by simp
    then have last: "fst (cb_call (CallAllow f) ?cb3)"
      "cb_abs (cb_step (CallAllow f) ?cb3) = HalfOpen (2 + int (length fs)) (1 + int (length fs))"
      using allow_half [OF inv3(1) abs3, of f] by simp_all
    have "cb_abs (cb_step (CallSuccess f) (cb_step (CallAllow f) ?cb3)) = Closed 0"
      using success_half [OF inv3(2) last(2), of f] two by simp
    moreover have "rounds (e # es) = CallAllow e # CallSuccess e # rounds fs @ [CallAllow f, CallSuccess f]"
      by (simp add: rounds_def snoc)
    ultimately show ?thesis
      using first(1) adm last(1) snoc inv(3) [of "rounds (e # es)"]
      by (simp add: cb_abs_state(1) run_append admitted_append)
  qed
qed

theorem circuit_recovers_witness:
  "cb_state (run cb_step (rounds (map at [20, 21])) (example_open 3 2)) = StateClosed"
  using circuit_recovers [OF example_open_inv example_open_state(1), of 3 2 "at 20" "[at 21]"]
  by (simp add: example_open_state) (simp add: at_def time_sub_def min_duration_def max_duration_def)

text \<open>
  The circuit can get stuck.  When \<open>SuccessThreshold\<close> is larger than \<open>HalfOpenRequests\<close>, an open
  circuit whose timeout has passed admits \<open>HalfOpenRequests\<close> requests, and although each of them
  succeeds it stays half-open and refuses every later request, at whatever time it comes.
\<close>

theorem half_open_circuit_stuck:
  assumes "cb_inv cb" "cb_state cb = StateOpen"
    and "cc_Timeout (cb_config cb) < time_sub (clock e 0) (cb_lastFailure cb)"
    and "max 1 (sint (cc_HalfOpenRequests (cb_config cb))) < sint (cc_SuccessThreshold (cb_config cb))"
    and "1 + int (length es) = max 1 (sint (cc_HalfOpenRequests (cb_config cb)))"
  shows "admitted (rounds (e # es)) cb = 1 + length es \<and>
    admitted (map CallAllow later) (run cb_step (rounds (e # es)) cb) = 0 \<and>
    cb_state (run cb_step (rounds (e # es) @ map CallAllow later) cb) = StateHalfOpen"
proof -
  let ?cb1 = "cb_step (CallAllow e) cb"
  let ?cb2 = "cb_step (CallSuccess e) ?cb1"
  let ?cb3 = "run cb_step (rounds es) ?cb2"
  have abs: "cb_abs cb = Open (cb_lastFailure cb)" using assms(2) by (simp add: cb_abs_def)
  have first: "fst (cb_call (CallAllow e) cb)" "cb_abs ?cb1 = HalfOpen 1 0"
    using allow_open [OF assms(1) abs, of e] assms(3) by simp_all
  have inv: "cb_inv ?cb1" "cb_inv ?cb2" "cb_inv ?cb3" "cb_inv (run cb_step (map CallAllow later) ?cb3)"
    using cb_abs_step(2) cb_inv_run assms(1) by blast+
  have abs2: "cb_abs ?cb2 = HalfOpen 1 1"
    using success_half [OF inv(1) first(2), of e] assms(4) by simp
  have abs3: "cb_abs ?cb3 = HalfOpen (1 + int (length es)) (1 + int (length es)) \<and>
      admitted (rounds es) ?cb2 = length es"
    by (rule rounds_half [OF inv(2) abs2]) (use assms(4,5) in simp_all)
  have "admitted (map CallAllow later) ?cb3 = 0 \<and>
      cb_abs (run cb_step (map CallAllow later) ?cb3) = HalfOpen (1 + int (length es)) (1 + int (length es))"
    by (rule rejects_half [OF inv(3)]) (use abs3 assms(5) in simp_all)
  then show ?thesis
    using first(1) abs3 cb_abs_state(3) [OF inv(4)] by (auto simp: rounds_Cons run_append)
qed

theorem half_open_circuit_stuck_witness:
  "admitted (map CallAllow (map at [30, 99])) (run cb_step (rounds [at 20]) (example_open 1 2)) = 0 \<and>
   cb_state (run cb_step (rounds [at 20] @ map CallAllow (map at [30, 99])) (example_open 1 2)) = StateHalfOpen"
proof -
  let ?cb = "example_open 1 2"
  have late: "cc_Timeout (cb_config ?cb) < time_sub (clock (at 20) 0) (cb_lastFailure ?cb)"
    by (simp add: example_open_state) (simp add: at_def time_sub_def min_duration_def max_duration_def)
  have bounds: "max 1 (sint (cc_HalfOpenRequests (cb_config ?cb))) < sint (cc_SuccessThreshold (cb_config ?cb))"
    "1 + int (length []) = max 1 (sint (cc_HalfOpenRequests (cb_config ?cb)))"
    by (simp_all add: example_open_state)
  from half_open_circuit_stuck [OF example_open_inv example_open_state(1) late bounds]
  show ?thesis by blast
qed

end
