(* ===== verification/Health.thy ===== *)
theory Health
  imports Go_Prelude "HOL-Library.Signed_Division"
begin

text \<open>
  The health checker of the gateway, \<open>libs/gateway/health.go\<close>: the monitored services, the result of
  a check, the aggregation, and the answers of the health and readiness endpoints.

  What a service answers to a probe is an argument.  The goroutines of one \<open>CheckAll\<close> end in any
  order, and each changes one service; services that are added or removed while a check is under
  way are not modelled, nor are the ticker and the JSON of the endpoints.
\<close>

section \<open>Statuses\<close>

datatype HealthStatus = HealthStatusHealthy | HealthStatusUnhealthy | HealthStatusDegraded | HealthStatusUnknown

text \<open>
  The statuses are ordered by severity, so that the worst of several is their maximum.
\<close>

fun severity :: "HealthStatus \<Rightarrow> nat" where
  "severity HealthStatusHealthy = 0"
| "severity HealthStatusUnknown = 1"
| "severity HealthStatusDegraded = 2"
| "severity HealthStatusUnhealthy = 3"

lemma severity_inject: "severity x = severity y \<longleftrightarrow> x = y"
  by (cases x; cases y) simp_all

instantiation HealthStatus :: linorder
begin

definition less_eq_HealthStatus :: "HealthStatus \<Rightarrow> HealthStatus \<Rightarrow> bool" where
  "less_eq_HealthStatus x y \<longleftrightarrow> severity x \<le> severity y"

definition less_HealthStatus :: "HealthStatus \<Rightarrow> HealthStatus \<Rightarrow> bool" where
  "less_HealthStatus x y \<longleftrightarrow> severity x < severity y"

instance
  by standard (auto simp: less_eq_HealthStatus_def less_HealthStatus_def severity_inject)

end

instantiation HealthStatus :: order_bot
begin

definition bot_HealthStatus :: HealthStatus where
  "bot_HealthStatus = HealthStatusHealthy"

instance
  by standard (simp add: bot_HealthStatus_def less_eq_HealthStatus_def)

end

section \<open>The checker\<close>

record serviceHealthCheck =
  hs_name :: string
  hs_url :: string
  hs_status :: HealthStatus
  hs_latency :: duration
  hs_lastChecked :: time
  hs_lastError :: string
  hs_consecutive :: int64

record HealthChecker =
  hc_services :: "string \<rightharpoonup> serviceHealthCheck"
  hc_checkPeriod :: duration
  hc_running :: bool

definition NewHealthChecker :: "duration \<Rightarrow> HealthChecker" where
  "NewHealthChecker checkPeriod =
     \<lparr>hc_services = Map.empty, hc_checkPeriod = (if checkPeriod \<le> 0 then 10 * 10 ^ 9 else checkPeriod),
      hc_running = False\<rparr>"

definition AddService :: "string \<Rightarrow> string \<Rightarrow> HealthChecker \<Rightarrow> HealthChecker" where
  "AddService name healthURL hc =
     hc\<lparr>hc_services := (hc_services hc)(name \<mapsto>
       \<lparr>hs_name = name, hs_url = healthURL, hs_status = HealthStatusUnknown, hs_latency = 0,
        hs_lastChecked = zero_time, hs_lastError = [], hs_consecutive = 0\<rparr>)\<rparr>"

definition RemoveService :: "string \<Rightarrow> HealthChecker \<Rightarrow> HealthChecker" where
  "RemoveService name hc = hc\<lparr>hc_services := (hc_services hc)(name := None)\<rparr>"

text \<open>
  The outcome of a probe: the request cannot be built, the client fails after some time, or the
  service answers with a status code and its text.
\<close>

datatype probe = NoRequest string | NoAnswer string duration | Answer nat string duration

definition updateServiceStatus ::
  "time \<Rightarrow> HealthStatus \<Rightarrow> duration \<Rightarrow> string \<Rightarrow> serviceHealthCheck \<Rightarrow> serviceHealthCheck" where
  "updateServiceStatus now status latency errMsg svc =
     svc\<lparr>hs_status := status, hs_latency := latency, hs_lastChecked := now, hs_lastError := errMsg,
         hs_consecutive := (if status = HealthStatusHealthy then 0 else hs_consecutive svc + 1)\<rparr>"

fun checkService :: "time \<Rightarrow> probe \<Rightarrow> serviceHealthCheck \<Rightarrow> serviceHealthCheck" where
  "checkService now (NoRequest err) svc = updateServiceStatus now HealthStatusUnhealthy 0 err svc"
| "checkService now (NoAnswer err latency) svc = updateServiceStatus now HealthStatusUnhealthy latency err svc"
| "checkService now (Answer code status latency) svc =
     (if 200 \<le> code \<and> code < 300 then updateServiceStatus now HealthStatusHealthy latency [] svc
      else if 500 \<le> code then updateServiceStatus now HealthStatusUnhealthy latency (''HTTP '' @ status) svc
      else updateServiceStatus now HealthStatusDegraded latency (''HTTP '' @ status) svc)"

text \<open>\<open>CheckAll\<close>: the goroutines end in the order \<open>ks\<close>; \<open>at k\<close> and \<open>outcome k\<close> are of the service \<open>k\<close>.\<close>

definition CheckAll :: "string list \<Rightarrow> (string \<Rightarrow> time) \<Rightarrow> (string \<Rightarrow> probe) \<Rightarrow> HealthChecker \<Rightarrow> HealthChecker" where
  "CheckAll ks at outcome hc =
     hc\<lparr>hc_services := fold (\<lambda>k m. m(k := map_option (checkService (at k) (outcome k)) (m k))) ks (hc_services hc)\<rparr>"

definition Start :: "string list \<Rightarrow> (string \<Rightarrow> time) \<Rightarrow> (string \<Rightarrow> probe) \<Rightarrow> HealthChecker \<Rightarrow> HealthChecker" where
  "Start ks at outcome hc =
     (if hc_running hc then hc else CheckAll ks at outcome (hc\<lparr>hc_running := True\<rparr>))"

definition Stop :: "HealthChecker \<Rightarrow> HealthChecker" where
  "Stop hc = (if \<not> hc_running hc then hc else hc\<lparr>hc_running := False\<rparr>)"

section \<open>Reports\<close>

record ServiceHealth =
  sv_Name :: string
  sv_URL :: string
  sv_Status :: HealthStatus
  sv_Latency :: duration
  sv_LastChecked :: time
  sv_LastError :: string
  sv_Consecutive :: int64

record AggregatedHealth =
  ah_Status :: HealthStatus
  ah_Services :: "ServiceHealth list"
  ah_Healthy :: int64
  ah_Unhealthy :: int64
  ah_Degraded :: int64
  ah_Unknown :: int64
  ah_CheckedAt :: time

text \<open>The copy of a service's state, with the latency in milliseconds (division towards zero).\<close>

definition service_health :: "serviceHealthCheck \<Rightarrow> ServiceHealth" where
  "service_health svc =
     \<lparr>sv_Name = hs_name svc, sv_URL = hs_url svc, sv_Status = hs_status svc,
      sv_Latency = hs_latency svc sdiv 10 ^ 6, sv_LastChecked = hs_lastChecked svc,
      sv_LastError = hs_lastError svc, sv_Consecutive = hs_consecutive svc\<rparr>"

definition GetServiceHealth :: "string \<Rightarrow> HealthChecker \<Rightarrow> ServiceHealth option" where
  "GetServiceHealth name hc = map_option service_health (hc_services hc name)"

definition count_status :: "serviceHealthCheck \<Rightarrow> AggregatedHealth \<Rightarrow> AggregatedHealth" where
  "count_status svc h =
     (let h1 = h\<lparr>ah_Services := ah_Services h @ [service_health svc]\<rparr>
      in case hs_status svc of
           HealthStatusHealthy \<Rightarrow> h1\<lparr>ah_Healthy := ah_Healthy h1 + 1\<rparr>
         | HealthStatusUnhealthy \<Rightarrow> h1\<lparr>ah_Unhealthy := ah_Unhealthy h1 + 1\<rparr>
         | HealthStatusDegraded \<Rightarrow> h1\<lparr>ah_Degraded := ah_Degraded h1 + 1\<rparr>
         | HealthStatusUnknown \<Rightarrow> h1\<lparr>ah_Unknown := ah_Unknown h1 + 1\<rparr>)"

definition GetAggregatedHealth :: "string list \<Rightarrow> time \<Rightarrow> HealthChecker \<Rightarrow> AggregatedHealth" where
  "GetAggregatedHealth ks now hc =
     (let h = fold (\<lambda>k. count_status (the (hc_services hc k))) ks
            \<lparr>ah_Status = HealthStatusHealthy, ah_Services = [], ah_Healthy = 0, ah_Unhealthy = 0,
             ah_Degraded = 0, ah_Unknown = 0, ah_CheckedAt = now\<rparr>
      in if 0 < sint (ah_Unhealthy h) then h\<lparr>ah_Status := HealthStatusUnhealthy\<rparr>
         else if 0 < sint (ah_Degraded h) \<or> 0 < sint (ah_Unknown h) then h\<lparr>ah_Status := HealthStatusDegraded\<rparr>
         else h)"

text \<open>The status codes of the endpoints; \<open>ReadinessHandler\<close> also writes \<open>ready\<close> or \<open>not_ready\<close>.\<close>

definition HealthHandler :: "string list \<Rightarrow> time \<Rightarrow> HealthChecker \<Rightarrow> nat" where
  "HealthHandler ks now hc =
     (case ah_Status (GetAggregatedHealth ks now hc) of
        HealthStatusHealthy \<Rightarrow> 200 | HealthStatusDegraded \<Rightarrow> 200 | _ \<Rightarrow> 503)"

definition LivenessHandler :: nat where
  "LivenessHandler = 200"

definition ReadinessHandler :: "string list \<Rightarrow> time \<Rightarrow> HealthChecker \<Rightarrow> nat \<times> string" where
  "ReadinessHandler ks now hc =
     (if ah_Status (GetAggregatedHealth ks now hc) = HealthStatusUnhealthy then (503, ''not_ready'')
      else (200, ''ready''))"

section \<open>The checks\<close>

text \<open>Each service is checked once, whatever the order in which the goroutines end.\<close>

lemma fold_update_each:
  "distinct ks \<Longrightarrow> fold (\<lambda>k m. m(k := map_option (f k) (m k))) ks m k =
    (if k \<in> set ks then map_option (f k) (m k) else m k)"
  by (induction ks arbitrary: m) auto

lemma CheckAll_services:
  assumes "iteration_of ks (hc_services hc)"
  shows "hc_services (CheckAll ks at outcome hc) k =
    map_option (checkService (at k) (outcome k)) (hc_services hc k)"
  using assms by (auto simp: CheckAll_def iteration_of_def fold_update_each domIff)

section \<open>The aggregation\<close>

text \<open>How a status counts in the report: a service that was never checked counts as degraded.\<close>

fun reported :: "HealthStatus \<Rightarrow> HealthStatus" where
  "reported HealthStatusUnknown = HealthStatusDegraded"
| "reported s = s"

definition statuses :: "HealthChecker \<Rightarrow> HealthStatus set" where
  "statuses hc = hs_status ` ran (hc_services hc)"

definition counted :: "HealthStatus \<Rightarrow> AggregatedHealth \<Rightarrow> int64" where
  "counted s h =
     (case s of HealthStatusHealthy \<Rightarrow> ah_Healthy h | HealthStatusUnhealthy \<Rightarrow> ah_Unhealthy h
      | HealthStatusDegraded \<Rightarrow> ah_Degraded h | HealthStatusUnknown \<Rightarrow> ah_Unknown h)"

lemma count_status_counted:
  "counted s (count_status svc h) = counted s h + (if hs_status svc = s then 1 else 0)"
  by (cases s; cases "hs_status svc") (simp_all add: counted_def count_status_def Let_def)

lemma count_status_fields:
  "ah_Status (count_status svc h) = ah_Status h"
  "ah_CheckedAt (count_status svc h) = ah_CheckedAt h"
  "ah_Services (count_status svc h) = ah_Services h @ [service_health svc]"
  by (cases "hs_status svc"; simp add: count_status_def Let_def)+

lemma fold_count_status:
  "counted s (fold (\<lambda>k. count_status (svc k)) ks h) =
     counted s h + of_nat (length (filter (\<lambda>k. hs_status (svc k) = s) ks))"
  "ah_Status (fold (\<lambda>k. count_status (svc k)) ks h) = ah_Status h"
  "ah_Services (fold (\<lambda>k. count_status (svc k)) ks h) = ah_Services h @ map (service_health \<circ> svc) ks"
  by (induction ks arbitrary: h) (simp_all add: count_status_counted count_status_fields)

lemma iteration_count:
  assumes "iteration_of ks m"
  shows "length (filter (\<lambda>k. P (the (m k))) ks) = card {k. \<exists>x. m k = Some x \<and> P x}"
proof -
  have "card (set (filter (\<lambda>k. P (the (m k))) ks)) = length (filter (\<lambda>k. P (the (m k))) ks)"
    using assms by (intro distinct_card) (simp add: iteration_of_def)
  moreover have "set (filter (\<lambda>k. P (the (m k))) ks) = {k. \<exists>x. m k = Some x \<and> P x}"
    using assms by (auto simp: iteration_of_def domIff)
  ultimately show ?thesis by simp
qed

text \<open>The overall status is decided by which statuses occur.\<close>

definition overall :: "HealthStatus set \<Rightarrow> HealthStatus" where
  "overall S =
     (if HealthStatusUnhealthy \<in> S then HealthStatusUnhealthy
      else if HealthStatusDegraded \<in> S \<or> HealthStatusUnknown \<in> S then HealthStatusDegraded
      else HealthStatusHealthy)"

lemma finite_statuses: "finite (S :: HealthStatus set)"
proof (rule finite_subset)
  show "S \<subseteq> {HealthStatusHealthy, HealthStatusUnhealthy, HealthStatusDegraded, HealthStatusUnknown}"
  proof
    fix s
    show "s \<in> {HealthStatusHealthy, HealthStatusUnhealthy, HealthStatusDegraded, HealthStatusUnknown}"
      by (cases s) simp_all
  qed
qed simp

lemma severity_le [simp]: "HealthStatusHealthy \<le> s" "s \<le> HealthStatusUnhealthy"
  by (cases s; simp add: less_eq_HealthStatus_def)+

lemma overall_worst: "overall S = Max (insert HealthStatusHealthy (reported ` S))"
proof (rule Max_eqI [symmetric])
  show "finite (insert HealthStatusHealthy (reported ` S))" by (rule finite_statuses)
  show "overall S \<in> insert HealthStatusHealthy (reported ` S)"
    by (auto simp: overall_def intro: rev_image_eqI)
  fix y
  assume "y \<in> insert HealthStatusHealthy (reported ` S)"
  then consider "y = HealthStatusHealthy" | s where "s \<in> S" "y = reported s" by blast
  then show "y \<le> overall S"
  proof cases
    case (2 s)
    then show ?thesis by (cases s) (auto simp: overall_def less_eq_HealthStatus_def)
  qed simp
qed

lemma GetAggregatedHealth_counted:
  assumes "iteration_of ks (hc_services hc)" "length ks < 2 ^ 63"
  shows "sint (counted s (GetAggregatedHealth ks now hc)) =
      int (card {k. \<exists>svc. hc_services hc k = Some svc \<and> hs_status svc = s})"
    and "ah_Status (GetAggregatedHealth ks now hc) = overall (statuses hc)"
proof -
  define start where "start = \<lparr>ah_Status = HealthStatusHealthy, ah_Services = [], ah_Healthy = 0, ah_Unhealthy = 0,
             ah_Degraded = 0, ah_Unknown = 0, ah_CheckedAt = now\<rparr>"
  define h where "h = fold (\<lambda>k. count_status (the (hc_services hc k))) ks start"
  let ?n = "\<lambda>s. card {k. \<exists>svc. hc_services hc k = Some svc \<and> hs_status svc = s}"
  have n: "sint (counted s h) = int (?n s)" for s
  proof -
    have "counted s h = of_nat (length (filter (\<lambda>k. hs_status (the (hc_services hc k)) = s) ks))"
      unfolding h_def fold_count_status by (cases s) (simp_all add: counted_def start_def)
    also have "length (filter (\<lambda>k. hs_status (the (hc_services hc k)) = s) ks) = ?n s"
      by (rule iteration_count [OF assms(1)])
    finally have "counted s h = word_of_int (int (?n s))" by simp
    moreover have "?n s \<le> length ks"
      using iteration_count [OF assms(1), of "\<lambda>svc. hs_status svc = s"]
        length_filter_le [of "\<lambda>k. hs_status (the (hc_services hc k)) = s" ks] by simp
    ultimately show ?thesis using assms(2) by (simp only:) (rule sint64_of_int; simp)
  qed
  have finite: "finite {k. \<exists>svc. hc_services hc k = Some svc \<and> hs_status svc = s}" for s
    by (rule finite_subset [of _ "dom (hc_services hc)"])
       (use assms(1) finite_set [of ks] in \<open>auto simp: iteration_of_def\<close>)
  have pos: "0 < sint (counted s h) \<longleftrightarrow> s \<in> statuses hc" for s
    unfolding n statuses_def using finite [of s]
    by (auto simp: card_gt_0_iff ran_def)
  have report: "GetAggregatedHealth ks now hc = h\<lparr>ah_Status := overall (statuses hc)\<rparr>"
    using pos [of HealthStatusUnhealthy] pos [of HealthStatusDegraded] pos [of HealthStatusUnknown]
      fold_count_status(2) [of "\<lambda>k. the (hc_services hc k)" ks start]
    by (auto simp: GetAggregatedHealth_def Let_def overall_def counted_def h_def start_def)
  show "ah_Status (GetAggregatedHealth ks now hc) = overall (statuses hc)" by (simp add: report)
  have "counted s (h\<lparr>ah_Status := overall (statuses hc)\<rparr>) = counted s h"
    by (simp add: counted_def split: HealthStatus.split)
  with n show "sint (counted s (GetAggregatedHealth ks now hc)) = int (?n s)" by (simp add: report)
qed

section \<open>Properties\<close>

text \<open>
  After all services are checked, in whatever order their goroutines end and the report visits
  them, the reported status is the worst that any probe shows, a report counts every service
  once under its status, and the readiness endpoint refuses exactly when a service is unhealthy.
\<close>

theorem aggregated_health_worst:
  fixes hc :: HealthChecker
  assumes "iteration_of ks (hc_services hc)" "iteration_of ks' (hc_services hc)" "length ks' < 2 ^ 63"
  shows "let checked = CheckAll ks at outcome hc;
             status = (\<lambda>k. map_option (\<lambda>svc. hs_status (checkService (at k) (outcome k) svc)) (hc_services hc k));
             h = GetAggregatedHealth ks' now checked
    in ah_Status h = Max (insert HealthStatusHealthy (ran status)) \<and>
       (\<forall>s. sint (counted s h) = int (card {k. status k = Some s})) \<and>
       fst (ReadinessHandler ks' now checked) = (if HealthStatusUnhealthy \<in> ran status then 503 else 200)"
proof -
  let ?checked = "CheckAll ks at outcome hc"
  let ?status = "\<lambda>k. map_option (\<lambda>svc. hs_status (checkService (at k) (outcome k) svc)) (hc_services hc k)"
  have services: "hc_services ?checked k = map_option (checkService (at k) (outcome k)) (hc_services hc k)" for k
    by (rule CheckAll_services) (rule assms)
  then have order: "iteration_of ks' (hc_services ?checked)"
    using assms(2) by (auto simp: iteration_of_def domIff)
  have ran: "statuses ?checked = ran ?status"
    unfolding statuses_def ran_def services by (auto simp: image_iff)
  have known: "hs_status (checkService t p svc) \<noteq> HealthStatusUnknown" for t p svc
    by (cases p) (simp_all add: updateServiceStatus_def)
  then have "HealthStatusUnknown \<notin> ran ?status" by (auto simp: ran_def)
  then have "\<forall>s \<in> ran ?status. reported s = s" by (metis reported.simps HealthStatus.exhaust)
  then have same: "reported ` ran ?status = ran ?status" by simp
  have count: "{k. \<exists>svc. hc_services ?checked k = Some svc \<and> hs_status svc = s} = {k. ?status k = Some s}" for s
    unfolding services by auto
  note report = GetAggregatedHealth_counted [OF order assms(3), where now = now, unfolded ran count]
  have unhealthy: "overall (ran ?status) = HealthStatusUnhealthy \<longleftrightarrow> HealthStatusUnhealthy \<in> ran ?status"
    by (simp add: overall_def)
  note status = trans [OF report(2) overall_worst [of "ran ?status", unfolded same]]
  have "fst (ReadinessHandler ks' now ?checked) = (if HealthStatusUnhealthy \<in> ran ?status then 503 else 200)"
    unfolding ReadinessHandler_def report(2) unhealthy by simp
  with status report(1) show ?thesis unfolding Let_def by blast
qed

text \<open>Two services, one of which answers with a server error.\<close>

definition example_checker :: HealthChecker where
  "example_checker = AddService ''ledger'' ''http://ledger'' (AddService ''account'' ''http://account'' (NewHealthChecker 0))"

lemma aggregated_health_worst_witness:
  "fst (ReadinessHandler [''account'', ''ledger''] 9
     (CheckAll [''ledger'', ''account''] (\<lambda>_. 1)
       (\<lambda>k. if k = ''ledger'' then Answer 500 ''500'' 7 else Answer 200 ''200'' 7) example_checker)) = 503"
proof -
  let ?outcome = "\<lambda>k. if k = ''ledger'' then Answer 500 ''500'' 7 else Answer 200 ''200'' 7"
  have "iteration_of [''ledger'', ''account''] (hc_services example_checker)"
      "iteration_of [''account'', ''ledger''] (hc_services example_checker)"
    by (auto simp: iteration_of_def example_checker_def AddService_def NewHealthChecker_def)
  from aggregated_health_worst [OF this, where at = "\<lambda>_. 1" and outcome = ?outcome and now = 9]
  have "fst (ReadinessHandler [''account'', ''ledger''] 9
      (CheckAll [''ledger'', ''account''] (\<lambda>_. 1) ?outcome example_checker)) =
    (if HealthStatusUnhealthy \<in> ran (\<lambda>k. map_option (\<lambda>svc. hs_status (checkService 1 (?outcome k) svc))
        (hc_services example_checker k)) then 503 else 200)"
    by (simp add: Let_def)
  moreover have "HealthStatusUnhealthy \<in>
      ran (\<lambda>k. map_option (\<lambda>svc. hs_status (checkService 1 (?outcome k) svc)) (hc_services example_checker k))"
    by (rule ranI [where a = "''ledger''"]) (simp add: example_checker_def AddService_def updateServiceStatus_def)
  ultimately show ?thesis by (simp only: if_True)
qed

end
