(* ===== verification/Gateway.thy ===== *)
theory Gateway
  imports AuthMiddleware Security RateLimit CircuitBreaker Health
begin

text \<open>
  The API gateway, \<open>libs/gateway/gateway.go\<close>: its services and routes, the choice of the route, and
  \<open>ServeHTTP\<close>, which takes a request through the rate limiters, the credentials, the required
  roles and the circuit breaker of the service to the backend, and reports the outcome to the
  breaker; with the middleware that \<open>Handler\<close> puts around it.

  The gateway is the place where the rate limiters, the managers of tokens, keys and roles, the
  breakers and the health checker meet; their models are those of their theories.  A backend, with
  the reverse proxy in front of it, is an argument: it acts on a state \<open>'w\<close> of the outside world and
  always gives a response.  (The proxy of the library panics with \<open>ErrAbortHandler\<close> when a backend breaks off
  in the middle of a body; the report to the breaker comes after the call and not in a \<open>defer\<close>, so it is then
  left out.  That path is not modelled.)  Requests are served one after the other here.
\<close>

section \<open>Configuration\<close>

record ServiceConfig =
  sc_Name :: string
  sc_URL :: string
  sc_HealthEndpoint :: string
  sc_Timeout :: duration
  sc_MaxRetries :: int64
  sc_CircuitBreaker :: "CircuitConfig option"
  sc_Headers :: metadata

record RouteConfig =
  rc_Path :: string
  rc_Methods :: "string list"
  rc_Service :: string
  rc_StripPrefix :: string
  rc_Rewrite :: string
  rc_RequireAuth :: bool
  rc_RateLimit :: int64
  rc_Roles :: "string list"
  rc_Version :: string
  rc_Deprecated :: bool
  rc_Sunset :: string

record GatewayConfig =
  gc_Services :: "string \<rightharpoonup> ServiceConfig"
  gc_Routes :: "RouteConfig list"
  gc_DefaultTimeout :: duration
  gc_RequestTimeout :: duration
  gc_EnableMetrics :: bool
  gc_EnableLogging :: bool
  gc_CORSConfig :: "SecurityConfig option"
  gc_RateLimitConfig :: "RateLimitConfig option"

definition DefaultGatewayConfig :: GatewayConfig where
  "DefaultGatewayConfig =
     \<lparr>gc_Services = Map.empty, gc_Routes = [], gc_DefaultTimeout = 30 * 10 ^ 9, gc_RequestTimeout = 60 * 10 ^ 9,
      gc_EnableMetrics = True, gc_EnableLogging = True, gc_CORSConfig = None, gc_RateLimitConfig = None\<rparr>"

section \<open>The gateway\<close>

text \<open>
  The proxy of a service: its configuration, the timeout of its transport, and its breaker if one is
  configured.  A route refers to the proxy of its service by the name.
\<close>

record serviceProxy =
  sp_config :: ServiceConfig
  sp_timeout :: duration
  sp_breaker :: "CircuitBreaker option"

record routeHandler =
  rh_config :: RouteConfig
  rh_service :: string
  rh_limiter :: "RateLimiter option"

record RequestLog =
  rl_RequestID :: string
  rl_Method :: string
  rl_Path :: string
  rl_Query :: string
  rl_ClientIP :: string
  rl_Service :: string
  rl_Timestamp :: time

record ResponseLog =
  pl_RequestID :: string
  pl_StatusCode :: nat
  pl_Duration :: duration
  pl_BytesSent :: int64
  pl_Timestamp :: time

datatype log_entry = LogRequest RequestLog | LogResponse ResponseLog

text \<open>The logger is the list of what was logged, \<open>None\<close> if none is set.\<close>

record Gateway =
  gw_config :: GatewayConfig
  gw_services :: "string \<rightharpoonup> serviceProxy"
  gw_routes :: "routeHandler list"
  gw_healthChecker :: HealthChecker
  gw_jwtManager :: JWTManager
  gw_apiKeyManager :: APIKeyManager
  gw_rbacManager :: RBACManager
  gw_rateLimiter :: "RateLimiter option"
  gw_requestLogger :: "log_entry list option"

datatype gateway_error = GwErrServiceURL string | GwErrServiceNotFound string string

text \<open>\<open>url_ok\<close> says which texts \<open>url.Parse\<close> accepts; \<open>now\<close> is read by a new breaker.\<close>

definition gw_addService ::
  "(string \<Rightarrow> bool) \<Rightarrow> time \<Rightarrow> string \<Rightarrow> ServiceConfig \<Rightarrow> Gateway \<Rightarrow> gateway_error option \<times> Gateway" where
  "gw_addService url_ok now name config g =
     (if \<not> url_ok (sc_URL config) then (Some (GwErrServiceURL name), g)
      else
        let timeout = (if sc_Timeout config = 0 then gc_DefaultTimeout (gw_config g) else sc_Timeout config);
            svc = \<lparr>sp_config = config, sp_timeout = timeout,
                   sp_breaker = map_option (\<lambda>c. NewCircuitBreaker now (Some c)) (sc_CircuitBreaker config)\<rparr>;
            healthURL = (if sc_HealthEndpoint config = [] then sc_URL config
                         else sc_URL config @ sc_HealthEndpoint config)
        in (None, g\<lparr>gw_services := (gw_services g)(name \<mapsto> svc),
                    gw_healthChecker := AddService name healthURL (gw_healthChecker g)\<rparr>))"

text \<open>The limiter of a route: its rate is per minute, its burst the requests of ten seconds.\<close>

definition route_limiter :: "RouteConfig \<Rightarrow> RateLimiter option" where
  "route_limiter config =
     (if 0 < sint (rc_RateLimit config)
      then Some (NewRateLimiter (Some \<lparr>rc_RequestsPerSecond = of_int (sint (rc_RateLimit config)) / 60,
             rc_BurstSize = word_of_int (sint (rc_RateLimit config) sdiv 6),
             rc_CleanupInterval = 60 * 10 ^ 9, rc_KeyFunc = DefaultKeyFunc\<rparr>))
      else None)"

definition gw_addRoute :: "RouteConfig \<Rightarrow> Gateway \<Rightarrow> gateway_error option \<times> Gateway" where
  "gw_addRoute config g =
     (case gw_services g (rc_Service config) of
        None \<Rightarrow> (Some (GwErrServiceNotFound (rc_Path config) (rc_Service config)), g)
      | Some svc \<Rightarrow>
          (None, g\<lparr>gw_routes := gw_routes g @
             [\<lparr>rh_config = config, rh_service = rc_Service config, rh_limiter = route_limiter config\<rparr>]\<rparr>))"

fun gw_addServices ::
  "(string \<Rightarrow> bool) \<Rightarrow> (string \<Rightarrow> time) \<Rightarrow> string list \<Rightarrow> (string \<rightharpoonup> ServiceConfig) \<Rightarrow> Gateway \<Rightarrow>
    gateway_error + Gateway" where
  "gw_addServices url_ok now [] services g = Inr g"
| "gw_addServices url_ok now (name # names) services g =
     (case gw_addService url_ok (now name) name (the (services name)) g of
        (Some err, g') \<Rightarrow> Inl err | (None, g') \<Rightarrow> gw_addServices url_ok now names services g')"

fun gw_addRoutes :: "RouteConfig list \<Rightarrow> Gateway \<Rightarrow> gateway_error + Gateway" where
  "gw_addRoutes [] g = Inr g"
| "gw_addRoutes (config # configs) g =
     (case gw_addRoute config g of (Some err, g') \<Rightarrow> Inl err | (None, g') \<Rightarrow> gw_addRoutes configs g')"

text \<open>\<open>ks\<close> is the order in which the services are visited, \<open>now\<close> the instants their breakers read.\<close>

definition NewGateway ::
  "(string \<Rightarrow> bool) \<Rightarrow> string list \<Rightarrow> (string \<Rightarrow> time) \<Rightarrow> GatewayConfig option \<Rightarrow> gateway_error + Gateway" where
  "NewGateway url_ok ks now config_option =
     (let config = (case config_option of None \<Rightarrow> DefaultGatewayConfig | Some c \<Rightarrow> c);
          g = \<lparr>gw_config = config, gw_services = Map.empty, gw_routes = [],
               gw_healthChecker = NewHealthChecker (10 * 10 ^ 9), gw_jwtManager = NewJWTManager None,
               gw_apiKeyManager = NewAPIKeyManager, gw_rbacManager = NewRBACManager,
               gw_rateLimiter = map_option (\<lambda>c. NewRateLimiter (Some c)) (gc_RateLimitConfig config),
               gw_requestLogger = None\<rparr>
      in case gw_addServices url_ok now ks (gc_Services config) g of
           Inl err \<Rightarrow> Inl err
         | Inr g' \<Rightarrow> gw_addRoutes (gc_Routes config) g')"

section \<open>Routing\<close>

definition matchPath :: "string \<Rightarrow> string \<Rightarrow> bool" where
  "matchPath pattern path =
     (if has_suffix pattern ''*'' then has_prefix path (trim_suffix ''*'' pattern)
      else if has_suffix pattern ''/'' then has_prefix path pattern
      else path = pattern \<or> has_prefix path (pattern @ ''/''))"

definition extractVersionFromPath :: "string \<Rightarrow> string" where
  "extractVersionFromPath path =
     (case split_char CHR ''/'' (trim_prefix ''/'' path) of
        [] \<Rightarrow> []
      | part # parts \<Rightarrow> if has_prefix part ''v'' then part else [])"

definition requested_version :: "Request \<Rightarrow> string" where
  "requested_version r =
     (if rq_Header r ''X-API-Version'' = [] then extractVersionFromPath (rq_Path r)
      else rq_Header r ''X-API-Version'')"

definition path_and_method :: "Request \<Rightarrow> RouteConfig \<Rightarrow> bool" where
  "path_and_method r config \<longleftrightarrow>
     matchPath (rc_Path config) (rq_Path r) \<and> (rc_Methods config = [] \<or> rq_Method r \<in> set (rc_Methods config))"

fun find_index :: "('a \<Rightarrow> bool) \<Rightarrow> 'a list \<Rightarrow> nat option" where
  "find_index P [] = None"
| "find_index P (x # xs) = (if P x then Some 0 else map_option Suc (find_index P xs))"

text \<open>The two loops of \<open>findRoute\<close>; the result is the position of the route.\<close>

definition findRoute :: "Gateway \<Rightarrow> Request \<Rightarrow> nat option" where
  "findRoute g r =
     (let version = requested_version r in
      case find_index (\<lambda>route. let config = rh_config route in
             \<not> (rc_Version config \<noteq> [] \<and> rc_Version config \<noteq> version \<and> version \<noteq> []) \<and>
             path_and_method r config) (gw_routes g) of
        Some i \<Rightarrow> Some i
      | None \<Rightarrow> find_index (\<lambda>route. let config = rh_config route in
             rc_Version config = [] \<and> path_and_method r config) (gw_routes g))"

section \<open>Serving a request\<close>

text \<open>The instants and draws of an operation from the \<open>n\<close>-th on.\<close>

definition later :: "nat \<Rightarrow> env \<Rightarrow> env" where
  "later n e = \<lparr>entropy = (\<lambda>i. entropy e (n + i)), clock = (\<lambda>i. clock e (n + i))\<rparr>"

definition gw_generateRequestID :: "time \<Rightarrow> string" where
  "gw_generateRequestID now = (if now < 0 then ''-'' else []) @ decimal (nat \<bar>now\<bar>)"

definition getClientIP :: "Request \<Rightarrow> string" where
  "getClientIP r =
     (if rq_Header r ''X-Forwarded-For'' \<noteq> [] then hd (split_char CHR '','' (rq_Header r ''X-Forwarded-For''))
      else if rq_Header r ''X-Real-IP'' \<noteq> [] then rq_Header r ''X-Real-IP'' else rq_RemoteAddr r)"

definition zero_claims :: Claims where
  "zero_claims =
     \<lparr>cl_Subject = [], cl_Issuer = [], cl_Audience = [], cl_ExpiresAt = 0, cl_IssuedAt = 0, cl_NotBefore = 0,
      cl_TokenID = [], cl_TokenType = [], cl_Email = [], cl_Name = [], cl_Roles = [], cl_TenantID = [],
      cl_Scope = []\<rparr>"

text \<open>\<open>authenticate\<close>: an error text or claims, and the keys afterwards.\<close>

definition authenticate ::
  "(string \<Rightarrow> byte list) \<Rightarrow> JwtLibrary \<Rightarrow> env \<Rightarrow> Gateway \<Rightarrow> Request \<Rightarrow> (string + Claims) \<times> APIKeyManager" where
  "authenticate sha256 lib e g r =
     (let keys = gw_apiKeyManager g in
      if rq_Header r ''X-API-Key'' \<noteq> [] then
        (case ValidateAPIKey sha256 e (rq_Header r ''X-API-Key'') keys of
           (Inl err, keys') \<Rightarrow> (Inl (apikey_error_text err), keys')
         | (Inr key, keys') \<Rightarrow> (Inr (zero_claims\<lparr>cl_Subject := ak_ServiceID key, cl_Roles := ak_Roles key\<rparr>), keys'))
      else if rq_Header r ''Authorization'' = [] then (Inl ''no authentication provided'', keys)
      else
        case ExtractTokenFromHeader (rq_Header r ''Authorization'') of
          Inl err \<Rightarrow> (Inl (jwt_error_text err), keys)
        | Inr token \<Rightarrow>
          (case jwt_ValidateToken lib (clock e 0) (gw_jwtManager g) token of
             Inl err \<Rightarrow> (Inl (jwt_error_text err), keys) | Inr claims \<Rightarrow> (Inr claims, keys)))"

text \<open>The headers of the response that do not depend on what follows the choice of the route.\<close>

definition route_headers :: "RouteConfig \<Rightarrow> (string \<rightharpoonup> string) \<Rightarrow> (string \<rightharpoonup> string)" where
  "route_headers config h =
     (let h = (if rc_Deprecated config then
            (let h = h(''Deprecation'' \<mapsto> ''true'');
                 h = (if rc_Sunset config = [] then h else h(''Sunset'' \<mapsto> rc_Sunset config))
             in h(''X-Deprecated-Message'' \<mapsto> ''This API version is deprecated. Please upgrade to a newer version.''))
          else h)
      in if rc_Version config = [] then h else h(''X-API-Version'' \<mapsto> rc_Version config))"

text \<open>The rate limit: that of the route if it has one, else that of the gateway if it has one.\<close>

definition gw_limit :: "env \<Rightarrow> nat \<Rightarrow> Request \<Rightarrow> Gateway \<Rightarrow> bool \<times> Gateway" where
  "gw_limit e i r g =
     (let route = gw_routes g ! i; key = DefaultKeyFunc r in
      case rh_limiter route of
        Some limiter \<Rightarrow>
          (case rl_Allow (clock e 0) (clock e 1) key limiter of
             (ok, limiter') \<Rightarrow> (ok, g\<lparr>gw_routes := (gw_routes g)[i := route\<lparr>rh_limiter := Some limiter'\<rparr>]\<rparr>))
      | None \<Rightarrow>
          (case gw_rateLimiter g of
             None \<Rightarrow> (True, g)
           | Some limiter \<Rightarrow>
               (case rl_Allow (clock e 0) (clock e 1) key limiter of
                  (ok, limiter') \<Rightarrow> (ok, g\<lparr>gw_rateLimiter := Some limiter'\<rparr>))))"

text \<open>The credentials and the roles: \<open>None\<close> goes on, \<open>Some\<close> is the status, code and message of an error.\<close>

definition gw_authorize ::
  "(string \<Rightarrow> byte list) \<Rightarrow> JwtLibrary \<Rightarrow> env \<Rightarrow> RouteConfig \<Rightarrow> Request \<Rightarrow> Gateway \<Rightarrow>
    (nat \<times> string \<times> string) option \<times> Gateway" where
  "gw_authorize sha256 lib e config r g =
     (if \<not> rc_RequireAuth config then (None, g)
      else
        case authenticate sha256 lib e g r of
          (Inl err, keys) \<Rightarrow> (Some (401, ''unauthorized'', err), g\<lparr>gw_apiKeyManager := keys\<rparr>)
        | (Inr claims, keys) \<Rightarrow>
            (if rc_Roles config \<noteq> [] \<and> \<not> shares_role (cl_Roles claims) (rc_Roles config)
             then Some (403, ''forbidden'', ''Insufficient permissions'') else None,
             g\<lparr>gw_apiKeyManager := keys\<rparr>))"

text \<open>The breaker of a service, asked and told.\<close>

definition with_breaker :: "string \<Rightarrow> CircuitBreaker \<Rightarrow> Gateway \<Rightarrow> Gateway" where
  "with_breaker name cb g =
     g\<lparr>gw_services := (gw_services g)(name \<mapsto> (the (gw_services g name))\<lparr>sp_breaker := Some cb\<rparr>)\<rparr>"

definition gw_admit :: "env \<Rightarrow> string \<Rightarrow> Gateway \<Rightarrow> bool \<times> Gateway" where
  "gw_admit e name g =
     (case sp_breaker (the (gw_services g name)) of
        None \<Rightarrow> (True, g)
      | Some cb \<Rightarrow> (case Allow e cb of (ok, cb', ns) \<Rightarrow> (ok, with_breaker name cb' g)))"

definition gw_report :: "env \<Rightarrow> string \<Rightarrow> nat \<Rightarrow> Gateway \<Rightarrow> Gateway" where
  "gw_report e name status g =
     (case sp_breaker (the (gw_services g name)) of
        None \<Rightarrow> g
      | Some cb \<Rightarrow>
          with_breaker name (fst (if 500 \<le> status then RecordFailure e cb else RecordSuccess e cb)) g)"

definition gw_log :: "log_entry \<Rightarrow> Gateway \<Rightarrow> Gateway" where
  "gw_log entry g =
     (if gc_EnableLogging (gw_config g)
      then g\<lparr>gw_requestLogger := map_option (\<lambda>entries. entries @ [entry]) (gw_requestLogger g)\<rparr> else g)"

definition request_log :: "string \<Rightarrow> time \<Rightarrow> RouteConfig \<Rightarrow> Request \<Rightarrow> log_entry" where
  "request_log requestID start config r =
     LogRequest \<lparr>rl_RequestID = requestID, rl_Method = rq_Method r, rl_Path = rq_Path r,
       rl_Query = rq_RawQuery r, rl_ClientIP = getClientIP r, rl_Service = rc_Service config,
       rl_Timestamp = start\<rparr>"

definition response_log :: "string \<Rightarrow> time \<Rightarrow> nat \<Rightarrow> int64 \<Rightarrow> env \<Rightarrow> log_entry" where
  "response_log requestID start status bytes e =
     LogResponse \<lparr>pl_RequestID = requestID, pl_StatusCode = status, pl_Duration = time_sub (clock e 0) start,
       pl_BytesSent = bytes, pl_Timestamp = clock e 1\<rparr>"

text \<open>The request that goes to the backend: the path rewritten, and the headers of the service set.\<close>

definition backend_request :: "RouteConfig \<Rightarrow> ServiceConfig \<Rightarrow> Request \<Rightarrow> Request" where
  "backend_request config svc r =
     (let path = (if rc_StripPrefix config = [] then rq_Path r else trim_prefix (rc_StripPrefix config) (rq_Path r));
          path = (if rc_Rewrite config = [] then path else rc_Rewrite config)
      in r\<lparr>rq_Path := path, rq_Header := (\<lambda>h. case sc_Headers svc of None \<Rightarrow> rq_Header r h
             | Some headers \<Rightarrow> (case headers h of None \<Rightarrow> rq_Header r h | Some v \<Rightarrow> v))\<rparr>)"

text \<open>
  A backend: from the URL of the service, the request and the headers set so far, the response and
  the number of bytes written.  It is total: a panic of the proxy is not modelled.
\<close>

type_synonym 'w backend = "string \<Rightarrow> Request \<Rightarrow> (string \<rightharpoonup> string) \<Rightarrow> 'w \<Rightarrow> (Response \<times> int64) \<times> 'w"

definition ServeHTTP ::
  "(string \<Rightarrow> byte list) \<Rightarrow> JwtLibrary \<Rightarrow> 'w backend \<Rightarrow> env \<Rightarrow> (string \<rightharpoonup> string) \<Rightarrow> Request \<Rightarrow>
    Gateway \<times> 'w \<Rightarrow> Response \<times> (Gateway \<times> 'w)" where
  "ServeHTTP sha256 lib backend e h0 r gw =
     (let (g, w) = gw; start = clock e 0;
          requestID = (if rq_Header r ''X-Request-ID'' = [] then gw_generateRequestID (clock e 1)
                       else rq_Header r ''X-Request-ID'');
          h = h0(''X-Request-ID'' \<mapsto> requestID)
      in case findRoute g r of
           None \<Rightarrow> (writeJSONError h 404 ''route_not_found'' ''No route matches the request'', (g, w))
         | Some i \<Rightarrow>
           let config = rh_config (gw_routes g ! i); name = rh_service (gw_routes g ! i);
               g1 = gw_log (request_log requestID start config r) g;
               h = route_headers config h
           in case gw_limit (later 2 e) i r g1 of
                (False, g2) \<Rightarrow> (writeJSONError h 429 ''rate_limit_exceeded'' ''Too many requests'', (g2, w))
              | (True, g2) \<Rightarrow>
                case gw_authorize sha256 lib (later 4 e) config r g2 of
                  (Some (status, code, message), g3) \<Rightarrow> (writeJSONError h status code message, (g3, w))
                | (None, g3) \<Rightarrow>
                  case gw_admit (later 8 e) name g3 of
                    (False, g4) \<Rightarrow>
                      (writeJSONError h 503 ''service_unavailable'' ''Service temporarily unavailable'', (g4, w))
                  | (True, g4) \<Rightarrow>
                    let svc = sp_config (the (gw_services g4 name));
                        ((response, bytes), w') = backend (sc_URL svc) (backend_request config svc r) h w;
                        g5 = gw_report (later 10 e) name (rp_Status response) g4;
                        g6 = gw_log (response_log requestID start (rp_Status response) bytes (later 12 e)) g5
                    in (response, (g6, w')))"

text \<open>\<open>Handler\<close>: the security middleware if it is configured, and request ids around it.\<close>

definition gateway_Handler ::
  "(string \<Rightarrow> byte list) \<Rightarrow> JwtLibrary \<Rightarrow> 'w backend \<Rightarrow> env \<Rightarrow> GatewayConfig \<Rightarrow> (Context, Gateway \<times> 'w) handler" where
  "gateway_Handler sha256 lib backend e config =
     (let serve = (\<lambda>x. ServeHTTP sha256 lib backend e (ex_Headers x) (ex_Request x));
          secured = (case gc_CORSConfig config of
             None \<Rightarrow> serve | Some c \<Rightarrow> gate (security_Handler (NewSecurityMiddleware (Some c))) serve)
      in gate RequestIDMiddleware secured)"

definition SetRequestLogger :: "log_entry list option \<Rightarrow> Gateway \<Rightarrow> Gateway" where
  "SetRequestLogger logger g = g\<lparr>gw_requestLogger := logger\<rparr>"

definition SetJWTManager :: "JWTManager \<Rightarrow> Gateway \<Rightarrow> Gateway" where
  "SetJWTManager manager g = g\<lparr>gw_jwtManager := manager\<rparr>"

definition SetAPIKeyManager :: "APIKeyManager \<Rightarrow> Gateway \<Rightarrow> Gateway" where
  "SetAPIKeyManager manager g = g\<lparr>gw_apiKeyManager := manager\<rparr>"

definition SetRBACManager :: "RBACManager \<Rightarrow> Gateway \<Rightarrow> Gateway" where
  "SetRBACManager manager g = g\<lparr>gw_rbacManager := manager\<rparr>"

section \<open>The choice of the route\<close>

text \<open>
  A route serves a request when its path and methods match and it has no version, the request asks
  for none, or they are the same.
\<close>

definition serves :: "Request \<Rightarrow> routeHandler \<Rightarrow> bool" where
  "serves r route \<longleftrightarrow>
     (rc_Version (rh_config route) = [] \<or> requested_version r = [] \<or>
      rc_Version (rh_config route) = requested_version r) \<and>
     path_and_method r (rh_config route)"

lemma find_index_None: "find_index P xs = None \<longleftrightarrow> (\<forall>x \<in> set xs. \<not> P x)"
  by (induction xs) simp_all

lemma all_less_Suc0: "(\<forall>j < Suc k. P j) \<longleftrightarrow> P 0 \<and> (\<forall>j < k. P (Suc j))"
  by (auto simp: less_Suc_eq_0_disj)

lemma find_index_Some:
  "find_index P xs = Some i \<longleftrightarrow> i < length xs \<and> P (xs ! i) \<and> (\<forall>j < i. \<not> P (xs ! j))"
proof (induction xs arbitrary: i)
  case (Cons x xs)
  show ?case
  proof (cases i)
    case (Suc k)
    then show ?thesis using Cons.IH [of k] by (auto simp: all_less_Suc0)
  qed auto
qed simp

lemma find_index_cong: "(\<And>x. P x = Q x) \<Longrightarrow> find_index P xs = find_index Q xs"
  by (induction xs) simp_all

lemma findRoute_serves: "findRoute g r = find_index (serves r) (gw_routes g)"
proof -
  let ?first = "\<lambda>route. let config = rh_config route in
      \<not> (rc_Version config \<noteq> [] \<and> rc_Version config \<noteq> requested_version r \<and> requested_version r \<noteq> []) \<and>
      path_and_method r config"
  have same: "find_index ?first (gw_routes g) = find_index (serves r) (gw_routes g)"
    by (rule find_index_cong) (auto simp: serves_def Let_def)
  show ?thesis
  proof (cases "find_index (serves r) (gw_routes g)")
    case None
    then have "find_index (\<lambda>route. let config = rh_config route in rc_Version config = [] \<and>
        path_and_method r config) (gw_routes g) = None"
      by (auto simp: find_index_None serves_def Let_def)
    with None same show ?thesis by (simp add: findRoute_def Let_def)
  next
    case (Some i)
    with same show ?thesis by (simp add: findRoute_def Let_def)
  qed
qed

lemma findRoute_bound: "findRoute g r = Some i \<Longrightarrow> i < length (gw_routes g)"
  by (simp add: findRoute_serves find_index_Some)

section \<open>What a request changes\<close>

text \<open>The stages of \<open>ServeHTTP\<close> and the parts of the gateway they touch.\<close>

lemma gw_log_simps [simp]:
  "gw_services (gw_log entry g) = gw_services g" "gw_routes (gw_log entry g) = gw_routes g"
  "gw_apiKeyManager (gw_log entry g) = gw_apiKeyManager g" "gw_jwtManager (gw_log entry g) = gw_jwtManager g"
  "gw_rateLimiter (gw_log entry g) = gw_rateLimiter g" "gw_config (gw_log entry g) = gw_config g"
  by (simp_all add: gw_log_def)

lemma gw_limit_simps:
  assumes "gw_limit e i r g = (ok, g')"
  shows "gw_services g' = gw_services g" "gw_apiKeyManager g' = gw_apiKeyManager g"
    "gw_jwtManager g' = gw_jwtManager g"
  using assms by (auto simp: gw_limit_def Let_def split: option.splits prod.splits)

lemma gw_authorize_simps:
  assumes "gw_authorize sha256 lib e config r g = (err, g')"
  shows "gw_services g' = gw_services g" "gw_routes g' = gw_routes g" "gw_rateLimiter g' = gw_rateLimiter g"
  using assms by (auto simp: gw_authorize_def split: if_splits prod.splits sum.splits)

lemma gw_admit_simps:
  assumes "gw_admit e name g = (ok, g')"
  shows "gw_routes g' = gw_routes g" "gw_rateLimiter g' = gw_rateLimiter g"
  using assms by (auto simp: gw_admit_def with_breaker_def split: option.splits prod.splits)

lemma gw_report_simps [simp]:
  "gw_routes (gw_report e name status g) = gw_routes g" "gw_rateLimiter (gw_report e name status g) = gw_rateLimiter g"
  by (simp_all add: gw_report_def with_breaker_def split: option.split)

text \<open>
  The ways a request takes through \<open>ServeHTTP\<close>: no route, refused by a limiter, by the check of the
  credentials, by the breaker, or proxied.
\<close>

lemma ServeHTTP_cases:
  assumes "ServeHTTP sha256 lib backend e h r (g, w) = (response, (g', w'))"
  obtains (no_route) "findRoute g r = None" "rp_Status response = 404" "g' = g" "w' = w"
  | (limited) i g1 where "findRoute g r = Some i" "gw_limit (later 2 e) i r g1 = (False, g')"
      "gw_services g1 = gw_services g" "gw_routes g1 = gw_routes g" "gw_rateLimiter g1 = gw_rateLimiter g"
      "rp_Status response = 429" "w' = w"
  | (rejected) i g1 g2 status code message where "findRoute g r = Some i"
      "gw_services g1 = gw_services g" "gw_routes g1 = gw_routes g" "gw_rateLimiter g1 = gw_rateLimiter g"
      "gw_limit (later 2 e) i r g1 = (True, g2)"
      "gw_authorize sha256 lib (later 4 e) (rh_config (gw_routes g ! i)) r g2 = (Some (status, code, message), g')"
      "rp_Status response = status" "w' = w"
  | (refused) i g1 g2 g3 where "findRoute g r = Some i"
      "gw_services g1 = gw_services g" "gw_routes g1 = gw_routes g" "gw_rateLimiter g1 = gw_rateLimiter g"
      "gw_limit (later 2 e) i r g1 = (True, g2)"
      "gw_authorize sha256 lib (later 4 e) (rh_config (gw_routes g ! i)) r g2 = (None, g3)"
      "gw_admit (later 8 e) (rh_service (gw_routes g ! i)) g3 = (False, g')"
      "rp_Status response = 503" "w' = w"
  | (proxied) i g1 g2 g3 g4 h' bytes entry where "findRoute g r = Some i"
      "gw_services g1 = gw_services g" "gw_routes g1 = gw_routes g" "gw_rateLimiter g1 = gw_rateLimiter g"
      "gw_apiKeyManager g1 = gw_apiKeyManager g" "gw_jwtManager g1 = gw_jwtManager g"
      "gw_limit (later 2 e) i r g1 = (True, g2)"
      "gw_authorize sha256 lib (later 4 e) (rh_config (gw_routes g ! i)) r g2 = (None, g3)"
      "gw_admit (later 8 e) (rh_service (gw_routes g ! i)) g3 = (True, g4)"
      "backend (sc_URL (sp_config (the (gw_services g4 (rh_service (gw_routes g ! i))))))
         (backend_request (rh_config (gw_routes g ! i)) (sp_config (the (gw_services g4 (rh_service (gw_routes g ! i))))) r)
         h' w = ((response, bytes), w')"
      "g' = gw_log entry (gw_report (later 10 e) (rh_service (gw_routes g ! i)) (rp_Status response) g4)"
proof (cases "findRoute g r")
  case None
  then have "response = writeJSONError (h(''X-Request-ID'' \<mapsto> if rq_Header r ''X-Request-ID'' = [] then gw_generateRequestID (clock e 1) else rq_Header r ''X-Request-ID'')) 404 ''route_not_found'' ''No route matches the request'' \<and> g' = g \<and> w' = w"
    using assms by (simp add: ServeHTTP_def)
  with None show thesis by (intro no_route) (simp_all add: writeJSONError_def)
next
  case (Some i)
  note facts = Some
  let ?id = "if rq_Header r ''X-Request-ID'' = [] then gw_generateRequestID (clock e 1) else rq_Header r ''X-Request-ID''"
  let ?route = "gw_routes g ! i" and ?g1 = "gw_log (request_log ?id (clock e 0) (rh_config (gw_routes g ! i)) r) g"
  obtain ok g2 where limit: "gw_limit (later 2 e) i r ?g1 = (ok, g2)" by fastforce
  obtain err g3 where auth: "gw_authorize sha256 lib (later 4 e) (rh_config ?route) r g2 = (err, g3)" by fastforce
  obtain admits g4 where admit: "gw_admit (later 8 e) (rh_service ?route) g3 = (admits, g4)" by fastforce
  note run = assms [unfolded ServeHTTP_def Let_def prod.case Some option.case limit]
  show thesis
  proof (cases ok)
    case False
    then have "response = writeJSONError (route_headers (rh_config ?route) (h(''X-Request-ID'' \<mapsto> ?id))) 429
        ''rate_limit_exceeded'' ''Too many requests'' \<and> g' = g2 \<and> w' = w"
      using run by simp
    with limit False show thesis
      by (intro limited [OF Some, of ?g1]) (simp_all add: writeJSONError_def)
  next
    case ok: True
    let ?h = "route_headers (rh_config ?route) (h(''X-Request-ID'' \<mapsto> ?id))"
    show thesis
    proof (cases err)
      case (Some answer)
      obtain status code message where "answer = (status, code, message)" by (cases answer)
      with Some have err: "err = Some (status, code, message)" by simp
      then have "response = writeJSONError ?h status code message \<and> g' = g3 \<and> w' = w"
        using run ok auth by simp
      with limit auth ok err show thesis
        by (intro rejected [OF facts, of ?g1 g2 status code message]) (simp_all add: writeJSONError_def)
    next
      case authorized: None
      show thesis
      proof (cases admits)
        case False
        then have "response = writeJSONError ?h 503 ''service_unavailable'' ''Service temporarily unavailable'' \<and>
            g' = g4 \<and> w' = w"
          using run ok auth authorized admit by simp
        with limit auth ok authorized admit False show thesis
          by (intro refused [OF facts, of ?g1 g2 g3]) (simp_all add: writeJSONError_def)
      next
        case admits: True
        let ?svc = "sp_config (the (gw_services g4 (rh_service ?route)))"
        obtain response' bytes w1 where answer: "backend (sc_URL ?svc) (backend_request (rh_config ?route) ?svc r) ?h w =
            ((response', bytes), w1)"
          by (metis prod.exhaust)
        let ?entry = "response_log ?id (clock e 0) (rp_Status response') bytes (later 12 e)"
        have "response = response' \<and> w' = w1 \<and>
            g' = gw_log ?entry (gw_report (later 10 e) (rh_service ?route) (rp_Status response') g4)"
          using run ok auth authorized admit admits answer by (clarsimp split del: if_split)
        then obtain entry where "response = response'" "w' = w1"
            "g' = gw_log entry (gw_report (later 10 e) (rh_service ?route) (rp_Status response') g4)"
          by blast
        with limit auth ok authorized admit admits answer show thesis
          by (intro proxied [OF facts, of ?g1 g2 g3 g4]) simp_all
      qed
    qed
  qed
qed

section \<open>Well-formed gateways\<close>

text \<open>
  The type of a gateway: every route has the registered service it names, and a limiter just when it has a
  rate limit.  A rate limit of \<open>n\<close> requests a minute gives every client a bucket that never has more than the
  requests of ten seconds, \<open>n div 6\<close>, and is refilled by \<open>n\<close> in sixty seconds.
\<close>

definition limiter_fits :: "RouteConfig \<Rightarrow> RateLimiter option \<Rightarrow> bool" where
  "limiter_fits config limiter \<longleftrightarrow>
     (case limiter of
        None \<Rightarrow> sint (rc_RateLimit config) \<le> 0
      | Some rl \<Rightarrow>
          0 < sint (rc_RateLimit config) \<and>
          rc_RequestsPerSecond (rl_config rl) * 60 = of_int (sint (rc_RateLimit config)) \<and>
          sint (rc_BurstSize (rl_config rl)) = sint (rc_RateLimit config) div 6 \<and>
          (\<forall>key b. rl_buckets rl key = Some b \<longrightarrow>
             tb_maxTokens b = of_int (sint (rc_RateLimit config) div 6) \<and>
             tb_refillRate b * 60 = of_int (sint (rc_RateLimit config)) \<and>
             tb_tokens b \<le> of_int (sint (rc_RateLimit config) div 6)))"

definition gateway_ok :: "Gateway \<Rightarrow> bool" where
  "gateway_ok g \<longleftrightarrow>
     (\<forall>route \<in> set (gw_routes g).
        rh_service route = rc_Service (rh_config route) \<and> rc_Service (rh_config route) \<in> dom (gw_services g) \<and>
        limiter_fits (rh_config route) (rh_limiter route))"

lemma gateway_ok_cong:
  "gw_routes g' = gw_routes g \<Longrightarrow> dom (gw_services g') = dom (gw_services g) \<Longrightarrow> gateway_ok g' = gateway_ok g"
  by (simp add: gateway_ok_def)

lemma tb_Allow_fields:
  assumes "tb_Allow now b = (ok, b')"
  shows "tb_maxTokens b' = tb_maxTokens b" "tb_refillRate b' = tb_refillRate b" "tb_tokens b' \<le> tb_maxTokens b"
  using assms by (auto simp: tb_Allow_def refill_def Let_def split: if_splits)

lemma rl_Allow_fits:
  assumes "limiter_fits config (Some rl)" "rl_Allow now now' key rl = (ok, rl')"
  shows "limiter_fits config (Some rl')"
proof -
  let ?b = "case rl_buckets rl key of Some b \<Rightarrow> b
    | None \<Rightarrow> NewTokenBucket now (of_int (sint (rc_BurstSize (rl_config rl)))) (rc_RequestsPerSecond (rl_config rl))"
  obtain b where b: "tb_Allow now' ?b = (ok, b)"
    and rl': "rl' = rl\<lparr>rl_buckets := (rl_buckets rl)(key \<mapsto> b)\<rparr>"
    using assms(2) by (auto simp: rl_Allow_def Let_def split: prod.splits)
  have "tb_maxTokens ?b = of_int (sint (rc_RateLimit config) div 6) \<and>
      tb_refillRate ?b * 60 = of_int (sint (rc_RateLimit config))"
    using assms(1) by (auto simp: limiter_fits_def NewTokenBucket_def split: option.split)
  with tb_Allow_fields [OF b] assms(1) show ?thesis
    by (auto simp: limiter_fits_def rl')
qed

lemma gw_limit_ok:
  assumes "gateway_ok g" "i < length (gw_routes g)" "gw_limit e i r g = (ok, g')"
  shows "gateway_ok g'" "map rh_config (gw_routes g') = map rh_config (gw_routes g)"
    "map rh_service (gw_routes g') = map rh_service (gw_routes g)"
proof -
  let ?route = "gw_routes g ! i"
  have route: "?route \<in> set (gw_routes g)" using assms(2) by simp
  have "gateway_ok g' \<and> map rh_config (gw_routes g') = map rh_config (gw_routes g) \<and>
      map rh_service (gw_routes g') = map rh_service (gw_routes g)"
  proof (cases "rh_limiter ?route")
    case None
    with assms(3) have "gw_routes g' = gw_routes g" "gw_services g' = gw_services g"
      by (auto simp: gw_limit_def Let_def split: option.splits prod.splits)
    with assms(1) show ?thesis using gateway_ok_cong [of g' g] by simp
  next
    case (Some limiter)
    obtain limiter' where allow: "rl_Allow (clock e 0) (clock e 1) (DefaultKeyFunc r) limiter = (ok, limiter')"
        and g': "g' = g\<lparr>gw_routes := (gw_routes g)[i := ?route\<lparr>rh_limiter := Some limiter'\<rparr>]\<rparr>"
      using assms(3) Some by (auto simp: gw_limit_def Let_def split: prod.splits)
    have ok: "rh_service ?route = rc_Service (rh_config ?route) \<and> rc_Service (rh_config ?route) \<in> dom (gw_services g) \<and>
        limiter_fits (rh_config ?route) (Some limiter)"
      using assms(1) route Some unfolding gateway_ok_def by metis
    then have "limiter_fits (rh_config ?route) (Some limiter')" using rl_Allow_fits allow by blast
    with ok assms(1) have "gateway_ok g'"
      by (auto simp: gateway_ok_def g' dest: set_update_subset_insert [THEN subsetD])
    then show ?thesis by (simp add: g' map_update) (metis assms(2) list_update_id nth_map)
  qed
  then show "gateway_ok g'" "map rh_config (gw_routes g') = map rh_config (gw_routes g)"
    "map rh_service (gw_routes g') = map rh_service (gw_routes g)" by blast+
qed

lemma with_breaker_dom: "name \<in> dom (gw_services g) \<Longrightarrow> dom (gw_services (with_breaker name cb g)) = dom (gw_services g)"
  by (auto simp: with_breaker_def)

lemma with_breaker_routes [simp]: "gw_routes (with_breaker name cb g) = gw_routes g"
  by (simp add: with_breaker_def)

definition service_configs :: "Gateway \<Rightarrow> (string \<rightharpoonup> ServiceConfig)" where
  "service_configs g = (\<lambda>m. map_option sp_config (gw_services g m))"

lemma service_configs_dom: "service_configs g' = service_configs g \<Longrightarrow> dom (gw_services g') = dom (gw_services g)"
  unfolding service_configs_def dom_def by (metis (no_types, lifting) option.map_disc_iff)

lemma with_breaker_configs:
  "name \<in> dom (gw_services g) \<Longrightarrow> service_configs (with_breaker name cb g) = service_configs g"
  by (auto simp: with_breaker_def service_configs_def fun_eq_iff)

lemma gw_admit_configs:
  "gw_admit e name g = (ok, g') \<Longrightarrow> name \<in> dom (gw_services g) \<Longrightarrow> service_configs g' = service_configs g"
  using with_breaker_configs by (simp add: gw_admit_def split: option.splits prod.splits) blast

lemma gw_report_configs:
  "name \<in> dom (gw_services g) \<Longrightarrow> service_configs (gw_report e name status g) = service_configs g"
  by (simp add: gw_report_def with_breaker_configs split: option.split)

lemma service_configs_cong: "gw_services g' = gw_services g \<Longrightarrow> service_configs g' = service_configs g"
  by (simp add: service_configs_def)

text \<open>Serving a request keeps the gateway well-formed, and the routes it has.\<close>

definition same_routes :: "Gateway \<Rightarrow> Gateway \<Rightarrow> bool" where
  "same_routes g g' \<longleftrightarrow> map rh_config (gw_routes g') = map rh_config (gw_routes g) \<and>
     map rh_service (gw_routes g') = map rh_service (gw_routes g) \<and> service_configs g' = service_configs g"

lemma ServeHTTP_ok:
  assumes "gateway_ok g" "ServeHTTP sha256 lib backend e h r (g, w) = (response, (g', w'))"
  shows "gateway_ok g' \<and> same_routes g g'"
proof -
  have limit: "gateway_ok g2 \<and> same_routes g g2 \<and> rh_service (gw_routes g ! i) \<in> dom (gw_services g2)"
    if "findRoute g r = Some i" "gw_limit (later 2 e) i r g1 = (ok, g2)" "gw_services g1 = gw_services g"
      "gw_routes g1 = gw_routes g" for i g1 g2 ok
  proof -
    have ok1: "gateway_ok g1" using assms(1) that(3,4) gateway_ok_cong [of g1 g] by simp
    have i: "i < length (gw_routes g1)" using findRoute_bound [OF that(1)] that(4) by simp
    then have "gw_routes g ! i \<in> set (gw_routes g)" using that(4) by simp
    with assms(1) have "rh_service (gw_routes g ! i) \<in> dom (gw_services g)"
      unfolding gateway_ok_def by metis
    then show ?thesis
      using gw_limit_ok [OF ok1 i that(2)] gw_limit_simps(1) [OF that(2)] that(3,4) service_configs_cong [of g2 g]
      unfolding same_routes_def by simp
  qed
  have keep: "gateway_ok g3 \<and> same_routes g g3"
    if "gateway_ok g2 \<and> same_routes g g2" "gw_routes g3 = gw_routes g2" "service_configs g3 = service_configs g2"
    for g2 g3
    using that gateway_ok_cong [of g3 g2] service_configs_dom [of g3 g2] by (simp add: same_routes_def)
  from assms(2) show ?thesis
  proof (cases rule: ServeHTTP_cases)
    case no_route
    with assms(1) show ?thesis by (simp add: same_routes_def)
  next
    case (limited i g1)
    from limit [OF limited(1-4)] show ?thesis by simp
  next
    case (rejected i g1 g2)
    from limit [OF rejected(1,5,2,3)] gw_authorize_simps [OF rejected(6)] show ?thesis
      using keep [of g2 g'] service_configs_cong [of g' g2] by simp
  next
    case (refused i g1 g2 g3)
    from limit [OF refused(1,5,2,3)] gw_authorize_simps [OF refused(6)]
    have "gateway_ok g3 \<and> same_routes g g3" "rh_service (gw_routes g ! i) \<in> dom (gw_services g3)"
      using keep [of g2 g3] service_configs_cong [of g3 g2] by simp_all
    with gw_admit_simps [OF refused(7)] gw_admit_configs [OF refused(7)] show ?thesis
      using keep [of g3 g'] by simp
  next
    case (proxied i g1 g2 g3 g4 h' bytes entry)
    from limit [OF proxied(1,7,2,3)] gw_authorize_simps [OF proxied(8)]
    have g3: "gateway_ok g3 \<and> same_routes g g3" "rh_service (gw_routes g ! i) \<in> dom (gw_services g3)"
      using keep [of g2 g3] service_configs_cong [of g3 g2] by simp_all
    with gw_admit_simps [OF proxied(9)] gw_admit_configs [OF proxied(9)]
    have "gateway_ok g4 \<and> same_routes g g4" "rh_service (gw_routes g ! i) \<in> dom (gw_services g4)"
      using keep [of g3 g4] service_configs_dom [of g4 g3] by simp_all
    with gw_report_configs proxied(11) show ?thesis
      using keep [of g4 g'] service_configs_cong [of g' "gw_report (later 10 e) (rh_service (gw_routes g ! i)) (rp_Status response) g4"]
      by simp
  qed
qed

text \<open>A new gateway is well-formed, and has the routes of its configuration in their order.\<close>

lemma gw_addServices_routes: "gw_addServices url_ok now ks services g = Inr g' \<Longrightarrow> gw_routes g' = gw_routes g"
  by (induction ks arbitrary: g) (auto simp: gw_addService_def Let_def split: option.splits if_splits prod.splits)

lemma sint_ten_seconds:
  fixes n :: int64
  assumes "0 < sint n"
  shows "sint (word_of_int (sint n sdiv 6) :: int64) = sint n div 6"
proof -
  have "sint n sdiv 6 = sint n div 6"
    using assms by (simp add: signed_divide_int_def)
  moreover have "0 \<le> sint n div 6" "sint n div 6 < 2 ^ 63"
    using assms sint64_bounds [of n] by auto
  ultimately show ?thesis
    by (simp add: sint64_of_int)
qed

lemma route_limiter_fits: "limiter_fits config (route_limiter config)"
  by (simp add: limiter_fits_def route_limiter_def NewRateLimiter_def sint_ten_seconds)

lemma gw_addRoutes_ok:
  "gw_addRoutes configs g = Inr g' \<Longrightarrow> gateway_ok g \<Longrightarrow>
    gateway_ok g' \<and> map rh_config (gw_routes g') = map rh_config (gw_routes g) @ configs"
proof (induction configs arbitrary: g)
  case Nil
  then show ?case by simp
next
  case (Cons config configs)
  let ?g = "g\<lparr>gw_routes := gw_routes g @
      [\<lparr>rh_config = config, rh_service = rc_Service config, rh_limiter = route_limiter config\<rparr>]\<rparr>"
  have "rc_Service config \<in> dom (gw_services g)" "gw_addRoutes configs ?g = Inr g'"
    using Cons.prems(1) by (auto simp: gw_addRoute_def split: option.splits)
  moreover from this(1) Cons.prems(2) have "gateway_ok ?g"
    unfolding gateway_ok_def using route_limiter_fits by simp
  ultimately show ?case using Cons.IH [of ?g] by simp
qed

lemma NewGateway_ok:
  assumes "NewGateway url_ok ks now config = Inr g"
  shows "gateway_ok g"
    and "map rh_config (gw_routes g) = gc_Routes (case config of None \<Rightarrow> DefaultGatewayConfig | Some c \<Rightarrow> c)"
proof -
  let ?config = "case config of None \<Rightarrow> DefaultGatewayConfig | Some c \<Rightarrow> c"
  obtain g0 g1 where "gw_addServices url_ok now ks (gc_Services ?config) g0 = Inr g1" "gw_routes g0 = []"
      and routes: "gw_addRoutes (gc_Routes ?config) g1 = Inr g"
    using assms unfolding NewGateway_def Let_def by (simp split: sum.splits)
  then have "gw_routes g1 = []" using gw_addServices_routes by metis
  then have "gateway_ok g1" by (simp add: gateway_ok_def)
  with gw_addRoutes_ok [OF routes] \<open>gw_routes g1 = []\<close>
  show "gateway_ok g" "map rh_config (gw_routes g) = gc_Routes ?config" by simp_all
qed

lemma gw_addServices_services:
  "gw_addServices url_ok now ks services g = Inr g' \<Longrightarrow>
    m \<in> set ks \<and> (\<exists>s. gw_services g' m = Some s \<and> sp_config s = the (services m) \<and>
       sp_breaker s = map_option (\<lambda>c. NewCircuitBreaker (now m) (Some c)) (sc_CircuitBreaker (the (services m)))) \<or>
    m \<notin> set ks \<and> gw_services g' m = gw_services g m"
proof (induction ks arbitrary: g)
  case Nil
  then show ?case by simp
next
  case (Cons k ks)
  obtain g1 where "gw_addService url_ok (now k) k (the (services k)) g = (None, g1)"
      and rest: "gw_addServices url_ok now ks services g1 = Inr g'"
    using Cons.prems by (auto split: option.splits prod.splits)
  then have "gw_services g1 m = (if m = k then gw_services g1 k else gw_services g m)"
      "\<exists>s. gw_services g1 k = Some s \<and> sp_config s = the (services k) \<and>
        sp_breaker s = map_option (\<lambda>c. NewCircuitBreaker (now k) (Some c)) (sc_CircuitBreaker (the (services k)))"
    by (auto simp: gw_addService_def Let_def split: if_splits)
  with Cons.IH [OF rest] show ?case by (cases "m = k") auto
qed

lemma gw_addRoutes_services: "gw_addRoutes configs g = Inr g' \<Longrightarrow> gw_services g' = gw_services g"
  by (induction configs arbitrary: g) (auto simp: gw_addRoute_def split: option.splits)

lemma NewGateway_services:
  assumes "NewGateway url_ok ks now (Some config) = Inr g" "iteration_of ks (gc_Services config)"
  shows "service_configs g = gc_Services config"
    and "gw_services g m = Some s \<Longrightarrow>
      sp_breaker s = map_option (\<lambda>c. NewCircuitBreaker (now m) (Some c)) (sc_CircuitBreaker (sp_config s))"
proof -
  obtain g0 g1 where services: "gw_addServices url_ok now ks (gc_Services config) g0 = Inr g1"
      and start: "gw_services g0 = Map.empty" and routes: "gw_addRoutes (gc_Routes config) g1 = Inr g"
    using assms(1) unfolding NewGateway_def Let_def by (simp split: sum.splits)
  note g = gw_addServices_services [OF services] gw_addRoutes_services [OF routes] start
  have "service_configs g m = gc_Services config m" for m
    using g(1) [of m] g(2,3) assms(2) by (cases "gc_Services config m") (auto simp: service_configs_def iteration_of_def domIff)
  then show "service_configs g = gc_Services config" by auto
  show "sp_breaker s = map_option (\<lambda>c. NewCircuitBreaker (now m) (Some c)) (sc_CircuitBreaker (sp_config s))"
    if "gw_services g m = Some s"
    using g(1) [of m] g(2,3) that by auto
qed

text \<open>A sequence of requests, with the instants each reads and the headers it starts with.\<close>

type_synonym arrival = "env \<times> (string \<rightharpoonup> string) \<times> Request"

definition serve_step ::
  "(string \<Rightarrow> byte list) \<Rightarrow> JwtLibrary \<Rightarrow> 'w backend \<Rightarrow> arrival \<Rightarrow> Gateway \<times> 'w \<Rightarrow> Gateway \<times> 'w" where
  "serve_step sha256 lib backend a gw =
     snd (ServeHTTP sha256 lib backend (fst a) (fst (snd a)) (snd (snd a)) gw)"

lemma serve_step_ok:
  assumes "gateway_ok (fst gw)"
  shows "gateway_ok (fst (serve_step sha256 lib backend a gw))" "same_routes (fst gw) (fst (serve_step sha256 lib backend a gw))"
proof -
  obtain e h r where a: "a = (e, h, r)" by (cases a)
  obtain g w where gw: "gw = (g, w)" by (cases gw)
  obtain response g' w' where serve: "ServeHTTP sha256 lib backend e h r (g, w) = (response, (g', w'))"
    by (cases "ServeHTTP sha256 lib backend e h r (g, w)") auto
  from ServeHTTP_ok [OF _ this] assms
  show "gateway_ok (fst (serve_step sha256 lib backend a gw))" "same_routes (fst gw) (fst (serve_step sha256 lib backend a gw))"
    by (simp_all add: serve_step_def a gw serve)
qed

lemma same_routes_trans: "same_routes g1 g2 \<Longrightarrow> same_routes g2 g3 \<Longrightarrow> same_routes g1 g3"
  by (simp add: same_routes_def)

interpretation serving: monotone_machine "serve_step sha256 lib backend" "\<lambda>gw a. True"
  "\<lambda>gw. gateway_ok (fst gw)" "\<lambda>x y. same_routes (fst x) (fst y)"
  by unfold_locales (use serve_step_ok same_routes_trans in \<open>simp_all add: same_routes_def\<close>)

section \<open>The breaker of a service\<close>

text \<open>The breaker of a service after the two calls of a proxied request.\<close>

definition outcome :: "nat \<Rightarrow> env \<Rightarrow> cb_action" where
  "outcome status e = (if 500 \<le> status then CallFailure e else CallSuccess e)"

lemma gw_report_outcome:
  "gw_report e name status g = (case sp_breaker (the (gw_services g name)) of
     None \<Rightarrow> g | Some cb \<Rightarrow> with_breaker name (cb_step (outcome status e) cb) g)"
  by (simp add: gw_report_def outcome_def cb_step_def split: option.split)

lemma gw_admit_call:
  "gw_admit e name g = (case sp_breaker (the (gw_services g name)) of None \<Rightarrow> (True, g)
     | Some cb \<Rightarrow> (fst (cb_call (CallAllow e) cb), with_breaker name (cb_step (CallAllow e) cb) g))"
  by (simp add: gw_admit_def cb_step_def split: option.split prod.split)

lemma with_breaker_services:
  "gw_services (with_breaker name cb g) m =
    (if m = name then Some ((the (gw_services g name))\<lparr>sp_breaker := Some cb\<rparr>) else gw_services g m)"
  by (simp add: with_breaker_def)

lemma gw_admit_other: "gw_admit e m g = (ok, g') \<Longrightarrow> m \<noteq> name \<Longrightarrow> gw_services g' name = gw_services g name"
  by (auto simp: gw_admit_call with_breaker_services split: option.splits)

lemma gw_report_other: "m \<noteq> name \<Longrightarrow> gw_services (gw_report e m status g) name = gw_services g name"
  by (simp add: gw_report_outcome with_breaker_services split: option.split)

text \<open>
  What a request does to the breaker of a service: nothing, when the request is for another service or
  does not get that far; or it asks for admission and is refused; or it asks, is admitted, goes to the
  backend of the service, and reports one outcome, that of the response.
\<close>

lemma ServeHTTP_breaker:
  assumes "ServeHTTP sha256 lib backend e h r (g, w) = (response, (g', w'))"
    and svc: "gw_services g name = Some s" "sp_breaker s = Some cb" and ok: "gateway_ok g"
  obtains (none) "gw_services g' name = Some s" "w' = w"
  | (other) m s' q h' where "m \<noteq> name" "gw_services g m = Some s'" "gw_services g' name = Some s"
      "w' = snd (backend (sc_URL (sp_config s')) q h' w)"
  | (refused) "\<not> fst (cb_call (CallAllow (later 8 e)) cb)" "w' = w"
      "gw_services g' name = Some (s\<lparr>sp_breaker := Some (cb_step (CallAllow (later 8 e)) cb)\<rparr>)"
  | (proxied) q h' bytes where "fst (cb_call (CallAllow (later 8 e)) cb)"
      "backend (sc_URL (sp_config s)) q h' w = ((response, bytes), w')"
      "gw_services g' name = Some (s\<lparr>sp_breaker := Some (run cb_step
         [CallAllow (later 8 e), outcome (rp_Status response) (later 10 e)] cb)\<rparr>)"
proof -
  have frame: "gw_services g3 = gw_services g"
    if "gw_limit (later 2 e) i r g1 = (True, g2)" "gw_services g1 = gw_services g"
      "gw_authorize sha256 lib (later 4 e) config r g2 = (err, g3)" for i g1 g2 g3 config err
    using that gw_limit_simps(1) [OF that(1)] gw_authorize_simps(1) [OF that(3)] by simp
  from assms(1) show thesis
  proof (cases rule: ServeHTTP_cases)
    case no_route
    with svc none show thesis by simp
  next
    case (limited i g1)
    with svc none gw_limit_simps(1) [OF limited(2)] show thesis by simp
  next
    case (rejected i g1 g2)
    with svc none frame [OF rejected(5,2,6)] show thesis by simp
  next
    case (refused i g1 g2 g3)
    show thesis
    proof (cases "rh_service (gw_routes g ! i) = name")
      case True
      with refused(7) svc frame [OF refused(5,2,6)]
      show thesis by (intro that(3)) (auto simp: gw_admit_call with_breaker_services refused(9))
    next
      case False
      with gw_admit_other [OF refused(7)] svc frame [OF refused(5,2,6)] refused(9) none
      show thesis by simp
    qed
  next
    case (proxied i g1 g2 g3 g4 h' bytes entry)
    note g3 = frame [OF proxied(7,2,8)]
    show thesis
    proof (cases "rh_service (gw_routes g ! i) = name")
      case True
      have "fst (cb_call (CallAllow (later 8 e)) cb)"
          "gw_services g4 name = Some (s\<lparr>sp_breaker := Some (cb_step (CallAllow (later 8 e)) cb)\<rparr>)"
        using proxied(9) svc g3 True by (auto simp: gw_admit_call with_breaker_services)
      with proxied(10,11) True show thesis
        by (intro that(4)) (auto simp: gw_report_outcome with_breaker_services)
    next
      case False
      have same: "sp_config (the (gw_services g4 m)) = sp_config (the (gw_services g m))" for m
        using proxied(9) g3 by (auto simp: gw_admit_call with_breaker_services split: option.splits)
      have "gw_services g' name = Some s"
        using proxied(11) gw_report_other [OF False] gw_admit_other [OF proxied(9) False] g3 svc by simp
      moreover have "gw_routes g ! i \<in> set (gw_routes g)" using findRoute_bound [OF proxied(1)] by simp
      with ok obtain s' where s': "gw_services g (rh_service (gw_routes g ! i)) = Some s'"
        unfolding gateway_ok_def by (metis domD)
      moreover have "w' = snd (backend (sc_URL (sp_config s'))
          (backend_request (rh_config (gw_routes g ! i)) (sp_config s') r) h' w)"
        using proxied(10) same [of "rh_service (gw_routes g ! i)"] s' by simp
      ultimately show thesis using other [OF False] by blast
    qed
  qed
qed

section \<open>Credentials and limits of a route\<close>

lemma shares_role_iff: "shares_role userRoles requiredRoles \<longleftrightarrow> set userRoles \<inter> set requiredRoles \<noteq> {}"
  by (auto simp: shares_role_def list_ex_iff)

lemma gw_authorize_roles:
  assumes "gw_authorize sha256 lib e config r g = (None, g')" "rc_RequireAuth config"
  shows "\<exists>roles.
    (valid_api_key sha256 (clock e 0) (gw_apiKeyManager g) (rq_Header r ''X-API-Key'') roles \<or>
     (\<exists>token. ExtractTokenFromHeader (rq_Header r ''Authorization'') = Inr token \<and>
        valid_bearer lib (clock e 0) (gw_jwtManager g) token roles)) \<and>
    (rc_Roles config \<noteq> [] \<longrightarrow> set roles \<inter> set (rc_Roles config) \<noteq> {})"
proof -
  obtain claims keys where auth: "authenticate sha256 lib e g r = (Inr claims, keys)"
      and roles: "rc_Roles config \<noteq> [] \<longrightarrow> set (cl_Roles claims) \<inter> set (rc_Roles config) \<noteq> {}"
    using assms unfolding gw_authorize_def
    by (auto simp: shares_role_iff split: prod.splits sum.splits if_splits)
  show ?thesis
  proof (cases "rq_Header r ''X-API-Key'' = []")
    case False
    with auth obtain key where "ValidateAPIKey sha256 e (rq_Header r ''X-API-Key'') (gw_apiKeyManager g) = (Inr key, keys)"
        "cl_Roles claims = ak_Roles key"
      by (auto simp: authenticate_def Let_def split: prod.splits sum.splits)
    with ValidateAPIKey_valid roles show ?thesis by metis
  next
    case True
    with auth obtain token where "ExtractTokenFromHeader (rq_Header r ''Authorization'') = Inr token"
        "jwt_ValidateToken lib (clock e 0) (gw_jwtManager g) token = Inr claims"
      by (auto simp: authenticate_def Let_def split: sum.splits if_splits)
    with jwt_ValidateToken_bearer roles show ?thesis by metis
  qed
qed

text \<open>A limiter whose buckets are made for a burst of zero refuses everything.\<close>

lemma rl_Allow_no_burst:
  assumes "\<forall>key b. rl_buckets rl key = Some b \<longrightarrow> tb_maxTokens b = burst rl" "burst rl = 0"
  shows "\<not> fst (rl_Allow now now' key rl)"
proof -
  let ?b = "case rl_buckets rl key of Some b \<Rightarrow> b
    | None \<Rightarrow> NewTokenBucket now (of_int (sint (rc_BurstSize (rl_config rl)))) (rc_RequestsPerSecond (rl_config rl))"
  have "tb_maxTokens ?b = 0"
    using assms by (auto simp: burst_def NewTokenBucket_def split: option.split)
  then have "tb_tokens (refill now' ?b) \<le> 0" by (simp add: refill_tokens)
  then show ?thesis by (simp add: rl_Allow_def tb_Allow_def Let_def split: prod.split)
qed

lemma no_burst:
  assumes "limiter_fits (rh_config (gw_routes g ! i)) (rh_limiter (gw_routes g ! i))"
    and "0 < sint (rc_RateLimit (rh_config (gw_routes g ! i)))" "sint (rc_RateLimit (rh_config (gw_routes g ! i))) < 6"
  shows "gw_limit e i r g \<noteq> (True, g')"
proof -
  let ?n = "sint (rc_RateLimit (rh_config (gw_routes g ! i)))"
  have "?n div 6 = 0" using assms(2,3) by simp
  with assms(1,2) obtain rl where rl: "rh_limiter (gw_routes g ! i) = Some rl"
      "sint (rc_BurstSize (rl_config rl)) = 0"
      "\<forall>key b. rl_buckets rl key = Some b \<longrightarrow> tb_maxTokens b = 0"
    by (auto simp: limiter_fits_def split: option.splits)
  then have "\<not> fst (rl_Allow (clock e 0) (clock e 1) (DefaultKeyFunc r) rl)"
    by (intro rl_Allow_no_burst) (simp_all add: burst_def)
  with rl(1) show ?thesis by (auto simp: gw_limit_def Let_def split: prod.splits)
qed

lemma gateway_ok_fits:
  "gateway_ok g \<Longrightarrow> i < length (gw_routes g) \<Longrightarrow> limiter_fits (rh_config (gw_routes g ! i)) (rh_limiter (gw_routes g ! i))"
  by (simp add: gateway_ok_def)

section \<open>A service that fails\<close>

text \<open>
  A backend that counts the requests that go to one URL, and answers as \<open>answer\<close> says.
\<close>

definition counting :: "string \<Rightarrow> (string \<Rightarrow> Request \<Rightarrow> Response \<times> int64) \<Rightarrow> nat backend" where
  "counting url answer u r h n = (answer u r, if u = url then n + 1 else n)"

definition owns_url :: "string \<Rightarrow> string \<Rightarrow> Gateway \<Rightarrow> bool" where
  "owns_url name url g \<longleftrightarrow>
     (\<forall>m config. service_configs g m = Some config \<longrightarrow> (sc_URL config = url \<longleftrightarrow> m = name))"

lemma owns_urlD: "owns_url name url g \<Longrightarrow> gw_services g m = Some s \<Longrightarrow> sc_URL (sp_config s) = url \<longleftrightarrow> m = name"
  by (auto simp: owns_url_def service_configs_def)

text \<open>
  While every answer of the service \<open>name\<close> is a failure and the instants stay within the timeout
  of the breaker: as long as the breaker is closed it has counted the requests that went to the
  service, and once it is open it stays open.
\<close>

definition breaker_counts :: "CircuitConfig \<Rightarrow> time \<Rightarrow> nat \<Rightarrow> CircuitBreaker \<Rightarrow> bool" where
  "breaker_counts c t n cb \<longleftrightarrow>
     cb_inv cb \<and> cb_config cb = c \<and>
     (cb_abs cb = Closed (int n) \<or>
      (\<exists>u \<ge> t. cb_abs cb = Open u) \<and> int n = max 1 (sint (cc_MaxFailures c)))"

lemma breaker_counts_bound: "breaker_counts c t n cb \<Longrightarrow> int n \<le> max 1 (sint (cc_MaxFailures c))"
  by (auto simp: breaker_counts_def cb_abs_state cb_inv_def)

lemma breaker_counts_allow:
  assumes "breaker_counts c t n cb" "t \<le> clock e 0" "clock e 0 \<le> t + cc_Timeout c" "0 \<le> cc_Timeout c"
    "cc_Timeout c < max_duration"
  shows "fst (cb_call (CallAllow e) cb) \<longleftrightarrow> cb_abs cb = Closed (int n)"
    and "breaker_counts c t n (cb_step (CallAllow e) cb)"
    and "cb_abs (cb_step (CallAllow e) cb) = cb_abs cb"
proof -
  have cb: "cb_inv cb" "cb_config cb = c" using assms(1) by (simp_all add: breaker_counts_def)
  have "\<not> cc_Timeout c < time_sub (clock e 0) u" if "t \<le> u" for u
    using assms(3,4,5) that time_sub_le_iff [of "cc_Timeout c" "clock e 0" u] by linarith
  then have step: "(fst (cb_call (CallAllow e) cb) \<longleftrightarrow> cb_abs cb = Closed (int n)) \<and>
      cb_abs (cb_step (CallAllow e) cb) = cb_abs cb"
    using assms(1) allow_open [OF cb(1), of _ e] cb_abs_step(1) [OF cb(1), of "CallAllow e"] cb(2)
    by (auto simp: breaker_counts_def circuit_step_closed)
  then show "fst (cb_call (CallAllow e) cb) \<longleftrightarrow> cb_abs cb = Closed (int n)"
    "cb_abs (cb_step (CallAllow e) cb) = cb_abs cb" by simp_all
  with assms(1) cb show "breaker_counts c t n (cb_step (CallAllow e) cb)"
    by (simp add: breaker_counts_def cb_abs_step(2))
qed

lemma breaker_counts_failure:
  assumes "breaker_counts c t n cb" "cb_abs cb = Closed (int n)" "t \<le> clock e 0"
  shows "breaker_counts c t (n + 1) (cb_step (CallFailure e) cb)"
proof -
  have cb: "cb_inv cb" "cb_config cb = c" using assms(1) by (simp_all add: breaker_counts_def)
  have "cb_abs (cb_step (CallFailure e) cb) = Closed (int n + 1) \<or>
      cb_abs (cb_step (CallFailure e) cb) = Open (clock e 0) \<and> int n + 1 = max 1 (sint (cc_MaxFailures c))"
    using cb_abs_step(1) [OF cb(1), of "CallFailure e"] assms(2) cb(2) by (auto simp: circuit_step_closed)
  with cb assms(3) show ?thesis by (auto simp: breaker_counts_def cb_abs_step(2) add.commute)
qed

definition failing :: "string \<Rightarrow> string \<Rightarrow> CircuitConfig \<Rightarrow> time \<Rightarrow> Gateway \<times> nat \<Rightarrow> bool" where
  "failing name url c t gw \<longleftrightarrow>
     gateway_ok (fst gw) \<and> owns_url name url (fst gw) \<and>
     (\<exists>s cb. gw_services (fst gw) name = Some s \<and> sp_breaker s = Some cb \<and> breaker_counts c t (snd gw) cb)"

lemma failing_step:
  assumes inv: "failing name url c t gw"
    and instants: "\<forall>i. t \<le> clock (fst a) i \<and> clock (fst a) i \<le> t + cc_Timeout c"
    and c: "0 \<le> cc_Timeout c" "cc_Timeout c < max_duration"
    and answer: "\<forall>r. 500 \<le> rp_Status (fst (answer url r))"
  shows "failing name url c t (serve_step sha256 lib (counting url answer) a gw)"
proof -
  obtain g n where gw: "gw = (g, n)" by (cases gw)
  obtain e h r where a: "a = (e, h, r)" by (cases a)
  obtain response g' n' where serve: "ServeHTTP sha256 lib (counting url answer) e h r (g, n) = (response, (g', n'))"
    by (cases "ServeHTTP sha256 lib (counting url answer) e h r (g, n)") auto
  obtain s cb where ok: "gateway_ok g" "owns_url name url g"
      and s: "gw_services g name = Some s" "sp_breaker s = Some cb" "breaker_counts c t n cb"
    using inv by (auto simp: failing_def gw)
  have later: "t \<le> clock (later k e) i" "clock (later k e) i \<le> t + cc_Timeout c" for k i
    using instants by (simp_all add: later_def a)
  have ok': "gateway_ok g'" "owns_url name url g'"
    using ServeHTTP_ok [OF ok(1) serve] ok(2) by (simp_all add: same_routes_def owns_url_def)
  have url: "sc_URL (sp_config s) = url"
    using owns_urlD [OF ok(2) s(1)] by simp
  note allow = breaker_counts_allow [OF s(3) later(1) later(2) c, of 8]
  from serve s(1,2) ok(1)
  have "\<exists>s cb. gw_services g' name = Some s \<and> sp_breaker s = Some cb \<and> breaker_counts c t n' cb"
  proof (cases rule: ServeHTTP_breaker)
    case none
    with s show ?thesis by auto
  next
    case (other m s' q h')
    have "sc_URL (sp_config s') \<noteq> url" using owns_urlD [OF ok(2) other(2)] other(1) by simp
    with other(3,4) s show ?thesis by (simp add: counting_def)
  next
    case refused
    with allow(2) show ?thesis by simp
  next
    case (proxied q h' bytes)
    have "n' = n + 1" "500 \<le> rp_Status response"
      using proxied(2) url answer [rule_format, of q] by (auto simp: counting_def)
    moreover have "cb_abs (cb_step (CallAllow (later 8 e)) cb) = Closed (int n)"
      using allow(1,3) proxied(1) by simp
    from breaker_counts_failure [OF allow(2) this later(1)]
    have "breaker_counts c t (n + 1) (cb_step (CallFailure (later 10 e)) (cb_step (CallAllow (later 8 e)) cb))" .
    ultimately show ?thesis using proxied(3) by (simp add: outcome_def)
  qed
  with ok' show ?thesis by (simp add: failing_def serve_step_def gw a serve)
qed

lemma failing_run:
  assumes "failing name url c t gw"
    and "\<forall>a \<in> set arrivals. \<forall>i. t \<le> clock (fst a) i \<and> clock (fst a) i \<le> t + cc_Timeout c"
    and "0 \<le> cc_Timeout c" "cc_Timeout c < max_duration" "\<forall>r. 500 \<le> rp_Status (fst (answer url r))"
  shows "failing name url c t (run (serve_step H lib (counting url answer)) arrivals gw)"
  using assms(1,2)
proof (induction arrivals arbitrary: gw)
  case (Cons a arrivals)
  have "failing name url c t (serve_step H lib (counting url answer) a gw)"
    using Cons.prems by (intro failing_step assms(3-5)) simp_all
  from Cons.IH [OF this] Cons.prems(2) show ?case by simp
qed simp

section \<open>Properties\<close>

text \<open>A gateway with one service and one route, its configuration, and a request for it.\<close>

definition example_service :: ServiceConfig where
  "example_service =
     \<lparr>sc_Name = ''svc'', sc_URL = ''http://b'', sc_HealthEndpoint = [], sc_Timeout = 0, sc_MaxRetries = 0,
      sc_CircuitBreaker = Some \<lparr>cc_Name = [], cc_MaxFailures = 2, cc_Timeout = 10, cc_HalfOpenRequests = 1,
        cc_SuccessThreshold = 1\<rparr>, sc_Headers = None\<rparr>"

definition example_route :: "int64 \<Rightarrow> bool \<Rightarrow> RouteConfig" where
  "example_route rate auth =
     \<lparr>rc_Path = ''/api'', rc_Methods = [], rc_Service = ''svc'', rc_StripPrefix = [], rc_Rewrite = [],
      rc_RequireAuth = auth, rc_RateLimit = rate, rc_Roles = [''admin''], rc_Version = [], rc_Deprecated = False,
      rc_Sunset = []\<rparr>"

definition example_gateway_config :: "int64 \<Rightarrow> bool \<Rightarrow> GatewayConfig" where
  "example_gateway_config rate auth =
     DefaultGatewayConfig\<lparr>gc_Services := [''svc'' \<mapsto> example_service], gc_Routes := [example_route rate auth]\<rparr>"

definition example_gateway :: "int64 \<Rightarrow> bool \<Rightarrow> Gateway" where
  "example_gateway rate auth =
     projr (NewGateway (\<lambda>u. True) [''svc''] (\<lambda>m. 0) (Some (example_gateway_config rate auth)))"

definition example_call :: Request where
  "example_call =
     \<lparr>rq_Method = ''GET'', rq_Host = [], rq_Path = ''/api/x'', rq_RawQuery = [], rq_Query = [],
      rq_Header = (\<lambda>h. if h = ''X-API-Key'' then ''raw'' else []), rq_RemoteAddr = ''1.2.3.4''\<rparr>"

lemma example_gateway:
  "NewGateway (\<lambda>u. True) [''svc''] (\<lambda>m. 0) (Some (example_gateway_config rate auth)) = Inr (example_gateway rate auth)"
  "gw_routes (example_gateway rate auth) = [\<lparr>rh_config = example_route rate auth, rh_service = ''svc'',
     rh_limiter = route_limiter (example_route rate auth)\<rparr>]"
  "gw_services (example_gateway rate auth) = [''svc'' \<mapsto> \<lparr>sp_config = example_service, sp_timeout = 30 * 10 ^ 9,
     sp_breaker = Some (NewCircuitBreaker 0 (sc_CircuitBreaker example_service))\<rparr>]"
  "gw_rateLimiter (example_gateway rate auth) = None" "gw_requestLogger (example_gateway rate auth) = None"
  by (simp_all add: example_gateway_def NewGateway_def gw_addService_def gw_addRoute_def Let_def
      example_gateway_config_def DefaultGatewayConfig_def example_route_def example_service_def)

lemma example_route_serves:
  "serves example_call \<lparr>rh_config = example_route rate auth, rh_service = name, rh_limiter = limiter\<rparr>"
  by (simp add: serves_def path_and_method_def matchPath_def example_route_def example_call_def
      has_suffix_def has_prefix_def)

lemma example_findRoute:
  "gw_routes g = gw_routes (example_gateway rate auth) \<Longrightarrow> findRoute g example_call = Some 0"
  by (simp add: findRoute_serves example_gateway(2) example_route_serves)

lemmas example_fields = example_route_def example_call_def example_service_def example_gateway_config_def
  DefaultGatewayConfig_def

text \<open>Any first segment that begins with a v counts as a version of the interface.\<close>

lemma vendor_is_a_version: "extractVersionFromPath ''/vendors/1'' = ''vendors''"
  by code_simp

text \<open>
  C15: The type of a gateway.  However it was configured, a gateway that \<open>NewGateway\<close> makes has, after any
  sequence of requests served one after the other, the routes of its configuration in their order, each
  with its registered service.  A route has a limiter of its own just when its \<open>RateLimit\<close> is positive; then
  the bucket of a client never has more than \<open>RateLimit div 6\<close> tokens, those of ten seconds, and is refilled at
  \<open>RateLimit\<close> tokens in sixty seconds, whatever was served (\<open>limiter_fits\<close>).
\<close>

theorem gateway_well_formed:
  assumes "NewGateway url_ok ks now config = Inr g"
  shows "gateway_ok (fst (run (serve_step sha256 lib backend) arrivals (g, w))) \<and>
    map rh_config (gw_routes (fst (run (serve_step sha256 lib backend) arrivals (g, w)))) =
      gc_Routes (case config of None \<Rightarrow> DefaultGatewayConfig | Some c \<Rightarrow> c)"
  using serving.run_inv [of "(g, w)"] serving.run_le [of "(g, w)"] NewGateway_ok [OF assms]
  by (simp add: same_routes_def)

theorem gateway_well_formed_witness:
  "map rh_config (gw_routes (fst (run (serve_step example_hash (example_library []) (\<lambda>u r h w. ((writeJSONError h 500 [] [], 0), w)))
     [(reading 0, Map.empty, example_call)] (example_gateway 5 True, ())))) = [example_route 5 True]"
  using gateway_well_formed [OF example_gateway(1), where arrivals = "[(reading 0, Map.empty, example_call)]" and w = "()"]
  by (simp add: example_fields)

text \<open>
  The first route that serves a request is chosen, and no other: the second loop of \<open>findRoute\<close> never
  finds a route that the first has not found.
\<close>

theorem findRoute_first:
  "findRoute g r = Some i \<longleftrightarrow>
    i < length (gw_routes g) \<and> serves r (gw_routes g ! i) \<and> (\<forall>j < i. \<not> serves r (gw_routes g ! j))"
  by (simp add: findRoute_serves find_index_Some)

theorem findRoute_first_witness: "findRoute (example_gateway 5 True) example_call = Some 0"
  by (rule findRoute_first [THEN iffD2]) (simp add: example_gateway(2) example_route_serves)

text \<open>
  C3: What it takes to reach a backend.  If serving a request changes anything outside the gateway,
  then a route serves the request; its limiter, or else that of the gateway, had a token left; where
  the route requires authentication, the request carries a valid API key or a valid, correctly signed
  token, with one of the roles of the route if it has any; and the breaker of the service admitted it.
\<close>

theorem backend_reached:
  assumes "ServeHTTP sha256 lib backend e h r (g, w) = (response, (g', w'))" "w' \<noteq> w"
  shows "\<exists>i < length (gw_routes g).
    let route = gw_routes g ! i; config = rh_config route in
    serves r route \<and>
    (case (if rh_limiter route = None then gw_rateLimiter g else rh_limiter route) of None \<Rightarrow> True
     | Some limiter \<Rightarrow> fst (rl_Allow (clock e 2) (clock e 3) (DefaultKeyFunc r) limiter)) \<and>
    (rc_RequireAuth config \<longrightarrow> (\<exists>roles.
       (valid_api_key sha256 (clock e 4) (gw_apiKeyManager g) (rq_Header r ''X-API-Key'') roles \<or>
        (\<exists>token. ExtractTokenFromHeader (rq_Header r ''Authorization'') = Inr token \<and>
           valid_bearer lib (clock e 4) (gw_jwtManager g) token roles)) \<and>
       (rc_Roles config \<noteq> [] \<longrightarrow> set roles \<inter> set (rc_Roles config) \<noteq> {}))) \<and>
    (case sp_breaker (the (gw_services g (rh_service route))) of None \<Rightarrow> True
     | Some cb \<Rightarrow> fst (Allow (later 8 e) cb))"
  using assms(1)
proof (cases rule: ServeHTTP_cases)
  case (proxied i g1 g2 g3 g4 h' bytes entry)
  let ?route = "gw_routes g ! i" and ?config = "rh_config (gw_routes g ! i)"
  have "i < length (gw_routes g) \<and> serves r ?route"
    using proxied(1) by (simp add: findRoute_serves find_index_Some)
  moreover have "case (if rh_limiter ?route = None then gw_rateLimiter g else rh_limiter ?route) of None \<Rightarrow> True
      | Some limiter \<Rightarrow> fst (rl_Allow (clock e 2) (clock e 3) (DefaultKeyFunc r) limiter)"
    using proxied(7) proxied(3,4)
    by (auto simp: gw_limit_def later_def Let_def numeral_3_eq_3 numeral_2_eq_2 split: option.splits prod.splits)
  moreover have "\<exists>roles.
       (valid_api_key sha256 (clock e 4) (gw_apiKeyManager g) (rq_Header r ''X-API-Key'') roles \<or>
        (\<exists>token. ExtractTokenFromHeader (rq_Header r ''Authorization'') = Inr token \<and>
           valid_bearer lib (clock e 4) (gw_jwtManager g) token roles)) \<and>
       (rc_Roles ?config \<noteq> [] \<longrightarrow> set roles \<inter> set (rc_Roles ?config) \<noteq> {})" if "rc_RequireAuth ?config"
    using gw_authorize_roles [OF proxied(8) that] gw_limit_simps [OF proxied(7)] proxied(5,6)
    by (simp add: later_def)
  moreover have "case sp_breaker (the (gw_services g (rh_service ?route))) of None \<Rightarrow> True
      | Some cb \<Rightarrow> fst (Allow (later 8 e) cb)"
    using proxied(9) gw_authorize_simps(1) [OF proxied(8)] gw_limit_simps(1) [OF proxied(7)] proxied(2)
    by (auto simp: gw_admit_def split: option.splits prod.splits)
  ultimately show ?thesis unfolding Let_def by blast
qed (use assms(2) in simp_all)

theorem backend_reached_witness:
  "\<exists>roles. valid_api_key example_hash 1 (example_keys ((example_key 0 None)\<lparr>ak_Roles := [''admin'']\<rparr>)) ''raw'' roles \<and>
     ''admin'' \<in> set roles"
proof -
  let ?key = "(example_key 0 None)\<lparr>ak_Roles := [''admin'']\<rparr>"
  let ?g = "SetAPIKeyManager (example_keys ?key) (example_gateway 0 True)"
  let ?backend = "\<lambda>u r h n. ((writeJSONError h 200 [] [], 0), n + 1)"
  let ?serve = "ServeHTTP example_hash (example_library []) ?backend (reading 1) Map.empty example_call (?g, 0 :: nat)"
  have routes: "gw_routes ?g = gw_routes (example_gateway 0 True)" by (simp add: SetAPIKeyManager_def)
  have key: "rq_Header example_call ''X-API-Key'' = ''raw''" "rq_Header example_call ''Authorization'' = []"
      "rq_Header example_call ''X-Request-ID'' = []" "clock (reading 1) i = 1" for i
    by (simp_all add: example_call_def reading_def)
  have "ValidateAPIKey example_hash (later 4 (reading 1)) ''raw'' (example_keys ?key) =
      (Inr (?key\<lparr>ak_LastUsedAt := Some 1\<rparr>), (example_keys ?key)\<lparr>km_keys := (km_keys (example_keys ?key))
        (hashAPIKey example_hash ''raw'' \<mapsto> ?key\<lparr>ak_LastUsedAt := Some 1\<rparr>)\<rparr>)"
    by (simp add: ak_eval later_def)
  then have auth: "\<exists>keys. authenticate example_hash (example_library []) (later 4 (reading 1)) g example_call =
      (Inr (zero_claims\<lparr>cl_Subject := [], cl_Roles := [''admin'']\<rparr>), keys)" if "gw_apiKeyManager g = example_keys ?key" for g
    using that by (simp add: authenticate_def key Let_def example_key_def)
  obtain response g' n where serve: "?serve = (response, (g', n))" by (cases ?serve) auto
  have route: "findRoute ?g example_call = Some 0" using routes by (rule example_findRoute)
  have "rh_limiter (gw_routes ?g ! 0) = None" "gw_rateLimiter ?g = None" "gw_requestLogger ?g = None"
      "rh_config (gw_routes ?g ! 0) = example_route 0 True" "rh_service (gw_routes ?g ! 0) = ''svc''"
      "gw_services ?g = gw_services (example_gateway 0 True)" "gw_apiKeyManager ?g = example_keys ?key"
    by (simp_all add: routes example_gateway route_limiter_def example_route_def SetAPIKeyManager_def)
  note facts = this
  have limit: "gw_limit e 0 example_call (gw_log entry ?g) = (True, gw_log entry ?g)" for e entry
    using facts(1,2) by (simp add: gw_limit_def Let_def)
  have shares: "shares_role [''admin''] [''admin'']" by (simp add: shares_role_def)
  have admit: "gw_admit e ''svc'' g = (True, with_breaker ''svc'' (NewCircuitBreaker 0 (sc_CircuitBreaker example_service)) g)"
    if "gw_services g = gw_services (example_gateway 0 True)" for e g
    using that by (simp add: gw_admit_def example_gateway Allow_def NewCircuitBreaker_def)
  have config: "rc_RequireAuth (example_route 0 True)" "rc_Roles (example_route 0 True) = [''admin'']"
    by (simp_all add: example_route_def)
  have authorize: "\<exists>keys. gw_authorize example_hash (example_library []) (later 4 (reading 1)) (example_route 0 True)
      example_call g = (None, g\<lparr>gw_apiKeyManager := keys\<rparr>)" if "gw_apiKeyManager g = example_keys ?key" for g
    using auth [OF that] by (auto simp: gw_authorize_def config shares)
  have "n = 1"
  proof -
    have "snd (snd (ServeHTTP example_hash (example_library []) ?backend (reading 1) Map.empty example_call (?g, 0 :: nat))) = 1"
      using authorize [of "gw_log (request_log (gw_generateRequestID 1) 1 (example_route 0 True) example_call) ?g"] facts
      by (auto simp: ServeHTTP_def route limit admit key Let_def)
    with serve show ?thesis by simp
  qed
  with backend_reached [OF serve] show ?thesis
    by (simp add: routes example_gateway facts config key Let_def ExtractTokenFromHeader_def)
qed

text \<open>
  C5: A service that fails is left alone.  If every answer of a service with a circuit breaker is a
  failure, and all instants stay within the timeout of the breaker, then out of any sequence of
  requests to the gateway, for whatever routes and services, at most \<open>MaxFailures\<close> (at least one) reach
  that service.
\<close>

theorem failing_service_spared:
  assumes "NewGateway url_ok ks now (Some config) = Inr g" "iteration_of ks (gc_Services config)"
    and "gc_Services config name = Some service" "sc_CircuitBreaker service = Some c"
    and "\<forall>m other. gc_Services config m = Some other \<longrightarrow> (sc_URL other = sc_URL service \<longleftrightarrow> m = name)"
    and "0 \<le> cc_Timeout c" "cc_Timeout c < max_duration"
    and "\<forall>a \<in> set arrivals. \<forall>i. t \<le> clock (fst a) i \<and> clock (fst a) i \<le> t + cc_Timeout c"
    and "\<forall>r. 500 \<le> rp_Status (fst (answer (sc_URL service) r))"
  shows "int (snd (run (serve_step sha256 lib (counting (sc_URL service) answer)) arrivals (g, 0))) \<le>
    max 1 (sint (cc_MaxFailures c))"
proof -
  note services = NewGateway_services [OF assms(1,2)]
  obtain s where s: "gw_services g name = Some s" "sp_config s = service"
    using fun_cong [OF services(1), of name] assms(3) by (auto simp: service_configs_def)
  have "sp_breaker s = Some (NewCircuitBreaker (now name) (Some c))"
    using services(2) [OF s(1)] s(2) assms(4) by simp
  moreover have "breaker_counts c t 0 (NewCircuitBreaker (now name) (Some c))"
    by (simp add: breaker_counts_def cb_inv_new) (simp add: cb_abs_def NewCircuitBreaker_def)
  moreover have "owns_url name (sc_URL service) g" using assms(5) by (simp add: owns_url_def services(1))
  ultimately have "failing name (sc_URL service) c t (g, 0)"
    using s(1) NewGateway_ok(1) [OF assms(1)] by (simp add: failing_def)
  from failing_run [where H = sha256 and lib = lib and answer = answer, OF this assms(8,6,7,9)]
  show ?thesis unfolding failing_def using breaker_counts_bound by blast
qed

theorem failing_service_spared_witness:
  "snd (run (serve_step example_hash (example_library []) (counting ''http://b'' (\<lambda>u r. (writeJSONError Map.empty 500 [] [], 0))))
     (replicate 9 (reading 3, Map.empty, example_call)) (example_gateway 0 False, 0)) \<le> 2"
proof -
  let ?c = "\<lparr>cc_Name = [], cc_MaxFailures = 2, cc_Timeout = 10, cc_HalfOpenRequests = 1, cc_SuccessThreshold = 1\<rparr>"
  have config: "gc_Services (example_gateway_config 0 False) = [''svc'' \<mapsto> example_service]"
    by (simp add: example_gateway_config_def)
  have "iteration_of [''svc''] (gc_Services (example_gateway_config 0 False))"
    by (simp add: iteration_of_def config)
  from failing_service_spared [OF example_gateway(1) this, of "''svc''" example_service ?c
      "replicate 9 (reading 3, Map.empty, example_call)" 0 "\<lambda>u r. (writeJSONError Map.empty 500 [] [], 0)"
      example_hash "example_library []"]
  show ?thesis by (simp add: config example_service_def reading_def max_duration_def writeJSONError_def)
qed

text \<open>
  A route with a limit of fewer than six requests per minute serves none: its burst is zero, and
  every request to it is refused.
\<close>

theorem small_rate_limit_blocks:
  assumes "NewGateway url_ok ks now config = Inr g0"
    and "(g, w) = run (serve_step sha256 lib backend) arrivals (g0, w0)"
    and "findRoute g r = Some i"
    and "0 < sint (rc_RateLimit (rh_config (gw_routes g ! i)))" "sint (rc_RateLimit (rh_config (gw_routes g ! i))) < 6"
    and "ServeHTTP sha256 lib backend e h r (g, w) = (response, (g', w'))"
  shows "rp_Status response = 429 \<and> w' = w"
proof -
  have "gateway_ok g" using serving.run_inv [of "(g0, w0)"] NewGateway_ok(1) [OF assms(1)]
    by (metis assms(2) fst_conv run_ok_True)
  then have "gw_limit (later 2 e) i r g1 \<noteq> (True, g2)" if "gw_routes g1 = gw_routes g" for g1 g2
    using no_burst [of g1 i] that findRoute_bound [OF assms(3)] assms(4,5) gateway_ok_fits by fastforce
  with assms(6,3) show ?thesis by (auto elim!: ServeHTTP_cases)
qed

theorem small_rate_limit_blocks_witness:
  "rp_Status (fst (ServeHTTP example_hash (example_library []) (\<lambda>u r h w. ((writeJSONError h 500 [] [], 0), w)) (reading 0)
     Map.empty example_call (example_gateway 5 True, ()))) = 429"
proof -
  let ?serve = "ServeHTTP example_hash (example_library []) (\<lambda>u r h w. ((writeJSONError h 500 [] [], 0), w)) (reading 0)
     Map.empty example_call (example_gateway 5 True, ())"
  obtain response g' w' where "?serve = (response, (g', w'))" by (cases ?serve) auto
  with small_rate_limit_blocks [OF example_gateway(1) _ example_findRoute [of _ 5 True] _ _ this, where arrivals = "[]"]
  show ?thesis by (simp add: example_gateway(2) example_fields)
qed

end
