(* ===== verification/Bulkhead.thy ===== *)
theory Bulkhead
  imports Go_Prelude
begin

text \<open>
  Bulkheads, \<open>libs/resilience/bulkhead.go\<close>, under concurrent callers.

  A call of \<open>Execute\<close>, \<open>ExecuteWithResult\<close> or \<open>TryExecute\<close> is a thread with a program counter.  What it
  does between two synchronisations, that is an operation on the semaphore channel, one critical
  section of the mutex, or the run of the function, is one atomic move; threads are interleaved
  in any order.  What the program does not decide is a choice: how the function ends, whether a
  waiting thread finds its context done, and with which error.

  The channel is the number of the values in its buffer: a send goes through while the buffer is not
  full.  A function that panics runs the deferred release and is counted neither as a success nor
  as a failure.
\<close>

section \<open>The bulkhead\<close>

record BulkheadConfig =
  bc_MaxConcurrent :: int64
  bc_MaxWaiting :: int64
  bc_WaitTimeout :: duration

definition DefaultBulkheadConfig :: BulkheadConfig where
  "DefaultBulkheadConfig = \<lparr>bc_MaxConcurrent = 10, bc_MaxWaiting = 100, bc_WaitTimeout = 30 * 10 ^ 9\<rparr>"

record Bulkhead =
  bh_config :: BulkheadConfig
  bh_capacity :: nat
  bh_semaphore :: nat
  bh_waiting :: int64
  bh_activeCount :: int64
  bh_rejectedCount :: int64
  bh_successCount :: int64
  bh_failureCount :: int64

text \<open>\<open>make(chan struct{}, n)\<close> panics for a negative \<open>n\<close>: the result is \<open>None\<close>.\<close>

definition NewBulkhead :: "BulkheadConfig option \<Rightarrow> Bulkhead option" where
  "NewBulkhead config_option =
     (let config = (case config_option of None \<Rightarrow> DefaultBulkheadConfig | Some c \<Rightarrow> c)
      in if sint (bc_MaxConcurrent config) < 0 then None
         else Some \<lparr>bh_config = config, bh_capacity = nat (sint (bc_MaxConcurrent config)), bh_semaphore = 0,
                bh_waiting = 0, bh_activeCount = 0, bh_rejectedCount = 0, bh_successCount = 0, bh_failureCount = 0\<rparr>)"

datatype 'e bulkhead_error = ErrBulkheadFull | ErrBulkheadRejected | ErrBulkheadTimeout | CtxErr 'e | FnErr 'e

section \<open>Threads\<close>

datatype bh_method = Execute | TryExecute

datatype 'e outcome = Succeeds | Fails 'e | Panics

datatype 'e choice = Proceed | GiveUp "'e option" | Ends "'e outcome"

text \<open>
  The program counter.  \<open>GiveUp None\<close> is a context whose deadline passed, \<open>GiveUp (Some e)\<close> one that was
  cancelled with the error \<open>e\<close>.
\<close>

datatype 'e pc =
    Called bh_method                       \<comment> \<open>before the first select\<close>
  | Acquired                            \<comment> \<open>the value is sent, \<open>activeCount\<close> not yet increased\<close>
  | Rejecting                           \<comment> \<open>\<open>TryExecute\<close> found the channel full\<close>
  | WaitCalled                          \<comment> \<open>in \<open>wait\<close>, before its first critical section\<close>
  | Waiting                             \<comment> \<open>in the select of \<open>wait\<close>\<close>
  | WaitAcquired                        \<comment> \<open>sent in \<open>wait\<close>, \<open>activeCount\<close> not yet increased\<close>
  | WaitGranted                         \<comment> \<open>before the deferred decrease of \<open>waiting\<close>\<close>
  | WaitDone "'e option"                \<comment> \<open>the context is done, \<open>rejectedCount\<close> not yet increased\<close>
  | WaitLeaving "'e option"             \<comment> \<open>before the deferred decrease of \<open>waiting\<close>\<close>
  | Running                             \<comment> \<open>in the function\<close>
  | Ran "'e outcome"                    \<comment> \<open>before its success or failure is counted\<close>
  | Releasing "'e outcome"              \<comment> \<open>before the deferred receive\<close>
  | Released "'e outcome"               \<comment> \<open>before the deferred decrease of \<open>activeCount\<close>\<close>
  | Returned "'e outcome"               \<comment> \<open>with the outcome of the function\<close>
  | Refused "'e bulkhead_error"         \<comment> \<open>with an error of the bulkhead\<close>

text \<open>What \<open>wait\<close> returns when the context is done.\<close>

fun wait_error :: "'e option \<Rightarrow> 'e bulkhead_error" where
  "wait_error None = ErrBulkheadTimeout"
| "wait_error (Some e) = CtxErr e"

text \<open>One move of a thread, \<open>None\<close> when it is blocked or has returned.\<close>

fun bh_move :: "'e choice \<Rightarrow> 'e pc \<Rightarrow> Bulkhead \<Rightarrow> ('e pc \<times> Bulkhead) option" where
  "bh_move Proceed (Called m) b =
     (if bh_semaphore b < bh_capacity b then Some (Acquired, b\<lparr>bh_semaphore := bh_semaphore b + 1\<rparr>)
      else Some (case m of Execute \<Rightarrow> WaitCalled | TryExecute \<Rightarrow> Rejecting, b))"
| "bh_move Proceed Acquired b = Some (Running, b\<lparr>bh_activeCount := bh_activeCount b + 1\<rparr>)"
| "bh_move Proceed Rejecting b =
     Some (Refused ErrBulkheadRejected, b\<lparr>bh_rejectedCount := bh_rejectedCount b + 1\<rparr>)"
| "bh_move Proceed WaitCalled b =
     (if sint (bc_MaxWaiting (bh_config b)) \<le> sint (bh_waiting b)
      then Some (Refused ErrBulkheadFull, b\<lparr>bh_rejectedCount := bh_rejectedCount b + 1\<rparr>)
      else Some (Waiting, b\<lparr>bh_waiting := bh_waiting b + 1\<rparr>))"
| "bh_move Proceed Waiting b =
     (if bh_semaphore b < bh_capacity b then Some (WaitAcquired, b\<lparr>bh_semaphore := bh_semaphore b + 1\<rparr>) else None)"
| "bh_move (GiveUp e) Waiting b = Some (WaitDone e, b)"
| "bh_move Proceed WaitAcquired b = Some (WaitGranted, b\<lparr>bh_activeCount := bh_activeCount b + 1\<rparr>)"
| "bh_move Proceed WaitGranted b = Some (Running, b\<lparr>bh_waiting := bh_waiting b - 1\<rparr>)"
| "bh_move Proceed (WaitDone e) b = Some (WaitLeaving e, b\<lparr>bh_rejectedCount := bh_rejectedCount b + 1\<rparr>)"
| "bh_move Proceed (WaitLeaving e) b = Some (Refused (wait_error e), b\<lparr>bh_waiting := bh_waiting b - 1\<rparr>)"
| "bh_move (Ends out) Running b = Some (case out of Panics \<Rightarrow> Releasing Panics | _ \<Rightarrow> Ran out, b)"
| "bh_move Proceed (Ran out) b =
     Some (Releasing out, case out of Succeeds \<Rightarrow> b\<lparr>bh_successCount := bh_successCount b + 1\<rparr>
       | Fails e \<Rightarrow> b\<lparr>bh_failureCount := bh_failureCount b + 1\<rparr> | Panics \<Rightarrow> b)"
| "bh_move Proceed (Releasing out) b = Some (Released out, b\<lparr>bh_semaphore := bh_semaphore b - 1\<rparr>)"
| "bh_move Proceed (Released out) b = Some (Returned out, b\<lparr>bh_activeCount := bh_activeCount b - 1\<rparr>)"
| "bh_move _ _ b = None"

text \<open>
  A system: the bulkhead and the calls made so far.  A step is a new call or a move of a call; a move
  that is not possible changes nothing.
\<close>

type_synonym 'e system = "Bulkhead \<times> 'e pc list"

datatype 'e bh_action = Call bh_method | Move nat "'e choice"

fun bh_step :: "'e bh_action \<Rightarrow> 'e system \<Rightarrow> 'e system" where
  "bh_step (Call m) (b, calls) = (b, calls @ [Called m])"
| "bh_step (Move i c) (b, calls) =
     (if i < length calls then
        case bh_move c (calls ! i) b of None \<Rightarrow> (b, calls) | Some (pc, b') \<Rightarrow> (b', calls[i := pc])
      else (b, calls))"

record BulkheadStats =
  bs_MaxConcurrent :: int64
  bs_ActiveCount :: int64
  bs_WaitingCount :: int64
  bs_RejectedCount :: int64
  bs_SuccessCount :: int64
  bs_FailureCount :: int64
  bs_AvailableSlots :: int64

definition bh_Stats :: "Bulkhead \<Rightarrow> BulkheadStats" where
  "bh_Stats b =
     \<lparr>bs_MaxConcurrent = bc_MaxConcurrent (bh_config b), bs_ActiveCount = bh_activeCount b,
      bs_WaitingCount = bh_waiting b, bs_RejectedCount = bh_rejectedCount b, bs_SuccessCount = bh_successCount b,
      bs_FailureCount = bh_failureCount b,
      bs_AvailableSlots = bc_MaxConcurrent (bh_config b) - bh_activeCount b\<rparr>"

section \<open>The simple bulkhead\<close>

text \<open>
  \<open>SemaphoreBulkhead\<close>: each operation is one on its channel.  \<open>give_up\<close> of \<open>Acquire\<close> says that the
  select takes the context that is done; the result \<open>None\<close> is a call that still waits.
\<close>

record SemaphoreBulkhead =
  sb_capacity :: nat
  sb_semaphore :: nat
  sb_timeout :: duration

definition NewSemaphoreBulkhead :: "int64 \<Rightarrow> duration \<Rightarrow> SemaphoreBulkhead option" where
  "NewSemaphoreBulkhead maxConcurrent timeout =
     (if sint maxConcurrent < 0 then None
      else Some \<lparr>sb_capacity = nat (sint maxConcurrent), sb_semaphore = 0, sb_timeout = timeout\<rparr>)"

definition sb_Acquire :: "bool \<Rightarrow> SemaphoreBulkhead \<Rightarrow> ('e bulkhead_error option \<times> SemaphoreBulkhead) option" where
  "sb_Acquire give_up b =
     (if give_up then Some (Some ErrBulkheadTimeout, b)
      else if sb_semaphore b < sb_capacity b then Some (None, b\<lparr>sb_semaphore := sb_semaphore b + 1\<rparr>)
      else None)"

definition sb_Release :: "SemaphoreBulkhead \<Rightarrow> SemaphoreBulkhead" where
  "sb_Release b = b\<lparr>sb_semaphore := sb_semaphore b - 1\<rparr>"

definition sb_TryAcquire :: "SemaphoreBulkhead \<Rightarrow> bool \<times> SemaphoreBulkhead" where
  "sb_TryAcquire b =
     (if sb_semaphore b < sb_capacity b then (True, b\<lparr>sb_semaphore := sb_semaphore b + 1\<rparr>) else (False, b))"

definition sb_AvailableSlots :: "SemaphoreBulkhead \<Rightarrow> nat" where
  "sb_AvailableSlots b = sb_capacity b - sb_semaphore b"

definition sb_ActiveSlots :: "SemaphoreBulkhead \<Rightarrow> nat" where
  "sb_ActiveSlots b = sb_semaphore b"

section \<open>Accounting\<close>

fun_cases bh_move_Some: "bh_move c pc b = Some (pc', b')"

text \<open>What a call holds or has been counted for, by its program counter.\<close>

fun holds_slot :: "'e pc \<Rightarrow> bool" where
  "holds_slot Acquired = True"
| "holds_slot WaitAcquired = True"
| "holds_slot WaitGranted = True"
| "holds_slot Running = True"
| "holds_slot (Ran out) = True"
| "holds_slot (Releasing out) = True"
| "holds_slot _ = False"

fun is_active :: "'e pc \<Rightarrow> bool" where
  "is_active WaitGranted = True"
| "is_active Running = True"
| "is_active (Ran out) = True"
| "is_active (Releasing out) = True"
| "is_active (Released out) = True"
| "is_active _ = False"

fun is_waiting :: "'e pc \<Rightarrow> bool" where
  "is_waiting Waiting = True"
| "is_waiting WaitAcquired = True"
| "is_waiting WaitGranted = True"
| "is_waiting (WaitDone e) = True"
| "is_waiting (WaitLeaving e) = True"
| "is_waiting _ = False"

fun is_rejected :: "'e pc \<Rightarrow> bool" where
  "is_rejected (WaitLeaving e) = True" | "is_rejected (Refused e) = True" | "is_rejected _ = False"

fun ended :: "'e pc \<Rightarrow> 'e outcome option" where
  "ended (Releasing out) = Some out" | "ended (Released out) = Some out" | "ended (Returned out) = Some out"
| "ended _ = None"

definition is_success :: "'e pc \<Rightarrow> bool" where
  "is_success pc \<longleftrightarrow> ended pc = Some Succeeds"

definition is_failure :: "'e pc \<Rightarrow> bool" where
  "is_failure pc \<longleftrightarrow> (\<exists>e. ended pc = Some (Fails e))"

fun returned :: "'e pc \<Rightarrow> bool" where
  "returned (Returned out) = True" | "returned (Refused e) = True" | "returned _ = False"

definition number :: "('a \<Rightarrow> bool) \<Rightarrow> 'a list \<Rightarrow> nat" where
  "number P xs = length (filter P xs)"

lemma number_update:
  "i < length xs \<Longrightarrow> number P (xs[i := x]) + (if P (xs ! i) then 1 else 0) = number P xs + (if P x then 1 else 0)"
proof (induction xs arbitrary: i)
  case (Cons y ys)
  then show ?case by (cases i) (auto simp: number_def)
qed simp

lemma number_pos: "i < length xs \<Longrightarrow> P (xs ! i) \<Longrightarrow> 0 < number P xs"
  using nth_mem [of i xs] by (auto simp: number_def filter_empty_conv)

lemma number_mono: "(\<And>x. P x \<Longrightarrow> Q x) \<Longrightarrow> number P xs \<le> number Q xs"
  unfolding number_def by (induction xs) auto

lemma number_zero: "number P xs = 0 \<longleftrightarrow> (\<forall>x \<in> set xs. \<not> P x)"
  by (simp add: number_def filter_empty_conv)

lemma number_append [simp]: "number P (xs @ ys) = number P xs + number P ys"
  by (simp add: number_def)

lemma number_single [simp]: "number P [] = 0" "number P [x] = (if P x then 1 else 0)"
  by (simp_all add: number_def)

text \<open>A counter of the bulkhead is as large as the number of the calls it counts.\<close>

definition counts :: "('e pc \<Rightarrow> bool) \<Rightarrow> int64 \<Rightarrow> 'e pc list \<Rightarrow> bool" where
  "counts P n calls \<longleftrightarrow> n = word_of_nat (number P calls)"

lemma counts_update:
  assumes "counts P n calls" "i < length calls"
    and "n' + (if P (calls ! i) then 1 else 0) = n + (if P pc then 1 else 0)"
  shows "counts P n' (calls[i := pc])"
proof -
  have "word_of_nat (number P (calls[i := pc])) + (if P (calls ! i) then 1 else 0) =
      (word_of_nat (number P calls) + (if P pc then 1 else 0) :: int64)"
    using arg_cong [OF number_update [OF assms(2), of P pc], of "word_of_nat :: nat \<Rightarrow> int64"]
    by (simp split: if_splits)
  with assms(1,3) show ?thesis unfolding counts_def by (metis add_right_imp_eq)
qed

definition bh_inv :: "BulkheadConfig \<Rightarrow> 'e system \<Rightarrow> bool" where
  "bh_inv c sys \<longleftrightarrow> (case sys of (b, calls) \<Rightarrow>
     bh_config b = c \<and> bh_capacity b = nat (sint (bc_MaxConcurrent c)) \<and>
     bh_semaphore b = number holds_slot calls \<and> bh_semaphore b \<le> bh_capacity b \<and>
     counts is_waiting (bh_waiting b) calls \<and> number is_waiting calls \<le> nat (sint (bc_MaxWaiting c)) \<and>
     counts is_active (bh_activeCount b) calls \<and> counts is_rejected (bh_rejectedCount b) calls \<and>
     counts is_success (bh_successCount b) calls \<and> counts is_failure (bh_failureCount b) calls)"

text \<open>What a move does to each counter.\<close>

lemma bh_move_effect:
  assumes "bh_move c pc b = Some (pc', b')" "holds_slot pc \<Longrightarrow> 0 < bh_semaphore b"
  shows "bh_config b' = bh_config b" "bh_capacity b' = bh_capacity b"
    "bh_semaphore b' + (if holds_slot pc then 1 else 0) = bh_semaphore b + (if holds_slot pc' then 1 else 0)"
    "bh_semaphore b \<le> bh_capacity b \<Longrightarrow> bh_semaphore b' \<le> bh_capacity b'"
    "bh_activeCount b' + (if is_active pc then 1 else 0) = bh_activeCount b + (if is_active pc' then 1 else 0)"
    "bh_waiting b' + (if is_waiting pc then 1 else 0) = bh_waiting b + (if is_waiting pc' then 1 else 0)"
    "\<not> is_waiting pc \<Longrightarrow> is_waiting pc' \<Longrightarrow> sint (bh_waiting b) < sint (bc_MaxWaiting (bh_config b))"
    "bh_rejectedCount b' + (if is_rejected pc then 1 else 0) = bh_rejectedCount b + (if is_rejected pc' then 1 else 0)"
    "bh_successCount b' + (if is_success pc then 1 else 0) = bh_successCount b + (if is_success pc' then 1 else 0)"
    "bh_failureCount b' + (if is_failure pc then 1 else 0) = bh_failureCount b + (if is_failure pc' then 1 else 0)"
  using assms
  by (auto elim!: bh_move_Some simp: is_success_def is_failure_def split: if_splits bh_method.splits outcome.splits)

text \<open>A counter that stays below the bound of an int64 is the number itself.\<close>

lemma counts_sint: "counts P n calls \<Longrightarrow> int (number P calls) < 2 ^ 63 \<Longrightarrow> sint n = int (number P calls)"
  using sint64_of_int [of "int (number P calls)"] unfolding counts_def by simp

lemma bh_inv_move:
  assumes inv: "bh_inv c (b, calls)" and i: "i < length calls" and move: "bh_move ch (calls ! i) b = Some (pc, b')"
  shows "bh_inv c (b', calls[i := pc])"
proof -
  let ?pc = "calls ! i"
  have slot: "holds_slot ?pc \<Longrightarrow> 0 < bh_semaphore b"
    using inv number_pos [OF i, of holds_slot] by (simp add: bh_inv_def)
  note effect = bh_move_effect [OF move slot]
  have waiting: "number is_waiting (calls[i := pc]) \<le> nat (sint (bc_MaxWaiting c))"
  proof (cases "\<not> is_waiting ?pc \<and> is_waiting pc")
    case True
    have max: "sint (bc_MaxWaiting c) < 2 ^ 63" by (rule sint64_bounds)
    have le: "number is_waiting calls \<le> nat (sint (bc_MaxWaiting c))" using inv by (simp add: bh_inv_def)
    with max have "int (number is_waiting calls) < 2 ^ 63"
      by (cases "0 \<le> sint (bc_MaxWaiting c)") (auto simp: le_nat_iff)
    then have "int (number is_waiting calls) < sint (bc_MaxWaiting c)"
      using effect(7) True inv counts_sint [of is_waiting "bh_waiting b" calls] by (simp add: bh_inv_def)
    with number_update [OF i, of is_waiting pc] True show ?thesis by simp
  next
    case False
    with number_update [OF i, of is_waiting pc] have "number is_waiting (calls[i := pc]) \<le> number is_waiting calls"
      by (auto split: if_splits)
    with inv show ?thesis by (simp add: bh_inv_def)
  qed
  have "bh_semaphore b' = number holds_slot (calls[i := pc])"
    using effect(3) number_update [OF i, of holds_slot pc] inv by (simp add: bh_inv_def split: if_splits)
  then show ?thesis
    using inv waiting effect(1,2,4) counts_update [OF _ i effect(6)] counts_update [OF _ i effect(5)]
      counts_update [OF _ i effect(8)] counts_update [OF _ i effect(9)] counts_update [OF _ i effect(10)]
    by (simp add: bh_inv_def)
qed

lemma bh_inv_step:
  assumes "bh_inv c sys"
  shows "bh_inv c (bh_step a sys)"
proof -
  obtain b calls where sys: "sys = (b, calls)" by (cases sys)
  show ?thesis
  proof (cases a)
    case (Call m)
    with assms show ?thesis by (simp add: sys bh_inv_def counts_def is_success_def is_failure_def)
  next
    case (Move i ch)
    with assms show ?thesis by (auto simp: sys bh_inv_move split: option.split)
  qed
qed

interpretation bulkhead: invariant_machine bh_step "\<lambda>sys a. True" "bh_inv c"
  by unfold_locales (rule bh_inv_step)

lemma run_ok_always: "run_ok step (\<lambda>s a. True) ops s"
  by (induction ops arbitrary: s) simp_all

lemma NewBulkhead_inv:
  "NewBulkhead (Some c) = Some b \<Longrightarrow> bh_inv c (b, [])"
  by (auto simp: NewBulkhead_def Let_def bh_inv_def counts_def split: if_splits)

lemma bulkhead_reachable:
  "NewBulkhead (Some c) = Some b \<Longrightarrow> bh_inv c (run bh_step actions (b, []))"
  by (rule bulkhead.run_inv [OF NewBulkhead_inv run_ok_always])

section \<open>Progress\<close>

text \<open>The number of moves a call can still make is bounded, and goes down with each.\<close>

fun rank :: "'e pc \<Rightarrow> nat" where
  "rank (Called m) = 10" | "rank Acquired = 6" | "rank Rejecting = 1" | "rank WaitCalled = 9" | "rank Waiting = 8"
| "rank WaitAcquired = 7" | "rank WaitGranted = 6" | "rank (WaitDone e) = 2" | "rank (WaitLeaving e) = 1"
| "rank Running = 5" | "rank (Ran out) = 4" | "rank (Releasing out) = 3" | "rank (Released out) = 2"
| "rank (Returned out) = 0" | "rank (Refused e) = 0"

lemma bh_move_rank: "bh_move c pc b = Some (pc', b') \<Longrightarrow> rank pc' < rank pc"
  by (erule bh_move_Some) (auto split: if_splits bh_method.splits outcome.splits)

text \<open>Only a call that waits for a slot, or one that has returned, cannot move on its own.\<close>

definition drive :: "'e outcome \<Rightarrow> 'e pc \<Rightarrow> 'e choice" where
  "drive out pc = (if pc = Running then Ends out else Proceed)"

lemma bh_move_enabled:
  "\<not> returned pc \<Longrightarrow> pc \<noteq> Waiting \<or> bh_semaphore b < bh_capacity b \<Longrightarrow> bh_move (drive out pc) pc b \<noteq> None"
  by (cases pc) (simp_all add: drive_def)

lemma some_call_moves:
  assumes "bh_inv c (b, calls)" "0 < sint (bc_MaxConcurrent c)" "\<exists>pc \<in> set calls. \<not> returned pc"
  obtains i where "i < length calls" "\<not> returned (calls ! i)" "bh_move (drive out (calls ! i)) (calls ! i) b \<noteq> None"
proof (cases "\<exists>i < length calls. \<not> returned (calls ! i) \<and> calls ! i \<noteq> Waiting")
  case True
  with bh_move_enabled that show thesis by blast
next
  case False
  then have "\<not> holds_slot pc" if "pc \<in> set calls" for pc
    using that by (cases pc) (force simp: in_set_conv_nth)+
  then have "number holds_slot calls = 0" unfolding number_zero by blast
  with assms(1,2) have free: "bh_semaphore b < bh_capacity b" by (simp add: bh_inv_def)
  obtain i where "i < length calls" "\<not> returned (calls ! i)"
    using assms(3) by (auto simp: in_set_conv_nth)
  with bh_move_enabled free that show thesis by blast
qed

definition effort :: "'e pc list \<Rightarrow> nat" where
  "effort calls = sum_list (map rank calls)"

lemma effort_update: "i < length calls \<Longrightarrow> rank pc < rank (calls ! i) \<Longrightarrow> effort (calls[i := pc]) < effort calls"
proof (induction calls arbitrary: i)
  case (Cons x xs)
  then show ?case by (cases i) (simp_all add: effort_def)
qed simp

lemma calls_return:
  assumes "bh_inv c (b, calls)" "0 < sint (bc_MaxConcurrent c)"
  shows "\<exists>moves. length moves \<le> effort calls \<and>
    (\<forall>a \<in> set moves. \<exists>i. a = Move i Proceed \<or> a = Move i (Ends out)) \<and>
    list_all returned (snd (run bh_step moves (b, calls))) \<and>
    length (snd (run bh_step moves (b, calls))) = length calls"
  using assms(1)
proof (induction "effort calls" arbitrary: b calls rule: less_induct)
  case less
  show ?case
  proof (cases "\<exists>pc \<in> set calls. \<not> returned pc")
    case False
    then show ?thesis by (intro exI [of _ "[]"]) (simp add: list_all_iff)
  next
    case True
    from some_call_moves [where out = out, OF less.prems assms(2) this] obtain i where
        i: "i < length calls" "bh_move (drive out (calls ! i)) (calls ! i) b \<noteq> None" by blast
    then obtain pc b' where move: "bh_move (drive out (calls ! i)) (calls ! i) b = Some (pc, b')" by auto
    let ?calls = "calls[i := pc]" and ?a = "Move i (drive out (calls ! i))"
    have fewer: "effort ?calls < effort calls" using effort_update [OF i(1) bh_move_rank [OF move]] .
    from less.hyps [OF this bh_inv_move [OF less.prems i(1) move]] obtain moves where
        moves: "length moves \<le> effort ?calls" "\<forall>a \<in> set moves. \<exists>i. a = Move i Proceed \<or> a = Move i (Ends out)"
          "list_all returned (snd (run bh_step moves (b', ?calls)))"
          "length (snd (run bh_step moves (b', ?calls))) = length ?calls" by blast
    have "bh_step ?a (b, calls) = (b', ?calls)" using i(1) move by simp
    with moves fewer show ?thesis
      by (intro exI [of _ "?a # moves"]) (simp add: drive_def)
  qed
qed

lemma effort_bound: "effort calls \<le> 10 * length calls"
proof (induction calls)
  case (Cons pc calls)
  have "rank pc \<le> 10" by (cases pc) simp_all
  with Cons show ?case by (simp add: effort_def)
qed (simp add: effort_def)

lemma returned_pc:
  "returned pc \<Longrightarrow> \<not> holds_slot pc \<and> \<not> is_waiting pc \<and> \<not> is_active pc \<and>
    (is_rejected pc \<longleftrightarrow> (\<exists>e. pc = Refused e)) \<and> (is_success pc \<longleftrightarrow> pc = Returned Succeeds) \<and>
    (is_failure pc \<longleftrightarrow> (\<exists>e. pc = Returned (Fails e)))"
  by (cases pc) (simp_all add: is_success_def is_failure_def)

lemma number_cong: "(\<And>x. x \<in> set xs \<Longrightarrow> P x = Q x) \<Longrightarrow> number P xs = number Q xs"
  unfolding number_def by (induction xs) simp_all

section \<open>Properties\<close>

text \<open>A bulkhead for one call at a time with one waiting.\<close>

definition example_bulkhead :: BulkheadConfig where
  "example_bulkhead = \<lparr>bc_MaxConcurrent = 1, bc_MaxWaiting = 1, bc_WaitTimeout = 10\<rparr>"

lemma example_bulkhead:
  "NewBulkhead (Some example_bulkhead) = Some \<lparr>bh_config = example_bulkhead, bh_capacity = 1, bh_semaphore = 0,
     bh_waiting = 0, bh_activeCount = 0, bh_rejectedCount = 0, bh_successCount = 0, bh_failureCount = 0\<rparr>"
  by (simp add: NewBulkhead_def example_bulkhead_def)

lemma unwaiting_bound: "bh_inv c (b, calls) \<Longrightarrow> number (\<lambda>pc. pc = Waiting) calls \<le> nat (sint (bc_MaxWaiting c))"
  using number_mono [of "\<lambda>pc. pc = Waiting" is_waiting calls] by (simp add: bh_inv_def)

lemma running_bound: "bh_inv c (b, calls) \<Longrightarrow> number (\<lambda>pc. pc = Running) calls \<le> nat (sint (bc_MaxConcurrent c))"
  using number_mono [of "\<lambda>pc. pc = Running" holds_slot calls] by (simp add: bh_inv_def)

text \<open>
  C28: The bound of a bulkhead.  Whatever calls are made and however they are interleaved, at no time are more
  than \<open>MaxConcurrent\<close> functions running or more than \<open>MaxWaiting\<close> calls waiting for a slot.
\<close>

theorem bulkhead_bound:
  assumes "NewBulkhead (Some c) = Some b0" "run bh_step actions (b0, []) = (b, calls)"
  shows "int (number (\<lambda>pc. pc = Running) calls) \<le> sint (bc_MaxConcurrent c) \<and>
    int (number (\<lambda>pc. pc = Waiting) calls) \<le> max 0 (sint (bc_MaxWaiting c))"
proof -
  have inv: "bh_inv c (b, calls)" using bulkhead_reachable [OF assms(1), of actions] assms(2) by simp
  have "0 \<le> sint (bc_MaxConcurrent c)" using assms(1) by (auto simp: NewBulkhead_def split: if_splits)
  with running_bound [OF inv] unwaiting_bound [OF inv] show ?thesis by linarith
qed

theorem bulkhead_bound_witness:
  "number (\<lambda>pc. pc = Running) (snd (run bh_step [Call Execute, Call Execute, Call TryExecute, Move 0 Proceed,
     Move 1 Proceed, Move 2 Proceed, Move 0 Proceed, Move 1 Proceed, Move 2 Proceed]
     (the (NewBulkhead (Some example_bulkhead)), [])) :: string pc list) \<le> 1"
proof -
  let ?sys = "run bh_step [Call Execute, Call Execute, Call TryExecute, Move 0 Proceed, Move 1 Proceed, Move 2 Proceed,
     Move 0 Proceed, Move 1 Proceed, Move 2 Proceed] (the (NewBulkhead (Some example_bulkhead)), []) :: string system"
  obtain b calls where sys: "?sys = (b, calls)" by (cases ?sys)
  from bulkhead_bound [OF example_bulkhead sys [unfolded example_bulkhead option.sel]]
  have "int (number (\<lambda>pc. pc = Running) calls) \<le> 1" by (simp add: example_bulkhead_def)
  with sys show ?thesis by simp
qed

text \<open>
  C29: Every call is accounted for.  Once all the calls made have returned, however they were interleaved and
  whether their functions succeeded, failed or panicked, no slot is taken, no call counts as waiting
  or active, and the counters are the numbers of the calls refused, succeeded and failed (modulo
  \<open>2 ^ 64\<close>).
\<close>

theorem bulkhead_accounting:
  assumes "NewBulkhead (Some c) = Some b0" "run bh_step actions (b0, []) = (b, calls)"
    and "list_all returned calls"
  shows "bh_semaphore b = 0 \<and> bh_waiting b = 0 \<and> bh_activeCount b = 0 \<and>
    bh_rejectedCount b = word_of_nat (number (\<lambda>pc. \<exists>e. pc = Refused e) calls) \<and>
    bh_successCount b = word_of_nat (number (\<lambda>pc. pc = Returned Succeeds) calls) \<and>
    bh_failureCount b = word_of_nat (number (\<lambda>pc. \<exists>e. pc = Returned (Fails e)) calls)"
proof -
  have inv: "bh_inv c (b, calls)" using bulkhead_reachable [OF assms(1), of actions] assms(2) by simp
  have none: "number holds_slot calls = 0" "number is_waiting calls = 0" "number is_active calls = 0"
    using assms(3) returned_pc by (auto simp: number_zero list_all_iff)
  have same: "number is_rejected calls = number (\<lambda>pc. \<exists>e. pc = Refused e) calls"
    "number is_success calls = number (\<lambda>pc. pc = Returned Succeeds) calls"
    "number is_failure calls = number (\<lambda>pc. \<exists>e. pc = Returned (Fails e)) calls"
    using assms(3) returned_pc by (auto simp: list_all_iff intro!: number_cong)
  from inv show ?thesis unfolding bh_inv_def counts_def by (simp add: none same)
qed

theorem bulkhead_accounting_witness:
  "fst (run bh_step ([Call Execute, Call TryExecute] @ map (\<lambda>i. Move i Proceed) [0, 1, 0, 1] @
      [Move 0 (Ends Panics), Move 0 Proceed, Move 0 Proceed])
     (the (NewBulkhead (Some example_bulkhead)), [] :: string pc list)) =
   (the (NewBulkhead (Some example_bulkhead)))\<lparr>bh_rejectedCount := 1\<rparr>"
proof -
  let ?sys = "run bh_step ([Call Execute, Call TryExecute] @ map (\<lambda>i. Move i Proceed) [0, 1, 0, 1] @
      [Move 0 (Ends Panics), Move 0 Proceed, Move 0 Proceed])
     (the (NewBulkhead (Some example_bulkhead)), [] :: string pc list)"
  obtain b calls where sys: "?sys = (b, calls)" by (cases ?sys)
  then have calls: "calls = [Returned Panics, Refused ErrBulkheadRejected]" "bh_config b = example_bulkhead" "bh_capacity b = 1"
    by (auto simp: example_bulkhead)
  have "list_all returned calls" by (simp add: calls)
  from bulkhead_accounting [OF example_bulkhead sys [unfolded example_bulkhead option.sel] this]
  have "bh_semaphore b = 0 \<and> bh_waiting b = 0 \<and> bh_activeCount b = 0 \<and> bh_rejectedCount b = 1 \<and>
      bh_successCount b = 0 \<and> bh_failureCount b = 0"
    by (simp add: calls number_def)
  with sys calls show ?thesis by (simp add: example_bulkhead)
qed

text \<open>
  C30: No call is stuck.  In every state that calls can reach, with at least one slot, at most ten more moves
  per call let every call return: it is enough that functions that run end, in whatever way, and no
  waiting call has to give up.
\<close>

theorem all_calls_return:
  assumes "NewBulkhead (Some c) = Some b0" "0 < sint (bc_MaxConcurrent c)"
    and "run bh_step actions (b0, []) = (b, calls)"
  shows "\<exists>moves. length moves \<le> 10 * length calls \<and>
    (\<forall>a \<in> set moves. \<exists>i. a = Move i Proceed \<or> a = Move i (Ends out)) \<and>
    list_all returned (snd (run bh_step moves (b, calls))) \<and>
    length (snd (run bh_step moves (b, calls))) = length calls"
proof -
  have "bh_inv c (b, calls)" using bulkhead_reachable [OF assms(1), of actions] assms(3) by simp
  from calls_return [OF this assms(2), of out] effort_bound [of calls] show ?thesis
    using order_trans by blast
qed

theorem all_calls_return_witness:
  "\<exists>moves. length moves \<le> 20 \<and>
    list_all returned (snd (run bh_step moves (the (NewBulkhead (Some example_bulkhead)),
      [Called Execute, Called TryExecute :: string pc])))"
proof -
  have "run bh_step [Call Execute, Call TryExecute] (the (NewBulkhead (Some example_bulkhead)), []) =
      (the (NewBulkhead (Some example_bulkhead)), [Called Execute, Called TryExecute :: string pc])" by simp
  from all_calls_return [OF example_bulkhead _ this [unfolded example_bulkhead option.sel], of Succeeds]
  show ?thesis by (auto simp: example_bulkhead) (auto simp: example_bulkhead_def)
qed

text \<open>
  A call gives its slot back before it is taken off \<open>activeCount\<close>: another can be counted in between,
  and the statistics report more active calls than there are slots.
\<close>

lemma active_count_exceeds:
  "bs_ActiveCount (bh_Stats (fst (run bh_step ([Call Execute, Call Execute, Move 0 Proceed, Move 0 Proceed,
     Move 0 (Ends Succeeds), Move 0 Proceed, Move 0 Proceed, Move 1 Proceed, Move 1 Proceed])
     (the (NewBulkhead (Some example_bulkhead)), [] :: string pc list)))) = 2"
  "bs_AvailableSlots (bh_Stats (fst (run bh_step ([Call Execute, Call Execute, Move 0 Proceed, Move 0 Proceed,
     Move 0 (Ends Succeeds), Move 0 Proceed, Move 0 Proceed, Move 1 Proceed, Move 1 Proceed])
     (the (NewBulkhead (Some example_bulkhead)), [] :: string pc list)))) = - 1"
  by (simp_all add: example_bulkhead bh_Stats_def) (simp add: example_bulkhead_def)

end
