(* ===== verification/AppErrors.thy ===== *)
theory AppErrors
  imports Go_Prelude
begin

text \<open>
  The errors of \<open>libs/resilience/errors.go\<close>: error codes and their statuses, application errors, the
  response that reports one, and the middleware that recovers from panics.

  An error of Go is a text, the join of errors, or an application error.  The metadata of an
  application error are texts here.  A response writer keeps what \<open>net/http\<close> lets through: the
  status and the headers are those of the first write, the body is the list of the chunks.
\<close>

section \<open>Error codes\<close>

datatype ErrorCode =
    ErrCodeBadRequest | ErrCodeUnauthorized | ErrCodeForbidden | ErrCodeNotFound | ErrCodeMethodNotAllowed
  | ErrCodeConflict | ErrCodeGone | ErrCodeUnprocessable | ErrCodeTooManyRequests
  | ErrCodeInternal | ErrCodeNotImplemented | ErrCodeBadGateway | ErrCodeServiceUnavailable | ErrCodeGatewayTimeout
  | ErrCodeValidation | ErrCodeInsufficientFunds | ErrCodeDuplicateEntry | ErrCodeExpired | ErrCodeInvalidState
  | ErrCodeDependencyFailed
  | ErrCodeOther string

fun error_code_text :: "ErrorCode \<Rightarrow> string" where
  "error_code_text ErrCodeBadRequest = ''BAD_REQUEST''"
| "error_code_text ErrCodeUnauthorized = ''UNAUTHORIZED''"
| "error_code_text ErrCodeForbidden = ''FORBIDDEN''"
| "error_code_text ErrCodeNotFound = ''NOT_FOUND''"
| "error_code_text ErrCodeMethodNotAllowed = ''METHOD_NOT_ALLOWED''"
| "error_code_text ErrCodeConflict = ''CONFLICT''"
| "error_code_text ErrCodeGone = ''GONE''"
| "error_code_text ErrCodeUnprocessable = ''UNPROCESSABLE_ENTITY''"
| "error_code_text ErrCodeTooManyRequests = ''TOO_MANY_REQUESTS''"
| "error_code_text ErrCodeInternal = ''INTERNAL_ERROR''"
| "error_code_text ErrCodeNotImplemented = ''NOT_IMPLEMENTED''"
| "error_code_text ErrCodeBadGateway = ''BAD_GATEWAY''"
| "error_code_text ErrCodeServiceUnavailable = ''SERVICE_UNAVAILABLE''"
| "error_code_text ErrCodeGatewayTimeout = ''GATEWAY_TIMEOUT''"
| "error_code_text ErrCodeValidation = ''VALIDATION_ERROR''"
| "error_code_text ErrCodeInsufficientFunds = ''INSUFFICIENT_FUNDS''"
| "error_code_text ErrCodeDuplicateEntry = ''DUPLICATE_ENTRY''"
| "error_code_text ErrCodeExpired = ''EXPIRED''"
| "error_code_text ErrCodeInvalidState = ''INVALID_STATE''"
| "error_code_text ErrCodeDependencyFailed = ''DEPENDENCY_FAILED''"
| "error_code_text (ErrCodeOther s) = s"

fun HTTPStatus :: "ErrorCode \<Rightarrow> nat" where
  "HTTPStatus ErrCodeBadRequest = 400"
| "HTTPStatus ErrCodeValidation = 400"
| "HTTPStatus ErrCodeUnauthorized = 401"
| "HTTPStatus ErrCodeForbidden = 403"
| "HTTPStatus ErrCodeNotFound = 404"
| "HTTPStatus ErrCodeMethodNotAllowed = 405"
| "HTTPStatus ErrCodeConflict = 409"
| "HTTPStatus ErrCodeDuplicateEntry = 409"
| "HTTPStatus ErrCodeGone = 410"
| "HTTPStatus ErrCodeExpired = 410"
| "HTTPStatus ErrCodeUnprocessable = 422"
| "HTTPStatus ErrCodeInsufficientFunds = 422"
| "HTTPStatus ErrCodeInvalidState = 422"
| "HTTPStatus ErrCodeTooManyRequests = 429"
| "HTTPStatus ErrCodeInternal = 500"
| "HTTPStatus ErrCodeNotImplemented = 501"
| "HTTPStatus ErrCodeBadGateway = 502"
| "HTTPStatus ErrCodeDependencyFailed = 502"
| "HTTPStatus ErrCodeServiceUnavailable = 503"
| "HTTPStatus ErrCodeGatewayTimeout = 504"
| "HTTPStatus (ErrCodeOther s) = 500"

section \<open>Application errors\<close>

record FieldError =
  fe_Field :: string
  fe_Message :: string
  fe_Code :: string

datatype go_error =
    ErrText string
  | ErrJoin "go_error list"
  | AppError (ae_Code: ErrorCode) (ae_Message: string) (ae_Details: string) (ae_RequestID: string)
      (ae_TraceID: string) (ae_Errors: "FieldError list") (ae_Metadata: metadata) (ae_HTTPStatus: nat)
      (ae_Cause: "go_error option")

text \<open>The method \<open>Error\<close>, of application errors.\<close>

definition ae_Error :: "go_error \<Rightarrow> string" where
  "ae_Error e =
     error_code_text (ae_Code e) @ '': '' @ ae_Message e @
     (if ae_Details e \<noteq> [] then '' - '' @ ae_Details e else [])"

fun WithDetails :: "string \<Rightarrow> go_error \<Rightarrow> go_error" where
  "WithDetails d (AppError code msg details req trace errs meta status cause) =
     AppError code msg d req trace errs meta status cause"
| "WithDetails d e = e"

fun WithCause :: "go_error option \<Rightarrow> go_error \<Rightarrow> go_error" where
  "WithCause err (AppError code msg details req trace errs meta status cause) =
     AppError code msg details req trace errs meta status err"
| "WithCause err e = e"

fun WithRequestID :: "string \<Rightarrow> go_error \<Rightarrow> go_error" where
  "WithRequestID i (AppError code msg details req trace errs meta status cause) =
     AppError code msg details i trace errs meta status cause"
| "WithRequestID i e = e"

fun WithTraceID :: "string \<Rightarrow> go_error \<Rightarrow> go_error" where
  "WithTraceID i (AppError code msg details req trace errs meta status cause) =
     AppError code msg details req i errs meta status cause"
| "WithTraceID i e = e"

fun WithField :: "string \<Rightarrow> string \<Rightarrow> go_error \<Rightarrow> go_error" where
  "WithField field message (AppError code msg details req trace errs meta status cause) =
     AppError code msg details req trace
       (errs @ [\<lparr>fe_Field = field, fe_Message = message, fe_Code = []\<rparr>]) meta status cause"
| "WithField field message e = e"

fun WithMetadata :: "string \<Rightarrow> string \<Rightarrow> go_error \<Rightarrow> go_error" where
  "WithMetadata key v (AppError code msg details req trace errs meta status cause) =
     AppError code msg details req trace errs
       (Some ((case meta of None \<Rightarrow> Map.empty | Some m \<Rightarrow> m)(key \<mapsto> v))) status cause"
| "WithMetadata key v e = e"

fun WithStatus :: "nat \<Rightarrow> go_error \<Rightarrow> go_error" where
  "WithStatus s (AppError code msg details req trace errs meta status cause) =
     AppError code msg details req trace errs meta s cause"
| "WithStatus s e = e"

definition NewError :: "ErrorCode \<Rightarrow> string \<Rightarrow> go_error" where
  "NewError code message = AppError code message [] [] [] [] None (HTTPStatus code) None"

definition BadRequest :: "string \<Rightarrow> go_error" where
  "BadRequest message = NewError ErrCodeBadRequest message"

definition Unauthorized :: "string \<Rightarrow> go_error" where
  "Unauthorized message = NewError ErrCodeUnauthorized message"

definition Forbidden :: "string \<Rightarrow> go_error" where
  "Forbidden message = NewError ErrCodeForbidden message"

definition NotFound :: "string \<Rightarrow> go_error" where
  "NotFound message = NewError ErrCodeNotFound message"

definition Conflict :: "string \<Rightarrow> go_error" where
  "Conflict message = NewError ErrCodeConflict message"

definition InternalError :: "string \<Rightarrow> go_error" where
  "InternalError message = NewError ErrCodeInternal message"

definition ServiceUnavailable :: "string \<Rightarrow> go_error" where
  "ServiceUnavailable message = NewError ErrCodeServiceUnavailable message"

fun WithErrors :: "FieldError list \<Rightarrow> go_error \<Rightarrow> go_error" where
  "WithErrors es (AppError code msg details req trace errs meta status cause) =
     AppError code msg details req trace es meta status cause"
| "WithErrors es e = e"

definition ValidationError :: "string \<Rightarrow> FieldError list \<Rightarrow> go_error" where
  "ValidationError message errors = WithErrors errors (NewError ErrCodeValidation message)"

text \<open>The three tests: the type assertion \<open>err.(*AppError)\<close> does not look into joined or wrapped errors.\<close>

fun IsRetryable :: "go_error \<Rightarrow> bool" where
  "IsRetryable (AppError code msg details req trace errs meta status cause) \<longleftrightarrow>
     code = ErrCodeServiceUnavailable \<or> code = ErrCodeGatewayTimeout \<or> code = ErrCodeBadGateway"
| "IsRetryable e \<longleftrightarrow> False"

fun IsClientError :: "go_error \<Rightarrow> bool" where
  "IsClientError (AppError code msg details req trace errs meta status cause) \<longleftrightarrow> 400 \<le> status \<and> status < 500"
| "IsClientError e \<longleftrightarrow> False"

fun IsServerError :: "go_error \<Rightarrow> bool" where
  "IsServerError (AppError code msg details req trace errs meta status cause) \<longleftrightarrow> 500 \<le> status"
| "IsServerError e \<longleftrightarrow> False"

section \<open>Responses\<close>

record ErrorResponse =
  er_Success :: bool
  er_Error :: go_error

datatype chunk = Json ErrorResponse | Bytes string

record Writer =
  wr_headers :: "string \<rightharpoonup> string"
  wr_sent :: "(nat \<times> (string \<rightharpoonup> string)) option"
  wr_body :: "chunk list"

definition new_writer :: Writer where
  "new_writer = \<lparr>wr_headers = Map.empty, wr_sent = None, wr_body = []\<rparr>"

definition WriteHeader :: "nat \<Rightarrow> Writer \<Rightarrow> Writer" where
  "WriteHeader status w = (if wr_sent w = None then w\<lparr>wr_sent := Some (status, wr_headers w)\<rparr> else w)"

definition wr_Write :: "chunk \<Rightarrow> Writer \<Rightarrow> Writer" where
  "wr_Write c w = (let w1 = WriteHeader 200 w in w1\<lparr>wr_body := wr_body w1 @ [c]\<rparr>)"

definition set_header :: "string \<Rightarrow> string \<Rightarrow> Writer \<Rightarrow> Writer" where
  "set_header k v w = w\<lparr>wr_headers := (wr_headers w)(k \<mapsto> v)\<rparr>"

definition WriteError :: "go_error \<Rightarrow> Writer \<Rightarrow> Writer" where
  "WriteError err w =
     wr_Write (Json \<lparr>er_Success = False, er_Error = err\<rparr>)
       (WriteHeader (ae_HTTPStatus err) (set_header ''Content-Type'' ''application/json'' w))"

definition WriteErrorWithStatus :: "nat \<Rightarrow> ErrorCode \<Rightarrow> string \<Rightarrow> Writer \<Rightarrow> Writer" where
  "WriteErrorWithStatus status code message w = WriteError (WithStatus status (NewError code message)) w"

text \<open>
  A handler writes and returns, or panics with an error or with another value; \<open>requestID\<close> is the
  header \<open>X-Request-ID\<close> of the request.
\<close>

datatype panic = PanicError go_error | PanicValue

type_synonym 'r plain_handler = "'r \<Rightarrow> Writer \<Rightarrow> Writer \<times> panic option"

definition RecoverMiddleware :: "('r \<Rightarrow> string) \<Rightarrow> 'r plain_handler \<Rightarrow> 'r plain_handler" where
  "RecoverMiddleware requestID next_handler r w =
     (case next_handler r w of
        (w', None) \<Rightarrow> (w', None)
      | (w', Some rec) \<Rightarrow>
          let err = InternalError ''An unexpected error occurred'';
              err = (case rec of PanicError e \<Rightarrow> WithCause (Some e) err | PanicValue \<Rightarrow> err);
              err = WithRequestID (requestID r) err
          in (WriteError err w', None))"

section \<open>Properties\<close>

lemma HTTPStatus_range: "400 \<le> HTTPStatus code \<and> HTTPStatus code < 600"
  by (cases code) simp_all

lemma RecoverMiddleware_error:
  assumes "next_handler r w = (w', Some rec)"
  obtains err where "RecoverMiddleware requestID next_handler r w = (WriteError err w', None)"
    "ae_HTTPStatus err = 500" "ae_RequestID err = requestID r"
    "ae_Cause err = (case rec of PanicError e \<Rightarrow> Some e | PanicValue \<Rightarrow> None)"
  by (cases rec) (simp_all add: RecoverMiddleware_def assms InternalError_def NewError_def that)

text \<open>
  Every error of the program becomes a definite response.  An error made from a code, whatever is added
  to it, is a client error or a server error and never both, is retried only if it is a server error,
  and its response has that status, unless a status was already sent.
\<close>

lemma error_response:
  "IsServerError (NewError code message) = (\<not> IsClientError (NewError code message)) \<and>
   (IsRetryable (NewError code message) \<longrightarrow> IsServerError (NewError code message)) \<and>
   (wr_sent w = None \<longrightarrow>
      wr_sent (WriteError (WithDetails d (WithCause cause (WithRequestID i (NewError code message)))) w) =
        Some (HTTPStatus code, (wr_headers w)(''Content-Type'' \<mapsto> ''application/json''))) \<and>
   (wr_sent w \<noteq> None \<longrightarrow>
      wr_sent (WriteError (WithDetails d (WithCause cause (WithRequestID i (NewError code message)))) w) = wr_sent w)"
  using HTTPStatus_range [of code]
  by (auto simp: NewError_def WriteError_def wr_Write_def WriteHeader_def set_header_def Let_def)

text \<open>
  No panic gets through \<open>RecoverMiddleware\<close>, and the client gets an answer.  A handler that panics is
  answered with 500 if it had sent nothing, and with the status it had sent otherwise; in both
  cases the body ends with an internal error that has the id of the request.
\<close>

lemma panics_are_answered:
  "snd (RecoverMiddleware requestID h r w) = None \<and>
   (snd (h r w) \<noteq> None \<longrightarrow>
     (\<exists>err headers. ae_RequestID err = requestID r \<and> ae_Code err = ErrCodeInternal \<and>
       wr_body (fst (RecoverMiddleware requestID h r w)) =
         wr_body (fst (h r w)) @ [Json \<lparr>er_Success = False, er_Error = err\<rparr>] \<and>
       wr_sent (fst (RecoverMiddleware requestID h r w)) =
         (case wr_sent (fst (h r w)) of None \<Rightarrow> Some (500, headers) | Some sent \<Rightarrow> Some sent)))"
  by (auto simp: RecoverMiddleware_def InternalError_def NewError_def WriteError_def wr_Write_def WriteHeader_def
      set_header_def Let_def split: prod.splits option.splits panic.splits)

end
