(* ===== verification/Retry.thy ===== *)
theory Retry
  imports AppErrors Go_Floats
begin

text \<open>
  Retries and timeouts, \<open>libs/resilience/retry.go\<close> and \<open>libs/resilience/timeout.go\<close>.

  The function that is retried acts on a state \<open>'s\<close>.  What the program does not decide is an argument:
  whether the context is done at the check before an attempt and during the wait after it, the
  random numbers, and, for a timeout, which of the function and the context is first.  A wait is the
  duration given to \<open>time.After\<close>.
\<close>

section \<open>Configuration and delays\<close>

record RetryConfig =
  ry_MaxRetries :: int64
  ry_InitialDelay :: duration
  ry_MaxDelay :: duration
  ry_Multiplier :: rat
  ry_Jitter :: rat
  ry_RetryIf :: "(go_error \<Rightarrow> bool) option"

definition DefaultRetryConfig :: RetryConfig where
  "DefaultRetryConfig =
     \<lparr>ry_MaxRetries = 3, ry_InitialDelay = 10 ^ 8, ry_MaxDelay = 30 * 10 ^ 9, ry_Multiplier = 2, ry_Jitter = 1 / 10,
      ry_RetryIf = Some IsRetryable\<rparr>"

definition ErrMaxRetriesExceeded :: go_error where
  "ErrMaxRetriesExceeded = ErrText ''maximum retries exceeded''"

definition ErrContextCanceled :: go_error where
  "ErrContextCanceled = ErrText ''context canceled''"

definition addJitter :: "rat \<Rightarrow> duration \<Rightarrow> rat \<Rightarrow> duration" where
  "addJitter rand d factor =
     (if factor \<le> 0 then d
      else let jitter = of_int d * factor * (rand * 2 - 1) in trunc (of_int d + jitter))"

definition next_delay :: "RetryConfig \<Rightarrow> duration \<Rightarrow> duration" where
  "next_delay config delay =
     (let delay' = trunc (of_int delay * ry_Multiplier config)
      in if ry_MaxDelay config < delay' then ry_MaxDelay config else delay')"

definition ExponentialBackoff :: "nat \<Rightarrow> duration \<Rightarrow> duration \<Rightarrow> rat \<Rightarrow> duration" where
  "ExponentialBackoff attempt baseDelay maxDelay multiplier =
     (let delay = of_int baseDelay * multiplier ^ attempt
      in if of_int maxDelay < delay then maxDelay else trunc delay)"

text \<open>The product of \<open>LinearBackoff\<close> is one of int64 values, and wraps.\<close>

definition LinearBackoff :: "int64 \<Rightarrow> duration \<Rightarrow> duration \<Rightarrow> duration" where
  "LinearBackoff attempt baseDelay maxDelay =
     (let delay = sint (word_of_int baseDelay * (attempt + 1) :: int64)
      in if maxDelay < delay then maxDelay else delay)"

definition ConstantBackoff :: "duration \<Rightarrow> duration" where
  "ConstantBackoff delay = delay"

section \<open>Retry\<close>

text \<open>What the context and the random numbers do, by the number of the attempt.\<close>

record retry_env =
  re_done_before :: "nat \<Rightarrow> bool"
  re_done_during :: "nat \<Rightarrow> bool"
  re_random :: "nat \<Rightarrow> rat"

definition should_retry :: "(go_error \<Rightarrow> bool) option \<Rightarrow> go_error \<Rightarrow> bool" where
  "should_retry retryIf err = (case retryIf of None \<Rightarrow> True | Some f \<Rightarrow> f err)"

text \<open>
  The loop of \<open>Retry\<close>, with the attempts still allowed: the error it returns, the waits it starts, and the
  state.  \<open>errors.Join\<close> leaves out a nil error.
\<close>

fun retry_loop ::
  "RetryConfig \<Rightarrow> retry_env \<Rightarrow> ('s \<Rightarrow> go_error option \<times> 's) \<Rightarrow> nat \<Rightarrow> nat \<Rightarrow> duration \<Rightarrow> go_error option \<Rightarrow> 's \<Rightarrow>
    go_error option \<times> duration list \<times> 's" where
  "retry_loop config env fn attempt 0 delay lastErr s =
     (Some (ErrJoin (ErrMaxRetriesExceeded # (case lastErr of None \<Rightarrow> [] | Some e \<Rightarrow> [e]))), [], s)"
| "retry_loop config env fn attempt (Suc n) delay lastErr s =
     (if re_done_before env attempt then (Some ErrContextCanceled, [], s)
      else
        case fn s of
          (None, s1) \<Rightarrow> (None, [], s1)
        | (Some err, s1) \<Rightarrow>
            if \<not> should_retry (ry_RetryIf config) err then (Some err, [], s1)
            else if n = 0 then retry_loop config env fn (attempt + 1) 0 delay (Some err) s1
            else
              let wait = addJitter (re_random env attempt) delay (ry_Jitter config)
              in if re_done_during env attempt then (Some ErrContextCanceled, [wait], s1)
                 else case retry_loop config env fn (attempt + 1) n (next_delay config delay) (Some err) s1 of
                        (result, waits, s2) \<Rightarrow> (result, wait # waits, s2))"

definition retry_config :: "RetryConfig option \<Rightarrow> RetryConfig" where
  "retry_config config = (case config of None \<Rightarrow> DefaultRetryConfig | Some c \<Rightarrow> c)"

text \<open>The loop runs for the attempts 0 to \<open>MaxRetries\<close>.\<close>

definition attempts :: "RetryConfig \<Rightarrow> nat" where
  "attempts config = nat (sint (ry_MaxRetries config) + 1)"

definition Retry ::
  "RetryConfig option \<Rightarrow> retry_env \<Rightarrow> ('s \<Rightarrow> go_error option \<times> 's) \<Rightarrow> 's \<Rightarrow> go_error option \<times> duration list \<times> 's" where
  "Retry config env fn s =
     (let c = retry_config config in retry_loop c env fn 0 (attempts c) (ry_InitialDelay c) None s)"

text \<open>\<open>RetryWithResult\<close> is a second copy of the loop, with a result; \<open>zero\<close> is the zero value of its type.\<close>

fun retry_result_loop ::
  "'a \<Rightarrow> RetryConfig \<Rightarrow> retry_env \<Rightarrow> ('s \<Rightarrow> ('a \<times> go_error option) \<times> 's) \<Rightarrow> nat \<Rightarrow> nat \<Rightarrow> duration \<Rightarrow>
    go_error option \<Rightarrow> 's \<Rightarrow> ('a \<times> go_error option) \<times> duration list \<times> 's" where
  "retry_result_loop zero config env fn attempt 0 delay lastErr s =
     ((zero, Some (ErrJoin (ErrMaxRetriesExceeded # (case lastErr of None \<Rightarrow> [] | Some e \<Rightarrow> [e])))), [], s)"
| "retry_result_loop zero config env fn attempt (Suc n) delay lastErr s =
     (if re_done_before env attempt then ((zero, Some ErrContextCanceled), [], s)
      else
        case fn s of
          ((result, None), s1) \<Rightarrow> ((result, None), [], s1)
        | ((result, Some err), s1) \<Rightarrow>
            if \<not> should_retry (ry_RetryIf config) err then ((zero, Some err), [], s1)
            else if n = 0 then retry_result_loop zero config env fn (attempt + 1) 0 delay (Some err) s1
            else
              let wait = addJitter (re_random env attempt) delay (ry_Jitter config)
              in if re_done_during env attempt then ((zero, Some ErrContextCanceled), [wait], s1)
                 else case retry_result_loop zero config env fn (attempt + 1) n (next_delay config delay) (Some err) s1 of
                        (answer, waits, s2) \<Rightarrow> (answer, wait # waits, s2))"

definition RetryWithResult ::
  "'a \<Rightarrow> RetryConfig option \<Rightarrow> retry_env \<Rightarrow> ('s \<Rightarrow> ('a \<times> go_error option) \<times> 's) \<Rightarrow> 's \<Rightarrow>
    ('a \<times> go_error option) \<times> duration list \<times> 's" where
  "RetryWithResult zero config env fn s =
     (let c = retry_config config in retry_result_loop zero c env fn 0 (attempts c) (ry_InitialDelay c) None s)"

text \<open>The wrapper.\<close>

type_synonym RetryableFunc = RetryConfig

definition NewRetryableFunc :: "RetryConfig option \<Rightarrow> RetryableFunc" where
  "NewRetryableFunc config = retry_config config"

definition rf_Do ::
  "RetryableFunc \<Rightarrow> retry_env \<Rightarrow> ('s \<Rightarrow> go_error option \<times> 's) \<Rightarrow> 's \<Rightarrow> go_error option \<times> duration list \<times> 's" where
  "rf_Do r env fn s = Retry (Some r) env fn s"

definition DoWithResult ::
  "'a \<Rightarrow> RetryableFunc \<Rightarrow> retry_env \<Rightarrow> ('s \<Rightarrow> ('a \<times> go_error option) \<times> 's) \<Rightarrow> 's \<Rightarrow>
    ('a \<times> go_error option) \<times> duration list \<times> 's" where
  "DoWithResult zero r env fn s = RetryWithResult zero (Some r) env fn s"

section \<open>Policies\<close>

record RetryPolicy =
  rp_MaxAttempts :: int64
  rp_BackoffStrategy :: "nat \<Rightarrow> duration"
  rp_ShouldRetry :: "(go_error \<Rightarrow> bool) option"

definition DefaultRetryPolicy :: RetryPolicy where
  "DefaultRetryPolicy =
     \<lparr>rp_MaxAttempts = 3, rp_BackoffStrategy = (\<lambda>attempt. ExponentialBackoff attempt (10 ^ 8) (30 * 10 ^ 9) 2),
      rp_ShouldRetry = Some IsRetryable\<rparr>"

fun policy_loop ::
  "RetryPolicy \<Rightarrow> retry_env \<Rightarrow> ('s \<Rightarrow> go_error option \<times> 's) \<Rightarrow> nat \<Rightarrow> nat \<Rightarrow> go_error option \<Rightarrow> 's \<Rightarrow>
    go_error option \<times> duration list \<times> 's" where
  "policy_loop p env fn attempt 0 lastErr s =
     (Some (ErrJoin (ErrMaxRetriesExceeded # (case lastErr of None \<Rightarrow> [] | Some e \<Rightarrow> [e]))), [], s)"
| "policy_loop p env fn attempt (Suc n) lastErr s =
     (if re_done_before env attempt then (Some ErrContextCanceled, [], s)
      else
        case fn s of
          (None, s1) \<Rightarrow> (None, [], s1)
        | (Some err, s1) \<Rightarrow>
            if \<not> should_retry (rp_ShouldRetry p) err then (Some err, [], s1)
            else if n = 0 then policy_loop p env fn (attempt + 1) 0 (Some err) s1
            else
              let wait = rp_BackoffStrategy p attempt
              in if re_done_during env attempt then (Some ErrContextCanceled, [wait], s1)
                 else case policy_loop p env fn (attempt + 1) n (Some err) s1 of
                        (result, waits, s2) \<Rightarrow> (result, wait # waits, s2))"

definition rp_Execute ::
  "RetryPolicy \<Rightarrow> retry_env \<Rightarrow> ('s \<Rightarrow> go_error option \<times> 's) \<Rightarrow> 's \<Rightarrow> go_error option \<times> duration list \<times> 's" where
  "rp_Execute p env fn s = policy_loop p env fn 0 (nat (sint (rp_MaxAttempts p))) None s"

section \<open>Timeouts\<close>

definition ErrTimeout :: go_error where
  "ErrTimeout = ErrText ''operation timed out''"

record TimeoutConfig =
  tc_ReadTimeout :: duration
  tc_WriteTimeout :: duration
  tc_RequestTimeout :: duration
  tc_IdleTimeout :: duration
  tc_ShutdownTimeout :: duration

definition DefaultTimeoutConfig :: TimeoutConfig where
  "DefaultTimeoutConfig =
     \<lparr>tc_ReadTimeout = 5 * 10 ^ 9, tc_WriteTimeout = 10 * 10 ^ 9, tc_RequestTimeout = 30 * 10 ^ 9,
      tc_IdleTimeout = 120 * 10 ^ 9, tc_ShutdownTimeout = 30 * 10 ^ 9\<rparr>"

text \<open>What the select takes: the function's answer, or the context, with its error.\<close>

datatype 'a race = Answered 'a | DeadlineExceeded | CtxDone go_error

fun WithTimeout :: "go_error option race \<Rightarrow> go_error option" where
  "WithTimeout (Answered err) = err"
| "WithTimeout DeadlineExceeded = Some ErrTimeout"
| "WithTimeout (CtxDone err) = Some err"

fun WithTimeoutResult :: "'a \<Rightarrow> ('a \<times> go_error option) race \<Rightarrow> 'a \<times> go_error option" where
  "WithTimeoutResult zero (Answered answer) = answer"
| "WithTimeoutResult zero DeadlineExceeded = (zero, Some ErrTimeout)"
| "WithTimeoutResult zero (CtxDone err) = (zero, Some err)"

text \<open>The writer that the handler behind \<open>TimeoutMiddleware\<close> gets, and its methods.\<close>

record timeoutWriter =
  tw_header :: "string \<rightharpoonup> string"
  tw_code :: nat
  tw_body :: "string"

definition new_timeoutWriter :: timeoutWriter where
  "new_timeoutWriter = \<lparr>tw_header = Map.empty, tw_code = 0, tw_body = []\<rparr>"

definition tw_WriteHeader :: "nat \<Rightarrow> timeoutWriter \<Rightarrow> timeoutWriter" where
  "tw_WriteHeader code tw = tw\<lparr>tw_code := code\<rparr>"

definition tw_Write :: "string \<Rightarrow> timeoutWriter \<Rightarrow> timeoutWriter" where
  "tw_Write b tw = tw\<lparr>tw_body := tw_body tw @ b\<rparr>"

text \<open>
  The middleware: the handler runs in a goroutine of its own, on the buffering writer.  If it ends first its
  writer is copied, otherwise 504 is answered; if it panics first, the whole process ends (\<open>None\<close>), since
  no other goroutine can recover it.
\<close>

definition TimeoutMiddleware ::
  "bool \<Rightarrow> (timeoutWriter \<Rightarrow> timeoutWriter \<times> panic option) \<Rightarrow> Writer \<Rightarrow> Writer option" where
  "TimeoutMiddleware handler_first handler w =
     (if handler_first then
        (case handler new_timeoutWriter of
           (tw, Some panic) \<Rightarrow> None
         | (tw, None) \<Rightarrow>
             let w1 = w\<lparr>wr_headers := wr_headers w ++ tw_header tw\<rparr>;
                 w2 = (if tw_code tw \<noteq> 0 then WriteHeader (tw_code tw) w1 else w1)
             in Some (wr_Write (Bytes (tw_body tw)) w2))
      else Some (wr_Write (Bytes ''{\"error\":\"GATEWAY_TIMEOUT\",\"message\":\"Request timed out\"}'')
                  (WriteHeader 504 w)))"

record Deadline =
  dl_deadline :: time
  dl_duration :: duration

definition NewDeadline :: "time \<Rightarrow> duration \<Rightarrow> Deadline" where
  "NewDeadline now d = \<lparr>dl_deadline = now + d, dl_duration = d\<rparr>"

definition Remaining :: "time \<Rightarrow> Deadline \<Rightarrow> duration" where
  "Remaining now d = (let remaining = time_sub (dl_deadline d) now in if remaining < 0 then 0 else remaining)"

definition dl_Expired :: "time \<Rightarrow> Deadline \<Rightarrow> bool" where
  "dl_Expired now d \<longleftrightarrow> dl_deadline d < now"

definition dl_Extend :: "duration \<Rightarrow> Deadline \<Rightarrow> Deadline" where
  "dl_Extend duration d = d\<lparr>dl_deadline := dl_deadline d + duration\<rparr>"

definition dl_Reset :: "time \<Rightarrow> Deadline \<Rightarrow> Deadline" where
  "dl_Reset now d = d\<lparr>dl_deadline := now + dl_duration d\<rparr>"

section \<open>What a retry does\<close>

text \<open>The state after a number of calls, and the error of the next.\<close>

definition after_calls :: "('s \<Rightarrow> 'a \<times> 's) \<Rightarrow> nat \<Rightarrow> 's \<Rightarrow> 's" where
  "after_calls fn k s = ((\<lambda>s. snd (fn s)) ^^ k) s"

definition call_result :: "('s \<Rightarrow> 'a \<times> 's) \<Rightarrow> nat \<Rightarrow> 's \<Rightarrow> 'a" where
  "call_result fn k s = fst (fn (after_calls fn k s))"

lemma after_calls_simps [simp]:
  "after_calls fn 0 s = s" "after_calls fn (Suc k) s = after_calls fn k (snd (fn s))"
  "call_result fn 0 s = fst (fn s)" "call_result fn (Suc k) s = call_result fn k (snd (fn s))"
  by (simp_all add: after_calls_def call_result_def funpow_swap1 del: funpow.simps add: funpow_Suc_right)

definition retried :: "RetryConfig \<Rightarrow> go_error option \<Rightarrow> bool" where
  "retried config result \<longleftrightarrow> (\<exists>e. result = Some e \<and> should_retry (ry_RetryIf config) e)"

lemma retried_simps [simp]:
  "\<not> retried config None" "retried config (Some e) \<longleftrightarrow> should_retry (ry_RetryIf config) e"
  by (simp_all add: retried_def)

lemma all_less_Suc_shift: "(\<forall>j < Suc k. P j) \<longleftrightarrow> P 0 \<and> (\<forall>j < k. P (Suc j))"
  by (auto simp: less_Suc_eq_0_disj)

definition retry_ends ::
  "RetryConfig \<Rightarrow> retry_env \<Rightarrow> (nat \<Rightarrow> go_error option) \<Rightarrow> nat \<Rightarrow> nat \<Rightarrow> go_error option \<Rightarrow> nat \<Rightarrow> go_error option \<Rightarrow> bool" where
  "retry_ends config env results attempt n lastErr calls result \<longleftrightarrow>
     (case calls of 0 \<Rightarrow> False | Suc k \<Rightarrow> (\<forall>j < k. retried config (results j)) \<and>
        \<not> retried config (results k) \<and> result = results k) \<or>
     (\<forall>j < calls. retried config (results j)) \<and>
     (calls = n \<and> result = Some (ErrJoin (ErrMaxRetriesExceeded #
          (case (if n = 0 then lastErr else results (n - 1)) of None \<Rightarrow> [] | Some e \<Rightarrow> [e]))) \<or>
      result = Some ErrContextCanceled \<and>
        (re_done_before env (attempt + calls) \<or> (\<exists>k. calls = Suc k \<and> re_done_during env (attempt + k))))"

lemma retry_ends_Suc:
  assumes "retry_ends config env (\<lambda>k. results (Suc k)) (Suc attempt) n (results 0) calls result"
    "retried config (results 0)"
  shows "retry_ends config env results attempt (Suc n) lastErr (Suc calls) result"
  using assms by (cases calls) (auto simp: retry_ends_def all_less_Suc_shift split: nat.splits if_splits)

lemma retry_loop_ends:
  assumes "retry_loop config env fn attempt n delay lastErr s = (result, waits, s')"
  shows "\<exists>calls \<le> n. s' = after_calls fn calls s \<and> length waits \<le> calls \<and>
    retry_ends config env (\<lambda>k. call_result fn k s) attempt n lastErr calls result"
  using assms
proof (induction n arbitrary: attempt delay lastErr s result waits)
  case 0
  then show ?case by (simp add: retry_ends_def)
next
  case (Suc n)
  obtain r s1 where call: "fn s = (r, s1)" by (cases "fn s")
  show ?case
  proof (cases "re_done_before env attempt")
    case True
    with Suc.prems show ?thesis by (intro exI [of _ 0]) (simp add: retry_ends_def)
  next
    case go: False
    show ?thesis
    proof (cases "retried config r")
      case False
      with go Suc.prems call have "result = r \<and> waits = [] \<and> s' = s1" by (auto split: option.splits)
      with False call show ?thesis by (intro exI [of _ 1]) (simp add: retry_ends_def)
    next
      case True
      then obtain err where err: "r = Some err" "should_retry (ry_RetryIf config) err" by (auto simp: retried_def)
      show ?thesis
      proof (cases "n \<noteq> 0 \<and> re_done_during env attempt")
        case stop: True
        with go Suc.prems call err have "result = Some ErrContextCanceled \<and> length waits = 1 \<and> s' = s1"
          by (auto simp: Let_def)
        with call True stop show ?thesis by (intro exI [of _ 1]) (simp add: retry_ends_def)
      next
        case False
        then obtain delay' waits' where rest: "retry_loop config env fn (attempt + 1) n delay' r s1 = (result, waits', s')"
            "length waits \<le> Suc (length waits')"
          using go Suc.prems call err by (cases "n = 0") (auto simp: Let_def split: prod.splits)
        from Suc.IH [OF rest(1)] obtain calls where calls: "calls \<le> n" "s' = after_calls fn calls s1"
            "length waits' \<le> calls" "retry_ends config env (\<lambda>k. call_result fn k s1) (attempt + 1) n r calls result"
          by blast
        have "retry_ends config env (\<lambda>k. call_result fn k s) attempt (Suc n) lastErr (Suc calls) result"
          using calls(4) True call by (intro retry_ends_Suc) simp_all
        with calls rest(2) call show ?thesis by (intro exI [of _ "Suc calls"]) simp
      qed
    qed
  qed
qed

lemma retry_ends_cases:
  assumes "retry_ends config env results 0 n lastErr calls result"
  obtains (last) "0 < calls" "\<not> retried config (results (calls - 1))" "result = results (calls - 1)"
  | (exhausted) errs where "calls = n" "result = Some (ErrJoin (ErrMaxRetriesExceeded # errs))"
      "0 < calls \<longrightarrow> (\<exists>e. results (calls - 1) = Some e \<and> errs = [e])"
  | (canceled) k where "result = Some ErrContextCanceled" "k \<le> calls" "re_done_before env k \<or> re_done_during env k"
proof -
  have "0 < calls \<Longrightarrow> \<forall>j < calls. retried config (results j) \<Longrightarrow> \<exists>e. results (calls - 1) = Some e"
    by (metis diff_less zero_less_one retried_def)
  with assms consider "0 < calls \<and> \<not> retried config (results (calls - 1)) \<and> result = results (calls - 1)"
    | "calls = n \<and> (0 < calls \<longrightarrow> (\<exists>e. results (calls - 1) = Some e)) \<and>
        result = Some (ErrJoin (ErrMaxRetriesExceeded #
          (case (if n = 0 then lastErr else results (n - 1)) of None \<Rightarrow> [] | Some e \<Rightarrow> [e])))"
    | "result = Some ErrContextCanceled \<and>
        (re_done_before env calls \<or> (\<exists>k. calls = Suc k \<and> re_done_during env k))"
    unfolding retry_ends_def by (auto split: nat.splits)
  then show thesis
  proof cases
    case 1
    with last show thesis by blast
  next
    case 2
    then show thesis by (intro exhausted) auto
  next
    case 3
    then show thesis using canceled [of calls] canceled [of "calls - 1"] by auto
  qed
qed

section \<open>The waits\<close>

lemma addJitter_bounds:
  assumes "0 \<le> d" "0 \<le> factor" "factor \<le> 1" "0 \<le> rand" "rand \<le> 1"
  shows "0 \<le> addJitter rand d factor" "of_int (addJitter rand d factor) \<le> (1 + factor) * of_int d"
proof -
  let ?j = "factor * (rand * 2 - 1)"
  have "- 1 \<le> rand * 2 - 1" "rand * 2 - 1 \<le> 1" using assms(4,5) by simp_all
  then have j: "- factor \<le> ?j" "?j \<le> factor"
    using assms(2) mult_left_mono [of "- 1" "rand * 2 - 1" factor] mult_left_mono [of "rand * 2 - 1" 1 factor] by simp_all
  have "0 \<le> of_int d * (1 + ?j)" using assms(1,3) j by (intro mult_nonneg_nonneg) simp_all
  moreover have "of_int d * (1 + ?j) \<le> of_int d * (1 + factor)" using assms(1) j(2) by (intro mult_left_mono) simp_all
  moreover have "of_int d + of_int d * factor * (rand * 2 - 1) = of_int d * (1 + ?j)" by (simp add: algebra_simps)
  moreover have "0 \<le> (of_int d :: rat) * factor" using assms(1,2) by simp
  ultimately show "0 \<le> addJitter rand d factor" "of_int (addJitter rand d factor) \<le> (1 + factor) * of_int d"
    using trunc_nonneg [of "of_int d * (1 + ?j)"] assms(1,2) by (auto simp: addJitter_def Let_def algebra_simps)
qed

lemma next_delay_bounds:
  assumes "0 \<le> delay" "0 \<le> ry_Multiplier config" "0 \<le> ry_MaxDelay config"
  shows "0 \<le> next_delay config delay \<and> next_delay config delay \<le> ry_MaxDelay config"
  using assms trunc_nonneg [of "of_int delay * ry_Multiplier config"] by (simp add: next_delay_def Let_def)

lemma retry_loop_waits:
  assumes "0 \<le> ry_Multiplier config" "0 \<le> ry_Jitter config" "ry_Jitter config \<le> 1"
    and "\<And>k. 0 \<le> re_random env k \<and> re_random env k \<le> 1"
    and "0 \<le> delay" "delay \<le> ry_MaxDelay config"
    and "retry_loop config env fn attempt n delay lastErr s = (result, waits, s')"
  shows "length waits \<le> n - 1 \<and> (\<forall>w \<in> set waits. 0 \<le> w \<and> of_int w \<le> (1 + ry_Jitter config) * of_int (ry_MaxDelay config))"
  using assms(5-7)
proof (induction n arbitrary: attempt delay lastErr s result waits)
  case 0
  then show ?case by simp
next
  case (Suc n)
  let ?w = "addJitter (re_random env attempt) delay (ry_Jitter config)"
  have "(1 + ry_Jitter config) * of_int delay \<le> (1 + ry_Jitter config) * of_int (ry_MaxDelay config)"
    using Suc.prems(2) assms(2) by (intro mult_left_mono) simp_all
  then have w: "0 \<le> ?w" "of_int ?w \<le> (1 + ry_Jitter config) * of_int (ry_MaxDelay config)"
    using addJitter_bounds [OF Suc.prems(1) assms(2,3), of "re_random env attempt"] assms(4) by (auto intro: order_trans)
  have "0 \<le> ry_MaxDelay config" using Suc.prems by simp
  note d = next_delay_bounds [OF Suc.prems(1) assms(1) this]
  consider "waits = []" | "waits = [?w]" "n \<noteq> 0" | r s1 waits' where "waits = ?w # waits'" "n \<noteq> 0"
      "retry_loop config env fn (attempt + 1) n (next_delay config delay) r s1 = (result, waits', s')"
    using Suc.prems(3) by (auto simp: Let_def split: if_splits prod.splits option.splits)
  then show ?case
  proof cases
    case 3
    from Suc.IH [OF _ _ 3(3)] d w 3(1,2) show ?thesis by auto
  qed (use w in auto)
qed

lemma retry_loops_agree:
  "retry_loop config env (\<lambda>s. (snd (fst (fn s)), snd (fn s))) attempt n delay lastErr s =
    (case retry_result_loop zero config env fn attempt n delay lastErr s of (answer, waits, s') \<Rightarrow> (snd answer, waits, s'))"
  by (induction n arbitrary: attempt delay lastErr s) (simp_all add: Let_def split: prod.split option.split)

section \<open>Properties\<close>

text \<open>A function that fails with a retryable error until its state, which counts the calls, is \<open>m\<close>.\<close>

definition flaky :: "nat \<Rightarrow> nat \<Rightarrow> go_error option \<times> nat" where
  "flaky m k = (if k < m then Some (ServiceUnavailable ''busy'') else None, k + 1)"

definition quiet :: retry_env where
  "quiet = \<lparr>re_done_before = (\<lambda>k. False), re_done_during = (\<lambda>k. False), re_random = (\<lambda>k. 1 / 2)\<rparr>"

text \<open>
  C37: What \<open>Retry\<close> returns, for any function.  It makes at most \<open>MaxRetries + 1\<close> calls, one after the other,
  and goes on only after an error that is to be retried.  It returns the result of the last call if
  that is a success or an error not to be retried; or, after the last call allowed, the join of
  \<open>ErrMaxRetriesExceeded\<close> and the last error; or \<open>ErrContextCanceled\<close>, only if the context was done.
\<close>

theorem retry_outcome:
  assumes "Retry (Some c) env fn s = (result, waits, s')"
  shows "\<exists>calls \<le> nat (sint (ry_MaxRetries c) + 1). s' = after_calls fn calls s \<and>
    (\<forall>j. Suc j < calls \<longrightarrow> retried c (call_result fn j s)) \<and>
    (0 < calls \<and> \<not> retried c (call_result fn (calls - 1) s) \<and> result = call_result fn (calls - 1) s \<or>
     calls = nat (sint (ry_MaxRetries c) + 1) \<and> (\<exists>errs. result = Some (ErrJoin (ErrMaxRetriesExceeded # errs)) \<and>
       (0 < calls \<longrightarrow> (\<exists>e. call_result fn (calls - 1) s = Some e \<and> errs = [e]))) \<or>
     result = Some ErrContextCanceled \<and> (\<exists>k \<le> calls. re_done_before env k \<or> re_done_during env k))"
proof -
  from assms retry_loop_ends [of c env fn 0 "attempts c" "ry_InitialDelay c" None s result waits s']
  obtain calls where calls: "calls \<le> attempts c" "s' = after_calls fn calls s"
      and ends: "retry_ends c env (\<lambda>k. call_result fn k s) 0 (attempts c) None calls result"
    by (auto simp: Retry_def retry_config_def Let_def)
  have "\<forall>j. Suc j < calls \<longrightarrow> retried c (call_result fn j s)"
    using ends by (auto simp: retry_ends_def split: nat.splits)
  moreover from ends
  have "0 < calls \<and> \<not> retried c (call_result fn (calls - 1) s) \<and> result = call_result fn (calls - 1) s \<or>
     calls = attempts c \<and> (\<exists>errs. result = Some (ErrJoin (ErrMaxRetriesExceeded # errs)) \<and>
       (0 < calls \<longrightarrow> (\<exists>e. call_result fn (calls - 1) s = Some e \<and> errs = [e]))) \<or>
     result = Some ErrContextCanceled \<and> (\<exists>k \<le> calls. re_done_before env k \<or> re_done_during env k)"
  proof (cases rule: retry_ends_cases)
    case (exhausted errs)
    then show ?thesis by (intro disjI2 disjI1 conjI exI [of _ errs]) simp_all
  qed blast+
  ultimately show ?thesis
    using calls unfolding attempts_def by (intro exI [of _ calls] conjI)
qed

theorem retry_outcome_witness:
  "fst (Retry None quiet (flaky 9) 0) = Some (ErrJoin [ErrMaxRetriesExceeded, ServiceUnavailable ''busy''])"
proof -
  obtain result waits n where run: "Retry (Some DefaultRetryConfig) quiet (flaky 9) 0 = (result, waits, n)"
    by (cases "Retry (Some DefaultRetryConfig) quiet (flaky 9) 0")
  have "after_calls (flaky 9) k 0 = k" for k
    unfolding after_calls_def by (induction k) (simp_all add: flaky_def)
  then have call: "call_result (flaky 9) k 0 = (if k < 9 then Some (ServiceUnavailable ''busy'') else None)" for k
    by (simp add: call_result_def flaky_def)
  have busy: "retried DefaultRetryConfig (Some (ServiceUnavailable ''busy''))" "sint (ry_MaxRetries DefaultRetryConfig) = 3"
    by (simp_all add: should_retry_def DefaultRetryConfig_def ServiceUnavailable_def NewError_def)
  from retry_outcome [OF run] have "result = Some (ErrJoin [ErrMaxRetriesExceeded, ServiceUnavailable ''busy''])"
    by (elim exE conjE disjE) (simp_all add: call busy quiet_def del: retried_simps split: if_splits)
  with run show ?thesis by (simp add: Retry_def retry_config_def)
qed

text \<open>
  The waits between attempts.  With a jitter factor and random numbers between 0 and 1, and a first delay
  within \<open>MaxDelay\<close>, there are at most \<open>MaxRetries\<close> waits, and each is between 0 and \<open>MaxDelay\<close> and the jitter
  on top of it.
\<close>

theorem retry_waits_bounded:
  assumes "0 \<le> ry_Multiplier c" "0 \<le> ry_Jitter c" "ry_Jitter c \<le> 1"
    and "0 \<le> ry_InitialDelay c" "ry_InitialDelay c \<le> ry_MaxDelay c"
    and "\<forall>k. 0 \<le> re_random env k \<and> re_random env k \<le> 1"
  shows "case Retry (Some c) env fn s of (result, waits, s') \<Rightarrow>
    int (length waits) \<le> max 0 (sint (ry_MaxRetries c)) \<and>
    (\<forall>w \<in> set waits. 0 \<le> w \<and> of_int w \<le> (1 + ry_Jitter c) * of_int (ry_MaxDelay c))"
proof -
  obtain result waits s' where run: "Retry (Some c) env fn s = (result, waits, s')" by (cases "Retry (Some c) env fn s")
  from retry_loop_waits [OF assms(1-3) _ assms(4,5) run [unfolded Retry_def retry_config_def Let_def option.case]] assms(6)
  show ?thesis by (auto simp: run attempts_def)
qed

theorem retry_waits_bounded_witness:
  "int (length (fst (snd (Retry (Some DefaultRetryConfig) quiet (flaky 9) 0)))) \<le> 3"
  using retry_waits_bounded [of DefaultRetryConfig quiet "flaky 9" 0]
  by (simp add: DefaultRetryConfig_def quiet_def split: prod.splits)

text \<open>
  The two copies of the loop agree: \<open>RetryWithResult\<close> makes the calls and the waits that \<open>Retry\<close> would, and
  returns its error.
\<close>

theorem retry_copies_agree:
  "Retry config env (\<lambda>s. (snd (fst (fn s)), snd (fn s))) s =
    (case RetryWithResult zero config env fn s of (answer, waits, s') \<Rightarrow> (snd answer, waits, s'))"
  by (simp add: Retry_def RetryWithResult_def Let_def retry_loops_agree [where zero = zero])

text \<open>The jitter comes after the cap: a wait can exceed \<open>MaxDelay\<close>.\<close>

lemma jitter_exceeds_max: "ry_MaxDelay DefaultRetryConfig < addJitter (9 / 10) (ry_MaxDelay DefaultRetryConfig) (1 / 10)"
  by (simp add: addJitter_def DefaultRetryConfig_def trunc_def)

text \<open>The product of \<open>LinearBackoff\<close> overflows before it is capped.\<close>

lemma linear_backoff_overflows: "LinearBackoff 4 (2 ^ 61) (2 ^ 62) < 0"
  by (simp add: LinearBackoff_def Let_def)

text \<open>A timeout is not an error that is retried by default.\<close>

lemma timeout_not_retried: "\<not> IsRetryable ErrTimeout"
  by (simp add: ErrTimeout_def)

text \<open>What the timeout makes of a handler: its answer, or 504; but a panic ends the process.\<close>

lemma TimeoutMiddleware_status:
  assumes "wr_sent w = None" "handler new_timeoutWriter = (tw, None)"
  shows "\<exists>w'. TimeoutMiddleware first handler w = Some w' \<and>
    map_option fst (wr_sent w') = Some (if \<not> first then 504 else if tw_code tw = 0 then 200 else tw_code tw)"
  using assms by (auto simp: TimeoutMiddleware_def wr_Write_def WriteHeader_def Let_def)

lemma timeout_defeats_recovery:
  "snd (handler new_timeoutWriter) \<noteq> None \<Longrightarrow> TimeoutMiddleware True handler w = None"
  by (auto simp: TimeoutMiddleware_def split: prod.splits)

text \<open>A deadline: nothing remains exactly when it is reached, and extending it adds to what remains.\<close>

lemma Remaining_zero: "Remaining now d = 0 \<longleftrightarrow> dl_deadline d \<le> now"
  by (auto simp: Remaining_def time_sub_def min_duration_def max_duration_def Let_def)

end
