(* ===== verification/Cache.thy ===== *)
theory Cache
  imports Go_Prelude
begin

text \<open>
  The cache, \<open>libs/cache/cache.go\<close>: the interface as a record of operations, the in-memory cache with its
  clean-up, the view of a cache under a prefix, and the JSON helpers.

  What a user of the interface may rely on is the locale \<open>lawful_cache\<close>.  The in-memory cache is lawful,
  and the prefixed view of a lawful cache is lawful again, except that it cannot be cleared.
\<close>

section \<open>The interface\<close>

datatype cache_error = CacheErrNotFound | CacheErrExpired | CacheErrInvalidValue | CacheErrClear

text \<open>The operations on a state \<open>'s\<close>; \<open>now\<close> is the instant an operation reads.  A panic is \<open>None\<close>.\<close>

record 's Cache =
  ca_Get :: "time \<Rightarrow> string \<Rightarrow> 's \<Rightarrow> cache_error + byte list"
  ca_Set :: "time \<Rightarrow> string \<Rightarrow> byte list \<Rightarrow> duration \<Rightarrow> 's \<Rightarrow> cache_error option \<times> 's"
  ca_Delete :: "string \<Rightarrow> 's \<Rightarrow> cache_error option \<times> 's"
  ca_Exists :: "time \<Rightarrow> string \<Rightarrow> 's \<Rightarrow> cache_error + bool"
  ca_Clear :: "'s \<Rightarrow> cache_error option \<times> 's"
  ca_Close :: "'s \<Rightarrow> (cache_error option \<times> 's) option"

section \<open>The in-memory cache\<close>

record item =
  it_Value :: "byte list"
  it_ExpiresAt :: time

text \<open>\<open>im_stopped\<close> says whether the channel \<open>stop\<close> is closed.\<close>

record InMemoryCache =
  im_items :: "string \<rightharpoonup> item"
  im_stopped :: bool

definition NewInMemoryCache :: InMemoryCache where
  "NewInMemoryCache = \<lparr>im_items = Map.empty, im_stopped = False\<rparr>"

definition im_Get :: "time \<Rightarrow> string \<Rightarrow> InMemoryCache \<Rightarrow> cache_error + byte list" where
  "im_Get now key c =
     (case im_items c key of
        None \<Rightarrow> Inl CacheErrNotFound
      | Some item \<Rightarrow> if it_ExpiresAt item < now then Inl CacheErrExpired else Inr (it_Value item))"

definition im_Set :: "time \<Rightarrow> string \<Rightarrow> byte list \<Rightarrow> duration \<Rightarrow> InMemoryCache \<Rightarrow> cache_error option \<times> InMemoryCache" where
  "im_Set now key v ttl c =
     (None, c\<lparr>im_items := (im_items c)(key \<mapsto> \<lparr>it_Value = v, it_ExpiresAt = now + ttl\<rparr>)\<rparr>)"

definition im_Delete :: "string \<Rightarrow> InMemoryCache \<Rightarrow> cache_error option \<times> InMemoryCache" where
  "im_Delete key c = (None, c\<lparr>im_items := (im_items c)(key := None)\<rparr>)"

definition im_Exists :: "time \<Rightarrow> string \<Rightarrow> InMemoryCache \<Rightarrow> cache_error + bool" where
  "im_Exists now key c =
     (case im_items c key of
        None \<Rightarrow> Inr False | Some item \<Rightarrow> if it_ExpiresAt item < now then Inr False else Inr True)"

definition im_Clear :: "InMemoryCache \<Rightarrow> cache_error option \<times> InMemoryCache" where
  "im_Clear c = (None, c\<lparr>im_items := Map.empty\<rparr>)"

text \<open>Closing a closed channel panics.\<close>

definition im_Close :: "InMemoryCache \<Rightarrow> (cache_error option \<times> InMemoryCache) option" where
  "im_Close c = (if im_stopped c then None else Some (None, c\<lparr>im_stopped := True\<rparr>))"

text \<open>One tick of \<open>cleanup\<close>, which runs until the cache is closed.\<close>

definition im_cleanup :: "time \<Rightarrow> InMemoryCache \<Rightarrow> InMemoryCache" where
  "im_cleanup now c =
     (if im_stopped c then c
      else c\<lparr>im_items := (\<lambda>key. case im_items c key of
               None \<Rightarrow> None | Some item \<Rightarrow> if it_ExpiresAt item < now then None else Some item)\<rparr>)"

definition in_memory :: "InMemoryCache Cache" where
  "in_memory =
     \<lparr>ca_Get = im_Get, ca_Set = im_Set, ca_Delete = im_Delete, ca_Exists = im_Exists, ca_Clear = im_Clear,
      ca_Close = im_Close\<rparr>"

section \<open>Prefixes and JSON\<close>

definition prefixed_key :: "string \<Rightarrow> string \<Rightarrow> string" where
  "prefixed_key prefix key = prefix @ '':'' @ key"

definition NewPrefixedCache :: "'s Cache \<Rightarrow> string \<Rightarrow> 's Cache" where
  "NewPrefixedCache cache prefix =
     \<lparr>ca_Get = (\<lambda>now key. ca_Get cache now (prefixed_key prefix key)),
      ca_Set = (\<lambda>now key. ca_Set cache now (prefixed_key prefix key)),
      ca_Delete = (\<lambda>key. ca_Delete cache (prefixed_key prefix key)),
      ca_Exists = (\<lambda>now key. ca_Exists cache now (prefixed_key prefix key)),
      ca_Clear = (\<lambda>s. (Some CacheErrClear, s)),
      ca_Close = ca_Close cache\<rparr>"

text \<open>\<open>unmarshal\<close> and \<open>marshal\<close> are those of \<open>encoding/json\<close>.\<close>

definition GetJSON :: "(byte list \<Rightarrow> 'a option) \<Rightarrow> 's Cache \<Rightarrow> time \<Rightarrow> string \<Rightarrow> 's \<Rightarrow> cache_error + 'a" where
  "GetJSON unmarshal c now key s =
     (case ca_Get c now key s of
        Inl err \<Rightarrow> Inl err
      | Inr data \<Rightarrow> (case unmarshal data of None \<Rightarrow> Inl CacheErrInvalidValue | Some v \<Rightarrow> Inr v))"

definition SetJSON ::
  "('a \<Rightarrow> byte list option) \<Rightarrow> 's Cache \<Rightarrow> time \<Rightarrow> string \<Rightarrow> 'a \<Rightarrow> duration \<Rightarrow> 's \<Rightarrow> cache_error option \<times> 's" where
  "SetJSON marshal c now key v ttl s =
     (case marshal v of None \<Rightarrow> (Some CacheErrInvalidValue, s) | Some data \<Rightarrow> ca_Set c now key data ttl s)"

definition CacheKey :: "string \<Rightarrow> string list \<Rightarrow> string" where
  "CacheKey namespace parts = fold (\<lambda>part key. key @ '':'' @ part) parts namespace"

section \<open>Lawful caches\<close>

locale lawful_cache =
  fixes c :: "'s Cache"
  assumes set_ok: "fst (ca_Set c t k v ttl s) = None"
    and get_set: "ca_Get c now k (snd (ca_Set c t k v ttl s)) = (if now \<le> t + ttl then Inr v else Inl CacheErrExpired)"
    and get_set_other: "k' \<noteq> k \<Longrightarrow> ca_Get c now k' (snd (ca_Set c t k v ttl s)) = ca_Get c now k' s"
    and delete_ok: "fst (ca_Delete c k s) = None"
    and get_delete: "ca_Get c now k (snd (ca_Delete c k s)) = Inl CacheErrNotFound"
    and get_delete_other: "k' \<noteq> k \<Longrightarrow> ca_Get c now k' (snd (ca_Delete c k s)) = ca_Get c now k' s"
    and exists_get: "ca_Exists c now k s = Inr (\<exists>v. ca_Get c now k s = Inr v)"
    and get_expires: "now \<le> now' \<Longrightarrow> ca_Get c now' k s = Inr v \<Longrightarrow> ca_Get c now k s = Inr v"
begin

lemma exists_set: "ca_Exists c now k (snd (ca_Set c t k v ttl s)) = Inr (now \<le> t + ttl)"
  by (simp add: exists_get get_set)

lemma json_round_trip:
  assumes "marshal v = Some data" "unmarshal data = Some v" "now \<le> t + ttl"
  shows "GetJSON unmarshal c now k (snd (SetJSON marshal c t k v ttl s)) = Inr v"
  using assms by (simp add: GetJSON_def SetJSON_def get_set)

text \<open>Two operations under different prefixes without a colon do not see each other.\<close>

lemma prefixes_apart:
  assumes "p \<noteq> q" "CHR '':'' \<notin> set p" "CHR '':'' \<notin> set q"
  shows "prefixed_key p k \<noteq> prefixed_key q l"
proof
  assume "prefixed_key p k = prefixed_key q l"
  then have "split_char CHR '':'' (prefixed_key p k) = split_char CHR '':'' (prefixed_key q l)" by simp
  with assms split_char_append [of "CHR '':''"] show False by (simp add: prefixed_key_def)
qed

lemma prefixed_set_other:
  assumes "p \<noteq> q" "CHR '':'' \<notin> set p" "CHR '':'' \<notin> set q"
  shows "ca_Get (NewPrefixedCache c q) now l (snd (ca_Set (NewPrefixedCache c p) t k v ttl s)) =
    ca_Get (NewPrefixedCache c q) now l s"
  using prefixes_apart [OF assms, of k l] by (simp add: NewPrefixedCache_def get_set_other)

lemma prefixed_delete_other:
  assumes "p \<noteq> q" "CHR '':'' \<notin> set p" "CHR '':'' \<notin> set q"
  shows "ca_Get (NewPrefixedCache c q) now l (snd (ca_Delete (NewPrefixedCache c p) k s)) =
    ca_Get (NewPrefixedCache c q) now l s"
  using prefixes_apart [OF assms, of k l] by (simp add: NewPrefixedCache_def get_delete_other)

text \<open>The prefixed view of a lawful cache is a lawful cache.\<close>

lemma prefixed_lawful: "lawful_cache (NewPrefixedCache c p)"
proof -
  have inj: "prefixed_key p k = prefixed_key p l \<longleftrightarrow> k = l" for k l by (simp add: prefixed_key_def)
  show ?thesis
    by unfold_locales (simp_all add: NewPrefixedCache_def inj set_ok get_set get_set_other delete_ok get_delete
        get_delete_other exists_get get_expires)
qed

end

interpretation memory: lawful_cache in_memory
  by unfold_locales (auto simp: in_memory_def im_Get_def im_Set_def im_Delete_def im_Exists_def split: option.splits if_splits)

interpretation prefixed_memory: lawful_cache "NewPrefixedCache in_memory prefix"
  by (rule memory.prefixed_lawful)

section \<open>A cache over time\<close>

text \<open>
  What is done to a cache, and what a reader should find: the value of the last \<open>Set\<close> of its key, if no
  \<open>Delete\<close> or \<open>Clear\<close> came after it and it has not expired.  The list has the latest operation first.
  Clean-ups, and the end of them, make no difference.
\<close>

datatype cache_op = CSet time string "byte list" duration | CDelete string | CClear | CCleanup time | CClose

fun cache_step :: "cache_op \<Rightarrow> InMemoryCache \<Rightarrow> InMemoryCache" where
  "cache_step (CSet t k v ttl) c = snd (ca_Set in_memory t k v ttl c)"
| "cache_step (CDelete k) c = snd (ca_Delete in_memory k c)"
| "cache_step CClear c = snd (ca_Clear in_memory c)"
| "cache_step (CCleanup t) c = im_cleanup t c"
| "cache_step CClose c = (case ca_Close in_memory c of None \<Rightarrow> c | Some (err, c') \<Rightarrow> c')"

fun expected :: "time \<Rightarrow> string \<Rightarrow> cache_op list \<Rightarrow> byte list option" where
  "expected now key [] = None"
| "expected now key (CSet t k v ttl # history) =
     (if k = key then (if now \<le> t + ttl then Some v else None) else expected now key history)"
| "expected now key (CDelete k # history) = (if k = key then None else expected now key history)"
| "expected now key (CClear # history) = None"
| "expected now key (CCleanup t # history) = expected now key history"
| "expected now key (CClose # history) = expected now key history"

definition found :: "cache_error + 'a \<Rightarrow> 'a option" where
  "found r = (case r of Inl err \<Rightarrow> None | Inr v \<Rightarrow> Some v)"

lemma found_iff [simp]: "found r = Some v \<longleftrightarrow> r = Inr v"
  by (simp add: found_def split: sum.split)

text \<open>A clean-up takes away only what a later reader would not get.\<close>

lemma cleanup_invisible: "t \<le> now \<Longrightarrow> found (im_Get now key (im_cleanup t c)) = found (im_Get now key c)"
  by (auto simp: im_Get_def im_cleanup_def found_def split: option.split)

lemma in_memory_simps [simp]: "ca_Get in_memory = im_Get" "ca_Exists in_memory = im_Exists"
  by (simp_all add: in_memory_def)

lemma cache_step_expected:
  assumes "case op of CCleanup t \<Rightarrow> t \<le> now | _ \<Rightarrow> True"
    and "found (im_Get now key c) = expected now key history"
  shows "found (im_Get now key (cache_step op c)) = expected now key (op # history)"
proof (cases op)
  case (CSet t k v ttl)
  then show ?thesis
    using assms(2) memory.get_set [of now k t v ttl c] memory.get_set_other [of key k now t v ttl c]
    by (auto simp: found_def)
next
  case (CDelete k)
  then show ?thesis
    using assms(2) memory.get_delete [of now k c] memory.get_delete_other [of key k now c] by (auto simp: found_def)
next
  case CClear
  then show ?thesis by (simp add: in_memory_def im_Clear_def im_Get_def found_def)
next
  case (CCleanup t)
  with assms cleanup_invisible show ?thesis by simp
next
  case CClose
  have "im_Get now key (cache_step CClose c) = im_Get now key c"
    by (simp add: in_memory_def im_Close_def im_Get_def)
  with CClose assms(2) show ?thesis by simp
qed

section \<open>Properties\<close>

text \<open>
  C32: The in-memory cache serves the last value written.  After any operations, with clean-ups at whatever
  instants before \<open>now\<close>, \<open>Get\<close> finds a value exactly when the last \<open>Set\<close> of the key is in force: not deleted,
  not cleared and not expired; and \<open>Exists\<close> says the same.
\<close>

theorem cache_serves_last_write:
  assumes "\<forall>t. CCleanup t \<in> set ops \<longrightarrow> t \<le> now"
  shows "found (ca_Get in_memory now key (run cache_step ops NewInMemoryCache)) = expected now key (rev ops) \<and>
    ca_Exists in_memory now key (run cache_step ops NewInMemoryCache) = Inr (expected now key (rev ops) \<noteq> None)"
proof -
  have "found (im_Get now key (run cache_step ops NewInMemoryCache)) = expected now key (rev ops)"
    using assms
  proof (induction ops rule: rev_induct)
    case Nil
    then show ?case by (simp add: NewInMemoryCache_def im_Get_def found_def)
  next
    case (snoc op ops)
    then show ?case using cache_step_expected [where op = op and now = now and key = key
        and c = "run cache_step ops NewInMemoryCache" and history = "rev ops"]
      by (auto simp: run_append split: cache_op.split)
  qed
  then show ?thesis using memory.exists_get [of now key] by (auto simp flip: found_iff)
qed

theorem cache_serves_last_write_witness:
  "found (ca_Get in_memory 9 ''k'' (run cache_step [CSet 1 ''k'' [7] 5, CSet 4 ''k'' [8] 5, CCleanup 8, CDelete ''l'']
     NewInMemoryCache)) = Some [8]"
proof -
  let ?ops = "[CSet 1 ''k'' [7] 5, CSet 4 ''k'' [8] 5, CCleanup 8, CDelete ''l'']"
  have "\<forall>t. CCleanup t \<in> set ?ops \<longrightarrow> t \<le> 9" by simp
  from cache_serves_last_write [OF this, of "''k''"] show ?thesis by simp
qed

text \<open>
  Prefixed caches are apart.  For different prefixes without a colon, over the in-memory cache, what is
  set or deleted under one prefix is not seen under the other, whatever the keys.
\<close>

theorem prefixed_caches_isolated:
  assumes "p \<noteq> q" "CHR '':'' \<notin> set p" "CHR '':'' \<notin> set q"
  shows "ca_Get (NewPrefixedCache in_memory q) now l (snd (ca_Set (NewPrefixedCache in_memory p) t k v ttl c)) =
      ca_Get (NewPrefixedCache in_memory q) now l c \<and>
    ca_Get (NewPrefixedCache in_memory q) now l (snd (ca_Delete (NewPrefixedCache in_memory p) k c)) =
      ca_Get (NewPrefixedCache in_memory q) now l c \<and>
    ca_Get (NewPrefixedCache in_memory p) now k (snd (ca_Set (NewPrefixedCache in_memory p) t k v ttl c)) =
      (if now \<le> t + ttl then Inr v else Inl CacheErrExpired)"
  by (simp add: memory.prefixed_set_other [OF assms] memory.prefixed_delete_other [OF assms] prefixed_memory.get_set)

theorem prefixed_caches_isolated_witness:
  "ca_Get (NewPrefixedCache in_memory ''users'') 2 ''1''
     (snd (ca_Set (NewPrefixedCache in_memory ''orders'') 1 ''1'' [7] 5 NewInMemoryCache)) = Inl CacheErrNotFound"
proof -
  have "''orders'' \<noteq> ''users''" "CHR '':'' \<notin> set ''orders''" "CHR '':'' \<notin> set ''users''" by simp_all
  note apart = prefixed_caches_isolated [OF this, of 2 "''1''" 1 "''1''" "[7]" 5 NewInMemoryCache]
  show ?thesis
    unfolding conjunct1 [OF apart] by (simp add: NewPrefixedCache_def in_memory_def im_Get_def NewInMemoryCache_def)
qed

text \<open>With colons in prefixes or parts, different keys become one.\<close>

lemma prefixes_collide: "prefixed_key ''a'' ''b:c'' = prefixed_key ''a:b'' ''c''"
  by (simp add: prefixed_key_def)

lemma CacheKey_collides: "CacheKey ''n'' [''a:b''] = CacheKey ''n'' [''a'', ''b'']"
  by (simp add: CacheKey_def)

text \<open>A second \<open>Close\<close> panics.\<close>

lemma close_twice: "\<exists>c'. ca_Close in_memory NewInMemoryCache = Some (None, c') \<and> ca_Close in_memory c' = None"
  by (simp add: in_memory_def im_Close_def NewInMemoryCache_def)

end
