(* ===== verification/Strconv.thy ===== *)
theory Strconv
  imports Go_Prelude
begin

text \<open>
  Reading decimal numbers: \<open>strconv.Atoi\<close>, which the handlers and the configuration use.
\<close>

text \<open>
  \<open>strconv.Atoi\<close>: an optional sign and decimal digits.  A numeral out of the range of an integer of
  64 bits is an error whose value is the end of the range, any other error has the value 0.
\<close>

datatype parse_error = ErrSyntax | ErrRange

definition digit :: "char \<Rightarrow> bool" where
  "digit c \<longleftrightarrow> c \<in> set ''0123456789''"

fun scan_digits :: "nat \<Rightarrow> string \<Rightarrow> parse_error + nat" where
  "scan_digits n [] = Inr n"
| "scan_digits n (c # s) =
     (if \<not> digit c then Inl ErrSyntax
      else if 2 ^ 64 \<le> 10 * n + (of_char c - 48) then Inl ErrRange
      else scan_digits (10 * n + (of_char c - 48)) s)"

definition ParseUint :: "string \<Rightarrow> parse_error + nat" where
  "ParseUint s = (if s = [] then Inl ErrSyntax else scan_digits 0 s)"

definition Atoi :: "string \<Rightarrow> int64 \<times> parse_error option" where
  "Atoi s =
     (let neg = (s \<noteq> [] \<and> hd s = CHR ''-'');
          digits = (if s \<noteq> [] \<and> (hd s = CHR ''-'' \<or> hd s = CHR ''+'') then tl s else s)
      in if ParseUint digits = Inl ErrSyntax then (0, Some ErrSyntax)
         else
           let un = (case ParseUint digits of Inr n \<Rightarrow> n | Inl _ \<Rightarrow> 2 ^ 64 - 1)
           in if \<not> neg \<and> 2 ^ 63 \<le> un then (2 ^ 63 - 1, Some ErrRange)
              else if neg \<and> 2 ^ 63 < un then (- (2 ^ 63), Some ErrRange)
              else (if neg then - of_nat un else of_nat un, None))"

lemma scan_digits_foldl:
  assumes "list_all digit s"
    and "foldl (\<lambda>n c. 10 * n + (of_char c - 48)) n s < (2 :: nat) ^ 64"
  shows "scan_digits n s = Inr (foldl (\<lambda>n c. 10 * n + (of_char c - 48)) n s)"
  using assms
proof (induction s arbitrary: n)
  case (Cons c s)
  have grow: "m \<le> foldl (\<lambda>n c. 10 * n + (of_char c - 48)) m xs" for m :: nat and xs :: string
  proof (induction xs arbitrary: m)
    case (Cons x xs)
    from Cons.IH [of "10 * m + (of_char x - 48)"] show ?case by simp
  qed simp
  from grow [of "10 * n + (of_char c - 48)" s] Cons.prems(2)
  have "10 * n + (of_char c - 48) < (2 :: nat) ^ 64" by simp
  with Cons show ?case by simp
qed simp

lemma digit_char: "d < 10 \<Longrightarrow> digit (char_of (48 + d :: nat))"
proof -
  assume "d < 10"
  then have "d = 0 \<or> d = 1 \<or> d = 2 \<or> d = 3 \<or> d = 4 \<or> d = 5 \<or> d = 6 \<or> d = 7 \<or> d = 8 \<or> d = 9"
    by presburger
  then show ?thesis by (elim disjE) (simp_all add: digit_def char_of_def bit_0)
qed

lemma decimal_digits: "list_all digit (decimal n)"
proof (induction n rule: decimal.induct)
  case (1 n)
  then show ?case
    by (cases "n < 10"; subst decimal.simps) (simp_all add: digit_char)
qed

lemma decimal_nonempty: "decimal n \<noteq> []"
  by (subst decimal.simps) simp

text \<open>Reading a printed number gives the number back.\<close>

lemma Atoi_decimal:
  assumes "n < 2 ^ 63"
  shows "Atoi (decimal n) = (of_nat n, None)"
proof -
  have "scan_digits 0 (decimal n) = Inr n"
    using scan_digits_foldl [of "decimal n" 0] decimal_digits [of n] assms numeral_value_decimal [of n]
    by (simp add: numeral_value_def)
  moreover have "digit (hd (decimal n))"
    using decimal_digits [of n] decimal_nonempty [of n] by (cases "decimal n") simp_all
  then have "hd (decimal n) \<noteq> CHR ''-''" "hd (decimal n) \<noteq> CHR ''+''"
    by (auto simp: digit_def)
  ultimately show ?thesis
    using assms decimal_nonempty [of n] by (auto simp: Atoi_def ParseUint_def)
qed

end
