(* ===== verification/Api.thy ===== *)
theory Api
  imports Http Strconv
begin

text \<open>
  What the HTTP handlers of the services share: the strings of a query, the answers in
  JSON, the routes of \<open>http.ServeMux\<close>, and the contract of a server whose requests are calls of a
  service.

  A handler gets the request and the state of its service and returns an answer, or \<open>None\<close> when it
  panics: \<open>net/http\<close> recovers the panic and closes the connection without an answer.  The body of a
  request is its text; the values the handlers decode from it are those that the decoders of
  \<open>encoding/json\<close>, parameters of each handler, find in it: the value, and whether \<open>Decode\<close>
  succeeded.
\<close>

section \<open>Strings of a query\<close>

text \<open>\<open>url.Values.Get\<close>: the first value of a key, or the empty string.\<close>

definition query_Get :: "'z Request_scheme \<Rightarrow> string \<Rightarrow> string" where
  "query_Get x key = (case map_of (rq_Query x) key of Some (value # _) \<Rightarrow> value | _ \<Rightarrow> [])"

section \<open>Answers\<close>

datatype 'd reply = Failure string | Reply 'd | Plain string | Redirect

record 'd ApiResponse =
  as_Status :: nat
  as_Body :: "'d reply"

definition jsonResponse :: "nat \<Rightarrow> 'd reply \<Rightarrow> 'd ApiResponse" where
  "jsonResponse status data = \<lparr>as_Status = status, as_Body = data\<rparr>"

definition errorResponse :: "nat \<Rightarrow> string \<Rightarrow> 'd ApiResponse" where
  "errorResponse status message = jsonResponse status (Failure message)"

definition badRequest :: "string \<Rightarrow> 'd ApiResponse" where
  "badRequest message = errorResponse 400 message"

definition methodNotAllowed :: "'d ApiResponse" where
  "methodNotAllowed = errorResponse 405 ''method not allowed''"

lemmas reply_defs = jsonResponse_def errorResponse_def badRequest_def methodNotAllowed_def

record ApiRequest = Request + rq_Body :: string

type_synonym ('d, 's) api = "ApiRequest \<Rightarrow> 's \<Rightarrow> 'd ApiResponse option \<times> 's"

section \<open>Routes\<close>

text \<open>
  \<open>http.ServeMux\<close> redirects a request whose path is not clean (an empty segment, or one that is a
  dot or two), unless its method is CONNECT, and gives every other to the longest pattern that is its path or, for a pattern that ends
  in a slash, a prefix of it.  In the programs every pattern that ends in a slash is registered
  without it too, so the mux never redirects for a missing slash.
\<close>

definition clean_path :: "string \<Rightarrow> bool" where
  "clean_path path =
     (case split_char CHR ''/'' path of
        [] # segments \<Rightarrow> segments \<noteq> [] \<and> list_all (\<lambda>s. s \<noteq> []) (butlast segments) \<and>
          list_all (\<lambda>s. s \<noteq> ''.'' \<and> s \<noteq> ''..'') segments
      | _ \<Rightarrow> False)"

text \<open>A request with the method CONNECT is given to a pattern as it is, clean or not.\<close>

definition canonical :: "('a Request_scheme) \<Rightarrow> bool" where
  "canonical x \<longleftrightarrow> rq_Method x = ''CONNECT'' \<or> clean_path (rq_Path x)"

lemma canonical_clean [simp]: "clean_path (rq_Path x) \<Longrightarrow> canonical x"
  by (simp add: canonical_def)

definition route_matches :: "string \<Rightarrow> string \<times> 'h \<Rightarrow> bool" where
  "route_matches path route \<longleftrightarrow>
     path = fst route \<or> has_suffix (fst route) ''/'' \<and> has_prefix path (fst route)"

definition longest_route :: "(string \<times> 'h) list \<Rightarrow> (string \<times> 'h) option" where
  "longest_route routes =
     (case routes of [] \<Rightarrow> None
      | r # rs \<Rightarrow> Some (foldl (\<lambda>b x. if length (fst b) < length (fst x) then x else b) r rs))"

definition serve_mux :: "(string \<times> ('d, 's) api) list \<Rightarrow> ('d, 's) api" where
  "serve_mux routes x s =
     (if \<not> canonical x then (Some \<lparr>as_Status = 301, as_Body = Redirect\<rparr>, s)
      else
        case longest_route (filter (route_matches (rq_Path x)) routes) of
          None \<Rightarrow> (Some \<lparr>as_Status = 404, as_Body = Plain ''404 page not found''\<rparr>, s)
        | Some (_, handler) \<Rightarrow> handler x s)"

text \<open>The health check that every program registers, with its answer.\<close>

definition health_handler :: "string \<Rightarrow> ('d, 's) api" where
  "health_handler answer x s = (Some \<lparr>as_Status = 200, as_Body = Plain answer\<rparr>, s)"

lemma longest_route_in: "longest_route routes = Some r \<Longrightarrow> r \<in> set routes"
proof -
  have "foldl (\<lambda>b x. if length (fst b) < length (fst x) then x else b) r rs \<in> set (r # rs)"
    for r :: "string \<times> 'h" and rs
  proof (induction rs arbitrary: r)
    case (Cons x rs)
    from Cons.IH [of x] Cons.IH [of r] show ?case by auto
  qed simp
  then show "longest_route routes = Some r \<Longrightarrow> r \<in> set routes"
    unfolding longest_route_def by (cases routes) (auto simp del: foldl_Cons list.set)
qed

text \<open>What every registered handler guarantees, and the mux itself, holds of the server.\<close>

lemma serve_mux_cases:
  obtains (redirected) "serve_mux routes x s = (Some \<lparr>as_Status = 301, as_Body = Redirect\<rparr>, s)"
  | (unrouted) "serve_mux routes x s = (Some \<lparr>as_Status = 404, as_Body = Plain ''404 page not found''\<rparr>, s)"
  | (handled) pattern handler where "(pattern, handler) \<in> set routes" "serve_mux routes x s = handler x s"
proof (cases "canonical x")
  case True
  show ?thesis
  proof (cases "longest_route (filter (route_matches (rq_Path x)) routes)")
    case None
    with True show ?thesis by (intro unrouted) (simp add: serve_mux_def)
  next
    case (Some r)
    moreover obtain pattern handler where "r = (pattern, handler)" by (cases r)
    ultimately show ?thesis
      using longest_route_in [OF Some] True by (intro handled [of pattern handler]) (simp_all add: serve_mux_def)
  qed
qed (auto simp: serve_mux_def intro: redirected)

section \<open>Servers\<close>

text \<open>
  The state a request leaves, and the contract of a server that does nothing to the state but to make
  the calls of its service that the request stands for.
\<close>

definition served :: "('r \<Rightarrow> 's \<Rightarrow> 'a \<times> 's) \<Rightarrow> 'r \<Rightarrow> 's \<Rightarrow> 's" where
  "served serve x s = snd (serve x s)"

locale server =
  fixes serve :: "'r \<Rightarrow> 's \<Rightarrow> 'a \<times> 's"
    and step :: "'o \<Rightarrow> 's \<Rightarrow> 's"
    and calls :: "'r \<Rightarrow> 'o list"
  assumes served_calls: "snd (serve x s) = run step (calls x) s"
begin

lemma run_served: "run (served serve) xs s = run step (concat (map calls xs)) s"
  by (induction xs arbitrary: s) (simp_all add: served_def served_calls run_append)

end

text \<open>The pages of a fixed size, one after the other, make up the list.\<close>

lemma pages_tile: "concat (map (\<lambda>k. take n (drop (k * n) xs)) [0..<m]) = take (m * n) xs"
proof (induction m)
  case (Suc m)
  have "take (m * n) xs @ take n (drop (m * n) xs) = take (m * n + n) xs"
    by (simp add: take_add)
  with Suc show ?case by (simp add: add.commute)
qed simp

end
