(* ===== verification/Transaction.thy ===== *)
theory Transaction
  imports Identifiers
begin

text \<open>
  The transaction service: the records and the status machine of \<open>models/transaction.go\<close>, the
  interface \<open>TransactionRepository\<close> and its in-memory implementation
  (\<open>repositories/repository.go\<close>), and the operations of \<open>services/transaction_service.go\<close>, which
  reach the repository only through the interface.

  The interface is a record of functions over an abstract repository state, as a Go interface
  value is a table of methods; its laws are the locale \<open>tx_store\<close>, which says that the repository
  is a map from identifiers to transactions with an index of idempotency keys.  The service is
  verified once against the laws, and the in-memory repository is shown to satisfy them.

  The Go code passes transactions by pointer.  An operation of the service fetches the stored
  transaction, checks it, writes its fields and calls \<open>Update\<close> with it: between the fetch and
  \<open>Update\<close> no other call is made, and after a failed check nothing is written, so for operations
  that run one after the other storing the new value at \<open>Update\<close> is the same as writing through
  the pointer.
\<close>

section \<open>Models\<close>

datatype TransactionStatus =
  TxPending | TxAuthorized | TxCompleted | TxFailed | TxCancelled | TxRefunded | TxStatusOther string

fun ValidTransitions :: "TransactionStatus \<Rightarrow> TransactionStatus list option" where
  "ValidTransitions TxPending = Some [TxAuthorized, TxFailed, TxCancelled]"
| "ValidTransitions TxAuthorized = Some [TxCompleted, TxFailed, TxCancelled]"
| "ValidTransitions TxCompleted = Some [TxRefunded]"
| "ValidTransitions TxFailed = Some []"
| "ValidTransitions TxCancelled = Some []"
| "ValidTransitions TxRefunded = Some []"
| "ValidTransitions (TxStatusOther x) = None"

definition CanTransitionTo :: "TransactionStatus \<Rightarrow> TransactionStatus \<Rightarrow> bool" where
  "CanTransitionTo s target =
     (case ValidTransitions s of None \<Rightarrow> False | Some allowed \<Rightarrow> target \<in> set allowed)"

record Transaction =
  tx_ID :: string
  tx_IdempotencyKey :: string
  tx_Amount :: int64
  tx_Currency :: string
  tx_Status :: TransactionStatus
  tx_PaymentMethod :: string
  tx_MerchantID :: string
  tx_CustomerID :: string
  tx_Description :: string
  tx_Metadata :: metadata
  tx_ProviderRef :: string
  tx_FailureReason :: string
  tx_RefundedAmount :: int64
  tx_CreatedAt :: time
  tx_UpdatedAt :: time
  tx_CompletedAt :: "time option"

record CreateTransactionRequest =
  ctr_IdempotencyKey :: string
  ctr_Amount :: int64
  ctr_Currency :: string
  ctr_PaymentMethod :: string
  ctr_MerchantID :: string
  ctr_CustomerID :: string
  ctr_Description :: string
  ctr_Metadata :: metadata

datatype tx_error =
  ErrTransactionNotFound | ErrDuplicateKey | ErrInvalidTransition
| TxErrInvalidAmount | TxErrInvalidCurrency | ErrInvalidPaymentMethod
| ErrRefundExceedsAmount | ErrCannotCancel | ErrCannotRefund | TxErrEntropy

section \<open>The repository\<close>

text \<open>
  The methods of \<open>TransactionRepository\<close>.  \<open>Create\<close> and \<open>Update\<close> stamp the transaction they are
  given with the instant they read; the model returns the stamped transaction.
  \<open>GetByIdempotencyKey\<close> may return a nil transaction without an error.  \<open>List\<close> visits the map in
  the order it is given, and its slice expression may panic (\<open>None\<close>).
\<close>

record 's TransactionRepository =
  tr_Create :: "time \<Rightarrow> Transaction \<Rightarrow> 's \<Rightarrow> (tx_error + Transaction) \<times> 's"
  tr_GetByID :: "string \<Rightarrow> 's \<Rightarrow> tx_error + Transaction"
  tr_GetByIdempotencyKey :: "string \<Rightarrow> 's \<Rightarrow> tx_error + Transaction option"
  tr_Update :: "time \<Rightarrow> Transaction \<Rightarrow> 's \<Rightarrow> (tx_error + Transaction) \<times> 's"
  tr_List :: "string list \<Rightarrow> string \<Rightarrow> int64 \<Rightarrow> int64 \<Rightarrow> 's \<Rightarrow> (Transaction list \<times> nat) option"

record TxInMemory =
  tm_transactions :: "string \<rightharpoonup> Transaction"
  tm_idempotencyKeys :: "string \<rightharpoonup> string"

definition tx_NewInMemoryRepository :: TxInMemory where
  "tx_NewInMemoryRepository = \<lparr>tm_transactions = Map.empty, tm_idempotencyKeys = Map.empty\<rparr>"

definition tm_Create :: "time \<Rightarrow> Transaction \<Rightarrow> TxInMemory \<Rightarrow> (tx_error + Transaction) \<times> TxInMemory" where
  "tm_Create now tx r =
     (if tx_IdempotencyKey tx \<noteq> [] \<and> tm_idempotencyKeys r (tx_IdempotencyKey tx) \<noteq> None
      then (Inl ErrDuplicateKey, r)
      else
        let r1 = (if tx_IdempotencyKey tx \<noteq> []
                  then r\<lparr>tm_idempotencyKeys := (tm_idempotencyKeys r)(tx_IdempotencyKey tx \<mapsto> tx_ID tx)\<rparr>
                  else r);
            tx' = tx\<lparr>tx_CreatedAt := now, tx_UpdatedAt := now\<rparr>
        in (Inr tx', r1\<lparr>tm_transactions := (tm_transactions r1)(tx_ID tx' \<mapsto> tx')\<rparr>))"

definition tm_GetByID :: "string \<Rightarrow> TxInMemory \<Rightarrow> tx_error + Transaction" where
  "tm_GetByID i r =
     (case tm_transactions r i of None \<Rightarrow> Inl ErrTransactionNotFound | Some tx \<Rightarrow> Inr tx)"

definition tm_GetByIdempotencyKey :: "string \<Rightarrow> TxInMemory \<Rightarrow> tx_error + Transaction option" where
  "tm_GetByIdempotencyKey key r =
     (case tm_idempotencyKeys r key of
        None \<Rightarrow> Inl ErrTransactionNotFound
      | Some txID \<Rightarrow> Inr (tm_transactions r txID))"

definition tm_Update :: "time \<Rightarrow> Transaction \<Rightarrow> TxInMemory \<Rightarrow> (tx_error + Transaction) \<times> TxInMemory" where
  "tm_Update now tx r =
     (case tm_transactions r (tx_ID tx) of
        None \<Rightarrow> (Inl ErrTransactionNotFound, r)
      | Some _ \<Rightarrow>
          let tx' = tx\<lparr>tx_UpdatedAt := now\<rparr>
          in (Inr tx', r\<lparr>tm_transactions := (tm_transactions r)(tx_ID tx' \<mapsto> tx')\<rparr>))"

definition tm_List ::
  "string list \<Rightarrow> string \<Rightarrow> int64 \<Rightarrow> int64 \<Rightarrow> TxInMemory \<Rightarrow> (Transaction list \<times> nat) option" where
  "tm_List ks merchantID limit offset r =
     paginate (filter (\<lambda>tx. merchantID = [] \<or> tx_MerchantID tx = merchantID)
                 (map (\<lambda>k. the (tm_transactions r k)) ks)) limit offset"

definition tx_InMemoryRepository :: "TxInMemory TransactionRepository" where
  "tx_InMemoryRepository =
     \<lparr>tr_Create = tm_Create, tr_GetByID = tm_GetByID,
      tr_GetByIdempotencyKey = tm_GetByIdempotencyKey, tr_Update = tm_Update, tr_List = tm_List\<rparr>"

section \<open>The service\<close>

definition tx_SupportedCurrencies :: "string list" where
  "tx_SupportedCurrencies = [''USD'', ''EUR'', ''GBP'', ''IQD'', ''AED'']"

definition SupportedPaymentMethods :: "string list" where
  "SupportedPaymentMethods = [''card'', ''bank_transfer'', ''wallet'', ''stripe'', ''paypal'']"

definition tx_validateCreateRequest :: "CreateTransactionRequest \<Rightarrow> tx_error option" where
  "tx_validateCreateRequest req =
     (if sint (ctr_Amount req) \<le> 0 then Some TxErrInvalidAmount
      else if ctr_Currency req \<notin> set tx_SupportedCurrencies then Some TxErrInvalidCurrency
      else if ctr_PaymentMethod req \<notin> set SupportedPaymentMethods then Some ErrInvalidPaymentMethod
      else None)"

definition new_transaction :: "string \<Rightarrow> CreateTransactionRequest \<Rightarrow> Transaction" where
  "new_transaction txID req =
     \<lparr>tx_ID = txID, tx_IdempotencyKey = ctr_IdempotencyKey req, tx_Amount = ctr_Amount req,
      tx_Currency = ctr_Currency req, tx_Status = TxPending,
      tx_PaymentMethod = ctr_PaymentMethod req, tx_MerchantID = ctr_MerchantID req,
      tx_CustomerID = ctr_CustomerID req, tx_Description = ctr_Description req,
      tx_Metadata = ctr_Metadata req, tx_ProviderRef = [], tx_FailureReason = [],
      tx_RefundedAmount = 0, tx_CreatedAt = zero_time, tx_UpdatedAt = zero_time,
      tx_CompletedAt = None\<rparr>"

text \<open>
  \<open>CreateTransaction\<close>; the result may be a nil transaction (\<open>None\<close>) in the types of the code.
\<close>

definition CreateTransaction ::
  "'s TransactionRepository \<Rightarrow> env \<Rightarrow> CreateTransactionRequest \<Rightarrow> 's \<Rightarrow>
    (tx_error + Transaction option) \<times> 's" where
  "CreateTransaction R e req s =
     (case tx_validateCreateRequest req of
        Some err \<Rightarrow> (Inl err, s)
      | None \<Rightarrow>
        case (if ctr_IdempotencyKey req \<noteq> [] then tr_GetByIdempotencyKey R (ctr_IdempotencyKey req) s
              else Inl ErrTransactionNotFound) of
          Inr existing \<Rightarrow> (Inr existing, s)
        | Inl _ \<Rightarrow>
          case generateID ''txn'' (entropy e 0) of
            None \<Rightarrow> (Inl TxErrEntropy, s)
          | Some txID \<Rightarrow>
            case tr_Create R (clock e 0) (new_transaction txID req) s of
              (Inr tx, s') \<Rightarrow> (Inr (Some tx), s')
            | (Inl err, s') \<Rightarrow>
                if err = ErrDuplicateKey then
                  case tr_GetByIdempotencyKey R (ctr_IdempotencyKey req) s' of
                    Inr (Some existing) \<Rightarrow> (Inr (Some existing), s')
                  | _ \<Rightarrow> (Inl err, s')
                else (Inl err, s'))"

definition GetTransaction :: "'s TransactionRepository \<Rightarrow> string \<Rightarrow> 's \<Rightarrow> tx_error + Transaction" where
  "GetTransaction R i s = tr_GetByID R i s"

definition AuthorizeTransaction ::
  "'s TransactionRepository \<Rightarrow> env \<Rightarrow> string \<Rightarrow> string \<Rightarrow> 's \<Rightarrow> (tx_error + Transaction) \<times> 's" where
  "AuthorizeTransaction R e i providerRef s =
     (case tr_GetByID R i s of
        Inl err \<Rightarrow> (Inl err, s)
      | Inr tx \<Rightarrow>
          if \<not> CanTransitionTo (tx_Status tx) TxAuthorized then (Inl ErrInvalidTransition, s)
          else tr_Update R (clock e 0)
                 (tx\<lparr>tx_Status := TxAuthorized, tx_ProviderRef := providerRef\<rparr>) s)"

definition CompleteTransaction ::
  "'s TransactionRepository \<Rightarrow> env \<Rightarrow> string \<Rightarrow> 's \<Rightarrow> (tx_error + Transaction) \<times> 's" where
  "CompleteTransaction R e i s =
     (case tr_GetByID R i s of
        Inl err \<Rightarrow> (Inl err, s)
      | Inr tx \<Rightarrow>
          if \<not> CanTransitionTo (tx_Status tx) TxCompleted then (Inl ErrInvalidTransition, s)
          else tr_Update R (clock e 1)
                 (tx\<lparr>tx_Status := TxCompleted, tx_CompletedAt := Some (clock e 0)\<rparr>) s)"

definition CancelTransaction ::
  "'s TransactionRepository \<Rightarrow> env \<Rightarrow> string \<Rightarrow> string \<Rightarrow> 's \<Rightarrow> (tx_error + Transaction) \<times> 's" where
  "CancelTransaction R e i reason s =
     (case tr_GetByID R i s of
        Inl err \<Rightarrow> (Inl err, s)
      | Inr tx \<Rightarrow>
          if \<not> CanTransitionTo (tx_Status tx) TxCancelled then (Inl ErrCannotCancel, s)
          else tr_Update R (clock e 0)
                 (tx\<lparr>tx_Status := TxCancelled, tx_FailureReason := reason\<rparr>) s)"

definition FailTransaction ::
  "'s TransactionRepository \<Rightarrow> env \<Rightarrow> string \<Rightarrow> string \<Rightarrow> 's \<Rightarrow> (tx_error + Transaction) \<times> 's" where
  "FailTransaction R e i reason s =
     (case tr_GetByID R i s of
        Inl err \<Rightarrow> (Inl err, s)
      | Inr tx \<Rightarrow>
          if \<not> CanTransitionTo (tx_Status tx) TxFailed then (Inl ErrInvalidTransition, s)
          else tr_Update R (clock e 0)
                 (tx\<lparr>tx_Status := TxFailed, tx_FailureReason := reason\<rparr>) s)"

text \<open>The writes of \<open>RefundTransaction\<close> once its checks have passed.\<close>

definition apply_refund :: "int64 \<Rightarrow> string \<Rightarrow> Transaction \<Rightarrow> Transaction" where
  "apply_refund refundAmount reason tx =
     (let tx1 = tx\<lparr>tx_RefundedAmount := tx_RefundedAmount tx + refundAmount\<rparr>;
          tx2 = (if sint (tx_Amount tx1) \<le> sint (tx_RefundedAmount tx1)
                 then tx1\<lparr>tx_Status := TxRefunded\<rparr> else tx1)
      in (if reason \<noteq> [] then tx2\<lparr>tx_FailureReason := reason\<rparr> else tx2))"

definition RefundTransaction ::
  "'s TransactionRepository \<Rightarrow> env \<Rightarrow> string \<Rightarrow> int64 \<Rightarrow> string \<Rightarrow> 's \<Rightarrow>
    (tx_error + Transaction) \<times> 's" where
  "RefundTransaction R e i amount reason s =
     (case tr_GetByID R i s of
        Inl err \<Rightarrow> (Inl err, s)
      | Inr tx \<Rightarrow>
          if \<not> CanTransitionTo (tx_Status tx) TxRefunded then (Inl ErrCannotRefund, s)
          else
            let refundAmount = (if amount = 0 then tx_Amount tx else amount)
            in if sint (tx_Amount tx) < sint (tx_RefundedAmount tx + refundAmount)
               then (Inl ErrRefundExceedsAmount, s)
               else tr_Update R (clock e 0) (apply_refund refundAmount reason tx) s)"

definition ListTransactions ::
  "'s TransactionRepository \<Rightarrow> string list \<Rightarrow> string \<Rightarrow> int64 \<Rightarrow> int64 \<Rightarrow> 's \<Rightarrow>
    (Transaction list \<times> nat) option" where
  "ListTransactions R ks merchantID limit offset s =
     (let limit = (if sint limit \<le> 0 then 20 else limit);
          limit = (if 100 < sint limit then 100 else limit)
      in tr_List R ks merchantID limit offset s)"

section \<open>What an operation does to one transaction\<close>

text \<open>
  The operations that act on an existing transaction, and the checks and writes of each as a
  function on the transaction alone.  \<open>tx_stamp\<close> is the reading of the clock that \<open>Update\<close> stores.
\<close>

datatype tx_op =
  OpAuthorize string | OpComplete | OpCancel string | OpFail string | OpRefund int64 string

fun tx_transition :: "env \<Rightarrow> tx_op \<Rightarrow> Transaction \<Rightarrow> tx_error + Transaction" where
  "tx_transition e (OpAuthorize ref) tx =
     (if CanTransitionTo (tx_Status tx) TxAuthorized
      then Inr (tx\<lparr>tx_Status := TxAuthorized, tx_ProviderRef := ref\<rparr>) else Inl ErrInvalidTransition)"
| "tx_transition e OpComplete tx =
     (if CanTransitionTo (tx_Status tx) TxCompleted
      then Inr (tx\<lparr>tx_Status := TxCompleted, tx_CompletedAt := Some (clock e 0)\<rparr>)
      else Inl ErrInvalidTransition)"
| "tx_transition e (OpCancel reason) tx =
     (if CanTransitionTo (tx_Status tx) TxCancelled
      then Inr (tx\<lparr>tx_Status := TxCancelled, tx_FailureReason := reason\<rparr>) else Inl ErrCannotCancel)"
| "tx_transition e (OpFail reason) tx =
     (if CanTransitionTo (tx_Status tx) TxFailed
      then Inr (tx\<lparr>tx_Status := TxFailed, tx_FailureReason := reason\<rparr>) else Inl ErrInvalidTransition)"
| "tx_transition e (OpRefund amount reason) tx =
     (if \<not> CanTransitionTo (tx_Status tx) TxRefunded then Inl ErrCannotRefund
      else
        let refundAmount = (if amount = 0 then tx_Amount tx else amount)
        in if sint (tx_Amount tx) < sint (tx_RefundedAmount tx + refundAmount)
           then Inl ErrRefundExceedsAmount else Inr (apply_refund refundAmount reason tx))"

definition tx_stamp :: "env \<Rightarrow> tx_op \<Rightarrow> Transaction \<Rightarrow> Transaction" where
  "tx_stamp e a tx = tx\<lparr>tx_UpdatedAt := clock e (if a = OpComplete then 1 else 0)\<rparr>"

definition tx_operate ::
  "'s TransactionRepository \<Rightarrow> env \<Rightarrow> tx_op \<Rightarrow> string \<Rightarrow> 's \<Rightarrow> (tx_error + Transaction) \<times> 's" where
  "tx_operate R e a i s =
     (case a of
        OpAuthorize ref \<Rightarrow> AuthorizeTransaction R e i ref s
      | OpComplete \<Rightarrow> CompleteTransaction R e i s
      | OpCancel reason \<Rightarrow> CancelTransaction R e i reason s
      | OpFail reason \<Rightarrow> FailTransaction R e i reason s
      | OpRefund amount reason \<Rightarrow> RefundTransaction R e i amount reason s)"

text \<open>
  An operation on a plain map of transactions: the code's own checks and writes with the
  repository taken away.  It is a step of the proofs and not a specification; the contract of a
  payment, further down, is stated without the code.
\<close>

definition spec_operate ::
  "env \<Rightarrow> tx_op \<Rightarrow> string \<Rightarrow> (string \<rightharpoonup> Transaction) \<Rightarrow>
    (tx_error + Transaction) \<times> (string \<rightharpoonup> Transaction)" where
  "spec_operate e a i m =
     (case m i of
        None \<Rightarrow> (Inl ErrTransactionNotFound, m)
      | Some tx \<Rightarrow>
          (case tx_transition e a tx of
             Inl err \<Rightarrow> (Inl err, m)
           | Inr tx' \<Rightarrow> (Inr (tx_stamp e a tx'), m(i \<mapsto> tx_stamp e a tx'))))"

subsection \<open>Statuses and fixed fields\<close>

definition tx_terminal :: "TransactionStatus \<Rightarrow> bool" where
  "tx_terminal st \<longleftrightarrow> (\<forall>target. \<not> CanTransitionTo st target)"

lemma CanTransitionTo_simps [simp]:
  "CanTransitionTo TxPending x \<longleftrightarrow> x = TxAuthorized \<or> x = TxFailed \<or> x = TxCancelled"
  "CanTransitionTo TxAuthorized x \<longleftrightarrow> x = TxCompleted \<or> x = TxFailed \<or> x = TxCancelled"
  "CanTransitionTo TxCompleted x \<longleftrightarrow> x = TxRefunded"
  "CanTransitionTo TxFailed x \<longleftrightarrow> False" "CanTransitionTo TxCancelled x \<longleftrightarrow> False"
  "CanTransitionTo TxRefunded x \<longleftrightarrow> False" "CanTransitionTo (TxStatusOther y) x \<longleftrightarrow> False"
  by (auto simp: CanTransitionTo_def)

lemma CanTransitionTo_from:
  "CanTransitionTo st TxAuthorized \<longleftrightarrow> st = TxPending"
  "CanTransitionTo st TxCompleted \<longleftrightarrow> st = TxAuthorized"
  "CanTransitionTo st TxRefunded \<longleftrightarrow> st = TxCompleted"
  "CanTransitionTo st TxFailed \<longleftrightarrow> st = TxPending \<or> st = TxAuthorized"
  "CanTransitionTo st TxCancelled \<longleftrightarrow> st = TxPending \<or> st = TxAuthorized"
  by (cases st; simp)+

text \<open>The fields no operation writes.\<close>

definition tx_same_payment :: "Transaction \<Rightarrow> Transaction \<Rightarrow> bool" where
  "tx_same_payment t u \<longleftrightarrow>
     tx_ID t = tx_ID u \<and> tx_IdempotencyKey t = tx_IdempotencyKey u \<and> tx_Amount t = tx_Amount u \<and>
     tx_Currency t = tx_Currency u \<and> tx_PaymentMethod t = tx_PaymentMethod u \<and>
     tx_MerchantID t = tx_MerchantID u \<and> tx_CustomerID t = tx_CustomerID u \<and>
     tx_Description t = tx_Description u \<and> tx_Metadata t = tx_Metadata u \<and>
     tx_CreatedAt t = tx_CreatedAt u"

definition tx_evolves :: "Transaction \<Rightarrow> Transaction \<Rightarrow> bool" where
  "tx_evolves t u \<longleftrightarrow>
     tx_same_payment t u \<and> CanTransitionTo\<^sup>*\<^sup>* (tx_Status t) (tx_Status u) \<and>
     (tx_terminal (tx_Status t) \<longrightarrow> u = t)"

lemma apply_refund_simps [simp]:
  "tx_same_payment t (apply_refund amount reason t)"
  "tx_RefundedAmount (apply_refund amount reason t) = tx_RefundedAmount t + amount"
  "tx_Amount (apply_refund amount reason t) = tx_Amount t"
  "tx_Currency (apply_refund amount reason t) = tx_Currency t"
  "tx_PaymentMethod (apply_refund amount reason t) = tx_PaymentMethod t"
  "tx_Status (apply_refund amount reason t) =
     (if sint (tx_Amount t) \<le> sint (tx_RefundedAmount t + amount) then TxRefunded else tx_Status t)"
  by (simp_all add: apply_refund_def Let_def tx_same_payment_def)

lemma tx_transition_status:
  assumes "tx_transition e a t = Inr u"
  shows "CanTransitionTo (tx_Status t) (tx_Status u) \<or>
    tx_Status t = TxCompleted \<and> tx_Status u = TxCompleted"
  using assms by (cases a) (auto simp: CanTransitionTo_from Let_def split: if_splits)

lemma tx_transition_same_payment: "tx_transition e a t = Inr u \<Longrightarrow> tx_same_payment t u"
  by (cases a) (auto simp: Let_def tx_same_payment_def [of t "t\<lparr>tx_Status := x, tx_ProviderRef := y\<rparr>" for x y]
      tx_same_payment_def [of t "t\<lparr>tx_Status := x, tx_FailureReason := y\<rparr>" for x y]
      tx_same_payment_def [of t "t\<lparr>tx_Status := x, tx_CompletedAt := y\<rparr>" for x y] split: if_splits)

lemma tx_evolves_transition:
  assumes "tx_transition e a t = Inr u"
  shows "tx_evolves t (tx_stamp e a u)"
proof -
  have "\<not> tx_terminal (tx_Status t)"
    using tx_transition_status [OF assms] by (auto simp: tx_terminal_def)
  moreover have "CanTransitionTo\<^sup>*\<^sup>* (tx_Status t) (tx_Status (tx_stamp e a u))"
    using tx_transition_status [OF assms] by (auto simp: tx_stamp_def)
  ultimately show ?thesis
    using tx_transition_same_payment [OF assms]
    by (simp add: tx_evolves_def tx_stamp_def tx_same_payment_def)
qed

lemma tx_evolves_refl: "tx_evolves t t"
  by (simp add: tx_evolves_def tx_same_payment_def)

lemma tx_evolves_trans: "tx_evolves t u \<Longrightarrow> tx_evolves u v \<Longrightarrow> tx_evolves t v"
  by (auto simp: tx_evolves_def tx_same_payment_def)

subsection \<open>Money\<close>

text \<open>A transaction whose refunds add up: what is refunded lies between nothing and the amount.\<close>

definition tx_money_ok :: "Transaction \<Rightarrow> bool" where
  "tx_money_ok t \<longleftrightarrow>
     0 < sint (tx_Amount t) \<and> 0 \<le> sint (tx_RefundedAmount t) \<and>
     sint (tx_RefundedAmount t) \<le> sint (tx_Amount t) \<and>
     (tx_Status t = TxRefunded \<longleftrightarrow> tx_RefundedAmount t = tx_Amount t) \<and>
     (tx_RefundedAmount t \<noteq> 0 \<longrightarrow> tx_Status t = TxCompleted \<or> tx_Status t = TxRefunded)"

text \<open>The refunds that keep it: not negative, and too small to make the running total wrap.\<close>

fun refund_in_range :: "Transaction \<Rightarrow> tx_op \<Rightarrow> bool" where
  "refund_in_range t (OpRefund amount reason) \<longleftrightarrow>
     0 \<le> sint amount \<and>
     sint (tx_RefundedAmount t) + sint (if amount = 0 then tx_Amount t else amount) < 2 ^ 63"
| "refund_in_range t _ \<longleftrightarrow> True"

lemma refund_money_ok:
  assumes ok: "tx_money_ok t" and status: "tx_Status t = TxCompleted"
    and range: "0 \<le> sint amount" "sint (tx_RefundedAmount t) + sint amount < 2 ^ 63"
    and fits: "sint (tx_RefundedAmount t + amount) \<le> sint (tx_Amount t)"
  shows "tx_money_ok (apply_refund amount reason t)"
proof -
  have add: "sint (tx_RefundedAmount t + amount) = sint (tx_RefundedAmount t) + sint amount"
    using ok range by (intro sint64_add) (auto simp: tx_money_ok_def)
  then show ?thesis
    using ok status range fits
    by (auto simp: tx_money_ok_def simp flip: sint64_inject)
qed

lemma tx_money_ok_transition:
  assumes ok: "tx_money_ok t" and run: "tx_transition e a t = Inr u" and range: "refund_in_range t a"
  shows "tx_money_ok u"
proof (cases a)
  case (OpRefund amount reason)
  let ?amount = "if amount = 0 then tx_Amount t else amount"
  have u: "u = apply_refund ?amount reason t" "tx_Status t = TxCompleted"
    "sint (tx_RefundedAmount t + ?amount) \<le> sint (tx_Amount t)"
    using run OpRefund by (auto simp: Let_def CanTransitionTo_from split: if_splits)
  have "sint (tx_RefundedAmount t) + sint ?amount < 2 ^ 63"
    using range OpRefund by simp
  moreover have "0 \<le> sint ?amount"
    using ok range OpRefund by (simp add: tx_money_ok_def)
  ultimately show ?thesis
    unfolding u(1) using ok u(2,3) by (intro refund_money_ok)
qed (use run ok in \<open>auto simp: tx_money_ok_def CanTransitionTo_from split: if_splits\<close>)

section \<open>The contract of the repository, and the service over it\<close>

text \<open>
  The calls a client makes, and the state they leave.  A creation must draw an identifier that is
  not in use; that condition reads the repository through its abstraction \<open>abs\<close>.
\<close>

datatype tx_call = CallCreate env CreateTransactionRequest | CallOperate env tx_op string

primrec tx_step :: "'s TransactionRepository \<Rightarrow> tx_call \<Rightarrow> 's \<Rightarrow> 's" where
  "tx_step R (CallCreate e req) s = snd (CreateTransaction R e req s)"
| "tx_step R (CallOperate e a i) s = snd (tx_operate R e a i s)"

definition tx_fresh :: "env \<Rightarrow> (string \<rightharpoonup> Transaction) \<Rightarrow> bool" where
  "tx_fresh e m \<longleftrightarrow> (\<forall>i. generateID ''txn'' (entropy e 0) = Some i \<longrightarrow> m i = None)"

primrec tx_call_fresh :: "(string \<rightharpoonup> Transaction) \<Rightarrow> tx_call \<Rightarrow> bool" where
  "tx_call_fresh m (CallCreate e req) \<longleftrightarrow> tx_fresh e m"
| "tx_call_fresh m (CallOperate e a i) \<longleftrightarrow> True"

primrec tx_call_in_range :: "(string \<rightharpoonup> Transaction) \<Rightarrow> tx_call \<Rightarrow> bool" where
  "tx_call_in_range m (CallCreate e req) \<longleftrightarrow> True"
| "tx_call_in_range m (CallOperate e a i) \<longleftrightarrow> (\<forall>t. m i = Some t \<longrightarrow> refund_in_range t a)"

definition tx_map_le :: "(string \<rightharpoonup> Transaction) \<Rightarrow> (string \<rightharpoonup> Transaction) \<Rightarrow> bool" where
  "tx_map_le m n \<longleftrightarrow> (\<forall>i t. m i = Some t \<longrightarrow> (\<exists>u. n i = Some u \<and> tx_evolves t u))"

definition tx_map_money_ok :: "(string \<rightharpoonup> Transaction) \<Rightarrow> bool" where
  "tx_map_money_ok m \<longleftrightarrow> (\<forall>i t. m i = Some t \<longrightarrow> tx_money_ok t)"

lemma tx_money_ok_stamp [simp]: "tx_money_ok (tx_stamp e a t) = tx_money_ok t"
  by (simp add: tx_money_ok_def tx_stamp_def)

lemma tx_map_le_refl: "tx_map_le m m"
  by (simp add: tx_map_le_def tx_evolves_refl)

lemma tx_map_le_trans: "tx_map_le m n \<Longrightarrow> tx_map_le n k \<Longrightarrow> tx_map_le m k"
  unfolding tx_map_le_def by (blast intro: tx_evolves_trans)

lemma tx_map_le_new: "m i = None \<Longrightarrow> tx_map_le m (m(i \<mapsto> t))"
  by (auto simp: tx_map_le_def intro: tx_evolves_refl)

lemma spec_operate_le: "tx_map_le m (snd (spec_operate e a i m))"
  by (auto simp: spec_operate_def tx_map_le_def intro: tx_evolves_refl tx_evolves_transition
      split: option.splits sum.splits)

lemma spec_operate_money_ok:
  "tx_map_money_ok m \<Longrightarrow> (\<forall>t. m i = Some t \<longrightarrow> refund_in_range t a) \<Longrightarrow>
    tx_map_money_ok (snd (spec_operate e a i m))"
  by (auto simp: spec_operate_def tx_map_money_ok_def split: option.splits sum.splits
      intro: tx_money_ok_transition)

text \<open>
  The laws of a transaction repository: \<open>abs\<close> is the map it stores, \<open>valid\<close> its
  well-formedness.
\<close>

locale tx_store =
  fixes R :: "'s TransactionRepository"
    and valid :: "'s \<Rightarrow> bool"
    and abs :: "'s \<Rightarrow> (string \<rightharpoonup> Transaction)"
  assumes get: "valid s \<Longrightarrow>
      tr_GetByID R i s = (case abs s i of None \<Rightarrow> Inl ErrTransactionNotFound | Some t \<Rightarrow> Inr t)"
    and stored_ID: "valid s \<Longrightarrow> abs s i = Some t \<Longrightarrow> tx_ID t = i"
    and get_key: "valid s \<Longrightarrow> abs s i = Some t \<Longrightarrow> tx_IdempotencyKey t \<noteq> [] \<Longrightarrow>
      tr_GetByIdempotencyKey R (tx_IdempotencyKey t) s = Inr (Some t)"
    and get_no_key: "valid s \<Longrightarrow> k \<noteq> [] \<Longrightarrow> (\<forall>i t. abs s i = Some t \<longrightarrow> tx_IdempotencyKey t \<noteq> k) \<Longrightarrow>
      tr_GetByIdempotencyKey R k s = Inl ErrTransactionNotFound"
    and create: "valid s \<Longrightarrow> abs s (tx_ID t) = None \<Longrightarrow>
      tx_IdempotencyKey t = [] \<or> (\<forall>i u. abs s i = Some u \<longrightarrow> tx_IdempotencyKey u \<noteq> tx_IdempotencyKey t) \<Longrightarrow>
      \<exists>s'. tr_Create R now t s = (Inr (t\<lparr>tx_CreatedAt := now, tx_UpdatedAt := now\<rparr>), s') \<and> valid s' \<and>
        abs s' = (abs s)(tx_ID t \<mapsto> t\<lparr>tx_CreatedAt := now, tx_UpdatedAt := now\<rparr>)"
    and update: "valid s \<Longrightarrow> abs s (tx_ID t) = Some u \<Longrightarrow> tx_IdempotencyKey t = tx_IdempotencyKey u \<Longrightarrow>
      \<exists>s'. tr_Update R now t s = (Inr (t\<lparr>tx_UpdatedAt := now\<rparr>), s') \<and> valid s' \<and>
        abs s' = (abs s)(tx_ID t \<mapsto> t\<lparr>tx_UpdatedAt := now\<rparr>)"
    and list_page: "valid s \<Longrightarrow> tr_List R ks merchantID limit offset s =
      paginate (filter (\<lambda>tx. merchantID = [] \<or> tx_MerchantID tx = merchantID)
        (map (\<lambda>k. the (abs s k)) ks)) limit offset"
begin

lemma operate_cases: "valid s \<Longrightarrow> tx_operate R e a i s =
    (case abs s i of
       None \<Rightarrow> (Inl ErrTransactionNotFound, s)
     | Some t \<Rightarrow> (case tx_transition e a t of
                    Inl err \<Rightarrow> (Inl err, s)
                  | Inr u \<Rightarrow> tr_Update R (clock e (if a = OpComplete then 1 else 0)) u s))"
  by (cases a) (auto simp: tx_operate_def AuthorizeTransaction_def CompleteTransaction_def
      CancelTransaction_def FailTransaction_def RefundTransaction_def get Let_def split: option.splits)

text \<open>Through any lawful repository, an operation of the service is the operation on the map.\<close>

lemma operate_refines:
  assumes "valid s"
  shows "\<exists>s'. tx_operate R e a i s = (fst (spec_operate e a i (abs s)), s') \<and> valid s' \<and>
    abs s' = snd (spec_operate e a i (abs s))"
proof (cases "abs s i")
  case None
  with assms show ?thesis by (simp add: operate_cases spec_operate_def)
next
  case (Some t)
  show ?thesis
  proof (cases "tx_transition e a t")
    case (Inl err)
    with Some assms show ?thesis by (simp add: operate_cases spec_operate_def)
  next
    case (Inr u)
    have "tx_ID u = i" "tx_IdempotencyKey u = tx_IdempotencyKey t"
      using tx_transition_same_payment [OF Inr] stored_ID [OF assms Some]
      by (simp_all add: tx_same_payment_def)
    with update [OF assms, of u t "clock e (if a = OpComplete then 1 else 0)"] Some Inr assms
    show ?thesis by (auto simp: operate_cases spec_operate_def tx_stamp_def)
  qed
qed

text \<open>A request that carries the key of a stored transaction is answered with that transaction.\<close>

lemma create_replays:
  assumes "valid s" "abs s i = Some t" "tx_IdempotencyKey t = ctr_IdempotencyKey req"
    "ctr_IdempotencyKey req \<noteq> []" "tx_validateCreateRequest req = None"
  shows "CreateTransaction R e req s = (Inr (Some t), s)"
  using assms get_key [OF assms(1,2)] by (simp add: CreateTransaction_def)

lemma key_unique:
  assumes "valid s" "abs s i = Some t" "abs s j = Some u" "tx_IdempotencyKey t = tx_IdempotencyKey u"
    "tx_IdempotencyKey t \<noteq> []"
  shows "t = u"
  using get_key [OF assms(1,2)] get_key [OF assms(1,3)] assms(4,5)
  by (metis option.inject sum.inject(2))

text \<open>The three outcomes of a creation: refused, replayed, or a new pending transaction.\<close>

lemma create_outcomes:
  assumes "valid s" "tx_fresh e (abs s)"
  obtains (refused) err where "CreateTransaction R e req s = (Inl err, s)"
      "err = TxErrEntropy \<or> tx_validateCreateRequest req = Some err"
  | (replayed) i t where "CreateTransaction R e req s = (Inr (Some t), s)" "abs s i = Some t"
      "tx_IdempotencyKey t = ctr_IdempotencyKey req" "ctr_IdempotencyKey req \<noteq> []"
  | (created) i t s' where "CreateTransaction R e req s = (Inr (Some t), s')" "valid s'"
      "abs s i = None" "abs s' = (abs s)(i \<mapsto> t)" "tx_validateCreateRequest req = None"
      "t = (new_transaction i req)\<lparr>tx_CreatedAt := clock e 0, tx_UpdatedAt := clock e 0\<rparr>"
      "ctr_IdempotencyKey req = [] \<or>
        (\<forall>i u. abs s i = Some u \<longrightarrow> tx_IdempotencyKey u \<noteq> ctr_IdempotencyKey req)"
proof (cases "tx_validateCreateRequest req")
  case (Some err)
  then show ?thesis using refused by (simp add: CreateTransaction_def)
next
  case valid_req: None
  let ?key = "ctr_IdempotencyKey req"
  show ?thesis
  proof (cases "?key \<noteq> [] \<and> (\<exists>i t. abs s i = Some t \<and> tx_IdempotencyKey t = ?key)")
    case True
    then obtain i t where "?key \<noteq> []" "abs s i = Some t" "tx_IdempotencyKey t = ?key" by blast
    with get_key [OF assms(1), of i t] show ?thesis
      using valid_req by (intro replayed [of t i]) (simp_all add: CreateTransaction_def)
  next
    case False
    then have new: "?key = [] \<or> (\<forall>i u. abs s i = Some u \<longrightarrow> tx_IdempotencyKey u \<noteq> ?key)" by blast
    have none: "(if ?key \<noteq> [] then tr_GetByIdempotencyKey R ?key s else Inl ErrTransactionNotFound) =
        Inl ErrTransactionNotFound"
      using new get_no_key [OF assms(1), of ?key] by auto
    show ?thesis
    proof (cases "generateID ''txn'' (entropy e 0)")
      case None
      with valid_req none show ?thesis by (intro refused) (simp_all add: CreateTransaction_def)
    next
      case (Some i)
      with assms(2) have "abs s i = None" by (simp add: tx_fresh_def)
      with create [OF assms(1), of "new_transaction i req" "clock e 0"] new obtain s' where
        "tr_Create R (clock e 0) (new_transaction i req) s =
          (Inr ((new_transaction i req)\<lparr>tx_CreatedAt := clock e 0, tx_UpdatedAt := clock e 0\<rparr>), s')"
        "valid s'"
        "abs s' = (abs s)(i \<mapsto> (new_transaction i req)\<lparr>tx_CreatedAt := clock e 0, tx_UpdatedAt := clock e 0\<rparr>)"
        by (auto simp: new_transaction_def)
      with valid_req none Some new \<open>abs s i = None\<close> show ?thesis
        by (intro created [of _ s' i]) (simp_all add: CreateTransaction_def)
    qed
  qed
qed

lemma step_valid_le:
  assumes "valid s" "tx_call_fresh (abs s) c"
  shows "valid (tx_step R c s) \<and> tx_map_le (abs s) (abs (tx_step R c s))"
proof (cases c)
  case (CallCreate e req)
  with assms have "tx_fresh e (abs s)" by simp
  from create_outcomes [OF assms(1) this, of req] CallCreate assms(1) show ?thesis
    by cases (auto simp: tx_map_le_refl tx_map_le_new)
next
  case (CallOperate e a i)
  with operate_refines [OF assms(1), of e a i] show ?thesis
    by (auto simp: spec_operate_le)
qed

lemma step_money_ok:
  assumes "valid s" "tx_call_fresh (abs s) c" "tx_call_in_range (abs s) c" "tx_map_money_ok (abs s)"
  shows "tx_map_money_ok (abs (tx_step R c s))"
proof (cases c)
  case (CallCreate e req)
  with assms have "tx_fresh e (abs s)" by simp
  from create_outcomes [OF assms(1) this, of req] CallCreate assms(4) show ?thesis
    by cases (auto simp: tx_map_money_ok_def tx_money_ok_def new_transaction_def
        tx_validateCreateRequest_def split: if_splits)
next
  case (CallOperate e a i)
  with operate_refines [OF assms(1), of e a i] assms(3,4) show ?thesis
    by (auto intro: spec_operate_money_ok)
qed

end

text \<open>The runs of the service over any such repository.\<close>

sublocale tx_store \<subseteq> machine: monotone_machine
  "tx_step R" "\<lambda>s. tx_call_fresh (abs s)" valid "\<lambda>s t. tx_map_le (abs s) (abs t)"
  by unfold_locales (use step_valid_le tx_map_le_refl tx_map_le_trans in blast)+

sublocale tx_store \<subseteq> money: invariant_machine
  "tx_step R" "\<lambda>s c. tx_call_fresh (abs s) c \<and> tx_call_in_range (abs s) c"
  "\<lambda>s. valid s \<and> tx_map_money_ok (abs s)"
  by unfold_locales (use step_valid_le step_money_ok in blast)

section \<open>The in-memory repository satisfies the contract\<close>

definition tm_valid :: "TxInMemory \<Rightarrow> bool" where
  "tm_valid r \<longleftrightarrow>
     (\<forall>i t. tm_transactions r i = Some t \<longrightarrow> tx_ID t = i \<and>
        (tx_IdempotencyKey t \<noteq> [] \<longrightarrow> tm_idempotencyKeys r (tx_IdempotencyKey t) = Some i)) \<and>
     (\<forall>k i. tm_idempotencyKeys r k = Some i \<longrightarrow>
        (\<exists>t. tm_transactions r i = Some t \<and> tx_IdempotencyKey t = k))"

lemma tm_valid_new: "tm_valid tx_NewInMemoryRepository"
  by (simp add: tm_valid_def tx_NewInMemoryRepository_def)

lemma tm_validD:
  assumes "tm_valid r"
  shows tm_valid_ID: "tm_transactions r i = Some t \<Longrightarrow> tx_ID t = i"
    and tm_valid_key: "tm_transactions r i = Some t \<Longrightarrow> tx_IdempotencyKey t \<noteq> [] \<Longrightarrow>
      tm_idempotencyKeys r (tx_IdempotencyKey t) = Some i"
    and tm_valid_index: "tm_idempotencyKeys r k = Some i \<Longrightarrow>
      \<exists>t. tm_transactions r i = Some t \<and> tx_IdempotencyKey t = k"
  using assms unfolding tm_valid_def by blast+

lemma tm_validI:
  assumes "\<And>i t. tm_transactions r i = Some t \<Longrightarrow> tx_ID t = i"
    and "\<And>i t. tm_transactions r i = Some t \<Longrightarrow> tx_IdempotencyKey t \<noteq> [] \<Longrightarrow>
      tm_idempotencyKeys r (tx_IdempotencyKey t) = Some i"
    and "\<And>k i. tm_idempotencyKeys r k = Some i \<Longrightarrow>
      \<exists>t. tm_transactions r i = Some t \<and> tx_IdempotencyKey t = k"
  shows "tm_valid r"
  using assms unfolding tm_valid_def by blast

lemma tm_valid_keys_None:
  assumes "tm_valid r" "\<forall>i t. tm_transactions r i = Some t \<longrightarrow> tx_IdempotencyKey t \<noteq> k"
  shows "tm_idempotencyKeys r k = None"
  using tm_valid_index [OF assms(1), of k] assms(2) by (cases "tm_idempotencyKeys r k") blast+

lemma tm_Create_law:
  assumes "tm_valid r" "tm_transactions r (tx_ID t) = None"
    "tx_IdempotencyKey t = [] \<or>
      (\<forall>i u. tm_transactions r i = Some u \<longrightarrow> tx_IdempotencyKey u \<noteq> tx_IdempotencyKey t)"
  shows "\<exists>r'. tm_Create now t r = (Inr (t\<lparr>tx_CreatedAt := now, tx_UpdatedAt := now\<rparr>), r') \<and> tm_valid r' \<and>
    tm_transactions r' = (tm_transactions r)(tx_ID t \<mapsto> t\<lparr>tx_CreatedAt := now, tx_UpdatedAt := now\<rparr>)"
proof -
  let ?t = "t\<lparr>tx_CreatedAt := now, tx_UpdatedAt := now\<rparr>" and ?k = "tx_IdempotencyKey t"
  let ?keys = "if ?k \<noteq> [] then (tm_idempotencyKeys r)(?k \<mapsto> tx_ID t) else tm_idempotencyKeys r"
  let ?r = "r\<lparr>tm_idempotencyKeys := ?keys, tm_transactions := (tm_transactions r)(tx_ID t \<mapsto> ?t)\<rparr>"
  have free: "?k = [] \<or> tm_idempotencyKeys r ?k = None"
    by (rule disj_forward [OF assms(3)]) (assumption, rule tm_valid_keys_None [OF assms(1)])
  then have "tm_Create now t r = (Inr ?t, ?r)"
    by (auto simp: tm_Create_def Let_def)
  moreover have "tm_valid ?r"
  proof (rule tm_validI)
    fix i u assume "tm_transactions ?r i = Some u"
    then show "tx_ID u = i"
      using tm_valid_ID [OF assms(1)] by (auto split: if_splits)
  next
    fix i u assume "tm_transactions ?r i = Some u" "tx_IdempotencyKey u \<noteq> []"
    then show "tm_idempotencyKeys ?r (tx_IdempotencyKey u) = Some i"
      using tm_valid_key [OF assms(1)] assms(3) by (fastforce split: if_splits)
  next
    fix k i assume k: "tm_idempotencyKeys ?r k = Some i"
    show "\<exists>u. tm_transactions ?r i = Some u \<and> tx_IdempotencyKey u = k"
    proof (cases "k = ?k \<and> ?k \<noteq> []")
      case True
      with k show ?thesis by simp
    next
      case False
      with k have "tm_idempotencyKeys r k = Some i" by (auto split: if_splits)
      from tm_valid_index [OF assms(1) this] assms(2) show ?thesis by auto
    qed
  qed
  ultimately show ?thesis by simp
qed

lemma tm_Update_law:
  assumes "tm_valid r" "tm_transactions r (tx_ID t) = Some u" "tx_IdempotencyKey t = tx_IdempotencyKey u"
  shows "\<exists>r'. tm_Update now t r = (Inr (t\<lparr>tx_UpdatedAt := now\<rparr>), r') \<and> tm_valid r' \<and>
    tm_transactions r' = (tm_transactions r)(tx_ID t \<mapsto> t\<lparr>tx_UpdatedAt := now\<rparr>)"
proof -
  let ?r = "r\<lparr>tm_transactions := (tm_transactions r)(tx_ID t \<mapsto> t\<lparr>tx_UpdatedAt := now\<rparr>)\<rparr>"
  have "tm_valid ?r"
  proof (rule tm_validI)
    fix i v assume "tm_transactions ?r i = Some v"
    then show "tx_ID v = i"
      using tm_valid_ID [OF assms(1)] by (auto split: if_splits)
  next
    fix i v assume "tm_transactions ?r i = Some v" "tx_IdempotencyKey v \<noteq> []"
    then show "tm_idempotencyKeys ?r (tx_IdempotencyKey v) = Some i"
      using tm_valid_key [OF assms(1)] assms(2,3) by (auto split: if_splits)
  next
    fix k i assume "tm_idempotencyKeys ?r k = Some i"
    then show "\<exists>v. tm_transactions ?r i = Some v \<and> tx_IdempotencyKey v = k"
      using tm_valid_index [OF assms(1), of k i] assms(2,3) by auto
  qed
  moreover have "tm_Update now t r = (Inr (t\<lparr>tx_UpdatedAt := now\<rparr>), ?r)"
    using assms(2) by (simp add: tm_Update_def Let_def)
  ultimately show ?thesis by simp
qed

interpretation tx_mem: tx_store tx_InMemoryRepository tm_valid tm_transactions
proof unfold_locales
  fix r i t assume "tm_valid r" "tm_transactions r i = Some t" "tx_IdempotencyKey t \<noteq> []"
  then show "tr_GetByIdempotencyKey tx_InMemoryRepository (tx_IdempotencyKey t) r = Inr (Some t)"
    by (simp add: tx_InMemoryRepository_def tm_GetByIdempotencyKey_def tm_valid_key)
next
  fix r k assume "tm_valid r" "\<forall>i t. tm_transactions r i = Some t \<longrightarrow> tx_IdempotencyKey t \<noteq> k"
  then show "tr_GetByIdempotencyKey tx_InMemoryRepository k r = Inl ErrTransactionNotFound"
    by (simp add: tx_InMemoryRepository_def tm_GetByIdempotencyKey_def tm_valid_keys_None)
qed (simp_all add: tx_InMemoryRepository_def tm_GetByID_def tm_List_def tm_valid_ID
    tm_Create_law tm_Update_law)

section \<open>The contract of a payment\<close>

text \<open>
  What the service promises of one payment, as a machine of its own that knows no record and no
  machine word: a payment of a price is requested, held, paid with so many cents given back, all
  given back, declined or dropped.  It is held once, paid once and dropped or declined only before
  it is paid; a refund of \<open>x\<close> cents gives \<open>x\<close> cents back, as integers, a refund of 0 cents gives back
  the rest, and no more than the price is ever given back.
\<close>

datatype payment = Requested | Held | Paid int | PaidBack | Declined | Dropped | Unknown

fun pay :: "int \<Rightarrow> tx_op \<Rightarrow> payment \<Rightarrow> payment option" where
  "pay price (OpAuthorize ref) Requested = Some Held"
| "pay price OpComplete Held = Some (Paid 0)"
| "pay price (OpCancel reason) Requested = Some Dropped"
| "pay price (OpCancel reason) Held = Some Dropped"
| "pay price (OpFail reason) Requested = Some Declined"
| "pay price (OpFail reason) Held = Some Declined"
| "pay price (OpRefund x reason) (Paid back) =
     (let x = (if x = 0 then price - back else sint x)
      in if back + x < price then Some (Paid (back + x))
         else if back + x = price then Some PaidBack
         else None)"
| "pay price a p = None"

text \<open>The error of a step the contract does not allow.\<close>

fun pay_error :: "tx_op \<Rightarrow> payment \<Rightarrow> tx_error" where
  "pay_error (OpCancel reason) p = ErrCannotCancel"
| "pay_error (OpRefund x reason) (Paid back) = ErrRefundExceedsAmount"
| "pay_error (OpRefund x reason) p = ErrCannotRefund"
| "pay_error a p = ErrInvalidTransition"

text \<open>The payment a stored transaction stands for, and what an operation writes down on it.\<close>

definition payment_of :: "Transaction \<Rightarrow> payment" where
  "payment_of t =
     (case tx_Status t of
        TxPending \<Rightarrow> Requested | TxAuthorized \<Rightarrow> Held
      | TxCompleted \<Rightarrow> Paid (sint (tx_RefundedAmount t)) | TxRefunded \<Rightarrow> PaidBack
      | TxFailed \<Rightarrow> Declined | TxCancelled \<Rightarrow> Dropped | TxStatusOther x \<Rightarrow> Unknown)"

definition pay_recorded :: "env \<Rightarrow> tx_op \<Rightarrow> Transaction \<Rightarrow> Transaction \<Rightarrow> bool" where
  "pay_recorded e a t u \<longleftrightarrow>
     tx_ProviderRef u = (case a of OpAuthorize ref \<Rightarrow> ref | _ \<Rightarrow> tx_ProviderRef t) \<and>
     tx_FailureReason u =
       (case a of
          OpCancel reason \<Rightarrow> reason | OpFail reason \<Rightarrow> reason
        | OpRefund x reason \<Rightarrow> (if reason = [] then tx_FailureReason t else reason)
        | _ \<Rightarrow> tx_FailureReason t) \<and>
     tx_CompletedAt u = (if a = OpComplete then Some (clock e 0) else tx_CompletedAt t)"

text \<open>
  The refunds the service and the contract agree on: amounts that are not negative and do not make
  the running total wrap, and a full refund (0) only while nothing has been given back; what the
  service does with the others is shown below.
\<close>

fun refund_as_agreed :: "Transaction \<Rightarrow> tx_op \<Rightarrow> bool" where
  "refund_as_agreed t (OpRefund x reason) \<longleftrightarrow>
     0 \<le> sint x \<and> sint (tx_RefundedAmount t) + sint x < 2 ^ 63 \<and>
     (x = 0 \<longrightarrow> tx_RefundedAmount t = 0)"
| "refund_as_agreed t a \<longleftrightarrow> True"

lemma payment_of_refund:
  assumes ok: "tx_money_ok t" and status: "tx_Status t = TxCompleted"
    and range: "0 \<le> sint x" "sint (tx_RefundedAmount t) + sint x < 2 ^ 63"
    and fits: "sint (tx_RefundedAmount t) + sint x \<le> sint (tx_Amount t)"
  shows "payment_of (apply_refund x reason t) =
      (if sint (tx_RefundedAmount t) + sint x < sint (tx_Amount t)
       then Paid (sint (tx_RefundedAmount t) + sint x) else PaidBack)"
proof -
  have "sint (tx_RefundedAmount t + x) = sint (tx_RefundedAmount t) + sint x"
    using ok range by (intro sint64_add) (auto simp: tx_money_ok_def)
  then show ?thesis using status fits by (simp add: payment_of_def)
qed

lemma pay_refund:
  assumes ok: "tx_money_ok t" and agreed: "refund_as_agreed t (OpRefund x reason)"
    and status: "tx_Status t = TxCompleted"
  shows "case pay (sint (tx_Amount t)) (OpRefund x reason) (payment_of t) of
      None \<Rightarrow> tx_transition e (OpRefund x reason) t = Inl ErrRefundExceedsAmount
    | Some p \<Rightarrow> \<exists>u. tx_transition e (OpRefund x reason) t = Inr u \<and> payment_of u = p \<and>
        tx_same_payment t u \<and> pay_recorded e (OpRefund x reason) t u"
proof -
  let ?x = "if x = 0 then tx_Amount t else x"
  have x: "0 \<le> sint ?x" "sint (tx_RefundedAmount t) + sint ?x < 2 ^ 63"
    "sint ?x = (if x = 0 then sint (tx_Amount t) - sint (tx_RefundedAmount t) else sint x)"
    using ok agreed sint_lt [of "tx_Amount t"] by (auto simp: tx_money_ok_def)
  have add: "sint (tx_RefundedAmount t + ?x) = sint (tx_RefundedAmount t) + sint ?x"
    using ok x(1,2) by (intro sint64_add) (auto simp: tx_money_ok_def)
  have pay: "pay (sint (tx_Amount t)) (OpRefund x reason) (payment_of t) =
      (if sint (tx_RefundedAmount t) + sint ?x < sint (tx_Amount t)
       then Some (Paid (sint (tx_RefundedAmount t) + sint ?x))
       else if sint (tx_RefundedAmount t) + sint ?x = sint (tx_Amount t) then Some PaidBack else None)"
    using status unfolding x(3) by (simp add: payment_of_def Let_def sint64_inject)
  have run: "tx_transition e (OpRefund x reason) t =
      (if sint (tx_Amount t) < sint (tx_RefundedAmount t) + sint ?x then Inl ErrRefundExceedsAmount
       else Inr (apply_refund ?x reason t))"
    using status add by (simp add: Let_def)
  have "pay_recorded e (OpRefund x reason) t (apply_refund ?x reason t)"
    by (simp add: pay_recorded_def apply_refund_def Let_def)
  then show ?thesis
    unfolding pay run using payment_of_refund [OF ok status x(1,2), of reason]
    by (auto split: if_splits)
qed

lemma pay_transition:
  assumes "tx_money_ok t" "refund_as_agreed t a"
  shows "case pay (sint (tx_Amount t)) a (payment_of t) of
      None \<Rightarrow> tx_transition e a t = Inl (pay_error a (payment_of t))
    | Some p \<Rightarrow> \<exists>u. tx_transition e a t = Inr u \<and> payment_of u = p \<and>
        tx_same_payment t u \<and> pay_recorded e a t u"
proof (cases "\<exists>x reason. a = OpRefund x reason \<and> tx_Status t = TxCompleted")
  case True
  then obtain x reason where a: "a = OpRefund x reason" "tx_Status t = TxCompleted" by blast
  then have err: "pay_error (OpRefund x reason) (payment_of t) = ErrRefundExceedsAmount"
    by (simp add: payment_of_def)
  show ?thesis
    using pay_refund [OF assms(1), of x reason e] assms(2) a(2) unfolding a(1) err by blast
next
  case False
  then show ?thesis
    using assms(1)
    by (cases a; cases "tx_Status t")
      (auto simp: payment_of_def pay_recorded_def tx_same_payment_def tx_money_ok_def)
qed

lemma tx_stamp_simps [simp]:
  "payment_of (tx_stamp e a t) = payment_of t"
  "tx_same_payment t (tx_stamp e a u) \<longleftrightarrow> tx_same_payment t u"
  "pay_recorded e' b t (tx_stamp e a u) \<longleftrightarrow> pay_recorded e' b t u"
  by (simp_all add: tx_stamp_def payment_of_def tx_same_payment_def pay_recorded_def
      split: TransactionStatus.split)

lemma refund_as_agreed_in_range: "tx_money_ok t \<Longrightarrow> refund_as_agreed t a \<Longrightarrow> refund_in_range t a"
  using sint_lt [of "tx_Amount t"] by (cases a) (auto simp: tx_money_ok_def)

section \<open>Properties\<close>

lemmas tx_eval = tx_InMemoryRepository_def tx_NewInMemoryRepository_def tm_Create_def tm_GetByID_def
  tm_GetByIdempotencyKey_def tm_Update_def CreateTransaction_def AuthorizeTransaction_def
  CompleteTransaction_def CancelTransaction_def FailTransaction_def RefundTransaction_def
  tx_operate_def apply_refund_def tx_validateCreateRequest_def tx_SupportedCurrencies_def
  SupportedPaymentMethods_def new_transaction_def tx_fresh_def generateID_def hex_byte_def
  hex_digit_def Let_def

definition example_payment :: "string \<Rightarrow> int64 \<Rightarrow> CreateTransactionRequest" where
  "example_payment key amount =
     \<lparr>ctr_IdempotencyKey = key, ctr_Amount = amount, ctr_Currency = ''USD'',
      ctr_PaymentMethod = ''card'', ctr_MerchantID = ''m'', ctr_CustomerID = ''c'',
      ctr_Description = [], ctr_Metadata = None\<rparr>"

text \<open>A payment of 100 cents that has been authorized and completed, and its identifier.\<close>

definition example_calls :: "tx_call list" where
  "example_calls =
     [CallCreate (example_env 1) (example_payment ''k'' 100),
      CallOperate (example_env 2) (OpAuthorize ''ref'') ''txn_0100'',
      CallOperate (example_env 3) OpComplete ''txn_0100'']"

lemmas example_eval = example_calls_def example_payment_def example_env_def

text \<open>
  C11: The service keeps the contract of a payment.  On the in-memory repository, for a stored
  transaction whose refunds add up, authorizing, completing, cancelling, failing and refunding
  succeed exactly when the payment it stands for allows the step: then the stored transaction is
  replaced by one that stands for the payment after the step, with the operation's reference,
  reason or instant written down and the fixed fields kept, and no other transaction changes.
  A step the payment does not allow returns its error and changes nothing.  Refunds are those the
  contract covers (\<open>refund_as_agreed\<close>): not negative, not wrapping, and 0 for a full refund only
  while nothing has been given back.
\<close>

theorem transaction_service_refines:
  assumes "tm_valid r" "tm_transactions r i = Some t" "tx_money_ok t" "refund_as_agreed t a"
  shows "case pay (sint (tx_Amount t)) a (payment_of t) of
      None \<Rightarrow> tx_operate tx_InMemoryRepository e a i r = (Inl (pay_error a (payment_of t)), r)
    | Some p \<Rightarrow> \<exists>u r'. tx_operate tx_InMemoryRepository e a i r = (Inr u, r') \<and> tm_valid r' \<and>
        tm_transactions r' = (tm_transactions r)(i \<mapsto> u) \<and> payment_of u = p \<and>
        tx_money_ok u \<and> tx_same_payment t u \<and> pay_recorded e a t u"
proof (cases "pay (sint (tx_Amount t)) a (payment_of t)")
  case None
  with pay_transition [OF assms(3,4), of e] show ?thesis
    using tx_mem.operate_cases [OF assms(1), of e a i] assms(2) by simp
next
  case (Some p)
  with pay_transition [OF assms(3,4), of e] obtain u where
    u: "tx_transition e a t = Inr u" "payment_of u = p" "tx_same_payment t u" "pay_recorded e a t u"
    by auto
  have "tx_money_ok u"
    using tx_money_ok_transition [OF assms(3) u(1)] refund_as_agreed_in_range [OF assms(3,4)] .
  with u tx_mem.operate_refines [OF assms(1), of e a i] show ?thesis
    unfolding Some spec_operate_def assms(2) by auto
qed

theorem transaction_service_refines_witness:
  "\<exists>u r'. tx_operate tx_InMemoryRepository (example_env 4) (OpRefund 40 ''late'') ''txn_0100''
      (run (tx_step tx_InMemoryRepository) example_calls tx_NewInMemoryRepository) = (Inr u, r') \<and>
    payment_of u = Paid 40 \<and> tx_FailureReason u = ''late'' \<and>
    tx_operate tx_InMemoryRepository (example_env 5) (OpRefund 61 []) ''txn_0100'' r' =
      (Inl ErrRefundExceedsAmount, r') \<and>
    (\<exists>v r''. tx_operate tx_InMemoryRepository (example_env 5) (OpRefund 60 []) ''txn_0100'' r' =
      (Inr v, r'') \<and> payment_of v = PaidBack)"
proof -
  let ?R = "tx_InMemoryRepository" and ?init = "tx_NewInMemoryRepository"
  let ?s = "run (tx_step ?R) example_calls ?init"
  have "run_ok (tx_step ?R) (\<lambda>s. tx_call_fresh (tm_transactions s)) example_calls ?init"
    by (simp add: example_eval tx_eval)
  from tx_mem.machine.run_inv [OF tm_valid_new this] have valid: "tm_valid ?s" .
  obtain t where t: "tm_transactions ?s ''txn_0100'' = Some t" "tx_Status t = TxCompleted"
    "tx_Amount t = 100" "tx_RefundedAmount t = 0"
    by (simp add: example_eval tx_eval)
  then have ok: "tx_money_ok t" by (simp add: tx_money_ok_def)
  have p: "payment_of t = Paid 0" using t by (simp add: payment_of_def)
  from transaction_service_refines [OF valid t(1) ok, of "OpRefund 40 ''late''" "example_env 4"]
  obtain u r' where u: "tx_operate ?R (example_env 4) (OpRefund 40 ''late'') ''txn_0100'' ?s = (Inr u, r')"
    "tm_valid r'" "tm_transactions r' = (tm_transactions ?s)(''txn_0100'' \<mapsto> u)" "payment_of u = Paid 40"
    "tx_money_ok u" "tx_same_payment t u" "pay_recorded (example_env 4) (OpRefund 40 ''late'') t u"
    using t p by auto
  have u': "tx_Amount u = 100" "tx_FailureReason u = ''late''" "sint (tx_RefundedAmount u) = 40"
    using u(4,6,7) t(3)
    by (auto simp: tx_same_payment_def pay_recorded_def payment_of_def split: TransactionStatus.splits)
  have stored: "tm_transactions r' ''txn_0100'' = Some u" using u(3) by simp
  have "tx_operate ?R (example_env 5) (OpRefund 61 []) ''txn_0100'' r' = (Inl ErrRefundExceedsAmount, r')"
    using transaction_service_refines [OF u(2) stored u(5), of "OpRefund 61 []" "example_env 5"] u(4) u'
    by simp
  moreover have "\<exists>v r''. tx_operate ?R (example_env 5) (OpRefund 60 []) ''txn_0100'' r' = (Inr v, r'') \<and>
      payment_of v = PaidBack"
    using transaction_service_refines [OF u(2) stored u(5), of "OpRefund 60 []" "example_env 5"] u(4) u'
    by auto
  ultimately show ?thesis using u(1,4) u'(2) by blast
qed

text \<open>
  The full refund the contract leaves out: once part of a payment has been refunded, a refund of 0
  cents is not the rest but an error, although \<open>models/transaction.go\<close> says that 0 is a full refund.
\<close>

theorem full_refund_after_partial_refused:
  assumes "tm_valid r" "tm_transactions r i = Some t" "tx_money_ok t" "tx_Status t = TxCompleted"
    "0 < sint (tx_RefundedAmount t)" "sint (tx_RefundedAmount t) + sint (tx_Amount t) < 2 ^ 63"
  shows "RefundTransaction tx_InMemoryRepository e i 0 reason r = (Inl ErrRefundExceedsAmount, r)"
proof -
  have "sint (tx_RefundedAmount t + tx_Amount t) = sint (tx_RefundedAmount t) + sint (tx_Amount t)"
    using assms(3,6) by (intro sint64_add) (auto simp: tx_money_ok_def)
  then show ?thesis
    using assms by (simp add: RefundTransaction_def tx_mem.get)
qed

text \<open>
  C13: The life of a transaction.  Along every sequence of calls that draws fresh identifiers, a
  stored transaction stays stored, its amount, currency, parties and keys never change, its
  status only follows \<open>ValidTransitions\<close>, and once it is failed, cancelled or refunded it
  never changes again.
\<close>

theorem transaction_lifecycle:
  assumes "tm_valid r"
    and "run_ok (tx_step tx_InMemoryRepository) (\<lambda>s. tx_call_fresh (tm_transactions s)) calls r"
    and "tm_transactions r i = Some t"
  shows "\<exists>u. tm_transactions (run (tx_step tx_InMemoryRepository) calls r) i = Some u \<and>
    tx_same_payment t u \<and> CanTransitionTo\<^sup>*\<^sup>* (tx_Status t) (tx_Status u) \<and>
    (tx_Status t \<in> {TxFailed, TxCancelled, TxRefunded} \<longrightarrow> u = t)"
  using tx_mem.machine.run_le [OF assms(1,2)] assms(3)
  by (fastforce simp: tx_map_le_def tx_evolves_def tx_terminal_def)

theorem transaction_lifecycle_witness:
  "\<exists>u. tm_transactions (run (tx_step tx_InMemoryRepository)
      [CallOperate (example_env 4) (OpRefund 40 []) ''txn_0100'']
      (run (tx_step tx_InMemoryRepository) example_calls tx_NewInMemoryRepository)) ''txn_0100'' = Some u \<and>
    CanTransitionTo\<^sup>*\<^sup>* TxCompleted (tx_Status u)"
proof -
  let ?R = "tx_InMemoryRepository" and ?init = "tx_NewInMemoryRepository"
  let ?s = "run (tx_step ?R) example_calls ?init"
  let ?calls = "[CallOperate (example_env 4) (OpRefund 40 []) ''txn_0100'']"
  have "run_ok (tx_step ?R) (\<lambda>s. tx_call_fresh (tm_transactions s)) example_calls ?init"
    by (simp add: example_eval tx_eval)
  from tx_mem.machine.run_inv [OF tm_valid_new this] have valid: "tm_valid ?s" .
  have "run_ok (tx_step ?R) (\<lambda>s. tx_call_fresh (tm_transactions s)) ?calls ?s" by simp
  moreover obtain t where "tm_transactions ?s ''txn_0100'' = Some t" "tx_Status t = TxCompleted"
    by (simp add: example_eval tx_eval)
  ultimately show ?thesis using transaction_lifecycle [OF valid] by metis
qed

text \<open>
  C18: Refunds never exceed the payment.  Starting from an empty repository, as long as identifiers
  are fresh and every refund asked for is not negative and does not make the refunded total
  wrap, every stored transaction has been refunded between 0 and its amount, it is marked
  refunded exactly when all of it is, and only a completed transaction has refunds.
\<close>

theorem refunds_within_amount:
  assumes "run_ok (tx_step tx_InMemoryRepository)
      (\<lambda>s c. tx_call_fresh (tm_transactions s) c \<and> tx_call_in_range (tm_transactions s) c)
      calls tx_NewInMemoryRepository"
    and "tm_transactions (run (tx_step tx_InMemoryRepository) calls tx_NewInMemoryRepository) i = Some t"
  shows "0 \<le> sint (tx_RefundedAmount t) \<and> sint (tx_RefundedAmount t) \<le> sint (tx_Amount t) \<and>
    (tx_Status t = TxRefunded \<longleftrightarrow> tx_RefundedAmount t = tx_Amount t) \<and>
    (tx_RefundedAmount t \<noteq> 0 \<longrightarrow> tx_Status t = TxCompleted \<or> tx_Status t = TxRefunded)"
proof -
  have "tx_map_money_ok (tm_transactions tx_NewInMemoryRepository)"
    by (simp add: tx_map_money_ok_def tx_NewInMemoryRepository_def)
  with tm_valid_new have
    "tm_valid tx_NewInMemoryRepository \<and> tx_map_money_ok (tm_transactions tx_NewInMemoryRepository)" ..
  from tx_mem.money.run_inv [OF this assms(1)] assms(2) show ?thesis
    by (auto simp: tx_map_money_ok_def tx_money_ok_def)
qed

theorem refunds_within_amount_witness:
  "\<exists>t. tm_transactions (run (tx_step tx_InMemoryRepository)
      (example_calls @ [CallOperate (example_env 4) (OpRefund 40 []) ''txn_0100''])
      tx_NewInMemoryRepository) ''txn_0100'' = Some t \<and>
    tx_RefundedAmount t = 40 \<and> sint (tx_RefundedAmount t) \<le> sint (tx_Amount t)"
proof -
  let ?R = "tx_InMemoryRepository" and ?init = "tx_NewInMemoryRepository"
  let ?calls = "example_calls @ [CallOperate (example_env 4) (OpRefund 40 []) ''txn_0100'']"
  have ok: "run_ok (tx_step ?R)
      (\<lambda>s c. tx_call_fresh (tm_transactions s) c \<and> tx_call_in_range (tm_transactions s) c) ?calls ?init"
    by (simp add: example_eval tx_eval)
  moreover obtain t where "tm_transactions (run (tx_step ?R) ?calls ?init) ''txn_0100'' = Some t"
    "tx_RefundedAmount t = 40"
    by (simp add: example_eval tx_eval)
  ultimately show ?thesis using refunds_within_amount [OF ok] by blast
qed

text \<open>
  A negative refund is accepted, and it makes room for more than the payment: for a completed
  payment of 100 cents, a refund of -50 succeeds and then a refund of 150 succeeds too.
\<close>

theorem negative_refund_overpays:
  "\<exists>t r t' r'. RefundTransaction tx_InMemoryRepository (example_env 4) ''txn_0100'' (- 50) []
       (run (tx_step tx_InMemoryRepository) example_calls tx_NewInMemoryRepository) = (Inr t, r) \<and>
     RefundTransaction tx_InMemoryRepository (example_env 5) ''txn_0100'' 150 [] r = (Inr t', r') \<and>
     tx_Amount t' = 100 \<and> tx_RefundedAmount t' = 100"
  by (simp add: example_eval tx_eval)

text \<open>
  A huge refund is accepted after a partial one, because the running total wraps: on a completed
  payment of 100 cents with 1 cent refunded, a refund of 2^63 - 1 cents succeeds and leaves the
  refunded amount at -2^63.
\<close>

theorem overflowing_refund_accepted:
  "\<exists>t r t' r'. RefundTransaction tx_InMemoryRepository (example_env 4) ''txn_0100'' 1 []
       (run (tx_step tx_InMemoryRepository) example_calls tx_NewInMemoryRepository) = (Inr t, r) \<and>
     RefundTransaction tx_InMemoryRepository (example_env 5) ''txn_0100'' 9223372036854775807 [] r =
       (Inr t', r') \<and> sint (tx_RefundedAmount t') = - (2 ^ 63)"
  by (simp add: example_eval tx_eval)

text \<open>
  C25: Creation is idempotent.  When a request with a non-empty idempotency key has produced a
  transaction, then after any further calls a valid request with the same key returns that
  same transaction (as it is by then) and changes nothing, even if its other fields differ.
\<close>

theorem create_idempotent:
  assumes "tm_valid r" "tx_fresh e (tm_transactions r)"
    and "CreateTransaction tx_InMemoryRepository e req r = (Inr (Some t), r1)"
    and "run_ok (tx_step tx_InMemoryRepository) (\<lambda>s. tx_call_fresh (tm_transactions s)) calls r1"
    and "ctr_IdempotencyKey req' = ctr_IdempotencyKey req" "ctr_IdempotencyKey req \<noteq> []"
    and "tx_validateCreateRequest req' = None"
  shows "\<exists>u. CreateTransaction tx_InMemoryRepository e' req'
      (run (tx_step tx_InMemoryRepository) calls r1) =
      (Inr (Some u), run (tx_step tx_InMemoryRepository) calls r1) \<and> tx_evolves t u"
proof -
  have r1: "tm_valid r1 \<and> tm_transactions r1 (tx_ID t) = Some t \<and>
      tx_IdempotencyKey t = ctr_IdempotencyKey req"
    by (rule tx_mem.create_outcomes [OF assms(1,2), of req])
      (use assms(1,3) in \<open>auto simp: tm_valid_ID new_transaction_def\<close>)
  let ?s = "run (tx_step tx_InMemoryRepository) calls r1"
  from r1 assms(4) have "tm_valid ?s" "tx_map_le (tm_transactions r1) (tm_transactions ?s)"
    by (auto intro: tx_mem.machine.run_inv tx_mem.machine.run_le)
  moreover from this(2) r1 obtain u where u: "tm_transactions ?s (tx_ID t) = Some u" "tx_evolves t u"
    unfolding tx_map_le_def by blast
  have key: "tx_IdempotencyKey u = ctr_IdempotencyKey req'"
    using u(2) r1 assms(5) by (metis tx_evolves_def tx_same_payment_def)
  have "CreateTransaction tx_InMemoryRepository e' req' ?s = (Inr (Some u), ?s)"
    by (rule tx_mem.create_replays [OF \<open>tm_valid ?s\<close> u(1) key _ assms(7)]) (simp add: assms(5,6))
  with u(2) show ?thesis by blast
qed

theorem create_idempotent_witness:
  "\<exists>u. CreateTransaction tx_InMemoryRepository (example_env 7) (example_payment ''k'' 999)
      (run (tx_step tx_InMemoryRepository)
        [CallOperate (example_env 2) (OpCancel ''late'') ''txn_0100'']
        (snd (CreateTransaction tx_InMemoryRepository (example_env 1) (example_payment ''k'' 100)
          tx_NewInMemoryRepository))) = (Inr (Some u),
      run (tx_step tx_InMemoryRepository)
        [CallOperate (example_env 2) (OpCancel ''late'') ''txn_0100'']
        (snd (CreateTransaction tx_InMemoryRepository (example_env 1) (example_payment ''k'' 100)
          tx_NewInMemoryRepository)))"
proof -
  let ?r1 = "snd (CreateTransaction tx_InMemoryRepository (example_env 1) (example_payment ''k'' 100)
      tx_NewInMemoryRepository)"
  have fresh: "tx_fresh (example_env 1) (tm_transactions tx_NewInMemoryRepository)"
    by (simp add: tx_fresh_def tx_NewInMemoryRepository_def)
  obtain t where run: "CreateTransaction tx_InMemoryRepository (example_env 1) (example_payment ''k'' 100)
      tx_NewInMemoryRepository = (Inr (Some t), ?r1)"
    by (simp add: example_eval tx_eval)
  have ok: "run_ok (tx_step tx_InMemoryRepository) (\<lambda>s. tx_call_fresh (tm_transactions s))
      [CallOperate (example_env 2) (OpCancel ''late'') ''txn_0100''] ?r1" by simp
  have valid: "tx_validateCreateRequest (example_payment ''k'' 999) = None"
    by (simp add: example_eval tx_eval)
  from create_idempotent [OF tm_valid_new fresh run ok _ _ valid] show ?thesis
    by (auto simp: example_payment_def)
qed

end
