(* ===== verification/TransactionApi.thy ===== *)
theory TransactionApi
  imports Api Transaction
begin

text \<open>
  The HTTP interface of the transaction service: the handlers of
  \<open>services/transaction/handlers/handlers.go\<close> and the routes of \<open>services/transaction/cmd/main.go\<close>.

  The handlers decode requests, make at most one call of the service and map its outcome to a status.
  What encoding/json decodes from a body is given by the codec: the value, which is partly filled or
  zero when decoding fails, and whether it succeeded; the codec also has the text of the errors of the
  entropy source.  An operation that reads the clock and the
  entropy source gets its environment with the request, a listing the order of the iteration over the
  map of transactions.
\<close>

section \<open>The handlers\<close>

record tx_codec =
  tc_create :: "string \<Rightarrow> CreateTransactionRequest \<times> bool"
  tc_reason :: "string \<Rightarrow> string \<times> bool"
  tc_refund :: "string \<Rightarrow> (int64 \<times> string) \<times> bool"
  tc_provider_ref :: "string \<Rightarrow> string \<times> bool"
  tc_entropy_error :: string

datatype tx_payload =
  TransactionResponse "Transaction option" | TransactionListResponse "Transaction list" nat

text \<open>The texts of the errors.\<close>

fun tx_error_text :: "tx_codec \<Rightarrow> tx_error \<Rightarrow> string" where
  "tx_error_text codec ErrTransactionNotFound = ''transaction not found''"
| "tx_error_text codec ErrDuplicateKey = ''duplicate idempotency key''"
| "tx_error_text codec ErrInvalidTransition = ''invalid status transition''"
| "tx_error_text codec TxErrInvalidAmount = ''amount must be positive''"
| "tx_error_text codec TxErrInvalidCurrency = ''invalid currency''"
| "tx_error_text codec ErrInvalidPaymentMethod = ''invalid payment method''"
| "tx_error_text codec ErrRefundExceedsAmount = ''refund amount exceeds transaction amount''"
| "tx_error_text codec ErrCannotCancel = ''cannot cancel transaction in current state''"
| "tx_error_text codec ErrCannotRefund = ''cannot refund transaction in current state''"
| "tx_error_text codec TxErrEntropy = tc_entropy_error codec"

definition tx_notFound :: "tx_payload ApiResponse" where
  "tx_notFound = errorResponse 404 ''transaction not found''"

text \<open>What an operation on one transaction ends with: \<open>failure\<close> is the status of other errors.\<close>

definition tx_outcome :: "tx_codec \<Rightarrow> nat \<Rightarrow> tx_error + Transaction \<Rightarrow> tx_payload ApiResponse" where
  "tx_outcome codec failure result =
     (case result of
        Inl err \<Rightarrow>
          if err = ErrTransactionNotFound then tx_notFound
          else errorResponse failure (tx_error_text codec err)
      | Inr tx \<Rightarrow> jsonResponse 200 (Reply (TransactionResponse (Some tx))))"

definition createTransaction ::
  "'s TransactionRepository \<Rightarrow> tx_codec \<Rightarrow> env \<Rightarrow> (tx_payload, 's) api" where
  "createTransaction R codec e x s =
     (case tc_create codec (rq_Body x) of
        (req, False) \<Rightarrow> (Some (badRequest ''invalid request body''), s)
      | (req, True) \<Rightarrow>
          (case CreateTransaction R e req s of
             (Inl err, s') \<Rightarrow> (Some (errorResponse 400 (tx_error_text codec err)), s')
           | (Inr tx, s') \<Rightarrow> (Some (jsonResponse 201 (Reply (TransactionResponse tx))), s')))"

definition getTransaction :: "'s TransactionRepository \<Rightarrow> tx_codec \<Rightarrow> string \<Rightarrow> (tx_payload, 's) api" where
  "getTransaction R codec i x s = (Some (tx_outcome codec 500 (GetTransaction R i s)), s)"

definition listTransactions :: "'s TransactionRepository \<Rightarrow> string list \<Rightarrow> (tx_payload, 's) api" where
  "listTransactions R ks x s =
     (let merchantID = query_Get x ''merchant_id'';
          limitStr = query_Get x ''limit'';
          offsetStr = query_Get x ''offset'';
          (parsedLimit, limitErr) = Atoi limitStr;
          (parsedOffset, offsetErr) = Atoi offsetStr
      in if limitStr \<noteq> [] \<and> limitErr \<noteq> None then (Some (badRequest ''invalid limit parameter''), s)
         else if limitStr \<noteq> [] \<and> sint parsedLimit < 0
         then (Some (badRequest ''limit cannot be negative''), s)
         else if offsetStr \<noteq> [] \<and> offsetErr \<noteq> None
         then (Some (badRequest ''invalid offset parameter''), s)
         else if offsetStr \<noteq> [] \<and> sint parsedOffset < 0
         then (Some (badRequest ''offset cannot be negative''), s)
         else
           let limit = (if limitStr \<noteq> [] \<and> 0 < sint parsedLimit then parsedLimit else 20);
               limit = (if limitStr \<noteq> [] \<and> 100 < sint limit then 100 else limit);
               offset = (if offsetStr \<noteq> [] then parsedOffset else 0)
           in (map_option (\<lambda>(txs, total). jsonResponse 200 (Reply (TransactionListResponse txs total)))
                 (ListTransactions R ks merchantID limit offset s), s))"

text \<open>A handler of an action gets the identifier of the path; the errors of \<open>Decode\<close> are ignored.\<close>

definition tx_action ::
  "tx_codec \<Rightarrow> (string \<Rightarrow> 's \<Rightarrow> (tx_error + Transaction) \<times> 's) \<Rightarrow> (tx_payload, 's) api" where
  "tx_action codec operation x s =
     (if rq_Method x \<noteq> ''POST'' then (Some methodNotAllowed, s)
      else let (result, s') = operation (rq_Body x) s in (Some (tx_outcome codec 400 result), s'))"

definition cancelTransaction ::
  "'s TransactionRepository \<Rightarrow> tx_codec \<Rightarrow> env \<Rightarrow> string \<Rightarrow> (tx_payload, 's) api" where
  "cancelTransaction R codec e i =
     tx_action codec (\<lambda>body. CancelTransaction R e i (fst (tc_reason codec body)))"

definition refundTransaction ::
  "'s TransactionRepository \<Rightarrow> tx_codec \<Rightarrow> env \<Rightarrow> string \<Rightarrow> (tx_payload, 's) api" where
  "refundTransaction R codec e i =
     tx_action codec (\<lambda>body. let (amount, reason) = fst (tc_refund codec body)
                       in RefundTransaction R e i amount reason)"

definition authorizeTransaction ::
  "'s TransactionRepository \<Rightarrow> tx_codec \<Rightarrow> env \<Rightarrow> string \<Rightarrow> (tx_payload, 's) api" where
  "authorizeTransaction R codec e i =
     tx_action codec (\<lambda>body. AuthorizeTransaction R e i (fst (tc_provider_ref codec body)))"

definition completeTransaction ::
  "'s TransactionRepository \<Rightarrow> tx_codec \<Rightarrow> env \<Rightarrow> string \<Rightarrow> (tx_payload, 's) api" where
  "completeTransaction R codec e i = tx_action codec (\<lambda>body. CompleteTransaction R e i)"

definition handleTransactions ::
  "'s TransactionRepository \<Rightarrow> tx_codec \<Rightarrow> env \<Rightarrow> string list \<Rightarrow> (tx_payload, 's) api" where
  "handleTransactions R codec e ks x s =
     (if rq_Method x = ''POST'' then createTransaction R codec e x s
      else if rq_Method x = ''GET'' then listTransactions R ks x s
      else (Some methodNotAllowed, s))"

definition tx_path_parts :: "string \<Rightarrow> string list" where
  "tx_path_parts path = split_char CHR ''/'' (trim_prefix ''/transactions/'' path)"

definition handleTransaction ::
  "'s TransactionRepository \<Rightarrow> tx_codec \<Rightarrow> env \<Rightarrow> (tx_payload, 's) api" where
  "handleTransaction R codec e x s =
     (case tx_path_parts (rq_Path x) of
        [] \<Rightarrow> (Some (badRequest ''transaction ID required''), s)
      | i # rest \<Rightarrow>
          if i = [] then (Some (badRequest ''transaction ID required''), s)
          else
            (case rest of
               action # _ \<Rightarrow>
                 if action = ''cancel'' then cancelTransaction R codec e i x s
                 else if action = ''refund'' then refundTransaction R codec e i x s
                 else if action = ''authorize'' then authorizeTransaction R codec e i x s
                 else if action = ''complete'' then completeTransaction R codec e i x s
                 else (Some tx_notFound, s)
             | [] \<Rightarrow>
                 if rq_Method x = ''GET'' then getTransaction R codec i x s else (Some methodNotAllowed, s)))"

text \<open>The routes of the program, and a request with what its operation reads from outside.\<close>

definition tx_routes ::
  "'s TransactionRepository \<Rightarrow> tx_codec \<Rightarrow> env \<Rightarrow> string list \<Rightarrow> (string \<times> (tx_payload, 's) api) list" where
  "tx_routes R codec e ks =
     [(''/health'', health_handler ''{\"status\":\"healthy\",\"service\":\"transaction\"}''),
      (''/transactions'', handleTransactions R codec e ks),
      (''/transactions/'', handleTransaction R codec e)]"

record tx_arrival =
  ta_request :: ApiRequest
  ta_env :: env
  ta_order :: "string list"

definition tx_serve ::
  "'s TransactionRepository \<Rightarrow> tx_codec \<Rightarrow> tx_arrival \<Rightarrow> 's \<Rightarrow> tx_payload ApiResponse option \<times> 's" where
  "tx_serve R codec a s = serve_mux (tx_routes R codec (ta_env a) (ta_order a)) (ta_request a) s"

section \<open>The calls of a request\<close>

text \<open>The call of the service that a request stands for, if it stands for one that may change the state.\<close>

definition tx_action_op :: "tx_codec \<Rightarrow> string \<Rightarrow> string \<Rightarrow> tx_op option" where
  "tx_action_op codec body action =
     (if action = ''cancel'' then Some (OpCancel (fst (tc_reason codec body)))
      else if action = ''refund'' then Some (case fst (tc_refund codec body) of (amount, reason) \<Rightarrow> OpRefund amount reason)
      else if action = ''authorize'' then Some (OpAuthorize (fst (tc_provider_ref codec body)))
      else if action = ''complete'' then Some OpComplete
      else None)"

definition tx_request_op :: "tx_codec \<Rightarrow> ApiRequest \<Rightarrow> (tx_op \<times> string) option" where
  "tx_request_op codec x =
     (if canonical x \<and> has_prefix (rq_Path x) ''/transactions/'' \<and> rq_Method x = ''POST'' then
        (case tx_path_parts (rq_Path x) of
           i # action # _ \<Rightarrow>
             if i = [] then None else map_option (\<lambda>a. (a, i)) (tx_action_op codec (rq_Body x) action)
         | _ \<Rightarrow> None)
      else None)"

definition tx_create_request :: "tx_codec \<Rightarrow> ApiRequest \<Rightarrow> CreateTransactionRequest option" where
  "tx_create_request codec x =
     (if rq_Path x = ''/transactions'' \<and> rq_Method x = ''POST'' then
        (case tc_create codec (rq_Body x) of (req, ok) \<Rightarrow> if ok then Some req else None)
      else None)"

definition tx_calls :: "tx_codec \<Rightarrow> tx_arrival \<Rightarrow> tx_call list" where
  "tx_calls codec a =
     (case tx_create_request codec (ta_request a) of
        Some req \<Rightarrow> [CallCreate (ta_env a) req]
      | None \<Rightarrow>
          (case tx_request_op codec (ta_request a) of
             Some (op, i) \<Rightarrow> [CallOperate (ta_env a) op i]
           | None \<Rightarrow> []))"

lemma tx_routed:
  "serve_mux (tx_routes R codec e ks) x s =
     (if \<not> canonical x then (Some \<lparr>as_Status = 301, as_Body = Redirect\<rparr>, s)
      else if rq_Path x = ''/health''
      then health_handler ''{\"status\":\"healthy\",\"service\":\"transaction\"}'' x s
      else if rq_Path x = ''/transactions'' then handleTransactions R codec e ks x s
      else if has_prefix (rq_Path x) ''/transactions/'' then handleTransaction R codec e x s
      else (Some \<lparr>as_Status = 404, as_Body = Plain ''404 page not found''\<rparr>, s))"
  by (auto simp: serve_mux_def tx_routes_def route_matches_def longest_route_def has_suffix_def has_prefix_def)

lemma clean_transactions [simp]: "clean_path ''/transactions''"
  by (simp add: clean_path_def)

text \<open>An action that is posted is the operation of the service, and its outcome the answer.\<close>

lemma handle_action:
  assumes "tx_request_op codec x = Some (a, i)"
  shows "handleTransaction R codec e x s =
    (let (result, s') = tx_operate R e a i s in (Some (tx_outcome codec 400 result), s'))"
  using assms
  by (auto simp: tx_request_op_def handleTransaction_def tx_action_op_def tx_operate_def tx_action_def
      cancelTransaction_def refundTransaction_def authorizeTransaction_def completeTransaction_def
      split: list.splits if_splits prod.splits)

lemma handle_no_action:
  assumes "tx_request_op codec x = None" "canonical x" "has_prefix (rq_Path x) ''/transactions/''"
  shows "handleTransaction R codec e x s = (fst (handleTransaction R codec e x s), s)"
  using assms
  by (auto simp: tx_request_op_def handleTransaction_def tx_action_op_def tx_action_def
      cancelTransaction_def refundTransaction_def authorizeTransaction_def completeTransaction_def
      getTransaction_def split: list.splits if_splits prod.splits)

lemma serve_action:
  assumes "tx_request_op codec (ta_request a) = Some (oper, i)"
  shows "tx_serve R codec a s =
    (let (result, s') = tx_operate R (ta_env a) oper i s in (Some (tx_outcome codec 400 result), s'))"
proof -
  have "canonical (ta_request a)" "has_prefix (rq_Path (ta_request a)) ''/transactions/''"
    using assms by (auto simp: tx_request_op_def split: if_splits)
  moreover from this(2) have "rq_Path (ta_request a) \<noteq> ''/health''"
    "rq_Path (ta_request a) \<noteq> ''/transactions''"
    by (auto simp: has_prefix_def)
  ultimately show ?thesis
    using handle_action [OF assms] by (simp add: tx_serve_def tx_routed)
qed

lemma listTransactions_reads: "snd (listTransactions R ks x s) = s"
  by (simp add: listTransactions_def Let_def split: prod.split)

lemma serve_no_action:
  assumes "tx_request_op codec (ta_request a) = None"
  shows "snd (tx_serve R codec a s) =
    (case tx_create_request codec (ta_request a) of
       None \<Rightarrow> s
     | Some req \<Rightarrow> snd (CreateTransaction R (ta_env a) req s))"
  using handle_no_action [OF assms, THEN arg_cong [where f = snd], of R "ta_env a" s]
  by (auto simp: tx_serve_def tx_routed tx_create_request_def health_handler_def handleTransactions_def
      createTransaction_def listTransactions_reads has_prefix_def
      split: prod.splits sum.splits bool.splits)

text \<open>The server makes the calls of its requests, and does nothing else to the repository.\<close>

lemma tx_create_no_action: "tx_create_request codec x = Some req \<Longrightarrow> tx_request_op codec x = None"
  by (auto simp: tx_create_request_def tx_request_op_def has_prefix_def split: if_splits)

interpretation transactions: server "tx_serve R codec" "tx_step R" "tx_calls codec"
proof
  fix a s
  show "snd (tx_serve R codec a s) = run (tx_step R) (tx_calls codec a) s"
  proof (cases "tx_request_op codec (ta_request a)")
    case None
    with serve_no_action [OF this] show ?thesis
      by (auto simp: tx_calls_def split: option.split)
  next
    case (Some p)
    moreover obtain oper i where "p = (oper, i)" by (cases p)
    ultimately show ?thesis
      using serve_action [of codec a oper i R s] tx_create_no_action [of codec "ta_request a"]
      by (auto simp: tx_calls_def split: option.split prod.split)
  qed
qed

section \<open>Listings\<close>

definition tx_matching :: "string list \<Rightarrow> string \<Rightarrow> TxInMemory \<Rightarrow> Transaction list" where
  "tx_matching ks merchantID r =
     filter (\<lambda>tx. merchantID = [] \<or> tx_MerchantID tx = merchantID) (map (\<lambda>k. the (tm_transactions r k)) ks)"

lemma ListTransactions_page:
  assumes "0 \<le> sint offset" "0 < sint limit" "sint limit \<le> 100" "int (length ks) + 100 < 2 ^ 63"
  shows "ListTransactions tx_InMemoryRepository ks merchantID limit offset r =
    Some (take (nat (sint limit)) (drop (nat (sint offset)) (tx_matching ks merchantID r)),
      length (tx_matching ks merchantID r))"
proof -
  let ?xs = "tx_matching ks merchantID r"
  have len: "length ?xs \<le> length ks"
    unfolding tx_matching_def by (metis length_filter_le length_map)
  have list: "ListTransactions tx_InMemoryRepository ks merchantID limit offset r = paginate ?xs limit offset"
    using assms(2,3) by (simp add: ListTransactions_def tx_InMemoryRepository_def tm_List_def tx_matching_def)
  show ?thesis
  proof (cases "int (length ?xs) \<le> sint offset")
    case True
    then show ?thesis unfolding list by (simp add: paginate_def nat_le_iff le_nat_iff)
  next
    case False
    with len assms have "sint offset + sint limit < 2 ^ 63" by linarith
    with assms show ?thesis unfolding list by (intro paginate_page) simp_all
  qed
qed

lemma listTransactions_answers:
  assumes "int (length ks) + 100 < 2 ^ 63"
  shows "fst (listTransactions tx_InMemoryRepository ks x r) \<noteq> None"
proof -
  have "ListTransactions tx_InMemoryRepository ks m l f r \<noteq> None"
    if "0 \<le> sint f" "0 < sint l" "sint l \<le> 100" for m l f
    using ListTransactions_page [OF that assms] by simp
  then show ?thesis
    by (auto simp: listTransactions_def Let_def split: prod.split if_splits)
qed

lemma listTransactions_page:
  assumes "query_Get x ''limit'' = decimal l" "query_Get x ''offset'' = decimal f"
    and "0 < l" "l \<le> 100" "f < 2 ^ 63" "int (length ks) + 100 < 2 ^ 63"
  shows "fst (listTransactions tx_InMemoryRepository ks x r) =
    Some (jsonResponse 200 (Reply (TransactionListResponse
      (take l (drop f (tx_matching ks (query_Get x ''merchant_id'') r)))
      (length (tx_matching ks (query_Get x ''merchant_id'') r)))))"
proof -
  have l: "sint (of_nat l :: int64) = int l" and f: "sint (of_nat f :: int64) = int f"
    using assms(4,5) sint64_of_int [of "int l"] sint64_of_int [of "int f"] by simp_all
  have "Atoi (decimal l) = (of_nat l, None)" "Atoi (decimal f) = (of_nat f, None)"
    using assms(4,5) by (simp_all add: Atoi_decimal)
  moreover have "ListTransactions tx_InMemoryRepository ks m (of_nat l) (of_nat f) r =
      Some (take l (drop f (tx_matching ks m r)), length (tx_matching ks m r))" for m
    using ListTransactions_page [of "of_nat f" "of_nat l" ks m r] assms(3-6) by (simp add: l f)
  ultimately show ?thesis
    using assms(1-4) by (simp add: listTransactions_def Let_def decimal_nonempty l f)
qed

section \<open>Failures change nothing\<close>

lemma tm_operate_error: "tx_operate tx_InMemoryRepository e a i r = (Inl err, r') \<Longrightarrow> r' = r"
  by (cases a) (auto simp: tx_operate_def tx_InMemoryRepository_def AuthorizeTransaction_def
      CompleteTransaction_def CancelTransaction_def FailTransaction_def RefundTransaction_def tm_Update_def
      Let_def split: sum.splits option.splits if_splits)

lemma tm_create_error: "CreateTransaction tx_InMemoryRepository e req r = (Inl err, r') \<Longrightarrow> r' = r"
  by (auto simp: CreateTransaction_def tx_InMemoryRepository_def tm_Create_def Let_def
      split: sum.splits option.splits if_splits)

section \<open>Payments of the interface never fail\<close>

text \<open>
  No route leads to \<open>FailTransaction\<close>: the calls of requests are creations and the other four
  operations, and these lead to five of the statuses.
\<close>

definition api_statuses :: "(string \<rightharpoonup> Transaction) \<Rightarrow> bool" where
  "api_statuses m \<longleftrightarrow> (\<forall>i t. m i = Some t \<longrightarrow>
     tx_Status t \<in> {TxPending, TxAuthorized, TxCompleted, TxCancelled, TxRefunded})"

primrec api_call :: "tx_call \<Rightarrow> bool" where
  "api_call (CallCreate e req) \<longleftrightarrow> True"
| "api_call (CallOperate e oper i) \<longleftrightarrow> (\<forall>reason. oper \<noteq> OpFail reason)"

lemma tx_calls_api: "c \<in> set (tx_calls codec a) \<Longrightarrow> api_call c"
  by (auto simp: tx_calls_def tx_request_op_def tx_action_op_def split: option.splits if_splits list.splits prod.splits)

lemma api_statuses_spec:
  assumes "api_statuses m" "\<forall>reason. oper \<noteq> OpFail reason"
  shows "api_statuses (snd (spec_operate e oper i m))"
proof (cases "m i")
  case (Some t)
  have "tx_Status u \<in> {TxPending, TxAuthorized, TxCompleted, TxCancelled, TxRefunded}"
    if "tx_transition e oper t = Inr u" for u
    using that assms(2) assms(1) [unfolded api_statuses_def, rule_format, OF Some]
    by (cases oper) (auto simp: Let_def split: if_splits)
  with assms(1) Some show ?thesis
    by (auto simp: spec_operate_def api_statuses_def tx_stamp_def split: sum.split)
qed (use assms in \<open>simp add: spec_operate_def\<close>)

lemma api_statuses_step:
  assumes "tm_valid r \<and> api_statuses (tm_transactions r)" "tx_call_fresh (tm_transactions r) c \<and> api_call c"
  shows "tm_valid (tx_step tx_InMemoryRepository c r) \<and>
    api_statuses (tm_transactions (tx_step tx_InMemoryRepository c r))"
proof (cases c)
  case (CallCreate e req)
  with assms have "tm_valid r" "tx_fresh e (tm_transactions r)" by simp_all
  from tx_mem.create_outcomes [OF this, of req] CallCreate assms(1) show ?thesis
    by cases (auto simp: api_statuses_def new_transaction_def)
next
  case (CallOperate e oper i)
  with assms tx_mem.operate_refines [of r e oper i] show ?thesis
    by (auto simp: api_statuses_spec)
qed

interpretation unfailed: invariant_machine "tx_step tx_InMemoryRepository"
  "\<lambda>r c. tx_call_fresh (tm_transactions r) c \<and> api_call c"
  "\<lambda>r. tm_valid r \<and> api_statuses (tm_transactions r)"
  by unfold_locales (rule api_statuses_step)

lemma run_ok_conj:
  "run_ok step ok xs s \<Longrightarrow> (\<And>s x. x \<in> set xs \<Longrightarrow> ok s x \<Longrightarrow> ok' s x) \<Longrightarrow> run_ok step ok' xs s"
  by (induction xs arbitrary: s) auto

section \<open>Properties\<close>

text \<open>A client that creates a payment of 100 cents, authorizes and completes it.\<close>

definition example_tx_codec :: tx_codec where
  "example_tx_codec =
     \<lparr>tc_create = (\<lambda>body. (example_payment ''k'' 100, body = ''payment'')),
      tc_reason = (\<lambda>body. ([], False)),
      tc_refund = (\<lambda>body. if body = ''40'' then ((40, []), True) else ((0, []), False)),
      tc_provider_ref = (\<lambda>body. (''ref'', True)), tc_entropy_error = ''entropy''\<rparr>"

definition api_request :: "string \<Rightarrow> string \<Rightarrow> (string \<times> string list) list \<Rightarrow> string \<Rightarrow> ApiRequest" where
  "api_request verb path query body =
     \<lparr>rq_Method = verb, rq_Host = [], rq_Path = path, rq_RawQuery = [], rq_Query = query,
      rq_Header = (\<lambda>_. []), rq_RemoteAddr = [], rq_Body = body\<rparr>"

definition example_arrival :: "string \<Rightarrow> string \<Rightarrow> string \<Rightarrow> byte \<Rightarrow> tx_arrival" where
  "example_arrival verb path body b =
     \<lparr>ta_request = api_request verb path [] body, ta_env = example_env b, ta_order = []\<rparr>"

definition example_arrivals :: "tx_arrival list" where
  "example_arrivals =
     [example_arrival ''POST'' ''/transactions'' ''payment'' 1,
      example_arrival ''POST'' ''/transactions/txn_0100/authorize'' [] 2,
      example_arrival ''POST'' ''/transactions/txn_0100/complete'' [] 3]"

lemmas api_eval = tx_calls_def tx_create_request_def tx_request_op_def tx_action_op_def tx_path_parts_def
  canonical_def clean_path_def trim_prefix_def has_prefix_def

lemmas arrival_eval = example_arrival_def api_request_def example_tx_codec_def

lemma example_arrivals_calls: "concat (map (tx_calls example_tx_codec) example_arrivals) = example_calls"
  by (simp add: example_arrivals_def example_calls_def arrival_eval api_eval)

lemma example_refund_calls:
  "tx_calls example_tx_codec (example_arrival ''POST'' ''/transactions/txn_0100/refund'' body b) =
    [CallOperate (example_env b) (OpRefund (if body = ''40'' then 40 else 0) []) ''txn_0100'']"
  by (simp add: arrival_eval api_eval)

text \<open>
  C22: Safety of the interface, for refunds that are in range.  When the program has answered any requests from its
  start, one after the other, and as long as the drawn identifiers were fresh and no refund that was asked
  for was negative or made the refunded total wrap (the interface does not refuse those:
  \<open>negative_refund_overpays\<close>, \<open>overflowing_refund_accepted\<close>), every stored payment has been refunded
  between nothing and its amount, is marked refunded exactly when all of it is, and is never in the
  status failed.
\<close>

theorem transaction_api_safe:
  assumes "run_ok (tx_step tx_InMemoryRepository)
      (\<lambda>r c. tx_call_fresh (tm_transactions r) c \<and> tx_call_in_range (tm_transactions r) c)
      (concat (map (tx_calls codec) arrivals)) tx_NewInMemoryRepository"
    and "tm_transactions (run (served (tx_serve tx_InMemoryRepository codec)) arrivals
      tx_NewInMemoryRepository) i = Some t"
  shows "0 \<le> sint (tx_RefundedAmount t) \<and> sint (tx_RefundedAmount t) \<le> sint (tx_Amount t) \<and>
    (tx_Status t = TxRefunded \<longleftrightarrow> tx_RefundedAmount t = tx_Amount t) \<and>
    tx_Status t \<in> {TxPending, TxAuthorized, TxCompleted, TxCancelled, TxRefunded}"
proof -
  let ?step = "tx_step tx_InMemoryRepository" and ?start = tx_NewInMemoryRepository
  let ?calls = "concat (map (tx_calls codec) arrivals)"
  have start: "tm_valid ?start \<and> tx_map_money_ok (tm_transactions ?start)"
    "tm_valid ?start \<and> api_statuses (tm_transactions ?start)"
    using tm_valid_new by (simp_all add: tx_map_money_ok_def api_statuses_def tx_NewInMemoryRepository_def)
  have "run_ok ?step (\<lambda>r c. tx_call_fresh (tm_transactions r) c \<and> api_call c) ?calls ?start"
    by (rule run_ok_conj [OF assms(1)]) (auto dest: tx_calls_api)
  from unfailed.run_inv [OF start(2) this] tx_mem.money.run_inv [OF start(1) assms(1)] assms(2)
  show ?thesis
    unfolding transactions.run_served by (auto simp: tx_map_money_ok_def tx_money_ok_def api_statuses_def)
qed

theorem transaction_api_safe_witness:
  "\<exists>t. tm_transactions (run (served (tx_serve tx_InMemoryRepository example_tx_codec))
      (example_arrivals @ [example_arrival ''POST'' ''/transactions/txn_0100/refund'' ''40'' 4])
      tx_NewInMemoryRepository) ''txn_0100'' = Some t \<and>
    tx_RefundedAmount t = 40 \<and> sint (tx_RefundedAmount t) \<le> sint (tx_Amount t)"
proof -
  let ?arrivals = "example_arrivals @ [example_arrival ''POST'' ''/transactions/txn_0100/refund'' ''40'' 4]"
  have calls: "concat (map (tx_calls example_tx_codec) ?arrivals) =
      example_calls @ [CallOperate (example_env 4) (OpRefund 40 []) ''txn_0100'']"
    by (simp add: example_arrivals_calls example_refund_calls)
  have ok: "run_ok (tx_step tx_InMemoryRepository)
      (\<lambda>r c. tx_call_fresh (tm_transactions r) c \<and> tx_call_in_range (tm_transactions r) c)
      (concat (map (tx_calls example_tx_codec) ?arrivals)) tx_NewInMemoryRepository"
    unfolding calls by (simp add: example_eval tx_eval)
  moreover obtain t where "tm_transactions (run (served (tx_serve tx_InMemoryRepository example_tx_codec))
      ?arrivals tx_NewInMemoryRepository) ''txn_0100'' = Some t" "tx_RefundedAmount t = 40"
    unfolding transactions.run_served calls by (simp add: example_eval tx_eval)
  ultimately show ?thesis using transaction_api_safe [OF ok] by blast
qed

text \<open>
  C26: Failures change nothing.  A request that is answered with a status of 400 or more, whatever
  it asked for, leaves the repository as it was.
\<close>

theorem failed_requests_change_nothing:
  assumes "tx_serve tx_InMemoryRepository codec a r = (Some answer, r')" "400 \<le> as_Status answer"
  shows "r' = r"
proof (cases "tx_request_op codec (ta_request a)")
  case (Some p)
  obtain oper i where "p = (oper, i)" by (cases p)
  with serve_action [of codec a oper i tx_InMemoryRepository r] Some assms show ?thesis
    by (auto simp: tx_outcome_def reply_defs dest: tm_operate_error split: prod.splits sum.splits)
next
  case None
  show ?thesis
  proof (cases "tx_create_request codec (ta_request a)")
    case None
    with serve_no_action [OF \<open>tx_request_op codec (ta_request a) = None\<close>, of tx_InMemoryRepository r] assms(1)
    show ?thesis by simp
  next
    case (Some req)
    then have "tx_serve tx_InMemoryRepository codec a r =
        createTransaction tx_InMemoryRepository codec (ta_env a) (ta_request a) r"
      and "tc_create codec (rq_Body (ta_request a)) = (req, True)"
      by (auto simp: tx_create_request_def tx_serve_def tx_routed handleTransactions_def split: if_splits prod.splits)
    with assms show ?thesis
      by (auto simp: createTransaction_def reply_defs dest: tm_create_error split: prod.splits sum.splits)
  qed
qed

theorem failed_requests_change_nothing_witness:
  "snd (tx_serve tx_InMemoryRepository example_tx_codec
     (example_arrival ''POST'' ''/transactions/txn_0100/refund'' ''40'' 4) tx_NewInMemoryRepository) =
   tx_NewInMemoryRepository"
proof -
  let ?served = "tx_serve tx_InMemoryRepository example_tx_codec
      (example_arrival ''POST'' ''/transactions/txn_0100/refund'' ''40'' 4) tx_NewInMemoryRepository"
  have "fst ?served = Some tx_notFound"
    by (subst serve_action [where oper = "OpRefund 40 []" and i = "''txn_0100''"])
      (simp_all add: arrival_eval api_eval tx_eval tx_outcome_def)
  then have "?served = (Some tx_notFound, snd ?served)" by (simp add: prod_eq_iff)
  from failed_requests_change_nothing [OF this] show ?thesis
    by (simp add: tx_notFound_def reply_defs)
qed

text \<open>
  What an action answers.  A posted cancellation, refund, authorization or completion is answered
  404 when the transaction is not stored, 400 when the checks of the operation refuse it, and otherwise
  200 with the transaction as the operation leaves it, which is then what is stored.
\<close>

theorem transaction_action_answers:
  assumes "tm_valid r" "tx_request_op codec (ta_request a) = Some (oper, i)"
  shows "\<exists>r'. tx_serve tx_InMemoryRepository codec a r =
      (Some (case tm_transactions r i of
         None \<Rightarrow> errorResponse 404 ''transaction not found''
       | Some t \<Rightarrow>
           (case tx_transition (ta_env a) oper t of
              Inl err \<Rightarrow> errorResponse 400 (tx_error_text codec err)
            | Inr u \<Rightarrow> jsonResponse 200 (Reply (TransactionResponse (Some (tx_stamp (ta_env a) oper u)))))), r') \<and>
    tm_transactions r' = snd (spec_operate (ta_env a) oper i (tm_transactions r))"
proof -
  have found: "tx_transition (ta_env a) oper t \<noteq> Inl ErrTransactionNotFound" for t
    by (cases oper) (auto simp: Let_def)
  from tx_mem.operate_refines [OF assms(1), of "ta_env a" oper i] found show ?thesis
    by (auto simp: serve_action [OF assms(2)] spec_operate_def tx_outcome_def tx_notFound_def
        split: option.split sum.split)
qed

theorem transaction_action_answers_witness:
  "\<exists>r'. tx_serve tx_InMemoryRepository example_tx_codec
      (example_arrival ''POST'' ''/transactions/txn_0100/complete'' [] 4) tx_NewInMemoryRepository =
    (Some (errorResponse 404 ''transaction not found''), r')"
proof -
  have "tx_request_op example_tx_codec
      (ta_request (example_arrival ''POST'' ''/transactions/txn_0100/complete'' [] 4)) =
    Some (OpComplete, ''txn_0100'')"
    by (simp add: arrival_eval api_eval)
  from transaction_action_answers [OF tm_valid_new this] show ?thesis
    by (auto simp: tx_NewInMemoryRepository_def)
qed

text \<open>
  Every request is answered.  Whatever the method, the path, the query and the body, and as long as
  the map is not astronomically large, no handler panics: negative, malformed and overflowing limits
  and offsets of a listing are refused before the slice expression.
\<close>

theorem transaction_requests_answered:
  assumes "int (length (ta_order a)) + 100 < 2 ^ 63"
  shows "\<exists>answer r'. tx_serve tx_InMemoryRepository codec a r = (Some answer, r')"
proof (cases "tx_request_op codec (ta_request a)")
  case (Some p)
  obtain oper i where "p = (oper, i)" by (cases p)
  with Some serve_action [of codec a oper i tx_InMemoryRepository r] show ?thesis
    by (simp split: prod.split)
next
  case None
  let ?x = "ta_request a" and ?e = "ta_env a"
  have "fst (handleTransaction tx_InMemoryRepository codec ?e ?x r) \<noteq> None"
    by (auto simp: handleTransaction_def tx_action_def cancelTransaction_def refundTransaction_def
        authorizeTransaction_def completeTransaction_def getTransaction_def split: list.split prod.split)
  moreover have "fst (handleTransactions tx_InMemoryRepository codec ?e (ta_order a) ?x r) \<noteq> None"
    using listTransactions_answers [OF assms] by (simp add: handleTransactions_def createTransaction_def
        split: prod.split sum.split bool.split)
  ultimately have "fst (tx_serve tx_InMemoryRepository codec a r) \<noteq> None"
    by (simp add: tx_serve_def tx_routed health_handler_def)
  then show ?thesis by (cases "tx_serve tx_InMemoryRepository codec a r") auto
qed

theorem transaction_requests_answered_witness:
  "\<exists>answer r'. tx_serve tx_InMemoryRepository example_tx_codec
     \<lparr>ta_request = api_request ''GET'' ''/transactions'' [(''offset'', [''-1''])] [],
      ta_env = example_env 1, ta_order = [''txn_0100'']\<rparr> tx_NewInMemoryRepository = (Some answer, r')"
  by (rule transaction_requests_answered) simp

text \<open>
  Pages.  Listing with a limit of 1 to 100 and the offsets 0, limit, 2 * limit and so on answers, as long
  as the map is visited in one order, pages that together are exactly the stored transactions of
  the merchant, each once, and each answer carries their number.
\<close>

theorem transaction_pages_cover:
  assumes "0 < l" "l \<le> 100" "m * l < 2 ^ 63" "int (length ks) + 100 < 2 ^ 63"
    and "\<And>k. rq_Path (x k) = ''/transactions'' \<and> rq_Method (x k) = ''GET'' \<and>
      query_Get (x k) ''limit'' = decimal l \<and> query_Get (x k) ''offset'' = decimal (k * l) \<and>
      query_Get (x k) ''merchant_id'' = merchant"
    and "length (tx_matching ks merchant r) \<le> m * l"
  shows "\<exists>page. (\<forall>k < m. fst (tx_serve tx_InMemoryRepository codec
          \<lparr>ta_request = x k, ta_env = e, ta_order = ks\<rparr> r) =
        Some (jsonResponse 200 (Reply (TransactionListResponse (page k) (length (tx_matching ks merchant r)))))) \<and>
    concat (map page [0..<m]) = tx_matching ks merchant r"
proof (intro exI conjI allI impI)
  let ?page = "\<lambda>k. take l (drop (k * l) (tx_matching ks merchant r))"
  show "concat (map ?page [0..<m]) = tx_matching ks merchant r"
    using assms(6) by (simp add: pages_tile)
  fix k assume "k < m"
  then have "k * l < m * l" using assms(1) by simp
  then have "k * l < 2 ^ 63" using assms(3) by linarith
  have "tx_serve tx_InMemoryRepository codec \<lparr>ta_request = x k, ta_env = e, ta_order = ks\<rparr> r =
      listTransactions tx_InMemoryRepository ks (x k) r"
    using assms(5) [of k] by (simp add: tx_serve_def tx_routed handleTransactions_def)
  with listTransactions_page [of "x k" l "k * l" ks r] assms(1,2,4) assms(5) [of k] \<open>k * l < 2 ^ 63\<close>
  show "fst (tx_serve tx_InMemoryRepository codec \<lparr>ta_request = x k, ta_env = e, ta_order = ks\<rparr> r) =
      Some (jsonResponse 200 (Reply (TransactionListResponse (?page k) (length (tx_matching ks merchant r)))))"
    by simp
qed

theorem transaction_pages_cover_witness:
  "\<exists>page. concat (map page [0..<2]) = tx_matching [''a'', ''b'', ''c''] ''m''
     \<lparr>tm_transactions = (\<lambda>i. Some (new_transaction i (example_payment [] 5))), tm_idempotencyKeys = Map.empty\<rparr> \<and>
   fst (tx_serve tx_InMemoryRepository example_tx_codec
     \<lparr>ta_request = api_request ''GET'' ''/transactions''
        [(''limit'', [decimal 2]), (''offset'', [decimal (1 * 2)]), (''merchant_id'', [''m''])] [],
      ta_env = example_env 1, ta_order = [''a'', ''b'', ''c'']\<rparr>
     \<lparr>tm_transactions = (\<lambda>i. Some (new_transaction i (example_payment [] 5))), tm_idempotencyKeys = Map.empty\<rparr>) =
   Some (jsonResponse 200 (Reply (TransactionListResponse (page 1) 3)))"
proof -
  let ?r = "\<lparr>tm_transactions = (\<lambda>i. Some (new_transaction i (example_payment [] 5))),
    tm_idempotencyKeys = Map.empty\<rparr>"
  let ?x = "\<lambda>k. api_request ''GET'' ''/transactions''
    [(''limit'', [decimal 2]), (''offset'', [decimal (k * 2)]), (''merchant_id'', [''m''])] []"
  have len: "length (tx_matching [''a'', ''b'', ''c''] ''m'' ?r) = 3"
    by (simp add: tx_matching_def new_transaction_def example_payment_def)
  have x: "rq_Path (?x k) = ''/transactions'' \<and> rq_Method (?x k) = ''GET'' \<and>
      query_Get (?x k) ''limit'' = decimal 2 \<and> query_Get (?x k) ''offset'' = decimal (k * 2) \<and>
      query_Get (?x k) ''merchant_id'' = ''m''" for k
    by (simp add: api_request_def query_Get_def)
  have "length (tx_matching [''a'', ''b'', ''c''] ''m'' ?r) \<le> 2 * 2" by (simp add: len)
  from transaction_pages_cover [OF _ _ _ _ x this, of example_tx_codec "example_env 1"] obtain page where
    "\<forall>k < 2. fst (tx_serve tx_InMemoryRepository example_tx_codec
        \<lparr>ta_request = ?x k, ta_env = example_env 1, ta_order = [''a'', ''b'', ''c'']\<rparr> ?r) =
      Some (jsonResponse 200 (Reply (TransactionListResponse (page k) 3)))"
    "concat (map page [0..<2]) = tx_matching [''a'', ''b'', ''c''] ''m'' ?r"
    unfolding len by fastforce
  from this(1) [rule_format, of 1] this(2) show ?thesis by (intro exI [of _ page] conjI) simp_all
qed

text \<open>
  The order of a map's iteration is not fixed between requests: for two stored transactions and pages
  of one, there are orders in which both pages are the same transaction and the other one is on none.
\<close>

theorem pages_may_repeat:
  assumes "\<exists>t u. r = \<lparr>tm_transactions = [''a'' \<mapsto> t, ''b'' \<mapsto> u], tm_idempotencyKeys = Map.empty\<rparr>"
  shows "\<exists>ks ks' t. iteration_of ks (tm_transactions r) \<and> iteration_of ks' (tm_transactions r) \<and>
    take 1 (drop 0 (tx_matching ks [] r)) = [t] \<and> take 1 (drop 1 (tx_matching ks' [] r)) = [t]"
proof -
  obtain t u where r: "r = \<lparr>tm_transactions = [''a'' \<mapsto> t, ''b'' \<mapsto> u], tm_idempotencyKeys = Map.empty\<rparr>"
    using assms by blast
  show ?thesis
    by (rule exI [of _ "[''a'', ''b'']"], rule exI [of _ "[''b'', ''a'']"], rule exI [of _ t])
      (auto simp: r iteration_of_def tx_matching_def)
qed

text \<open>
  The handler of refunds ignores the error of the decoder, and an amount of zero means all of the payment: a
  body that cannot be decoded refunds the whole payment.
\<close>

theorem malformed_refund_refunds_all:
  assumes "tc_refund codec body = ((0, []), False)"
  shows "\<exists>t r'. tx_serve tx_InMemoryRepository codec
      (example_arrival ''POST'' ''/transactions/txn_0100/refund'' body 4)
      (run (tx_step tx_InMemoryRepository) example_calls tx_NewInMemoryRepository) =
    (Some (jsonResponse 200 (Reply (TransactionResponse (Some t)))), r') \<and>
    tx_Status t = TxRefunded \<and> tx_RefundedAmount t = tx_Amount t"
proof -
  have "tx_request_op codec (ta_request (example_arrival ''POST'' ''/transactions/txn_0100/refund'' body 4)) =
      Some (OpRefund 0 [], ''txn_0100'')"
    using assms by (simp add: example_arrival_def api_request_def api_eval)
  moreover obtain t r' where "tx_operate tx_InMemoryRepository (example_env 4) (OpRefund 0 []) ''txn_0100''
      (run (tx_step tx_InMemoryRepository) example_calls tx_NewInMemoryRepository) = (Inr t, r')"
    "tx_Status t = TxRefunded" "tx_RefundedAmount t = tx_Amount t"
    by (simp add: example_eval tx_eval)
  moreover have "ta_env (example_arrival verb path body b) = example_env b" for verb path b
    by (simp add: example_arrival_def)
  ultimately show ?thesis by (intro exI [of _ t] exI [of _ r']) (simp add: serve_action tx_outcome_def)
qed

end
