(* ===== verification/Account.thy ===== *)
theory Account
  imports Identifiers
begin

text \<open>
  The account service: the records of \<open>models/account.go\<close>, the interface \<open>AccountRepository\<close> and its
  in-memory implementation (\<open>repositories/repository.go\<close>), and the operations of
  \<open>services/account_service.go\<close>.

  As in the transaction service, the interface is a record of functions over an abstract state
  with its laws in a locale (\<open>account_store\<close>), and for operations that run one after the other the
  writes through the fetched pointer are the write of \<open>Update\<close>.  The repository functions take
  the account by value: what they do when the caller passes the stored pointer itself (then the
  stored account already has the caller's writes, and \<open>Update\<close> sees no change of email) is the same
  for the service, which never changes an email.
\<close>

section \<open>Models\<close>

datatype AccountStatus =
  AcActive | AcPending | AcFrozen | AcSuspended | AcClosed | AcStatusOther string

datatype KYCStatus =
  KYCNotStarted | KYCPending | KYCVerified | KYCRejected | KYCExpired | KYCOther string

datatype AccountType = AccountTypePersonal | AccountTypeBusiness | AccountTypeMerchant | AccountTypeOther string

record Address =
  ad_Line1 :: string
  ad_Line2 :: string
  ad_City :: string
  ad_State :: string
  ad_PostalCode :: string
  ad_Country :: string

record Profile =
  pf_FirstName :: string
  pf_LastName :: string
  pf_Phone :: string
  pf_Address :: "Address option"
  pf_DateOfBirth :: string
  pf_BusinessName :: string
  pf_TaxID :: string

record PaymentInstrument =
  pi_ID :: string
  pi_Type :: string
  pi_Last4 :: string
  pi_Brand :: string
  pi_ExpMonth :: int64
  pi_ExpYear :: int64
  pi_IsDefault :: bool
  pi_CreatedAt :: time

record Account =
  ac_ID :: string
  ac_Email :: string
  ac_Type :: AccountType
  ac_Status :: AccountStatus
  ac_KYCStatus :: KYCStatus
  ac_Profile :: "Profile option"
  ac_PaymentInstruments :: "PaymentInstrument list"
  ac_Balance :: int64
  ac_Currency :: string
  ac_Metadata :: metadata
  ac_CreatedAt :: time
  ac_UpdatedAt :: time
  ac_VerifiedAt :: "time option"

record CreateAccountRequest =
  car_Email :: string
  car_Type :: AccountType
  car_Currency :: string
  car_Profile :: "Profile option"
  car_Metadata :: metadata

record UpdateAccountRequest =
  uar_Profile :: "Profile option"
  uar_Metadata :: metadata

record AddPaymentInstrumentRequest =
  apr_Type :: string
  apr_Token :: string
  apr_IsDefault :: bool

text \<open>
  The errors of the repository and of the service.  Both packages declare an
  \<open>ErrInsufficientBalance\<close>; they are different values.
\<close>

datatype account_error =
  AcErrAccountNotFound | ErrEmailAlreadyExists | ErrInstrumentNotFound | ErrConcurrentUpdate
| RepoErrInsufficientBalance
| ErrInvalidEmail | AcErrInvalidType | AcErrInvalidCurrency | ErrAccountFrozen | ErrAccountClosed
| ErrInsufficientBalance | ErrKYCRequired | AcErrInvalidAmount | ErrInvalidPagination | AcErrEntropy

section \<open>The repository\<close>

text \<open>
  The methods of \<open>AccountRepository\<close>.  Methods that stamp the account read the clock and return the
  stamped account; \<open>GetByEmail\<close> may return a nil account without an error.
\<close>

record 's AccountRepository =
  ar_Create :: "time \<Rightarrow> Account \<Rightarrow> 's \<Rightarrow> (account_error + Account) \<times> 's"
  ar_GetByID :: "string \<Rightarrow> 's \<Rightarrow> account_error + Account"
  ar_GetByEmail :: "string \<Rightarrow> 's \<Rightarrow> account_error + Account option"
  ar_Update :: "time \<Rightarrow> Account \<Rightarrow> 's \<Rightarrow> (account_error + Account) \<times> 's"
  ar_UpdateWithVersion :: "time \<Rightarrow> Account \<Rightarrow> int64 \<Rightarrow> 's \<Rightarrow> (account_error + Account) \<times> 's"
  ar_UpdateBalanceAtomic :: "time \<Rightarrow> string \<Rightarrow> int64 \<Rightarrow> 's \<Rightarrow> account_error option \<times> 's"
  ar_Delete :: "string \<Rightarrow> 's \<Rightarrow> account_error option \<times> 's"
  ar_List :: "string list \<Rightarrow> AccountType \<Rightarrow> int64 \<Rightarrow> int64 \<Rightarrow> 's \<Rightarrow> (Account list \<times> nat) option"

record AccountInMemory =
  am_accounts :: "string \<rightharpoonup> Account"
  am_emailIndex :: "string \<rightharpoonup> string"
  am_versions :: "string \<rightharpoonup> int64"

definition ac_NewInMemoryRepository :: AccountInMemory where
  "ac_NewInMemoryRepository =
     \<lparr>am_accounts = Map.empty, am_emailIndex = Map.empty, am_versions = Map.empty\<rparr>"

text \<open>\<open>versions[id]\<close> is 0 when there is none; \<open>versions[id]++\<close> counts from there.\<close>

definition version_of :: "(string \<rightharpoonup> int64) \<Rightarrow> string \<Rightarrow> int64" where
  "version_of vs i = (case vs i of None \<Rightarrow> 0 | Some v \<Rightarrow> v)"

definition bump_version :: "string \<Rightarrow> (string \<rightharpoonup> int64) \<Rightarrow> (string \<rightharpoonup> int64)" where
  "bump_version i vs = vs(i \<mapsto> version_of vs i + 1)"

definition am_Create :: "time \<Rightarrow> Account \<Rightarrow> AccountInMemory \<Rightarrow> (account_error + Account) \<times> AccountInMemory" where
  "am_Create now account r =
     (if am_emailIndex r (ac_Email account) \<noteq> None then (Inl ErrEmailAlreadyExists, r)
      else
        let account' = account\<lparr>ac_CreatedAt := now, ac_UpdatedAt := now\<rparr>
        in (Inr account',
            r\<lparr>am_accounts := (am_accounts r)(ac_ID account' \<mapsto> account'),
              am_emailIndex := (am_emailIndex r)(ac_Email account' \<mapsto> ac_ID account'),
              am_versions := (am_versions r)(ac_ID account' \<mapsto> 1)\<rparr>))"

definition am_GetByID :: "string \<Rightarrow> AccountInMemory \<Rightarrow> account_error + Account" where
  "am_GetByID i r =
     (case am_accounts r i of None \<Rightarrow> Inl AcErrAccountNotFound | Some account \<Rightarrow> Inr account)"

definition am_GetByEmail :: "string \<Rightarrow> AccountInMemory \<Rightarrow> account_error + Account option" where
  "am_GetByEmail email r =
     (case am_emailIndex r email of
        None \<Rightarrow> Inl AcErrAccountNotFound | Some i \<Rightarrow> Inr (am_accounts r i))"

definition am_Update :: "time \<Rightarrow> Account \<Rightarrow> AccountInMemory \<Rightarrow> (account_error + Account) \<times> AccountInMemory" where
  "am_Update now account r =
     (case am_accounts r (ac_ID account) of
        None \<Rightarrow> (Inl AcErrAccountNotFound, r)
      | Some existing \<Rightarrow>
          let index = (if ac_Email existing \<noteq> ac_Email account
                then ((am_emailIndex r)(ac_Email existing := None))(ac_Email account \<mapsto> ac_ID account)
                else am_emailIndex r);
              account' = account\<lparr>ac_UpdatedAt := now\<rparr>
          in (Inr account',
              r\<lparr>am_accounts := (am_accounts r)(ac_ID account' \<mapsto> account'), am_emailIndex := index,
                am_versions := bump_version (ac_ID account') (am_versions r)\<rparr>))"

definition am_UpdateWithVersion ::
  "time \<Rightarrow> Account \<Rightarrow> int64 \<Rightarrow> AccountInMemory \<Rightarrow> (account_error + Account) \<times> AccountInMemory" where
  "am_UpdateWithVersion now account expectedVersion r =
     (if am_accounts r (ac_ID account) = None then (Inl AcErrAccountNotFound, r)
      else if version_of (am_versions r) (ac_ID account) \<noteq> expectedVersion
      then (Inl ErrConcurrentUpdate, r)
      else
        let account' = account\<lparr>ac_UpdatedAt := now\<rparr>
        in (Inr account',
            r\<lparr>am_accounts := (am_accounts r)(ac_ID account' \<mapsto> account'),
              am_versions := bump_version (ac_ID account') (am_versions r)\<rparr>))"

definition am_Delete :: "string \<Rightarrow> AccountInMemory \<Rightarrow> account_error option \<times> AccountInMemory" where
  "am_Delete i r =
     (case am_accounts r i of
        None \<Rightarrow> (Some AcErrAccountNotFound, r)
      | Some account \<Rightarrow>
          (None, r\<lparr>am_emailIndex := (am_emailIndex r)(ac_Email account := None),
                   am_accounts := (am_accounts r)(i := None),
                   am_versions := (am_versions r)(i := None)\<rparr>))"

definition am_List ::
  "string list \<Rightarrow> AccountType \<Rightarrow> int64 \<Rightarrow> int64 \<Rightarrow> AccountInMemory \<Rightarrow> (Account list \<times> nat) option" where
  "am_List ks accountType limit offset r =
     paginate (filter (\<lambda>account. accountType = AccountTypeOther [] \<or> ac_Type account = accountType)
                 (map (\<lambda>k. the (am_accounts r k)) ks)) limit offset"

definition am_UpdateBalanceAtomic ::
  "time \<Rightarrow> string \<Rightarrow> int64 \<Rightarrow> AccountInMemory \<Rightarrow> account_error option \<times> AccountInMemory" where
  "am_UpdateBalanceAtomic now i delta r =
     (case am_accounts r i of
        None \<Rightarrow> (Some AcErrAccountNotFound, r)
      | Some account \<Rightarrow>
          let newBalance = ac_Balance account + delta
          in if sint newBalance < 0 then (Some RepoErrInsufficientBalance, r)
             else (None, r\<lparr>am_accounts := (am_accounts r)
                       (i \<mapsto> account\<lparr>ac_Balance := newBalance, ac_UpdatedAt := now\<rparr>),
                     am_versions := bump_version i (am_versions r)\<rparr>))"

definition am_GetVersion :: "string \<Rightarrow> AccountInMemory \<Rightarrow> account_error + int64" where
  "am_GetVersion i r =
     (case am_versions r i of None \<Rightarrow> Inl AcErrAccountNotFound | Some version \<Rightarrow> Inr version)"

definition ac_InMemoryRepository :: "AccountInMemory AccountRepository" where
  "ac_InMemoryRepository =
     \<lparr>ar_Create = am_Create, ar_GetByID = am_GetByID, ar_GetByEmail = am_GetByEmail,
      ar_Update = am_Update, ar_UpdateWithVersion = am_UpdateWithVersion,
      ar_UpdateBalanceAtomic = am_UpdateBalanceAtomic, ar_Delete = am_Delete, ar_List = am_List\<rparr>"

section \<open>Email addresses\<close>

text \<open>
  The expression \<open>emailRegex\<close>: a local part, an at sign, a domain, a dot and two or more letters,
  anchored at both ends.  \<open>matches_emailRegex\<close> decides it by cutting at the first at sign and at the
  last dot; the lemma below says that it accepts exactly the strings the expression describes.
\<close>

definition letter :: "char \<Rightarrow> bool" where
  "letter c \<longleftrightarrow> c \<in> set ''abcdefghijklmnopqrstuvwxyzABCDEFGHIJKLMNOPQRSTUVWXYZ''"

definition domain_char :: "char \<Rightarrow> bool" where
  "domain_char c \<longleftrightarrow> letter c \<or> c \<in> set ''0123456789.-''"

definition local_char :: "char \<Rightarrow> bool" where
  "local_char c \<longleftrightarrow> letter c \<or> c \<in> set ''0123456789._%+-''"

definition matches_domain :: "string \<Rightarrow> bool" where
  "matches_domain dm =
     (case dropWhile (\<lambda>c. c \<noteq> CHR ''.'') (rev dm) of
        [] \<Rightarrow> False
      | _ # front \<Rightarrow>
          let tld = takeWhile (\<lambda>c. c \<noteq> CHR ''.'') (rev dm)
          in 2 \<le> length tld \<and> list_all letter tld \<and> front \<noteq> [] \<and> list_all domain_char front)"

definition matches_emailRegex :: "string \<Rightarrow> bool" where
  "matches_emailRegex s =
     (case dropWhile (\<lambda>c. c \<noteq> CHR ''@'') s of
        [] \<Rightarrow> False
      | _ # dm \<Rightarrow>
          let name = takeWhile (\<lambda>c. c \<noteq> CHR ''@'') s
          in name \<noteq> [] \<and> list_all local_char name \<and> matches_domain dm)"

lemma split_at_char:
  assumes "c \<notin> set xs"
  shows "takeWhile (\<lambda>x. x \<noteq> c) (xs @ c # ys) = xs" "dropWhile (\<lambda>x. x \<noteq> c) (xs @ c # ys) = c # ys"
  using assms by (induction xs) auto

lemma dropWhile_neq_Cons:
  assumes "dropWhile (\<lambda>x. x \<noteq> c) xs = y # ys"
  shows "xs = takeWhile (\<lambda>x. x \<noteq> c) xs @ c # ys" "c \<notin> set (takeWhile (\<lambda>x. x \<noteq> c) xs)"
  using assms by (induction xs) (auto split: if_splits)

lemma separators [simp]: "\<not> letter CHR ''.''" "\<not> local_char CHR ''@''"
  by (simp_all add: letter_def local_char_def)

lemma matches_domain_iff:
  "matches_domain dm \<longleftrightarrow> (\<exists>front tld. dm = front @ ''.'' @ tld \<and> front \<noteq> [] \<and>
     list_all domain_char front \<and> 2 \<le> length tld \<and> list_all letter tld)" (is "_ \<longleftrightarrow> ?spec")
proof
  assume m: "matches_domain dm"
  then obtain y ys where d: "dropWhile (\<lambda>c. c \<noteq> CHR ''.'') (rev dm) = y # ys"
    by (auto simp: matches_domain_def split: list.splits)
  let ?tld = "takeWhile (\<lambda>c. c \<noteq> CHR ''.'') (rev dm)"
  from dropWhile_neq_Cons(1) [OF d] have "dm = rev (?tld @ CHR ''.'' # ys)"
    using rev_rev_ident by metis
  then have "dm = rev ys @ ''.'' @ rev ?tld" by simp
  moreover have "2 \<le> length ?tld" "list_all letter ?tld" "ys \<noteq> []" "list_all domain_char ys"
    using m d by (simp_all add: matches_domain_def Let_def)
  ultimately show ?spec by (intro exI [of _ "rev ys"] exI [of _ "rev ?tld"]) simp
next
  assume ?spec
  then obtain front tld where dm: "dm = front @ ''.'' @ tld" and ok: "front \<noteq> []"
    "list_all domain_char front" "2 \<le> length tld" "list_all letter tld" by blast
  have "CHR ''.'' \<notin> set (rev tld)"
    using ok(4) by (auto simp: list_all_iff)
  from split_at_char [OF this, of "rev front"] ok show "matches_domain dm"
    by (simp add: matches_domain_def dm Let_def)
qed

lemma matches_emailRegex_iff:
  "matches_emailRegex s \<longleftrightarrow> (\<exists>name front tld. s = name @ ''@'' @ front @ ''.'' @ tld \<and>
     name \<noteq> [] \<and> list_all local_char name \<and> front \<noteq> [] \<and> list_all domain_char front \<and>
     2 \<le> length tld \<and> list_all letter tld)" (is "_ \<longleftrightarrow> ?spec")
proof
  assume m: "matches_emailRegex s"
  then obtain y ys where d: "dropWhile (\<lambda>c. c \<noteq> CHR ''@'') s = y # ys"
    by (auto simp: matches_emailRegex_def split: list.splits)
  let ?name = "takeWhile (\<lambda>c. c \<noteq> CHR ''@'') s"
  have "?name \<noteq> []" "list_all local_char ?name" "matches_domain ys"
    using m d by (simp_all add: matches_emailRegex_def Let_def)
  moreover have "s = ?name @ ''@'' @ ys"
    using dropWhile_neq_Cons(1) [OF d] by simp
  ultimately show ?spec unfolding matches_domain_iff by blast
next
  assume ?spec
  then obtain name front tld where s: "s = name @ CHR ''@'' # front @ ''.'' @ tld"
    and ok: "name \<noteq> []" "list_all local_char name" and rest: "front \<noteq> []"
      "list_all domain_char front" "2 \<le> length tld" "list_all letter tld"
    by (metis append_Cons append_Nil)
  have dm: "matches_domain (front @ ''.'' @ tld)"
    unfolding matches_domain_iff using rest by blast
  have "CHR ''@'' \<notin> set name"
    using ok(2) by (auto simp: list_all_iff)
  from split_at_char [OF this] ok dm show "matches_emailRegex s"
    by (simp add: matches_emailRegex_def s Let_def)
qed

section \<open>The service\<close>

definition ac_SupportedCurrencies :: "string list" where
  "ac_SupportedCurrencies = [''USD'', ''EUR'', ''GBP'', ''IQD'', ''AED'']"

definition ac_validateCreateRequest :: "CreateAccountRequest \<Rightarrow> account_error option" where
  "ac_validateCreateRequest req =
     (if \<not> matches_emailRegex (car_Email req) then Some ErrInvalidEmail
      else if car_Type req \<notin> {AccountTypePersonal, AccountTypeBusiness, AccountTypeMerchant}
      then Some AcErrInvalidType
      else if car_Currency req \<notin> set ac_SupportedCurrencies then Some AcErrInvalidCurrency
      else None)"

definition checkAccountActive :: "Account \<Rightarrow> account_error option" where
  "checkAccountActive account =
     (case ac_Status account of
        AcFrozen \<Rightarrow> Some ErrAccountFrozen | AcClosed \<Rightarrow> Some ErrAccountClosed | _ \<Rightarrow> None)"

definition new_account :: "string \<Rightarrow> CreateAccountRequest \<Rightarrow> Account" where
  "new_account accountID req =
     \<lparr>ac_ID = accountID, ac_Email = car_Email req, ac_Type = car_Type req, ac_Status = AcPending,
      ac_KYCStatus = KYCNotStarted, ac_Profile = car_Profile req, ac_PaymentInstruments = [],
      ac_Balance = 0, ac_Currency = car_Currency req, ac_Metadata = car_Metadata req,
      ac_CreatedAt = zero_time, ac_UpdatedAt = zero_time, ac_VerifiedAt = None\<rparr>"

definition ac_CreateAccount ::
  "'s AccountRepository \<Rightarrow> env \<Rightarrow> CreateAccountRequest \<Rightarrow> 's \<Rightarrow> (account_error + Account) \<times> 's" where
  "ac_CreateAccount R e req s =
     (case ac_validateCreateRequest req of
        Some err \<Rightarrow> (Inl err, s)
      | None \<Rightarrow>
        (case ar_GetByEmail R (car_Email req) s of
           Inr _ \<Rightarrow> (Inl ErrEmailAlreadyExists, s)
         | Inl _ \<Rightarrow>
           (case generateID ''acc'' (entropy e 0) of
              None \<Rightarrow> (Inl AcErrEntropy, s)
            | Some accountID \<Rightarrow> ar_Create R (clock e 0) (new_account accountID req) s)))"

definition ac_GetAccount :: "'s AccountRepository \<Rightarrow> string \<Rightarrow> 's \<Rightarrow> account_error + Account" where
  "ac_GetAccount R i s = ar_GetByID R i s"

definition GetAccountByEmail :: "'s AccountRepository \<Rightarrow> string \<Rightarrow> 's \<Rightarrow> account_error + Account option" where
  "GetAccountByEmail R email s = ar_GetByEmail R email s"

definition merge_metadata :: "metadata \<Rightarrow> metadata \<Rightarrow> metadata" where
  "merge_metadata old new =
     (case new of None \<Rightarrow> old | Some kvs \<Rightarrow> Some ((case old of None \<Rightarrow> Map.empty | Some m \<Rightarrow> m) ++ kvs))"

definition UpdateAccount ::
  "'s AccountRepository \<Rightarrow> env \<Rightarrow> string \<Rightarrow> UpdateAccountRequest \<Rightarrow> 's \<Rightarrow> (account_error + Account) \<times> 's" where
  "UpdateAccount R e i req s =
     (case ar_GetByID R i s of
        Inl err \<Rightarrow> (Inl err, s)
      | Inr account \<Rightarrow>
        (case checkAccountActive account of
           Some err \<Rightarrow> (Inl err, s)
         | None \<Rightarrow>
             let account = (if uar_Profile req \<noteq> None then account\<lparr>ac_Profile := uar_Profile req\<rparr>
                            else account);
                 account = account\<lparr>ac_Metadata := merge_metadata (ac_Metadata account) (uar_Metadata req)\<rparr>
             in ar_Update R (clock e 0) account s))"

definition ActivateAccount ::
  "'s AccountRepository \<Rightarrow> env \<Rightarrow> string \<Rightarrow> 's \<Rightarrow> (account_error + Account) \<times> 's" where
  "ActivateAccount R e i s =
     (case ar_GetByID R i s of
        Inl err \<Rightarrow> (Inl err, s)
      | Inr account \<Rightarrow>
          if ac_Status account = AcClosed then (Inl ErrAccountClosed, s)
          else ar_Update R (clock e 0) (account\<lparr>ac_Status := AcActive\<rparr>) s)"

definition FreezeAccount ::
  "'s AccountRepository \<Rightarrow> env \<Rightarrow> string \<Rightarrow> string \<Rightarrow> 's \<Rightarrow> (account_error + Account) \<times> 's" where
  "FreezeAccount R e i reason s =
     (case ar_GetByID R i s of
        Inl err \<Rightarrow> (Inl err, s)
      | Inr account \<Rightarrow>
          let m = (case ac_Metadata account of None \<Rightarrow> Map.empty | Some m \<Rightarrow> m)
          in ar_Update R (clock e 0)
               (account\<lparr>ac_Status := AcFrozen, ac_Metadata := Some (m(''freeze_reason'' \<mapsto> reason))\<rparr>) s)"

definition UnfreezeAccount ::
  "'s AccountRepository \<Rightarrow> env \<Rightarrow> string \<Rightarrow> 's \<Rightarrow> (account_error + Account) \<times> 's" where
  "UnfreezeAccount R e i s =
     (case ar_GetByID R i s of
        Inl err \<Rightarrow> (Inl err, s)
      | Inr account \<Rightarrow>
          if ac_Status account \<noteq> AcFrozen then (Inr account, s)
          else ar_Update R (clock e 0)
                 (account\<lparr>ac_Status := AcActive,
                    ac_Metadata := map_option (\<lambda>m. m(''freeze_reason'' := None)) (ac_Metadata account)\<rparr>) s)"

definition CloseAccount ::
  "'s AccountRepository \<Rightarrow> env \<Rightarrow> string \<Rightarrow> 's \<Rightarrow> (account_error + Account) \<times> 's" where
  "CloseAccount R e i s =
     (case ar_GetByID R i s of
        Inl err \<Rightarrow> (Inl err, s)
      | Inr account \<Rightarrow> ar_Update R (clock e 0) (account\<lparr>ac_Status := AcClosed\<rparr>) s)"

definition UpdateKYCStatus ::
  "'s AccountRepository \<Rightarrow> env \<Rightarrow> string \<Rightarrow> KYCStatus \<Rightarrow> 's \<Rightarrow> (account_error + Account) \<times> 's" where
  "UpdateKYCStatus R e i status s =
     (case ar_GetByID R i s of
        Inl err \<Rightarrow> (Inl err, s)
      | Inr account \<Rightarrow>
          let account = account\<lparr>ac_KYCStatus := status\<rparr>
          in if status = KYCVerified
             then ar_Update R (clock e 1) (account\<lparr>ac_VerifiedAt := Some (clock e 0)\<rparr>) s
             else ar_Update R (clock e 0) account s)"

definition new_instrument :: "env \<Rightarrow> AddPaymentInstrumentRequest \<Rightarrow> PaymentInstrument" where
  "new_instrument e req =
     \<lparr>pi_ID = id_or_empty (generateID ''pi'' (entropy e 0)), pi_Type = apr_Type req, pi_Last4 = [],
      pi_Brand = [], pi_ExpMonth = 0, pi_ExpYear = 0, pi_IsDefault = apr_IsDefault req,
      pi_CreatedAt = clock e 0\<rparr>"

definition add_instrument :: "PaymentInstrument \<Rightarrow> PaymentInstrument list \<Rightarrow> PaymentInstrument list" where
  "add_instrument instrument insts =
     (if pi_IsDefault instrument then map (\<lambda>p. p\<lparr>pi_IsDefault := False\<rparr>) insts else insts) @ [instrument]"

definition AddPaymentInstrument ::
  "'s AccountRepository \<Rightarrow> env \<Rightarrow> string \<Rightarrow> AddPaymentInstrumentRequest \<Rightarrow> 's \<Rightarrow>
    (account_error + Account) \<times> 's" where
  "AddPaymentInstrument R e i req s =
     (case ar_GetByID R i s of
        Inl err \<Rightarrow> (Inl err, s)
      | Inr account \<Rightarrow>
        (case checkAccountActive account of
           Some err \<Rightarrow> (Inl err, s)
         | None \<Rightarrow>
             ar_Update R (clock e 1)
               (account\<lparr>ac_PaymentInstruments :=
                  add_instrument (new_instrument e req) (ac_PaymentInstruments account)\<rparr>) s))"

definition RemovePaymentInstrument ::
  "'s AccountRepository \<Rightarrow> env \<Rightarrow> string \<Rightarrow> string \<Rightarrow> 's \<Rightarrow> (account_error + Account) \<times> 's" where
  "RemovePaymentInstrument R e i instrumentID s =
     (case ar_GetByID R i s of
        Inl err \<Rightarrow> (Inl err, s)
      | Inr account \<Rightarrow>
          if \<not> list_ex (\<lambda>p. pi_ID p = instrumentID) (ac_PaymentInstruments account)
          then (Inl ErrInstrumentNotFound, s)
          else ar_Update R (clock e 0)
                 (account\<lparr>ac_PaymentInstruments :=
                    filter (\<lambda>p. pi_ID p \<noteq> instrumentID) (ac_PaymentInstruments account)\<rparr>) s)"

definition CreditBalance ::
  "'s AccountRepository \<Rightarrow> env \<Rightarrow> string \<Rightarrow> int64 \<Rightarrow> 's \<Rightarrow> (account_error + Account) \<times> 's" where
  "CreditBalance R e i amount s =
     (if sint amount \<le> 0 then (Inl AcErrInvalidAmount, s)
      else
        (case ar_GetByID R i s of
           Inl err \<Rightarrow> (Inl err, s)
         | Inr account \<Rightarrow>
           (case checkAccountActive account of
              Some err \<Rightarrow> (Inl err, s)
            | None \<Rightarrow>
              (case ar_UpdateBalanceAtomic R (clock e 0) i amount s of
                 (Some err, s') \<Rightarrow> (Inl err, s')
               | (None, s') \<Rightarrow> (ar_GetByID R i s', s')))))"

definition DebitBalance ::
  "'s AccountRepository \<Rightarrow> env \<Rightarrow> string \<Rightarrow> int64 \<Rightarrow> 's \<Rightarrow> (account_error + Account) \<times> 's" where
  "DebitBalance R e i amount s =
     (if sint amount \<le> 0 then (Inl AcErrInvalidAmount, s)
      else
        (case ar_GetByID R i s of
           Inl err \<Rightarrow> (Inl err, s)
         | Inr account \<Rightarrow>
           (case checkAccountActive account of
              Some err \<Rightarrow> (Inl err, s)
            | None \<Rightarrow>
                if sint (ac_Balance account) < sint amount then (Inl ErrInsufficientBalance, s)
                else
                  (case ar_UpdateBalanceAtomic R (clock e 0) i (- amount) s of
                     (Some err, s') \<Rightarrow> (Inl err, s')
                   | (None, s') \<Rightarrow> (ar_GetByID R i s', s')))))"

text \<open>\<open>ListAccounts\<close>: an error value, or what the repository lists (which may panic).\<close>

definition ListAccounts ::
  "'s AccountRepository \<Rightarrow> string list \<Rightarrow> AccountType \<Rightarrow> int64 \<Rightarrow> int64 \<Rightarrow> 's \<Rightarrow>
    (account_error + Account list \<times> nat) option" where
  "ListAccounts R ks accountType limit offset s =
     (if sint offset < 0 then Some (Inl ErrInvalidPagination)
      else
        let limit = (if sint limit \<le> 0 then 20 else limit);
            limit = (if 100 < sint limit then 100 else limit)
        in map_option Inr (ar_List R ks accountType limit offset s))"

section \<open>What an operation does to one account\<close>

text \<open>
  The operations on an existing account, and the checks and writes of each as a function on the
  account alone (its result carries the time stamp of the write).
\<close>

datatype ac_op =
  OpUpdateAccount UpdateAccountRequest | OpActivate | OpFreeze string | OpUnfreeze | OpClose
| OpKYC KYCStatus | OpAddInstrument AddPaymentInstrumentRequest | OpRemoveInstrument string
| OpCredit int64 | OpDebit int64

definition ac_operate ::
  "'s AccountRepository \<Rightarrow> env \<Rightarrow> ac_op \<Rightarrow> string \<Rightarrow> 's \<Rightarrow> (account_error + Account) \<times> 's" where
  "ac_operate R e a i s =
     (case a of
        OpUpdateAccount req \<Rightarrow> UpdateAccount R e i req s
      | OpActivate \<Rightarrow> ActivateAccount R e i s
      | OpFreeze reason \<Rightarrow> FreezeAccount R e i reason s
      | OpUnfreeze \<Rightarrow> UnfreezeAccount R e i s
      | OpClose \<Rightarrow> CloseAccount R e i s
      | OpKYC status \<Rightarrow> UpdateKYCStatus R e i status s
      | OpAddInstrument req \<Rightarrow> AddPaymentInstrument R e i req s
      | OpRemoveInstrument instrumentID \<Rightarrow> RemovePaymentInstrument R e i instrumentID s
      | OpCredit amount \<Rightarrow> CreditBalance R e i amount s
      | OpDebit amount \<Rightarrow> DebitBalance R e i amount s)"

text \<open>The checks made before the account is fetched.\<close>

fun ac_precheck :: "ac_op \<Rightarrow> account_error option" where
  "ac_precheck (OpCredit amount) = (if sint amount \<le> 0 then Some AcErrInvalidAmount else None)"
| "ac_precheck (OpDebit amount) = (if sint amount \<le> 0 then Some AcErrInvalidAmount else None)"
| "ac_precheck _ = None"

text \<open>The operations that \<open>checkAccountActive\<close> guards.\<close>

fun ac_guarded :: "ac_op \<Rightarrow> bool" where
  "ac_guarded (OpUpdateAccount req) \<longleftrightarrow> True"
| "ac_guarded (OpAddInstrument req) \<longleftrightarrow> True"
| "ac_guarded (OpCredit amount) \<longleftrightarrow> True"
| "ac_guarded (OpDebit amount) \<longleftrightarrow> True"
| "ac_guarded _ \<longleftrightarrow> False"

fun ac_effect :: "env \<Rightarrow> ac_op \<Rightarrow> Account \<Rightarrow> account_error + Account" where
  "ac_effect e (OpUpdateAccount req) a =
     Inr (a\<lparr>ac_Profile := (if uar_Profile req = None then ac_Profile a else uar_Profile req),
            ac_Metadata := merge_metadata (ac_Metadata a) (uar_Metadata req), ac_UpdatedAt := clock e 0\<rparr>)"
| "ac_effect e OpActivate a =
     (if ac_Status a = AcClosed then Inl ErrAccountClosed
      else Inr (a\<lparr>ac_Status := AcActive, ac_UpdatedAt := clock e 0\<rparr>))"
| "ac_effect e (OpFreeze reason) a =
     Inr (a\<lparr>ac_Status := AcFrozen,
            ac_Metadata := merge_metadata (ac_Metadata a) (Some [''freeze_reason'' \<mapsto> reason]),
            ac_UpdatedAt := clock e 0\<rparr>)"
| "ac_effect e OpUnfreeze a =
     (if ac_Status a \<noteq> AcFrozen then Inr a
      else Inr (a\<lparr>ac_Status := AcActive,
                  ac_Metadata := map_option (\<lambda>m. m(''freeze_reason'' := None)) (ac_Metadata a),
                  ac_UpdatedAt := clock e 0\<rparr>))"
| "ac_effect e OpClose a = Inr (a\<lparr>ac_Status := AcClosed, ac_UpdatedAt := clock e 0\<rparr>)"
| "ac_effect e (OpKYC status) a =
     Inr (a\<lparr>ac_KYCStatus := status,
            ac_VerifiedAt := (if status = KYCVerified then Some (clock e 0) else ac_VerifiedAt a),
            ac_UpdatedAt := clock e (if status = KYCVerified then 1 else 0)\<rparr>)"
| "ac_effect e (OpAddInstrument req) a =
     Inr (a\<lparr>ac_PaymentInstruments := add_instrument (new_instrument e req) (ac_PaymentInstruments a),
            ac_UpdatedAt := clock e 1\<rparr>)"
| "ac_effect e (OpRemoveInstrument instrumentID) a =
     (if \<forall>p \<in> set (ac_PaymentInstruments a). pi_ID p \<noteq> instrumentID then Inl ErrInstrumentNotFound
      else Inr (a\<lparr>ac_PaymentInstruments :=
                   filter (\<lambda>p. pi_ID p \<noteq> instrumentID) (ac_PaymentInstruments a),
                  ac_UpdatedAt := clock e 0\<rparr>))"
| "ac_effect e (OpCredit amount) a =
     (if sint (ac_Balance a + amount) < 0 then Inl RepoErrInsufficientBalance
      else Inr (a\<lparr>ac_Balance := ac_Balance a + amount, ac_UpdatedAt := clock e 0\<rparr>))"
| "ac_effect e (OpDebit amount) a =
     (if sint (ac_Balance a) < sint amount then Inl ErrInsufficientBalance
      else if sint (ac_Balance a - amount) < 0 then Inl RepoErrInsufficientBalance
      else Inr (a\<lparr>ac_Balance := ac_Balance a - amount, ac_UpdatedAt := clock e 0\<rparr>))"

text \<open>
  An operation on a plain map of accounts: the code's own checks and writes with the repository
  taken away.  It is a step of the proofs and not a specification; the contract of an account,
  further down, is stated without the code.
\<close>

definition ac_spec ::
  "env \<Rightarrow> ac_op \<Rightarrow> string \<Rightarrow> (string \<rightharpoonup> Account) \<Rightarrow> (account_error + Account) \<times> (string \<rightharpoonup> Account)" where
  "ac_spec e op i m =
     (case ac_precheck op of
        Some err \<Rightarrow> (Inl err, m)
      | None \<Rightarrow>
        (case m i of
           None \<Rightarrow> (Inl AcErrAccountNotFound, m)
         | Some a \<Rightarrow>
           (case (if ac_guarded op then checkAccountActive a else None) of
              Some err \<Rightarrow> (Inl err, m)
            | None \<Rightarrow>
              (case ac_effect e op a of
                 Inl err \<Rightarrow> (Inl err, m)
               | Inr b \<Rightarrow> (Inr b, m(i \<mapsto> b))))))"

text \<open>The money an operation moves when it succeeds.\<close>

fun ac_amount :: "ac_op \<Rightarrow> int" where
  "ac_amount (OpCredit amount) = sint amount"
| "ac_amount (OpDebit amount) = - sint amount"
| "ac_amount _ = 0"

lemma ac_effect_fixed:
  "ac_effect e op a = Inr b \<Longrightarrow> ac_ID b = ac_ID a \<and> ac_Email b = ac_Email a \<and> ac_Type b = ac_Type a \<and>
    ac_Currency b = ac_Currency a \<and> ac_CreatedAt b = ac_CreatedAt a"
  by (cases op) (auto split: if_splits)

lemma ac_effect_balance:
  assumes "ac_effect e op a = Inr b" "ac_precheck op = None" "0 \<le> sint (ac_Balance a)"
  shows "0 \<le> sint (ac_Balance b) \<and> sint (ac_Balance b) = sint (ac_Balance a) + ac_amount op"
proof (cases op)
  case (OpCredit amount)
  then have pos: "0 < sint amount" "0 \<le> sint (ac_Balance a + amount)"
    and b: "ac_Balance b = ac_Balance a + amount"
    using assms by (auto split: if_splits)
  have "sint (ac_Balance a) + sint amount < 2 ^ 63"
  proof (rule ccontr)
    assume "\<not> ?thesis"
    then have "sint (ac_Balance a + amount) = sint (ac_Balance a) + sint amount - 2 ^ 64"
      by (intro sint64_add_overflow) simp
    with pos show False
      using sint64_bounds [of "ac_Balance a"] sint64_bounds [of amount] by simp
  qed
  then have "sint (ac_Balance a + amount) = sint (ac_Balance a) + sint amount"
    using pos assms(3) by (intro sint64_add) auto
  with b pos OpCredit show ?thesis by simp
next
  case (OpDebit amount)
  then have pos: "0 < sint amount" "sint amount \<le> sint (ac_Balance a)"
    and b: "ac_Balance b = ac_Balance a - amount"
    using assms by (auto split: if_splits)
  have minus: "sint (- amount) = - sint amount"
    using pos(1) by (intro sint64_minus) simp
  have "sint (ac_Balance a + - amount) = sint (ac_Balance a) + sint (- amount)"
    using pos sint64_bounds [of "ac_Balance a"] by (intro sint64_add) (auto simp: minus)
  then have "sint (ac_Balance a - amount) = sint (ac_Balance a) - sint amount"
    by (simp add: minus)
  with b pos OpDebit show ?thesis by simp
qed (use assms in \<open>auto split: if_splits\<close>)

subsection \<open>What holds of every stored account\<close>

definition defaults :: "PaymentInstrument list \<Rightarrow> nat" where
  "defaults insts = length (filter pi_IsDefault insts)"

lemma defaults_add_instrument: "defaults insts \<le> Suc 0 \<Longrightarrow> defaults (add_instrument p insts) \<le> Suc 0"
proof (cases "pi_IsDefault p")
  case True
  have "filter pi_IsDefault (map (\<lambda>p. p\<lparr>pi_IsDefault := False\<rparr>) insts) = []"
    by (induction insts) auto
  with True show ?thesis by (simp add: defaults_def add_instrument_def)
qed (simp add: defaults_def add_instrument_def)

lemma defaults_filter: "defaults (filter Q insts) \<le> defaults insts"
  by (simp add: defaults_def) (induction insts, auto)

definition account_ok_data :: "Account \<Rightarrow> bool" where
  "account_ok_data a \<longleftrightarrow>
     0 \<le> sint (ac_Balance a) \<and> defaults (ac_PaymentInstruments a) \<le> 1 \<and>
     matches_emailRegex (ac_Email a) \<and> ac_Currency a \<in> set ac_SupportedCurrencies"

lemma ac_effect_defaults:
  assumes "ac_effect e op a = Inr b" "defaults (ac_PaymentInstruments a) \<le> Suc 0"
  shows "defaults (ac_PaymentInstruments b) \<le> Suc 0"
proof (cases op)
  case (OpRemoveInstrument iid)
  with assms(1) have "ac_PaymentInstruments b = filter (\<lambda>p. pi_ID p \<noteq> iid) (ac_PaymentInstruments a)"
    by (auto split: if_splits)
  with assms(2) show ?thesis using defaults_filter le_trans by metis
qed (use assms in \<open>auto simp: defaults_add_instrument split: if_splits\<close>)

lemma account_ok_effect:
  assumes "ac_effect e op a = Inr b" "ac_precheck op = None" "account_ok_data a"
  shows "account_ok_data b"
  using assms(3) ac_effect_balance [OF assms(1,2)] ac_effect_fixed [OF assms(1)]
    ac_effect_defaults [OF assms(1)]
  by (simp add: account_ok_data_def)

section \<open>The contract of the repository, and the service over it\<close>

datatype ac_call = CallCreateAccount env CreateAccountRequest | CallAccount env ac_op string

primrec ac_step :: "'s AccountRepository \<Rightarrow> ac_call \<Rightarrow> 's \<Rightarrow> 's" where
  "ac_step R (CallCreateAccount e req) s = snd (ac_CreateAccount R e req s)"
| "ac_step R (CallAccount e op i) s = snd (ac_operate R e op i s)"

text \<open>The money a call moves into the account \<open>i\<close>, and the total of a run.\<close>

primrec moved :: "'s AccountRepository \<Rightarrow> string \<Rightarrow> ac_call \<Rightarrow> 's \<Rightarrow> int" where
  "moved R i (CallCreateAccount e req) s = 0"
| "moved R i (CallAccount e op j) s =
     (if j = i then (case fst (ac_operate R e op j s) of Inl _ \<Rightarrow> 0 | Inr _ \<Rightarrow> ac_amount op) else 0)"

primrec total_moved :: "'s AccountRepository \<Rightarrow> string \<Rightarrow> ac_call list \<Rightarrow> 's \<Rightarrow> int" where
  "total_moved R i [] s = 0"
| "total_moved R i (c # cs) s = moved R i c s + total_moved R i cs (ac_step R c s)"

definition ac_fresh :: "env \<Rightarrow> (string \<rightharpoonup> Account) \<Rightarrow> bool" where
  "ac_fresh e m \<longleftrightarrow> (\<forall>i. generateID ''acc'' (entropy e 0) = Some i \<longrightarrow> m i = None)"

primrec ac_call_fresh :: "(string \<rightharpoonup> Account) \<Rightarrow> ac_call \<Rightarrow> bool" where
  "ac_call_fresh m (CallCreateAccount e req) \<longleftrightarrow> ac_fresh e m"
| "ac_call_fresh m (CallAccount e op i) \<longleftrightarrow> True"

definition accounts_ok :: "(string \<rightharpoonup> Account) \<Rightarrow> bool" where
  "accounts_ok m \<longleftrightarrow> (\<forall>i a. m i = Some a \<longrightarrow> account_ok_data a)"

definition balance_of :: "(string \<rightharpoonup> Account) \<Rightarrow> string \<Rightarrow> int" where
  "balance_of m i = (case m i of None \<Rightarrow> 0 | Some a \<Rightarrow> sint (ac_Balance a))"

lemma accounts_ok_upd: "accounts_ok m \<Longrightarrow> account_ok_data a \<Longrightarrow> accounts_ok (m(i \<mapsto> a))"
  by (simp add: accounts_ok_def)

text \<open>
  The four ways an operation on the map ends, with the state it leaves.
\<close>

lemma ac_spec_cases:
  obtains (failed) err where "ac_spec e op i m = (Inl err, m)"
  | (succeeded) a b where "m i = Some a" "ac_precheck op = None" "ac_effect e op a = Inr b"
      "ac_spec e op i m = (Inr b, m(i \<mapsto> b))"
proof (cases "ac_precheck op")
  case (Some err)
  then show ?thesis by (intro failed) (simp add: ac_spec_def)
next
  case pre: None
  show ?thesis
  proof (cases "m i")
    case None
    with pre show ?thesis by (intro failed) (simp add: ac_spec_def)
  next
    case a: (Some a)
    show ?thesis
    proof (cases "if ac_guarded op then checkAccountActive a else None")
      case (Some err)
      with pre a show ?thesis by (intro failed) (simp add: ac_spec_def)
    next
      case None
      with pre a show ?thesis
        by (cases "ac_effect e op a") (auto intro: failed succeeded simp: ac_spec_def)
    qed
  qed
qed

lemma ac_spec_accounts_ok: "accounts_ok m \<Longrightarrow> accounts_ok (snd (ac_spec e op i m))"
proof (cases rule: ac_spec_cases [of e op i m])
  case (succeeded a b)
  moreover assume "accounts_ok m"
  moreover from this succeeded(1) have "account_ok_data a" by (simp add: accounts_ok_def)
  ultimately show ?thesis using account_ok_effect accounts_ok_upd by simp
qed simp

lemma ac_spec_balance:
  assumes "accounts_ok m"
  shows "balance_of (snd (ac_spec e op i m)) j = balance_of m j +
    (if i = j then (case fst (ac_spec e op i m) of Inl _ \<Rightarrow> 0 | Inr _ \<Rightarrow> ac_amount op) else 0)"
proof (cases rule: ac_spec_cases [of e op i m])
  case (failed err)
  then show ?thesis by auto
next
  case (succeeded a b)
  have "0 \<le> sint (ac_Balance a)"
    using assms succeeded(1) by (auto simp: accounts_ok_def account_ok_data_def)
  from ac_effect_balance [OF succeeded(3,2) this] succeeded show ?thesis by (auto simp: balance_of_def)
qed

text \<open>The laws of an account repository.\<close>

locale account_store =
  fixes R :: "'s AccountRepository"
    and valid :: "'s \<Rightarrow> bool"
    and abs :: "'s \<Rightarrow> (string \<rightharpoonup> Account)"
  assumes get: "valid s \<Longrightarrow>
      ar_GetByID R i s = (case abs s i of None \<Rightarrow> Inl AcErrAccountNotFound | Some a \<Rightarrow> Inr a)"
    and stored_ID: "valid s \<Longrightarrow> abs s i = Some a \<Longrightarrow> ac_ID a = i"
    and get_email: "valid s \<Longrightarrow> abs s i = Some a \<Longrightarrow> ar_GetByEmail R (ac_Email a) s = Inr (Some a)"
    and get_no_email: "valid s \<Longrightarrow> (\<forall>i a. abs s i = Some a \<longrightarrow> ac_Email a \<noteq> email) \<Longrightarrow>
      ar_GetByEmail R email s = Inl AcErrAccountNotFound"
    and create: "valid s \<Longrightarrow> abs s (ac_ID a) = None \<Longrightarrow>
      (\<forall>i b. abs s i = Some b \<longrightarrow> ac_Email b \<noteq> ac_Email a) \<Longrightarrow>
      \<exists>s'. ar_Create R now a s = (Inr (a\<lparr>ac_CreatedAt := now, ac_UpdatedAt := now\<rparr>), s') \<and> valid s' \<and>
        abs s' = (abs s)(ac_ID a \<mapsto> a\<lparr>ac_CreatedAt := now, ac_UpdatedAt := now\<rparr>)"
    and update: "valid s \<Longrightarrow> abs s (ac_ID a) = Some b \<Longrightarrow> ac_Email a = ac_Email b \<Longrightarrow>
      \<exists>s'. ar_Update R now a s = (Inr (a\<lparr>ac_UpdatedAt := now\<rparr>), s') \<and> valid s' \<and>
        abs s' = (abs s)(ac_ID a \<mapsto> a\<lparr>ac_UpdatedAt := now\<rparr>)"
    and balance_low: "valid s \<Longrightarrow> abs s i = Some a \<Longrightarrow> sint (ac_Balance a + delta) < 0 \<Longrightarrow>
      ar_UpdateBalanceAtomic R now i delta s = (Some RepoErrInsufficientBalance, s)"
    and balance: "valid s \<Longrightarrow> abs s i = Some a \<Longrightarrow> 0 \<le> sint (ac_Balance a + delta) \<Longrightarrow>
      \<exists>s'. ar_UpdateBalanceAtomic R now i delta s = (None, s') \<and> valid s' \<and>
        abs s' = (abs s)(i \<mapsto> a\<lparr>ac_Balance := ac_Balance a + delta, ac_UpdatedAt := now\<rparr>)"
    and list_page: "valid s \<Longrightarrow> ar_List R ks accountType limit offset s =
      paginate (filter (\<lambda>a. accountType = AccountTypeOther [] \<or> ac_Type a = accountType)
        (map (\<lambda>k. the (abs s k)) ks)) limit offset"
begin

text \<open>A write of \<open>Update\<close> that keeps identifier and email refines the write to the map.\<close>

lemma update_refines:
  assumes "valid s" "abs s i = Some a" "ac_ID b = i" "ac_Email b = ac_Email a"
  shows "\<exists>s'. ar_Update R now b s = (Inr (b\<lparr>ac_UpdatedAt := now\<rparr>), s') \<and> valid s' \<and>
    abs s' = (abs s)(i \<mapsto> b\<lparr>ac_UpdatedAt := now\<rparr>)"
  using update [of s b a now] assms by simp

lemma operate_refines:
  assumes s: "valid s"
  shows "\<exists>s'. ac_operate R e op i s = (fst (ac_spec e op i (abs s)), s') \<and> valid s' \<and>
    abs s' = snd (ac_spec e op i (abs s))"
proof (cases "abs s i")
  case None
  with get [OF s, of i] s show ?thesis
    by (cases op) (simp_all add: ac_operate_def ac_spec_def UpdateAccount_def ActivateAccount_def
        FreezeAccount_def UnfreezeAccount_def CloseAccount_def UpdateKYCStatus_def
        AddPaymentInstrument_def RemovePaymentInstrument_def CreditBalance_def DebitBalance_def)
next
  case (Some a)
  with get [OF s, of i] have g: "ar_GetByID R i s = Inr a" by simp
  have i: "ac_ID a = i" using stored_ID [OF s Some] .
  note upd = update_refines [OF s Some]
  show ?thesis
  proof (cases op)
    case (OpUpdateAccount req)
    let ?b = "a\<lparr>ac_Profile := (if uar_Profile req = None then ac_Profile a else uar_Profile req),
                ac_Metadata := merge_metadata (ac_Metadata a) (uar_Metadata req)\<rparr>"
    have "UpdateAccount R e i req s = (case checkAccountActive a of Some err \<Rightarrow> (Inl err, s)
        | None \<Rightarrow> ar_Update R (clock e 0) ?b s)"
      by (auto simp: UpdateAccount_def g Let_def split: option.split)
    with upd [of ?b "clock e 0"] i Some s OpUpdateAccount show ?thesis
      by (auto simp: ac_operate_def ac_spec_def split: option.split)
  next
    case OpActivate
    with upd [of "a\<lparr>ac_Status := AcActive\<rparr>" "clock e 0"] i g Some s show ?thesis
      by (auto simp: ac_operate_def ac_spec_def ActivateAccount_def)
  next
    case (OpFreeze reason)
    let ?b = "a\<lparr>ac_Status := AcFrozen,
                ac_Metadata := merge_metadata (ac_Metadata a) (Some [''freeze_reason'' \<mapsto> reason])\<rparr>"
    have "FreezeAccount R e i reason s = ar_Update R (clock e 0) ?b s"
      by (simp add: FreezeAccount_def g Let_def merge_metadata_def)
    with upd [of ?b "clock e 0"] i Some s OpFreeze show ?thesis
      by (auto simp: ac_operate_def ac_spec_def)
  next
    case OpUnfreeze
    with upd [of "a\<lparr>ac_Status := AcActive,
        ac_Metadata := map_option (\<lambda>m. m(''freeze_reason'' := None)) (ac_Metadata a)\<rparr>" "clock e 0"]
      i g Some s show ?thesis
      by (auto simp: ac_operate_def ac_spec_def UnfreezeAccount_def map_upd_triv)
  next
    case OpClose
    with upd [of "a\<lparr>ac_Status := AcClosed\<rparr>" "clock e 0"] i g Some s show ?thesis
      by (auto simp: ac_operate_def ac_spec_def CloseAccount_def)
  next
    case (OpKYC status)
    let ?n = "if status = KYCVerified then 1 else 0 :: nat"
    let ?b = "a\<lparr>ac_KYCStatus := status,
                ac_VerifiedAt := (if status = KYCVerified then Some (clock e 0) else ac_VerifiedAt a)\<rparr>"
    have "UpdateKYCStatus R e i status s = ar_Update R (clock e ?n) ?b s"
      by (simp add: UpdateKYCStatus_def g Let_def)
    with upd [of ?b "clock e ?n"] i Some s OpKYC show ?thesis
      by (auto simp: ac_operate_def ac_spec_def)
  next
    case (OpAddInstrument req)
    with upd [of "a\<lparr>ac_PaymentInstruments :=
        add_instrument (new_instrument e req) (ac_PaymentInstruments a)\<rparr>" "clock e 1"] i g Some s
    show ?thesis
      by (auto simp: ac_operate_def ac_spec_def AddPaymentInstrument_def split: option.split)
  next
    case (OpRemoveInstrument iid)
    with upd [of "a\<lparr>ac_PaymentInstruments :=
        filter (\<lambda>p. pi_ID p \<noteq> iid) (ac_PaymentInstruments a)\<rparr>" "clock e 0"] i g Some s
    show ?thesis
      by (auto simp: ac_operate_def ac_spec_def RemovePaymentInstrument_def list_ex_iff)
  next
    case (OpCredit amount)
    show ?thesis
    proof (cases "sint (ac_Balance a + amount) < 0")
      case True
      with balance_low [OF s Some True, of "clock e 0"] OpCredit g Some s show ?thesis
        by (auto simp: ac_operate_def ac_spec_def CreditBalance_def split: option.split)
    next
      case False
      then obtain s' where "ar_UpdateBalanceAtomic R (clock e 0) i amount s = (None, s')" "valid s'"
        "abs s' = (abs s)(i \<mapsto> a\<lparr>ac_Balance := ac_Balance a + amount, ac_UpdatedAt := clock e 0\<rparr>)"
        using balance [OF s Some, of amount "clock e 0"] by auto
      with False OpCredit g Some s get [of s' i] show ?thesis
        by (auto simp: ac_operate_def ac_spec_def CreditBalance_def split: option.split)
    qed
  next
    case (OpDebit amount)
    show ?thesis
    proof (cases "sint (ac_Balance a - amount) < 0")
      case True
      with balance_low [OF s Some, of "- amount" "clock e 0"] OpDebit g Some s show ?thesis
        by (auto simp: ac_operate_def ac_spec_def DebitBalance_def split: option.split)
    next
      case False
      then obtain s' where "ar_UpdateBalanceAtomic R (clock e 0) i (- amount) s = (None, s')" "valid s'"
        "abs s' = (abs s)(i \<mapsto> a\<lparr>ac_Balance := ac_Balance a - amount, ac_UpdatedAt := clock e 0\<rparr>)"
        using balance [OF s Some, of "- amount" "clock e 0"] by auto
      with False OpDebit g Some s get [of s' i] show ?thesis
        by (auto simp: ac_operate_def ac_spec_def DebitBalance_def split: option.split)
    qed
  qed
qed

text \<open>The outcomes of a creation.\<close>

lemma create_outcomes:
  assumes "valid s" "ac_fresh e (abs s)"
  obtains (refused) err where "ac_CreateAccount R e req s = (Inl err, s)"
  | (created) i a s' where "ac_CreateAccount R e req s = (Inr a, s')" "valid s'" "abs s i = None"
      "abs s' = (abs s)(i \<mapsto> a)" "ac_validateCreateRequest req = None"
      "\<forall>j b. abs s j = Some b \<longrightarrow> ac_Email b \<noteq> car_Email req"
      "a = (new_account i req)\<lparr>ac_CreatedAt := clock e 0, ac_UpdatedAt := clock e 0\<rparr>"
proof (cases "ac_validateCreateRequest req = None \<and>
    (\<forall>j b. abs s j = Some b \<longrightarrow> ac_Email b \<noteq> car_Email req) \<and>
    generateID ''acc'' (entropy e 0) \<noteq> None")
  case True
  then obtain i where i: "generateID ''acc'' (entropy e 0) = Some i" by blast
  with assms(2) have "abs s i = None" by (simp add: ac_fresh_def)
  with create [OF assms(1), of "new_account i req" "clock e 0"] True obtain s' where
    "ar_Create R (clock e 0) (new_account i req) s =
      (Inr ((new_account i req)\<lparr>ac_CreatedAt := clock e 0, ac_UpdatedAt := clock e 0\<rparr>), s')"
    "valid s'"
    "abs s' = (abs s)(i \<mapsto> (new_account i req)\<lparr>ac_CreatedAt := clock e 0, ac_UpdatedAt := clock e 0\<rparr>)"
    by (auto simp: new_account_def)
  with True i get_no_email [OF assms(1), of "car_Email req"] \<open>abs s i = None\<close> show ?thesis
    by (intro created [of _ s' i]) (simp_all add: ac_CreateAccount_def)
next
  case False
  show ?thesis
  proof (cases "\<exists>j b. abs s j = Some b \<and> ac_Email b = car_Email req")
    case True
    then obtain j b where "abs s j = Some b" "ac_Email b = car_Email req" by blast
    with get_email [OF assms(1), of j b] have "\<exists>err. ac_CreateAccount R e req s = (Inl err, s)"
      by (simp add: ac_CreateAccount_def split: option.split)
    then show ?thesis using refused by blast
  next
    case no_email: False
    with get_no_email [OF assms(1), of "car_Email req"] False
    have "\<exists>err. ac_CreateAccount R e req s = (Inl err, s)"
      by (auto simp: ac_CreateAccount_def split: option.split)
    then show ?thesis using refused by blast
  qed
qed

lemma step_ok:
  assumes "valid s \<and> accounts_ok (abs s)" "ac_call_fresh (abs s) c"
  shows "valid (ac_step R c s) \<and> accounts_ok (abs (ac_step R c s))"
    and step_balance: "balance_of (abs (ac_step R c s)) j = balance_of (abs s) j + moved R j c s"
proof -
  have "(valid (ac_step R c s) \<and> accounts_ok (abs (ac_step R c s))) \<and>
    balance_of (abs (ac_step R c s)) j = balance_of (abs s) j + moved R j c s"
  proof (cases c)
    case (CallCreateAccount e req)
    with assms have "ac_fresh e (abs s)" by simp
    from create_outcomes [OF _ this, of req] CallCreateAccount assms(1) show ?thesis
      by cases (auto simp: accounts_ok_upd account_ok_data_def new_account_def defaults_def
          balance_of_def ac_validateCreateRequest_def split: if_splits)
  next
    case (CallAccount e op i)
    with operate_refines [of s e op i] assms(1) obtain s' where
      "ac_operate R e op i s = (fst (ac_spec e op i (abs s)), s')" "valid s'"
      "abs s' = snd (ac_spec e op i (abs s))" by auto
    then show ?thesis
      using CallAccount assms(1) ac_spec_accounts_ok ac_spec_balance [of "abs s" e op i j]
      by auto
  qed
  then show "valid (ac_step R c s) \<and> accounts_ok (abs (ac_step R c s))"
    "balance_of (abs (ac_step R c s)) j = balance_of (abs s) j + moved R j c s" by blast+
qed

end

sublocale account_store \<subseteq> machine: invariant_machine
  "ac_step R" "\<lambda>s. ac_call_fresh (abs s)" "\<lambda>s. valid s \<and> accounts_ok (abs s)"
  by unfold_locales (rule step_ok)

context account_store
begin

text \<open>Money is neither made nor lost: a balance is what the successful credits and debits add up to.\<close>

lemma run_balance:
  assumes "valid s \<and> accounts_ok (abs s)" "run_ok (ac_step R) (\<lambda>s. ac_call_fresh (abs s)) calls s"
  shows "balance_of (abs (run (ac_step R) calls s)) j = balance_of (abs s) j + total_moved R j calls s"
  using assms
proof (induction calls arbitrary: s)
  case Nil
  then show ?case by simp
next
  case (Cons c cs)
  then have fresh: "ac_call_fresh (abs s) c" by simp
  from Cons.IH [OF step_ok(1) [OF Cons.prems(1) fresh]] Cons.prems(2)
    step_balance [OF Cons.prems(1) fresh, of j]
  show ?case by simp
qed

text \<open>No listing panics, and a page holds at most 100 accounts.\<close>

lemma list_pages:
  assumes "valid s" "int (length ks) + 100 < 2 ^ 63"
  shows "ListAccounts R ks accountType limit offset s = Some (Inl ErrInvalidPagination) \<or>
    (\<exists>page n. ListAccounts R ks accountType limit offset s = Some (Inr (page, n)) \<and> length page \<le> 100)"
proof (cases "sint offset < 0")
  case True
  then show ?thesis by (simp add: ListAccounts_def)
next
  case False
  define lim where "lim = (if 100 < sint (if sint limit \<le> 0 then 20 else limit) then 100
    else if sint limit \<le> 0 then 20 else limit)"
  let ?xs = "filter (\<lambda>a. accountType = AccountTypeOther [] \<or> ac_Type a = accountType)
        (map (\<lambda>k. the (abs s k)) ks)"
  have lim: "0 \<le> sint lim" "sint lim \<le> 100" by (simp_all add: lim_def)
  have list: "ListAccounts R ks accountType limit offset s = map_option Inr (paginate ?xs lim offset)"
    using False by (simp add: ListAccounts_def list_page [OF assms(1)] lim_def)
  have len: "int (length ?xs) \<le> int (length ks)"
    using length_filter_le [of _ "map (\<lambda>k. the (abs s k)) ks"] by (simp add: filter_map)
  show ?thesis
  proof (cases "int (length ?xs) \<le> sint offset")
    case True
    then have "paginate ?xs lim offset = Some ([], length ?xs)" by (simp add: paginate_def)
    then show ?thesis by (simp add: list)
  next
    case False
    with len lim assms(2) have "sint offset + sint lim < 2 ^ 63" by linarith
    then have "paginate ?xs lim offset =
        Some (take (nat (sint lim)) (drop (nat (sint offset)) ?xs), length ?xs)"
      using \<open>\<not> sint offset < 0\<close> lim(1) by (intro paginate_page) auto
    then show ?thesis using lim by (simp add: list min_le_iff_disj nat_le_iff)
  qed
qed

end

section \<open>The in-memory repository satisfies the contract\<close>

text \<open>
  Each account is stored under its identifier and indexed by its email, the index has nothing
  else, and exactly the stored accounts have a version.
\<close>

definition am_valid :: "AccountInMemory \<Rightarrow> bool" where
  "am_valid r \<longleftrightarrow>
     (\<forall>i a. am_accounts r i = Some a \<longrightarrow> ac_ID a = i \<and> am_emailIndex r (ac_Email a) = Some i) \<and>
     (\<forall>m i. am_emailIndex r m = Some i \<longrightarrow> (\<exists>a. am_accounts r i = Some a \<and> ac_Email a = m)) \<and>
     dom (am_versions r) = dom (am_accounts r)"

lemma am_valid_new: "am_valid ac_NewInMemoryRepository"
  by (simp add: am_valid_def ac_NewInMemoryRepository_def)

lemma am_validD:
  assumes "am_valid r"
  shows am_valid_ID: "am_accounts r i = Some a \<Longrightarrow> ac_ID a = i"
    and am_valid_email: "am_accounts r i = Some a \<Longrightarrow> am_emailIndex r (ac_Email a) = Some i"
    and am_valid_index: "am_emailIndex r m = Some i \<Longrightarrow> \<exists>a. am_accounts r i = Some a \<and> ac_Email a = m"
    and am_valid_versions: "dom (am_versions r) = dom (am_accounts r)"
  using assms unfolding am_valid_def by blast+

lemma am_validI:
  assumes "\<And>i a. am_accounts r i = Some a \<Longrightarrow> ac_ID a = i"
    and "\<And>i a. am_accounts r i = Some a \<Longrightarrow> am_emailIndex r (ac_Email a) = Some i"
    and "\<And>m i. am_emailIndex r m = Some i \<Longrightarrow> \<exists>a. am_accounts r i = Some a \<and> ac_Email a = m"
    and "dom (am_versions r) = dom (am_accounts r)"
  shows "am_valid r"
  using assms unfolding am_valid_def by blast

text \<open>Storing a new version of an account under the same email.\<close>

lemma am_valid_store:
  assumes "am_valid r" "am_accounts r i = Some a" "ac_ID b = i" "ac_Email b = ac_Email a"
  shows "am_valid (r\<lparr>am_accounts := (am_accounts r)(i \<mapsto> b),
    am_versions := bump_version i (am_versions r)\<rparr>)" (is "am_valid ?r")
proof (rule am_validI)
  fix j c assume c: "am_accounts ?r j = Some c"
  then show "ac_ID c = j"
    using am_valid_ID [OF assms(1)] assms(3) by (auto split: if_splits)
  from c show "am_emailIndex ?r (ac_Email c) = Some j"
    using am_valid_email [OF assms(1)] assms(2,4) by (auto split: if_splits)
next
  fix m j assume "am_emailIndex ?r m = Some j"
  then show "\<exists>c. am_accounts ?r j = Some c \<and> ac_Email c = m"
    using am_valid_index [OF assms(1), of m j] assms(2,4) by auto
next
  show "dom (am_versions ?r) = dom (am_accounts ?r)"
    using am_valid_versions [OF assms(1)] by (simp add: bump_version_def)
qed

lemma am_GetByEmail_law:
  assumes "am_valid r"
  shows "am_accounts r i = Some a \<Longrightarrow> am_GetByEmail (ac_Email a) r = Inr (Some a)"
    and "\<forall>i a. am_accounts r i = Some a \<longrightarrow> ac_Email a \<noteq> m \<Longrightarrow> am_GetByEmail m r = Inl AcErrAccountNotFound"
proof -
  show "am_accounts r i = Some a \<Longrightarrow> am_GetByEmail (ac_Email a) r = Inr (Some a)"
    using am_valid_email [OF assms] by (simp add: am_GetByEmail_def)
  assume "\<forall>i a. am_accounts r i = Some a \<longrightarrow> ac_Email a \<noteq> m"
  with am_valid_index [OF assms, of m] have "am_emailIndex r m = None"
    by (cases "am_emailIndex r m") blast+
  then show "am_GetByEmail m r = Inl AcErrAccountNotFound" by (simp add: am_GetByEmail_def)
qed

lemma am_Create_law:
  assumes "am_valid r" "am_accounts r (ac_ID a) = None"
    "\<forall>i b. am_accounts r i = Some b \<longrightarrow> ac_Email b \<noteq> ac_Email a"
  shows "\<exists>r'. am_Create now a r = (Inr (a\<lparr>ac_CreatedAt := now, ac_UpdatedAt := now\<rparr>), r') \<and> am_valid r' \<and>
    am_accounts r' = (am_accounts r)(ac_ID a \<mapsto> a\<lparr>ac_CreatedAt := now, ac_UpdatedAt := now\<rparr>)"
proof -
  let ?a = "a\<lparr>ac_CreatedAt := now, ac_UpdatedAt := now\<rparr>"
  let ?r = "r\<lparr>am_accounts := (am_accounts r)(ac_ID a \<mapsto> ?a),
    am_emailIndex := (am_emailIndex r)(ac_Email a \<mapsto> ac_ID a),
    am_versions := (am_versions r)(ac_ID a \<mapsto> 1)\<rparr>"
  have "am_emailIndex r (ac_Email a) = None"
    using am_valid_index [OF assms(1), of "ac_Email a"] assms(3)
    by (cases "am_emailIndex r (ac_Email a)") blast+
  then have "am_Create now a r = (Inr ?a, ?r)" by (simp add: am_Create_def Let_def)
  moreover have "am_valid ?r"
  proof (rule am_validI)
    fix j c assume c: "am_accounts ?r j = Some c"
    then show "ac_ID c = j" using am_valid_ID [OF assms(1)] by (auto split: if_splits)
    from c show "am_emailIndex ?r (ac_Email c) = Some j"
      using am_valid_email [OF assms(1)] assms(3) by (auto split: if_splits)
  next
    fix m j assume "am_emailIndex ?r m = Some j"
    then show "\<exists>c. am_accounts ?r j = Some c \<and> ac_Email c = m"
      using am_valid_index [OF assms(1), of m j] assms(2) by (auto split: if_splits)
  next
    show "dom (am_versions ?r) = dom (am_accounts ?r)"
      using am_valid_versions [OF assms(1)] by simp
  qed
  ultimately show ?thesis by simp
qed

lemma am_Update_law:
  assumes "am_valid r" "am_accounts r (ac_ID a) = Some b" "ac_Email a = ac_Email b"
  shows "\<exists>r'. am_Update now a r = (Inr (a\<lparr>ac_UpdatedAt := now\<rparr>), r') \<and> am_valid r' \<and>
    am_accounts r' = (am_accounts r)(ac_ID a \<mapsto> a\<lparr>ac_UpdatedAt := now\<rparr>)"
  using am_valid_store [OF assms(1,2), of "a\<lparr>ac_UpdatedAt := now\<rparr>"] assms
  by (simp add: am_Update_def Let_def)

lemma am_UpdateBalanceAtomic_law:
  assumes "am_valid r" "am_accounts r i = Some a" "0 \<le> sint (ac_Balance a + delta)"
  shows "\<exists>r'. am_UpdateBalanceAtomic now i delta r = (None, r') \<and> am_valid r' \<and>
    am_accounts r' = (am_accounts r)(i \<mapsto> a\<lparr>ac_Balance := ac_Balance a + delta, ac_UpdatedAt := now\<rparr>)"
  using am_valid_store [OF assms(1,2), of "a\<lparr>ac_Balance := ac_Balance a + delta, ac_UpdatedAt := now\<rparr>"]
    am_valid_ID [OF assms(1,2)] assms(2,3)
  by (simp add: am_UpdateBalanceAtomic_def Let_def)

lemma am_init: "am_valid ac_NewInMemoryRepository \<and> accounts_ok (am_accounts ac_NewInMemoryRepository)"
  "balance_of (am_accounts ac_NewInMemoryRepository) i = 0"
  by (simp_all add: am_valid_new) (simp_all add: ac_NewInMemoryRepository_def accounts_ok_def balance_of_def)

interpretation ac_mem: account_store ac_InMemoryRepository am_valid am_accounts
proof unfold_locales
  fix r i a and delta :: int64 and now
  assume "am_valid r" "am_accounts r i = Some a" "sint (ac_Balance a + delta) < 0"
  then show "ar_UpdateBalanceAtomic ac_InMemoryRepository now i delta r = (Some RepoErrInsufficientBalance, r)"
    by (simp add: ac_InMemoryRepository_def am_UpdateBalanceAtomic_def)
qed (simp_all add: ac_InMemoryRepository_def am_GetByID_def am_List_def am_valid_ID
    am_GetByEmail_law am_Create_law am_Update_law am_UpdateBalanceAtomic_law)

section \<open>The contract of an account\<close>

text \<open>
  What a customer may rely on, on a view of the account that has its status, its balance as an
  integer and its payment instruments with the default one marked.  \<open>new\<close> is the identifier drawn for a new
  instrument.  Money moves exactly and only in an account that is neither frozen nor closed.
\<close>

record account_view =
  av_status :: AccountStatus
  av_balance :: int
  av_instruments :: "(string \<times> bool) list"

definition view_of :: "Account \<Rightarrow> account_view" where
  "view_of a =
     \<lparr>av_status = ac_Status a, av_balance = sint (ac_Balance a),
      av_instruments = map (\<lambda>p. (pi_ID p, pi_IsDefault p)) (ac_PaymentInstruments a)\<rparr>"

definition while_usable ::
  "account_view \<Rightarrow> account_error + account_view \<Rightarrow> account_error + account_view" where
  "while_usable v result =
     (if av_status v = AcFrozen then Inl ErrAccountFrozen
      else if av_status v = AcClosed then Inl ErrAccountClosed
      else result)"

fun account_contract :: "string \<Rightarrow> ac_op \<Rightarrow> account_view \<Rightarrow> account_error + account_view" where
  "account_contract new (OpUpdateAccount req) v = while_usable v (Inr v)"
| "account_contract new OpActivate v =
     (if av_status v = AcClosed then Inl ErrAccountClosed else Inr (v\<lparr>av_status := AcActive\<rparr>))"
| "account_contract new (OpFreeze reason) v = Inr (v\<lparr>av_status := AcFrozen\<rparr>)"
| "account_contract new OpUnfreeze v =
     Inr (if av_status v = AcFrozen then v\<lparr>av_status := AcActive\<rparr> else v)"
| "account_contract new OpClose v = Inr (v\<lparr>av_status := AcClosed\<rparr>)"
| "account_contract new (OpKYC status) v = Inr v"
| "account_contract new (OpAddInstrument req) v =
     while_usable v (Inr (v\<lparr>av_instruments :=
       [(k, d \<and> \<not> apr_IsDefault req). (k, d) \<leftarrow> av_instruments v] @ [(new, apr_IsDefault req)]\<rparr>))"
| "account_contract new (OpRemoveInstrument k) v =
     (if k \<in> fst ` set (av_instruments v)
      then Inr (v\<lparr>av_instruments := [p \<leftarrow> av_instruments v. fst p \<noteq> k]\<rparr>)
      else Inl ErrInstrumentNotFound)"
| "account_contract new (OpCredit x) v =
     (if sint x \<le> 0 then Inl AcErrInvalidAmount
      else while_usable v
        (if av_balance v + sint x < 2 ^ 63 then Inr (v\<lparr>av_balance := av_balance v + sint x\<rparr>)
         else Inl RepoErrInsufficientBalance))"
| "account_contract new (OpDebit x) v =
     (if sint x \<le> 0 then Inl AcErrInvalidAmount
      else while_usable v
        (if sint x \<le> av_balance v then Inr (v\<lparr>av_balance := av_balance v - sint x\<rparr>)
         else Inl ErrInsufficientBalance))"

text \<open>What an operation leaves as it was, and what it writes besides the view.\<close>

definition meta_at :: "metadata \<Rightarrow> string \<Rightarrow> string option" where
  "meta_at m k = (case m of None \<Rightarrow> None | Some f \<Rightarrow> f k)"

definition account_kept :: "env \<Rightarrow> ac_op \<Rightarrow> Account \<Rightarrow> Account \<Rightarrow> bool" where
  "account_kept e op a b \<longleftrightarrow>
     ac_ID b = ac_ID a \<and> ac_Email b = ac_Email a \<and> ac_Type b = ac_Type a \<and>
     ac_Currency b = ac_Currency a \<and> ac_CreatedAt b = ac_CreatedAt a \<and>
     ac_KYCStatus b = (case op of OpKYC status \<Rightarrow> status | _ \<Rightarrow> ac_KYCStatus a) \<and>
     ac_VerifiedAt b = (if op = OpKYC KYCVerified then Some (clock e 0) else ac_VerifiedAt a) \<and>
     ac_Profile b =
       (case op of
          OpUpdateAccount req \<Rightarrow> (if uar_Profile req = None then ac_Profile a else uar_Profile req)
        | _ \<Rightarrow> ac_Profile a) \<and>
     (\<forall>k. meta_at (ac_Metadata b) k =
        (case op of
           OpUpdateAccount req \<Rightarrow>
             (if meta_at (uar_Metadata req) k = None then meta_at (ac_Metadata a) k
              else meta_at (uar_Metadata req) k)
         | OpFreeze reason \<Rightarrow>
             (if k = ''freeze_reason'' then Some reason else meta_at (ac_Metadata a) k)
         | OpUnfreeze \<Rightarrow>
             (if ac_Status a = AcFrozen \<and> k = ''freeze_reason'' then None
              else meta_at (ac_Metadata a) k)
         | _ \<Rightarrow> meta_at (ac_Metadata a) k))"

text \<open>
  The uses of an operation that its documentation covers: \<open>ActivateAccount\<close> \<open>activates a pending
  account\<close> and \<open>CloseAccount\<close> closes \<open>permanently\<close>.  What the code does with the others is shown by
  \<open>frozen_account_activates\<close> and \<open>closed_account_reopens\<close>.
\<close>

fun op_as_documented :: "Account \<Rightarrow> ac_op \<Rightarrow> bool" where
  "op_as_documented a OpActivate \<longleftrightarrow> ac_Status a \<noteq> AcFrozen \<and> ac_Status a \<noteq> AcSuspended"
| "op_as_documented a (OpFreeze reason) \<longleftrightarrow> ac_Status a \<noteq> AcClosed"
| "op_as_documented a op \<longleftrightarrow> True"

lemma credit_exact:
  fixes b x :: int64
  assumes "0 \<le> sint b" "0 < sint x"
  shows "sint (b + x) < 0 \<longleftrightarrow> \<not> sint b + sint x < 2 ^ 63"
    "sint b + sint x < 2 ^ 63 \<Longrightarrow> sint (b + x) = sint b + sint x"
proof -
  show add: "sint b + sint x < 2 ^ 63 \<Longrightarrow> sint (b + x) = sint b + sint x"
    using assms by (intro sint64_add) auto
  show "sint (b + x) < 0 \<longleftrightarrow> \<not> sint b + sint x < 2 ^ 63"
    using add assms sint64_add_overflow [of b x] sint64_bounds [of b] sint64_bounds [of x]
    by (cases "sint b + sint x < 2 ^ 63") auto
qed

lemma debit_exact:
  fixes b x :: int64
  assumes "0 < sint x" "sint x \<le> sint b"
  shows "sint (b - x) = sint b - sint x"
  using sint64_minus [of x] sint64_add [of b "- x"] sint64_bounds [of b] assms by simp

lemma contract_spec:
  assumes "m i = Some a" "0 \<le> sint (ac_Balance a)"
  shows "case account_contract (id_or_empty (generateID ''pi'' (entropy e 0))) op (view_of a) of
      Inl err \<Rightarrow> ac_spec e op i m = (Inl err, m)
    | Inr v \<Rightarrow> \<exists>b. ac_spec e op i m = (Inr b, m(i \<mapsto> b)) \<and> view_of b = v \<and> account_kept e op a b"
proof (cases op)
  case (OpCredit x)
  then show ?thesis
    using assms credit_exact [of "ac_Balance a" x]
    by (auto simp: ac_spec_def view_of_def while_usable_def checkAccountActive_def account_kept_def
        split: AccountStatus.splits)
next
  case (OpDebit x)
  then show ?thesis
    using assms debit_exact [of x "ac_Balance a"]
    by (auto simp: ac_spec_def view_of_def while_usable_def checkAccountActive_def account_kept_def
        split: AccountStatus.splits)
next
  case (OpAddInstrument req)
  then show ?thesis
    using assms
    by (auto simp: ac_spec_def view_of_def while_usable_def checkAccountActive_def account_kept_def
        add_instrument_def new_instrument_def split: AccountStatus.splits)
next
  case (OpRemoveInstrument k)
  then show ?thesis
    using assms
    by (auto simp: ac_spec_def view_of_def account_kept_def filter_map o_def image_iff)
next
  case (OpUpdateAccount req)
  then show ?thesis
    using assms
    by (auto simp: ac_spec_def view_of_def while_usable_def checkAccountActive_def account_kept_def
        meta_at_def merge_metadata_def map_add_def split: AccountStatus.splits option.splits)
qed (use assms in \<open>auto simp: ac_spec_def view_of_def account_kept_def meta_at_def merge_metadata_def map_add_def
       split: option.splits\<close>)

section \<open>Properties\<close>

lemmas ac_eval = ac_InMemoryRepository_def ac_NewInMemoryRepository_def am_Create_def am_GetByID_def
  am_GetByEmail_def am_Update_def am_UpdateBalanceAtomic_def bump_version_def version_of_def
  ac_CreateAccount_def UpdateAccount_def ActivateAccount_def FreezeAccount_def UnfreezeAccount_def
  CloseAccount_def UpdateKYCStatus_def AddPaymentInstrument_def RemovePaymentInstrument_def
  CreditBalance_def DebitBalance_def ac_operate_def checkAccountActive_def merge_metadata_def
  ac_validateCreateRequest_def ac_SupportedCurrencies_def new_account_def ac_fresh_def
  generateID_def hex_byte_def hex_digit_def Let_def

lemma example_email: "matches_emailRegex ''a@b.co''"
  by (simp add: matches_emailRegex_def matches_domain_def local_char_def domain_char_def letter_def)

definition example_account :: CreateAccountRequest where
  "example_account =
     \<lparr>car_Email = ''a@b.co'', car_Type = AccountTypePersonal, car_Currency = ''USD'',
      car_Profile = None, car_Metadata = None\<rparr>"

definition example_account_calls :: "ac_call list" where
  "example_account_calls =
     [CallCreateAccount (example_env 1) example_account,
      CallAccount (example_env 2) (OpCredit 500) ''acc_0100'',
      CallAccount (example_env 3) (OpDebit 120) ''acc_0100'',
      CallAccount (example_env 4) (OpDebit 400) ''acc_0100'']"

lemmas ac_example = example_account_def example_account_calls_def example_env_def example_email

lemma example_account_stored:
  obtains a where
    "am_accounts (run (ac_step ac_InMemoryRepository) example_account_calls ac_NewInMemoryRepository)
      ''acc_0100'' = Some a" "ac_Status a = AcPending" "sint (ac_Balance a) = 380"
    "ac_PaymentInstruments a = []"
    "am_valid (run (ac_step ac_InMemoryRepository) example_account_calls ac_NewInMemoryRepository)"
proof -
  have "run_ok (ac_step ac_InMemoryRepository) (\<lambda>s. ac_call_fresh (am_accounts s))
      example_account_calls ac_NewInMemoryRepository"
    by (simp add: ac_example ac_eval)
  from ac_mem.machine.run_inv [OF am_init(1) this] that show ?thesis
    by (auto simp: ac_example ac_eval)
qed

text \<open>
  C34: The service keeps the contract of an account.  On the in-memory repository, for a stored
  account with a balance that is not negative, every operation in its documented use returns the
  error of the contract and stores nothing, or stores and returns an account whose status, integer
  balance and instruments are those of the contract, with the identity of the account kept and
  profile, metadata and verification written only by the operations that are about them; no other
  account changes.
\<close>

theorem account_service_refines:
  assumes "am_valid r" "am_accounts r i = Some a" "0 \<le> sint (ac_Balance a)" "op_as_documented a op"
  shows "case account_contract (id_or_empty (generateID ''pi'' (entropy e 0))) op (view_of a) of
      Inl err \<Rightarrow> \<exists>r'. ac_operate ac_InMemoryRepository e op i r = (Inl err, r') \<and>
        am_valid r' \<and> am_accounts r' = am_accounts r
    | Inr v \<Rightarrow> \<exists>b r'. ac_operate ac_InMemoryRepository e op i r = (Inr b, r') \<and> am_valid r' \<and>
        am_accounts r' = (am_accounts r)(i \<mapsto> b) \<and> view_of b = v \<and> account_kept e op a b"
  using contract_spec [of "am_accounts r" i a e op, OF assms(2,3)]
    ac_mem.operate_refines [OF assms(1), of e op i]
  by (auto split: sum.splits)

theorem account_service_refines_witness:
  "\<exists>b r'. ac_operate ac_InMemoryRepository (example_env 5) (OpFreeze ''audit'') ''acc_0100''
      (run (ac_step ac_InMemoryRepository) example_account_calls ac_NewInMemoryRepository) = (Inr b, r') \<and>
    meta_at (ac_Metadata b) ''freeze_reason'' = Some ''audit'' \<and> sint (ac_Balance b) = 380 \<and>
    (\<exists>s. ac_operate ac_InMemoryRepository (example_env 6) (OpDebit 80) ''acc_0100'' r' =
       (Inl ErrAccountFrozen, s))"
proof -
  let ?R = "ac_InMemoryRepository"
  let ?s = "run (ac_step ?R) example_account_calls ac_NewInMemoryRepository"
  obtain a where a: "am_accounts ?s ''acc_0100'' = Some a" "ac_Status a = AcPending"
    "sint (ac_Balance a) = 380" "ac_PaymentInstruments a = []" and valid: "am_valid ?s"
    by (rule example_account_stored)
  have "0 \<le> sint (ac_Balance a)" "op_as_documented a (OpFreeze ''audit'')" using a by simp_all
  from account_service_refines [OF valid a(1) this, of "example_env 5"] obtain b r' where
    b: "ac_operate ?R (example_env 5) (OpFreeze ''audit'') ''acc_0100'' ?s = (Inr b, r')" "am_valid r'"
      "am_accounts r' ''acc_0100'' = Some b" "view_of b = (view_of a)\<lparr>av_status := AcFrozen\<rparr>"
      "account_kept (example_env 5) (OpFreeze ''audit'') a b"
    by auto
  have bal: "sint (ac_Balance b) = 380" "ac_Status b = AcFrozen"
    using b(4) a by (simp_all add: view_of_def)
  have "\<exists>s. ac_operate ?R (example_env 6) (OpDebit 80) ''acc_0100'' r' = (Inl ErrAccountFrozen, s)"
    using account_service_refines [OF b(2,3), of "OpDebit 80" "example_env 6"] bal
    by (auto simp: view_of_def while_usable_def)
  moreover have "meta_at (ac_Metadata b) ''freeze_reason'' = Some ''audit''"
    using b(5) by (simp add: account_kept_def)
  ultimately show ?thesis using b(1) bal(1) by blast
qed

text \<open>
  Activation lifts a freeze: \<open>ActivateAccount\<close>, documented to activate a pending account, makes a frozen
  account active without its having been unfrozen.
\<close>

theorem frozen_account_activates:
  assumes "am_valid r" "am_accounts r i = Some a" "ac_Status a = AcFrozen"
  shows "\<exists>b. fst (ActivateAccount ac_InMemoryRepository e i r) = Inr b \<and> ac_Status b = AcActive"
  using assms am_valid_ID [OF assms(1,2)]
  by (simp add: ActivateAccount_def ac_InMemoryRepository_def am_GetByID_def am_Update_def Let_def)

text \<open>
  C9: Money is conserved.  Starting from an empty repository, after any sequence of calls with fresh
  identifiers the balance of an account is exactly the sum of the amounts of its successful
  credits less its successful debits, as integers (nothing ever wraps), and it is not negative.
\<close>

theorem balances_conserved:
  assumes "run_ok (ac_step ac_InMemoryRepository) (\<lambda>s. ac_call_fresh (am_accounts s)) calls
      ac_NewInMemoryRepository"
    and "am_accounts (run (ac_step ac_InMemoryRepository) calls ac_NewInMemoryRepository) i = Some a"
  shows "sint (ac_Balance a) = total_moved ac_InMemoryRepository i calls ac_NewInMemoryRepository \<and>
    0 \<le> sint (ac_Balance a)"
proof -
  have "account_ok_data a"
    using ac_mem.machine.run_inv [OF am_init(1) assms(1)] assms(2) by (auto simp: accounts_ok_def)
  with ac_mem.run_balance [OF am_init(1) assms(1), of i] assms(2) show ?thesis
    by (simp add: am_init(2)) (simp add: balance_of_def account_ok_data_def)
qed

theorem balances_conserved_witness:
  "\<exists>a. am_accounts (run (ac_step ac_InMemoryRepository) example_account_calls ac_NewInMemoryRepository)
      ''acc_0100'' = Some a \<and> sint (ac_Balance a) = 380 \<and>
    total_moved ac_InMemoryRepository ''acc_0100'' example_account_calls ac_NewInMemoryRepository = 380"
proof -
  let ?run = "run (ac_step ac_InMemoryRepository) example_account_calls ac_NewInMemoryRepository"
  have ok: "run_ok (ac_step ac_InMemoryRepository) (\<lambda>s. ac_call_fresh (am_accounts s))
      example_account_calls ac_NewInMemoryRepository"
    by (simp add: ac_example ac_eval)
  moreover obtain a where "am_accounts ?run ''acc_0100'' = Some a" "sint (ac_Balance a) = 380"
    by (simp add: ac_example ac_eval)
  ultimately show ?thesis using balances_conserved [OF ok] by metis
qed

text \<open>
  Stored accounts are well formed.  Along every run from an empty repository with fresh
  identifiers, a stored account has at most one default payment instrument, an email of the
  accepted form and a supported currency, and it is the one its email finds (so no two accounts
  share an email).
\<close>

theorem stored_accounts_well_formed:
  assumes "run_ok (ac_step ac_InMemoryRepository) (\<lambda>s. ac_call_fresh (am_accounts s)) calls
      ac_NewInMemoryRepository"
    and "am_accounts (run (ac_step ac_InMemoryRepository) calls ac_NewInMemoryRepository) i = Some a"
  shows "length (filter pi_IsDefault (ac_PaymentInstruments a)) \<le> 1 \<and> matches_emailRegex (ac_Email a) \<and>
    ac_Currency a \<in> set ac_SupportedCurrencies \<and>
    GetAccountByEmail ac_InMemoryRepository (ac_Email a)
      (run (ac_step ac_InMemoryRepository) calls ac_NewInMemoryRepository) = Inr (Some a)"
proof -
  from ac_mem.machine.run_inv [OF am_init(1) assms(1)] assms(2)
  have "account_ok_data a" "am_valid (run (ac_step ac_InMemoryRepository) calls ac_NewInMemoryRepository)"
    by (auto simp: accounts_ok_def)
  with ac_mem.get_email [OF this(2) assms(2)] show ?thesis
    by (simp add: account_ok_data_def defaults_def GetAccountByEmail_def)
qed

theorem stored_accounts_well_formed_witness:
  "\<exists>a. am_accounts (run (ac_step ac_InMemoryRepository)
      [CallCreateAccount (example_env 1) example_account,
       CallAccount (example_env 2) (OpAddInstrument \<lparr>apr_Type = ''card'', apr_Token = [], apr_IsDefault = True\<rparr>)
         ''acc_0100'',
       CallAccount (example_env 3) (OpAddInstrument \<lparr>apr_Type = ''wallet'', apr_Token = [], apr_IsDefault = True\<rparr>)
         ''acc_0100'']
      ac_NewInMemoryRepository) ''acc_0100'' = Some a \<and> length (ac_PaymentInstruments a) = 2 \<and>
    length (filter pi_IsDefault (ac_PaymentInstruments a)) \<le> 1"
proof -
  let ?calls = "[CallCreateAccount (example_env 1) example_account,
       CallAccount (example_env 2) (OpAddInstrument \<lparr>apr_Type = ''card'', apr_Token = [], apr_IsDefault = True\<rparr>)
         ''acc_0100'',
       CallAccount (example_env 3) (OpAddInstrument \<lparr>apr_Type = ''wallet'', apr_Token = [], apr_IsDefault = True\<rparr>)
         ''acc_0100'']"
  have ok: "run_ok (ac_step ac_InMemoryRepository) (\<lambda>s. ac_call_fresh (am_accounts s)) ?calls
      ac_NewInMemoryRepository"
    by (simp add: ac_example ac_eval)
  moreover obtain a where
    "am_accounts (run (ac_step ac_InMemoryRepository) ?calls ac_NewInMemoryRepository) ''acc_0100'' = Some a"
    "length (ac_PaymentInstruments a) = 2"
    by (simp add: ac_example ac_eval add_instrument_def)
  ultimately show ?thesis using stored_accounts_well_formed [OF ok] by blast
qed

text \<open>
  What a credit and a debit do.  On an account that is neither frozen nor closed, with a
  balance that is not negative and a positive amount: a credit adds the amount when the sum fits
  in 64 bits, and is otherwise refused (with the repository's insufficient-balance error); a debit
  subtracts it when the balance covers it, and is otherwise refused.  A refused call changes nothing.
\<close>

theorem credit_debit_outcome:
  assumes "am_accounts r i = Some a" "checkAccountActive a = None" "0 \<le> sint (ac_Balance a)"
    "0 < sint amount"
  shows "(if sint (ac_Balance a) + sint amount < 2 ^ 63
      then \<exists>b r'. CreditBalance ac_InMemoryRepository e i amount r = (Inr b, r') \<and>
        sint (ac_Balance b) = sint (ac_Balance a) + sint amount \<and> am_accounts r' = (am_accounts r)(i \<mapsto> b)
      else CreditBalance ac_InMemoryRepository e i amount r = (Inl RepoErrInsufficientBalance, r)) \<and>
    (if sint amount \<le> sint (ac_Balance a)
      then \<exists>b r'. DebitBalance ac_InMemoryRepository e i amount r = (Inr b, r') \<and>
        sint (ac_Balance b) = sint (ac_Balance a) - sint amount \<and> am_accounts r' = (am_accounts r)(i \<mapsto> b)
      else DebitBalance ac_InMemoryRepository e i amount r = (Inl ErrInsufficientBalance, r))"
proof -
  have credit: "sint (ac_Balance a + amount) = (if sint (ac_Balance a) + sint amount < 2 ^ 63
      then sint (ac_Balance a) + sint amount else sint (ac_Balance a) + sint amount - 2 ^ 64)"
    using assms(3,4) sint64_add_overflow [of "ac_Balance a" amount] by (auto intro: sint64_add)
  have minus: "sint (- amount) = - sint amount"
    using assms(4) by (intro sint64_minus) simp
  have debit: "sint amount \<le> sint (ac_Balance a) \<Longrightarrow>
      sint (ac_Balance a - amount) = sint (ac_Balance a) - sint amount"
    using sint64_add [of "ac_Balance a" "- amount"] sint64_bounds [of "ac_Balance a"] assms(3,4)
    by (simp add: minus)
  show ?thesis
    using assms credit debit sint64_bounds [of "ac_Balance a"] sint64_bounds [of amount]
    by (auto simp: CreditBalance_def DebitBalance_def ac_InMemoryRepository_def am_GetByID_def
        am_UpdateBalanceAtomic_def Let_def)
qed

theorem credit_debit_outcome_witness:
  "CreditBalance ac_InMemoryRepository (example_env 1) ''i'' 9223372036854775807
     (ac_NewInMemoryRepository\<lparr>am_accounts := [''i'' \<mapsto> (new_account ''i'' example_account)\<lparr>ac_Balance := 1\<rparr>]\<rparr>) =
   (Inl RepoErrInsufficientBalance,
     ac_NewInMemoryRepository\<lparr>am_accounts := [''i'' \<mapsto> (new_account ''i'' example_account)\<lparr>ac_Balance := 1\<rparr>]\<rparr>)"
  using credit_debit_outcome [of "ac_NewInMemoryRepository
      \<lparr>am_accounts := [''i'' \<mapsto> (new_account ''i'' example_account)\<lparr>ac_Balance := 1\<rparr>]\<rparr>" "''i''"
      "(new_account ''i'' example_account)\<lparr>ac_Balance := 1\<rparr>" 9223372036854775807 "example_env 1"]
  by (simp add: checkAccountActive_def new_account_def)

text \<open>
  Frozen and closed accounts are protected.  Whatever the repository, an update of the profile, a
  new payment instrument, a credit or a debit of an account that is frozen or closed fails with
  that error and leaves the repository as it was.
\<close>

theorem inactive_account_protected:
  assumes "ar_GetByID R i s = Inr a" "ac_guarded op" "ac_precheck op = None"
    and "ac_Status a = AcFrozen \<or> ac_Status a = AcClosed"
  shows "ac_operate R e op i s =
    (Inl (if ac_Status a = AcFrozen then ErrAccountFrozen else ErrAccountClosed), s)"
  using assms by (cases op) (auto simp: ac_operate_def UpdateAccount_def AddPaymentInstrument_def
      CreditBalance_def DebitBalance_def checkAccountActive_def split: if_splits)

theorem inactive_account_protected_witness:
  "ac_operate ac_InMemoryRepository (example_env 1) (OpCredit 5) ''i''
     (ac_NewInMemoryRepository\<lparr>am_accounts := [''i'' \<mapsto> (new_account ''i'' example_account)\<lparr>ac_Status := AcClosed\<rparr>]\<rparr>) =
   (Inl ErrAccountClosed,
     ac_NewInMemoryRepository\<lparr>am_accounts := [''i'' \<mapsto> (new_account ''i'' example_account)\<lparr>ac_Status := AcClosed\<rparr>]\<rparr>)"
  using inactive_account_protected [of ac_InMemoryRepository "''i''" "ac_NewInMemoryRepository
      \<lparr>am_accounts := [''i'' \<mapsto> (new_account ''i'' example_account)\<lparr>ac_Status := AcClosed\<rparr>]\<rparr>"
      "(new_account ''i'' example_account)\<lparr>ac_Status := AcClosed\<rparr>" "OpCredit 5" "example_env 1"]
  by (simp add: ac_InMemoryRepository_def am_GetByID_def)

text \<open>
  Closing is not permanent.  A closed account that is frozen and then unfrozen is active again
  (activating it directly is refused): neither \<open>FreezeAccount\<close> nor \<open>UnfreezeAccount\<close> looks for a
  closed account.
\<close>

theorem closed_account_reopens:
  assumes "am_valid r" "am_accounts r i = Some a" "ac_Status a = AcClosed"
  shows "ActivateAccount ac_InMemoryRepository e i r = (Inl ErrAccountClosed, r) \<and>
    (\<exists>b. fst (UnfreezeAccount ac_InMemoryRepository e2 i
       (snd (FreezeAccount ac_InMemoryRepository e1 i reason r))) = Inr b \<and> ac_Status b = AcActive)"
  using assms am_valid_ID [OF assms(1,2)]
  by (simp add: ActivateAccount_def FreezeAccount_def UnfreezeAccount_def ac_InMemoryRepository_def
      am_GetByID_def am_Update_def Let_def)

theorem closed_account_reopens_witness:
  "\<exists>b. fst (UnfreezeAccount ac_InMemoryRepository (example_env 5) ''acc_0100''
     (snd (FreezeAccount ac_InMemoryRepository (example_env 4) ''acc_0100'' ''audit''
       (run (ac_step ac_InMemoryRepository)
         [CallCreateAccount (example_env 1) example_account, CallAccount (example_env 2) OpClose ''acc_0100'']
         ac_NewInMemoryRepository)))) = Inr b \<and> ac_Status b = AcActive"
proof -
  let ?calls = "[CallCreateAccount (example_env 1) example_account,
    CallAccount (example_env 2) OpClose ''acc_0100'']"
  let ?r = "run (ac_step ac_InMemoryRepository) ?calls ac_NewInMemoryRepository"
  have "run_ok (ac_step ac_InMemoryRepository) (\<lambda>s. ac_call_fresh (am_accounts s)) ?calls
      ac_NewInMemoryRepository"
    by (simp add: ac_example ac_eval)
  from ac_mem.machine.run_inv [OF am_init(1) this] have valid: "am_valid ?r" by blast
  obtain a where "am_accounts ?r ''acc_0100'' = Some a" "ac_Status a = AcClosed"
    by (simp add: ac_example ac_eval)
  from closed_account_reopens [OF valid this] show ?thesis by blast
qed

text \<open>
  Optimistic locking excludes lost updates.  Of two writers that have read the same version of an
  account, the first write with \<open>UpdateWithVersion\<close> succeeds and the second, whatever it writes,
  fails with \<open>ErrConcurrentUpdate\<close> and changes nothing; without a stored account both fail.
\<close>

theorem optimistic_locking:
  assumes "am_GetVersion i r = Inr v" "am_valid r" "ac_ID a = i" "ac_ID b = i"
  shows "\<exists>r'. am_UpdateWithVersion t a v r = (Inr (a\<lparr>ac_UpdatedAt := t\<rparr>), r') \<and>
    am_accounts r' i = Some (a\<lparr>ac_UpdatedAt := t\<rparr>) \<and> am_GetVersion i r' = Inr (v + 1) \<and>
    am_UpdateWithVersion t' b v r' = (Inl ErrConcurrentUpdate, r')"
proof -
  have v: "am_versions r i = Some v"
    using assms(1) by (simp add: am_GetVersion_def split: option.splits)
  then have "am_accounts r i \<noteq> None"
    using am_valid_versions [OF assms(2)] by (metis domI domIff)
  with v assms(3,4) show ?thesis
    by (simp add: am_UpdateWithVersion_def am_GetVersion_def bump_version_def version_of_def Let_def)
qed

theorem optimistic_locking_witness:
  "\<exists>r'. am_UpdateWithVersion 9 ((new_account ''acc_0100'' example_account)\<lparr>ac_Balance := 7\<rparr>) 1
     (run (ac_step ac_InMemoryRepository) [CallCreateAccount (example_env 1) example_account]
       ac_NewInMemoryRepository) =
     (Inr (((new_account ''acc_0100'' example_account)\<lparr>ac_Balance := 7\<rparr>)\<lparr>ac_UpdatedAt := 9\<rparr>), r') \<and>
   am_UpdateWithVersion 10 (new_account ''acc_0100'' example_account) 1 r' = (Inl ErrConcurrentUpdate, r')"
proof -
  let ?calls = "[CallCreateAccount (example_env 1) example_account]"
  let ?r = "run (ac_step ac_InMemoryRepository) ?calls ac_NewInMemoryRepository"
  have "run_ok (ac_step ac_InMemoryRepository) (\<lambda>s. ac_call_fresh (am_accounts s)) ?calls
      ac_NewInMemoryRepository"
    by (simp add: ac_example ac_eval)
  from ac_mem.machine.run_inv [OF am_init(1) this] have valid: "am_valid ?r" by blast
  have version: "am_GetVersion ''acc_0100'' ?r = Inr 1"
    by (simp add: am_GetVersion_def ac_example ac_eval)
  from optimistic_locking [OF version valid, of "(new_account ''acc_0100'' example_account)\<lparr>ac_Balance := 7\<rparr>"
      "new_account ''acc_0100'' example_account" 9 10]
  show ?thesis by (auto simp: new_account_def)
qed

text \<open>
  Which emails are accepted.  The validation of a request rejects its email exactly when the email
  is not a non-empty local part of letters, digits and \<open>._%+-\<close>, an at sign, a non-empty domain of
  letters, digits, dots and hyphens, a dot, and at least two letters.
\<close>

theorem accepted_emails:
  "ac_validateCreateRequest req \<noteq> Some ErrInvalidEmail \<longleftrightarrow>
     (\<exists>name front tld. car_Email req = name @ ''@'' @ front @ ''.'' @ tld \<and>
        name \<noteq> [] \<and> list_all local_char name \<and> front \<noteq> [] \<and> list_all domain_char front \<and>
        2 \<le> length tld \<and> list_all letter tld)"
  unfolding matches_emailRegex_iff [symmetric] by (simp add: ac_validateCreateRequest_def)

end
