(* ===== verification/AccountApi.thy ===== *)
theory AccountApi
  imports Api Account
begin

text \<open>
  The HTTP interface of the account service: the handlers of \<open>services/account/handlers/handlers.go\<close> and
  the routes of \<open>services/account/cmd/main.go\<close>, in the manner of the transaction interface.
\<close>

section \<open>The handlers\<close>

record ac_codec =
  cc_create :: "string \<Rightarrow> CreateAccountRequest \<times> bool"
  cc_update :: "string \<Rightarrow> UpdateAccountRequest \<times> bool"
  cc_reason :: "string \<Rightarrow> string \<times> bool"
  cc_status :: "string \<Rightarrow> KYCStatus \<times> bool"
  cc_instrument :: "string \<Rightarrow> AddPaymentInstrumentRequest \<times> bool"
  cc_amount :: "string \<Rightarrow> int64 \<times> bool"
  cc_entropy_error :: string

datatype ac_payload = AccountResponse Account | AccountListResponse "Account list" nat

fun account_error_text :: "ac_codec \<Rightarrow> account_error \<Rightarrow> string" where
  "account_error_text codec AcErrAccountNotFound = ''account not found''"
| "account_error_text codec ErrEmailAlreadyExists = ''email already exists''"
| "account_error_text codec ErrInstrumentNotFound = ''payment instrument not found''"
| "account_error_text codec ErrConcurrentUpdate = ''concurrent update detected''"
| "account_error_text codec RepoErrInsufficientBalance = ''insufficient balance''"
| "account_error_text codec ErrInvalidEmail = ''invalid email address''"
| "account_error_text codec AcErrInvalidType = ''invalid account type''"
| "account_error_text codec AcErrInvalidCurrency = ''invalid currency''"
| "account_error_text codec ErrAccountFrozen = ''account is frozen''"
| "account_error_text codec ErrAccountClosed = ''account is closed''"
| "account_error_text codec ErrInsufficientBalance = ''insufficient balance''"
| "account_error_text codec ErrKYCRequired = ''KYC verification required''"
| "account_error_text codec AcErrInvalidAmount = ''amount must be positive''"
| "account_error_text codec ErrInvalidPagination = ''invalid pagination parameters''"
| "account_error_text codec AcErrEntropy = cc_entropy_error codec"

definition account_notFound :: "ac_payload ApiResponse" where
  "account_notFound = errorResponse 404 ''account not found''"

definition handleAccountError :: "ac_codec \<Rightarrow> nat \<Rightarrow> account_error \<Rightarrow> ac_payload ApiResponse" where
  "handleAccountError codec failure err =
     (if err = AcErrAccountNotFound then account_notFound
      else errorResponse failure (account_error_text codec err))"

definition account_outcome ::
  "ac_codec \<Rightarrow> nat \<Rightarrow> nat \<Rightarrow> account_error + Account \<Rightarrow> ac_payload ApiResponse" where
  "account_outcome codec success failure result =
     (case result of
        Inl err \<Rightarrow> handleAccountError codec failure err
      | Inr account \<Rightarrow> jsonResponse success (Reply (AccountResponse account)))"

text \<open>
  A handler of an action: the check of the method, the decoding of the body, which is refused when
  \<open>decode\<close> is \<open>None\<close>, and the call.
\<close>

definition decoded :: "'a \<times> bool \<Rightarrow> 'a option" where
  "decoded result = (if snd result then Some (fst result) else None)"

definition account_action ::
  "ac_codec \<Rightarrow> string \<Rightarrow> nat \<Rightarrow> (string \<Rightarrow> 'v option) \<Rightarrow>
    ('v \<Rightarrow> 's \<Rightarrow> (account_error + Account) \<times> 's) \<Rightarrow> (ac_payload, 's) api" where
  "account_action codec verb success dec operation x s =
     (if rq_Method x \<noteq> verb then (Some methodNotAllowed, s)
      else
        (case dec (rq_Body x) of
           None \<Rightarrow> (Some (badRequest ''invalid request body''), s)
         | Some v \<Rightarrow>
             let (result, s') = operation v s
             in (Some (account_outcome codec success 400 result), s')))"

definition activateAccount ::
  "'s AccountRepository \<Rightarrow> ac_codec \<Rightarrow> env \<Rightarrow> string \<Rightarrow> (ac_payload, 's) api" where
  "activateAccount R codec e i =
     account_action codec ''POST'' 200 (\<lambda>body. Some ()) (\<lambda>_. ActivateAccount R e i)"

definition freezeAccount ::
  "'s AccountRepository \<Rightarrow> ac_codec \<Rightarrow> env \<Rightarrow> string \<Rightarrow> (ac_payload, 's) api" where
  "freezeAccount R codec e i =
     account_action codec ''POST'' 200 (\<lambda>body. Some (fst (cc_reason codec body))) (FreezeAccount R e i)"

definition unfreezeAccount ::
  "'s AccountRepository \<Rightarrow> ac_codec \<Rightarrow> env \<Rightarrow> string \<Rightarrow> (ac_payload, 's) api" where
  "unfreezeAccount R codec e i =
     account_action codec ''POST'' 200 (\<lambda>body. Some ()) (\<lambda>_. UnfreezeAccount R e i)"

definition closeAccount ::
  "'s AccountRepository \<Rightarrow> ac_codec \<Rightarrow> env \<Rightarrow> string \<Rightarrow> (ac_payload, 's) api" where
  "closeAccount R codec e i =
     account_action codec ''POST'' 200 (\<lambda>body. Some ()) (\<lambda>_. CloseAccount R e i)"

definition updateKYC ::
  "'s AccountRepository \<Rightarrow> ac_codec \<Rightarrow> env \<Rightarrow> string \<Rightarrow> (ac_payload, 's) api" where
  "updateKYC R codec e i =
     account_action codec ''POST'' 200 (\<lambda>body. decoded (cc_status codec body)) (UpdateKYCStatus R e i)"

definition addPaymentInstrument ::
  "'s AccountRepository \<Rightarrow> ac_codec \<Rightarrow> env \<Rightarrow> string \<Rightarrow> (ac_payload, 's) api" where
  "addPaymentInstrument R codec e i =
     account_action codec ''POST'' 201 (\<lambda>body. decoded (cc_instrument codec body)) (AddPaymentInstrument R e i)"

definition removePaymentInstrument ::
  "'s AccountRepository \<Rightarrow> ac_codec \<Rightarrow> env \<Rightarrow> string \<Rightarrow> string \<Rightarrow> (ac_payload, 's) api" where
  "removePaymentInstrument R codec e i instrumentID =
     account_action codec ''DELETE'' 200 (\<lambda>body. Some ()) (\<lambda>_. RemovePaymentInstrument R e i instrumentID)"

definition creditBalance ::
  "'s AccountRepository \<Rightarrow> ac_codec \<Rightarrow> env \<Rightarrow> string \<Rightarrow> (ac_payload, 's) api" where
  "creditBalance R codec e i =
     account_action codec ''POST'' 200 (\<lambda>body. decoded (cc_amount codec body)) (CreditBalance R e i)"

definition debitBalance ::
  "'s AccountRepository \<Rightarrow> ac_codec \<Rightarrow> env \<Rightarrow> string \<Rightarrow> (ac_payload, 's) api" where
  "debitBalance R codec e i =
     account_action codec ''POST'' 200 (\<lambda>body. decoded (cc_amount codec body)) (DebitBalance R e i)"

definition updateAccount ::
  "'s AccountRepository \<Rightarrow> ac_codec \<Rightarrow> env \<Rightarrow> string \<Rightarrow> (ac_payload, 's) api" where
  "updateAccount R codec e i x s =
     (case decoded (cc_update codec (rq_Body x)) of
        None \<Rightarrow> (Some (badRequest ''invalid request body''), s)
      | Some req \<Rightarrow>
          let (result, s') = UpdateAccount R e i req s
          in (Some (account_outcome codec 200 400 result), s'))"

definition getAccount :: "'s AccountRepository \<Rightarrow> ac_codec \<Rightarrow> string \<Rightarrow> (ac_payload, 's) api" where
  "getAccount R codec i x s = (Some (account_outcome codec 200 500 (ac_GetAccount R i s)), s)"

definition createAccount ::
  "'s AccountRepository \<Rightarrow> ac_codec \<Rightarrow> env \<Rightarrow> (ac_payload, 's) api" where
  "createAccount R codec e x s =
     (case decoded (cc_create codec (rq_Body x)) of
        None \<Rightarrow> (Some (badRequest ''invalid request body''), s)
      | Some req \<Rightarrow>
          (case ac_CreateAccount R e req s of
             (Inl err, s') \<Rightarrow>
               (Some (errorResponse (if err = ErrEmailAlreadyExists then 409 else 400)
                  (account_error_text codec err)), s')
           | (Inr account, s') \<Rightarrow> (Some (jsonResponse 201 (Reply (AccountResponse account))), s')))"

definition account_type_of :: "string \<Rightarrow> AccountType" where
  "account_type_of s =
     (if s = ''personal'' then AccountTypePersonal
      else if s = ''business'' then AccountTypeBusiness
      else if s = ''merchant'' then AccountTypeMerchant
      else AccountTypeOther s)"

text \<open>The errors of \<open>Atoi\<close> are ignored: a malformed number counts as the value it comes with.\<close>

definition listAccounts :: "'s AccountRepository \<Rightarrow> ac_codec \<Rightarrow> string list \<Rightarrow> (ac_payload, 's) api" where
  "listAccounts R codec ks x s =
     (let accountType = account_type_of (query_Get x ''type'');
          limit = fst (Atoi (query_Get x ''limit''));
          offset = fst (Atoi (query_Get x ''offset''));
          limit = (if limit = 0 then 20 else limit)
      in (map_option (\<lambda>result.
            (case result of
               Inl err \<Rightarrow> errorResponse 500 (account_error_text codec err)
             | Inr (accounts, number) \<Rightarrow> jsonResponse 200 (Reply (AccountListResponse accounts number))))
           (ListAccounts R ks accountType limit offset s), s))"

definition handleAccounts ::
  "'s AccountRepository \<Rightarrow> ac_codec \<Rightarrow> env \<Rightarrow> string list \<Rightarrow> (ac_payload, 's) api" where
  "handleAccounts R codec e ks x s =
     (if rq_Method x = ''POST'' then createAccount R codec e x s
      else if rq_Method x = ''GET'' then listAccounts R codec ks x s
      else (Some methodNotAllowed, s))"

definition ac_path_parts :: "string \<Rightarrow> string list" where
  "ac_path_parts path = split_char CHR ''/'' (trim_prefix ''/accounts/'' path)"

definition account_actions ::
  "'s AccountRepository \<Rightarrow> ac_codec \<Rightarrow> env \<Rightarrow> string \<Rightarrow> string \<Rightarrow> string list \<Rightarrow> (ac_payload, 's) api" where
  "account_actions R codec e i action rest x s =
     (if action = ''activate'' then activateAccount R codec e i x s
      else if action = ''freeze'' then freezeAccount R codec e i x s
      else if action = ''unfreeze'' then unfreezeAccount R codec e i x s
      else if action = ''close'' then closeAccount R codec e i x s
      else if action = ''kyc'' then updateKYC R codec e i x s
      else if action = ''payment-instruments'' then
        (case rest of
           instrumentID # _ \<Rightarrow> removePaymentInstrument R codec e i instrumentID x s
         | [] \<Rightarrow> addPaymentInstrument R codec e i x s)
      else if action = ''credit'' then creditBalance R codec e i x s
      else if action = ''debit'' then debitBalance R codec e i x s
      else (Some account_notFound, s))"

definition handleAccount :: "'s AccountRepository \<Rightarrow> ac_codec \<Rightarrow> env \<Rightarrow> (ac_payload, 's) api" where
  "handleAccount R codec e x s =
     (case ac_path_parts (rq_Path x) of
        [] \<Rightarrow> (Some (badRequest ''account ID required''), s)
      | i # rest \<Rightarrow>
          if i = [] then (Some (badRequest ''account ID required''), s)
          else
            (case rest of
               action # rest' \<Rightarrow> account_actions R codec e i action rest' x s
             | [] \<Rightarrow>
                 if rq_Method x = ''GET'' then getAccount R codec i x s
                 else if rq_Method x = ''PUT'' \<or> rq_Method x = ''PATCH'' then updateAccount R codec e i x s
                 else (Some methodNotAllowed, s)))"

definition ac_routes ::
  "'s AccountRepository \<Rightarrow> ac_codec \<Rightarrow> env \<Rightarrow> string list \<Rightarrow> (string \<times> (ac_payload, 's) api) list" where
  "ac_routes R codec e ks =
     [(''/health'', health_handler ''{\"status\":\"healthy\",\"service\":\"account\"}''),
      (''/accounts'', handleAccounts R codec e ks),
      (''/accounts/'', handleAccount R codec e)]"

record ac_arrival =
  aa_request :: ApiRequest
  aa_env :: env
  aa_order :: "string list"

definition ac_serve ::
  "'s AccountRepository \<Rightarrow> ac_codec \<Rightarrow> ac_arrival \<Rightarrow> 's \<Rightarrow> ac_payload ApiResponse option \<times> 's" where
  "ac_serve R codec a s = serve_mux (ac_routes R codec (aa_env a) (aa_order a)) (aa_request a) s"

section \<open>The calls of a request\<close>

definition ac_action_op :: "ac_codec \<Rightarrow> ApiRequest \<Rightarrow> string \<Rightarrow> string list \<Rightarrow> ac_op option" where
  "ac_action_op codec x action rest =
     (if action = ''payment-instruments'' \<and> rest \<noteq> [] then
        if rq_Method x = ''DELETE'' then Some (OpRemoveInstrument (hd rest)) else None
      else if rq_Method x \<noteq> ''POST'' then None
      else if action = ''activate'' then Some OpActivate
      else if action = ''freeze'' then Some (OpFreeze (fst (cc_reason codec (rq_Body x))))
      else if action = ''unfreeze'' then Some OpUnfreeze
      else if action = ''close'' then Some OpClose
      else if action = ''kyc'' then map_option OpKYC (decoded (cc_status codec (rq_Body x)))
      else if action = ''payment-instruments''
      then map_option OpAddInstrument (decoded (cc_instrument codec (rq_Body x)))
      else if action = ''credit'' then map_option OpCredit (decoded (cc_amount codec (rq_Body x)))
      else if action = ''debit'' then map_option OpDebit (decoded (cc_amount codec (rq_Body x)))
      else None)"

definition ac_request_op :: "ac_codec \<Rightarrow> ApiRequest \<Rightarrow> (ac_op \<times> string) option" where
  "ac_request_op codec x =
     (if canonical x \<and> has_prefix (rq_Path x) ''/accounts/'' then
        (case ac_path_parts (rq_Path x) of
           i # action # rest \<Rightarrow>
             if i = [] then None else map_option (\<lambda>a. (a, i)) (ac_action_op codec x action rest)
         | [i] \<Rightarrow>
             if i \<noteq> [] \<and> (rq_Method x = ''PUT'' \<or> rq_Method x = ''PATCH'')
             then map_option (\<lambda>req. (OpUpdateAccount req, i)) (decoded (cc_update codec (rq_Body x)))
             else None
         | _ \<Rightarrow> None)
      else None)"

definition ac_create_request :: "ac_codec \<Rightarrow> ApiRequest \<Rightarrow> CreateAccountRequest option" where
  "ac_create_request codec x =
     (if rq_Path x = ''/accounts'' \<and> rq_Method x = ''POST''
      then decoded (cc_create codec (rq_Body x)) else None)"

definition ac_calls :: "ac_codec \<Rightarrow> ac_arrival \<Rightarrow> ac_call list" where
  "ac_calls codec a =
     (case ac_create_request codec (aa_request a) of
        Some req \<Rightarrow> [CallCreateAccount (aa_env a) req]
      | None \<Rightarrow>
          (case ac_request_op codec (aa_request a) of
             Some (oper, i) \<Rightarrow> [CallAccount (aa_env a) oper i]
           | None \<Rightarrow> []))"

lemmas ac_handlers = activateAccount_def freezeAccount_def unfreezeAccount_def closeAccount_def
  updateKYC_def addPaymentInstrument_def removePaymentInstrument_def creditBalance_def debitBalance_def

lemma ac_routed:
  "serve_mux (ac_routes R codec e ks) x s =
     (if \<not> canonical x then (Some \<lparr>as_Status = 301, as_Body = Redirect\<rparr>, s)
      else if rq_Path x = ''/health''
      then health_handler ''{\"status\":\"healthy\",\"service\":\"account\"}'' x s
      else if rq_Path x = ''/accounts'' then handleAccounts R codec e ks x s
      else if has_prefix (rq_Path x) ''/accounts/'' then handleAccount R codec e x s
      else (Some \<lparr>as_Status = 404, as_Body = Plain ''404 page not found''\<rparr>, s))"
  by (auto simp: serve_mux_def ac_routes_def route_matches_def longest_route_def has_suffix_def has_prefix_def)

text \<open>The status of success: 201 for a new instrument, 200 for everything else.\<close>

fun ac_success :: "ac_op \<Rightarrow> nat" where
  "ac_success (OpAddInstrument req) = 201"
| "ac_success _ = 200"

lemma account_actions_op:
  assumes "ac_action_op codec x action rest = Some oper"
  shows "account_actions R codec e i action rest x s =
    (let (result, s') = ac_operate R e oper i s
     in (Some (account_outcome codec (ac_success oper) 400 result), s'))"
  using assms
  by (auto simp: ac_action_op_def account_actions_def ac_handlers account_action_def ac_operate_def
      split: if_splits list.split prod.split option.splits)

lemma account_actions_None:
  assumes "ac_action_op codec x action rest = None"
  shows "account_actions R codec e i action rest x s = (fst (account_actions R codec e i action rest x s), s)"
  using assms
  by (auto simp: ac_action_op_def account_actions_def ac_handlers account_action_def
      split: if_splits list.split prod.split option.splits)

lemma clean_accounts [simp]: "clean_path ''/accounts''"
  by (simp add: clean_path_def)

lemma handle_account_op:
  assumes "ac_request_op codec x = Some (oper, i)"
  shows "handleAccount R codec e x s =
    (let (result, s') = ac_operate R e oper i s
     in (Some (account_outcome codec (ac_success oper) 400 result), s'))"
proof -
  obtain rest where parts: "ac_path_parts (rq_Path x) = i # rest" "i \<noteq> []"
    using assms by (auto simp: ac_request_op_def split: if_splits list.splits)
  show ?thesis
  proof (cases rest)
    case Nil
    with assms parts show ?thesis
      by (auto simp: ac_request_op_def handleAccount_def updateAccount_def ac_operate_def
          split: if_splits prod.split)
  next
    case (Cons action rest')
    with assms parts have "ac_action_op codec x action rest' = Some oper"
      by (auto simp: ac_request_op_def split: if_splits)
    with account_actions_op [OF this] parts Cons show ?thesis by (simp add: handleAccount_def)
  qed
qed

lemma handle_account_None:
  assumes "ac_request_op codec x = None" "canonical x" "has_prefix (rq_Path x) ''/accounts/''"
  shows "snd (handleAccount R codec e x s) = s"
proof (cases "ac_path_parts (rq_Path x)")
  case Nil
  then show ?thesis by (simp add: handleAccount_def)
next
  case (Cons i rest)
  show ?thesis
  proof (cases rest)
    case Nil
    with assms Cons show ?thesis
      by (auto simp: ac_request_op_def handleAccount_def updateAccount_def getAccount_def split: if_splits)
  next
    case (Cons action rest')
    with assms \<open>ac_path_parts (rq_Path x) = i # rest\<close>
    have none: "i = [] \<or> ac_action_op codec x action rest' = None"
      by (auto simp: ac_request_op_def split: if_splits)
    then show ?thesis
    proof
      assume "ac_action_op codec x action rest' = None"
      from account_actions_None [OF this, of R e i s, THEN arg_cong [where f = snd]]
        Cons \<open>ac_path_parts (rq_Path x) = i # rest\<close>
      show ?thesis by (simp add: handleAccount_def)
    qed (simp add: handleAccount_def \<open>ac_path_parts (rq_Path x) = i # rest\<close>)
  qed
qed

lemma ac_serve_op:
  assumes "ac_request_op codec (aa_request a) = Some (oper, i)"
  shows "ac_serve R codec a s =
    (let (result, s') = ac_operate R (aa_env a) oper i s
     in (Some (account_outcome codec (ac_success oper) 400 result), s'))"
proof -
  have "canonical (aa_request a)" "has_prefix (rq_Path (aa_request a)) ''/accounts/''"
    using assms by (auto simp: ac_request_op_def split: if_splits)
  moreover from this(2) have "rq_Path (aa_request a) \<noteq> ''/health''" "rq_Path (aa_request a) \<noteq> ''/accounts''"
    by (auto simp: has_prefix_def)
  ultimately show ?thesis
    using handle_account_op [OF assms] by (simp add: ac_serve_def ac_routed)
qed

lemma listAccounts_reads: "snd (listAccounts R codec ks x s) = s"
  by (simp add: listAccounts_def Let_def)

lemma ac_serve_None:
  assumes "ac_request_op codec (aa_request a) = None"
  shows "snd (ac_serve R codec a s) =
    (case ac_create_request codec (aa_request a) of
       None \<Rightarrow> s
     | Some req \<Rightarrow> snd (ac_CreateAccount R (aa_env a) req s))"
  using handle_account_None [OF assms, of R "aa_env a" s]
  by (auto simp: ac_serve_def ac_routed ac_create_request_def health_handler_def handleAccounts_def
      createAccount_def listAccounts_reads has_prefix_def split: prod.splits sum.splits option.splits)

lemma ac_create_no_action: "ac_create_request codec x = Some req \<Longrightarrow> ac_request_op codec x = None"
  by (auto simp: ac_create_request_def ac_request_op_def has_prefix_def split: if_splits)

interpretation accounts: server "ac_serve R codec" "ac_step R" "ac_calls codec"
proof
  fix a s
  show "snd (ac_serve R codec a s) = run (ac_step R) (ac_calls codec a) s"
  proof (cases "ac_request_op codec (aa_request a)")
    case None
    with ac_serve_None [OF this] show ?thesis
      by (auto simp: ac_calls_def split: option.split)
  next
    case (Some p)
    moreover obtain oper i where "p = (oper, i)" by (cases p)
    ultimately show ?thesis
      using ac_serve_op [of codec a oper i R s] ac_create_no_action [of codec "aa_request a"]
      by (auto simp: ac_calls_def split: option.split prod.split)
  qed
qed

section \<open>Failures change nothing\<close>

lemma am_operate_error: "ac_operate ac_InMemoryRepository e oper i r = (Inl err, r') \<Longrightarrow> r' = r"
  by (cases oper) (auto simp: ac_operate_def ac_InMemoryRepository_def UpdateAccount_def ActivateAccount_def
      FreezeAccount_def UnfreezeAccount_def CloseAccount_def UpdateKYCStatus_def AddPaymentInstrument_def
      RemovePaymentInstrument_def am_Update_def am_GetByID_def Let_def
      CreditBalance_def DebitBalance_def am_UpdateBalanceAtomic_def
      split: sum.splits option.splits if_splits prod.splits)

lemma am_create_error: "ac_CreateAccount ac_InMemoryRepository e req r = (Inl err, r') \<Longrightarrow> r' = r"
  by (auto simp: ac_CreateAccount_def ac_InMemoryRepository_def am_Create_def Let_def
      split: sum.splits option.splits if_splits)

section \<open>Properties\<close>

text \<open>A client that creates an account, is credited 500 cents, debited 120 and tries to debit 400.\<close>

definition example_ac_codec :: ac_codec where
  "example_ac_codec =
     \<lparr>cc_create = (\<lambda>body. (example_account, body = ''account'')),
      cc_update = (\<lambda>body. (\<lparr>uar_Profile = None, uar_Metadata = None\<rparr>, True)),
      cc_reason = (\<lambda>body. ([], False)), cc_status = (\<lambda>body. (KYCPending, True)),
      cc_instrument = (\<lambda>body. (\<lparr>apr_Type = ''card'', apr_Token = [], apr_IsDefault = True\<rparr>, True)),
      cc_amount = (\<lambda>body. (if body = ''500'' then 500 else if body = ''120'' then 120 else 400, True)),
      cc_entropy_error = ''entropy''\<rparr>"

definition account_request :: "string \<Rightarrow> string \<Rightarrow> string \<Rightarrow> byte \<Rightarrow> ac_arrival" where
  "account_request verb path body b =
     \<lparr>aa_request = \<lparr>rq_Method = verb, rq_Host = [], rq_Path = path, rq_RawQuery = [], rq_Query = [],
        rq_Header = (\<lambda>_. []), rq_RemoteAddr = [], rq_Body = body\<rparr>,
      aa_env = example_env b, aa_order = []\<rparr>"

definition example_account_arrivals :: "ac_arrival list" where
  "example_account_arrivals =
     [account_request ''POST'' ''/accounts'' ''account'' 1,
      account_request ''POST'' ''/accounts/acc_0100/credit'' ''500'' 2,
      account_request ''POST'' ''/accounts/acc_0100/debit'' ''120'' 3,
      account_request ''POST'' ''/accounts/acc_0100/debit'' ''400'' 4]"

lemmas ac_api_eval = ac_calls_def ac_create_request_def ac_request_op_def ac_action_op_def ac_path_parts_def
  canonical_def clean_path_def trim_prefix_def has_prefix_def decoded_def account_request_def example_ac_codec_def

lemma example_account_arrivals_calls:
  "concat (map (ac_calls example_ac_codec) example_account_arrivals) = example_account_calls"
  by (simp add: example_account_arrivals_def example_account_calls_def ac_api_eval)

text \<open>
  C39: Money at the interface.  Whatever requests arrive from the start, as long as the drawn identifiers are
  fresh, the balance of every account is exactly what the credits and debits among them that
  succeeded add up to, and it is never negative.
\<close>

theorem account_api_conserves:
  assumes "run_ok (ac_step ac_InMemoryRepository) (\<lambda>r. ac_call_fresh (am_accounts r))
      (concat (map (ac_calls codec) arrivals)) ac_NewInMemoryRepository"
    and "am_accounts (run (served (ac_serve ac_InMemoryRepository codec)) arrivals
      ac_NewInMemoryRepository) i = Some a"
  shows "sint (ac_Balance a) = total_moved ac_InMemoryRepository i
      (concat (map (ac_calls codec) arrivals)) ac_NewInMemoryRepository \<and> 0 \<le> sint (ac_Balance a)"
proof -
  have "accounts_ok (am_accounts (run (served (ac_serve ac_InMemoryRepository codec)) arrivals
      ac_NewInMemoryRepository))"
    unfolding accounts.run_served using ac_mem.machine.run_inv [OF am_init(1) assms(1)] by simp
  then have "0 \<le> sint (ac_Balance a)"
    using assms(2) by (auto simp: accounts_ok_def account_ok_data_def)
  then show ?thesis
    using ac_mem.run_balance [OF am_init(1) assms(1), of i] assms(2)
    unfolding accounts.run_served by (simp add: am_init(2)) (simp add: balance_of_def)
qed

theorem account_api_conserves_witness:
  "\<exists>a. am_accounts (run (served (ac_serve ac_InMemoryRepository example_ac_codec)) example_account_arrivals
      ac_NewInMemoryRepository) ''acc_0100'' = Some a \<and> sint (ac_Balance a) = 380 \<and>
    total_moved ac_InMemoryRepository ''acc_0100'' example_account_calls ac_NewInMemoryRepository = 380"
proof -
  have ok: "run_ok (ac_step ac_InMemoryRepository) (\<lambda>r. ac_call_fresh (am_accounts r))
      (concat (map (ac_calls example_ac_codec) example_account_arrivals)) ac_NewInMemoryRepository"
    unfolding example_account_arrivals_calls
    by (simp add: ac_example ac_eval)
  moreover obtain a where "am_accounts (run (served (ac_serve ac_InMemoryRepository example_ac_codec))
      example_account_arrivals ac_NewInMemoryRepository) ''acc_0100'' = Some a" "sint (ac_Balance a) = 380"
    unfolding accounts.run_served example_account_arrivals_calls
    by (simp add: ac_example ac_eval)
  ultimately show ?thesis
    using account_api_conserves [OF ok] unfolding example_account_arrivals_calls by fastforce
qed

text \<open>
  Failures change nothing.  A request to the account service that is answered with a status of 400
  or more, whatever it asked for, leaves the repository as it was.
\<close>

theorem failed_account_requests_change_nothing:
  assumes "ac_serve ac_InMemoryRepository codec a r = (Some answer, r')" "400 \<le> as_Status answer"
  shows "r' = r"
proof (cases "ac_request_op codec (aa_request a)")
  case (Some p)
  obtain oper i where p: "p = (oper, i)" by (cases p)
  have "ac_success oper < 400" by (cases oper) simp_all
  with ac_serve_op [of codec a oper i ac_InMemoryRepository r] Some p assms show ?thesis
    by (auto simp: account_outcome_def reply_defs dest: am_operate_error split: prod.splits sum.splits)
next
  case None
  show ?thesis
  proof (cases "ac_create_request codec (aa_request a)")
    case None
    with ac_serve_None [OF \<open>ac_request_op codec (aa_request a) = None\<close>, of ac_InMemoryRepository r] assms(1)
    show ?thesis by simp
  next
    case (Some req)
    then have "ac_serve ac_InMemoryRepository codec a r =
        createAccount ac_InMemoryRepository codec (aa_env a) (aa_request a) r"
      and "decoded (cc_create codec (rq_Body (aa_request a))) = Some req"
      by (auto simp: ac_create_request_def ac_serve_def ac_routed handleAccounts_def split: if_splits)
    with assms show ?thesis
      by (auto simp: createAccount_def reply_defs dest: am_create_error split: prod.splits sum.splits)
  qed
qed

theorem failed_account_requests_change_nothing_witness:
  "snd (ac_serve ac_InMemoryRepository example_ac_codec
     (account_request ''POST'' ''/accounts/acc_0100/debit'' ''400'' 4) ac_NewInMemoryRepository) =
   ac_NewInMemoryRepository"
proof -
  let ?served = "ac_serve ac_InMemoryRepository example_ac_codec
      (account_request ''POST'' ''/accounts/acc_0100/debit'' ''400'' 4) ac_NewInMemoryRepository"
  have "fst ?served = Some account_notFound"
    by (subst ac_serve_op [where oper = "OpDebit 400" and i = "''acc_0100''"])
      (simp_all add: ac_api_eval ac_eval account_outcome_def handleAccountError_def)
  then have "?served = (Some account_notFound, snd ?served)" by (simp add: prod_eq_iff)
  from failed_account_requests_change_nothing [OF this] show ?thesis
    by (simp add: account_notFound_def reply_defs)
qed

text \<open>
  Every request to the account service is answered.  Whatever the method, the path, the query and the
  body, and as long as the map is not astronomically large, no handler panics.
\<close>

theorem account_requests_answered:
  assumes "am_valid r" "int (length (aa_order a)) + 100 < 2 ^ 63"
  shows "\<exists>answer r'. ac_serve ac_InMemoryRepository codec a r = (Some answer, r')"
proof (cases "ac_request_op codec (aa_request a)")
  case (Some p)
  obtain oper i where "p = (oper, i)" by (cases p)
  with Some ac_serve_op [of codec a oper i ac_InMemoryRepository r] show ?thesis
    by (simp split: prod.split)
next
  case None
  let ?x = "aa_request a" and ?e = "aa_env a" and ?R = ac_InMemoryRepository
  have "fst (handleAccount ?R codec ?e ?x r) \<noteq> None"
    by (auto simp: handleAccount_def account_actions_def ac_handlers account_action_def updateAccount_def
        getAccount_def split: list.split prod.split option.split)
  moreover have "fst (listAccounts ?R codec (aa_order a) ?x r) \<noteq> None"
    using ac_mem.list_pages [OF assms] by (fastforce simp: listAccounts_def Let_def)
  then have "fst (handleAccounts ?R codec ?e (aa_order a) ?x r) \<noteq> None"
    by (simp add: handleAccounts_def createAccount_def split: prod.split sum.split option.split)
  ultimately have "fst (ac_serve ?R codec a r) \<noteq> None"
    by (simp add: ac_serve_def ac_routed health_handler_def)
  then show ?thesis by (cases "ac_serve ?R codec a r") auto
qed

theorem account_requests_answered_witness:
  "\<exists>answer r'. ac_serve ac_InMemoryRepository example_ac_codec
     (account_request ''GET'' ''/accounts'' [] 1) ac_NewInMemoryRepository = (Some answer, r')"
  by (rule account_requests_answered [OF am_valid_new]) (simp add: account_request_def)

text \<open>A negative offset, an error of the client, is answered as an error of the server.\<close>

theorem negative_offset_server_error:
  assumes "sint (fst (Atoi (query_Get x ''offset''))) < 0"
  shows "listAccounts R codec ks x s = (Some (errorResponse 500 ''invalid pagination parameters''), s)"
  using assms by (simp add: listAccounts_def ListAccounts_def)

end
