(* ===== verification/Ledger.thy ===== *)
theory Ledger
  imports Identifiers
begin

text \<open>
  The double-entry ledger of \<open>services/ledger\<close>: the records of \<open>models/ledger.go\<close>, and the
  operations of \<open>services/ledger_service.go\<close> over the state of \<open>LedgerService\<close> (the accounts, the
  append-only list of entries, the journals and the audit log).  An operation runs with the mutex
  held from its first to its last access, so it is one step of the model; the two checks
  \<open>CreateJournalEntry\<close> makes before it takes the lock read only the request.

  The invariant says that the books balance in 64-bit arithmetic and that every balance is the sum
  of the entries posted to its account; every operation keeps it.
\<close>

section \<open>Records\<close>

text \<open>
  \<open>EntryType\<close> and \<open>AccountType\<close> are Go strings with named constants, and a request may carry any
  string: the last constructor of each stands for a string that is none of the constants.
\<close>

datatype entry_type = EntryDebit | EntryCredit | EntryOther string

datatype ledger_account_type =
  AccountAsset | AccountLiability | AccountEquity | AccountRevenue | AccountExpense
| AccountOther string

record LedgerEntry =
  le_ID :: string
  le_JournalID :: string
  le_AccountID :: string
  le_Type :: entry_type
  le_Amount :: int64
  le_Currency :: string
  le_Balance :: int64
  le_Description :: string
  le_ReferenceType :: string
  le_ReferenceID :: string
  le_Metadata :: metadata
  le_CreatedAt :: time

record JournalEntry =
  je_ID :: string
  je_Description :: string
  je_ReferenceType :: string
  je_ReferenceID :: string
  je_Entries :: "LedgerEntry list"
  je_Metadata :: metadata
  je_CreatedAt :: time

record LedgerAccount =
  la_ID :: string
  la_Name :: string
  la_Type :: ledger_account_type
  la_Currency :: string
  la_Balance :: int64
  la_NormalBalance :: entry_type
  la_IsActive :: bool
  la_CreatedAt :: time
  la_UpdatedAt :: time

record AuditLog =
  al_ID :: string
  al_Action :: string
  al_EntityType :: string
  al_EntityID :: string
  al_ActorType :: string
  al_ActorID :: string
  al_OldValue :: string
  al_NewValue :: string
  al_IPAddress :: string
  al_UserAgent :: string
  al_Metadata :: metadata
  al_CreatedAt :: time

record EntryRequest =
  er_AccountID :: string
  er_Type :: entry_type
  er_Amount :: int64
  er_Description :: string

record CreateJournalRequest =
  jr_Description :: string
  jr_ReferenceType :: string
  jr_ReferenceID :: string
  jr_Entries :: "EntryRequest list"
  jr_Metadata :: metadata

record LedgerService =
  ls_accounts :: "string \<rightharpoonup> LedgerAccount"
  ls_entries :: "LedgerEntry list"
  ls_journals :: "string \<rightharpoonup> JournalEntry"
  ls_auditLogs :: "AuditLog list"

text \<open>The errors of the service; \<open>LedgerPanic\<close> is a nil pointer dereference of the runtime.\<close>

datatype ledger_error =
  LedgerErrAccountNotFound | LedgerErrUnbalancedEntry | LedgerErrEmptyJournal
| LedgerErrInvalidAmount | LedgerErrAccountInactive | LedgerErrJournalNotFound | LedgerPanic

section \<open>Operations\<close>

subsection \<open>Construction\<close>

definition default_ledger_accounts :: "(string \<times> string \<times> ledger_account_type \<times> entry_type) list" where
  "default_ledger_accounts =
    [(''acc_cash'', ''Cash'', AccountAsset, EntryDebit),
     (''acc_receivables'', ''Accounts Receivable'', AccountAsset, EntryDebit),
     (''acc_payables'', ''Accounts Payable'', AccountLiability, EntryCredit),
     (''acc_revenue'', ''Revenue'', AccountRevenue, EntryCredit),
     (''acc_fees'', ''Transaction Fees'', AccountRevenue, EntryCredit),
     (''acc_refunds'', ''Refunds'', AccountExpense, EntryDebit),
     (''acc_merchant_payable'', ''Merchant Payable'', AccountLiability, EntryCredit),
     (''acc_customer_deposits'', ''Customer Deposits'', AccountLiability, EntryCredit)]"

text \<open>The loop reads the clock twice for each account; \<open>i\<close> counts the readings.\<close>

fun initializeSystemAccounts ::
  "env \<Rightarrow> nat \<Rightarrow> (string \<times> string \<times> ledger_account_type \<times> entry_type) list \<Rightarrow>
    (string \<rightharpoonup> LedgerAccount) \<Rightarrow> (string \<rightharpoonup> LedgerAccount)" where
  "initializeSystemAccounts e i [] m = m"
| "initializeSystemAccounts e i ((k, name, typ, normal) # accs) m =
     initializeSystemAccounts e (i + 2) accs
       (m(k \<mapsto> \<lparr>la_ID = k, la_Name = name, la_Type = typ, la_Currency = ''USD'', la_Balance = 0,
               la_NormalBalance = normal, la_IsActive = True,
               la_CreatedAt = clock e i, la_UpdatedAt = clock e (i + 1)\<rparr>))"

definition NewLedgerService :: "env \<Rightarrow> LedgerService" where
  "NewLedgerService e =
     \<lparr>ls_accounts = initializeSystemAccounts e 0 default_ledger_accounts Map.empty,
      ls_entries = [], ls_journals = Map.empty, ls_auditLogs = []\<rparr>"

subsection \<open>Audit log\<close>

text \<open>\<open>logAudit\<close>: the identifier of the record and the instant are given by the caller's draw.\<close>

definition logAudit ::
  "byte list option \<Rightarrow> time \<Rightarrow> string \<Rightarrow> string \<Rightarrow> string \<Rightarrow> string \<Rightarrow> string \<Rightarrow> string \<Rightarrow> string \<Rightarrow>
    metadata \<Rightarrow> LedgerService \<Rightarrow> LedgerService" where
  "logAudit draw now action entityType entityID actorType actorID oldValue newValue md s =
     s\<lparr>ls_auditLogs := ls_auditLogs s @
       [\<lparr>al_ID = id_or_empty (generateID ''aud'' draw), al_Action = action,
         al_EntityType = entityType, al_EntityID = entityID, al_ActorType = actorType,
         al_ActorID = actorID, al_OldValue = oldValue, al_NewValue = newValue,
         al_IPAddress = [], al_UserAgent = [], al_Metadata = md, al_CreatedAt = now\<rparr>]\<rparr>"

definition LogAudit ::
  "env \<Rightarrow> string \<Rightarrow> string \<Rightarrow> string \<Rightarrow> string \<Rightarrow> string \<Rightarrow> string \<Rightarrow> string \<Rightarrow> metadata \<Rightarrow>
    LedgerService \<Rightarrow> LedgerService" where
  "LogAudit e action entityType entityID actorType actorID oldValue newValue md s =
     logAudit (entropy e 0) (clock e 0) action entityType entityID actorType actorID
       oldValue newValue md s"

subsection \<open>Accounts\<close>

definition normal_balance_of :: "ledger_account_type \<Rightarrow> entry_type" where
  "normal_balance_of typ =
     (if typ = AccountAsset \<or> typ = AccountExpense then EntryDebit else EntryCredit)"

definition ledger_CreateAccount ::
  "env \<Rightarrow> string \<Rightarrow> ledger_account_type \<Rightarrow> string \<Rightarrow> LedgerService \<Rightarrow>
    (ledger_error + LedgerAccount) \<times> LedgerService" where
  "ledger_CreateAccount e name accountType currency s =
     (let i = id_or_empty (generateID ''acc'' (entropy e 0));
          account = \<lparr>la_ID = i, la_Name = name, la_Type = accountType, la_Currency = currency,
            la_Balance = 0, la_NormalBalance = normal_balance_of accountType, la_IsActive = True,
            la_CreatedAt = clock e 0, la_UpdatedAt = clock e 1\<rparr>;
          s1 = s\<lparr>ls_accounts := (ls_accounts s)(la_ID account \<mapsto> account)\<rparr>
      in (Inr account,
          logAudit (entropy e 1) (clock e 2) ''create'' ''account'' (la_ID account)
            ''system'' ''system'' [] (la_ID account) None s1))"

definition ledger_GetAccount :: "string \<Rightarrow> LedgerService \<Rightarrow> ledger_error + LedgerAccount" where
  "ledger_GetAccount i s =
     (case ls_accounts s i of None \<Rightarrow> Inl LedgerErrAccountNotFound | Some a \<Rightarrow> Inr a)"

text \<open>The slice of accounts, in the iteration order \<open>ks\<close> of the map.\<close>

definition ledger_ListAccounts :: "string list \<Rightarrow> LedgerService \<Rightarrow> LedgerAccount list" where
  "ledger_ListAccounts ks s = map (\<lambda>k. the (ls_accounts s k)) ks"

subsection \<open>Journals\<close>

text \<open>The two running sums of \<open>validateBalance\<close>: an entry that is not a debit counts as a credit.\<close>

fun sum_debits_credits :: "EntryRequest list \<Rightarrow> int64 \<Rightarrow> int64 \<Rightarrow> int64 \<times> int64" where
  "sum_debits_credits [] d c = (d, c)"
| "sum_debits_credits (r # rs) d c =
     (if er_Type r = EntryDebit then sum_debits_credits rs (d + er_Amount r) c
      else sum_debits_credits rs d (c + er_Amount r))"

definition validateBalance :: "EntryRequest list \<Rightarrow> ledger_error option" where
  "validateBalance entries =
     (let (totalDebits, totalCredits) = sum_debits_credits entries 0 0
      in if totalDebits \<noteq> totalCredits then Some LedgerErrUnbalancedEntry else None)"

text \<open>The validation loop of \<open>CreateJournalEntry\<close>.\<close>

fun check_entries ::
  "(string \<rightharpoonup> LedgerAccount) \<Rightarrow> EntryRequest list \<Rightarrow> ledger_error option" where
  "check_entries accs [] = None"
| "check_entries accs (r # rs) =
     (case accs (er_AccountID r) of
        None \<Rightarrow> Some LedgerErrAccountNotFound
      | Some account \<Rightarrow>
          if \<not> la_IsActive account then Some LedgerErrAccountInactive
          else if sint (er_Amount r) \<le> 0 then Some LedgerErrInvalidAmount
          else check_entries accs rs)"

definition posted_balance :: "entry_type \<Rightarrow> entry_type \<Rightarrow> int64 \<Rightarrow> int64 \<Rightarrow> int64" where
  "posted_balance typ normal amount balance =
     (if typ = EntryDebit then
        (if normal = EntryDebit then balance + amount else balance - amount)
      else
        (if normal = EntryCredit then balance + amount else balance - amount))"

text \<open>
  One round of the posting loop: the account's balance moves and the entry, with the identifier of
  the draw, is appended to the ledger.  A missing account would be a nil dereference (\<open>None\<close>).
\<close>

definition post_entry ::
  "byte list option \<Rightarrow> time \<Rightarrow> string \<Rightarrow> CreateJournalRequest \<Rightarrow> EntryRequest \<Rightarrow> LedgerService \<Rightarrow>
    (LedgerService \<times> LedgerEntry) option" where
  "post_entry draw now journalID req r s =
     (case ls_accounts s (er_AccountID r) of
        None \<Rightarrow> None
      | Some account \<Rightarrow>
          let account' = account\<lparr>
                la_Balance := posted_balance (er_Type r) (la_NormalBalance account)
                  (er_Amount r) (la_Balance account),
                la_UpdatedAt := now\<rparr>;
              entry = \<lparr>le_ID = id_or_empty (generateID ''ent'' draw),
                le_JournalID = journalID, le_AccountID = er_AccountID r, le_Type = er_Type r,
                le_Amount = er_Amount r, le_Currency = la_Currency account',
                le_Balance = la_Balance account', le_Description = er_Description r,
                le_ReferenceType = jr_ReferenceType req, le_ReferenceID = jr_ReferenceID req,
                le_Metadata = jr_Metadata req, le_CreatedAt = now\<rparr>
          in Some (s\<lparr>ls_accounts := (ls_accounts s)(er_AccountID r \<mapsto> account'),
                      ls_entries := ls_entries s @ [entry]\<rparr>, entry))"

text \<open>
  The posting loop: entry \<open>i\<close> uses the \<open>i\<close>-th draw.  The second component is \<open>journal.Entries\<close>.
\<close>

fun post_entries ::
  "env \<Rightarrow> nat \<Rightarrow> time \<Rightarrow> string \<Rightarrow> CreateJournalRequest \<Rightarrow> EntryRequest list \<Rightarrow>
    LedgerService \<times> LedgerEntry list \<Rightarrow> (LedgerService \<times> LedgerEntry list) option" where
  "post_entries e i now journalID req [] (s, es) = Some (s, es)"
| "post_entries e i now journalID req (r # rs) (s, es) =
     (case post_entry (entropy e i) now journalID req r s of
        None \<Rightarrow> None
      | Some (s', entry) \<Rightarrow> post_entries e (i + 1) now journalID req rs (s', es @ [entry]))"

definition CreateJournalEntry ::
  "env \<Rightarrow> CreateJournalRequest \<Rightarrow> LedgerService \<Rightarrow>
    (ledger_error + JournalEntry) \<times> LedgerService" where
  "CreateJournalEntry e req s =
     (if length (jr_Entries req) < 2 then (Inl LedgerErrEmptyJournal, s)
      else case validateBalance (jr_Entries req) of
        Some err \<Rightarrow> (Inl err, s)
      | None \<Rightarrow>
        case check_entries (ls_accounts s) (jr_Entries req) of
          Some err \<Rightarrow> (Inl err, s)
        | None \<Rightarrow>
          let journalID = id_or_empty (generateID ''jnl'' (entropy e 0));
              now = clock e 0
          in case post_entries e 1 now journalID req (jr_Entries req) (s, []) of
               None \<Rightarrow> (Inl LedgerPanic, s)
             | Some (s1, es) \<Rightarrow>
                 let journal = \<lparr>je_ID = journalID, je_Description = jr_Description req,
                       je_ReferenceType = jr_ReferenceType req, je_ReferenceID = jr_ReferenceID req,
                       je_Entries = es, je_Metadata = jr_Metadata req, je_CreatedAt = now\<rparr>;
                     s2 = s1\<lparr>ls_journals := (ls_journals s1)(je_ID journal \<mapsto> journal)\<rparr>
                 in (Inr journal,
                     logAudit (entropy e (length (jr_Entries req) + 1)) (clock e 1) ''create''
                       ''journal'' (je_ID journal) ''system'' ''system'' [] (je_ID journal)
                       (jr_Metadata req) s2))"

definition GetJournal :: "string \<Rightarrow> LedgerService \<Rightarrow> ledger_error + JournalEntry" where
  "GetJournal i s =
     (case ls_journals s i of None \<Rightarrow> Inl LedgerErrJournalNotFound | Some j \<Rightarrow> Inr j)"

definition two_entry_request :: "string \<Rightarrow> string \<Rightarrow> string \<Rightarrow> string \<Rightarrow> string \<Rightarrow> int64 \<Rightarrow> CreateJournalRequest" where
  "two_entry_request description refType refID debitAcc creditAcc amount =
     \<lparr>jr_Description = description, jr_ReferenceType = refType, jr_ReferenceID = refID,
      jr_Entries =
        [\<lparr>er_AccountID = debitAcc, er_Type = EntryDebit, er_Amount = amount, er_Description = []\<rparr>,
         \<lparr>er_AccountID = creditAcc, er_Type = EntryCredit, er_Amount = amount, er_Description = []\<rparr>],
      jr_Metadata = None\<rparr>"

definition RecordPayment ::
  "env \<Rightarrow> string \<Rightarrow> int64 \<Rightarrow> string \<Rightarrow> LedgerService \<Rightarrow> (ledger_error + JournalEntry) \<times> LedgerService" where
  "RecordPayment e transactionID amount merchantAccountID s =
     CreateJournalEntry e (two_entry_request ''Payment received'' ''transaction'' transactionID
       ''acc_cash'' ''acc_customer_deposits'' amount) s"

definition RecordRefund ::
  "env \<Rightarrow> string \<Rightarrow> int64 \<Rightarrow> LedgerService \<Rightarrow> (ledger_error + JournalEntry) \<times> LedgerService" where
  "RecordRefund e transactionID amount s =
     CreateJournalEntry e (two_entry_request ''Refund issued'' ''refund'' transactionID
       ''acc_refunds'' ''acc_cash'' amount) s"

definition RecordFee ::
  "env \<Rightarrow> string \<Rightarrow> int64 \<Rightarrow> LedgerService \<Rightarrow> (ledger_error + JournalEntry) \<times> LedgerService" where
  "RecordFee e transactionID amount s =
     CreateJournalEntry e (two_entry_request ''Transaction fee'' ''fee'' transactionID
       ''acc_receivables'' ''acc_fees'' amount) s"

subsection \<open>Queries\<close>

definition GetEntriesForAccount ::
  "string \<Rightarrow> int64 \<Rightarrow> int64 \<Rightarrow> LedgerService \<Rightarrow> (LedgerEntry list \<times> nat) option" where
  "GetEntriesForAccount accountID limit offset s =
     paginate (filter (\<lambda>entry. le_AccountID entry = accountID) (ls_entries s)) limit offset"

definition GetEntriesForReference :: "string \<Rightarrow> string \<Rightarrow> LedgerService \<Rightarrow> LedgerEntry list" where
  "GetEntriesForReference refType refID s =
     filter (\<lambda>entry. le_ReferenceType entry = refType \<and> le_ReferenceID entry = refID) (ls_entries s)"

definition GetAuditLogs ::
  "string \<Rightarrow> string \<Rightarrow> int64 \<Rightarrow> int64 \<Rightarrow> LedgerService \<Rightarrow> (AuditLog list \<times> nat) option" where
  "GetAuditLogs entityType entityID limit offset s =
     paginate (filter (\<lambda>log. (entityType = [] \<or> al_EntityType log = entityType) \<and>
                             (entityID = [] \<or> al_EntityID log = entityID)) (ls_auditLogs s))
       limit offset"

definition GetTrialBalance :: "LedgerService \<Rightarrow> (string \<rightharpoonup> int64)" where
  "GetTrialBalance s = (\<lambda>i. map_option la_Balance (ls_accounts s i))"

section \<open>The books\<close>

text \<open>
  What an account and an entry contribute to the books, on the debit side positively: the trial
  balance is the sum over the accounts, the replay of an account the sum over its entries.
\<close>

definition signed_balance :: "LedgerAccount \<Rightarrow> int64" where
  "signed_balance a = (if la_NormalBalance a = EntryDebit then la_Balance a else - la_Balance a)"

definition signed_amount :: "entry_type \<Rightarrow> int64 \<Rightarrow> int64" where
  "signed_amount typ amount = (if typ = EntryDebit then amount else - amount)"

definition trial_sum :: "LedgerService \<Rightarrow> int64" where
  "trial_sum s = (\<Sum>i \<in> dom (ls_accounts s). signed_balance (the (ls_accounts s i)))"

definition entries_sum :: "LedgerEntry list \<Rightarrow> int64" where
  "entries_sum es = sum_list (map (\<lambda>x. signed_amount (le_Type x) (le_Amount x)) es)"

definition entries_of :: "string \<Rightarrow> LedgerService \<Rightarrow> LedgerEntry list" where
  "entries_of i s = filter (\<lambda>x. le_AccountID x = i) (ls_entries s)"

text \<open>
  The well-formed ledgers: every account sits under its identifier, has the normal side of its
  type and carries the sum of its entries, and the last of them shows its balance; entries name
  existing accounts, and cancel out.
\<close>

definition account_ok :: "LedgerService \<Rightarrow> string \<Rightarrow> LedgerAccount \<Rightarrow> bool" where
  "account_ok s i a \<longleftrightarrow>
     la_ID a = i \<and> la_NormalBalance a = normal_balance_of (la_Type a) \<and>
     signed_balance a = entries_sum (entries_of i s) \<and>
     (entries_of i s \<noteq> [] \<longrightarrow> le_Balance (last (entries_of i s)) = la_Balance a)"

definition books_ok :: "LedgerService \<Rightarrow> bool" where
  "books_ok s \<longleftrightarrow>
     finite (dom (ls_accounts s)) \<and>
     (\<forall>i a. ls_accounts s i = Some a \<longrightarrow> account_ok s i a) \<and>
     (\<forall>x \<in> set (ls_entries s). le_AccountID x \<in> dom (ls_accounts s))"

definition ledger_inv :: "LedgerService \<Rightarrow> bool" where
  "ledger_inv s \<longleftrightarrow> books_ok s \<and> entries_sum (ls_entries s) = 0"

lemma entries_sum_simps [simp]:
  "entries_sum [] = 0"
  "entries_sum (x # xs) = signed_amount (le_Type x) (le_Amount x) + entries_sum xs"
  "entries_sum (xs @ ys) = entries_sum xs + entries_sum ys"
  by (simp_all add: entries_sum_def)

lemma trial_sum_eq_entries_sum:
  assumes "books_ok s"
  shows "trial_sum s = entries_sum (ls_entries s)"
proof -
  have "trial_sum s = (\<Sum>i \<in> dom (ls_accounts s). entries_sum (entries_of i s))"
    unfolding trial_sum_def using assms
    by (intro sum.cong) (auto simp: books_ok_def account_ok_def)
  also have "\<dots> = entries_sum (ls_entries s)"
    unfolding entries_sum_def entries_of_def using assms
    by (intro sum_list_by_key) (auto simp: books_ok_def)
  finally show ?thesis .
qed

lemma normal_balance_of_cases: "normal_balance_of typ = EntryDebit \<or> normal_balance_of typ = EntryCredit"
  by (simp add: normal_balance_of_def)

lemma signed_balance_posted:
  assumes "la_NormalBalance a = normal_balance_of ty"
  shows "signed_balance (a\<lparr>la_Balance := posted_balance t (la_NormalBalance a) amount (la_Balance a),
      la_UpdatedAt := now\<rparr>) = signed_balance a + signed_amount t amount"
  using normal_balance_of_cases [of ty] assms
  by (auto simp: posted_balance_def signed_amount_def signed_balance_def)

text \<open>One posting: what it changes, and that it keeps the books.\<close>

lemma post_entry_frame:
  assumes "post_entry draw now journalID req r s = Some (s', x)"
  shows "ls_entries s' = ls_entries s @ [x]" "ls_journals s' = ls_journals s"
    "ls_auditLogs s' = ls_auditLogs s" "dom (ls_accounts s') = dom (ls_accounts s)"
    "le_AccountID x = er_AccountID r" "le_Type x = er_Type r" "le_Amount x = er_Amount r"
    "i \<noteq> er_AccountID r \<Longrightarrow> ls_accounts s' i = ls_accounts s i"
  using assms by (auto simp: post_entry_def Let_def split: option.splits if_splits)

lemma post_entry_books_ok:
  assumes "post_entry draw now journalID req r s = Some (s', x)" "books_ok s"
  shows "books_ok s'"
proof -
  obtain a where a: "ls_accounts s (er_AccountID r) = Some a"
    using assms(1) by (auto simp: post_entry_def split: option.splits)
  let ?a = "a\<lparr>la_Balance := posted_balance (er_Type r) (la_NormalBalance a)
                  (er_Amount r) (la_Balance a), la_UpdatedAt := now\<rparr>"
  have s': "ls_accounts s' = (ls_accounts s)(er_AccountID r \<mapsto> ?a)" and bal: "le_Balance x = la_Balance ?a"
    using assms(1) a by (auto simp: post_entry_def Let_def)
  note frame = post_entry_frame [OF assms(1)]
  have old: "account_ok s (er_AccountID r) a"
    using assms(2) a by (simp add: books_ok_def)
  then have signed: "signed_balance ?a = signed_balance a + signed_amount (er_Type r) (er_Amount r)"
    by (intro signed_balance_posted) (simp add: account_ok_def)
  have es: "entries_of i s' = entries_of i s @ (if er_AccountID r = i then [x] else [])" for i
    using frame by (simp add: entries_of_def)
  have "account_ok s' (er_AccountID r) ?a"
    using old bal frame signed by (simp add: account_ok_def es)
  moreover have "account_ok s' i b" if "ls_accounts s i = Some b" "i \<noteq> er_AccountID r" for i b
    using assms(2) that by (auto simp: books_ok_def account_ok_def es)
  ultimately show ?thesis
    using assms(2) frame by (auto simp: books_ok_def s' split: if_splits)
qed

text \<open>The loop: it never meets a missing account once the validation loop has passed.\<close>

definition request_sum :: "EntryRequest list \<Rightarrow> int64" where
  "request_sum rs = sum_list (map (\<lambda>r. signed_amount (er_Type r) (er_Amount r)) rs)"

lemma post_entries_spec:
  assumes "\<forall>r \<in> set rs. er_AccountID r \<in> dom (ls_accounts s)"
  shows "\<exists>s' new. post_entries e i now journalID req rs (s, es) = Some (s', es @ new) \<and>
    ls_entries s' = ls_entries s @ new \<and> ls_journals s' = ls_journals s \<and>
    ls_auditLogs s' = ls_auditLogs s \<and> dom (ls_accounts s') = dom (ls_accounts s) \<and>
    map (\<lambda>x. (le_AccountID x, le_Type x, le_Amount x)) new =
      map (\<lambda>r. (er_AccountID r, er_Type r, er_Amount r)) rs \<and>
    entries_sum new = request_sum rs \<and>
    (\<forall>k. k \<notin> er_AccountID ` set rs \<longrightarrow> ls_accounts s' k = ls_accounts s k) \<and>
    (books_ok s \<longrightarrow> books_ok s')"
  using assms
proof (induction rs arbitrary: s es i)
  case Nil
  then show ?case by (simp add: request_sum_def)
next
  case (Cons r rs)
  obtain s1 x where post: "post_entry (entropy e i) now journalID req r s = Some (s1, x)"
    using Cons.prems by (auto simp: post_entry_def Let_def)
  note frame = post_entry_frame [OF post]
  from Cons.prems frame have "\<forall>r \<in> set rs. er_AccountID r \<in> dom (ls_accounts s1)" by simp
  from Cons.IH [OF this, where es = "es @ [x]" and i = "i + 1"] obtain s' new where
    IH: "post_entries e (i + 1) now journalID req rs (s1, es @ [x]) = Some (s', (es @ [x]) @ new)"
      "ls_entries s' = ls_entries s1 @ new" "ls_journals s' = ls_journals s1"
      "ls_auditLogs s' = ls_auditLogs s1" "dom (ls_accounts s') = dom (ls_accounts s1)"
      "map (\<lambda>x. (le_AccountID x, le_Type x, le_Amount x)) new =
        map (\<lambda>r. (er_AccountID r, er_Type r, er_Amount r)) rs"
      "entries_sum new = request_sum rs"
      "\<forall>k. k \<notin> er_AccountID ` set rs \<longrightarrow> ls_accounts s' k = ls_accounts s1 k"
      "books_ok s1 \<longrightarrow> books_ok s'"
    by blast
  show ?case
    by (rule exI [where x = s'], rule exI [where x = "x # new"])
      (use post frame IH post_entry_books_ok [OF post] in \<open>auto simp: request_sum_def\<close>)
qed

section \<open>Journals\<close>

text \<open>
  The request is accepted exactly when it has two entries or more, its debits and credits agree
  in 64-bit arithmetic, and every entry names an active account and a positive amount.
\<close>

definition entry_acceptable :: "LedgerService \<Rightarrow> EntryRequest \<Rightarrow> bool" where
  "entry_acceptable s r \<longleftrightarrow>
     (case ls_accounts s (er_AccountID r) of
        None \<Rightarrow> False
      | Some a \<Rightarrow> la_IsActive a \<and> 0 < sint (er_Amount r))"

lemma check_entries_None:
  "check_entries (ls_accounts s) rs = None \<longleftrightarrow> (\<forall>r \<in> set rs. entry_acceptable s r)"
  by (induction rs) (auto simp: entry_acceptable_def split: option.splits)

lemma check_entries_no_panic: "check_entries accs rs \<noteq> Some LedgerPanic"
  by (induction rs) (auto split: option.splits)

lemma sum_debits_credits_diff:
  "fst (sum_debits_credits rs d c) - snd (sum_debits_credits rs d c) = d - c + request_sum rs"
proof (induction rs arbitrary: d c)
  case Nil
  then show ?case by (simp add: request_sum_def)
next
  case (Cons r rs)
  show ?case
    using Cons.IH [of "d + er_Amount r" c] Cons.IH [of d "c + er_Amount r"]
    by (simp add: request_sum_def signed_amount_def)
qed

definition debits :: "EntryRequest list \<Rightarrow> int64" where
  "debits rs = sum_list (map er_Amount (filter (\<lambda>r. er_Type r = EntryDebit) rs))"

definition credits :: "EntryRequest list \<Rightarrow> int64" where
  "credits rs = sum_list (map er_Amount (filter (\<lambda>r. er_Type r \<noteq> EntryDebit) rs))"

lemma debits_eq_credits: "debits rs = credits rs \<longleftrightarrow> request_sum rs = 0"
proof -
  have "request_sum rs = debits rs - credits rs"
    by (induction rs) (simp_all add: request_sum_def signed_amount_def debits_def credits_def)
  then show ?thesis by simp
qed

lemma validateBalance_None: "validateBalance rs = None \<longleftrightarrow> request_sum rs = 0"
  using sum_debits_credits_diff [of rs 0 0]
  by (auto simp: validateBalance_def split: prod.splits)

lemma entry_acceptable_dom: "entry_acceptable s r \<Longrightarrow> er_AccountID r \<in> dom (ls_accounts s)"
  by (auto simp: entry_acceptable_def split: option.splits)

lemma logAudit_frame [simp]:
  "ls_accounts (logAudit draw now ac et ei at ai ov nv md s) = ls_accounts s"
  "ls_entries (logAudit draw now ac et ei at ai ov nv md s) = ls_entries s"
  "ls_journals (logAudit draw now ac et ei at ai ov nv md s) = ls_journals s"
  "\<exists>l. ls_auditLogs (logAudit draw now ac et ei at ai ov nv md s) = ls_auditLogs s @ [l]"
  by (simp_all add: logAudit_def)

lemma books_ok_cong:
  "ls_accounts s = ls_accounts t \<Longrightarrow> ls_entries s = ls_entries t \<Longrightarrow> books_ok s \<longleftrightarrow> books_ok t"
  by (simp add: books_ok_def account_ok_def entries_of_def)

text \<open>What is known of a journal that is recorded.\<close>

definition journal_recorded ::
  "env \<Rightarrow> CreateJournalRequest \<Rightarrow> LedgerService \<Rightarrow> JournalEntry \<Rightarrow> LedgerService \<Rightarrow> bool" where
  "journal_recorded e req s j s' \<longleftrightarrow>
     je_ID j = id_or_empty (generateID ''jnl'' (entropy e 0)) \<and>
     map (\<lambda>x. (le_AccountID x, le_Type x, le_Amount x)) (je_Entries j) =
       map (\<lambda>r. (er_AccountID r, er_Type r, er_Amount r)) (jr_Entries req) \<and>
     entries_sum (je_Entries j) = 0 \<and>
     ls_entries s' = ls_entries s @ je_Entries j \<and>
     ls_journals s' = (ls_journals s)(je_ID j \<mapsto> j) \<and>
     (\<exists>l. ls_auditLogs s' = ls_auditLogs s @ [l]) \<and>
     dom (ls_accounts s') = dom (ls_accounts s) \<and>
     (\<forall>k. k \<notin> er_AccountID ` set (jr_Entries req) \<longrightarrow> ls_accounts s' k = ls_accounts s k) \<and>
     (books_ok s \<longrightarrow> books_ok s')"

lemma CreateJournalEntry_cases:
  obtains (ok) j s' where "CreateJournalEntry e req s = (Inr j, s')" "journal_recorded e req s j s'"
    "2 \<le> length (jr_Entries req)" "request_sum (jr_Entries req) = 0"
    "\<forall>r \<in> set (jr_Entries req). entry_acceptable s r"
  | (err) err where "CreateJournalEntry e req s = (Inl err, s)"
    "length (jr_Entries req) < 2 \<or> request_sum (jr_Entries req) \<noteq> 0 \<or>
     (\<exists>r \<in> set (jr_Entries req). \<not> entry_acceptable s r)"
    "err \<noteq> LedgerPanic"
proof (cases "length (jr_Entries req) < 2")
  case True
  then show ?thesis by (intro err) (auto simp: CreateJournalEntry_def)
next
  case len: False
  let ?jid = "id_or_empty (generateID ''jnl'' (entropy e 0))"
  show ?thesis
  proof (cases "validateBalance (jr_Entries req)")
    case (Some er)
    then show ?thesis using len validateBalance_None [of "jr_Entries req"]
      by (intro err [of er])
        (auto simp: CreateJournalEntry_def validateBalance_def split: prod.splits if_splits)
  next
    case bal: None
    show ?thesis
    proof (cases "check_entries (ls_accounts s) (jr_Entries req)")
      case (Some er)
      then have "er \<noteq> LedgerPanic" using check_entries_no_panic by blast
      then show ?thesis using len bal Some check_entries_None [of s "jr_Entries req"]
        by (intro err [of er]) (auto simp: CreateJournalEntry_def)
    next
      case None
      then have acc: "\<forall>r \<in> set (jr_Entries req). entry_acceptable s r"
        by (simp add: check_entries_None)
      then have "\<forall>r \<in> set (jr_Entries req). er_AccountID r \<in> dom (ls_accounts s)"
        using entry_acceptable_dom by blast
      then obtain s1 new where post:
        "post_entries e 1 (clock e 0) ?jid req (jr_Entries req) (s, []) = Some (s1, new)"
        "ls_entries s1 = ls_entries s @ new" "ls_journals s1 = ls_journals s"
        "ls_auditLogs s1 = ls_auditLogs s" "dom (ls_accounts s1) = dom (ls_accounts s)"
        "map (\<lambda>x. (le_AccountID x, le_Type x, le_Amount x)) new =
          map (\<lambda>r. (er_AccountID r, er_Type r, er_Amount r)) (jr_Entries req)"
        "entries_sum new = request_sum (jr_Entries req)"
        "\<forall>k. k \<notin> er_AccountID ` set (jr_Entries req) \<longrightarrow> ls_accounts s1 k = ls_accounts s k"
        "books_ok s \<longrightarrow> books_ok s1"
        using post_entries_spec [where e = e and i = 1 and now = "clock e 0" and journalID = ?jid
            and req = req and es = "[]" and s = s and rs = "jr_Entries req"]
        by auto
      let ?j = "\<lparr>je_ID = ?jid, je_Description = jr_Description req,
          je_ReferenceType = jr_ReferenceType req, je_ReferenceID = jr_ReferenceID req,
          je_Entries = new, je_Metadata = jr_Metadata req, je_CreatedAt = clock e 0\<rparr>"
      let ?s' = "logAudit (entropy e (length (jr_Entries req) + 1)) (clock e 1) ''create''
          ''journal'' ?jid ''system'' ''system'' [] ?jid (jr_Metadata req)
          (s1\<lparr>ls_journals := (ls_journals s1)(?jid \<mapsto> ?j)\<rparr>)"
      have run: "CreateJournalEntry e req s = (Inr ?j, ?s')"
        using len bal None post(1) by (simp add: CreateJournalEntry_def Let_def)
      have zero: "request_sum (jr_Entries req) = 0"
        using bal by (simp add: validateBalance_None)
      have "books_ok s \<longrightarrow> books_ok ?s'"
        using post(9) books_ok_cong [of ?s' s1] by simp
      moreover have "\<exists>l. ls_auditLogs ?s' = ls_auditLogs s @ [l]"
        using post(4) by (simp add: logAudit_def)
      ultimately have "journal_recorded e req s ?j ?s'"
        using post zero by (simp add: journal_recorded_def)
      then show ?thesis using run len zero acc by (intro ok) auto
    qed
  qed
qed

section \<open>The effect of a journal\<close>

text \<open>
  What recording a journal means, stated on the request alone.  The movement of an account is what
  the debits and the credits of the request that name it add up to, counted on the account's
  normal side; an account named by the request moves by it and every other stays as it was; the
  \<open>n\<close>-th entry repeats the \<open>n\<close>-th line of the request and shows the balance its account has once
  the first \<open>n + 1\<close> lines are counted.
\<close>

definition movement :: "entry_type \<Rightarrow> string \<Rightarrow> EntryRequest list \<Rightarrow> int64" where
  "movement normal k rs =
     (let mine = filter (\<lambda>r. er_AccountID r = k) rs
      in if normal = EntryDebit then debits mine - credits mine else credits mine - debits mine)"

definition account_after :: "time \<Rightarrow> EntryRequest list \<Rightarrow> string \<Rightarrow> LedgerAccount \<Rightarrow> LedgerAccount" where
  "account_after now rs k a =
     (if k \<in> er_AccountID ` set rs
      then a\<lparr>la_Balance := la_Balance a + movement (la_NormalBalance a) k rs, la_UpdatedAt := now\<rparr>
      else a)"

definition entry_posted ::
  "env \<Rightarrow> nat \<Rightarrow> time \<Rightarrow> string \<Rightarrow> CreateJournalRequest \<Rightarrow> LedgerService \<Rightarrow> EntryRequest list \<Rightarrow> nat \<Rightarrow>
    LedgerEntry" where
  "entry_posted e i now journalID req s rs n =
     (let r = rs ! n; a = the (ls_accounts s (er_AccountID r))
      in \<lparr>le_ID = id_or_empty (generateID ''ent'' (entropy e (i + n))), le_JournalID = journalID,
          le_AccountID = er_AccountID r, le_Type = er_Type r, le_Amount = er_Amount r,
          le_Currency = la_Currency a,
          le_Balance = la_Balance a +
            movement (la_NormalBalance a) (er_AccountID r) (take (Suc n) rs),
          le_Description = er_Description r, le_ReferenceType = jr_ReferenceType req,
          le_ReferenceID = jr_ReferenceID req, le_Metadata = jr_Metadata req, le_CreatedAt = now\<rparr>)"

definition two_sided :: "LedgerService \<Rightarrow> bool" where
  "two_sided s \<longleftrightarrow>
     (\<forall>a \<in> ran (ls_accounts s). la_NormalBalance a = EntryDebit \<or> la_NormalBalance a = EntryCredit)"

text \<open>
  The journal is kept under its identifier, its entries are appended to the ledger in the order of
  the request, and one record joins the audit log.
\<close>

definition journal_posted ::
  "env \<Rightarrow> CreateJournalRequest \<Rightarrow> LedgerService \<Rightarrow> JournalEntry \<Rightarrow> LedgerService \<Rightarrow> bool" where
  "journal_posted e req s j s' \<longleftrightarrow>
     je_ID j = id_or_empty (generateID ''jnl'' (entropy e 0)) \<and>
     je_Description j = jr_Description req \<and> je_ReferenceType j = jr_ReferenceType req \<and>
     je_ReferenceID j = jr_ReferenceID req \<and> je_Metadata j = jr_Metadata req \<and>
     je_CreatedAt j = clock e 0 \<and>
     length (je_Entries j) = length (jr_Entries req) \<and>
     (\<forall>n < length (jr_Entries req). je_Entries j ! n =
        entry_posted e 1 (clock e 0) (je_ID j) req s (jr_Entries req) n) \<and>
     ls_entries s' = ls_entries s @ je_Entries j \<and>
     ls_accounts s' =
       (\<lambda>k. map_option (account_after (clock e 0) (jr_Entries req) k) (ls_accounts s k)) \<and>
     ls_journals s' = (ls_journals s)(je_ID j \<mapsto> j) \<and>
     (\<exists>l. ls_auditLogs s' = ls_auditLogs s @ [l] \<and> al_Action l = ''create'' \<and>
        al_EntityType l = ''journal'' \<and> al_EntityID l = je_ID j \<and> al_CreatedAt l = clock e 1)"

text \<open>The posting loop computes just that, one movement after the other.\<close>

lemma movement_simps [simp]:
  "movement normal k [] = 0"
  "movement normal k (r # rs) =
     (if er_AccountID r = k
      then (if (er_Type r = EntryDebit) = (normal = EntryDebit) then er_Amount r else - er_Amount r)
      else 0) + movement normal k rs"
  by (simp_all add: movement_def debits_def credits_def Let_def)

lemma movement_elsewhere: "k \<notin> er_AccountID ` set rs \<Longrightarrow> movement normal k rs = 0"
  by (induction rs) auto

lemma posted_balance_movement:
  "normal = EntryDebit \<or> normal = EntryCredit \<Longrightarrow>
    posted_balance (er_Type r) normal (er_Amount r) b = b + movement normal (er_AccountID r) [r]"
  by (auto simp: posted_balance_def)

lemma post_entry_exact:
  assumes "ls_accounts s (er_AccountID r) = Some a" "two_sided s"
  shows "post_entry (entropy e i) now journalID req r s =
    Some (s\<lparr>ls_accounts := (\<lambda>k. map_option (account_after now [r] k) (ls_accounts s k)),
            ls_entries := ls_entries s @ [entry_posted e i now journalID req s [r] 0]\<rparr>,
          entry_posted e i now journalID req s [r] 0)"
proof -
  have nb: "la_NormalBalance a = EntryDebit \<or> la_NormalBalance a = EntryCredit"
    using assms by (auto simp: two_sided_def ran_def)
  have acc: "(\<lambda>k. map_option (account_after now [r] k) (ls_accounts s k)) =
      (ls_accounts s)(er_AccountID r \<mapsto> account_after now [r] (er_AccountID r) a)"
  proof
    fix k
    show "map_option (account_after now [r] k) (ls_accounts s k) =
        ((ls_accounts s)(er_AccountID r \<mapsto> account_after now [r] (er_AccountID r) a)) k"
      using assms(1) by (cases "ls_accounts s k") (auto simp: account_after_def)
  qed
  show ?thesis
    unfolding acc using assms(1) posted_balance_movement [OF nb, of r]
    by (simp add: post_entry_def entry_posted_def account_after_def Let_def)
qed

lemma post_entries_exact:
  assumes "\<forall>r \<in> set rs. er_AccountID r \<in> dom (ls_accounts s)" "two_sided s"
  shows "\<exists>new. post_entries e i now journalID req rs (s, es) =
      Some (s\<lparr>ls_accounts := (\<lambda>k. map_option (account_after now rs k) (ls_accounts s k)),
              ls_entries := ls_entries s @ new\<rparr>, es @ new) \<and>
    length new = length rs \<and>
    (\<forall>n < length rs. new ! n = entry_posted e i now journalID req s rs n)"
  using assms
proof (induction rs arbitrary: s es i)
  case Nil
  have "account_after now [] k = (\<lambda>a. a)" for k by (rule ext) (simp add: account_after_def)
  then show ?case by (simp add: option.map_ident)
next
  case (Cons r rs)
  obtain a where a: "ls_accounts s (er_AccountID r) = Some a" using Cons.prems(1) by auto
  let ?x = "entry_posted e i now journalID req s [r] 0"
  let ?s = "s\<lparr>ls_accounts := (\<lambda>k. map_option (account_after now [r] k) (ls_accounts s k)),
      ls_entries := ls_entries s @ [?x]\<rparr>"
  have dom: "\<forall>r \<in> set rs. er_AccountID r \<in> dom (ls_accounts ?s)" using Cons.prems(1) by (auto simp: dom_def)
  have two: "two_sided ?s"
    using Cons.prems(2) by (auto simp: two_sided_def ran_def account_after_def)
  obtain new where new: "post_entries e (i + 1) now journalID req rs (?s, es @ [?x]) =
      Some (?s\<lparr>ls_accounts := (\<lambda>k. map_option (account_after now rs k) (ls_accounts ?s k)),
               ls_entries := ls_entries ?s @ new\<rparr>, (es @ [?x]) @ new)"
    "length new = length rs"
    "\<And>n. n < length rs \<Longrightarrow> new ! n = entry_posted e (i + 1) now journalID req ?s rs n"
    using Cons.IH [OF dom two, where es = "es @ [?x]" and i = "i + 1"] by blast
  have after: "account_after now rs k (account_after now [r] k b) = account_after now (r # rs) k b" for k b
    using movement_elsewhere [of k rs "la_NormalBalance b"] by (auto simp: account_after_def add.assoc)
  have nth: "(?x # new) ! n = entry_posted e i now journalID req s (r # rs) n"
    if "n < length (r # rs)" for n
  proof (cases n)
    case 0
    then show ?thesis by (simp add: entry_posted_def)
  next
    case (Suc m)
    then have m: "m < length rs" using that by simp
    then obtain b where b: "ls_accounts s (er_AccountID (rs ! m)) = Some b"
      using Cons.prems(1) nth_mem by fastforce
    show ?thesis
      using new(3) [OF m] b Suc by (auto simp: entry_posted_def account_after_def Let_def)
  qed
  show ?case
    by (rule exI [where x = "?x # new"])
      (use new(1,2) nth post_entry_exact [OF a Cons.prems(2), of e i now journalID req] in
        \<open>simp add: option.map_comp o_def after\<close>)
qed

lemma CreateJournalEntry_posts:
  assumes "2 \<le> length (jr_Entries req)" "debits (jr_Entries req) = credits (jr_Entries req)"
    "\<forall>r \<in> set (jr_Entries req). entry_acceptable s r" "two_sided s"
  shows "\<exists>j s'. CreateJournalEntry e req s = (Inr j, s') \<and> journal_posted e req s j s'"
proof -
  let ?rs = "jr_Entries req" and ?jid = "id_or_empty (generateID ''jnl'' (entropy e 0))"
  have "validateBalance ?rs = None" "check_entries (ls_accounts s) ?rs = None"
    using assms by (simp_all add: validateBalance_None debits_eq_credits check_entries_None)
  moreover obtain new where "post_entries e 1 (clock e 0) ?jid req ?rs (s, []) =
      Some (s\<lparr>ls_accounts := (\<lambda>k. map_option (account_after (clock e 0) ?rs k) (ls_accounts s k)),
              ls_entries := ls_entries s @ new\<rparr>, new)"
    "length new = length ?rs"
    "\<forall>n < length ?rs. new ! n = entry_posted e 1 (clock e 0) ?jid req s ?rs n"
    using post_entries_exact [of ?rs s e 1 "clock e 0" ?jid req "[]"] assms(3,4) entry_acceptable_dom
    by auto
  ultimately show ?thesis
    using assms(1) by (simp add: CreateJournalEntry_def journal_posted_def Let_def logAudit_def)
qed

lemma check_entries_first:
  assumes "n < length rs" "\<forall>r \<in> set (take n rs). entry_acceptable s r"
  shows "check_entries (ls_accounts s) rs = check_entries (ls_accounts s) (drop n rs)"
  using assms
proof (induction n arbitrary: rs)
  case 0
  then show ?case by simp
next
  case (Suc n)
  then obtain r rs' where rs: "rs = r # rs'" by (cases rs) auto
  with Suc.prems have "entry_acceptable s r" by simp
  then obtain a where "ls_accounts s (er_AccountID r) = Some a" "la_IsActive a" "0 < sint (er_Amount r)"
    by (auto simp: entry_acceptable_def split: option.splits)
  then show ?case using Suc by (simp add: rs)
qed

lemma CreateJournalEntry_rejects:
  assumes "2 \<le> length (jr_Entries req)" "debits (jr_Entries req) = credits (jr_Entries req)"
    "n < length (jr_Entries req)" "\<forall>r \<in> set (take n (jr_Entries req)). entry_acceptable s r"
    "\<not> entry_acceptable s (jr_Entries req ! n)"
  shows "CreateJournalEntry e req s =
    (Inl (case ls_accounts s (er_AccountID (jr_Entries req ! n)) of
            None \<Rightarrow> LedgerErrAccountNotFound
          | Some a \<Rightarrow> if la_IsActive a then LedgerErrInvalidAmount else LedgerErrAccountInactive), s)"
proof -
  let ?rs = "jr_Entries req"
  have "check_entries (ls_accounts s) ?rs = check_entries (ls_accounts s) (?rs ! n # drop (Suc n) ?rs)"
    using check_entries_first [OF assms(3,4)] assms(3) by (simp add: Cons_nth_drop_Suc)
  moreover have "validateBalance ?rs = None"
    using assms(2) by (simp add: validateBalance_None debits_eq_credits)
  ultimately show ?thesis
    using assms(1,5) by (auto simp: CreateJournalEntry_def entry_acceptable_def split: option.splits)
qed

section \<open>Runs of the service\<close>

datatype ledger_op =
  LCreateAccount env string ledger_account_type string
| LCreateJournal env CreateJournalRequest
| LRecordPayment env string int64 string
| LRecordRefund env string int64
| LRecordFee env string int64
| LLogAudit env string string string string string string string metadata

fun ledger_step :: "ledger_op \<Rightarrow> LedgerService \<Rightarrow> LedgerService" where
  "ledger_step (LCreateAccount e name ty cur) s = snd (ledger_CreateAccount e name ty cur s)"
| "ledger_step (LCreateJournal e req) s = snd (CreateJournalEntry e req s)"
| "ledger_step (LRecordPayment e tx amount merchant) s = snd (RecordPayment e tx amount merchant s)"
| "ledger_step (LRecordRefund e tx amount) s = snd (RecordRefund e tx amount s)"
| "ledger_step (LRecordFee e tx amount) s = snd (RecordFee e tx amount s)"
| "ledger_step (LLogAudit e ac et ei at ai ov nv md) s = LogAudit e ac et ei at ai ov nv md s"

text \<open>
  The side condition of a step: the identifiers drawn for a new account or journal are not in use
  (they are 16 random bytes; \<open>generateID\<close> maps distinct draws to distinct identifiers).
\<close>

definition fresh_account_id :: "env \<Rightarrow> LedgerService \<Rightarrow> bool" where
  "fresh_account_id e s \<longleftrightarrow> ls_accounts s (id_or_empty (generateID ''acc'' (entropy e 0))) = None"

definition fresh_journal_id :: "env \<Rightarrow> LedgerService \<Rightarrow> bool" where
  "fresh_journal_id e s \<longleftrightarrow> ls_journals s (id_or_empty (generateID ''jnl'' (entropy e 0))) = None"

fun ledger_fresh :: "LedgerService \<Rightarrow> ledger_op \<Rightarrow> bool" where
  "ledger_fresh s (LCreateAccount e name ty cur) \<longleftrightarrow> fresh_account_id e s"
| "ledger_fresh s (LCreateJournal e req) \<longleftrightarrow> fresh_journal_id e s"
| "ledger_fresh s (LRecordPayment e tx amount merchant) \<longleftrightarrow> fresh_journal_id e s"
| "ledger_fresh s (LRecordRefund e tx amount) \<longleftrightarrow> fresh_journal_id e s"
| "ledger_fresh s (LRecordFee e tx amount) \<longleftrightarrow> fresh_journal_id e s"
| "ledger_fresh s (LLogAudit e ac et ei at ai ov nv md) \<longleftrightarrow> True"

text \<open>
  What a step never undoes: the log of entries, the audit log, the journals, and of every account
  all but its balance and the instant of its last update.
\<close>

definition ledger_extends :: "LedgerService \<Rightarrow> LedgerService \<Rightarrow> bool" where
  "ledger_extends s t \<longleftrightarrow>
     (\<exists>es. ls_entries t = ls_entries s @ es) \<and> (\<exists>ls. ls_auditLogs t = ls_auditLogs s @ ls) \<and>
     ls_journals s \<subseteq>\<^sub>m ls_journals t \<and>
     (\<forall>k a. ls_accounts s k = Some a \<longrightarrow>
        (\<exists>bal upd. ls_accounts t k = Some (a\<lparr>la_Balance := bal, la_UpdatedAt := upd\<rparr>)))"

lemma account_unmoved: "\<exists>bal upd. (a :: LedgerAccount) = a\<lparr>la_Balance := bal, la_UpdatedAt := upd\<rparr>"
  by (rule exI [where x = "la_Balance a"], rule exI [where x = "la_UpdatedAt a"]) simp

lemma ledger_extends_refl: "ledger_extends s s"
  using account_unmoved by (simp add: ledger_extends_def)

lemma ledger_extends_trans:
  assumes "ledger_extends s t" "ledger_extends t u"
  shows "ledger_extends s u"
proof -
  have "\<exists>bal upd. ls_accounts u k = Some (a\<lparr>la_Balance := bal, la_UpdatedAt := upd\<rparr>)"
    if a: "ls_accounts s k = Some a" for k a
  proof -
    obtain bal upd where b: "ls_accounts t k = Some (a\<lparr>la_Balance := bal, la_UpdatedAt := upd\<rparr>)"
      using assms(1) a unfolding ledger_extends_def by blast
    obtain bal' upd' where "ls_accounts u k =
        Some (a\<lparr>la_Balance := bal, la_UpdatedAt := upd, la_Balance := bal', la_UpdatedAt := upd'\<rparr>)"
      using assms(2) b unfolding ledger_extends_def by blast
    then show ?thesis by auto
  qed
  then show ?thesis
    using assms by (auto simp: ledger_extends_def intro: map_le_trans)
qed

text \<open>Each operation keeps the invariant and extends the state.\<close>

lemma CreateJournalEntry_inv [inv_intros]:
  assumes "ledger_inv s"
  shows "ledger_inv (snd (CreateJournalEntry e req s))"
  by (rule CreateJournalEntry_cases [of e req s])
    (use assms in \<open>auto simp: ledger_inv_def journal_recorded_def\<close>)

lemma ledger_inv_two_sided: "ledger_inv s \<Longrightarrow> two_sided s"
  using normal_balance_of_cases
  by (fastforce simp: two_sided_def ran_def ledger_inv_def books_ok_def account_ok_def)

lemma CreateJournalEntry_extends:
  assumes "ledger_inv s" "fresh_journal_id e s"
  shows "ledger_extends s (snd (CreateJournalEntry e req s))"
proof (rule CreateJournalEntry_cases [of e req s])
  fix j s' assume run: "CreateJournalEntry e req s = (Inr j, s')" and "2 \<le> length (jr_Entries req)"
    "request_sum (jr_Entries req) = 0" "\<forall>r \<in> set (jr_Entries req). entry_acceptable s r"
  then have posted: "journal_posted e req s j s'"
    using CreateJournalEntry_posts [of req s e] ledger_inv_two_sided [OF assms(1)]
    by (auto simp: debits_eq_credits)
  have "\<exists>bal upd. account_after now rs k a = a\<lparr>la_Balance := bal, la_UpdatedAt := upd\<rparr>" for now rs k a
    using account_unmoved [of a] unfolding account_after_def by (cases "k \<in> er_AccountID ` set rs") auto
  with posted show ?thesis
    using assms(2) run
    by (auto simp: ledger_extends_def journal_posted_def map_le_def fresh_journal_id_def)
qed (simp add: ledger_extends_refl)

lemma logAudit_inv [simp]: "ledger_inv (logAudit draw now ac et ei at ai ov nv md s) \<longleftrightarrow> ledger_inv s"
  by (simp add: ledger_inv_def books_ok_cong [of "logAudit draw now ac et ei at ai ov nv md s" s])

lemma logAudit_extends: "ledger_extends s t \<Longrightarrow> ledger_extends s (logAudit draw now ac et ei at ai ov nv md t)"
  by (auto simp: ledger_extends_def logAudit_def)

lemma new_account_inv:
  assumes "ledger_inv s" "ls_accounts s i = None" "la_ID a = i" "la_Balance a = 0"
    "la_NormalBalance a = normal_balance_of (la_Type a)"
  shows "ledger_inv (s\<lparr>ls_accounts := (ls_accounts s)(i \<mapsto> a)\<rparr>)"
proof -
  have "entries_of i s = []"
    using assms by (force simp: entries_of_def filter_empty_conv ledger_inv_def books_ok_def)
  then have "account_ok (s\<lparr>ls_accounts := (ls_accounts s)(i \<mapsto> a)\<rparr>) i a"
    using assms by (simp add: account_ok_def entries_of_def signed_balance_def)
  moreover have "account_ok (s\<lparr>ls_accounts := (ls_accounts s)(i \<mapsto> a)\<rparr>) k b"
    if "ls_accounts s k = Some b" for k b
    using assms(1) that by (simp add: ledger_inv_def books_ok_def account_ok_def entries_of_def)
  ultimately show ?thesis
    using assms(1) by (auto simp: ledger_inv_def books_ok_def)
qed

lemma ledger_CreateAccount_inv [inv_intros]:
  assumes "ledger_inv s" "fresh_account_id e s"
  shows "ledger_inv (snd (ledger_CreateAccount e name ty cur s))"
  using assms by (auto simp: ledger_CreateAccount_def Let_def fresh_account_id_def intro!: new_account_inv)

lemma ledger_CreateAccount_extends:
  "fresh_account_id e s \<Longrightarrow> ledger_extends s (snd (ledger_CreateAccount e name ty cur s))"
  using account_unmoved
  by (auto simp: ledger_CreateAccount_def Let_def fresh_account_id_def ledger_extends_def logAudit_def)

lemma initializeSystemAccounts_inv:
  assumes "ledger_inv s" "distinct (map fst accs)" "\<forall>k \<in> fst ` set accs. ls_accounts s k = None"
    "\<forall>(k, name, ty, normal) \<in> set accs. normal = normal_balance_of ty"
  shows "ledger_inv (s\<lparr>ls_accounts := initializeSystemAccounts e i accs (ls_accounts s)\<rparr>)"
  using assms
proof (induction e i accs "ls_accounts s" arbitrary: s rule: initializeSystemAccounts.induct)
  case (1 e i m)
  then show ?case by simp
next
  case (2 e i k name ty normal accs)
  let ?a = "\<lparr>la_ID = k, la_Name = name, la_Type = ty, la_Currency = ''USD'', la_Balance = 0,
      la_NormalBalance = normal, la_IsActive = True, la_CreatedAt = clock e i,
      la_UpdatedAt = clock e (i + 1)\<rparr>"
  let ?s = "s\<lparr>ls_accounts := (ls_accounts s)(k \<mapsto> ?a)\<rparr>"
  have "ledger_inv ?s" using 2 by (intro new_account_inv) auto
  then have "ledger_inv (?s\<lparr>ls_accounts := initializeSystemAccounts e (i + 2) accs (ls_accounts ?s)\<rparr>)"
    using 2 by (intro "2.hyps") (auto simp: image_iff)
  then show ?case by simp
qed

lemma NewLedgerService_inv: "ledger_inv (NewLedgerService e)"
proof -
  let ?s = "\<lparr>ls_accounts = Map.empty, ls_entries = [], ls_journals = Map.empty, ls_auditLogs = []\<rparr>"
  have "ledger_inv ?s" by (simp add: ledger_inv_def books_ok_def)
  from initializeSystemAccounts_inv [OF this, of default_ledger_accounts e 0]
  show ?thesis by (simp add: NewLedgerService_def default_ledger_accounts_def normal_balance_of_def)
qed

interpretation ledger: monotone_machine ledger_step ledger_fresh ledger_inv ledger_extends
proof unfold_locales
  fix s a assume "ledger_inv s" "ledger_fresh s a"
  then show "ledger_inv (ledger_step a s)"
    by (cases a) (auto simp: RecordPayment_def RecordRefund_def RecordFee_def LogAudit_def
        intro: inv_intros)
next
  fix s a assume "ledger_inv s" "ledger_fresh s a"
  then show "ledger_extends s (ledger_step a s)"
    by (cases a) (auto simp: RecordPayment_def RecordRefund_def RecordFee_def LogAudit_def
        intro: CreateJournalEntry_extends ledger_CreateAccount_extends logAudit_extends
          ledger_extends_refl)
qed (fact ledger_extends_refl ledger_extends_trans)+

section \<open>Properties\<close>

lemma ledger_run_inv:
  "run_ok ledger_step ledger_fresh ops (NewLedgerService e) \<Longrightarrow>
    ledger_inv (run ledger_step ops (NewLedgerService e))"
  by (intro ledger.run_inv NewLedgerService_inv)

lemmas ledger_eval = ledger_CreateAccount_def CreateJournalEntry_def RecordPayment_def
  RecordRefund_def RecordFee_def LogAudit_def logAudit_def NewLedgerService_def
  default_ledger_accounts_def two_entry_request_def validateBalance_def post_entry_def
  posted_balance_def fresh_account_id_def fresh_journal_id_def generateID_def id_or_empty_def
  hex_byte_def hex_digit_def normal_balance_of_def Let_def

text \<open>
  C1: The books always balance.  After any sequence of operations on a new ledger service (accounts
  created, journals recorded or refused, payments, refunds, fees, audit records), with fresh
  account and journal identifiers, the sum of the balances of the debit-normal accounts minus
  those of the credit-normal accounts is zero in the 64-bit arithmetic of the code.
\<close>

theorem trial_balance_zero:
  assumes "run_ok ledger_step ledger_fresh ops (NewLedgerService e)"
  shows "trial_sum (run ledger_step ops (NewLedgerService e)) = 0"
  using ledger_run_inv [OF assms] by (simp add: ledger_inv_def trial_sum_eq_entries_sum)

theorem trial_balance_zero_witness:
  "trial_sum (run ledger_step
     [LRecordPayment (example_env 1) ''t1'' 500 ''m1'', LRecordFee (example_env 2) ''t1'' 5]
     (NewLedgerService (example_env 0))) = 0"
  by (rule trial_balance_zero) (simp add: ledger_eval example_env_def)

text \<open>
  C2: The ledger is its own audit trail.  In every state the service reaches by operations with fresh account and
  journal identifiers, the balance of an
  account is the 64-bit sum of the entries posted to it, counted on its normal side, and the
  running balance of its latest entry is its balance.
\<close>

theorem balance_replays_entries:
  assumes "run_ok ledger_step ledger_fresh ops (NewLedgerService e)"
    and "s = run ledger_step ops (NewLedgerService e)" and "ls_accounts s i = Some a"
  shows "la_Balance a = (if la_NormalBalance a = EntryDebit then entries_sum (entries_of i s)
      else - entries_sum (entries_of i s)) \<and>
    (entries_of i s \<noteq> [] \<longrightarrow> le_Balance (last (entries_of i s)) = la_Balance a)"
proof -
  have "account_ok s i a"
    using ledger_run_inv [OF assms(1)] assms(2,3) by (simp add: ledger_inv_def books_ok_def)
  then show ?thesis
    by (auto simp: account_ok_def signed_balance_def minus_equation_iff [of "la_Balance a"]
        split: if_splits)
qed

theorem balance_replays_entries_witness:
  "\<exists>a. ls_accounts (run ledger_step [LRecordFee (example_env 1) ''t1'' 7]
          (NewLedgerService (example_env 0))) ''acc_fees'' = Some a \<and> la_Balance a = 7 \<and>
    la_Balance a = - entries_sum (entries_of ''acc_fees''
      (run ledger_step [LRecordFee (example_env 1) ''t1'' 7] (NewLedgerService (example_env 0))))"
proof -
  let ?ops = "[LRecordFee (example_env 1) ''t1'' 7]" and ?s0 = "NewLedgerService (example_env 0)"
  obtain a where a: "ls_accounts (run ledger_step ?ops ?s0) ''acc_fees'' = Some a"
    "la_Balance a = 7" "la_NormalBalance a = EntryCredit"
    by (simp add: ledger_eval example_env_def)
  have "run_ok ledger_step ledger_fresh ?ops ?s0"
    by (simp add: ledger_eval example_env_def)
  from balance_replays_entries [OF this refl a(1)] a show ?thesis by auto
qed

lemma NewLedgerService_two_sided: "two_sided (NewLedgerService e)"
  using NewLedgerService_inv by (rule ledger_inv_two_sided)

text \<open>
  C4: What \<open>CreateJournalEntry\<close> does, on every branch.  A request of fewer than two entries is
  refused as empty, then one whose debits and other entries differ in their 64-bit sums as
  unbalanced, then the first entry that names no account, an inactive account or an amount that
  is not positive is refused with the error of that fault; a refused request changes nothing.
  Every other request is recorded: the journal carries one entry for each line of the request, in
  order, with the account's currency and running balance; each account moves by the debits and
  credits that name it, counted on its normal side, and no other account changes; the entries are
  appended to the ledger, the journal is kept under its identifier and one audit record is added.
  The hypothesis, that the normal side of every account is a debit or a credit, holds in every
  state the service reaches (\<open>ledger_inv_two_sided\<close>).
\<close>

theorem CreateJournalEntry_outcome:
  assumes "two_sided s" "rs = jr_Entries req"
  shows "(length rs < 2 \<longrightarrow> CreateJournalEntry e req s = (Inl LedgerErrEmptyJournal, s)) \<and>
    (2 \<le> length rs \<and> debits rs \<noteq> credits rs \<longrightarrow>
       CreateJournalEntry e req s = (Inl LedgerErrUnbalancedEntry, s)) \<and>
    (\<forall>n < length rs. 2 \<le> length rs \<and> debits rs = credits rs \<and>
         (\<forall>r \<in> set (take n rs). entry_acceptable s r) \<and> \<not> entry_acceptable s (rs ! n) \<longrightarrow>
       CreateJournalEntry e req s =
         (Inl (case ls_accounts s (er_AccountID (rs ! n)) of
                 None \<Rightarrow> LedgerErrAccountNotFound
               | Some a \<Rightarrow> if la_IsActive a then LedgerErrInvalidAmount
                           else LedgerErrAccountInactive), s)) \<and>
    (2 \<le> length rs \<and> debits rs = credits rs \<and> (\<forall>r \<in> set rs. entry_acceptable s r) \<longrightarrow>
       (\<exists>j s'. CreateJournalEntry e req s = (Inr j, s') \<and> journal_posted e req s j s'))"
proof -
  have "length rs < 2 \<longrightarrow> CreateJournalEntry e req s = (Inl LedgerErrEmptyJournal, s)"
    by (simp add: CreateJournalEntry_def assms(2))
  moreover have "2 \<le> length rs \<and> debits rs \<noteq> credits rs \<longrightarrow>
      CreateJournalEntry e req s = (Inl LedgerErrUnbalancedEntry, s)"
    using validateBalance_None [of rs] debits_eq_credits [of rs]
    by (auto simp: CreateJournalEntry_def assms(2) validateBalance_def split: prod.splits if_splits)
  ultimately show ?thesis
    using CreateJournalEntry_rejects [of req _ s e] CreateJournalEntry_posts [of req s e] assms(1)
    unfolding assms(2) by blast
qed

theorem CreateJournalEntry_outcome_witness:
  "CreateJournalEntry (example_env 1)
      (two_entry_request ''d'' ''t'' ''r'' ''acc_cash'' ''acc_none'' 5) (NewLedgerService (example_env 0))
    = (Inl LedgerErrAccountNotFound, NewLedgerService (example_env 0)) \<and>
   (\<exists>j s'. CreateJournalEntry (example_env 1)
       (two_entry_request ''d'' ''t'' ''r'' ''acc_cash'' ''acc_fees'' 5) (NewLedgerService (example_env 0))
     = (Inr j, s') \<and> map le_Balance (je_Entries j) = [5, 5] \<and> ls_entries s' = je_Entries j \<and>
     map_option la_Balance (ls_accounts s' ''acc_fees'') = Some 5)"
proof
  let ?s = "NewLedgerService (example_env 0)"
  let ?bad = "two_entry_request ''d'' ''t'' ''r'' ''acc_cash'' ''acc_none'' 5"
  let ?good = "two_entry_request ''d'' ''t'' ''r'' ''acc_cash'' ''acc_fees'' 5"
  note outcome = CreateJournalEntry_outcome [OF NewLedgerService_two_sided refl]
  have "debits (jr_Entries ?bad) = credits (jr_Entries ?bad)" "1 < length (jr_Entries ?bad)"
    "\<forall>r \<in> set (take 1 (jr_Entries ?bad)). entry_acceptable ?s r"
    "ls_accounts ?s (er_AccountID (jr_Entries ?bad ! 1)) = None"
    by (simp_all add: ledger_eval entry_acceptable_def debits_def credits_def)
  then show "CreateJournalEntry (example_env 1) ?bad ?s = (Inl LedgerErrAccountNotFound, ?s)"
    using outcome [of ?bad "example_env 1" "example_env 0", THEN conjunct2, THEN conjunct2,
        THEN conjunct1, rule_format, of 1]
    by (simp add: entry_acceptable_def)
  have "debits (jr_Entries ?good) = credits (jr_Entries ?good)" "2 \<le> length (jr_Entries ?good)"
    "\<forall>r \<in> set (jr_Entries ?good). entry_acceptable ?s r"
    by (simp_all add: ledger_eval entry_acceptable_def debits_def credits_def)
  then obtain j s' where run: "CreateJournalEntry (example_env 1) ?good ?s = (Inr j, s')"
    and posted: "journal_posted (example_env 1) ?good ?s j s'"
    using outcome [of ?good "example_env 1" "example_env 0"] by blast
  have "length (je_Entries j) = 2" "\<forall>n < 2. le_Balance (je_Entries j ! n) = 5"
    using posted by (auto simp: journal_posted_def entry_posted_def ledger_eval less_2_cases_iff)
  then have "map le_Balance (je_Entries j) = [5, 5]"
    by (intro nth_equalityI) (auto simp: less_2_cases_iff)
  moreover have "ls_entries s' = je_Entries j" "map_option la_Balance (ls_accounts s' ''acc_fees'') = Some 5"
    using posted by (auto simp: journal_posted_def account_after_def ledger_eval)
  ultimately show "\<exists>j s'. CreateJournalEntry (example_env 1) ?good ?s = (Inr j, s') \<and>
      map le_Balance (je_Entries j) = [5, 5] \<and> ls_entries s' = je_Entries j \<and>
      map_option la_Balance (ls_accounts s' ''acc_fees'') = Some 5"
    using run by (intro exI conjI)
qed
text \<open>
  The balance check is exact below the range of \<open>int64\<close>.  If the amounts of a request are
  positive and add up to less than 2^63 cents, \<open>validateBalance\<close> accepts it exactly when the
  debits and the credits have the same sum as integers.
\<close>

theorem validateBalance_exact:
  assumes "\<forall>r \<in> set rs. 0 < sint (er_Amount r)"
    and "(\<Sum>r \<leftarrow> rs. sint (er_Amount r)) < 2 ^ 63"
  shows "validateBalance rs = None \<longleftrightarrow>
    (\<Sum>r \<leftarrow> filter (\<lambda>r. er_Type r = EntryDebit) rs. sint (er_Amount r)) =
    (\<Sum>r \<leftarrow> filter (\<lambda>r. er_Type r \<noteq> EntryDebit) rs. sint (er_Amount r))"
proof -
  have split: "(\<Sum>r \<leftarrow> rs. sint (er_Amount r)) =
      (\<Sum>r \<leftarrow> filter P rs. sint (er_Amount r)) + (\<Sum>r \<leftarrow> filter (\<lambda>r. \<not> P r) rs. sint (er_Amount r))" for P
    by (induction rs) simp_all
  have nonneg: "0 \<le> (\<Sum>r \<leftarrow> filter P rs. sint (er_Amount r))" for P
    using assms(1) by (force intro!: sum_list_nonneg intro: less_imp_le)
  have exact: "sint (sum_list (map er_Amount (filter P rs))) = (\<Sum>r \<leftarrow> filter P rs. sint (er_Amount r))" for P
    using sint64_sum_list [of "map er_Amount (filter P rs)"] assms split [of P]
      nonneg [of "\<lambda>r. \<not> P r"] by (auto simp: o_def less_imp_le)
  have "validateBalance rs = None \<longleftrightarrow> sint (debits rs) = sint (credits rs)"
    by (simp add: validateBalance_None debits_eq_credits sint64_inject)
  then show ?thesis by (simp add: debits_def credits_def exact)
qed

theorem validateBalance_exact_witness:
  "validateBalance (jr_Entries (two_entry_request ''d'' ''t'' ''r'' ''a'' ''b'' 5)) = None"
  using validateBalance_exact [of "jr_Entries (two_entry_request ''d'' ''t'' ''r'' ''a'' ''b'' 5)"]
  by (simp add: two_entry_request_def)

text \<open>
  Above that range the check can be fooled: a journal of four debits of 2^62 cents and no credit
  at all is accepted by a new ledger, because the sum of the debits wraps to zero.
\<close>

theorem one_sided_journal_accepted:
  "\<exists>j s'. CreateJournalEntry (example_env 1)
     \<lparr>jr_Description = ''d'', jr_ReferenceType = ''t'', jr_ReferenceID = ''r'',
      jr_Entries = (let r = \<lparr>er_AccountID = ''acc_cash'', er_Type = EntryDebit,
        er_Amount = 4611686018427387904, er_Description = []\<rparr> in [r, r, r, r]),
      jr_Metadata = None\<rparr> (NewLedgerService (example_env 0)) = (Inr j, s')"
  by (simp add: ledger_eval example_env_def)

text \<open>
  A recorded payment moves the amount into cash and owes it to the customers: with the two system
  accounts present and active and a positive amount, \<open>RecordPayment\<close> succeeds, adds the amount to
  the balances of \<open>acc_cash\<close> and \<open>acc_customer_deposits\<close> and touches no other account, whatever
  merchant account is named.
\<close>

theorem RecordPayment_effect:
  assumes "ls_accounts s ''acc_cash'' = Some c" "la_IsActive c" "la_NormalBalance c = EntryDebit"
    and "ls_accounts s ''acc_customer_deposits'' = Some d" "la_IsActive d"
    and "la_NormalBalance d = EntryCredit" and "0 < sint amount"
  shows "\<exists>j s'. RecordPayment e tx amount merchant s = (Inr j, s') \<and>
    map_option la_Balance (ls_accounts s' ''acc_cash'') = Some (la_Balance c + amount) \<and>
    map_option la_Balance (ls_accounts s' ''acc_customer_deposits'') = Some (la_Balance d + amount) \<and>
    (\<forall>i. i \<noteq> ''acc_cash'' \<longrightarrow> i \<noteq> ''acc_customer_deposits'' \<longrightarrow> ls_accounts s' i = ls_accounts s i)"
  using assms
  by (simp add: RecordPayment_def CreateJournalEntry_def two_entry_request_def validateBalance_def
      post_entry_def posted_balance_def Let_def not_le)

theorem RecordPayment_effect_witness:
  "\<exists>j s'. RecordPayment (example_env 1) ''t1'' 500 ''m1'' (NewLedgerService (example_env 0)) = (Inr j, s') \<and>
    map_option la_Balance (ls_accounts s' ''acc_cash'') = Some 500"
proof -
  let ?s = "NewLedgerService (example_env 0)"
  obtain c d where a: "ls_accounts ?s ''acc_cash'' = Some c" "la_IsActive c" "la_Balance c = 0"
      "la_NormalBalance c = EntryDebit" "ls_accounts ?s ''acc_customer_deposits'' = Some d"
      "la_IsActive d" "la_NormalBalance d = EntryCredit"
    by (simp add: NewLedgerService_def default_ledger_accounts_def)
  from RecordPayment_effect [OF a(1,2,4,5,6,7), of 500 "example_env 1" "''t1''" "''m1''"] a(3)
  show ?thesis by auto
qed

text \<open>
  C8: The ledger is append-only.  Along every sequence of operations whose account and journal
  identifiers are fresh, from any well-formed ledger, the entries and the audit records present at
  the start remain, in order, as the first ones, and every recorded journal stays as it was.  No
  account disappears, and of an account only the balance and the instant of its last update ever
  change: the balance by just the entries appended for it, counted on its normal side.
\<close>

theorem ledger_append_only:
  assumes "ledger_inv s" "run_ok ledger_step ledger_fresh ops s" "t = run ledger_step ops s"
  shows "(\<exists>ls. ls_auditLogs t = ls_auditLogs s @ ls) \<and>
    (\<forall>i j. ls_journals s i = Some j \<longrightarrow> ls_journals t i = Some j) \<and>
    (\<exists>es. ls_entries t = ls_entries s @ es \<and>
       (\<forall>i a. ls_accounts s i = Some a \<longrightarrow>
          (\<exists>upd. ls_accounts t i = Some (a\<lparr>
             la_Balance := la_Balance a + (if la_NormalBalance a = EntryDebit
               then entries_sum (filter (\<lambda>x. le_AccountID x = i) es)
               else - entries_sum (filter (\<lambda>x. le_AccountID x = i) es)),
             la_UpdatedAt := upd\<rparr>))))"
proof -
  have ext: "ledger_extends s t" using ledger.run_le [OF assms(1,2)] assms(3) by simp
  have inv: "ledger_inv t" using ledger.run_inv [OF assms(1,2)] assms(3) by simp
  from ext obtain es where es: "ls_entries t = ls_entries s @ es" by (auto simp: ledger_extends_def)
  have "\<exists>upd. ls_accounts t i = Some (a\<lparr>
      la_Balance := la_Balance a + (if la_NormalBalance a = EntryDebit
        then entries_sum (filter (\<lambda>x. le_AccountID x = i) es)
        else - entries_sum (filter (\<lambda>x. le_AccountID x = i) es)), la_UpdatedAt := upd\<rparr>)"
    if a: "ls_accounts s i = Some a" for i a
  proof -
    obtain bal upd where b: "ls_accounts t i = Some (a\<lparr>la_Balance := bal, la_UpdatedAt := upd\<rparr>)"
      using ext a unfolding ledger_extends_def by blast
    have "signed_balance a = entries_sum (entries_of i s)"
      using assms(1) a by (simp add: ledger_inv_def books_ok_def account_ok_def)
    moreover have "signed_balance (a\<lparr>la_Balance := bal, la_UpdatedAt := upd\<rparr>) = entries_sum (entries_of i t)"
      using inv b by (auto simp: ledger_inv_def books_ok_def account_ok_def)
    ultimately have "bal = la_Balance a + (if la_NormalBalance a = EntryDebit
        then entries_sum (filter (\<lambda>x. le_AccountID x = i) es)
        else - entries_sum (filter (\<lambda>x. le_AccountID x = i) es))"
      by (auto simp: signed_balance_def entries_of_def es minus_equation_iff [of bal]
          minus_equation_iff [of "la_Balance a"])
    then show ?thesis using b by blast
  qed
  with es ext show ?thesis
    by (auto simp: ledger_extends_def map_le_def dom_def)
qed

theorem ledger_append_only_witness:
  "\<exists>upd. ls_accounts (run ledger_step [LRecordFee (example_env 1) ''t1'' 7]
       (NewLedgerService (example_env 0))) ''acc_fees'' =
     Some (the (ls_accounts (NewLedgerService (example_env 0)) ''acc_fees'')
       \<lparr>la_Balance := 7, la_UpdatedAt := upd\<rparr>)"
proof -
  let ?s = "NewLedgerService (example_env 0)" and ?ops = "[LRecordFee (example_env 1) ''t1'' 7]"
  have ok: "run_ok ledger_step ledger_fresh ?ops ?s"
    by (simp add: ledger_eval example_env_def)
  obtain a where a: "ls_accounts ?s ''acc_fees'' = Some a" "la_Balance a = 0"
    "la_NormalBalance a = EntryCredit" "ls_entries ?s = []"
    by (simp add: ledger_eval)
  obtain es where es: "ls_entries (run ledger_step ?ops ?s) = ls_entries ?s @ es"
    and acc: "\<forall>i a. ls_accounts ?s i = Some a \<longrightarrow> (\<exists>upd. ls_accounts (run ledger_step ?ops ?s) i =
      Some (a\<lparr>la_Balance := la_Balance a + (if la_NormalBalance a = EntryDebit
               then entries_sum (filter (\<lambda>x. le_AccountID x = i) es)
               else - entries_sum (filter (\<lambda>x. le_AccountID x = i) es)), la_UpdatedAt := upd\<rparr>))"
    using ledger_append_only [OF NewLedgerService_inv ok refl] by blast
  note acc = acc [rule_format, OF a(1)]
  have "entries_sum (filter (\<lambda>x. le_AccountID x = ''acc_fees'') (ls_entries (run ledger_step ?ops ?s))) = - 7"
    by (simp add: ledger_eval example_env_def signed_amount_def)
  with acc es a show ?thesis by (simp del: run.simps)
qed

text \<open>
  The pages of an account's entries.  \<open>GetEntriesForAccount\<close> panics on every negative offset (the
  HTTP handler passes the parameter on unchecked); for an offset and a limit that are not
  negative and whose sum stays in range it returns the requested part of the account's
  entries, in the order they were posted, and their number.
\<close>

theorem GetEntriesForAccount_pages:
  "(sint offset < 0 \<longrightarrow> GetEntriesForAccount i limit offset s = None) \<and>
   (0 \<le> sint offset \<longrightarrow> 0 \<le> sint limit \<longrightarrow> sint offset + sint limit < 2 ^ 63 \<longrightarrow>
     GetEntriesForAccount i limit offset s =
       Some (take (nat (sint limit)) (drop (nat (sint offset)) (entries_of i s)),
             length (entries_of i s)))"
  by (simp add: GetEntriesForAccount_def entries_of_def paginate_page paginate_negative_offset)

theorem GetEntriesForAccount_pages_witness:
  "GetEntriesForAccount ''acc_cash'' 20 (- 1) (NewLedgerService (example_env 0)) = None \<and>
   GetEntriesForAccount ''acc_cash'' 20 0 (NewLedgerService (example_env 0)) = Some ([], 0)"
  using GetEntriesForAccount_pages [of "- 1" "''acc_cash''" 20 "NewLedgerService (example_env 0)"]
    GetEntriesForAccount_pages [of 0 "''acc_cash''" 20 "NewLedgerService (example_env 0)"]
  by (simp add: NewLedgerService_def entries_of_def)

end
