(* ===== verification/LedgerApi.thy ===== *)
theory LedgerApi
  imports Api Ledger
begin

text \<open>
  The HTTP interface of the ledger: the handlers and routes of \<open>services/ledger/cmd/main.go\<close>, in the
  manner of the transaction interface.
\<close>

section \<open>The handlers\<close>

record ledger_codec =
  lc_account :: "string \<Rightarrow> (string \<times> ledger_account_type \<times> string) \<times> bool"
  lc_journal :: "string \<Rightarrow> CreateJournalRequest \<times> bool"
  lc_payment :: "string \<Rightarrow> (string \<times> int64 \<times> string) \<times> bool"
  lc_refund :: "string \<Rightarrow> (string \<times> int64) \<times> bool"

datatype ledger_payload =
  LedgerAccounts "LedgerAccount list" | LedgerAccountResponse LedgerAccount
| EntriesResponse "LedgerEntry list" nat | LedgerJournal JournalEntry
| LedgerBalances "string \<rightharpoonup> int64" | AuditLogsResponse "AuditLog list" nat

fun ledger_error_text :: "ledger_error \<Rightarrow> string" where
  "ledger_error_text LedgerErrAccountNotFound = ''account not found''"
| "ledger_error_text LedgerErrUnbalancedEntry = ''journal entry debits and credits must balance''"
| "ledger_error_text LedgerErrEmptyJournal = ''journal must have at least two entries''"
| "ledger_error_text LedgerErrInvalidAmount = ''amount must be positive''"
| "ledger_error_text LedgerErrAccountInactive = ''account is inactive''"
| "ledger_error_text LedgerErrJournalNotFound = ''journal not found''"
| "ledger_error_text LedgerPanic = []"

text \<open>
  The outcome of an operation as an answer: \<open>failure\<close> is the status of its errors, and a nil dereference
  of the operation is a panic of the handler.
\<close>

definition ledger_outcome ::
  "nat \<Rightarrow> nat \<Rightarrow> ('a \<Rightarrow> ledger_payload) \<Rightarrow> ledger_error + 'a \<Rightarrow> ledger_payload ApiResponse option" where
  "ledger_outcome success failure payload result =
     (case result of
        Inl err \<Rightarrow> if err = LedgerPanic then None else Some (errorResponse failure (ledger_error_text err))
      | Inr v \<Rightarrow> Some (jsonResponse success (Reply (payload v))))"

definition handle_accounts :: "ledger_codec \<Rightarrow> env \<Rightarrow> string list \<Rightarrow> (ledger_payload, LedgerService) api" where
  "handle_accounts codec e ks x s =
     (if rq_Method x = ''GET''
      then (Some (jsonResponse 200 (Reply (LedgerAccounts (ledger_ListAccounts ks s)))), s)
      else if rq_Method x = ''POST'' then
        (case lc_account codec (rq_Body x) of
           (req, False) \<Rightarrow> (Some (badRequest ''invalid request body''), s)
         | ((name, accountType, currency), True) \<Rightarrow>
             let (result, s') = ledger_CreateAccount e name accountType currency s
             in (ledger_outcome 201 400 LedgerAccountResponse result, s'))
      else (Some methodNotAllowed, s))"

definition handle_account :: "(ledger_payload, LedgerService) api" where
  "handle_account x s =
     (let parts = split_char CHR ''/'' (trim_prefix ''/accounts/'' (rq_Path x));
          accountID = hd parts
      in if 1 < length parts \<and> parts ! 1 = ''entries'' then
           let limit = fst (Atoi (query_Get x ''limit''));
               offset = fst (Atoi (query_Get x ''offset''));
               limit = (if limit = 0 then 20 else limit)
           in (map_option (\<lambda>(entries, number). jsonResponse 200 (Reply (EntriesResponse entries number)))
                 (GetEntriesForAccount accountID limit offset s), s)
         else (ledger_outcome 200 404 LedgerAccountResponse (ledger_GetAccount accountID s), s))"

definition handle_journals :: "ledger_codec \<Rightarrow> env \<Rightarrow> (ledger_payload, LedgerService) api" where
  "handle_journals codec e x s =
     (if rq_Method x \<noteq> ''POST'' then (Some methodNotAllowed, s)
      else
        (case lc_journal codec (rq_Body x) of
           (req, False) \<Rightarrow> (Some (badRequest ''invalid request body''), s)
         | (req, True) \<Rightarrow>
             let (result, s') = CreateJournalEntry e req s
             in (ledger_outcome 201 400 LedgerJournal result, s')))"

definition handle_journal :: "(ledger_payload, LedgerService) api" where
  "handle_journal x s =
     (ledger_outcome 200 404 LedgerJournal (GetJournal (trim_prefix ''/journals/'' (rq_Path x)) s), s)"

definition handle_trial_balance :: "(ledger_payload, LedgerService) api" where
  "handle_trial_balance x s =
     (if rq_Method x \<noteq> ''GET'' then (Some methodNotAllowed, s)
      else (Some (jsonResponse 200 (Reply (LedgerBalances (GetTrialBalance s)))), s))"

definition handle_audit_logs :: "(ledger_payload, LedgerService) api" where
  "handle_audit_logs x s =
     (if rq_Method x \<noteq> ''GET'' then (Some methodNotAllowed, s)
      else
        let limit = fst (Atoi (query_Get x ''limit''));
            offset = fst (Atoi (query_Get x ''offset''));
            limit = (if limit = 0 then 50 else limit)
        in (map_option (\<lambda>(logs, number). jsonResponse 200 (Reply (AuditLogsResponse logs number)))
              (GetAuditLogs (query_Get x ''entity_type'') (query_Get x ''entity_id'') limit offset s), s))"

definition handle_record_payment :: "ledger_codec \<Rightarrow> env \<Rightarrow> (ledger_payload, LedgerService) api" where
  "handle_record_payment codec e x s =
     (if rq_Method x \<noteq> ''POST'' then (Some methodNotAllowed, s)
      else
        (case lc_payment codec (rq_Body x) of
           (req, False) \<Rightarrow> (Some (badRequest ''invalid request body''), s)
         | ((transactionID, amount, merchantAccountID), True) \<Rightarrow>
             let (result, s') = RecordPayment e transactionID amount merchantAccountID s
             in (ledger_outcome 201 400 LedgerJournal result, s')))"

definition handle_record_refund :: "ledger_codec \<Rightarrow> env \<Rightarrow> (ledger_payload, LedgerService) api" where
  "handle_record_refund codec e x s =
     (if rq_Method x \<noteq> ''POST'' then (Some methodNotAllowed, s)
      else
        (case lc_refund codec (rq_Body x) of
           (req, False) \<Rightarrow> (Some (badRequest ''invalid request body''), s)
         | ((transactionID, amount), True) \<Rightarrow>
             let (result, s') = RecordRefund e transactionID amount s
             in (ledger_outcome 201 400 LedgerJournal result, s')))"

definition ledger_routes ::
  "ledger_codec \<Rightarrow> env \<Rightarrow> string list \<Rightarrow> (string \<times> (ledger_payload, LedgerService) api) list" where
  "ledger_routes codec e ks =
     [(''/health'', health_handler ''{\"status\":\"healthy\",\"service\":\"ledger\"}''),
      (''/accounts'', handle_accounts codec e ks),
      (''/accounts/'', handle_account),
      (''/journals'', handle_journals codec e),
      (''/journals/'', handle_journal),
      (''/trial-balance'', handle_trial_balance),
      (''/audit-logs'', handle_audit_logs),
      (''/record-payment'', handle_record_payment codec e),
      (''/record-refund'', handle_record_refund codec e)]"

record ledger_arrival =
  lr_request :: ApiRequest
  lr_env :: env
  lr_order :: "string list"

definition ledger_serve ::
  "ledger_codec \<Rightarrow> ledger_arrival \<Rightarrow> LedgerService \<Rightarrow> ledger_payload ApiResponse option \<times> LedgerService" where
  "ledger_serve codec a s = serve_mux (ledger_routes codec (lr_env a) (lr_order a)) (lr_request a) s"

section \<open>The calls of a request\<close>

definition ledger_calls :: "ledger_codec \<Rightarrow> ledger_arrival \<Rightarrow> ledger_op list" where
  "ledger_calls codec a =
     (let x = lr_request a; e = lr_env a; path = rq_Path x; body = rq_Body x
      in if rq_Method x \<noteq> ''POST'' then []
         else if path = ''/accounts'' then
           (case lc_account codec body of ((name, accountType, currency), ok) \<Rightarrow>
              if ok then [LCreateAccount e name accountType currency] else [])
         else if path = ''/journals'' then
           (case lc_journal codec body of (req, ok) \<Rightarrow> if ok then [LCreateJournal e req] else [])
         else if path = ''/record-payment'' then
           (case lc_payment codec body of ((i, amount, merchant), ok) \<Rightarrow>
              if ok then [LRecordPayment e i amount merchant] else [])
         else if path = ''/record-refund'' then
           (case lc_refund codec body of ((i, amount), ok) \<Rightarrow> if ok then [LRecordRefund e i amount] else [])
         else [])"

lemma ledger_routed:
  "serve_mux (ledger_routes codec e ks) x s =
     (if \<not> canonical x then (Some \<lparr>as_Status = 301, as_Body = Redirect\<rparr>, s)
      else if rq_Path x = ''/health''
      then health_handler ''{\"status\":\"healthy\",\"service\":\"ledger\"}'' x s
      else if rq_Path x = ''/accounts'' then handle_accounts codec e ks x s
      else if has_prefix (rq_Path x) ''/accounts/'' then handle_account x s
      else if rq_Path x = ''/journals'' then handle_journals codec e x s
      else if has_prefix (rq_Path x) ''/journals/'' then handle_journal x s
      else if rq_Path x = ''/trial-balance'' then handle_trial_balance x s
      else if rq_Path x = ''/audit-logs'' then handle_audit_logs x s
      else if rq_Path x = ''/record-payment'' then handle_record_payment codec e x s
      else if rq_Path x = ''/record-refund'' then handle_record_refund codec e x s
      else (Some \<lparr>as_Status = 404, as_Body = Plain ''404 page not found''\<rparr>, s))"
proof (cases "has_prefix (rq_Path x) ''/accounts/'' \<or> has_prefix (rq_Path x) ''/journals/''")
  case True
  then show ?thesis
    by (auto simp: serve_mux_def ledger_routes_def route_matches_def longest_route_def has_suffix_def has_prefix_iff)
next
  case False
  have suffix: "has_suffix ''/accounts/'' ''/''" "has_suffix ''/journals/'' ''/''"
    "\<not> has_suffix ''/accounts'' ''/''" "\<not> has_suffix ''/journals'' ''/''" "\<not> has_suffix ''/health'' ''/''"
    "\<not> has_suffix ''/trial-balance'' ''/''" "\<not> has_suffix ''/audit-logs'' ''/''"
    "\<not> has_suffix ''/record-payment'' ''/''" "\<not> has_suffix ''/record-refund'' ''/''"
    by (simp_all add: has_suffix_def)
  from False have "rq_Path x \<noteq> ''/accounts/''" "rq_Path x \<noteq> ''/journals/''"
    by (auto simp: has_prefix_def)
  with False show ?thesis
    by (auto simp: serve_mux_def ledger_routes_def route_matches_def longest_route_def suffix)
qed

lemma clean_ledger_paths [simp]:
  "clean_path ''/accounts''" "clean_path ''/journals''" "clean_path ''/trial-balance''"
  "clean_path ''/audit-logs''" "clean_path ''/record-payment''" "clean_path ''/record-refund''"
  by (simp_all add: clean_path_def)

lemma ledger_handlers_read [simp]:
  "snd (handle_account x s) = s" "snd (handle_journal x s) = s" "snd (handle_trial_balance x s) = s"
  "snd (handle_audit_logs x s) = s" "snd (health_handler text x s) = s"
  by (simp_all add: handle_account_def handle_journal_def handle_trial_balance_def handle_audit_logs_def
      health_handler_def Let_def)

lemma ledger_handlers_write:
  "snd (handle_accounts codec e ks x s) =
    (case lc_account codec (rq_Body x) of ((name, accountType, currency), ok) \<Rightarrow>
       if rq_Method x = ''POST'' \<and> ok then snd (ledger_CreateAccount e name accountType currency s) else s)"
  "snd (handle_journals codec e x s) =
    (case lc_journal codec (rq_Body x) of (req, ok) \<Rightarrow>
       if rq_Method x = ''POST'' \<and> ok then snd (CreateJournalEntry e req s) else s)"
  "snd (handle_record_payment codec e x s) =
    (case lc_payment codec (rq_Body x) of ((i, amount, merchant), ok) \<Rightarrow>
       if rq_Method x = ''POST'' \<and> ok then snd (RecordPayment e i amount merchant s) else s)"
  "snd (handle_record_refund codec e x s) =
    (case lc_refund codec (rq_Body x) of ((i, amount), ok) \<Rightarrow>
       if rq_Method x = ''POST'' \<and> ok then snd (RecordRefund e i amount s) else s)"
  by (auto simp: handle_accounts_def handle_journals_def handle_record_payment_def handle_record_refund_def
      split: prod.split bool.split)

interpretation ledger_api: server "ledger_serve codec" ledger_step "ledger_calls codec"
proof
  fix a :: ledger_arrival and s
  let ?path = "rq_Path (lr_request a)"
  have no_prefix: "\<not> has_prefix ?path ''/accounts/''" "\<not> has_prefix ?path ''/journals/''"
    if "?path \<in> {''/accounts'', ''/journals'', ''/record-payment'', ''/record-refund''}"
    using that by (auto simp: has_prefix_def)
  consider (accounts) "?path = ''/accounts''" | (journals) "?path = ''/journals''"
    | (payment) "?path = ''/record-payment''" | (refund) "?path = ''/record-refund''"
    | (other) "?path \<notin> {''/accounts'', ''/journals'', ''/record-payment'', ''/record-refund''}" by blast
  then show "snd (ledger_serve codec a s) = run ledger_step (ledger_calls codec a) s"
  proof cases
    case other
    then have "ledger_calls codec a = []" by (simp add: ledger_calls_def Let_def)
    with other show ?thesis by (simp add: ledger_serve_def ledger_routed)
  qed (use no_prefix in \<open>auto simp: ledger_serve_def ledger_routed ledger_handlers_write ledger_calls_def Let_def
      split: prod.split\<close>)
qed

section \<open>Properties\<close>

definition ledger_request :: "string \<Rightarrow> string \<Rightarrow> string \<Rightarrow> (string \<times> string list) list \<Rightarrow> ApiRequest" where
  "ledger_request verb path body query =
     \<lparr>rq_Method = verb, rq_Host = [], rq_Path = path, rq_RawQuery = [], rq_Query = query,
      rq_Header = (\<lambda>_. []), rq_RemoteAddr = [], rq_Body = body\<rparr>"

definition example_ledger_codec :: ledger_codec where
  "example_ledger_codec =
     \<lparr>lc_account = (\<lambda>body. ((''n'', AccountAsset, ''USD''), True)),
      lc_journal = (\<lambda>body. (two_entry_request ''d'' ''t'' ''r'' ''acc_cash'' ''acc_fees'' 5, False)),
      lc_payment = (\<lambda>body. ((''t1'', 500, ''m1''), True)), lc_refund = (\<lambda>body. ((''t1'', 70), True))\<rparr>"

definition example_ledger_arrivals :: "ledger_arrival list" where
  "example_ledger_arrivals =
     [\<lparr>lr_request = ledger_request ''POST'' ''/record-payment'' [] [], lr_env = example_env 1, lr_order = []\<rparr>,
      \<lparr>lr_request = ledger_request ''POST'' ''/journals'' [] [], lr_env = example_env 2, lr_order = []\<rparr>,
      \<lparr>lr_request = ledger_request ''POST'' ''/record-refund'' [] [], lr_env = example_env 3, lr_order = []\<rparr>]"

lemma example_ledger_arrivals_calls:
  "concat (map (ledger_calls example_ledger_codec) example_ledger_arrivals) =
    [LRecordPayment (example_env 1) ''t1'' 500 ''m1'', LRecordRefund (example_env 3) ''t1'' 70]"
  by (simp add: example_ledger_arrivals_def ledger_calls_def ledger_request_def example_ledger_codec_def)

text \<open>
  C6: The trial balance of the interface.  Whatever requests arrive at a new ledger service, as long as the
  identifiers drawn for accounts and journals are fresh, GET /trial-balance answers with the
  balances of all accounts, and they balance: debit-normal less credit-normal ones make zero.
\<close>

theorem ledger_api_trial_balance:
  assumes "run_ok ledger_step ledger_fresh (concat (map (ledger_calls codec) arrivals)) (NewLedgerService e)"
    and "s = run (served (ledger_serve codec)) arrivals (NewLedgerService e)"
    and "rq_Path (lr_request a) = ''/trial-balance''" "rq_Method (lr_request a) = ''GET''"
  shows "ledger_serve codec a s = (Some (jsonResponse 200 (Reply (LedgerBalances (GetTrialBalance s)))), s) \<and>
    GetTrialBalance s = (\<lambda>i. map_option la_Balance (ls_accounts s i)) \<and> trial_sum s = 0"
proof -
  have "ledger_inv s"
    unfolding assms(2) ledger_api.run_served by (rule ledger_run_inv [OF assms(1)])
  then have "trial_sum s = 0" by (simp add: ledger_inv_def trial_sum_eq_entries_sum)
  with assms(3,4) show ?thesis
    by (simp add: ledger_serve_def ledger_routed has_prefix_def handle_trial_balance_def GetTrialBalance_def)
qed

theorem ledger_api_trial_balance_witness:
  "trial_sum (run (served (ledger_serve example_ledger_codec)) example_ledger_arrivals
     (NewLedgerService (example_env 0))) = 0"
proof -
  let ?a = "\<lparr>lr_request = ledger_request ''GET'' ''/trial-balance'' [] [], lr_env = example_env 9,
    lr_order = []\<rparr>"
  have "run_ok ledger_step ledger_fresh (concat (map (ledger_calls example_ledger_codec) example_ledger_arrivals))
      (NewLedgerService (example_env 0))"
    unfolding example_ledger_arrivals_calls by (simp add: ledger_eval example_env_def)
  from ledger_api_trial_balance [OF this refl, of ?a] show ?thesis
    by (simp add: ledger_request_def)
qed

text \<open>
  The interface never rewrites history.  Whatever requests arrive, with fresh identifiers, the entries
  and the audit records that were there stay the first ones, in order, and recorded journals stay
  as they were.
\<close>

theorem ledger_api_append_only:
  assumes "ledger_inv s"
    and "run_ok ledger_step ledger_fresh (concat (map (ledger_calls codec) arrivals)) s"
    and "s' = run (served (ledger_serve codec)) arrivals s"
  shows "(\<exists>es. ls_entries s' = ls_entries s @ es) \<and> (\<exists>ls. ls_auditLogs s' = ls_auditLogs s @ ls) \<and>
    (\<forall>i j. ls_journals s i = Some j \<longrightarrow> ls_journals s' i = Some j)"
  using ledger.run_le [OF assms(1,2)] unfolding assms(3) ledger_api.run_served
  by (auto simp: ledger_extends_def map_le_def dom_def)

theorem ledger_api_append_only_witness:
  "\<exists>es. ls_entries (run (served (ledger_serve example_ledger_codec)) example_ledger_arrivals
     (NewLedgerService (example_env 0))) = ls_entries (NewLedgerService (example_env 0)) @ es"
proof -
  have "run_ok ledger_step ledger_fresh (concat (map (ledger_calls example_ledger_codec) example_ledger_arrivals))
      (NewLedgerService (example_env 0))"
    unfolding example_ledger_arrivals_calls by (simp add: ledger_eval example_env_def)
  from ledger_api_append_only [OF NewLedgerService_inv this refl] show ?thesis by simp
qed

text \<open>The limit and the offset of a query that a slice expression may not allow.\<close>

definition bad_page :: "ApiRequest \<Rightarrow> int64 \<Rightarrow> bool" where
  "bad_page x n \<longleftrightarrow>
     (let limit = fst (Atoi (query_Get x ''limit'')); offset = fst (Atoi (query_Get x ''offset''));
          limit = (if limit = 0 then n else limit)
      in sint limit < 0 \<or> sint offset < 0 \<or> 2 ^ 63 \<le> sint offset + sint limit)"

lemma CreateJournalEntry_no_panic: "CreateJournalEntry e req s \<noteq> (Inl LedgerPanic, s')"
  by (rule CreateJournalEntry_cases [of e req s]) auto

text \<open>
  Every other request to the ledger is answered.  A handler can only panic on a limit or an offset,
  both taken unchecked from the query, that is negative, or on two whose sum leaves the range of 64 bits:
  any other request, in any state of the ledger, gets an answer.
\<close>

theorem ledger_requests_answered:
  assumes "\<not> bad_page (lr_request a) 20" "\<not> bad_page (lr_request a) 50"
  shows "\<exists>answer s'. ledger_serve codec a s = (Some answer, s')"
proof -
  let ?x = "lr_request a" and ?e = "lr_env a"
  have "fst (handle_account ?x s) \<noteq> None"
    using assms(1) by (auto simp: handle_account_def Let_def bad_page_def GetEntriesForAccount_def
        paginate_page ledger_GetAccount_def ledger_outcome_def split: option.split)
  moreover have "fst (handle_audit_logs ?x s) \<noteq> None"
    using assms(2) by (auto simp: handle_audit_logs_def Let_def bad_page_def GetAuditLogs_def paginate_page)
  moreover have "fst (handle_journal ?x s) \<noteq> None"
    by (simp add: handle_journal_def GetJournal_def ledger_outcome_def split: option.split)
  moreover have "fst (handle_accounts codec ?e (lr_order a) ?x s) \<noteq> None"
    by (simp add: handle_accounts_def ledger_CreateAccount_def ledger_outcome_def Let_def
        split: prod.split bool.split)
  moreover have "fst (handle_journals codec ?e ?x s) \<noteq> None" "fst (handle_record_payment codec ?e ?x s) \<noteq> None"
    "fst (handle_record_refund codec ?e ?x s) \<noteq> None"
    by (auto simp: CreateJournalEntry_no_panic handle_journals_def handle_record_payment_def handle_record_refund_def
        RecordPayment_def RecordRefund_def ledger_outcome_def split: prod.splits bool.splits sum.splits if_splits)
  ultimately have "fst (ledger_serve codec a s) \<noteq> None"
    by (simp add: ledger_serve_def ledger_routed health_handler_def handle_trial_balance_def)
  then show ?thesis by (cases "ledger_serve codec a s") auto
qed

theorem ledger_requests_answered_witness:
  "\<exists>answer s'. ledger_serve example_ledger_codec
     \<lparr>lr_request = ledger_request ''GET'' ''/accounts/acc_cash/entries'' [] [(''offset'', [''x''])],
      lr_env = example_env 1, lr_order = []\<rparr> (NewLedgerService (example_env 0)) = (Some answer, s')"
proof -
  let ?x = "ledger_request ''GET'' ''/accounts/acc_cash/entries'' [] [(''offset'', [''x''])]"
  have "query_Get ?x ''limit'' = []" "query_Get ?x ''offset'' = ''x''"
    by (simp_all add: ledger_request_def query_Get_def)
  then have "\<not> bad_page ?x n" if "n = 20 \<or> n = 50" for n
    using that by (auto simp: bad_page_def Atoi_def ParseUint_def digit_def Let_def)
  then show ?thesis by (intro ledger_requests_answered) simp_all
qed

text \<open>A request for entries with a negative offset is not answered: the handler panics.\<close>

theorem negative_offset_no_answer:
  assumes "rq_Path (lr_request a) = ''/accounts/'' @ i @ ''/entries''" "CHR ''/'' \<notin> set i"
    and "canonical (lr_request a)" "sint (fst (Atoi (query_Get (lr_request a) ''offset''))) < 0"
  shows "ledger_serve codec a s = (None, s)"
proof -
  let ?path = "rq_Path (lr_request a)"
  have "has_prefix ?path ''/accounts/''" unfolding assms(1) has_prefix_iff by blast
  moreover have "?path \<noteq> ''/health''" "?path \<noteq> ''/accounts''" unfolding assms(1) by simp_all
  moreover have "split_char CHR ''/'' (trim_prefix ''/accounts/'' ?path) = [i, ''entries'']"
    unfolding assms(1) trim_prefix_def using split_char_append [OF assms(2), of "''entries''"]
    by (simp add: has_prefix_def)
  ultimately show ?thesis
    using assms(3,4)
    by (simp add: ledger_serve_def ledger_routed handle_account_def Let_def GetEntriesForAccount_def
        paginate_negative_offset)
qed

end
