(* ===== verification/Notification.thy ===== *)
theory Notification
  imports Identifiers "HOL-Library.Multiset"
begin

text \<open>
  The notification service, \<open>services/notification\<close>: its requests, the queue and its worker, the
  attempts of delivery with their retries, the webhooks, and the masks of the log lines.

  Notifications are objects that the callers, the queue, the worker and the retry goroutines share:
  an object is an address in a store, and the map of the service, the queue and the goroutines hold
  addresses.  A delivery is split around the call of its sender: it begins (the status becomes
  sending), and after the sender has answered it ends; the steps of all goroutines interleave.

  Three steps are coarser than the code's locks, and what is stated of configurations is stated of those
  between steps.  The end of a delivery first writes the error and the retry counter, or the time of delivery,
  without the lock, and then the status under it (\<open>note_attempt\<close> and \<open>settle_attempt\<close>): in between, a
  reader can see three retries and the status sending (\<open>reader_between_writes\<close>).  The worker's receive
  from the queue and its writing of the status are one step: in between, the notification is in the worker's
  hands and still marked queued.  And \<open>Send\<close> stores the notification under the lock and then puts it on
  the queue: in between, it is stored and on no queue yet.

  The senders and the HTTP client act on a state \<open>'w\<close> of the outside world, and the JSON encoder and
  the HMAC are functions on bytes: the arguments of the model.  The delays of the retries and the
  writing of log lines are not modelled.
\<close>

section \<open>Data\<close>

type_synonym NotificationType = string
type_synonym EventType = string

abbreviation TypeEmail :: NotificationType where "TypeEmail \<equiv> ''email''"
abbreviation TypeSMS :: NotificationType where "TypeSMS \<equiv> ''sms''"
abbreviation TypePush :: NotificationType where "TypePush \<equiv> ''push''"
abbreviation TypeWebhook :: NotificationType where "TypeWebhook \<equiv> ''webhook''"

datatype NotificationStatus = StatusQueued | StatusSending | StatusDelivered | StatusFailed | StatusRetrying

record Notification =
  nt_ID :: string
  nt_Type :: NotificationType
  nt_Status :: NotificationStatus
  nt_Event :: EventType
  nt_Recipient :: string
  nt_Subject :: string
  nt_Content :: string
  nt_Metadata :: metadata
  nt_RetryCount :: int64
  nt_MaxRetries :: int64
  nt_LastError :: string
  nt_ScheduledAt :: "time option"
  nt_SentAt :: "time option"
  nt_CreatedAt :: time
  nt_UpdatedAt :: time

record WebhookConfig =
  wh_ID :: string
  wh_URL :: string
  wh_Events :: "EventType list"
  wh_Secret :: string
  wh_Headers :: metadata
  wh_IsActive :: bool
  wh_CreatedAt :: time

record SendNotificationRequest =
  sq_Type :: NotificationType
  sq_Event :: EventType
  sq_Recipient :: string
  sq_Subject :: string
  sq_Content :: string
  sq_Metadata :: metadata

datatype notification_error = ErrInvalidRecipient | ErrInvalidType | ErrNotificationNotFound | ErrWebhookNotFound

section \<open>What the service calls\<close>

text \<open>The JSON payloads of the webhooks; \<open>'d\<close> is the data of an event.\<close>

datatype 'd payload =
  NotificationPayload string EventType string metadata time
| EventPayload EventType 'd time

text \<open>A POST request: its URL, the header fields in the order they are set, and its body.\<close>

record HttpRequest =
  hr_URL :: string
  hr_Headers :: "(string \<times> string) list"
  hr_Body :: "byte list"

text \<open>
  \<open>json_marshal\<close> and \<open>http_do\<close> answer with the text of an error or with the bytes and the status
  code; the senders with the text of an error, \<open>None\<close> where there is none.  A sender that is not
  set is \<open>None\<close>: the service then only writes a log line.
\<close>

record ('d, 'w) Outside =
  json_marshal :: "'d payload \<Rightarrow> string + byte list"
  hmac_sha256 :: "string \<Rightarrow> byte list \<Rightarrow> byte list"
  http_do :: "HttpRequest \<Rightarrow> 'w \<Rightarrow> (string + nat) \<times> 'w"
  emailSender :: "(string \<Rightarrow> string \<Rightarrow> string \<Rightarrow> 'w \<Rightarrow> string option \<times> 'w) option"
  smsSender :: "(string \<Rightarrow> string \<Rightarrow> 'w \<Rightarrow> string option \<times> 'w) option"
  pushSender :: "(string \<Rightarrow> string \<Rightarrow> string \<Rightarrow> metadata \<Rightarrow> 'w \<Rightarrow> string option \<times> 'w) option"

definition sendEmail :: "('d, 'w) Outside \<Rightarrow> Notification \<Rightarrow> 'w \<Rightarrow> string option \<times> 'w" where
  "sendEmail out n w =
     (case emailSender out of
        None \<Rightarrow> (None, w)
      | Some send \<Rightarrow> send (nt_Recipient n) (nt_Subject n) (nt_Content n) w)"

definition sendSMS :: "('d, 'w) Outside \<Rightarrow> Notification \<Rightarrow> 'w \<Rightarrow> string option \<times> 'w" where
  "sendSMS out n w =
     (case smsSender out of None \<Rightarrow> (None, w) | Some send \<Rightarrow> send (nt_Recipient n) (nt_Content n) w)"

definition sendPush :: "('d, 'w) Outside \<Rightarrow> Notification \<Rightarrow> 'w \<Rightarrow> string option \<times> 'w" where
  "sendPush out n w =
     (case pushSender out of
        None \<Rightarrow> (None, w)
      | Some send \<Rightarrow> send (nt_Recipient n) (nt_Subject n) (nt_Content n) (nt_Metadata n) w)"

definition http_outcome :: "(string + nat) \<times> 'w \<Rightarrow> string option \<times> 'w" where
  "http_outcome answer =
     (case answer of
        (Inl err, w) \<Rightarrow> (Some err, w)
      | (Inr status, w) \<Rightarrow>
          (if 400 \<le> status then Some (''webhook returned status '' @ decimal status) else None, w))"

definition sendWebhookNotification ::
  "('d, 'w) Outside \<Rightarrow> time \<Rightarrow> Notification \<Rightarrow> 'w \<Rightarrow> string option \<times> 'w" where
  "sendWebhookNotification out now n w =
     (case json_marshal out (NotificationPayload (nt_ID n) (nt_Event n) (nt_Content n) (nt_Metadata n) now) of
        Inl err \<Rightarrow> (Some (''failed to marshal webhook payload: '' @ err), w)
      | Inr body \<Rightarrow>
          http_outcome (http_do out \<lparr>hr_URL = nt_Recipient n,
            hr_Headers = [(''Content-Type'', ''application/json'')], hr_Body = body\<rparr> w))"

definition calculateSignature :: "('d, 'w) Outside \<Rightarrow> byte list \<Rightarrow> string \<Rightarrow> string" where
  "calculateSignature out payload secret = hex_encode (hmac_sha256 out secret payload)"

text \<open>\<open>hs\<close> is the order in which \<open>range\<close> visits the headers of the webhook.\<close>

definition sendWebhook ::
  "('d, 'w) Outside \<Rightarrow> time \<Rightarrow> string list \<Rightarrow> WebhookConfig \<Rightarrow> EventType \<Rightarrow> 'd \<Rightarrow> 'w \<Rightarrow> string option \<times> 'w" where
  "sendWebhook out now hs webhook event data w =
     (case json_marshal out (EventPayload event data now) of
        Inl err \<Rightarrow> (Some (''failed to marshal webhook payload: '' @ err), w)
      | Inr body \<Rightarrow>
          let signature = calculateSignature out body (wh_Secret webhook)
          in http_outcome (http_do out \<lparr>hr_URL = wh_URL webhook,
            hr_Headers = [(''Content-Type'', ''application/json''), (''X-Webhook-Signature'', signature),
              (''X-Webhook-Event'', event)] @
              map (\<lambda>k. (k, the (the (wh_Headers webhook) k))) hs,
            hr_Body = body\<rparr> w))"

text \<open>The send that \<open>deliver\<close> makes for a notification, by its type.\<close>

definition send_by_type :: "('d, 'w) Outside \<Rightarrow> time \<Rightarrow> Notification \<Rightarrow> 'w \<Rightarrow> string option \<times> 'w" where
  "send_by_type out now n w =
     (if nt_Type n = TypeEmail then sendEmail out n w
      else if nt_Type n = TypeSMS then sendSMS out n w
      else if nt_Type n = TypePush then sendPush out n w
      else if nt_Type n = TypeWebhook then sendWebhookNotification out now n w
      else (Some ''invalid notification type'', w))"

section \<open>The service\<close>

record NotificationService =
  ns_store :: "Notification list"
  ns_notifications :: "string \<rightharpoonup> nat"
  ns_webhooks :: "string \<rightharpoonup> WebhookConfig"
  ns_queue :: "nat list"

definition queue_capacity :: nat where
  "queue_capacity = 1000"

definition NewNotificationService :: NotificationService where
  "NewNotificationService =
     \<lparr>ns_store = [], ns_notifications = Map.empty, ns_webhooks = Map.empty, ns_queue = []\<rparr>"

definition validateRequest :: "SendNotificationRequest \<Rightarrow> notification_error option" where
  "validateRequest req =
     (if sq_Recipient req = [] then Some ErrInvalidRecipient
      else if sq_Type req \<notin> {TypeEmail, TypeSMS, TypePush, TypeWebhook} then Some ErrInvalidType
      else None)"

text \<open>An identifier whose error is ignored is the empty string when the entropy source fails.\<close>

definition ignore_error :: "string option \<Rightarrow> string" where
  "ignore_error nid = (case nid of None \<Rightarrow> [] | Some s \<Rightarrow> s)"

text \<open>
  \<open>Send\<close> up to the \<open>select\<close>: the new object is stored and put on the queue if there is room; the
  flag says that the queue was full, so the caller goes on to deliver the notification itself.
\<close>

definition Send ::
  "env \<Rightarrow> SendNotificationRequest \<Rightarrow> NotificationService \<Rightarrow>
    (notification_error + nat \<times> bool) \<times> NotificationService" where
  "Send e req s =
     (case validateRequest req of
        Some err \<Rightarrow> (Inl err, s)
      | None \<Rightarrow>
          let nid = ignore_error (generateID ''ntf'' (entropy e 0));
              n = \<lparr>nt_ID = nid, nt_Type = sq_Type req, nt_Status = StatusQueued, nt_Event = sq_Event req,
                   nt_Recipient = sq_Recipient req, nt_Subject = sq_Subject req,
                   nt_Content = sq_Content req, nt_Metadata = sq_Metadata req, nt_RetryCount = 0,
                   nt_MaxRetries = 3, nt_LastError = [], nt_ScheduledAt = None, nt_SentAt = None,
                   nt_CreatedAt = clock e 0, nt_UpdatedAt = clock e 1\<rparr>;
              a = length (ns_store s);
              s' = s\<lparr>ns_store := ns_store s @ [n], ns_notifications := (ns_notifications s)(nid \<mapsto> a)\<rparr>
          in if length (ns_queue s) < queue_capacity
             then (Inr (a, False), s'\<lparr>ns_queue := ns_queue s @ [a]\<rparr>)
             else (Inr (a, True), s'))"

definition updateStatus :: "time \<Rightarrow> nat \<Rightarrow> NotificationStatus \<Rightarrow> NotificationService \<Rightarrow> NotificationService" where
  "updateStatus now a status s =
     s\<lparr>ns_store := (ns_store s)[a := (ns_store s ! a)\<lparr>nt_Status := status, nt_UpdatedAt := now\<rparr>],
       ns_notifications := (ns_notifications s)(nt_ID (ns_store s ! a) \<mapsto> a)\<rparr>"

text \<open>
  \<open>deliver\<close> in three parts: the status before the send, the send, and what follows it.  The flag of
  the last part says that a goroutine is started which waits and delivers again.
\<close>

definition begin_deliver :: "time \<Rightarrow> nat \<Rightarrow> NotificationService \<Rightarrow> NotificationService" where
  "begin_deliver now a s = updateStatus now a StatusSending s"

definition end_deliver ::
  "time \<Rightarrow> time \<Rightarrow> string option \<Rightarrow> nat \<Rightarrow> NotificationService \<Rightarrow> bool \<times> NotificationService" where
  "end_deliver sent now err a s =
     (case err of
        Some msg \<Rightarrow>
          let n = ns_store s ! a;
              n' = n\<lparr>nt_LastError := msg, nt_RetryCount := nt_RetryCount n + 1\<rparr>;
              s' = s\<lparr>ns_store := (ns_store s)[a := n']\<rparr>
          in if sint (nt_MaxRetries n') \<le> sint (nt_RetryCount n')
             then (False, updateStatus now a StatusFailed s')
             else (True, updateStatus now a StatusRetrying s')
      | None \<Rightarrow>
          (False, updateStatus now a StatusDelivered
             (s\<lparr>ns_store := (ns_store s)[a := (ns_store s ! a)\<lparr>nt_SentAt := Some sent\<rparr>]\<rparr>)))"

text \<open>The two parts of the end: the writes without the lock, and the status under it.\<close>

definition note_attempt :: "time \<Rightarrow> string option \<Rightarrow> nat \<Rightarrow> NotificationService \<Rightarrow> NotificationService" where
  "note_attempt sent err a s =
     (let n = ns_store s ! a
      in s\<lparr>ns_store := (ns_store s)[a :=
             (case err of
                Some msg \<Rightarrow> n\<lparr>nt_LastError := msg, nt_RetryCount := nt_RetryCount n + 1\<rparr>
              | None \<Rightarrow> n\<lparr>nt_SentAt := Some sent\<rparr>)]\<rparr>)"

definition settle_attempt :: "time \<Rightarrow> string option \<Rightarrow> nat \<Rightarrow> NotificationService \<Rightarrow> bool \<times> NotificationService" where
  "settle_attempt now err a s =
     (if err = None then (False, updateStatus now a StatusDelivered s)
      else if sint (nt_MaxRetries (ns_store s ! a)) \<le> sint (nt_RetryCount (ns_store s ! a))
      then (False, updateStatus now a StatusFailed s)
      else (True, updateStatus now a StatusRetrying s))"

lemma end_deliver_parts:
  assumes "a < length (ns_store s)"
  shows "end_deliver sent now err a s = settle_attempt now err a (note_attempt sent err a s)"
  using assms by (simp add: end_deliver_def note_attempt_def settle_attempt_def Let_def split: option.split)

text \<open>Between the two parts of its last attempt, a notification shows three retries and is still marked as sending.\<close>

lemma reader_between_writes:
  assumes "a < length (ns_store s)" "nt_Status (ns_store s ! a) = StatusSending" "nt_RetryCount (ns_store s ! a) = 2"
  shows "nt_RetryCount (ns_store (note_attempt sent (Some msg) a s) ! a) = 3 \<and>
    nt_Status (ns_store (note_attempt sent (Some msg) a s) ! a) = StatusSending"
  using assms by (simp add: note_attempt_def)

definition deliver ::
  "('d, 'w) Outside \<Rightarrow> env \<Rightarrow> nat \<Rightarrow> NotificationService \<Rightarrow> 'w \<Rightarrow> bool \<times> NotificationService \<times> 'w" where
  "deliver out e a s w =
     (let s1 = begin_deliver (clock e 0) a s;
          (err, w') = send_by_type out (clock e 1) (ns_store s1 ! a) w;
          (again, s2) = end_deliver (clock e 2) (clock e 3) err a s1
      in (again, s2, w'))"

definition GetNotification :: "string \<Rightarrow> NotificationService \<Rightarrow> notification_error + Notification" where
  "GetNotification nid s =
     (case ns_notifications s nid of None \<Rightarrow> Inl ErrNotificationNotFound | Some a \<Rightarrow> Inr (ns_store s ! a))"

text \<open>
  \<open>SendSync\<close> waits until the status is neither queued nor sending, and returns the notification.
\<close>

definition sync_waits :: "Notification \<Rightarrow> bool" where
  "sync_waits n \<longleftrightarrow> nt_Status n = StatusQueued \<or> nt_Status n = StatusSending"

text \<open>
  The loop of \<open>SendSync\<close> reads the service again and again while other goroutines run: \<open>later i\<close> is
  the service at its \<open>i\<close>-th reading.  \<open>None\<close> is a wait without end, or the panic of an identifier
  that is no longer stored.
\<close>

partial_function (option) sync_wait ::
  "(nat \<Rightarrow> NotificationService) \<Rightarrow> nat \<Rightarrow> Notification \<Rightarrow> Notification option" where
  "sync_wait later i n =
     (if sync_waits n
      then (case ns_notifications (later i) (nt_ID n) of
              None \<Rightarrow> None
            | Some a \<Rightarrow> sync_wait later (i + 1) (ns_store (later i) ! a))
      else Some n)"

definition SendSync ::
  "env \<Rightarrow> SendNotificationRequest \<Rightarrow> (nat \<Rightarrow> NotificationService) \<Rightarrow> NotificationService \<Rightarrow>
    (notification_error + Notification) option" where
  "SendSync e req later s =
     (case fst (Send e req s) of
        Inl err \<Rightarrow> Some (Inl err)
      | Inr (a, _) \<Rightarrow> map_option Inr (sync_wait later 1 (ns_store (later 0) ! a)))"

definition ListNotifications ::
  "string list \<Rightarrow> int64 \<Rightarrow> int64 \<Rightarrow> NotificationService \<Rightarrow> (Notification list \<times> nat) option" where
  "ListNotifications ks limit offset s =
     paginate (map (\<lambda>nid. ns_store s ! the (ns_notifications s nid)) ks) limit offset"

definition RegisterWebhook :: "env \<Rightarrow> WebhookConfig \<Rightarrow> NotificationService \<Rightarrow> NotificationService" where
  "RegisterWebhook e config s =
     (let nid = ignore_error (generateID ''whk'' (entropy e 0))
      in s\<lparr>ns_webhooks := (ns_webhooks s)(nid \<mapsto> config\<lparr>wh_ID := nid, wh_CreatedAt := clock e 0\<rparr>)\<rparr>)"

definition UnregisterWebhook ::
  "string \<Rightarrow> NotificationService \<Rightarrow> notification_error option \<times> NotificationService" where
  "UnregisterWebhook nid s =
     (case ns_webhooks s nid of
        None \<Rightarrow> (Some ErrWebhookNotFound, s)
      | Some _ \<Rightarrow> (None, s\<lparr>ns_webhooks := (ns_webhooks s)(nid := None)\<rparr>))"

definition webhookSubscribedToEvent :: "WebhookConfig \<Rightarrow> EventType \<Rightarrow> bool" where
  "webhookSubscribedToEvent webhook event = list_ex (\<lambda>e. e = event) (wh_Events webhook)"

text \<open>The webhooks that \<open>TriggerEvent\<close> starts a goroutine for; \<open>ks\<close> is the order of the map.\<close>

definition TriggerEvent :: "string list \<Rightarrow> EventType \<Rightarrow> NotificationService \<Rightarrow> WebhookConfig list" where
  "TriggerEvent ks event s =
     filter (\<lambda>webhook. wh_IsActive webhook \<and> webhookSubscribedToEvent webhook event)
       (map (\<lambda>k. the (ns_webhooks s k)) ks)"

section \<open>The masks\<close>

definition last_chars :: "nat \<Rightarrow> string \<Rightarrow> string" where
  "last_chars k s = drop (length s - k) s"

definition maskEmail :: "string \<Rightarrow> string" where
  "maskEmail email =
     (if length email < 5 then ''***''
      else if CHR ''@'' \<notin> set email then ''***''
      else
        let local = takeWhile (\<lambda>c. c \<noteq> CHR ''@'') email; domain = dropWhile (\<lambda>c. c \<noteq> CHR ''@'') email
        in if length local \<le> 4 then ''**'' @ domain
           else take 2 local @ ''***'' @ last_chars 1 local @ domain)"

definition maskPhone :: "string \<Rightarrow> string" where
  "maskPhone phone = (if length phone < 4 then ''***'' else ''***-***-'' @ last_chars 4 phone)"

definition maskToken :: "string \<Rightarrow> string" where
  "maskToken token = (if length token < 8 then ''***'' else take 4 token @ ''***'' @ last_chars 4 token)"


section \<open>The goroutines\<close>

text \<open>
  A configuration holds the service, the outside world, the address the worker delivers, the
  addresses other goroutines deliver (callers that found the queue full, and retries), and those
  that goroutines are about to deliver (such callers before they start, and sleeping retries).
\<close>

record 'w Config =
  cf_service :: NotificationService
  cf_world :: 'w
  cf_worker :: "nat option"
  cf_delivering :: "nat multiset"
  cf_pending :: "nat multiset"

definition initial_config :: "'w \<Rightarrow> 'w Config" where
  "initial_config w =
     \<lparr>cf_service = NewNotificationService, cf_world = w, cf_worker = None, cf_delivering = {#}, cf_pending = {#}\<rparr>"

definition retry_later :: "bool \<Rightarrow> nat \<Rightarrow> nat multiset \<Rightarrow> nat multiset" where
  "retry_later again a M = (if again then add_mset a M else M)"

text \<open>
  The steps of the goroutines of the service: the worker takes the head of the queue
  (\<open>processQueue\<close>), a pending goroutine starts, and a delivery under way ends.
\<close>

inductive delivery_step :: "('d, 'w) Outside \<Rightarrow> 'w Config \<Rightarrow> 'w Config \<Rightarrow> bool" for out where
  take_queue:
    "cf_worker c = None \<Longrightarrow> ns_queue (cf_service c) = a # q \<Longrightarrow>
     delivery_step out c (c\<lparr>cf_service := begin_deliver t a (cf_service c\<lparr>ns_queue := q\<rparr>), cf_worker := Some a\<rparr>)"
| worker_ends:
    "cf_worker c = Some a \<Longrightarrow> send_by_type out t (ns_store (cf_service c) ! a) (cf_world c) = (err, w') \<Longrightarrow>
     end_deliver t' t'' err a (cf_service c) = (again, s') \<Longrightarrow>
     delivery_step out c (c\<lparr>cf_service := s', cf_world := w', cf_worker := None,
       cf_pending := retry_later again a (cf_pending c)\<rparr>)"
| start:
    "a \<in># cf_pending c \<Longrightarrow>
     delivery_step out c (c\<lparr>cf_service := begin_deliver t a (cf_service c),
       cf_pending := cf_pending c - {#a#}, cf_delivering := add_mset a (cf_delivering c)\<rparr>)"
| ends:
    "a \<in># cf_delivering c \<Longrightarrow> send_by_type out t (ns_store (cf_service c) ! a) (cf_world c) = (err, w') \<Longrightarrow>
     end_deliver t' t'' err a (cf_service c) = (again, s') \<Longrightarrow>
     delivery_step out c (c\<lparr>cf_service := s', cf_world := w', cf_delivering := cf_delivering c - {#a#},
       cf_pending := retry_later again a (cf_pending c)\<rparr>)"

text \<open>The calls of the clients of the service, at any time, and the steps of its goroutines.\<close>

inductive service_reachable :: "('d, 'w) Outside \<Rightarrow> 'w Config \<Rightarrow> bool" for out where
  initial: "service_reachable out (initial_config w)"
| step: "service_reachable out c \<Longrightarrow> delivery_step out c c' \<Longrightarrow> service_reachable out c'"
| send: "service_reachable out c \<Longrightarrow> Send e req (cf_service c) = (Inr (a, full), s') \<Longrightarrow>
    service_reachable out (c\<lparr>cf_service := s', cf_pending := retry_later full a (cf_pending c)\<rparr>)"
| register: "service_reachable out c \<Longrightarrow>
    service_reachable out (c\<lparr>cf_service := RegisterWebhook e config (cf_service c)\<rparr>)"
| unregister: "service_reachable out c \<Longrightarrow>
    service_reachable out (c\<lparr>cf_service := snd (UnregisterWebhook nid (cf_service c))\<rparr>)"

inductive_cases delivery_stepE: "delivery_step out c c'"

section \<open>The invariant\<close>

text \<open>
  Where a notification can be: each address that is not settled is in exactly one place.
\<close>

definition active :: "'w Config \<Rightarrow> nat multiset" where
  "active c = mset (ns_queue (cf_service c)) + (case cf_worker c of None \<Rightarrow> {#} | Some a \<Rightarrow> {#a#}) +
     cf_delivering c + cf_pending c"

definition sending_now :: "'w Config \<Rightarrow> nat set" where
  "sending_now c = set_option (cf_worker c) \<union> set_mset (cf_delivering c)"

definition settled :: "Notification \<Rightarrow> bool" where
  "settled n \<longleftrightarrow> nt_Status n = StatusDelivered \<or> nt_Status n = StatusFailed"

text \<open>What holds of a notification by itself: its status agrees with its counters and times.\<close>

definition notification_ok :: "Notification \<Rightarrow> bool" where
  "notification_ok n \<longleftrightarrow>
     nt_MaxRetries n = 3 \<and> nt_Type n \<in> {TypeEmail, TypeSMS, TypePush, TypeWebhook} \<and>
     0 \<le> sint (nt_RetryCount n) \<and>
     (if nt_Status n = StatusFailed then sint (nt_RetryCount n) = 3 else sint (nt_RetryCount n) < 3) \<and>
     (nt_Status n = StatusQueued \<longrightarrow> sint (nt_RetryCount n) = 0) \<and>
     (nt_Status n = StatusRetrying \<longrightarrow> 0 < sint (nt_RetryCount n)) \<and>
     (nt_SentAt n \<noteq> None \<longleftrightarrow> nt_Status n = StatusDelivered)"

definition entry_ok :: "Notification \<Rightarrow> nat \<Rightarrow> bool \<Rightarrow> bool \<Rightarrow> bool" where
  "entry_ok n places sending queued \<longleftrightarrow>
     notification_ok n \<and> places = (if settled n then 0 else 1) \<and>
     (nt_Status n = StatusSending \<longleftrightarrow> sending) \<and> (queued \<longrightarrow> nt_Status n = StatusQueued)"

definition config_ok :: "'w Config \<Rightarrow> bool" where
  "config_ok c \<longleftrightarrow>
     (\<forall>a \<in># active c. a < length (ns_store (cf_service c))) \<and>
     (\<forall>a < length (ns_store (cf_service c)).
        entry_ok (ns_store (cf_service c) ! a) (count (active c) a) (a \<in> sending_now c)
          (a \<in> set (ns_queue (cf_service c)))) \<and>
     length (ns_queue (cf_service c)) \<le> queue_capacity"

lemma config_ok_entry:
  "config_ok c \<Longrightarrow> a < length (ns_store (cf_service c)) \<Longrightarrow>
    entry_ok (ns_store (cf_service c) ! a) (count (active c) a) (a \<in> sending_now c)
      (a \<in> set (ns_queue (cf_service c)))"
  by (simp add: config_ok_def)

lemma config_ok_active: "config_ok c \<Longrightarrow> a \<in># active c \<Longrightarrow> a < length (ns_store (cf_service c))"
  by (simp add: config_ok_def)

lemma config_ok_once:
  "config_ok c \<Longrightarrow> a \<in># active c \<Longrightarrow> count (active c) a = 1 \<and> \<not> settled (ns_store (cf_service c) ! a)"
  using config_ok_entry [of c a] config_ok_active [of c a]
  by (auto simp: entry_ok_def count_greater_zero_iff [symmetric] simp del: count_greater_zero_iff split: if_splits)

text \<open>A step that changes one entry keeps the invariant if that entry is right afterwards.\<close>

lemma config_ok_change:
  assumes "config_ok c" "a < length (ns_store (cf_service c))"
    and store: "ns_store (cf_service c') = (ns_store (cf_service c))[a := n]"
    and "\<And>b. b \<noteq> a \<Longrightarrow> count (active c') b = count (active c) b"
    and "\<And>b. b \<noteq> a \<Longrightarrow> b \<in> sending_now c' \<longleftrightarrow> b \<in> sending_now c"
    and "\<And>b. b \<noteq> a \<Longrightarrow> b \<in> set (ns_queue (cf_service c')) \<Longrightarrow> b \<in> set (ns_queue (cf_service c))"
    and "length (ns_queue (cf_service c')) \<le> length (ns_queue (cf_service c))"
    and "entry_ok n (count (active c') a) (a \<in> sending_now c') (a \<in> set (ns_queue (cf_service c')))"
  shows "config_ok c'"
proof -
  have "b < length (ns_store (cf_service c'))" if "b \<in># active c'" for b
  proof (cases "b = a")
    case False
    with that assms(4) have "b \<in># active c" by (metis count_greater_zero_iff)
    then show ?thesis using config_ok_active [OF assms(1)] by (simp add: store)
  qed (use assms(2) in \<open>simp add: store\<close>)
  moreover have "entry_ok (ns_store (cf_service c') ! b) (count (active c') b) (b \<in> sending_now c')
      (b \<in> set (ns_queue (cf_service c')))" if "b < length (ns_store (cf_service c'))" for b
  proof (cases "b = a")
    case False
    with that config_ok_entry [OF assms(1), of b] assms(4-6) show ?thesis
      by (simp add: store entry_ok_def)
  qed (use assms(2,8) in \<open>simp add: store\<close>)
  ultimately show ?thesis using assms(1,7) by (simp add: config_ok_def)
qed

section \<open>What the steps do to a notification\<close>

lemma begin_deliver_fields [simp]:
  "ns_store (begin_deliver t a s) =
    (ns_store s)[a := (ns_store s ! a)\<lparr>nt_Status := StatusSending, nt_UpdatedAt := t\<rparr>]"
  "ns_queue (begin_deliver t a s) = ns_queue s"
  "ns_webhooks (begin_deliver t a s) = ns_webhooks s"
  by (simp_all add: begin_deliver_def updateStatus_def)

text \<open>The notification after an attempt, and whether it is retried.\<close>

definition after_attempt :: "time \<Rightarrow> time \<Rightarrow> string option \<Rightarrow> Notification \<Rightarrow> Notification" where
  "after_attempt sent now err n =
     (case err of
        Some msg \<Rightarrow>
          let n' = n\<lparr>nt_LastError := msg, nt_RetryCount := nt_RetryCount n + 1\<rparr>
          in n'\<lparr>nt_Status := (if sint (nt_MaxRetries n) \<le> sint (nt_RetryCount n + 1) then StatusFailed
                             else StatusRetrying), nt_UpdatedAt := now\<rparr>
      | None \<Rightarrow> n\<lparr>nt_SentAt := Some sent, nt_Status := StatusDelivered, nt_UpdatedAt := now\<rparr>)"

lemma end_deliver_fields:
  assumes "end_deliver sent now err a s = (again, s')" "a < length (ns_store s)"
  shows "ns_store s' = (ns_store s)[a := after_attempt sent now err (ns_store s ! a)]"
    and "again \<longleftrightarrow> nt_Status (after_attempt sent now err (ns_store s ! a)) = StatusRetrying"
    and "ns_queue s' = ns_queue s"
  using assms by (auto simp: end_deliver_def after_attempt_def updateStatus_def Let_def split: option.splits if_splits)

lemma notification_ok_begin:
  "notification_ok n \<Longrightarrow> \<not> settled n \<Longrightarrow>
    notification_ok (n\<lparr>nt_Status := StatusSending, nt_UpdatedAt := t\<rparr>)"
  by (cases "nt_Status n") (auto simp: notification_ok_def settled_def)

lemma retry_count_next:
  "notification_ok n \<Longrightarrow> nt_Status n \<noteq> StatusFailed \<Longrightarrow> sint (nt_RetryCount n + 1) = sint (nt_RetryCount n) + 1"
  using sint64_add [of "nt_RetryCount n" 1] by (simp add: notification_ok_def)

lemma after_attempt_ok:
  assumes "notification_ok n" "nt_Status n = StatusSending"
  shows "notification_ok (after_attempt sent now err n)"
    and "nt_Status (after_attempt sent now err n) \<in> {StatusDelivered, StatusFailed, StatusRetrying}"
  using assms retry_count_next [OF assms(1)]
  by (auto simp: after_attempt_def notification_ok_def Let_def split: option.splits)

text \<open>
  Every delivery step either begins the delivery of a waiting notification or ends one under way.
\<close>

lemma count_active:
  "count (active c) a = count_list (ns_queue (cf_service c)) a + (if cf_worker c = Some a then 1 else 0) +
     count (cf_delivering c) a + count (cf_pending c) a"
  by (simp add: active_def count_mset split: option.split)

lemma delivery_step_effect:
  assumes "delivery_step out c c'" "config_ok c"
  obtains (begins) a t where "a \<in># active c" "a \<notin> sending_now c" "active c' = active c"
      "sending_now c' = insert a (sending_now c)"
      "ns_store (cf_service c') = (ns_store (cf_service c))[a := (ns_store (cf_service c) ! a)
         \<lparr>nt_Status := StatusSending, nt_UpdatedAt := t\<rparr>]"
      "set (ns_queue (cf_service c')) \<subseteq> set (ns_queue (cf_service c)) - {a}"
      "length (ns_queue (cf_service c')) \<le> length (ns_queue (cf_service c))"
  | (ends) a sent now err where "a \<in># active c" "a \<in> sending_now c"
      "active c' = active c - {#a#} +
         (if nt_Status (after_attempt sent now err (ns_store (cf_service c) ! a)) = StatusRetrying
          then {#a#} else {#})"
      "sending_now c' = sending_now c - {a}"
      "ns_store (cf_service c') =
         (ns_store (cf_service c))[a := after_attempt sent now err (ns_store (cf_service c) ! a)]"
      "ns_queue (cf_service c') = ns_queue (cf_service c)"
  using assms(1)
proof (cases rule: delivery_step.cases)
  case (take_queue a q t)
  then have a: "a \<in># active c" by (simp add: active_def)
  then have one: "count (active c) a = 1" using config_ok_once [OF assms(2)] by blast
  then have "a \<notin> set q" "a \<notin># cf_delivering c"
    using take_queue by (auto simp: count_active count_list_0_iff [symmetric] not_in_iff)
  with a take_queue show thesis
    by (intro begins [of a t]) (auto simp: active_def sending_now_def)
next
  case (worker_ends a t err w' t' t'' again s')
  then have a: "a \<in># active c" by (simp add: active_def)
  then have one: "count (active c) a = 1" and lt: "a < length (ns_store (cf_service c))"
    using config_ok_once [OF assms(2)] config_ok_active [OF assms(2)] by blast+
  then have "a \<notin># cf_delivering c"
    using worker_ends by (auto simp: count_active not_in_iff)
  with a worker_ends end_deliver_fields [OF worker_ends(4) lt] show thesis
    by (intro ends [of a t' t'' err]) (auto simp: active_def sending_now_def retry_later_def)
next
  case (start a t)
  then have a: "a \<in># active c" by (simp add: active_def)
  then have one: "count (active c) a = 1" using config_ok_once [OF assms(2)] by blast
  moreover have "0 < count (cf_pending c) a" using start(2) by simp
  ultimately have "count_list (ns_queue (cf_service c)) a = 0" "cf_worker c \<noteq> Some a" "count (cf_delivering c) a = 0"
    unfolding count_active
    by (auto split: if_splits simp del: count_greater_zero_iff)
  with a start show thesis
    by (intro begins [of a t]) (auto simp: active_def sending_now_def count_list_0_iff not_in_iff)
next
  case (ends a t err w' t' t'' again s')
  then have a: "a \<in># active c" by (simp add: active_def)
  then have one: "count (active c) a = 1" and lt: "a < length (ns_store (cf_service c))"
    using config_ok_once [OF assms(2)] config_ok_active [OF assms(2)] by blast+
  moreover have "0 < count (cf_delivering c) a" using ends(2) by simp
  ultimately have "cf_worker c \<noteq> Some a" "count (cf_delivering c) a = 1"
    unfolding count_active
    by (auto split: if_splits simp del: count_greater_zero_iff)
  with a ends end_deliver_fields [OF ends(4) lt] show thesis
    by (intro that(2) [of a t' t'' err])
       (auto simp: active_def sending_now_def retry_later_def not_in_iff in_diff_count)
qed

lemma delivery_step_ok:
  assumes "delivery_step out c c'" "config_ok c"
  shows "config_ok c'"
  using assms
proof (cases rule: delivery_step_effect)
  case (begins a t)
  note once = config_ok_once [OF assms(2) begins(1)] and lt = config_ok_active [OF assms(2) begins(1)]
  have "entry_ok ((ns_store (cf_service c) ! a)\<lparr>nt_Status := StatusSending, nt_UpdatedAt := t\<rparr>)
      (count (active c') a) (a \<in> sending_now c') (a \<in> set (ns_queue (cf_service c')))"
    using begins once config_ok_entry [OF assms(2) lt] notification_ok_begin
    by (auto simp: entry_ok_def settled_def)
  with begins show ?thesis
    by (intro config_ok_change [OF assms(2) lt]) auto
next
  case (ends a sent now err)
  note once = config_ok_once [OF assms(2) ends(1)] and lt = config_ok_active [OF assms(2) ends(1)]
  let ?n = "ns_store (cf_service c) ! a"
  have entry: "notification_ok ?n" "nt_Status ?n = StatusSending" "a \<notin> set (ns_queue (cf_service c))"
    using config_ok_entry [OF assms(2) lt] ends(2) by (auto simp: entry_ok_def)
  have "entry_ok (after_attempt sent now err ?n) (count (active c') a) (a \<in> sending_now c')
      (a \<in> set (ns_queue (cf_service c')))"
    using ends once entry after_attempt_ok [OF entry(1,2), of sent now err]
    by (auto simp: entry_ok_def settled_def)
  with ends show ?thesis
    by (intro config_ok_change [OF assms(2) lt]) auto
qed

lemma validateRequest_None:
  "validateRequest req = None \<Longrightarrow> sq_Type req \<in> {TypeEmail, TypeSMS, TypePush, TypeWebhook}"
  by (simp add: validateRequest_def split: if_splits)

text \<open>The new entry of \<open>Send\<close>, and what \<open>Send\<close> does with it.\<close>

lemma Send_effect:
  assumes "Send e req s = (Inr (a, full), s')"
  obtains n where "a = length (ns_store s)" "ns_store s' = ns_store s @ [n]" "notification_ok n"
    "nt_Status n = StatusQueued" "ns_queue s' = (if full then ns_queue s else ns_queue s @ [a])"
    "full \<longleftrightarrow> queue_capacity \<le> length (ns_queue s)"
proof -
  have "validateRequest req = None" using assms by (auto simp: Send_def split: option.splits)
  with assms validateRequest_None [OF this] show thesis
    by (intro that [of "last (ns_store s')"])
       (simp_all add: Send_def Let_def notification_ok_def split: if_splits, safe, simp_all)
qed

lemma Send_ok:
  assumes "config_ok c" "Send e req (cf_service c) = (Inr (a, full), s')"
  shows "config_ok (c\<lparr>cf_service := s', cf_pending := retry_later full a (cf_pending c)\<rparr>)"
    (is "config_ok ?c")
  using assms(2)
proof (rule Send_effect)
  fix n
  let ?store = "ns_store (cf_service c)"
  assume sent: "a = length ?store" "ns_store s' = ?store @ [n]" "notification_ok n" "nt_Status n = StatusQueued"
    "ns_queue s' = (if full then ns_queue (cf_service c) else ns_queue (cf_service c) @ [a])"
    "full \<longleftrightarrow> queue_capacity \<le> length (ns_queue (cf_service c))"
  have active: "active ?c = add_mset a (active c)"
    using sent(5) by (simp add: active_def retry_later_def)
  have new: "a \<notin># active c" using config_ok_active [OF assms(1), of a] sent(1) by auto
  then have fresh: "count (active c) a = 0" "a \<notin> sending_now c" "a \<notin> set (ns_queue (cf_service c))"
    by (auto simp: not_in_iff active_def sending_now_def count_list_0_iff count_mset)
  have "entry_ok (ns_store s' ! b) (count (active ?c) b) (b \<in> sending_now ?c) (b \<in> set (ns_queue s'))"
    if "b < length (ns_store s')" for b
  proof (cases "b = a")
    case True
    with sent fresh active show ?thesis
      by (simp add: entry_ok_def settled_def sending_now_def nth_append)
  next
    case False
    with that sent config_ok_entry [OF assms(1), of b] active show ?thesis
      by (auto simp: entry_ok_def sending_now_def nth_append)
  qed
  with active sent assms(1) show ?thesis
    by (auto simp: config_ok_def less_Suc_eq)
qed

lemma reachable_config_ok: "service_reachable out c \<Longrightarrow> config_ok c"
proof (induction rule: service_reachable.induct)
  case (initial w)
  then show ?case
    by (simp add: config_ok_def active_def initial_config_def NewNotificationService_def)
next
  case (step c c')
  then show ?case by (blast intro: delivery_step_ok)
next
  case (send c e req a full s')
  then show ?case by (blast intro: Send_ok)
next
  case (register c e config)
  then show ?case by (simp add: config_ok_def active_def sending_now_def RegisterWebhook_def Let_def)
next
  case (unregister c nid)
  then show ?case
    by (simp add: config_ok_def active_def sending_now_def UnregisterWebhook_def split: option.split)
qed

section \<open>Nothing is lost, and every delivery ends\<close>

text \<open>
  C21: No notification is lost or delivered twice at once: in every configuration the clients and the
  goroutines can reach, in any interleaving of their steps (which are coarser than the locks, as said
  above), a notification that is neither delivered nor failed is
  in exactly one of the queue, the hands of the worker, and the other goroutines, a settled one
  is in none; it is being sent exactly when its status says so; it has failed exactly when three attempts did,
  it is delivered exactly when it has a time of delivery; and the queue is never over its capacity.
\<close>

theorem notifications_tracked:
  assumes "service_reachable out c"
  shows "length (ns_queue (cf_service c)) \<le> queue_capacity \<and>
    (\<forall>a < length (ns_store (cf_service c)).
       let n = ns_store (cf_service c) ! a in
       count (active c) a = (if nt_Status n \<in> {StatusDelivered, StatusFailed} then 0 else 1) \<and>
       (nt_Status n = StatusSending \<longleftrightarrow> cf_worker c = Some a \<or> a \<in># cf_delivering c) \<and>
       0 \<le> sint (nt_RetryCount n) \<and> sint (nt_RetryCount n) \<le> 3 \<and>
       (nt_Status n = StatusFailed \<longleftrightarrow> sint (nt_RetryCount n) = 3) \<and>
       (nt_Status n = StatusDelivered \<longleftrightarrow> nt_SentAt n \<noteq> None))"
proof -
  have ok: "config_ok c" using assms by (rule reachable_config_ok)
  show ?thesis
  proof (intro conjI allI impI)
    show "length (ns_queue (cf_service c)) \<le> queue_capacity" using ok by (simp add: config_ok_def)
    fix a
    assume "a < length (ns_store (cf_service c))"
    from config_ok_entry [OF ok this]
    show "let n = ns_store (cf_service c) ! a in
       count (active c) a = (if nt_Status n \<in> {StatusDelivered, StatusFailed} then 0 else 1) \<and>
       (nt_Status n = StatusSending \<longleftrightarrow> cf_worker c = Some a \<or> a \<in># cf_delivering c) \<and>
       0 \<le> sint (nt_RetryCount n) \<and> sint (nt_RetryCount n) \<le> 3 \<and>
       (nt_Status n = StatusFailed \<longleftrightarrow> sint (nt_RetryCount n) = 3) \<and>
       (nt_Status n = StatusDelivered \<longleftrightarrow> nt_SentAt n \<noteq> None)"
      unfolding Let_def entry_ok_def notification_ok_def settled_def sending_now_def
      by (cases "nt_Status (ns_store (cf_service c) ! a)") auto
  qed
qed

text \<open>The steps that are left for a notification: two for each attempt that its retries allow.\<close>

definition steps_left :: "Notification \<Rightarrow> nat" where
  "steps_left n =
     (if settled n then 0
      else 2 * nat (3 - sint (nt_RetryCount n)) - (if nt_Status n = StatusSending then 1 else 0))"

lemma steps_left_bound: "notification_ok n \<Longrightarrow> steps_left n \<le> (if settled n then 0 else 6)"
  by (auto simp: steps_left_def notification_ok_def)

lemma steps_left_begin:
  "notification_ok n \<Longrightarrow> \<not> settled n \<Longrightarrow> nt_Status n \<noteq> StatusSending \<Longrightarrow>
    steps_left (n\<lparr>nt_Status := StatusSending, nt_UpdatedAt := t\<rparr>) < steps_left n"
  by (auto simp: steps_left_def notification_ok_def settled_def)

lemma steps_left_end:
  assumes "notification_ok n" "nt_Status n = StatusSending"
  shows "steps_left (after_attempt sent now err n) < steps_left n"
  using assms retry_count_next [OF assms(1)]
  by (auto simp: after_attempt_def steps_left_def notification_ok_def settled_def Let_def split: option.split)

lemma sum_list_update_less:
  "a < length xs \<Longrightarrow> f y < f (xs ! a) \<Longrightarrow> sum_list (map f (xs[a := y])) < (sum_list (map f xs) :: nat)"
proof (induction xs arbitrary: a)
  case (Cons x xs)
  then show ?case by (cases a) auto
qed simp

definition work_left :: "'w Config \<Rightarrow> nat" where
  "work_left c = sum_list (map steps_left (ns_store (cf_service c)))"

lemma delivery_step_work:
  assumes "delivery_step out c c'" "config_ok c"
  shows "work_left c' < work_left c"
  using assms
proof (cases rule: delivery_step_effect)
  case (begins a t)
  note once = config_ok_once [OF assms(2) begins(1)] and lt = config_ok_active [OF assms(2) begins(1)]
  from config_ok_entry [OF assms(2) lt] begins(2) once
  show ?thesis unfolding work_left_def begins(5)
    by (intro sum_list_update_less lt steps_left_begin) (auto simp: entry_ok_def)
next
  case (ends a sent now err)
  note lt = config_ok_active [OF assms(2) ends(1)]
  from config_ok_entry [OF assms(2) lt] ends(2)
  show ?thesis unfolding work_left_def ends(5)
    by (intro sum_list_update_less lt steps_left_end) (auto simp: entry_ok_def)
qed

lemma unsettled_progress:
  assumes "config_ok c" "a < length (ns_store (cf_service c))" "\<not> settled (ns_store (cf_service c) ! a)"
  shows "\<exists>c'. delivery_step out c c'"
proof -
  have "a \<in># active c"
    using config_ok_entry [OF assms(1,2)] assms(3)
    by (simp add: entry_ok_def flip: count_greater_zero_iff)
  then consider b where "cf_worker c = Some b" | "a \<in># cf_delivering c" | "a \<in># cf_pending c"
    | "cf_worker c = None" "a \<in> set (ns_queue (cf_service c))"
    by (auto simp: active_def split: option.splits)
  then show ?thesis
  proof cases
    case 1
    then show ?thesis by (metis delivery_step.worker_ends surj_pair)
  next
    case 2
    then show ?thesis by (metis delivery_step.ends surj_pair)
  next
    case 3
    then show ?thesis by (metis delivery_step.start)
  next
    case 4
    then obtain b q where "ns_queue (cf_service c) = b # q" by (cases "ns_queue (cf_service c)") auto
    with 4(1) show ?thesis by (metis delivery_step.take_queue)
  qed
qed

lemma delivery_steps_work:
  "(delivery_step out ^^ k) c c' \<Longrightarrow> config_ok c \<Longrightarrow> config_ok c' \<and> k + work_left c' \<le> work_left c"
proof (induction k arbitrary: c')
  case (Suc k)
  then obtain c'' where "(delivery_step out ^^ k) c c''" and last: "delivery_step out c'' c'" by auto
  with Suc have "config_ok c''" "k + work_left c'' \<le> work_left c" by blast+
  with delivery_step_work [OF last] delivery_step_ok [OF last] show ?case by simp
qed simp

lemma work_left_bound:
  assumes "\<forall>n \<in> set ns. notification_ok n"
  shows "sum_list (map steps_left ns) \<le> 6 * length (filter (\<lambda>n. \<not> settled n) ns)"
  using assms
proof (induction ns)
  case (Cons n ns)
  then show ?case using steps_left_bound [of n] by (auto split: if_splits)
qed simp

text \<open>
  C23: However the goroutines interleave and whatever the senders answer, the goroutines make at most
  six steps (three attempts) for each notification that was not settled; and they come to rest
  exactly when every notification is delivered or failed.
\<close>

theorem deliveries_end:
  assumes "service_reachable out c" "(delivery_step out ^^ k) c c'"
  shows "k \<le> 6 * length (filter (\<lambda>n. nt_Status n \<notin> {StatusDelivered, StatusFailed}) (ns_store (cf_service c))) \<and>
    ((\<nexists>c''. delivery_step out c' c'') \<longleftrightarrow>
     (\<forall>n \<in> set (ns_store (cf_service c')). nt_Status n \<in> {StatusDelivered, StatusFailed}))"
proof -
  have ok: "config_ok c" using assms(1) by (rule reachable_config_ok)
  have settled: "(nt_Status n \<in> {StatusDelivered, StatusFailed}) = settled n" for n
    by (simp add: settled_def)
  have ok': "config_ok c'" and work: "k \<le> work_left c"
    using delivery_steps_work [OF assms(2) ok] by simp_all
  have "\<forall>n \<in> set (ns_store (cf_service c)). notification_ok n"
    using config_ok_entry [OF ok] by (auto simp: in_set_conv_nth entry_ok_def)
  from work_left_bound [OF this] work
  have "k \<le> 6 * length (filter (\<lambda>n. \<not> settled n) (ns_store (cf_service c)))"
    by (simp add: work_left_def)
  moreover have "\<not> delivery_step out c' c''" if "\<forall>n \<in> set (ns_store (cf_service c')). settled n" for c''
  proof
    assume "delivery_step out c' c''"
    from this ok' obtain a where "a \<in># active c'" by (cases rule: delivery_step_effect) auto
    with config_ok_once [OF ok'] config_ok_active [OF ok'] that show False by (metis nth_mem)
  qed
  moreover have "\<forall>n \<in> set (ns_store (cf_service c')). settled n" if "\<nexists>c''. delivery_step out c' c''"
    using unsettled_progress [OF ok'] that by (metis in_set_conv_nth)
  ultimately show ?thesis unfolding settled by blast
qed

text \<open>A mail server that refuses every message, and a notification sent to it.\<close>

definition example_outside :: "(unit, nat) Outside" where
  "example_outside =
     \<lparr>json_marshal = (\<lambda>_. Inr []), hmac_sha256 = (\<lambda>_ _. []), http_do = (\<lambda>_ w. (Inr 200, w)),
      emailSender = Some (\<lambda>_ _ _ w. (Some ''refused'', w + 1)), smsSender = None, pushSender = None\<rparr>"

definition example_mail :: SendNotificationRequest where
  "example_mail =
     \<lparr>sq_Type = TypeEmail, sq_Event = ''payment.sent'', sq_Recipient = ''a@b.example'', sq_Subject = [],
      sq_Content = ''paid'', sq_Metadata = None\<rparr>"

definition example_config :: "nat Config" where
  "example_config =
     (initial_config 0)\<lparr>cf_service := snd (Send (example_env 1) example_mail NewNotificationService)\<rparr>"

lemma example_config_reachable: "service_reachable example_outside example_config"
proof -
  have "Send (example_env 1) example_mail (cf_service (initial_config (0 :: nat))) =
      (Inr (0, False), snd (Send (example_env 1) example_mail NewNotificationService))"
    by (simp add: Send_def validateRequest_def example_mail_def initial_config_def NewNotificationService_def
        queue_capacity_def Let_def)
  from service_reachable.send [OF service_reachable.initial this]
  show ?thesis by (simp add: example_config_def retry_later_def initial_config_def)
qed

lemma notifications_tracked_witness:
  "nt_Status (ns_store (cf_service example_config) ! 0) = StatusQueued \<and> count (active example_config) 0 = 1"
proof -
  have "ns_store (cf_service example_config) \<noteq> []"
      "nt_Status (ns_store (cf_service example_config) ! 0) = StatusQueued"
    by code_simp+
  with notifications_tracked [OF example_config_reachable] show ?thesis
    by (auto simp: Let_def)
qed

lemma deliveries_end_witness:
  "\<exists>c'. delivery_step example_outside example_config c' \<and>
     1 \<le> 6 * length (filter (\<lambda>n. nt_Status n \<notin> {StatusDelivered, StatusFailed})
       (ns_store (cf_service example_config)))"
proof -
  have "ns_queue (cf_service example_config) = [0]" "cf_worker example_config = None" by code_simp+
  then obtain c' where step: "delivery_step example_outside example_config c'"
    by (metis delivery_step.take_queue)
  then have "(delivery_step example_outside ^^ 1) example_config c'"
    by (simp add: relcompp_apply)
  from deliveries_end [OF example_config_reachable this] step show ?thesis by blast
qed

text \<open>\<open>SendSync\<close> returns once a reading finds the notification out of the queue and not being sent.\<close>

lemma sync_wait_returns:
  assumes "\<And>i. ns_notifications (later i) nid = Some a" "\<And>i. nt_ID (ns_store (later i) ! a) = nid"
    and "\<not> sync_waits (ns_store (later k) ! a)" "i \<le> k"
  shows "\<exists>n. sync_wait later (i + 1) (ns_store (later i) ! a) = Some n \<and> \<not> sync_waits n"
  using assms(4)
proof (induction i rule: inc_induct)
  case base
  then show ?case using assms(3) by (subst sync_wait.simps) simp
next
  case (step i)
  then show ?case using assms(1,2) by (subst sync_wait.simps) simp
qed

text \<open>
  \<open>SendSync\<close> stops waiting when a notification is to be retried: the first attempt has failed, the
  notification is neither delivered nor failed, and it may still be delivered later.
\<close>

lemma send_sync_returns_unsettled:
  "case SendSync (example_env 1) example_mail
       (\<lambda>_. fst (snd (deliver example_outside (example_env 2) 0 (cf_service example_config) 0)))
       NewNotificationService of
     Some (Inr n) \<Rightarrow> nt_Status n = StatusRetrying | _ \<Rightarrow> False"
proof -
  let ?s = "fst (snd (deliver example_outside (example_env 2) 0 (cf_service example_config) 0))"
  have "fst (Send (example_env 1) example_mail NewNotificationService) = Inr (0, False)"
    "\<not> sync_waits (ns_store ?s ! 0)" "nt_Status (ns_store ?s ! 0) = StatusRetrying"
    by code_simp+
  then show ?thesis by (simp add: SendSync_def sync_wait.simps)
qed

text \<open>The mask of an address shows the last character before the at sign, not the last two.\<close>

lemma maskEmail_example: "maskEmail ''abcdefgh@x.example'' = ''ab***h@x.example''"
  by code_simp

end
