(* ===== verification/NotificationApi.thy ===== *)
theory NotificationApi
  imports Api Notification
begin

text \<open>
  The HTTP interface of the notification service: the handlers and routes of
  \<open>services/notification/cmd/main.go\<close>.  The handlers act on a configuration of the service, in which its
  goroutines are under way; a request is one step of it.
\<close>

section \<open>The handlers\<close>

text \<open>What JSON decodes from the bodies; \<open>'d\<close> is the data of an event.\<close>

record 'd notification_codec =
  nc_send :: "string \<Rightarrow> SendNotificationRequest \<times> bool"
  nc_event :: "string \<Rightarrow> (EventType \<times> 'd) \<times> bool"
  nc_webhook :: "string \<Rightarrow> WebhookConfig \<times> bool"

datatype notification_payload =
  NotificationResponse Notification | NotificationListResponse "Notification list" nat
| EventTriggered | WebhookRegistered WebhookConfig

fun notification_error_text :: "notification_error \<Rightarrow> string" where
  "notification_error_text ErrInvalidRecipient = ''invalid recipient''"
| "notification_error_text ErrInvalidType = ''invalid notification type''"
| "notification_error_text ErrNotificationNotFound = ''notification not found''"
| "notification_error_text ErrWebhookNotFound = ''webhook not found''"

text \<open>
  The notification of the answer is the one that was sent, as it is before a goroutine delivers it.  When
  the queue is full, \<open>Send\<close> starts a goroutine that delivers the notification.
\<close>

definition handle_notifications ::
  "'d notification_codec \<Rightarrow> env \<Rightarrow> string list \<Rightarrow> (notification_payload, 'w Config) api" where
  "handle_notifications codec e ks x c =
     (if rq_Method x = ''POST'' then
        (case nc_send codec (rq_Body x) of
           (req, False) \<Rightarrow> (Some (badRequest ''invalid request body''), c)
         | (req, True) \<Rightarrow>
             (case Send e req (cf_service c) of
                (Inl err, s') \<Rightarrow>
                  (Some (errorResponse 400 (notification_error_text err)), c\<lparr>cf_service := s'\<rparr>)
              | (Inr (a, full), s') \<Rightarrow>
                  (Some (jsonResponse 201 (Reply (NotificationResponse (ns_store s' ! a)))),
                   c\<lparr>cf_service := s', cf_pending := retry_later full a (cf_pending c)\<rparr>)))
      else if rq_Method x = ''GET'' then
        (map_option (\<lambda>(notifications, number).
             jsonResponse 200 (Reply (NotificationListResponse notifications number)))
           (ListNotifications ks 20 0 (cf_service c)), c)
      else (Some methodNotAllowed, c))"

text \<open>
  The webhooks of an event are called by goroutines of their own, which touch neither the service
  nor its notifications; \<open>TriggerEvent\<close> never fails.
\<close>

definition handle_events ::
  "'d notification_codec \<Rightarrow> (notification_payload, 'w Config) api" where
  "handle_events codec x c =
     (if rq_Method x \<noteq> ''POST'' then (Some methodNotAllowed, c)
      else
        (case nc_event codec (rq_Body x) of
           (event, False) \<Rightarrow> (Some (badRequest ''invalid request body''), c)
         | (event, True) \<Rightarrow> (Some (jsonResponse 200 (Reply EventTriggered)), c)))"

definition event_calls ::
  "'d notification_codec \<Rightarrow> string list \<Rightarrow> ApiRequest \<Rightarrow> 'w Config \<Rightarrow> (WebhookConfig \<times> EventType \<times> 'd) list" where
  "event_calls codec ks x c =
     (case nc_event codec (rq_Body x) of ((event, data), ok) \<Rightarrow>
        if rq_Method x = ''POST'' \<and> ok
        then map (\<lambda>webhook. (webhook, event, data)) (TriggerEvent ks event (cf_service c)) else [])"

definition handle_webhooks :: "'d notification_codec \<Rightarrow> env \<Rightarrow> (notification_payload, 'w Config) api" where
  "handle_webhooks codec e x c =
     (if rq_Method x \<noteq> ''POST'' then (Some methodNotAllowed, c)
      else
        (case nc_webhook codec (rq_Body x) of
           (config, False) \<Rightarrow> (Some (badRequest ''invalid request body''), c)
         | (config, True) \<Rightarrow>
             let s' = RegisterWebhook e config (cf_service c);
                 webhookID = ignore_error (generateID ''whk'' (entropy e 0))
             in (map_option (\<lambda>webhook. jsonResponse 201 (Reply (WebhookRegistered webhook)))
                   (ns_webhooks s' webhookID), c\<lparr>cf_service := s'\<rparr>)))"

definition notification_routes ::
  "'d notification_codec \<Rightarrow> env \<Rightarrow> string list \<Rightarrow> (string \<times> (notification_payload, 'w Config) api) list" where
  "notification_routes codec e ks =
     [(''/health'', health_handler ''{\"status\":\"healthy\",\"service\":\"notification\"}''),
      (''/notifications'', handle_notifications codec e ks),
      (''/events'', handle_events codec),
      (''/webhooks'', handle_webhooks codec e)]"

definition notification_serve ::
  "'d notification_codec \<Rightarrow> env \<Rightarrow> string list \<Rightarrow> (notification_payload, 'w Config) api" where
  "notification_serve codec e ks = serve_mux (notification_routes codec e ks)"

section \<open>Requests are steps of the service\<close>

lemma handlers_reachable:
  assumes "service_reachable out c"
  shows "service_reachable out (snd (handle_notifications codec e ks x c))"
    and "service_reachable out (snd (handle_webhooks codec e x c))"
    and "service_reachable out (snd (handle_events codec x c))"
proof -
  show "service_reachable out (snd (handle_webhooks codec e x c))"
    using assms service_reachable.register [OF assms]
    by (auto simp: handle_webhooks_def Let_def split: prod.split bool.split)
  show "service_reachable out (snd (handle_events codec x c))"
    using assms by (auto simp: handle_events_def split: prod.split bool.split)
  have same: "Send e req s = (Inl err, s') \<Longrightarrow> s' = s" for req s s' err
    by (auto simp: Send_def Let_def split: option.splits if_splits)
  show "service_reachable out (snd (handle_notifications codec e ks x c))"
    using assms service_reachable.send [OF assms]
    by (auto simp: handle_notifications_def dest!: same split: prod.split bool.split sum.split)
qed

lemma handlers_answer:
  shows "fst (handle_notifications codec e ks x c) \<noteq> None" "fst (handle_webhooks codec e x c) \<noteq> None"
    "fst (handle_events codec x c) \<noteq> None"
proof -
  have "ListNotifications ks 20 0 s \<noteq> None" for s
    by (simp add: ListNotifications_def paginate_page)
  then show "fst (handle_notifications codec e ks x c) \<noteq> None"
    by (auto simp: handle_notifications_def split: prod.split bool.split sum.split)
  show "fst (handle_webhooks codec e x c) \<noteq> None"
    by (auto simp: handle_webhooks_def RegisterWebhook_def Let_def split: prod.split bool.split)
  show "fst (handle_events codec x c) \<noteq> None"
    by (auto simp: handle_events_def split: prod.split bool.split)
qed

lemma routes_sound:
  assumes "(pattern, handler) \<in> set (notification_routes codec e ks)" "service_reachable out c"
  shows "fst (handler x c) \<noteq> None" "service_reachable out (snd (handler x c))"
proof -
  from assms(1) consider "handler = handle_notifications codec e ks" | "handler = handle_events codec"
    | "handler = handle_webhooks codec e"
    | "handler = health_handler ''{\"status\":\"healthy\",\"service\":\"notification\"}''"
    unfolding notification_routes_def list.set by (elim insertE emptyE) (simp_all only: prod.inject)
  then have "fst (handler x c) \<noteq> None \<and> service_reachable out (snd (handler x c))"
    by cases (simp_all only: handlers_reachable [OF assms(2)] handlers_answer health_handler_def fst_conv snd_conv
        option.distinct assms(2) simp_thms not_False_eq_True)
  then show "fst (handler x c) \<noteq> None" "service_reachable out (snd (handler x c))" by blast+
qed

section \<open>Properties\<close>

text \<open>
  The interface keeps the service in order.  In any configuration that the service reaches, every request
  is answered, and leaves a configuration that the service reaches: a notification that is neither
  delivered nor failed is again in exactly one place, whatever clients send.
\<close>

theorem notification_api_sound:
  assumes "service_reachable out c" "notification_serve codec e ks x c = (answer, c')"
  shows "answer \<noteq> None \<and> service_reachable out c' \<and>
    (\<forall>a < length (ns_store (cf_service c')).
       count (active c') a =
         (if nt_Status (ns_store (cf_service c') ! a) \<in> {StatusDelivered, StatusFailed} then 0 else 1))"
proof -
  have "answer \<noteq> None \<and> service_reachable out c'"
    using serve_mux_cases [of "notification_routes codec e ks" x c]
  proof cases
    case (handled pattern handler)
    then show ?thesis
      using assms(2) routes_sound [OF handled(1) assms(1), of x] by (simp add: notification_serve_def)
  qed (use assms in \<open>auto simp: notification_serve_def\<close>)
  moreover from this have "config_ok c'" by (intro reachable_config_ok [of out]) simp
  ultimately show ?thesis
    using config_ok_entry [of c'] by (auto simp: entry_ok_def settled_def)
qed

theorem notification_api_sound_witness:
  "fst (notification_serve \<lparr>nc_send = (\<lambda>body. (example_mail, True)), nc_event = (\<lambda>body. (([], ()), False)),
      nc_webhook = (\<lambda>body. (undefined, False))\<rparr> (example_env 2) []
    \<lparr>rq_Method = ''POST'', rq_Host = [], rq_Path = ''/notifications'', rq_RawQuery = [], rq_Query = [],
     rq_Header = (\<lambda>_. []), rq_RemoteAddr = [], rq_Body = []\<rparr> example_config) \<noteq> None"
  using notification_api_sound [OF example_config_reachable surjective_pairing] by blast

text \<open>
  A webhook that is registered over HTTP has no secret: \<open>WebhookConfig\<close> is tagged so that
  \<open>encoding/json\<close> skips its secret in both directions, and the handler decodes into it.  Every
  payload for such a webhook carries the signature under the empty key, which anybody can make.
\<close>

theorem webhooks_signed_without_secret:
  assumes json_skips: "\<And>body. wh_Secret (fst (nc_webhook codec body)) = []"
    and "\<And>i webhook. ns_webhooks (cf_service c) i = Some webhook \<Longrightarrow> wh_Secret webhook = []"
    and "ns_webhooks (cf_service (snd (handle_webhooks codec e x c))) i = Some webhook"
  shows "calculateSignature out payload (wh_Secret webhook) = hex_encode (hmac_sha256 out [] payload)"
proof -
  have "wh_Secret webhook = []"
    using assms(2,3) json_skips [of "rq_Body x"]
    by (auto simp: handle_webhooks_def RegisterWebhook_def Let_def split: if_splits prod.splits bool.splits)
  then show ?thesis by (simp add: calculateSignature_def)
qed

end
