(* ===== verification/Database.thy ===== *)
theory Database
  imports Go_Prelude
begin

text \<open>
  The database access of \<open>libs/database/database.go\<close>: the connection string, transactions, and the mock.

  The SQL that the sources send is modelled on the part of the server's state that it reads and
  writes: the table \<open>schema_migrations\<close>, and the names of tables with the tables they refer to and of
  indexes with their tables.  Any call of the server may fail, by a refusal or by a lost answer
  after the server has done what it was asked for; which calls do is an argument.
\<close>

section \<open>The connection string\<close>

record DatabaseConfig =
  dc_Host :: string
  dc_Port :: int64
  dc_User :: string
  dc_Password :: string
  dc_Database :: string
  dc_SSLMode :: string
  dc_MaxOpenConns :: int64
  dc_MaxIdleConns :: int64
  dc_ConnMaxLifetime :: duration
  dc_ConnMaxIdleTime :: duration

definition db_DefaultConfig :: DatabaseConfig where
  "db_DefaultConfig =
     \<lparr>dc_Host = ''localhost'', dc_Port = 5432, dc_User = ''postgres'', dc_Password = [],
      dc_Database = ''amanah'', dc_SSLMode = ''disable'', dc_MaxOpenConns = 25, dc_MaxIdleConns = 5,
      dc_ConnMaxLifetime = 5 * 60 * 10 ^ 9, dc_ConnMaxIdleTime = 60 * 10 ^ 9\<rparr>"

definition DSN :: "DatabaseConfig \<Rightarrow> string" where
  "DSN c =
     ''host='' @ dc_Host c @ '' port='' @ signed_decimal (dc_Port c) @ '' user='' @ dc_User c @
     '' password='' @ dc_Password c @ '' dbname='' @ dc_Database c @ '' sslmode='' @ dc_SSLMode c"

text \<open>
  The values are not quoted: a password with a space in it is read as further settings, here of the
  user, the name of the database and the mode that the connection is made with.
\<close>

lemma dsn_not_quoted:
  "DSN (c\<lparr>dc_Password := ''a dbname=x sslmode=disable'', dc_Database := d\<rparr>) =
   DSN (c\<lparr>dc_Password := ''a'', dc_Database := ''x sslmode=disable dbname='' @ d\<rparr>)"
  by (simp add: DSN_def)

section \<open>Connecting\<close>

text \<open>
  \<open>New\<close>: \<open>sql.Open\<close> with the connection string, the limits of the pool, and a ping.  What the library does is given
  as the error of opening, and of the ping, for a connection string.
\<close>

record ConnectionPool =
  cn_DSN :: string
  cn_MaxOpenConns :: int64
  cn_MaxIdleConns :: int64
  cn_ConnMaxLifetime :: duration
  cn_ConnMaxIdleTime :: duration

datatype connection_error = ConnectionFailed string

definition db_New ::
  "(string \<Rightarrow> string option) \<Rightarrow> (string \<Rightarrow> string option) \<Rightarrow> DatabaseConfig \<Rightarrow> connection_error + ConnectionPool" where
  "db_New open_error ping_error c =
     (case open_error (DSN c) of
        Some err \<Rightarrow> Inl (ConnectionFailed err)
      | None \<Rightarrow>
          let pool = \<lparr>cn_DSN = DSN c, cn_MaxOpenConns = dc_MaxOpenConns c, cn_MaxIdleConns = dc_MaxIdleConns c,
            cn_ConnMaxLifetime = dc_ConnMaxLifetime c, cn_ConnMaxIdleTime = dc_ConnMaxIdleTime c\<rparr>
          in case ping_error (DSN c) of
               Some err \<Rightarrow> Inl (ConnectionFailed err)
             | None \<Rightarrow> Inr pool)"

section \<open>The mock\<close>

record 'v MockDB =
  mk_data :: "string \<rightharpoonup> (string \<rightharpoonup> 'v)"
  mk_healthy :: bool

definition NewMockDB :: "'v MockDB" where
  "NewMockDB = \<lparr>mk_data = Map.empty, mk_healthy = True\<rparr>"

definition mk_Set :: "string \<Rightarrow> string \<Rightarrow> 'v \<Rightarrow> 'v MockDB \<Rightarrow> 'v MockDB" where
  "mk_Set table key v m =
     (let rows = (case mk_data m table of None \<Rightarrow> Map.empty | Some rows \<Rightarrow> rows)
      in m\<lparr>mk_data := (mk_data m)(table \<mapsto> rows(key \<mapsto> v))\<rparr>)"

definition mk_Get :: "string \<Rightarrow> string \<Rightarrow> 'v MockDB \<Rightarrow> 'v option" where
  "mk_Get table key m = (case mk_data m table of None \<Rightarrow> None | Some rows \<Rightarrow> rows key)"

definition mk_Delete :: "string \<Rightarrow> string \<Rightarrow> 'v MockDB \<Rightarrow> 'v MockDB" where
  "mk_Delete table key m =
     (case mk_data m table of
        None \<Rightarrow> m
      | Some rows \<Rightarrow> m\<lparr>mk_data := (mk_data m)(table \<mapsto> rows(key := None))\<rparr>)"

definition mk_Healthcheck :: "'v MockDB \<Rightarrow> string option" where
  "mk_Healthcheck m = (if \<not> mk_healthy m then Some ''database connection failed'' else None)"

definition mk_SetHealthy :: "bool \<Rightarrow> 'v MockDB \<Rightarrow> 'v MockDB" where
  "mk_SetHealthy healthy m = m\<lparr>mk_healthy := healthy\<rparr>"

lemma mk_Get_after:
  "mk_Get t k (mk_Set t' k' v m) = (if t = t' \<and> k = k' then Some v else mk_Get t k m)"
  "mk_Get t k (mk_Delete t' k' m) = (if t = t' \<and> k = k' then None else mk_Get t k m)"
  by (auto simp: mk_Get_def mk_Set_def mk_Delete_def Let_def split: option.splits)

section \<open>The server\<close>

record Schema =
  sc_tables :: "(string \<times> string list) list"
  sc_indexes :: "(string \<times> string) list"

type_synonym migration_rows = "(int64 \<times> string \<times> time) list"

record Server =
  sv_schema :: Schema
  sv_migrations :: "migration_rows option"
  sv_calls :: nat

datatype fault = Refused string | AnswerLost string

type_synonym faults = "nat \<Rightarrow> fault option"

text \<open>A call of the server, counted; \<open>statement\<close> is what it does, or the text of its error.\<close>

definition sv_call :: "faults \<Rightarrow> (Server \<Rightarrow> string + 'a \<times> Server) \<Rightarrow> Server \<Rightarrow> (string + 'a) \<times> Server" where
  "sv_call faults statement s =
     (let s1 = s\<lparr>sv_calls := Suc (sv_calls s)\<rparr>
      in case faults (sv_calls s) of
           Some (Refused err) \<Rightarrow> (Inl err, s1)
         | Some (AnswerLost err) \<Rightarrow>
             (Inl err, (case statement s1 of Inl _ \<Rightarrow> s1 | Inr (_, s2) \<Rightarrow> s2))
         | None \<Rightarrow> (case statement s1 of Inl err \<Rightarrow> (Inl err, s1) | Inr (v, s2) \<Rightarrow> (Inr v, s2)))"

text \<open>
  The statements of the migrator: \<open>CREATE TABLE IF NOT EXISTS schema_migrations\<close>,
  \<open>SELECT COALESCE(MAX(version), 0)\<close>, \<open>INSERT\<close> (the version is the primary key, an integer of 32
  bits), \<open>DELETE\<close> and \<open>SELECT version ... ORDER BY version\<close>.
\<close>

definition st_create :: "Server \<Rightarrow> string + unit \<times> Server" where
  "st_create s =
     Inr ((), case sv_migrations s of None \<Rightarrow> s\<lparr>sv_migrations := Some []\<rparr> | Some _ \<Rightarrow> s)"

definition max_version :: "migration_rows \<Rightarrow> int64" where
  "max_version rows =
     (case rows of
        [] \<Rightarrow> 0
      | r # rs \<Rightarrow> foldl (\<lambda>v (w, _). if sint v < sint w then w else v) (fst r) rs)"

definition st_max_version :: "Server \<Rightarrow> string + int64 \<times> Server" where
  "st_max_version s =
     (case sv_migrations s of
        None \<Rightarrow> Inl ''relation schema_migrations does not exist''
      | Some rows \<Rightarrow> Inr (max_version rows, s))"

definition st_insert :: "int64 \<Rightarrow> string \<Rightarrow> time \<Rightarrow> Server \<Rightarrow> string + unit \<times> Server" where
  "st_insert version description now s =
     (case sv_migrations s of
        None \<Rightarrow> Inl ''relation schema_migrations does not exist''
      | Some rows \<Rightarrow>
          if version \<in> set (map fst rows) then Inl ''duplicate key''
          else if sint version < - (2 ^ 31) \<or> 2 ^ 31 \<le> sint version then Inl ''integer out of range''
          else Inr ((), s\<lparr>sv_migrations := Some (rows @ [(version, description, now)])\<rparr>))"

definition st_delete :: "int64 \<Rightarrow> Server \<Rightarrow> string + unit \<times> Server" where
  "st_delete version s =
     (case sv_migrations s of
        None \<Rightarrow> Inl ''relation schema_migrations does not exist''
      | Some rows \<Rightarrow> Inr ((), s\<lparr>sv_migrations := Some (filter (\<lambda>r. fst r \<noteq> version) rows)\<rparr>))"

definition st_versions :: "Server \<Rightarrow> string + int64 list \<times> Server" where
  "st_versions s =
     (case sv_migrations s of
        None \<Rightarrow> Inl ''relation schema_migrations does not exist''
      | Some rows \<Rightarrow> Inr (sort_key sint (map fst rows), s))"

section \<open>Transactions\<close>

text \<open>
  \<open>DB.Transaction\<close>.  The function works on the state the transaction sees and ends with an error, without
  one, or in a panic; \<open>None\<close> is the panic, which is passed on after the rollback.  A transaction that is
  not committed leaves no trace: an unfinished one is discarded by the server even when the rollback
  fails.
\<close>

datatype db_error =
  DbError string | TransactionFailed string | RollbackFailed string string
| MigrationFailed int64 db_error | VersionNotFound int64

definition db_Transaction ::
  "faults \<Rightarrow> (Server \<Rightarrow> string option option \<times> Server) \<Rightarrow> Server \<Rightarrow> db_error option option \<times> Server" where
  "db_Transaction faults fn s =
     (case sv_call faults (\<lambda>s. Inr ((), s)) s of
        (Inl err, s1) \<Rightarrow> (Some (Some (TransactionFailed err)), s1)
      | (Inr _, s1) \<Rightarrow>
          (case fn s1 of
             (None, s2) \<Rightarrow> (None, s1\<lparr>sv_calls := Suc (sv_calls s2)\<rparr>)
           | (Some (Some err), s2) \<Rightarrow>
               (case sv_call faults (\<lambda>s. Inr ((), s)) (s1\<lparr>sv_calls := sv_calls s2\<rparr>) of
                  (Inl rollback_err, s3) \<Rightarrow> (Some (Some (RollbackFailed err rollback_err)), s3)
                | (Inr _, s3) \<Rightarrow> (Some (Some (DbError err)), s3))
           | (Some None, s2) \<Rightarrow>
               (case sv_call faults (\<lambda>s. Inr ((), s2\<lparr>sv_calls := sv_calls s\<rparr>)) (s1\<lparr>sv_calls := sv_calls s2\<rparr>) of
                  (Inl err, s3) \<Rightarrow> (Some (Some (TransactionFailed err)), s3)
                | (Inr _, s3) \<Rightarrow> (Some None, s3))))"

text \<open>Two servers that agree on all but the number of calls.\<close>

definition same_data :: "Server \<Rightarrow> Server \<Rightarrow> bool" where
  "same_data s t \<longleftrightarrow> sv_schema s = sv_schema t \<and> sv_migrations s = sv_migrations t"

lemma sv_call_read:
  assumes "sv_call faults statement s = (r, s')" "\<And>t v t'. statement t = Inr (v, t') \<Longrightarrow> t' = t"
  shows "same_data s' s"
  using assms(1)
  by (auto simp: sv_call_def same_data_def Let_def dest!: assms(2) split: option.splits fault.splits sum.splits)

lemma sv_call_write:
  assumes "sv_call faults statement s = (r, s')"
  shows "same_data s' s \<and> (\<exists>err. r = Inl err) \<or>
    (\<exists>v. statement (s\<lparr>sv_calls := Suc (sv_calls s)\<rparr>) = Inr (v, s') \<and> (\<forall>w. r = Inr w \<longrightarrow> w = v))"
  using assms by (auto simp: sv_call_def same_data_def Let_def split: option.splits fault.splits sum.splits)

text \<open>
  A transaction leaves what its function left, if it ended without an error, or nothing; without an error
  it has been committed.
\<close>

lemma db_Transaction_cases:
  assumes "db_Transaction faults fn s = (r, s')"
  shows "same_data s' s \<and> r \<noteq> Some None \<or>
    (\<exists>s1 s2. same_data s1 s \<and> fn s1 = (Some None, s2) \<and> same_data s' s2)"
proof -
  obtain r1 s1 where opened: "sv_call faults (\<lambda>s. Inr ((), s)) s = (r1, s1)" by fastforce
  have s1: "same_data s1 s" by (rule sv_call_read [OF opened]) simp
  show ?thesis
  proof (cases r1)
    case (Inl err)
    with assms opened s1 show ?thesis by (auto simp: db_Transaction_def)
  next
    case Inr
    obtain r2 s2 where fn: "fn s1 = (r2, s2)" by fastforce
    consider "r2 = None" | err where "r2 = Some (Some err)" | "r2 = Some None"
      by (metis option.exhaust)
    then show ?thesis
    proof cases
      case 1
      with assms opened s1 Inr fn show ?thesis
        by (auto simp: db_Transaction_def same_data_def)
    next
      case 2
      obtain r3 s3 where roll: "sv_call faults (\<lambda>s. Inr ((), s)) (s1\<lparr>sv_calls := sv_calls s2\<rparr>) = (r3, s3)"
        by fastforce
      have "same_data s3 (s1\<lparr>sv_calls := sv_calls s2\<rparr>)" by (rule sv_call_read [OF roll]) simp
      with assms opened s1 Inr fn 2 roll show ?thesis
        by (auto simp: db_Transaction_def same_data_def split: sum.splits)
    next
      case 3
      let ?commit = "\<lambda>s. Inr ((), s2\<lparr>sv_calls := sv_calls s\<rparr>)"
      obtain r3 s3 where commit: "sv_call faults ?commit (s1\<lparr>sv_calls := sv_calls s2\<rparr>) = (r3, s3)"
        by fastforce
      have s': "s' = s3" "r \<noteq> Some None \<longleftrightarrow> (\<exists>err. r3 = Inl err)"
        using assms opened Inr fn 3 commit by (auto simp: db_Transaction_def split: sum.splits)
      from sv_call_write [OF commit] show ?thesis
      proof
        assume "same_data s3 (s1\<lparr>sv_calls := sv_calls s2\<rparr>) \<and> (\<exists>err. r3 = Inl err)"
        with s1 s' show ?thesis by (auto simp: same_data_def)
      next
        assume "\<exists>v. ?commit (s1\<lparr>sv_calls := sv_calls s2, sv_calls := Suc (sv_calls (s1\<lparr>sv_calls := sv_calls s2\<rparr>))\<rparr>) =
            Inr (v, s3) \<and> (\<forall>w. r3 = Inr w \<longrightarrow> w = v)"
        with s1 s' fn 3 show ?thesis by (intro disjI2 exI [of _ s1] exI [of _ s2]) (auto simp: same_data_def)
      qed
    qed
  qed
qed

end
