(* ===== verification/Migrations.thy ===== *)
theory Migrations
  imports Database
begin

text \<open>
  The migrations of the database: \<open>libs/database/migrations.go\<close>, over the transactions of \<open>Database\<close>.
\<close>

section \<open>The migrator\<close>

text \<open>
  A migration makes one call, with statements that change the schema; it may also panic (\<open>None\<close>).
\<close>

record Migration =
  mg_Version :: int64
  mg_Description :: string
  mg_Up :: "Schema \<Rightarrow> (string + Schema) option"
  mg_Down :: "Schema \<Rightarrow> (string + Schema) option"

definition schema_call ::
  "faults \<Rightarrow> (Schema \<Rightarrow> (string + Schema) option) \<Rightarrow> Server \<Rightarrow> string option option \<times> Server" where
  "schema_call faults change s =
     (case change (sv_schema s) of
        None \<Rightarrow> (None, s)
      | Some result \<Rightarrow>
          (case sv_call faults
             (\<lambda>s. case result of Inl err \<Rightarrow> Inl err | Inr sc \<Rightarrow> Inr ((), s\<lparr>sv_schema := sc\<rparr>)) s of
             (Inl err, s') \<Rightarrow> (Some (Some err), s')
           | (Inr _, s') \<Rightarrow> (Some None, s')))"

definition exec_call ::
  "faults \<Rightarrow> (Server \<Rightarrow> string + unit \<times> Server) \<Rightarrow> Server \<Rightarrow> string option option \<times> Server" where
  "exec_call faults statement s =
     (case sv_call faults statement s of (Inl err, s') \<Rightarrow> (Some (Some err), s') | (Inr _, s') \<Rightarrow> (Some None, s'))"

text \<open>\<open>now\<close> gives the readings of the clock, by the number of the call they are made for.\<close>

definition migration_body ::
  "faults \<Rightarrow> (nat \<Rightarrow> time) \<Rightarrow> Migration \<Rightarrow> bool \<Rightarrow> Server \<Rightarrow> string option option \<times> Server" where
  "migration_body faults now migration up s =
     (if up then
        (case schema_call faults (mg_Up migration) s of
           (Some None, s1) \<Rightarrow>
             exec_call faults
               (st_insert (mg_Version migration) (mg_Description migration) (now (sv_calls s1))) s1
         | failed \<Rightarrow> failed)
      else
        (case schema_call faults (mg_Down migration) s of
           (Some None, s1) \<Rightarrow> exec_call faults (st_delete (mg_Version migration)) s1
         | failed \<Rightarrow> failed))"

definition runMigration ::
  "faults \<Rightarrow> (nat \<Rightarrow> time) \<Rightarrow> Migration \<Rightarrow> bool \<Rightarrow> Server \<Rightarrow> db_error option option \<times> Server" where
  "runMigration faults now migration up = db_Transaction faults (migration_body faults now migration up)"

text \<open>A migrator is its list of migrations; the database is an argument of its operations.\<close>

definition NewMigrator :: "Migration list" where
  "NewMigrator = []"

definition AddMigration :: "Migration \<Rightarrow> Migration list \<Rightarrow> Migration list" where
  "AddMigration migration migrations = migrations @ [migration]"

definition createMigrationsTable :: "faults \<Rightarrow> Server \<Rightarrow> (string + unit) \<times> Server" where
  "createMigrationsTable faults = sv_call faults st_create"

definition getCurrentVersion :: "faults \<Rightarrow> Server \<Rightarrow> (string + int64) \<times> Server" where
  "getCurrentVersion faults = sv_call faults st_max_version"

definition GetAppliedMigrations :: "faults \<Rightarrow> Server \<Rightarrow> (string + int64 list) \<times> Server" where
  "GetAppliedMigrations faults = sv_call faults st_versions"

text \<open>The loop of \<open>Migrate\<close> over the sorted migrations, and \<open>Migrate\<close>.\<close>

primrec migrate_loop ::
  "faults \<Rightarrow> (nat \<Rightarrow> time) \<Rightarrow> int64 \<Rightarrow> Migration list \<Rightarrow> Server \<Rightarrow> db_error option option \<times> Server" where
  "migrate_loop faults now current [] s = (Some None, s)"
| "migrate_loop faults now current (m # ms) s =
     (if sint (mg_Version m) \<le> sint current then migrate_loop faults now current ms s
      else
        (case runMigration faults now m True s of
           (None, s') \<Rightarrow> (None, s')
         | (Some (Some err), s') \<Rightarrow> (Some (Some (MigrationFailed (mg_Version m) err)), s')
         | (Some None, s') \<Rightarrow> migrate_loop faults now current ms s'))"

definition by_version :: "Migration list \<Rightarrow> Migration list" where
  "by_version = sort_key (\<lambda>m. sint (mg_Version m))"

definition Migrate ::
  "faults \<Rightarrow> (nat \<Rightarrow> time) \<Rightarrow> Migration list \<Rightarrow> Server \<Rightarrow> db_error option option \<times> Server" where
  "Migrate faults now migrations s =
     (case createMigrationsTable faults s of
        (Inl err, s1) \<Rightarrow> (Some (Some (DbError err)), s1)
      | (Inr _, s1) \<Rightarrow>
          (case getCurrentVersion faults s1 of
             (Inl err, s2) \<Rightarrow> (Some (Some (DbError err)), s2)
           | (Inr current, s2) \<Rightarrow> migrate_loop faults now current (by_version migrations) s2))"

text \<open>\<open>Rollback\<close> looks in the list as it is: sorted if \<open>Migrate\<close> has run before, which it changes in place.\<close>

definition Rollback ::
  "faults \<Rightarrow> (nat \<Rightarrow> time) \<Rightarrow> Migration list \<Rightarrow> Server \<Rightarrow> db_error option option \<times> Server" where
  "Rollback faults now migrations s =
     (case getCurrentVersion faults s of
        (Inl err, s1) \<Rightarrow> (Some (Some (DbError err)), s1)
      | (Inr current, s1) \<Rightarrow>
          if current = 0 then (Some None, s1)
          else
            (case find (\<lambda>m. mg_Version m = current) migrations of
               None \<Rightarrow> (Some (Some (VersionNotFound current)), s1)
             | Some m \<Rightarrow> runMigration faults now m False s1))"

section \<open>The default migrations\<close>

text \<open>
  The statements of the migrations.  \<open>CREATE TABLE IF NOT EXISTS\<close> needs the tables it refers to,
  \<open>CREATE INDEX\<close> its table and a new name, and \<open>DROP TABLE IF EXISTS\<close> is refused while another
  table refers to the table; it drops the indexes of the table too.
\<close>

datatype sql = CreateTable string "string list" | CreateIndex string string | DropTable string

definition has_table :: "Schema \<Rightarrow> string \<Rightarrow> bool" where
  "has_table sc t = list_ex (\<lambda>(u, refs). u = t) (sc_tables sc)"

fun sql_exec :: "sql \<Rightarrow> Schema \<Rightarrow> string + Schema" where
  "sql_exec (CreateTable t refs) sc =
     (if has_table sc t then Inr sc
      else if \<not> list_all (has_table sc) refs then Inl ''relation does not exist''
      else Inr (sc\<lparr>sc_tables := sc_tables sc @ [(t, refs)]\<rparr>))"
| "sql_exec (CreateIndex i t) sc =
     (if \<not> has_table sc t then Inl ''relation does not exist''
      else if list_ex (\<lambda>(j, u). j = i) (sc_indexes sc) then Inl ''relation already exists''
      else Inr (sc\<lparr>sc_indexes := sc_indexes sc @ [(i, t)]\<rparr>))"
| "sql_exec (DropTable t) sc =
     (if \<not> has_table sc t then Inr sc
      else if list_ex (\<lambda>(u, refs). u \<noteq> t \<and> t \<in> set refs) (sc_tables sc)
      then Inl ''other objects depend on it''
      else Inr (sc\<lparr>sc_tables := filter (\<lambda>(u, refs). u \<noteq> t) (sc_tables sc),
                   sc_indexes := filter (\<lambda>(i, u). u \<noteq> t) (sc_indexes sc)\<rparr>))"

fun sql_script :: "sql list \<Rightarrow> Schema \<Rightarrow> (string + Schema) option" where
  "sql_script [] sc = Some (Inr sc)"
| "sql_script (q # qs) sc = (case sql_exec q sc of Inl err \<Rightarrow> Some (Inl err) | Inr sc' \<Rightarrow> sql_script qs sc')"

definition DefaultMigrations :: "Migration list" where
  "DefaultMigrations =
     [\<lparr>mg_Version = 1, mg_Description = ''Create accounts table'',
       mg_Up = sql_script [CreateTable ''accounts'' [], CreateIndex ''idx_accounts_email'' ''accounts'',
         CreateIndex ''idx_accounts_status'' ''accounts''],
       mg_Down = sql_script [DropTable ''accounts'']\<rparr>,
      \<lparr>mg_Version = 2, mg_Description = ''Create transactions table'',
       mg_Up = sql_script [CreateTable ''transactions'' [],
         CreateIndex ''idx_transactions_idempotency'' ''transactions'',
         CreateIndex ''idx_transactions_merchant'' ''transactions'',
         CreateIndex ''idx_transactions_status'' ''transactions'',
         CreateIndex ''idx_transactions_created'' ''transactions''],
       mg_Down = sql_script [DropTable ''transactions'']\<rparr>,
      \<lparr>mg_Version = 3, mg_Description = ''Create ledger tables'',
       mg_Up = sql_script [CreateTable ''ledger_accounts'' [], CreateTable ''journal_entries'' [],
         CreateTable ''ledger_entries'' [''journal_entries'', ''ledger_accounts''],
         CreateIndex ''idx_ledger_entries_journal'' ''ledger_entries'',
         CreateIndex ''idx_ledger_entries_account'' ''ledger_entries'',
         CreateIndex ''idx_ledger_entries_reference'' ''ledger_entries''],
       mg_Down = sql_script [DropTable ''ledger_entries'', DropTable ''journal_entries'',
         DropTable ''ledger_accounts'']\<rparr>,
      \<lparr>mg_Version = 4, mg_Description = ''Create notifications table'',
       mg_Up = sql_script [CreateTable ''notifications'' [],
         CreateIndex ''idx_notifications_status'' ''notifications'',
         CreateIndex ''idx_notifications_event'' ''notifications'',
         CreateIndex ''idx_notifications_scheduled'' ''notifications''],
       mg_Down = sql_script [DropTable ''notifications'']\<rparr>,
      \<lparr>mg_Version = 5, mg_Description = ''Create audit_logs table'',
       mg_Up = sql_script [CreateTable ''audit_logs'' [], CreateIndex ''idx_audit_logs_entity'' ''audit_logs'',
         CreateIndex ''idx_audit_logs_actor'' ''audit_logs'',
         CreateIndex ''idx_audit_logs_created'' ''audit_logs''],
       mg_Down = sql_script [DropTable ''audit_logs'']\<rparr>]"

section \<open>What the migrator does\<close>

text \<open>The rows of \<open>schema_migrations\<close>, and the schema that migrations make one after the other.\<close>

definition applied_rows :: "Server \<Rightarrow> migration_rows" where
  "applied_rows s = (case sv_migrations s of None \<Rightarrow> [] | Some rows \<Rightarrow> rows)"

primrec run_ups :: "Migration list \<Rightarrow> Schema \<Rightarrow> Schema option" where
  "run_ups [] sc = Some sc"
| "run_ups (m # ms) sc = (case mg_Up m sc of Some (Inr sc') \<Rightarrow> run_ups ms sc' | _ \<Rightarrow> None)"

definition pending :: "Migration list \<Rightarrow> Server \<Rightarrow> Migration list" where
  "pending ms s = filter (\<lambda>m. sint (max_version (applied_rows s)) < sint (mg_Version m)) (by_version ms)"

lemma exec_call_done:
  assumes "exec_call faults statement s = (Some None, s')"
  shows "statement (s\<lparr>sv_calls := Suc (sv_calls s)\<rparr>) = Inr ((), s')"
  using assms by (auto simp: exec_call_def sv_call_def Let_def split: option.splits fault.splits sum.splits prod.splits)

lemma schema_call_done:
  assumes "schema_call faults change s = (Some None, s')"
  shows "\<exists>sc. change (sv_schema s) = Some (Inr sc) \<and> sv_schema s' = sc \<and> sv_migrations s' = sv_migrations s"
  using assms by (auto simp: schema_call_def sv_call_def Let_def split: option.splits fault.splits sum.splits prod.splits)

text \<open>A migration that is run leaves nothing, or all that it does together with its row.\<close>

lemma runMigration_up:
  assumes "runMigration faults now m True s = (r, s')"
  shows "same_data s' s \<and> r \<noteq> Some None \<or>
    (\<exists>rows t. mg_Up m (sv_schema s) = Some (Inr (sv_schema s')) \<and> sv_migrations s = Some rows \<and>
       mg_Version m \<notin> set (map fst rows) \<and>
       sv_migrations s' = Some (rows @ [(mg_Version m, mg_Description m, t)]))"
proof -
  from db_Transaction_cases [OF assms [unfolded runMigration_def]]
  consider "same_data s' s \<and> r \<noteq> Some None"
    | s1 s2 where "same_data s1 s" "migration_body faults now m True s1 = (Some None, s2)" "same_data s' s2"
    by blast
  then show ?thesis
  proof cases
    case 2
    then obtain s0 where s0: "schema_call faults (mg_Up m) s1 = (Some None, s0)"
      "exec_call faults (st_insert (mg_Version m) (mg_Description m) (now (sv_calls s0))) s0 = (Some None, s2)"
      by (auto simp: migration_body_def split: option.splits prod.splits)
    from schema_call_done [OF s0(1)] exec_call_done [OF s0(2)] 2(1,3) show ?thesis
      by (auto simp: st_insert_def same_data_def split: option.splits if_splits)
  qed simp
qed

lemma runMigration_down:
  assumes "runMigration faults now m False s = (r, s')"
  shows "same_data s' s \<and> r \<noteq> Some None \<or>
    (\<exists>rows. mg_Down m (sv_schema s) = Some (Inr (sv_schema s')) \<and> sv_migrations s = Some rows \<and>
       sv_migrations s' = Some (filter (\<lambda>x. fst x \<noteq> mg_Version m) rows))"
proof -
  from db_Transaction_cases [OF assms [unfolded runMigration_def]]
  consider "same_data s' s \<and> r \<noteq> Some None"
    | s1 s2 where "same_data s1 s" "migration_body faults now m False s1 = (Some None, s2)" "same_data s' s2"
    by blast
  then show ?thesis
  proof cases
    case 2
    then obtain s0 where s0: "schema_call faults (mg_Down m) s1 = (Some None, s0)"
      "exec_call faults (st_delete (mg_Version m)) s0 = (Some None, s2)"
      by (auto simp: migration_body_def split: option.splits prod.splits)
    from schema_call_done [OF s0(1)] exec_call_done [OF s0(2)] 2(1,3) show ?thesis
      by (auto simp: st_delete_def same_data_def split: option.splits)
  qed simp
qed

text \<open>The loop runs a first part of the pending migrations, all of them if it ends without an error.\<close>

lemma migrate_loop_prefix:
  assumes "migrate_loop faults now current ms s = (r, s')" "sv_migrations s = Some rows"
  shows "\<exists>ran rest new. filter (\<lambda>m. sint current < sint (mg_Version m)) ms = ran @ rest \<and>
    run_ups ran (sv_schema s) = Some (sv_schema s') \<and> sv_migrations s' = Some (rows @ new) \<and>
    map fst new = map mg_Version ran \<and> (r = Some None \<longrightarrow> rest = [])"
  using assms
proof (induction ms arbitrary: s rows)
  case Nil
  then show ?case by (intro exI [of _ "[]"]) simp
next
  case (Cons m ms)
  show ?case
  proof (cases "sint (mg_Version m) \<le> sint current")
    case True
    with Cons show ?thesis by simp
  next
    case False
    obtain r1 s1 where one: "runMigration faults now m True s = (r1, s1)" by fastforce
    have pend: "filter (\<lambda>m. sint current < sint (mg_Version m)) (m # ms) =
        m # filter (\<lambda>m. sint current < sint (mg_Version m)) ms"
      using False by simp
    from runMigration_up [OF one] show ?thesis
    proof (elim disjE conjE exE)
      assume same: "same_data s1 s" "r1 \<noteq> Some None"
      with False one Cons.prems have "s' = s1" "r \<noteq> Some None"
        by (auto split: option.splits)
      with same Cons.prems(2) show ?thesis
        unfolding pend
        by (intro exI [of _ "[]"] exI [of _ "m # filter (\<lambda>m. sint current < sint (mg_Version m)) ms"]
            exI [of _ "[]"]) (simp add: same_data_def)
    next
      fix rows1 t
      assume up: "mg_Up m (sv_schema s) = Some (Inr (sv_schema s1))" "sv_migrations s = Some rows1"
        "sv_migrations s1 = Some (rows1 @ [(mg_Version m, mg_Description m, t)])"
      show ?thesis
      proof (cases "r1 = Some None")
        case True
        with False one Cons.prems(1) have "migrate_loop faults now current ms s1 = (r, s')" by simp
        from Cons.IH [OF this up(3)] obtain ran rest new where
          "filter (\<lambda>m. sint current < sint (mg_Version m)) ms = ran @ rest"
          "run_ups ran (sv_schema s1) = Some (sv_schema s')"
          "sv_migrations s' = Some ((rows1 @ [(mg_Version m, mg_Description m, t)]) @ new)"
          "map fst new = map mg_Version ran" "r = Some None \<longrightarrow> rest = []" by blast
        with up Cons.prems(2) show ?thesis
          unfolding pend
          by (intro exI [of _ "m # ran"] exI [of _ rest] exI [of _ "(mg_Version m, mg_Description m, t) # new"]) simp
      next
        case fail: False
        with False one Cons.prems(1) have "s' = s1" "r \<noteq> Some None"
          by (auto split: option.splits)
        with up Cons.prems(2) show ?thesis
          unfolding pend
          by (intro exI [of _ "[m]"] exI [of _ "filter (\<lambda>m. sint current < sint (mg_Version m)) ms"]
              exI [of _ "[(mg_Version m, mg_Description m, t)]"]) simp
      qed
    qed
  qed
qed

lemma createMigrationsTable_effect:
  assumes "createMigrationsTable faults s = (r, s')"
  shows "sv_schema s' = sv_schema s" "applied_rows s' = applied_rows s"
    "r = Inr u \<Longrightarrow> sv_migrations s' = Some (applied_rows s)"
  using assms
  by (auto simp: createMigrationsTable_def sv_call_def st_create_def applied_rows_def Let_def
      split: option.splits fault.splits)

lemma getCurrentVersion_effect:
  assumes "getCurrentVersion faults s = (r, s')"
  shows "same_data s' s" "r = Inr v \<Longrightarrow> v = max_version (applied_rows s) \<and> sv_migrations s = Some (applied_rows s)"
  using assms
  by (auto simp: getCurrentVersion_def sv_call_def st_max_version_def applied_rows_def same_data_def Let_def
      split: option.splits fault.splits)

lemma Migrate_prefix:
  assumes "Migrate faults now ms s = (r, s')"
  shows "\<exists>ran rest new. pending ms s = ran @ rest \<and> run_ups ran (sv_schema s) = Some (sv_schema s') \<and>
    applied_rows s' = applied_rows s @ new \<and> map fst new = map mg_Version ran \<and>
    (r = Some None \<longrightarrow> rest = [] \<and> sv_migrations s' \<noteq> None)"
proof -
  obtain r1 s1 where c: "createMigrationsTable faults s = (r1, s1)" by fastforce
  obtain r2 s2 where v: "getCurrentVersion faults s1 = (r2, s2)" by fastforce
  note table = createMigrationsTable_effect [OF c] and version = getCurrentVersion_effect [OF v]
  show ?thesis
  proof (cases "\<exists>u current. r1 = Inr u \<and> r2 = Inr current")
    case True
    then obtain u current where ok: "r1 = Inr u" "r2 = Inr current" by blast
    have loop: "migrate_loop faults now current (by_version ms) s2 = (r, s')"
      using assms c v ok by (simp add: Migrate_def)
    have s2: "sv_migrations s2 = Some (applied_rows s)" "sv_schema s2 = sv_schema s"
      and current: "current = max_version (applied_rows s)"
      using table(1,2) table(3) [of u] version(1) version(2) [OF ok(2)] ok by (simp_all add: same_data_def)
    from migrate_loop_prefix [OF loop s2(1)] obtain ran rest new where
      "filter (\<lambda>m. sint current < sint (mg_Version m)) (by_version ms) = ran @ rest"
      "run_ups ran (sv_schema s2) = Some (sv_schema s')" "sv_migrations s' = Some (applied_rows s @ new)"
      "map fst new = map mg_Version ran" "r = Some None \<longrightarrow> rest = []"
      by (elim exE conjE)
    then show ?thesis
      by (intro exI [of _ ran] exI [of _ rest] exI [of _ new])
        (simp add: pending_def current s2 applied_rows_def [of s'])
  next
    case False
    then have "s' = s1 \<or> s' = s2" "r \<noteq> Some None"
      using assms c v by (auto simp: Migrate_def split: sum.splits)
    moreover have "applied_rows s2 = applied_rows s" "sv_schema s2 = sv_schema s"
      using table(1,2) version(1) by (simp_all add: same_data_def applied_rows_def)
    ultimately show ?thesis
      using table(1,2) by (intro exI [of _ "[]"] exI [of _ "pending ms s"] exI [of _ "[]"]) auto
  qed
qed

lemma max_version_ge:
  assumes "v \<in> set (map fst rows)"
  shows "sint v \<le> sint (max_version rows)"
proof -
  have "sint a \<le> sint (foldl (\<lambda>v (w, _). if sint v < sint w then w else v) a rs) \<and>
    (\<forall>v \<in> set (map fst rs). sint v \<le> sint (foldl (\<lambda>v (w, _). if sint v < sint w then w else v) a rs))"
    for a :: int64 and rs :: migration_rows
    by (induction rs arbitrary: a) (auto split: if_splits, (smt (verit))+)
  with assms show ?thesis by (cases rows) (auto simp: max_version_def split: prod.split)
qed

lemma max_version_in: "rows \<noteq> [] \<Longrightarrow> max_version rows \<in> set (map fst rows)"
proof -
  have "foldl (\<lambda>v (w, _). if sint v < sint w then w else v) a rs \<in> insert a (set (map fst rs))"
    for a :: int64 and rs :: migration_rows
    by (induction rs arbitrary: a) fastforce+
  then show "rows \<noteq> [] \<Longrightarrow> max_version rows \<in> set (map fst rows)"
    by (cases rows) (auto simp: max_version_def split: prod.split)
qed

section \<open>Properties\<close>

text \<open>
  Migrations are run in order and whole.  However the server fails, \<open>Migrate\<close> leaves the schema that
  some first part of the pending migrations (those above the highest version recorded, by version)
  makes, and exactly these are recorded, after the rows that were there: a migration that fails
  leaves nothing behind.  When it ends without an error it has run all of them.
\<close>

theorem migrate_runs_a_prefix:
  assumes "Migrate faults now ms s = (r, s')"
  shows "\<exists>ran rest. pending ms s = ran @ rest \<and> run_ups ran (sv_schema s) = Some (sv_schema s') \<and>
    map fst (applied_rows s') = map fst (applied_rows s) @ map mg_Version ran \<and> (r = Some None \<longrightarrow> rest = [])"
proof -
  from Migrate_prefix [OF assms] obtain ran rest new where
    "pending ms s = ran @ rest" "run_ups ran (sv_schema s) = Some (sv_schema s')"
    "applied_rows s' = applied_rows s @ new" "map fst new = map mg_Version ran"
    "r = Some None \<longrightarrow> rest = [] \<and> sv_migrations s' \<noteq> None"
    by (elim exE conjE)
  then show ?thesis by (intro exI [of _ ran] exI [of _ rest]) simp
qed

definition empty_server :: Server where
  "empty_server = \<lparr>sv_schema = \<lparr>sc_tables = [], sc_indexes = []\<rparr>, sv_migrations = None, sv_calls = 0\<rparr>"

text \<open>The answer to the commit of the second migration is lost: the migration is kept all the same.\<close>

theorem migrate_runs_a_prefix_witness:
  "map fst (applied_rows (snd (Migrate (\<lambda>i. if i = 9 then Some (AnswerLost ''reset'') else None) int
     DefaultMigrations empty_server))) = [1, 2]"
proof -
  let ?run = "Migrate (\<lambda>i. if i = 9 then Some (AnswerLost ''reset'') else None) int DefaultMigrations empty_server"
  have "length (applied_rows (snd ?run)) = 2" by code_simp
  moreover have "map mg_Version (pending DefaultMigrations empty_server) = [1, 2, 3, 4, 5]" by code_simp
  moreover have "applied_rows empty_server = []" by code_simp
  moreover obtain ran rest where "pending DefaultMigrations empty_server = ran @ rest"
    "map fst (applied_rows (snd ?run)) = map fst (applied_rows empty_server) @ map mg_Version ran"
    using migrate_runs_a_prefix [OF surjective_pairing [of ?run]] by blast
  ultimately have "map mg_Version ran @ map mg_Version rest = [1, 2, 3, 4, 5]" "length ran = 2"
    and ran: "map fst (applied_rows (snd ?run)) = map mg_Version ran"
    by (auto dest: arg_cong [where f = length] simp flip: map_append)
  then have "map mg_Version ran = take 2 [1, 2, 3, 4, 5]"
    by (metis append_eq_conv_conj length_map)
  with ran show ?thesis by simp
qed

text \<open>
  Migrating again changes nothing.  After a \<open>Migrate\<close> that ended without an error, another one with the same
  migrations, whatever the server does to its calls, leaves the schema and the recorded versions
  as they are, since no migration is pending.
\<close>

lemma pending_none:
  assumes "Migrate faults now ms s = (Some None, s')"
  shows "pending ms s' = []"
proof -
  from Migrate_prefix [OF assms] obtain ran rest new where run: "pending ms s = ran @ rest"
    "applied_rows s' = applied_rows s @ new" "map fst new = map mg_Version ran" "rest = []"
    by blast
  have "sint (mg_Version m) \<le> sint (max_version (applied_rows s'))" if "m \<in> set (by_version ms)" for m
  proof (cases "m \<in> set (pending ms s)")
    case True
    then have "mg_Version m \<in> set (map fst (applied_rows s'))"
      unfolding run(2) map_append run(3) using run(1,4) by simp
    then show ?thesis by (rule max_version_ge)
  next
    case False
    with that have low: "sint (mg_Version m) \<le> sint (max_version (applied_rows s))"
      by (simp add: pending_def)
    show ?thesis
    proof (cases "applied_rows s = []")
      case False
      from max_version_in [OF this] run(2)
      have "max_version (applied_rows s) \<in> set (map fst (applied_rows s'))" by simp
      with low max_version_ge show ?thesis by fastforce
    next
      case True
      show ?thesis
      proof (cases new)
        case Nil
        with low run(2) show ?thesis by simp
      next
        case (Cons x xs)
        with run(3) obtain k ks where k: "ran = k # ks" "fst x = mg_Version k" by (cases ran) auto
        then have "k \<in> set (pending ms s)" using run(1) by simp
        then have "sint (max_version (applied_rows s)) < sint (mg_Version k)" by (simp add: pending_def)
        moreover have "sint (fst x) \<le> sint (max_version (applied_rows s'))"
          by (rule max_version_ge) (simp add: run(2) Cons)
        ultimately show ?thesis using low k(2) by simp
      qed
    qed
  qed
  then show ?thesis by (simp add: pending_def filter_empty_conv not_less)
qed

theorem migrate_again_changes_nothing:
  assumes "Migrate faults now ms s = (Some None, s1)" "Migrate faults' now' ms s1 = (r, s2)"
  shows "sv_schema s2 = sv_schema s1 \<and> applied_rows s2 = applied_rows s1"
proof -
  from Migrate_prefix [OF assms(2)] obtain ran rest new where
    "[] = ran @ rest" "run_ups ran (sv_schema s1) = Some (sv_schema s2)"
    "applied_rows s2 = applied_rows s1 @ new" "map fst new = map mg_Version ran"
    unfolding pending_none [OF assms(1)] by (elim exE conjE)
  then show ?thesis by simp
qed

theorem migrate_again_changes_nothing_witness:
  "applied_rows (snd (Migrate (\<lambda>_. None) int DefaultMigrations
     (snd (Migrate (\<lambda>_. None) int DefaultMigrations empty_server)))) =
   applied_rows (snd (Migrate (\<lambda>_. None) int DefaultMigrations empty_server))"
proof -
  let ?run = "Migrate (\<lambda>_. None) int DefaultMigrations empty_server"
  have "fst ?run = Some None" by code_simp
  then have "?run = (Some None, snd ?run)" by (simp add: prod_eq_iff)
  from migrate_again_changes_nothing [OF this surjective_pairing] show ?thesis by blast
qed

text \<open>
  What a rollback undoes.  \<open>Rollback\<close> either leaves schema and rows as they were, or it has run \<open>Down\<close> of the
  first migration with the highest recorded version and removed that version's row, both or
  neither; without an error it did so, unless the highest version was 0.
\<close>

theorem rollback_undoes_last:
  assumes "Rollback faults now ms s = (r, s')"
  shows "sv_schema s' = sv_schema s \<and> applied_rows s' = applied_rows s \<and>
      (r = Some None \<longrightarrow> max_version (applied_rows s) = 0) \<or>
    (\<exists>m. find (\<lambda>m. mg_Version m = max_version (applied_rows s)) ms = Some m \<and>
       mg_Down m (sv_schema s) = Some (Inr (sv_schema s')) \<and>
       applied_rows s' = filter (\<lambda>row. fst row \<noteq> max_version (applied_rows s)) (applied_rows s))"
proof -
  obtain r1 s1 where v: "getCurrentVersion faults s = (r1, s1)" by fastforce
  note version = getCurrentVersion_effect [OF v]
  have rows: "applied_rows s1 = applied_rows s" "sv_schema s1 = sv_schema s"
    using version(1) by (simp_all add: same_data_def applied_rows_def)
  consider (failed) err where "r1 = Inl err" | (zero) "r1 = Inr 0"
    | (unknown) current where "r1 = Inr current" "current \<noteq> 0" "find (\<lambda>m. mg_Version m = current) ms = None"
    | (run) current m where "r1 = Inr current" "current \<noteq> 0" "find (\<lambda>m. mg_Version m = current) ms = Some m"
    by (metis option.exhaust sum.exhaust)
  then show ?thesis
  proof cases
    case run
    then have one: "runMigration faults now m False s1 = (r, s')"
      using assms v by (simp add: Rollback_def)
    have m: "mg_Version m = current" using find_SomeD [OF run(3)] by simp
    from runMigration_down [OF one] show ?thesis
    proof (elim disjE exE conjE)
      assume "same_data s' s1" "r \<noteq> Some None"
      with rows show ?thesis by (simp add: same_data_def applied_rows_def)
    next
      fix rs
      assume "mg_Down m (sv_schema s1) = Some (Inr (sv_schema s'))" "sv_migrations s1 = Some rs"
        "sv_migrations s' = Some (filter (\<lambda>x. fst x \<noteq> mg_Version m) rs)"
      with rows version(2) [OF run(1)] run(3) m show ?thesis
        by (intro disjI2 exI [of _ m]) (simp add: applied_rows_def [of s'] applied_rows_def [of s1])
    qed
  qed (use assms v rows version(2) in \<open>auto simp: Rollback_def\<close>)
qed

theorem rollback_undoes_last_witness:
  "\<exists>m \<in> set DefaultMigrations. mg_Version m = 5 \<and>
     map fst (applied_rows (snd (Rollback (\<lambda>_. None) int DefaultMigrations
       (snd (Migrate (\<lambda>_. None) int DefaultMigrations empty_server))))) = [1, 2, 3, 4]"
proof -
  let ?s = "snd (Migrate (\<lambda>_. None) int DefaultMigrations empty_server)"
  let ?run = "Rollback (\<lambda>_. None) int DefaultMigrations ?s"
  have rows: "map fst (applied_rows ?s) = [1, 2, 3, 4, 5]" "max_version (applied_rows ?s) = 5" by code_simp+
  have "fst ?run = Some None" by code_simp
  with rollback_undoes_last [OF surjective_pairing [of ?run]] rows(2) obtain m where
    "find (\<lambda>m. mg_Version m = 5) DefaultMigrations = Some m"
    "applied_rows (snd ?run) = filter (\<lambda>row. fst row \<noteq> 5) (applied_rows ?s)"
    by auto
  moreover have "map fst (filter (\<lambda>row. fst row \<noteq> 5) (applied_rows ?s)) = filter (\<lambda>v. v \<noteq> 5) (map fst (applied_rows ?s))"
    by (simp add: filter_map comp_def)
  ultimately show ?thesis
    using find_SomeD [of "\<lambda>m. mg_Version m = 5" DefaultMigrations m] unfolding rows(1)
    by (intro bexI [of _ m]) simp_all
qed

text \<open>
  The default migrations are reversible.  On an empty server without failures, they make seven tables
  and five rollbacks take back one migration each: after \<open>j\<close> rollbacks the schema is the one that the
  first \<open>5 - j\<close> migrations make, and after all five nothing is left.
\<close>

primrec rollbacks :: "nat \<Rightarrow> Server \<Rightarrow> Server" where
  "rollbacks 0 s = s"
| "rollbacks (Suc j) s = snd (Rollback (\<lambda>_. None) int DefaultMigrations (rollbacks j s))"

definition migrated :: Server where
  "migrated = snd (Migrate (\<lambda>_. None) int DefaultMigrations empty_server)"

definition as_after :: "nat \<Rightarrow> Server \<Rightarrow> bool" where
  "as_after n s \<longleftrightarrow> run_ups (take n DefaultMigrations) (sv_schema empty_server) = Some (sv_schema s) \<and>
     map fst (applied_rows s) = map mg_Version (take n DefaultMigrations)"

theorem default_migrations_round_trip:
  "fst (Migrate (\<lambda>_. None) int DefaultMigrations empty_server) = Some None \<and>
   length (sc_tables (sv_schema migrated)) = 7 \<and>
   list_all (\<lambda>j. as_after (5 - j) (rollbacks j migrated)) [0, 1, 2, 3, 4, 5]"
  by code_simp

text \<open>
  A migration that is added with a version below the highest recorded one is never run, and \<open>Migrate\<close> reports no
  error: after versions 1 and 3, version 2 is skipped for good.
\<close>

theorem late_migration_skipped:
  assumes "sint (mg_Version m) \<le> sint (max_version (applied_rows s))"
    and "\<forall>k \<in> set ms. sint (mg_Version k) \<le> sint (max_version (applied_rows s))"
    and "Migrate (\<lambda>_. None) now (ms @ [m]) s = (r, s')"
  shows "r = Some None \<and> sv_schema s' = sv_schema s \<and> applied_rows s' = applied_rows s"
proof -
  have skip: "migrate_loop f now current ks t = (Some None, t)"
    if "\<forall>k \<in> set ks. sint (mg_Version k) \<le> sint current" for f current ks t
    using that by (induction ks) simp_all
  let ?s1 = "case sv_migrations s of None \<Rightarrow> s\<lparr>sv_calls := Suc (sv_calls s), sv_migrations := Some []\<rparr>
    | Some _ \<Rightarrow> s\<lparr>sv_calls := Suc (sv_calls s)\<rparr>"
  have "createMigrationsTable (\<lambda>_. None) s = (Inr (), ?s1)"
    by (simp add: createMigrationsTable_def sv_call_def st_create_def split: option.split)
  moreover have "getCurrentVersion (\<lambda>_. None) ?s1 =
      (Inr (max_version (applied_rows s)), ?s1\<lparr>sv_calls := Suc (sv_calls ?s1)\<rparr>)"
    by (simp add: getCurrentVersion_def sv_call_def st_max_version_def applied_rows_def Let_def split: option.split)
  ultimately have "Migrate (\<lambda>_. None) now (ms @ [m]) s = (Some None, ?s1\<lparr>sv_calls := Suc (sv_calls ?s1)\<rparr>)"
    using assms(1,2) by (simp add: Migrate_def skip by_version_def)
  with assms(3) show ?thesis by (auto simp: applied_rows_def split: option.splits)
qed

text \<open>Before the first \<open>Migrate\<close> there is no table, and \<open>Rollback\<close> fails instead of doing nothing.\<close>

theorem rollback_of_nothing_fails:
  "fst (Rollback (\<lambda>_. None) now ms empty_server) = Some (Some (DbError ''relation schema_migrations does not exist''))"
  by (simp add: Rollback_def getCurrentVersion_def sv_call_def st_max_version_def empty_server_def)

end
