(* ===== verification/Metrics.thy ===== *)
theory Metrics
  imports Go_Floats "HOL-Library.Char_ord" "HOL-Library.List_Lexorder"
begin

text \<open>
  The metrics of \<open>libs/metrics/metrics.go\<close>: counters with labels, gauges, histograms, the registry, what is
  recorded of a request, and the text for Prometheus.

  A counter that a name of the registry stands for is never replaced, so the pointers that the code
  hands out are represented by the names.  Labels are given as a list of the pairs of the map.
\<close>

section \<open>Counters\<close>

record Counter =
  mc_values :: "string \<rightharpoonup> int64"
  mc_labels :: "string \<rightharpoonup> (string \<times> string) list"

definition NewCounter :: Counter where
  "NewCounter = \<lparr>mc_values = Map.empty, mc_labels = Map.empty\<rparr>"

definition counter_Add :: "string \<Rightarrow> int64 \<Rightarrow> Counter \<Rightarrow> Counter" where
  "counter_Add name delta c =
     (case mc_values c name of
        Some v \<Rightarrow> c\<lparr>mc_values := (mc_values c)(name \<mapsto> v + delta)\<rparr>
      | None \<Rightarrow> c\<lparr>mc_values := (mc_values c)(name \<mapsto> delta)\<rparr>)"

definition counter_Inc :: "string \<Rightarrow> Counter \<Rightarrow> Counter" where
  "counter_Inc name = counter_Add name 1"

definition formatKey :: "string \<Rightarrow> (string \<times> string) list \<Rightarrow> string" where
  "formatKey name labels =
     (if length labels = 0 then name
      else
        let keys = sort (map fst labels);
            parts = map (\<lambda>k. k @ ''='' @ the (map_of labels k)) keys
        in name @ ''{'' @ join '','' parts @ ''}'')"

definition IncWithLabels :: "string \<Rightarrow> (string \<times> string) list \<Rightarrow> Counter \<Rightarrow> Counter" where
  "IncWithLabels name labels c =
     (let key = formatKey name labels;
          c = counter_Inc key c
      in c\<lparr>mc_labels := (mc_labels c)(key \<mapsto> labels)\<rparr>)"

definition counter_Get :: "string \<Rightarrow> Counter \<Rightarrow> int64" where
  "counter_Get name c = (case mc_values c name of Some v \<Rightarrow> v | None \<Rightarrow> 0)"

definition counter_Reset :: "string \<Rightarrow> Counter \<Rightarrow> Counter" where
  "counter_Reset name c =
     (if mc_values c name \<noteq> None then c\<lparr>mc_values := (mc_values c)(name \<mapsto> 0)\<rparr> else c)"

definition counter_All :: "Counter \<Rightarrow> (string \<rightharpoonup> int64)" where
  "counter_All c = mc_values c"

section \<open>Gauges\<close>

record Gauge = mg_values :: "string \<rightharpoonup> rat"

definition NewGauge :: Gauge where
  "NewGauge = \<lparr>mg_values = Map.empty\<rparr>"

definition gauge_Get :: "string \<Rightarrow> Gauge \<Rightarrow> rat" where
  "gauge_Get name g = (case mg_values g name of Some v \<Rightarrow> v | None \<Rightarrow> 0)"

definition gauge_Set :: "string \<Rightarrow> rat \<Rightarrow> Gauge \<Rightarrow> Gauge" where
  "gauge_Set name v g = g\<lparr>mg_values := (mg_values g)(name \<mapsto> v)\<rparr>"

definition gauge_Add :: "string \<Rightarrow> rat \<Rightarrow> Gauge \<Rightarrow> Gauge" where
  "gauge_Add name delta g = g\<lparr>mg_values := (mg_values g)(name \<mapsto> gauge_Get name g + delta)\<rparr>"

definition gauge_Inc :: "string \<Rightarrow> Gauge \<Rightarrow> Gauge" where
  "gauge_Inc name = gauge_Add name 1"

definition gauge_Dec :: "string \<Rightarrow> Gauge \<Rightarrow> Gauge" where
  "gauge_Dec name = gauge_Add name (- 1)"

definition gauge_All :: "Gauge \<Rightarrow> (string \<rightharpoonup> rat)" where
  "gauge_All g = mg_values g"

section \<open>Histograms\<close>

record Histogram =
  hg_name :: string
  hg_observations :: "rat list"
  hg_sum :: rat
  hg_count :: int64
  hg_buckets :: "rat list"
  hg_bucketCounts :: "int64 list"

definition DefaultBuckets :: "rat list" where
  "DefaultBuckets = [5, 10, 25, 50, 100, 250, 500, 1000, 2500, 5000, 10000]"

text \<open>\<open>None\<close> is the nil slice of buckets.\<close>

definition NewHistogram :: "string \<Rightarrow> rat list option \<Rightarrow> Histogram" where
  "NewHistogram name buckets =
     (let buckets = (case buckets of None \<Rightarrow> DefaultBuckets | Some bs \<Rightarrow> bs)
      in \<lparr>hg_name = name, hg_observations = [], hg_sum = 0, hg_count = 0, hg_buckets = buckets,
          hg_bucketCounts = replicate (length buckets + 1) 0\<rparr>)"

text \<open>The loop of \<open>Observe\<close> over the boundaries from \<open>i\<close>; \<open>n\<close> is the number of all of them.\<close>

fun observe_loop :: "rat \<Rightarrow> nat \<Rightarrow> nat \<Rightarrow> rat list \<Rightarrow> int64 list \<Rightarrow> int64 list" where
  "observe_loop v n i [] counts = counts"
| "observe_loop v n i (boundary # bs) counts =
     (if v \<le> boundary then counts[i := counts ! i + 1]
      else
        observe_loop v n (i + 1) bs
          (if i = n - 1 then counts[n := counts ! n + 1] else counts))"

definition Observe :: "rat \<Rightarrow> Histogram \<Rightarrow> Histogram" where
  "Observe v h =
     h\<lparr>hg_observations := hg_observations h @ [v], hg_sum := hg_sum h + v, hg_count := hg_count h + 1,
       hg_bucketCounts := observe_loop v (length (hg_buckets h)) 0 (hg_buckets h) (hg_bucketCounts h)\<rparr>"

text \<open>\<open>Duration.Milliseconds\<close> drops the fraction.\<close>

definition milliseconds :: "duration \<Rightarrow> int" where
  "milliseconds d = trunc (of_int d / 10 ^ 6)"

definition ObserveDuration :: "duration \<Rightarrow> Histogram \<Rightarrow> Histogram" where
  "ObserveDuration d = Observe (of_int (milliseconds d))"

definition hist_Mean :: "Histogram \<Rightarrow> rat" where
  "hist_Mean h = (if hg_count h = 0 then 0 else hg_sum h / of_int (sint (hg_count h)))"

definition hist_Sum :: "Histogram \<Rightarrow> rat" where
  "hist_Sum h = hg_sum h"

definition hist_Count :: "Histogram \<Rightarrow> int64" where
  "hist_Count h = hg_count h"

text \<open>The index of a percentile may be out of the range of the slice (\<open>None\<close>).\<close>

definition Percentile :: "rat \<Rightarrow> Histogram \<Rightarrow> rat option" where
  "Percentile p h =
     (if length (hg_observations h) = 0 then Some 0
      else
        let sorted = sort (hg_observations h);
            index = trunc (of_nat (length sorted - 1) * p / 100)
        in if 0 \<le> index \<and> nat index < length sorted then Some (sorted ! nat index) else None)"

definition hist_Reset :: "Histogram \<Rightarrow> Histogram" where
  "hist_Reset h =
     h\<lparr>hg_observations := [], hg_sum := 0, hg_count := 0,
       hg_bucketCounts := map (\<lambda>_. 0) (hg_bucketCounts h)\<rparr>"

section \<open>The registry\<close>

record Registry =
  rg_counters :: "string \<rightharpoonup> Counter"
  rg_gauges :: "string \<rightharpoonup> Gauge"
  rg_histograms :: "string \<rightharpoonup> Histogram"

definition get_Counter :: "string \<Rightarrow> Registry \<Rightarrow> Registry" where
  "get_Counter name r =
     (case rg_counters r name of
        Some _ \<Rightarrow> r | None \<Rightarrow> r\<lparr>rg_counters := (rg_counters r)(name \<mapsto> NewCounter)\<rparr>)"

definition get_Gauge :: "string \<Rightarrow> Registry \<Rightarrow> Registry" where
  "get_Gauge name r =
     (case rg_gauges r name of
        Some _ \<Rightarrow> r | None \<Rightarrow> r\<lparr>rg_gauges := (rg_gauges r)(name \<mapsto> NewGauge)\<rparr>)"

definition get_Histogram :: "string \<Rightarrow> rat list option \<Rightarrow> Registry \<Rightarrow> Registry" where
  "get_Histogram name buckets r =
     (case rg_histograms r name of
        Some _ \<Rightarrow> r
      | None \<Rightarrow> r\<lparr>rg_histograms := (rg_histograms r)(name \<mapsto> NewHistogram name buckets)\<rparr>)"

definition NewRegistry :: Registry where
  "NewRegistry =
     get_Gauge ''active_connections'' (get_Counter ''errors_total''
       (get_Histogram ''http_request_duration_ms'' None (get_Counter ''http_requests_total''
         \<lparr>rg_counters = Map.empty, rg_gauges = Map.empty, rg_histograms = Map.empty\<rparr>)))"

text \<open>An update through the pointer that a name stands for.\<close>

definition with_counter :: "string \<Rightarrow> (Counter \<Rightarrow> Counter) \<Rightarrow> Registry \<Rightarrow> Registry" where
  "with_counter name f r = r\<lparr>rg_counters := (rg_counters r)(name := map_option f (rg_counters r name))\<rparr>"

definition with_histogram :: "string \<Rightarrow> (Histogram \<Rightarrow> Histogram) \<Rightarrow> Registry \<Rightarrow> Registry" where
  "with_histogram name f r =
     r\<lparr>rg_histograms := (rg_histograms r)(name := map_option f (rg_histograms r name))\<rparr>"

text \<open>A status code is printed in decimal.\<close>

definition RecordRequest :: "string \<Rightarrow> string \<Rightarrow> nat \<Rightarrow> duration \<Rightarrow> Registry \<Rightarrow> Registry" where
  "RecordRequest verb path statusCode d r =
     (let labels = [(''method'', verb), (''path'', path), (''status'', decimal statusCode)];
          r = with_counter ''http_requests_total'' (IncWithLabels ''http_requests'' labels) r;
          r = with_histogram ''http_request_duration_ms'' (ObserveDuration d) r
      in if 400 \<le> statusCode
         then with_counter ''errors_total'' (IncWithLabels ''http_errors'' labels) r else r)"

record HistogramStats =
  hs_Count :: int64
  hs_Sum :: rat
  hs_Mean :: rat
  hs_P50 :: rat
  hs_P90 :: rat
  hs_P95 :: rat
  hs_P99 :: rat

definition histogram_stats :: "Histogram \<Rightarrow> HistogramStats option" where
  "histogram_stats h =
     (case (Percentile 50 h, Percentile 90 h, Percentile 95 h, Percentile 99 h) of
        (Some p50, Some p90, Some p95, Some p99) \<Rightarrow>
          Some \<lparr>hs_Count = hg_count h, hs_Sum = hg_sum h, hs_Mean = hist_Mean h,
                hs_P50 = p50, hs_P90 = p90, hs_P95 = p95, hs_P99 = p99\<rparr>
      | _ \<Rightarrow> None)"

text \<open>A snapshot, without the metrics of the Go runtime; \<open>None\<close> is a panic of a percentile.\<close>

record Snapshot =
  sn_Timestamp :: time
  sn_Counters :: "string \<rightharpoonup> (string \<rightharpoonup> int64)"
  sn_Gauges :: "string \<rightharpoonup> (string \<rightharpoonup> rat)"
  sn_Histograms :: "string \<rightharpoonup> HistogramStats"

definition snapshot :: "time \<Rightarrow> string list \<Rightarrow> Registry \<Rightarrow> Snapshot option" where
  "snapshot now hs r =
     (if list_all (\<lambda>name. histogram_stats (the (rg_histograms r name)) \<noteq> None) hs
      then Some \<lparr>sn_Timestamp = now, sn_Counters = (\<lambda>name. map_option counter_All (rg_counters r name)),
        sn_Gauges = (\<lambda>name. map_option gauge_All (rg_gauges r name)),
        sn_Histograms = (\<lambda>name. Option.bind (rg_histograms r name) histogram_stats)\<rparr>
      else None)"

text \<open>
  The lines for Prometheus of a counter and of a gauge, in the order the maps are visited; \<open>f\<close> prints a
  floating-point number.
\<close>

definition counter_line :: "string \<Rightarrow> string \<Rightarrow> int64 \<Rightarrow> string" where
  "counter_line name metricName v =
     (if CHR ''{'' \<in> set metricName then metricName @ '' '' @ signed_decimal v @ [CHR 0x0A]
      else name @ ''_'' @ metricName @ '' '' @ signed_decimal v @ [CHR 0x0A])"

definition gauge_line :: "(rat \<Rightarrow> string) \<Rightarrow> string \<Rightarrow> string \<Rightarrow> rat \<Rightarrow> string" where
  "gauge_line f name metricName v = name @ ''_'' @ metricName @ '' '' @ f v @ [CHR 0x0A]"

definition histogram_lines :: "(rat \<Rightarrow> string) \<Rightarrow> string \<Rightarrow> Histogram \<Rightarrow> string list option" where
  "histogram_lines f name h =
     map_option (\<lambda>st.
       [name @ ''_count '' @ signed_decimal (hs_Count st) @ [CHR 0x0A],
        name @ ''_sum '' @ f (hs_Sum st) @ [CHR 0x0A],
        name @ ''{quantile=\"0.5\"} '' @ f (hs_P50 st) @ [CHR 0x0A],
        name @ ''{quantile=\"0.9\"} '' @ f (hs_P90 st) @ [CHR 0x0A],
        name @ ''{quantile=\"0.95\"} '' @ f (hs_P95 st) @ [CHR 0x0A],
        name @ ''{quantile=\"0.99\"} '' @ f (hs_P99 st) @ [CHR 0x0A]]) (histogram_stats h)"

text \<open>The order in which the maps are visited: of the counters and their values, the gauges and theirs,
  and of the histograms.\<close>

record print_order =
  po_counters :: "(string \<times> string list) list"
  po_gauges :: "(string \<times> string list) list"
  po_histograms :: "string list"

definition writePrometheus :: "(rat \<Rightarrow> string) \<Rightarrow> print_order \<Rightarrow> Registry \<Rightarrow> string list option" where
  "writePrometheus f ord r =
     (if list_all (\<lambda>name. histogram_lines f name (the (rg_histograms r name)) \<noteq> None) (po_histograms ord)
      then Some (
        concat (map (\<lambda>(name, metrics). map (\<lambda>m. counter_line name m
          (counter_Get m (the (rg_counters r name)))) metrics) (po_counters ord)) @
        concat (map (\<lambda>(name, metrics). map (\<lambda>m. gauge_line f name m
          (gauge_Get m (the (rg_gauges r name)))) metrics) (po_gauges ord)) @
        concat (map (\<lambda>name. the (histogram_lines f name (the (rg_histograms r name)))) (po_histograms ord)))
      else None)"

text \<open>
  The handler: the parameter \<open>format\<close> of the query chooses between the text and the snapshot; \<open>None\<close> is the panic
  of a percentile.
\<close>

datatype metrics_answer = PrometheusText "string list" | JsonSnapshot Snapshot

definition metrics_Handler ::
  "(rat \<Rightarrow> string) \<Rightarrow> print_order \<Rightarrow> time \<Rightarrow> string list \<Rightarrow> string \<Rightarrow> Registry \<Rightarrow> metrics_answer option" where
  "metrics_Handler f ord now hs format r =
     (if format = ''prometheus'' then map_option PrometheusText (writePrometheus f ord r)
      else map_option JsonSnapshot (snapshot now hs r))"

text \<open>A timer: its start and the histogram it reports to, if there is one.\<close>

record Timer =
  tm_start :: time
  tm_hist :: "string option"

definition NewTimer :: "time \<Rightarrow> string option \<Rightarrow> Timer" where
  "NewTimer now hist = \<lparr>tm_start = now, tm_hist = hist\<rparr>"

definition timer_ObserveDuration :: "time \<Rightarrow> Timer \<Rightarrow> Registry \<Rightarrow> duration \<times> Registry" where
  "timer_ObserveDuration now t r =
     (let d = time_sub now (tm_start t)
      in (d, case tm_hist t of None \<Rightarrow> r | Some name \<Rightarrow> with_histogram name (ObserveDuration d) r))"

section \<open>What a histogram counts\<close>

text \<open>The bucket of a value: the first boundary that is not below it, or the one after the last.\<close>

definition bucket_of :: "rat list \<Rightarrow> rat \<Rightarrow> nat" where
  "bucket_of bs v = length (takeWhile (\<lambda>b. \<not> v \<le> b) bs)"

lemma bucket_of_le: "bucket_of bs v \<le> length bs"
  by (simp add: bucket_of_def length_takeWhile_le)

lemma observe_loop_bucket:
  "bs \<noteq> [] \<Longrightarrow> i + length bs = n \<Longrightarrow>
    observe_loop v n i bs counts = counts[i + bucket_of bs v := counts ! (i + bucket_of bs v) + 1]"
proof (induction bs arbitrary: i)
  case (Cons b bs)
  show ?case
  proof (cases "bs = []")
    case True
    with Cons.prems show ?thesis by (auto simp: bucket_of_def)
  next
    case False
    with Cons.prems have "i \<noteq> n - 1" by auto
    with Cons.IH [of "i + 1"] Cons.prems False show ?thesis by (simp add: bucket_of_def)
  qed
qed simp

definition hist_inv :: "Histogram \<Rightarrow> bool" where
  "hist_inv h \<longleftrightarrow>
     hg_count h = of_nat (length (hg_observations h)) \<and> hg_sum h = sum_list (hg_observations h) \<and>
     length (hg_bucketCounts h) = length (hg_buckets h) + 1 \<and>
     (\<forall>i \<le> length (hg_buckets h). hg_bucketCounts h ! i =
        of_nat (length (filter (\<lambda>v. bucket_of (hg_buckets h) v = i) (hg_observations h))))"

datatype hist_op = HObserve rat | HDuration duration | HReset

primrec hist_step :: "hist_op \<Rightarrow> Histogram \<Rightarrow> Histogram" where
  "hist_step (HObserve v) h = Observe v h"
| "hist_step (HDuration d) h = ObserveDuration d h"
| "hist_step HReset h = hist_Reset h"

lemma hist_buckets_step [simp]: "hg_buckets (hist_step a h) = hg_buckets h"
  by (cases a) (simp_all add: Observe_def ObserveDuration_def hist_Reset_def)

lemma hist_inv_new: "hist_inv (NewHistogram name bs)"
  by (simp add: hist_inv_def NewHistogram_def Let_def nth_Cons' split: option.split)

lemma hist_inv_Observe:
  assumes "hist_inv h" "hg_buckets h \<noteq> []"
  shows "hist_inv (Observe v h)"
  using assms bucket_of_le [of "hg_buckets h" v]
  by (auto simp: hist_inv_def Observe_def observe_loop_bucket nth_list_update)

lemma hist_inv_step:
  assumes "hist_inv h \<and> hg_buckets h \<noteq> []"
  shows "hist_inv (hist_step a h) \<and> hg_buckets (hist_step a h) \<noteq> []"
proof (cases a)
  case HReset
  with assms show ?thesis by (simp add: hist_inv_def hist_Reset_def)
qed (use assms hist_inv_Observe in \<open>auto simp: ObserveDuration_def Observe_def\<close>)

interpretation histogram: invariant_machine hist_step "\<lambda>_ _. True" "\<lambda>h. hist_inv h \<and> hg_buckets h \<noteq> []"
  by unfold_locales (rule hist_inv_step)

lemma run_ok_any: "run_ok step (\<lambda>_ _. True) xs s"
  by (induction xs arbitrary: s) simp_all

text \<open>The values of the buckets add up to the number of values.\<close>

lemma sum_list_eq_sum_nth: "length xs = n \<Longrightarrow> sum_list xs = (\<Sum>i < n. xs ! i)" for xs :: "'a :: comm_monoid_add list"
  by (simp add: sum_list_sum_nth atLeast0LessThan)

lemma hist_inv_total: "hist_inv h \<Longrightarrow> sum_list (hg_bucketCounts h) = hg_count h"
proof -
  assume inv: "hist_inv h"
  let ?bs = "hg_buckets h" and ?obs = "hg_observations h"
  have "sum_list (hg_bucketCounts h) = (\<Sum>i < length ?bs + 1. hg_bucketCounts h ! i)"
    using inv by (intro sum_list_eq_sum_nth) (simp add: hist_inv_def)
  also have "\<dots> = (\<Sum>i < length ?bs + 1. of_nat (length (filter (\<lambda>v. bucket_of ?bs v = i) ?obs)))"
    using inv by (intro sum.cong) (simp_all add: hist_inv_def)
  also have "\<dots> = of_nat (\<Sum>i < length ?bs + 1. length (filter (\<lambda>v. bucket_of ?bs v = i) ?obs))"
    by simp
  also have "(\<Sum>i < length ?bs + 1. length (filter (\<lambda>v. bucket_of ?bs v = i) ?obs)) = length ?obs"
  proof -
    have "\<forall>v \<in> set ?obs. bucket_of ?bs v \<in> {..<length ?bs + 1}"
      using bucket_of_le [of ?bs] by (simp add: less_Suc_eq_le)
    from sum_list_by_key [OF finite_lessThan this, of "\<lambda>_. 1 :: nat"] show ?thesis
      by (simp add: sum_list_triv)
  qed
  finally show ?thesis using inv by (simp add: hist_inv_def)
qed

section \<open>What a percentile is\<close>

lemma sorted_below:
  assumes "sorted ys" "i < length ys"
  shows "length (filter (\<lambda>v. v < ys ! i) ys) \<le> i" "i < length (filter (\<lambda>v. v \<le> ys ! i) ys)"
proof -
  have split: "filter P ys = filter P (take i ys) @ filter P (drop i ys)" for P
    by (metis append_take_drop_id filter_append)
  have "filter (\<lambda>v. v < ys ! i) (drop i ys) = []"
  proof (unfold filter_empty_conv, intro ballI)
    fix v assume "v \<in> set (drop i ys)"
    then obtain j where "i \<le> j" "j < length ys" "v = ys ! j"
      by (metis add.commute in_set_conv_nth le_add1 length_drop less_diff_conv nth_drop assms(2) less_or_eq_imp_le)
    with assms(1) show "\<not> v < ys ! i" by (simp add: sorted_iff_nth_mono leD)
  qed
  then show "length (filter (\<lambda>v. v < ys ! i) ys) \<le> i"
    unfolding split using length_filter_le [of "\<lambda>v. v < ys ! i" "take i ys"] by simp
  have "filter (\<lambda>v. v \<le> ys ! i) (take (Suc i) ys) = take (Suc i) ys"
  proof (rule filter_True, intro ballI)
    fix v assume "v \<in> set (take (Suc i) ys)"
    then obtain j where "j < Suc i" "v = ys ! j"
      by (metis in_set_conv_nth length_take min_less_iff_conj nth_take)
    with assms show "v \<le> ys ! i" by (simp add: sorted_iff_nth_mono less_Suc_eq_le)
  qed
  moreover have "length (filter P (take (Suc i) ys)) \<le> length (filter P ys)" for P
    by (metis append_take_drop_id filter_append le_add1 length_append)
  ultimately show "i < length (filter (\<lambda>v. v \<le> ys ! i) ys)"
    using assms(2) by (metis Suc_leI Suc_le_eq length_take min.absorb2)
qed

lemma length_filter_sort: "length (filter P (sort xs)) = length (filter P xs)" for xs :: "'a :: linorder list"
  by (simp add: filter_sort)

section \<open>The requests that are recorded\<close>

definition counter_total :: "Counter \<Rightarrow> int64" where
  "counter_total c = (\<Sum>k \<in> dom (mc_values c). the (mc_values c k))"

lemma counter_total_Inc:
  assumes "finite (dom (mc_values c))"
  shows "finite (dom (mc_values (counter_Inc k c))) \<and> counter_total (counter_Inc k c) = counter_total c + 1"
proof (cases "mc_values c k")
  case None
  then have "k \<notin> dom (mc_values c)" by blast
  then have "(\<Sum>x \<in> dom (mc_values c). the (((mc_values c)(k \<mapsto> 1)) x)) = counter_total c"
    unfolding counter_total_def by (intro sum.cong) auto
  with None assms \<open>k \<notin> dom (mc_values c)\<close> show ?thesis
    by (simp add: counter_total_def counter_Inc_def counter_Add_def)
next
  case (Some v)
  then have k: "k \<in> dom (mc_values c)" by blast
  have "(\<Sum>x \<in> dom (mc_values c) - {k}. the (((mc_values c)(k \<mapsto> v + 1)) x)) =
      (\<Sum>x \<in> dom (mc_values c) - {k}. the (mc_values c x))"
    by (intro sum.cong) auto
  then show ?thesis
    using Some assms by (simp add: counter_total_def counter_Inc_def counter_Add_def sum.remove [OF assms k]
        insert_absorb [OF k])
qed

lemma counter_total_labels:
  assumes "finite (dom (mc_values c))"
  shows "finite (dom (mc_values (IncWithLabels n l c)))" "counter_total (IncWithLabels n l c) = counter_total c + 1"
  using counter_total_Inc [OF assms, of "formatKey n l"]
  by (simp_all add: IncWithLabels_def Let_def counter_total_def)

definition recorded :: "(string \<times> string \<times> nat \<times> duration) list \<Rightarrow> Registry \<Rightarrow> bool" where
  "recorded requests r \<longleftrightarrow>
     (\<exists>c err h. rg_counters r ''http_requests_total'' = Some c \<and> finite (dom (mc_values c)) \<and>
        counter_total c = of_nat (length requests) \<and>
        rg_counters r ''errors_total'' = Some err \<and> finite (dom (mc_values err)) \<and>
        counter_total err = of_nat (length (filter (\<lambda>(verb, path, status, d). 400 \<le> status) requests)) \<and>
        rg_histograms r ''http_request_duration_ms'' = Some h \<and> hist_inv h \<and> hg_buckets h = DefaultBuckets \<and>
        hg_observations h = map (\<lambda>(verb, path, status, d). of_int (milliseconds d)) requests)"

primrec record_all :: "(string \<times> string \<times> nat \<times> duration) list \<Rightarrow> Registry \<Rightarrow> Registry" where
  "record_all [] r = r"
| "record_all (q # qs) r = record_all qs (case q of (verb, path, status, d) \<Rightarrow> RecordRequest verb path status d r)"

lemma recorded_step:
  assumes "recorded qs r"
  shows "recorded (qs @ [(verb, path, status, d)]) (RecordRequest verb path status d r)"
proof -
  from assms obtain c err h where r: "rg_counters r ''http_requests_total'' = Some c" "finite (dom (mc_values c))"
    "counter_total c = of_nat (length qs)" "rg_counters r ''errors_total'' = Some err" "finite (dom (mc_values err))"
    "counter_total err = of_nat (length (filter (\<lambda>(verb, path, status, d). 400 \<le> status) qs))"
    "rg_histograms r ''http_request_duration_ms'' = Some h" "hist_inv h" "hg_buckets h = DefaultBuckets"
    "hg_observations h = map (\<lambda>(verb, path, status, d). of_int (milliseconds d)) qs"
    unfolding recorded_def by (elim exE conjE)
  have h: "hist_inv (ObserveDuration d h)"
    using r(8,9) by (simp add: ObserveDuration_def DefaultBuckets_def hist_inv_Observe)
  have fields: "hg_buckets (ObserveDuration d h) = DefaultBuckets"
    "hg_observations (ObserveDuration d h) = hg_observations h @ [of_int (milliseconds d)]"
    using r(9) by (simp_all add: ObserveDuration_def Observe_def)
  show ?thesis
    unfolding recorded_def using r h fields
    by (simp add: RecordRequest_def Let_def with_counter_def with_histogram_def counter_total_labels)
qed

lemma record_all_recorded: "recorded qs r \<Longrightarrow> recorded (qs @ qs') (record_all qs' r)"
proof (induction qs' arbitrary: qs r)
  case (Cons q qs')
  obtain verb path status d where q: "q = (verb, path, status, d)" by (cases q)
  from Cons.IH [OF recorded_step [OF Cons.prems]] show ?case by (simp add: q)
qed simp

lemma recorded_new: "recorded [] NewRegistry"
  by (simp add: recorded_def NewRegistry_def get_Counter_def get_Gauge_def get_Histogram_def NewCounter_def
      counter_total_def hist_inv_new) (simp add: NewHistogram_def)

section \<open>Properties\<close>

text \<open>
  The buckets of a histogram are exact.  After any observations, durations and resets of a histogram with at
  least one boundary, each bucket counts exactly the observations for which its boundary is the first
  that is not below them, the last one those above every boundary, and together they are the count.
\<close>

theorem histogram_buckets_exact:
  assumes "bs \<noteq> []" "h = run hist_step ops (NewHistogram name (Some bs))"
  shows "hg_count h = of_nat (length (hg_observations h)) \<and> sum_list (hg_bucketCounts h) = hg_count h \<and>
    hg_sum h = sum_list (hg_observations h) \<and>
    (\<forall>i \<le> length bs. hg_bucketCounts h ! i =
       of_nat (length (filter (\<lambda>v. length (takeWhile (\<lambda>b. b < v) bs) = i) (hg_observations h))))"
proof -
  have "hist_inv (NewHistogram name (Some bs)) \<and> hg_buckets (NewHistogram name (Some bs)) \<noteq> []"
    using assms(1) hist_inv_new [of name "Some bs"] by (simp add: NewHistogram_def)
  from histogram.run_inv [OF this run_ok_any] assms(2) have inv: "hist_inv h" by simp
  have "hg_buckets (run hist_step ops g) = hg_buckets g" for g
    by (induction ops arbitrary: g) simp_all
  then have "hg_buckets h = bs" by (simp add: assms(2) NewHistogram_def)
  with inv hist_inv_total [OF inv] show ?thesis
    by (simp add: hist_inv_def bucket_of_def not_le)
qed

theorem histogram_buckets_exact_witness:
  "hg_bucketCounts (run hist_step [HObserve 7, HReset, HObserve 3, HDuration 12000000, HObserve 50]
     (NewHistogram ''h'' (Some [5, 20]))) ! 2 = 1"
proof -
  let ?h = "run hist_step [HObserve 7, HReset, HObserve 3, HDuration 12000000, HObserve 50]
      (NewHistogram ''h'' (Some [5, 20]))"
  have obs: "hg_observations ?h = [3, 12, 50]"
    by (simp add: Observe_def ObserveDuration_def hist_Reset_def NewHistogram_def milliseconds_def trunc_def)
  have "[5, 20 :: rat] \<noteq> []" by simp
  note histogram_buckets_exact [OF this refl, THEN conjunct2, THEN conjunct2, THEN conjunct2, rule_format,
    of 2 "[HObserve 7, HReset, HObserve 3, HDuration 12000000, HObserve 50]" "''h''", unfolded obs]
  then show ?thesis by simp
qed

text \<open>
  Percentiles are order statistics.  For a percentile between 0 and 100 of a histogram with observations,
  \<open>Percentile\<close> returns one of them, such that fewer or as many observations are below it as that share of
  all but one, and more are not above it; it never indexes out of range.
\<close>

theorem percentile_order_statistic:
  assumes "0 \<le> p" "p \<le> 100" "hg_observations h \<noteq> []"
  shows "\<exists>x \<in> set (hg_observations h). Percentile p h = Some x \<and>
    of_nat (length (filter (\<lambda>v. v < x) (hg_observations h))) \<le> of_nat (length (hg_observations h) - 1) * p / 100 \<and>
    of_nat (length (hg_observations h) - 1) * p / 100 < of_nat (length (filter (\<lambda>v. v \<le> x) (hg_observations h)))"
proof -
  let ?obs = "hg_observations h" and ?ys = "sort (hg_observations h)"
  define q where "q = (of_nat (length ?obs - 1) :: rat) * p / 100"
  define i where "i = nat (trunc q)"
  have q: "0 \<le> q" "q \<le> of_nat (length ?obs - 1)"
    using assms(1,2) mult_left_mono [of p 100 "of_nat (length ?obs - 1) :: rat"] by (simp_all add: q_def)
  have floor: "0 \<le> trunc q" "of_int (trunc q) \<le> q" "q < of_int (trunc q) + 1"
    using q(1) floor_correct [of q] by (simp_all add: trunc_def)
  then have i: "of_nat i \<le> q" "q < of_nat i + 1" by (simp_all add: i_def)
  have "i < length ?obs"
  proof -
    have "(of_nat i :: rat) \<le> of_nat (length ?obs - 1)" using i(1) q(2) by (rule order_trans)
    then have "i \<le> length ?obs - 1" by simp
    with assms(3) show ?thesis by (cases ?obs) auto
  qed
  then have "i < length ?ys" by simp
  note bounds = sorted_below [OF sorted_sort this, unfolded length_filter_sort]
  have "Percentile p h = (if 0 \<le> trunc q \<and> nat (trunc q) < length ?ys then Some (?ys ! nat (trunc q)) else None)"
    unfolding Percentile_def Let_def q_def length_sort using assms(3) by (simp only: length_0_conv if_False)
  then have "Percentile p h = Some (?ys ! i)"
    using floor(1) \<open>i < length ?obs\<close> by (simp add: i_def)
  moreover have "?ys ! i \<in> set ?obs" using \<open>i < length ?ys\<close> by (metis nth_mem set_sort)
  moreover have "of_nat (length (filter (\<lambda>v. v < ?ys ! i) ?obs)) \<le> q"
    using bounds(1) i(1) by (meson of_nat_le_iff order_trans)
  moreover have "q < of_nat (length (filter (\<lambda>v. v \<le> ?ys ! i) ?obs))"
  proof -
    have "(of_nat i + 1 :: rat) \<le> of_nat (length (filter (\<lambda>v. v \<le> ?ys ! i) ?obs))"
      using bounds(2) by (metis Suc_leI of_nat_Suc of_nat_le_iff add.commute)
    with i(2) show ?thesis by simp
  qed
  ultimately show ?thesis unfolding q_def by blast
qed

theorem percentile_order_statistic_witness:
  "\<exists>x \<in> {30, 10, 20}. Percentile 50 (run hist_step [HObserve 30, HObserve 10, HObserve 20]
     (NewHistogram ''h'' None)) = Some x"
proof -
  let ?h = "run hist_step [HObserve 30, HObserve 10, HObserve 20] (NewHistogram ''h'' None)"
  have "hg_observations ?h = [30, 10, 20]" by (simp add: Observe_def NewHistogram_def)
  with percentile_order_statistic [of 50 ?h] show ?thesis by auto
qed

text \<open>
  Every request is accounted for.  After any requests recorded in a new registry, the counters of requests
  add up to their number, whatever their labels, the counters of errors to the number of those with
  a status of 400 or more, and the histogram of latencies has as many observations as there were requests.
\<close>

theorem requests_accounted:
  shows "\<exists>c err h. rg_counters (record_all requests NewRegistry) ''http_requests_total'' = Some c \<and>
    counter_total c = of_nat (length requests) \<and>
    rg_counters (record_all requests NewRegistry) ''errors_total'' = Some err \<and>
    counter_total err = of_nat (length (filter (\<lambda>(verb, path, status, d). 400 \<le> status) requests)) \<and>
    rg_histograms (record_all requests NewRegistry) ''http_request_duration_ms'' = Some h \<and>
    hg_count h = of_nat (length requests) \<and> sum_list (hg_bucketCounts h) = of_nat (length requests)"
proof -
  have "recorded requests (record_all requests NewRegistry)"
    using record_all_recorded [OF recorded_new, of requests] by simp
  then show ?thesis
    unfolding recorded_def using hist_inv_total by (fastforce simp: hist_inv_def)
qed

text \<open>A histogram with an empty list of boundaries puts its observations into no bucket.\<close>

theorem no_boundaries_no_buckets:
  "hg_bucketCounts (Observe v (NewHistogram name (Some []))) = [0] \<and>
   hg_count (Observe v (NewHistogram name (Some []))) = 1"
  by (simp add: Observe_def NewHistogram_def)

text \<open>Different labels may have one key: the characters between them are not escaped.\<close>

theorem label_keys_collide:
  "formatKey n [(''a'', ''1,b=2'')] = formatKey n [(''a'', ''1''), (''b'', ''2'')]"
  by (simp add: formatKey_def join_def)

text \<open>
  A path is printed into the text for Prometheus as it is: a line break in a decoded path ends the line, and what
  follows is a line of its own that the client wrote.
\<close>

theorem path_writes_lines:
  "\<exists>rest. counter_line name (formatKey ''http_requests''
     [(''method'', ''GET''), (''path'', ''/x'' @ [CHR 0x0A] @ line @ [CHR 0x0A]), (''status'', s)]) v =
   ''http_requests{method=GET,path=/x'' @ [CHR 0x0A] @ line @ [CHR 0x0A] @ rest"
  by (simp add: formatKey_def join_def counter_line_def)

end
