(* ===== verification/Configuration.thy ===== *)
theory Configuration
  imports Strconv
begin

text \<open>
  The configuration of \<open>libs/config/config.go\<close>: defaults, the file, the environment, the validation, and
  the loader that keeps the last configuration.

  The content of the file is an argument: what reading it and unmarshalling it (YAML is a package of
  a third party) into a given configuration end with.
\<close>

section \<open>The settings\<close>

record AppConfig =
  app_Name :: string
  app_Environment :: string
  app_Debug :: bool
  app_Version :: string

record DatabaseSettings =
  dbs_Host :: string
  dbs_Port :: int64
  dbs_User :: string
  dbs_Password :: string
  dbs_Database :: string
  dbs_SSLMode :: string
  dbs_MaxOpenConns :: int64
  dbs_MaxIdleConns :: int64
  dbs_ConnMaxLifetime :: duration

record RedisConfig =
  rd_Host :: string
  rd_Port :: int64
  rd_Password :: string
  rd_Database :: int64
  rd_PoolSize :: int64
  rd_ReadTimeout :: duration
  rd_WriteTimeout :: duration

record AuthSettings =
  au_JWTSecret :: string
  au_JWTExpiration :: duration
  au_RefreshExpiration :: duration
  au_BCryptCost :: int64
  au_RateLimitRequests :: int64
  au_RateLimitWindow :: duration

record ServiceEndpoint =
  se_Host :: string
  se_Port :: int64
  se_Timeout :: duration

record ServicesConfig =
  sv_APIGateway :: ServiceEndpoint
  sv_Authentication :: ServiceEndpoint
  sv_Transaction :: ServiceEndpoint
  sv_Account :: ServiceEndpoint
  sv_Notification :: ServiceEndpoint
  sv_Ledger :: ServiceEndpoint

record LoggingConfig =
  lg_Level :: string
  lg_Format :: string
  lg_Output :: string
  lg_MaxSize :: int64
  lg_MaxBackups :: int64
  lg_MaxAge :: int64

record MetricsConfig =
  mt_Enabled :: bool
  mt_Port :: int64
  mt_Path :: string

record FeaturesConfig =
  ft_EnablePayPal :: bool
  ft_EnableStripe :: bool
  ft_EnableWebhooks :: bool
  ft_EnableAuditLog :: bool

record AppSettings =
  cg_App :: AppConfig
  cg_Database :: DatabaseSettings
  cg_Redis :: RedisConfig
  cg_Auth :: AuthSettings
  cg_Services :: ServicesConfig
  cg_Logging :: LoggingConfig
  cg_Metrics :: MetricsConfig
  cg_Features :: FeaturesConfig

definition second :: duration where
  "second = 10 ^ 9"

definition DefaultSettings :: AppSettings where
  "DefaultSettings =
     \<lparr>cg_App = \<lparr>app_Name = ''amanah'', app_Environment = ''development'', app_Debug = True,
        app_Version = ''1.0.0''\<rparr>,
      cg_Database = \<lparr>dbs_Host = ''localhost'', dbs_Port = 5432, dbs_User = ''postgres'', dbs_Password = [],
        dbs_Database = ''amanah'', dbs_SSLMode = ''disable'', dbs_MaxOpenConns = 25, dbs_MaxIdleConns = 5,
        dbs_ConnMaxLifetime = 300 * second\<rparr>,
      cg_Redis = \<lparr>rd_Host = ''localhost'', rd_Port = 6379, rd_Password = [], rd_Database = 0, rd_PoolSize = 10,
        rd_ReadTimeout = 3 * second, rd_WriteTimeout = 3 * second\<rparr>,
      cg_Auth = \<lparr>au_JWTSecret = ''change-me-in-production'', au_JWTExpiration = 24 * 3600 * second,
        au_RefreshExpiration = 7 * 24 * 3600 * second, au_BCryptCost = 12, au_RateLimitRequests = 100,
        au_RateLimitWindow = 60 * second\<rparr>,
      cg_Services =
        \<lparr>sv_APIGateway = \<lparr>se_Host = ''localhost'', se_Port = 8000, se_Timeout = 30 * second\<rparr>,
         sv_Authentication = \<lparr>se_Host = ''localhost'', se_Port = 8080, se_Timeout = 30 * second\<rparr>,
         sv_Transaction = \<lparr>se_Host = ''localhost'', se_Port = 8081, se_Timeout = 30 * second\<rparr>,
         sv_Account = \<lparr>se_Host = ''localhost'', se_Port = 8082, se_Timeout = 30 * second\<rparr>,
         sv_Notification = \<lparr>se_Host = ''localhost'', se_Port = 8083, se_Timeout = 30 * second\<rparr>,
         sv_Ledger = \<lparr>se_Host = ''localhost'', se_Port = 8084, se_Timeout = 30 * second\<rparr>\<rparr>,
      cg_Logging = \<lparr>lg_Level = ''info'', lg_Format = ''json'', lg_Output = ''stdout'', lg_MaxSize = 100,
        lg_MaxBackups = 3, lg_MaxAge = 28\<rparr>,
      cg_Metrics = \<lparr>mt_Enabled = True, mt_Port = 9090, mt_Path = ''/metrics''\<rparr>,
      cg_Features = \<lparr>ft_EnablePayPal = True, ft_EnableStripe = True, ft_EnableWebhooks = True,
        ft_EnableAuditLog = True\<rparr>\<rparr>"

section \<open>Loading\<close>

datatype config_error =
  ErrInvalidConfig | FileNotExist | FileError string | JWTSecretUnchanged | SSLDisabled

text \<open>
  The file: a text, or an error of reading it; and the two decoders, which may have changed the
  configuration when they fail.
\<close>

datatype file_content = NotExist | ReadError string | FileText string

record decoders =
  de_yaml :: "string \<Rightarrow> AppSettings \<Rightarrow> string option \<times> AppSettings"
  de_json :: "string \<Rightarrow> AppSettings \<Rightarrow> string option \<times> AppSettings"

text \<open>\<open>filepath.Ext\<close>: the suffix from the last dot of the last element of the path.\<close>

definition path_Ext :: "string \<Rightarrow> string" where
  "path_Ext path =
     (let name = takeWhile (\<lambda>c. c \<noteq> CHR ''/'') (rev path)
      in if CHR ''.'' \<in> set name then CHR ''.'' # rev (takeWhile (\<lambda>c. c \<noteq> CHR ''.'') name) else [])"

definition loadFromFile ::
  "decoders \<Rightarrow> (string \<Rightarrow> file_content) \<Rightarrow> string \<Rightarrow> AppSettings \<Rightarrow> config_error option \<times> AppSettings" where
  "loadFromFile de files path cfg =
     (case files path of
        NotExist \<Rightarrow> (Some FileNotExist, cfg)
      | ReadError err \<Rightarrow> (Some (FileError err), cfg)
      | FileText text \<Rightarrow>
          let ext = map lower_byte (path_Ext path)
          in if ext = ''.yaml'' \<or> ext = ''.yml''
             then (case de_yaml de text cfg of (err, cfg') \<Rightarrow> (map_option FileError err, cfg'))
             else if ext = ''.json''
             then (case de_json de text cfg of (err, cfg') \<Rightarrow> (map_option FileError err, cfg'))
             else (Some ErrInvalidConfig, cfg))"

text \<open>\<open>os.Getenv\<close> is the empty string for a variable that is not set.\<close>

definition env_string :: "string \<Rightarrow> string \<Rightarrow> string" where
  "env_string v old = (if v \<noteq> [] then v else old)"

definition env_bool :: "string \<Rightarrow> bool \<Rightarrow> bool" where
  "env_bool v old = (if v \<noteq> [] then v = ''true'' \<or> v = ''1'' else old)"

definition env_int :: "string \<Rightarrow> int64 \<Rightarrow> int64" where
  "env_int v old = (if v \<noteq> [] then (case Atoi v of (port, None) \<Rightarrow> port | (_, Some _) \<Rightarrow> old) else old)"

definition loadFromEnv :: "(string \<Rightarrow> string) \<Rightarrow> AppSettings \<Rightarrow> AppSettings" where
  "loadFromEnv getenv cfg =
     cfg\<lparr>cg_App := (cg_App cfg)
           \<lparr>app_Environment := env_string (getenv ''APP_ENV'') (app_Environment (cg_App cfg)),
            app_Debug := env_bool (getenv ''APP_DEBUG'') (app_Debug (cg_App cfg))\<rparr>,
         cg_Database := (cg_Database cfg)
           \<lparr>dbs_Host := env_string (getenv ''DB_HOST'') (dbs_Host (cg_Database cfg)),
            dbs_Port := env_int (getenv ''DB_PORT'') (dbs_Port (cg_Database cfg)),
            dbs_User := env_string (getenv ''DB_USER'') (dbs_User (cg_Database cfg)),
            dbs_Password := env_string (getenv ''DB_PASSWORD'') (dbs_Password (cg_Database cfg)),
            dbs_Database := env_string (getenv ''DB_NAME'') (dbs_Database (cg_Database cfg)),
            dbs_SSLMode := env_string (getenv ''DB_SSLMODE'') (dbs_SSLMode (cg_Database cfg))\<rparr>,
         cg_Redis := (cg_Redis cfg)
           \<lparr>rd_Host := env_string (getenv ''REDIS_HOST'') (rd_Host (cg_Redis cfg)),
            rd_Port := env_int (getenv ''REDIS_PORT'') (rd_Port (cg_Redis cfg)),
            rd_Password := env_string (getenv ''REDIS_PASSWORD'') (rd_Password (cg_Redis cfg))\<rparr>,
         cg_Auth := (cg_Auth cfg)
           \<lparr>au_JWTSecret := env_string (getenv ''JWT_SECRET'') (au_JWTSecret (cg_Auth cfg))\<rparr>,
         cg_Features := (cg_Features cfg)
           \<lparr>ft_EnablePayPal := env_bool (getenv ''FEATURE_PAYPAL'') (ft_EnablePayPal (cg_Features cfg)),
            ft_EnableStripe := env_bool (getenv ''FEATURE_STRIPE'') (ft_EnableStripe (cg_Features cfg))\<rparr>\<rparr>"

lemma loadFromEnv_sel:
  "cg_App (loadFromEnv g cfg) = (cg_App cfg)
     \<lparr>app_Environment := env_string (g ''APP_ENV'') (app_Environment (cg_App cfg)),
      app_Debug := env_bool (g ''APP_DEBUG'') (app_Debug (cg_App cfg))\<rparr>"
  "au_JWTSecret (cg_Auth (loadFromEnv g cfg)) = env_string (g ''JWT_SECRET'') (au_JWTSecret (cg_Auth cfg))"
  "dbs_SSLMode (cg_Database (loadFromEnv g cfg)) = env_string (g ''DB_SSLMODE'') (dbs_SSLMode (cg_Database cfg))"
  "dbs_Port (cg_Database (loadFromEnv g cfg)) = env_int (g ''DB_PORT'') (dbs_Port (cg_Database cfg))"
  by (simp_all add: loadFromEnv_def)

definition validate_settings :: "AppSettings \<Rightarrow> config_error option" where
  "validate_settings cfg =
     (if app_Environment (cg_App cfg) = ''production'' then
        if au_JWTSecret (cg_Auth cfg) = ''change-me-in-production'' then Some JWTSecretUnchanged
        else if dbs_SSLMode (cg_Database cfg) = ''disable'' then Some SSLDisabled
        else None
      else None)"

definition IsDevelopment :: "AppSettings \<Rightarrow> bool" where
  "IsDevelopment c \<longleftrightarrow> app_Environment (cg_App c) = ''development''"

definition IsProduction :: "AppSettings \<Rightarrow> bool" where
  "IsProduction c \<longleftrightarrow> app_Environment (cg_App c) = ''production''"

text \<open>The loader: the configuration of the last \<open>Load\<close> that succeeded, if there was one.\<close>

record loader =
  ld_config :: "AppSettings option"
  ld_loaded :: bool

definition defaultLoader :: loader where
  "defaultLoader = \<lparr>ld_config = None, ld_loaded = False\<rparr>"

definition Load ::
  "decoders \<Rightarrow> (string \<Rightarrow> file_content) \<Rightarrow> (string \<Rightarrow> string) \<Rightarrow> string \<Rightarrow> loader \<Rightarrow>
    (config_error + AppSettings) \<times> loader" where
  "Load de files getenv configPath l =
     (let (failed, cfg) = (if configPath \<noteq> [] then loadFromFile de files configPath DefaultSettings
            else (None, DefaultSettings))
      in case (if failed = Some FileNotExist then None else failed) of
           Some err \<Rightarrow> (Inl err, l)
         | None \<Rightarrow>
             let cfg = loadFromEnv getenv cfg
             in case validate_settings cfg of
                  Some err \<Rightarrow> (Inl err, l)
                | None \<Rightarrow> (Inr cfg, \<lparr>ld_config = Some cfg, ld_loaded = True\<rparr>))"

definition get_config :: "loader \<Rightarrow> AppSettings option" where
  "get_config l = (if \<not> ld_loaded l then Some DefaultSettings else ld_config l)"

section \<open>Properties\<close>

definition secured :: "AppSettings \<Rightarrow> bool" where
  "secured cfg \<longleftrightarrow> (IsProduction cfg \<longrightarrow>
     au_JWTSecret (cg_Auth cfg) \<noteq> ''change-me-in-production'' \<and> dbs_SSLMode (cg_Database cfg) \<noteq> ''disable'')"

definition loader_ok :: "loader \<Rightarrow> bool" where
  "loader_ok l \<longleftrightarrow> (ld_loaded l \<longrightarrow> (\<exists>cfg. ld_config l = Some cfg \<and> secured cfg))"

type_synonym load_args = "decoders \<times> (string \<Rightarrow> file_content) \<times> (string \<Rightarrow> string) \<times> string"

definition load_step :: "load_args \<Rightarrow> loader \<Rightarrow> loader" where
  "load_step a l = (case a of (de, files, getenv, path) \<Rightarrow> snd (Load de files getenv path l))"

lemma validate_secured: "validate_settings cfg = None \<longleftrightarrow> secured cfg"
  by (auto simp: validate_settings_def secured_def IsProduction_def)

lemma Load_outcome:
  assumes "Load de files getenv path l = (r, l')"
  shows "(\<exists>err. r = Inl err) \<and> l' = l \<or>
    (\<exists>cfg. r = Inr cfg \<and> secured cfg \<and> l' = \<lparr>ld_config = Some cfg, ld_loaded = True\<rparr>)"
  using assms by (auto simp: Load_def Let_def validate_secured split: prod.splits option.splits)

interpretation config_loader: invariant_machine load_step "\<lambda>_ _. True" loader_ok
proof
  fix l and a :: load_args
  assume "loader_ok l"
  obtain de files getenv path where a: "a = (de, files, getenv, path)" by (cases a)
  from Load_outcome [OF surjective_pairing, of de files getenv path l] \<open>loader_ok l\<close>
  show "loader_ok (load_step a l)"
    by (auto simp: load_step_def a loader_ok_def)
qed

lemma run_ok_loads: "run_ok step (\<lambda>_ _. True) xs s"
  by (induction xs arbitrary: s) simp_all

text \<open>
  Production is never run on the defaults.  However often the configuration is loaded, from whatever files
  and environments, and whichever loads fail, the configuration that \<open>Get\<close> returns exists, and if its
  environment is production, it has neither the published JWT secret nor a database without SSL.
\<close>

theorem production_never_default:
  assumes "l = run load_step loads defaultLoader"
  shows "\<exists>cfg. get_config l = Some cfg \<and>
    (IsProduction cfg \<longrightarrow>
       au_JWTSecret (cg_Auth cfg) \<noteq> ''change-me-in-production'' \<and> dbs_SSLMode (cg_Database cfg) \<noteq> ''disable'')"
proof -
  have "loader_ok defaultLoader" by (simp add: loader_ok_def defaultLoader_def)
  from config_loader.run_inv [OF this run_ok_loads] have "loader_ok l" by (simp add: assms)
  moreover have "secured DefaultSettings"
    by (simp add: secured_def IsProduction_def DefaultSettings_def)
  ultimately show ?thesis
    by (cases "ld_loaded l") (auto simp: get_config_def loader_ok_def secured_def)
qed

definition example_decoders :: decoders where
  "example_decoders =
     \<lparr>de_yaml = (\<lambda>text cfg. (None, cfg\<lparr>cg_App := (cg_App cfg)\<lparr>app_Environment := text\<rparr>\<rparr>)),
      de_json = (\<lambda>text cfg. (Some ''syntax'', cfg))\<rparr>"

definition example_env_vars :: "string \<Rightarrow> string" where
  "example_env_vars name =
     (if name = ''JWT_SECRET'' then ''s3cret'' else if name = ''DB_SSLMODE'' then ''require''
      else if name = ''DB_PORT'' then ''54x'' else [])"

lemma example_load:
  "Load example_decoders (\<lambda>_. FileText ''production'') example_env_vars ''a.yaml'' l =
     (Inr (loadFromEnv example_env_vars (snd (de_yaml example_decoders ''production'' DefaultSettings))),
      \<lparr>ld_config = Some (loadFromEnv example_env_vars (snd (de_yaml example_decoders ''production'' DefaultSettings))),
       ld_loaded = True\<rparr>)"
proof -
  have "map lower_byte (path_Ext ''a.yaml'') = ''.yaml''" by code_simp
  moreover have "validate_settings (loadFromEnv example_env_vars (snd (de_yaml example_decoders ''production'' DefaultSettings))) = None"
    by (simp add: validate_settings_def example_decoders_def loadFromEnv_sel env_string_def example_env_vars_def)
  ultimately show ?thesis
    by (simp add: Load_def loadFromFile_def example_decoders_def Let_def)
qed

theorem production_never_default_witness:
  "\<exists>cfg. get_config (run load_step
       [(example_decoders, \<lambda>_. FileText ''production'', \<lambda>_. [], ''a.yaml''),
        (example_decoders, \<lambda>_. FileText ''production'', example_env_vars, ''a.yaml'')] defaultLoader) = Some cfg \<and>
     IsProduction cfg \<and> au_JWTSecret (cg_Auth cfg) \<noteq> ''change-me-in-production''"
proof -
  let ?loads = "[(example_decoders, \<lambda>_. FileText ''production'', \<lambda>_. [], ''a.yaml''),
        (example_decoders, \<lambda>_. FileText ''production'', example_env_vars, ''a.yaml'')]"
  let ?cfg = "loadFromEnv example_env_vars (snd (de_yaml example_decoders ''production'' DefaultSettings))"
  have "get_config (run load_step ?loads defaultLoader) = Some ?cfg"
    by (simp add: load_step_def example_load get_config_def)
  moreover have "IsProduction ?cfg"
    by (simp add: IsProduction_def loadFromEnv_sel env_string_def example_env_vars_def example_decoders_def)
  ultimately show ?thesis using production_never_default [OF refl, of ?loads] by simp
qed

text \<open>
  The environment overrides the file.  A successful \<open>Load\<close> has the value of every variable that is set,
  whatever the file says; a port that is not a number is not an error, it leaves the port as it was.
\<close>

theorem environment_overrides_file:
  assumes "Load de files getenv path l = (Inr cfg, l')"
  shows "get_config l' = Some cfg \<and>
    (getenv ''JWT_SECRET'' \<noteq> [] \<longrightarrow> au_JWTSecret (cg_Auth cfg) = getenv ''JWT_SECRET'') \<and>
    (getenv ''APP_ENV'' \<noteq> [] \<longrightarrow> app_Environment (cg_App cfg) = getenv ''APP_ENV'') \<and>
    (getenv ''DB_SSLMODE'' \<noteq> [] \<longrightarrow> dbs_SSLMode (cg_Database cfg) = getenv ''DB_SSLMODE'') \<and>
    (\<forall>port. getenv ''DB_PORT'' \<noteq> [] \<and> Atoi (getenv ''DB_PORT'') = (port, None) \<longrightarrow>
       dbs_Port (cg_Database cfg) = port) \<and>
    (Atoi (getenv ''DB_PORT'') = (0, Some ErrSyntax) \<and> path = [] \<longrightarrow> dbs_Port (cg_Database cfg) = 5432)"
proof -
  from assms obtain old where "cfg = loadFromEnv getenv old" "path = [] \<longrightarrow> old = DefaultSettings"
    "l' = \<lparr>ld_config = Some cfg, ld_loaded = True\<rparr>"
    by (auto simp: Load_def Let_def split: prod.splits option.splits if_splits)
  moreover have "dbs_Port (cg_Database DefaultSettings) = 5432" by (simp add: DefaultSettings_def)
  ultimately show ?thesis
    by (simp add: loadFromEnv_sel env_string_def env_int_def get_config_def)
qed

theorem environment_overrides_file_witness:
  "\<exists>cfg l'. Load example_decoders (\<lambda>_. FileText ''production'') example_env_vars ''a.yaml'' defaultLoader = (Inr cfg, l') \<and>
     au_JWTSecret (cg_Auth cfg) = ''s3cret''"
proof -
  from environment_overrides_file [OF example_load] show ?thesis
    by (auto simp: example_load example_env_vars_def)
qed

text \<open>
  The validation compares two values only.  A production configuration with an empty JWT secret, and one
  whose environment is written in another way, are accepted.
\<close>

theorem weak_production_accepted:
  "validate_settings (DefaultSettings\<lparr>cg_App := (cg_App DefaultSettings)\<lparr>app_Environment := ''production''\<rparr>,
     cg_Auth := (cg_Auth DefaultSettings)\<lparr>au_JWTSecret := []\<rparr>,
     cg_Database := (cg_Database DefaultSettings)\<lparr>dbs_SSLMode := []\<rparr>\<rparr>) = None"
  "validate_settings (DefaultSettings\<lparr>cg_App := (cg_App DefaultSettings)\<lparr>app_Environment := ''Production''\<rparr>\<rparr>) = None"
  by (simp_all add: validate_settings_def DefaultSettings_def)

end
