(* ===== verification/Json.thy ===== *)
theory Json
  imports Go_Prelude
begin

text \<open>
  What \<open>json.Marshal\<close> writes: JSON values, the escapes of strings, and the text of a value as a list of
  tokens.

  Strings are bytes, taken to be valid UTF-8 without the line separators U+2028 and U+2029, which Go escapes.
\<close>

section \<open>Values and their text\<close>

datatype json =
    JNull
  | JBool bool
  | JNumber string
  | JString string
  | JArray "json list"
  | JObject "(string \<times> json) list"

definition json_hex :: "nat \<Rightarrow> char" where
  "json_hex n = (if n < 10 then char_of (48 + n) else char_of (87 + n))"

text \<open>The HTML characters are escaped too.\<close>

definition json_char :: "char \<Rightarrow> string" where
  "json_char c =
     (if c = CHR 0x22 then [CHR 0x5C, CHR 0x22]
      else if c = CHR 0x5C then [CHR 0x5C, CHR 0x5C]
      else if c = CHR 0x08 then [CHR 0x5C, CHR ''b'']
      else if c = CHR 0x0C then [CHR 0x5C, CHR ''f'']
      else if c = CHR 0x0A then [CHR 0x5C, CHR ''n'']
      else if c = CHR 0x0D then [CHR 0x5C, CHR ''r'']
      else if c = CHR 0x09 then [CHR 0x5C, CHR ''t'']
      else if (of_char c :: nat) < 32 \<or> c \<in> {CHR ''<'', CHR ''>'', CHR ''&''}
      then [CHR 0x5C, CHR ''u'', CHR ''0'', CHR ''0'', json_hex (of_char c div 16), json_hex (of_char c mod 16)]
      else [c])"

definition json_escape :: "string \<Rightarrow> string" where
  "json_escape s = concat (map json_char s)"

datatype token = Punct char | Literal string | Quoted string

fun token_text :: "token \<Rightarrow> string" where
  "token_text (Punct c) = [c]"
| "token_text (Literal s) = s"
| "token_text (Quoted s) = CHR 0x22 # json_escape s @ [CHR 0x22]"

fun separated :: "token list list \<Rightarrow> token list" where
  "separated [] = []"
| "separated [ts] = ts"
| "separated (ts # us # rest) = ts @ Punct CHR '','' # separated (us # rest)"

primrec json_tokens :: "json \<Rightarrow> token list" where
  "json_tokens JNull = [Literal ''null'']"
| "json_tokens (JBool b) = [Literal (if b then ''true'' else ''false'')]"
| "json_tokens (JNumber n) = [Literal n]"
| "json_tokens (JString s) = [Quoted s]"
| "json_tokens (JArray js) = Punct CHR ''['' # separated (map json_tokens js) @ [Punct CHR '']'']"
| "json_tokens (JObject fs) =
     Punct CHR ''{'' #
     separated (map (\<lambda>(k, ts). Quoted k # Punct CHR '':'' # ts) (map (map_prod id json_tokens) fs)) @
     [Punct CHR ''}'']"

definition tokens_text :: "token list \<Rightarrow> string" where
  "tokens_text ts = concat (map token_text ts)"

definition json_text :: "json \<Rightarrow> string" where
  "json_text j = tokens_text (json_tokens j)"

text \<open>The numbers are written without quotes.\<close>

primrec json_numbers_ok :: "json \<Rightarrow> bool" where
  "json_numbers_ok JNull = True"
| "json_numbers_ok (JBool b) = True"
| "json_numbers_ok (JNumber n) = (CHR 0x22 \<notin> set n)"
| "json_numbers_ok (JString s) = True"
| "json_numbers_ok (JArray js) = list_all (\<lambda>b. b) (map json_numbers_ok js)"
| "json_numbers_ok (JObject fs) =
     list_all snd (map (map_prod id json_numbers_ok) fs)"

section \<open>Lemmas\<close>

lemma json_induct [case_names JNull JBool JNumber JString JArray JObject]:
  assumes "P JNull" "\<And>b. P (JBool b)" "\<And>n. P (JNumber n)" "\<And>s. P (JString s)"
    "\<And>js. (\<And>j. j \<in> set js \<Longrightarrow> P j) \<Longrightarrow> P (JArray js)"
    "\<And>fs. (\<And>k j. (k, j) \<in> set fs \<Longrightarrow> P j) \<Longrightarrow> P (JObject fs)"
  shows "P j"
  using assms by (induction j) fastforce+

text \<open>A list of parts with a sign before each, the first sign being another.\<close>

fun led :: "char \<Rightarrow> token list list \<Rightarrow> token list" where
  "led c [] = []"
| "led c (ts # rest) = Punct c # ts @ led CHR '','' rest"

lemma led_separated: "rest \<noteq> [] \<Longrightarrow> Punct c # separated rest = led c rest"
proof (induction rest arbitrary: c rule: separated.induct)
  case (3 ts us rest)
  from 3(1) [of "CHR '',''"] show ?case by simp
qed simp_all

lemma char_less_256: "(of_char c :: nat) < 256"
  by (metis char_of_char mod_less_divisor of_char_of zero_less_numeral)

lemma quote_json_char: "CHR 0x22 \<in> set (json_char c) \<longleftrightarrow> c = CHR 0x22"
proof -
  have "list_all (\<lambda>n. CHR 0x22 \<noteq> json_hex n) [0..<16]" by code_simp
  then have "CHR 0x22 \<noteq> json_hex n" if "n < 16" for n using that by (simp add: list_all_iff)
  moreover have "(of_char c :: nat) div 16 < 16" "(of_char c :: nat) mod 16 < 16"
    using char_less_256 [of c] by (simp_all add: div_less_iff_less_mult)
  ultimately show ?thesis by (auto simp: json_char_def)
qed

lemma json_char_nonempty [simp]: "json_char c \<noteq> []"
  by (simp add: json_char_def)

lemma json_escape_Cons: "json_escape (c # s) = json_char c @ json_escape s"
  by (simp add: json_escape_def)

lemma json_escape_quote: "CHR 0x22 \<in> set (json_escape s) \<longleftrightarrow> CHR 0x22 \<in> set s"
  by (induction s) (auto simp: json_escape_def quote_json_char)

end
