(* ===== verification/Masking.thy ===== *)
theory Masking
  imports Json Regex
begin

text \<open>
  The masking of log lines: \<open>maskSensitiveData\<close> of \<open>libs/logging/logging.go\<close> with the patterns of
  \<open>DefaultLoggerConfig\<close>, and what it does to the text of a JSON object.

  A pattern is found where it matches first; there the model takes the longest match.  That is the
  match of Go for patterns with at most one match at a place, such as the default ones.
\<close>

section \<open>Replacing the matches of a pattern\<close>

fun longest_match :: "regex \<Rightarrow> string \<Rightarrow> nat option" where
  "longest_match r [] = (if nullable r then Some 0 else None)"
| "longest_match r (c # s) =
     (case longest_match (deriv c r) s of
        Some n \<Rightarrow> Some (Suc n)
      | None \<Rightarrow> if nullable r then Some 0 else None)"

text \<open>
  \<open>Regexp.ReplaceAllStringFunc\<close>; \<open>after\<close> says that a match ends where the search is, next to which
  an empty match is not replaced.
\<close>

function ReplaceAllStringFunc :: "regex \<Rightarrow> (string \<Rightarrow> string) \<Rightarrow> bool \<Rightarrow> string \<Rightarrow> string" where
  "ReplaceAllStringFunc r f after s =
     (case longest_match r s of
        Some (Suc n) \<Rightarrow>
          f (take (Suc n) s) @ (if s = [] then [] else ReplaceAllStringFunc r f True (drop (Suc n) s))
      | Some 0 \<Rightarrow>
          (if after then [] else f []) @
          (case s of [] \<Rightarrow> [] | c # t \<Rightarrow> c # ReplaceAllStringFunc r f False t)
      | None \<Rightarrow> (case s of [] \<Rightarrow> [] | c # t \<Rightarrow> c # ReplaceAllStringFunc r f False t))"
  by pat_completeness auto

termination by (relation "measure (\<lambda>(_, _, _, s). length s)") auto

declare ReplaceAllStringFunc.simps [simp del]

definition redact_match :: "string \<Rightarrow> string" where
  "redact_match m =
     (case split_first CHR '':'' m of
        (key, Some _) \<Rightarrow> key @ '': \"***REDACTED***\"''
      | (_, None) \<Rightarrow> ''***REDACTED***'')"

definition maskSensitiveData :: "regex list \<Rightarrow> string \<Rightarrow> string" where
  "maskSensitiveData patterns s = foldl (\<lambda>s pattern. ReplaceAllStringFunc pattern redact_match False s) s patterns"

text \<open>The default patterns: a key, a colon, and a text in quotes, with white space around the colon.\<close>

definition field_pattern :: "string \<Rightarrow> regex" where
  "field_pattern key =
     Seq (seq_all (map chr (CHR 0x22 # key @ [CHR 0x22])))
       (Seq (Star space_char) (Seq (chr CHR '':'') (Seq (Star space_char)
         (Seq (chr CHR 0x22) (Seq (Star (Cls (\<lambda>c. c \<noteq> CHR 0x22))) (chr CHR 0x22))))))"

definition secret_keys :: "string list" where
  "secret_keys = [''password'', ''secret'', ''token'', ''api_key'', ''credit_card'', ''ssn'']"

definition default_mask_patterns :: "regex list" where
  "default_mask_patterns = map field_pattern secret_keys"

section \<open>The language of a field pattern\<close>

lemma longest_match_Some:
  "longest_match r s = Some n \<Longrightarrow> n \<le> length s \<and> take n s \<in> lang r"
proof (induction r s arbitrary: n rule: longest_match.induct)
  case (1 r)
  then show ?case by (auto simp: nullable_iff split: if_splits)
next
  case (2 r c s)
  then show ?case by (auto simp: nullable_iff deriv_iff split: option.splits if_splits)
qed

lemma longest_match_None: "longest_match r s = None \<Longrightarrow> s = u @ v \<Longrightarrow> u \<notin> lang r"
proof (induction r s arbitrary: u rule: longest_match.induct)
  case (1 r)
  then show ?case by (auto simp: nullable_iff split: if_splits)
next
  case (2 r c s)
  then show ?case
    by (auto simp: nullable_iff deriv_iff Cons_eq_append_conv split: option.splits if_splits)
qed

text \<open>Where at most one front part is in the language, that is the match.\<close>

lemma longest_match_unique:
  assumes "s = u @ v" "u \<in> lang r" "\<And>u' v'. s = u' @ v' \<Longrightarrow> u' \<in> lang r \<Longrightarrow> u' = u"
  shows "longest_match r s = Some (length u)"
proof (cases "longest_match r s")
  case None
  from longest_match_None [OF this assms(1)] assms(2) show ?thesis by simp
next
  case (Some n)
  from longest_match_Some [OF this] have "n \<le> length s" "take n s \<in> lang r" by simp_all
  with assms(3) [of "take n s" "drop n s"] have "take n s = u" by simp
  with \<open>n \<le> length s\<close> Some show ?thesis by auto
qed

declare longest_match.simps [simp del]

lemma lang_star_Cls: "s \<in> lang (Star (Cls P)) \<longleftrightarrow> list_all P s"
proof (induction s)
  case Nil
  have "[] = concat []" "set [] \<subseteq> lang (Cls P)" by simp_all
  then show ?case by (auto intro!: exI [of _ "[]"])
next
  case (Cons c s)
  show ?case unfolding star_Cons_iff by (auto simp: Cons.IH simp del: lang.simps(6))
qed

lemma lang_Seq: "w \<in> lang (Seq r s) \<longleftrightarrow> (\<exists>u v. w = u @ v \<and> u \<in> lang r \<and> v \<in> lang s)"
  by auto

lemma lang_SeqI: "u \<in> lang r \<Longrightarrow> v \<in> lang s \<Longrightarrow> u @ v \<in> lang (Seq r s)"
  by auto

lemma lang_Seq_chr: "w \<in> lang (Seq (chr c) s) \<longleftrightarrow> (\<exists>v. w = c # v \<and> v \<in> lang s)"
  by (auto simp: lang_chr)

lemma lang_word: "lang (seq_all (map chr w)) = {w}"
  by (induction w) (simp_all add: seq_all_def lang_chr)

definition white :: "string \<Rightarrow> bool" where
  "white s = list_all (\<lambda>c. c \<in> {CHR 0x09, CHR 0x0A, CHR 0x0C, CHR 0x0D, CHR 0x20}) s"

definition colonish :: "string \<Rightarrow> bool" where
  "colonish b \<longleftrightarrow> (case split_first CHR '':'' b of (u, Some v) \<Rightarrow> white u \<and> white v | (_, None) \<Rightarrow> False)"

lemma colon_not_white: "white u \<Longrightarrow> CHR '':'' \<notin> set u"
  by (induction u) (auto simp: white_def)

lemma split_first_parts: "split_first c s = (u, Some v) \<Longrightarrow> s = u @ c # v"
proof (induction s arbitrary: u)
  case (Cons x xs)
  then show ?case by (cases "split_first c xs") (auto split: if_splits)
qed simp

lemma colonish_iff: "colonish b \<longleftrightarrow> (\<exists>u v. b = u @ CHR '':'' # v \<and> white u \<and> white v)"
proof
  assume "colonish b"
  then show "\<exists>u v. b = u @ CHR '':'' # v \<and> white u \<and> white v"
    by (auto simp: colonish_def split: prod.splits option.splits dest!: split_first_parts)
next
  assume "\<exists>u v. b = u @ CHR '':'' # v \<and> white u \<and> white v"
  then obtain u v where "b = u @ CHR '':'' # v" "white u" "white v" by blast
  then show "colonish b" by (simp add: colonish_def split_first_some colon_not_white)
qed

lemma lang_field_pattern:
  "w \<in> lang (field_pattern key) \<longleftrightarrow>
    (\<exists>b c. w = CHR 0x22 # key @ CHR 0x22 # b @ CHR 0x22 # c @ [CHR 0x22] \<and> colonish b \<and> CHR 0x22 \<notin> set c)"
proof -
  have white: "u \<in> lang (Star space_char) \<longleftrightarrow> white u" for u
    unfolding space_char_def lang_star_Cls white_def ..
  have quoteless: "list_all (\<lambda>c. c \<noteq> CHR 0x22) c \<longleftrightarrow> CHR 0x22 \<notin> set c" for c :: string
    by (auto simp: list_all_iff)
  have "w \<in> lang (field_pattern key) \<longleftrightarrow>
    (\<exists>u v c. w = CHR 0x22 # key @ CHR 0x22 # u @ CHR '':'' # v @ CHR 0x22 # c @ [CHR 0x22] \<and>
       white u \<and> white v \<and> CHR 0x22 \<notin> set c)" (is "?L \<longleftrightarrow> ?R")
  proof
    assume ?L
    then show ?R
      unfolding field_pattern_def lang_Seq lang_Seq_chr lang_word lang_chr white lang_star_Cls quoteless by auto
  next
    assume ?R
    then obtain u v c where w: "w = CHR 0x22 # key @ CHR 0x22 # u @ CHR '':'' # v @ CHR 0x22 # c @ [CHR 0x22]"
      and parts: "white u" "white v" "CHR 0x22 \<notin> set c" by blast
    have "(CHR 0x22 # key @ [CHR 0x22]) @ u @ [CHR '':''] @ v @ [CHR 0x22] @ c @ [CHR 0x22] \<in> lang (field_pattern key)"
      unfolding field_pattern_def
      by (intro lang_SeqI; unfold lang_word lang_chr white lang_star_Cls quoteless) (simp_all add: parts)
    then show ?L by (simp add: w)
  qed
  also have "\<dots> \<longleftrightarrow>
    (\<exists>b c. w = CHR 0x22 # key @ CHR 0x22 # b @ CHR 0x22 # c @ [CHR 0x22] \<and> colonish b \<and> CHR 0x22 \<notin> set c)"
    unfolding colonish_iff by (metis append.assoc append_Cons)
  finally show ?thesis .
qed

section \<open>A text by its quotes\<close>

text \<open>
  A text is what is before the first quote, and the pieces that follow a quote each.  A piece is of the
  structure of a JSON text or of the content of a string.
\<close>

definition tails :: "string list \<Rightarrow> string" where
  "tails ps = concat (map (\<lambda>p. CHR 0x22 # p) ps)"

lemma tails_simps [simp]: "tails [] = []" "tails (p # ps) = CHR 0x22 # p @ tails ps"
  by (simp_all add: tails_def)

definition quoteless :: "string \<Rightarrow> bool" where
  "quoteless p \<longleftrightarrow> CHR 0x22 \<notin> set p"

lemma quoteless_simps [simp]:
  "quoteless []" "quoteless (c # s) \<longleftrightarrow> c \<noteq> CHR 0x22 \<and> quoteless s"
  "quoteless (s @ t) \<longleftrightarrow> quoteless s \<and> quoteless t"
  by (auto simp: quoteless_def)

lemma quoteless_white: "white u \<Longrightarrow> quoteless u"
  by (induction u) (auto simp: white_def)

lemma quoteless_colonish: "colonish b \<Longrightarrow> quoteless b"
  by (auto simp: colonish_iff quoteless_white)

lemma split_quote: "quoteless p \<Longrightarrow> split_char CHR 0x22 (p @ CHR 0x22 # s) = p # split_char CHR 0x22 s"
  unfolding quoteless_def by (rule split_char_append)

lemma split_tails: "quoteless p \<Longrightarrow> list_all quoteless ps \<Longrightarrow> split_char CHR 0x22 (p @ tails ps) = p # ps"
  by (induction ps arbitrary: p) (simp_all add: quoteless_def split_char_append split_char_none)

lemma split_tails_conv: "split_char CHR 0x22 s = p # ps \<Longrightarrow> s = p @ tails ps"
  unfolding tails_def by (drule split_char_parts) blast

text \<open>Where a field pattern matches at a quote.\<close>

lemma field_match:
  assumes "list_all quoteless ps" "quoteless key" "tails ps = u @ v" "u \<in> lang (field_pattern key)"
  shows "\<exists>b c d rest. ps = key # b # c # d # rest \<and> colonish b \<and>
    u = CHR 0x22 # key @ CHR 0x22 # b @ CHR 0x22 # c @ [CHR 0x22] \<and> v = d @ tails rest"
proof -
  from assms(4) obtain b c where u: "u = CHR 0x22 # key @ CHR 0x22 # b @ CHR 0x22 # c @ [CHR 0x22]"
    "colonish b" "quoteless c" by (auto simp: lang_field_pattern quoteless_def)
  obtain d rest where v: "split_char CHR 0x22 v = d # rest" by (metis split_char_nonempty neq_Nil_conv)
  have "[] # ps = split_char CHR 0x22 ([] @ tails ps)"
    using assms(1) by (simp only: split_tails quoteless_simps)
  also have "\<dots> = [] # key # b # c # d # rest"
    using assms(2,3) u(2,3) by (simp add: u(1) v quoteless_colonish split_quote)
  finally show ?thesis using u split_tails_conv [OF v] by blast
qed

lemma replace_not_empty:
  assumes "[] \<notin> lang r"
  shows "ReplaceAllStringFunc r f a s = ReplaceAllStringFunc r f b s"
proof -
  have "longest_match r s \<noteq> Some 0" using longest_match_Some [of r s 0] assms by auto
  then show ?thesis
    by (subst (1 2) ReplaceAllStringFunc.simps) (auto split: option.split nat.split)
qed

lemma field_not_empty: "[] \<notin> lang (field_pattern key)"
  by (simp add: lang_field_pattern)

lemmas replace_flag = replace_not_empty [OF field_not_empty]

lemma replace_plain:
  "quoteless p \<Longrightarrow> ReplaceAllStringFunc (field_pattern key) f a (p @ s) =
    p @ ReplaceAllStringFunc (field_pattern key) f False s"
proof (induction p arbitrary: a)
  case Nil
  show ?case by (simp add: replace_flag [of _ _ a _ False])
next
  case (Cons c p)
  have "longest_match (field_pattern key) (c # p @ s) = None"
  proof (rule ccontr)
    assume "longest_match (field_pattern key) (c # p @ s) \<noteq> None"
    then obtain n where "longest_match (field_pattern key) (c # p @ s) = Some n" by blast
    from longest_match_Some [OF this] Cons.prems show False
      by (auto simp: lang_field_pattern take_Cons' split: if_splits)
  qed
  with Cons show ?case by (subst ReplaceAllStringFunc.simps) simp
qed

section \<open>Masking the pieces\<close>

datatype piece = St (chars: string) | Co (chars: string)

primrec over :: "piece \<Rightarrow> string \<Rightarrow> piece" where
  "over (St _) s = St s"
| "over (Co _) s = Co s"

definition redacted_colon :: "string \<Rightarrow> string" where
  "redacted_colon b = fst (split_first CHR '':'' b) @ '': ''"

fun mask_pieces :: "string \<Rightarrow> piece list \<Rightarrow> piece list" where
  "mask_pieces key (a # b # c # d # rest) =
     (if chars a = key \<and> colonish (chars b)
      then a # over b (redacted_colon (chars b)) # over c ''***REDACTED***'' # d # mask_pieces key rest
      else a # mask_pieces key (b # c # d # rest))"
| "mask_pieces key ps = ps"

lemma chars_over [simp]: "chars (over p s) = s"
  by (cases p) simp_all

lemma redact_field:
  assumes "colonish b" "CHR '':'' \<notin> set key"
  shows "redact_match (CHR 0x22 # key @ CHR 0x22 # b @ CHR 0x22 # c @ [CHR 0x22]) =
    CHR 0x22 # key @ CHR 0x22 # redacted_colon b @ CHR 0x22 # ''***REDACTED***'' @ [CHR 0x22]"
proof -
  from assms(1) obtain u v where b: "b = u @ CHR '':'' # v" "white u" by (auto simp: colonish_iff)
  let ?front = "CHR 0x22 # key @ CHR 0x22 # u" and ?rest = "v @ CHR 0x22 # c @ [CHR 0x22]"
  have "split_first CHR '':'' (?front @ CHR '':'' # ?rest) = (?front, Some ?rest)"
    using assms(2) colon_not_white [OF b(2)] by (intro split_first_some) simp
  then have "split_first CHR '':'' (CHR 0x22 # key @ CHR 0x22 # b @ CHR 0x22 # c @ [CHR 0x22]) = (?front, Some ?rest)"
    by (simp add: b(1))
  moreover have "split_first CHR '':'' b = (u, Some v)"
    unfolding b(1) by (rule split_first_some [OF colon_not_white [OF b(2)]])
  ultimately show ?thesis by (simp add: redact_match_def redacted_colon_def)
qed

lemma replace_match:
  assumes "longest_match r (u @ v) = Some (length u)" "u \<noteq> []"
  shows "ReplaceAllStringFunc r f a (u @ v) = f u @ ReplaceAllStringFunc r f True v"
proof -
  obtain n where n: "length u = Suc n" using assms(2) by (cases u) simp_all
  then have "take (Suc n) (u @ v) = u" "drop (Suc n) (u @ v) = v" by (simp_all flip: n)
  with assms n show ?thesis by (subst ReplaceAllStringFunc.simps) (simp del: take_Suc_Cons drop_Suc_Cons)
qed

lemma replace_Cons:
  assumes "longest_match (field_pattern key) (CHR 0x22 # s) = None"
  shows "ReplaceAllStringFunc (field_pattern key) f a (CHR 0x22 # s) =
    CHR 0x22 # ReplaceAllStringFunc (field_pattern key) f False s"
  using assms by (subst ReplaceAllStringFunc.simps) simp

lemma replace_empty: "ReplaceAllStringFunc (field_pattern key) f a [] = []"
proof -
  have "longest_match (field_pattern key) [] = None"
  proof (rule ccontr)
    assume "longest_match (field_pattern key) [] \<noteq> None"
    then obtain n where "longest_match (field_pattern key) [] = Some n" by blast
    from longest_match_Some [OF this] field_not_empty [of key] show False by simp
  qed
  then show ?thesis by (subst ReplaceAllStringFunc.simps) simp
qed

text \<open>The replacement works on the pieces.\<close>

lemma no_match:
  assumes "list_all quoteless ps" "quoteless key"
    "\<And>b c d rest. ps = key # b # c # d # rest \<Longrightarrow> \<not> colonish b"
  shows "longest_match (field_pattern key) (tails ps) = None"
proof (rule ccontr)
  assume "longest_match (field_pattern key) (tails ps) \<noteq> None"
  then obtain n where "longest_match (field_pattern key) (tails ps) = Some n" by blast
  from longest_match_Some [OF this] have "take n (tails ps) \<in> lang (field_pattern key)" ..
  from field_match [OF assms(1,2) append_take_drop_id [symmetric] this] assms(3) show False by blast
qed

lemma replace_short:
  assumes "quoteless key" "list_all quoteless ps" "length ps < 4"
  shows "ReplaceAllStringFunc (field_pattern key) f a (tails ps) = tails ps"
  using assms(2,3)
proof (induction ps arbitrary: a)
  case Nil
  show ?case by (simp add: replace_empty)
next
  case (Cons p ps)
  then have "longest_match (field_pattern key) (tails (p # ps)) = None"
    using assms(1) by (intro no_match) auto
  with Cons show ?case by (simp add: replace_Cons replace_plain)
qed

lemma replace_pieces:
  assumes "quoteless key" "CHR '':'' \<notin> set key" "list_all (\<lambda>p. quoteless (chars p)) ps"
  shows "ReplaceAllStringFunc (field_pattern key) redact_match a (tails (map chars ps)) =
    tails (map chars (mask_pieces key ps))"
  using assms
proof (induction key ps arbitrary: a rule: mask_pieces.induct)
  case (1 key a0 b c d rest)
  let ?R = "ReplaceAllStringFunc (field_pattern key) redact_match"
  let ?ps = "a0 # b # c # d # rest"
  have parts: "list_all quoteless (map chars ?ps)" using 1(5) by (simp add: list_all_iff)
  show ?case
  proof (cases "chars a0 = key \<and> colonish (chars b)")
    case True
    let ?u = "CHR 0x22 # key @ CHR 0x22 # chars b @ CHR 0x22 # chars c @ [CHR 0x22]"
    have split: "tails (map chars ?ps) = ?u @ chars d @ tails (map chars rest)" using True by simp
    moreover have "?u \<in> lang (field_pattern key)"
      using True 1(5) by (auto simp: lang_field_pattern quoteless_def)
    ultimately have "longest_match (field_pattern key) (tails (map chars ?ps)) = Some (length ?u)"
    proof (rule longest_match_unique)
      fix u' v' assume u': "tails (map chars ?ps) = u' @ v'" "u' \<in> lang (field_pattern key)"
      from field_match [OF parts 1(3) this] show "u' = ?u" by auto
    qed
    then have "?R a (tails (map chars ?ps)) = redact_match ?u @ ?R True (chars d @ tails (map chars rest))"
      unfolding split by (intro replace_match) simp_all
    also have "?R True (chars d @ tails (map chars rest)) = chars d @ tails (map chars (mask_pieces key rest))"
      using 1 True by (simp add: replace_plain)
    finally show ?thesis using True 1(4) by (simp add: redact_field)
  next
    case False
    then have "longest_match (field_pattern key) (tails (map chars ?ps)) = None"
      by (intro no_match [OF parts 1(3)]) auto
    then have "?R a (tails (map chars ?ps)) = CHR 0x22 # ?R False (chars a0 @ tails (map chars (b # c # d # rest)))"
      by (simp add: replace_Cons)
    also have "\<dots> = CHR 0x22 # chars a0 @ tails (map chars (mask_pieces key (b # c # d # rest)))"
      using 1 False by (simp add: replace_plain)
    also have "\<dots> = tails (map chars (mask_pieces key ?ps))"
      by (simp only: mask_pieces.simps(1) False if_False tails_simps list.map)
    finally show ?thesis .
  qed
qed (simp only: mask_pieces.simps, rule replace_short, assumption, simp, simp)+

section \<open>Pieces of a JSON text\<close>

fun glue :: "string \<Rightarrow> piece list \<Rightarrow> piece list" where
  "glue s (St t # ps) = St (s @ t) # ps"
| "glue s ps = ps"

fun pieces :: "token list \<Rightarrow> piece list" where
  "pieces [] = [St []]"
| "pieces (Punct c # ts) = glue [c] (pieces ts)"
| "pieces (Literal s # ts) = glue s (pieces ts)"
| "pieces (Quoted s # ts) = St [] # map Co (split_char CHR 0x22 (json_escape s)) @ pieces ts"

text \<open>They start with a piece of the structure.\<close>

lemma pieces_St: "\<exists>s ps. pieces ts = St s # ps"
proof (induction ts rule: pieces.induct)
  case (2 c ts)
  then show ?case by auto
next
  case (3 s ts)
  then show ?case by auto
qed simp_all

definition pieces_text :: "piece list \<Rightarrow> string" where
  "pieces_text ps = chars (hd ps) @ tails (map chars (tl ps))"

lemma pieces_text_glue: "pieces_text (glue s (pieces ts)) = s @ pieces_text (pieces ts)"
  using pieces_St [of ts] by (auto simp: pieces_text_def)

lemma tails_append: "tails (ps @ qs) = tails ps @ tails qs"
  by (simp add: tails_def)

lemma tails_pieces: "tails (map chars (pieces ts)) = CHR 0x22 # pieces_text (pieces ts)"
  using pieces_St [of ts] by (auto simp: pieces_text_def)

lemma tokens_pieces: "tokens_text ts = pieces_text (pieces ts)"
proof (induction ts rule: pieces.induct)
  case (4 s ts)
  obtain p ps where split: "split_char CHR 0x22 (json_escape s) = p # ps"
    by (metis split_char_nonempty neq_Nil_conv)
  then have "json_escape s = p @ tails ps" by (rule split_tails_conv)
  with 4 split show ?case
    by (simp add: tokens_text_def pieces_text_def comp_def tails_append tails_pieces [unfolded pieces_text_def])
next
  case 1
  show ?case by (simp add: tokens_text_def pieces_text_def)
qed (simp_all add: tokens_text_def pieces_text_glue)

section \<open>Pieces that differ in secrets\<close>

text \<open>
  Two texts are alike up to the values of the keys \<open>K\<close>: strings without a quote in them, between a key of
  \<open>K\<close> with its colon and the structure that ends the value.
\<close>

definition separating :: "string \<Rightarrow> bool" where
  "separating s \<longleftrightarrow> set s \<inter> {CHR ''{'', CHR ''}'', CHR '',''} \<noteq> {}"

inductive alike :: "string set \<Rightarrow> piece list \<Rightarrow> piece list \<Rightarrow> bool" for K where
  alike_Nil: "alike K [] []"
| alike_Cons: "alike K ps qs \<Longrightarrow> alike K (p # ps) (p # qs)"
| alike_secret: "alike K (St t # ps) (St t # qs) \<Longrightarrow> k \<in> K \<Longrightarrow> separating s \<Longrightarrow> separating t \<Longrightarrow>
    alike K (St s # Co k # St '':'' # Co v # St t # ps) (St s # Co k # St '':'' # Co w # St t # qs)"

inductive_cases alike_CoE: "alike K (Co a # ps) qs"

definition starts_St :: "piece list \<Rightarrow> bool" where
  "starts_St ps = (case ps of St _ # _ \<Rightarrow> True | _ \<Rightarrow> False)"

fun well :: "string set \<Rightarrow> piece list \<Rightarrow> bool" where
  "well U [] = True"
| "well U (Co a # ps) \<longleftrightarrow> well U ps \<and> (a \<in> U \<longrightarrow> starts_St ps)"
| "well U (St a # ps) \<longleftrightarrow> well U ps \<and> a \<notin> U \<and> \<not> starts_St ps"

lemma starts_St_simps [simp]: "\<not> starts_St []" "starts_St (St a # ps)" "\<not> starts_St (Co a # ps)"
  by (simp_all add: starts_St_def)

lemma well_tl: "well U (p # ps) \<Longrightarrow> well U ps"
  by (cases p) simp_all

lemma separating_not_colonish: "separating s \<Longrightarrow> \<not> colonish s"
proof
  assume "separating s" "colonish s"
  from this(2) obtain u v where s: "s = u @ CHR '':'' # v" "white u" "white v" by (auto simp: colonish_iff)
  have "set w \<inter> {CHR ''{'', CHR ''}'', CHR '',''} = {}" if "white w" for w
    using that by (induction w) (auto simp: white_def)
  with s have "set s \<inter> {CHR ''{'', CHR ''}'', CHR '',''} = {}" by auto
  with \<open>separating s\<close> show False by (simp add: separating_def)
qed

lemma alike_sym: "alike K ps qs \<Longrightarrow> alike K qs ps"
  by (induction rule: alike.induct) (auto intro: alike.intros)

lemma alike_refl: "alike K ps ps"
  by (induction ps) (auto intro: alike.intros)

lemma alike_empty: "alike {} ps qs \<Longrightarrow> ps = qs"
  by (induction rule: alike.induct) auto

text \<open>Where the key is masked.\<close>

definition masks :: "string \<Rightarrow> piece list \<Rightarrow> bool" where
  "masks key ps \<longleftrightarrow> (\<exists>a b c d rest. ps = a # b # c # d # rest \<and> chars a = key \<and> colonish (chars b))"

lemma mask_skip: "\<not> masks key (p # ps) \<Longrightarrow> mask_pieces key (p # ps) = p # mask_pieces key ps"
  by (cases "(key, p # ps)" rule: mask_pieces.cases) (auto simp: masks_def)

lemma mask_St: "a \<noteq> key \<Longrightarrow> mask_pieces key (St a # ps) = St a # mask_pieces key ps"
  by (rule mask_skip) (simp add: masks_def)

lemma masks_shape:
  assumes "well U (p # ps)" "key \<in> U" "masks key (p # ps)"
  shows "\<exists>b c d rest. p = Co key \<and> ps = St b # Co c # d # rest \<and> colonish b"
proof -
  from assms(3) obtain b c d rest where "ps = b # c # d # rest" "chars p = key" "colonish (chars b)"
    by (auto simp: masks_def)
  with assms(1,2) show ?thesis
    by (cases p; cases b; cases c) (auto simp: starts_St_def)
qed

lemma alike_masks:
  assumes "alike K (St b # Co c # d # rest) qs" "colonish b"
  shows "\<exists>rest'. qs = St b # Co c # d # rest' \<and> alike K (d # rest) (d # rest')"
  using assms(1)
proof cases
  case (alike_Cons qs')
  from alike_Cons(2) obtain q3 where q3: "qs' = Co c # q3" "alike K (d # rest) q3"
    by (rule alike_CoE) auto
  from q3(2) have "\<exists>rest'. q3 = d # rest'" by cases auto
  with q3 alike_Cons show ?thesis by auto
next
  case alike_secret
  with separating_not_colonish assms(2) show ?thesis by blast
qed

text \<open>Masking a key makes the secrets under it equal.\<close>

lemma mask_alike:
  assumes "alike K ps qs" "well U ps" "well U qs" "key \<in> U"
  shows "alike (K - {key}) (mask_pieces key ps) (mask_pieces key qs)"
  using assms(1-3)
proof (induction "length ps" arbitrary: ps qs rule: less_induct)
  case less
  let ?M = "mask_pieces key" and ?A = "alike (K - {key})"
  from less.prems(1) show ?case
  proof cases
    case alike_Nil
    show ?thesis unfolding alike_Nil by (rule alike_refl)
  next
    case (alike_Cons ps' qs' p)
    have both: "masks key ps \<longleftrightarrow> masks key qs"
    proof -
      have "masks key (p # bs)" if "masks key (p # as)" "alike K as bs" "well U (p # as)" for as bs
        using masks_shape [OF that(3) assms(4) that(1)] that(2)
        by (auto simp: masks_def dest: alike_masks)
      with alike_Cons less.prems show ?thesis by (blast dest: alike_sym)
    qed
    show ?thesis
    proof (cases "masks key ps")
      case False
      then have "?M ps = p # ?M ps'" "?M qs = p # ?M qs'" using both alike_Cons mask_skip by blast+
      moreover have "?A (?M ps') (?M qs')"
        using less.hyps [of ps' qs'] alike_Cons less.prems by (auto dest: well_tl)
      ultimately show ?thesis by (simp add: alike.alike_Cons)
    next
      case True
      with masks_shape less.prems(2) assms(4) alike_Cons obtain b c d rest
        where shape: "p = Co key" "ps' = St b # Co c # d # rest" "colonish b" by blast
      from alike_masks [OF _ shape(3)] alike_Cons(3) shape(2) obtain rest'
        where other: "qs' = St b # Co c # d # rest'" "alike K (d # rest) (d # rest')" by blast
      have wells: "well U (d # rest)" "well U (d # rest')"
        using less.prems(2,3) alike_Cons shape other by simp_all
      have "?A (d # ?M rest) (d # ?M rest')"
      proof (cases d)
        case (St t)
        then have "?M (d # rest) = d # ?M rest" "?M (d # rest') = d # ?M rest'"
          using wells assms(4) by (auto intro: mask_St)
        moreover have "?A (?M (d # rest)) (?M (d # rest'))"
          using less.hyps other(2) wells alike_Cons shape by simp
        ultimately show ?thesis by simp
      next
        case (Co t)
        then have "alike K rest rest'" using other(2) alike_CoE by blast
        then have "?A (?M rest) (?M rest')"
          using less.hyps [of rest rest'] wells [THEN well_tl] alike_Cons shape by simp
        then show ?thesis by (rule alike.alike_Cons)
      qed
      then show ?thesis
        using alike_Cons shape other by (simp add: alike.alike_Cons)
    qed
  next
    case (alike_secret t ps' qs' k s v w)
    have inner: "?A (St t # ?M ps') (St t # ?M qs')"
    proof -
      have "?A (?M (St t # ps')) (?M (St t # qs'))"
        using less.hyps [of "St t # ps'" "St t # qs'"] alike_secret less.prems by simp
      moreover have "t \<noteq> key" using alike_secret less.prems(2) assms(4) by auto
      ultimately show ?thesis by (simp add: mask_St)
    qed
    have out: "s \<noteq> key" "'':'' \<noteq> key" "t \<noteq> key" using alike_secret less.prems(2) assms(4) by auto
    have "\<not> colonish t" using alike_secret separating_not_colonish by blast
    show ?thesis
    proof (cases "k = key")
      case True
      moreover have "colonish '':''" by (simp add: colonish_def white_def)
      ultimately show ?thesis
        using alike_secret out inner by (simp add: mask_St alike.alike_Cons)
    next
      case False
      have "?M (Co v # St t # xs) = Co v # St t # ?M xs" for v xs
        using mask_skip [of key "Co v" "St t # xs"] \<open>\<not> colonish t\<close> out by (auto simp: masks_def mask_St)
      moreover have "?M (Co k # xs) = Co k # ?M xs" for xs
        by (rule mask_skip) (use False in \<open>simp add: masks_def\<close>)
      ultimately have "?M (St s # Co k # St '':'' # Co v # St t # xs) = St s # Co k # St '':'' # Co v # St t # ?M xs"
        for v xs using out by (simp add: mask_St del: mask_pieces.simps)
      with alike_secret inner False show ?thesis by (auto intro: alike.alike_secret)
    qed
  qed
qed

text \<open>What masking keeps.\<close>

lemma starts_over [simp]: "starts_St (over p s # ps) = starts_St (p # ps)"
  by (cases p) simp_all

lemma starts_mask [simp]: "starts_St (mask_pieces key ps) = starts_St ps"
  by (cases "(key, ps)" rule: mask_pieces.cases) (auto simp: starts_St_def split: piece.splits)

definition mask_safe :: "string set \<Rightarrow> bool" where
  "mask_safe U \<longleftrightarrow> ''***REDACTED***'' \<notin> U \<and> (\<forall>k \<in> U. CHR '':'' \<notin> set k \<and> quoteless k)"

lemma well_over:
  assumes "well U (p # ps)" "s \<notin> U"
  shows "well U (over p s # ps)"
  using assms by (cases p) simp_all

lemma well_change: "well U (p # ps) \<Longrightarrow> starts_St qs = starts_St ps \<Longrightarrow> well U qs \<Longrightarrow> well U (p # qs)"
  by (cases p) simp_all

lemma well_mask:
  assumes "mask_safe U" "well U ps"
  shows "well U (mask_pieces key ps)"
  using assms(2)
proof (induction key ps rule: mask_pieces.induct)
  case (1 key a b c d rest)
  have outs: "redacted_colon s \<notin> U" "''***REDACTED***'' \<notin> U" for s
    using assms(1) by (auto simp: mask_safe_def redacted_colon_def)
  from 1(3) have tls: "well U (b # c # d # rest)" "well U (c # d # rest)" "well U (d # rest)" "well U rest"
    by (blast dest: well_tl)+
  show ?case
  proof (cases "chars a = key \<and> colonish (chars b)")
    case True
    from well_change [OF tls(3) starts_mask] 1(1) [OF True tls(4)]
    have d: "well U (d # mask_pieces key rest)" by simp
    have "well U (over c ''***REDACTED***'' # d # mask_pieces key rest)"
      by (rule well_over [OF well_change [OF tls(2) _ d] outs(2)]) (simp add: starts_St_def)
    then have "well U (over b (redacted_colon (chars b)) # over c ''***REDACTED***'' # d # mask_pieces key rest)"
      by (intro well_over [OF well_change [OF tls(1)] outs(1)]) (simp_all, cases c, simp_all)
    then have "well U (a # over b (redacted_colon (chars b)) # over c ''***REDACTED***'' # d # mask_pieces key rest)"
      by (intro well_change [OF 1(3)]) (simp_all add: starts_St_def split: piece.split)
    with True show ?thesis by simp
  next
    case False
    with 1(2) [OF False tls(1)] 1(3) show ?thesis
      by (simp only: mask_pieces.simps if_False) (rule well_change, simp_all only: starts_mask)
  qed
qed simp_all

lemma quoteless_mask:
  "list_all (\<lambda>p. quoteless (chars p)) ps \<Longrightarrow> list_all (\<lambda>p. quoteless (chars p)) (mask_pieces key ps)"
proof (induction key ps rule: mask_pieces.induct)
  case (1 key a b c d rest)
  have "quoteless (redacted_colon (chars b))" if "colonish (chars b)"
    using that by (auto simp: colonish_iff redacted_colon_def split_first_some colon_not_white quoteless_white)
  with 1 show ?case by auto
qed simp_all

text \<open>All keys, one after the other.\<close>

lemma mask_text:
  assumes "mask_safe U" "set keys \<subseteq> U" "well U (St s # ps)" "list_all (\<lambda>p. quoteless (chars p)) (St s # ps)"
  shows "maskSensitiveData (map field_pattern keys) (pieces_text (St s # ps)) =
    pieces_text (foldl (\<lambda>ps key. mask_pieces key ps) (St s # ps) keys)"
  using assms(2-4)
proof (induction keys arbitrary: ps)
  case Nil
  show ?case by (simp add: maskSensitiveData_def)
next
  case (Cons key keys)
  have key: "s \<noteq> key" "quoteless key" "CHR '':'' \<notin> set key"
    using Cons.prems assms(1) by (auto simp: mask_safe_def)
  have "ReplaceAllStringFunc (field_pattern key) redact_match False (pieces_text (St s # ps)) =
      pieces_text (St s # mask_pieces key ps)"
    using Cons.prems(3) replace_pieces [OF key(2,3), of ps] by (simp add: pieces_text_def replace_plain)
  moreover have "well U (St s # mask_pieces key ps)"
    using well_mask [OF assms(1) Cons.prems(2), of key] key by (simp add: mask_St)
  moreover have "list_all (\<lambda>p. quoteless (chars p)) (St s # mask_pieces key ps)"
    using quoteless_mask [of ps key] Cons.prems(3) by simp
  ultimately show ?case
    using Cons.IH [of "mask_pieces key ps"] Cons.prems(1) key
    by (simp add: maskSensitiveData_def mask_St)
qed

lemma mask_all_alike:
  assumes "mask_safe U" "set keys \<subseteq> U" "alike K ps qs" "well U ps" "well U qs"
  shows "alike (K - set keys) (foldl (\<lambda>ps key. mask_pieces key ps) ps keys)
    (foldl (\<lambda>ps key. mask_pieces key ps) qs keys)"
  using assms(2-5)
proof (induction keys arbitrary: K ps qs)
  case (Cons key keys)
  have "alike (K - {key} - set keys) (foldl (\<lambda>ps key. mask_pieces key ps) (mask_pieces key ps) keys)
      (foldl (\<lambda>ps key. mask_pieces key ps) (mask_pieces key qs) keys)"
    using Cons.prems assms(1) by (intro Cons.IH mask_alike well_mask) auto
  then show ?case by (simp add: Diff_insert2 [symmetric])
qed simp

end
