(* ===== verification/MaskedJson.thy ===== *)
theory MaskedJson
  imports Masking
begin

text \<open>
  The masking of a JSON object: its result does not depend on the secrets, the strings without a quote
  that the object, or one in it, has under the keys of the default patterns.
\<close>

section \<open>Hiding the secrets\<close>

fun blank :: "json \<Rightarrow> json" where
  "blank (JString s) = (if CHR 0x22 \<in> set s then JString s else JString [])"
| "blank j = j"

primrec hide :: "string set \<Rightarrow> json \<Rightarrow> json" where
  "hide K JNull = JNull"
| "hide K (JBool b) = JBool b"
| "hide K (JNumber n) = JNumber n"
| "hide K (JString s) = JString s"
| "hide K (JArray js) = JArray (map (hide K) js)"
| "hide K (JObject fs) =
     JObject (map (\<lambda>(k, j). (k, if k \<in> K then blank j else j)) (map (map_prod id (hide K)) fs))"

text \<open>The keys are written without escapes and hold no sign of the structure.\<close>

definition signs :: "char set" where
  "signs = {CHR ''{'', CHR ''}'', CHR ''['', CHR '']'', CHR '':'', CHR '',''}"

definition plain_keys :: "string set \<Rightarrow> bool" where
  "plain_keys U \<longleftrightarrow> mask_safe U \<and>
     (\<forall>k \<in> U. k \<noteq> [] \<and> json_escape k = k \<and> set k \<inter> signs = {} \<and> last k \<noteq> CHR 0x5C)"

section \<open>Pieces of strings\<close>

lemma split_char_prefix:
  "c \<notin> set u \<Longrightarrow> split_char c s = p # ps \<Longrightarrow> split_char c (u @ s) = (u @ p) # ps"
  by (induction u) auto

text \<open>Every piece of a string but the last ends in the escape of the quote that follows.\<close>

lemma split_escape:
  "split_char CHR 0x22 (json_escape s) = ps \<Longrightarrow> p \<in> set (butlast ps) \<Longrightarrow> p \<noteq> [] \<and> last p = CHR 0x5C"
proof (induction s arbitrary: ps p)
  case Nil
  then show ?case by (auto simp: json_escape_def)
next
  case (Cons c s)
  obtain q qs where split: "split_char CHR 0x22 (json_escape s) = q # qs"
    by (metis split_char_nonempty neq_Nil_conv)
  note IH = Cons.IH [OF split]
  show ?case
  proof (cases "c = CHR 0x22")
    case True
    then have "ps = [CHR 0x5C] # q # qs"
      using Cons.prems(1) split by (simp add: json_escape_Cons json_char_def)
    with Cons.prems(2) IH show ?thesis by (auto split: if_splits)
  next
    case False
    then have ps: "ps = (json_char c @ q) # qs"
      using Cons.prems(1) split_char_prefix [OF _ split] by (simp add: json_escape_Cons quote_json_char)
    show ?thesis
    proof (cases "qs = []")
      case True
      with Cons.prems(2) ps show ?thesis by simp
    next
      case False
      then have "p = json_char c @ q \<and> q \<in> set (butlast (q # qs)) \<or> p \<in> set (butlast (q # qs))"
        using Cons.prems(2) ps by auto
      with IH show ?thesis by auto
    qed
  qed
qed

lemma split_nonlast:
  assumes "plain_keys U" "p \<in> set (butlast (split_char CHR 0x22 (json_escape s)))"
  shows "p \<notin> U"
  using split_escape [OF refl assms(2)] assms(1) by (auto simp: plain_keys_def)

lemma well_content:
  assumes "ps \<noteq> []" "\<forall>p \<in> set (butlast ps). p \<notin> U" "well U qs" "starts_St qs"
  shows "well U (map Co ps @ qs)"
  using assms by (induction ps) (auto split: if_splits)

section \<open>The pieces of a JSON text are well-formed\<close>

definition good :: "string set \<Rightarrow> token list \<Rightarrow> bool" where
  "good U ts \<longleftrightarrow> well U (tl (pieces ts)) \<and> \<not> starts_St (tl (pieces ts))"

definition marked :: "token list \<Rightarrow> bool" where
  "marked ts \<longleftrightarrow> set (chars (hd (pieces ts))) \<inter> signs \<noteq> {}"

lemma good_simps [simp]:
  "good U (Punct c # ts) \<longleftrightarrow> good U ts" "good U (Literal s # ts) \<longleftrightarrow> good U ts"
  using pieces_St [of ts] by (auto simp: good_def)

lemma marked_simps [simp]:
  "c \<in> signs \<Longrightarrow> marked (Punct c # ts)" "marked ts \<Longrightarrow> marked (Literal s # ts)"
  using pieces_St [of ts] by (auto simp: marked_def)

lemma good_marked:
  assumes "plain_keys U" "good U ts" "marked ts"
  shows "well U (pieces ts)"
  using assms pieces_St [of ts] by (auto simp: good_def marked_def plain_keys_def)

lemma good_Quoted:
  assumes "plain_keys U" "good U ts" "marked ts"
  shows "good U (Quoted s # ts)"
proof -
  let ?ps = "split_char CHR 0x22 (json_escape s)"
  have "well U (map Co ?ps @ pieces ts)"
    using split_nonlast [OF assms(1)] good_marked [OF assms] pieces_St [of ts]
    by (intro well_content) auto
  moreover have "\<not> starts_St (map Co ?ps @ pieces ts)"
    using split_char_nonempty [of "CHR 0x22" "json_escape s"] by (cases ?ps) auto
  ultimately show ?thesis by (simp add: good_def)
qed

lemma sign [simp]:
  "CHR ''{'' \<in> signs" "CHR ''}'' \<in> signs" "CHR ''['' \<in> signs" "CHR '']'' \<in> signs" "CHR '':'' \<in> signs"
  "CHR '','' \<in> signs"
  by (simp_all add: signs_def)

lemma good_led:
  assumes "\<forall>xs \<in> set rest. \<forall>ts. good U ts \<and> marked ts \<longrightarrow> good U (xs @ ts)" "good U ts" "marked ts"
  shows "good U (led c rest @ ts)"
  using assms
proof (induction rest arbitrary: c)
  case (Cons xs rest)
  then have "good U (led CHR '','' rest @ ts)" by simp
  moreover have "marked (led CHR '','' rest @ ts)" using Cons.prems(3) by (cases rest) simp_all
  ultimately show ?case using Cons.prems(1) by simp
qed simp

lemma good_separated:
  assumes "good U (led c rest @ ts)"
  shows "good U (separated rest @ ts)"
proof (cases "rest = []")
  case False
  then have "led c rest @ ts = Punct c # separated rest @ ts" by (simp flip: led_separated)
  with assms show ?thesis by simp
qed (use assms in simp)

lemma good_object:
  assumes "plain_keys U" "\<forall>(k, j) \<in> set fs. \<forall>ts. good U ts \<and> marked ts \<longrightarrow> good U (json_tokens j @ ts)"
    "good U ts"
  shows "good U (json_tokens (JObject fs) @ ts)"
proof -
  let ?parts = "map (\<lambda>(k, ts). Quoted k # Punct CHR '':'' # ts) (map (map_prod id json_tokens) fs)"
  have "\<forall>xs \<in> set ?parts. \<forall>ts. good U ts \<and> marked ts \<longrightarrow> good U (xs @ ts)"
    using assms(2) by (fastforce intro!: good_Quoted [OF assms(1)])
  then have "good U (led CHR '','' ?parts @ Punct CHR ''}'' # ts)"
    using assms(3) by (intro good_led) auto
  from good_separated [OF this] show ?thesis by simp
qed

lemma good_tokens:
  assumes "plain_keys U" "good U ts" "marked ts"
  shows "good U (json_tokens j @ ts)"
  using assms(2,3)
proof (induction j arbitrary: ts rule: json_induct)
  case (JArray js)
  have "good U (led CHR '','' (map json_tokens js) @ Punct CHR '']'' # ts)"
    using JArray by (intro good_led) auto
  from good_separated [OF this] show ?case by simp
next
  case (JObject fs)
  then show ?case by (intro good_object [OF assms(1)]) auto
qed (auto intro: good_Quoted [OF assms(1)])

lemma well_object:
  assumes "plain_keys U"
  shows "well U (pieces (json_tokens (JObject fs)))"
proof -
  have "good U (json_tokens (JObject fs) @ [])"
    using good_tokens [OF assms] by (intro good_object [OF assms]) (auto simp: good_def)
  then show ?thesis by (intro good_marked [OF assms]) simp_all
qed

section \<open>No piece has a quote\<close>

lemma split_char_pieces: "p \<in> set (split_char c s) \<Longrightarrow> c \<notin> set p"
  by (induction s arbitrary: p) (auto split: if_splits list.splits)

fun token_ok :: "token \<Rightarrow> bool" where
  "token_ok (Punct c) \<longleftrightarrow> c \<noteq> CHR 0x22"
| "token_ok (Literal s) \<longleftrightarrow> quoteless s"
| "token_ok (Quoted s) \<longleftrightarrow> True"

lemma quoteless_pieces: "list_all token_ok ts \<Longrightarrow> list_all (\<lambda>p. quoteless (chars p)) (pieces ts)"
proof (induction ts rule: pieces.induct)
  case (2 c ts)
  with pieces_St [of ts] show ?case by auto
next
  case (3 s ts)
  with pieces_St [of ts] show ?case by auto
next
  case (4 s ts)
  then show ?case using split_char_pieces [of _ "CHR 0x22"] by (auto simp: list_all_iff quoteless_def)
qed simp

lemma token_ok_separated: "list_all token_ok (separated rest) \<longleftrightarrow> list_all (list_all token_ok) rest"
  by (induction rest rule: separated.induct) simp_all

lemma token_ok_json: "json_numbers_ok j \<Longrightarrow> list_all token_ok (json_tokens j)"
proof (induction j rule: json_induct)
  case (JArray js)
  then have "list_all (list_all token_ok) (map json_tokens js)" by (auto simp: list_all_iff)
  then show ?case by (simp add: token_ok_separated)
next
  case (JObject fs)
  then have "list_all (list_all token_ok)
      (map (\<lambda>(k, ts). Quoted k # Punct CHR '':'' # ts) (map (map_prod id json_tokens) fs))"
    by (fastforce simp: list_all_iff)
  then show ?case by (simp add: token_ok_separated)
qed (simp_all add: quoteless_def)

lemma numbers_ok_hide: "json_numbers_ok (hide K j) = json_numbers_ok j"
proof (induction j rule: json_induct)
  case (JArray js)
  then show ?case by (simp add: list_all_iff)
next
  case (JObject fs)
  have "json_numbers_ok (blank j) = json_numbers_ok j" for j by (cases j) simp_all
  with JObject have "map ((map_prod id json_numbers_ok) \<circ> (\<lambda>(k, j). (k, if k \<in> K then blank j else j)) \<circ> (map_prod id (hide K))) fs =
      map (map_prod id json_numbers_ok) fs"
    by (intro map_cong) auto
  then show ?case by (simp only: hide.simps json_numbers_ok.simps map_map comp_assoc)
qed simp_all

section \<open>Hiding changes secrets only\<close>

lemma alike_glue: "alike K ps qs \<Longrightarrow> alike K (glue s ps) (glue s qs)"
proof (induction rule: alike.cases)
  case (alike_Cons ps qs p)
  then show ?case by (cases p) (auto intro: alike.intros)
next
  case (alike_secret t ps qs k s' v w)
  then have "separating (s @ s')" by (auto simp: separating_def)
  with alike_secret show ?case by (auto intro: alike.alike_secret)
qed (auto intro: alike_refl)

lemma alike_append: "alike K ps qs \<Longrightarrow> alike K (xs @ ps) (xs @ qs)"
  by (induction xs) (auto intro: alike.alike_Cons)

lemma alike_tokens:
  assumes "alike K (pieces ts) (pieces us)"
  shows "alike K (pieces (xs @ ts)) (pieces (xs @ us))"
proof (induction xs)
  case (Cons x xs)
  then show ?case
    by (cases x) (auto intro: alike_glue alike_append alike.alike_Cons)
qed (simp add: assms)

definition closed :: "token list \<Rightarrow> bool" where
  "closed ts \<longleftrightarrow> (\<exists>c us. ts = Punct c # us \<and> c \<in> {CHR ''}'', CHR '',''})"

lemma alike_head: "alike K (St t # ps) qs \<Longrightarrow> \<exists>qs'. qs = St t # qs'"
  by (cases rule: alike.cases) auto

text \<open>A secret under a key, with what is before the key and after the value.\<close>

lemma alike_field:
  assumes "alike K (pieces ts) (pieces us)" "closed ts" "k \<in> K" "json_escape k = k" "quoteless k"
    "c \<in> {CHR ''{'', CHR '',''}" "quoteless v" "quoteless w"
  shows "alike K (pieces (Punct c # Quoted k # Punct CHR '':'' # Quoted v # ts))
    (pieces (Punct c # Quoted k # Punct CHR '':'' # Quoted w # us))"
proof -
  from assms(2) obtain d ts' where "ts = Punct d # ts'" "d \<in> {CHR ''}'', CHR '',''}" by (auto simp: closed_def)
  with pieces_St [of ts'] obtain t ps where ts: "pieces ts = St t # ps" "separating t"
    by (auto simp: separating_def)
  with alike_head assms(1) obtain qs where us: "pieces us = St t # qs" by metis
  have one: "split_char CHR 0x22 (json_escape s) = [json_escape s]" if "quoteless s" for s
    using that by (simp add: split_char_none json_escape_quote quoteless_def)
  have "separating [c]" using assms(6) by (auto simp: separating_def)
  with assms(1,3) ts us show ?thesis
    using one [OF assms(5)] one [OF assms(7)] one [OF assms(8)] assms(4)
    by (auto intro: alike.alike_secret)
qed

definition members :: "(string \<times> json) list \<Rightarrow> token list list" where
  "members fs = map (\<lambda>(k, ts). Quoted k # Punct CHR '':'' # ts) (map (map_prod id json_tokens) fs)"

definition hide_members :: "string set \<Rightarrow> (string \<times> json) list \<Rightarrow> (string \<times> json) list" where
  "hide_members K fs = map (\<lambda>(k, j). (k, if k \<in> K then blank j else j)) (map (map_prod id (hide K)) fs)"

lemma members_simps [simp]:
  "members [] = []" "members ((k, j) # fs) = (Quoted k # Punct CHR '':'' # json_tokens j) # members fs"
  "hide_members K [] = []"
  "hide_members K ((k, j) # fs) = (k, if k \<in> K then blank (hide K j) else hide K j) # hide_members K fs"
  by (simp_all add: members_def hide_members_def)

lemma object_members:
  "json_tokens (JObject fs) = Punct CHR ''{'' # separated (members fs) @ [Punct CHR ''}'']"
  "hide K (JObject fs) = JObject (hide_members K fs)"
  by (simp_all add: members_def hide_members_def)

lemma hide_blank_cases:
  obtains (secret) s where "j = JString s" "quoteless s" "blank (hide K j) = JString []"
  | (other) "blank (hide K j) = hide K j"
proof (cases j)
  case (JString s)
  then show ?thesis using that by (cases "CHR 0x22 \<in> set s") (auto simp: quoteless_def)
qed (use that in simp_all)

lemma closed_led: "closed ts \<Longrightarrow> closed (led CHR '','' rest @ ts)"
  by (cases rest) (auto simp: closed_def)

lemma alike_members:
  assumes "\<forall>(k, j) \<in> set fs. \<forall>ts us. alike K (pieces ts) (pieces us) \<longrightarrow>
      alike K (pieces (json_tokens j @ ts)) (pieces (json_tokens (hide K j) @ us))"
    "plain_keys K" "alike K (pieces ts) (pieces us)" "closed ts" "c \<in> {CHR ''{'', CHR '',''}"
  shows "alike K (pieces (led c (members fs) @ ts)) (pieces (led c (members (hide_members K fs)) @ us))"
  using assms(1,5)
proof (induction fs arbitrary: c)
  case (Cons field fs)
  obtain k j where field: "field = (k, j)" by (cases field)
  let ?ts = "led CHR '','' (members fs) @ ts" and ?us = "led CHR '','' (members (hide_members K fs)) @ us"
  have rest: "alike K (pieces ?ts) (pieces ?us)" using Cons by simp
  show ?case
  proof (cases "k \<in> K \<and> blank (hide K j) \<noteq> hide K j")
    case True
    then obtain s where s: "j = JString s" "quoteless s" "blank (hide K j) = JString []"
      by (cases rule: hide_blank_cases [of j K]) auto
    have "json_escape k = k" "quoteless k"
      using True assms(2) by (auto simp: plain_keys_def mask_safe_def)
    with True s rest alike_field [OF rest closed_led [OF assms(4)], of k c s "[]"] Cons.prems(2)
    show ?thesis by (simp add: field)
  next
    case False
    then have "(if k \<in> K then blank (hide K j) else hide K j) = hide K j" by auto
    moreover have "alike K (pieces (json_tokens j @ ?ts)) (pieces (json_tokens (hide K j) @ ?us))"
      using Cons.prems(1) rest by (simp add: field)
    from alike_tokens [OF this, of "[Punct c, Quoted k, Punct CHR '':'']"]
    have "alike K (pieces (Punct c # Quoted k # Punct CHR '':'' # json_tokens j @ ?ts))
        (pieces (Punct c # Quoted k # Punct CHR '':'' # json_tokens (hide K j) @ ?us))" by simp
    ultimately show ?thesis by (simp add: field)
  qed
qed (use assms(3) in simp)

lemma alike_led_elements:
  assumes "\<forall>j \<in> set js. \<forall>ts us. alike K (pieces ts) (pieces us) \<longrightarrow>
      alike K (pieces (json_tokens j @ ts)) (pieces (json_tokens (hide K j) @ us))"
    "alike K (pieces ts) (pieces us)"
  shows "alike K (pieces (led c (map json_tokens js) @ ts)) (pieces (led c (map json_tokens (map (hide K) js)) @ us))"
  using assms(1)
proof (induction js arbitrary: c)
  case (Cons j js)
  then show ?case by (auto intro: alike_glue)
qed (use assms(2) in simp)

lemma bracket_cases:
  "Punct c # separated rest @ [Punct d] @ ts = (if rest = [] then [Punct c] else led c rest) @ Punct d # ts"
  by (cases "rest = []") (simp_all flip: led_separated)

lemma alike_hide:
  assumes "plain_keys K" "alike K (pieces ts) (pieces us)"
  shows "alike K (pieces (json_tokens j @ ts)) (pieces (json_tokens (hide K j) @ us))"
  using assms(2)
proof (induction j arbitrary: ts us rule: json_induct)
  case (JArray js)
  have "alike K (pieces (Punct CHR '']'' # ts)) (pieces (Punct CHR '']'' # us))"
    using alike_tokens [OF JArray.prems, of "[Punct CHR '']'']"] by simp
  with JArray.IH have "alike K (pieces (led CHR ''['' (map json_tokens js) @ Punct CHR '']'' # ts))
      (pieces (led CHR ''['' (map json_tokens (map (hide K) js)) @ Punct CHR '']'' # us))"
    by (intro alike_led_elements) auto
  moreover have "alike K (pieces ([Punct CHR ''['', Punct CHR '']''] @ ts)) (pieces ([Punct CHR ''['', Punct CHR '']''] @ us))"
    by (rule alike_tokens [OF JArray.prems])
  ultimately show ?case
    using bracket_cases [of "CHR ''[''" "map json_tokens js" "CHR '']''" ts]
      bracket_cases [of "CHR ''[''" "map json_tokens (map (hide K) js)" "CHR '']''" us]
    by (cases js) simp_all
next
  case (JObject fs)
  have "alike K (pieces (Punct CHR ''}'' # ts)) (pieces (Punct CHR ''}'' # us))"
    using alike_tokens [OF JObject.prems, of "[Punct CHR ''}'']"] by simp
  with JObject.IH have "alike K (pieces (led CHR ''{'' (members fs) @ Punct CHR ''}'' # ts))
      (pieces (led CHR ''{'' (members (hide_members K fs)) @ Punct CHR ''}'' # us))"
    by (intro alike_members [OF _ assms(1)]) (auto simp: closed_def)
  moreover have "alike K (pieces ([Punct CHR ''{'', Punct CHR ''}''] @ ts)) (pieces ([Punct CHR ''{'', Punct CHR ''}''] @ us))"
    by (rule alike_tokens [OF JObject.prems])
  ultimately show ?case
    using bracket_cases [of "CHR ''{''" "members fs" "CHR ''}''" ts]
      bracket_cases [of "CHR ''{''" "members (hide_members K fs)" "CHR ''}''" us]
    unfolding object_members by (cases fs) auto
qed (simp_all only: json_tokens.simps hide.simps alike_tokens)

section \<open>Masking does not show the secrets\<close>

lemma secret_keys_plain: "plain_keys (set secret_keys)"
  by (simp add: plain_keys_def mask_safe_def secret_keys_def signs_def json_escape_def json_char_def)

lemma masked_object_hides:
  assumes "json_numbers_ok (JObject fs)"
  shows "maskSensitiveData default_mask_patterns (json_text (JObject fs)) =
    maskSensitiveData default_mask_patterns (json_text (hide (set secret_keys) (JObject fs)))"
proof -
  let ?U = "set secret_keys" and ?mask = "foldl (\<lambda>ps key. mask_pieces key ps)"
  let ?ps = "\<lambda>j. pieces (json_tokens j)"
  have mask: "maskSensitiveData default_mask_patterns (json_text (JObject gs)) =
      pieces_text (?mask (?ps (JObject gs)) secret_keys)" if "json_numbers_ok (JObject gs)" for gs
  proof -
    obtain s qs where ps: "?ps (JObject gs) = St s # qs" using pieces_St by blast
    have "list_all (\<lambda>p. quoteless (chars p)) (?ps (JObject gs))"
      by (rule quoteless_pieces [OF token_ok_json [OF that]])
    with well_object [OF secret_keys_plain, of gs] secret_keys_plain show ?thesis
      unfolding default_mask_patterns_def json_text_def tokens_pieces ps
      by (intro mask_text) (auto simp: plain_keys_def)
  qed
  have hidden: "json_numbers_ok (JObject (hide_members ?U fs))"
    using assms numbers_ok_hide [of ?U "JObject fs"] by (simp only: object_members(2))
  have "alike ?U (?ps (JObject fs)) (?ps (hide ?U (JObject fs)))"
    using alike_hide [OF secret_keys_plain, of "[]" "[]" "JObject fs"] alike_refl by simp
  then have "alike (?U - ?U) (?mask (?ps (JObject fs)) secret_keys) (?mask (?ps (JObject (hide_members ?U fs))) secret_keys)"
    using secret_keys_plain unfolding object_members(2)
    by (intro mask_all_alike [where U = ?U] well_object) (auto simp: plain_keys_def)
  then have "?mask (?ps (JObject fs)) secret_keys = ?mask (?ps (JObject (hide_members ?U fs))) secret_keys"
    using alike_empty by simp
  then show ?thesis unfolding object_members(2) mask [OF assms] mask [OF hidden] by simp
qed

end
