(* ===== verification/Logging.thy ===== *)
theory Logging
  imports MaskedJson "HOL-Library.Char_ord" "HOL-Library.List_Lexorder"
begin

text \<open>
  The structured logger of \<open>libs/logging/logging.go\<close>.

  The loggers that are derived from one another share its configuration, which \<open>SetLevel\<close> and
  \<open>SetOutput\<close> change: configurations have addresses, and a logger has the address of its own.  What is
  written is the list of texts with their writers.
\<close>

section \<open>Levels\<close>

type_synonym Level = int64

definition LevelDebug :: Level where "LevelDebug = 0"
definition LevelInfo :: Level where "LevelInfo = 1"
definition LevelWarn :: Level where "LevelWarn = 2"
definition LevelError :: Level where "LevelError = 3"
definition LevelFatal :: Level where "LevelFatal = 4"

lemmas level_defs = LevelDebug_def LevelInfo_def LevelWarn_def LevelError_def LevelFatal_def

definition level_String :: "Level \<Rightarrow> string" where
  "level_String l =
     (if l = LevelDebug then ''DEBUG'' else if l = LevelInfo then ''INFO'' else if l = LevelWarn then ''WARN''
      else if l = LevelError then ''ERROR'' else if l = LevelFatal then ''FATAL'' else ''UNKNOWN'')"

text \<open>\<open>strings.ToUpper\<close>, on ASCII text; of the other letters, only the dotless i and the long s become
  letters of the names, which is left out.\<close>

definition upper_byte :: "char \<Rightarrow> char" where
  "upper_byte c = (if 97 \<le> (of_char c :: nat) \<and> (of_char c :: nat) \<le> 122 then char_of (of_char c - 32 :: nat) else c)"

definition ParseLevel :: "string \<Rightarrow> Level" where
  "ParseLevel s =
     (let u = map upper_byte s
      in if u = ''DEBUG'' then LevelDebug else if u = ''INFO'' then LevelInfo
         else if u = ''WARN'' \<or> u = ''WARNING'' then LevelWarn else if u = ''ERROR'' then LevelError
         else if u = ''FATAL'' then LevelFatal else LevelInfo)"

section \<open>Instants as text\<close>

text \<open>Year, month and day of a number of days since 1970, in the Gregorian calendar.\<close>

definition civil :: "int \<Rightarrow> int \<times> int \<times> int" where
  "civil days =
     (let z = days + 719468;
          era = z div 146097;
          doe = z mod 146097;
          yoe = (doe - doe div 1460 + doe div 36524 - doe div 146096) div 365;
          doy = doe - (365 * yoe + yoe div 4 - yoe div 100);
          mp = (5 * doy + 2) div 153;
          d = doy - (153 * mp + 2) div 5 + 1;
          m = (if mp < 10 then mp + 3 else mp - 9)
      in (yoe + era * 400 + (if m \<le> 2 then 1 else 0), m, d))"

text \<open>A number with leading zeros.\<close>

definition padded :: "nat \<Rightarrow> int \<Rightarrow> string" where
  "padded w n =
     (let s = decimal (nat \<bar>n\<bar>)
      in (if n < 0 then ''-'' else []) @ replicate (w - length s) CHR ''0'' @ s)"

definition stamp_to_seconds :: "time \<Rightarrow> string" where
  "stamp_to_seconds t =
     (let secs = t div 10 ^ 9;
          (y, m, d) = civil (secs div 86400);
          s = secs mod 86400
      in padded 4 y @ ''-'' @ padded 2 m @ ''-'' @ padded 2 d @ ''T'' @
         padded 2 (s div 3600) @ '':'' @ padded 2 (s div 60 mod 60) @ '':'' @ padded 2 (s mod 60))"

text \<open>The layout \<open>2006-01-02T15:04:05.000Z\<close>, and \<open>time.RFC3339Nano\<close>, which JSON has for four-digit years.\<close>

definition stamp_text :: "time \<Rightarrow> string" where
  "stamp_text t = stamp_to_seconds t @ ''.'' @ padded 3 (t mod 10 ^ 9 div 10 ^ 6) @ ''Z''"

definition stamp_json :: "time \<Rightarrow> string option" where
  "stamp_json t =
     (let (y, m, d) = civil (t div 10 ^ 9 div 86400);
          fraction = rev (dropWhile (\<lambda>c. c = CHR ''0'') (rev (padded 9 (t mod 10 ^ 9))))
      in if y < 0 \<or> 9999 < y then None
         else Some (stamp_to_seconds t @ (if fraction = [] then [] else CHR ''.'' # fraction) @ ''Z''))"

lemma civil_example: "civil 19782 = (2024, 2, 29)" "civil 0 = (1970, 1, 1)" "civil (- 1) = (1969, 12, 31)"
  by code_simp+

section \<open>Entries\<close>

text \<open>
  A value of a field: what \<open>fmt.Sprint\<close> prints, what \<open>json.Marshal\<close> writes unless it fails (as for a
  function or a channel), and the duration if it is one.
\<close>

record log_value =
  lv_text :: string
  lv_json :: "json option"
  lv_duration :: "duration option"

definition str_value :: "string \<Rightarrow> log_value" where
  "str_value s = \<lparr>lv_text = s, lv_json = Some (JString s), lv_duration = None\<rparr>"

definition int_value :: "int64 \<Rightarrow> log_value" where
  "int_value n = \<lparr>lv_text = signed_decimal n, lv_json = Some (JNumber (signed_decimal n)), lv_duration = None\<rparr>"

type_synonym log_fields = "string \<rightharpoonup> log_value"

record LogEntry =
  le_Timestamp :: time
  le_Level :: string
  le_Message :: string
  le_Service :: string
  le_TraceID :: string
  le_SpanID :: string
  le_RequestID :: string
  le_UserID :: string
  le_Caller :: string
  le_Error :: string
  le_Stack :: string
  le_Fields :: log_fields
  le_Duration :: "duration option"

datatype Format = FormatJSON | FormatText

record LoggerConfig =
  lc_Level :: Level
  lc_Format :: Format
  lc_Output :: nat
  lc_ServiceName :: string
  lc_IncludeCaller :: bool
  lc_MaskPatterns :: "regex list"

text \<open>The writer \<open>os.Stdout\<close> is number 1.\<close>

definition DefaultLoggerConfig :: LoggerConfig where
  "DefaultLoggerConfig =
     \<lparr>lc_Level = LevelInfo, lc_Format = FormatJSON, lc_Output = 1, lc_ServiceName = ''amanah'',
      lc_IncludeCaller = True, lc_MaskPatterns = default_mask_patterns\<rparr>"

record Logger =
  lo_config :: nat
  lo_maskPatterns :: "regex list"
  lo_fields :: log_fields

record log_state =
  ls_configs :: "LoggerConfig list"
  ls_default :: Logger
  ls_written :: "(nat \<times> string) list"
  ls_exit :: "int option"

text \<open>\<open>NewLogger\<close>, with the configuration at its address; the patterns are those that compile.\<close>

definition NewLogger :: "nat \<Rightarrow> log_state \<Rightarrow> Logger" where
  "NewLogger config s =
     \<lparr>lo_config = config, lo_maskPatterns = lc_MaskPatterns (ls_configs s ! config), lo_fields = Map.empty\<rparr>"

definition initial_log :: log_state where
  "initial_log =
     \<lparr>ls_configs = [DefaultLoggerConfig],
      ls_default = \<lparr>lo_config = 0, lo_maskPatterns = default_mask_patterns, lo_fields = Map.empty\<rparr>,
      ls_written = [], ls_exit = None\<rparr>"

definition log_WithField :: "string \<Rightarrow> log_value \<Rightarrow> Logger \<Rightarrow> Logger" where
  "log_WithField key v l = l\<lparr>lo_fields := (lo_fields l)(key \<mapsto> v)\<rparr>"

definition log_WithFields :: "log_fields \<Rightarrow> Logger \<Rightarrow> Logger" where
  "log_WithFields new l = l\<lparr>lo_fields := lo_fields l ++ new\<rparr>"

text \<open>The values that a context has under the keys of the package.\<close>

record log_context =
  cx_TraceID :: "log_value option"
  cx_SpanID :: "log_value option"
  cx_RequestID :: "log_value option"
  cx_UserID :: "log_value option"

definition set_field :: "string \<Rightarrow> log_value option \<Rightarrow> log_fields \<Rightarrow> log_fields" where
  "set_field key v m = (case v of None \<Rightarrow> m | Some v \<Rightarrow> m(key \<mapsto> v))"

definition log_WithContext :: "log_context \<Rightarrow> Logger \<Rightarrow> Logger" where
  "log_WithContext ctx l =
     (let l = log_WithFields Map.empty l
      in l\<lparr>lo_fields := set_field ''user_id'' (cx_UserID ctx) (set_field ''request_id'' (cx_RequestID ctx)
           (set_field ''span_id'' (cx_SpanID ctx) (set_field ''trace_id'' (cx_TraceID ctx) (lo_fields l))))\<rparr>)"

text \<open>An error is given by its text; \<open>None\<close> is nil.\<close>

definition log_WithError :: "string option \<Rightarrow> Logger \<Rightarrow> Logger" where
  "log_WithError err l = (case err of None \<Rightarrow> l | Some e \<Rightarrow> log_WithField ''error'' (str_value e) l)"

section \<open>Writing an entry\<close>

text \<open>The loop over the fields of the logger: some of them are attributes of the entry.\<close>

definition add_field :: "string \<Rightarrow> log_value \<Rightarrow> LogEntry \<Rightarrow> LogEntry" where
  "add_field k v e =
     (if k = ''trace_id'' then e\<lparr>le_TraceID := lv_text v\<rparr>
      else if k = ''span_id'' then e\<lparr>le_SpanID := lv_text v\<rparr>
      else if k = ''request_id'' then e\<lparr>le_RequestID := lv_text v\<rparr>
      else if k = ''user_id'' then e\<lparr>le_UserID := lv_text v\<rparr>
      else if k = ''error'' then e\<lparr>le_Error := lv_text v\<rparr>
      else if k = ''duration'' then
        (case lv_duration v of None \<Rightarrow> e | Some d \<Rightarrow> e\<lparr>le_Duration := Some d\<rparr>)
      else e\<lparr>le_Fields := (le_Fields e)(k \<mapsto> v)\<rparr>)"

primrec add_fields :: "string list \<Rightarrow> log_fields \<Rightarrow> LogEntry \<Rightarrow> LogEntry" where
  "add_fields [] m e = e"
| "add_fields (k # ks) m e = add_fields ks m (case m k of None \<Rightarrow> e | Some v \<Rightarrow> add_field k v e)"

text \<open>
  What the surroundings give: the clock, the caller (if the runtime knows it), and the orders in which the
  fields of the logger and those of the entry are visited.
\<close>

record log_env =
  lg_now :: time
  lg_caller :: "(string \<times> int64) option"
  lg_order :: "string list"
  lg_entry_order :: "string list"

definition caller_text :: "string \<times> int64 \<Rightarrow> string" where
  "caller_text c =
     (let parts = split_char CHR ''/'' (fst c);
          short = (if 2 < length parts then join ''/'' (drop (length parts - 2) parts) else fst c)
      in short @ '':'' @ signed_decimal (snd c))"

text \<open>\<open>json.Marshal\<close> of an entry; the keys of a map are written in order.\<close>

definition optional :: "string \<Rightarrow> string \<Rightarrow> (string \<times> json) list" where
  "optional k s = (if s = [] then [] else [(k, JString s)])"

definition fields_json :: "string list \<Rightarrow> log_fields \<Rightarrow> (string \<times> json) list option" where
  "fields_json ks m =
     (let keys = filter (\<lambda>k. m k \<noteq> None) (sort ks)
      in if list_all (\<lambda>k. lv_json (the (m k)) \<noteq> None) keys
         then Some (map (\<lambda>k. (k, the (lv_json (the (m k))))) keys) else None)"

definition print_duration :: "duration \<Rightarrow> string" where
  "print_duration d = (if d < 0 then CHR ''-'' # decimal (nat (- d)) else decimal (nat d))"

definition entry_json :: "string list \<Rightarrow> LogEntry \<Rightarrow> json option" where
  "entry_json ks e =
     (case (stamp_json (le_Timestamp e), fields_json ks (le_Fields e)) of
        (Some stamp, Some fs) \<Rightarrow> Some (JObject
          ([(''timestamp'', JString stamp), (''level'', JString (le_Level e)), (''message'', JString (le_Message e))] @
           optional ''service'' (le_Service e) @ optional ''trace_id'' (le_TraceID e) @
           optional ''span_id'' (le_SpanID e) @ optional ''request_id'' (le_RequestID e) @
           optional ''user_id'' (le_UserID e) @ optional ''caller'' (le_Caller e) @
           optional ''error'' (le_Error e) @ optional ''stack'' (le_Stack e) @
           (if ks = [] then [] else [(''fields'', JObject fs)]) @
           (case le_Duration e of None \<Rightarrow> [] | Some d \<Rightarrow> [(''duration_ms'', JNumber (print_duration d))])))
      | _ \<Rightarrow> None)"

definition formatText :: "string list \<Rightarrow> LogEntry \<Rightarrow> string" where
  "formatText ks e =
     stamp_text (le_Timestamp e) @ '' '' @ le_Level e @ '' '' @
     (if le_RequestID e \<noteq> [] then ''['' @ le_RequestID e @ ''] '' else []) @
     le_Message e @
     (if le_Error e \<noteq> [] then '' error='' @ le_Error e else []) @
     (if le_Caller e \<noteq> [] then '' caller='' @ le_Caller e else []) @
     concat (map (\<lambda>k. '' '' @ k @ ''='' @ lv_text (the (le_Fields e k))) ks)"

text \<open>\<open>msg\<close> is what \<open>fmt.Sprintf\<close> makes of the format and the arguments.\<close>

definition make_entry :: "log_env \<Rightarrow> LoggerConfig \<Rightarrow> log_fields \<Rightarrow> Level \<Rightarrow> string \<Rightarrow> LogEntry" where
  "make_entry env cfg m level msg =
     (let e = add_fields (lg_order env) m
            \<lparr>le_Timestamp = lg_now env, le_Level = level_String level, le_Message = msg,
             le_Service = lc_ServiceName cfg, le_TraceID = [], le_SpanID = [], le_RequestID = [],
             le_UserID = [], le_Caller = [], le_Error = [], le_Stack = [], le_Fields = Map.empty,
             le_Duration = None\<rparr>
      in if lc_IncludeCaller cfg
         then (case lg_caller env of None \<Rightarrow> e | Some c \<Rightarrow> e\<lparr>le_Caller := caller_text c\<rparr>) else e)"

text \<open>When marshalling fails, the error is ignored and the text is empty.\<close>

definition log_output :: "log_env \<Rightarrow> LoggerConfig \<Rightarrow> regex list \<Rightarrow> log_fields \<Rightarrow> Level \<Rightarrow> string \<Rightarrow> string" where
  "log_output env cfg patterns m level msg =
     (let e = make_entry env cfg m level msg;
          output = (if lc_Format cfg = FormatJSON
            then (case entry_json (lg_entry_order env) e of None \<Rightarrow> [] | Some j \<Rightarrow> json_text j)
            else formatText (lg_entry_order env) e)
      in maskSensitiveData patterns output)"

definition log_at :: "log_env \<Rightarrow> Logger \<Rightarrow> Level \<Rightarrow> string \<Rightarrow> log_state \<Rightarrow> log_state" where
  "log_at env l level msg s =
     (let cfg = ls_configs s ! lo_config l
      in if sint level < sint (lc_Level cfg) then s
         else s\<lparr>ls_written := ls_written s @
           [(lc_Output cfg, log_output env cfg (lo_maskPatterns l) (lo_fields l) level msg @ [CHR 0x0A])]\<rparr>)"

definition log_Debug :: "log_env \<Rightarrow> Logger \<Rightarrow> string \<Rightarrow> log_state \<Rightarrow> log_state" where
  "log_Debug env l = log_at env l LevelDebug"

definition log_Info :: "log_env \<Rightarrow> Logger \<Rightarrow> string \<Rightarrow> log_state \<Rightarrow> log_state" where
  "log_Info env l = log_at env l LevelInfo"

definition log_Warn :: "log_env \<Rightarrow> Logger \<Rightarrow> string \<Rightarrow> log_state \<Rightarrow> log_state" where
  "log_Warn env l = log_at env l LevelWarn"

definition log_Error :: "log_env \<Rightarrow> Logger \<Rightarrow> string \<Rightarrow> log_state \<Rightarrow> log_state" where
  "log_Error env l = log_at env l LevelError"

definition log_Fatal :: "log_env \<Rightarrow> Logger \<Rightarrow> string \<Rightarrow> log_state \<Rightarrow> log_state" where
  "log_Fatal env l msg s = (log_at env l LevelFatal msg s)\<lparr>ls_exit := Some 1\<rparr>"

section \<open>The package\<close>

definition SetDefaultLogger :: "Logger \<Rightarrow> log_state \<Rightarrow> log_state" where
  "SetDefaultLogger l s = s\<lparr>ls_default := l\<rparr>"

definition change_default :: "(LoggerConfig \<Rightarrow> LoggerConfig) \<Rightarrow> log_state \<Rightarrow> log_state" where
  "change_default f s =
     (let a = lo_config (ls_default s) in s\<lparr>ls_configs := (ls_configs s)[a := f (ls_configs s ! a)]\<rparr>)"

definition SetOutput :: "nat \<Rightarrow> log_state \<Rightarrow> log_state" where
  "SetOutput w = change_default (\<lambda>cfg. cfg\<lparr>lc_Output := w\<rparr>)"

definition SetLevel :: "Level \<Rightarrow> log_state \<Rightarrow> log_state" where
  "SetLevel level = change_default (\<lambda>cfg. cfg\<lparr>lc_Level := level\<rparr>)"

definition GetDefaultLogger :: "log_state \<Rightarrow> Logger" where
  "GetDefaultLogger s = ls_default s"

text \<open>The functions of the package, on the default logger as it is at the call.\<close>

definition pkg_Debug :: "log_env \<Rightarrow> string \<Rightarrow> log_state \<Rightarrow> log_state" where
  "pkg_Debug env msg s = log_Debug env (ls_default s) msg s"

definition pkg_Info :: "log_env \<Rightarrow> string \<Rightarrow> log_state \<Rightarrow> log_state" where
  "pkg_Info env msg s = log_Info env (ls_default s) msg s"

definition pkg_Warn :: "log_env \<Rightarrow> string \<Rightarrow> log_state \<Rightarrow> log_state" where
  "pkg_Warn env msg s = log_Warn env (ls_default s) msg s"

definition pkg_Error :: "log_env \<Rightarrow> string \<Rightarrow> log_state \<Rightarrow> log_state" where
  "pkg_Error env msg s = log_Error env (ls_default s) msg s"

definition pkg_Fatal :: "log_env \<Rightarrow> string \<Rightarrow> log_state \<Rightarrow> log_state" where
  "pkg_Fatal env msg s = log_Fatal env (ls_default s) msg s"

definition pkg_WithField :: "string \<Rightarrow> log_value \<Rightarrow> log_state \<Rightarrow> Logger" where
  "pkg_WithField key v s = log_WithField key v (ls_default s)"

definition pkg_WithFields :: "log_fields \<Rightarrow> log_state \<Rightarrow> Logger" where
  "pkg_WithFields new s = log_WithFields new (ls_default s)"

definition pkg_WithContext :: "log_context \<Rightarrow> log_state \<Rightarrow> Logger" where
  "pkg_WithContext ctx s = log_WithContext ctx (ls_default s)"

definition pkg_WithError :: "string option \<Rightarrow> log_state \<Rightarrow> Logger" where
  "pkg_WithError err s = log_WithError err (ls_default s)"

text \<open>A logger of requests; \<open>None\<close> is the nil logger, for which it takes the default one.\<close>

definition NewRequestLogger :: "Logger option \<Rightarrow> log_state \<Rightarrow> Logger" where
  "NewRequestLogger l s = (case l of None \<Rightarrow> ls_default s | Some l \<Rightarrow> l)"

definition LogRequest :: "log_env \<Rightarrow> Logger \<Rightarrow> string \<Rightarrow> string \<Rightarrow> string \<Rightarrow> string \<Rightarrow> log_state \<Rightarrow> log_state" where
  "LogRequest env l verb path clientIP requestID =
     log_Info env (log_WithFields [''request_id'' \<mapsto> str_value requestID, ''method'' \<mapsto> str_value verb,
       ''path'' \<mapsto> str_value path, ''client_ip'' \<mapsto> str_value clientIP] l) ''request started''"

text \<open>\<open>Duration.Milliseconds\<close> drops the fraction.\<close>

definition response_logger :: "string \<Rightarrow> string \<Rightarrow> string \<Rightarrow> int64 \<Rightarrow> duration \<Rightarrow> Logger \<Rightarrow> Logger" where
  "response_logger verb path requestID statusCode d =
     log_WithFields [''request_id'' \<mapsto> str_value requestID, ''method'' \<mapsto> str_value verb, ''path'' \<mapsto> str_value path,
       ''status_code'' \<mapsto> int_value statusCode,
       ''duration_ms'' \<mapsto> int_value (word_of_int (sgn d * (\<bar>d\<bar> div 10 ^ 6)))]"

definition LogResponse ::
  "log_env \<Rightarrow> Logger \<Rightarrow> string \<Rightarrow> string \<Rightarrow> string \<Rightarrow> int64 \<Rightarrow> duration \<Rightarrow> log_state \<Rightarrow> log_state" where
  "LogResponse env l verb path requestID statusCode d =
     (let l = response_logger verb path requestID statusCode d l
      in if 500 \<le> sint statusCode then log_Error env l ''request failed''
         else if 400 \<le> sint statusCode then log_Warn env l ''request completed with client error''
         else log_Info env l ''request completed'')"

section \<open>What a line may show of a field\<close>

datatype shown = ShownText string | ShownDuration "duration option" | ShownJson "json option"

definition public_json :: "string \<Rightarrow> json \<Rightarrow> json" where
  "public_json k j =
     (if k \<in> set secret_keys then blank (hide (set secret_keys) j) else hide (set secret_keys) j)"

text \<open>
  The text of a field that becomes an attribute, the duration of the field for it, and of any other the
  JSON, with strings under the keys of the patterns hidden if there is no quote in them.
\<close>

definition shown_of :: "string \<Rightarrow> log_value \<Rightarrow> shown" where
  "shown_of k v =
     (if k \<in> {''trace_id'', ''span_id'', ''request_id'', ''user_id'', ''error''} then ShownText (lv_text v)
      else if k = ''duration'' then ShownDuration (lv_duration v)
      else ShownJson (map_option (public_json k) (lv_json v)))"

definition same_shown :: "log_fields \<Rightarrow> log_fields \<Rightarrow> bool" where
  "same_shown m m' \<longleftrightarrow> (\<forall>k. map_option (shown_of k) (m k) = map_option (shown_of k) (m' k))"

text \<open>No number has a quote.\<close>

definition plain_numbers :: "log_fields \<Rightarrow> bool" where
  "plain_numbers m \<longleftrightarrow> (\<forall>k v j. m k = Some v \<longrightarrow> lv_json v = Some j \<longrightarrow> json_numbers_ok j)"

definition same_json :: "log_fields \<Rightarrow> log_fields \<Rightarrow> bool" where
  "same_json m m' \<longleftrightarrow> (\<forall>k. map_option (\<lambda>v. map_option (public_json k) (lv_json v)) (m k) =
     map_option (\<lambda>v. map_option (public_json k) (lv_json v)) (m' k))"

definition same_entry :: "LogEntry \<Rightarrow> LogEntry \<Rightarrow> bool" where
  "same_entry e e' \<longleftrightarrow>
     (\<exists>m'. e' = e\<lparr>le_Fields := m'\<rparr> \<and> same_json (le_Fields e) m' \<and> plain_numbers (le_Fields e) \<and> plain_numbers m')"

lemma same_add_field:
  assumes "same_entry e e'" "shown_of k v = shown_of k v'"
    "\<forall>j. lv_json v = Some j \<longrightarrow> json_numbers_ok j" "\<forall>j. lv_json v' = Some j \<longrightarrow> json_numbers_ok j"
  shows "same_entry (add_field k v e) (add_field k v' e')"
proof -
  from assms(1) obtain m' where e': "e' = e\<lparr>le_Fields := m'\<rparr>" and m: "same_json (le_Fields e) m'"
    "plain_numbers (le_Fields e)" "plain_numbers m'"
    unfolding same_entry_def by blast
  show ?thesis
  proof (cases "k \<in> {''trace_id'', ''span_id'', ''request_id'', ''user_id'', ''error''}")
    case True
    with assms(2) have "lv_text v = lv_text v'" by (auto simp: shown_of_def)
    with True m show ?thesis unfolding e' add_field_def same_entry_def by (intro exI [of _ m']) auto
  next
    case other: False
    show ?thesis
    proof (cases "k = ''duration''")
      case True
      with assms(2) have "lv_duration v = lv_duration v'" by (simp add: shown_of_def)
      with True m show ?thesis unfolding e' add_field_def same_entry_def
        by (intro exI [of _ m']) (simp split: option.split)
    next
      case False
      with other assms(2) have json: "map_option (public_json k) (lv_json v) = map_option (public_json k) (lv_json v')"
        by (simp add: shown_of_def)
      have "same_json ((le_Fields e)(k \<mapsto> v)) (m'(k \<mapsto> v'))" using m(1) json by (simp add: same_json_def)
      moreover have "plain_numbers ((le_Fields e)(k \<mapsto> v))" "plain_numbers (m'(k \<mapsto> v'))"
        using m(2,3) assms(3,4) by (auto simp: plain_numbers_def)
      ultimately show ?thesis using False other unfolding e' add_field_def same_entry_def
        by (intro exI [of _ "m'(k \<mapsto> v')"]) simp
    qed
  qed
qed

lemma same_add_fields:
  assumes "same_entry e e'" "same_shown m m'" "plain_numbers m" "plain_numbers m'"
  shows "same_entry (add_fields ks m e) (add_fields ks m' e')"
  using assms(1)
proof (induction ks arbitrary: e e')
  case (Cons k ks)
  have "map_option (shown_of k) (m k) = map_option (shown_of k) (m' k)" using assms(2) by (simp add: same_shown_def)
  then consider "m k = None" "m' k = None"
    | v v' where "m k = Some v" "m' k = Some v'" "shown_of k v = shown_of k v'"
    by (cases "m k"; cases "m' k") auto
  then show ?case
  proof cases
    case 2
    with assms(3,4) have "same_entry (add_field k v e) (add_field k v' e')"
      by (intro same_add_field [OF Cons.prems]) (auto simp: plain_numbers_def)
    from Cons.IH [OF this] 2 show ?thesis by simp
  qed (use Cons in simp)
qed simp

lemma quoteless_decimal: "quoteless (decimal n)"
proof (induction n rule: decimal.induct)
  case (1 n)
  have "char_of (48 + d) \<noteq> CHR 0x22" if "d < 10" for d :: nat
  proof
    assume "char_of (48 + d) = CHR 0x22"
    then have "(of_char (char_of (48 + d)) :: nat) = 34" by simp
    with that show False by (simp add: digit_value)
  qed
  with 1 show ?case by (subst decimal.simps) auto
qed

lemma hide_members_append [simp]: "hide_members K (fs @ gs) = hide_members K fs @ hide_members K gs"
  by (simp add: hide_members_def)

lemma same_fields_json:
  assumes "same_json m m'"
  shows "fields_json ks m = None \<and> fields_json ks m' = None \<or>
    (\<exists>fs fs'. fields_json ks m = Some fs \<and> fields_json ks m' = Some fs' \<and>
       hide_members (set secret_keys) fs = hide_members (set secret_keys) fs')"
proof -
  let ?j = "\<lambda>m k. lv_json (the (m k))"
  have one: "m k = None \<longleftrightarrow> m' k = None"
    "m k \<noteq> None \<Longrightarrow> map_option (public_json k) (?j m k) = map_option (public_json k) (?j m' k)" for k
    using assms [unfolded same_json_def, rule_format, of k] by (cases "m k"; cases "m' k"; simp)+
  have two: "m k \<noteq> None \<Longrightarrow> ?j m k = None \<longleftrightarrow> ?j m' k = None" for k
    using one(2) [of k] by (cases "?j m k"; cases "?j m' k") simp_all
  have keys: "filter (\<lambda>k. m k \<noteq> None) (sort ks) = filter (\<lambda>k. m' k \<noteq> None) (sort ks)" (is "?keys = _")
    using one(1) by simp
  have all: "list_all (\<lambda>k. ?j m k \<noteq> None) ?keys \<longleftrightarrow> list_all (\<lambda>k. ?j m' k \<noteq> None) ?keys"
    using two by (intro list.pred_cong [OF refl]) simp
  show ?thesis
  proof (cases "list_all (\<lambda>k. ?j m k \<noteq> None) ?keys")
    case True
    have "public_json k (the (?j m k)) = public_json k (the (?j m' k))" if "k \<in> set ?keys" for k
    proof -
      have "?j m k \<noteq> None" "m k \<noteq> None" using that True by (auto simp: list_all_iff)
      with one(2) [of k] show ?thesis by (cases "?j m k"; cases "?j m' k") simp_all
    qed
    then have "hide_members (set secret_keys) (map (\<lambda>k. (k, the (?j m k))) ?keys) =
        hide_members (set secret_keys) (map (\<lambda>k. (k, the (?j m' k))) ?keys)"
      by (simp add: hide_members_def public_json_def)
    with True all keys show ?thesis by (simp add: fields_json_def Let_def)
  next
    case False
    with all keys show ?thesis by (simp add: fields_json_def Let_def)
  qed
qed

lemma fields_json_numbers:
  assumes "plain_numbers m" "fields_json ks m = Some fs"
  shows "json_numbers_ok (JObject fs)"
proof -
  from assms(2) have all: "\<And>k. k \<in> set ks \<Longrightarrow> m k \<noteq> None \<Longrightarrow> lv_json (the (m k)) \<noteq> None"
    and fs: "fs = map (\<lambda>k. (k, the (lv_json (the (m k))))) (filter (\<lambda>k. m k \<noteq> None) (sort ks))"
    by (auto simp: fields_json_def Let_def list_all_iff split: if_splits)
  have "json_numbers_ok (the (lv_json (the (m k))))" if "k \<in> set ks" "m k \<noteq> None" for k
    using all [OF that] that(2) assms(1) by (auto simp: plain_numbers_def)
  then show ?thesis by (auto simp: fs list_all_iff)
qed

lemma same_entry_json:
  assumes "same_entry e e'"
  shows "entry_json ks e = None \<and> entry_json ks e' = None \<or>
    (\<exists>fs fs'. entry_json ks e = Some (JObject fs) \<and> entry_json ks e' = Some (JObject fs') \<and>
       json_numbers_ok (JObject fs) \<and> json_numbers_ok (JObject fs') \<and>
       hide (set secret_keys) (JObject fs) = hide (set secret_keys) (JObject fs'))"
proof -
  from assms obtain m' where e': "e' = e\<lparr>le_Fields := m'\<rparr>" and m: "same_json (le_Fields e) m'"
    "plain_numbers (le_Fields e)" "plain_numbers m'"
    unfolding same_entry_def by blast
  have number: "quoteless (print_duration d)" for d
    by (simp add: print_duration_def quoteless_decimal)
  from same_fields_json [OF m(1), of ks] show ?thesis
  proof (elim disjE conjE exE)
    assume "fields_json ks (le_Fields e) = None" "fields_json ks m' = None"
    then show ?thesis by (simp add: e' entry_json_def split: option.split)
  next
    fix fs fs'
    assume fs: "fields_json ks (le_Fields e) = Some fs" "fields_json ks m' = Some fs'"
      "hide_members (set secret_keys) fs = hide_members (set secret_keys) fs'"
    note numbers = fields_json_numbers [OF m(2) fs(1)] fields_json_numbers [OF m(3) fs(2)]
    show ?thesis
    proof (cases "stamp_json (le_Timestamp e)")
      case None
      then show ?thesis by (simp add: e' entry_json_def)
    next
      case (Some stamp)
      have hidden: "hide (set secret_keys) (JObject fs) = hide (set secret_keys) (JObject fs')"
        using fs(3) by (simp only: object_members(2))
      show ?thesis
        using Some fs(1,2) number [unfolded quoteless_def] numbers hidden
        by (cases "le_Duration e")
          (simp_all add: e' entry_json_def optional_def object_members(2) list_all_append del: hide.simps(6))
    qed
  qed
qed

lemma same_entry_caller: "same_entry e e' \<Longrightarrow> same_entry (e\<lparr>le_Caller := c\<rparr>) (e'\<lparr>le_Caller := c\<rparr>)"
  unfolding same_entry_def by (elim exE, rule exI) auto

section \<open>Properties\<close>

text \<open>
  C12: Secrets are not logged.  With the default patterns and in JSON, what is written for a message does not
  depend on strings without a quote under the keys password, secret, token, api_key, credit_card and
  ssn, in the fields of the logger or anywhere inside their values: loggers whose fields differ in nothing
  else write the same line, whatever their other fields are.
\<close>

theorem secrets_not_logged:
  assumes "lc_Format cfg = FormatJSON" "same_shown m m'" "plain_numbers m" "plain_numbers m'"
  shows "log_output env cfg default_mask_patterns m level msg = log_output env cfg default_mask_patterns m' level msg"
proof -
  let ?e = "make_entry env cfg m level msg" and ?e' = "make_entry env cfg m' level msg"
  let ?start = "\<lparr>le_Timestamp = lg_now env, le_Level = level_String level, le_Message = msg,
             le_Service = lc_ServiceName cfg, le_TraceID = [], le_SpanID = [], le_RequestID = [],
             le_UserID = [], le_Caller = [], le_Error = [], le_Stack = [], le_Fields = Map.empty,
             le_Duration = None\<rparr>"
  have "same_entry ?start ?start"
    unfolding same_entry_def by (intro exI [of _ Map.empty]) (simp add: same_json_def plain_numbers_def)
  from same_add_fields [OF this assms(2-4), of "lg_order env"] have "same_entry ?e ?e'"
    unfolding make_entry_def Let_def
    by (cases "lg_caller env") (simp_all add: same_entry_caller)
  from same_entry_json [OF this, of "lg_entry_order env"] show ?thesis
  proof (elim disjE conjE exE)
    fix fs fs'
    assume json: "entry_json (lg_entry_order env) ?e = Some (JObject fs)"
      "entry_json (lg_entry_order env) ?e' = Some (JObject fs')"
      and ok: "json_numbers_ok (JObject fs)" "json_numbers_ok (JObject fs')"
      and same: "hide (set secret_keys) (JObject fs) = hide (set secret_keys) (JObject fs')"
    show ?thesis
      using assms(1) masked_object_hides [OF ok(1)] masked_object_hides [OF ok(2)]
      by (simp add: log_output_def json same del: hide.simps)
  qed (use assms(1) in \<open>simp add: log_output_def Let_def\<close>)
qed

definition example_log_env :: log_env where
  "example_log_env = \<lparr>lg_now = 0, lg_caller = Some (''/srv/app/main.go'', 7), lg_order = [''password'', ''path''],
     lg_entry_order = [''path'', ''password'']\<rparr>"

theorem secrets_not_logged_witness:
  "log_output example_log_env DefaultLoggerConfig default_mask_patterns
     [''password'' \<mapsto> str_value ''hunter2'', ''path'' \<mapsto> str_value ''/x''] LevelInfo ''in'' =
   log_output example_log_env DefaultLoggerConfig default_mask_patterns
     [''password'' \<mapsto> str_value ''swordfish'', ''path'' \<mapsto> str_value ''/x''] LevelInfo ''in''"
proof (rule secrets_not_logged)
  show "same_shown [''password'' \<mapsto> str_value ''hunter2'', ''path'' \<mapsto> str_value ''/x'']
      [''password'' \<mapsto> str_value ''swordfish'', ''path'' \<mapsto> str_value ''/x'']"
    by (simp add: same_shown_def shown_of_def str_value_def public_json_def secret_keys_def)
qed (simp_all add: DefaultLoggerConfig_def plain_numbers_def str_value_def)

text \<open>How a logger is derived from another.\<close>

datatype derivation = DField string log_value | DFields log_fields | DContext log_context | DError "string option"

primrec derive :: "derivation list \<Rightarrow> Logger \<Rightarrow> Logger" where
  "derive [] l = l"
| "derive (d # ds) l = derive ds
     (case d of DField k v \<Rightarrow> log_WithField k v l | DFields m \<Rightarrow> log_WithFields m l
      | DContext ctx \<Rightarrow> log_WithContext ctx l | DError err \<Rightarrow> log_WithError err l)"

lemma derive_keeps: "lo_config (derive ds l) = lo_config l \<and> lo_maskPatterns (derive ds l) = lo_maskPatterns l"
  by (induction ds arbitrary: l)
    (auto simp: log_WithField_def log_WithFields_def log_WithContext_def log_WithError_def Let_def split: derivation.splits option.splits)

text \<open>
  Level and output govern every logger of a family.  A call of \<open>SetLevel\<close> and \<open>SetOutput\<close> holds from then on for
  every logger that is derived from one with the default's configuration, before or after the call: a
  message below the level is not written, any other is one line at the new output, masked with the
  patterns the family started with.
\<close>

lemma log_output_destination:
  "log_output env (cfg\<lparr>lc_Level := b, lc_Output := w\<rparr>) = log_output env cfg"
  by (simp add: log_output_def make_entry_def fun_eq_iff)

theorem level_governs_family:
  assumes "lo_config l = lo_config (ls_default s)" "lo_config l < length (ls_configs s)"
  shows "ls_written (log_at env (derive ds l) level msg (SetOutput w (SetLevel bound s))) =
    ls_written s @
      (if sint level < sint bound then []
       else [(w, log_output env (ls_configs s ! lo_config l) (lo_maskPatterns l) (lo_fields (derive ds l)) level msg @
                 [CHR 0x0A])])"
  using assms derive_keeps [of ds l]
  by (simp add: log_at_def SetOutput_def SetLevel_def change_default_def Let_def log_output_destination)

theorem level_governs_family_witness:
  "ls_written (log_at example_log_env (derive [DError (Some ''e''), DField ''a'' (str_value ''b'')] (ls_default initial_log))
     LevelInfo ''hi'' (SetOutput 2 (SetLevel LevelWarn initial_log))) = []"
proof -
  have "lo_config (ls_default initial_log) < length (ls_configs initial_log)" by (simp add: initial_log_def)
  from level_governs_family [OF refl this, of example_log_env
      "[DError (Some ''e''), DField ''a'' (str_value ''b'')]" LevelInfo "''hi''" 2 LevelWarn]
  show ?thesis by (simp add: level_defs initial_log_def)
qed

section \<open>What the masking misses\<close>

text \<open>A text without quotes is not changed: in the text format the values of the fields stay.\<close>

lemma mask_quoteless: "quoteless s \<Longrightarrow> maskSensitiveData (map field_pattern keys) s = s"
proof (induction keys)
  case (Cons key keys)
  have "ReplaceAllStringFunc (field_pattern key) redact_match False s = s"
    using replace_plain [OF Cons.prems, of key redact_match False "[]"] by (simp add: replace_empty)
  with Cons show ?case by (simp add: maskSensitiveData_def)
qed (simp add: maskSensitiveData_def)

theorem text_format_not_masked:
  assumes "lc_Format cfg = FormatText"
    "quoteless (formatText (lg_entry_order env) (make_entry env cfg m level msg))"
  shows "log_output env cfg default_mask_patterns m level msg =
    formatText (lg_entry_order env) (make_entry env cfg m level msg)"
  using assms by (simp add: log_output_def default_mask_patterns_def mask_quoteless)

text \<open>A secret with a quote in it is shown from there on, and so is one in a text of JSON that is itself a string.\<close>

lemma pieces_password:
  assumes "quoteless u" "quoteless v"
  shows "pieces (json_tokens (JObject [(''password'', JString (u @ CHR 0x22 # v))])) =
    [St ''{'', Co ''password'', St '':'', Co (json_escape u @ [CHR 0x5C]), Co (json_escape v), St ''}'']"
proof -
  have "json_escape (u @ CHR 0x22 # v) = (json_escape u @ [CHR 0x5C]) @ CHR 0x22 # json_escape v"
    by (simp add: json_escape_def json_char_def)
  moreover have "split_char CHR 0x22 ((json_escape u @ [CHR 0x5C]) @ CHR 0x22 # json_escape v) =
      [json_escape u @ [CHR 0x5C], json_escape v]"
    using assms json_escape_quote [of u] json_escape_quote [of v]
    by (subst split_quote) (simp_all add: quoteless_def split_char_none)
  ultimately show ?thesis by (simp add: json_escape_def json_char_def)
qed

theorem quote_in_secret_shown:
  assumes "quoteless u" "quoteless v"
  shows "maskSensitiveData default_mask_patterns (json_text (JObject [(''password'', JString (u @ CHR 0x22 # v))])) =
    ''{\"password\": \"***REDACTED***\"'' @ json_escape v @ ''\"}''"
proof -
  let ?ps = "pieces (json_tokens (JObject [(''password'', JString (u @ CHR 0x22 # v))]))"
  have "list_all (\<lambda>p. quoteless (chars p)) ?ps"
    by (intro quoteless_pieces token_ok_json) simp
  moreover have "well (set secret_keys) ?ps" by (rule well_object [OF secret_keys_plain])
  ultimately have "maskSensitiveData default_mask_patterns (json_text (JObject [(''password'', JString (u @ CHR 0x22 # v))])) =
      pieces_text (foldl (\<lambda>ps key. mask_pieces key ps) ?ps secret_keys)"
    using secret_keys_plain unfolding default_mask_patterns_def json_text_def tokens_pieces pieces_password [OF assms]
    by (intro mask_text) (auto simp: plain_keys_def)
  then show ?thesis
    unfolding pieces_password [OF assms]
    by (simp add: secret_keys_def colonish_def white_def redacted_colon_def pieces_text_def)
qed

theorem embedded_json_shown:
  "maskSensitiveData default_mask_patterns (json_text (JObject [(''message'', JString ''{\"password\":\"hunter2\"}'')])) =
   json_text (JObject [(''message'', JString ''{\"password\":\"hunter2\"}'')])"
  by code_simp

text \<open>A value that cannot be marshalled leaves an empty line: the message is lost.\<close>

theorem unmarshalable_field_empties_line:
  assumes "lc_Format cfg = FormatJSON" "k \<in> set ks" "m k = Some v" "lv_json v = None"
    "lg_entry_order env = ks" "le_Fields (make_entry env cfg m0 level msg) = m"
  shows "log_output env cfg default_mask_patterns m0 level msg = []"
proof -
  have "fields_json ks m = None"
    using assms by (auto simp: fields_json_def Let_def list_all_iff)
  with assms mask_quoteless [of "[]" secret_keys] show ?thesis
    by (simp add: log_output_def Let_def entry_json_def default_mask_patterns_def split: option.split)
qed

text \<open>The duration of an entry is written in nanoseconds, under a name that says milliseconds.\<close>

theorem duration_in_nanoseconds:
  assumes "le_Duration e = Some d" "entry_json ks e = Some (JObject fs)"
  shows "(''duration_ms'', JNumber (print_duration d)) \<in> set fs"
  using assms by (auto simp: entry_json_def split: option.splits)

end
