(* ===== verification/Authentication.thy ===== *)
theory Authentication
  imports Api ApiKeys Logging
begin

text \<open>
  The authentication service (\<open>services/authentication\<close>): the users in memory, the login that
  exchanges a name and a password for a token of the manager of \<open>libs/auth/auth.go\<close>, and its HTTP
  handler.  What JSON decodes from a body is a parameter.
\<close>

section \<open>Users\<close>

record User =
  us_ID :: string
  us_Username :: string
  us_Password :: string

type_synonym InMemoryUserRepo = "string \<rightharpoonup> User"

definition NewInMemoryUserRepo :: InMemoryUserRepo where
  "NewInMemoryUserRepo = Map.empty"

definition AddUser :: "User \<Rightarrow> InMemoryUserRepo \<Rightarrow> InMemoryUserRepo" where
  "AddUser u r = r(us_Username u \<mapsto> u)"

definition GetByUsername :: "string \<Rightarrow> InMemoryUserRepo \<Rightarrow> User option" where
  "GetByUsername username r = r username"

section \<open>Login\<close>

record AuthService =
  as_repo :: InMemoryUserRepo
  as_tokens :: TokenManager

datatype login_error = InvalidCredentials | NoEntropy

definition auth_Login :: "env \<Rightarrow> string \<Rightarrow> string \<Rightarrow> AuthService \<Rightarrow> (login_error + string) \<times> AuthService" where
  "auth_Login e username password s =
     (case GetByUsername username (as_repo s) of
        None \<Rightarrow> (Inl InvalidCredentials, s)
      | Some user \<Rightarrow>
          if us_Password user \<noteq> password then (Inl InvalidCredentials, s)
          else
            (case auth_GenerateToken e (us_ID user) (as_tokens s) of
               (None, tokens) \<Rightarrow> (Inl NoEntropy, s\<lparr>as_tokens := tokens\<rparr>)
             | (Some token, tokens) \<Rightarrow> (Inr token, s\<lparr>as_tokens := tokens\<rparr>)))"

section \<open>The program\<close>

text \<open>The state of the program: its service, and the log it writes through the default logger.\<close>

record login_state =
  li_service :: AuthService
  li_log :: log_state

datatype login_payload = LoginResponse string

text \<open>The name and the password that JSON finds in a body, unless decoding fails.\<close>

type_synonym login_codec = "string \<Rightarrow> (string \<times> string) option"

definition LoginHandler :: "login_codec \<Rightarrow> env \<Rightarrow> log_env \<Rightarrow> (login_payload, login_state) api" where
  "LoginHandler codec e le x s =
     (case codec (rq_Body x) of
        None \<Rightarrow> (Some \<lparr>as_Status = 400, as_Body = Plain ''bad request''\<rparr>, s)
      | Some (username, password) \<Rightarrow>
          (case auth_Login e username password (li_service s) of
             (Inl _, service) \<Rightarrow>
               (Some \<lparr>as_Status = 401, as_Body = Plain ''unauthorized''\<rparr>, s\<lparr>li_service := service\<rparr>)
           | (Inr token, service) \<Rightarrow>
               (Some (jsonResponse 200 (Reply (LoginResponse token))),
                s\<lparr>li_service := service,
                  li_log := log_Info le (ls_default (li_log s)) (''user '' @ username @ '' logged in'') (li_log s)\<rparr>)))"

definition login_initial :: login_state where
  "login_initial =
     \<lparr>li_service = \<lparr>as_repo = AddUser \<lparr>us_ID = ''1'', us_Username = ''admin'', us_Password = ''password''\<rparr>
          NewInMemoryUserRepo, as_tokens = NewTokenManager\<rparr>,
      li_log = initial_log\<rparr>"

definition login_routes :: "login_codec \<Rightarrow> env \<Rightarrow> log_env \<Rightarrow> (string \<times> (login_payload, login_state) api) list" where
  "login_routes codec e le = [(''/health'', health_handler ''OK''), (''/login'', LoginHandler codec e le)]"

record login_arrival =
  la_request :: ApiRequest
  la_env :: env
  la_log_env :: log_env

definition login_serve :: "login_codec \<Rightarrow> login_arrival \<Rightarrow> login_state \<Rightarrow> login_payload ApiResponse option \<times> login_state" where
  "login_serve codec a s = serve_mux (login_routes codec (la_env a) (la_log_env a)) (la_request a) s"

section \<open>Lemmas\<close>

lemma login_routed:
  "login_serve codec a s =
     (let x = la_request a in
      if \<not> canonical x then (Some \<lparr>as_Status = 301, as_Body = Redirect\<rparr>, s)
      else if rq_Path x = ''/health'' then health_handler ''OK'' x s
      else if rq_Path x = ''/login'' then LoginHandler codec (la_env a) (la_log_env a) x s
      else (Some \<lparr>as_Status = 404, as_Body = Plain ''404 page not found''\<rparr>, s))"
  by (simp add: login_serve_def serve_mux_def login_routes_def route_matches_def longest_route_def
      has_suffix_def Let_def)

text \<open>What a request does to the users and the tokens.\<close>

definition issues :: "login_codec \<Rightarrow> login_arrival \<Rightarrow> login_state \<Rightarrow> string \<Rightarrow> User \<Rightarrow> bool" where
  "issues codec a s token user \<longleftrightarrow>
     rq_Path (la_request a) = ''/login'' \<and>
     codec (rq_Body (la_request a)) = Some (us_Username user, us_Password user) \<and>
     GetByUsername (us_Username user) (as_repo (li_service s)) = Some user \<and>
     randomString (entropy (la_env a) 0) = Some token"

lemma clean_login [simp]: "clean_path ''/login''"
  by (simp add: clean_path_def)

lemma login_serve_cases:
  assumes "\<forall>name user. as_repo (li_service s) name = Some user \<longrightarrow> us_Username user = name"
  obtains (issued) token user where "issues codec a s token user"
      "fst (login_serve codec a s) = Some (jsonResponse 200 (Reply (LoginResponse token)))"
      "as_repo (li_service (snd (login_serve codec a s))) = as_repo (li_service s)"
      "as_tokens (li_service (snd (login_serve codec a s))) = (as_tokens (li_service s))(token \<mapsto> us_ID user)"
  | (refused) answer where "login_serve codec a s = (Some answer, s)"
      "\<nexists>token user. issues codec a s token user" "\<nexists>token. as_Body answer = Reply (LoginResponse token)"
proof (cases "rq_Path (la_request a) = ''/login''")
  case other: False
  then have "\<exists>answer. login_serve codec a s = (Some answer, s) \<and> (\<nexists>token. as_Body answer = Reply (LoginResponse token))"
    by (simp add: login_routed Let_def health_handler_def)
  with other show ?thesis by (auto intro: refused simp: issues_def)
next
  case login: True
  then have serve: "login_serve codec a s = LoginHandler codec (la_env a) (la_log_env a) (la_request a) s"
    by (simp add: login_routed)
  show ?thesis
  proof (cases "\<exists>token user. issues codec a s token user")
    case True
    then obtain token user where i: "issues codec a s token user" by blast
    then show ?thesis
      by (intro issued [OF i])
        (simp_all add: serve LoginHandler_def issues_def auth_Login_def auth_GenerateToken_def)
  next
    case False
    have "\<exists>answer. login_serve codec a s = (Some answer, s) \<and> (\<nexists>token. as_Body answer = Reply (LoginResponse token))"
    proof (cases "codec (rq_Body (la_request a))")
      case None
      then show ?thesis by (simp add: serve LoginHandler_def)
    next
      case (Some credentials)
      obtain name password where c: "credentials = (name, password)" by (cases credentials)
      show ?thesis
      proof (cases "as_repo (li_service s) name")
        case None
        with Some c show ?thesis by (simp add: serve LoginHandler_def auth_Login_def GetByUsername_def)
      next
        case user: (Some user)
        then have "us_Username user = name" using assms by blast
        have "randomString (entropy (la_env a) 0) = None" if "password = us_Password user"
        proof (rule ccontr)
          assume "randomString (entropy (la_env a) 0) \<noteq> None"
          then obtain token where "randomString (entropy (la_env a) 0) = Some token" by blast
          with login Some c user that \<open>us_Username user = name\<close> have "issues codec a s token user"
            by (simp add: issues_def GetByUsername_def)
          with False show False by blast
        qed
        with Some c user show ?thesis
          by (simp add: serve LoginHandler_def auth_Login_def GetByUsername_def auth_GenerateToken_def)
      qed
    qed
    with False show ?thesis by (auto intro: refused)
  qed
qed

text \<open>The program has one user.\<close>

definition admin_only :: "login_state \<Rightarrow> bool" where
  "admin_only s \<longleftrightarrow> as_repo (li_service s) =
     [''admin'' \<mapsto> \<lparr>us_ID = ''1'', us_Username = ''admin'', us_Password = ''password''\<rparr>]"

lemma admin_names: "admin_only s \<Longrightarrow> \<forall>name user. as_repo (li_service s) name = Some user \<longrightarrow> us_Username user = name"
  by (auto simp: admin_only_def split: if_splits)

interpretation login_program: invariant_machine "served (login_serve codec)" "\<lambda>_ _. True" admin_only
proof
  fix s a assume "admin_only s"
  with admin_names show "admin_only (served (login_serve codec) a s)"
    by (cases rule: login_serve_cases [of s codec a]) (auto simp: served_def admin_only_def)
qed

lemma login_runs_ok: "run_ok step (\<lambda>_ _. True) xs s"
  by (induction xs arbitrary: s) simp_all

lemma admin_run: "admin_only (run (served (login_serve codec)) xs login_initial)"
  by (rule login_program.run_inv [OF _ login_runs_ok])
    (simp add: admin_only_def login_initial_def AddUser_def NewInMemoryUserRepo_def)

lemma split_snoc:
  "(\<exists>before y after. xs @ [x] = before @ y # after \<and> P before y) \<longleftrightarrow>
    P xs x \<or> (\<exists>before y after. xs = before @ y # after \<and> P before y)"
proof
  assume "\<exists>before y after. xs @ [x] = before @ y # after \<and> P before y"
  then obtain before y after where *: "xs @ [x] = before @ y # after" "P before y" by blast
  then show "P xs x \<or> (\<exists>before y after. xs = before @ y # after \<and> P before y)"
    by (cases after rule: rev_cases) auto
next
  assume "P xs x \<or> (\<exists>before y after. xs = before @ y # after \<and> P before y)"
  then show "\<exists>before y after. xs @ [x] = before @ y # after \<and> P before y"
    by (metis append.assoc append_Cons)
qed

section \<open>Properties\<close>

text \<open>
  A token stands for a user if and only if that is the one user and an earlier request to log in had
  the user's name and password and was answered with the token.
\<close>

lemma token_valid_iff:
  "auth_ValidateToken token (as_tokens (li_service (run (served (login_serve codec)) xs login_initial))) = Some uid \<longleftrightarrow>
    uid = ''1'' \<and> (\<exists>before x after. xs = before @ x # after \<and>
      codec (rq_Body (la_request x)) = Some (''admin'', ''password'') \<and>
      fst (login_serve codec x (run (served (login_serve codec)) before login_initial)) =
        Some (jsonResponse 200 (Reply (LoginResponse token))))"
proof (induction xs rule: rev_induct)
  case Nil
  show ?case by (simp add: auth_ValidateToken_def login_initial_def NewTokenManager_def)
next
  case (snoc x xs)
  let ?s = "run (served (login_serve codec)) xs login_initial"
  have step: "run (served (login_serve codec)) (xs @ [x]) login_initial = snd (login_serve codec x ?s)"
    by (simp add: run_append served_def)
  let ?P = "\<lambda>before x. codec (rq_Body (la_request x)) = Some (''admin'', ''password'') \<and>
      fst (login_serve codec x (run (served (login_serve codec)) before login_initial)) =
        Some (jsonResponse 200 (Reply (LoginResponse token)))"
  have now: "auth_ValidateToken token (as_tokens (li_service (snd (login_serve codec x ?s)))) = Some uid \<longleftrightarrow>
      uid = ''1'' \<and> ?P xs x \<or> auth_ValidateToken token (as_tokens (li_service ?s)) = Some uid"
  proof (cases rule: login_serve_cases [OF admin_names [OF admin_run], of codec x codec xs, case_names issued refused])
    case (issued t user)
    then have user: "us_ID user = ''1''" "us_Username user = ''admin''" "us_Password user = ''password''"
      using admin_run [of codec xs] by (auto simp: issues_def admin_only_def GetByUsername_def split: if_splits)
    then have "?P xs x \<longleftrightarrow> token = t" using issued by (auto simp: issues_def jsonResponse_def)
    moreover have "auth_ValidateToken token (as_tokens (li_service ?s)) = Some uid \<Longrightarrow> uid = ''1''"
      using snoc.IH by blast
    ultimately show ?thesis using issued(4) user by (auto simp: auth_ValidateToken_def)
  next
    case (refused answer)
    then have "\<not> ?P xs x" by (auto simp: jsonResponse_def)
    with refused(1) show ?thesis by auto
  qed
  show ?case unfolding step now snoc.IH split_snoc [of xs x ?P] by blast
qed

text \<open>
  C27: A token means a login.  After whatever requests the program has got: a token that validates stands for
  the program's one user, and an earlier request to log in had the user's name and password and was
  answered with it; and when the next request is answered with a token, it had the name and the password,
  and the token validates for the user from then.
\<close>

theorem token_means_login:
  fixes codec xs
  assumes "s = run (served (login_serve codec)) xs login_initial"
  shows "(\<forall>token uid. auth_ValidateToken token (as_tokens (li_service s)) = Some uid \<longrightarrow>
      uid = ''1'' \<and> (\<exists>before x after. xs = before @ x # after \<and>
        codec (rq_Body (la_request x)) = Some (''admin'', ''password'') \<and>
        fst (login_serve codec x (run (served (login_serve codec)) before login_initial)) =
          Some (jsonResponse 200 (Reply (LoginResponse token))))) \<and>
    (\<forall>x token. fst (login_serve codec x s) = Some (jsonResponse 200 (Reply (LoginResponse token))) \<longrightarrow>
      codec (rq_Body (la_request x)) = Some (''admin'', ''password'') \<and>
      auth_ValidateToken token (as_tokens (li_service (snd (login_serve codec x s)))) = Some ''1'')"
proof (intro conjI allI impI)
  fix x token assume answer: "fst (login_serve codec x s) = Some (jsonResponse 200 (Reply (LoginResponse token)))"
  then show "codec (rq_Body (la_request x)) = Some (''admin'', ''password'')"
    "auth_ValidateToken token (as_tokens (li_service (snd (login_serve codec x s)))) = Some ''1''"
    using admin_run [of codec xs]
    by (cases rule: login_serve_cases [OF admin_names [OF admin_run], of codec x codec xs];
        auto simp: assms issues_def admin_only_def GetByUsername_def jsonResponse_def auth_ValidateToken_def
          split: if_splits)+
qed (use token_valid_iff assms in blast)+

text \<open>A login that is answered with a token, and the token that validates after it.\<close>

definition example_login :: login_arrival where
  "example_login =
     \<lparr>la_request = \<lparr>rq_Method = ''POST'', rq_Host = [], rq_Path = ''/login'', rq_RawQuery = [], rq_Query = [],
        rq_Header = (\<lambda>_. []), rq_RemoteAddr = [], rq_Body = ''good''\<rparr>,
      la_env = example_env 1, la_log_env = example_log_env\<rparr>"

definition example_login_codec :: login_codec where
  "example_login_codec b = (if b = ''good'' then Some (''admin'', ''password'') else None)"

lemma example_login_answer:
  "\<exists>token. fst (login_serve example_login_codec example_login (run (served (login_serve example_login_codec)) [] login_initial)) =
    Some (jsonResponse 200 (Reply (LoginResponse token)))"
  by (simp add: login_routed example_login_def example_login_codec_def LoginHandler_def login_initial_def
      auth_Login_def GetByUsername_def AddUser_def NewInMemoryUserRepo_def auth_GenerateToken_def
      randomString_def example_env_def) blast

theorem token_means_login_witness:
  "\<exists>token. auth_ValidateToken token
      (as_tokens (li_service (snd (login_serve example_login_codec example_login login_initial)))) = Some ''1''"
proof -
  obtain token where "fst (login_serve example_login_codec example_login
      (run (served (login_serve example_login_codec)) [] login_initial)) =
      Some (jsonResponse 200 (Reply (LoginResponse token)))"
    using example_login_answer by blast
  with token_means_login [OF refl, of example_login_codec "[]"] show ?thesis by auto
qed

text \<open>
  The program has no end for a token: one that validates still validates after any further requests,
  though the service's README says that a login returns a short lived token.
\<close>

theorem tokens_never_expire:
  assumes "auth_ValidateToken token (as_tokens (li_service (run (served (login_serve codec)) xs login_initial))) = Some uid"
  shows "auth_ValidateToken token
    (as_tokens (li_service (run (served (login_serve codec)) (xs @ ys) login_initial))) = Some uid"
proof -
  from assms obtain before x after where "uid = ''1''" "xs @ ys = before @ x # (after @ ys)"
    "codec (rq_Body (la_request x)) = Some (''admin'', ''password'')"
    "fst (login_serve codec x (run (served (login_serve codec)) before login_initial)) =
      Some (jsonResponse 200 (Reply (LoginResponse token)))"
    unfolding token_valid_iff by auto
  then show ?thesis unfolding token_valid_iff by blast
qed

end
