(* ===== verification/EntryGateway.thy ===== *)
theory EntryGateway
  imports TransactionApi
begin

text \<open>
  The program \<open>services/api-gateway\<close>: a mux with the health check and one proxied pattern, in front of the
  transaction service.

  \<open>http.ServeMux\<close> has the pattern \<open>/transactions/\<close> only, so that it redirects \<open>/transactions\<close> to it.  The
  reverse proxy passes the method, the path, the query and the body on and the answer back; \<open>None\<close> is a
  backend that gives no answer, for which the proxy answers 502.
\<close>

section \<open>The program\<close>

text \<open>The target of the proxy is a constant that parses as a URL.\<close>

definition proxy :: "('a \<Rightarrow> 's \<Rightarrow> 'd ApiResponse option \<times> 's) \<Rightarrow> 'a \<Rightarrow> 's \<Rightarrow> 'd ApiResponse option \<times> 's" where
  "proxy backend x s =
     (case backend x s of
        (None, s') \<Rightarrow> (Some \<lparr>as_Status = 502, as_Body = Plain []\<rparr>, s')
      | (Some answer, s') \<Rightarrow> (Some answer, s'))"

definition entry_serve ::
  "('a \<Rightarrow> ApiRequest) \<Rightarrow> ('a \<Rightarrow> 's \<Rightarrow> 'd ApiResponse option \<times> 's) \<Rightarrow> 'a \<Rightarrow> 's \<Rightarrow> 'd ApiResponse option \<times> 's" where
  "entry_serve request backend a s =
     (let path = rq_Path (request a) in
      if \<not> canonical (request a) then (Some \<lparr>as_Status = 301, as_Body = Redirect\<rparr>, s)
      else if path = ''/health'' then health_handler ''OK'' (request a) s
      else if has_prefix path ''/transactions/'' then proxy backend a s
      else if path = ''/transactions'' then (Some \<lparr>as_Status = 301, as_Body = Redirect\<rparr>, s)
      else (Some \<lparr>as_Status = 404, as_Body = Plain ''404 page not found''\<rparr>, s))"

section \<open>Properties\<close>

text \<open>The program in front of the transaction service.\<close>

definition entry_transactions ::
  "'s TransactionRepository \<Rightarrow> tx_codec \<Rightarrow> tx_arrival \<Rightarrow> 's \<Rightarrow> tx_payload ApiResponse option \<times> 's" where
  "entry_transactions R codec = entry_serve ta_request (tx_serve R codec)"

definition entry_calls :: "tx_codec \<Rightarrow> tx_arrival \<Rightarrow> tx_call list" where
  "entry_calls codec a =
     (if has_prefix (rq_Path (ta_request a)) ''/transactions/'' then tx_calls codec a else [])"

lemma entry_calls_operate:
  assumes "c \<in> set (entry_calls codec a)"
  shows "\<exists>e oper i. c = CallOperate e oper i"
proof -
  from assms have "has_prefix (rq_Path (ta_request a)) ''/transactions/''"
    by (simp add: entry_calls_def split: if_splits)
  then have "tx_create_request codec (ta_request a) = None"
    by (auto simp: tx_create_request_def has_prefix_def)
  with assms show ?thesis by (auto simp: entry_calls_def tx_calls_def split: if_splits option.splits prod.splits)
qed

lemma proxy_state: "snd (proxy backend a s) = snd (backend a s)"
  by (simp add: proxy_def split: prod.split option.split)

interpretation entry: server "entry_transactions R codec" "tx_step R" "entry_calls codec"
proof
  fix a s
  have unclean: "tx_calls codec a = []" if "\<not> canonical (ta_request a)"
    using that by (auto simp: tx_calls_def tx_create_request_def tx_request_op_def)
  show "snd (entry_transactions R codec a s) = run (tx_step R) (entry_calls codec a) s"
    using transactions.served_calls [of R codec a s] unclean
    by (auto simp: entry_transactions_def entry_serve_def entry_calls_def proxy_state health_handler_def
        has_prefix_def Let_def)
qed

text \<open>
  No payment can be made through the gateway.  Whatever requests the gateway program gets, the transaction
  service behind it, started as its program does, never stores a transaction: only \<open>/transactions\<close> creates one,
  and the gateway answers that with a redirection to \<open>/transactions/\<close>, which the service refuses.
\<close>

theorem gateway_creates_nothing:
  shows "tm_transactions (run (served (entry_transactions tx_InMemoryRepository codec)) xs tx_NewInMemoryRepository) = Map.empty"
proof -
  have "tm_valid (run (tx_step tx_InMemoryRepository) cs r) \<and>
      tm_transactions (run (tx_step tx_InMemoryRepository) cs r) = Map.empty"
    if "\<forall>c \<in> set cs. \<exists>e oper i. c = CallOperate e oper i" "tm_valid r" "tm_transactions r = Map.empty" for cs r
    using that
  proof (induction cs arbitrary: r)
    case (Cons c cs)
    then obtain e oper i where c: "c = CallOperate e oper i" by auto
    from tx_mem.operate_refines [OF Cons.prems(2), of e oper i] Cons.prems(3)
    have "tm_valid (tx_step tx_InMemoryRepository c r)"
      "tm_transactions (tx_step tx_InMemoryRepository c r) = Map.empty"
      by (auto simp: c spec_operate_def)
    from Cons.IH [OF _ this] Cons.prems(1) show ?case by simp
  qed simp
  moreover have "\<forall>c \<in> set (concat (map (entry_calls codec) xs)). \<exists>e oper i. c = CallOperate e oper i"
    using entry_calls_operate by fastforce
  ultimately show ?thesis
    using tm_valid_new by (simp add: entry.run_served tx_NewInMemoryRepository_def)
qed

text \<open>Nor does the gateway look at who sends a request: what it answers does not depend on the headers.\<close>

theorem gateway_asks_nobody:
  assumes "\<And>b s. backend (a\<lparr>ta_request := b\<rparr>) s = backend (a\<lparr>ta_request := b\<lparr>rq_Header := h\<rparr>\<rparr>) s"
  shows "entry_serve ta_request backend (a\<lparr>ta_request := (ta_request a)\<lparr>rq_Header := h\<rparr>\<rparr>) s =
    entry_serve ta_request backend a s"
  using assms [of "ta_request a" s]
  by (simp add: entry_serve_def proxy_def health_handler_def canonical_def Let_def)

end
