(* ===== verification/HttpClient.thy ===== *)
theory HttpClient
  imports Base64 "HOL-Library.Char_ord" "HOL-Library.List_Lexorder"
begin

text \<open>
  What the clients of the payment providers use of \<open>net/http\<close> and \<open>net/url\<close>: requests, the check of a
  URL, the encoding of forms with its inverse, and basic authentication.

  The transport, \<open>Client.Do\<close> with the reading of the body, is a parameter: a function of the request and
  the state of the outside world.
\<close>

section \<open>Requests\<close>

text \<open>The names of the headers are written as \<open>Header.Set\<close> stores them.\<close>

record ClientRequest =
  hr_Method :: string
  hr_URL :: string
  hr_Header :: "string \<rightharpoonup> string"
  hr_Body :: string

record HttpResponse =
  hs_StatusCode :: nat
  hs_Body :: string

type_synonym 'w transport = "ClientRequest \<Rightarrow> 'w \<Rightarrow> (string + HttpResponse) \<times> 'w"

text \<open>A transport that keeps a record of the requests.\<close>

definition recording :: "'w transport \<Rightarrow> (ClientRequest list \<times> 'w) transport" where
  "recording http r = (\<lambda>(sent, w). case http r w of (answer, w') \<Rightarrow> (answer, sent @ [r], w'))"

lemma recording_state [simp]: "snd (recording http r (sent, w)) = (sent @ [r], snd (http r w))"
  by (simp add: recording_def split: prod.split)

definition put_header :: "string \<Rightarrow> string \<Rightarrow> ClientRequest \<Rightarrow> ClientRequest" where
  "put_header k v r = r\<lparr>hr_Header := (hr_Header r)(k \<mapsto> v)\<rparr>"

lemma put_header_simps [simp]:
  "hr_Method (put_header k v r) = hr_Method r"
  "hr_URL (put_header k v r) = hr_URL r"
  "hr_Body (put_header k v r) = hr_Body r"
  "hr_Header (put_header k v r) = (hr_Header r)(k \<mapsto> v)"
  by (simp_all add: put_header_def)

section \<open>URLs\<close>

text \<open>
  \<open>http.NewRequest\<close> fails if \<open>url.Parse\<close> does.  Of that the model has what can fail in the path, the query
  and the fragment: control characters, and a \<open>%\<close> without two hexadecimal digits.  The scheme and the host
  are taken to be good and to have no \<open>%\<close>.
\<close>

definition unhex :: "char \<Rightarrow> nat option" where
  "unhex c =
     (let n = of_char c in
      if 48 \<le> n \<and> n \<le> 57 then Some (n - 48)
      else if 97 \<le> n \<and> n \<le> 102 then Some (n - 87)
      else if 65 \<le> n \<and> n \<le> 70 then Some (n - 55)
      else None)"

fun bad_escape :: "string \<Rightarrow> string option" where
  "bad_escape [] = None"
| "bad_escape (c # s) =
     (if c = CHR ''%'' then
        (case s of
           h # l # rest \<Rightarrow>
             if unhex h = None \<or> unhex l = None then Some [c, h, l] else bad_escape rest
         | _ \<Rightarrow> Some (c # s))
      else bad_escape s)"

definition lower_hex :: "nat \<Rightarrow> char" where
  "lower_hex n = (if n < 10 then char_of (48 + n) else char_of (87 + n))"

text \<open>\<open>%q\<close>; bytes of other than ASCII characters are taken to be printable.\<close>

definition quote_char :: "char \<Rightarrow> string" where
  "quote_char c =
     (if c = CHR 0x22 then [CHR 0x5C, CHR 0x22]
      else if c = CHR 0x5C then [CHR 0x5C, CHR 0x5C]
      else if c = CHR 0x07 then [CHR 0x5C, CHR ''a'']
      else if c = CHR 0x08 then [CHR 0x5C, CHR ''b'']
      else if c = CHR 0x0C then [CHR 0x5C, CHR ''f'']
      else if c = CHR 0x0A then [CHR 0x5C, CHR ''n'']
      else if c = CHR 0x0D then [CHR 0x5C, CHR ''r'']
      else if c = CHR 0x09 then [CHR 0x5C, CHR ''t'']
      else if c = CHR 0x0B then [CHR 0x5C, CHR ''v'']
      else if (of_char c :: nat) < 32 \<or> c = CHR 0x7F
      then [CHR 0x5C, CHR ''x'', lower_hex (of_char c div 16), lower_hex (of_char c mod 16)]
      else [c])"

definition go_quote :: "string \<Rightarrow> string" where
  "go_quote s = CHR 0x22 # concat (map quote_char s) @ [CHR 0x22]"

definition control_char :: "char \<Rightarrow> bool" where
  "control_char c \<longleftrightarrow> (of_char c :: nat) < 32 \<or> c = CHR 0x7F"

definition url_error :: "string \<Rightarrow> string option" where
  "url_error url =
     (let (u, fragment) = split_first CHR ''#'' url;
          failed = (\<lambda>whole msg. Some (''parse '' @ go_quote whole @ '': '' @ msg)) in
      if list_ex control_char u then failed u ''net/url: invalid control character in URL''
      else (case bad_escape (fst (split_first CHR ''?'' u)) of
          Some e \<Rightarrow> failed u (''invalid URL escape '' @ go_quote e)
        | None \<Rightarrow>
            (case fragment of
               None \<Rightarrow> None
             | Some f \<Rightarrow>
                 (case bad_escape f of
                    Some e \<Rightarrow> failed url (''invalid URL escape '' @ go_quote e)
                  | None \<Rightarrow> None))))"

definition NewRequest :: "string \<Rightarrow> string \<Rightarrow> string \<Rightarrow> string + ClientRequest" where
  "NewRequest method url body =
     (case url_error url of
        Some msg \<Rightarrow> Inl msg
      | None \<Rightarrow> Inr \<lparr>hr_Method = method, hr_URL = url, hr_Header = Map.empty, hr_Body = body\<rparr>)"

lemma bad_escape_none: "CHR ''%'' \<notin> set s \<Longrightarrow> bad_escape s = None"
  by (induction s rule: bad_escape.induct) auto

lemma split_first_none: "c \<notin> set s \<Longrightarrow> split_first c s = (s, None)"
  by (induction s) auto

lemma plain_url:
  assumes "\<forall>c \<in> set url. \<not> control_char c \<and> c \<notin> {CHR ''#'', CHR ''?'', CHR ''%''}"
  shows "url_error url = None"
proof -
  have "split_first CHR ''#'' url = (url, None)" "split_first CHR ''?'' url = (url, None)"
    using assms by (auto intro!: split_first_none)
  moreover have "bad_escape url = None" using assms by (auto intro!: bad_escape_none)
  moreover have "\<not> list_ex control_char url" using assms by (simp add: list_ex_iff)
  ultimately show ?thesis by (simp add: url_error_def)
qed

section \<open>Forms\<close>

text \<open>\<open>url.Values\<close> with \<open>Set\<close> only: each key has one value.\<close>

type_synonym form = "(string \<times> string) list"

fun form_set :: "string \<Rightarrow> string \<Rightarrow> form \<Rightarrow> form" where
  "form_set k v [] = [(k, v)]"
| "form_set k v ((k', v') # rest) = (if k = k' then (k, v) # rest else (k', v') # form_set k v rest)"

definition upper_hex :: "nat \<Rightarrow> char" where
  "upper_hex n = (if n < 10 then char_of (48 + n) else char_of (55 + n))"

definition unreserved :: "char \<Rightarrow> bool" where
  "unreserved c \<longleftrightarrow>
     (let n = of_char c :: nat in
      97 \<le> n \<and> n \<le> 122 \<or> 65 \<le> n \<and> n \<le> 90 \<or> 48 \<le> n \<and> n \<le> 57) \<or> c \<in> set ''-_.~''"

definition query_char :: "char \<Rightarrow> string" where
  "query_char c =
     (if unreserved c then [c]
      else if c = CHR '' '' then ''+''
      else [CHR ''%'', upper_hex (of_char c div 16), upper_hex (of_char c mod 16)])"

definition QueryEscape :: "string \<Rightarrow> string" where
  "QueryEscape s = concat (map query_char s)"

definition form_encode :: "form \<Rightarrow> string" where
  "form_encode vs = join ''&'' (map (\<lambda>(k, v). QueryEscape k @ ''='' @ QueryEscape v) (sort_key fst vs))"

text \<open>The reading of a form, by \<open>url.ParseQuery\<close> or its like at the other end.\<close>

fun query_unescape :: "string \<Rightarrow> string option" where
  "query_unescape [] = Some []"
| "query_unescape (c # s) =
     (if c = CHR ''%'' then
        (case s of
           h # l # rest \<Rightarrow>
             (case (unhex h, unhex l) of
                (Some a, Some b) \<Rightarrow> map_option (\<lambda>t. char_of (16 * a + b) # t) (query_unescape rest)
              | _ \<Rightarrow> None)
         | _ \<Rightarrow> None)
      else map_option (\<lambda>t. (if c = CHR ''+'' then CHR '' '' else c) # t) (query_unescape s))"

definition form_field :: "string \<Rightarrow> (string \<times> string) option" where
  "form_field p =
     (case split_first CHR ''='' p of
        (k, v) \<Rightarrow>
          (case (query_unescape k, query_unescape (case v of None \<Rightarrow> [] | Some v \<Rightarrow> v)) of
             (Some k, Some v) \<Rightarrow> Some (k, v)
           | _ \<Rightarrow> None))"

definition form_parse :: "string \<Rightarrow> form option" where
  "form_parse s =
     (if CHR '';'' \<in> set s then None
      else those (map form_field (filter (\<lambda>p. p \<noteq> []) (split_char CHR ''&'' s))))"

subsection \<open>Forms are read as they were written\<close>

lemma byte_digits: "(of_char c :: nat) div 16 < 16" "(of_char c :: nat) mod 16 < 16"
proof -
  have "(of_char c :: nat) < 256" by (metis char_of_char mod_less_divisor of_char_of zero_less_numeral)
  then show "(of_char c :: nat) div 16 < 16" by (simp add: div_less_iff_less_mult)
  show "(of_char c :: nat) mod 16 < 16" by simp
qed

lemma hex_digit:
  assumes "n < 16"
  shows "unhex (upper_hex n) = Some n" "upper_hex n \<notin> {CHR ''&'', CHR ''='', CHR '';'', CHR ''%'', CHR ''+''}"
proof -
  have code: "(of_char (upper_hex n) :: nat) = (if n < 10 then 48 + n else 55 + n)"
    using assms by (simp add: upper_hex_def of_char_of)
  then show "unhex (upper_hex n) = Some n" using assms by (auto simp: unhex_def Let_def)
  have "c \<noteq> upper_hex n" if "(of_char c :: nat) < 48 \<or> 57 < (of_char c :: nat) \<and> (of_char c :: nat) < 65" for c
    using that code assms by (auto split: if_splits)
  from this [of "CHR ''&''"] this [of "CHR ''=''"] this [of "CHR '';''"] this [of "CHR ''%''"] this [of "CHR ''+''"]
  show "upper_hex n \<notin> {CHR ''&'', CHR ''='', CHR '';'', CHR ''%'', CHR ''+''}" by simp
qed

lemma not_unreserved: "\<not> unreserved CHR ''&''" "\<not> unreserved CHR ''=''" "\<not> unreserved CHR '';''"
    "\<not> unreserved CHR ''%''" "\<not> unreserved CHR ''+''" "\<not> unreserved CHR '' ''"
  by code_simp+

lemma query_char_marks: "set (query_char c) \<inter> {CHR ''&'', CHR ''='', CHR '';''} = {}"
  using not_unreserved hex_digit(2) [OF byte_digits(1), of c] hex_digit(2) [OF byte_digits(2), of c]
  by (auto simp: query_char_def)

lemma QueryEscape_marks:
  "CHR ''&'' \<notin> set (QueryEscape s)" "CHR ''='' \<notin> set (QueryEscape s)" "CHR '';'' \<notin> set (QueryEscape s)"
  using query_char_marks by (auto simp: QueryEscape_def)

lemma unescape_query_char: "query_unescape (query_char c @ s) = map_option (\<lambda>t. c # t) (query_unescape s)"
proof -
  have "char_of (16 * ((of_char c :: nat) div 16) + of_char c mod 16) = c" by simp
  moreover have "c \<noteq> CHR ''%''" "c \<noteq> CHR ''+''" if "unreserved c"
    using that not_unreserved by metis+
  ultimately show ?thesis
    using hex_digit(1) [OF byte_digits(1), of c] hex_digit(1) [OF byte_digits(2), of c]
    by (simp add: query_char_def)
qed

lemma query_unescape_escape [simp]: "query_unescape (QueryEscape s) = Some s"
  by (induction s) (simp_all add: QueryEscape_def unescape_query_char)

lemma split_join:
  assumes "ps \<noteq> []" "\<forall>p \<in> set ps. c \<notin> set p"
  shows "split_char c (join [c] ps) = ps"
proof -
  have "split_char c (p @ concat (map (\<lambda>q. c # q) qs)) = p # qs" if "\<forall>q \<in> set (p # qs). c \<notin> set q" for p qs
    using that
  proof (induction qs arbitrary: p)
    case (Cons q qs)
    then have "split_char c (q @ concat (map (\<lambda>q. c # q) qs)) = q # qs" by simp
    with Cons.prems show ?case by (simp add: split_char_append)
  qed (simp add: split_char_none)
  moreover have "(@) [c] = (\<lambda>q. c # q)" by auto
  ultimately show ?thesis using assms by (cases ps) (simp_all add: join_def)
qed

lemma those_map_Some: "(\<And>x. x \<in> set xs \<Longrightarrow> f x = Some (g x)) \<Longrightarrow> those (map f xs) = Some (map g xs)"
  by (induction xs) simp_all

lemma in_join: "x \<in> set (join sep ps) \<Longrightarrow> x \<in> set sep \<or> (\<exists>p \<in> set ps. x \<in> set p)"
  by (cases ps) (auto simp: join_def split: if_splits)

lemma form_parse_encode: "form_parse (form_encode vs) = Some (sort_key fst vs)"
proof (cases "sort_key fst vs = []")
  case True
  then show ?thesis by (simp add: form_encode_def form_parse_def join_def)
next
  case False
  let ?part = "\<lambda>(k, v). QueryEscape k @ ''='' @ QueryEscape v"
  have fields: "form_field (?part kv) = Some kv" for kv
    by (cases kv) (simp add: form_field_def split_first_some QueryEscape_marks)
  have marks: "CHR ''&'' \<notin> set (?part kv)" "CHR '';'' \<notin> set (?part kv)" "?part kv \<noteq> []" for kv
    by (cases kv, simp add: QueryEscape_marks)+
  have "split_char CHR ''&'' (form_encode vs) = map ?part (sort_key fst vs)"
    unfolding form_encode_def by (rule split_join) (use False marks(1) in \<open>auto simp del: set_sort\<close>)
  moreover have "CHR '';'' \<notin> set (form_encode vs)"
    using marks(2) by (auto simp: form_encode_def dest!: in_join)
  moreover have "filter (\<lambda>p. p \<noteq> []) (map ?part kvs) = map ?part kvs" for kvs
    by (rule filter_True) (use marks(3) in auto)
  moreover have "those (map form_field (map ?part kvs)) = Some kvs" for kvs
    using those_map_Some [of kvs "form_field \<circ> ?part" "\<lambda>kv. kv"] fields by simp
  ultimately show ?thesis by (simp add: form_parse_def del: map_map)
qed

section \<open>Basic authentication\<close>

text \<open>\<open>StdEncoding\<close> differs from \<open>RawURLEncoding\<close> in two characters and the padding.\<close>

definition b64_std_char :: "char \<Rightarrow> char" where
  "b64_std_char c = (if c = CHR ''-'' then CHR ''+'' else if c = CHR ''_'' then CHR ''/'' else c)"

definition b64_std :: "string \<Rightarrow> string" where
  "b64_std s =
     map b64_std_char (b64_encode (map of_char s)) @ replicate ((3 - length s mod 3) mod 3) CHR ''=''"

definition basic_auth :: "string \<Rightarrow> string \<Rightarrow> string" where
  "basic_auth username password = ''Basic '' @ b64_std (username @ '':'' @ password)"

lemma basic_auth_example: "basic_auth ''Aladdin'' ''open sesame'' = ''Basic QWxhZGRpbjpvcGVuIHNlc2FtZQ==''"
  by code_simp

end
