(* ===== verification/Stripe.thy ===== *)
theory Stripe
  imports HttpClient PaymentRouter
begin

text \<open>
  The client of Stripe, \<open>integrations/stripe/client.go\<close>: charges, refunds, the reading of a charge and the
  health check, as functions of a transport and the state of the outside world.

  What \<open>json.Unmarshal\<close> makes of an answer is a parameter.
\<close>

section \<open>The client\<close>

record stripe_Client =
  sc_APIKey :: string
  sc_BaseURL :: string

definition stripe_NewClient :: "string \<Rightarrow> stripe_Client" where
  "stripe_NewClient apiKey = \<lparr>sc_APIKey = apiKey, sc_BaseURL = ''https://api.stripe.com/v1''\<rparr>"

text \<open>
  The errors: the sentinels, with what they are wrapped with, and those of the library.
\<close>

datatype stripe_error =
  StripeInvalidAPIKey | StripeInvalidAmount | StripeNetworkError "string option"
| StripePaymentFailed nat string | StripeRefundFailed nat string | StripeGetFailed nat | StripeOther string

fun stripe_error_text :: "stripe_error \<Rightarrow> string" where
  "stripe_error_text StripeInvalidAPIKey = ''invalid API key''"
| "stripe_error_text StripeInvalidAmount = ''invalid amount''"
| "stripe_error_text (StripeNetworkError None) = ''network error''"
| "stripe_error_text (StripeNetworkError (Some err)) = ''network error: '' @ err"
| "stripe_error_text (StripePaymentFailed status body) =
     ''payment failed: status '' @ decimal status @ '', body: '' @ body"
| "stripe_error_text (StripeRefundFailed status body) =
     ''refund failed: status '' @ decimal status @ '', body: '' @ body"
| "stripe_error_text (StripeGetFailed status) = ''failed to get charge: status '' @ decimal status"
| "stripe_error_text (StripeOther err) = err"

record stripe_codec =
  sk_charge :: "string \<Rightarrow> string + ChargeResponse"
  sk_refund :: "string \<Rightarrow> string + StripeRefundResponse"

definition stripe_setHeaders :: "stripe_Client \<Rightarrow> string \<Rightarrow> ClientRequest \<Rightarrow> ClientRequest" where
  "stripe_setHeaders c idempotencyKey r =
     (let r = put_header ''Authorization'' (basic_auth (sc_APIKey c) []) r;
          r = put_header ''Stripe-Version'' ''2023-10-16'' r
      in if idempotencyKey \<noteq> [] then put_header ''Idempotency-Key'' idempotencyKey r else r)"

text \<open>Sending a request and reading the answer: the same statements in three operations.\<close>

definition stripe_do ::
  "'w transport \<Rightarrow> (nat \<Rightarrow> string \<Rightarrow> stripe_error) \<Rightarrow> (string \<Rightarrow> string + 'a) \<Rightarrow> ClientRequest \<Rightarrow> 'w \<Rightarrow>
    (stripe_error + 'a) \<times> 'w" where
  "stripe_do http failed decode r w =
     (case http r w of
        (Inl err, w') \<Rightarrow> (Inl (StripeNetworkError (Some err)), w')
      | (Inr resp, w') \<Rightarrow>
          if hs_StatusCode resp \<noteq> 200 then (Inl (failed (hs_StatusCode resp) (hs_Body resp)), w')
          else
            (case decode (hs_Body resp) of
               Inl err \<Rightarrow> (Inl (StripeOther err), w')
             | Inr answer \<Rightarrow> (Inr answer, w')))"

section \<open>Charges\<close>

definition charge_form :: "ChargeRequest \<Rightarrow> form" where
  "charge_form req =
     (let vs = form_set ''amount'' (signed_decimal (ch_Amount req)) [];
          vs = form_set ''currency'' (ch_Currency req) vs;
          vs = form_set ''source'' (ch_Source req) vs
      in if ch_Description req \<noteq> [] then form_set ''description'' (ch_Description req) vs else vs)"

definition stripe_Charge ::
  "stripe_codec \<Rightarrow> 'w transport \<Rightarrow> stripe_Client \<Rightarrow> ChargeRequest \<Rightarrow> 'w \<Rightarrow> (stripe_error + ChargeResponse) \<times> 'w" where
  "stripe_Charge codec http c req w =
     (if sint (ch_Amount req) \<le> 0 then (Inl StripeInvalidAmount, w)
      else
        (case NewRequest ''POST'' (sc_BaseURL c @ ''/charges'') (form_encode (charge_form req)) of
           Inl err \<Rightarrow> (Inl (StripeOther err), w)
         | Inr r \<Rightarrow>
             let r = stripe_setHeaders c (ch_IdempotencyKey req) r;
                 r = put_header ''Content-Type'' ''application/x-www-form-urlencoded'' r
             in stripe_do http StripePaymentFailed (sk_charge codec) r w))"

section \<open>Refunds\<close>

definition refund_form :: "StripeRefundRequest \<Rightarrow> form" where
  "refund_form req =
     (let vs = form_set ''charge'' (sf_ChargeID req) [];
          vs = (if 0 < sint (sf_Amount req) then form_set ''amount'' (signed_decimal (sf_Amount req)) vs else vs)
      in if sf_Reason req \<noteq> [] then form_set ''reason'' (sf_Reason req) vs else vs)"

definition stripe_Refund ::
  "stripe_codec \<Rightarrow> 'w transport \<Rightarrow> stripe_Client \<Rightarrow> StripeRefundRequest \<Rightarrow> 'w \<Rightarrow>
    (stripe_error + StripeRefundResponse) \<times> 'w" where
  "stripe_Refund codec http c req w =
     (case NewRequest ''POST'' (sc_BaseURL c @ ''/refunds'') (form_encode (refund_form req)) of
        Inl err \<Rightarrow> (Inl (StripeOther err), w)
      | Inr r \<Rightarrow>
          let r = stripe_setHeaders c [] r;
              r = put_header ''Content-Type'' ''application/x-www-form-urlencoded'' r
          in stripe_do http StripeRefundFailed (sk_refund codec) r w)"

section \<open>Reading a charge, and the health check\<close>

definition GetCharge ::
  "stripe_codec \<Rightarrow> 'w transport \<Rightarrow> stripe_Client \<Rightarrow> string \<Rightarrow> 'w \<Rightarrow> (stripe_error + ChargeResponse) \<times> 'w" where
  "GetCharge codec http c chargeID w =
     (case NewRequest ''GET'' (sc_BaseURL c @ ''/charges/'' @ chargeID) [] of
        Inl err \<Rightarrow> (Inl (StripeOther err), w)
      | Inr r \<Rightarrow>
          stripe_do http (\<lambda>status _. StripeGetFailed status) (sk_charge codec) (stripe_setHeaders c [] r) w)"

definition stripe_Healthcheck :: "'w transport \<Rightarrow> stripe_Client \<Rightarrow> 'w \<Rightarrow> stripe_error option \<times> 'w" where
  "stripe_Healthcheck http c w =
     (case NewRequest ''GET'' (sc_BaseURL c @ ''/balance'') [] of
        Inl err \<Rightarrow> (Some (StripeOther err), w)
      | Inr r \<Rightarrow>
          (case http (stripe_setHeaders c [] r) w of
             (Inl _, w') \<Rightarrow> (Some (StripeNetworkError None), w')
           | (Inr resp, w') \<Rightarrow>
               (if hs_StatusCode resp = 401 then Some StripeInvalidAPIKey else None, w')))"

text \<open>The client as the router uses it.\<close>

definition stripe_client :: "stripe_codec \<Rightarrow> 'w transport \<Rightarrow> stripe_Client \<Rightarrow> 'w StripeClient" where
  "stripe_client codec http c =
     \<lparr>st_Charge = (\<lambda>req w. apfst (map_sum stripe_error_text id) (stripe_Charge codec http c req w)),
      st_Refund = (\<lambda>req w. apfst (map_sum stripe_error_text id) (stripe_Refund codec http c req w)),
      st_Healthcheck = (\<lambda>w. apfst (map_option stripe_error_text) (stripe_Healthcheck http c w))\<rparr>"

section \<open>The requests\<close>

text \<open>The request of a charge, without the forms of Go.\<close>

definition charge_request :: "string \<Rightarrow> ChargeRequest \<Rightarrow> ClientRequest" where
  "charge_request key req =
     \<lparr>hr_Method = ''POST'', hr_URL = ''https://api.stripe.com/v1/charges'',
      hr_Header = [''Authorization'' \<mapsto> basic_auth key [], ''Stripe-Version'' \<mapsto> ''2023-10-16'',
        ''Content-Type'' \<mapsto> ''application/x-www-form-urlencoded''] ++
        (if ch_IdempotencyKey req = [] then Map.empty else [''Idempotency-Key'' \<mapsto> ch_IdempotencyKey req]),
      hr_Body = form_encode (charge_form req)\<rparr>"

lemma stripe_urls: "url_error ''https://api.stripe.com/v1/charges'' = None"
    "url_error ''https://api.stripe.com/v1/refunds'' = None"
  by (rule plain_url; simp add: control_char_def)+

lemma Charge_sends:
  "stripe_Charge codec http (stripe_NewClient key) req w =
     (if sint (ch_Amount req) \<le> 0 then (Inl StripeInvalidAmount, w)
      else stripe_do http StripePaymentFailed (sk_charge codec) (charge_request key req) w)"
proof -
  have "put_header ''Content-Type'' ''application/x-www-form-urlencoded''
      (stripe_setHeaders (stripe_NewClient key) (ch_IdempotencyKey req)
        \<lparr>hr_Method = ''POST'', hr_URL = ''https://api.stripe.com/v1/charges'', hr_Header = Map.empty,
         hr_Body = form_encode (charge_form req)\<rparr>) = charge_request key req"
    by (auto simp: charge_request_def stripe_setHeaders_def put_header_def stripe_NewClient_def fun_upd_twist
        map_add_def split: option.split)
  then show ?thesis by (simp add: stripe_Charge_def stripe_NewClient_def NewRequest_def stripe_urls)
qed

lemma stripe_do_recording: "snd (stripe_do (recording http) failed decode r (sent, w)) = (sent @ [r], snd (http r w))"
  by (simp add: stripe_do_def recording_def split: prod.split sum.split)

lemma form_order: "''amount'' < ''currency''" "''currency'' < ''description''" "''description'' < ''source''"
    "''amount'' < ''charge''" "''charge'' < ''reason''"
  by code_simp+


lemma charge_form_pairs:
  "sort_key fst (charge_form req) =
     [(''amount'', signed_decimal (ch_Amount req)), (''currency'', ch_Currency req)] @
     (if ch_Description req = [] then [] else [(''description'', ch_Description req)]) @
     [(''source'', ch_Source req)]"
  using form_order by (simp add: charge_form_def)

text \<open>
  C33: Stripe is asked once for the amount, currency, source and description that were requested.  A charge of no
  positive amount is refused and nothing is sent.  Otherwise exactly one request is sent, with the idempotency
  key if there is one, and its body reads back as a form whose fields, apart from any for the metadata of the
  charge, are the amount, the currency, the source and the description, if there is one, under these names,
  whatever characters they have.  (The metadata itself is not sent: \<open>metadata_not_sent\<close>.)
\<close>

theorem charge_sent_once:
  shows "if sint (ch_Amount req) \<le> 0
    then stripe_Charge codec (recording http) (stripe_NewClient key) req (sent, w) = (Inl StripeInvalidAmount, (sent, w))
    else \<exists>r fields.
      snd (stripe_Charge codec (recording http) (stripe_NewClient key) req (sent, w)) = (sent @ [r], snd (http r w)) \<and>
      hr_Method r = ''POST'' \<and> hr_URL r = ''https://api.stripe.com/v1/charges'' \<and>
      hr_Header r ''Idempotency-Key'' = (if ch_IdempotencyKey req = [] then None else Some (ch_IdempotencyKey req)) \<and>
      form_parse (hr_Body r) = Some fields \<and>
      [(k, v) \<leftarrow> fields. \<not> has_prefix k ''metadata''] =
        [(''amount'', decimal (nat (sint (ch_Amount req)))), (''currency'', ch_Currency req)] @
          (if ch_Description req = [] then [] else [(''description'', ch_Description req)]) @
          [(''source'', ch_Source req)]"
proof (cases "sint (ch_Amount req) \<le> 0")
  case False
  let ?fields = "[(''amount'', decimal (nat (sint (ch_Amount req)))), (''currency'', ch_Currency req)] @
          (if ch_Description req = [] then [] else [(''description'', ch_Description req)]) @
          [(''source'', ch_Source req)]"
  from False have "form_parse (hr_Body (charge_request key req)) = Some ?fields"
    by (simp add: charge_request_def form_parse_encode charge_form_pairs signed_decimal_def)
  with False show ?thesis
    by (intro iffD2 [OF if_not_P] exI [of _ "charge_request key req"] exI [of _ ?fields])
      (simp_all add: Charge_sends stripe_do_recording charge_request_def map_add_def has_prefix_def)
qed (simp add: Charge_sends)

text \<open>The metadata of a charge makes no difference to what is sent.\<close>

theorem metadata_not_sent:
  "stripe_Charge codec http c (req\<lparr>ch_Metadata := m\<rparr>) w = stripe_Charge codec http c req w"
proof -
  have "charge_form (req\<lparr>ch_Metadata := m\<rparr>) = charge_form req" by (simp add: charge_form_def Let_def)
  then show ?thesis by (simp add: stripe_Charge_def Let_def split: sum.split)
qed

text \<open>A refund of a negative amount asks for all of the charge.\<close>

lemma negative_stripe_refund_is_full:
  assumes "sint (sf_Amount req) \<le> 0"
  shows "stripe_Refund codec http c req = stripe_Refund codec http c (req\<lparr>sf_Amount := 0\<rparr>)"
proof -
  have "refund_form (req\<lparr>sf_Amount := 0\<rparr>) = refund_form req" using assms by (simp add: refund_form_def Let_def)
  then show ?thesis by (simp add: stripe_Refund_def fun_eq_iff)
qed

text \<open>An id with a \<open>?\<close> in it makes \<open>GetCharge\<close> read something else: here the list of all charges.\<close>

lemma charge_id_not_escaped:
  "snd (GetCharge codec (recording http) (stripe_NewClient key) ''?limit=100'' ([], w)) =
    ([stripe_setHeaders (stripe_NewClient key) [] \<lparr>hr_Method = ''GET'',
        hr_URL = ''https://api.stripe.com/v1/charges/?limit=100'', hr_Header = Map.empty, hr_Body = []\<rparr>],
     snd (http (stripe_setHeaders (stripe_NewClient key) [] \<lparr>hr_Method = ''GET'',
        hr_URL = ''https://api.stripe.com/v1/charges/?limit=100'', hr_Header = Map.empty, hr_Body = []\<rparr>) w))"
proof -
  have "url_error ''https://api.stripe.com/v1/charges/?limit=100'' = None" by code_simp
  then have "NewRequest ''GET'' ''https://api.stripe.com/v1/charges/?limit=100'' [] =
      Inr \<lparr>hr_Method = ''GET'', hr_URL = ''https://api.stripe.com/v1/charges/?limit=100'',
        hr_Header = Map.empty, hr_Body = []\<rparr>"
    by (simp add: NewRequest_def)
  then show ?thesis by (simp add: GetCharge_def stripe_NewClient_def stripe_do_recording)
qed

text \<open>A declined card is not taken for a client's error, whose attempts end.\<close>

lemma declined_card_retried:
  "\<not> isClientError (ErrClient (stripe_error_text (StripePaymentFailed 402 ''Your card was declined.'')))"
  by code_simp

end
