(* ===== verification/PayPal.thy ===== *)
theory PayPal
  imports HttpClient Json PaymentRouter
begin

text \<open>
  The client of PayPal, \<open>integrations/paypal/client.go\<close>: the access token with its two locked sections,
  orders, captures and refunds, as functions of a transport, a clock and the state of the outside world.

  What JSON decoding makes of an answer is a parameter; what is sent is written by the model of
  \<open>json.Marshal\<close>.
\<close>

section \<open>The client\<close>

record paypal_Client =
  pl_ClientID :: string
  pl_ClientSecret :: string
  pl_BaseURL :: string
  pl_Sandbox :: bool
  pl_accessToken :: string
  pl_tokenExpiry :: time

definition paypal_NewClient :: "string \<Rightarrow> string \<Rightarrow> bool \<Rightarrow> paypal_Client" where
  "paypal_NewClient clientID clientSecret sandbox =
     \<lparr>pl_ClientID = clientID, pl_ClientSecret = clientSecret,
      pl_BaseURL = (if sandbox then ''https://api-m.sandbox.paypal.com'' else ''https://api-m.paypal.com''),
      pl_Sandbox = sandbox, pl_accessToken = [], pl_tokenExpiry = zero_time\<rparr>"

datatype paypal_error =
  PayPalAuthFailed | PayPalNetworkError string | PayPalPaymentFailed nat string
| PayPalCaptureFailed nat string | PayPalRefundFailed nat string | PayPalGetFailed nat | PayPalOther string

definition status_text :: "nat \<Rightarrow> string \<Rightarrow> string" where
  "status_text status body = '': status '' @ decimal status @ '', body: '' @ body"

fun paypal_error_text :: "paypal_error \<Rightarrow> string" where
  "paypal_error_text PayPalAuthFailed = ''authentication failed''"
| "paypal_error_text (PayPalNetworkError err) = ''network error: '' @ err"
| "paypal_error_text (PayPalPaymentFailed status body) = ''payment failed'' @ status_text status body"
| "paypal_error_text (PayPalCaptureFailed status body) = ''capture failed'' @ status_text status body"
| "paypal_error_text (PayPalRefundFailed status body) = ''refund failed'' @ status_text status body"
| "paypal_error_text (PayPalGetFailed status) = ''failed to get order: status '' @ decimal status"
| "paypal_error_text (PayPalOther err) = err"

record TokenResponse =
  tk_AccessToken :: string
  tk_TokenType :: string
  tk_ExpiresIn :: int64

record paypal_codec =
  pk_token :: "string \<Rightarrow> string + TokenResponse"
  pk_order :: "string \<Rightarrow> string + OrderResponse"
  pk_refund :: "string \<Rightarrow> string + PayPalRefundResponse"

text \<open>The transport and the clock.\<close>

record 'w outside =
  ot_http :: "'w transport"
  ot_now :: "'w \<Rightarrow> time \<times> 'w"

section \<open>The access token\<close>

text \<open>The check that both sections begin with; the clock is read only if there is a token.\<close>

definition token_valid :: "'w outside \<Rightarrow> paypal_Client \<Rightarrow> 'w \<Rightarrow> bool \<times> 'w" where
  "token_valid out c w =
     (if pl_accessToken c \<noteq> [] then (case ot_now out w of (t, w') \<Rightarrow> (t < pl_tokenExpiry c, w'))
      else (False, w))"

definition token_fast :: "'w outside \<Rightarrow> paypal_Client \<Rightarrow> 'w \<Rightarrow> string option \<times> 'w" where
  "token_fast out c w =
     (case token_valid out c w of (valid, w') \<Rightarrow> (if valid then Some (pl_accessToken c) else None, w'))"

text \<open>\<open>time.Duration(ExpiresIn-60) * time.Second\<close>, with its wrap-around.\<close>

definition token_life :: "int64 \<Rightarrow> duration" where
  "token_life expiresIn = sint ((expiresIn - 60) * 1000000000)"

definition token_locked ::
  "paypal_codec \<Rightarrow> 'w outside \<Rightarrow> paypal_Client \<Rightarrow> 'w \<Rightarrow> (paypal_error + string) \<times> paypal_Client \<times> 'w" where
  "token_locked codec out c w =
     (case token_valid out c w of (valid, w') \<Rightarrow>
        if valid then (Inr (pl_accessToken c), c, w')
        else
          (case NewRequest ''POST'' (pl_BaseURL c @ ''/v1/oauth2/token'') ''grant_type=client_credentials'' of
             Inl err \<Rightarrow> (Inl (PayPalOther err), c, w')
           | Inr r \<Rightarrow>
               let auth = b64_std (pl_ClientID c @ '':'' @ pl_ClientSecret c);
                   r = put_header ''Authorization'' (''Basic '' @ auth) r;
                   r = put_header ''Content-Type'' ''application/x-www-form-urlencoded'' r
               in (case ot_http out r w' of
                     (Inl err, w'') \<Rightarrow> (Inl (PayPalNetworkError err), c, w'')
                   | (Inr resp, w'') \<Rightarrow>
                       if hs_StatusCode resp \<noteq> 200 then (Inl PayPalAuthFailed, c, w'')
                       else
                         (case pk_token codec (hs_Body resp) of
                            Inl err \<Rightarrow> (Inl (PayPalOther err), c, w'')
                          | Inr tokenResp \<Rightarrow>
                              (case ot_now out w'' of (t, w''') \<Rightarrow>
                                 let c' = c\<lparr>pl_accessToken := tk_AccessToken tokenResp,
                                            pl_tokenExpiry := t + token_life (tk_ExpiresIn tokenResp)\<rparr>
                                 in (Inr (pl_accessToken c'), c', w'''))))))"

definition getAccessToken ::
  "paypal_codec \<Rightarrow> 'w outside \<Rightarrow> paypal_Client \<Rightarrow> 'w \<Rightarrow> (paypal_error + string) \<times> paypal_Client \<times> 'w" where
  "getAccessToken codec out c w =
     (case token_fast out c w of
        (Some token, w') \<Rightarrow> (Inr token, c, w')
      | (None, w') \<Rightarrow> token_locked codec out c w')"

section \<open>Orders and refunds\<close>

text \<open>\<open>Header.Set\<close> stores \<open>PayPal-Request-Id\<close> under its canonical name.\<close>

definition paypal_setHeaders :: "'w outside \<Rightarrow> string \<Rightarrow> ClientRequest \<Rightarrow> 'w \<Rightarrow> ClientRequest \<times> 'w" where
  "paypal_setHeaders out token r w =
     (case ot_now out w of (t, w') \<Rightarrow>
        let r = put_header ''Authorization'' (''Bearer '' @ token) r;
            r = put_header ''Content-Type'' ''application/json'' r
        in (put_header ''Paypal-Request-Id'' (signed_decimal (word_of_int t)) r, w'))"

text \<open>From the headers to the answer: the same statements in four operations.\<close>

definition paypal_do ::
  "'w outside \<Rightarrow> string \<Rightarrow> nat list \<Rightarrow> (nat \<Rightarrow> string \<Rightarrow> paypal_error) \<Rightarrow> (string \<Rightarrow> string + 'a) \<Rightarrow> ClientRequest \<Rightarrow>
    'w \<Rightarrow> (paypal_error + 'a) \<times> 'w" where
  "paypal_do out token accepted failed decode r w =
     (case paypal_setHeaders out token r w of (r, w') \<Rightarrow>
       (case ot_http out r w' of
          (Inl err, w'') \<Rightarrow> (Inl (PayPalNetworkError err), w'')
        | (Inr resp, w'') \<Rightarrow>
            if hs_StatusCode resp \<notin> set accepted then (Inl (failed (hs_StatusCode resp) (hs_Body resp)), w'')
            else
              (case decode (hs_Body resp) of
                 Inl err \<Rightarrow> (Inl (PayPalOther err), w'')
               | Inr answer \<Rightarrow> (Inr answer, w''))))"

definition paypal_request ::
  "paypal_codec \<Rightarrow> 'w outside \<Rightarrow> paypal_Client \<Rightarrow> string \<Rightarrow> string \<Rightarrow> string \<Rightarrow> nat list \<Rightarrow>
    (nat \<Rightarrow> string \<Rightarrow> paypal_error) \<Rightarrow> (string \<Rightarrow> string + 'a) \<Rightarrow> 'w \<Rightarrow> (paypal_error + 'a) \<times> paypal_Client \<times> 'w" where
  "paypal_request codec out c method' path body accepted failed decode w =
     (case getAccessToken codec out c w of
        (Inl err, c', w') \<Rightarrow> (Inl err, c', w')
      | (Inr token, c', w') \<Rightarrow>
          (case NewRequest method' (pl_BaseURL c' @ path) body of
             Inl err \<Rightarrow> (Inl (PayPalOther err), c', w')
           | Inr r \<Rightarrow>
               (case paypal_do out token accepted failed decode r w' of (answer, w'') \<Rightarrow> (answer, c', w''))))"

text \<open>The JSON of the requests; the list of units is taken not to be nil.\<close>

definition non_empty :: "string \<Rightarrow> string \<Rightarrow> (string \<times> json) list" where
  "non_empty k v = (if v = [] then [] else [(k, JString v)])"

definition amount_json :: "Amount \<Rightarrow> json" where
  "amount_json a = JObject [(''currency_code'', JString (am_CurrencyCode a)), (''value'', JString (am_Value a))]"

definition unit_json :: "PurchaseUnit \<Rightarrow> json" where
  "unit_json u =
     JObject (non_empty ''reference_id'' (pu_ReferenceID u) @ [(''amount'', amount_json (pu_Amount u))] @
       non_empty ''description'' (pu_Description u))"

definition order_json :: "OrderRequest \<Rightarrow> json" where
  "order_json req =
     JObject ([(''intent'', JString (or_Intent req)), (''purchase_units'', JArray (map unit_json (or_PurchaseUnits req)))] @
       (case or_Payer req of
          None \<Rightarrow> []
        | Some p \<Rightarrow> [(''payer'', JObject (non_empty ''email_address'' (py_EmailAddress p)))]))"

definition refund_json :: "PayPalRefundRequest \<Rightarrow> json" where
  "refund_json req =
     JObject ((case pf_Amount req of None \<Rightarrow> [] | Some a \<Rightarrow> [(''amount'', amount_json a)]) @
       non_empty ''invoice_id'' (pf_InvoiceID req) @ non_empty ''note_to_payer'' (pf_NoteToPayer req))"

definition CreateOrder ::
  "paypal_codec \<Rightarrow> 'w outside \<Rightarrow> OrderRequest \<Rightarrow> paypal_Client \<Rightarrow> 'w \<Rightarrow> (paypal_error + OrderResponse) \<times> paypal_Client \<times> 'w" where
  "CreateOrder codec out req c w =
     paypal_request codec out c ''POST'' ''/v2/checkout/orders'' (json_text (order_json req))
       [201] PayPalPaymentFailed (pk_order codec) w"

definition CaptureOrder ::
  "paypal_codec \<Rightarrow> 'w outside \<Rightarrow> string \<Rightarrow> paypal_Client \<Rightarrow> 'w \<Rightarrow> (paypal_error + OrderResponse) \<times> paypal_Client \<times> 'w" where
  "CaptureOrder codec out orderID c w =
     paypal_request codec out c ''POST'' (''/v2/checkout/orders/'' @ orderID @ ''/capture'') []
       [201, 200] PayPalCaptureFailed (pk_order codec) w"

definition GetOrder ::
  "paypal_codec \<Rightarrow> 'w outside \<Rightarrow> string \<Rightarrow> paypal_Client \<Rightarrow> 'w \<Rightarrow> (paypal_error + OrderResponse) \<times> paypal_Client \<times> 'w" where
  "GetOrder codec out orderID c w =
     paypal_request codec out c ''GET'' (''/v2/checkout/orders/'' @ orderID) []
       [200] (\<lambda>status _. PayPalGetFailed status) (pk_order codec) w"

definition RefundCapture ::
  "paypal_codec \<Rightarrow> 'w outside \<Rightarrow> string \<Rightarrow> PayPalRefundRequest option \<Rightarrow> paypal_Client \<Rightarrow> 'w \<Rightarrow>
    (paypal_error + PayPalRefundResponse) \<times> paypal_Client \<times> 'w" where
  "RefundCapture codec out captureID req c w =
     paypal_request codec out c ''POST'' (''/v2/payments/captures/'' @ captureID @ ''/refund'')
       (case req of None \<Rightarrow> [] | Some r \<Rightarrow> json_text (refund_json r))
       [201, 200] PayPalRefundFailed (pk_refund codec) w"

definition paypal_Healthcheck ::
  "paypal_codec \<Rightarrow> 'w outside \<Rightarrow> paypal_Client \<Rightarrow> 'w \<Rightarrow> paypal_error option \<times> paypal_Client \<times> 'w" where
  "paypal_Healthcheck codec out c w =
     (case getAccessToken codec out c w of
        (Inl err, c', w') \<Rightarrow> (Some err, c', w')
      | (Inr _, c', w') \<Rightarrow> (None, c', w'))"

text \<open>The client as the router uses it; the client itself is part of the state.\<close>

definition paypal_client :: "paypal_codec \<Rightarrow> 'w outside \<Rightarrow> (paypal_Client \<times> 'w) PayPalClient" where
  "paypal_client codec out =
     \<lparr>pp_CreateOrder = (\<lambda>req (c, w). apfst (map_sum paypal_error_text id) (CreateOrder codec out req c w)),
      pp_RefundCapture =
        (\<lambda>captureID req (c, w). apfst (map_sum paypal_error_text id) (RefundCapture codec out captureID req c w)),
      pp_Healthcheck = (\<lambda>(c, w). apfst (map_option paypal_error_text) (paypal_Healthcheck codec out c w))\<rparr>"

end
