(* ===== verification/Payments.thy ===== *)
theory Payments
  imports Stripe PayPal
begin

text \<open>
  Payments from the router down to the requests: the router of \<open>integrations/router\<close> with the clients of
  \<open>integrations/stripe\<close> and \<open>integrations/paypal\<close> over one transport, which records what is sent.

  The state is the client of PayPal with its token, the record, and the rest of the world.
\<close>

section \<open>The router with its clients\<close>

type_synonym 'w sending = "paypal_Client \<times> ClientRequest list \<times> 'w"

definition shared :: "'v transport \<Rightarrow> ('c \<times> 'v) transport" where
  "shared http r = (\<lambda>(c, v). case http r v of (answer, v') \<Rightarrow> (answer, c, v'))"

definition recorded_outside :: "'w transport \<Rightarrow> ('w \<Rightarrow> time \<times> 'w) \<Rightarrow> (ClientRequest list \<times> 'w) outside" where
  "recorded_outside http now =
     \<lparr>ot_http = recording http, ot_now = (\<lambda>(sent, w). case now w of (t, w') \<Rightarrow> (t, sent, w'))\<rparr>"

text \<open>Any router, with the clients of the two packages.\<close>

definition with_clients ::
  "stripe_codec \<Rightarrow> paypal_codec \<Rightarrow> 'w transport \<Rightarrow> ('w \<Rightarrow> time \<times> 'w) \<Rightarrow> string \<Rightarrow> 'w sending Router \<Rightarrow> 'w sending Router" where
  "with_clients sk pk http now key r =
     r\<lparr>rt_stripeClient := Some (stripe_client sk (shared (recording http)) (stripe_NewClient key)),
       rt_paypalClient := Some (paypal_client pk (recorded_outside http now))\<rparr>"

section \<open>What a payment sends\<close>

text \<open>From one state to another only requests of a kind have been sent, and PayPal is where it was.\<close>

definition only_sent :: "(ClientRequest \<Rightarrow> bool) \<Rightarrow> ClientRequest list \<times> 'w \<Rightarrow> ClientRequest list \<times> 'w \<Rightarrow> bool" where
  "only_sent P v v' \<longleftrightarrow> (\<exists>requests. fst v' = fst v @ requests \<and> list_all P requests)"

definition payment_sends :: "(ClientRequest \<Rightarrow> bool) \<Rightarrow> 'w sending \<Rightarrow> 'w sending \<Rightarrow> bool" where
  "payment_sends P s s' \<longleftrightarrow> pl_BaseURL (fst s') = pl_BaseURL (fst s) \<and> only_sent P (snd s) (snd s')"

lemma only_sent_refl [simp]: "only_sent P v v"
  by (simp add: only_sent_def)

lemma only_sent_trans: "only_sent P u v \<Longrightarrow> only_sent P v w \<Longrightarrow> only_sent P u w"
  unfolding only_sent_def by (metis append.assoc list_all_append)

lemma payment_sends_refl: "payment_sends P s s"
  by (simp add: payment_sends_def)

lemma payment_sends_trans: "payment_sends P s t \<Longrightarrow> payment_sends P t u \<Longrightarrow> payment_sends P s u"
  unfolding payment_sends_def by (metis only_sent_trans)

lemma recording_sends: "recording http r v = (answer, v') \<Longrightarrow> P r \<Longrightarrow> only_sent P v v'"
  by (cases v) (auto simp: recording_def only_sent_def split: prod.splits)

lemma recorded_simps [simp]:
  "ot_http (recorded_outside http now) = recording http"
  "fst (snd (ot_now (recorded_outside http now) v)) = fst v"
  by (cases v, simp add: recorded_outside_def split: prod.split)+

lemma clock_sends: "ot_now (recorded_outside http now) v = (t, v') \<Longrightarrow> only_sent P v v'"
  using recorded_simps(2) [of http now v] by (simp add: only_sent_def)

text \<open>What relates the states before and after every attempt relates those before and after a payment.\<close>

lemma payment_relates:
  assumes refl: "\<And>w. R w w" and trans: "\<And>u v w. R u v \<Longrightarrow> R v w \<Longrightarrow> R u w"
    and step: "\<And>p w. R w (snd (executePayment r p req w))"
  shows "R w (snd (ProcessPayment r req w))"
proof -
  have attempts: "R w (snd (attempt_payment r n p req w))" for n p w
  proof (induction n arbitrary: w)
    case 0
    show ?case using step [of w p]
      by (subst attempt_payment.simps) (auto split: prod.splits sum.splits)
  next
    case (Suc n)
    show ?case using step [of w p] trans [OF _ Suc]
      by (subst attempt_payment.simps) (auto split: prod.splits sum.splits)
  qed
  have "R w (snd (process_providers r ps req lastErr w))" for ps lastErr w
  proof (induction ps arbitrary: lastErr w)
    case (Cons p ps)
    have "R w (snd (processWithProvider r p (the (rt_providers r p)) req w))"
      by (simp add: processWithProvider_def Let_def attempts)
    then show ?case using trans [OF _ Cons] by (auto split: prod.splits sum.splits)
  qed (simp add: refl)
  then show ?thesis by (simp add: ProcessPayment_def Let_def refl)
qed

subsection \<open>PayPal\<close>

text \<open>A request under the base URL of a client.\<close>

definition under :: "string \<Rightarrow> ClientRequest \<Rightarrow> bool" where
  "under base r \<longleftrightarrow> has_prefix (hr_URL r) base"

lemma NewRequest_under: "NewRequest m (base @ path) body = Inr r \<Longrightarrow> under base r"
  by (auto simp: NewRequest_def under_def has_prefix_def split: option.splits)

lemma under_put_header [simp]: "under base (put_header k v r) = under base r"
  by (simp add: under_def)

lemma token_valid_sends: "token_valid (recorded_outside http now) c v = (b, v') \<Longrightarrow> only_sent P v v'"
  by (auto simp: token_valid_def dest: clock_sends split: if_splits prod.splits)

lemma token_locked_sends:
  assumes "token_locked codec (recorded_outside http now) c v = (result, c', v')"
  shows "pl_BaseURL c' = pl_BaseURL c \<and> only_sent (under (pl_BaseURL c)) v v'"
proof -
  obtain b u where valid: "token_valid (recorded_outside http now) c v = (b, u)" by (rule prod.exhaust)
  note first = token_valid_sends [OF valid]
  show ?thesis
  proof (cases "b \<or> isl (NewRequest ''POST'' (pl_BaseURL c @ ''/v1/oauth2/token'') ''grant_type=client_credentials'')")
    case True
    with assms valid first show ?thesis by (cases b) (auto simp: token_locked_def isl_def)
  next
    case False
    then obtain r where r: "NewRequest ''POST'' (pl_BaseURL c @ ''/v1/oauth2/token'') ''grant_type=client_credentials'' = Inr r"
      by (auto simp: isl_def) (metis obj_sumE)
    let ?r = "put_header ''Content-Type'' ''application/x-www-form-urlencoded''
        (put_header ''Authorization'' (''Basic '' @ b64_std (pl_ClientID c @ '':'' @ pl_ClientSecret c)) r)"
    obtain answer u' where sent: "recording http ?r u = (answer, u')" by (rule prod.exhaust)
    have second: "only_sent (under (pl_BaseURL c)) u u'"
      using recording_sends [OF sent, of "under (pl_BaseURL c)"] NewRequest_under [OF r] by simp
    have "pl_BaseURL c' = pl_BaseURL c \<and> only_sent (under (pl_BaseURL c)) u' v'"
      using assms valid False r sent
      by (auto simp: token_locked_def Let_def dest: clock_sends split: sum.splits if_splits prod.splits)
    then show ?thesis using only_sent_trans [OF only_sent_trans [OF first second]] by blast
  qed
qed

lemma getAccessToken_sends:
  assumes "getAccessToken codec (recorded_outside http now) c v = (result, c', v')"
  shows "pl_BaseURL c' = pl_BaseURL c \<and> only_sent (under (pl_BaseURL c)) v v'"
proof -
  obtain token u where fast: "token_fast (recorded_outside http now) c v = (token, u)" by (rule prod.exhaust)
  then have first: "only_sent (under (pl_BaseURL c)) v u"
    by (auto simp: token_fast_def dest: token_valid_sends split: prod.splits)
  show ?thesis
  proof (cases token)
    case None
    with assms fast have "token_locked codec (recorded_outside http now) c u = (result, c', v')"
      by (simp add: getAccessToken_def)
    with first show ?thesis by (auto dest!: token_locked_sends intro: only_sent_trans)
  qed (use assms fast first in \<open>auto simp: getAccessToken_def\<close>)
qed

lemma paypal_do_sends:
  assumes "paypal_do (recorded_outside http now) token accepted failed decode r v = (result, v')" "under base r"
  shows "only_sent (under base) v v'"
proof -
  obtain t u where now: "ot_now (recorded_outside http now) v = (t, u)" by (rule prod.exhaust)
  obtain r' where r': "paypal_setHeaders (recorded_outside http now) token r v = (r', u)" "under base r'"
    using now assms(2) by (simp add: paypal_setHeaders_def Let_def)
  obtain answer u' where sent: "recording http r' u = (answer, u')" by (rule prod.exhaust)
  have "v' = u'" using assms(1) r' sent by (auto simp: paypal_do_def split: sum.splits if_splits)
  with clock_sends [OF now] recording_sends [OF sent, of "under base"] r'(2) show ?thesis by (metis only_sent_trans)
qed

lemma paypal_request_sends:
  assumes "paypal_request codec (recorded_outside http now) c m path body accepted failed decode v = (result, c', v')"
  shows "pl_BaseURL c' = pl_BaseURL c \<and> only_sent (under (pl_BaseURL c)) v v'"
proof -
  obtain token d u where got: "getAccessToken codec (recorded_outside http now) c v = (token, d, u)"
    by (metis prod_cases3)
  note first = getAccessToken_sends [OF got]
  show ?thesis
  proof (cases "isl token \<or> isl (NewRequest m (pl_BaseURL d @ path) body)")
    case True
    with assms got first show ?thesis by (cases token) (auto simp: paypal_request_def isl_def)
  next
    case False
    then obtain tok r where "token = Inr tok" and r: "NewRequest m (pl_BaseURL d @ path) body = Inr r"
      by (auto simp: isl_def) (metis obj_sumE)
    moreover obtain answer u' where
      sent: "paypal_do (recorded_outside http now) tok accepted failed decode r u = (answer, u')"
      by (rule prod.exhaust)
    ultimately have "c' = d" "v' = u'" using assms got by (auto simp: paypal_request_def)
    with first paypal_do_sends [OF sent NewRequest_under [OF r]] show ?thesis by (auto intro: only_sent_trans)
  qed
qed


subsection \<open>Payments\<close>

definition charge_of :: "PaymentRequest \<Rightarrow> ChargeRequest" where
  "charge_of req =
     \<lparr>ch_Amount = pq_Amount req, ch_Currency = pq_Currency req, ch_Source = pq_Source req,
      ch_Description = pq_Description req, ch_Metadata = pq_Metadata req,
      ch_IdempotencyKey = pq_IdempotencyKey req\<rparr>"

lemma stripe_attempt_sends:
  "payment_sends (\<lambda>x. x = charge_request key (charge_of req)) s
     (snd (executeStripePayment (with_clients sk pk http now key r) req s))"
proof -
  let ?http = "shared (recording http)" and ?c = "charge_of req"
  have do_sends: "snd (stripe_do ?http failed decode x (p, sent, w)) = (p, sent @ [x], snd (http x w))"
    for failed :: "nat \<Rightarrow> string \<Rightarrow> stripe_error" and decode :: "string \<Rightarrow> string + ChargeResponse" and x p sent w
    by (simp add: stripe_do_def shared_def recording_def split: prod.split sum.split)
  obtain p sent w where s: "s = (p, sent, w)" by (rule prod_cases3)
  obtain result s' where charge: "stripe_Charge sk ?http (stripe_NewClient key) ?c s = (result, s')"
    by (rule prod.exhaust)
  then have "snd (executeStripePayment (with_clients sk pk http now key r) req s) =
      snd (stripe_Charge sk ?http (stripe_NewClient key) ?c s)"
    by (simp add: executeStripePayment_def with_clients_def stripe_client_def charge_of_def
        split: sum.split)
  then show ?thesis
    by (simp add: s Charge_sends do_sends payment_sends_def only_sent_def)
qed

lemma paypal_attempt_sends:
  "payment_sends (under (pl_BaseURL (fst s))) s
     (snd (executePayPalPayment (with_clients sk pk http now key r) req s))"
proof -
  obtain c v where s: "s = (c, v)" by (rule prod.exhaust)
  obtain result c' v' where sent: "CreateOrder pk (recorded_outside http now)
      \<lparr>or_Intent = ''CAPTURE'',
       or_PurchaseUnits = [\<lparr>pu_ReferenceID = [],
          pu_Amount = \<lparr>am_CurrencyCode = pq_Currency req, am_Value = amount_string (pq_Amount req)\<rparr>,
          pu_Description = pq_Description req\<rparr>],
       or_Payer = None\<rparr> c v = (result, c', v')"
    by (rule prod_cases3)
  then have "snd (executePayPalPayment (with_clients sk pk http now key r) req s) = (c', v')"
    by (simp add: s executePayPalPayment_def with_clients_def paypal_client_def split: sum.split)
  moreover have "pl_BaseURL c' = pl_BaseURL c \<and> only_sent (under (pl_BaseURL c)) v v'"
    using paypal_request_sends sent unfolding CreateOrder_def by blast
  ultimately show ?thesis by (simp add: s payment_sends_def)
qed

lemma payment_sends_mono: "payment_sends P s t \<Longrightarrow> (\<And>x. P x \<Longrightarrow> Q x) \<Longrightarrow> payment_sends Q s t"
  unfolding payment_sends_def only_sent_def list_all_iff by blast

lemma paypal_not_stripe:
  "under (pl_BaseURL (paypal_NewClient clientID secret sandbox)) x \<Longrightarrow> \<not> under ''https://api.stripe.com'' x"
  by (auto simp: under_def paypal_NewClient_def has_prefix_iff split: if_splits)

text \<open>
  C7: All attempts of a payment ask Stripe for the same charge.  Whatever the two providers answer, and however
  many attempts are made, all the requests that a payment sends to Stripe are one and the same request, which
  carries the idempotency key of the payment, if that is not empty, and, read as a form, asks for its amount.
  (It is the key that keeps Stripe from charging twice: a payment without one has no such protection.)
\<close>

theorem payment_is_one_charge:
  fixes r :: "'w sending Router"
  shows "\<exists>requests charge.
    fst (snd (snd (ProcessPayment (with_clients sk pk http now key r) req
        ((paypal_NewClient clientID secret sandbox)\<lparr>pl_accessToken := token, pl_tokenExpiry := expiry\<rparr>, sent, w)))) =
      sent @ requests \<and>
    filter (under ''https://api.stripe.com'') requests =
      replicate (length (filter (under ''https://api.stripe.com'') requests)) charge \<and>
    hr_Header charge ''Idempotency-Key'' = (if pq_IdempotencyKey req = [] then None else Some (pq_IdempotencyKey req)) \<and>
    map_option (\<lambda>fs. map_of fs ''amount'') (form_parse (hr_Body charge)) = Some (Some (signed_decimal (pq_Amount req)))"
proof -
  let ?r = "with_clients sk pk http now key r" and ?charge = "charge_request key (charge_of req)"
  let ?c = "(paypal_NewClient clientID secret sandbox)\<lparr>pl_accessToken := token, pl_tokenExpiry := expiry\<rparr>"
  let ?kind = "\<lambda>x. x = ?charge \<or> under (pl_BaseURL ?c) x"
  define R where "R = (\<lambda>(s :: 'w sending) s'. pl_BaseURL (fst s) = pl_BaseURL ?c \<longrightarrow> payment_sends ?kind s s')"
  have stripe: "R s (snd (executeStripePayment ?r req s))" for s
    unfolding R_def by (intro impI payment_sends_mono [OF stripe_attempt_sends] disjI1)
  have paypal: "R s (snd (executePayPalPayment ?r req s))" for s
    unfolding R_def by (intro impI payment_sends_mono [OF paypal_attempt_sends] disjI2) simp
  have refl: "R s s" for s by (simp add: R_def payment_sends_refl)
  have step: "R s (snd (executePayment ?r p req s))" for p s
    unfolding executePayment_def using stripe paypal refl by (simp split: if_split)
  have trans: "R s u" if "R s t" "R t u" for s t u
    unfolding R_def
  proof
    assume base: "pl_BaseURL (fst s) = pl_BaseURL ?c"
    with that(1) have st: "payment_sends ?kind s t" by (simp add: R_def)
    with base have "pl_BaseURL (fst t) = pl_BaseURL ?c" by (simp add: payment_sends_def)
    with that(2) have "payment_sends ?kind t u" by (simp add: R_def)
    with st show "payment_sends ?kind s u" by (rule payment_sends_trans)
  qed
  have "R (?c, sent, w) (snd (ProcessPayment ?r req (?c, sent, w)))"
    by (rule payment_relates [of R, OF refl trans step])
  then obtain requests where requests:
      "fst (snd (snd (ProcessPayment ?r req (?c, sent, w)))) = sent @ requests" "list_all ?kind requests"
    by (auto simp: R_def payment_sends_def only_sent_def)
  have "filter (under ''https://api.stripe.com'') requests =
      replicate (length (filter (under ''https://api.stripe.com'') requests)) ?charge"
    using requests(2) paypal_not_stripe [of clientID secret sandbox]
    by (intro replicate_eqI) (auto simp: list_all_iff)
  moreover have "hr_Header ?charge ''Idempotency-Key'' =
      (if pq_IdempotencyKey req = [] then None else Some (pq_IdempotencyKey req))"
    by (simp add: charge_request_def charge_of_def map_add_def)
  moreover have "form_parse (hr_Body ?charge) = Some (sort_key fst (charge_form (charge_of req)))"
    by (simp add: charge_request_def form_parse_encode)
  ultimately show ?thesis
    using requests(1) by (intro exI [of _ requests] exI [of _ ?charge]) (simp add: charge_form_pairs charge_of_def)
qed


text \<open>
  Stripe's client refuses an amount that is not positive, with an error that ends its attempts; PayPal's does
  not look at amounts, and the router goes on to it with the same request.
\<close>

lemma negative_payment_reaches_paypal:
  assumes "sint (pq_Amount req) \<le> 0"
  shows "executeStripePayment (with_clients sk pk http now key r) req s = (Inl (ErrClient ''invalid amount''), s)"
    "isClientError (ErrClient ''invalid amount'')" "amount_string (- 500) = ''-5.00''"
proof -
  show "executeStripePayment (with_clients sk pk http now key r) req s = (Inl (ErrClient ''invalid amount''), s)"
    using assms Charge_sends [of sk "shared (recording http)" key "charge_of req" s]
    by (simp add: executeStripePayment_def with_clients_def stripe_client_def charge_of_def)
qed (code_simp+)

text \<open>The id of a request to PayPal is the time it is sent: another attempt is another request.\<close>

lemma paypal_request_id:
  "hr_Header (fst (paypal_setHeaders out token r w)) ''Paypal-Request-Id'' =
    Some (signed_decimal (word_of_int (fst (ot_now out w))))"
  by (simp add: paypal_setHeaders_def Let_def split: prod.split)

end
