(* ===== verification/PayPalTokens.thy ===== *)
theory PayPalTokens
  imports PayPal
begin

text \<open>
  The access token of the PayPal client under concurrency.  \<open>getAccessToken\<close> has two critical sections, one
  under the read lock and one under the write lock; the locks make each of them atomic, and the sections of
  the goroutines follow each other in any order.

  A run is a list of sections, each with the times its goroutine reads and with the answer that a request for
  a token would get.
\<close>

section \<open>Sections\<close>

record token_entry =
  te_entered :: time
  te_answer :: "string + HttpResponse"
  te_answered :: time

text \<open>The outside world of one section: its state is the requests sent in it.\<close>

definition entry_outside :: "token_entry \<Rightarrow> ClientRequest list outside" where
  "entry_outside e =
     \<lparr>ot_http = (\<lambda>r sent. (te_answer e, sent @ [r])),
      ot_now = (\<lambda>sent. (if sent = [] then te_entered e else te_answered e, sent))\<rparr>"

datatype token_section = Fast (entry: token_entry) | Locked (entry: token_entry)

fun run_section ::
  "paypal_codec \<Rightarrow> token_section \<Rightarrow> paypal_Client \<Rightarrow> (paypal_error + string) option \<times> paypal_Client \<times> ClientRequest list" where
  "run_section codec (Fast e) c =
     (case token_fast (entry_outside e) c [] of (token, sent) \<Rightarrow> (map_option Inr token, c, sent))"
| "run_section codec (Locked e) c =
     (case token_locked codec (entry_outside e) c [] of (result, c', sent) \<Rightarrow> (Some result, c', sent))"

primrec token_trace ::
  "paypal_codec \<Rightarrow> token_section list \<Rightarrow> paypal_Client \<Rightarrow> ((paypal_error + string) option \<times> ClientRequest list) list" where
  "token_trace codec [] c = []"
| "token_trace codec (s # ss) c =
     (case run_section codec s c of (result, c', sent) \<Rightarrow> (result, sent) # token_trace codec ss c')"

definition token_step :: "paypal_codec \<Rightarrow> token_section \<Rightarrow> paypal_Client \<Rightarrow> paypal_Client" where
  "token_step codec s c = fst (snd (run_section codec s c))"

text \<open>The token that an answer issues.\<close>

definition issued :: "paypal_codec \<Rightarrow> token_entry \<Rightarrow> TokenResponse option" where
  "issued codec e =
     (case te_answer e of
        Inl _ \<Rightarrow> None
      | Inr resp \<Rightarrow>
          if hs_StatusCode resp \<noteq> 200 then None
          else (case pk_token codec (hs_Body resp) of Inl _ \<Rightarrow> None | Inr t \<Rightarrow> Some t))"

definition valid_at :: "paypal_Client \<Rightarrow> time \<Rightarrow> bool" where
  "valid_at c t \<longleftrightarrow> pl_accessToken c \<noteq> [] \<and> t < pl_tokenExpiry c"

definition with_token :: "paypal_Client \<Rightarrow> token_entry \<Rightarrow> TokenResponse \<Rightarrow> paypal_Client" where
  "with_token c e t =
     c\<lparr>pl_accessToken := tk_AccessToken t, pl_tokenExpiry := te_answered e + token_life (tk_ExpiresIn t)\<rparr>"

lemma entry_valid: "token_valid (entry_outside e) c [] = (valid_at c (te_entered e), [])"
  by (simp add: token_valid_def entry_outside_def valid_at_def)

lemma entry_outside_simps [simp]:
  "ot_http (entry_outside e) r sent = (te_answer e, sent @ [r])"
  "ot_now (entry_outside e) sent = (if sent = [] then te_entered e else te_answered e, sent)"
  by (simp_all add: entry_outside_def)

lemma fast_section:
  "run_section codec (Fast e) c =
     (if valid_at c (te_entered e) then Some (Inr (pl_accessToken c)) else None, c, [])"
  by (simp add: token_fast_def entry_valid)

lemma locked_section [case_names valid failed issue]:
  obtains (valid) "valid_at c (te_entered e)" "run_section codec (Locked e) c = (Some (Inr (pl_accessToken c)), c, [])"
  | (failed) err sent where "\<not> valid_at c (te_entered e)" "run_section codec (Locked e) c = (Some (Inl err), c, sent)"
  | (issue) t r where "\<not> valid_at c (te_entered e)" "issued codec e = Some t"
      "run_section codec (Locked e) c = (Some (Inr (tk_AccessToken t)), with_token c e t, [r])"
proof (cases "valid_at c (te_entered e)")
  case True
  then show ?thesis by (intro valid) (simp_all add: token_locked_def entry_valid)
next
  case False
  show ?thesis
  proof (cases "NewRequest ''POST'' (pl_BaseURL c @ ''/v1/oauth2/token'') ''grant_type=client_credentials''")
    case (Inl err)
    with False show ?thesis by (intro failed) (simp_all add: token_locked_def entry_valid)
  next
    case (Inr r)
    show ?thesis
    proof (cases "issued codec e")
      case None
      with False Inr have "\<exists>err sent. run_section codec (Locked e) c = (Some (Inl err), c, sent)"
        by (auto simp: token_locked_def entry_valid issued_def Let_def split: sum.splits if_splits)
      with failed False show ?thesis by blast
    next
      case (Some t)
      with False Inr have "\<exists>r. run_section codec (Locked e) c =
          (Some (Inr (tk_AccessToken t)), with_token c e t, [r])"
        by (auto simp: token_locked_def entry_valid issued_def with_token_def Let_def split: sum.splits if_splits)
      with issue False Some show ?thesis by blast
    qed
  qed
qed

section \<open>One request for a token\<close>

text \<open>
  A window of time in which the tokens that are issued do not expire.
\<close>

definition token_window :: "paypal_codec \<Rightarrow> time \<Rightarrow> duration \<Rightarrow> token_entry \<Rightarrow> bool" where
  "token_window codec start window e \<longleftrightarrow>
     te_entered e < start + window \<and> start \<le> te_answered e \<and>
     (case issued codec e of
        None \<Rightarrow> True
      | Some t \<Rightarrow> tk_AccessToken t \<noteq> [] \<and> window \<le> token_life (tk_ExpiresIn t))"

lemma valid_trace:
  assumes "\<forall>s \<in> set ss. token_window codec start window (entry s)" "pl_accessToken c = token" "token \<noteq> []"
    "start + window \<le> pl_tokenExpiry c"
  shows "\<forall>x \<in> set (token_trace codec ss c). x = (Some (Inr token), [])"
  using assms(1)
proof (induction ss)
  case (Cons s ss)
  then have "valid_at c (te_entered (entry s))"
    using assms(2-4) by (simp add: token_window_def valid_at_def)
  then have "run_section codec s c = (Some (Inr token), c, [])"
  proof (cases s)
    case (Locked e)
    with \<open>valid_at c (te_entered (entry s))\<close> assms(2) show ?thesis
      by (cases rule: locked_section [of c e codec]) simp_all
  qed (use assms(2) in \<open>simp add: fast_section del: run_section.simps\<close>)
  with Cons show ?case by simp
qed simp

text \<open>
  C16: Tokens are not requested twice.  Let any number of goroutines call the client in any interleaving, within
  a time in which no token they get expires.  Once one of them has requested a token and got it, every section
  that looks for a token after that, also of goroutines that had found none before, gets this token, and
  none sends a request.
\<close>

theorem one_token_request:
  assumes "\<forall>s \<in> set ss. token_window codec start window (entry s)"
    and "token_trace codec ss c = before @ (Some (Inr token), [r]) # after"
  shows "\<forall>x \<in> set after. x = (Some (Inr token), [])"
  using assms
proof (induction ss arbitrary: c before)
  case (Cons s ss)
  obtain result c' sent where head: "run_section codec s c = (result, c', sent)" by (cases "run_section codec s c")
  show ?case
  proof (cases before)
    case (Cons x before')
    with Cons.prems head have "token_trace codec ss c' = before' @ (Some (Inr token), [r]) # after" by simp
    with Cons.IH [of c' before'] Cons.prems(1) show ?thesis by simp
  next
    case Nil
    with Cons.prems(2) head have now: "result = Some (Inr token)" "sent = [r]" "after = token_trace codec ss c'"
      by simp_all
    obtain e where s: "s = Locked e"
      using now(2) head by (cases s) (auto simp: fast_section simp del: run_section.simps)
    have window: "token_window codec start window e" using Cons.prems(1) s by simp
    show ?thesis
    proof (cases rule: locked_section [of c e codec, case_names valid failed issue])
      case (issue t r')
      then have "c' = with_token c e t" "token = tk_AccessToken t" using head now s by simp_all
      then show ?thesis
        unfolding now(3) using window issue(2) Cons.prems(1)
        by (intro valid_trace [where start = start and window = window])
          (auto simp: token_window_def with_token_def)
    qed (use head now s in simp_all)
  qed
qed simp

text \<open>Two goroutines that both find no token; the body of an answer is the token, valid for an hour.\<close>

definition example_codec :: paypal_codec where
  "example_codec =
     \<lparr>pk_token = (\<lambda>body. Inr \<lparr>tk_AccessToken = body, tk_TokenType = ''Bearer'', tk_ExpiresIn = 3600\<rparr>),
      pk_order = (\<lambda>_. Inl []), pk_refund = (\<lambda>_. Inl [])\<rparr>"

definition example_entry :: "time \<Rightarrow> string \<Rightarrow> token_entry" where
  "example_entry t token =
     \<lparr>te_entered = t, te_answer = Inr \<lparr>hs_StatusCode = 200, hs_Body = token\<rparr>, te_answered = t + 5\<rparr>"

definition example_sections :: "token_section list" where
  "example_sections =
     [Fast (example_entry 1 ''A''), Fast (example_entry 2 ''B''),
      Locked (example_entry 3 ''A''), Locked (example_entry 9 ''B'')]"

definition example_client :: paypal_Client where
  "example_client = paypal_NewClient ''id'' ''secret'' True"

lemma example_trace:
  "\<exists>r. token_trace example_codec example_sections example_client =
     [(None, []), (None, [])] @ (Some (Inr ''A''), [r]) # [(Some (Inr ''A''), [])]"
proof -
  have url: "url_error ''https://api-m.sandbox.paypal.com/v1/oauth2/token'' = None"
    by (rule plain_url) (simp add: control_char_def)
  have life: "token_life 3600 = 3540000000000" by code_simp
  have "\<exists>r. run_section example_codec (Locked (example_entry 3 ''A'')) example_client =
      (Some (Inr ''A''), with_token example_client (example_entry 3 ''A'')
         \<lparr>tk_AccessToken = ''A'', tk_TokenType = ''Bearer'', tk_ExpiresIn = 3600\<rparr>, [r])"
    using url by (simp add: token_locked_def entry_valid valid_at_def example_client_def paypal_NewClient_def
        NewRequest_def example_entry_def example_codec_def with_token_def Let_def)
  then show ?thesis
    by (auto simp: example_sections_def token_fast_def token_locked_def entry_valid valid_at_def example_client_def
        paypal_NewClient_def with_token_def example_entry_def life)
qed

lemma example_in_window:
  "\<forall>s \<in> set example_sections. token_window example_codec 0 1000 (entry s)"
proof -
  have "token_life 3600 = 3540000000000" by code_simp
  then show ?thesis
    by (simp add: example_sections_def token_window_def issued_def example_entry_def example_codec_def)
qed

lemma one_token_request_witness:
  "last (token_trace example_codec example_sections example_client) = (Some (Inr ''A''), [])"
proof -
  obtain r after where "token_trace example_codec example_sections example_client =
      [(None, []), (None, [])] @ (Some (Inr ''A''), [r]) # after" "after \<noteq> []"
    using example_trace by blast
  with one_token_request [OF example_in_window this(1)] show ?thesis by simp
qed

section \<open>Tokens come from PayPal\<close>

text \<open>What the client has stored was issued in one of the sections, with its expiry.\<close>

definition stored_ok :: "paypal_codec \<Rightarrow> token_section list \<Rightarrow> paypal_Client \<Rightarrow> bool" where
  "stored_ok codec ss c \<longleftrightarrow>
     pl_accessToken c = [] \<or>
     (\<exists>e t. Locked e \<in> set ss \<and> issued codec e = Some t \<and> pl_accessToken c = tk_AccessToken t \<and>
        pl_tokenExpiry c = te_answered e + token_life (tk_ExpiresIn t))"

lemma stored_run: "stored_ok codec ss (run (token_step codec) ss (paypal_NewClient clientID clientSecret sandbox))"
proof (induction ss rule: rev_induct)
  case Nil
  then show ?case by (simp add: stored_ok_def paypal_NewClient_def)
next
  case (snoc s ss)
  let ?c = "run (token_step codec) ss (paypal_NewClient clientID clientSecret sandbox)"
  have step: "run (token_step codec) (ss @ [s]) (paypal_NewClient clientID clientSecret sandbox) =
      fst (snd (run_section codec s ?c))"
    by (simp add: run_append token_step_def)
  have kept: "stored_ok codec (ss @ [s]) ?c" using snoc by (auto simp: stored_ok_def)
  show ?case
  proof (cases s)
    case (Fast e)
    with kept show ?thesis unfolding step by (simp add: fast_section del: run_section.simps)
  next
    case (Locked e)
    show ?thesis
    proof (cases rule: locked_section [of ?c e codec, case_names valid failed issue])
      case issue: (issue t r)
      with Locked show ?thesis unfolding step stored_ok_def
        by (intro disjI2 exI [where x = e] exI [where x = t]) (simp add: with_token_def del: run_section.simps)
    qed (use kept Locked step in simp_all)
  qed
qed

text \<open>
  Every token that is used was issued by PayPal and has not expired.  After any interleaving of sections of
  any goroutines on a new client, a token that a section returns, unless it is empty, is one that PayPal issued
  in this section or in an earlier one; in the latter case its life, reckoned from when the answer came, has not
  passed when the section looks at it.
\<close>

theorem token_was_issued:
  assumes "run_section codec s (run (token_step codec) ss (paypal_NewClient clientID clientSecret sandbox)) =
      (Some (Inr token), c, sent)" "token \<noteq> []"
  shows "\<exists>e t. Locked e \<in> set (ss @ [s]) \<and> issued codec e = Some t \<and> token = tk_AccessToken t \<and>
    (if sent = [] then te_entered (entry s) < te_answered e + token_life (tk_ExpiresIn t) else s = Locked e)"
proof -
  let ?c = "run (token_step codec) ss (paypal_NewClient clientID clientSecret sandbox)"
  have old: ?thesis if "valid_at ?c (te_entered (entry s))" "token = pl_accessToken ?c" "sent = []"
    using stored_run [of codec ss clientID clientSecret sandbox] that
    by (auto simp: stored_ok_def valid_at_def)
  show ?thesis
  proof (cases s)
    case (Fast e)
    with assms(1) show ?thesis by (intro old) (auto simp: fast_section simp del: run_section.simps split: if_splits)
  next
    case (Locked e)
    show ?thesis
    proof (cases rule: locked_section [of ?c e codec, case_names valid failed issue])
      case valid
      with assms(1) Locked show ?thesis by (intro old) simp_all
    next
      case (failed err sent)
      with assms(1) Locked show ?thesis by simp
    next
      case (issue t r)
      with assms(1) Locked show ?thesis by (intro exI [where x = e] exI [where x = t]) simp
    qed
  qed
qed


lemma token_was_issued_witness:
  "\<exists>e t. issued example_codec e = Some t \<and> ''A'' = tk_AccessToken t"
proof -
  have url: "url_error ''https://api-m.sandbox.paypal.com/v1/oauth2/token'' = None"
    by (rule plain_url) (simp add: control_char_def)
  obtain c sent where "run_section example_codec (Locked (example_entry 3 ''A''))
      (run (token_step example_codec) [] (paypal_NewClient ''id'' ''secret'' True)) = (Some (Inr ''A''), c, sent)"
    using url by (simp add: token_locked_def entry_valid valid_at_def paypal_NewClient_def
        NewRequest_def example_entry_def example_codec_def Let_def)
  from token_was_issued [OF this] show ?thesis by auto
qed

text \<open>
  An answer without a token is no error: the empty token is returned and used, and the next caller requests
  one again.
\<close>

lemma empty_token_used:
  assumes "issued codec e = Some t" "tk_AccessToken t = []" "pl_accessToken c = []"
    "url_error (pl_BaseURL c @ ''/v1/oauth2/token'') = None"
  shows "\<exists>sent. run_section codec (Locked e) c = (Some (Inr []), with_token c e t, sent)"
  using assms
  by (auto simp: issued_def token_locked_def entry_valid valid_at_def with_token_def NewRequest_def Let_def
      split: sum.splits if_splits)

text \<open>The life of a token is a minute less than PayPal says, as long as that is less than 292 years.\<close>

lemma token_life_exact:
  assumes "- 9000000000 \<le> sint e" "sint e \<le> 9000000000"
  shows "token_life e = (sint e - 60) * 1000000000"
proof -
  have "word_of_int ((sint e - 60) * 1000000000) = (e - 60) * (1000000000 :: int64)"
    by simp
  then have "token_life e = sint (word_of_int ((sint e - 60) * 1000000000) :: int64)"
    by (simp only: token_life_def)
  also have "\<dots> = (sint e - 60) * 1000000000" by (rule sint64_of_int) (use assms in simp_all)
  finally show ?thesis .
qed

end
