(* ===== verification/Lifecycle.thy ===== *)
theory Lifecycle
  imports Go_Prelude "HOL-Library.Multiset"
begin

text \<open>
  The life of the programs: the second half of the \<open>main\<close> functions under \<open>services/*/cmd\<close>.

  Four programs start a server, wait for its error or for a signal, and on a signal shut down: no more
  requests are accepted, those in flight have 30 seconds, and then the connections are closed.  The ledger and
  the notification program call \<open>http.ListenAndServe\<close> and take no signals, so that the default of the Go
  runtime ends them.  \<open>Server.Shutdown\<close> and \<open>Server.Close\<close> do what their documentation says.
\<close>

section \<open>Servers\<close>

record ServerConfig =
  sv_Addr :: string
  sv_ReadTimeout :: duration
  sv_WriteTimeout :: duration
  sv_IdleTimeout :: duration

abbreviation sec :: duration where "sec \<equiv> 1000000000"

definition account_server :: ServerConfig where
  "account_server = \<lparr>sv_Addr = '':8082'', sv_ReadTimeout = 15 * sec, sv_WriteTimeout = 15 * sec,
     sv_IdleTimeout = 60 * sec\<rparr>"

definition transaction_server :: ServerConfig where
  "transaction_server = \<lparr>sv_Addr = '':8081'', sv_ReadTimeout = 15 * sec, sv_WriteTimeout = 15 * sec,
     sv_IdleTimeout = 60 * sec\<rparr>"

definition authentication_server :: ServerConfig where
  "authentication_server = \<lparr>sv_Addr = '':8080'', sv_ReadTimeout = 15 * sec, sv_WriteTimeout = 15 * sec,
     sv_IdleTimeout = 60 * sec\<rparr>"

definition gateway_server :: ServerConfig where
  "gateway_server = \<lparr>sv_Addr = '':8000'', sv_ReadTimeout = 15 * sec, sv_WriteTimeout = 15 * sec,
     sv_IdleTimeout = 60 * sec\<rparr>"

text \<open>The server of \<open>http.ListenAndServe\<close> has no time limits.\<close>

definition plain_server :: "string \<Rightarrow> ServerConfig" where
  "plain_server addr = \<lparr>sv_Addr = addr, sv_ReadTimeout = 0, sv_WriteTimeout = 0, sv_IdleTimeout = 0\<rparr>"

definition ledger_server :: ServerConfig where
  "ledger_server = plain_server '':8084''"

definition notification_server :: ServerConfig where
  "notification_server = plain_server '':8083''"

section \<open>Programs\<close>

datatype phase = Serving | Draining time | Exited nat

text \<open>
  A program that serves requests of type \<open>'r\<close>: those in flight, those answered, those whose connection was
  closed, and what it has logged.
\<close>

record 'r program =
  pg_phase :: phase
  pg_inflight :: "'r list"
  pg_answered :: "'r list"
  pg_cut :: "'r list"
  pg_now :: time
  pg_log :: "string list"

definition started :: "string list \<Rightarrow> time \<Rightarrow> 'r program" where
  "started lines now =
     \<lparr>pg_phase = Serving, pg_inflight = [], pg_answered = [], pg_cut = [], pg_now = now, pg_log = lines\<rparr>"

text \<open>The end of the process: the connections that are left go with it.\<close>

definition log_line :: "string \<Rightarrow> 'r program \<Rightarrow> 'r program" where
  "log_line line p = p\<lparr>pg_log := pg_log p @ [line]\<rparr>"

definition exit_program :: "nat \<Rightarrow> 'r program \<Rightarrow> 'r program" where
  "exit_program status p =
     p\<lparr>pg_phase := Exited status, pg_inflight := [], pg_cut := pg_cut p @ pg_inflight p\<rparr>"

text \<open>The two cases of the \<open>select\<close>, and the branches of the shutdown.\<close>

definition server_closed :: string where
  "server_closed = ''http: Server closed''"

definition on_server_error :: "string option \<Rightarrow> 'r program \<Rightarrow> 'r program" where
  "on_server_error err p =
     (case err of
        Some msg \<Rightarrow>
          if msg \<noteq> server_closed then exit_program 1 (log_line (''server error: '' @ msg) p) else exit_program 0 p
      | None \<Rightarrow> exit_program 0 p)"

definition grace :: duration where
  "grace = 30 * sec"

definition on_signal :: "string \<Rightarrow> 'r program \<Rightarrow> 'r program" where
  "on_signal sig p =
     (log_line (''received signal '' @ sig @ '', initiating graceful shutdown'') p)
       \<lparr>pg_phase := Draining (pg_now p + grace)\<rparr>"

definition on_drained :: "'r program \<Rightarrow> 'r program" where
  "on_drained p = exit_program 0 (log_line ''server shutdown complete'' p)"

definition on_deadline :: "string option \<Rightarrow> 'r program \<Rightarrow> 'r program" where
  "on_deadline closeErr p =
     (let p = log_line ''graceful shutdown failed: context deadline exceeded, forcing close'' p in
      case closeErr of
        Some msg \<Rightarrow> exit_program 1 (log_line (''forced close failed: '' @ msg) p)
      | None \<Rightarrow> exit_program 0 (log_line ''server shutdown complete'' p))"

text \<open>
  What can happen.  A request is accepted while the server serves, and finishes until the process has
  ended.  \<open>ListenAndServe\<close> always returns an error, and \<open>ErrServerClosed\<close> only after \<open>Shutdown\<close> is called, when
  nobody waits for it any more.  \<open>Shutdown\<close> returns when nothing is in flight, or at the deadline of its context.
\<close>

inductive program_step :: "'r program \<Rightarrow> 'r program \<Rightarrow> bool" where
  accept: "pg_phase p = Serving \<Longrightarrow> program_step p (p\<lparr>pg_inflight := r # pg_inflight p\<rparr>)"
| finish: "pg_inflight p = rs @ r # rs' \<Longrightarrow> \<forall>status. pg_phase p \<noteq> Exited status \<Longrightarrow>
    program_step p (p\<lparr>pg_inflight := rs @ rs', pg_answered := r # pg_answered p\<rparr>)"
| tick: "0 \<le> d \<Longrightarrow> program_step p (p\<lparr>pg_now := pg_now p + d\<rparr>)"
| server_error: "pg_phase p = Serving \<Longrightarrow> msg \<noteq> server_closed \<Longrightarrow> program_step p (on_server_error (Some msg) p)"
| signal: "pg_phase p = Serving \<Longrightarrow> program_step p (on_signal sig p)"
| drained: "pg_phase p = Draining deadline \<Longrightarrow> pg_inflight p = [] \<Longrightarrow> program_step p (on_drained p)"
| deadline: "pg_phase p = Draining deadline \<Longrightarrow> deadline \<le> pg_now p \<Longrightarrow> program_step p (on_deadline closeErr p)"

text \<open>A program without signals: here one ends the process at once (status 143 for \<open>SIGTERM\<close>).\<close>

inductive plain_step :: "'r program \<Rightarrow> 'r program \<Rightarrow> bool" where
  accept: "pg_phase p = Serving \<Longrightarrow> plain_step p (p\<lparr>pg_inflight := r # pg_inflight p\<rparr>)"
| finish: "pg_inflight p = rs @ r # rs' \<Longrightarrow> \<forall>status. pg_phase p \<noteq> Exited status \<Longrightarrow>
    plain_step p (p\<lparr>pg_inflight := rs @ rs', pg_answered := r # pg_answered p\<rparr>)"
| tick: "0 \<le> d \<Longrightarrow> plain_step p (p\<lparr>pg_now := pg_now p + d\<rparr>)"
| server_error: "pg_phase p = Serving \<Longrightarrow> plain_step p (exit_program 1 (log_line (''Server failed: '' @ msg) p))"
| signal: "pg_phase p = Serving \<Longrightarrow> plain_step p (exit_program 143 p)"


section \<open>The programs\<close>

text \<open>The states a program can get into; it starts with its lines in the log.\<close>

definition graceful_main :: "string list \<Rightarrow> time \<Rightarrow> 'r program \<Rightarrow> bool" where
  "graceful_main lines now = program_step\<^sup>*\<^sup>* (started lines now)"

definition plain_main :: "string list \<Rightarrow> time \<Rightarrow> 'r program \<Rightarrow> bool" where
  "plain_main lines now = plain_step\<^sup>*\<^sup>* (started lines now)"

definition account_main :: "time \<Rightarrow> 'r program \<Rightarrow> bool" where
  "account_main = graceful_main
     [''Account service starting on :8082'',
      ''Endpoints:'',
      ''  POST   /accounts                    - Create account'',
      ''  GET    /accounts                    - List accounts'',
      ''  GET    /accounts/{id}               - Get account'',
      ''  PUT    /accounts/{id}               - Update account'',
      ''  POST   /accounts/{id}/activate      - Activate account'',
      ''  POST   /accounts/{id}/freeze        - Freeze account'',
      ''  POST   /accounts/{id}/unfreeze      - Unfreeze account'',
      ''  POST   /accounts/{id}/close         - Close account'',
      ''  POST   /accounts/{id}/kyc           - Update KYC status'',
      ''  POST   /accounts/{id}/payment-instruments - Add payment method'',
      ''  DELETE /accounts/{id}/payment-instruments/{pid} - Remove payment method'',
      ''  POST   /accounts/{id}/credit        - Credit balance'',
      ''  POST   /accounts/{id}/debit         - Debit balance'']"

definition transaction_main :: "time \<Rightarrow> 'r program \<Rightarrow> bool" where
  "transaction_main = graceful_main
     [''Transaction service starting on :8081'',
      ''Endpoints:'',
      ''  POST   /transactions          - Create transaction'',
      ''  GET    /transactions          - List transactions'',
      ''  GET    /transactions/{id}     - Get transaction'',
      ''  POST   /transactions/{id}/authorize - Authorize'',
      ''  POST   /transactions/{id}/complete  - Complete'',
      ''  POST   /transactions/{id}/cancel    - Cancel'',
      ''  POST   /transactions/{id}/refund    - Refund'']"

definition authentication_main :: "time \<Rightarrow> 'r program \<Rightarrow> bool" where
  "authentication_main = graceful_main
     [''authentication service listening on :8080'']"

definition gateway_main :: "time \<Rightarrow> 'r program \<Rightarrow> bool" where
  "gateway_main = graceful_main
     [''api-gateway listening on :8000'']"

definition ledger_main :: "time \<Rightarrow> 'r program \<Rightarrow> bool" where
  "ledger_main = plain_main
     [''Ledger service starting on :8084'',
      ''Endpoints:'',
      ''  GET    /accounts         - List accounts'',
      ''  POST   /accounts         - Create account'',
      ''  GET    /accounts/{id}    - Get account'',
      ''  GET    /accounts/{id}/entries - Get account entries'',
      ''  POST   /journals         - Create journal entry'',
      ''  GET    /journals/{id}    - Get journal'',
      ''  GET    /trial-balance    - Get trial balance'',
      ''  GET    /audit-logs       - Get audit logs'',
      ''  POST   /record-payment   - Record payment'',
      ''  POST   /record-refund    - Record refund'']"

definition notification_main :: "time \<Rightarrow> 'r program \<Rightarrow> bool" where
  "notification_main = plain_main
     [''Notification service starting on :8083'',
      ''Endpoints:'',
      ''  POST   /notifications    - Send notification'',
      ''  GET    /notifications    - List notifications'',
      ''  POST   /events           - Trigger event'',
      ''  POST   /webhooks         - Register webhook'']"

section \<open>Shutdown\<close>

text \<open>All the requests a program has accepted.\<close>

definition requests_of :: "'r program \<Rightarrow> 'r multiset" where
  "requests_of p = mset (pg_inflight p) + mset (pg_answered p) + mset (pg_cut p)"

lemma log_line_simps [simp]:
  "pg_phase (log_line l p) = pg_phase p" "pg_inflight (log_line l p) = pg_inflight p"
  "pg_answered (log_line l p) = pg_answered p" "pg_cut (log_line l p) = pg_cut p" "pg_now (log_line l p) = pg_now p"
  by (simp_all add: log_line_def)

lemma exit_program_simps [simp]:
  "pg_phase (exit_program st p) = Exited st" "pg_now (exit_program st p) = pg_now p"
  "pg_cut (exit_program st p) = pg_cut p @ pg_inflight p" "requests_of (exit_program st p) = requests_of p"
  by (simp_all add: exit_program_def requests_of_def)

text \<open>What holds from a signal on, which came in the state \<open>q\<close>.\<close>

definition shutting_down :: "'r program \<Rightarrow> 'r program \<Rightarrow> bool" where
  "shutting_down q p \<longleftrightarrow>
     requests_of p = requests_of q \<and>
     (pg_cut p = pg_cut q \<or> pg_now q + grace \<le> pg_now p) \<and>
     (pg_phase p = Draining (pg_now q + grace) \<and> pg_cut p = pg_cut q \<or> (\<exists>status. pg_phase p = Exited status))"

lemma shutting_down_starts: "shutting_down q (on_signal sig q)"
  by (simp add: shutting_down_def on_signal_def requests_of_def log_line_def)

lemma shutting_down_step:
  assumes "shutting_down q p" "program_step p p'"
  shows "shutting_down q p'"
  using assms(2)
proof cases
  case (finish rs r rs')
  with assms(1) show ?thesis by (auto simp: shutting_down_def requests_of_def)
next
  case (tick d)
  with assms(1) show ?thesis by (auto simp: shutting_down_def requests_of_def)
next
  case (drained deadline)
  with assms(1) show ?thesis by (auto simp: shutting_down_def on_drained_def) (auto simp: requests_of_def)
next
  case (deadline deadline closeErr)
  with assms(1) show ?thesis
    by (auto simp: shutting_down_def on_deadline_def Let_def split: option.split) (auto simp: requests_of_def)
qed (use assms(1) in \<open>auto simp: shutting_down_def\<close>)

lemma shutting_down_run: "program_step\<^sup>*\<^sup>* (on_signal sig q) p \<Longrightarrow> shutting_down q p"
  by (induction rule: rtranclp_induct) (auto intro: shutting_down_starts shutting_down_step)

text \<open>
  After a signal no request is accepted and none is lost, and none that is in flight is cut off before 30
  seconds have passed.
\<close>

theorem shutdown_is_graceful:
  assumes "program_step\<^sup>*\<^sup>* (on_signal sig q) p"
  shows "requests_of p = requests_of q \<and> (pg_cut p = pg_cut q \<or> pg_now q + grace \<le> pg_now p)"
  using shutting_down_run [OF assms] by (simp add: shutting_down_def)

text \<open>A state 10 seconds after a signal, with a request in flight and one that has been answered.\<close>

lemma shutdown_is_graceful_witness:
  "let q = (started [] 0)\<lparr>pg_inflight := [1, 2 :: nat]\<rparr>;
       p = (on_signal ''terminated'' q)\<lparr>pg_inflight := [2], pg_answered := [1], pg_now := 10 * sec\<rparr>
   in requests_of p = requests_of q"
proof -
  define q where "q = (started [] 0)\<lparr>pg_inflight := [1, 2 :: nat]\<rparr>"
  define p where "p = (on_signal ''terminated'' q)\<lparr>pg_inflight := [] @ [2], pg_answered := 1 # pg_answered q\<rparr>"
  have q: "pg_inflight (on_signal ''terminated'' q) = [] @ 1 # [2]"
      "pg_answered (on_signal ''terminated'' q) = pg_answered q"
      "\<forall>status. pg_phase (on_signal ''terminated'' q) \<noteq> Exited status"
    by (simp_all add: q_def on_signal_def log_line_def started_def)
  have "program_step (on_signal ''terminated'' q) p"
    using program_step.finish [OF q(1,3)] by (simp add: p_def q(2))
  moreover have "program_step p (p\<lparr>pg_now := pg_now p + 10 * sec\<rparr>)"
    by (rule program_step.tick) simp
  ultimately have "program_step\<^sup>*\<^sup>* (on_signal ''terminated'' q) (p\<lparr>pg_now := pg_now p + 10 * sec\<rparr>)"
    by (meson rtranclp.rtrancl_refl rtranclp.rtrancl_into_rtrancl)
  from shutdown_is_graceful [OF this] show ?thesis
    by (simp add: p_def q_def Let_def started_def on_signal_def log_line_def)
qed

text \<open>And the process ends: from every state after the signal it can at the latest at the deadline.\<close>

lemma shutdown_ends:
  assumes "program_step\<^sup>*\<^sup>* (on_signal sig q) p"
  shows "\<exists>p' status. program_step\<^sup>*\<^sup>* p p' \<and> pg_phase p' = Exited status \<and>
    pg_now p' \<le> max (pg_now p) (pg_now q + grace)"
proof (cases "\<exists>status. pg_phase p = Exited status")
  case True
  then show ?thesis by (metis max.cobounded1 rtranclp.rtrancl_refl)
next
  case False
  then have draining: "pg_phase p = Draining (pg_now q + grace)"
    using shutting_down_run [OF assms] by (auto simp: shutting_down_def)
  let ?d = "max 0 (pg_now q + grace - pg_now p)"
  let ?p = "p\<lparr>pg_now := pg_now p + ?d\<rparr>"
  have "program_step p ?p" by (rule program_step.tick) simp
  moreover have "program_step ?p (on_deadline None ?p)"
    using draining by (intro program_step.deadline) auto
  ultimately have "program_step\<^sup>*\<^sup>* p (on_deadline None ?p)"
    by (meson rtranclp.rtrancl_refl rtranclp.rtrancl_into_rtrancl)
  then show ?thesis
    by (intro exI [of _ "on_deadline None ?p"] exI [of _ 0]) (auto simp: on_deadline_def Let_def)
qed

text \<open>The ledger and the notification program: a signal cuts off whatever is in flight.\<close>

lemma plain_signal_cuts:
  assumes "pg_phase p = Serving"
  shows "plain_step p (exit_program 143 p)" "pg_cut (exit_program 143 p) = pg_cut p @ pg_inflight p"
  using plain_step.signal [OF assms] by simp_all


text \<open>A request is cut off only if the log says why.\<close>

lemma nothing_cut_silently:
  assumes "graceful_main lines now p"
  shows "pg_cut p = [] \<or> (\<exists>msg. ''server error: '' @ msg \<in> set (pg_log p)) \<or>
    ''graceful shutdown failed: context deadline exceeded, forcing close'' \<in> set (pg_log p)"
  using assms unfolding graceful_main_def
proof (induction rule: rtranclp_induct)
  case base
  then show ?case by (simp add: started_def)
next
  case (step p q)
  from step.hyps(2) show ?case
  proof cases
    case (server_error msg)
    then show ?thesis by (auto simp: on_server_error_def exit_program_def log_line_def)
  next
    case (drained deadline)
    with step.IH show ?thesis by (auto simp: on_drained_def exit_program_def log_line_def)
  next
    case (deadline deadline closeErr)
    then show ?thesis by (auto simp: on_deadline_def exit_program_def log_line_def Let_def split: option.split)
  qed (use step.IH in \<open>auto simp: on_signal_def log_line_def\<close>)
qed

end
