(* ===== verification/Mocks.thy ===== *)
theory Mocks
  imports Complex_Main HttpClient Api
begin

text \<open>
  The mocks for tests, \<open>libs/testing/mocks.go\<close>: the database with its transactions and rows, the cache, the
  HTTP client and the server.  The message queue is in the theory \<open>MockQueue\<close>.

  A value of type \<open>interface{}\<close> is of any type \<open>'v\<close>.  Each operation holds the lock of its mock; what an
  operation reads from the clock is an argument.  The latencies only delay.
\<close>

section \<open>The database\<close>

datatype 'v argument = ArgID string | ArgData 'v

record 'v QueryRecord =
  qr_Query :: string
  qr_Args :: "'v argument list"
  qr_Timestamp :: time

text \<open>\<open>md_failure\<close> is \<open>failureError\<close>, which can be nil.\<close>

record 'v TestDB =
  md_data :: "string \<rightharpoonup> (string \<rightharpoonup> 'v)"
  md_queries :: "'v QueryRecord list"
  md_shouldFail :: bool
  md_failure :: "string option"
  md_latency :: duration

definition NewTestDB :: "'v TestDB" where
  "NewTestDB = \<lparr>md_data = Map.empty, md_queries = [], md_shouldFail = False, md_failure = None, md_latency = 0\<rparr>"

definition md_SetFailure :: "string option \<Rightarrow> 'v TestDB \<Rightarrow> 'v TestDB" where
  "md_SetFailure err m = m\<lparr>md_shouldFail := True, md_failure := err\<rparr>"

definition md_ClearFailure :: "'v TestDB \<Rightarrow> 'v TestDB" where
  "md_ClearFailure m = m\<lparr>md_shouldFail := False, md_failure := None\<rparr>"

definition md_SetLatency :: "duration \<Rightarrow> 'v TestDB \<Rightarrow> 'v TestDB" where
  "md_SetLatency d m = m\<lparr>md_latency := d\<rparr>"

definition md_Insert :: "time \<Rightarrow> string \<Rightarrow> string \<Rightarrow> 'v \<Rightarrow> 'v TestDB \<Rightarrow> string option \<times> 'v TestDB" where
  "md_Insert now table id' data m =
     (if md_shouldFail m then (md_failure m, m)
      else
        let rows = (case md_data m table of None \<Rightarrow> Map.empty | Some rows \<Rightarrow> rows) in
        (None, m\<lparr>md_data := (md_data m)(table \<mapsto> rows(id' \<mapsto> data)),
                 md_queries := md_queries m @
                   [\<lparr>qr_Query = ''INSERT INTO '' @ table, qr_Args = [ArgID id', ArgData data], qr_Timestamp = now\<rparr>]\<rparr>))"

definition md_Get :: "time \<Rightarrow> string \<Rightarrow> string \<Rightarrow> 'v TestDB \<Rightarrow> 'v option \<times> 'v TestDB" where
  "md_Get now table id' m =
     (let m = m\<lparr>md_queries := md_queries m @
            [\<lparr>qr_Query = ''SELECT FROM '' @ table, qr_Args = [ArgID id'], qr_Timestamp = now\<rparr>]\<rparr> in
      case md_data m table of
        Some rows \<Rightarrow> (rows id', m)
      | None \<Rightarrow> (None, m))"

definition md_Delete :: "time \<Rightarrow> string \<Rightarrow> string \<Rightarrow> 'v TestDB \<Rightarrow> string option \<times> 'v TestDB" where
  "md_Delete now table id' m =
     (if md_shouldFail m then (md_failure m, m)
      else
        let m = (case md_data m table of
              Some rows \<Rightarrow> m\<lparr>md_data := (md_data m)(table \<mapsto> rows(id' := None))\<rparr>
            | None \<Rightarrow> m)
        in (None, m\<lparr>md_queries := md_queries m @
              [\<lparr>qr_Query = ''DELETE FROM '' @ table, qr_Args = [ArgID id'], qr_Timestamp = now\<rparr>]\<rparr>))"

definition md_GetQueries :: "'v TestDB \<Rightarrow> 'v QueryRecord list" where
  "md_GetQueries m = md_queries m"

definition md_ClearQueries :: "'v TestDB \<Rightarrow> 'v TestDB" where
  "md_ClearQueries m = m\<lparr>md_queries := []\<rparr>"

definition md_Reset :: "'v TestDB \<Rightarrow> 'v TestDB" where
  "md_Reset m =
     m\<lparr>md_data := Map.empty, md_queries := [], md_shouldFail := False, md_failure := None, md_latency := 0\<rparr>"

text \<open>A transaction refers to its database, and does nothing with it.\<close>

record MockTx =
  mt_committed :: bool
  mt_rolledback :: bool

definition BeginTx :: "'v TestDB \<Rightarrow> MockTx" where
  "BeginTx m = \<lparr>mt_committed = False, mt_rolledback = False\<rparr>"

definition mt_Commit :: "MockTx \<Rightarrow> string option \<times> MockTx" where
  "mt_Commit tx = (None, tx\<lparr>mt_committed := True\<rparr>)"

definition mt_Rollback :: "MockTx \<Rightarrow> string option \<times> MockTx" where
  "mt_Rollback tx = (None, tx\<lparr>mt_rolledback := True\<rparr>)"

definition IsCommitted :: "MockTx \<Rightarrow> bool" where
  "IsCommitted tx = mt_committed tx"

definition IsRolledback :: "MockTx \<Rightarrow> bool" where
  "IsRolledback tx = mt_rolledback tx"

section \<open>Rows\<close>

text \<open>A value in a row, and the type of a destination of \<open>Scan\<close>.\<close>

datatype cell = CellString string | CellInt int64 | CellInt64 int64 | CellFloat real | CellBool bool | CellTime time | CellOther nat

datatype destination = ToString | ToInt | ToInt64 | ToFloat64 | ToBool | ToTime | ToInterface | ToOther

record MockRows =
  mw_columns :: "string list"
  mw_data :: "cell list list"
  mw_index :: int64
  mw_closed :: bool

definition NewMockRows :: "string list \<Rightarrow> cell list list \<Rightarrow> MockRows" where
  "NewMockRows columns data = \<lparr>mw_columns = columns, mw_data = data, mw_index = - 1, mw_closed = False\<rparr>"

definition mw_Columns :: "MockRows \<Rightarrow> string list" where
  "mw_Columns r = mw_columns r"

definition mw_Next :: "MockRows \<Rightarrow> bool \<times> MockRows" where
  "mw_Next r =
     (let r = r\<lparr>mw_index := mw_index r + 1\<rparr>
      in (sint (mw_index r) < int (length (mw_data r)), r))"

text \<open>The new value of a destination, or \<open>None\<close> when it is left as it is.\<close>

fun assign :: "destination \<Rightarrow> cell \<Rightarrow> cell option" where
  "assign ToString (CellString s) = Some (CellString s)"
| "assign ToInt (CellInt n) = Some (CellInt n)"
| "assign ToInt64 (CellInt64 n) = Some (CellInt64 n)"
| "assign ToFloat64 (CellFloat f) = Some (CellFloat f)"
| "assign ToBool (CellBool b) = Some (CellBool b)"
| "assign ToTime (CellTime t) = Some (CellTime t)"
| "assign ToInterface c = Some c"
| "assign _ _ = None"

definition mw_Scan :: "destination list \<Rightarrow> MockRows \<Rightarrow> string + cell option list" where
  "mw_Scan dest r =
     (let i = sint (mw_index r) in
      if i < 0 \<or> int (length (mw_data r)) \<le> i then Inl ''sql: no rows in result set''
      else
        let row = mw_data r ! nat i
        in Inr (map (\<lambda>j. if j < length row then assign (dest ! j) (row ! j) else None) [0..<length dest]))"

definition mw_Close :: "MockRows \<Rightarrow> string option \<times> MockRows" where
  "mw_Close r = (None, r\<lparr>mw_closed := True\<rparr>)"

definition mw_Err :: "MockRows \<Rightarrow> string option" where
  "mw_Err r = None"

section \<open>The cache\<close>

text \<open>\<open>None\<close> is the zero expiration.\<close>

record 'v cacheEntry =
  cn_value :: 'v
  cn_expiration :: "time option"

record 'v MockCache =
  mc_data :: "string \<rightharpoonup> 'v cacheEntry"
  mc_shouldFail :: bool
  mc_failure :: "string option"
  mc_hits :: int64
  mc_misses :: int64

definition NewMockCache :: "'v MockCache" where
  "NewMockCache = \<lparr>mc_data = Map.empty, mc_shouldFail = False, mc_failure = None, mc_hits = 0, mc_misses = 0\<rparr>"

definition mc_Set :: "time \<Rightarrow> string \<Rightarrow> 'v \<Rightarrow> duration \<Rightarrow> 'v MockCache \<Rightarrow> string option \<times> 'v MockCache" where
  "mc_Set now key v ttl m =
     (if mc_shouldFail m then (mc_failure m, m)
      else
        (None, m\<lparr>mc_data := (mc_data m)(key \<mapsto>
           \<lparr>cn_value = v, cn_expiration = (if 0 < ttl then Some (now + ttl) else None)\<rparr>)\<rparr>))"

definition mc_Get :: "time \<Rightarrow> string \<Rightarrow> 'v MockCache \<Rightarrow> 'v option \<times> 'v MockCache" where
  "mc_Get now key m =
     (case mc_data m key of
        None \<Rightarrow> (None, m\<lparr>mc_misses := mc_misses m + 1\<rparr>)
      | Some entry \<Rightarrow>
          if (case cn_expiration entry of None \<Rightarrow> False | Some t \<Rightarrow> t < now)
          then (None, m\<lparr>mc_data := (mc_data m)(key := None), mc_misses := mc_misses m + 1\<rparr>)
          else (Some (cn_value entry), m\<lparr>mc_hits := mc_hits m + 1\<rparr>))"

definition mc_Delete :: "string \<Rightarrow> 'v MockCache \<Rightarrow> string option \<times> 'v MockCache" where
  "mc_Delete key m =
     (if mc_shouldFail m then (mc_failure m, m) else (None, m\<lparr>mc_data := (mc_data m)(key := None)\<rparr>))"

definition mc_SetFailure :: "string option \<Rightarrow> 'v MockCache \<Rightarrow> 'v MockCache" where
  "mc_SetFailure err m = m\<lparr>mc_shouldFail := True, mc_failure := err\<rparr>"

definition mc_ClearFailure :: "'v MockCache \<Rightarrow> 'v MockCache" where
  "mc_ClearFailure m = m\<lparr>mc_shouldFail := False, mc_failure := None\<rparr>"

definition mc_Stats :: "'v MockCache \<Rightarrow> int64 \<times> int64" where
  "mc_Stats m = (mc_hits m, mc_misses m)"

definition mc_Reset :: "'v MockCache \<Rightarrow> 'v MockCache" where
  "mc_Reset m = m\<lparr>mc_data := Map.empty, mc_hits := 0, mc_misses := 0, mc_shouldFail := False, mc_failure := None\<rparr>"


section \<open>The HTTP client\<close>

text \<open>
  \<open>Header.Set\<close> stores a key in its canonical form, unless it has characters that no header has.
\<close>

definition header_char :: "char \<Rightarrow> bool" where
  "header_char c \<longleftrightarrow>
     (let n = of_char c :: nat in
      97 \<le> n \<and> n \<le> 122 \<or> 65 \<le> n \<and> n \<le> 90 \<or> 48 \<le> n \<and> n \<le> 57) \<or> c = CHR 0x27 \<or> c = CHR 0x60 \<or>
     c \<in> set ''!#$%&*+-.^_|~''"

definition header_upper :: "char \<Rightarrow> char" where
  "header_upper c = (if 97 \<le> (of_char c :: nat) \<and> (of_char c :: nat) \<le> 122 then char_of (of_char c - 32 :: nat) else c)"

fun canonical_case :: "bool \<Rightarrow> string \<Rightarrow> string" where
  "canonical_case upper [] = []"
| "canonical_case upper (c # s) =
     (if upper then header_upper c else lower_byte c) # canonical_case (c = CHR ''-'') s"

definition CanonicalHeaderKey :: "string \<Rightarrow> string" where
  "CanonicalHeaderKey key = (if list_all header_char key then canonical_case True key else key)"

lemma canonical_example: "CanonicalHeaderKey ''PayPal-Request-Id'' = ''Paypal-Request-Id''"
  by code_simp

text \<open>
  What a reader does with a buffer of a size: the bytes it gives, and whether that is the end.
  \<open>io.ReadAll\<close> begins with a buffer of 512 bytes, and reads on until the end.  \<open>stringReader\<close> keeps no
  position and says that its first bytes are the end.
\<close>

type_synonym reader = "nat \<Rightarrow> string \<times> bool"

definition stringReader_Read :: "string \<Rightarrow> reader" where
  "stringReader_Read s n = (take n s, True)"

definition ReadAll_first :: "reader \<Rightarrow> string option" where
  "ReadAll_first r = (case r 512 of (bytes, ended) \<Rightarrow> if ended then Some bytes else None)"

record MockResponse =
  mr_StatusCode :: nat
  mr_Body :: reader
  mr_Header :: "string \<rightharpoonup> string"

record MockHTTPClient =
  mh_responses :: "string \<rightharpoonup> MockResponse"
  mh_requests :: "ClientRequest list"
  mh_defaultErr :: "string option"
  mh_latency :: duration

definition NewMockHTTPClient :: MockHTTPClient where
  "NewMockHTTPClient = \<lparr>mh_responses = Map.empty, mh_requests = [], mh_defaultErr = None, mh_latency = 0\<rparr>"

text \<open>The headers come in the order in which \<open>range\<close> visits them.\<close>

definition mh_SetResponse :: "string \<Rightarrow> nat \<Rightarrow> string \<Rightarrow> (string \<times> string) list \<Rightarrow> MockHTTPClient \<Rightarrow> MockHTTPClient" where
  "mh_SetResponse url statusCode body headers m =
     m\<lparr>mh_responses := (mh_responses m)(url \<mapsto>
         \<lparr>mr_StatusCode = statusCode, mr_Body = stringReader_Read body,
          mr_Header = fold (\<lambda>(k, v) h. h(CanonicalHeaderKey k \<mapsto> v)) headers Map.empty\<rparr>)\<rparr>"

text \<open>With what \<open>json.Marshal\<close> makes of the data.\<close>

definition mh_SetJSONResponse :: "string \<Rightarrow> nat \<Rightarrow> string + string \<Rightarrow> MockHTTPClient \<Rightarrow> string option \<times> MockHTTPClient" where
  "mh_SetJSONResponse url statusCode data m =
     (case data of
        Inl err \<Rightarrow> (Some err, m)
      | Inr body \<Rightarrow> (None, mh_SetResponse url statusCode body [(''Content-Type'', ''application/json'')] m))"

definition mh_SetError :: "string option \<Rightarrow> MockHTTPClient \<Rightarrow> MockHTTPClient" where
  "mh_SetError err m = m\<lparr>mh_defaultErr := err\<rparr>"

definition mh_SetLatency :: "duration \<Rightarrow> MockHTTPClient \<Rightarrow> MockHTTPClient" where
  "mh_SetLatency d m = m\<lparr>mh_latency := d\<rparr>"

definition mh_Do :: "ClientRequest \<Rightarrow> MockHTTPClient \<Rightarrow> (string + MockResponse) \<times> MockHTTPClient" where
  "mh_Do req m =
     (let m = m\<lparr>mh_requests := mh_requests m @ [req]\<rparr> in
      case mh_defaultErr m of
        Some err \<Rightarrow> (Inl err, m)
      | None \<Rightarrow>
          (case mh_responses m (hr_URL req) of
             Some resp \<Rightarrow> (Inr resp, m)
           | None \<Rightarrow>
               (Inr \<lparr>mr_StatusCode = 404,
                     mr_Body = stringReader_Read
                       (''{'' @ [CHR 0x22] @ ''error'' @ [CHR 0x22] @ '': '' @ [CHR 0x22] @ ''not found'' @ [CHR 0x22] @ ''}''),
                     mr_Header = Map.empty\<rparr>, m)))"

definition mh_GetRequests :: "MockHTTPClient \<Rightarrow> ClientRequest list" where
  "mh_GetRequests m = mh_requests m"

definition mh_Reset :: "MockHTTPClient \<Rightarrow> MockHTTPClient" where
  "mh_Reset m = m\<lparr>mh_responses := Map.empty, mh_requests := [], mh_defaultErr := None, mh_latency := 0\<rparr>"

section \<open>The server\<close>

text \<open>Handlers give answers of any type \<open>'a\<close>.\<close>

record 'a MockServer =
  sm_handlers :: "string \<rightharpoonup> (ApiRequest \<Rightarrow> 'a)"
  sm_requests :: "ApiRequest list"

definition NewMockServer :: "'a MockServer" where
  "NewMockServer = \<lparr>sm_handlers = Map.empty, sm_requests = []\<rparr>"

definition sm_serve :: "'a \<Rightarrow> ApiRequest \<Rightarrow> 'a MockServer \<Rightarrow> 'a \<times> 'a MockServer" where
  "sm_serve not_found r ms =
     (let ms = ms\<lparr>sm_requests := sm_requests ms @ [r]\<rparr>
      in (case sm_handlers ms (rq_Path r) of Some handler \<Rightarrow> handler r | None \<Rightarrow> not_found, ms))"

definition sm_Handle :: "string \<Rightarrow> (ApiRequest \<Rightarrow> 'a) \<Rightarrow> 'a MockServer \<Rightarrow> 'a MockServer" where
  "sm_Handle path handler ms = ms\<lparr>sm_handlers := (sm_handlers ms)(path \<mapsto> handler)\<rparr>"

definition sm_HandleJSON :: "string \<Rightarrow> nat \<Rightarrow> 'd reply \<Rightarrow> 'd ApiResponse MockServer \<Rightarrow> 'd ApiResponse MockServer" where
  "sm_HandleJSON path statusCode data = sm_Handle path (\<lambda>_. jsonResponse statusCode data)"

definition sm_GetRequests :: "'a MockServer \<Rightarrow> ApiRequest list" where
  "sm_GetRequests ms = sm_requests ms"

definition sm_Reset :: "'a MockServer \<Rightarrow> 'a MockServer" where
  "sm_Reset ms = ms\<lparr>sm_handlers := Map.empty, sm_requests := []\<rparr>"

section \<open>What the mocks do\<close>

text \<open>The database is a map from tables and ids to rows; failing operations leave it as it is.\<close>

definition md_rows :: "'v TestDB \<Rightarrow> string \<times> string \<rightharpoonup> 'v" where
  "md_rows m = (\<lambda>(table, id'). case md_data m table of None \<Rightarrow> None | Some rows \<Rightarrow> rows id')"

lemma mock_database_is_a_map:
  "fst (md_Get now table id' m) = md_rows m (table, id')"
  "md_rows (snd (md_Get now table id' m)) = md_rows m"
  "md_rows (snd (md_Insert now table id' data m)) =
     (if md_shouldFail m then md_rows m else (md_rows m)((table, id') \<mapsto> data))"
  "md_rows (snd (md_Delete now table id' m)) =
     (if md_shouldFail m then md_rows m else (md_rows m)((table, id') := None))"
  by (auto simp: md_rows_def md_Get_def md_Insert_def md_Delete_def Let_def split: option.splits)

text \<open>A failure without an error is no failure to the caller, and the row is not there.\<close>

lemma nil_failure_loses_row:
  "md_Insert now table id' data (md_SetFailure None NewTestDB) = (None, md_SetFailure None NewTestDB)"
  by (simp add: md_Insert_def md_SetFailure_def)

text \<open>
  \<open>Get\<close> appends to the queries under the read lock, so two of them may read the same list and each write it
  with its own query: one is lost.
\<close>

definition write_queries :: "'v QueryRecord list \<Rightarrow> 'v QueryRecord \<Rightarrow> 'v TestDB \<Rightarrow> 'v TestDB" where
  "write_queries old q m = m\<lparr>md_queries := old @ [q]\<rparr>"

lemma racing_gets_lose_query:
  "snd (md_Get now table id' m) =
     write_queries (md_queries m) \<lparr>qr_Query = ''SELECT FROM '' @ table, qr_Args = [ArgID id'], qr_Timestamp = now\<rparr> m"
  "md_queries (write_queries (md_queries m) q' (write_queries (md_queries m) q m)) = md_queries m @ [q']"
  by (auto simp: md_Get_def write_queries_def Let_def split: option.splits)

text \<open>Rolling back undoes nothing, and a transaction can be both committed and rolled back.\<close>

lemma rollback_undoes_nothing:
  "let m = snd (md_Insert now table id' data NewTestDB); tx = snd (mt_Rollback (snd (mt_Commit (BeginTx NewTestDB))))
   in md_rows m (table, id') = Some data \<and> IsCommitted tx \<and> IsRolledback tx"
  by (simp add: mock_database_is_a_map BeginTx_def mt_Commit_def mt_Rollback_def IsCommitted_def IsRolledback_def
      NewTestDB_def Let_def)

text \<open>The cache: what was set is served until it expires, and every \<open>Get\<close> is a hit or a miss.\<close>

lemma mock_cache_serves:
  assumes "\<not> mc_shouldFail m"
  shows "fst (mc_Get later key (snd (mc_Set now key v ttl m))) = (if 0 < ttl \<and> now + ttl < later then None else Some v)"
  using assms by (simp add: mc_Get_def mc_Set_def)

lemma mock_cache_counts:
  "mc_hits (snd (mc_Get now key m)) + mc_misses (snd (mc_Get now key m)) = mc_hits m + mc_misses m + 1"
  by (simp add: mc_Get_def split: option.split)

text \<open>The body of a mocked response is read up to 512 bytes only, without an error.\<close>

lemma long_body_cut:
  "fst (mh_Do req (mh_SetResponse (hr_URL req) status body headers NewMockHTTPClient)) = Inr resp \<Longrightarrow>
    ReadAll_first (mr_Body resp) = Some (take 512 body)"
  by (auto simp: mh_Do_def mh_SetResponse_def NewMockHTTPClient_def ReadAll_first_def stringReader_Read_def Let_def)

text \<open>The rows are visited once each, in order; closing does not stop that.\<close>

fun visits :: "nat \<Rightarrow> MockRows \<Rightarrow> cell option list list" where
  "visits 0 r = []"
| "visits (Suc n) r =
     (case mw_Next r of (found, r') \<Rightarrow>
        if found then (case mw_Scan [ToInterface] r' of Inl _ \<Rightarrow> [] | Inr vs \<Rightarrow> vs # visits n r') else [])"

lemma visits_from:
  assumes "i + n = length (mw_data r)" "sint (mw_index r) = int i - 1" "int (length (mw_data r)) < 2 ^ 62"
    "list_all (\<lambda>row. length row = 1) (mw_data r)" "n < k"
  shows "visits k r = map (\<lambda>row. [Some (hd row)]) (drop i (mw_data r))"
  using assms
proof (induction n arbitrary: i r k)
  case 0
  from 0 obtain k' where k: "k = Suc k'" by (cases k) auto
  have "sint (mw_index r + 1) = int i" using 0 by (subst sint64_add) auto
  with 0 k show ?case by (simp add: mw_Next_def)
next
  case (Suc n)
  from Suc.prems obtain k' where k: "k = Suc k'" by (cases k) auto
  let ?r = "r\<lparr>mw_index := mw_index r + 1\<rparr>"
  have i: "sint (mw_index ?r) = int i" using Suc.prems by (simp, subst sint64_add) auto
  then have rest: "visits k' ?r = map (\<lambda>row. [Some (hd row)]) (drop (Suc i) (mw_data r))"
    using Suc.IH [of "Suc i" ?r k'] Suc.prems k by simp
  have less: "i < length (mw_data r)" using Suc.prems by simp
  then have "length (mw_data r ! i) = 1" using Suc.prems(4) by (simp add: list_all_length)
  then have scan: "mw_Scan [ToInterface] ?r = Inr [Some (hd (mw_data r ! i))]"
    using i less by (cases "mw_data r ! i") (simp_all add: mw_Scan_def Let_def)
  have "mw_Next r = (True, ?r)" using i less by (simp add: mw_Next_def Let_def)
  with scan rest k less show ?case by (simp add: Cons_nth_drop_Suc [symmetric])
qed

lemma rows_visited_once:
  assumes "list_all (\<lambda>row. length row = 1) data" "int (length data) < 2 ^ 62"
  shows "visits (Suc (length data)) (snd (mw_Close (NewMockRows columns data))) = map (\<lambda>row. [Some (hd row)]) data"
  using visits_from [of 0 "length data" "snd (mw_Close (NewMockRows columns data))" "Suc (length data)"] assms
  by (simp add: mw_Close_def NewMockRows_def)

text \<open>A destination of another type is left as it was, without an error.\<close>

lemma scan_ignores_types: "assign ToInt (CellInt64 n) = None" "assign ToString (CellInt m) = None"
  by simp_all

end
