(* ===== verification/Assertions.thy ===== *)
theory Assertions
  imports Mocks
begin

text \<open>
  The assertions for tests, \<open>libs/testing/assertions.go\<close>.

  An assertion returns a boolean and may call the test \<open>T\<close>; the calls are recorded with their format and
  their arguments, so that nothing depends on what \<open>fmt\<close> prints.  \<open>suffix\<close> is what \<open>formatMsgAndArgs\<close> makes of
  the last arguments.  Values are those of \<open>reflect\<close>; floats are real numbers, and an error is its text.
\<close>

section \<open>Values and tests\<close>

text \<open>
  A reference may be nil; it has the values it leads to, in order.
\<close>

datatype ref_kind = RChan | RFunc | RMap | RPointer | RSlice

datatype govalue =
  GNil | GBool bool | GInt int64 | GUint "64 word" | GFloat real | GString string
| GRef ref_kind bool "govalue list" | GArray "govalue list" | GStruct "govalue list"

datatype report_arg = ArgValue govalue | ArgText string | ArgNumber int64 | ArgReal real | ArgError string

record tester =
  tr_errors :: "(string \<times> report_arg list) list"
  tr_stopped :: bool

definition Errorf :: "string \<Rightarrow> report_arg list \<Rightarrow> tester \<Rightarrow> tester" where
  "Errorf format args t = t\<lparr>tr_errors := tr_errors t @ [(format, args)]\<rparr>"

definition FailNow :: "tester \<Rightarrow> tester" where
  "FailNow t = t\<lparr>tr_stopped := True\<rparr>"

text \<open>What all assertions end with: a report unless the condition holds.\<close>

definition assertion :: "bool \<Rightarrow> string \<Rightarrow> report_arg list \<Rightarrow> tester \<Rightarrow> bool \<times> tester" where
  "assertion holds format args t = (if holds then (True, t) else (False, Errorf format args t))"

section \<open>Helpers\<close>

definition isNil :: "govalue \<Rightarrow> bool" where
  "isNil v = (case v of GNil \<Rightarrow> True | GRef _ b _ \<Rightarrow> b | _ \<Rightarrow> False)"

definition compare_with :: "bool \<Rightarrow> bool \<Rightarrow> int" where
  "compare_with smaller larger = (if smaller then - 1 else if larger then 1 else 0)"

text \<open>Bytes of strings are compared one by one.  \<open>None\<close> is the panic of \<open>reflect\<close> on another kind.\<close>

fun string_less :: "string \<Rightarrow> string \<Rightarrow> bool" where
  "string_less _ [] = False"
| "string_less [] (_ # _) = True"
| "string_less (a # as) (b # bs) =
     ((of_char a :: nat) < of_char b \<or> a = b \<and> string_less as bs)"

definition compareValues :: "govalue \<Rightarrow> govalue \<Rightarrow> int option" where
  "compareValues v w =
     (case v of
        GInt a \<Rightarrow> (case w of GInt b \<Rightarrow> Some (compare_with (sint a < sint b) (sint b < sint a)) | _ \<Rightarrow> None)
      | GUint a \<Rightarrow> (case w of GUint b \<Rightarrow> Some (compare_with (a < b) (b < a)) | _ \<Rightarrow> None)
      | GFloat a \<Rightarrow> (case w of GFloat b \<Rightarrow> Some (compare_with (a < b) (b < a)) | _ \<Rightarrow> None)
      | GString a \<Rightarrow> (case w of GString b \<Rightarrow> Some (compare_with (string_less a b) (string_less b a)) | _ \<Rightarrow> None)
      | _ \<Rightarrow> Some 0)"

text \<open>\<open>reflect.Value.Len\<close>, or \<open>None\<close> when it panics.\<close>

definition reflect_Len :: "govalue \<Rightarrow> nat option" where
  "reflect_Len v =
     (case v of
        GString s \<Rightarrow> Some (length s)
      | GArray vs \<Rightarrow> Some (length vs)
      | GRef k _ vs \<Rightarrow>
          if k \<in> {RChan, RMap, RSlice} then Some (length vs)
          else (case (k, vs) of (RPointer, [GArray ws]) \<Rightarrow> Some (length ws) | _ \<Rightarrow> None)
      | _ \<Rightarrow> None)"

text \<open>\<open>strings.Contains\<close>.\<close>

definition str_Contains :: "string \<Rightarrow> string \<Rightarrow> bool" where
  "str_Contains s sub = list_ex (\<lambda>i. has_prefix (drop i s) sub) [0..<Suc (length s)]"

section \<open>Assertions\<close>

text \<open>\<open>deep_equal\<close> is \<open>reflect.DeepEqual\<close>.\<close>

definition a_Equal :: "(govalue \<Rightarrow> govalue \<Rightarrow> bool) \<Rightarrow> govalue \<Rightarrow> govalue \<Rightarrow> string \<Rightarrow> tester \<Rightarrow> bool \<times> tester" where
  "a_Equal deep_equal expected actual suffix =
     assertion (deep_equal expected actual) ''Expected %v (type %T), got %v (type %T)%s''
       [ArgValue expected, ArgValue expected, ArgValue actual, ArgValue actual, ArgText suffix]"

definition a_NotEqual :: "(govalue \<Rightarrow> govalue \<Rightarrow> bool) \<Rightarrow> govalue \<Rightarrow> govalue \<Rightarrow> string \<Rightarrow> tester \<Rightarrow> bool \<times> tester" where
  "a_NotEqual deep_equal expected actual suffix =
     assertion (\<not> deep_equal expected actual) ''Expected values to be different, got %v%s'' [ArgValue actual, ArgText suffix]"

definition a_Nil :: "govalue \<Rightarrow> string \<Rightarrow> tester \<Rightarrow> bool \<times> tester" where
  "a_Nil object suffix = assertion (isNil object) ''Expected nil, got %v%s'' [ArgValue object, ArgText suffix]"

definition a_NotNil :: "govalue \<Rightarrow> string \<Rightarrow> tester \<Rightarrow> bool \<times> tester" where
  "a_NotNil object suffix = assertion (\<not> isNil object) ''Expected non-nil value%s'' [ArgText suffix]"

definition a_True :: "bool \<Rightarrow> string \<Rightarrow> tester \<Rightarrow> bool \<times> tester" where
  "a_True b suffix = assertion b ''Expected true%s'' [ArgText suffix]"

definition a_False :: "bool \<Rightarrow> string \<Rightarrow> tester \<Rightarrow> bool \<times> tester" where
  "a_False b suffix = assertion (\<not> b) ''Expected false%s'' [ArgText suffix]"

definition a_NoError :: "string option \<Rightarrow> string \<Rightarrow> tester \<Rightarrow> bool \<times> tester" where
  "a_NoError err suffix t =
     (case err of None \<Rightarrow> (True, t) | Some msg \<Rightarrow> (False, Errorf ''Unexpected error: %v%s'' [ArgError msg, ArgText suffix] t))"

definition a_Error :: "string option \<Rightarrow> string \<Rightarrow> tester \<Rightarrow> bool \<times> tester" where
  "a_Error err suffix = assertion (err \<noteq> None) ''Expected error but got nil%s'' [ArgText suffix]"

definition a_ErrorIs :: "string option \<Rightarrow> string \<Rightarrow> string \<Rightarrow> tester \<Rightarrow> bool \<times> tester" where
  "a_ErrorIs err target suffix t =
     (case err of
        None \<Rightarrow> (False, Errorf ''Expected error %v but got nil%s'' [ArgError target, ArgText suffix] t)
      | Some msg \<Rightarrow>
          assertion (str_Contains msg target) ''Expected error containing %v, got %v%s''
            [ArgError target, ArgError msg, ArgText suffix] t)"

definition a_ErrorContains :: "string option \<Rightarrow> string \<Rightarrow> string \<Rightarrow> tester \<Rightarrow> bool \<times> tester" where
  "a_ErrorContains err substring suffix t =
     (case err of
        None \<Rightarrow> (False, Errorf ''Expected error containing %q but got nil%s'' [ArgText substring, ArgText suffix] t)
      | Some msg \<Rightarrow>
          assertion (str_Contains msg substring) ''Expected error containing %q, got %q%s''
            [ArgText substring, ArgText msg, ArgText suffix] t)"

definition a_Contains :: "string \<Rightarrow> string \<Rightarrow> string \<Rightarrow> tester \<Rightarrow> bool \<times> tester" where
  "a_Contains s substr suffix =
     assertion (str_Contains s substr) ''Expected %q to contain %q%s'' [ArgText s, ArgText substr, ArgText suffix]"

definition a_NotContains :: "string \<Rightarrow> string \<Rightarrow> string \<Rightarrow> tester \<Rightarrow> bool \<times> tester" where
  "a_NotContains s substr suffix =
     assertion (\<not> str_Contains s substr) ''Expected %q to not contain %q%s'' [ArgText s, ArgText substr, ArgText suffix]"

text \<open>\<open>matched\<close> is what \<open>regexp.MatchString\<close> returns for the pattern, or its error.\<close>

definition a_Matches :: "unit + bool \<Rightarrow> string \<Rightarrow> string \<Rightarrow> string \<Rightarrow> tester \<Rightarrow> bool \<times> tester" where
  "a_Matches matched pattern s suffix t =
     (case matched of
        Inl _ \<Rightarrow> (False, Errorf ''Invalid regex pattern: %s%s'' [ArgText pattern, ArgText suffix] t)
      | Inr m \<Rightarrow>
          assertion m ''Expected %q to match pattern %q%s'' [ArgText s, ArgText pattern, ArgText suffix] t)"

text \<open>The three assertions on lengths panic when \<open>reflect\<close> does.\<close>

definition a_Len :: "govalue \<Rightarrow> int64 \<Rightarrow> string \<Rightarrow> tester \<Rightarrow> (bool \<times> tester) option" where
  "a_Len object n suffix t =
     map_option (\<lambda>k. assertion (int k = sint n) ''Expected length %d, got %d%s''
       [ArgNumber n, ArgNumber (of_nat k), ArgText suffix] t) (reflect_Len object)"

definition a_Empty :: "govalue \<Rightarrow> string \<Rightarrow> tester \<Rightarrow> (bool \<times> tester) option" where
  "a_Empty object suffix t =
     map_option (\<lambda>k. assertion (k = 0) ''Expected empty collection, got length %d%s''
       [ArgNumber (of_nat k), ArgText suffix] t) (reflect_Len object)"

definition a_NotEmpty :: "govalue \<Rightarrow> string \<Rightarrow> tester \<Rightarrow> (bool \<times> tester) option" where
  "a_NotEmpty object suffix t =
     map_option (\<lambda>k. assertion (k \<noteq> 0) ''Expected non-empty collection%s'' [ArgText suffix] t) (reflect_Len object)"

definition a_InDelta :: "real \<Rightarrow> real \<Rightarrow> real \<Rightarrow> string \<Rightarrow> tester \<Rightarrow> bool \<times> tester" where
  "a_InDelta expected actual delta suffix =
     (let diff = expected - actual in
      assertion (\<not> (diff < - delta \<or> delta < diff)) ''Expected %f to be within %f of %f%s''
        [ArgReal actual, ArgReal delta, ArgReal expected, ArgText suffix])"

definition a_Greater :: "govalue \<Rightarrow> govalue \<Rightarrow> string \<Rightarrow> tester \<Rightarrow> (bool \<times> tester) option" where
  "a_Greater v w suffix t =
     map_option (\<lambda>result. assertion (result = 1) ''Expected %v > %v%s'' [ArgValue v, ArgValue w, ArgText suffix] t)
       (compareValues v w)"

definition a_GreaterOrEqual :: "govalue \<Rightarrow> govalue \<Rightarrow> string \<Rightarrow> tester \<Rightarrow> (bool \<times> tester) option" where
  "a_GreaterOrEqual v w suffix t =
     map_option (\<lambda>result. assertion (\<not> result < 0) ''Expected %v >= %v%s'' [ArgValue v, ArgValue w, ArgText suffix] t)
       (compareValues v w)"

definition a_Less :: "govalue \<Rightarrow> govalue \<Rightarrow> string \<Rightarrow> tester \<Rightarrow> (bool \<times> tester) option" where
  "a_Less v w suffix t =
     map_option (\<lambda>result. assertion (result = - 1) ''Expected %v < %v%s'' [ArgValue v, ArgValue w, ArgText suffix] t)
       (compareValues v w)"

definition a_LessOrEqual :: "govalue \<Rightarrow> govalue \<Rightarrow> string \<Rightarrow> tester \<Rightarrow> (bool \<times> tester) option" where
  "a_LessOrEqual v w suffix t =
     map_option (\<lambda>result. assertion (\<not> 0 < result) ''Expected %v <= %v%s'' [ArgValue v, ArgValue w, ArgText suffix] t)
       (compareValues v w)"

text \<open>
  What the function panics with, if it does.  After a panic that the deferred function has recovered from,
  the assertion returns the zero value of its result, \<open>False\<close>.
\<close>

definition a_Panics :: "govalue option \<Rightarrow> string \<Rightarrow> tester \<Rightarrow> bool \<times> tester" where
  "a_Panics outcome suffix t =
     (case outcome of
        Some _ \<Rightarrow> (False, t)
      | None \<Rightarrow> (True, Errorf ''Expected panic%s'' [ArgText suffix] t))"

definition a_NotPanics :: "govalue option \<Rightarrow> string \<Rightarrow> tester \<Rightarrow> bool \<times> tester" where
  "a_NotPanics outcome suffix t =
     (case outcome of
        Some r \<Rightarrow> (False, Errorf ''Unexpected panic: %v%s'' [ArgValue r, ArgText suffix] t)
      | None \<Rightarrow> (True, t))"

text \<open>
  The loop of \<open>Eventually\<close> and \<open>Never\<close>: the clock and the condition at each round, and whether the
  condition was met before the deadline.  It need not end if the clock does not go on.
\<close>

partial_function (option) poll :: "(nat \<Rightarrow> time) \<Rightarrow> (nat \<Rightarrow> bool) \<Rightarrow> time \<Rightarrow> nat \<Rightarrow> bool option" where
  "poll clk cond deadline i =
     (if clk i < deadline then (if cond i then Some True else poll clk cond deadline (Suc i)) else Some False)"

definition a_Eventually ::
  "time \<Rightarrow> (nat \<Rightarrow> time) \<Rightarrow> (nat \<Rightarrow> bool) \<Rightarrow> duration \<Rightarrow> string \<Rightarrow> string \<Rightarrow> tester \<Rightarrow> (bool \<times> tester) option" where
  "a_Eventually now clk cond timeout timeout_text suffix t =
     map_option (\<lambda>met. assertion met ''Condition not met within %s%s'' [ArgText timeout_text, ArgText suffix] t)
       (poll clk cond (now + timeout) 0)"

definition a_Never ::
  "time \<Rightarrow> (nat \<Rightarrow> time) \<Rightarrow> (nat \<Rightarrow> bool) \<Rightarrow> duration \<Rightarrow> string \<Rightarrow> tester \<Rightarrow> (bool \<times> tester) option" where
  "a_Never now clk cond timeout suffix t =
     map_option (\<lambda>met. assertion (\<not> met) (''Condition was met when it shouldn'' @ [CHR 0x27] @ ''t be%s'') [ArgText suffix] t)
       (poll clk cond (now + timeout) 0)"

section \<open>Failing immediately\<close>

definition require :: "(tester \<Rightarrow> bool \<times> tester) \<Rightarrow> tester \<Rightarrow> tester" where
  "require a t = (case a t of (holds, t') \<Rightarrow> if holds then t' else FailNow t')"

definition r_Equal :: "(govalue \<Rightarrow> govalue \<Rightarrow> bool) \<Rightarrow> govalue \<Rightarrow> govalue \<Rightarrow> string \<Rightarrow> tester \<Rightarrow> tester" where
  "r_Equal deep_equal expected actual suffix = require (a_Equal deep_equal expected actual suffix)"

definition r_NoError :: "string option \<Rightarrow> string \<Rightarrow> tester \<Rightarrow> tester" where
  "r_NoError err suffix = require (a_NoError err suffix)"

definition r_NotNil :: "govalue \<Rightarrow> string \<Rightarrow> tester \<Rightarrow> tester" where
  "r_NotNil object suffix = require (a_NotNil object suffix)"

definition r_True :: "bool \<Rightarrow> string \<Rightarrow> tester \<Rightarrow> tester" where
  "r_True b suffix = require (a_True b suffix)"

section \<open>Responses\<close>

text \<open>The part of a response, or of a recorder, that the assertions look at.\<close>

record HttpAnswer =
  hw_StatusCode :: int64
  hw_Header :: "string \<rightharpoonup> string"
  hw_Body :: string

definition header_Get :: "HttpAnswer \<Rightarrow> string \<Rightarrow> string" where
  "header_Get resp key = (case hw_Header resp (CanonicalHeaderKey key) of None \<Rightarrow> [] | Some v \<Rightarrow> v)"

definition h_StatusCode :: "HttpAnswer \<Rightarrow> int64 \<Rightarrow> string \<Rightarrow> tester \<Rightarrow> bool \<times> tester" where
  "h_StatusCode resp expected suffix =
     assertion (hw_StatusCode resp = expected) ''Expected status %d, got %d%s''
       [ArgNumber expected, ArgNumber (hw_StatusCode resp), ArgText suffix]"

definition h_Header :: "HttpAnswer \<Rightarrow> string \<Rightarrow> string \<Rightarrow> string \<Rightarrow> tester \<Rightarrow> bool \<times> tester" where
  "h_Header resp key expected suffix =
     (let actual = header_Get resp key in
      assertion (actual = expected) ''Expected header %s=%q, got %q%s''
        [ArgText key, ArgText expected, ArgText actual, ArgText suffix])"

definition h_HeaderExists :: "HttpAnswer \<Rightarrow> string \<Rightarrow> string \<Rightarrow> tester \<Rightarrow> bool \<times> tester" where
  "h_HeaderExists resp key suffix =
     assertion (header_Get resp key \<noteq> []) ''Expected header %s to exist%s'' [ArgText key, ArgText suffix]"

definition h_ContentType :: "HttpAnswer \<Rightarrow> string \<Rightarrow> string \<Rightarrow> tester \<Rightarrow> bool \<times> tester" where
  "h_ContentType resp expected suffix =
     (let ct = header_Get resp ''Content-Type'' in
      assertion (str_Contains ct expected) ''Expected Content-Type containing %q, got %q%s''
        [ArgText expected, ArgText ct, ArgText suffix])"

text \<open>\<open>body\<close> is what \<open>io.ReadAll\<close> reads, or its error; the body can be read again afterwards.\<close>

definition h_BodyContains :: "string + string \<Rightarrow> string \<Rightarrow> string \<Rightarrow> tester \<Rightarrow> bool \<times> tester" where
  "h_BodyContains body substr suffix t =
     (case body of
        Inl err \<Rightarrow> (False, Errorf ''Failed to read response body: %v'' [ArgError err] t)
      | Inr s \<Rightarrow> assertion (str_Contains s substr) ''Expected body to contain %q%s'' [ArgText substr, ArgText suffix] t)"

definition h_BodyContainsRecorder :: "HttpAnswer \<Rightarrow> string \<Rightarrow> string \<Rightarrow> tester \<Rightarrow> bool \<times> tester" where
  "h_BodyContainsRecorder w substr suffix =
     assertion (str_Contains (hw_Body w) substr) ''Expected body to contain %q, got %q%s''
       [ArgText substr, ArgText (hw_Body w), ArgText suffix]"

text \<open>With what JSON decoding makes of the texts.\<close>

definition h_JSONResponse :: "string + 'v \<Rightarrow> string \<Rightarrow> tester \<Rightarrow> bool \<times> tester" where
  "h_JSONResponse decoded suffix t =
     (case decoded of
        Inl err \<Rightarrow> (False, Errorf ''Failed to parse JSON response: %v%s'' [ArgError err, ArgText suffix] t)
      | Inr _ \<Rightarrow> (True, t))"

definition h_JSONEqual ::
  "(string \<Rightarrow> string + 'v) \<Rightarrow> string \<Rightarrow> string \<Rightarrow> string \<Rightarrow> tester \<Rightarrow> bool \<times> tester" where
  "h_JSONEqual decode expected actual suffix t =
     (case decode expected of
        Inl err \<Rightarrow> (False, Errorf ''Failed to parse expected JSON: %v'' [ArgError err] t)
      | Inr x \<Rightarrow>
          (case decode actual of
             Inl err \<Rightarrow> (False, Errorf ''Failed to parse actual JSON: %v'' [ArgError err] t)
           | Inr y \<Rightarrow>
               assertion (x = y)
                 (''JSON not equal.'' @ [CHR 0x0A] @ ''Expected: %s'' @ [CHR 0x0A] @ ''Actual: %s%s'')
                 [ArgText expected, ArgText actual, ArgText suffix] t))"


section \<open>What the assertions tell\<close>

text \<open>An assertion returns whether it holds, and reports exactly if it does not.\<close>

lemma assertion_reports:
  "fst (assertion holds format args t) = holds"
  "tr_errors (snd (assertion holds format args t)) = tr_errors t @ (if holds then [] else [(format, args)])"
  by (simp_all add: assertion_def Errorf_def)

text \<open>\<open>Panics\<close> returns the opposite: true with a report if there was no panic, and false if there was.\<close>

lemma panics_returns_the_opposite:
  "fst (a_Panics outcome suffix t) \<longleftrightarrow> outcome = None"
  "fst (a_Panics outcome suffix t) \<longleftrightarrow> tr_errors (snd (a_Panics outcome suffix t)) \<noteq> tr_errors t"
  by (simp_all add: a_Panics_def Errorf_def split: option.split)

text \<open>Values that cannot be compared count as equal: true is at least and at most false.\<close>

lemma incomparable_values_pass:
  "a_GreaterOrEqual (GBool False) (GBool True) suffix t = Some (True, t)"
  "a_LessOrEqual (GBool True) (GBool False) suffix t = Some (True, t)"
  by (simp_all add: a_GreaterOrEqual_def a_LessOrEqual_def compareValues_def assertion_def)

lemma string_less_irrefl: "\<not> string_less s s"
  by (induction s) auto

lemma string_less_asym: "string_less s u \<Longrightarrow> \<not> string_less u s"
  by (induction s u rule: string_less.induct) auto

lemma string_less_linear: "string_less s u \<or> s = u \<or> string_less u s"
proof (induction s u rule: string_less.induct)
  case (3 a as b bs)
  have "(of_char a :: nat) = of_char b \<longleftrightarrow> a = b" by simp
  then show ?case using 3 by (metis linorder_neqE_nat string_less.simps(3))
next
  case (1 s)
  then show ?case by (cases s) simp_all
qed simp

text \<open>On values of one ordered kind the comparison is a linear order: exactly one of the three results.\<close>

lemma compareValues_strings:
  "compareValues (GString s) (GString u) =
    Some (if s = u then 0 else if string_less s u then - 1 else 1)"
  using string_less_irrefl [of s] string_less_linear [of s u] string_less_asym [of s u]
  by (auto simp: compareValues_def compare_with_def)

lemma compareValues_ints:
  "compareValues (GInt a) (GInt b) = Some (if a = b then 0 else if sint a < sint b then - 1 else 1)"
  using sint64_inject [of a b] by (auto simp: compareValues_def compare_with_def)

lemma str_Contains_iff: "str_Contains s sub \<longleftrightarrow> (\<exists>u v. s = u @ sub @ v)"
proof
  assume "str_Contains s sub"
  then obtain i where "has_prefix (drop i s) sub" unfolding str_Contains_def list_ex_iff by blast
  then obtain v where "drop i s = sub @ v" by (auto simp: has_prefix_iff)
  then have "s = take i s @ sub @ v" by (metis append_take_drop_id)
  then show "\<exists>u v. s = u @ sub @ v" by blast
next
  assume "\<exists>u v. s = u @ sub @ v"
  then obtain u v where s: "s = u @ sub @ v" by blast
  then have "has_prefix (drop (length u) s) sub" "length u \<in> set [0..<Suc (length s)]"
    by (simp_all add: has_prefix_iff)
  then show "str_Contains s sub" unfolding str_Contains_def list_ex_iff by blast
qed

text \<open>\<open>ErrorIs\<close> compares texts: an error whose text is part of another's is taken for it.\<close>

lemma error_is_by_text:
  "fst (a_ErrorIs (Some ''payment failed on all providers'') ''payment failed'' suffix t)"
proof -
  have "str_Contains ''payment failed on all providers'' ''payment failed''"
    unfolding str_Contains_iff by (intro exI [of _ "[]"] exI [of _ "'' on all providers''"]) simp
  then show ?thesis by (simp add: a_ErrorIs_def assertion_def)
qed

text \<open>
  The loop ends when the clock reaches the deadline, and tells whether the condition held at one of the
  rounds before.
\<close>

lemma poll_result:
  assumes "deadline \<le> clk (i + n)" "\<forall>k < n. clk (i + k) < deadline"
  shows "poll clk cond deadline i = Some (\<exists>k < n. cond (i + k))"
  using assms
proof (induction n arbitrary: i)
  case 0
  then show ?case by (subst poll.simps) simp
next
  case (Suc n)
  have now: "clk i < deadline" using Suc.prems(2) by (metis add_0_right zero_less_Suc)
  have split: "(\<exists>k < Suc n. cond (i + k)) \<longleftrightarrow> cond i \<or> (\<exists>k < n. cond (Suc i + k))"
    by (metis add_0_right add_Suc_right add_Suc less_Suc_eq_0_disj)
  have "poll clk cond deadline (Suc i) = Some (\<exists>k < n. cond (Suc i + k))"
    using Suc.prems by (intro Suc.IH) (auto dest: spec [where x = "Suc _"])
  with now split show ?case by (subst poll.simps) simp
qed

end
