(* ===== verification/Fixtures.thy ===== *)
theory Fixtures
  imports Complex_Main Identifiers Strconv
begin

text \<open>
  The fixtures for tests, \<open>libs/testing/fixtures.go\<close>: the fixtures loaded from files, the factory of users,
  accounts, transactions and merchants, and the environment variables that a test sets and restores.

  The files, and what JSON makes of them, are parameters; floats are real numbers.
\<close>

section \<open>Fixtures from files\<close>

record 'v FixtureManager =
  fm_fixtures :: "string \<rightharpoonup> 'v"
  fm_fixturesDir :: string
  fm_loaded :: bool

definition NewFixtureManager :: "string \<Rightarrow> 'v FixtureManager" where
  "NewFixtureManager dir = \<lparr>fm_fixtures = Map.empty, fm_fixturesDir = dir, fm_loaded = False\<rparr>"

text \<open>
  What a load sees: the entries of the directory with whether each is one (or the error, \<open>None\<close> if there is
  no such directory), the contents of the files, and what \<open>json.Unmarshal\<close> makes of a text.
\<close>

record 'v files =
  fi_entries :: "string option + (string \<times> bool) list"
  fi_read :: "string \<Rightarrow> string + string"
  fi_parse :: "string \<Rightarrow> string + 'v"

text \<open>\<open>filepath.Ext\<close> of a name without slashes: from the last dot on.\<close>

definition filepath_Ext :: "string \<Rightarrow> string" where
  "filepath_Ext name =
     (if CHR ''.'' \<in> set name then CHR ''.'' # rev (takeWhile (\<lambda>c. c \<noteq> CHR ''.'') (rev name)) else [])"

fun fm_load_entries :: "'v files \<Rightarrow> (string \<times> bool) list \<Rightarrow> 'v FixtureManager \<Rightarrow> string option \<times> 'v FixtureManager" where
  "fm_load_entries fs [] fm = (None, fm\<lparr>fm_loaded := True\<rparr>)"
| "fm_load_entries fs ((name, isDir) # entries) fm =
     (if isDir \<or> filepath_Ext name \<noteq> ''.json'' then fm_load_entries fs entries fm
      else
        (case fi_read fs name of
           Inl err \<Rightarrow> (Some (''failed to read fixture '' @ name @ '': '' @ err), fm)
         | Inr data \<Rightarrow>
             (case fi_parse fs data of
                Inl err \<Rightarrow> (Some (''failed to parse fixture '' @ name @ '': '' @ err), fm)
              | Inr fixture \<Rightarrow>
                  fm_load_entries fs entries
                    (fm\<lparr>fm_fixtures := (fm_fixtures fm)(take (length name - 5) name \<mapsto> fixture)\<rparr>))))"

definition fm_Load :: "'v files \<Rightarrow> 'v FixtureManager \<Rightarrow> string option \<times> 'v FixtureManager" where
  "fm_Load fs fm =
     (if fm_loaded fm then (None, fm)
      else
        (case fi_entries fs of
           Inl None \<Rightarrow> (None, fm\<lparr>fm_loaded := True\<rparr>)
         | Inl (Some err) \<Rightarrow> (Some err, fm)
         | Inr entries \<Rightarrow> fm_load_entries fs entries fm))"

definition fm_Get :: "string \<Rightarrow> 'v FixtureManager \<Rightarrow> 'v option" where
  "fm_Get name fm = fm_fixtures fm name"

text \<open>\<open>convert\<close> is marshalling followed by unmarshalling into the target.\<close>

definition fm_GetAs :: "('v \<Rightarrow> string + 't) \<Rightarrow> string \<Rightarrow> 'v FixtureManager \<Rightarrow> string + 't" where
  "fm_GetAs convert name fm =
     (case fm_fixtures fm name of None \<Rightarrow> Inl (''fixture not found: '' @ name) | Some v \<Rightarrow> convert v)"

definition fm_Set :: "string \<Rightarrow> 'v \<Rightarrow> 'v FixtureManager \<Rightarrow> 'v FixtureManager" where
  "fm_Set name v fm = fm\<lparr>fm_fixtures := (fm_fixtures fm)(name \<mapsto> v)\<rparr>"

definition fm_Clear :: "'v FixtureManager \<Rightarrow> 'v FixtureManager" where
  "fm_Clear fm = fm\<lparr>fm_fixtures := Map.empty, fm_loaded := False\<rparr>"

section \<open>The factory\<close>

record TestUser =
  fu_ID :: string
  fu_Email :: string
  fu_Username :: string
  fu_Password :: string
  fu_Role :: string
  fu_Status :: string
  fu_CreatedAt :: time

record TestAccount =
  fa_ID :: string
  fa_UserID :: string
  fa_Type :: string
  fa_Currency :: string
  fa_Balance :: real
  fa_Status :: string
  fa_CreatedAt :: time

record TestTransaction =
  fx_ID :: string
  fx_FromAccountID :: string
  fx_ToAccountID :: string
  fx_Amount :: real
  fx_Currency :: string
  fx_Type :: string
  fx_Status :: string
  fx_Reference :: string
  fx_IdempotencyKey :: string
  fx_CreatedAt :: time
  fx_CompletedAt :: time

record TestMerchant =
  fe_ID :: string
  fe_Name :: string
  fe_APIKey :: string
  fe_WebhookURL :: string
  fe_Status :: string
  fe_FeePercentage :: real
  fe_CreatedAt :: time

record FixtureFactory =
  ff_counter :: int64

definition NewFixtureFactory :: FixtureFactory where
  "NewFixtureFactory = \<lparr>ff_counter = 0\<rparr>"

text \<open>The error of \<open>rand.Read\<close> is ignored: the bytes stay zero.\<close>

definition randomHex :: "nat \<Rightarrow> byte list option \<Rightarrow> string" where
  "randomHex n draw = hex_encode (case draw of None \<Rightarrow> replicate n 0 | Some bytes \<Rightarrow> bytes)"

definition nextID :: "byte list option \<Rightarrow> string \<Rightarrow> FixtureFactory \<Rightarrow> string \<times> FixtureFactory" where
  "nextID draw prefix f =
     (let f = f\<lparr>ff_counter := ff_counter f + 1\<rparr>
      in (prefix @ ''_'' @ signed_decimal (ff_counter f) @ ''_'' @ randomHex 4 draw, f))"

definition ff_CreateUser :: "env \<Rightarrow> (TestUser \<Rightarrow> TestUser) list \<Rightarrow> FixtureFactory \<Rightarrow> TestUser \<times> FixtureFactory" where
  "ff_CreateUser e opts f =
     (case nextID (entropy e 0) ''usr'' f of (i, f') \<Rightarrow>
        (fold (\<lambda>opt user. opt user) opts
           \<lparr>fu_ID = i,
            fu_Email = ''user'' @ signed_decimal (ff_counter f') @ ''@example.com'',
            fu_Username = ''testuser'' @ signed_decimal (ff_counter f'),
            fu_Password = ''$2a$10$example_hashed_password'',
            fu_Role = ''user'', fu_Status = ''active'', fu_CreatedAt = clock e 0\<rparr>,
         f'))"

definition ff_CreateAccount ::
  "env \<Rightarrow> string \<Rightarrow> (TestAccount \<Rightarrow> TestAccount) list \<Rightarrow> FixtureFactory \<Rightarrow> TestAccount \<times> FixtureFactory" where
  "ff_CreateAccount e userID opts f =
     (case nextID (entropy e 0) ''acc'' f of (i, f') \<Rightarrow>
        (fold (\<lambda>opt account. opt account) opts
           \<lparr>fa_ID = i, fa_UserID = userID, fa_Type = ''savings'', fa_Currency = ''USD'', fa_Balance = 1000,
            fa_Status = ''active'', fa_CreatedAt = clock e 0\<rparr>,
         f'))"

definition ff_CreateTransaction ::
  "env \<Rightarrow> string \<Rightarrow> string \<Rightarrow> (TestTransaction \<Rightarrow> TestTransaction) list \<Rightarrow> FixtureFactory \<Rightarrow>
    TestTransaction \<times> FixtureFactory" where
  "ff_CreateTransaction e fromID toID opts f =
     (case nextID (entropy e 0) ''txn'' f of (i, f') \<Rightarrow>
        (fold (\<lambda>opt tx. opt tx) opts
           \<lparr>fx_ID = i, fx_FromAccountID = fromID, fx_ToAccountID = toID, fx_Amount = 100, fx_Currency = ''USD'',
            fx_Type = ''transfer'', fx_Status = ''pending'',
            fx_Reference = ''REF'' @ signed_decimal (ff_counter f'),
            fx_IdempotencyKey = randomHex 16 (entropy e 1),
            fx_CreatedAt = clock e 0, fx_CompletedAt = zero_time\<rparr>,
         f'))"

definition ff_CreateMerchant ::
  "env \<Rightarrow> (TestMerchant \<Rightarrow> TestMerchant) list \<Rightarrow> FixtureFactory \<Rightarrow> TestMerchant \<times> FixtureFactory" where
  "ff_CreateMerchant e opts f =
     (case nextID (entropy e 0) ''mch'' f of (i, f') \<Rightarrow>
        (fold (\<lambda>opt merchant. opt merchant) opts
           \<lparr>fe_ID = i, fe_Name = ''Test Merchant '' @ signed_decimal (ff_counter f'),
            fe_APIKey = ''sk_test_'' @ randomHex 24 (entropy e 1),
            fe_WebhookURL = ''https://merchant'' @ signed_decimal (ff_counter f') @ ''.example.com/webhook'',
            fe_Status = ''active'', fe_FeePercentage = 5 / 2, fe_CreatedAt = clock e 0\<rparr>,
         f'))"

text \<open>The options.\<close>

definition WithUserEmail :: "string \<Rightarrow> TestUser \<Rightarrow> TestUser" where
  "WithUserEmail email u = u\<lparr>fu_Email := email\<rparr>"

definition WithUserRole :: "string \<Rightarrow> TestUser \<Rightarrow> TestUser" where
  "WithUserRole role u = u\<lparr>fu_Role := role\<rparr>"

definition WithUserStatus :: "string \<Rightarrow> TestUser \<Rightarrow> TestUser" where
  "WithUserStatus status u = u\<lparr>fu_Status := status\<rparr>"

definition WithAccountBalance :: "real \<Rightarrow> TestAccount \<Rightarrow> TestAccount" where
  "WithAccountBalance balance a = a\<lparr>fa_Balance := balance\<rparr>"

definition WithAccountCurrency :: "string \<Rightarrow> TestAccount \<Rightarrow> TestAccount" where
  "WithAccountCurrency currency a = a\<lparr>fa_Currency := currency\<rparr>"

definition WithAccountType :: "string \<Rightarrow> TestAccount \<Rightarrow> TestAccount" where
  "WithAccountType accountType a = a\<lparr>fa_Type := accountType\<rparr>"

definition WithTransactionAmount :: "real \<Rightarrow> TestTransaction \<Rightarrow> TestTransaction" where
  "WithTransactionAmount amount t = t\<lparr>fx_Amount := amount\<rparr>"

definition WithTransactionStatus :: "string \<Rightarrow> TestTransaction \<Rightarrow> TestTransaction" where
  "WithTransactionStatus status t = t\<lparr>fx_Status := status\<rparr>"

definition WithTransactionType :: "string \<Rightarrow> TestTransaction \<Rightarrow> TestTransaction" where
  "WithTransactionType txType t = t\<lparr>fx_Type := txType\<rparr>"

definition WithMerchantFee :: "real \<Rightarrow> TestMerchant \<Rightarrow> TestMerchant" where
  "WithMerchantFee fee m = m\<lparr>fe_FeePercentage := fee\<rparr>"

definition WithMerchantStatus :: "string \<Rightarrow> TestMerchant \<Rightarrow> TestMerchant" where
  "WithMerchantStatus status m = m\<lparr>fe_Status := status\<rparr>"

record TestData =
  dt_Users :: "TestUser list"
  dt_Accounts :: "TestAccount list"
  dt_Transactions :: "TestTransaction list"
  dt_Merchants :: "TestMerchant list"

text \<open>Each creation reads an environment of its own.\<close>

definition CreateTestData :: "(nat \<Rightarrow> env) \<Rightarrow> FixtureFactory \<Rightarrow> TestData \<times> FixtureFactory" where
  "CreateTestData es f =
     (let (admin, f) = ff_CreateUser (es 0) [WithUserRole ''admin'', WithUserEmail ''admin@example.com''] f;
          (user1, f) = ff_CreateUser (es 1) [WithUserEmail ''user1@example.com''] f;
          (user2, f) = ff_CreateUser (es 2) [WithUserEmail ''user2@example.com''] f;
          (acc1, f) = ff_CreateAccount (es 3) (fu_ID user1) [WithAccountBalance 5000] f;
          (acc2, f) = ff_CreateAccount (es 4) (fu_ID user1) [WithAccountType ''checking'', WithAccountBalance 1000] f;
          (acc3, f) = ff_CreateAccount (es 5) (fu_ID user2) [WithAccountBalance 3000] f;
          (tx1, f) = ff_CreateTransaction (es 6) (fa_ID acc1) (fa_ID acc3)
             [WithTransactionAmount 100, WithTransactionStatus ''completed''] f;
          (tx2, f) = ff_CreateTransaction (es 7) (fa_ID acc2) (fa_ID acc3)
             [WithTransactionAmount 50, WithTransactionStatus ''pending''] f;
          (merchant, f) = ff_CreateMerchant (es 8) [] f
      in (\<lparr>dt_Users = [admin, user1, user2], dt_Accounts = [acc1, acc2, acc3], dt_Transactions = [tx1, tx2],
           dt_Merchants = [merchant]\<rparr>, f))"

section \<open>Environment variables\<close>

type_synonym process_env = "string \<rightharpoonup> string"

definition os_Getenv :: "string \<Rightarrow> process_env \<Rightarrow> string" where
  "os_Getenv key env = (case env key of None \<Rightarrow> [] | Some v \<Rightarrow> v)"

text \<open>\<open>os.Setenv\<close> fails, and its error is ignored, for a key that is empty or has a \<open>=\<close> or a zero byte, and for a value with a zero byte.\<close>

definition env_key_ok :: "string \<Rightarrow> bool" where
  "env_key_ok key \<longleftrightarrow> key \<noteq> [] \<and> CHR ''='' \<notin> set key \<and> CHR 0x00 \<notin> set key"

definition os_Setenv :: "string \<Rightarrow> string \<Rightarrow> process_env \<Rightarrow> process_env" where
  "os_Setenv key v env = (if env_key_ok key \<and> CHR 0x00 \<notin> set v then env(key \<mapsto> v) else env)"

definition os_Unsetenv :: "string \<Rightarrow> process_env \<Rightarrow> process_env" where
  "os_Unsetenv key env = env(key := None)"

record EnvironmentFixtures =
  ef_original :: "string \<rightharpoonup> string"
  ef_set :: "string \<rightharpoonup> string"

definition NewEnvironmentFixtures :: EnvironmentFixtures where
  "NewEnvironmentFixtures = \<lparr>ef_original = Map.empty, ef_set = Map.empty\<rparr>"

definition ef_Set :: "string \<Rightarrow> string \<Rightarrow> EnvironmentFixtures \<times> process_env \<Rightarrow> EnvironmentFixtures \<times> process_env" where
  "ef_Set key v = (\<lambda>(e, env).
     let e = (case ef_original e key of
           None \<Rightarrow> e\<lparr>ef_original := (ef_original e)(key \<mapsto> os_Getenv key env)\<rparr>
         | Some _ \<Rightarrow> e);
         env = os_Setenv key v env
     in (e\<lparr>ef_set := (ef_set e)(key \<mapsto> v)\<rparr>, env))"

text \<open>\<open>ks\<close> is the order in which \<open>range\<close> visits the saved variables.\<close>

definition ef_restore_one :: "EnvironmentFixtures \<Rightarrow> string \<Rightarrow> process_env \<Rightarrow> process_env" where
  "ef_restore_one e key env =
     (let v = the (ef_original e key) in if v = [] then os_Unsetenv key env else os_Setenv key v env)"

definition ef_Restore :: "string list \<Rightarrow> EnvironmentFixtures \<times> process_env \<Rightarrow> EnvironmentFixtures \<times> process_env" where
  "ef_Restore ks = (\<lambda>(e, env).
     (e\<lparr>ef_original := Map.empty, ef_set := Map.empty\<rparr>, fold (ef_restore_one e) ks env))"

definition test_environment :: "(string \<times> string) list" where
  "test_environment =
     [(''ENV'', ''test''), (''LOG_LEVEL'', ''debug''), (''DB_HOST'', ''localhost''), (''DB_PORT'', ''5432''),
      (''DB_NAME'', ''amanah_test''), (''DB_USER'', ''test_user''), (''DB_PASSWORD'', ''test_password''),
      (''REDIS_HOST'', ''localhost''), (''REDIS_PORT'', ''6379''),
      (''JWT_SECRET'', ''test-jwt-secret-key-32-chars-min''), (''API_KEY_SECRET'', ''test-api-key-secret'')]"

definition ef_SetTestEnvironment :: "EnvironmentFixtures \<times> process_env \<Rightarrow> EnvironmentFixtures \<times> process_env" where
  "ef_SetTestEnvironment s = fold (\<lambda>(k, v). ef_Set k v) test_environment s"

section \<open>What the fixtures do\<close>

text \<open>Identifiers of one factory differ as long as its counter does.\<close>

lemma signed_decimal_inj: "signed_decimal a = signed_decimal b \<longleftrightarrow> a = b"
proof
  have "\<not> digit CHR ''-''" by code_simp
  then have digits: "CHR ''-'' \<notin> set (decimal n)" for n
    using decimal_digits [of n] by (metis list_all_iff)
  assume eq: "signed_decimal a = signed_decimal b"
  have "sint a = sint b"
  proof (cases "sint a < 0")
    case True
    then have "CHR ''-'' \<in> set (signed_decimal b)" using eq by (metis list.set_intros(1) signed_decimal_def)
    then have neg: "sint b < 0" using digits by (auto simp: signed_decimal_def split: if_splits)
    with True eq have "decimal (nat (- sint a)) = decimal (nat (- sint b))" by (simp add: signed_decimal_def)
    then have "nat (- sint a) = nat (- sint b)" by (metis numeral_value_decimal)
    with True neg show ?thesis by simp
  next
    case False
    then have "CHR ''-'' \<notin> set (signed_decimal b)" using eq digits by (metis signed_decimal_def)
    then have pos: "\<not> sint b < 0" by (auto simp: signed_decimal_def)
    with False eq have "decimal (nat (sint a)) = decimal (nat (sint b))" by (simp add: signed_decimal_def)
    then have "nat (sint a) = nat (sint b)" by (metis numeral_value_decimal)
    with False pos show ?thesis by simp
  qed
  then show "a = b" by (simp add: sint64_inject)
qed simp

text \<open>
  Variables are given back: after any settings through new fixtures, \<open>Restore\<close> makes the environment what it
  was, except that variables that were set to the empty text and have been touched are unset.
\<close>

definition saved_from :: "process_env \<Rightarrow> EnvironmentFixtures \<times> process_env \<Rightarrow> bool" where
  "saved_from start s \<longleftrightarrow>
     (\<forall>k. ef_original (fst s) k \<in> {None, Some (os_Getenv k start)}) \<and>
     (\<forall>k. ef_original (fst s) k = None \<longrightarrow> snd s k = start k)"

lemma saved_Set: "saved_from start s \<Longrightarrow> saved_from start (ef_Set k v s)"
  by (cases s) (auto simp: saved_from_def ef_Set_def os_Getenv_def os_Setenv_def Let_def split: option.splits)

lemma saved_sets: "saved_from start s \<Longrightarrow> saved_from start (fold (\<lambda>(k, v). ef_Set k v) settings s)"
proof (induction settings arbitrary: s)
  case (Cons kv settings)
  then show ?case using saved_Set [OF Cons.prems] by (cases kv) simp
qed simp

lemma restore_fold:
  assumes "\<forall>k \<in> set ks. ef_original e k = Some (os_Getenv k start)" "distinct ks"
    "\<forall>k v. start k = Some v \<longrightarrow> env_key_ok k \<and> CHR 0x00 \<notin> set v"
  shows "fold (ef_restore_one e) ks env =
    (\<lambda>k. if k \<in> set ks then (if start k = Some [] then None else start k) else env k)"
  using assms(1,2)
proof (induction ks arbitrary: env)
  case (Cons k ks)
  have "ef_restore_one e k env = env(k := if start k = Some [] then None else start k)"
    using Cons.prems(1) assms(3)
    by (cases "start k") (auto simp: ef_restore_one_def os_Getenv_def os_Setenv_def os_Unsetenv_def Let_def)
  with Cons show ?case by (auto simp: fun_eq_iff)
qed simp

theorem environment_restored:
  assumes "\<forall>k v. start k = Some v \<longrightarrow> env_key_ok k \<and> CHR 0x00 \<notin> set v"
    and s: "s = fold (\<lambda>(k, v). ef_Set k v) settings (NewEnvironmentFixtures, start)"
    and ks: "iteration_of ks (ef_original (fst s))"
  shows "snd (ef_Restore ks s) =
    (\<lambda>k. if ef_original (fst s) k \<noteq> None \<and> start k = Some [] then None else start k)"
proof -
  have saved: "saved_from start s"
    unfolding s by (rule saved_sets) (simp add: saved_from_def NewEnvironmentFixtures_def)
  have all: "\<forall>k \<in> set ks. ef_original (fst s) k = Some (os_Getenv k start)"
  proof
    fix k assume "k \<in> set ks"
    then have "ef_original (fst s) k \<noteq> None" using ks by (auto simp: iteration_of_def)
    moreover have "ef_original (fst s) k \<in> {None, Some (os_Getenv k start)}"
      using saved by (simp add: saved_from_def)
    ultimately show "ef_original (fst s) k = Some (os_Getenv k start)" by (cases "ef_original (fst s) k") auto
  qed
  have "snd (ef_Restore ks s) = fold (ef_restore_one (fst s)) ks (snd s)"
    by (simp add: ef_Restore_def split: prod.split)
  also have "\<dots> = (\<lambda>k. if k \<in> set ks then (if start k = Some [] then None else start k) else snd s k)"
    using ks by (intro restore_fold [OF all _ assms(1)]) (simp add: iteration_of_def)
  also have "\<dots> = (\<lambda>k. if ef_original (fst s) k \<noteq> None \<and> start k = Some [] then None else start k)"
    using saved ks by (auto simp: fun_eq_iff saved_from_def iteration_of_def)
  finally show ?thesis .
qed


lemma environment_restored_witness:
  "snd (ef_Restore [''ENV''] (ef_Set ''ENV'' ''test'' (NewEnvironmentFixtures, [''ENV'' \<mapsto> ''prod'']))) ''ENV'' = Some ''prod''"
proof -
  let ?start = "[''ENV'' \<mapsto> ''prod'']"
  have ok: "\<forall>k v. ?start k = Some v \<longrightarrow> env_key_ok k \<and> CHR 0x00 \<notin> set v"
    by (simp add: env_key_ok_def)
  have sets: "ef_Set ''ENV'' ''test'' (NewEnvironmentFixtures, ?start) =
      fold (\<lambda>(k, v). ef_Set k v) [(''ENV'', ''test'')] (NewEnvironmentFixtures, ?start)"
    by simp
  have ks: "iteration_of [''ENV''] (ef_original (fst (ef_Set ''ENV'' ''test'' (NewEnvironmentFixtures, ?start))))"
    by (simp add: iteration_of_def ef_Set_def NewEnvironmentFixtures_def Let_def)
  show ?thesis unfolding environment_restored [OF ok sets ks] by simp
qed

text \<open>A variable that was set, to the empty text, is not set any more.\<close>

lemma empty_variable_lost:
  "snd (ef_Restore [''A''] (ef_Set ''A'' ''x'' (NewEnvironmentFixtures, [''A'' \<mapsto> []]))) = Map.empty"
  by (simp add: ef_Restore_def ef_Set_def ef_restore_one_def NewEnvironmentFixtures_def os_Getenv_def os_Setenv_def
      os_Unsetenv_def env_key_ok_def Let_def)

lemma nextID_distinct:
  assumes "ff_counter f \<noteq> ff_counter g"
  shows "fst (nextID draw prefix f) \<noteq> fst (nextID draw' prefix g)"
proof
  have no_bar: "CHR ''_'' \<notin> set (signed_decimal n)" for n
  proof -
    have "\<not> digit CHR ''_''" by code_simp
    then have "CHR ''_'' \<notin> set (decimal k)" for k using decimal_digits [of k] by (metis list_all_iff)
    then show ?thesis by (simp add: signed_decimal_def)
  qed
  let ?a = "signed_decimal (ff_counter f + 1)" and ?b = "signed_decimal (ff_counter g + 1)"
  assume "fst (nextID draw prefix f) = fst (nextID draw' prefix g)"
  then have "?a @ CHR ''_'' # randomHex 4 draw = ?b @ CHR ''_'' # randomHex 4 draw'"
    by (simp add: nextID_def Let_def)
  then have "split_first CHR ''_'' (?a @ CHR ''_'' # randomHex 4 draw) =
      split_first CHR ''_'' (?b @ CHR ''_'' # randomHex 4 draw')"
    by simp
  then have "?a = ?b" by (simp add: split_first_some no_bar)
  with assms show False by (simp add: signed_decimal_inj)
qed

text \<open>
  A fixture that cannot be parsed ends a load: the fixtures before it are there, those after it are not, and a
  further \<open>Load\<close> fails again.
\<close>

lemma bad_fixture_ends_load:
  assumes "filepath_Ext bad = ''.json''" "fi_read fs bad = Inr data" "fi_parse fs data = Inl err"
    "fi_entries fs = Inr ((bad, False) # entries)"
  shows "fm_Load fs (NewFixtureManager dir) =
    (Some (''failed to parse fixture '' @ bad @ '': '' @ err), NewFixtureManager dir)"
  using assms by (simp add: fm_Load_def NewFixtureManager_def)

end
