(* ===== verification/MockQueue.thy ===== *)
theory MockQueue
  imports Go_Prelude "HOL-Library.Sublist"
begin

text \<open>
  The message queue for tests, \<open>MockMessageQueue\<close> of \<open>libs/testing/mocks.go\<close>, with its channels: each holds up
  to 100 messages, and the queue drops a message for a subscriber whose channel is full.
\<close>

section \<open>The queue\<close>

record Message =
  mq_ID :: string
  mq_Topic :: string
  mq_Body :: "byte list"
  mq_Headers :: metadata
  mq_Timestamp :: time

record channel =
  cl_buffer :: "Message list"
  cl_closed :: bool

text \<open>A channel is its position among the channels that have been made.\<close>

record MockMessageQueue =
  qu_messages :: "string \<rightharpoonup> Message list"
  qu_subscribers :: "string \<rightharpoonup> nat list"
  qu_shouldFail :: bool
  qu_failure :: "string option"
  qu_channels :: "channel list"

definition NewMockMessageQueue :: MockMessageQueue where
  "NewMockMessageQueue =
     \<lparr>qu_messages = Map.empty, qu_subscribers = Map.empty, qu_shouldFail = False, qu_failure = None,
      qu_channels = []\<rparr>"

definition subscribers_of :: "string \<Rightarrow> MockMessageQueue \<Rightarrow> nat list" where
  "subscribers_of topic m = (case qu_subscribers m topic of None \<Rightarrow> [] | Some subs \<Rightarrow> subs)"

definition messages_of :: "string \<Rightarrow> MockMessageQueue \<Rightarrow> Message list" where
  "messages_of topic m = (case qu_messages m topic of None \<Rightarrow> [] | Some msgs \<Rightarrow> msgs)"

text \<open>The \<open>select\<close> with a default: a send on a closed channel panics, one on a full channel is skipped.\<close>

definition try_send :: "Message \<Rightarrow> nat \<Rightarrow> channel list \<Rightarrow> channel list option" where
  "try_send msg ch cs =
     (if cl_closed (cs ! ch) then None
      else if length (cl_buffer (cs ! ch)) < 100
      then Some (cs[ch := (cs ! ch)\<lparr>cl_buffer := cl_buffer (cs ! ch) @ [msg]\<rparr>])
      else Some cs)"

fun notify :: "Message \<Rightarrow> nat list \<Rightarrow> channel list \<Rightarrow> channel list option" where
  "notify msg [] cs = Some cs"
| "notify msg (ch # subs) cs = (case try_send msg ch cs of None \<Rightarrow> None | Some cs' \<Rightarrow> notify msg subs cs')"

text \<open>\<open>None\<close> is a panic; the message has the id that \<open>generateID\<close> makes of the time.\<close>

definition Publish ::
  "time \<Rightarrow> string \<Rightarrow> string \<Rightarrow> byte list \<Rightarrow> metadata \<Rightarrow> MockMessageQueue \<Rightarrow> (string option \<times> MockMessageQueue) option" where
  "Publish now i topic body headers m =
     (if qu_shouldFail m then Some (qu_failure m, m)
      else
        let msg = \<lparr>mq_ID = i, mq_Topic = topic, mq_Body = body, mq_Headers = headers, mq_Timestamp = now\<rparr>;
            m = m\<lparr>qu_messages := (qu_messages m)(topic \<mapsto> messages_of topic m @ [msg])\<rparr>
        in case qu_subscribers m topic of
             Some subs \<Rightarrow>
               map_option (\<lambda>cs. (None, m\<lparr>qu_channels := cs\<rparr>)) (notify msg subs (qu_channels m))
           | None \<Rightarrow> Some (None, m))"

definition Subscribe :: "string \<Rightarrow> MockMessageQueue \<Rightarrow> nat \<times> MockMessageQueue" where
  "Subscribe topic m =
     (let ch = length (qu_channels m)
      in (ch, m\<lparr>qu_channels := qu_channels m @ [\<lparr>cl_buffer = [], cl_closed = False\<rparr>],
                qu_subscribers := (qu_subscribers m)(topic \<mapsto> subscribers_of topic m @ [ch])\<rparr>))"

definition GetMessages :: "string \<Rightarrow> MockMessageQueue \<Rightarrow> Message list" where
  "GetMessages topic m = messages_of topic m"

definition qu_SetFailure :: "string option \<Rightarrow> MockMessageQueue \<Rightarrow> MockMessageQueue" where
  "qu_SetFailure err m = m\<lparr>qu_shouldFail := True, qu_failure := err\<rparr>"

definition qu_ClearFailure :: "MockMessageQueue \<Rightarrow> MockMessageQueue" where
  "qu_ClearFailure m = m\<lparr>qu_shouldFail := False, qu_failure := None\<rparr>"

text \<open>Closing a closed channel panics.\<close>

fun close_all :: "nat list \<Rightarrow> channel list \<Rightarrow> channel list option" where
  "close_all [] cs = Some cs"
| "close_all (ch # chs) cs =
     (if cl_closed (cs ! ch) then None else close_all chs (cs[ch := (cs ! ch)\<lparr>cl_closed := True\<rparr>]))"

text \<open>\<open>topics\<close> is the order in which \<open>range\<close> visits the subscribers.\<close>

definition qu_Reset :: "string list \<Rightarrow> MockMessageQueue \<Rightarrow> MockMessageQueue option" where
  "qu_Reset topics m =
     map_option (\<lambda>cs. m\<lparr>qu_messages := Map.empty, qu_channels := cs, qu_subscribers := Map.empty,
         qu_shouldFail := False, qu_failure := None\<rparr>)
       (close_all (concat (map (\<lambda>topic. subscribers_of topic m) topics)) (qu_channels m))"

text \<open>A subscriber takes the first message of its channel.\<close>

definition Receive :: "nat \<Rightarrow> MockMessageQueue \<Rightarrow> Message option \<times> MockMessageQueue" where
  "Receive ch m =
     (case cl_buffer (qu_channels m ! ch) of
        [] \<Rightarrow> (None, m)
      | msg # rest \<Rightarrow>
          (Some msg, m\<lparr>qu_channels := (qu_channels m)[ch := (qu_channels m ! ch)\<lparr>cl_buffer := rest\<rparr>]\<rparr>))"

section \<open>Runs\<close>

text \<open>
  A run of the queue, with what has been published for each channel since it was made and what its subscriber
  has received.
\<close>

datatype queue_op =
  OpPublish time string string "byte list" metadata
| OpSubscribe string
| OpReceive nat
| OpSetFailure "string option"
| OpClearFailure
| OpReset "string list"

record queue_run =
  rn_queue :: MockMessageQueue
  rn_sent :: "nat \<Rightarrow> Message list"
  rn_received :: "nat \<Rightarrow> Message list"
  rn_panicked :: bool

definition queue_started :: queue_run where
  "queue_started = \<lparr>rn_queue = NewMockMessageQueue, rn_sent = (\<lambda>_. []), rn_received = (\<lambda>_. []), rn_panicked = False\<rparr>"

fun queue_step :: "queue_op \<Rightarrow> queue_run \<Rightarrow> queue_run" where
  "queue_step (OpPublish now i topic body headers) s =
     (case Publish now i topic body headers (rn_queue s) of
        None \<Rightarrow> s\<lparr>rn_panicked := True\<rparr>
      | Some (_, m) \<Rightarrow>
          if qu_shouldFail (rn_queue s) then s\<lparr>rn_queue := m\<rparr>
          else
            s\<lparr>rn_queue := m,
              rn_sent := (\<lambda>ch. rn_sent s ch @
                (if ch \<in> set (subscribers_of topic (rn_queue s))
                 then [\<lparr>mq_ID = i, mq_Topic = topic, mq_Body = body, mq_Headers = headers, mq_Timestamp = now\<rparr>]
                 else []))\<rparr>)"
| "queue_step (OpSubscribe topic) s = s\<lparr>rn_queue := snd (Subscribe topic (rn_queue s))\<rparr>"
| "queue_step (OpReceive ch) s =
     (case Receive ch (rn_queue s) of
        (None, m) \<Rightarrow> s
      | (Some msg, m) \<Rightarrow> s\<lparr>rn_queue := m, rn_received := (rn_received s)(ch := rn_received s ch @ [msg])\<rparr>)"
| "queue_step (OpSetFailure err) s = s\<lparr>rn_queue := qu_SetFailure err (rn_queue s)\<rparr>"
| "queue_step OpClearFailure s = s\<lparr>rn_queue := qu_ClearFailure (rn_queue s)\<rparr>"
| "queue_step (OpReset topics) s =
     (case qu_Reset topics (rn_queue s) of None \<Rightarrow> s\<lparr>rn_panicked := True\<rparr> | Some m \<Rightarrow> s\<lparr>rn_queue := m\<rparr>)"

text \<open>A channel is received from after it has been made; \<open>range\<close> visits every topic once.\<close>

definition queue_op_ok :: "queue_run \<Rightarrow> queue_op \<Rightarrow> bool" where
  "queue_op_ok s a =
     (case a of
        OpReceive ch \<Rightarrow> ch < length (qu_channels (rn_queue s))
      | OpReset topics \<Rightarrow> iteration_of topics (qu_subscribers (rn_queue s))
      | _ \<Rightarrow> True)"

text \<open>The subscribed channels are open, and none is subscribed twice.\<close>

definition queue_wf :: "MockMessageQueue \<Rightarrow> bool" where
  "queue_wf m \<longleftrightarrow>
     (\<forall>topic. distinct (subscribers_of topic m)) \<and>
     (\<forall>t u ch. ch \<in> set (subscribers_of t m) \<longrightarrow> ch \<in> set (subscribers_of u m) \<longrightarrow> t = u) \<and>
     (\<forall>topic. \<forall>ch \<in> set (subscribers_of topic m).
        ch < length (qu_channels m) \<and> \<not> cl_closed (qu_channels m ! ch)) \<and>
     (\<forall>c \<in> set (qu_channels m). length (cl_buffer c) \<le> 100)"

text \<open>
  What a subscriber has received and what waits for it is, in order, part of what was published, and all of
  it as long as that is not more than the channel holds.
\<close>

definition buffer_of :: "channel list \<Rightarrow> nat \<Rightarrow> Message list" where
  "buffer_of cs ch = (if ch < length cs then cl_buffer (cs ! ch) else [])"

definition in_order :: "(nat \<Rightarrow> Message list) \<Rightarrow> (nat \<Rightarrow> Message list) \<Rightarrow> channel list \<Rightarrow> nat \<Rightarrow> bool" where
  "in_order sent received cs ch \<longleftrightarrow>
     (let got = received ch @ buffer_of cs ch in
      subseq got (sent ch) \<and> (length (sent ch) \<le> 100 \<longrightarrow> got = sent ch))"

definition queue_inv :: "queue_run \<Rightarrow> bool" where
  "queue_inv s \<longleftrightarrow>
     queue_wf (rn_queue s) \<and> \<not> rn_panicked s \<and>
     (\<forall>ch. in_order (rn_sent s) (rn_received s) (qu_channels (rn_queue s)) ch)"


section \<open>Lemmas\<close>

text \<open>The message as a channel takes it.\<close>

definition taken :: "Message \<Rightarrow> channel \<Rightarrow> channel" where
  "taken msg c = (if length (cl_buffer c) < 100 then c\<lparr>cl_buffer := cl_buffer c @ [msg]\<rparr> else c)"

lemma taken_closed [simp]: "cl_closed (taken msg c) = cl_closed c"
  by (simp add: taken_def)

lemma taken_bound: "length (cl_buffer c) \<le> 100 \<Longrightarrow> length (cl_buffer (taken msg c)) \<le> 100"
  by (simp add: taken_def)

lemma try_send_open:
  assumes "\<not> cl_closed (cs ! ch)" "ch < length cs"
  shows "try_send msg ch cs = Some (cs[ch := taken msg (cs ! ch)])"
  using assms by (simp add: try_send_def taken_def)

lemma notify_open:
  assumes "distinct subs" "\<forall>ch \<in> set subs. ch < length cs \<and> \<not> cl_closed (cs ! ch)"
  shows "\<exists>cs'. notify msg subs cs = Some cs' \<and> length cs' = length cs \<and>
    (\<forall>j < length cs. cs' ! j = (if j \<in> set subs then taken msg (cs ! j) else cs ! j))"
  using assms
proof (induction subs arbitrary: cs)
  case (Cons ch subs)
  let ?cs = "cs[ch := taken msg (cs ! ch)]"
  have ch: "ch < length cs" "\<not> cl_closed (cs ! ch)" using Cons.prems(2) by simp_all
  have "\<forall>k \<in> set subs. k < length ?cs \<and> \<not> cl_closed (?cs ! k)"
    using Cons.prems by (auto simp: nth_list_update)
  with Cons.IH [of ?cs] Cons.prems(1) obtain cs' where "notify msg subs ?cs = Some cs'" "length cs' = length cs"
      "\<forall>j < length cs. cs' ! j = (if j \<in> set subs then taken msg (?cs ! j) else ?cs ! j)"
    by auto
  with ch Cons.prems(1) show ?case by (auto simp: try_send_open nth_list_update)
qed simp

lemma close_all_open:
  assumes "distinct chs" "\<forall>ch \<in> set chs. ch < length cs \<and> \<not> cl_closed (cs ! ch)"
  shows "\<exists>cs'. close_all chs cs = Some cs' \<and> length cs' = length cs \<and>
    (\<forall>j < length cs. cl_buffer (cs' ! j) = cl_buffer (cs ! j))"
  using assms
proof (induction chs arbitrary: cs)
  case (Cons ch chs)
  let ?cs = "cs[ch := (cs ! ch)\<lparr>cl_closed := True\<rparr>]"
  have "\<forall>k \<in> set chs. k < length ?cs \<and> \<not> cl_closed (?cs ! k)"
    using Cons.prems by (auto simp: nth_list_update)
  with Cons.IH [of ?cs] Cons.prems(1) obtain cs' where "close_all chs ?cs = Some cs'" "length cs' = length cs"
      "\<forall>j < length cs. cl_buffer (cs' ! j) = cl_buffer (?cs ! j)"
    by auto
  with Cons.prems show ?case by (auto simp: nth_list_update)
qed simp

text \<open>A channel and its history, when a message is published for it, and when one is received.\<close>

lemma in_order_iff:
  "in_order sent received cs ch \<longleftrightarrow>
     subseq (received ch @ buffer_of cs ch) (sent ch) \<and>
     (length (sent ch) \<le> 100 \<longrightarrow> received ch @ buffer_of cs ch = sent ch)"
  by (simp add: in_order_def Let_def)

lemma in_order_published:
  assumes "in_order sent received cs ch" "length cs' = length cs"
    "\<forall>j < length cs. cs' ! j = (if j \<in> S then taken msg (cs ! j) else cs ! j)" "S \<subseteq> {..<length cs}"
  shows "in_order (\<lambda>ch. sent ch @ (if ch \<in> S then [msg] else [])) received cs' ch"
proof (cases "ch \<in> S")
  case True
  then have ch: "ch < length cs" using assms(4) by auto
  let ?got = "received ch @ cl_buffer (cs ! ch)"
  have old: "subseq ?got (sent ch)" "length (sent ch) \<le> 100 \<Longrightarrow> ?got = sent ch"
    using assms(1) ch by (simp_all add: in_order_iff buffer_of_def)
  have new: "in_order (\<lambda>ch. sent ch @ (if ch \<in> S then [msg] else [])) received cs' ch \<longleftrightarrow>
      subseq (received ch @ cl_buffer (taken msg (cs ! ch))) (sent ch @ [msg]) \<and>
      (length (sent ch) < 100 \<longrightarrow> received ch @ cl_buffer (taken msg (cs ! ch)) = sent ch @ [msg])"
    using True ch assms(2,3) by (auto simp: in_order_iff buffer_of_def)
  show ?thesis
  proof (cases "length (cl_buffer (cs ! ch)) < 100")
    case True
    then have "received ch @ cl_buffer (taken msg (cs ! ch)) = ?got @ [msg]" by (simp add: taken_def)
    moreover have "subseq (?got @ [msg]) (sent ch @ [msg])"
      using old(1) by (intro list_emb_append_mono) simp_all
    ultimately show ?thesis using new old(2) by simp
  next
    case False
    with old(2) have "\<not> length (sent ch) < 100" by (metis le_add2 length_append le_trans less_imp_le not_less)
    with False new old(1) show ?thesis by (auto simp: taken_def intro: subseq_order.trans)
  qed
next
  case False
  then have "buffer_of cs' ch = buffer_of cs ch" using assms(2,3) by (simp add: buffer_of_def)
  with False assms(1) show ?thesis by (simp add: in_order_iff)
qed

lemma in_order_received:
  assumes "in_order sent received cs ch" "k < length cs" "cl_buffer (cs ! k) = msg # rest"
  shows "in_order sent (received(k := received k @ [msg])) (cs[k := (cs ! k)\<lparr>cl_buffer := rest\<rparr>]) ch"
proof (cases "ch = k")
  case True
  with assms show ?thesis by (simp add: in_order_iff buffer_of_def)
next
  case False
  then have "buffer_of (cs[k := (cs ! k)\<lparr>cl_buffer := rest\<rparr>]) ch = buffer_of cs ch" by (simp add: buffer_of_def)
  with False assms(1) show ?thesis by (simp add: in_order_iff)
qed

lemma queue_wf_buffers:
  assumes "queue_wf m" "length cs = length (qu_channels m)"
    "\<forall>j < length cs. cl_closed (cs ! j) = cl_closed (qu_channels m ! j)"
    "\<forall>j < length cs. length (cl_buffer (cs ! j)) \<le> 100"
  shows "queue_wf (m\<lparr>qu_channels := cs\<rparr>)"
proof -
  have "\<forall>c \<in> set cs. length (cl_buffer c) \<le> 100" using assms(4) by (metis in_set_conv_nth)
  with assms show ?thesis unfolding queue_wf_def subscribers_of_def by simp
qed


lemma publish_inv:
  assumes inv: "queue_inv s"
  shows "queue_inv (queue_step (OpPublish now i topic body headers) s)"
proof (cases "qu_shouldFail (rn_queue s)")
  case True
  then show ?thesis using inv by (simp add: Publish_def queue_inv_def)
next
  case False
  let ?m = "rn_queue s" and ?subs = "subscribers_of topic (rn_queue s)"
  let ?msg = "\<lparr>mq_ID = i, mq_Topic = topic, mq_Body = body, mq_Headers = headers, mq_Timestamp = now\<rparr>"
  let ?m' = "?m\<lparr>qu_messages := (qu_messages ?m)(topic \<mapsto> messages_of topic ?m @ [?msg])\<rparr>"
  have wf: "queue_wf ?m" using inv by (simp add: queue_inv_def)
  then have subs: "distinct ?subs" "\<forall>ch \<in> set ?subs. ch < length (qu_channels ?m) \<and> \<not> cl_closed (qu_channels ?m ! ch)"
    by (simp_all add: queue_wf_def)
  obtain cs' where cs': "notify ?msg ?subs (qu_channels ?m) = Some cs'" "length cs' = length (qu_channels ?m)"
      "\<forall>j < length (qu_channels ?m). cs' ! j =
        (if j \<in> set ?subs then taken ?msg (qu_channels ?m ! j) else qu_channels ?m ! j)"
    using notify_open [OF subs, of ?msg] by blast
  have "Publish now i topic body headers ?m = Some (None, ?m'\<lparr>qu_channels := cs'\<rparr>)"
  proof (cases "qu_subscribers ?m topic")
    case None
    then have "cs' = qu_channels ?m" using cs'(1) by (simp add: subscribers_of_def)
    with None False show ?thesis by (simp add: Publish_def Let_def)
  next
    case (Some subs)
    with cs'(1) False show ?thesis by (simp add: Publish_def Let_def subscribers_of_def)
  qed
  then have step: "queue_step (OpPublish now i topic body headers) s =
      s\<lparr>rn_queue := ?m'\<lparr>qu_channels := cs'\<rparr>,
        rn_sent := (\<lambda>ch. rn_sent s ch @ (if ch \<in> set ?subs then [?msg] else []))\<rparr>"
    using False by simp
  have "queue_wf ?m'" using wf by (simp add: queue_wf_def subscribers_of_def)
  moreover have "\<forall>j < length cs'. length (cl_buffer (cs' ! j)) \<le> 100"
    using wf cs'(2,3) by (auto simp: queue_wf_def intro!: taken_bound)
  ultimately have "queue_wf (?m'\<lparr>qu_channels := cs'\<rparr>)"
    using cs'(2,3) by (intro queue_wf_buffers) auto
  moreover have "in_order (\<lambda>ch. rn_sent s ch @ (if ch \<in> set ?subs then [?msg] else [])) (rn_received s) cs' ch" for ch
    using inv cs'(2,3) subs(2) by (intro in_order_published) (auto simp: queue_inv_def)
  ultimately show ?thesis using inv unfolding step by (simp add: queue_inv_def)
qed

lemma subscribe_inv:
  assumes inv: "queue_inv s"
  shows "queue_inv (queue_step (OpSubscribe topic) s)"
proof -
  let ?m = "rn_queue s" and ?m' = "snd (Subscribe topic (rn_queue s))"
  have wf: "queue_wf ?m" using inv by (simp add: queue_inv_def)
  have subs: "subscribers_of t ?m' = (if t = topic then subscribers_of t ?m @ [length (qu_channels ?m)] else subscribers_of t ?m)" for t
    by (simp add: Subscribe_def subscribers_of_def Let_def)
  have channels: "qu_channels ?m' = qu_channels ?m @ [\<lparr>cl_buffer = [], cl_closed = False\<rparr>]"
    by (simp add: Subscribe_def Let_def)
  have old: "ch < length (qu_channels ?m)" if "ch \<in> set (subscribers_of t ?m)" for t ch
    using wf that by (simp add: queue_wf_def)
  have "queue_wf ?m'"
    unfolding queue_wf_def subs channels
  proof (intro conjI allI ballI impI)
    fix t u ch
    assume "ch \<in> set (if t = topic then subscribers_of t ?m @ [length (qu_channels ?m)] else subscribers_of t ?m)"
      "ch \<in> set (if u = topic then subscribers_of u ?m @ [length (qu_channels ?m)] else subscribers_of u ?m)"
    then show "t = u" using wf old [of ch t] old [of ch u] by (auto simp: queue_wf_def split: if_splits)
  qed (use wf old in \<open>auto simp: queue_wf_def nth_append intro: less_SucI split: if_splits\<close>)
  moreover have "in_order (rn_sent s) (rn_received s) (qu_channels ?m') ch" for ch
  proof -
    have "buffer_of (qu_channels ?m') ch = buffer_of (qu_channels ?m) ch"
      by (simp add: buffer_of_def channels nth_append less_Suc_eq)
    then show ?thesis using inv by (simp add: queue_inv_def in_order_iff)
  qed
  ultimately show ?thesis using inv by (simp add: queue_inv_def)
qed

lemma receive_inv:
  assumes inv: "queue_inv s" and k: "k < length (qu_channels (rn_queue s))"
  shows "queue_inv (queue_step (OpReceive k) s)"
proof (cases "cl_buffer (qu_channels (rn_queue s) ! k)")
  case Nil
  then show ?thesis using inv by (simp add: Receive_def)
next
  case (Cons msg rest)
  let ?m = "rn_queue s"
  let ?cs = "(qu_channels ?m)[k := (qu_channels ?m ! k)\<lparr>cl_buffer := rest\<rparr>]"
  have wf: "queue_wf ?m" using inv by (simp add: queue_inv_def)
  then have bound: "\<forall>j < length (qu_channels ?m). length (cl_buffer (qu_channels ?m ! j)) \<le> 100"
    by (simp add: queue_wf_def)
  with k Cons have "length rest \<le> 100" by (metis Suc_leD length_Cons)
  with k wf bound have "queue_wf (?m\<lparr>qu_channels := ?cs\<rparr>)"
    by (intro queue_wf_buffers) (auto simp: nth_list_update)
  with inv k Cons show ?thesis by (simp add: Receive_def queue_inv_def in_order_received)
qed

lemma reset_inv:
  assumes inv: "queue_inv s" and topics: "iteration_of topics (qu_subscribers (rn_queue s))"
  shows "queue_inv (queue_step (OpReset topics) s)"
proof -
  let ?m = "rn_queue s" and ?chs = "concat (map (\<lambda>topic. subscribers_of topic (rn_queue s)) topics)"
  have wf: "queue_wf ?m" using inv by (simp add: queue_inv_def)
  have "distinct topics" using topics by (simp add: iteration_of_def)
  then have "distinct ?chs"
    using wf by (induction topics) (auto simp: queue_wf_def)
  moreover have "\<forall>ch \<in> set ?chs. ch < length (qu_channels ?m) \<and> \<not> cl_closed (qu_channels ?m ! ch)"
    using wf by (auto simp: queue_wf_def)
  ultimately obtain cs' where cs': "close_all ?chs (qu_channels ?m) = Some cs'" "length cs' = length (qu_channels ?m)"
      "\<forall>j < length (qu_channels ?m). cl_buffer (cs' ! j) = cl_buffer (qu_channels ?m ! j)"
    using close_all_open by blast
  have "\<forall>c \<in> set cs'. length (cl_buffer c) \<le> 100"
  proof
    fix c assume "c \<in> set cs'"
    then obtain j where "j < length cs'" "c = cs' ! j" by (metis in_set_conv_nth)
    then show "length (cl_buffer c) \<le> 100" using wf cs'(2,3) by (simp add: queue_wf_def)
  qed
  then have "queue_wf (?m\<lparr>qu_messages := Map.empty, qu_channels := cs', qu_subscribers := Map.empty,
      qu_shouldFail := False, qu_failure := None\<rparr>)"
    by (simp add: queue_wf_def subscribers_of_def)
  moreover have "buffer_of cs' = buffer_of (qu_channels ?m)"
    using cs'(2,3) by (auto simp: buffer_of_def)
  ultimately show ?thesis
    using inv cs'(1) by (simp add: qu_Reset_def queue_inv_def in_order_iff)
qed

interpretation message_queue: invariant_machine queue_step queue_op_ok queue_inv
proof
  fix s a assume "queue_inv s" "queue_op_ok s a"
  then show "queue_inv (queue_step a s)"
    by (cases a) (auto simp: queue_op_ok_def publish_inv subscribe_inv receive_inv reset_inv
        simp del: queue_step.simps intro: publish_inv, simp_all add: queue_inv_def queue_wf_def subscribers_of_def
        qu_SetFailure_def qu_ClearFailure_def)
qed

lemma queue_inv_started: "queue_inv queue_started"
  by (simp add: queue_inv_def queue_started_def NewMockMessageQueue_def queue_wf_def subscribers_of_def in_order_iff buffer_of_def)

text \<open>
  Whatever is done with the queue, it never panics, no channel holds more than 100 messages, and a
  subscriber gets messages of its topic in the order of their publication, each once; it misses none as long as
  no more than 100 have been published.
\<close>

theorem queue_delivers_in_order:
  assumes "run_ok queue_step queue_op_ok ops queue_started"
  shows "let s = run queue_step ops queue_started;
             got = rn_received s ch @ buffer_of (qu_channels (rn_queue s)) ch
    in \<not> rn_panicked s \<and> subseq got (rn_sent s ch) \<and> (length (rn_sent s ch) \<le> 100 \<longrightarrow> got = rn_sent s ch)"
  using message_queue.run_inv [OF queue_inv_started assms] by (simp add: queue_inv_def in_order_iff Let_def)

lemma queue_delivers_in_order_witness:
  "\<not> rn_panicked (run queue_step [OpSubscribe ''t'', OpPublish 1 ''1'' ''t'' [] None, OpReceive 0] queue_started)"
proof -
  have "run_ok queue_step queue_op_ok [OpSubscribe ''t'', OpPublish 1 ''1'' ''t'' [] None, OpReceive 0] queue_started"
    by (simp add: queue_op_ok_def queue_started_def NewMockMessageQueue_def Subscribe_def Publish_def subscribers_of_def
        try_send_def Let_def)
  from queue_delivers_in_order [OF this, of 0] show ?thesis unfolding Let_def by blast
qed

end
