(* ===== verification/IntegrationSuite.thy ===== *)
theory IntegrationSuite
  imports Assertions Fixtures MockQueue
begin

text \<open>
  The suite for integration tests, \<open>libs/testing/integration.go\<close>: its servers, its clean-up, the requests and
  their expectations, and the runners of benchmarks and tables.

  A server of \<open>httptest\<close> is a number with a URL; the transport is that of \<open>HttpClient\<close>.
\<close>

section \<open>The suite\<close>

text \<open>
  A function registered for the clean-up: the one that \<open>SetupServer\<close> registers, which closes what
  \<open>s.Server\<close> is when it is called, or one of the test over its own state \<open>'w\<close>.
\<close>

datatype 'w cleanup = CloseServer | Custom "'w \<Rightarrow> 'w"

text \<open>\<open>su_Client\<close> is the TLS server whose client is used, or \<open>None\<close> for the plain client.\<close>

record ('v, 'w) IntegrationSuite =
  su_Server :: "nat option"
  su_Client :: "nat option"
  su_running :: "nat list"
  su_made :: nat
  su_MockDB :: "'v TestDB"
  su_MockCache :: "'v MockCache"
  su_MockQueue :: MockMessageQueue
  su_Factory :: FixtureFactory
  su_Env :: "EnvironmentFixtures \<times> process_env"
  su_cleanupFuncs :: "'w cleanup list"
  su_skipIntegration :: bool
  su_outside :: 'w

definition NewIntegrationSuite :: "process_env \<Rightarrow> 'w \<Rightarrow> ('v, 'w) IntegrationSuite" where
  "NewIntegrationSuite env w =
     \<lparr>su_Server = None, su_Client = None, su_running = [], su_made = 0, su_MockDB = NewTestDB, su_MockCache = NewMockCache,
      su_MockQueue = NewMockMessageQueue, su_Factory = NewFixtureFactory,
      su_Env = (NewEnvironmentFixtures, env), su_cleanupFuncs = [],
      su_skipIntegration = (os_Getenv ''SKIP_INTEGRATION'' env = ''true''), su_outside = w\<rparr>"

text \<open>Whether the test is skipped.\<close>

definition su_Skip :: "('v, 'w) IntegrationSuite \<Rightarrow> bool" where
  "su_Skip s = su_skipIntegration s"

definition RegisterCleanup :: "'w cleanup \<Rightarrow> ('v, 'w) IntegrationSuite \<Rightarrow> ('v, 'w) IntegrationSuite" where
  "RegisterCleanup fn s = s\<lparr>su_cleanupFuncs := su_cleanupFuncs s @ [fn]\<rparr>"

definition SetupServer :: "('v, 'w) IntegrationSuite \<Rightarrow> ('v, 'w) IntegrationSuite" where
  "SetupServer s =
     RegisterCleanup CloseServer
       (s\<lparr>su_Server := Some (su_made s), su_running := su_running s @ [su_made s], su_made := su_made s + 1\<rparr>)"

definition SetupTLSServer :: "('v, 'w) IntegrationSuite \<Rightarrow> ('v, 'w) IntegrationSuite" where
  "SetupTLSServer s =
     RegisterCleanup CloseServer
       (s\<lparr>su_Server := Some (su_made s), su_running := su_running s @ [su_made s], su_made := su_made s + 1,
          su_Client := Some (su_made s)\<rparr>)"

text \<open>Closing a server again does nothing.\<close>

definition run_cleanup :: "'w cleanup \<Rightarrow> ('v, 'w) IntegrationSuite \<Rightarrow> ('v, 'w) IntegrationSuite" where
  "run_cleanup fn s =
     (case fn of
        CloseServer \<Rightarrow>
          (case su_Server s of
             None \<Rightarrow> s
           | Some n \<Rightarrow> s\<lparr>su_running := filter (\<lambda>x. x \<noteq> n) (su_running s)\<rparr>)
      | Custom f \<Rightarrow> s\<lparr>su_outside := f (su_outside s)\<rparr>)"

text \<open>\<open>None\<close> is a panic; \<open>topics\<close> and \<open>ks\<close> are the orders in which \<open>range\<close> visits the maps.\<close>

definition Teardown :: "string list \<Rightarrow> string list \<Rightarrow> ('v, 'w) IntegrationSuite \<Rightarrow> ('v, 'w) IntegrationSuite option" where
  "Teardown topics ks s =
     (let s = fold run_cleanup (rev (su_cleanupFuncs s)) s in
      case qu_Reset topics (su_MockQueue s) of
        None \<Rightarrow> None
      | Some queue \<Rightarrow>
          Some (s\<lparr>su_MockDB := md_Reset (su_MockDB s), su_MockCache := mc_Reset (su_MockCache s),
                  su_MockQueue := queue, su_Env := ef_Restore ks (su_Env s)\<rparr>))"

section \<open>Requests\<close>

text \<open>
  \<open>body\<close> is what \<open>json.Marshal\<close> makes of the body, if there is one; the headers come in the order in which
  \<open>range\<close> visits them.  \<open>url\<close> is the URL of a server.
\<close>

definition canonical_set :: "string \<Rightarrow> string \<Rightarrow> ClientRequest \<Rightarrow> ClientRequest" where
  "canonical_set k v = put_header (CanonicalHeaderKey k) v"

definition su_Request ::
  "(nat \<Rightarrow> string) \<Rightarrow> 'x transport \<Rightarrow> string \<Rightarrow> string \<Rightarrow> (string + string) option \<Rightarrow> (string \<times> string) list \<Rightarrow>
    ('v, 'w) IntegrationSuite \<Rightarrow> 'x \<Rightarrow> (string + HttpResponse) \<times> 'x" where
  "su_Request url http method' path body headers s x =
     (case su_Server s of
        None \<Rightarrow> (Inl ''server not initialized'', x)
      | Some n \<Rightarrow>
          (case body of
             Some (Inl err) \<Rightarrow> (Inl err, x)
           | _ \<Rightarrow>
               (case NewRequest method' (url n @ path) (case body of Some (Inr data) \<Rightarrow> data | _ \<Rightarrow> []) of
                  Inl err \<Rightarrow> (Inl err, x)
                | Inr r \<Rightarrow>
                    let r = (if body \<noteq> None then canonical_set ''Content-Type'' ''application/json'' r else r);
                        r = fold (\<lambda>(k, v). canonical_set k v) headers r
                    in http r x)))"

definition su_GET where
  "su_GET url http path headers = su_Request url http ''GET'' path None headers"

definition su_POST where
  "su_POST url http path body headers = su_Request url http ''POST'' path body headers"

definition su_PUT where
  "su_PUT url http path body headers = su_Request url http ''PUT'' path body headers"

definition su_PATCH where
  "su_PATCH url http path body headers = su_Request url http ''PATCH'' path body headers"

definition su_DELETE where
  "su_DELETE url http path headers = su_Request url http ''DELETE'' path None headers"

text \<open>\<open>decode\<close> is \<open>json.Decoder\<close> on a body; the target is changed only when it does not fail.\<close>

definition ParseResponse :: "(string \<Rightarrow> string + 'a) \<Rightarrow> HttpResponse \<Rightarrow> 'a \<Rightarrow> string option \<times> 'a" where
  "ParseResponse decode resp target =
     (case decode (hs_Body resp) of Inl err \<Rightarrow> (Some err, target) | Inr v \<Rightarrow> (None, v))"

text \<open>The deadline of the context.\<close>

definition TestContext :: "time \<Rightarrow> duration \<Rightarrow> time" where
  "TestContext now timeout = now + timeout"

text \<open>\<open>rest\<close> is what \<open>io.ReadAll\<close> reads of the body.\<close>

definition AssertStatus :: "int64 \<Rightarrow> string \<Rightarrow> int64 \<Rightarrow> tester \<Rightarrow> tester" where
  "AssertStatus actual rest expected t =
     (if actual \<noteq> expected
      then Errorf ''Expected status %d, got %d. Body: %s'' [ArgNumber expected, ArgNumber actual, ArgText rest] t
      else t)"

definition WaitFor :: "time \<Rightarrow> (nat \<Rightarrow> time) \<Rightarrow> (nat \<Rightarrow> bool) \<Rightarrow> duration \<Rightarrow> bool option" where
  "WaitFor now clk cond timeout = poll clk cond (now + timeout) 0"

section \<open>Fluent requests\<close>

record APITest =
  at_request :: "ClientRequest option"
  at_err :: "string option"

text \<open>\<open>None\<close> is the panic when there is no server.\<close>

definition at_start :: "string \<Rightarrow> string option \<Rightarrow> string \<Rightarrow> APITest option" where
  "at_start method' server_url path =
     map_option (\<lambda>url.
       case NewRequest method' (url @ path) [] of
         Inl err \<Rightarrow> \<lparr>at_request = None, at_err = Some err\<rparr>
       | Inr r \<Rightarrow> \<lparr>at_request = Some r, at_err = None\<rparr>) server_url"

definition at_Get where "at_Get = at_start ''GET''"
definition at_Post where "at_Post = at_start ''POST''"
definition at_Put where "at_Put = at_start ''PUT''"
definition at_Delete where "at_Delete = at_start ''DELETE''"

definition at_WithHeader :: "string \<Rightarrow> string \<Rightarrow> APITest \<Rightarrow> APITest" where
  "at_WithHeader key v a = a\<lparr>at_request := map_option (canonical_set key v) (at_request a)\<rparr>"

definition at_WithJSON :: "string + string \<Rightarrow> APITest \<Rightarrow> APITest" where
  "at_WithJSON body a =
     (case at_request a of
        None \<Rightarrow> a
      | Some r \<Rightarrow>
          (case body of
             Inl err \<Rightarrow> a\<lparr>at_err := Some err\<rparr>
           | Inr data \<Rightarrow>
               a\<lparr>at_request := Some (canonical_set ''Content-Type'' ''application/json'' (r\<lparr>hr_Body := data\<rparr>))\<rparr>))"

definition at_WithAuth :: "string \<Rightarrow> APITest \<Rightarrow> APITest" where
  "at_WithAuth token = at_WithHeader ''Authorization'' (''Bearer '' @ token)"

definition at_WithAPIKey :: "string \<Rightarrow> APITest \<Rightarrow> APITest" where
  "at_WithAPIKey key = at_WithHeader ''X-API-Key'' key"

definition at_WithRequestID :: "string \<Rightarrow> APITest \<Rightarrow> APITest" where
  "at_WithRequestID i = at_WithHeader ''X-Request-ID'' i"

text \<open>\<open>Fatalf\<close> reports and ends the test; then there is no expectation.\<close>

definition Fatalf :: "string \<Rightarrow> report_arg list \<Rightarrow> tester \<Rightarrow> tester" where
  "Fatalf format args t = FailNow (Errorf format args t)"

definition Expect :: "'x transport \<Rightarrow> APITest \<Rightarrow> tester \<Rightarrow> 'x \<Rightarrow> HttpResponse option \<times> tester \<times> 'x" where
  "Expect http a t x =
     (case at_err a of
        Some err \<Rightarrow> (None, Fatalf ''Request setup failed: %v'' [ArgError err] t, x)
      | None \<Rightarrow>
          (case http (the (at_request a)) x of
             (Inl err, x') \<Rightarrow> (None, Fatalf ''Request failed: %v'' [ArgError err] t, x')
           | (Inr resp, x') \<Rightarrow> (Some resp, t, x')))"

definition x_Status :: "int64 \<Rightarrow> string \<Rightarrow> int64 \<Rightarrow> tester \<Rightarrow> tester" where
  "x_Status actual rest expected t =
     (if actual \<noteq> expected
      then Errorf ''Expected status %d, got %d. Body: %s'' [ArgNumber expected, ArgNumber actual, ArgText rest] t
      else t)"

definition x_Header :: "HttpAnswer \<Rightarrow> string \<Rightarrow> string \<Rightarrow> tester \<Rightarrow> tester" where
  "x_Header resp key expected t =
     (let actual = header_Get resp key in
      if actual \<noteq> expected
      then Errorf ''Expected header %s=%q, got %q'' [ArgText key, ArgText expected, ArgText actual] t else t)"

definition x_HeaderContains :: "HttpAnswer \<Rightarrow> string \<Rightarrow> string \<Rightarrow> tester \<Rightarrow> tester" where
  "x_HeaderContains resp key substr t =
     (let actual = header_Get resp key in
      if \<not> str_Contains actual substr
      then Errorf ''Expected header %s to contain %q, got %q'' [ArgText key, ArgText substr, ArgText actual] t else t)"

definition x_BodyContains :: "string + string \<Rightarrow> string \<Rightarrow> tester \<Rightarrow> tester" where
  "x_BodyContains body substr t =
     (case body of
        Inl err \<Rightarrow> Fatalf ''Failed to read body: %v'' [ArgError err] t
      | Inr s \<Rightarrow>
          if \<not> str_Contains s substr
          then Errorf ''Expected body to contain %q, got %s'' [ArgText substr, ArgText s] t else t)"

definition x_JSON :: "string + 'v \<Rightarrow> tester \<Rightarrow> 'v option \<times> tester" where
  "x_JSON decoded t =
     (case decoded of
        Inl err \<Rightarrow> (None, Fatalf ''Failed to parse JSON: %v'' [ArgError err] t)
      | Inr v \<Rightarrow> (Some v, t))"

section \<open>Runners\<close>

record 'w Benchmark =
  be_setup :: "('w \<Rightarrow> 'w) option"
  be_teardown :: "('w \<Rightarrow> 'w) option"

definition optionally :: "('w \<Rightarrow> 'w) option \<Rightarrow> 'w \<Rightarrow> 'w" where
  "optionally f w = (case f of None \<Rightarrow> w | Some g \<Rightarrow> g w)"

definition NewBenchmark :: "'w Benchmark" where
  "NewBenchmark = \<lparr>be_setup = None, be_teardown = None\<rparr>"

definition be_Setup :: "('w \<Rightarrow> 'w) \<Rightarrow> 'w Benchmark \<Rightarrow> 'w Benchmark" where
  "be_Setup fn b = b\<lparr>be_setup := Some fn\<rparr>"

definition be_Teardown :: "('w \<Rightarrow> 'w) \<Rightarrow> 'w Benchmark \<Rightarrow> 'w Benchmark" where
  "be_Teardown fn b = b\<lparr>be_teardown := Some fn\<rparr>"

definition be_Run :: "nat \<Rightarrow> ('w \<Rightarrow> 'w) \<Rightarrow> 'w Benchmark \<Rightarrow> 'w \<Rightarrow> 'w" where
  "be_Run n fn b w = optionally (be_teardown b) ((fn ^^ n) (optionally (be_setup b) w))"

text \<open>
  \<open>RunParallel\<close>: goroutines that take iterations as long as there are any, and do the actions of the function one by
  one, in any interleaving.  A state is the iterations left, what each goroutine still has to do of
  its iteration, and the state of the test.
\<close>

inductive parallel_step ::
  "('w \<Rightarrow> 'w) list \<Rightarrow> nat \<times> ('w \<Rightarrow> 'w) list list \<times> 'w \<Rightarrow> nat \<times> ('w \<Rightarrow> 'w) list list \<times> 'w \<Rightarrow> bool"
  for body where
  take_iteration: "j < length gs \<Longrightarrow> gs ! j = [] \<Longrightarrow>
    parallel_step body (Suc n, gs, w) (n, gs[j := body], w)"
| do_action: "j < length gs \<Longrightarrow> gs ! j = f # fs \<Longrightarrow>
    parallel_step body (n, gs, w) (n, gs[j := fs], f w)"

inductive be_RunParallel ::
  "nat \<Rightarrow> nat \<Rightarrow> ('w \<Rightarrow> 'w) list \<Rightarrow> 'w Benchmark \<Rightarrow> 'w \<Rightarrow> 'w \<Rightarrow> bool" for procs n body b w where
  "(parallel_step body)\<^sup>*\<^sup>* (n, replicate procs [], optionally (be_setup b) w) (0, replicate procs [], w') \<Longrightarrow>
    be_RunParallel procs n body b w (optionally (be_teardown b) w')"

text \<open>Sub-tests run one after the other, also after one that failed.\<close>

record 'd SubTest =
  sb_Name :: string
  sb_Data :: 'd

definition RunSubTests :: "'d SubTest list \<Rightarrow> ('d \<Rightarrow> 'w \<Rightarrow> 'w) \<Rightarrow> 'w \<Rightarrow> 'w" where
  "RunSubTests tests fn = fold (\<lambda>tt. fn (sb_Data tt)) tests"

text \<open>The teardown is deferred: it happens also when the test ends early, in the state it leaves.\<close>

record 'w TableTest =
  tb_Name :: string
  tb_Setup :: "('w \<Rightarrow> 'w) option"
  tb_Run :: "'w \<Rightarrow> 'w"
  tb_Teardown :: "('w \<Rightarrow> 'w) option"
  tb_Skip :: bool

definition run_table_test :: "'w TableTest \<Rightarrow> 'w \<Rightarrow> 'w" where
  "run_table_test tt w =
     (if tb_Skip tt then w else optionally (tb_Teardown tt) (tb_Run tt (optionally (tb_Setup tt) w)))"

definition RunTableTests :: "'w TableTest list \<Rightarrow> 'w \<Rightarrow> 'w" where
  "RunTableTests tests = fold run_table_test tests"

section \<open>What the suite does\<close>

text \<open>Clean-up functions run in the reverse of the order of their registration.\<close>

lemma cleanups_reversed:
  "su_outside (fold run_cleanup (rev (map Custom fs)) s) = foldr (\<lambda>f w. f w) fs (su_outside s)"
  by (induction fs arbitrary: s) (simp_all add: run_cleanup_def)

text \<open>
  A server that was set up before another one is never closed: the function that was registered for it
  closes the server that is there at the end.
\<close>

lemma first_server_leaks:
  "let s = SetupServer (SetupServer (NewIntegrationSuite env w))
   in su_running (fold run_cleanup (rev (su_cleanupFuncs s)) s) = [0]"
  by (simp add: SetupServer_def RegisterCleanup_def NewIntegrationSuite_def run_cleanup_def)

lemma single_server_closed:
  "let s = SetupServer (NewIntegrationSuite env w)
   in su_running (fold run_cleanup (rev (su_cleanupFuncs s)) s) = []"
  by (simp add: SetupServer_def RegisterCleanup_def NewIntegrationSuite_def run_cleanup_def)

text \<open>A skipped test does nothing, and its neighbours run as if it were not there.\<close>

lemma skipped_tests: "RunTableTests tests = RunTableTests (filter (\<lambda>tt. \<not> tb_Skip tt) tests)"
  by (induction tests) (simp_all add: RunTableTests_def run_table_test_def fun_eq_iff)

text \<open>A request needs a server; the fluent one panics without.\<close>

lemma no_server:
  "su_Request url http m path body headers (NewIntegrationSuite env w) x = (Inl ''server not initialized'', x)"
  "at_Get None path = None"
  by (simp_all add: su_Request_def NewIntegrationSuite_def at_Get_def at_start_def)

text \<open>
  When the actions of a benchmark commute, a parallel run leaves what a run in one goroutine leaves, however the
  goroutines interleave.
\<close>

abbreviation do_all :: "('w \<Rightarrow> 'w) list \<Rightarrow> 'w \<Rightarrow> 'w" where
  "do_all fs \<equiv> fold (\<lambda>f. f) fs"

definition commuting :: "('w \<Rightarrow> 'w) list \<Rightarrow> bool" where
  "commuting fs \<longleftrightarrow> (\<forall>f \<in> set fs. \<forall>g \<in> set fs. \<forall>w. f (g w) = g (f w))"

lemma do_all_commute:
  assumes "commuting body" "set fs \<subseteq> set body" "g \<in> set body"
  shows "do_all fs (g w) = g (do_all fs w)"
  using assms(2)
proof (induction fs arbitrary: w)
  case (Cons f fs)
  then have "f (g w) = g (f w)" using assms(1,3) by (simp add: commuting_def)
  with Cons show ?case by simp
qed simp

lemma do_all_swap:
  assumes "commuting body" "set fs \<subseteq> set body" "set gs \<subseteq> set body"
  shows "do_all fs (do_all gs w) = do_all gs (do_all fs w)"
  using assms(3)
proof (induction gs arbitrary: w)
  case (Cons g gs)
  then show ?case using do_all_commute [OF assms(1,2), of g w] by simp
qed simp

text \<open>What is left to do, done in the order of the goroutines after the iterations that are left.\<close>

definition pending :: "('w \<Rightarrow> 'w) list \<Rightarrow> nat \<times> ('w \<Rightarrow> 'w) list list \<times> 'w \<Rightarrow> 'w" where
  "pending body c = (case c of (n, gs, w) \<Rightarrow> (do_all body ^^ n) (do_all (concat gs) w))"

definition from_body :: "('w \<Rightarrow> 'w) list \<Rightarrow> nat \<times> ('w \<Rightarrow> 'w) list list \<times> 'w \<Rightarrow> bool" where
  "from_body body c \<longleftrightarrow> (\<forall>g \<in> set (fst (snd c)). set g \<subseteq> set body)"

lemma concat_update:
  "j < length gs \<Longrightarrow> concat (gs[j := xs]) = concat (take j gs) @ xs @ concat (drop (Suc j) gs)"
  by (simp add: upd_conv_take_nth_drop)

lemma concat_nth:
  "j < length gs \<Longrightarrow> concat gs = concat (take j gs) @ gs ! j @ concat (drop (Suc j) gs)"
  using concat_update [of j gs "gs ! j"] by simp

lemma parallel_step_pending:
  assumes "parallel_step body c d" "commuting body" "from_body body c"
  shows "pending body d = pending body c \<and> from_body body d"
  using assms(1,3)
proof (induction rule: parallel_step.induct)
  case (take_iteration j gs n w)
  have parts: "set (concat (take j gs)) \<subseteq> set body" "set (concat (drop (Suc j) gs)) \<subseteq> set body"
    using take_iteration(3) by (auto simp: from_body_def dest!: in_set_takeD in_set_dropD)
  have "do_all (concat (gs[j := body])) w = do_all body (do_all (concat gs) w)"
    using take_iteration(2) do_all_swap [OF assms(2) _ parts(2), of body]
    by (simp add: concat_update [OF take_iteration(1)] concat_nth [OF take_iteration(1)])
  moreover have "from_body body (n, gs[j := body], w)"
    using take_iteration(3) set_update_subset_insert [of gs j body] by (auto simp: from_body_def)
  ultimately show ?case by (simp add: pending_def funpow_swap1)
next
  case (do_action j gs f fs n w)
  have parts: "set (concat (take j gs)) \<subseteq> set body" and f: "f \<in> set body"
    using do_action(1-3) nth_mem [OF do_action(1)] by (auto simp: from_body_def dest!: in_set_takeD)
  have "do_all (concat (gs[j := fs])) (f w) = do_all (concat gs) w"
    using do_action(2) do_all_commute [OF assms(2) parts f]
    by (simp add: concat_update [OF do_action(1)] concat_nth [OF do_action(1)])
  moreover have "set fs \<subseteq> set body"
  proof -
    have "set (f # fs) \<subseteq> set body"
      using do_action(2,3) nth_mem [OF do_action(1)] unfolding from_body_def fst_conv snd_conv by metis
    then show ?thesis by simp
  qed
  then have "from_body body (n, gs[j := fs], f w)"
    using do_action(3) set_update_subset_insert [of gs j fs] by (auto simp: from_body_def)
  ultimately show ?case by (simp add: pending_def)
qed

theorem parallel_benchmark:
  assumes "be_RunParallel procs n body b w w''" "commuting body"
  shows "w'' = be_Run n (do_all body) b w"
  using assms(1)
proof (cases rule: be_RunParallel.cases)
  case (1 w')
  let ?c = "(n, replicate procs [], optionally (be_setup b) w)"
  have "pending body d = pending body ?c \<and> from_body body d" if "(parallel_step body)\<^sup>*\<^sup>* ?c d" for d
    using that
  proof (induction rule: rtranclp_induct)
    case base
    show ?case by (simp add: from_body_def)
  next
    case (step d e)
    with parallel_step_pending [OF step(2) assms(2)] show ?case by simp
  qed
  from this [OF 1(2)] have "w' = (do_all body ^^ n) (optionally (be_setup b) w)"
    by (simp add: pending_def)
  with 1(1) show ?thesis by (simp add: be_Run_def)
qed

end
