(* ===== verification/Interleaving.thy ===== *)
theory Interleaving
  imports Go_Prelude
begin

text \<open>
  Goroutines that work on shared objects without a lock across their steps.  A request handler of a service
  fetches the pointer of a stored object and then reads and writes the object through it, while other requests do
  the same.  A goroutine is the list of the actions it still has to do on one object; an action is what the code
  does without being interrupted: a call of a method that holds a lock, or one read or write of a field.
  The relation \<open>interleave\<close> lets any goroutine do its next action.  The lemmas say what holds
  whatever the code of the goroutines is: goroutines on different objects do not disturb each other,
  what every action keeps is kept, and all goroutines end.
\<close>

text \<open>
  An action reads the variables of its goroutine and the object (\<open>None\<close> when it is not stored).  It returns from
  the operation (\<open>Inl\<close>, with an error or without), or goes on (\<open>Inr\<close>) with new variables and the object it
  leaves.
\<close>

type_synonym ('l, 'o, 'e) action = "'l \<Rightarrow> 'o option \<Rightarrow> 'e option + 'l \<times> 'o option"

record ('l, 'o, 'e) thread =
  th_id :: string
  th_todo :: "('l, 'o, 'e) action list"
  th_local :: 'l
  th_error :: "'e option"

text \<open>Actions on an object that is known to be stored, since nothing is ever removed.\<close>

definition fetch :: "'e \<Rightarrow> ('l, 'o, 'e) action" where
  "fetch err l x = (case x of None \<Rightarrow> Inl (Some err) | Some obj \<Rightarrow> Inr (l, x))"

definition on_object :: "'e \<Rightarrow> ('l \<Rightarrow> 'o \<Rightarrow> 'e option + 'l \<times> 'o) \<Rightarrow> ('l, 'o, 'e) action" where
  "on_object err f l x =
     (case x of
        None \<Rightarrow> Inl (Some err)
      | Some obj \<Rightarrow> (case f l obj of Inl r \<Rightarrow> Inl r | Inr (l', obj') \<Rightarrow> Inr (l', Some obj')))"

fun thread_act :: "('l, 'o, 'e) thread \<times> 'o option \<Rightarrow> ('l, 'o, 'e) thread \<times> 'o option" where
  "thread_act (t, x) =
     (case th_todo t of
        [] \<Rightarrow> (t, x)
      | a # rest \<Rightarrow>
          (case a (th_local t) x of
             Inl r \<Rightarrow> (t\<lparr>th_todo := [], th_error := r\<rparr>, x)
           | Inr (l, x') \<Rightarrow> (t\<lparr>th_todo := rest, th_local := l\<rparr>, x')))"

type_synonym ('l, 'o, 'e) config = "('l, 'o, 'e) thread list \<times> (string \<rightharpoonup> 'o)"

inductive interleave :: "('l, 'o, 'e) config \<Rightarrow> ('l, 'o, 'e) config \<Rightarrow> bool" where
  act: "j < length ts \<Longrightarrow> th_todo (ts ! j) \<noteq> [] \<Longrightarrow>
    thread_act (ts ! j, m (th_id (ts ! j))) = (t', x') \<Longrightarrow>
    interleave (ts, m) (ts[j := t'], m(th_id (ts ! j) := x'))"

inductive_cases interleaveE: "interleave (ts, m) c"

definition all_done :: "('l, 'o, 'e) thread list \<Rightarrow> bool" where
  "all_done ts \<longleftrightarrow> list_all (\<lambda>t. th_todo t = []) ts"

text \<open>One goroutine without interruption, several one after the other, and a given schedule.\<close>

definition run_thread :: "('l, 'o, 'e) thread \<times> 'o option \<Rightarrow> ('l, 'o, 'e) thread \<times> 'o option" where
  "run_thread p = (thread_act ^^ length (th_todo (fst p))) p"

primrec run_each :: "('l, 'o, 'e) thread list \<Rightarrow> (string \<rightharpoonup> 'o) \<Rightarrow> (string \<rightharpoonup> 'o)" where
  "run_each [] m = m"
| "run_each (t # ts) m = run_each ts (m(th_id t := snd (run_thread (t, m (th_id t)))))"

primrec schedule :: "nat list \<Rightarrow> ('l, 'o, 'e) config \<Rightarrow> ('l, 'o, 'e) config" where
  "schedule [] c = c"
| "schedule (j # js) c =
     schedule js
       (let (ts, m) = c
        in if j < length ts \<and> th_todo (ts ! j) \<noteq> []
           then let (t', x') = thread_act (ts ! j, m (th_id (ts ! j)))
                in (ts[j := t'], m(th_id (ts ! j) := x'))
           else (ts, m))"

section \<open>One goroutine\<close>

lemma thread_act_done [simp]: "th_todo t = [] \<Longrightarrow> thread_act (t, x) = (t, x)"
  by simp

lemma thread_act_less:
  "thread_act (t, x) = (t', x') \<Longrightarrow> th_todo t \<noteq> [] \<Longrightarrow> length (th_todo t') < length (th_todo t)"
  by (auto split: list.splits sum.splits prod.splits)

lemma thread_act_todo: "thread_act (t, x) = (t', x') \<Longrightarrow> set (th_todo t') \<subseteq> set (th_todo t)"
  by (auto split: list.splits sum.splits prod.splits)

lemma thread_act_id [simp]: "th_id (fst (thread_act p)) = th_id (fst p)"
  by (cases p) (auto split: list.splits sum.splits prod.splits)

lemma thread_acts_id [simp]: "th_id (fst ((thread_act ^^ k) p)) = th_id (fst p)"
  by (induction k) auto

lemma thread_acts_done: "th_todo t = [] \<Longrightarrow> (thread_act ^^ k) (t, x) = (t, x)"
  by (induction k) auto

lemma thread_acts_rest:
  "length (th_todo (fst ((thread_act ^^ k) p))) \<le> length (th_todo (fst p)) - k"
proof (induction k)
  case (Suc k)
  obtain t x where tx: "(thread_act ^^ k) p = (t, x)" by fastforce
  then show ?case
    using Suc thread_act_less [of t x] by (cases "th_todo t = []"; cases "thread_act (t, x)") fastforce+
qed simp

lemma run_thread_done: "th_todo (fst (run_thread p)) = []"
  using thread_acts_rest [of "length (th_todo (fst p))" p] by (simp add: run_thread_def)

text \<open>A goroutine that has ended, after however many steps, has done what it does without interruption.\<close>

lemma run_thread_unique:
  assumes "th_todo (fst ((thread_act ^^ k) p)) = []"
  shows "(thread_act ^^ k) p = run_thread p"
proof -
  let ?n = "length (th_todo (fst p))"
  have "(thread_act ^^ (?n + k)) p = (thread_act ^^ ?n) ((thread_act ^^ k) p)"
    "(thread_act ^^ (k + ?n)) p = (thread_act ^^ k) ((thread_act ^^ ?n) p)"
    by (simp_all add: funpow_add)
  moreover have "(thread_act ^^ ?n) ((thread_act ^^ k) p) = (thread_act ^^ k) p"
    using assms by (metis prod.collapse thread_acts_done)
  moreover have "(thread_act ^^ k) ((thread_act ^^ ?n) p) = (thread_act ^^ ?n) p"
    using run_thread_done [of p] unfolding run_thread_def by (metis prod.collapse thread_acts_done)
  ultimately show ?thesis by (simp add: run_thread_def add.commute)
qed

section \<open>Goroutines on different objects\<close>

lemma interleave_length: "interleave\<^sup>*\<^sup>* (ts, m) (us, n) \<Longrightarrow> length us = length ts"
  by (induction "(us, n)" arbitrary: us n rule: rtranclp_induct) (auto elim: interleaveE)

text \<open>Each goroutine is where some steps of its own have brought it, and so is its object.\<close>

definition undisturbed :: "('l, 'o, 'e) config \<Rightarrow> ('l, 'o, 'e) config \<Rightarrow> bool" where
  "undisturbed c d \<longleftrightarrow>
     length (fst d) = length (fst c) \<and>
     (\<forall>j < length (fst c). \<exists>k.
        (fst d ! j, snd d (th_id (fst c ! j))) = (thread_act ^^ k) (fst c ! j, snd c (th_id (fst c ! j)))) \<and>
     (\<forall>i. i \<notin> th_id ` set (fst c) \<longrightarrow> snd d i = snd c i)"

lemma undisturbed_id:
  assumes "undisturbed (ts, m) (us, n)" "j < length ts"
  shows "th_id (us ! j) = th_id (ts ! j)"
proof -
  obtain k where "(us ! j, n (th_id (ts ! j))) = (thread_act ^^ k) (ts ! j, m (th_id (ts ! j)))"
    using assms by (auto simp: undisturbed_def)
  then have "us ! j = fst ((thread_act ^^ k) (ts ! j, m (th_id (ts ! j))))" by (metis fst_conv)
  then show ?thesis by simp
qed

lemma undisturbed_step:
  assumes d: "distinct (map th_id ts)" and u: "undisturbed (ts, m) (us, n)" and s: "interleave (us, n) (vs, p)"
  shows "undisturbed (ts, m) (vs, p)"
proof -
  from s obtain j t' x' where j: "j < length us" and a: "thread_act (us ! j, n (th_id (us ! j))) = (t', x')"
    and v: "vs = us[j := t']" "p = n(th_id (us ! j) := x')"
    by (auto elim: interleaveE)
  have len: "length us = length ts" using u by (simp add: undisturbed_def)
  have id: "th_id (us ! j) = th_id (ts ! j)" using undisturbed_id [OF u] j len by simp
  have "\<exists>k. (vs ! i, p (th_id (ts ! i))) = (thread_act ^^ k) (ts ! i, m (th_id (ts ! i)))"
    if i: "i < length ts" for i
  proof -
    obtain k where k: "(us ! i, n (th_id (ts ! i))) = (thread_act ^^ k) (ts ! i, m (th_id (ts ! i)))"
      using u i by (auto simp: undisturbed_def)
    show ?thesis
    proof (cases "i = j")
      case True
      with k a id have "(t', x') = (thread_act ^^ Suc k) (ts ! i, m (th_id (ts ! i)))" by simp
      with True v j id show ?thesis by (metis fun_upd_same nth_list_update_eq)
    next
      case False
      then have "th_id (ts ! i) \<noteq> th_id (ts ! j)"
        using d i j len by (simp add: distinct_conv_nth)
      with False k v id show ?thesis by auto
    qed
  qed
  moreover have "p i = m i" if "i \<notin> th_id ` set ts" for i
    using that u v id j len by (auto simp: undisturbed_def)
  ultimately show ?thesis using len v by (simp add: undisturbed_def)
qed

lemma undisturbed_run:
  assumes "distinct (map th_id ts)" "interleave\<^sup>*\<^sup>* (ts, m) (us, n)"
  shows "undisturbed (ts, m) (us, n)"
  using assms(2)
proof (induction "(us, n)" arbitrary: us n rule: rtranclp_induct)
  case base
  have "\<exists>k. (t, x) = (thread_act ^^ k) (t, x)" for t :: "('a, 'b, 'c) thread" and x
    by (rule exI [of _ 0]) simp
  then show ?case by (simp add: undisturbed_def)
next
  case (step c)
  then show ?case using undisturbed_step [OF assms(1)] by (cases c) auto
qed

lemma run_each_other: "i \<notin> th_id ` set ts \<Longrightarrow> run_each ts m i = m i"
  by (induction ts arbitrary: m) auto

lemma run_each_nth:
  "distinct (map th_id ts) \<Longrightarrow> j < length ts \<Longrightarrow>
    run_each ts m (th_id (ts ! j)) = snd (run_thread (ts ! j, m (th_id (ts ! j))))"
proof (induction ts arbitrary: m j)
  case (Cons t ts)
  show ?case
  proof (cases j)
    case 0
    then show ?thesis using Cons.prems(1) by (simp add: run_each_other)
  next
    case (Suc k)
    then have k: "k < length ts" using Cons.prems(2) by simp
    then have "th_id (ts ! k) \<noteq> th_id t" using Cons.prems(1) by (metis list.simps(9) distinct.simps(2) length_map nth_map nth_mem)
    then show ?thesis using Suc k Cons.IH [of k] Cons.prems(1) by simp
  qed
qed simp

lemma run_independent:
  assumes "distinct (map th_id ts)" "interleave\<^sup>*\<^sup>* (ts, m) (us, n)" "all_done us"
  shows "n = run_each ts m \<and> map th_error us = map (\<lambda>t. th_error (fst (run_thread (t, m (th_id t))))) ts"
proof -
  have u: "undisturbed (ts, m) (us, n)" by (rule undisturbed_run [OF assms(1,2)])
  have len: "length us = length ts" using u by (simp add: undisturbed_def)
  have fin: "(us ! j, n (th_id (ts ! j))) = run_thread (ts ! j, m (th_id (ts ! j)))" if j: "j < length ts" for j
  proof -
    obtain k where k: "(us ! j, n (th_id (ts ! j))) = (thread_act ^^ k) (ts ! j, m (th_id (ts ! j)))"
      using u j by (auto simp: undisturbed_def)
    moreover have "th_todo (us ! j) = []"
      using assms(3) j len by (simp add: all_done_def list_all_length)
    ultimately show ?thesis by (metis fst_conv run_thread_unique)
  qed
  have "n i = run_each ts m i" for i
  proof (cases "i \<in> th_id ` set ts")
    case True
    then obtain j where "j < length ts" "i = th_id (ts ! j)" by (auto simp: in_set_conv_nth)
    with run_each_nth [OF assms(1)] fin show ?thesis by (metis snd_conv)
  next
    case False
    with u run_each_other [OF False] show ?thesis by (simp add: undisturbed_def)
  qed
  moreover have "map th_error us = map (\<lambda>t. th_error (fst (run_thread (t, m (th_id t))))) ts"
    using fin len by (intro nth_equalityI) (auto, metis fst_conv)
  ultimately show ?thesis by auto
qed

section \<open>What every action keeps\<close>

definition action_keeps ::
  "('l \<times> 'o option \<Rightarrow> 'l \<times> 'o option \<Rightarrow> bool) \<Rightarrow> ('l, 'o, 'e) action \<Rightarrow> bool" where
  "action_keeps Q a \<longleftrightarrow> (\<forall>l x p. a l x = Inr p \<longrightarrow> Q (l, x) p)"

definition threads_keep ::
  "('l \<times> 'o option \<Rightarrow> 'l \<times> 'o option \<Rightarrow> bool) \<Rightarrow> ('l, 'o, 'e) thread list \<Rightarrow> bool" where
  "threads_keep Q ts \<longleftrightarrow> (\<forall>t \<in> set ts. \<forall>a \<in> set (th_todo t). action_keeps Q a)"

lemma thread_act_keeps:
  assumes "\<forall>a \<in> set (th_todo t). action_keeps Q a" "thread_act (t, x) = (t', x')"
    and "\<And>p. Q p p"
  shows "Q (th_local t, x) (th_local t', x')"
  using assms by (auto simp: action_keeps_def split: list.splits sum.splits prod.splits)

lemma threads_keep_step:
  assumes "threads_keep Q ts" "interleave (ts, m) (us, n)"
  shows "threads_keep Q us"
proof -
  from assms(2) obtain j t' x' where j: "j < length ts" "us = ts[j := t']"
    and a: "thread_act (ts ! j, m (th_id (ts ! j))) = (t', x')"
    by (auto elim: interleaveE)
  have sub: "set (th_todo t') \<subseteq> set (th_todo (ts ! j))" by (rule thread_act_todo [OF a])
  show ?thesis
    unfolding threads_keep_def
  proof (intro ballI)
    fix t a assume t: "t \<in> set us" "a \<in> set (th_todo t)"
    then consider "t = t'" | "t \<in> set ts" using j set_update_subset_insert [of ts j t'] by auto
    then show "action_keeps Q a"
    proof cases
      case 1
      then have "a \<in> set (th_todo (ts ! j))" using t(2) sub by auto
      with assms(1) nth_mem [OF j(1)] show ?thesis by (simp add: threads_keep_def)
    next
      case 2
      with assms(1) t(2) show ?thesis by (simp add: threads_keep_def)
    qed
  qed
qed

text \<open>A relation of objects that every action keeps relates each object to what becomes of it.\<close>

lemma interleave_keeps:
  assumes "interleave\<^sup>*\<^sup>* (ts, m) (us, n)" "threads_keep (\<lambda>p q. Q (snd p) (snd q)) ts"
    and refl: "\<And>x. Q x x" and trans: "\<And>x y z. Q x y \<Longrightarrow> Q y z \<Longrightarrow> Q x z"
  shows "Q (m i) (n i)"
proof -
  let ?K = "threads_keep (\<lambda>p q. Q (snd p) (snd q))"
  have "?K us \<and> Q (m i) (n i)"
    using assms(1)
  proof (induction "(us, n)" arbitrary: us n rule: rtranclp_induct)
    case base
    then show ?case using assms(2) refl by simp
  next
    case (step c)
    obtain us' n' where c: "c = (us', n')" by fastforce
    with step have IH: "?K us'" "Q (m i) (n' i)" by auto
    from step(2) c obtain j t' x' where j: "j < length us'" and n: "n = n'(th_id (us' ! j) := x')"
      and a: "thread_act (us' ! j, n' (th_id (us' ! j))) = (t', x')"
      by (auto elim: interleaveE)
    have "\<forall>a \<in> set (th_todo (us' ! j)). action_keeps (\<lambda>p q. Q (snd p) (snd q)) a"
      using IH(1) j(1) nth_mem by (auto simp: threads_keep_def)
    then have "Q (n' (th_id (us' ! j))) x'"
      using thread_act_keeps [OF _ a, of "\<lambda>p q. Q (snd p) (snd q)"] refl by simp
    then have "Q (n' i) (n i)" using n refl by simp
    then show ?case using IH(2) trans threads_keep_step IH(1) step(2) c by blast
  qed
  then show ?thesis by simp
qed

section \<open>The goroutines end\<close>

definition actions_left :: "('l, 'o, 'e) config \<Rightarrow> nat" where
  "actions_left c = (\<Sum>t\<leftarrow>fst c. length (th_todo t))"

lemma work_update_less:
  "j < length ts \<Longrightarrow> f t' < f (ts ! j) \<Longrightarrow> (\<Sum>t\<leftarrow>ts[j := t']. f t) < (\<Sum>t\<leftarrow>ts. (f t :: nat))"
  by (induction ts arbitrary: j) (auto split: nat.splits)

lemma interleave_work: "interleave c d \<Longrightarrow> actions_left d < actions_left c"
  by (induction rule: interleave.induct)
    (simp add: actions_left_def work_update_less [OF _ thread_act_less] del: thread_act.simps)

lemma interleave_bounded: "(interleave ^^ k) c d \<Longrightarrow> k + actions_left d \<le> actions_left c"
proof (induction k arbitrary: d)
  case (Suc k)
  then obtain b where "(interleave ^^ k) c b" "interleave b d" by auto
  with Suc.IH interleave_work show ?case by fastforce
qed simp

lemma interleave_progress: "(\<exists>d. interleave (ts, m) d) \<longleftrightarrow> \<not> all_done ts"
proof
  assume "\<not> all_done ts"
  then obtain j where "j < length ts" "th_todo (ts ! j) \<noteq> []"
    by (auto simp: all_done_def list_all_length)
  then show "\<exists>d. interleave (ts, m) d"
    by (metis act surj_pair)
qed (auto simp: all_done_def list_all_length elim!: interleaveE)

lemma schedule_interleaves: "interleave\<^sup>*\<^sup>* c (schedule js c)"
proof (induction js arbitrary: c)
  case (Cons j js)
  obtain ts m where c: "c = (ts, m)" by fastforce
  show ?case
  proof (cases "j < length ts \<and> th_todo (ts ! j) \<noteq> []")
    case True
    obtain t' x' where a: "thread_act (ts ! j, m (th_id (ts ! j))) = (t', x')" by fastforce
    with True have "interleave c (ts[j := t'], m(th_id (ts ! j) := x'))" by (simp add: c act)
    with True a c Cons [of "(ts[j := t'], m(th_id (ts ! j) := x'))"] show ?thesis
      by (simp del: thread_act.simps)
  qed (use c Cons [of c] in simp)
qed simp

end
