(* ===== verification/TransactionRace.thy ===== *)
theory TransactionRace
  imports Interleaving Transaction
begin

text \<open>
  The status operations of \<open>services/transaction_service.go\<close> as goroutines.  The repository locks its maps for the
  time of \<open>GetByID\<close> and of \<open>Update\<close>, but it gives out the pointer that it stores, and the operations
  check and write the transaction through it without a lock.  Each operation is the list of its actions: the calls
  of the repository, each check, and each read and write of a field.  Operations on different transactions do not
  disturb each other, whatever the interleaving: they do what the sequential model of \<open>Transaction\<close>
  does.  Two operations on one transaction may both pass their checks before either writes.
\<close>

section \<open>The code\<close>

type_synonym tx_code_action = "(int64, Transaction, tx_error) action"

text \<open>
  The variable of a goroutine is \<open>refundAmount\<close>, and the value on its way from the load to the store of \<open>+=\<close>.
\<close>

definition tx_do :: "(int64 \<Rightarrow> Transaction \<Rightarrow> tx_error option + int64 \<times> Transaction) \<Rightarrow> tx_code_action" where
  "tx_do = on_object ErrTransactionNotFound"

definition tx_check :: "TransactionStatus \<Rightarrow> tx_error \<Rightarrow> tx_code_action" where
  "tx_check target err =
     tx_do (\<lambda>l tx. if \<not> CanTransitionTo (tx_Status tx) target then Inl (Some err) else Inr (l, tx))"

definition tx_write :: "(Transaction \<Rightarrow> Transaction) \<Rightarrow> tx_code_action" where
  "tx_write f = tx_do (\<lambda>l tx. Inr (l, f tx))"

definition tx_store_update :: "time \<Rightarrow> tx_code_action" where
  "tx_store_update now = tx_do (\<lambda>l tx. Inr (l, tx\<lparr>tx_UpdatedAt := now\<rparr>))"

definition authorize_code :: "env \<Rightarrow> string \<Rightarrow> tx_code_action list" where
  "authorize_code e providerRef =
     [fetch ErrTransactionNotFound,
      tx_check TxAuthorized ErrInvalidTransition,
      tx_write (\<lambda>tx. tx\<lparr>tx_Status := TxAuthorized\<rparr>),
      tx_write (\<lambda>tx. tx\<lparr>tx_ProviderRef := providerRef\<rparr>),
      tx_store_update (clock e 0)]"

definition complete_code :: "env \<Rightarrow> tx_code_action list" where
  "complete_code e =
     [fetch ErrTransactionNotFound,
      tx_check TxCompleted ErrInvalidTransition,
      tx_write (\<lambda>tx. tx\<lparr>tx_Status := TxCompleted\<rparr>),
      tx_write (\<lambda>tx. tx\<lparr>tx_CompletedAt := Some (clock e 0)\<rparr>),
      tx_store_update (clock e 1)]"

definition cancel_code :: "env \<Rightarrow> string \<Rightarrow> tx_code_action list" where
  "cancel_code e reason =
     [fetch ErrTransactionNotFound,
      tx_check TxCancelled ErrCannotCancel,
      tx_write (\<lambda>tx. tx\<lparr>tx_Status := TxCancelled\<rparr>),
      tx_write (\<lambda>tx. tx\<lparr>tx_FailureReason := reason\<rparr>),
      tx_store_update (clock e 0)]"

definition fail_code :: "env \<Rightarrow> string \<Rightarrow> tx_code_action list" where
  "fail_code e reason =
     [fetch ErrTransactionNotFound,
      tx_check TxFailed ErrInvalidTransition,
      tx_write (\<lambda>tx. tx\<lparr>tx_Status := TxFailed\<rparr>),
      tx_write (\<lambda>tx. tx\<lparr>tx_FailureReason := reason\<rparr>),
      tx_store_update (clock e 0)]"

definition refund_code :: "env \<Rightarrow> int64 \<Rightarrow> string \<Rightarrow> tx_code_action list" where
  "refund_code e amount reason =
     [fetch ErrTransactionNotFound,
      tx_check TxRefunded ErrCannotRefund,
      tx_do (\<lambda>l tx. Inr (if amount = 0 then tx_Amount tx else amount, tx)),
      tx_do (\<lambda>refundAmount tx.
        if sint (tx_Amount tx) < sint (tx_RefundedAmount tx + refundAmount)
        then Inl (Some ErrRefundExceedsAmount) else Inr (refundAmount, tx)),
      tx_do (\<lambda>refundAmount tx. Inr (tx_RefundedAmount tx + refundAmount, tx)),
      tx_do (\<lambda>sum tx. Inr (sum, tx\<lparr>tx_RefundedAmount := sum\<rparr>)),
      tx_write (\<lambda>tx. if sint (tx_Amount tx) \<le> sint (tx_RefundedAmount tx)
                      then tx\<lparr>tx_Status := TxRefunded\<rparr> else tx),
      tx_write (\<lambda>tx. if reason \<noteq> [] then tx\<lparr>tx_FailureReason := reason\<rparr> else tx),
      tx_store_update (clock e 0)]"

fun tx_code :: "env \<Rightarrow> tx_op \<Rightarrow> tx_code_action list" where
  "tx_code e (OpAuthorize ref) = authorize_code e ref"
| "tx_code e OpComplete = complete_code e"
| "tx_code e (OpCancel reason) = cancel_code e reason"
| "tx_code e (OpFail reason) = fail_code e reason"
| "tx_code e (OpRefund amount reason) = refund_code e amount reason"

text \<open>A request of the service: what it reads, the operation and the transaction it names.\<close>

type_synonym tx_request = "env \<times> tx_op \<times> string"

fun tx_goroutine :: "tx_request \<Rightarrow> (int64, Transaction, tx_error) thread" where
  "tx_goroutine (e, a, i) = \<lparr>th_id = i, th_todo = tx_code e a, th_local = 0, th_error = None\<rparr>"

fun tx_request_step :: "tx_request \<Rightarrow> TxInMemory \<Rightarrow> TxInMemory" where
  "tx_request_step (e, a, i) r = snd (tx_operate tx_InMemoryRepository e a i r)"

section \<open>Without interruption the code is the sequential model\<close>

lemmas tx_code_defs = authorize_code_def complete_code_def cancel_code_def fail_code_def refund_code_def
lemmas tx_action_defs = fetch_def on_object_def tx_do_def tx_check_def tx_write_def tx_store_update_def

lemma tx_goroutine_id [simp]: "th_id (tx_goroutine q) = snd (snd q)"
  by (cases q) simp

lemma tx_code_alone:
  "snd (run_thread (tx_goroutine (e, a, i), m i)) = snd (spec_operate e a i m) i"
  "th_error (fst (run_thread (tx_goroutine (e, a, i), m i))) =
     (case fst (spec_operate e a i m) of Inl err \<Rightarrow> Some err | Inr t \<Rightarrow> None)"
  by (cases a; cases "m i";
      simp add: run_thread_def tx_code_defs tx_action_defs spec_operate_def apply_refund_def tx_stamp_def
        Let_def numeral_eq_Suc funpow_swap1)+

lemma spec_operate_other: "j \<noteq> i \<Longrightarrow> snd (spec_operate e a i m) j = m j"
  by (auto simp: spec_operate_def split: option.splits sum.splits)

lemma spec_operate_upd: "snd (spec_operate e a i m) = m(i := snd (spec_operate e a i m) i)"
  by (auto simp: spec_operate_other)

lemma tx_request_step_refines:
  assumes "tm_valid r"
  shows "tm_valid (tx_request_step (e, a, i) r)"
    and "tm_transactions (tx_request_step (e, a, i) r) = snd (spec_operate e a i (tm_transactions r))"
    and "fst (tx_operate tx_InMemoryRepository e a i r) = fst (spec_operate e a i (tm_transactions r))"
  using tx_mem.operate_refines [OF assms, of e a i] by auto

lemma run_requests:
  "tm_valid r \<Longrightarrow> run_each (map tx_goroutine qs) (tm_transactions r) = tm_transactions (run tx_request_step qs r)"
proof (induction qs arbitrary: r)
  case (Cons q qs)
  obtain e a i where q: "q = (e, a, i)" by (cases q)
  have "tm_transactions (tx_request_step q r) =
      (tm_transactions r)(i := snd (run_thread (tx_goroutine q, tm_transactions r i)))"
    unfolding q tx_code_alone(1) tx_request_step_refines(2) [OF Cons.prems] by (rule spec_operate_upd)
  with Cons.IH [of "tx_request_step q r"] tx_request_step_refines(1) [OF Cons.prems, of e a i] q
  show ?case by (simp del: tx_goroutine.simps tx_request_step.simps fun_upd_apply)
qed simp

section \<open>What no interleaving breaks\<close>

definition same_payment :: "Transaction option \<Rightarrow> Transaction option \<Rightarrow> bool" where
  "same_payment x y \<longleftrightarrow> rel_option tx_same_payment x y"

lemma tx_same_payment_rules [simp]:
  "tx_same_payment t t" "tx_same_payment t (t\<lparr>tx_Status := s\<rparr>)" "tx_same_payment t (t\<lparr>tx_ProviderRef := x\<rparr>)"
  "tx_same_payment t (t\<lparr>tx_FailureReason := x\<rparr>)" "tx_same_payment t (t\<lparr>tx_RefundedAmount := v\<rparr>)"
  "tx_same_payment t (t\<lparr>tx_CompletedAt := c\<rparr>)" "tx_same_payment t (t\<lparr>tx_UpdatedAt := now\<rparr>)"
  by (simp_all add: tx_same_payment_def)

lemma same_payment_refl: "same_payment x x"
  by (cases x) (simp_all add: same_payment_def)

lemma same_payment_trans: "same_payment x y \<Longrightarrow> same_payment y z \<Longrightarrow> same_payment x z"
  by (cases x; cases y; cases z) (auto simp: same_payment_def tx_same_payment_def)

lemma tx_code_keeps_payment:
  "b \<in> set (tx_code e a) \<Longrightarrow> action_keeps (\<lambda>p q. same_payment (snd p) (snd q)) b"
  by (cases a) (auto simp: tx_code_defs tx_action_defs action_keeps_def same_payment_def
      split: option.splits if_splits sum.splits)

lemma goroutines_keep_payment:
  "threads_keep (\<lambda>p q. same_payment (snd p) (snd q)) (map tx_goroutine qs)"
  by (auto simp: threads_keep_def dest: tx_code_keeps_payment)

lemma tx_code_length: "length (tx_code e a) \<le> 9"
  by (cases a) (simp_all add: tx_code_defs)

lemma goroutines_work: "actions_left (map tx_goroutine qs, m) \<le> 9 * length qs"
proof (induction qs)
  case (Cons q qs)
  then show ?case using tx_code_length [of "fst q" "fst (snd q)"] by (cases q) (simp add: actions_left_def)
qed (simp add: actions_left_def)

section \<open>Properties\<close>

text \<open>A completed payment of 100 cents, as the repository stores it.\<close>

definition completed_payment :: Transaction where
  "completed_payment = (new_transaction ''t'' (example_payment [] 100))\<lparr>tx_Status := TxCompleted\<rparr>"

definition authorized_payment :: Transaction where
  "authorized_payment = (new_transaction ''t'' (example_payment [] 100))\<lparr>tx_Status := TxAuthorized\<rparr>"

definition one_payment :: "Transaction \<Rightarrow> TxInMemory" where
  "one_payment t = \<lparr>tm_transactions = [tx_ID t \<mapsto> t], tm_idempotencyKeys = Map.empty\<rparr>"

lemmas race_eval = one_payment_def completed_payment_def authorized_payment_def new_transaction_def
  example_payment_def example_env_def tx_code_defs tx_action_defs all_done_def Let_def

text \<open>
  C19: Requests for different transactions are independent.  However their checks, reads, writes and calls of the
  repository interleave, when all of them have returned the repository holds what it holds when they are
  served one after the other, and each has been answered as it would have been alone.
\<close>

theorem independent_requests:
  assumes "tm_valid r" "distinct (map (snd \<circ> snd) qs)"
    and "interleave\<^sup>*\<^sup>* (map tx_goroutine qs, tm_transactions r) (us, n)" "all_done us"
  shows "n = tm_transactions (run tx_request_step qs r) \<and>
    map th_error us = map (\<lambda>(e, a, i).
      case fst (tx_operate tx_InMemoryRepository e a i r) of Inl err \<Rightarrow> Some err | Inr t \<Rightarrow> None) qs"
proof -
  have "distinct (map th_id (map tx_goroutine qs))" using assms(2) by (simp add: comp_def)
  note result = run_independent [OF this assms(3,4)]
  have "th_error (fst (run_thread (tx_goroutine q, tm_transactions r (th_id (tx_goroutine q))))) =
      (case q of (e, a, i) \<Rightarrow>
        case fst (tx_operate tx_InMemoryRepository e a i r) of Inl err \<Rightarrow> Some err | Inr t \<Rightarrow> None)" for q
    by (cases q) (simp only: tx_code_alone(2) tx_request_step_refines(3) [OF assms(1)] tx_goroutine_id
        snd_conv prod.case)
  with result run_requests [OF assms(1)] show ?thesis by (simp del: tx_goroutine.simps)
qed

theorem independent_requests_witness:
  "let r = (one_payment completed_payment);
       qs = [(example_env 1, OpRefund 60 [], ''t''), (example_env 2, OpComplete, ''u'')];
       c = schedule [0, 1, 0, 0, 0, 0, 0, 0, 0, 0] (map tx_goroutine qs, tm_transactions r)
   in snd c = tm_transactions (run tx_request_step qs r) \<and>
      map th_error (fst c) = [None, Some ErrTransactionNotFound]"
proof -
  let ?r = "one_payment completed_payment"
  let ?qs = "[(example_env 1, OpRefund 60 [], ''t''), (example_env 2, OpComplete, ''u'')]"
  let ?c = "schedule [0, 1, 0, 0, 0, 0, 0, 0, 0, 0] (map tx_goroutine ?qs, tm_transactions ?r)"
  have valid: "tm_valid ?r"
    by (auto intro!: tm_validI simp: race_eval split: if_splits)
  have reach: "interleave\<^sup>*\<^sup>* (map tx_goroutine ?qs, tm_transactions ?r) (fst ?c, snd ?c)"
    unfolding prod.collapse by (rule schedule_interleaves)
  have returned: "all_done (fst ?c)" by (simp add: race_eval)
  have "distinct (map (snd \<circ> snd) ?qs)" by simp
  from independent_requests [OF valid this reach returned]
  have "snd ?c = tm_transactions (run tx_request_step ?qs ?r)" by (rule conjunct1)
  moreover have "map th_error (fst ?c) = [None, Some ErrTransactionNotFound]" by (simp add: race_eval)
  ultimately show ?thesis by (simp only: Let_def)
qed

text \<open>
  In any interleaving of status operations, on whatever transactions, no stored transaction disappears and its
  amount, currency, parties and keys never change; the requests make at most nine steps each; and while
  one has not returned, some goroutine can make a step, so all return.
\<close>

theorem racing_requests_end:
  assumes "(interleave ^^ k) (map tx_goroutine qs, m) (us, n)"
  shows "k \<le> 9 * length qs \<and> ((\<nexists>d. interleave (us, n) d) \<longleftrightarrow> all_done us) \<and> same_payment (m i) (n i)"
proof -
  have "k \<le> 9 * length qs"
    using interleave_bounded [OF assms] goroutines_work [of qs m] by simp
  moreover have "same_payment (m i) (n i)"
    by (rule interleave_keeps [OF relpowp_imp_rtranclp [OF assms] goroutines_keep_payment])
      (auto intro: same_payment_refl same_payment_trans)
  moreover have "(\<nexists>d. interleave (us, n) d) \<longleftrightarrow> all_done us"
    using interleave_progress [of us n] by blast
  ultimately show ?thesis by blast
qed

theorem racing_requests_end_witness:
  "\<exists>us n. (interleave ^^ 1) (map tx_goroutine [(example_env 1, OpComplete, ''u'')], Map.empty) (us, n) \<and>
     all_done us \<and> (\<nexists>d. interleave (us, n) d)"
proof -
  let ?q = "tx_goroutine (example_env 1, OpComplete, ''u'')"
  let ?t = "?q\<lparr>th_todo := [], th_error := Some ErrTransactionNotFound\<rparr>"
  have "interleave ([?q], Map.empty) ([?q][0 := ?t], Map.empty(th_id ([?q] ! 0) := None))"
    by (rule interleave.act) (simp_all add: race_eval)
  then have one: "(interleave ^^ 1) (map tx_goroutine [(example_env 1, OpComplete, ''u'')], Map.empty)
      ([?t], Map.empty(''u'' := None))" unfolding relpowp_1 by (simp del: tx_goroutine.simps)
  moreover have "all_done [?t]" by (simp add: all_done_def)
  ultimately show ?thesis using racing_requests_end [OF one] by blast
qed

text \<open>
  Two refunds of one payment can both succeed though together they exceed it.  Both check before either
  writes: of a completed payment of 100 cents 60 cents are refunded twice, no error is returned, and the payment
  is marked refunded with 120 cents.  One after the other, the second is refused.
\<close>

theorem concurrent_refunds_overpay:
  "(\<exists>us n t. interleave\<^sup>*\<^sup>*
      (map tx_goroutine [(example_env 1, OpRefund 60 [], ''t''), (example_env 2, OpRefund 60 [], ''t'')],
       tm_transactions (one_payment completed_payment)) (us, n) \<and>
     all_done us \<and> map th_error us = [None, None] \<and> n ''t'' = Some t \<and>
     tx_Amount t = 100 \<and> tx_RefundedAmount t = 120 \<and> tx_Status t = TxRefunded) \<and>
   (let (x, r) = RefundTransaction tx_InMemoryRepository (example_env 1) ''t'' 60 [] (one_payment completed_payment)
    in fst (RefundTransaction tx_InMemoryRepository (example_env 2) ''t'' 60 [] r) = Inl ErrRefundExceedsAmount)"
  (is "?race \<and> ?sequential")
proof
  let ?c = "schedule [0, 1, 0, 1, 0, 1, 0, 1, 0, 0, 1, 1, 0, 1, 0, 1, 0, 1]
      (map tx_goroutine [(example_env 1, OpRefund 60 [], ''t''), (example_env 2, OpRefund 60 [], ''t'')],
       tm_transactions (one_payment completed_payment))"
  have "all_done (fst ?c) \<and> map th_error (fst ?c) = [None, None] \<and> (\<exists>t. snd ?c ''t'' = Some t \<and>
      tx_Amount t = 100 \<and> tx_RefundedAmount t = 120 \<and> tx_Status t = TxRefunded)"
    by (simp add: race_eval)
  with schedule_interleaves show ?race by (metis prod.collapse)
  show ?sequential by (simp add: race_eval tx_eval)
qed

text \<open>
  A cancellation that has been confirmed can be overwritten.  While an authorized payment is cancelled and
  completed at once, both requests can succeed, and the payment ends as completed, from where it can
  only be refunded; one after the other, the second of the two is refused.
\<close>

theorem cancelled_payment_completes:
  "(\<exists>us n t. interleave\<^sup>*\<^sup>*
      (map tx_goroutine [(example_env 1, OpCancel ''late'', ''t''), (example_env 2, OpComplete, ''t'')],
       tm_transactions (one_payment authorized_payment)) (us, n) \<and>
     all_done us \<and> map th_error us = [None, None] \<and> n ''t'' = Some t \<and>
     tx_Status t = TxCompleted \<and> tx_FailureReason t = ''late'') \<and>
   (let (x, r) = CancelTransaction tx_InMemoryRepository (example_env 1) ''t'' ''late'' (one_payment authorized_payment)
    in fst (CompleteTransaction tx_InMemoryRepository (example_env 2) ''t'' r) = Inl ErrInvalidTransition)"
  (is "?race \<and> ?sequential")
proof
  let ?c = "schedule [0, 1, 0, 1, 0, 0, 0, 1, 1, 1]
      (map tx_goroutine [(example_env 1, OpCancel ''late'', ''t''), (example_env 2, OpComplete, ''t'')],
       tm_transactions (one_payment authorized_payment))"
  have "all_done (fst ?c) \<and> map th_error (fst ?c) = [None, None] \<and> (\<exists>t. snd ?c ''t'' = Some t \<and>
      tx_Status t = TxCompleted \<and> tx_FailureReason t = ''late'')"
    by (simp add: race_eval)
  with schedule_interleaves show ?race by (metis prod.collapse)
  show ?sequential by (simp add: race_eval tx_eval)
qed

end
