(* ===== verification/AccountRace.thy ===== *)
theory AccountRace
  imports Interleaving Account
begin

text \<open>
  Credits, debits and the changes of status of \<open>services/account_service.go\<close> as goroutines.  A credit or a debit
  checks the account through the stored pointer, without a lock, and then calls \<open>UpdateBalanceAtomic\<close>, which
  holds the lock of the repository for its own check and its write.  So the money is exact in every interleaving and no
  balance becomes negative; that the account is active is only known of the moment of the check.
\<close>

section \<open>The code\<close>

text \<open>
  The variable of a goroutine is the money it has moved, which no code reads: it is there for the statements.
  A goroutine returns without an error as \<open>Inl None\<close>.
\<close>

type_synonym ac_action = "(int, Account, account_error) action"

definition ac_do :: "(int \<Rightarrow> Account \<Rightarrow> account_error option + int \<times> Account) \<Rightarrow> ac_action" where
  "ac_do = on_object AcErrAccountNotFound"

definition ac_write :: "(Account \<Rightarrow> Account) \<Rightarrow> ac_action" where
  "ac_write f = ac_do (\<lambda>sent account. Inr (sent, f account))"

definition ac_check :: "(Account \<Rightarrow> account_error option) \<Rightarrow> ac_action" where
  "ac_check f =
     ac_do (\<lambda>sent account. case f account of Some err \<Rightarrow> Inl (Some err) | None \<Rightarrow> Inr (sent, account))"

definition ac_amount_check :: "int64 \<Rightarrow> ac_action" where
  "ac_amount_check amount sent x =
     (if sint amount \<le> 0 then Inl (Some AcErrInvalidAmount) else Inr (sent, x))"

text \<open>\<open>UpdateBalanceAtomic\<close>: one action, under the lock.\<close>

definition ac_atomic :: "time \<Rightarrow> int64 \<Rightarrow> ac_action" where
  "ac_atomic now delta =
     ac_do (\<lambda>sent account.
       let newBalance = ac_Balance account + delta
       in if sint newBalance < 0 then Inl (Some RepoErrInsufficientBalance)
          else Inr (sent + sint delta, account\<lparr>ac_Balance := newBalance, ac_UpdatedAt := now\<rparr>))"

definition credit_code :: "env \<Rightarrow> int64 \<Rightarrow> ac_action list" where
  "credit_code e amount =
     [ac_amount_check amount, fetch AcErrAccountNotFound, ac_check checkAccountActive,
      ac_atomic (clock e 0) amount, fetch AcErrAccountNotFound]"

definition debit_code :: "env \<Rightarrow> int64 \<Rightarrow> ac_action list" where
  "debit_code e amount =
     [ac_amount_check amount, fetch AcErrAccountNotFound, ac_check checkAccountActive,
      ac_check (\<lambda>account. if sint (ac_Balance account) < sint amount then Some ErrInsufficientBalance else None),
      ac_atomic (clock e 0) (- amount), fetch AcErrAccountNotFound]"

definition activate_code :: "env \<Rightarrow> ac_action list" where
  "activate_code e =
     [fetch AcErrAccountNotFound,
      ac_check (\<lambda>account. if ac_Status account = AcClosed then Some ErrAccountClosed else None),
      ac_write (\<lambda>account. account\<lparr>ac_Status := AcActive\<rparr>),
      ac_write (\<lambda>account. account\<lparr>ac_UpdatedAt := clock e 0\<rparr>)]"

definition freeze_code :: "env \<Rightarrow> string \<Rightarrow> ac_action list" where
  "freeze_code e reason =
     [fetch AcErrAccountNotFound,
      ac_write (\<lambda>account. account\<lparr>ac_Status := AcFrozen\<rparr>),
      ac_write (\<lambda>account. if ac_Metadata account = None then account\<lparr>ac_Metadata := Some Map.empty\<rparr> else account),
      ac_write (\<lambda>account. account\<lparr>ac_Metadata :=
        map_option (\<lambda>m. m(''freeze_reason'' \<mapsto> reason)) (ac_Metadata account)\<rparr>),
      ac_write (\<lambda>account. account\<lparr>ac_UpdatedAt := clock e 0\<rparr>)]"

definition unfreeze_code :: "env \<Rightarrow> ac_action list" where
  "unfreeze_code e =
     [fetch AcErrAccountNotFound,
      ac_do (\<lambda>sent account. if ac_Status account \<noteq> AcFrozen then Inl None else Inr (sent, account)),
      ac_write (\<lambda>account. account\<lparr>ac_Status := AcActive\<rparr>),
      ac_write (\<lambda>account. account\<lparr>ac_Metadata :=
        map_option (\<lambda>m. m(''freeze_reason'' := None)) (ac_Metadata account)\<rparr>),
      ac_write (\<lambda>account. account\<lparr>ac_UpdatedAt := clock e 0\<rparr>)]"

definition close_code :: "env \<Rightarrow> ac_action list" where
  "close_code e =
     [fetch AcErrAccountNotFound,
      ac_write (\<lambda>account. account\<lparr>ac_Status := AcClosed\<rparr>),
      ac_write (\<lambda>account. account\<lparr>ac_UpdatedAt := clock e 0\<rparr>)]"

datatype balance_op = BalCredit int64 | BalDebit int64 | BalActivate | BalFreeze string | BalUnfreeze | BalClose

fun ac_code :: "env \<Rightarrow> balance_op \<Rightarrow> ac_action list" where
  "ac_code e (BalCredit amount) = credit_code e amount"
| "ac_code e (BalDebit amount) = debit_code e amount"
| "ac_code e BalActivate = activate_code e"
| "ac_code e (BalFreeze reason) = freeze_code e reason"
| "ac_code e BalUnfreeze = unfreeze_code e"
| "ac_code e BalClose = close_code e"

text \<open>The same operations of the sequential model.\<close>

fun sequential_op :: "balance_op \<Rightarrow> ac_op" where
  "sequential_op (BalCredit amount) = OpCredit amount"
| "sequential_op (BalDebit amount) = OpDebit amount"
| "sequential_op BalActivate = OpActivate"
| "sequential_op (BalFreeze reason) = OpFreeze reason"
| "sequential_op BalUnfreeze = OpUnfreeze"
| "sequential_op BalClose = OpClose"

fun ac_goroutine :: "env \<times> balance_op \<times> string \<Rightarrow> (int, Account, account_error) thread" where
  "ac_goroutine (e, a, i) = \<lparr>th_id = i, th_todo = ac_code e a, th_local = 0, th_error = None\<rparr>"

lemmas ac_code_defs = credit_code_def debit_code_def activate_code_def freeze_code_def unfreeze_code_def
  close_code_def
lemmas ac_action_defs = fetch_def on_object_def ac_do_def ac_write_def ac_check_def ac_amount_check_def
  ac_atomic_def

section \<open>Without interruption the code is the sequential model\<close>

lemmas ac_run_defs = run_thread_def ac_code_defs ac_action_defs ac_spec_def Let_def numeral_eq_Suc funpow_swap1

definition ac_answer :: "account_error + Account \<Rightarrow> account_error option" where
  "ac_answer r = (case r of Inl err \<Rightarrow> Some err | Inr b \<Rightarrow> None)"

definition alone_ok :: "env \<Rightarrow> balance_op \<Rightarrow> string \<Rightarrow> (string \<rightharpoonup> Account) \<Rightarrow> bool" where
  "alone_ok e a i m \<longleftrightarrow>
     map_prod th_error id (run_thread (ac_goroutine (e, a, i), m i)) =
       (ac_answer (fst (ac_spec e (sequential_op a) i m)), snd (ac_spec e (sequential_op a) i m) i)"

lemma credit_alone: "alone_ok e (BalCredit amount) i m"
proof (cases "sint amount \<le> 0")
  case False
  show ?thesis
  proof (cases "m i")
    case (Some x)
    with False show ?thesis
      by (cases "checkAccountActive x") (simp_all add: alone_ok_def ac_answer_def ac_run_defs)
  qed (use False in \<open>simp add: alone_ok_def ac_answer_def ac_run_defs\<close>)
qed (simp add: alone_ok_def ac_answer_def ac_run_defs)

lemma debit_alone: "alone_ok e (BalDebit amount) i m"
proof (cases "sint amount \<le> 0")
  case False
  show ?thesis
  proof (cases "m i")
    case (Some x)
    with False show ?thesis
      by (cases "checkAccountActive x"; cases "sint (ac_Balance x) < sint amount")
        (simp_all add: alone_ok_def ac_answer_def ac_run_defs)
  qed (use False in \<open>simp add: alone_ok_def ac_answer_def ac_run_defs\<close>)
qed (simp add: alone_ok_def ac_answer_def ac_run_defs)

lemma status_alone:
  "alone_ok e BalActivate i m" "alone_ok e BalUnfreeze i m" "alone_ok e BalClose i m"
  by (cases "m i"; simp add: alone_ok_def ac_answer_def ac_run_defs)+

lemma freeze_alone: "alone_ok e (BalFreeze reason) i m"
proof (cases "m i")
  case (Some x)
  then show ?thesis
    by (cases "ac_Metadata x") (simp_all add: alone_ok_def ac_answer_def ac_run_defs merge_metadata_def)
qed (simp add: alone_ok_def ac_answer_def ac_run_defs)

lemma ac_code_alone: "alone_ok e a i m"
  by (cases a) (simp_all add: credit_alone debit_alone status_alone freeze_alone)

section \<open>Money in any interleaving\<close>

text \<open>What an operation moves when it succeeds.\<close>

abbreviation balance_amount :: "balance_op \<Rightarrow> int" where
  "balance_amount a \<equiv> ac_amount (sequential_op a)"

definition conserves :: "int \<times> Account option \<Rightarrow> int \<times> Account option \<Rightarrow> bool" where
  "conserves p q \<longleftrightarrow>
     (case (snd p, snd q) of
        (None, None) \<Rightarrow> fst p = fst q
      | (Some a, Some b) \<Rightarrow> 0 \<le> sint (ac_Balance a) \<longrightarrow>
          0 \<le> sint (ac_Balance b) \<and> sint (ac_Balance b) - sint (ac_Balance a) = fst q - fst p
      | _ \<Rightarrow> False)"

text \<open>The check of \<open>UpdateBalanceAtomic\<close> also refuses a sum that wraps, because it is negative.\<close>

lemma atomic_exact:
  assumes "0 \<le> sint b" "0 \<le> sint (b + delta :: int64)"
  shows "sint (b + delta) = sint b + sint delta"
proof (cases "sint b + sint delta < 2 ^ 63")
  case True
  with assms(1) sint64_bounds(1) [of delta] show ?thesis by (intro sint64_add) auto
next
  case False
  then have "sint (b + delta) = sint b + sint delta - 2 ^ 64" by (intro sint64_add_overflow) simp
  with assms(2) sint64_bounds(2) [of b] sint64_bounds(2) [of delta] show ?thesis by simp
qed

lemma atomic_conserves: "action_keeps conserves (ac_atomic now delta)"
  by (auto simp: action_keeps_def conserves_def ac_action_defs Let_def not_less dest: atomic_exact
      split: option.splits if_splits)

lemma write_conserves: "(\<And>x. ac_Balance (f x) = ac_Balance x) \<Longrightarrow> action_keeps conserves (ac_write f)"
  by (auto simp: action_keeps_def conserves_def ac_action_defs split: option.splits)

lemma check_conserves: "action_keeps conserves (ac_check f)"
  by (auto simp: action_keeps_def conserves_def ac_action_defs split: option.splits sum.splits)

lemma ac_code_conserves: "b \<in> set (ac_code e a) \<Longrightarrow> action_keeps conserves b"
proof -
  have "action_keeps conserves (fetch AcErrAccountNotFound)"
    "action_keeps conserves (ac_amount_check amount)"
    "action_keeps conserves (ac_do (\<lambda>sent account.
       if ac_Status account \<noteq> AcFrozen then Inl None else Inr (sent, account)))" for amount
    by (auto simp: action_keeps_def conserves_def ac_action_defs split: option.splits)
  then show "b \<in> set (ac_code e a) \<Longrightarrow> ?thesis"
    by (cases a) (auto simp: ac_code_defs atomic_conserves check_conserves intro: write_conserves)
qed

lemma goroutines_conserve: "threads_keep conserves (map ac_goroutine qs)"
  by (auto simp: threads_keep_def dest: ac_code_conserves)

lemma conserves_refl: "conserves p p"
  by (auto simp: conserves_def split: option.splits)

lemma conserves_trans: "conserves p q \<Longrightarrow> conserves q r \<Longrightarrow> conserves p r"
  by (auto simp: conserves_def split: option.splits)

lemma conserves_shift: "conserves (l, x) (l', y) \<Longrightarrow> conserves (c + l, x) (c + l', y)"
  by (auto simp: conserves_def split: option.splits)

text \<open>The money that the goroutines on an account have moved so far.\<close>

definition moved_so_far :: "string \<Rightarrow> (int, Account, account_error) thread list \<Rightarrow> int" where
  "moved_so_far i ts = (\<Sum>t\<leftarrow>ts. if th_id t = i then th_local t else 0)"

lemma sum_list_update_diff:
  "j < length ts \<Longrightarrow> (\<Sum>t\<leftarrow>ts[j := t']. f t) = (\<Sum>t\<leftarrow>ts. f t) - f (ts ! j) + (f t' :: int)"
  by (induction ts arbitrary: j) (auto split: nat.splits)

lemma interleave_conserves:
  assumes "interleave\<^sup>*\<^sup>* (ts, m) (us, n)" "threads_keep conserves ts"
  shows "threads_keep conserves us \<and> conserves (moved_so_far i ts, m i) (moved_so_far i us, n i)"
  using assms(1)
proof (induction "(us, n)" arbitrary: us n rule: rtranclp_induct)
  case base
  then show ?case using assms(2) conserves_refl by simp
next
  case (step c)
  obtain us' n' where c: "c = (us', n')" by fastforce
  with step have keep: "threads_keep conserves us'"
    and IH: "conserves (moved_so_far i ts, m i) (moved_so_far i us', n' i)" by auto
  from step(2) c obtain j t' x' where j: "j < length us'" "us = us'[j := t']"
    and n: "n = n'(th_id (us' ! j) := x')" and a: "thread_act (us' ! j, n' (th_id (us' ! j))) = (t', x')"
    by (auto elim: interleaveE)
  have "\<forall>b \<in> set (th_todo (us' ! j)). action_keeps conserves b"
    using keep nth_mem [OF j(1)] by (simp add: threads_keep_def)
  from thread_act_keeps [OF this a conserves_refl]
  have act: "conserves (th_local (us' ! j), n' (th_id (us' ! j))) (th_local t', x')" .
  have id: "th_id t' = th_id (us' ! j)" using thread_act_id [of "(us' ! j, n' (th_id (us' ! j)))"] a by simp
  have "conserves (moved_so_far i us', n' i) (moved_so_far i us, n i)"
  proof (cases "th_id (us' ! j) = i")
    case True
    with conserves_shift [OF act, of "moved_so_far i us' - th_local (us' ! j)"] id n j show ?thesis
      by (simp add: moved_so_far_def sum_list_update_diff algebra_simps)
  next
    case False
    with id n j conserves_refl show ?thesis by (simp add: moved_so_far_def sum_list_update_diff)
  qed
  with IH keep step(2) c show ?case by (blast intro: conserves_trans threads_keep_step)
qed

text \<open>
  Where a goroutine is in its code, and what it has moved: nothing up to the action \<open>UpdateBalanceAtomic\<close>,
  the amount from there on; a goroutine that has returned has moved the amount exactly if it returned no error.
\<close>

fun atomic_index :: "balance_op \<Rightarrow> nat" where
  "atomic_index (BalCredit amount) = 3"
| "atomic_index (BalDebit amount) = 4"
| "atomic_index _ = 0"

definition thread_ok ::
  "env \<times> balance_op \<times> string \<Rightarrow> (int, Account, account_error) thread \<Rightarrow> Account option \<Rightarrow> bool" where
  "thread_ok q t x \<longleftrightarrow> (case q of (e, a, i) \<Rightarrow>
     th_todo t = [] \<and> th_local t = (if th_error t = None then balance_amount a else 0) \<or>
     th_error t = None \<and> (\<exists>k < length (ac_code e a).
       th_todo t = drop k (ac_code e a) \<and> (0 < k \<longrightarrow> ac_precheck (sequential_op a) = None) \<and>
       (1 < k \<longrightarrow> x \<noteq> None) \<and> th_local t = (if k \<le> atomic_index a then 0 else balance_amount a)))"

lemma thread_ok_start: "thread_ok q (ac_goroutine q) x"
  by (cases q rule: ac_goroutine.cases; cases "fst (snd q)")
    (auto simp: thread_ok_def ac_code_defs intro!: exI [of _ 0])

lemma thread_ok_mono: "thread_ok q t x \<Longrightarrow> (x \<noteq> None \<Longrightarrow> y \<noteq> None) \<Longrightarrow> thread_ok q t y"
  by (auto simp: thread_ok_def split: prod.splits)

definition action_ok :: "env \<Rightarrow> balance_op \<Rightarrow> nat \<Rightarrow> Account option \<Rightarrow> bool" where
  "action_ok e a k x \<longleftrightarrow> (let l = (if k \<le> atomic_index a then 0 else balance_amount a) in
     case (ac_code e a ! k) l x of
       Inl r \<Rightarrow> l = (if r = None then balance_amount a else 0)
     | Inr (l', x') \<Rightarrow> l' = (if Suc k \<le> atomic_index a then 0 else balance_amount a) \<and>
         ac_precheck (sequential_op a) = None \<and> (0 < k \<longrightarrow> x' \<noteq> None))"

lemma atomic_minus: "0 < sint amount \<Longrightarrow> sint (- amount :: int64) = - sint amount"
  by (intro sint64_minus) simp

lemma code_action_ok:
  assumes "k < length (ac_code e a)" "0 < k \<Longrightarrow> ac_precheck (sequential_op a) = None" "1 < k \<Longrightarrow> x \<noteq> None"
  shows "action_ok e a k x"
proof -
  have "k = 0 \<or> k = 1 \<or> k = 2 \<or> k = 3 \<or> k = 4 \<or> k = 5"
    using assms(1) by (cases a) (auto simp: ac_code_defs)
  then show ?thesis
    using assms
    by (cases a; elim disjE) (auto simp: action_ok_def atomic_minus ac_code_defs ac_action_defs Let_def
        split: option.splits if_splits)
qed

lemma atomic_index_less: "atomic_index a < length (ac_code e a)"
  by (cases a) (simp_all add: ac_code_defs)

lemma thread_ok_step:
  assumes ok: "thread_ok q t x" and act: "thread_act (t, x) = (t', x')"
  shows "thread_ok q t' x'"
proof (cases "th_todo t = []")
  case True
  with ok act show ?thesis by (auto simp: thread_ok_def split: prod.splits)
next
  case False
  obtain e a i where q: "q = (e, a, i)" by (cases q)
  let ?code = "ac_code e a"
  from ok False obtain k where k: "k < length ?code" and todo: "th_todo t = drop k ?code"
    and pre: "0 < k \<Longrightarrow> ac_precheck (sequential_op a) = None" and x: "1 < k \<Longrightarrow> x \<noteq> None"
    and l: "th_local t = (if k \<le> atomic_index a then 0 else balance_amount a)" and err: "th_error t = None"
    by (auto simp: thread_ok_def q)
  have split: "th_todo t = ?code ! k # drop (Suc k) ?code" using k todo by (simp add: Cons_nth_drop_Suc)
  note a_ok = code_action_ok [OF k pre x, unfolded action_ok_def Let_def, folded l]
  show ?thesis
  proof (cases "(?code ! k) (th_local t) x")
    case (Inl r)
    with act split have "t' = t\<lparr>th_todo := [], th_error := r\<rparr>" by simp
    with a_ok Inl show ?thesis by (simp add: thread_ok_def q)
  next
    case (Inr p)
    obtain l' y where p: "p = (l', y)" by (cases p)
    with act split Inr have t': "t' = t\<lparr>th_todo := drop (Suc k) ?code, th_local := l'\<rparr>" "x' = y" by simp_all
    show ?thesis
    proof (cases "Suc k < length ?code")
      case True
      with a_ok Inr p t' err show ?thesis by (auto simp: thread_ok_def q intro!: exI [of _ "Suc k"])
    next
      case False
      with a_ok Inr p t' err k atomic_index_less [of a e] show ?thesis by (auto simp: thread_ok_def q)
    qed
  qed
qed

definition threads_ok ::
  "(env \<times> balance_op \<times> string) list \<Rightarrow> (int, Account, account_error) config \<Rightarrow> bool" where
  "threads_ok qs c \<longleftrightarrow> list_all2 (\<lambda>q t. th_id t = snd (snd q) \<and> thread_ok q t (snd c (th_id t))) qs (fst c)"

lemma threads_ok_step:
  assumes "threads_ok qs (us, n)" "interleave (us, n) (vs, p)" "threads_keep conserves us"
  shows "threads_ok qs (vs, p)"
proof -
  from assms(2) obtain j t' x' where j: "j < length us" and v: "vs = us[j := t']"
    and p: "p = n(th_id (us ! j) := x')" and a: "thread_act (us ! j, n (th_id (us ! j))) = (t', x')"
    by (auto elim: interleaveE)
  have id: "th_id t' = th_id (us ! j)" using thread_act_id [of "(us ! j, n (th_id (us ! j)))"] a by simp
  have "\<forall>b \<in> set (th_todo (us ! j)). action_keeps conserves b"
    using assms(3) nth_mem [OF j] by (simp add: threads_keep_def)
  from thread_act_keeps [OF this a conserves_refl]
  have stored: "n (th_id (us ! j)) \<noteq> None \<Longrightarrow> x' \<noteq> None" by (auto simp: conserves_def split: option.splits)
  have len: "length qs = length us" using assms(1) by (simp add: threads_ok_def list_all2_lengthD)
  have "th_id (vs ! k) = snd (snd (qs ! k)) \<and> thread_ok (qs ! k) (vs ! k) (p (th_id (vs ! k)))"
    if k: "k < length qs" for k
  proof -
    have u: "th_id (us ! k) = snd (snd (qs ! k))" "thread_ok (qs ! k) (us ! k) (n (th_id (us ! k)))"
      using assms(1) k by (auto simp: threads_ok_def list_all2_conv_all_nth)
    show ?thesis
    proof (cases "k = j")
      case True
      with u id v p j thread_ok_step [OF _ a, of "qs ! k"] show ?thesis by (simp del: thread_act.simps)
    next
      case False
      have "thread_ok (qs ! k) (us ! k) (p (th_id (us ! k)))"
        using thread_ok_mono [OF u(2)] p stored by auto
      with False v u(1) show ?thesis by simp
    qed
  qed
  moreover have "length qs = length vs" using len v by simp
  ultimately show ?thesis unfolding threads_ok_def list_all2_conv_all_nth fst_conv snd_conv by blast
qed

lemma threads_ok_run:
  assumes "interleave\<^sup>*\<^sup>* (map ac_goroutine qs, m) (us, n)"
  shows "threads_ok qs (us, n)"
  using assms
proof (induction "(us, n)" arbitrary: us n rule: rtranclp_induct)
  case base
  have "th_id (ac_goroutine q) = snd (snd q)" for q by (cases q) simp
  then show ?case by (auto simp: threads_ok_def list_all2_conv_all_nth thread_ok_start)
next
  case (step c)
  obtain us' n' where c: "c = (us', n')" by fastforce
  from interleave_conserves [OF step(1) [unfolded c] goroutines_conserve]
  have "threads_keep conserves us'" by (rule conjunct1)
  then show ?case by (rule threads_ok_step [OF step(3) [OF c] step(2) [unfolded c]])
qed

lemma moved_when_done:
  assumes "threads_ok qs (us, n)" "all_done us"
  shows "moved_so_far i us =
    (\<Sum>(q, t)\<leftarrow>zip qs us. if snd (snd q) = i \<and> th_error t = None then balance_amount (fst (snd q)) else 0)"
proof -
  have "list_all2 (\<lambda>q t. th_id t = snd (snd q) \<and>
      th_local t = (if th_error t = None then balance_amount (fst (snd q)) else 0)) qs us"
    using assms by (auto simp: threads_ok_def all_done_def thread_ok_def list_all_length list_all2_conv_all_nth
        case_prod_beta)
  then show ?thesis
    unfolding moved_so_far_def by (induction rule: list_all2_induct) auto
qed

lemma ac_goroutine_id [simp]: "th_id (ac_goroutine q) = snd (snd q)"
  by (cases q) simp

fun ac_request_step :: "env \<times> balance_op \<times> string \<Rightarrow> AccountInMemory \<Rightarrow> AccountInMemory" where
  "ac_request_step (e, a, i) r = snd (ac_operate ac_InMemoryRepository e (sequential_op a) i r)"

lemma ac_spec_upd: "snd (ac_spec e op i m) = m(i := snd (ac_spec e op i m) i)"
  by (auto simp: ac_spec_def split: option.splits sum.splits)

lemma ac_alone_simps:
  "snd (run_thread (ac_goroutine (e, a, i), m i)) = snd (ac_spec e (sequential_op a) i m) i"
  "th_error (fst (run_thread (ac_goroutine (e, a, i), m i))) = ac_answer (fst (ac_spec e (sequential_op a) i m))"
  using ac_code_alone [of e a i m] unfolding alone_ok_def
  by (cases "run_thread (ac_goroutine (e, a, i), m i)"; simp del: ac_goroutine.simps)+

lemma ac_request_step_refines:
  assumes "am_valid r"
  shows "am_valid (ac_request_step (e, a, i) r)"
    and "am_accounts (ac_request_step (e, a, i) r) = snd (ac_spec e (sequential_op a) i (am_accounts r))"
    and "fst (ac_operate ac_InMemoryRepository e (sequential_op a) i r) =
      fst (ac_spec e (sequential_op a) i (am_accounts r))"
  using ac_mem.operate_refines [OF assms, of e "sequential_op a" i] by auto

lemma run_account_requests:
  "am_valid r \<Longrightarrow> run_each (map ac_goroutine qs) (am_accounts r) = am_accounts (run ac_request_step qs r)"
proof (induction qs arbitrary: r)
  case (Cons q qs)
  obtain e a i where q: "q = (e, a, i)" by (cases q)
  have "am_accounts (ac_request_step q r) =
      (am_accounts r)(i := snd (run_thread (ac_goroutine q, am_accounts r i)))"
    unfolding q ac_alone_simps(1) ac_request_step_refines(2) [OF Cons.prems] by (rule ac_spec_upd)
  with Cons.IH [of "ac_request_step q r"] ac_request_step_refines(1) [OF Cons.prems, of e a i] q
  show ?case by (simp del: ac_goroutine.simps ac_request_step.simps fun_upd_apply)
qed simp

section \<open>Properties\<close>

text \<open>An account as the repository stores it.\<close>

definition stored_account :: "AccountStatus \<Rightarrow> int64 \<Rightarrow> Account" where
  "stored_account status balance =
     (new_account ''a'' example_account)\<lparr>ac_Status := status, ac_Balance := balance\<rparr>"

definition one_account :: "Account \<Rightarrow> AccountInMemory" where
  "one_account x =
     \<lparr>am_accounts = [ac_ID x \<mapsto> x], am_emailIndex = [ac_Email x \<mapsto> ac_ID x], am_versions = [ac_ID x \<mapsto> 1]\<rparr>"

lemmas account_race_eval = one_account_def stored_account_def new_account_def ac_example checkAccountActive_def
  ac_code_defs ac_action_defs all_done_def Let_def

text \<open>
  C10: Money is exact in every interleaving.  However credits, debits and changes of status of all accounts
  interleave, a stored account stays stored, its balance is never negative, and when all requests have returned
  the balance has changed by exactly the credits of it less the debits of it that returned no error, as integers.
\<close>

theorem concurrent_balances_exact:
  assumes "interleave\<^sup>*\<^sup>* (map ac_goroutine qs, m) (us, n)" "m i = Some a" "0 \<le> sint (ac_Balance a)"
  shows "\<exists>b. n i = Some b \<and> 0 \<le> sint (ac_Balance b) \<and>
    (all_done us \<longrightarrow> sint (ac_Balance b) = sint (ac_Balance a) +
      (\<Sum>(q, t)\<leftarrow>zip qs us. if snd (snd q) = i \<and> th_error t = None then balance_amount (fst (snd q)) else 0))"
proof -
  from interleave_conserves [OF assms(1) goroutines_conserve, of i]
  have "conserves (moved_so_far i (map ac_goroutine qs), m i) (moved_so_far i us, n i)" by (rule conjunct2)
  moreover have "moved_so_far i (map ac_goroutine qs) = 0"
    by (induction qs) (auto simp: moved_so_far_def)
  ultimately obtain b where b: "n i = Some b" "0 \<le> sint (ac_Balance b)"
    "sint (ac_Balance b) = sint (ac_Balance a) + moved_so_far i us"
    using assms(2,3) by (auto simp: conserves_def split: option.splits)
  with moved_when_done [OF threads_ok_run [OF assms(1)], of i] show ?thesis by auto
qed

text \<open>Two debits of 80 cents of an account with 100 cents, which both pass the check of the service.\<close>

theorem concurrent_balances_exact_witness:
  "let c = schedule [0, 1, 0, 1, 0, 1, 0, 1, 0, 1, 0]
       (map ac_goroutine [(example_env 1, BalDebit 80, ''a''), (example_env 2, BalDebit 80, ''a'')],
        am_accounts (one_account (stored_account AcActive 100)))
   in map th_error (fst c) = [None, Some RepoErrInsufficientBalance] \<and>
      (\<exists>b. snd c ''a'' = Some b \<and> sint (ac_Balance b) = 20)"
proof -
  let ?qs = "[(example_env 1, BalDebit 80, ''a''), (example_env 2, BalDebit 80, ''a'')]"
  let ?m = "am_accounts (one_account (stored_account AcActive 100))"
  let ?c = "schedule [0, 1, 0, 1, 0, 1, 0, 1, 0, 1, 0] (map ac_goroutine ?qs, ?m)"
  have reach: "interleave\<^sup>*\<^sup>* (map ac_goroutine ?qs, ?m) (fst ?c, snd ?c)"
    unfolding prod.collapse by (rule schedule_interleaves)
  have stored: "?m ''a'' = Some (stored_account AcActive 100)"
    "0 \<le> sint (ac_Balance (stored_account AcActive 100))"
    by (simp_all add: account_race_eval)
  have ends: "all_done (fst ?c)" "map th_error (fst ?c) = [None, Some RepoErrInsufficientBalance]"
    by (simp_all add: account_race_eval)
  from ends(2) obtain t u where tu: "fst ?c = [t, u]" "th_error t = None" "th_error u \<noteq> None" by auto
  from concurrent_balances_exact [OF reach stored] ends(1) obtain b where
    "snd ?c ''a'' = Some b" "sint (ac_Balance b) = sint (ac_Balance (stored_account AcActive 100)) +
      (\<Sum>(q, t)\<leftarrow>zip ?qs (fst ?c). if snd (snd q) = ''a'' \<and> th_error t = None
         then balance_amount (fst (snd q)) else 0)" by blast
  with tu have "\<exists>b. snd ?c ''a'' = Some b \<and> sint (ac_Balance b) = 20"
    by (simp only: tu(1)) (simp add: stored_account_def)
  with ends(2) show ?thesis unfolding Let_def by blast
qed

text \<open>
  Requests for different accounts are independent: however they interleave, the repository ends as after serving
  them one after the other, and each request is answered as it would have been alone.
\<close>

theorem independent_account_requests:
  assumes "am_valid r" "distinct (map (snd \<circ> snd) qs)"
    and "interleave\<^sup>*\<^sup>* (map ac_goroutine qs, am_accounts r) (us, n)" "all_done us"
  shows "n = am_accounts (run ac_request_step qs r) \<and>
    map th_error us = map (\<lambda>(e, a, i).
      ac_answer (fst (ac_operate ac_InMemoryRepository e (sequential_op a) i r))) qs"
proof -
  have "distinct (map th_id (map ac_goroutine qs))" using assms(2) by (simp add: comp_def)
  note result = run_independent [OF this assms(3,4)]
  have "th_error (fst (run_thread (ac_goroutine q, am_accounts r (th_id (ac_goroutine q))))) =
      (case q of (e, a, i) \<Rightarrow> ac_answer (fst (ac_operate ac_InMemoryRepository e (sequential_op a) i r)))" for q
    by (cases q) (simp only: ac_alone_simps(2) ac_request_step_refines(3) [OF assms(1)] ac_goroutine_id
        snd_conv prod.case)
  with result run_account_requests [OF assms(1)] show ?thesis by (simp del: ac_goroutine.simps)
qed

theorem independent_account_requests_witness:
  "let r = one_account (stored_account AcActive 100);
       qs = [(example_env 1, BalDebit 80, ''a''), (example_env 2, BalClose, ''b'')];
       c = schedule [0, 1, 0, 0, 0, 0, 0] (map ac_goroutine qs, am_accounts r)
   in snd c = am_accounts (run ac_request_step qs r) \<and>
      map th_error (fst c) = [None, Some AcErrAccountNotFound]"
proof -
  let ?r = "one_account (stored_account AcActive 100)"
  let ?qs = "[(example_env 1, BalDebit 80, ''a''), (example_env 2, BalClose, ''b'')]"
  let ?c = "schedule [0, 1, 0, 0, 0, 0, 0] (map ac_goroutine ?qs, am_accounts ?r)"
  have valid: "am_valid ?r"
    by (rule am_validI) (auto simp: account_race_eval split: if_splits)
  have reach: "interleave\<^sup>*\<^sup>* (map ac_goroutine ?qs, am_accounts ?r) (fst ?c, snd ?c)"
    unfolding prod.collapse by (rule schedule_interleaves)
  have ends: "all_done (fst ?c)" "map th_error (fst ?c) = [None, Some AcErrAccountNotFound]"
    by (simp_all add: account_race_eval)
  have "distinct (map (snd \<circ> snd) ?qs)" by simp
  from independent_account_requests [OF valid this reach ends(1)]
  have "snd ?c = am_accounts (run ac_request_step ?qs ?r)" by (rule conjunct1)
  with ends(2) show ?thesis by (simp only: Let_def)
qed

text \<open>
  A closing that has been confirmed can be undone by an activation.  While an account is activated and closed at
  once, both requests can succeed and leave the account active.  One after the other, either the account ends
  closed or the activation is refused.
\<close>

theorem closed_account_activated:
  "(\<exists>us n x. interleave\<^sup>*\<^sup>*
      (map ac_goroutine [(example_env 1, BalActivate, ''a''), (example_env 2, BalClose, ''a'')],
       am_accounts (one_account (stored_account AcPending 0))) (us, n) \<and>
     all_done us \<and> map th_error us = [None, None] \<and> n ''a'' = Some x \<and> ac_Status x = AcActive) \<and>
   (let (r1, s1) = ac_operate ac_InMemoryRepository (example_env 1) OpActivate ''a''
          (one_account (stored_account AcPending 0));
        (r2, s2) = ac_operate ac_InMemoryRepository (example_env 2) OpClose ''a'' s1
    in map_option ac_Status (am_accounts s2 ''a'') = Some AcClosed) \<and>
   (let (r1, s1) = ac_operate ac_InMemoryRepository (example_env 2) OpClose ''a''
          (one_account (stored_account AcPending 0))
    in fst (ac_operate ac_InMemoryRepository (example_env 1) OpActivate ''a'' s1) = Inl ErrAccountClosed)"
  (is "?race \<and> ?activated_first \<and> ?closed_first")
proof (intro conjI)
  let ?c = "schedule [0, 0, 1, 1, 1, 0, 0]
      (map ac_goroutine [(example_env 1, BalActivate, ''a''), (example_env 2, BalClose, ''a'')],
       am_accounts (one_account (stored_account AcPending 0)))"
  have "all_done (fst ?c) \<and> map th_error (fst ?c) = [None, None] \<and>
      (\<exists>x. snd ?c ''a'' = Some x \<and> ac_Status x = AcActive)"
    by (simp add: account_race_eval)
  with schedule_interleaves show ?race by (metis prod.collapse)
  show ?activated_first ?closed_first by (simp_all add: account_race_eval ac_eval)
qed

end
