(* ===== verification/WindowRace.thy ===== *)
theory WindowRace
  imports RateLimit
begin

text \<open>
  The sliding window limiter of \<open>middleware/ratelimit.go\<close> under concurrent requests.  \<open>Allow\<close> finds the window of its
  key under the lock of the limiter, releases it, and counts under the lock of the window; the
  clean-up holds the lock of the limiter and deletes a window that is empty or stale.  So a clean-up can come
  between the two sections of a request, which then counts in a window that the map no longer has.  As long as
  no clean-up deletes a window that a request holds, every interleaving keeps the bound of the sequential
  limiter of \<open>RateLimit\<close>.
\<close>

section \<open>The code\<close>

text \<open>Windows are objects: the map of the limiter holds pointers to them, and so does a request between its sections.\<close>

record window_state =
  ws_config :: SlidingWindowConfig
  ws_heap :: "time list list"
  ws_windows :: "string \<rightharpoonup> nat"

definition new_window_state :: "SlidingWindowConfig option \<Rightarrow> window_state" where
  "new_window_state config =
     \<lparr>ws_config = (case config of None \<Rightarrow> DefaultSlidingWindowConfig | Some c \<Rightarrow> c),
      ws_heap = [], ws_windows = Map.empty\<rparr>"

text \<open>The section of \<open>Allow\<close> under \<open>sw.mu\<close>, the one under \<open>window.mu\<close>, and the clean-up of one key.\<close>

definition allow_lookup :: "string \<Rightarrow> window_state \<Rightarrow> nat \<times> window_state" where
  "allow_lookup key s =
     (case ws_windows s key of
        Some w \<Rightarrow> (w, s)
      | None \<Rightarrow>
          (length (ws_heap s),
           s\<lparr>ws_heap := ws_heap s @ [[]], ws_windows := (ws_windows s)(key \<mapsto> length (ws_heap s))\<rparr>))"

definition allow_count :: "time \<Rightarrow> nat \<Rightarrow> window_state \<Rightarrow> bool \<times> window_state" where
  "allow_count now w s =
     (let cutoff = now - sc_WindowSize (ws_config s);
          requests = filter (\<lambda>t. cutoff < t) (ws_heap s ! w)
      in if sint (sc_MaxRequests (ws_config s)) \<le> int (length requests)
         then (False, s\<lparr>ws_heap := (ws_heap s)[w := requests]\<rparr>)
         else (True, s\<lparr>ws_heap := (ws_heap s)[w := requests @ [now]]\<rparr>))"

definition sweep_window :: "time \<Rightarrow> string \<Rightarrow> window_state \<Rightarrow> window_state" where
  "sweep_window now key s =
     (let cutoff = now + two_windows_back (sc_WindowSize (ws_config s))
      in case ws_windows s key of
           None \<Rightarrow> s
         | Some w \<Rightarrow>
             if ws_heap s ! w = [] then s\<lparr>ws_windows := (ws_windows s)(key := None)\<rparr>
             else if last (ws_heap s ! w) < cutoff then s\<lparr>ws_windows := (ws_windows s)(key := None)\<rparr>
             else s)"

section \<open>Requests and clean-ups, interleaved\<close>

text \<open>
  A request waits for the limiter, holds a window, or has its answer.  The latest instant any goroutine has read
  and the log of the accepted requests are ghosts.
\<close>

datatype window_call = Looking string | Holding string nat | Answered string bool

record window_run =
  wr_state :: window_state
  wr_calls :: "window_call list"
  wr_now :: time
  wr_log :: "(string \<times> time) list"

text \<open>
  The steps: a request arrives; the request \<open>j\<close> looks its window up; it counts, at the instant it reads then; the
  clean-up that read the clock when it began, at whatever instant, comes to a key.
\<close>

datatype window_event = Arrive string | Lookup nat | Count nat time | Sweep time string

fun window_act :: "window_event \<Rightarrow> window_run \<Rightarrow> window_run" where
  "window_act (Arrive key) r = r\<lparr>wr_calls := wr_calls r @ [Looking key]\<rparr>"
| "window_act (Lookup j) r =
     (if j < length (wr_calls r) then
        (case wr_calls r ! j of
           Looking key \<Rightarrow>
             (let (w, s) = allow_lookup key (wr_state r)
              in r\<lparr>wr_state := s, wr_calls := (wr_calls r)[j := Holding key w]\<rparr>)
         | _ \<Rightarrow> r)
      else r)"
| "window_act (Count j now) r =
     (if j < length (wr_calls r) then
        (case wr_calls r ! j of
           Holding key w \<Rightarrow>
             (let (ok, s) = allow_count now w (wr_state r)
              in r\<lparr>wr_state := s, wr_calls := (wr_calls r)[j := Answered key ok], wr_now := now,
                   wr_log := (if ok then wr_log r @ [(key, now)] else wr_log r)\<rparr>)
         | _ \<Rightarrow> r)
      else r)"
| "window_act (Sweep now key) r =
     r\<lparr>wr_state := sweep_window now key (wr_state r), wr_now := max (wr_now r) now\<rparr>"

text \<open>
  The clock a request counts by does not show less than any goroutine has read before; and a clean-up
  leaves in the map the windows that requests hold.  Nothing is asked of when clean-ups come.
\<close>

fun window_in_time :: "window_run \<Rightarrow> window_event \<Rightarrow> bool" where
  "window_in_time r (Count j now) \<longleftrightarrow> wr_now r \<le> now"
| "window_in_time r _ \<longleftrightarrow> True"

fun sweep_apart :: "window_run \<Rightarrow> window_event \<Rightarrow> bool" where
  "sweep_apart r (Sweep now key) \<longleftrightarrow>
     (\<forall>w. Holding key w \<in> set (wr_calls r) \<longrightarrow>
        ws_windows (sweep_window now key (wr_state r)) key = Some w)"
| "sweep_apart r _ \<longleftrightarrow> True"

definition window_start :: "time \<Rightarrow> SlidingWindowConfig \<Rightarrow> window_run" where
  "window_start t c = \<lparr>wr_state = new_window_state (Some c), wr_calls = [], wr_now = t, wr_log = []\<rparr>"

section \<open>The sequential limiter as the abstraction\<close>

definition window_abs :: "window_state \<Rightarrow> SlidingWindowLimiter" where
  "window_abs s =
     \<lparr>sw_config = ws_config s, sw_windows = (\<lambda>key. map_option (\<lambda>w. ws_heap s ! w) (ws_windows s key))\<rparr>"

definition run_abs :: "window_run \<Rightarrow> sw_run_state" where
  "run_abs r = \<lparr>sr_now = wr_now r, sr_log = wr_log r, sr_limiter = window_abs (wr_state r)\<rparr>"

text \<open>Pointers lead to windows, and those of different keys to different windows.\<close>

definition pointers_ok :: "window_state \<Rightarrow> bool" where
  "pointers_ok s \<longleftrightarrow> ran (ws_windows s) \<subseteq> {..<length (ws_heap s)} \<and> inj_on (ws_windows s) (dom (ws_windows s))"

definition calls_ok :: "window_run \<Rightarrow> bool" where
  "calls_ok r \<longleftrightarrow> (\<forall>key w. Holding key w \<in> set (wr_calls r) \<longrightarrow> ws_windows (wr_state r) key = Some w)"

text \<open>One request after the other, the two sections are \<open>Allow\<close> of the sequential limiter.\<close>

lemma pointer_less: "pointers_ok s \<Longrightarrow> ws_windows s key = Some w \<Longrightarrow> w < length (ws_heap s)"
  by (auto simp: pointers_ok_def ran_def)

lemma pointer_unique:
  "pointers_ok s \<Longrightarrow> ws_windows s key = Some w \<Longrightarrow> ws_windows s key' = Some w \<Longrightarrow> key' = key"
  unfolding pointers_ok_def by (metis domI inj_onD)

lemma allow_count_abs:
  assumes "pointers_ok s" "ws_windows s key = Some w"
  shows "sw_Allow now key (window_abs s) = map_prod id window_abs (allow_count now w s)"
proof -
  have upd: "sw_windows (window_abs (s\<lparr>ws_heap := (ws_heap s)[w := ts]\<rparr>)) =
      (sw_windows (window_abs s))(key \<mapsto> ts)" for ts
  proof
    fix k show "sw_windows (window_abs (s\<lparr>ws_heap := (ws_heap s)[w := ts]\<rparr>)) k =
        ((sw_windows (window_abs s))(key \<mapsto> ts)) k"
    proof (cases "k = key")
      case True
      then show ?thesis using assms(2) pointer_less [OF assms] by (simp add: window_abs_def)
    next
      case False
      then have "w \<noteq> v" if "ws_windows s k = Some v" for v
        using pointer_unique [OF assms] that by blast
      with False show ?thesis by (cases "ws_windows s k") (simp_all add: window_abs_def)
    qed
  qed
  then have "window_abs (s\<lparr>ws_heap := (ws_heap s)[w := ts]\<rparr>) =
      (window_abs s)\<lparr>sw_windows := (sw_windows (window_abs s))(key \<mapsto> ts)\<rparr>" for ts
    by (simp add: window_abs_def)
  then show ?thesis
    using assms(2) by (simp add: sw_Allow_def allow_count_def Let_def) (simp add: window_abs_def)
qed

lemma allow_lookup_window_of:
  assumes "pointers_ok s"
  shows "window_of k (window_abs (snd (allow_lookup key s))) = window_of k (window_abs s)"
  using pointer_less [OF assms]
  by (auto simp: allow_lookup_def window_of_def window_abs_def nth_append split: option.splits)

lemma allow_lookup_keeps:
  assumes "pointers_ok s"
  shows "pointers_ok (snd (allow_lookup key s))"
    and "ws_windows (snd (allow_lookup key s)) key = Some (fst (allow_lookup key s))"
    and "k \<noteq> key \<Longrightarrow> ws_windows (snd (allow_lookup key s)) k = ws_windows s k"
    and "ws_windows s key = Some w \<Longrightarrow> fst (allow_lookup key s) = w"
    and "ws_config (snd (allow_lookup key s)) = ws_config s"
proof -
  show "pointers_ok (snd (allow_lookup key s))"
  proof (cases "ws_windows s key")
    case None
    have "length (ws_heap s) \<notin> ran (ws_windows s)" using assms by (auto simp: pointers_ok_def)
    then have "inj_on ((ws_windows s)(key \<mapsto> length (ws_heap s))) (insert key (dom (ws_windows s)))"
      using assms None by (auto simp: pointers_ok_def inj_on_def ran_def)
    moreover have "ran ((ws_windows s)(key \<mapsto> length (ws_heap s))) \<subseteq> {..<Suc (length (ws_heap s))}"
      using assms None by (auto simp: pointers_ok_def)
    ultimately show ?thesis using None by (simp add: allow_lookup_def pointers_ok_def)
  qed (use assms in \<open>simp add: allow_lookup_def\<close>)
qed (auto simp: allow_lookup_def split: option.splits)

lemma allow_count_keeps:
  "pointers_ok s \<Longrightarrow> pointers_ok (snd (allow_count now w s))"
  "ws_windows (snd (allow_count now w s)) = ws_windows s"
  "ws_config (snd (allow_count now w s)) = ws_config s"
  by (simp_all add: allow_count_def Let_def pointers_ok_def)

lemma sweep_keeps:
  "pointers_ok s \<Longrightarrow> pointers_ok (sweep_window now key s)"
  "k \<noteq> key \<Longrightarrow> ws_windows (sweep_window now key s) k = ws_windows s k"
  "ws_config (sweep_window now key s) = ws_config s"
proof -
  assume ok: "pointers_ok s"
  have "ran ((ws_windows s)(key := None)) \<subseteq> ran (ws_windows s)" by (auto simp: ran_def)
  moreover have "inj_on ((ws_windows s)(key := None)) (dom ((ws_windows s)(key := None)))"
    using ok by (auto simp: pointers_ok_def inj_on_def)
  ultimately have "pointers_ok (s\<lparr>ws_windows := (ws_windows s)(key := None)\<rparr>)"
    using ok by (auto simp: pointers_ok_def)
  with ok show "pointers_ok (sweep_window now key s)"
    by (simp add: sweep_window_def Let_def split: option.split)
qed (simp_all add: sweep_window_def Let_def split: option.split)

section \<open>The invariant of the interleavings\<close>

definition window_inv :: "SlidingWindowConfig \<Rightarrow> window_run \<Rightarrow> bool" where
  "window_inv c r \<longleftrightarrow> window_size_ok c \<and> pointers_ok (wr_state r) \<and> calls_ok r \<and> sw_inv c (run_abs r)"

text \<open>Only the contents of the windows matter to the sequential invariant.\<close>

lemma sw_inv_cong:
  assumes "sw_inv c s" "sr_now s' = sr_now s" "sr_log s' = sr_log s"
    and "sw_config (sr_limiter s') = sw_config (sr_limiter s)"
    and "\<And>k. window_of k (sr_limiter s') = window_of k (sr_limiter s)"
  shows "sw_inv c s'"
  using assms by (simp add: sw_inv_def)

lemma sw_inv_later:
  assumes inv: "sw_inv c s" and time: "sr_now s \<le> now"
  shows "sw_inv c (s\<lparr>sr_now := now\<rparr>)"
proof -
  have "recent (sr_now s) (sc_WindowSize c) (window_of k (sr_limiter s)) =
      recent (sr_now s) (sc_WindowSize c) (accepted_times k (sr_log s))" for k
    using inv unfolding sw_inv_def by blast
  then have "recent now (sc_WindowSize c) (window_of k (sr_limiter s)) =
      recent now (sc_WindowSize c) (accepted_times k (sr_log s))" for k
    by (rule recent_cong [OF _ time])
  moreover have "\<forall>x \<in> xs. x \<le> now" if "\<forall>x \<in> xs. x \<le> sr_now s" for xs
    using that time by auto
  ultimately show ?thesis
    using inv unfolding sw_inv_def by (simp; blast)
qed

lemma sw_inv_drop:
  assumes inv: "sw_inv c s" and W: "0 < sc_WindowSize c" and time: "now \<le> sr_now s"
    and log: "sr_now s' = sr_now s" "sr_log s' = sr_log s" "sw_config (sr_limiter s') = sw_config (sr_limiter s)"
    and others: "\<And>k. k \<noteq> key \<Longrightarrow> window_of k (sr_limiter s') = window_of k (sr_limiter s)"
    and empty: "window_of key (sr_limiter s') = []"
    and stale: "\<forall>t \<in> set (window_of key (sr_limiter s)). t < now - sc_WindowSize c * 2"
  shows "sw_inv c s'"
proof -
  have "recent (sr_now s) (sc_WindowSize c) (window_of key (sr_limiter s)) = []"
    using stale W time by (intro recent_old) fastforce
  moreover have "recent (sr_now s) (sc_WindowSize c) [] = []" by (simp add: recent_def)
  ultimately have same: "recent (sr_now s) (sc_WindowSize c) (window_of k (sr_limiter s')) =
      recent (sr_now s) (sc_WindowSize c) (window_of k (sr_limiter s))" for k
    using others [of k] empty by (cases "k = key") simp_all
  have sub: "set (window_of k (sr_limiter s')) \<subseteq> set (window_of k (sr_limiter s))"
    "sorted (window_of k (sr_limiter s')) \<or> window_of k (sr_limiter s') = window_of k (sr_limiter s)" for k
    using others [of k] empty by (cases "k = key"; simp)+
  show ?thesis
    using inv sub unfolding sw_inv_def log same by (metis subsetD)
qed

lemma window_inv_lookup:
  assumes inv: "window_inv c r" and j: "j < length (wr_calls r)" "wr_calls r ! j = Looking key"
  shows "window_inv c (window_act (Lookup j) r)"
proof -
  let ?s = "snd (allow_lookup key (wr_state r))" and ?w = "fst (allow_lookup key (wr_state r))"
  have act: "window_act (Lookup j) r = r\<lparr>wr_state := ?s, wr_calls := (wr_calls r)[j := Holding key ?w]\<rparr>"
    using j by (simp add: case_prod_beta)
  have ok: "pointers_ok (wr_state r)" and calls: "calls_ok r" and sw: "sw_inv c (run_abs r)"
    using inv by (simp_all add: window_inv_def)
  note keeps = allow_lookup_keeps [OF ok]
  have "ws_windows ?s k = Some w" if h: "Holding k w \<in> set ((wr_calls r)[j := Holding key ?w])" for k w
  proof (cases "k = key \<and> w = ?w")
    case False
    then have "Holding k w \<in> set (wr_calls r)"
      using h set_update_subset_insert [of "wr_calls r" j "Holding key ?w"] by auto
    then have stored: "ws_windows (wr_state r) k = Some w" using calls by (simp add: calls_ok_def)
    then show ?thesis using keeps(2-4) by (cases "k = key") auto
  qed (use keeps(2) in simp)
  moreover have "sw_config (window_abs ?s) = sw_config (window_abs (wr_state r))"
    by (simp add: window_abs_def keeps(5))
  then have "sw_inv c (run_abs (window_act (Lookup j) r))"
    unfolding act by (intro sw_inv_cong [OF sw]) (simp_all add: run_abs_def allow_lookup_window_of [OF ok])
  moreover have "window_size_ok c" using inv by (simp add: window_inv_def)
  ultimately show ?thesis using keeps(1) unfolding window_inv_def act calls_ok_def by simp
qed

lemma window_inv_count:
  assumes inv: "window_inv c r" and j: "j < length (wr_calls r)" "wr_calls r ! j = Holding key w"
    and time: "wr_now r \<le> now"
  shows "window_inv c (window_act (Count j now) r)"
proof -
  have size: "window_size_ok c" and W: "0 < sc_WindowSize c"
    using inv by (simp_all add: window_inv_def window_size_ok_def)
  let ?ok = "fst (allow_count now w (wr_state r))" and ?s = "snd (allow_count now w (wr_state r))"
  have ok: "pointers_ok (wr_state r)" and calls: "calls_ok r" and sw: "sw_inv c (run_abs r)"
    using inv by (simp_all add: window_inv_def)
  have stored: "ws_windows (wr_state r) key = Some w"
    using calls j nth_mem [OF j(1)] by (simp add: calls_ok_def)
  have act: "window_act (Count j now) r = r\<lparr>wr_state := ?s, wr_calls := (wr_calls r)[j := Answered key ?ok],
      wr_now := now, wr_log := (if ?ok then wr_log r @ [(key, now)] else wr_log r)\<rparr>"
    using j by (simp add: case_prod_beta)
  have "run_abs (window_act (Count j now) r) = sw_step (SwAllow now key) (run_abs r)"
    using allow_count_abs [OF ok stored, of now] unfolding act
    by (simp add: run_abs_def map_prod_def case_prod_beta)
  moreover have "sw_inv c (sw_step (SwAllow now key) (run_abs r))"
    using sw_inv_allow [OF sw _ W] time by (simp add: run_abs_def del: sw_step.simps)
  moreover have "calls_ok (window_act (Count j now) r)"
    using calls set_update_subset_insert [of "wr_calls r" j "Answered key ?ok"]
    unfolding act by (auto simp: calls_ok_def allow_count_keeps(2))
  moreover have "pointers_ok (wr_state (window_act (Count j now) r))"
    unfolding act by (simp add: allow_count_keeps(1) [OF ok])
  ultimately show ?thesis using size unfolding window_inv_def by metis
qed

lemma window_inv_sweep:
  assumes inv: "window_inv c r" and apart: "sweep_apart r (Sweep now key)"
  shows "window_inv c (window_act (Sweep now key) r)"
proof -
  have ok: "pointers_ok (wr_state r)" and calls: "calls_ok r" and size: "window_size_ok c"
    and W: "0 < sc_WindowSize c" using inv by (simp_all add: window_inv_def window_size_ok_def)
  let ?r = "window_act (Sweep now key) r" and ?late = "r\<lparr>wr_now := max (wr_now r) now\<rparr>"
  have "run_abs ?late = (run_abs r)\<lparr>sr_now := max (wr_now r) now\<rparr>" by (simp add: run_abs_def)
  then have sw: "sw_inv c (run_abs ?late)"
    using sw_inv_later [of c "run_abs r"] inv by (simp add: window_inv_def run_abs_def)
  have c: "ws_config (wr_state r) = c" using sw by (simp add: sw_inv_def run_abs_def window_abs_def)
  have "ws_windows (wr_state ?r) k = Some w" if h: "Holding k w \<in> set (wr_calls r)" for k w
    using calls h sweep_keeps(2) apart by (cases "k = key") (auto simp: calls_ok_def)
  then have "calls_ok ?r" by (simp add: calls_ok_def)
  moreover have "sw_inv c (run_abs ?r)"
  proof (cases "wr_state ?r = wr_state r")
    case True
    then have "run_abs ?r = run_abs ?late" by (simp add: run_abs_def)
    with sw show ?thesis by simp
  next
    case False
    then obtain w where w: "ws_windows (wr_state r) key = Some w"
      and gone: "wr_state ?r = (wr_state r)\<lparr>ws_windows := (ws_windows (wr_state r))(key := None)\<rparr>"
      and stale: "ws_heap (wr_state r) ! w = [] \<or> last (ws_heap (wr_state r) ! w) < now - sc_WindowSize c * 2"
      by (auto simp: sweep_window_def Let_def c window_size_ok_back [OF size] split: option.splits if_splits)
    have window: "window_of key (window_abs (wr_state r)) = ws_heap (wr_state r) ! w"
      by (simp add: window_of_def window_abs_def w)
    have "sorted (ws_heap (wr_state r) ! w)"
      using sw window by (simp add: sw_inv_def run_abs_def) (metis window)
    then have "\<forall>t \<in> set (ws_heap (wr_state r) ! w). t \<le> last (ws_heap (wr_state r) ! w)"
      by (cases "ws_heap (wr_state r) ! w" rule: rev_cases) (auto simp: sorted_append)
    with stale have "\<forall>t \<in> set (window_of key (window_abs (wr_state r))). t < now - sc_WindowSize c * 2"
      unfolding window by (auto intro: le_less_trans)
    then show ?thesis
      using gone
      by (intro sw_inv_drop [OF sw W, of now "run_abs ?r" key])
        (simp_all add: run_abs_def window_abs_def window_of_def)
  qed
  ultimately show ?thesis using sweep_keeps(1) [OF ok] size by (simp add: window_inv_def)
qed

lemma window_inv_act:
  assumes "window_inv c r" "window_in_time r ev \<and> sweep_apart r ev"
  shows "window_inv c (window_act ev r)"
proof (cases ev)
  case (Arrive key)
  then show ?thesis using assms(1) by (simp add: window_inv_def calls_ok_def run_abs_def)
next
  case (Lookup j)
  then show ?thesis using assms window_inv_lookup [of c r j]
    by (cases "j < length (wr_calls r)"; cases "wr_calls r ! j") simp_all
next
  case (Count j now)
  then show ?thesis using assms window_inv_count [of c r j _ _ now]
    by (cases "j < length (wr_calls r)"; cases "wr_calls r ! j") simp_all
next
  case (Sweep now key)
  then show ?thesis using assms window_inv_sweep [of c r now key] by simp
qed

interpretation windows: invariant_machine window_act
    "\<lambda>r ev. window_in_time r ev \<and> sweep_apart r ev" "window_inv c"
  for c
  by unfold_locales (rule window_inv_act)

lemma window_start_inv:
  assumes "window_size_ok c"
  shows "window_inv c (window_start t c)"
proof -
  have "run_abs (window_start t c) = sw_start t c"
    by (simp add: run_abs_def window_start_def window_abs_def new_window_state_def sw_start_def
        NewSlidingWindowLimiter_def)
  with sw_start_inv [of c t] assms show ?thesis
    by (simp add: window_inv_def window_start_def pointers_ok_def calls_ok_def new_window_state_def)
qed

section \<open>Properties\<close>

lemmas window_eval = window_start_def new_window_state_def example_window_def allow_lookup_def allow_count_def
  sweep_window_def two_windows_back_def Let_def

text \<open>
  C14: The sliding window keeps its bound under concurrency, as long as no clean-up deletes a window that a request
  holds.  For a window of less than \<open>2 ^ 62\<close> nanoseconds and in every interleaving of the two sections of
  the requests with clean-ups at any instants, in which the clock does not go back and a clean-up leaves in
  the map the windows that requests hold between their sections, the requests accepted for a key within
  any window \<open>(t - W, t]\<close> are at most \<open>MaxRequests\<close>.  Without the condition on the clean-ups it is false
  (\<open>orphaned_window_exceeds\<close>).
\<close>

theorem concurrent_window_bound:
  assumes "0 < sc_WindowSize c" "sc_WindowSize c < 2 ^ 62"
    and "run_ok window_act (\<lambda>r ev. window_in_time r ev \<and> sweep_apart r ev) evs (window_start t0 c)"
  shows "int (length (filter (\<lambda>x. t - sc_WindowSize c < x \<and> x \<le> t)
      (map snd (filter (\<lambda>x. fst x = key) (wr_log (run window_act evs (window_start t0 c))))))) \<le>
    max 0 (sint (sc_MaxRequests c))"
  using windows.run_inv [OF window_start_inv assms(3)] assms(1,2)
  by (simp add: window_inv_def window_size_ok_def sw_inv_def run_abs_def in_window_def accepted_times_def)

text \<open>
  Three requests that all look their window up before any counts; a clean-up that comes while one still holds it and
  one that deletes it later, at an instant after the last count; and a request that then finds a new window.
\<close>

definition example_window_events :: "window_event list" where
  "example_window_events =
     [Arrive ''k'', Arrive ''k'', Arrive ''k'', Lookup 0, Lookup 1, Lookup 2, Count 1 5, Count 0 6,
      Sweep 7 ''k'', Count 2 8, Sweep 40 ''k'', Arrive ''k'', Lookup 3, Count 3 41]"

theorem concurrent_window_bound_witness:
  "map snd (wr_log (run window_act example_window_events (window_start 0 example_window))) = [5, 6, 41] \<and>
   ws_windows (wr_state (run window_act (take 11 example_window_events) (window_start 0 example_window))) ''k'' =
     None \<and>
   int (length (filter (\<lambda>x. 8 - 10 < x \<and> x \<le> 8) (map snd (filter (\<lambda>x. fst x = ''k'')
     (wr_log (run window_act example_window_events (window_start 0 example_window))))))) \<le> 2"
proof -
  let ?evs = "example_window_events"
  have size: "0 < sc_WindowSize example_window" "sc_WindowSize example_window < 2 ^ 62"
    by (simp_all add: example_window_def)
  have "run_ok window_act (\<lambda>r ev. window_in_time r ev \<and> sweep_apart r ev) ?evs (window_start 0 example_window)"
    by (simp add: window_eval example_window_events_def)
  note bound = concurrent_window_bound [OF size this, of 8 "''k''"]
  have "sc_WindowSize example_window = 10" "max 0 (sint (sc_MaxRequests example_window)) = 2"
    by (simp_all add: example_window_def)
  with bound
  have "int (length (filter (\<lambda>x. 8 - 10 < x \<and> x \<le> 8) (map snd (filter (\<lambda>x. fst x = ''k'')
     (wr_log (run window_act ?evs (window_start 0 example_window))))))) \<le> 2"
    by (simp only:)
  moreover have "map snd (wr_log (run window_act ?evs (window_start 0 example_window))) = [5, 6, 41]"
    "ws_windows (wr_state (run window_act (take 11 ?evs) (window_start 0 example_window))) ''k'' = None"
    by (simp_all add: window_eval example_window_events_def)
  ultimately show ?thesis by blast
qed

text \<open>
  A clean-up can let more through.  It deletes the empty window of a new key while the first request holds it; the
  request counts in the window that is gone, and the next two find a new one: three requests are accepted at
  once where the limit is two.
\<close>

theorem orphaned_window_exceeds:
  "let evs = [Arrive ''k'', Arrive ''k'', Arrive ''k'', Lookup 0, Sweep 0 ''k'', Count 0 1, Lookup 1, Lookup 2,
      Count 1 1, Count 2 1]
   in run_ok window_act window_in_time evs (window_start 0 example_window) \<and>
      wr_log (run window_act evs (window_start 0 example_window)) = [(''k'', 1), (''k'', 1), (''k'', 1)] \<and>
      sint (sc_MaxRequests example_window) = 2"
  by (simp add: window_eval)

end
