(* ===== verification/BucketRace.thy ===== *)
theory BucketRace
  imports WindowRace
begin

text \<open>
  The token bucket limiter of \<open>middleware/ratelimit.go\<close> under concurrent requests.  \<open>RateLimiter.Allow\<close> finds
  or makes the bucket of its key under the lock of the limiter, releases it, and takes a token under the lock
  of the bucket; the clean-up holds the lock of the limiter and deletes a bucket that it finds full.  As with the windows,
  a clean-up between the two sections of a request leaves the request with a bucket that the map no longer has.
  As long as no clean-up deletes a bucket that a request holds, every interleaving keeps to the burst and the
  rate.
\<close>

section \<open>The code\<close>

text \<open>Buckets are objects: the map of the limiter holds pointers to them, and so does a request between its sections.\<close>

record bucket_state =
  bs_config :: RateLimitConfig
  bs_heap :: "TokenBucket list"
  bs_buckets :: "string \<rightharpoonup> nat"

definition new_bucket_state :: "RateLimitConfig option \<Rightarrow> bucket_state" where
  "new_bucket_state config =
     \<lparr>bs_config = (case config of None \<Rightarrow> DefaultRateLimitConfig | Some c \<Rightarrow> c),
      bs_heap = [], bs_buckets = Map.empty\<rparr>"

text \<open>The section of \<open>Allow\<close> under \<open>rl.mu\<close>, the one under \<open>bucket.mu\<close>, and the clean-up of one key.\<close>

definition bucket_lookup :: "time \<Rightarrow> string \<Rightarrow> bucket_state \<Rightarrow> nat \<times> bucket_state" where
  "bucket_lookup now key s =
     (case bs_buckets s key of
        Some b \<Rightarrow> (b, s)
      | None \<Rightarrow>
          (length (bs_heap s),
           s\<lparr>bs_heap := bs_heap s @ [NewTokenBucket now (of_int (sint (rc_BurstSize (bs_config s))))
                                    (rc_RequestsPerSecond (bs_config s))],
             bs_buckets := (bs_buckets s)(key \<mapsto> length (bs_heap s))\<rparr>))"

definition bucket_take :: "time \<Rightarrow> nat \<Rightarrow> bucket_state \<Rightarrow> bool \<times> bucket_state" where
  "bucket_take now b s =
     (case tb_Allow now (bs_heap s ! b) of
        (ok, bucket) \<Rightarrow> (ok, s\<lparr>bs_heap := (bs_heap s)[b := bucket]\<rparr>))"

definition sweep_bucket :: "time \<Rightarrow> string \<Rightarrow> bucket_state \<Rightarrow> bucket_state" where
  "sweep_bucket now key s =
     (case bs_buckets s key of
        None \<Rightarrow> s
      | Some b \<Rightarrow>
          (case Tokens now (bs_heap s ! b) of
             (tokens, bucket) \<Rightarrow>
               let s' = s\<lparr>bs_heap := (bs_heap s)[b := bucket]\<rparr>
               in if tb_maxTokens bucket \<le> tokens then s'\<lparr>bs_buckets := (bs_buckets s')(key := None)\<rparr>
                  else s'))"

section \<open>Requests and clean-ups, interleaved\<close>

record bucket_run =
  br_state :: bucket_state
  br_calls :: "window_call list"
  br_now :: time
  br_accepted :: "string \<Rightarrow> nat"

text \<open>
  The steps, each with the instant its section reads: a request arrives; the request \<open>j\<close> looks its bucket up; it takes a
  token; the clean-up comes to a key.
\<close>

datatype bucket_event =
  BArrive string | BLookup nat time | BTake nat time | BSweep time string

fun bucket_act :: "bucket_event \<Rightarrow> bucket_run \<Rightarrow> bucket_run" where
  "bucket_act (BArrive key) r = r\<lparr>br_calls := br_calls r @ [Looking key]\<rparr>"
| "bucket_act (BLookup j now) r =
     (if j < length (br_calls r) then
        (case br_calls r ! j of
           Looking key \<Rightarrow>
             (let (b, s) = bucket_lookup now key (br_state r)
              in r\<lparr>br_state := s, br_calls := (br_calls r)[j := Holding key b], br_now := now\<rparr>)
         | _ \<Rightarrow> r)
      else r)"
| "bucket_act (BTake j now) r =
     (if j < length (br_calls r) then
        (case br_calls r ! j of
           Holding key b \<Rightarrow>
             (let (ok, s) = bucket_take now b (br_state r)
              in r\<lparr>br_state := s, br_calls := (br_calls r)[j := Answered key ok], br_now := now,
                   br_accepted := (if ok then (br_accepted r)(key := br_accepted r key + 1)
                                   else br_accepted r)\<rparr>)
         | _ \<Rightarrow> r)
      else r)"
| "bucket_act (BSweep now key) r = r\<lparr>br_state := sweep_bucket now key (br_state r), br_now := now\<rparr>"

text \<open>The clock does not go back; and a clean-up leaves in the map the buckets that requests hold.\<close>

fun bucket_in_time :: "bucket_run \<Rightarrow> bucket_event \<Rightarrow> bool" where
  "bucket_in_time r (BArrive key) \<longleftrightarrow> True"
| "bucket_in_time r (BLookup j now) \<longleftrightarrow> br_now r \<le> now"
| "bucket_in_time r (BTake j now) \<longleftrightarrow> br_now r \<le> now"
| "bucket_in_time r (BSweep now key) \<longleftrightarrow> br_now r \<le> now"

fun bucket_sweep_apart :: "bucket_run \<Rightarrow> bucket_event \<Rightarrow> bool" where
  "bucket_sweep_apart r (BSweep now key) \<longleftrightarrow>
     (\<forall>b. Holding key b \<in> set (br_calls r) \<longrightarrow> bs_buckets (sweep_bucket now key (br_state r)) key = Some b)"
| "bucket_sweep_apart r _ \<longleftrightarrow> True"

definition bucket_start :: "time \<Rightarrow> RateLimitConfig \<Rightarrow> bucket_run" where
  "bucket_start t c =
     \<lparr>br_state = new_bucket_state (Some c), br_calls = [], br_now = t, br_accepted = (\<lambda>key. 0)\<rparr>"

section \<open>The sequential limiter as the abstraction\<close>

definition bucket_abs :: "bucket_state \<Rightarrow> RateLimiter" where
  "bucket_abs s =
     \<lparr>rl_config = bs_config s, rl_buckets = (\<lambda>key. map_option (\<lambda>b. bs_heap s ! b) (bs_buckets s key))\<rparr>"

definition bucket_run_abs :: "bucket_run \<Rightarrow> rl_run_state" where
  "bucket_run_abs r =
     \<lparr>rs_now = br_now r, rs_accepted = br_accepted r, rs_limiter = bucket_abs (br_state r)\<rparr>"

text \<open>Pointers lead to buckets, those of different keys to different ones, and a request holds the bucket of the map.\<close>

definition bucket_pointers_ok :: "bucket_state \<Rightarrow> bool" where
  "bucket_pointers_ok s \<longleftrightarrow>
     (\<forall>key b. bs_buckets s key = Some b \<longrightarrow> b < length (bs_heap s)) \<and>
     (\<forall>key key' b. bs_buckets s key = Some b \<longrightarrow> bs_buckets s key' = Some b \<longrightarrow> key' = key)"

definition held_ok :: "bucket_run \<Rightarrow> bool" where
  "held_ok r \<longleftrightarrow> (\<forall>key b. Holding key b \<in> set (br_calls r) \<longrightarrow> bs_buckets (br_state r) key = Some b)"

definition bucket_inv :: "RateLimitConfig \<Rightarrow> bucket_run \<Rightarrow> bool" where
  "bucket_inv c r \<longleftrightarrow> bucket_pointers_ok (br_state r) \<and> held_ok r \<and> rl_ok c (bucket_run_abs r)"

text \<open>The potential of a key: what it has been given and what it would find.\<close>

definition potential :: "string \<Rightarrow> bucket_run \<Rightarrow> rat" where
  "potential key r = of_nat (br_accepted r key) + available (br_now r) key (bucket_abs (br_state r))"

definition grows_by_rate :: "RateLimitConfig \<Rightarrow> string \<Rightarrow> bucket_run \<Rightarrow> bucket_run \<Rightarrow> bool" where
  "grows_by_rate c key r r' \<longleftrightarrow>
     br_now r \<le> br_now r' \<and>
     potential key r' \<le> potential key r + seconds (br_now r' - br_now r) * rc_RequestsPerSecond c"

text \<open>A write to the bucket of a key is a write to the map of the sequential limiter.\<close>

lemma bucket_abs_write:
  assumes "bucket_pointers_ok s" "bs_buckets s key = Some b"
  shows "bucket_abs (s\<lparr>bs_heap := (bs_heap s)[b := x]\<rparr>) =
    (bucket_abs s)\<lparr>rl_buckets := (rl_buckets (bucket_abs s))(key \<mapsto> x)\<rparr>"
proof -
  have "map_option (\<lambda>i. (bs_heap s)[b := x] ! i) (bs_buckets s k) =
      ((\<lambda>k. map_option (\<lambda>i. bs_heap s ! i) (bs_buckets s k))(key \<mapsto> x)) k" for k
  proof (cases "k = key")
    case True
    then show ?thesis using assms by (simp add: bucket_pointers_ok_def)
  next
    case False
    then have "bs_buckets s k \<noteq> Some b" using assms unfolding bucket_pointers_ok_def by blast
    with False show ?thesis by (cases "bs_buckets s k") auto
  qed
  then show ?thesis by (auto simp: bucket_abs_def)
qed

text \<open>With nothing in between, the two sections are \<open>rl_Allow\<close>.\<close>

lemma bucket_take_abs:
  assumes "bucket_pointers_ok s" "bs_buckets s key = Some b"
  shows "rl_Allow t now key (bucket_abs s) = map_prod id bucket_abs (bucket_take now b s)"
  using bucket_abs_write [OF assms] assms(2)
  by (simp add: rl_Allow_def bucket_take_def Let_def split: prod.split) (simp add: bucket_abs_def)

lemma bucket_lookup_keeps:
  assumes "bucket_pointers_ok s"
  shows "bucket_pointers_ok (snd (bucket_lookup now key s))"
    and "bs_buckets (snd (bucket_lookup now key s)) key = Some (fst (bucket_lookup now key s))"
    and "bs_buckets s k = Some b \<Longrightarrow> bs_buckets (snd (bucket_lookup now key s)) k = Some b"
    and "bs_config (snd (bucket_lookup now key s)) = bs_config s"
  using assms
  by (auto simp: bucket_lookup_def bucket_pointers_ok_def less_Suc_eq split: option.splits if_splits)

lemma bucket_sweep_keeps:
  assumes "bucket_pointers_ok s"
  shows "bucket_pointers_ok (sweep_bucket now key s)"
    and "k \<noteq> key \<Longrightarrow> bs_buckets (sweep_bucket now key s) k = bs_buckets s k"
  using assms
  by (auto simp: sweep_bucket_def bucket_pointers_ok_def Let_def split: option.splits prod.splits if_splits)

section \<open>The invariant of the interleavings\<close>

lemma available_buckets: "available t k (rl\<lparr>rl_buckets := m\<rparr>) =
    (case m k of None \<Rightarrow> burst rl | Some tb \<Rightarrow> tb_tokens (refill t tb))"
  by (simp add: available_def cong: option.case_cong)

text \<open>Neither looking a bucket up nor a clean-up changes what a key would find.\<close>

lemma bucket_lookup_available:
  assumes "rl_inv c t (bucket_abs s)" "t \<le> now" "bucket_pointers_ok s" "0 \<le> burst (bucket_abs s)"
  shows "available now k (bucket_abs (snd (bucket_lookup now key s))) = available now k (bucket_abs s)"
    and "rl_inv c now (bucket_abs (snd (bucket_lookup now key s)))"
proof -
  let ?new = "NewTokenBucket now (of_int (sint (rc_BurstSize (bs_config s)))) (rc_RequestsPerSecond (bs_config s))"
  have new: "tb_tokens (refill now ?new) = burst (bucket_abs s)"
    by (simp add: NewTokenBucket_def refill_tokens time_sub_def min_duration_def max_duration_def
        seconds_def burst_def bucket_abs_def)
  have abs: "bucket_abs (snd (bucket_lookup now key s)) =
      (if bs_buckets s key = None then (bucket_abs s)\<lparr>rl_buckets := (rl_buckets (bucket_abs s))(key \<mapsto> ?new)\<rparr>
       else bucket_abs s)"
    using assms(3)
    by (auto simp: bucket_lookup_def bucket_abs_def bucket_pointers_ok_def nth_append fun_eq_iff
        split: option.splits intro!: option.map_cong0)
  have none: "bs_buckets s key = None \<Longrightarrow> rl_buckets (bucket_abs s) key = None"
    by (simp add: bucket_abs_def)
  show "available now k (bucket_abs (snd (bucket_lookup now key s))) = available now k (bucket_abs s)"
    using new none by (simp add: abs available_buckets) (simp add: available_def)
  have c: "bs_config s = c" using assms(1) by (simp add: rl_inv_def bucket_abs_def)
  have b: "burst (bucket_abs s) = of_int (sint (rc_BurstSize c))" by (simp add: burst_def bucket_abs_def c)
  show "rl_inv c now (bucket_abs (snd (bucket_lookup now key s)))"
    using assms(1,2,4) b by (fastforce simp: abs rl_inv_def NewTokenBucket_def c)
qed

lemma bucket_sweep_available:
  assumes "rl_inv c t (bucket_abs s)" "t \<le> now" "bucket_pointers_ok s" "0 \<le> rc_RequestsPerSecond c"
    "0 \<le> burst (bucket_abs s)"
  shows "available now k (bucket_abs (sweep_bucket now key s)) = available now k (bucket_abs s)"
    and "rl_inv c now (bucket_abs (sweep_bucket now key s))"
proof (atomize (full), cases "bs_buckets s key")
  case None
  then show "available now k (bucket_abs (sweep_bucket now key s)) = available now k (bucket_abs s) \<and>
      rl_inv c now (bucket_abs (sweep_bucket now key s))"
    using assms(1,2) by (force simp: sweep_bucket_def rl_inv_def)
next
  case (Some b)
  let ?b = "refill now (bs_heap s ! b)" and ?rl = "bucket_abs s"
  have stored: "rl_buckets ?rl key = Some (bs_heap s ! b)" using Some by (simp add: bucket_abs_def)
  have tb: "tb_maxTokens (bs_heap s ! b) = burst ?rl" "tb_refillRate (bs_heap s ! b) = rc_RequestsPerSecond c"
    "tb_lastRefill (bs_heap s ! b) \<le> t" "0 \<le> tb_tokens (bs_heap s ! b)"
    using assms(1) stored by (auto simp: rl_inv_def)
  have full: "tb_tokens ?b \<le> burst ?rl" using tb by (simp add: refill_tokens)
  have again: "tb_tokens (refill now ?b) = tb_tokens ?b" using full tb by (intro refill_now) simp_all
  have pos: "0 \<le> tb_tokens ?b"
    using tb assms(2,4,5) time_sub_le [of "tb_lastRefill (bs_heap s ! b)" now]
    by (simp add: refill_tokens seconds_def)
  have abs: "bucket_abs (sweep_bucket now key s) = ?rl\<lparr>rl_buckets :=
      (rl_buckets ?rl)(key := if burst ?rl \<le> tb_tokens ?b then None else Some ?b)\<rparr>"
    using bucket_abs_write [OF assms(3) Some, of ?b] tb(1)
    by (auto simp: sweep_bucket_def Some Tokens_def Let_def bucket_abs_def fun_eq_iff)
  have "available now k (bucket_abs (sweep_bucket now key s)) = available now k ?rl"
    using stored full again by (simp add: abs available_buckets) (simp add: available_def)
  moreover have "rl_inv c now (bucket_abs (sweep_bucket now key s))"
    unfolding rl_inv_def abs
  proof (intro conjI allI impI)
    fix k b' assume "rl_buckets (?rl\<lparr>rl_buckets := (rl_buckets ?rl)
        (key := if burst ?rl \<le> tb_tokens ?b then None else Some ?b)\<rparr>) k = Some b'"
    then have "b' = ?b \<or> rl_buckets ?rl k = Some b'" by (auto split: if_splits)
    then show "tb_maxTokens b' = burst (?rl\<lparr>rl_buckets := (rl_buckets ?rl)
          (key := if burst ?rl \<le> tb_tokens ?b then None else Some ?b)\<rparr>)"
      "tb_refillRate b' = rc_RequestsPerSecond c" "tb_lastRefill b' \<le> now" "0 \<le> tb_tokens b'"
      using assms(1,2) tb pos order_trans [OF _ assms(2)] by (auto simp: rl_inv_def)
  qed (use assms(1) in \<open>simp add: rl_inv_def\<close>)
  ultimately show "available now k (bucket_abs (sweep_bucket now key s)) = available now k ?rl \<and>
      rl_inv c now (bucket_abs (sweep_bucket now key s))" ..
qed

lemma bucket_quiet:
  assumes "rl_ok c (bucket_run_abs r)" "br_now r \<le> now" "br_now r' = now" "br_accepted r' = br_accepted r"
    and "available now key (bucket_abs (br_state r')) = available now key (bucket_abs (br_state r))"
  shows "grows_by_rate c key r r'"
  using available_later [OF assms(1), of "br_now r" now key] assms(2-5)
  by (simp add: grows_by_rate_def potential_def bucket_run_abs_def)

lemma bucket_inv_lookup:
  assumes inv: "bucket_inv c r" and j: "j < length (br_calls r)" "br_calls r ! j = Looking key"
    and time: "br_now r \<le> now"
  shows "bucket_inv c (bucket_act (BLookup j now) r) \<and> grows_by_rate c k r (bucket_act (BLookup j now) r)"
proof -
  let ?s = "snd (bucket_lookup now key (br_state r))" and ?b = "fst (bucket_lookup now key (br_state r))"
  let ?r = "r\<lparr>br_state := ?s, br_calls := (br_calls r)[j := Holding key ?b], br_now := now\<rparr>"
  have act: "bucket_act (BLookup j now) r = ?r" using j by (simp add: case_prod_beta)
  have ok: "bucket_pointers_ok (br_state r)" and held: "held_ok r" and rl: "rl_ok c (bucket_run_abs r)"
    using inv by (simp_all add: bucket_inv_def)
  have old: "rl_inv c (br_now r) (bucket_abs (br_state r))" "0 \<le> burst (bucket_abs (br_state r))"
    using rl burst_nonneg [OF rl] by (simp_all add: rl_ok_def bucket_run_abs_def)
  note keeps = bucket_lookup_keeps [OF ok] and same = bucket_lookup_available [OF old(1) time ok old(2)]
  have "bs_buckets ?s i = Some b" if h: "Holding i b \<in> set ((br_calls r)[j := Holding key ?b])" for i b
  proof (cases "i = key \<and> b = ?b")
    case False
    then have "Holding i b \<in> set (br_calls r)"
      using h set_update_subset_insert [of "br_calls r" j "Holding key ?b"] by auto
    then show ?thesis using held keeps(3) by (simp add: held_ok_def)
  qed (use keeps(2) in simp)
  then have "held_ok ?r" by (simp add: held_ok_def)
  moreover have "rl_ok c (bucket_run_abs ?r)"
    using rl same(2) by (simp add: rl_ok_def bucket_run_abs_def)
  moreover have "grows_by_rate c k r ?r"
    by (rule bucket_quiet [OF rl time]) (simp_all add: same(1))
  ultimately show ?thesis using keeps(1) unfolding act bucket_inv_def by simp
qed

lemma bucket_inv_sweep:
  assumes inv: "bucket_inv c r" and apart: "bucket_sweep_apart r (BSweep now key)" and time: "br_now r \<le> now"
  shows "bucket_inv c (bucket_act (BSweep now key) r) \<and> grows_by_rate c k r (bucket_act (BSweep now key) r)"
proof -
  let ?r = "bucket_act (BSweep now key) r"
  have ok: "bucket_pointers_ok (br_state r)" and held: "held_ok r" and rl: "rl_ok c (bucket_run_abs r)"
    using inv by (simp_all add: bucket_inv_def)
  have old: "rl_inv c (br_now r) (bucket_abs (br_state r))" "0 \<le> burst (bucket_abs (br_state r))"
    "0 \<le> rc_RequestsPerSecond c"
    using rl burst_nonneg [OF rl] by (simp_all add: rl_ok_def bucket_run_abs_def)
  note same = bucket_sweep_available [OF old(1) time ok old(3,2)]
  have "bs_buckets (br_state ?r) i = Some b" if h: "Holding i b \<in> set (br_calls r)" for i b
    using held h bucket_sweep_keeps(2) [OF ok] apart by (cases "i = key") (auto simp: held_ok_def)
  then have "held_ok ?r" by (simp add: held_ok_def)
  moreover have "rl_ok c (bucket_run_abs ?r)"
    using rl same(2) by (simp add: rl_ok_def bucket_run_abs_def)
  moreover have "grows_by_rate c k r ?r"
    by (rule bucket_quiet [OF rl time]) (simp_all add: same(1))
  ultimately show ?thesis using bucket_sweep_keeps(1) [OF ok] unfolding bucket_inv_def by simp
qed

lemma bucket_inv_take:
  assumes inv: "bucket_inv c r" and j: "j < length (br_calls r)" "br_calls r ! j = Holding key b"
    and time: "br_now r \<le> now"
  shows "bucket_inv c (bucket_act (BTake j now) r) \<and> grows_by_rate c k r (bucket_act (BTake j now) r)"
proof -
  let ?ok = "fst (bucket_take now b (br_state r))" and ?s = "snd (bucket_take now b (br_state r))"
  let ?r = "r\<lparr>br_state := ?s, br_calls := (br_calls r)[j := Answered key ?ok], br_now := now,
      br_accepted := (if ?ok then (br_accepted r)(key := br_accepted r key + 1) else br_accepted r)\<rparr>"
  have act: "bucket_act (BTake j now) r = ?r" using j by (simp add: case_prod_beta)
  have ok: "bucket_pointers_ok (br_state r)" and held: "held_ok r" and rl: "rl_ok c (bucket_run_abs r)"
    using inv by (simp_all add: bucket_inv_def)
  have stored: "bs_buckets (br_state r) key = Some b" using held j nth_mem [OF j(1)] by (simp add: held_ok_def)
  have heap: "bs_buckets ?s = bs_buckets (br_state r)" "length (bs_heap ?s) = length (bs_heap (br_state r))"
    by (simp_all add: bucket_take_def split: prod.split)
  have step: "bucket_run_abs ?r = rl_step (RlAllow now now key) (bucket_run_abs r)"
    using bucket_take_abs [OF ok stored, of now now]
    by (simp add: bucket_run_abs_def map_prod_def case_prod_beta)
  have "rl_in_order (bucket_run_abs r) (RlAllow now now key)" using time by (simp add: bucket_run_abs_def)
  note grows = rl_step_potential [OF rl this, of k, folded step]
  have "held_ok ?r"
    using held set_update_subset_insert [of "br_calls r" j "Answered key ?ok"]
    by (auto simp: held_ok_def heap)
  moreover have "bucket_pointers_ok ?s" using ok by (simp add: bucket_pointers_ok_def heap)
  moreover have "grows_by_rate c k r ?r"
    using conjunct2 [OF grows] by (simp add: grows_by_rate_def potential_def bucket_run_abs_def)
  ultimately show ?thesis using conjunct1 [OF grows] unfolding act bucket_inv_def by simp
qed

lemma bucket_inv_act:
  assumes "bucket_inv c r" "bucket_in_time r ev \<and> bucket_sweep_apart r ev"
  shows "bucket_inv c (bucket_act ev r) \<and> grows_by_rate c k r (bucket_act ev r)"
proof -
  have same: "grows_by_rate c k r r" by (simp add: grows_by_rate_def seconds_def)
  show ?thesis
  proof (cases ev)
    case (BArrive key)
    then show ?thesis
      using assms(1) by (simp add: bucket_inv_def held_ok_def bucket_run_abs_def grows_by_rate_def
          potential_def seconds_def)
  next
    case (BLookup j now)
    then show ?thesis using assms same bucket_inv_lookup [of c r j _ now k]
      by (cases "j < length (br_calls r)"; cases "br_calls r ! j") simp_all
  next
    case (BTake j now)
    then show ?thesis using assms same bucket_inv_take [of c r j _ _ now k]
      by (cases "j < length (br_calls r)"; cases "br_calls r ! j") simp_all
  next
    case (BSweep now key)
    then show ?thesis using assms bucket_inv_sweep [of c r now key k] by simp
  qed
qed

lemma grows_by_rate_trans:
  "grows_by_rate c k r s \<Longrightarrow> grows_by_rate c k s t \<Longrightarrow> grows_by_rate c k r t"
  by (simp add: grows_by_rate_def seconds_def field_simps)

interpretation buckets: monotone_machine bucket_act
    "\<lambda>r ev. bucket_in_time r ev \<and> bucket_sweep_apart r ev" "bucket_inv c" "grows_by_rate c k"
  for c k
proof unfold_locales
  show "grows_by_rate c k r r" for r by (simp add: grows_by_rate_def seconds_def)
qed (use bucket_inv_act grows_by_rate_trans in blast)+

lemma bucket_start_inv:
  assumes "0 \<le> rc_RequestsPerSecond c" "0 \<le> sint (rc_BurstSize c)"
  shows "bucket_inv c (bucket_start t c)"
proof -
  have "bucket_run_abs (bucket_start t c) = rl_start t c"
    by (simp add: bucket_run_abs_def bucket_start_def bucket_abs_def new_bucket_state_def rl_start_def
        NewRateLimiter_def)
  with rl_start_ok [OF assms, of t] show ?thesis
    by (simp add: bucket_inv_def bucket_start_def bucket_pointers_ok_def held_ok_def new_bucket_state_def)
qed

section \<open>Properties\<close>

text \<open>
  C38: A token bucket keeps to its burst and its rate under concurrency, as long as no clean-up deletes a bucket that a
  request holds.  With a rate and a burst that are not negative, in every interleaving of the two sections of the
  requests with clean-ups, in which the clock does not go back and a clean-up leaves in the map the buckets
  that requests hold between their sections, and whatever came before: from the instant \<open>T\<close> to the
  instant \<open>T'\<close> at most \<open>BurstSize + RequestsPerSecond (T' - T)\<close> requests of a key are accepted.  Without the
  condition on the clean-ups it is false (\<open>orphaned_bucket_exceeds\<close>).
\<close>

theorem concurrent_bucket_bound:
  assumes "0 \<le> rc_RequestsPerSecond c" "0 \<le> sint (rc_BurstSize c)"
    and "run_ok bucket_act (\<lambda>r ev. bucket_in_time r ev \<and> bucket_sweep_apart r ev) before (bucket_start t0 c)"
    and "r = run bucket_act before (bucket_start t0 c)"
    and "run_ok bucket_act (\<lambda>r ev. bucket_in_time r ev \<and> bucket_sweep_apart r ev) evs r"
  shows "of_nat (br_accepted (run bucket_act evs r) key) - of_nat (br_accepted r key) \<le>
    (of_int (sint (rc_BurstSize c)) :: rat) +
    rc_RequestsPerSecond c * of_int (br_now (run bucket_act evs r) - br_now r) / 10 ^ 9"
proof -
  let ?r' = "run bucket_act evs r"
  have inv: "bucket_inv c r"
    unfolding assms(4) by (rule buckets.run_inv [OF bucket_start_inv [OF assms(1,2)] assms(3)])
  have ok: "rl_ok c (bucket_run_abs r)" "rl_ok c (bucket_run_abs ?r')"
    using inv buckets.run_inv [OF inv assms(5)] by (simp_all add: bucket_inv_def)
  have "potential key ?r' \<le> potential key r + seconds (br_now ?r' - br_now r) * rc_RequestsPerSecond c"
    using buckets.run_le [OF inv assms(5)] by (simp add: grows_by_rate_def)
  moreover have "available (br_now r) key (bucket_abs (br_state r)) \<le> of_int (sint (rc_BurstSize c))"
    using available_bounds(2) [OF ok(1) order_refl, of key] ok(1)
    by (simp add: bucket_run_abs_def rl_ok_def rl_inv_def burst_def)
  moreover have "0 \<le> available (br_now ?r') key (bucket_abs (br_state ?r'))"
    using available_bounds(1) [OF ok(2) order_refl, of key] by (simp add: bucket_run_abs_def)
  ultimately show ?thesis by (simp add: potential_def seconds_def mult.commute)
qed

lemmas bucket_eval = bucket_start_def new_bucket_state_def example_bucket_def bucket_lookup_def bucket_take_def
  sweep_bucket_def Tokens_def tb_Allow_def refill_def NewTokenBucket_def time_sub_def min_duration_def
  max_duration_def seconds_def Let_def

text \<open>
  Three requests share a bucket of two tokens; a clean-up comes while one still holds it; after three seconds
  another finds the bucket full and deletes it, and a request gets a new one.
\<close>

definition example_bucket_events :: "bucket_event list" where
  "example_bucket_events =
     [BArrive ''k'', BArrive ''k'', BArrive ''k'', BLookup 0 0, BLookup 1 0, BLookup 2 0, BTake 1 0, BTake 0 0,
      BSweep 0 ''k'', BTake 2 0, BSweep (3 * 10 ^ 9) ''k'', BArrive ''k'', BLookup 3 (3 * 10 ^ 9),
      BTake 3 (3 * 10 ^ 9)]"

theorem concurrent_bucket_bound_witness:
  "br_calls (run bucket_act example_bucket_events (bucket_start 0 example_bucket)) =
     [Answered ''k'' True, Answered ''k'' True, Answered ''k'' False, Answered ''k'' True] \<and>
   bs_buckets (br_state (run bucket_act (take 11 example_bucket_events) (bucket_start 0 example_bucket))) ''k'' =
     None \<and>
   (of_nat (br_accepted (run bucket_act example_bucket_events (bucket_start 0 example_bucket)) ''k'') :: rat) \<le> 5"
proof -
  let ?evs = "example_bucket_events" and ?start = "bucket_start 0 example_bucket"
  have pre: "0 \<le> rc_RequestsPerSecond example_bucket" "0 \<le> sint (rc_BurstSize example_bucket)"
    "run_ok bucket_act (\<lambda>r ev. bucket_in_time r ev \<and> bucket_sweep_apart r ev) [] ?start"
    "?start = run bucket_act [] ?start"
    by (simp_all add: example_bucket_def)
  have "run_ok bucket_act (\<lambda>r ev. bucket_in_time r ev \<and> bucket_sweep_apart r ev) ?evs ?start"
    by (simp add: bucket_eval example_bucket_events_def)
  note bound = concurrent_bucket_bound [OF pre this, of "''k''"]
  have ends: "br_now (run bucket_act ?evs ?start) = 3 * 10 ^ 9" "br_now ?start = 0" "br_accepted ?start ''k'' = 0"
    by (simp_all add: bucket_eval example_bucket_events_def)
  have config: "rc_RequestsPerSecond example_bucket = 1" "of_int (sint (rc_BurstSize example_bucket)) = (2 :: rat)"
    by (simp_all add: example_bucket_def)
  have "(of_nat (br_accepted (run bucket_act ?evs ?start) ''k'') :: rat) \<le> 5"
    using bound unfolding ends config by simp
  moreover have "br_calls (run bucket_act ?evs ?start) =
      [Answered ''k'' True, Answered ''k'' True, Answered ''k'' False, Answered ''k'' True]"
    "bs_buckets (br_state (run bucket_act (take 11 ?evs) ?start)) ''k'' = None"
    by (simp_all add: bucket_eval example_bucket_events_def)
  ultimately show ?thesis by blast
qed

text \<open>
  A clean-up can let more through.  It finds the bucket of a new key full and deletes it while the first request
  holds it; the request takes a token of the bucket that is gone, and the next two find a new full one: three
  requests are accepted at one instant where the burst is two.
\<close>

theorem orphaned_bucket_exceeds:
  "let evs = [BArrive ''k'', BArrive ''k'', BArrive ''k'', BLookup 0 0, BSweep 0 ''k'', BTake 0 0, BLookup 1 0,
      BLookup 2 0, BTake 1 0, BTake 2 0]
   in run_ok bucket_act bucket_in_time evs (bucket_start 0 example_bucket) \<and>
      br_accepted (run bucket_act evs (bucket_start 0 example_bucket)) ''k'' = 3 \<and>
      br_now (run bucket_act evs (bucket_start 0 example_bucket)) = 0 \<and>
      sint (rc_BurstSize example_bucket) = 2"
  by (simp add: bucket_eval)

end
