(* ===== verification/Background.thy ===== *)
theory Background
  imports Health RateLimit
begin

text \<open>
  Goroutines in the background and the channels that stop them: the periodic checks of \<open>gateway/health.go\<close>, and
  the clean-ups of the limiters of \<open>middleware/ratelimit.go\<close>, which run until \<open>Close\<close>.  A channel is
  its position among the channels made; closing a closed one panics.
\<close>

definition close_channel :: "nat \<Rightarrow> bool list \<Rightarrow> bool list option" where
  "close_channel ch chans = (if chans ! ch then None else Some (chans[ch := True]))"

section \<open>The health checker\<close>

text \<open>
  The loop \<open>run\<close>: at its head it reads the field \<open>stop\<close> for the \<open>select\<close>, then it waits, on that channel and on the
  ticker; after a tick it checks all services.
\<close>

datatype runner = Looping | Selecting nat | InCheck | Ended

record checker_process =
  cp_checker :: HealthChecker
  cp_stop :: nat
  cp_closed :: "bool list"
  cp_starting :: nat
  cp_runners :: "runner list"
  cp_panicked :: bool

definition new_checker_process :: "duration \<Rightarrow> checker_process" where
  "new_checker_process checkPeriod =
     \<lparr>cp_checker = NewHealthChecker checkPeriod, cp_stop = 0, cp_closed = [False], cp_starting = 0,
      cp_runners = [], cp_panicked = False\<rparr>"

text \<open>
  The steps: the locked section of \<open>Start\<close>, its first check with the start of a goroutine, \<open>Stop\<close>, and the steps of
  the goroutine \<open>j\<close>.  When a tick and the closed channel are both there, \<open>select\<close> takes either.
\<close>

datatype checker_event =
  StartSection | StartRunner "string list" "string \<Rightarrow> time" "string \<Rightarrow> probe" | StopCall
| Head nat | Tick nat | Checked nat "string list" "string \<Rightarrow> time" "string \<Rightarrow> probe" | SeesStop nat

definition set_runner :: "nat \<Rightarrow> runner \<Rightarrow> checker_process \<Rightarrow> checker_process" where
  "set_runner j g p = p\<lparr>cp_runners := (cp_runners p)[j := g]\<rparr>"

definition runner_at :: "checker_process \<Rightarrow> nat \<Rightarrow> runner" where
  "runner_at p j = (if j < length (cp_runners p) then cp_runners p ! j else Ended)"

fun checker_act :: "checker_event \<Rightarrow> checker_process \<Rightarrow> checker_process" where
  "checker_act StartSection p =
     (if hc_running (cp_checker p) then p
      else p\<lparr>cp_checker := (cp_checker p)\<lparr>hc_running := True\<rparr>, cp_stop := length (cp_closed p),
             cp_closed := cp_closed p @ [False], cp_starting := cp_starting p + 1\<rparr>)"
| "checker_act (StartRunner ks time outcome) p =
     (if cp_starting p = 0 then p
      else p\<lparr>cp_checker := CheckAll ks time outcome (cp_checker p), cp_starting := cp_starting p - 1,
             cp_runners := cp_runners p @ [Looping]\<rparr>)"
| "checker_act StopCall p =
     (if \<not> hc_running (cp_checker p) then p
      else (case close_channel (cp_stop p) (cp_closed p) of
              None \<Rightarrow> p\<lparr>cp_panicked := True\<rparr>
            | Some chans \<Rightarrow> p\<lparr>cp_closed := chans, cp_checker := (cp_checker p)\<lparr>hc_running := False\<rparr>\<rparr>))"
| "checker_act (Head j) p = (if runner_at p j = Looping then set_runner j (Selecting (cp_stop p)) p else p)"
| "checker_act (Tick j) p =
     (case runner_at p j of Selecting ch \<Rightarrow> set_runner j InCheck p | _ \<Rightarrow> p)"
| "checker_act (Checked j ks time outcome) p =
     (if runner_at p j = InCheck
      then set_runner j Looping (p\<lparr>cp_checker := CheckAll ks time outcome (cp_checker p)\<rparr>) else p)"
| "checker_act (SeesStop j) p =
     (case runner_at p j of
        Selecting ch \<Rightarrow> if cp_closed p ! ch then set_runner j Ended p else p
      | _ \<Rightarrow> p)"

text \<open>Alone, the two steps of a start, and the one of a stop, are \<open>Start\<close> and \<open>Stop\<close> of \<open>Health\<close>.\<close>

lemma start_alone:
  "cp_starting p = 0 \<Longrightarrow>
    cp_checker (run checker_act [StartSection, StartRunner ks time outcome] p) = Start ks time outcome (cp_checker p)"
  by (simp add: Start_def CheckAll_def)

lemma stop_alone:
  "\<not> cp_panicked (checker_act StopCall p) \<Longrightarrow> cp_checker (checker_act StopCall p) = Stop (cp_checker p)"
  by (auto simp: Stop_def split: option.splits)

text \<open>
  While the checker runs, its channel is open, so \<open>Stop\<close> closes no channel twice; and a goroutine waits on no open
  channel but the one that the next \<open>Stop\<close> closes.
\<close>

definition process_ok :: "checker_process \<Rightarrow> bool" where
  "process_ok p \<longleftrightarrow>
     \<not> cp_panicked p \<and> cp_stop p < length (cp_closed p) \<and>
     (hc_running (cp_checker p) \<longrightarrow> \<not> cp_closed p ! cp_stop p) \<and>
     (\<not> hc_running (cp_checker p) \<longrightarrow> cp_closed p ! cp_stop p \<or> cp_runners p = [] \<and> cp_starting p = 0) \<and>
     (\<forall>ch. Selecting ch \<in> set (cp_runners p) \<longrightarrow>
        ch < length (cp_closed p) \<and> (cp_closed p ! ch \<or> ch = cp_stop p))"

lemma process_ok_new: "process_ok (new_checker_process period)"
  by (simp add: process_ok_def new_checker_process_def NewHealthChecker_def)

lemma CheckAll_running [simp]: "hc_running (CheckAll ks time outcome hc) = hc_running hc"
  by (simp add: CheckAll_def)

lemma runner_at_Selecting: "runner_at p j = Selecting ch \<Longrightarrow> j < length (cp_runners p) \<and> Selecting ch \<in> set (cp_runners p)"
  by (auto simp: runner_at_def split: if_splits) (metis nth_mem)

lemma process_ok_set_runner:
  assumes "process_ok p" "j < length (cp_runners p)" "\<And>ch. g = Selecting ch \<Longrightarrow> ch = cp_stop p"
  shows "process_ok (set_runner j g p)"
proof -
  have "Selecting ch \<in> set (cp_runners p) \<or> ch = cp_stop p"
    if "Selecting ch \<in> set ((cp_runners p)[j := g])" for ch
    using that assms(3) set_update_subset_insert [of "cp_runners p" j g] by auto
  then show ?thesis
    using assms(1,2) by (auto simp: process_ok_def set_runner_def)
qed

lemma process_ok_act:
  assumes ok: "process_ok p"
  shows "process_ok (checker_act ev p)"
proof (cases ev)
  case StartSection
  then show ?thesis using ok by (auto simp: process_ok_def nth_append)
next
  case (StartRunner ks time outcome)
  then show ?thesis using ok by (auto simp: process_ok_def)
next
  case StopCall
  then show ?thesis using ok by (auto simp: process_ok_def close_channel_def nth_list_update)
next
  case (Head j)
  then show ?thesis using ok process_ok_set_runner [OF ok, of j "Selecting (cp_stop p)"]
    by (auto simp: runner_at_def split: if_splits)
next
  case (Tick j)
  then show ?thesis using ok process_ok_set_runner [OF ok, of j InCheck] runner_at_Selecting [of p j]
    by (auto split: runner.splits)
next
  case (Checked j ks time outcome)
  have "process_ok (p\<lparr>cp_checker := CheckAll ks time outcome (cp_checker p)\<rparr>)"
    using ok by (simp add: process_ok_def)
  from process_ok_set_runner [OF this, of j Looping] Checked ok show ?thesis
    by (auto simp: runner_at_def split: if_splits)
next
  case (SeesStop j)
  then show ?thesis using ok process_ok_set_runner [OF ok, of j Ended] runner_at_Selecting [of p j]
    by (auto split: runner.splits)
qed

lemma process_ok_run: "process_ok p \<Longrightarrow> process_ok (run checker_act evs p)"
  by (induction evs arbitrary: p) (auto intro: process_ok_act)

text \<open>After a stop, how many steps a goroutine needs to end.\<close>

fun runner_steps :: "runner \<Rightarrow> nat" where
  "runner_steps Ended = 0"
| "runner_steps (Selecting ch) = 1"
| "runner_steps Looping = 2"
| "runner_steps InCheck = 3"

definition process_steps :: "checker_process \<Rightarrow> nat" where
  "process_steps p = (\<Sum>g\<leftarrow>cp_runners p. runner_steps g)"

definition ending_step ::
  "string list \<Rightarrow> (string \<Rightarrow> time) \<Rightarrow> (string \<Rightarrow> probe) \<Rightarrow> checker_event \<Rightarrow> bool" where
  "ending_step ks time outcome ev \<longleftrightarrow> (\<exists>j. ev = Head j \<or> ev = Checked j ks time outcome \<or> ev = SeesStop j)"

definition stopped :: "checker_process \<Rightarrow> bool" where
  "stopped p \<longleftrightarrow> \<not> hc_running (cp_checker p) \<and> cp_starting p = 0"

lemma steps_update_less:
  "j < length gs \<Longrightarrow> runner_steps g < runner_steps (gs ! j) \<Longrightarrow>
    (\<Sum>g\<leftarrow>gs[j := g]. runner_steps g) < (\<Sum>g\<leftarrow>gs. runner_steps g)"
  by (induction gs arbitrary: j) (auto split: nat.splits)

lemma ending_step_exists:
  assumes ok: "process_ok p" and stop: "stopped p" and live: "\<not> list_all (\<lambda>g. g = Ended) (cp_runners p)"
  shows "\<exists>ev. ending_step ks time outcome ev \<and> stopped (checker_act ev p) \<and>
    process_steps (checker_act ev p) < process_steps p"
proof -
  from live obtain j where j: "j < length (cp_runners p)" "cp_runners p ! j \<noteq> Ended"
    by (auto simp: list_all_length)
  have at: "runner_at p j = cp_runners p ! j" using j by (simp add: runner_at_def)
  note less = steps_update_less [OF j(1)]
  show ?thesis
  proof (cases "cp_runners p ! j")
    case Looping
    with at stop less [of "Selecting (cp_stop p)"] show ?thesis
      by (intro exI [of _ "Head j"]) (simp add: ending_step_def stopped_def process_steps_def set_runner_def)
  next
    case (Selecting ch)
    then have "Selecting ch \<in> set (cp_runners p)" using j(1) nth_mem by metis
    moreover have "cp_closed p ! cp_stop p"
      using ok stop j(1) by (auto simp: process_ok_def stopped_def)
    ultimately have "cp_closed p ! ch" using ok by (auto simp: process_ok_def)
    with Selecting at stop less [of Ended] show ?thesis
      by (intro exI [of _ "SeesStop j"]) (simp add: ending_step_def stopped_def process_steps_def set_runner_def)
  next
    case InCheck
    with at stop less [of Looping] show ?thesis
      by (intro exI [of _ "Checked j ks time outcome"])
        (simp add: ending_step_def stopped_def process_steps_def set_runner_def)
  qed (use j in simp)
qed

lemma stopped_drains:
  "process_ok p \<Longrightarrow> stopped p \<Longrightarrow>
    \<exists>evs. length evs \<le> process_steps p \<and> list_all (ending_step ks time outcome) evs \<and>
      list_all (\<lambda>g. g = Ended) (cp_runners (run checker_act evs p))"
proof (induction "process_steps p" arbitrary: p rule: less_induct)
  case less
  show ?case
  proof (cases "list_all (\<lambda>g. g = Ended) (cp_runners p)")
    case True
    then show ?thesis by (intro exI [of _ "[]"]) simp
  next
    case False
    from ending_step_exists [OF less.prems False, of ks time outcome] obtain ev where
      ev: "ending_step ks time outcome ev" "stopped (checker_act ev p)"
      and dec: "process_steps (checker_act ev p) < process_steps p" by blast
    from less.hyps [OF dec process_ok_act [OF less.prems(1)] ev(2)] obtain evs where
      "length evs \<le> process_steps (checker_act ev p)" "list_all (ending_step ks time outcome) evs"
      "list_all (\<lambda>g. g = Ended) (cp_runners (run checker_act evs (checker_act ev p)))" by blast
    with ev(1) dec show ?thesis by (intro exI [of _ "ev # evs"]) simp
  qed
qed

lemma process_steps_bound: "process_steps p \<le> 3 * length (cp_runners p)"
proof -
  have "runner_steps g \<le> 3" for g by (cases g) simp_all
  then have "(\<Sum>g\<leftarrow>gs. runner_steps g) \<le> 3 * length gs" for gs
    by (induction gs) (simp_all add: add_mono)
  then show ?thesis by (simp add: process_steps_def)
qed

section \<open>The clean-ups of the limiters\<close>

text \<open>
  Every limiter has its goroutine, which runs as long as its channel is open.  A limiter per endpoint
  is replaced by the next \<open>SetEndpointLimit\<close> of the endpoint.  \<open>Close\<close> visits the endpoints in the order \<open>ks\<close>.
\<close>

record cleanup_process =
  lc_closed :: "bool list"
  lc_default :: nat
  lc_endpoints :: "string \<rightharpoonup> nat"

definition new_cleanup_process :: cleanup_process where
  "new_cleanup_process = \<lparr>lc_closed = [False], lc_default = 0, lc_endpoints = Map.empty\<rparr>"

definition lc_SetEndpointLimit :: "string \<Rightarrow> cleanup_process \<Rightarrow> cleanup_process" where
  "lc_SetEndpointLimit endpoint p =
     p\<lparr>lc_closed := lc_closed p @ [False], lc_endpoints := (lc_endpoints p)(endpoint \<mapsto> length (lc_closed p))\<rparr>"

fun close_channels :: "nat list \<Rightarrow> bool list \<Rightarrow> bool list option" where
  "close_channels [] chans = Some chans"
| "close_channels (ch # chs) chans =
     (case close_channel ch chans of None \<Rightarrow> None | Some chans' \<Rightarrow> close_channels chs chans')"

definition el_Close :: "string list \<Rightarrow> cleanup_process \<Rightarrow> cleanup_process option" where
  "el_Close ks p =
     map_option (\<lambda>chans. p\<lparr>lc_closed := chans\<rparr>)
       (close_channels (lc_default p # map (\<lambda>k. the (lc_endpoints p k)) ks) (lc_closed p))"

definition cleanups_running :: "cleanup_process \<Rightarrow> nat" where
  "cleanups_running p = length (filter Not (lc_closed p))"

definition cleanup_ok :: "cleanup_process \<Rightarrow> bool" where
  "cleanup_ok p \<longleftrightarrow>
     lc_default p = 0 \<and> 0 < length (lc_closed p) \<and> list_all Not (lc_closed p) \<and>
     ran (lc_endpoints p) \<subseteq> {1..<length (lc_closed p)} \<and> inj_on (lc_endpoints p) (dom (lc_endpoints p))"

lemma cleanup_ok_set: "cleanup_ok p \<Longrightarrow> cleanup_ok (lc_SetEndpointLimit endpoint p)"
proof -
  assume ok: "cleanup_ok p"
  then have fresh: "length (lc_closed p) \<notin> ran (lc_endpoints p)" by (auto simp: cleanup_ok_def)
  have "inj_on ((lc_endpoints p)(endpoint \<mapsto> length (lc_closed p)))
      (insert endpoint (dom (lc_endpoints p)))"
    using ok fresh by (auto simp: cleanup_ok_def inj_on_def ran_def)
  moreover have "ran ((lc_endpoints p)(endpoint \<mapsto> length (lc_closed p))) \<subseteq> {1..<Suc (length (lc_closed p))}"
    using ok by (auto simp: cleanup_ok_def ran_def Suc_le_eq split: if_splits)
  ultimately show ?thesis using ok by (simp add: cleanup_ok_def lc_SetEndpointLimit_def)
qed

lemma cleanup_ok_run: "cleanup_ok (run lc_SetEndpointLimit endpoints new_cleanup_process)"
proof -
  have "cleanup_ok p \<Longrightarrow> cleanup_ok (run lc_SetEndpointLimit endpoints p)" for p
    by (induction endpoints arbitrary: p) (auto intro: cleanup_ok_set)
  moreover have "cleanup_ok new_cleanup_process" by (simp add: cleanup_ok_def new_cleanup_process_def)
  ultimately show ?thesis .
qed

lemma run_limits:
  "length (lc_closed (run lc_SetEndpointLimit endpoints p)) = length (lc_closed p) + length endpoints"
  "dom (lc_endpoints (run lc_SetEndpointLimit endpoints p)) = dom (lc_endpoints p) \<union> set endpoints"
  by (induction endpoints arbitrary: p) (auto simp: lc_SetEndpointLimit_def)

lemma open_count_update:
  "ch < length chans \<Longrightarrow> \<not> chans ! ch \<Longrightarrow>
    length (filter Not chans) = Suc (length (filter Not (chans[ch := True])))"
  by (induction chans arbitrary: ch) (auto split: nat.splits)

lemma close_channels_open:
  "distinct chs \<Longrightarrow> \<forall>ch \<in> set chs. ch < length chans \<and> \<not> chans ! ch \<Longrightarrow>
    \<exists>chans'. close_channels chs chans = Some chans' \<and> length chans' = length chans \<and>
      (\<forall>n < length chans. chans' ! n \<longleftrightarrow> chans ! n \<or> n \<in> set chs) \<and>
      length (filter Not chans') + length chs = length (filter Not chans)"
proof (induction chs arbitrary: chans)
  case (Cons ch chs)
  let ?chans = "chans[ch := True]"
  have ch: "ch < length chans" "\<not> chans ! ch" using Cons.prems(2) by auto
  have "\<forall>c \<in> set chs. c < length ?chans \<and> \<not> ?chans ! c"
    using Cons.prems by (auto simp: nth_list_update)
  with Cons.IH [of ?chans] Cons.prems(1) obtain chans' where
    c: "close_channels chs ?chans = Some chans'" "length chans' = length chans"
      "\<forall>n < length chans. chans' ! n \<longleftrightarrow> ?chans ! n \<or> n \<in> set chs"
      "length (filter Not chans') + length chs = length (filter Not ?chans)" by auto
  moreover have "?chans ! n \<longleftrightarrow> chans ! n \<or> n = ch" if "n < length chans" for n
    using that ch by (auto simp: nth_list_update)
  ultimately show ?case using ch open_count_update [OF ch] by (auto simp: close_channel_def)
qed simp

section \<open>Properties\<close>

text \<open>
  The health checker closes no channel twice.  Whatever starts, stops, ticks and checks interleave, \<open>Stop\<close> never
  panics; and while the checker runs, the goroutines wait on closed channels, which let them end, or on the
  channel that the next \<open>Stop\<close> closes.
\<close>

theorem checker_never_panics:
  "let p = run checker_act evs (new_checker_process period)
   in \<not> cp_panicked p \<and>
      (\<forall>ch. Selecting ch \<in> set (cp_runners p) \<longrightarrow> ch = cp_stop p \<or> cp_closed p ! ch)"
  using process_ok_run [OF process_ok_new, of evs period] by (auto simp: process_ok_def Let_def)

text \<open>
  A stopped checker can come to rest.  When the checker is stopped and no start is under way, at most three steps per
  goroutine, none of them a tick, end all its goroutines: each finishes its check if it is in one, goes to the
  \<open>select\<close> and sees the closed channel.
\<close>

theorem stopped_checker_ends:
  assumes "p = run checker_act evs (new_checker_process period)"
    and "\<not> hc_running (cp_checker p)" "cp_starting p = 0"
  shows "\<exists>evs'. length evs' \<le> 3 * length (cp_runners p) \<and> list_all (ending_step ks time outcome) evs' \<and>
    list_all (\<lambda>g. g = Ended) (cp_runners (run checker_act evs' p))"
proof -
  have "process_ok p" unfolding assms(1) by (rule process_ok_run [OF process_ok_new])
  from stopped_drains [OF this, of ks time outcome] assms(2,3) obtain evs' where
    "length evs' \<le> process_steps p" "list_all (ending_step ks time outcome) evs'"
    "list_all (\<lambda>g. g = Ended) (cp_runners (run checker_act evs' p))" by (auto simp: stopped_def)
  with process_steps_bound [of p] show ?thesis by (intro exI [of _ evs']) simp
qed

definition no_answers :: "string \<Rightarrow> probe" where
  "no_answers name = NoAnswer ''refused'' 0"

theorem stopped_checker_ends_witness:
  "\<exists>evs'. length evs' \<le> 3 \<and> list_all (ending_step [] (\<lambda>k. 0) no_answers) evs' \<and>
     list_all (\<lambda>g. g = Ended) (cp_runners (run checker_act evs' (run checker_act
       [StartSection, StartRunner [] (\<lambda>k. 0) no_answers, Head 0, Tick 0, StopCall] (new_checker_process 0))))"
proof -
  let ?p = "run checker_act [StartSection, StartRunner [] (\<lambda>k. 0) no_answers, Head 0, Tick 0, StopCall]
      (new_checker_process 0)"
  have "\<not> hc_running (cp_checker ?p)" "cp_starting ?p = 0" "length (cp_runners ?p) = 1"
    by (simp_all add: new_checker_process_def NewHealthChecker_def close_channel_def runner_at_def set_runner_def
        CheckAll_def)
  with stopped_checker_ends [OF refl, of _ 0, where ks = "[]" and time = "\<lambda>k. 0" and outcome = no_answers]
  show ?thesis by (metis mult.right_neutral)
qed

text \<open>
  A restart can leave the old goroutine running.  It is in a check while the checker is stopped and started again;
  afterwards it reads the new channel at the head of its loop, and two goroutines check the services.
\<close>

theorem restart_keeps_old_goroutine:
  "let p = run checker_act
       [StartSection, StartRunner [] time outcome, Head 0, Tick 0, StopCall,
        StartSection, StartRunner [] time outcome, Head 1, Checked 0 [] time outcome, Head 0]
       (new_checker_process period)
   in cp_runners p = [Selecting (cp_stop p), Selecting (cp_stop p)] \<and> hc_running (cp_checker p) \<and>
      \<not> cp_closed p ! cp_stop p"
  by (simp add: new_checker_process_def NewHealthChecker_def close_channel_def runner_at_def set_runner_def
      CheckAll_def Let_def)

text \<open>
  \<open>Close\<close> of the limits per endpoint stops the default limiter and the present limiter of every endpoint, without
  a panic.  The limiters that \<open>SetEndpointLimit\<close> replaced are out of reach: as many clean-ups keep running as
  there were calls beyond the first of an endpoint.
\<close>

theorem replaced_limiters_keep_running:
  assumes "p = run lc_SetEndpointLimit endpoints new_cleanup_process"
    and "distinct ks" "set ks = dom (lc_endpoints p)"
  shows "\<exists>p'. el_Close ks p = Some p' \<and> cleanups_running p' = length endpoints - card (set endpoints)"
proof -
  have ok: "cleanup_ok p" unfolding assms(1) by (rule cleanup_ok_run)
  let ?chs = "lc_default p # map (\<lambda>k. the (lc_endpoints p k)) ks"
  have stored: "\<exists>ch. lc_endpoints p k = Some ch \<and> ch \<in> {1..<length (lc_closed p)}" if "k \<in> set ks" for k
    using that assms(3) ok by (fastforce simp: cleanup_ok_def ran_def)
  have inj: "inj_on (\<lambda>k. the (lc_endpoints p k)) (set ks)"
    using ok unfolding cleanup_ok_def inj_on_def assms(3) by (metis domD option.sel)
  have "distinct ?chs"
    using ok stored inj assms(2) by (fastforce simp: cleanup_ok_def distinct_map)
  moreover have "\<forall>ch \<in> set ?chs. ch < length (lc_closed p) \<and> \<not> lc_closed p ! ch"
    using ok stored by (fastforce simp: cleanup_ok_def list_all_length)
  ultimately obtain chans where c: "close_channels ?chs (lc_closed p) = Some chans"
    "length (filter Not chans) + length ?chs = length (filter Not (lc_closed p))"
    using close_channels_open by blast
  have "length (filter Not (lc_closed p)) = Suc (length endpoints)"
  proof -
    have "filter Not (lc_closed p) = lc_closed p"
      using ok by (auto simp: cleanup_ok_def list_all_iff intro: filter_True)
    then show ?thesis
      using run_limits(1) [of endpoints new_cleanup_process] by (simp add: assms(1) new_cleanup_process_def)
  qed
  moreover have "length ks = card (set endpoints)"
    using assms run_limits(2) [of endpoints new_cleanup_process]
    by (simp add: new_cleanup_process_def flip: distinct_card)
  ultimately show ?thesis using c by (simp add: el_Close_def cleanups_running_def)
qed

theorem replaced_limiters_keep_running_witness:
  "\<exists>p'. el_Close [''/a'', ''/b''] (run lc_SetEndpointLimit [''/a'', ''/b'', ''/a''] new_cleanup_process) = Some p' \<and>
     cleanups_running p' = 1"
proof -
  let ?p = "run lc_SetEndpointLimit [''/a'', ''/b'', ''/a''] new_cleanup_process"
  have "set [''/a'', ''/b''] = dom (lc_endpoints ?p)"
    unfolding run_limits(2) by (simp add: new_cleanup_process_def insert_commute)
  from replaced_limiters_keep_running [OF refl _ this] obtain p' where
    "el_Close [''/a'', ''/b''] ?p = Some p'" "cleanups_running p' = 3 - card {''/a'', ''/b'', ''/a''}"
    by auto
  then show ?thesis by (intro exI [of _ p']) (simp add: insert_commute del: run.simps)
qed

text \<open>A second \<open>Close\<close> panics, at the default limiter already.\<close>

theorem second_close_panics:
  "map_option (el_Close []) (el_Close [] new_cleanup_process) = Some None"
  by (simp add: el_Close_def new_cleanup_process_def close_channel_def)

end
