(* ===== verification/Spec2Isabelle.thy ===== *)
theory Spec2Isabelle
  imports ApiKeys PaymentRouter Gateway Bulkhead Retry Cache TransactionApi AccountApi LedgerApi NotificationApi
    Migrations Metrics Configuration Logging Authentication EntryGateway Payments PayPalTokens Lifecycle
    IntegrationSuite TransactionRace AccountRace WindowRace BucketRace Background
begin

text \<open>
  Amanah, a payment gateway: a verification library for its Go sources.

  \<^bold>\<open>The program.\<close>  An API gateway (\<open>libs/gateway\<close>) receives the requests of clients.  It takes them through
  middleware (\<open>libs/middleware\<close>: security headers, cross-origin rules, rate limits, authentication by JWT or
  API key), finds a route, asks the circuit breaker of its service, and proxies to one of four services:
  transactions, accounts, the ledger and notifications (\<open>services/\<close>), each a program of its own with HTTP
  handlers over a service over a repository in memory.  Two more programs are an entry gateway, which
  proxies one pattern to the transactions, and a login service.  Payments are routed to providers by
  \<open>integrations/router\<close> and sent by the clients \<open>integrations/stripe\<close> and \<open>integrations/paypal\<close>.  Libraries give
  retries, bulkheads, time limits, errors and a cache (\<open>libs/resilience\<close>, \<open>libs/cache\<close>), roles, tokens and keys
  (\<open>libs/auth\<close>), configuration, logging, metrics and database access (\<open>libs/config\<close>, \<open>libs/logging\<close>,
  \<open>libs/metrics\<close>, \<open>libs/database\<close>), and what tests need (\<open>libs/testing\<close>).

  \<^bold>\<open>Theories and sources.\<close>

  \<^item> \<open>Go_Prelude\<close>: 64-bit integers with the wrap-around of Go, instants, the environment an operation reads
    (entropy, clock), slices that panic, pagination, strings, and the machines whose invariants are
    lifted from one operation to runs.  \<open>Go_Floats\<close>: the floating-point arithmetic the sources use, over the
    reals.  \<open>Identifiers\<close>: \<open>generateID\<close> of the services.
  \<^item> \<open>Ledger\<close>: \<open>services/ledger/models\<close> and \<open>services/ledger/services\<close>.  The state is the record
    \<open>LedgerService\<close>.  The books balance, balances are the replay of the entries, the log only grows, and a
    journal request has the error of its first fault or moves the accounts by its debits and credits.
  \<^item> \<open>Transaction\<close>: \<open>services/transaction\<close>, its status machine, the repository as a record of functions with
    its laws (locale \<open>tx_store\<close>), the service over it; the service keeps the contract of a payment, a machine
    with integer amounts stated without the code (\<open>pay\<close>), money and status invariants hold along runs of
    calls one after the other, creation is idempotent.
  \<^item> \<open>Interleaving\<close>, \<open>TransactionRace\<close>, \<open>AccountRace\<close>: the operations of these two services as goroutines on shared
    pointers, without a lock from the check to the write.  \<open>interleave\<close> lets any goroutine do its
    next action.  Requests for different objects do what they do one after the other; balances are exact in every
    interleaving, because \<open>UpdateBalanceAtomic\<close> checks under the lock; two refunds of one payment may exceed it.
  \<^item> \<open>Account\<close>: \<open>services/account\<close>, in the same manner (locale \<open>account_store\<close>), with the contract
    \<open>account_contract\<close>; balances are conserved.
  \<^item> \<open>Notification\<close>: \<open>services/notification\<close>.  The goroutines (a worker, retries, callers that found the queue
    full) are the steps of the inductive relation \<open>delivery_step\<close> on configurations, in any
    interleaving: nothing is lost, every delivery ends.
  \<^item> \<open>Api\<close>, \<open>TransactionApi\<close>, \<open>AccountApi\<close>, \<open>LedgerApi\<close>, \<open>NotificationApi\<close>: the HTTP handlers and the routes
    of the four programs, composed with the services above.  The locale \<open>server\<close> says that requests
    do nothing to the state but to make calls of the service, so that the invariants of the
    services hold of whatever requests arrive; further theorems say what is answered, that failures change
    nothing, and which requests make a handler panic.
  \<^item> \<open>Base64\<close>, \<open>Jwt\<close>, \<open>RBAC\<close>, \<open>ApiKeys\<close>: \<open>libs/auth\<close>.  Tokens round trip and only authentic ones are accepted;
    the permissions of a role are those of the roles it reaches; revoked keys stay unusable.
  \<^item> \<open>Http\<close>, \<open>AuthMiddleware\<close>, \<open>Regex\<close>, \<open>Security\<close>, \<open>RateLimit\<close>: \<open>libs/middleware\<close>; regular expressions are
    decided by derivatives; the limiters keep their bounds for calls one after the other.  \<open>WindowRace\<close>,
    \<open>BucketRace\<close>: the bounds of the sliding window and of the token bucket in every interleaving of their
    locked sections and their clean-ups, as long as no clean-up deletes a window or a bucket in use, and the runs
    that exceed them when one does.
  \<^item> \<open>CircuitBreaker\<close>, \<open>Health\<close>, \<open>Gateway\<close>: \<open>libs/gateway\<close>.  A backend is reached only by a request that a route
    serves, whose credentials it accepts, within its rate, and that the breaker of its service admits.  \<open>Background\<close>: the
    goroutines of the health checker and of the limiters, and the channels that stop them.
  \<^item> \<open>Bulkhead\<close>, \<open>AppErrors\<close>, \<open>Retry\<close>: \<open>libs/resilience\<close>.  The callers of a bulkhead are threads with program
    counters, interleaved freely; retries and their delays are bounded.
  \<^item> \<open>Cache\<close>: \<open>libs/cache\<close>, refining a map of the last values written.
  \<^item> \<open>PaymentRouter\<close>: \<open>integrations/router\<close> with the selection of providers, retries and failover; the
    exchange sort of the code is a sorted permutation.
  \<^item> \<open>HttpClient\<close>, \<open>Stripe\<close>, \<open>PayPal\<close>, \<open>PayPalTokens\<close>, \<open>Payments\<close>: the clients of the providers, down to the requests
    they send, and their composition with the router: all requests of a payment to Stripe are one charge.  The
    access token of PayPal is requested once, whatever the interleaving of the two sections of \<open>getAccessToken\<close>.
  \<^item> \<open>Authentication\<close>, \<open>EntryGateway\<close>: \<open>services/authentication\<close> and \<open>services/api-gateway\<close>, the latter over the
    program of the transactions: a valid token comes from a login (and never ceases to be valid), and the
    entry gateway creates nothing.
  \<^item> \<open>Lifecycle\<close>: the start and the shutdown in \<open>cmd/main.go\<close> of the six programs, as phases of a step relation;
    which requests a shutdown lets end, and which it cuts.
  \<^item> \<open>Strconv\<close>, \<open>Configuration\<close>: reading numbers, and \<open>libs/config\<close>: defaults, file, environment, validation.
  \<^item> \<open>Json\<close>, \<open>Masking\<close>, \<open>MaskedJson\<close>, \<open>Logging\<close>: \<open>libs/logging\<close> down to the bytes of its lines: the JSON that
    \<open>json.Marshal\<close> writes, the masking by regular expressions, the logger.  The secrets under the masked keys do not
    influence a line.
  \<^item> \<open>Metrics\<close>: \<open>libs/metrics\<close>; histograms count what they observe, and requests are accounted for.
  \<^item> \<open>Database\<close>, \<open>Migrations\<close>: \<open>libs/database\<close> over a server that keeps a schema and the table of migrations and whose
    calls may fail, also after their effect; migrating makes a prefix of the migrations.
  \<^item> \<open>Mocks\<close>, \<open>MockQueue\<close>, \<open>Fixtures\<close>, \<open>Assertions\<close>, \<open>IntegrationSuite\<close>: \<open>libs/testing\<close>.  The queue delivers in
    order (locale \<open>message_queue\<close>), the environment is restored, fixtures have identifiers of their own, and a
    parallel benchmark of commuting actions ends as a sequential one.

  \<^bold>\<open>Conventions.\<close>  Structs are records, tagged constants datatypes, \<open>int64\<close> is a word of 64 bits read by
  \<open>sint\<close>, errors are the left of a sum, a nil pointer or a panic is \<open>None\<close>, and methods pass the state
  explicitly.  A method that holds a lock is one step; code between locks is split into the steps other
  goroutines can see (\<open>Notification\<close>, \<open>Bulkhead\<close>,
  \<open>PayPalTokens\<close>, \<open>Interleaving\<close>, \<open>WindowRace\<close>, \<open>BucketRace\<close>, \<open>Background\<close>, \<open>IntegrationSuite\<close>).  Coarser than that are
  \<open>RateLimit\<close> and \<open>Gateway\<close>, whose calls run one after the other, and three steps of \<open>Notification\<close>, named there.  Repositories, caches and provider clients are records of
  functions, like the interface values of Go; their laws are locales, interpreted on the
  implementations of the sources.  Every function is total: loops recurse over lists, maps in the order they
  are given, or down a measure; the loops that can wait forever (\<open>sync_wait\<close>, and \<open>poll\<close> of the assertions) are
  \<open>partial_function\<close>s with theorems on when they return.  There is no fuel.

  \<^bold>\<open>Parameters.\<close>  What is not in the sources is an argument: the entropy source and the clock, SHA-256 and
  HMAC, what \<open>encoding/json\<close> makes of a text, the order in which Go visits a map, the senders of messages, the
  transport of HTTP under the clients of providers, the faults of the database server, and the backends.  Hypotheses on them state documented behaviour, such as that
  decoding inverts encoding, and have instances.

  \<^bold>\<open>Not modelled.\<close>  The transport of HTTP and the decoding of JSON; the rounding of floating-point numbers; real
  delays; in \<open>AccountRace\<close> the changes of profile, verification and payment instruments, which only the sequential
  model has; SQL beyond the schema and the migrations table; the figures of the Go runtime among the metrics; a panic of the
  reverse proxy under the gateway;
  in \<open>libs/testing\<close> the certificates of the TLS server and the closing of bodies.  The sort of the migrations, \<open>sort.Slice\<close>, is taken to be stable.
\<close>

end
